(* ===== verification/Sift_Prelude.thy ===== *)
theory Sift_Prelude
  imports Main
    "HOL-Library.Word"
    "HOL-Library.Multiset"
    "HOL-Library.List_Lexorder"
    "HOL-Library.Char_ord"
begin

text \<open>
  Shared vocabulary of the development.

  Rust's fixed-width integers are words: a counter the code adds to with
  \<^verbatim>\<open>saturating_add\<close> is a \<^verbatim>\<open>u64\<close> here with the same saturating operations, whose
  meaning on natural numbers is given once (collection \<open>sat_unat\<close>).  A \<^verbatim>\<open>Result<T, E>\<close> is
  a sum with the error on the left; \<open>res_bind\<close> is the \<^verbatim>\<open>?\<close> operator and \<open>res_map\<close> is
  \<^verbatim>\<open>map\<close> followed by \<^verbatim>\<open>collect::<Result<Vec<_>>>()\<close>.  Strings are byte strings, as a
  Rust \<^verbatim>\<open>str\<close> is, and are ordered bytewise.

  The last part states two interfaces the components share: a reservation ledger whose
  permits release what they reserved, and a transition system with an invariant.
\<close>

section \<open>Machine integers\<close>

named_theorems sat_unat "the saturating operations read as natural numbers"

type_synonym u8 = "8 word"
type_synonym u32 = "32 word"
type_synonym u64 = "64 word"
type_synonym usize = "64 word"

text \<open>Signed identifiers and row identifiers are only compared, so they are integers.\<close>

type_synonym i64 = int

definition sat_add :: "'a::len word \<Rightarrow> 'a word \<Rightarrow> 'a word" where
  "sat_add a b = (if unat a + unat b < 2 ^ LENGTH('a) then a + b else - 1)"

definition sat_sub :: "'a::len word \<Rightarrow> 'a word \<Rightarrow> 'a word" where
  "sat_sub a b = (if b \<le> a then a - b else 0)"

text \<open>\<^verbatim>\<open>T::try_from(n).unwrap_or(T::MAX)\<close> of a length.\<close>

definition sat_of_nat :: "nat \<Rightarrow> 'a::len word" where
  "sat_of_nat n = (if n < 2 ^ LENGTH('a) then of_nat n else - 1)"

lemma unat_max_word [sat_unat]: "unat (- 1 :: 'a::len word) = 2 ^ LENGTH('a) - 1"
proof -
  have "int (unat (- 1 :: 'a word)) = int (2 ^ LENGTH('a) - 1)"
    by (simp add: unsigned_minus_1_eq_mask mask_eq_exp_minus_1 of_nat_diff)
  then show ?thesis by (simp only: of_nat_eq_iff)
qed

lemma unat_sat_add [sat_unat]:
  "unat (sat_add a b :: 'a::len word) = min (unat a + unat b) (2 ^ LENGTH('a) - 1)"
proof (cases "unat a + unat b < 2 ^ LENGTH('a)")
  case True
  then have "unat (a + b) = unat a + unat b"
    by (simp add: unat_word_ariths)
  with True show ?thesis by (simp add: sat_add_def)
next
  case False
  then show ?thesis by (simp add: sat_add_def unat_max_word)
qed

lemma unat_sat_sub [sat_unat]: "unat (sat_sub a b) = unat a - unat b"
  by (auto simp: sat_sub_def word_le_nat_alt unat_sub)

lemma unat_sat_of_nat [sat_unat]:
  "unat (sat_of_nat n :: 'a::len word) = min n (2 ^ LENGTH('a) - 1)"
  by (auto simp: sat_of_nat_def unat_max_word unat_of_nat)

lemma sat_add_zero [simp]: "sat_add 0 a = a" "sat_add a 0 = a"
  by (simp_all add: sat_add_def)

lemma sat_sub_zero [simp]: "sat_sub a 0 = a" "sat_sub 0 a = 0"
  by (auto simp: sat_sub_def)

lemma unat_le_max: "unat (a :: 'a::len word) \<le> 2 ^ LENGTH('a) - 1"
proof -
  have "unat a < 2 ^ LENGTH('a)" by (rule unsigned_less)
  then show ?thesis by linarith
qed

lemma sat_add_mono: "unat a \<le> unat (sat_add a b)"
  using unat_le_max [of a] by (simp add: sat_unat)

section \<open>Results\<close>

type_synonym ('e, 'a) result = "'e + 'a"

definition res_bind :: "('e, 'a) result \<Rightarrow> ('a \<Rightarrow> ('e, 'b) result) \<Rightarrow> ('e, 'b) result" where
  "res_bind r f = (case r of Inl e \<Rightarrow> Inl e | Inr x \<Rightarrow> f x)"

fun res_map :: "('a \<Rightarrow> ('e, 'b) result) \<Rightarrow> 'a list \<Rightarrow> ('e, 'b list) result" where
  "res_map f [] = Inr []"
| "res_map f (x # xs) =
     (case f x of
        Inl e \<Rightarrow> Inl e
      | Inr y \<Rightarrow> (case res_map f xs of Inl e \<Rightarrow> Inl e | Inr ys \<Rightarrow> Inr (y # ys)))"

text \<open>\<^verbatim>\<open>option.ok_or(e)\<close>.\<close>

definition ok_or :: "'e \<Rightarrow> 'a option \<Rightarrow> ('e, 'a) result" where
  "ok_or e x = (case x of None \<Rightarrow> Inl e | Some y \<Rightarrow> Inr y)"

lemma res_bind_simps [simp]:
  "res_bind (Inl e) f = Inl e"
  "res_bind (Inr x) f = f x"
  by (simp_all add: res_bind_def)

lemma res_bind_Inr_conv: "res_bind r f = Inr y \<longleftrightarrow> (\<exists>x. r = Inr x \<and> f x = Inr y)"
  by (cases r) auto

lemma res_bind_Inl_conv:
  "res_bind r f = Inl e \<longleftrightarrow> r = Inl e \<or> (\<exists>x. r = Inr x \<and> f x = Inl e)"
  by (cases r) auto

lemma res_bind_cong [fundef_cong]:
  "r = r' \<Longrightarrow> (\<And>x. r' = Inr x \<Longrightarrow> f x = g x) \<Longrightarrow> res_bind r f = res_bind r' g"
  by (cases r') auto

lemma ok_or_conv [simp]:
  "ok_or e x = Inr y \<longleftrightarrow> x = Some y"
  "ok_or e x = Inl e' \<longleftrightarrow> x = None \<and> e' = e"
  by (auto simp: ok_or_def split: option.splits)

lemma res_map_length: "res_map f xs = Inr ys \<Longrightarrow> length ys = length xs"
  by (induction xs arbitrary: ys) (auto split: sum.splits)

lemma res_map_nth:
  "res_map f xs = Inr ys \<Longrightarrow> i < length xs \<Longrightarrow> f (xs ! i) = Inr (ys ! i)"
  by (induction xs arbitrary: ys i) (auto split: sum.splits simp: nth_Cons')

lemma res_map_Inr_conv: "res_map f xs = Inr ys \<longleftrightarrow> map f xs = map Inr ys"
  by (induction xs arbitrary: ys) (force split: sum.splits simp: Cons_eq_map_conv)+

lemma res_map_Inl_ex: "res_map f xs = Inl e \<Longrightarrow> \<exists>x\<in>set xs. f x = Inl e"
  by (induction xs) (auto split: sum.splits)

lemma res_map_total: "(\<And>x. x \<in> set xs \<Longrightarrow> \<exists>y. f x = Inr y) \<Longrightarrow> \<exists>ys. res_map f xs = Inr ys"
  by (induction xs) fastforce+

text \<open>\<^verbatim>\<open>Result::map_err\<close>.\<close>

definition map_err :: "('e \<Rightarrow> 'f) \<Rightarrow> ('e, 'a) result \<Rightarrow> ('f, 'a) result" where
  "map_err f r = (case r of Inl e \<Rightarrow> Inl (f e) | Inr x \<Rightarrow> Inr x)"

lemma map_err_conv [simp]:
  "map_err f r = Inr x \<longleftrightarrow> r = Inr x"
  "map_err f (Inr x) = Inr x" "map_err f (Inl e) = Inl (f e)"
  by (auto simp: map_err_def split: sum.splits)

text \<open>A loop over a list that carries a state and may return an error early.\<close>

fun res_fold :: "('s \<Rightarrow> 'a \<Rightarrow> ('e, 's) result) \<Rightarrow> 's \<Rightarrow> 'a list \<Rightarrow> ('e, 's) result" where
  "res_fold f s [] = Inr s"
| "res_fold f s (x # xs) = res_bind (f s x) (\<lambda>s'. res_fold f s' xs)"

lemma res_fold_append:
  "res_fold f s (xs @ ys) = res_bind (res_fold f s xs) (\<lambda>s'. res_fold f s' ys)"
proof (induction xs arbitrary: s)
  case (Cons x xs)
  then show ?case by (cases "f s x") simp_all
qed simp

lemma res_fold_invariant:
  "res_fold f s xs = Inr s' \<Longrightarrow> P s \<Longrightarrow> (\<And>s x s'. x \<in> set xs \<Longrightarrow> P s \<Longrightarrow> f s x = Inr s' \<Longrightarrow> P s') \<Longrightarrow> P s'"
  by (induction xs arbitrary: s) (auto simp: res_bind_Inr_conv)

section \<open>Lists and text\<close>

fun join_with :: "string \<Rightarrow> string list \<Rightarrow> string" where
  "join_with sep [] = ''''"
| "join_with sep [x] = x"
| "join_with sep (x # y # ys) = x @ sep @ join_with sep (y # ys)"

fun show_nat :: "nat \<Rightarrow> string" where
  "show_nat n =
     (if n < 10 then [char_of (48 + n)] else show_nat (n div 10) @ [char_of (48 + n mod 10)])"

declare show_nat.simps [simp del]

definition is_digit :: "char \<Rightarrow> bool" where
  "is_digit c = (48 \<le> (of_char c :: nat) \<and> (of_char c :: nat) \<le> 57)"

definition digit_val :: "char \<Rightarrow> nat" where
  "digit_val c = (of_char c :: nat) - 48"

definition read_nat :: "string \<Rightarrow> nat" where
  "read_nat s = foldl (\<lambda>n c. 10 * n + digit_val c) 0 s"

lemma of_char_digit: "d < 10 \<Longrightarrow> (of_char (char_of (48 + d :: nat) :: char) :: nat) = 48 + d"
  by (simp add: of_char_of)

lemma show_nat_digits: "\<forall>c\<in>set (show_nat n). is_digit c"
proof (induction n rule: show_nat.induct)
  case (1 n)
  have "n mod 10 < 10" by simp
  with 1 show ?case
    by (subst show_nat.simps) (auto simp: is_digit_def of_char_digit split: if_splits)
qed

lemma show_nat_nonempty [simp]: "show_nat n \<noteq> []"
  by (subst show_nat.simps) simp

lemma read_show_nat: "read_nat (show_nat n) = n"
proof (induction n rule: show_nat.induct)
  case (1 n)
  show ?case
  proof (cases "n < 10")
    case True
    then show ?thesis
      by (subst show_nat.simps) (simp add: read_nat_def digit_val_def of_char_digit)
  next
    case False
    have "n mod 10 < 10" by simp
    with False 1 show ?thesis
      by (subst show_nat.simps) (simp add: read_nat_def digit_val_def of_char_digit)
  qed
qed

lemma show_nat_inj [simp]: "show_nat m = show_nat n \<longleftrightarrow> m = n"
  by (metis read_show_nat)

definition show_int :: "int \<Rightarrow> string" where
  "show_int n = (if n < 0 then CHR ''-'' # show_nat (nat (- n)) else show_nat (nat n))"

definition hex_digit :: "nat \<Rightarrow> char" where
  "hex_digit d = char_of (if d < 10 then 48 + d else 87 + d)"

text \<open>\<^verbatim>\<open>format!("{:0w$x}")\<close> of a value below \<open>16 ^ w\<close>.\<close>

fun hex_padded :: "nat \<Rightarrow> nat \<Rightarrow> string" where
  "hex_padded 0 n = []"
| "hex_padded (Suc w) n = hex_padded w (n div 16) @ [hex_digit (n mod 16)]"

text \<open>\<^verbatim>\<open>str::replace\<close> of one character by a string.\<close>

definition replace_char :: "char \<Rightarrow> string \<Rightarrow> string \<Rightarrow> string" where
  "replace_char c by s = concat (map (\<lambda>x. if x = c then by else [x]) s)"

lemma replace_char_simps [simp]:
  "replace_char c by [] = []"
  "replace_char c by (x # xs) = (if x = c then by else [x]) @ replace_char c by xs"
  by (simp_all add: replace_char_def)

text \<open>\<^verbatim>\<open>str::strip_prefix\<close>, \<^verbatim>\<open>str::to_ascii_lowercase\<close> of one byte and \<^verbatim>\<open>str::split\<close> of one character.\<close>

definition strip_prefix :: "string \<Rightarrow> string \<Rightarrow> string option" where
  "strip_prefix p s = (if take (length p) s = p then Some (drop (length p) s) else None)"

definition ascii_lower :: "char \<Rightarrow> char" where
  "ascii_lower c =
     (let n = (of_char c :: nat) in if 65 \<le> n \<and> n \<le> 90 then char_of (n + 32) else c)"

fun split_on :: "char \<Rightarrow> string \<Rightarrow> string list" where
  "split_on d [] = [[]]"
| "split_on d (c # s) =
     (if c = d then [] # split_on d s
      else (case split_on d s of [] \<Rightarrow> [[c]] | p # ps \<Rightarrow> (c # p) # ps))"

text \<open>The order of \<^verbatim>\<open>BTreeSet\<close> iteration over the keys collected in a list.\<close>

definition btree_order :: "'a::linorder list \<Rightarrow> 'a list" where
  "btree_order xs = sort (remdups xs)"

lemma btree_order_props [simp]:
  "set (btree_order xs) = set xs"
  "distinct (btree_order xs)"
  "sorted (btree_order xs)"
  by (simp_all add: btree_order_def)

lemma sum_list_filter_split:
  "sum_list (map f (filter P xs)) + sum_list (map f (filter (\<lambda>x. \<not> P x) xs))
     = sum_list (map (f :: 'a \<Rightarrow> nat) xs)"
  by (induction xs) auto

section \<open>Time\<close>

text \<open>Instants of a monotonic clock and durations, in nanoseconds.\<close>

type_synonym instant = nat
type_synonym duration = nat

definition as_millis :: "duration \<Rightarrow> nat" where
  "as_millis d = d div 10 ^ 6"

text \<open>\<^verbatim>\<open>Instant::duration_since\<close> is zero when the other instant is later.\<close>

definition duration_since :: "instant \<Rightarrow> instant \<Rightarrow> duration" where
  "duration_since now earlier = now - earlier"

end
