(* ===== verification/Sift_Protocol.thy ===== *)
theory Sift_Protocol
  imports Sift_Prelude
begin

text \<open>
  The wire types of \<^verbatim>\<open>crates/protocol\<close> that several components share: engines, cell
  values, column metadata, rows, result pages, schema objects and the two error types.

  Payloads whose types come from other crates are kept as codes the model never opens:
  dates, times and intervals are integers, a UUID is its 128 bits, a JSON value is its
  canonical text, and a float is its IEEE bit pattern, on which the comparisons Rust's
  \<^verbatim>\<open>PartialEq\<close> and \<^verbatim>\<open>is_finite\<close> make are written out.
\<close>

section \<open>Engines\<close>

datatype engine = Postgres | SqlServer | Sqlite

definition engine_as_str :: "engine \<Rightarrow> string" where
  "engine_as_str e =
     (case e of Postgres \<Rightarrow> ''postgres'' | SqlServer \<Rightarrow> ''sql_server'' | Sqlite \<Rightarrow> ''sqlite'')"

definition engine_provider_id :: "engine \<Rightarrow> string" where
  "engine_provider_id e =
     (case e of
        Postgres \<Rightarrow> ''sift/postgres''
      | SqlServer \<Rightarrow> ''sift/sql-server''
      | Sqlite \<Rightarrow> ''sift/sqlite'')"

definition engine_from_str :: "string \<Rightarrow> (string, engine) result" where
  "engine_from_str s =
     (if s = ''postgres'' \<or> s = ''postgresql'' \<or> s = ''pg'' then Inr Postgres
      else if s = ''sql_server'' \<or> s = ''sqlserver'' \<or> s = ''mssql'' then Inr SqlServer
      else if s = ''sqlite'' \<or> s = ''sqlite3'' then Inr Sqlite
      else Inl (''unknown engine: '' @ s))"

section \<open>Floats as bit patterns\<close>

type_synonym f32 = "32 word"
type_synonym f64 = "64 word"

definition f64_abs :: "f64 \<Rightarrow> f64" where
  "f64_abs x = take_bit 63 x"

definition f64_inf :: f64 where
  "f64_inf = push_bit 52 2047"

definition f64_is_nan :: "f64 \<Rightarrow> bool" where
  "f64_is_nan x = (f64_inf < f64_abs x)"

definition f64_is_finite :: "f64 \<Rightarrow> bool" where
  "f64_is_finite x = (f64_abs x < f64_inf)"

definition f64_is_neg :: "f64 \<Rightarrow> bool" where
  "f64_is_neg x = bit x 63"

text \<open>IEEE comparison: false when either side is NaN, and the two zeros are equal.\<close>

definition f64_eq :: "f64 \<Rightarrow> f64 \<Rightarrow> bool" where
  "f64_eq x y =
     (\<not> f64_is_nan x \<and> \<not> f64_is_nan y \<and> (x = y \<or> (f64_abs x = 0 \<and> f64_abs y = 0)))"

definition f64_lt :: "f64 \<Rightarrow> f64 \<Rightarrow> bool" where
  "f64_lt x y =
     (\<not> f64_is_nan x \<and> \<not> f64_is_nan y \<and> \<not> (f64_abs x = 0 \<and> f64_abs y = 0) \<and>
      (if f64_is_neg x
       then (if f64_is_neg y then f64_abs y < f64_abs x else True)
       else (if f64_is_neg y then False else f64_abs x < f64_abs y)))"

definition f64_le :: "f64 \<Rightarrow> f64 \<Rightarrow> bool" where
  "f64_le x y = (f64_lt x y \<or> f64_eq x y)"

definition f32_abs :: "f32 \<Rightarrow> f32" where
  "f32_abs x = take_bit 31 x"

definition f32_inf :: f32 where
  "f32_inf = push_bit 23 255"

definition f32_is_finite :: "f32 \<Rightarrow> bool" where
  "f32_is_finite x = (f32_abs x < f32_inf)"

definition f32_eq :: "f32 \<Rightarrow> f32 \<Rightarrow> bool" where
  "f32_eq x y =
     (f32_abs x \<le> f32_inf \<and> f32_abs y \<le> f32_inf \<and>
      (x = y \<or> (f32_abs x = 0 \<and> f32_abs y = 0)))"

lemma f64_eq_sym: "f64_eq x y = f64_eq y x"
  by (auto simp: f64_eq_def)

lemma f64_eq_refl: "f64_eq x x \<longleftrightarrow> \<not> f64_is_nan x"
  by (auto simp: f64_eq_def)

lemma f32_eq_sym: "f32_eq x y = f32_eq y x"
  by (auto simp: f32_eq_def)

section \<open>Cell values\<close>

datatype sql_value =
    VNull
  | VTypedNull string
  | VBool bool
  | VInt16 "16 word"
  | VInt32 "32 word"
  | VInt64 "64 word"
  | VFloat32 f32
  | VFloat64 f64
  | VDecimal string
  | VText string
  | VBlob "u8 list"
  | VDate int
  | VTime int
  | VTimestamp int
  | VTimestampTz int
  | VInterval int
  | VUuid "128 word"
  | VJson string
  | VNative string string string  \<comment> \<open>provider id, type name, display text\<close>

definition value_is_null :: "sql_value \<Rightarrow> bool" where
  "value_is_null v = (case v of VNull \<Rightarrow> True | VTypedNull _ \<Rightarrow> True | _ \<Rightarrow> False)"

definition value_type_category :: "sql_value \<Rightarrow> string" where
  "value_type_category v =
     (case v of
        VNull \<Rightarrow> ''null'' | VTypedNull _ \<Rightarrow> ''null''
      | VBool _ \<Rightarrow> ''bool''
      | VInt16 _ \<Rightarrow> ''int'' | VInt32 _ \<Rightarrow> ''int'' | VInt64 _ \<Rightarrow> ''int''
      | VFloat32 _ \<Rightarrow> ''float'' | VFloat64 _ \<Rightarrow> ''float'' | VDecimal _ \<Rightarrow> ''float''
      | VText _ \<Rightarrow> ''text'' | VBlob _ \<Rightarrow> ''blob'' | VDate _ \<Rightarrow> ''date'' | VTime _ \<Rightarrow> ''time''
      | VTimestamp _ \<Rightarrow> ''timestamp'' | VTimestampTz _ \<Rightarrow> ''timestamptz''
      | VInterval _ \<Rightarrow> ''interval'' | VUuid _ \<Rightarrow> ''uuid'' | VJson _ \<Rightarrow> ''json''
      | VNative _ _ _ \<Rightarrow> ''native'')"

text \<open>The derived \<^verbatim>\<open>PartialEq\<close>: structural, but IEEE equality on floats.\<close>

definition value_eq :: "sql_value \<Rightarrow> sql_value \<Rightarrow> bool" where
  "value_eq v w =
     (case v of
        VFloat32 x \<Rightarrow> (case w of VFloat32 y \<Rightarrow> f32_eq x y | _ \<Rightarrow> False)
      | VFloat64 x \<Rightarrow> (case w of VFloat64 y \<Rightarrow> f64_eq x y | _ \<Rightarrow> False)
      | _ \<Rightarrow> v = w)"

section \<open>Columns, rows and pages\<close>

datatype nullability = Nullable | NotNullable | UnknownNullability

datatype primitive_type =
    PInt16 | PInt32 | PInt64 | PFloat32 | PFloat64 | PDecimal | PBool | PText | PBlob
  | PDate | PTime | PTimestamp | PTimestampTz | PInterval | PUuid | PJson | PJsonb

datatype type_category =
    CatNumeric | CatText | CatBinary | CatTemporal | CatBoolean | CatUuid | CatJson
  | CatComposite | CatEnum | CatArray | CatRange | CatGeometric | CatBitString
  | CatNetworkAddress | CatXml | CatOther

datatype type_ref =
    PrimitiveRef primitive_type
  | NativeRef string string type_category  \<comment> \<open>provider id, name, category\<close>

record pg_column_facets =
  pg_oid :: "u32 option"
  pg_array_dims :: u8
  pg_is_identity :: bool
  pg_default_expr :: "string option"
  pg_enum_values :: "string list option"

record mssql_column_facets =
  ms_tds_type :: "string option"
  ms_collation :: "string option"
  ms_max_length :: "u32 option"
  ms_default_expr :: "string option"

record sqlite_column_facets =
  sl_declared_type :: string
  sl_affinity :: string
  sl_default_expr :: "string option"
  sl_primary_key_ordinal :: u32
  sl_virtual_table :: bool
  sl_hidden :: u8

record engine_column_facets =
  fc_sqlite :: "sqlite_column_facets option"
  fc_postgres :: "pg_column_facets option"
  fc_sql_server :: "mssql_column_facets option"

record column_metadata =
  col_name :: string
  col_type_ref :: type_ref
  col_nullable :: nullability
  col_auto_increment :: bool
  col_primary_key :: bool
  col_facets :: engine_column_facets

definition column_metadata_new :: "string \<Rightarrow> type_ref \<Rightarrow> column_metadata" where
  "column_metadata_new n t =
     \<lparr>col_name = n, col_type_ref = t, col_nullable = UnknownNullability,
      col_auto_increment = False, col_primary_key = False,
      col_facets = \<lparr>fc_sqlite = None, fc_postgres = None, fc_sql_server = None\<rparr>\<rparr>"

type_synonym row = "sql_value list"

datatype err_code =
    ConnectionFailed | ConnectionInvalidated | AuthFailed | QueryTimedOut | QueryCanceled
  | SyntaxError | UndefinedObject | DuplicateObject | InvalidParameterValue
  | UnsupportedForEngine | PoolExhausted | CursorNotFound | CursorEvicted
  | CursorLimitReached | TransactionNotFound | ResultTooLarge | CodeRateLimited
  | CodeTenantResourceExhausted | CodeEditConflict | EditNoRowIdentity
  | UnsupportedResultShape | SemanticDocumentNotFound | SemanticRevisionConflict
  | InvalidTextRange | DialectUnavailable | SemanticLimitExceeded | SemanticTimedOut
  | DriverInternal | OtherCode string

record driver_error =
  de_code :: err_code
  de_message :: string
  de_provider_id :: "string option"
  de_native_code :: "string option"
  de_resume_url :: "string option"

definition driver_error_new :: "err_code \<Rightarrow> string \<Rightarrow> driver_error" where
  "driver_error_new c m =
     \<lparr>de_code = c, de_message = m, de_provider_id = None, de_native_code = None,
      de_resume_url = None\<rparr>"

definition with_engine :: "driver_error \<Rightarrow> engine \<Rightarrow> driver_error" where
  "with_engine d e = d\<lparr>de_provider_id := Some (engine_provider_id e)\<rparr>"

record driver_warning =
  dw_message :: string
  dw_code :: "string option"

datatype page =
    PageRows "row list"
  | PageNextResult "column_metadata list"
  | PageError driver_error
  | PageDone "u64 option" "driver_warning list"

section \<open>Schema objects\<close>

datatype object_kind =
    KTable | KView | KMaterializedView | KForeignTable | KPartitionedTable
  | KTableValuedFunction | KScalarFunction | KProcedure | KSynonym | KSequence | KIndex
  | KTrigger | KType | KExtension

record object_path =
  op_catalog :: "string option"
  op_schema :: "string option"
  op_name :: string
  op_kind :: "object_kind option"
  op_routine_args :: "string list option"

datatype index_kind = Btree | Hash | Gist | Gin | Brin | Spgist | OtherIndex

record index_info =
  ix_name :: string
  ix_columns :: "string list"
  ix_unique :: bool
  ix_primary_key :: bool
  ix_kind :: index_kind
  ix_partial_predicate :: "string option"

datatype constraint_kind = CkPrimaryKey | CkForeignKey | CkUnique | CkCheck | CkExclusion | CkOther

record constraint_info =
  ck_name :: string
  ck_kind :: constraint_kind
  ck_columns :: "string list"
  ck_definition :: "string option"
  ck_references :: "string option"

datatype trigger_timing = TrBefore | TrAfter | TrInsteadOf

datatype trigger_event = TrInsert | TrUpdate | TrDelete | TrTruncate

record trigger_info =
  tr_name :: string
  tr_timing :: trigger_timing
  tr_events :: "trigger_event list"
  tr_columns :: "string list"
  tr_definition :: "string option"

record object_info =
  oi_name :: string
  oi_kind :: object_kind
  oi_estimated_rows :: "u64 option"
  oi_modified_at :: "string option"
  oi_comment :: "string option"
  oi_routine_args :: "string list option"
  oi_columns :: "column_metadata list"
  oi_indexes :: "index_info list"
  oi_constraints :: "constraint_info list"
  oi_triggers :: "trigger_info list"

record schema_tree =
  st_name :: string
  st_objects :: "object_info list"

record catalog_tree =
  ct_name :: string
  ct_schemas :: "schema_tree list"

section \<open>Server errors\<close>

datatype tenant_resource =
    ConnectionProfiles | Sessions | Connections | ConcurrentQueries | Cursors
  | RetainedResultBytes

text \<open>The payloads of errors no modelled function builds are their display text.\<close>

datatype api_error =
    ApiDriver driver_error
  | ApiSessionNotFound string
  | ApiConnectionNotFound string
  | ApiBadRequest string
  | ApiConflict string
  | ApiEditConflict usize u64 u64
  | ApiUnauthorized
  | ApiForbidden string
  | ApiTooManyAuthAttempts
  | ApiRateLimited u64
  | ApiTenantResourceExhausted tenant_resource "u64 option" bool
  | ApiMetadataUnavailable
  | ApiServiceDraining
  | ApiUnsupportedProtocolVersion string
  | ApiProtocolHandshakeRequired
  | ApiMetadata string
  | ApiInternal string

text \<open>The engine names the server prints are the ones it reads back.\<close>

lemma engine_from_as_str: "engine_from_str (engine_as_str e) = Inr e"
  by (cases e) (simp_all add: engine_from_str_def engine_as_str_def)

end
