(* ===== verification/Interfaces.thy ===== *)
theory Interfaces
  imports Sift_Prelude
begin

text \<open>
  The contracts several components share, each a locale with the client's lemmas proved
  once: a \<open>permit_ledger\<close> hands out permits and takes back what a permit's drop handler
  releases; a \<open>bounded_ledger\<close> also keeps the outstanding permits within a capacity; a
  \<open>machine\<close> reacts to inputs with outputs and keeps an invariant.
\<close>

section \<open>Ledgers of permits\<close>

datatype 'p permit_op = Take 'p | Give 'p

text \<open>
  A run over the permits that are alive.  A guard is dropped once, so \<open>Give\<close> of a permit
  that is not outstanding cannot happen and leaves the ledger alone.
\<close>

fun ledger_step ::
  "('s \<Rightarrow> 'p \<Rightarrow> 's \<times> bool) \<Rightarrow> ('s \<Rightarrow> 'p \<Rightarrow> 's) \<Rightarrow> 'p multiset \<times> 's \<Rightarrow> 'p permit_op \<Rightarrow>
   'p multiset \<times> 's" where
  "ledger_step acquire release (M, s) (Take p) =
     (case acquire s p of (s', ok) \<Rightarrow> (if ok then add_mset p M else M, s'))"
| "ledger_step acquire release (M, s) (Give p) =
     (if p \<in># M then (M - {#p#}, release s p) else (M, s))"

definition ledger_run ::
  "('s \<Rightarrow> 'p \<Rightarrow> 's \<times> bool) \<Rightarrow> ('s \<Rightarrow> 'p \<Rightarrow> 's) \<Rightarrow> 'p multiset \<times> 's \<Rightarrow>
   'p permit_op list \<Rightarrow> 'p multiset \<times> 's" where
  "ledger_run acquire release = foldl (ledger_step acquire release)"

text \<open>Every multiset of outstanding permits along the run satisfies \<open>fits\<close>.\<close>

fun fits_along ::
  "('s \<Rightarrow> 'p \<Rightarrow> 's \<times> bool) \<Rightarrow> ('s \<Rightarrow> 'p \<Rightarrow> 's) \<Rightarrow> ('p multiset \<Rightarrow> bool) \<Rightarrow>
   'p multiset \<times> 's \<Rightarrow> 'p permit_op list \<Rightarrow> bool" where
  "fits_along acquire release fits st [] = fits (fst st)"
| "fits_along acquire release fits st (x # xs) =
     (fits (fst st) \<and> fits_along acquire release fits (ledger_step acquire release st x) xs)"

lemma ledger_run_simps [simp]:
  "ledger_run acquire release st [] = st"
  "ledger_run acquire release st (x # xs) =
     ledger_run acquire release (ledger_step acquire release st x) xs"
  by (simp_all add: ledger_run_def)

lemma ledger_run_append:
  "ledger_run acquire release st (xs @ ys) =
     ledger_run acquire release (ledger_run acquire release st xs) ys"
  by (simp add: ledger_run_def)

lemma fits_along_start: "fits_along acquire release fits st xs \<Longrightarrow> fits (fst st)"
  by (cases xs) auto

locale permit_ledger =
  fixes acquire :: "'s \<Rightarrow> 'p \<Rightarrow> 's \<times> bool"
    and release :: "'s \<Rightarrow> 'p \<Rightarrow> 's"
    and accounts :: "'p multiset \<Rightarrow> 's \<Rightarrow> bool"
    and fits :: "'p multiset \<Rightarrow> bool"
  assumes taken: "accounts M s \<Longrightarrow> acquire s p = (s', True) \<Longrightarrow> fits (add_mset p M) \<Longrightarrow>
      accounts (add_mset p M) s'"
    and refused: "accounts M s \<Longrightarrow> acquire s p = (s', False) \<Longrightarrow> accounts M s'"
    and released: "accounts M s \<Longrightarrow> p \<in># M \<Longrightarrow> accounts (M - {#p#}) (release s p)"
begin

lemma step_accounts:
  assumes "accounts (fst st) (snd st)"
    and "fits (fst (ledger_step acquire release st x))"
  shows "accounts (fst (ledger_step acquire release st x)) (snd (ledger_step acquire release st x))"
proof -
  obtain M s where st: "st = (M, s)" by fastforce
  show ?thesis
  proof (cases x)
    case (Take p)
    obtain s' ok where "acquire s p = (s', ok)" by fastforce
    with assms st Take show ?thesis
      by (cases ok) (auto intro: taken refused)
  next
    case (Give p)
    with assms st show ?thesis by (auto intro: released)
  qed
qed

lemma run_accounts:
  "accounts (fst st) (snd st) \<Longrightarrow> fits_along acquire release fits st xs \<Longrightarrow>
   accounts (fst (ledger_run acquire release st xs)) (snd (ledger_run acquire release st xs))"
proof (induction xs arbitrary: st)
  case Nil
  then show ?case by simp
next
  case (Cons x xs)
  then have rest: "fits_along acquire release fits (ledger_step acquire release st x) xs"
    by simp
  from Cons.prems(1) fits_along_start [OF rest] have
    "accounts (fst (ledger_step acquire release st x)) (snd (ledger_step acquire release st x))"
    by (rule step_accounts)
  from Cons.IH [OF this rest] show ?case by simp
qed

end

locale bounded_ledger = permit_ledger +
  assumes admits: "accounts M s \<Longrightarrow> fits M \<Longrightarrow> acquire s p = (s', True) \<Longrightarrow> fits (add_mset p M)"
    and fits_subset: "fits M \<Longrightarrow> N \<subseteq># M \<Longrightarrow> fits N"
begin

lemma step_fits:
  assumes "accounts (fst st) (snd st)" and "fits (fst st)"
  shows "fits (fst (ledger_step acquire release st x))"
proof -
  obtain M s where st: "st = (M, s)" by fastforce
  show ?thesis
  proof (cases x)
    case (Take p)
    obtain s' ok where "acquire s p = (s', ok)" by fastforce
    with assms st Take show ?thesis
      by (cases ok) (auto intro: admits)
  next
    case (Give p)
    with assms st show ?thesis by (auto intro: fits_subset)
  qed
qed

lemma run_bounded:
  assumes "accounts (fst st) (snd st)" and "fits (fst st)"
  shows "accounts (fst (ledger_run acquire release st xs)) (snd (ledger_run acquire release st xs))
     \<and> fits (fst (ledger_run acquire release st xs))"
  using assms
proof (induction xs arbitrary: st)
  case Nil
  then show ?case by simp
next
  case (Cons x xs)
  from Cons.prems have fit: "fits (fst (ledger_step acquire release st x))"
    by (rule step_fits)
  from Cons.IH [OF step_accounts [OF Cons.prems(1) fit] fit] show ?case by simp
qed

end

section \<open>Machines with an invariant\<close>

fun machine_run :: "('s \<Rightarrow> 'i \<Rightarrow> 's \<times> 'o list) \<Rightarrow> 's \<Rightarrow> 'i list \<Rightarrow> 's \<times> 'o list" where
  "machine_run step s [] = (s, [])"
| "machine_run step s (i # is) =
     (case step s i of (s', os) \<Rightarrow>
        (case machine_run step s' is of (s'', os') \<Rightarrow> (s'', os @ os')))"

lemma machine_run_append:
  "machine_run step s (is @ js) =
     (case machine_run step s is of (s', os) \<Rightarrow>
        (case machine_run step s' js of (s'', os') \<Rightarrow> (s'', os @ os')))"
  by (induction "is" arbitrary: s) (auto split: prod.splits)

locale machine =
  fixes step :: "'s \<Rightarrow> 'i \<Rightarrow> 's \<times> 'o list"
    and inv :: "'s \<Rightarrow> bool"
    and emits :: "'s \<Rightarrow> 'o \<Rightarrow> bool"  \<comment> \<open>what an output of a step from a state satisfies\<close>
  assumes step_inv: "inv s \<Longrightarrow> step s i = (s', os) \<Longrightarrow> inv s'"
    and step_emits: "inv s \<Longrightarrow> step s i = (s', os) \<Longrightarrow> x \<in> set os \<Longrightarrow> emits s x"
begin

lemma run_inv: "inv s \<Longrightarrow> inv (fst (machine_run step s is))"
proof (induction "is" arbitrary: s)
  case Nil
  then show ?case by simp
next
  case (Cons i "is")
  obtain s' os where st: "step s i = (s', os)" by fastforce
  with Cons.prems have "inv s'" by (rule step_inv)
  from Cons.IH [OF this] st show ?case by (auto split: prod.splits)
qed

lemma run_emits:
  "inv s \<Longrightarrow> x \<in> set (snd (machine_run step s is)) \<Longrightarrow> \<exists>t. inv t \<and> emits t x"
proof (induction "is" arbitrary: s)
  case Nil
  then show ?case by simp
next
  case (Cons i "is")
  obtain s' os where st: "step s i = (s', os)" by fastforce
  with Cons.prems have "x \<in> set os \<or> x \<in> set (snd (machine_run step s' is))"
    by (auto split: prod.splits)
  with Cons st show ?case by (blast intro: step_emits step_inv)
qed

end

section \<open>Step relations\<close>

text \<open>An invariant of a step relation, and a relation whose steps use up work.\<close>

locale step_system =
  fixes step :: "'s \<Rightarrow> 's \<Rightarrow> bool"
    and inv :: "'s \<Rightarrow> bool"
  assumes step_inv: "inv s \<Longrightarrow> step s s' \<Longrightarrow> inv s'"
begin

lemma reachable_inv: "step\<^sup>*\<^sup>* s s' \<Longrightarrow> inv s \<Longrightarrow> inv s'"
  by (induction rule: rtranclp_induct) (auto intro: step_inv)

lemma steps_inv: "(step ^^ k) s s' \<Longrightarrow> inv s \<Longrightarrow> inv s'"
  by (rule reachable_inv) (rule relpowp_imp_rtranclp)

end

locale draining_system = step_system +
  fixes work :: "'s \<Rightarrow> nat"
  assumes step_work: "step s s' \<Longrightarrow> work s' < work s"
begin

lemma steps_bounded: "(step ^^ k) s s' \<Longrightarrow> k + work s' \<le> work s"
proof (induction k arbitrary: s')
  case 0
  then show ?case by simp
next
  case (Suc k)
  then obtain t where t: "(step ^^ k) s t" "step t s'" by auto
  from Suc.IH [OF t(1)] step_work [OF t(2)] show ?case by simp
qed

end

section \<open>A producer whose output a consumer accepts\<close>

fun accept_run :: "('p \<Rightarrow> 'o \<Rightarrow> ('e, 'p) result) \<Rightarrow> 'p \<Rightarrow> 'o list \<Rightarrow> ('e, 'p) result" where
  "accept_run accept p [] = Inr p"
| "accept_run accept p (x # xs) = res_bind (accept p x) (\<lambda>p. accept_run accept p xs)"

lemma accept_run_append:
  "accept_run accept p (xs @ ys) = res_bind (accept_run accept p xs) (\<lambda>p. accept_run accept p ys)"
  by (induction xs arbitrary: p) (auto simp: res_bind_def split: sum.splits)

text \<open>
  \<open>rel a s p\<close> relates the abstract state of the inputs so far, the producer's and the
  consumer's state; every step of the producer must keep all three in step.
\<close>

locale producer_consumer =
  fixes step :: "'s \<Rightarrow> 'i \<Rightarrow> 's \<times> 'o list"
    and accept :: "'p \<Rightarrow> 'o \<Rightarrow> ('e, 'p) result"
    and abstract :: "'a \<Rightarrow> 'i \<Rightarrow> 'a"
    and rel :: "'a \<Rightarrow> 's \<Rightarrow> 'p \<Rightarrow> bool"
  assumes step_accepted:
    "rel a s p \<Longrightarrow> step s i = (s', os) \<Longrightarrow>
     \<exists>p'. accept_run accept p os = Inr p' \<and> rel (abstract a i) s' p'"
begin

lemma run_accepted:
  "rel a s p \<Longrightarrow>
   \<exists>p'. accept_run accept p (snd (machine_run step s is)) = Inr p'
     \<and> rel (foldl abstract a is) (fst (machine_run step s is)) p'"
proof (induction "is" arbitrary: a s p)
  case Nil
  then show ?case by simp
next
  case (Cons i "is")
  obtain s' os where st: "step s i = (s', os)" by fastforce
  from step_accepted [OF Cons.prems st] obtain p' where
    p': "accept_run accept p os = Inr p'" "rel (abstract a i) s' p'" by blast
  from Cons.IH [OF this(2)] p'(1) st show ?case
    by (auto simp: accept_run_append split: prod.splits)
qed

end

end
