(* ===== verification/Tenant_Resources.thy ===== *)
theory Tenant_Resources
  imports Sift_Protocol Interfaces
begin

text \<open>
  Per-tenant admission of live resources (\<^verbatim>\<open>crates/server/src/resources.rs\<close>).  The mutex
  around the usage table makes every operation atomic, so the manager is a state passed
  through \<open>reserve\<close> and the drop handler of its guards.  The metadata store is consulted for
  a tenant's override; the two lookups the manager makes are functions in its state.
\<close>

section \<open>State\<close>

record tenant_limits =
  tl_connection_profiles :: "u64 option"
  tl_sessions :: "u64 option"
  tl_connections :: "u64 option"
  tl_concurrent_queries :: "u64 option"
  tl_cursors :: "u64 option"
  tl_retained_result_bytes :: "u64 option"

record tenant_usage =
  tu_connection_profiles :: u64
  tu_sessions :: u64
  tu_connections :: u64
  tu_concurrent_queries :: u64
  tu_cursors :: u64
  tu_retained_result_bytes :: u64

definition usage_default :: tenant_usage where
  "usage_default =
     \<lparr>tu_connection_profiles = 0, tu_sessions = 0, tu_connections = 0,
      tu_concurrent_queries = 0, tu_cursors = 0, tu_retained_result_bytes = 0\<rparr>"

record tenant_metadata =
  tm_override :: "i64 \<Rightarrow> (api_error, tenant_limits option) result"
  tm_profiles :: "i64 \<Rightarrow> (api_error, nat) result"

record resource_manager =
  rm_usage :: "i64 \<rightharpoonup> tenant_usage"
  rm_defaults :: tenant_limits
  rm_ceilings :: tenant_limits
  rm_metadata :: "tenant_metadata option"
  rm_trusted_local_unlimited :: bool

record resource_guard =
  rg_tenant :: i64
  rg_resource :: tenant_resource
  rg_amount :: u64
  rg_released :: bool

record usage_snapshot =
  us_tenant_id :: i64
  us_limits :: tenant_limits
  us_usage :: tenant_usage

section \<open>Operations\<close>

definition clamp :: "u64 option \<Rightarrow> u64 option \<Rightarrow> u64 option" where
  "clamp requested ceiling =
     (case (requested, ceiling) of
        (Some r, Some c) \<Rightarrow> Some (min r c)
      | (None, Some c) \<Rightarrow> Some c
      | (r, None) \<Rightarrow> r)"

definition clamp_limits :: "tenant_limits \<Rightarrow> tenant_limits \<Rightarrow> tenant_limits" where
  "clamp_limits requested ceilings =
     \<lparr>tl_connection_profiles =
        clamp (tl_connection_profiles requested) (tl_connection_profiles ceilings),
      tl_sessions = clamp (tl_sessions requested) (tl_sessions ceilings),
      tl_connections = clamp (tl_connections requested) (tl_connections ceilings),
      tl_concurrent_queries =
        clamp (tl_concurrent_queries requested) (tl_concurrent_queries ceilings),
      tl_cursors = clamp (tl_cursors requested) (tl_cursors ceilings),
      tl_retained_result_bytes =
        clamp (tl_retained_result_bytes requested) (tl_retained_result_bytes ceilings)\<rparr>"

definition limit_for :: "tenant_limits \<Rightarrow> tenant_resource \<Rightarrow> u64 option" where
  "limit_for limits resource =
     (case resource of
        ConnectionProfiles \<Rightarrow> tl_connection_profiles limits
      | Sessions \<Rightarrow> tl_sessions limits
      | Connections \<Rightarrow> tl_connections limits
      | ConcurrentQueries \<Rightarrow> tl_concurrent_queries limits
      | Cursors \<Rightarrow> tl_cursors limits
      | RetainedResultBytes \<Rightarrow> tl_retained_result_bytes limits)"

definition usage_for :: "tenant_usage \<Rightarrow> tenant_resource \<Rightarrow> u64" where
  "usage_for usage resource =
     (case resource of
        ConnectionProfiles \<Rightarrow> tu_connection_profiles usage
      | Sessions \<Rightarrow> tu_sessions usage
      | Connections \<Rightarrow> tu_connections usage
      | ConcurrentQueries \<Rightarrow> tu_concurrent_queries usage
      | Cursors \<Rightarrow> tu_cursors usage
      | RetainedResultBytes \<Rightarrow> tu_retained_result_bytes usage)"

text \<open>Assignment through the reference \<^verbatim>\<open>usage_for_mut\<close> returns.\<close>

definition usage_for_mut :: "tenant_resource \<Rightarrow> u64 \<Rightarrow> tenant_usage \<Rightarrow> tenant_usage" where
  "usage_for_mut resource v usage =
     (case resource of
        ConnectionProfiles \<Rightarrow> usage\<lparr>tu_connection_profiles := v\<rparr>
      | Sessions \<Rightarrow> usage\<lparr>tu_sessions := v\<rparr>
      | Connections \<Rightarrow> usage\<lparr>tu_connections := v\<rparr>
      | ConcurrentQueries \<Rightarrow> usage\<lparr>tu_concurrent_queries := v\<rparr>
      | Cursors \<Rightarrow> usage\<lparr>tu_cursors := v\<rparr>
      | RetainedResultBytes \<Rightarrow> usage\<lparr>tu_retained_result_bytes := v\<rparr>)"

definition enforces_for :: "resource_manager \<Rightarrow> bool \<Rightarrow> bool" where
  "enforces_for m trusted_local = (\<not> (trusted_local \<and> rm_trusted_local_unlimited m))"

definition effective_limits :: "resource_manager \<Rightarrow> i64 \<Rightarrow> (api_error, tenant_limits) result" where
  "effective_limits m tenant =
     res_bind
       (case rm_metadata m of
          Some md \<Rightarrow>
            res_bind (tm_override md tenant)
              (\<lambda>row. Inr (case row of Some limits \<Rightarrow> limits | None \<Rightarrow> rm_defaults m))
        | None \<Rightarrow> Inr (rm_defaults m))
       (\<lambda>requested. Inr (clamp_limits requested (rm_ceilings m)))"

definition reserve ::
  "resource_manager \<Rightarrow> i64 \<Rightarrow> tenant_resource \<Rightarrow> u64 \<Rightarrow>
   resource_manager \<times> (api_error, resource_guard) result" where
  "reserve m tenant resource amount =
     (case effective_limits m tenant of
        Inl e \<Rightarrow> (m, Inl e)
      | Inr limits \<Rightarrow>
          (let limit = limit_for limits resource;
               usage = (case rm_usage m tenant of Some u \<Rightarrow> u | None \<Rightarrow> usage_default);
               m1 = m\<lparr>rm_usage := (rm_usage m)(tenant \<mapsto> usage)\<rparr>;
               current = usage_for usage resource
           in if (case limit of Some l \<Rightarrow> l < sat_add current amount | None \<Rightarrow> False)
              then (m1, Inl (ApiTenantResourceExhausted resource None False))
              else (m1\<lparr>rm_usage := (rm_usage m1)
                        (tenant \<mapsto> usage_for_mut resource (sat_add current amount) usage)\<rparr>,
                    Inr \<lparr>rg_tenant = tenant, rg_resource = resource, rg_amount = amount,
                         rg_released = False\<rparr>)))"

definition release_usage ::
  "resource_manager \<Rightarrow> i64 \<Rightarrow> tenant_resource \<Rightarrow> u64 \<Rightarrow> resource_manager" where
  "release_usage m tenant resource amount =
     (case rm_usage m tenant of
        None \<Rightarrow> m
      | Some usage \<Rightarrow>
          (let usage' = usage_for_mut resource (sat_sub (usage_for usage resource) amount) usage
           in if usage' = usage_default
              then m\<lparr>rm_usage := (rm_usage m)(tenant := None)\<rparr>
              else m\<lparr>rm_usage := (rm_usage m)(tenant \<mapsto> usage')\<rparr>))"

text \<open>The guard's drop handler.\<close>

definition drop_guard ::
  "resource_manager \<Rightarrow> resource_guard \<Rightarrow> resource_manager \<times> resource_guard" where
  "drop_guard m g =
     (if \<not> rg_released g
      then (release_usage m (rg_tenant g) (rg_resource g) (rg_amount g), g\<lparr>rg_released := True\<rparr>)
      else (m, g))"

definition usage_snapshot_of :: "resource_manager \<Rightarrow> i64 \<Rightarrow> (api_error, usage_snapshot) result" where
  "usage_snapshot_of m tenant =
     (let usage = (case rm_usage m tenant of Some u \<Rightarrow> u | None \<Rightarrow> usage_default)
      in res_bind
           (case rm_metadata m of
              Some md \<Rightarrow>
                res_bind (tm_profiles md tenant)
                  (\<lambda>n. Inr (usage\<lparr>tu_connection_profiles := of_nat n\<rparr>))
            | None \<Rightarrow> Inr usage)
           (\<lambda>usage. res_bind (effective_limits m tenant)
              (\<lambda>limits. Inr \<lparr>us_tenant_id = tenant, us_limits = limits, us_usage = usage\<rparr>)))"

definition validate_override :: "resource_manager \<Rightarrow> tenant_limits \<Rightarrow> (api_error, unit) result" where
  "validate_override m limits =
     (if clamp_limits limits (rm_ceilings m) = limits then Inr ()
      else Inl (ApiBadRequest ''tenant limit override exceeds an operator ceiling''))"

section \<open>Usage read per resource\<close>

definition usage_of :: "resource_manager \<Rightarrow> i64 \<Rightarrow> tenant_resource \<Rightarrow> u64" where
  "usage_of m tenant resource =
     (case rm_usage m tenant of Some u \<Rightarrow> usage_for u resource | None \<Rightarrow> 0)"

lemma usage_for_default [simp]: "usage_for usage_default r = 0"
  by (cases r) (simp_all add: usage_for_def usage_default_def)

lemma usage_for_mut [simp]:
  "usage_for (usage_for_mut r v u) r' = (if r' = r then v else usage_for u r')"
  by (cases r; cases r') (simp_all add: usage_for_def usage_for_mut_def)

lemma limit_for_clamp [simp]:
  "limit_for (clamp_limits l c) r = clamp (limit_for l r) (limit_for c r)"
  by (cases r) (simp_all add: limit_for_def clamp_limits_def)

lemma limits_eqI: "(\<And>r. limit_for l r = limit_for l' r) \<Longrightarrow> l = l'"
proof -
  assume a: "\<And>r. limit_for l r = limit_for l' r"
  show "l = l'"
    using a [of ConnectionProfiles] a [of Sessions] a [of Connections]
      a [of ConcurrentQueries] a [of Cursors] a [of RetainedResultBytes]
    by (simp add: limit_for_def)
qed

lemma clamp_le_ceiling: "c = Some l \<Longrightarrow> \<exists>k. clamp r c = Some k \<and> k \<le> l"
  by (cases r) (auto simp: clamp_def)

lemma clamp_fixed: "clamp r c = r \<longleftrightarrow> (\<forall>l. c = Some l \<longrightarrow> (\<exists>k. r = Some k \<and> k \<le> l))"
  by (cases r; cases c) (auto simp: clamp_def min_def)

lemma effective_limits_ceiling:
  assumes "effective_limits m t = Inr limits" and "limit_for (rm_ceilings m) r = Some l"
  shows "\<exists>k. limit_for limits r = Some k \<and> k \<le> l"
  using assms clamp_le_ceiling
  by (auto simp: effective_limits_def res_bind_Inr_conv)

lemma reserve_frame [simp]:
  "rm_ceilings (fst (reserve m t r n)) = rm_ceilings m"
  "rm_defaults (fst (reserve m t r n)) = rm_defaults m"
  "rm_metadata (fst (reserve m t r n)) = rm_metadata m"
  by (auto simp: reserve_def Let_def split: sum.splits)

lemma release_frame [simp]:
  "rm_ceilings (release_usage m t r n) = rm_ceilings m"
  "rm_defaults (release_usage m t r n) = rm_defaults m"
  "rm_metadata (release_usage m t r n) = rm_metadata m"
  by (auto simp: release_usage_def Let_def split: option.splits)

lemma reserve_usage_of:
  "usage_of (fst (reserve m t r n)) t' r' =
     (case snd (reserve m t r n) of
        Inl _ \<Rightarrow> usage_of m t' r'
      | Inr _ \<Rightarrow> (if t' = t \<and> r' = r then sat_add (usage_of m t r) n else usage_of m t' r'))"
  by (auto simp: reserve_def Let_def usage_of_def split: sum.splits option.splits)

lemma release_usage_of:
  "usage_of (release_usage m t r n) t' r' =
     (if t' = t \<and> r' = r then sat_sub (usage_of m t r) n else usage_of m t' r')"
proof (cases "rm_usage m t")
  case None
  then show ?thesis by (auto simp: release_usage_def usage_of_def)
next
  case (Some u)
  let ?u = "usage_for_mut r (sat_sub (usage_for u r) n) u"
  have "(if r' = r then sat_sub (usage_for u r) n else usage_for u r') = 0" if "?u = usage_default"
    using arg_cong [OF that, of "\<lambda>u. usage_for u r'"] by simp
  with Some show ?thesis
    by (auto simp: release_usage_def usage_of_def Let_def split: if_splits)
qed

lemma reserve_guard:
  "snd (reserve m t r n) = Inr g \<Longrightarrow>
   g = \<lparr>rg_tenant = t, rg_resource = r, rg_amount = n, rg_released = False\<rparr>"
  by (auto simp: reserve_def Let_def split: sum.splits if_splits)

lemma reserve_within_limit:
  assumes "snd (reserve m t r n) = Inr g" and "limit_for (rm_ceilings m) r = Some l"
  shows "sat_add (usage_of m t r) n \<le> l"
proof -
  from assms(1) obtain limits where lim: "effective_limits m t = Inr limits"
    by (auto simp: reserve_def split: sum.splits)
  from effective_limits_ceiling [OF lim assms(2)] obtain k
    where "limit_for limits r = Some k" "k \<le> l" by blast
  with assms(1) lim show ?thesis
    by (auto simp: reserve_def usage_of_def Let_def not_less split: if_splits option.splits
          intro: order_trans)
qed

section \<open>Guards as permits\<close>

text \<open>A live guard is the tenant, resource and amount its drop handler gives back.\<close>

type_synonym permit = "i64 \<times> tenant_resource \<times> u64"

definition take_permit :: "resource_manager \<Rightarrow> permit \<Rightarrow> resource_manager \<times> bool" where
  "take_permit m p =
     (case p of (t, r, n) \<Rightarrow>
        (case reserve m t r n of (m', Inl _) \<Rightarrow> (m', False) | (m', Inr _) \<Rightarrow> (m', True)))"

definition give_permit :: "resource_manager \<Rightarrow> permit \<Rightarrow> resource_manager" where
  "give_permit m p =
     (case p of (t, r, n) \<Rightarrow>
        fst (drop_guard m \<lparr>rg_tenant = t, rg_resource = r, rg_amount = n, rg_released = False\<rparr>))"

definition outstanding :: "permit multiset \<Rightarrow> i64 \<Rightarrow> tenant_resource \<Rightarrow> nat" where
  "outstanding M t r =
     (\<Sum>p\<in>#M. case p of (t', r', n) \<Rightarrow> if t' = t \<and> r' = r then unat n else 0)"

definition accounts_for :: "permit multiset \<Rightarrow> resource_manager \<Rightarrow> bool" where
  "accounts_for M m = (\<forall>t r. unat (usage_of m t r) = outstanding M t r)"

definition representable :: "permit multiset \<Rightarrow> bool" where
  "representable M = (\<forall>t r. outstanding M t r < 2 ^ 64)"

lemma take_permit_cases:
  "take_permit m (t, r, n) =
     (fst (reserve m t r n), (case snd (reserve m t r n) of Inl _ \<Rightarrow> False | Inr _ \<Rightarrow> True))"
  by (simp add: take_permit_def split: prod.splits sum.splits)

lemma give_permit_release [simp]: "give_permit m (t, r, n) = release_usage m t r n"
  by (simp add: give_permit_def drop_guard_def)

lemma outstanding_empty [simp]: "outstanding {#} t r = 0"
  by (simp add: outstanding_def)

lemma outstanding_add [simp]:
  "outstanding (add_mset (t', r', n) M) t r =
     (if t' = t \<and> r' = r then unat n else 0) + outstanding M t r"
  by (simp add: outstanding_def)

lemma outstanding_remove:
  assumes "(t', r', n) \<in># M"
  shows "outstanding (M - {#(t', r', n)#}) t r =
     outstanding M t r - (if t' = t \<and> r' = r then unat n else 0)"
proof -
  obtain N where "M = add_mset (t', r', n) N"
    using assms by (metis insert_DiffM)
  then show ?thesis by simp
qed

interpretation resource_ledger: permit_ledger take_permit give_permit accounts_for representable
proof
  fix M m p m'
  assume a: "accounts_for M m" and t: "take_permit m p = (m', True)"
    and f: "representable (add_mset p M)"
  obtain t r n where p: "p = (t, r, n)" by (cases p)
  from t p obtain g where g: "snd (reserve m t r n) = Inr g" and m': "m' = fst (reserve m t r n)"
    by (auto simp: take_permit_cases split: sum.splits)
  from f have "outstanding (add_mset p M) t r < 2 ^ 64"
    unfolding representable_def by blast
  with p have "unat n + outstanding M t r < 2 ^ 64" by simp
  then have "unat (sat_add (usage_of m t r) n) = unat n + outstanding M t r"
    using a by (simp add: accounts_for_def sat_unat)
  with a p g m' show "accounts_for (add_mset p M) m'"
    by (auto simp: accounts_for_def reserve_usage_of)
next
  fix M m p m'
  assume "accounts_for M m" and "take_permit m p = (m', False)"
  then show "accounts_for M m'"
    by (cases p) (auto simp: accounts_for_def take_permit_cases reserve_usage_of split: sum.splits)
next
  fix M m p
  assume "accounts_for M m" and "p \<in># M"
  then show "accounts_for (M - {#p#}) (give_permit m p)"
    by (cases p) (auto simp: accounts_for_def release_usage_of outstanding_remove sat_unat)
qed

text \<open>The ceiling side: no representability needed, since refused sums saturate.\<close>

definition under_ceilings :: "tenant_limits \<Rightarrow> resource_manager \<Rightarrow> bool" where
  "under_ceilings c m =
     (rm_ceilings m = c \<and>
      (\<forall>t r l. limit_for c r = Some l \<longrightarrow> usage_of m t r \<le> l))"

lemma take_permit_ceilings: "under_ceilings c m \<Longrightarrow> under_ceilings c (fst (take_permit m p))"
  by (cases p)
    (auto simp: under_ceilings_def take_permit_cases reserve_usage_of
      intro: reserve_within_limit split: sum.splits)

lemma sat_sub_le: "sat_sub a b \<le> (a :: 'a::len word)"
  by (simp add: word_le_nat_alt sat_unat)

lemma give_permit_ceilings: "under_ceilings c m \<Longrightarrow> under_ceilings c (give_permit m p)"
  by (cases p)
    (auto simp: under_ceilings_def release_usage_of intro: order_trans [OF sat_sub_le])

lemma run_ceilings:
  "under_ceilings c (snd st) \<Longrightarrow> under_ceilings c (snd (ledger_run take_permit give_permit st xs))"
proof (induction xs arbitrary: st)
  case Nil
  then show ?case by simp
next
  case (Cons x xs)
  obtain M m where st: "st = (M, m)" by fastforce
  have "under_ceilings c (snd (ledger_step take_permit give_permit st x))"
  proof (cases x)
    case (Take p)
    with take_permit_ceilings [of c m p] Cons.prems st show ?thesis
      by (auto split: prod.splits)
  next
    case (Give p)
    with give_permit_ceilings Cons.prems st show ?thesis by auto
  qed
  with Cons.IH show ?case by simp
qed

section \<open>Properties\<close>

text \<open>
  C22: The usage table is exact. From an empty table, after any interleaving of reservations
  (admitted or refused) and guard drops, the usage recorded for a tenant and resource is the
  sum of the amounts of the guards still alive, as long as those sums fit a u64.
\<close>

lemma resource_conservation:
  assumes "rm_usage m = Map.empty"
    and "fits_along take_permit give_permit representable ({#}, m) ops"
    and "ledger_run take_permit give_permit ({#}, m) ops = (M, m')"
  shows "unat (usage_of m' t r) = outstanding M t r"
proof -
  from assms(1) have "accounts_for {#} m"
    by (simp add: accounts_for_def usage_of_def)
  with assms(2,3) resource_ledger.run_accounts [of "({#}, m)" ops] show ?thesis
    by (simp add: accounts_for_def)
qed

definition demo_limits :: tenant_limits where
  "demo_limits =
     \<lparr>tl_connection_profiles = None, tl_sessions = Some 5, tl_connections = None,
      tl_concurrent_queries = Some 2, tl_cursors = None, tl_retained_result_bytes = None\<rparr>"

definition demo_manager :: resource_manager where
  "demo_manager =
     \<lparr>rm_usage = Map.empty, rm_defaults = demo_limits, rm_ceilings = demo_limits,
      rm_metadata = None, rm_trusted_local_unlimited = False\<rparr>"

lemmas demo_eval =
  demo_limits_def demo_manager_def take_permit_def give_permit_def drop_guard_def reserve_def
  release_usage_def effective_limits_def clamp_limits_def clamp_def limit_for_def usage_for_def
  usage_for_mut_def usage_default_def usage_of_def sat_add_def sat_sub_def Let_def

lemma demo_run:
  "ledger_run take_permit give_permit ({#}, demo_manager)
     [Take (7, Sessions, 2), Take (7, Sessions, 4), Take (7, Sessions, 3), Give (7, Sessions, 2)]
   = ({#(7, Sessions, 3)#},
      demo_manager\<lparr>rm_usage := [7 \<mapsto> usage_default\<lparr>tu_sessions := 3\<rparr>]\<rparr>)"
  by (simp add: demo_eval)

lemma representable_demo [simp]:
  "representable {#}"
  "representable {#(t, r, a)#}"
  "unat a + unat b < 18446744073709551616 \<Longrightarrow> representable {#(t, r, a), (t, r, b)#}"
  using unat_le_max [of a] unat_le_max [of b] by (auto simp: representable_def)

lemma resource_conservation_witness:
  "unat (usage_of (snd (ledger_run take_permit give_permit ({#}, demo_manager)
     [Take (7, Sessions, 2), Take (7, Sessions, 4), Take (7, Sessions, 3), Give (7, Sessions, 2)]))
     7 Sessions) = 3"
proof -
  let ?ops = "[Take (7, Sessions, 2), Take (7, Sessions, 4), Take (7, Sessions, 3),
    Give (7, Sessions, 2)] :: permit permit_op list"
  have "fits_along take_permit give_permit representable ({#}, demo_manager) ?ops"
    by (simp add: demo_eval)
  from resource_conservation [OF _ this demo_run, of 7 Sessions] show ?thesis
    unfolding demo_run by (simp add: demo_manager_def)
qed

text \<open>
  Operator ceilings hold at every moment. Whatever per-tenant overrides the metadata store
  returns, and however reservations and drops interleave, no recorded usage exceeds the
  operator's ceiling for that resource.
\<close>

lemma ceilings_never_exceeded:
  assumes "rm_usage m = Map.empty"
    and "limit_for (rm_ceilings m) r = Some l"
    and "ledger_run take_permit give_permit ({#}, m) ops = (M, m')"
  shows "usage_of m' t r \<le> l"
proof -
  from assms(1) have "under_ceilings (rm_ceilings m) m"
    by (simp add: under_ceilings_def usage_of_def)
  with assms(2,3) run_ceilings [of "rm_ceilings m" "({#}, m)" ops] show ?thesis
    by (simp add: under_ceilings_def)
qed

lemma ceilings_never_exceeded_witness:
  "usage_of (snd (ledger_run take_permit give_permit ({#}, demo_manager)
     [Take (7, Sessions, 2), Take (7, Sessions, 4), Take (7, Sessions, 3), Give (7, Sessions, 2)]))
     7 Sessions \<le> 5"
  unfolding demo_run snd_conv
  by (rule ceilings_never_exceeded [OF _ _ demo_run])
    (simp_all add: demo_manager_def demo_limits_def limit_for_def)

text \<open>
  An override is accepted exactly when every ceilinged resource is limited within its
  ceiling, and an accepted override is then enforced verbatim: clamping changes nothing.
\<close>

lemma override_accepted_and_served:
  "(validate_override m limits = Inr () \<longleftrightarrow>
      (\<forall>r c. limit_for (rm_ceilings m) r = Some c \<longrightarrow>
         (\<exists>k. limit_for limits r = Some k \<and> k \<le> c))) \<and>
   (validate_override m limits = Inr () \<longrightarrow>
      (\<forall>md t. rm_metadata m = Some md \<and> tm_override md t = Inr (Some limits) \<longrightarrow>
         effective_limits m t = Inr limits))"
proof -
  have "clamp_limits limits (rm_ceilings m) = limits \<longleftrightarrow>
      (\<forall>r. limit_for (clamp_limits limits (rm_ceilings m)) r = limit_for limits r)"
    by (metis limits_eqI)
  then show ?thesis
    by (auto simp: validate_override_def effective_limits_def clamp_fixed)
qed

lemma override_accepted_and_served_witness:
  "effective_limits (demo_manager\<lparr>rm_metadata :=
      Some \<lparr>tm_override = (\<lambda>_. Inr (Some demo_limits)), tm_profiles = (\<lambda>_. Inr 0)\<rparr>\<rparr>) 7
    = Inr demo_limits"
proof -
  let ?md = "\<lparr>tm_override = (\<lambda>_. Inr (Some demo_limits)), tm_profiles = (\<lambda>_. Inr 0)\<rparr>"
  let ?m = "demo_manager\<lparr>rm_metadata := Some ?md\<rparr>"
  have "validate_override ?m demo_limits = Inr ()"
    by (simp add: validate_override_def demo_eval)
  with override_accepted_and_served [of ?m demo_limits] show ?thesis by simp
qed

end
