(* ===== verification/Generation_Limiter.thy ===== *)
theory Generation_Limiter
  imports Interfaces
begin

text \<open>
  The two admission controls of \<^verbatim>\<open>crates/plugin-host/src/lifecycle.rs\<close> around extension
  processes: the restart budget (a sliding window of failures with exponential backoff) and
  the generation limiter (instance, extension and tenant caps with RAII permits).

  Instants and durations are nanoseconds.  A \<^verbatim>\<open>Duration\<close> saturates at its largest value, and
  the jitter arithmetic is on u64, so the one addition that can overflow there is a visible
  panic.  The limiter's \<^verbatim>\<open>usize\<close> counters are naturals: an increment follows a check against
  a \<^verbatim>\<open>usize\<close> limit, so it cannot wrap, and the decrements saturate as naturals do.
\<close>

section \<open>Restart budget\<close>

definition duration_max :: duration where
  "duration_max = (2 ^ 64 - 1) * 10 ^ 9 + 999999999"

definition duration_sat_mul :: "duration \<Rightarrow> u32 \<Rightarrow> duration" where
  "duration_sat_mul d k = min (d * unat k) duration_max"

definition duration_sat_add :: "duration \<Rightarrow> duration \<Rightarrow> duration" where
  "duration_sat_add a b = min (a + b) duration_max"

definition from_millis :: "nat \<Rightarrow> duration" where
  "from_millis ms = ms * 10 ^ 6"

record restart_policy =
  rp_maximum_failures :: nat
  rp_window :: duration
  rp_initial_backoff :: duration
  rp_maximum_backoff :: duration

definition restart_policy_default :: restart_policy where
  "restart_policy_default =
     \<lparr>rp_maximum_failures = 5, rp_window = 10 * 60 * 10 ^ 9,
      rp_initial_backoff = from_millis 250, rp_maximum_backoff = 30 * 10 ^ 9\<rparr>"

record restart_budget =
  rb_policy :: restart_policy
  rb_failures :: "instant list"

definition restart_budget_new :: "restart_policy \<Rightarrow> restart_budget" where
  "restart_budget_new p = \<lparr>rb_policy = p, rb_failures = []\<rparr>"

text \<open>
  \<open>random\<close> is what the system's generator returned, None when it failed.  The result is None
  where the code panics: the modulus \<open>maximum + 1\<close> overflows u64.
\<close>

definition add_jitter :: "duration \<Rightarrow> u64 option \<Rightarrow> duration option" where
  "add_jitter base random =
     (let maximum = (of_nat (min (as_millis base div 5) (2 ^ 64 - 1)) :: u64)
      in if maximum = 0 then Some base
         else (case random of
             None \<Rightarrow> Some base
           | Some r \<Rightarrow>
               (if maximum = - 1 then None
                else Some (duration_sat_add base (from_millis (unat (r mod (maximum + 1))))))))"

text \<open>The outer option is the panic, the inner one the code's own \<^verbatim>\<open>Option<Duration>\<close>.\<close>

definition record_failure ::
  "restart_budget \<Rightarrow> instant \<Rightarrow> u64 option \<Rightarrow> restart_budget \<times> duration option option" where
  "record_failure b now random =
     (let policy = rb_policy b;
          kept = dropWhile (\<lambda>f. rp_window policy \<le> duration_since now f) (rb_failures b);
          failures = kept @ [now];
          b' = b\<lparr>rb_failures := failures\<rparr>
      in if rp_maximum_failures policy < length failures then (b', Some None)
         else
           (let exponent = min (length failures - 1) 31;
                multiplier = (push_bit exponent 1 :: u32);
                base = min (duration_sat_mul (rp_initial_backoff policy) multiplier)
                         (rp_maximum_backoff policy)
            in (b', map_option Some (add_jitter base random))))"

definition reset_budget :: "restart_budget \<Rightarrow> restart_budget" where
  "reset_budget b = b\<lparr>rb_failures := []\<rparr>"

text \<open>Failures at the given instants, each with its random draw.\<close>

fun failures_run :: "restart_budget \<Rightarrow> (instant \<times> u64 option) list \<Rightarrow> restart_budget" where
  "failures_run b [] = b"
| "failures_run b ((now, r) # es) = failures_run (fst (record_failure b now r)) es"

lemma record_failure_policy [simp]: "rb_policy (fst (record_failure b now r)) = rb_policy b"
  by (simp add: record_failure_def Let_def)

lemma record_failure_failures:
  "rb_failures (fst (record_failure b now r)) =
     dropWhile (\<lambda>f. rp_window (rb_policy b) \<le> duration_since now f) (rb_failures b) @ [now]"
  by (simp add: record_failure_def Let_def)

lemma dropWhile_sorted_filter:
  "sorted fs \<Longrightarrow> (\<And>x y. x \<le> y \<Longrightarrow> P y \<Longrightarrow> P x) \<Longrightarrow>
   dropWhile P fs = filter (\<lambda>f. \<not> P f) (fs :: nat list)"
proof (induction fs)
  case Nil
  then show ?case by simp
next
  case (Cons f fs)
  show ?case
  proof (cases "P f")
    case True
    with Cons show ?thesis by simp
  next
    case False
    with Cons.prems have "\<forall>g\<in>set fs. \<not> P g" by auto
    with False show ?thesis by simp
  qed
qed

text \<open>The window the budget keeps is the reference one: every earlier failure still inside it.\<close>

lemma failures_run_window:
  "sorted (map fst es @ [now]) \<Longrightarrow>
   dropWhile (\<lambda>f. w \<le> duration_since now f)
     (rb_failures (failures_run (restart_budget_new p) es)) =
   filter (\<lambda>f. duration_since now f < w) (map fst es)" if "w = rp_window p"
proof (induction es arbitrary: now rule: rev_induct)
  case Nil
  then show ?case by (simp add: restart_budget_new_def)
next
  case (snoc e es)
  obtain t r where e: "e = (t, r)" by fastforce
  have run: "failures_run b (es @ [(t, r)]) = fst (record_failure (failures_run b es) t r)" for b
    by (induction b es rule: failures_run.induct) auto
  have pol: "rb_policy (failures_run b es) = rb_policy b" for b
    by (induction b es rule: failures_run.induct) auto
  from snoc.prems e have st: "sorted (map fst es @ [t])" and tn: "t \<le> now"
    and all: "\<forall>f\<in>set (map fst es). f \<le> t"
    by (auto simp: sorted_append)
  let ?old = "filter (\<lambda>f. duration_since t f < w) (map fst es)"
  from snoc.IH [OF st] have kept: "rb_failures (failures_run (restart_budget_new p) (es @ [e])) =
      ?old @ [t]"
    by (simp add: e run record_failure_failures pol that) (simp add: restart_budget_new_def)
  have srt: "sorted (?old @ [t])"
    using st by (auto simp: sorted_append intro: sorted_filter [where f = id, simplified])
  have "dropWhile (\<lambda>f. w \<le> duration_since now f) (?old @ [t]) =
      filter (\<lambda>f. \<not> w \<le> duration_since now f) (?old @ [t])"
    by (rule dropWhile_sorted_filter [OF srt]) (auto simp: duration_since_def)
  also have "\<dots> = filter (\<lambda>f. duration_since now f < w) (map fst es @ [t])"
    using tn all by (auto simp: duration_since_def intro!: filter_cong)
  finally show ?case using kept e by simp
qed

lemma failures_run_policy [simp]: "rb_policy (failures_run b es) = rb_policy b"
  by (induction b es rule: failures_run.induct) auto

lemma millis_le:
  assumes "n \<le> as_millis b div 5"
  shows "n * 10 ^ 6 \<le> b div 5"
proof -
  have "as_millis b div 5 = (b div 5) div 10 ^ 6"
    by (simp add: as_millis_def flip: div_mult2_eq)
  with assms have "n * 10 ^ 6 \<le> (b div 5) div 10 ^ 6 * 10 ^ 6"
    by (intro mult_le_mono1) simp
  also have "\<dots> \<le> b div 5" by (rule div_times_less_eq_dividend)
  finally show ?thesis .
qed

lemma add_jitter_bounds:
  assumes "add_jitter base random = Some d" and "base \<le> duration_max"
  shows "base \<le> d \<and> d \<le> base + base div 5"
proof -
  let ?m = "min (as_millis base div 5) (2 ^ 64 - 1)"
  let ?w = "of_nat ?m :: u64"
  have w: "unat ?w = ?m" by (simp add: unat_of_nat)
  show ?thesis
  proof (cases "?w = 0 \<or> random = None")
    case True
    with assms(1) have "d = base"
      by (auto simp: add_jitter_def Let_def split: if_splits)
    then show ?thesis by simp
  next
    case False
    then obtain r where r: "random = Some r" by auto
    from False assms r have nm: "?w \<noteq> - 1"
      and d: "d = duration_sat_add base (from_millis (unat (r mod (?w + 1))))"
      by (auto simp: add_jitter_def Let_def split: if_splits)
    have "unat (?w + 1) = ?m + 1"
      using nm w by (metis unat_max_word Suc_eq_plus1 max_word_wrap unatSuc add.commute
          add_eq_0_iff2 add.inverse_inverse)
    then have "unat (r mod (?w + 1)) < ?m + 1"
      by (metis unat_mod_distrib mod_less_divisor add_gr_0 zero_less_one)
    then have "unat (r mod (?w + 1)) \<le> as_millis base div 5" by linarith
    then have "unat (r mod (?w + 1)) * 10 ^ 6 \<le> base div 5"
      by (rule millis_le)
    moreover have "d = min (base + unat (r mod (?w + 1)) * 10 ^ 6) duration_max"
      using d by (simp add: duration_sat_add_def from_millis_def)
    ultimately show ?thesis using assms(2) by linarith
  qed
qed

lemma add_jitter_no_panic:
  "as_millis base div 5 < 2 ^ 64 - 1 \<Longrightarrow> add_jitter base random \<noteq> None"
proof -
  assume a: "as_millis base div 5 < 2 ^ 64 - 1"
  have "unat (of_nat (as_millis base div 5) :: u64) = as_millis base div 5"
    using a by (simp add: unat_of_nat)
  with a have "(of_nat (as_millis base div 5) :: u64) \<noteq> - 1"
    using unat_max_word [where ?'a = 64] by force
  with a show ?thesis
    by (auto simp: add_jitter_def Let_def min_def split: option.splits)
qed

section \<open>Generation limiter\<close>

record generation_limits =
  gl_per_extension_tenants :: nat
  gl_per_instance :: nat
  gl_per_extension_tenant :: nat

definition generation_limits_default :: generation_limits where
  "generation_limits_default =
     \<lparr>gl_per_extension_tenants = 32, gl_per_instance = 256, gl_per_extension_tenant = 2\<rparr>"

record generation_key =
  gk_extension_id :: string
  gk_tenant_id :: i64

datatype generation_admission_error = InstanceLimit | ExtensionLimit | TenantLimit

record generation_counts =
  gc_total :: nat
  gc_by_extension :: "string \<rightharpoonup> nat"
  gc_by_key :: "generation_key \<rightharpoonup> nat"

definition generation_counts_default :: generation_counts where
  "generation_counts_default =
     \<lparr>gc_total = 0, gc_by_extension = Map.empty, gc_by_key = Map.empty\<rparr>"

definition unwrap_or :: "'a \<Rightarrow> 'a option \<Rightarrow> 'a" where
  "unwrap_or d x = (case x of None \<Rightarrow> d | Some y \<Rightarrow> y)"

text \<open>\<^verbatim>\<open>acquire\<close>: the state after, and the key the permit holds.\<close>

definition limiter_acquire ::
  "generation_limits \<Rightarrow> generation_counts \<Rightarrow> generation_key \<Rightarrow>
   generation_counts \<times> (generation_admission_error, generation_key) result" where
  "limiter_acquire limits s key =
     (if gl_per_instance limits \<le> gc_total s then (s, Inl InstanceLimit)
      else if gl_per_extension_tenant limits \<le> unwrap_or 0 (gc_by_key s key)
        then (s, Inl TenantLimit)
      else
        (let extension_count = unwrap_or 0 (gc_by_extension s (gk_extension_id key));
             tenant_already_present = (gc_by_key s key \<noteq> None)
         in if \<not> tenant_already_present \<and> gl_per_extension_tenants limits \<le> extension_count
            then (s, Inl ExtensionLimit)
            else
              (let s1 = s\<lparr>gc_total := gc_total s + 1\<rparr>;
                   s2 = (if \<not> tenant_already_present
                         then s1\<lparr>gc_by_extension := (gc_by_extension s1)
                                   (gk_extension_id key \<mapsto> extension_count + 1)\<rparr>
                         else s1);
                   s3 = s2\<lparr>gc_by_key := (gc_by_key s2)
                             (key \<mapsto> unwrap_or 0 (gc_by_key s2 key) + 1)\<rparr>
               in (s3, Inr key))))"

text \<open>The permit's drop handler.\<close>

definition drop_permit :: "generation_counts \<Rightarrow> generation_key \<Rightarrow> generation_counts" where
  "drop_permit s key =
     (let s1 = s\<lparr>gc_total := gc_total s - 1\<rparr>
      in case gc_by_key s1 key of
           None \<Rightarrow> s1
         | Some held \<Rightarrow>
             (let s2 = s1\<lparr>gc_by_key := (gc_by_key s1)(key \<mapsto> held - 1)\<rparr>
              in if held - 1 = 0 then
                   (let s3 = s2\<lparr>gc_by_key := (gc_by_key s2)(key := None)\<rparr>
                    in case gc_by_extension s3 (gk_extension_id key) of
                         None \<Rightarrow> s3
                       | Some n \<Rightarrow>
                           (if n - 1 = 0
                            then s3\<lparr>gc_by_extension :=
                                     (gc_by_extension s3)(gk_extension_id key := None)\<rparr>
                            else s3\<lparr>gc_by_extension :=
                                     (gc_by_extension s3)(gk_extension_id key \<mapsto> n - 1)\<rparr>))
                 else s2))"

definition limiter_active :: "generation_counts \<Rightarrow> nat" where
  "limiter_active s = gc_total s"

section \<open>Permits of the limiter\<close>

definition limiter_take ::
  "generation_limits \<Rightarrow> generation_counts \<Rightarrow> generation_key \<Rightarrow> generation_counts \<times> bool" where
  "limiter_take limits s key =
     (case limiter_acquire limits s key of
        (s', Inl _) \<Rightarrow> (s', False) | (s', Inr _) \<Rightarrow> (s', True))"

definition keys_of :: "string \<Rightarrow> generation_key multiset \<Rightarrow> generation_key set" where
  "keys_of e M = {k \<in> set_mset M. gk_extension_id k = e}"

definition some_pos :: "nat \<Rightarrow> nat option" where
  "some_pos n = (if n = 0 then None else Some n)"

definition limiter_accounts :: "generation_key multiset \<Rightarrow> generation_counts \<Rightarrow> bool" where
  "limiter_accounts M s =
     (gc_total s = size M \<and>
      (\<forall>k. gc_by_key s k = some_pos (count M k)) \<and>
      (\<forall>e. gc_by_extension s e = some_pos (card (keys_of e M))))"

definition limiter_fits :: "generation_limits \<Rightarrow> generation_key multiset \<Rightarrow> bool" where
  "limiter_fits limits M =
     (size M \<le> gl_per_instance limits \<and>
      (\<forall>k. count M k \<le> gl_per_extension_tenant limits) \<and>
      (\<forall>e. card (keys_of e M) \<le> gl_per_extension_tenants limits))"

lemma some_pos_simps [simp]:
  "some_pos n = None \<longleftrightarrow> n = 0"
  "unwrap_or 0 (some_pos n) = n"
  "some_pos (Suc n) = Some (Suc n)"
  "some_pos 0 = None"
  "unwrap_or d None = d"
  "unwrap_or d (Some x) = x"
  by (simp_all add: some_pos_def unwrap_or_def)

lemma finite_keys_of [simp]: "finite (keys_of e M)"
  by (simp add: keys_of_def)

lemma in_keys_of [simp]: "k \<in> keys_of e M \<longleftrightarrow> k \<in># M \<and> gk_extension_id k = e"
  by (simp add: keys_of_def)

lemma keys_of_add:
  "keys_of e (add_mset k M) =
     (if gk_extension_id k = e then insert k (keys_of e M) else keys_of e M)"
  by auto

lemma card_keys_of_add:
  "card (keys_of e (add_mset k M)) =
     card (keys_of e M) + (if gk_extension_id k = e \<and> k \<notin># M then 1 else 0)"
  by (auto simp: keys_of_add card_insert_if)

lemma card_keys_of_remove:
  assumes "k \<in># M"
  shows "card (keys_of e (M - {#k#})) =
     card (keys_of e M) - (if gk_extension_id k = e \<and> count M k = 1 then 1 else 0)"
proof -
  obtain N where M: "M = add_mset k N" using assms by (metis insert_DiffM)
  then show ?thesis by (auto simp: card_keys_of_add count_eq_zero_iff)
qed

lemma limiter_take_True:
  assumes "limiter_accounts M s"
  shows "limiter_take limits s k = (s', True) \<longleftrightarrow>
     size M < gl_per_instance limits \<and> count M k < gl_per_extension_tenant limits \<and>
     (k \<in># M \<or> card (keys_of (gk_extension_id k) M) < gl_per_extension_tenants limits) \<and>
     s' = \<lparr>gc_total = size M + 1,
           gc_by_extension = (gc_by_extension s)
             (gk_extension_id k := some_pos (card (keys_of (gk_extension_id k) (add_mset k M)))),
           gc_by_key = (gc_by_key s)(k := some_pos (count M k + 1))\<rparr>"
proof -
  have "(gc_by_extension s)(gk_extension_id k := some_pos (card (keys_of (gk_extension_id k) M)))
      = gc_by_extension s"
    using assms by (auto simp: limiter_accounts_def fun_eq_iff)
  then show ?thesis
    using assms
    by (cases s) (auto simp: limiter_take_def limiter_acquire_def limiter_accounts_def Let_def
        not_le count_eq_zero_iff card_keys_of_add)
qed

lemma limiter_take_False:
  "limiter_take limits s k = (s', False) \<Longrightarrow> s' = s"
  by (auto simp: limiter_take_def limiter_acquire_def Let_def split: if_splits)

lemma drop_permit_accounts:
  assumes "limiter_accounts M s" and "k \<in># M"
  shows "limiter_accounts (M - {#k#}) (drop_permit s k)"
proof -
  let ?e = "gk_extension_id k"
  have pos: "0 < count M k" using assms(2) by simp
  have ext: "0 < card (keys_of ?e M)"
    using assms(2) by (auto simp: card_gt_0_iff keys_of_def)
  have key: "gc_by_key s k = Some (count M k)"
    and by_ext: "gc_by_extension s ?e = Some (card (keys_of ?e M))"
    using assms(1) pos ext by (auto simp: limiter_accounts_def some_pos_def)
  show ?thesis
  proof (cases "count M k = 1")
    case True
    with assms ext key by_ext show ?thesis
      by (auto simp: limiter_accounts_def drop_permit_def Let_def size_Diff_singleton
          card_keys_of_remove some_pos_def count_eq_zero_iff)
  next
    case False
    with pos have "\<not> count M k \<le> 1" by linarith
    with assms ext key by_ext show ?thesis
      by (auto simp: limiter_accounts_def drop_permit_def Let_def size_Diff_singleton
          card_keys_of_remove some_pos_def count_eq_zero_iff)
  qed
qed

lemma limiter_accounts_empty: "limiter_accounts {#} s \<longleftrightarrow> s = generation_counts_default"
  by (cases s) (auto simp: limiter_accounts_def generation_counts_default_def keys_of_def)

interpretation limiter: bounded_ledger "limiter_take limits" drop_permit limiter_accounts
  "limiter_fits limits" for limits
proof
  fix M s k s'
  assume a: "limiter_accounts M s" and t: "limiter_take limits s k = (s', True)"
  note s' = t [unfolded limiter_take_True [OF a]]
  show "limiter_accounts (add_mset k M) s'"
    using a s' by (auto simp: limiter_accounts_def card_keys_of_add)
  show "limiter_fits limits M \<Longrightarrow> limiter_fits limits (add_mset k M)"
    using s' by (auto simp: limiter_fits_def card_keys_of_add)
next
  fix M s k s'
  assume "limiter_accounts M s" and "limiter_take limits s k = (s', False)"
  then show "limiter_accounts M s'" by (auto dest: limiter_take_False)
next
  fix M s k
  assume "limiter_accounts M s" and "k \<in># M"
  then show "limiter_accounts (M - {#k#}) (drop_permit s k)" by (rule drop_permit_accounts)
next
  fix M N
  assume "limiter_fits limits M" and sub: "N \<subseteq># M"
  moreover have "card (keys_of e N) \<le> card (keys_of e M)" for e
    using set_mset_mono [OF sub] by (intro card_mono) (auto simp: keys_of_def)
  moreover have "count N k \<le> count M k" for k
    using sub by (simp add: mset_subset_eq_count)
  ultimately show "limiter_fits limits N"
    using size_mset_mono [OF sub] by (meson limiter_fits_def order_trans)
qed

section \<open>Properties\<close>

lemma unat_backoff_multiplier: "e \<le> 31 \<Longrightarrow> unat (2 ^ e :: u32) = 2 ^ e"
proof -
  assume "e \<le> 31"
  then have "(2 :: nat) ^ e < 2 ^ 32" by (intro power_strict_increasing) simp_all
  moreover have "(2 ^ e :: u32) = of_nat (2 ^ e)" by simp
  ultimately show ?thesis by (simp only: unat_of_nat) simp
qed

lemma record_failure_result:
  assumes "sorted (map fst es @ [now])" and "rp_maximum_backoff p \<le> duration_max"
  defines "n \<equiv> length (filter (\<lambda>f. duration_since now f < rp_window p) (map fst es))"
  shows "snd (record_failure (failures_run (restart_budget_new p) es) now r) =
     (if rp_maximum_failures p \<le> n then Some None
      else map_option Some
        (add_jitter (min (rp_initial_backoff p * 2 ^ min n 31) (rp_maximum_backoff p)) r))"
proof -
  have pol: "rb_policy (restart_budget_new p) = p"
    by (simp add: restart_budget_new_def)
  have "min (min (a * 2 ^ min n 31) duration_max) (rp_maximum_backoff p)
      = min (a * 2 ^ min n 31) (rp_maximum_backoff p)" for a
    using assms(2) by linarith
  then show ?thesis
    using assms(1)
    by (simp add: record_failure_def Let_def pol failures_run_window [where p = p]
        n_def [simplified, symmetric] duration_sat_mul_def unat_backoff_multiplier less_Suc_eq_le)
qed

text \<open>
  The restart budget is a sliding window. For failures at non-decreasing instants the
  budget grants a restart exactly when fewer than the maximum number of earlier failures lie
  inside the policy window, counting denied restarts too; and it never panics when the largest
  backoff's jitter fits a u64.
\<close>

lemma restart_window_exact:
  assumes "sorted (map fst es @ [now])" and "rp_maximum_backoff p \<le> duration_max"
    and "as_millis (rp_maximum_backoff p) div 5 < 2 ^ 64 - 1"
  shows "((\<exists>d. snd (record_failure (failures_run (restart_budget_new p) es) now r) = Some (Some d))
      \<longleftrightarrow> length (filter (\<lambda>f. duration_since now f < rp_window p) (map fst es))
            < rp_maximum_failures p) \<and>
     snd (record_failure (failures_run (restart_budget_new p) es) now r) \<noteq> None"
proof -
  let ?n = "length (filter (\<lambda>f. duration_since now f < rp_window p) (map fst es))"
  let ?base = "min (rp_initial_backoff p * 2 ^ min ?n 31) (rp_maximum_backoff p)"
  have "as_millis ?base div 5 \<le> as_millis (rp_maximum_backoff p) div 5"
    unfolding as_millis_def by (intro div_le_mono) simp
  with assms(3) have "add_jitter ?base r \<noteq> None"
    by (intro add_jitter_no_panic) linarith
  then show ?thesis
    unfolding record_failure_result [OF assms(1,2)] by auto
qed

text \<open>
  The granted delay backs off exponentially within bounds: with n earlier failures in the
  window it is at least min(initial * 2^min(n,31), maximum) and at most a fifth more.
\<close>

lemma restart_backoff_bounds:
  assumes "sorted (map fst es @ [now])" and "rp_maximum_backoff p \<le> duration_max"
    and "snd (record_failure (failures_run (restart_budget_new p) es) now r) = Some (Some d)"
    and "n = length (filter (\<lambda>f. duration_since now f < rp_window p) (map fst es))"
    and "base = min (rp_initial_backoff p * 2 ^ min n 31) (rp_maximum_backoff p)"
  shows "base \<le> d \<and> d \<le> base + base div 5"
proof -
  from assms(3) have "add_jitter base r = Some d"
    unfolding record_failure_result [OF assms(1,2)] assms(4) [symmetric] assms(5) [symmetric]
    by (auto split: if_splits)
  then show ?thesis
    using assms(2,5) by (intro add_jitter_bounds) auto
qed

lemma restart_backoff_bounds_witness:
  "\<exists>d. snd (record_failure (failures_run (restart_budget_new restart_policy_default)
       [(0, None), (10, None)]) 20 (Some 99)) = Some (Some d) \<and>
     1000000000 \<le> d \<and> d \<le> 1200000000"
proof -
  let ?p = restart_policy_default and ?es = "[(0, None), (10, None)] :: (instant \<times> u64 option) list"
  have srt: "sorted (map fst ?es @ [20])" by simp
  have mx: "rp_maximum_backoff ?p \<le> duration_max"
    by (simp add: restart_policy_default_def duration_max_def)
  have n: "2 = length (filter (\<lambda>f. duration_since 20 f < rp_window ?p) (map fst ?es))"
    by (simp add: restart_policy_default_def duration_since_def)
  have base: "1000000000 = min (rp_initial_backoff ?p * 2 ^ min 2 31) (rp_maximum_backoff ?p)"
    by (simp add: restart_policy_default_def from_millis_def)
  obtain d where d: "snd (record_failure (failures_run (restart_budget_new ?p) ?es) 20 (Some 99))
      = Some (Some d)"
    using record_failure_result [OF srt mx, of "Some 99", folded n, folded base]
    by (simp add: restart_policy_default_def add_jitter_def as_millis_def Let_def)
  from restart_backoff_bounds [OF srt mx d n base] d show ?thesis by auto
qed

lemma restart_window_exact_witness:
  "snd (record_failure (failures_run (restart_budget_new
       (restart_policy_default\<lparr>rp_maximum_failures := 2\<rparr>))
       [(0, None), (10, None)]) 20 None) = Some None"
proof -
  let ?p = "restart_policy_default\<lparr>rp_maximum_failures := 2\<rparr>"
    and ?es = "[(0, None), (10, None)] :: (instant \<times> u64 option) list"
  have srt: "sorted (map fst ?es @ [20])" by simp
  have mx: "rp_maximum_backoff ?p \<le> duration_max"
    by (simp add: restart_policy_default_def duration_max_def)
  have jit: "as_millis (rp_maximum_backoff ?p) div 5 < 2 ^ 64 - 1"
    by (simp add: restart_policy_default_def as_millis_def)
  have full: "\<not> length (filter (\<lambda>f. duration_since 20 f < rp_window ?p) (map fst ?es))
      < rp_maximum_failures ?p"
    by (simp add: restart_policy_default_def duration_since_def)
  from restart_window_exact [OF srt mx jit, of None] full
  show ?thesis by (metis option.exhaust)
qed

text \<open>
  Extension processes stay within every cap and no permit leaks. From the empty limiter,
  after any interleaving of acquisitions and permit drops, the counters are exactly the live
  permits, the live permits respect the instance, extension and tenant caps, and once every
  permit is dropped the limiter is back in its initial state.
\<close>

lemma limiter_caps_and_no_leak:
  "case ledger_run (limiter_take limits) drop_permit ({#}, generation_counts_default) ops of
     (M, s) \<Rightarrow>
       limiter_active s = size M \<and> size M \<le> gl_per_instance limits \<and>
       (\<forall>k. unwrap_or 0 (gc_by_key s k) = count M k \<and>
            count M k \<le> gl_per_extension_tenant limits) \<and>
       (\<forall>e. unwrap_or 0 (gc_by_extension s e) = card (keys_of e M) \<and>
            card (keys_of e M) \<le> gl_per_extension_tenants limits) \<and>
       (s = generation_counts_default \<longleftrightarrow> M = {#})"
proof -
  have start: "limiter_accounts {#} generation_counts_default" "limiter_fits limits {#}"
    by (simp_all add: limiter_accounts_empty limiter_fits_def keys_of_def)
  obtain M s where
    "ledger_run (limiter_take limits) drop_permit ({#}, generation_counts_default) ops = (M, s)"
    by fastforce
  with limiter.run_bounded [of "({#}, generation_counts_default)" limits ops] start
  have acc: "limiter_accounts M s" and fit: "limiter_fits limits M" and
    run: "ledger_run (limiter_take limits) drop_permit ({#}, generation_counts_default) ops = (M, s)"
    by simp_all
  have "s = generation_counts_default \<longleftrightarrow> M = {#}"
    using acc limiter_accounts_empty [of s]
    by (auto simp: limiter_accounts_def generation_counts_default_def)
  with acc fit show ?thesis
    unfolding run by (auto simp: limiter_accounts_def limiter_fits_def limiter_active_def)
qed

end
