(* ===== verification/Generation_Coordinator.thy ===== *)
theory Generation_Coordinator
  imports Sift_Prelude
begin

text \<open>
  Active, candidate and rollback generations of one extension
  (\<^verbatim>\<open>GenerationCoordinator\<close> in \<^verbatim>\<open>crates/plugin-host/src/lifecycle.rs\<close>).

  Every method locks the state, so each locked section is one atomic operation here.  The two
  asynchronous methods, \<^verbatim>\<open>activate_candidate\<close> and \<^verbatim>\<open>rollback\<close>, are three sections: close
  admission, wait for the drain or the deadline, promote.  The step relation at the end
  interleaves the sections of any number of callers with the leases they hold.
\<close>

section \<open>State and operations\<close>

record 'g generation_state =
  gs_active :: "'g option"
  gs_candidate :: "'g option"
  gs_rollback :: "'g option"
  gs_accepting :: bool
  gs_active_work :: usize

datatype transition_error =
    AdmissionClosed | NoActiveGeneration | NoCandidate | CandidateOccupied | NoRollback

record 'g generation_activation =
  ga_active :: 'g
  ga_rollback :: "'g option"
  ga_drained :: bool
  ga_remaining_work :: usize

definition coordinator_new :: "'g option \<Rightarrow> 'g generation_state" where
  "coordinator_new active =
     \<lparr>gs_active = active, gs_candidate = None, gs_rollback = None,
      gs_accepting = (active \<noteq> None), gs_active_work = 0\<rparr>"

text \<open>The lease holds the generation; None is the counter-overflow panic.\<close>

definition coord_acquire ::
  "'g generation_state \<Rightarrow> ('g generation_state \<times> (transition_error, 'g) result) option" where
  "coord_acquire s =
     (if \<not> gs_accepting s then Some (s, Inl AdmissionClosed)
      else case gs_active s of
             None \<Rightarrow> Some (s, Inl NoActiveGeneration)
           | Some g \<Rightarrow>
               (if gs_active_work s = - 1 then None
                else Some (s\<lparr>gs_active_work := gs_active_work s + 1\<rparr>, Inr g)))"

definition stage_candidate ::
  "'g generation_state \<Rightarrow> 'g \<Rightarrow> 'g generation_state \<times> (transition_error, unit) result" where
  "stage_candidate s g =
     (if gs_candidate s \<noteq> None then (s, Inl CandidateOccupied)
      else (s\<lparr>gs_candidate := Some g\<rparr>, Inr ()))"

definition discard_candidate :: "'g generation_state \<Rightarrow> 'g generation_state \<times> 'g option" where
  "discard_candidate s = (s\<lparr>gs_candidate := None\<rparr>, gs_candidate s)"

definition activate_begin ::
  "'g generation_state \<Rightarrow> 'g generation_state \<times> (transition_error, unit) result" where
  "activate_begin s =
     (if gs_candidate s = None then (s, Inl NoCandidate)
      else (s\<lparr>gs_accepting := False\<rparr>, Inr ()))"

definition activate_finish ::
  "'g generation_state \<Rightarrow> bool \<Rightarrow>
   'g generation_state \<times> (transition_error, 'g generation_activation) result" where
  "activate_finish s drained =
     (let remaining_work = gs_active_work s
      in case gs_candidate s of
           None \<Rightarrow> (s, Inl NoCandidate)
         | Some active \<Rightarrow>
             (let rollback = gs_active s
              in (s\<lparr>gs_candidate := None, gs_active := Some active, gs_rollback := rollback,
                    gs_accepting := True\<rparr>,
                  Inr \<lparr>ga_active = active, ga_rollback = rollback, ga_drained = drained,
                       ga_remaining_work = remaining_work\<rparr>)))"

definition rollback_begin ::
  "'g generation_state \<Rightarrow> 'g generation_state \<times> (transition_error, unit) result" where
  "rollback_begin s =
     (if gs_rollback s = None then (s, Inl NoRollback)
      else (s\<lparr>gs_accepting := False\<rparr>, Inr ()))"

definition rollback_finish ::
  "'g generation_state \<Rightarrow> bool \<Rightarrow>
   'g generation_state \<times> (transition_error, 'g generation_activation) result" where
  "rollback_finish s drained =
     (let remaining_work = gs_active_work s
      in case gs_rollback s of
           None \<Rightarrow> (s, Inl NoRollback)
         | Some active \<Rightarrow>
             (let rollback = gs_active s
              in (s\<lparr>gs_active := Some active, gs_rollback := rollback, gs_accepting := True\<rparr>,
                  Inr \<lparr>ga_active = active, ga_rollback = rollback, ga_drained = drained,
                       ga_remaining_work = remaining_work\<rparr>)))"

definition close_admission :: "'g generation_state \<Rightarrow> 'g generation_state" where
  "close_admission s = s\<lparr>gs_accepting := False\<rparr>"

text \<open>The lease's drop handler: whether it wakes the waiters.\<close>

definition drop_lease :: "'g generation_state \<Rightarrow> 'g generation_state \<times> bool" where
  "drop_lease s =
     (let s' = s\<lparr>gs_active_work := sat_sub (gs_active_work s) 1\<rparr>
      in (s', gs_active_work s' = 0))"

section \<open>Interleavings\<close>

text \<open>
  A transition in flight is waiting for the drain, or has waited and carries the answer of
  \<^verbatim>\<open>wait_for_drain\<close>: true when it saw no active work, false when the deadline came first.
\<close>

datatype flight_kind = Activation | Rollback

datatype flight = Waiting flight_kind | Waited flight_kind bool

record 'g world =
  w_coord :: "'g generation_state"
  w_leases :: "'g multiset"
  w_flights :: "flight multiset"
  w_done :: "'g generation_activation list"  \<comment> \<open>activations returned so far, newest first\<close>

definition world_new :: "'g option \<Rightarrow> 'g world" where
  "world_new active =
     \<lparr>w_coord = coordinator_new active, w_leases = {#}, w_flights = {#}, w_done = []\<rparr>"

inductive world_step :: "'g world \<Rightarrow> 'g world \<Rightarrow> bool" where
  acquire: "coord_acquire (w_coord w) = Some (s, Inr g) \<Longrightarrow>
     world_step w (w\<lparr>w_coord := s, w_leases := add_mset g (w_leases w)\<rparr>)"
| stage: "stage_candidate (w_coord w) g = (s, r) \<Longrightarrow> world_step w (w\<lparr>w_coord := s\<rparr>)"
| discard: "discard_candidate (w_coord w) = (s, r) \<Longrightarrow> world_step w (w\<lparr>w_coord := s\<rparr>)"
| close: "world_step w (w\<lparr>w_coord := close_admission (w_coord w)\<rparr>)"
| release: "g \<in># w_leases w \<Longrightarrow> drop_lease (w_coord w) = (s, b) \<Longrightarrow>
     world_step w (w\<lparr>w_coord := s, w_leases := w_leases w - {#g#}\<rparr>)"
| begin_activation: "activate_begin (w_coord w) = (s, Inr ()) \<Longrightarrow>
     world_step w (w\<lparr>w_coord := s, w_flights := add_mset (Waiting Activation) (w_flights w)\<rparr>)"
| begin_rollback: "rollback_begin (w_coord w) = (s, Inr ()) \<Longrightarrow>
     world_step w (w\<lparr>w_coord := s, w_flights := add_mset (Waiting Rollback) (w_flights w)\<rparr>)"
| drained: "Waiting k \<in># w_flights w \<Longrightarrow> gs_active_work (w_coord w) = 0 \<Longrightarrow>
     world_step w (w\<lparr>w_flights := add_mset (Waited k True) (w_flights w - {#Waiting k#})\<rparr>)"
| deadline: "Waiting k \<in># w_flights w \<Longrightarrow>
     world_step w (w\<lparr>w_flights := add_mset (Waited k False) (w_flights w - {#Waiting k#})\<rparr>)"
| activated: "Waited Activation d \<in># w_flights w \<Longrightarrow>
     activate_finish (w_coord w) d = (s, Inr a) \<Longrightarrow>
     world_step w (w\<lparr>w_coord := s, w_flights := w_flights w - {#Waited Activation d#},
                     w_done := a # w_done w\<rparr>)"
| activation_lost: "Waited Activation d \<in># w_flights w \<Longrightarrow>
     activate_finish (w_coord w) d = (s, Inl e) \<Longrightarrow>
     world_step w (w\<lparr>w_coord := s, w_flights := w_flights w - {#Waited Activation d#}\<rparr>)"
| rolled_back: "Waited Rollback d \<in># w_flights w \<Longrightarrow>
     rollback_finish (w_coord w) d = (s, Inr a) \<Longrightarrow>
     world_step w (w\<lparr>w_coord := s, w_flights := w_flights w - {#Waited Rollback d#},
                     w_done := a # w_done w\<rparr>)"
| rollback_lost: "Waited Rollback d \<in># w_flights w \<Longrightarrow>
     rollback_finish (w_coord w) d = (s, Inl e) \<Longrightarrow>
     world_step w (w\<lparr>w_coord := s, w_flights := w_flights w - {#Waited Rollback d#}\<rparr>)"

inductive reachable_world :: "'g option \<Rightarrow> 'g world \<Rightarrow> bool" for active where
  start: "reachable_world active (world_new active)"
| step: "reachable_world active w \<Longrightarrow> world_step w w' \<Longrightarrow> reachable_world active w'"

text \<open>Histories in which at most one transition is in flight at any time.\<close>

inductive serial_world :: "'g option \<Rightarrow> 'g world \<Rightarrow> bool" for active where
  start: "serial_world active (world_new active)"
| step: "serial_world active w \<Longrightarrow> world_step w w' \<Longrightarrow> size (w_flights w') \<le> 1 \<Longrightarrow>
     serial_world active w'"

inductive_cases world_stepE: "world_step w w'"

lemmas coord_defs =
  coord_acquire_def stage_candidate_def discard_candidate_def activate_begin_def
  activate_finish_def rollback_begin_def rollback_finish_def close_admission_def drop_lease_def

lemma serial_reachable: "serial_world active w \<Longrightarrow> reachable_world active w"
  by (induction rule: serial_world.induct) (auto intro: reachable_world.intros)

section \<open>Invariants\<close>

text \<open>The work counter is the number of live leases, and an open coordinator has a generation.\<close>

definition counted :: "'g world \<Rightarrow> bool" where
  "counted w =
     (unat (gs_active_work (w_coord w)) = size (w_leases w) \<and>
      (gs_accepting (w_coord w) \<longrightarrow> gs_active (w_coord w) \<noteq> None))"

lemma unat_plus_one: "(x :: 'a::len word) \<noteq> - 1 \<Longrightarrow> unat (x + 1) = Suc (unat x)"
  by (metis add.commute add_eq_0_iff2 unatSuc)

lemma counted_step: "world_step w w' \<Longrightarrow> counted w \<Longrightarrow> counted w'"
  by (induction rule: world_step.induct)
    (auto simp: counted_def coord_defs Let_def unat_plus_one sat_unat size_Diff_singleton
      split: if_splits option.splits)

lemma counted_new: "counted (world_new active)"
  by (simp add: counted_def world_new_def coordinator_new_def)

lemma counted_reachable: "reachable_world active w \<Longrightarrow> counted w"
  by (induction rule: reachable_world.induct) (rule counted_new, rule counted_step)

text \<open>
  While the only transition in flight waits, admission is closed; and once it has seen the
  drain, no lease is alive.
\<close>

definition drain_inv :: "'g world \<Rightarrow> bool" where
  "drain_inv w =
     (size (w_flights w) \<le> 1 \<and>
      (w_flights w = {#} \<or> \<not> gs_accepting (w_coord w)) \<and>
      (\<forall>k. Waited k True \<in># w_flights w \<longrightarrow> w_leases w = {#}) \<and>
      (\<forall>a\<in>set (w_done w). ga_drained a \<longrightarrow> ga_remaining_work a = 0))"

lemma one_flight:
  "size M \<le> 1 \<Longrightarrow> f \<in># M \<Longrightarrow> M = {#f#}"
  by (metis One_nat_def diff_is_0_eq insert_DiffM size_Diff_singleton size_eq_0_iff_empty)

lemma no_work: "counted w \<Longrightarrow> gs_active_work (w_coord w) = 0 \<longleftrightarrow> w_leases w = {#}"
  by (metis counted_def size_eq_0_iff_empty unat_eq_zero)

lemma drain_inv_step:
  "world_step w w' \<Longrightarrow> counted w \<Longrightarrow> drain_inv w \<Longrightarrow> size (w_flights w') \<le> 1 \<Longrightarrow> drain_inv w'"
proof (induction rule: world_step.induct)
  case (activated d w s a)
  have "w_flights w = {#Waited Activation d#}"
    using activated by (auto simp: drain_inv_def intro: one_flight)
  with activated no_work [of w] show ?case
    by (auto simp: drain_inv_def activate_finish_def Let_def split: option.splits)
next
  case (rolled_back d w s a)
  have "w_flights w = {#Waited Rollback d#}"
    using rolled_back by (auto simp: drain_inv_def intro: one_flight)
  with rolled_back no_work [of w] show ?case
    by (auto simp: drain_inv_def rollback_finish_def Let_def split: option.splits)
next
  case (activation_lost d w s e)
  have "w_flights w = {#Waited Activation d#}"
    using activation_lost by (auto simp: drain_inv_def intro: one_flight)
  with activation_lost show ?case by (simp add: drain_inv_def)
next
  case (rollback_lost d w s e)
  have "w_flights w = {#Waited Rollback d#}"
    using rollback_lost by (auto simp: drain_inv_def intro: one_flight)
  with rollback_lost show ?case by (simp add: drain_inv_def)
next
  case (drained k w)
  have "w_flights w = {#Waiting k#}"
    using drained by (auto simp: drain_inv_def intro: one_flight)
  with drained no_work [of w] show ?case by (simp add: drain_inv_def)
next
  case (deadline k w)
  have "w_flights w = {#Waiting k#}"
    using deadline by (auto simp: drain_inv_def intro: one_flight)
  with deadline show ?case by (simp add: drain_inv_def)
qed (auto simp: drain_inv_def coord_defs Let_def split: if_splits option.splits)

lemma serial_drain_inv: "serial_world active w \<Longrightarrow> drain_inv w"
proof (induction rule: serial_world.induct)
  case start
  show ?case by (simp add: drain_inv_def world_new_def)
next
  case (step w w')
  from serial_reachable [OF step.hyps(1)] have "counted w" by (rule counted_reachable)
  with step show ?case by (blast intro: drain_inv_step)
qed

section \<open>Properties\<close>

text \<open>
  A drained promotion is quiet. When transitions are not started concurrently, every
  activation or rollback that reports that the old generation drained also reports no remaining
  work: no lease was admitted between the drain and the promotion.
\<close>

lemma drained_promotion_quiet:
  assumes "serial_world active w" and "a \<in> set (w_done w)" and "ga_drained a"
  shows "ga_remaining_work a = 0"
  using serial_drain_inv [OF assms(1)] assms(2,3) by (simp add: drain_inv_def)

definition demo_world :: "nat world" where
  "demo_world =
     \<lparr>w_coord = \<lparr>gs_active = Some 6, gs_candidate = None, gs_rollback = Some 5,
                 gs_accepting = True, gs_active_work = 0\<rparr>,
      w_leases = {#}, w_flights = {#},
      w_done = [\<lparr>ga_active = 6, ga_rollback = Some 5, ga_drained = True, ga_remaining_work = 0\<rparr>]\<rparr>"

lemma demo_world_serial: "serial_world (Some 5) demo_world"
proof -
  let ?c = "\<lparr>gs_active = Some 5, gs_candidate = Some 6, gs_rollback = None,
    gs_accepting = True, gs_active_work = 0\<rparr> :: nat generation_state"
  let ?w = "\<lambda>c f. \<lparr>w_coord = c, w_leases = {#}, w_flights = f, w_done = []\<rparr> :: nat world"
  have 1: "serial_world (Some 5) (?w ?c {#})"
    by (rule serial_world.step [OF serial_world.start])
      (use world_step.stage [of "world_new (Some 5)" "6 :: nat"] in
        \<open>simp_all add: world_new_def coordinator_new_def stage_candidate_def\<close>)
  have 2: "serial_world (Some 5) (?w (?c\<lparr>gs_accepting := False\<rparr>) {#Waiting Activation#})"
    by (rule serial_world.step [OF 1])
      (use world_step.begin_activation [of "?w ?c {#}"] in \<open>simp_all add: activate_begin_def\<close>)
  have 3: "serial_world (Some 5) (?w (?c\<lparr>gs_accepting := False\<rparr>) {#Waited Activation True#})"
    by (rule serial_world.step [OF 2])
      (use world_step.drained [of Activation "?w (?c\<lparr>gs_accepting := False\<rparr>) {#Waiting Activation#}"]
        in simp_all)
  show ?thesis
    by (rule serial_world.step [OF 3])
      (use world_step.activated [of True "?w (?c\<lparr>gs_accepting := False\<rparr>) {#Waited Activation True#}"]
        in \<open>simp_all add: activate_finish_def demo_world_def Let_def\<close>)
qed

lemma drained_promotion_quiet_witness:
  "ga_remaining_work (hd (w_done demo_world)) = 0"
  by (rule drained_promotion_quiet [OF demo_world_serial]) (simp_all add: demo_world_def)

text \<open>
  In every interleaving the work counter equals the number of live leases, so it never
  underflows, and admission is refused only by closure: an open coordinator has a generation to
  hand out.
\<close>

lemma lease_counter_exact:
  assumes "reachable_world active w"
  shows "unat (gs_active_work (w_coord w)) = size (w_leases w) \<and>
    coord_acquire (w_coord w) \<noteq> Some (w_coord w, Inl NoActiveGeneration)"
  using counted_reachable [OF assms]
  by (auto simp: counted_def coord_acquire_def split: option.splits)

lemma lease_counter_exact_witness:
  "unat (gs_active_work (w_coord demo_world)) = size (w_leases demo_world)"
  using lease_counter_exact [OF serial_reachable [OF demo_world_serial]] by simp

text \<open>
  A rollback undoes an activation. Rolling back right after a promotion makes the previous
  generation active again, keeps the promoted one for a further rollback, and reopens admission.
\<close>

lemma rollback_undoes_activation:
  assumes "gs_active s = Some old" and "activate_finish s d = (s1, Inr a)"
    and "rollback_finish s1 d' = (s2, r)"
  shows "gs_active s2 = Some old \<and> gs_rollback s2 = gs_candidate s \<and> gs_accepting s2 \<and>
    gs_active_work s2 = gs_active_work s \<and>
    r = Inr \<lparr>ga_active = old, ga_rollback = Some (ga_active a), ga_drained = d',
             ga_remaining_work = gs_active_work s\<rparr>"
  using assms by (auto simp: activate_finish_def rollback_finish_def Let_def split: option.splits)

lemma rollback_undoes_activation_witness:
  "let s = \<lparr>gs_active = Some 5, gs_candidate = Some (6::nat), gs_rollback = None,
            gs_accepting = False, gs_active_work = 3\<rparr>;
       s2 = fst (rollback_finish (fst (activate_finish s False)) True)
   in gs_active s2 = Some 5 \<and> gs_rollback s2 = Some 6"
proof -
  let ?s = "\<lparr>gs_active = Some 5, gs_candidate = Some (6::nat), gs_rollback = None,
    gs_accepting = False, gs_active_work = 3\<rparr>"
  let ?a = "\<lparr>ga_active = 6, ga_rollback = Some 5, ga_drained = False, ga_remaining_work = 3\<rparr>"
  have "activate_finish ?s False = (fst (activate_finish ?s False), Inr ?a)"
    by (simp add: activate_finish_def Let_def)
  from rollback_undoes_activation [OF _ this prod.collapse [symmetric], of 5 True]
  show ?thesis by (simp add: Let_def)
qed

text \<open>
  Discarding the candidate while an activation waits for the drain wedges the coordinator:
  the activation fails with NoCandidate after it closed admission, and new work is refused
  although the old generation is still active.
\<close>

lemma discard_during_activation_closes_admission:
  assumes "activate_begin s = (s1, Inr ())" and "discard_candidate s1 = (s2, c)"
    and "activate_finish s2 d = (s3, r)"
  shows "r = Inl NoCandidate \<and> gs_active s3 = gs_active s \<and>
    coord_acquire s3 = Some (s3, Inl AdmissionClosed)"
  using assms
  by (auto simp: activate_begin_def discard_candidate_def activate_finish_def coord_acquire_def
      split: if_splits)

lemma discard_during_activation_closes_admission_witness:
  "let s = \<lparr>gs_active = Some 5, gs_candidate = Some (6::nat), gs_rollback = None,
            gs_accepting = True, gs_active_work = 0\<rparr>;
       s3 = fst (activate_finish (fst (discard_candidate (fst (activate_begin s)))) True)
   in coord_acquire s3 = Some (s3, Inl AdmissionClosed)"
proof -
  let ?s = "\<lparr>gs_active = Some 5, gs_candidate = Some (6::nat), gs_rollback = None,
    gs_accepting = True, gs_active_work = 0\<rparr>"
  have "activate_begin ?s = (fst (activate_begin ?s), Inr ())"
    by (simp add: activate_begin_def)
  from discard_during_activation_closes_admission
    [OF this prod.collapse [symmetric] prod.collapse [symmetric], of True]
  show ?thesis unfolding Let_def by blast
qed

end
