(* ===== verification/Comparison_Values.thy ===== *)
theory Comparison_Values
  imports Complex_Main Sift_Protocol
begin

text \<open>
  Values under comparison: the cell-level half of \<^verbatim>\<open>crates/core/src/comparison.rs\<close>, from
  \<^verbatim>\<open>canonical_key_value\<close> down to \<^verbatim>\<open>type_family\<close>.

  What the code takes from other crates (SHA-256, serde_json, Unicode tables, chrono, IEEE
  rounding and float formatting) is the record \<open>compare_env\<close>, an argument of every definition
  that uses one of them.
\<close>

section \<open>The environment\<close>

record compare_env =
  ce_digest :: "u8 list \<Rightarrow> u8 list"                      \<comment> \<open>\<^verbatim>\<open>Sha256::digest\<close>\<close>
  ce_hex :: "u8 list \<Rightarrow> string"                          \<comment> \<open>\<^verbatim>\<open>format!("{:x}", digest)\<close>\<close>
  ce_json_value :: "sql_value \<Rightarrow> (string, string) result"  \<comment> \<open>\<^verbatim>\<open>serde_json::to_string\<close>\<close>
  ce_json_strings :: "string list \<Rightarrow> (string, string) result"
  ce_json_values :: "sql_value list \<Rightarrow> (string, u8 list) result"  \<comment> \<open>\<^verbatim>\<open>serde_json::to_vec\<close>\<close>
  ce_trim :: "string \<Rightarrow> string"
  ce_to_lowercase :: "string \<Rightarrow> string"
  ce_nfc :: "string \<Rightarrow> string"
  ce_nfkc :: "string \<Rightarrow> string"
  ce_f64_of_f32 :: "f32 \<Rightarrow> f64"
  ce_f64_of_int :: "int \<Rightarrow> f64"                           \<comment> \<open>\<^verbatim>\<open>f64::from\<close> and \<^verbatim>\<open>as f64\<close>\<close>
  ce_f64_parse :: "string \<Rightarrow> f64 option"
  ce_f64_sub :: "f64 \<Rightarrow> f64 \<Rightarrow> f64"
  ce_f64_mul :: "f64 \<Rightarrow> f64 \<Rightarrow> f64"
  ce_f64_show :: "f64 \<Rightarrow> string"
  ce_micros_between :: "int \<Rightarrow> int \<Rightarrow> int option"
    \<comment> \<open>\<^verbatim>\<open>signed_duration_since(..).num_microseconds()\<close>\<close>

section \<open>Integers and decimals\<close>

definition integer_value :: "sql_value \<Rightarrow> int option" where
  "integer_value v =
     (case v of
        VInt16 x \<Rightarrow> Some (sint x)
      | VInt32 x \<Rightarrow> Some (sint x)
      | VInt64 x \<Rightarrow> Some (sint x)
      | _ \<Rightarrow> None)"

fun split_once_dot :: "string \<Rightarrow> (string \<times> string) option" where
  "split_once_dot [] = None"
| "split_once_dot (c # cs) =
     (if c = CHR ''.'' then Some ([], cs)
      else map_option (\<lambda>(a, b). (c # a, b)) (split_once_dot cs))"

definition trim_start_zeros :: "string \<Rightarrow> string" where
  "trim_start_zeros s = dropWhile (\<lambda>c. c = CHR ''0'') s"

definition trim_end_zeros :: "string \<Rightarrow> string" where
  "trim_end_zeros s = rev (dropWhile (\<lambda>c. c = CHR ''0'') (rev s))"

definition strip_char :: "char \<Rightarrow> string \<Rightarrow> string option" where
  "strip_char c s = (case s of [] \<Rightarrow> None | x # xs \<Rightarrow> (if x = c then Some xs else None))"

text \<open>The parts \<^verbatim>\<open>normalize_decimal\<close> reads: sign, integer digits and fraction digits.\<close>

definition decimal_parts :: "string \<Rightarrow> (bool \<times> string \<times> string) option" where
  "decimal_parts value =
     (let (negative, unsigned) =
            (case strip_char (CHR ''-'') value of Some rest \<Rightarrow> (True, rest) | None \<Rightarrow> (False, value));
          unsigned = (case strip_char (CHR ''+'') unsigned of Some rest \<Rightarrow> rest | None \<Rightarrow> unsigned);
          (integer, fraction) =
            (case split_once_dot unsigned of Some p \<Rightarrow> p | None \<Rightarrow> (unsigned, []))
      in if (integer = [] \<and> fraction = []) \<or> \<not> list_all is_digit integer
            \<or> \<not> list_all is_digit fraction
         then None else Some (negative, integer, fraction))"

definition render_decimal :: "bool \<times> string \<times> string \<Rightarrow> string" where
  "render_decimal p =
     (case p of (negative, integer, fraction) \<Rightarrow>
        (let integer = trim_start_zeros integer;
             fraction = trim_end_zeros fraction;
             integer = (if integer = [] then ''0'' else integer);
             sign = (if negative \<and> (integer \<noteq> ''0'' \<or> fraction \<noteq> []) then ''-'' else [])
         in if fraction = [] then sign @ integer else sign @ integer @ ''.'' @ fraction))"

definition normalize_decimal :: "compare_env \<Rightarrow> string \<Rightarrow> string option" where
  "normalize_decimal env value = map_option render_decimal (decimal_parts (ce_trim env value))"

section \<open>Cell equality\<close>

definition is_numeric :: "sql_value \<Rightarrow> bool" where
  "is_numeric v =
     (case v of
        VInt16 _ \<Rightarrow> True | VInt32 _ \<Rightarrow> True | VInt64 _ \<Rightarrow> True
      | VFloat32 _ \<Rightarrow> True | VFloat64 _ \<Rightarrow> True | VDecimal _ \<Rightarrow> True
      | _ \<Rightarrow> False)"

definition numeric_f64 :: "compare_env \<Rightarrow> sql_value \<Rightarrow> f64 option" where
  "numeric_f64 env v =
     (case v of
        VInt16 x \<Rightarrow> Some (ce_f64_of_int env (sint x))
      | VInt32 x \<Rightarrow> Some (ce_f64_of_int env (sint x))
      | VInt64 x \<Rightarrow> Some (ce_f64_of_int env (sint x))
      | VFloat32 x \<Rightarrow> Some (ce_f64_of_f32 env x)
      | VFloat64 x \<Rightarrow> Some x
      | VDecimal s \<Rightarrow> ce_f64_parse env s
      | _ \<Rightarrow> None)"

definition same_value_family :: "sql_value \<Rightarrow> sql_value \<Rightarrow> bool" where
  "same_value_family l r =
     ((is_numeric l \<and> is_numeric r) \<or> value_type_category l = value_type_category r)"

text \<open>
  The nine integer arms compare the sign-extended values; then two decimals, then a decimal
  and an integer in either order, then the derived equality.
\<close>

definition exact_value_equal :: "compare_env \<Rightarrow> sql_value \<Rightarrow> sql_value \<Rightarrow> bool" where
  "exact_value_equal env l r =
     (case (integer_value l, integer_value r) of
        (Some a, Some b) \<Rightarrow> a = b
      | (li, ri) \<Rightarrow>
          (case (l, r) of
             (VDecimal x, VDecimal y) \<Rightarrow>
               (case (normalize_decimal env x, normalize_decimal env y) of
                  (Some a, Some b) \<Rightarrow> a = b | _ \<Rightarrow> False)
           | (VDecimal x, _) \<Rightarrow>
               (if ri \<noteq> None then normalize_decimal env x = map_option show_int ri
                else value_eq l r)
           | (_, VDecimal y) \<Rightarrow>
               (if li \<noteq> None then normalize_decimal env y = map_option show_int li
                else value_eq l r)
           | _ \<Rightarrow> value_eq l r))"

datatype unicode_normalization = Nfc | Nfkc

record column_tolerance =
  ct_column :: string
  ct_numeric_absolute :: "f64 option"
  ct_numeric_relative :: "f64 option"
  ct_timestamp_microseconds :: "u64 option"
  ct_unicode_normalization :: "unicode_normalization option"
  ct_case_fold :: bool
  ct_trim_outer_whitespace :: bool
  ct_binary_digest :: bool

datatype cell_status = CellEqual | CellTolerantEqual | CellUnequal | CellIncomparable
  | CellConversionFailed

definition within_micros :: "compare_env \<Rightarrow> u64 option \<Rightarrow> int \<Rightarrow> int \<Rightarrow> cell_status" where
  "within_micros env maximum l r =
     (case maximum of
        None \<Rightarrow> CellUnequal
      | Some m \<Rightarrow>
          (if (case ce_micros_between env l r of Some d \<Rightarrow> nat \<bar>d\<bar> \<le> unat m | None \<Rightarrow> False)
           then CellTolerantEqual else CellUnequal))"

definition normalize_text :: "compare_env \<Rightarrow> column_tolerance \<Rightarrow> string \<Rightarrow> string" where
  "normalize_text env t value =
     (let v = (case ct_unicode_normalization t of
                 Some Nfc \<Rightarrow> ce_nfc env value | Some Nfkc \<Rightarrow> ce_nfkc env value | None \<Rightarrow> value);
          v = (if ct_trim_outer_whitespace t then ce_trim env v else v)
      in if ct_case_fold t then ce_to_lowercase env v else v)"

definition f64_max :: "f64 \<Rightarrow> f64 \<Rightarrow> f64" where
  "f64_max x y = (if f64_is_nan x then y else if f64_is_nan y then x else if f64_lt x y then y else x)"

definition within_numeric :: "compare_env \<Rightarrow> column_tolerance \<Rightarrow> f64 \<Rightarrow> f64 \<Rightarrow> cell_status" where
  "within_numeric env t l r =
     (if f64_is_nan l \<or> f64_is_nan r then CellUnequal
      else
        (let difference = f64_abs (ce_f64_sub env l r);
             absolute = (case ct_numeric_absolute t of
                           Some m \<Rightarrow> f64_le difference m | None \<Rightarrow> False);
             relative = (case ct_numeric_relative t of
                           Some m \<Rightarrow>
                             f64_le difference (ce_f64_mul env m (f64_max (f64_abs l) (f64_abs r)))
                         | None \<Rightarrow> False)
         in if absolute \<or> relative then CellTolerantEqual else CellUnequal))"

definition is_native :: "sql_value \<Rightarrow> bool" where
  "is_native v = (case v of VNative _ _ _ \<Rightarrow> True | _ \<Rightarrow> False)"

text \<open>The final \<^verbatim>\<open>match\<close> of \<^verbatim>\<open>compare_value\<close>.\<close>

definition compare_structured ::
  "compare_env \<Rightarrow> column_tolerance \<Rightarrow> sql_value \<Rightarrow> sql_value \<Rightarrow> cell_status" where
  "compare_structured env t left right =
     (case (left, right) of
             (VTimestamp l, VTimestamp r) \<Rightarrow>
               within_micros env (ct_timestamp_microseconds t) l r
           | (VTimestampTz l, VTimestampTz r) \<Rightarrow>
               within_micros env (ct_timestamp_microseconds t) l r
           | (VText l, VText r) \<Rightarrow>
               (if normalize_text env t l = normalize_text env t r
                then CellTolerantEqual else CellUnequal)
           | (VBlob l, VBlob r) \<Rightarrow>
               (if ct_binary_digest t then
                  (if ce_digest env l = ce_digest env r then CellTolerantEqual else CellUnequal)
                else if same_value_family left right then CellUnequal else CellIncomparable)
           | _ \<Rightarrow> (if same_value_family left right then CellUnequal else CellIncomparable))"

definition compare_value ::
  "compare_env \<Rightarrow> sql_value \<Rightarrow> sql_value \<Rightarrow> column_tolerance option \<Rightarrow> cell_status" where
  "compare_value env left right tolerance =
     (if value_is_null left \<or> value_is_null right then
        (if value_is_null left \<and> value_is_null right then CellEqual else CellUnequal)
      else if exact_value_equal env left right then CellEqual
      else if is_native left \<or> is_native right then CellIncomparable
      else case tolerance of
        None \<Rightarrow> (if same_value_family left right then CellUnequal else CellIncomparable)
      | Some t \<Rightarrow>
          (if is_numeric left \<and> is_numeric right then
             (case (numeric_f64 env left, numeric_f64 env right) of
                (Some l, Some r) \<Rightarrow> within_numeric env t l r
              | _ \<Rightarrow> CellConversionFailed)
           else compare_structured env t left right))"

definition canonical_key_value :: "compare_env \<Rightarrow> sql_value \<Rightarrow> string" where
  "canonical_key_value env v =
     (case v of
        VNull \<Rightarrow> ''null'' | VTypedNull _ \<Rightarrow> ''null''
      | VInt16 x \<Rightarrow> ''number:'' @ show_int (sint x)
      | VInt32 x \<Rightarrow> ''number:'' @ show_int (sint x)
      | VInt64 x \<Rightarrow> ''number:'' @ show_int (sint x)
      | VDecimal s \<Rightarrow>
          (case normalize_decimal env s of
             Some d \<Rightarrow> ''number:'' @ d | None \<Rightarrow> ''invalid_decimal:'' @ s)
      | VFloat32 x \<Rightarrow>
          (if f32_is_finite x then ''number:'' @ ce_f64_show env (ce_f64_of_f32 env x)
           else ''float32:'' @ hex_padded 8 (unat x))
      | VFloat64 x \<Rightarrow>
          (if f64_is_finite x then ''number:'' @ ce_f64_show env x
           else ''float64:'' @ hex_padded 16 (unat x))
      | other \<Rightarrow>
          (case ce_json_value env other of
             Inr s \<Rightarrow> s | Inl _ \<Rightarrow> ''type:'' @ value_type_category other))"

section \<open>Type families\<close>

datatype type_family =
    FamNumeric | FamText | FamBinary | FamDate | FamTime | FamTimestamp | FamTimestampTz
  | FamInterval | FamBoolean | FamUuid | FamJson | FamNative string string | FamOther

definition type_family_of :: "type_ref \<Rightarrow> type_family" where
  "type_family_of t =
     (case t of
        PrimitiveRef p \<Rightarrow>
          (case p of
             PInt16 \<Rightarrow> FamNumeric | PInt32 \<Rightarrow> FamNumeric | PInt64 \<Rightarrow> FamNumeric
           | PFloat32 \<Rightarrow> FamNumeric | PFloat64 \<Rightarrow> FamNumeric | PDecimal \<Rightarrow> FamNumeric
           | PText \<Rightarrow> FamText | PBlob \<Rightarrow> FamBinary | PDate \<Rightarrow> FamDate | PTime \<Rightarrow> FamTime
           | PTimestamp \<Rightarrow> FamTimestamp | PTimestampTz \<Rightarrow> FamTimestampTz
           | PInterval \<Rightarrow> FamInterval | PBool \<Rightarrow> FamBoolean | PUuid \<Rightarrow> FamUuid
           | PJson \<Rightarrow> FamJson | PJsonb \<Rightarrow> FamJson)
      | NativeRef provider name category \<Rightarrow>
          (case category of
             CatNumeric \<Rightarrow> FamNumeric | CatText \<Rightarrow> FamText | CatBinary \<Rightarrow> FamBinary
           | CatTemporal \<Rightarrow> FamOther | CatBoolean \<Rightarrow> FamBoolean | CatUuid \<Rightarrow> FamUuid
           | CatJson \<Rightarrow> FamJson
           | _ \<Rightarrow> FamNative provider name))"

definition eq_ignore_ascii_case :: "string \<Rightarrow> string \<Rightarrow> bool" where
  "eq_ignore_ascii_case a b = (map ascii_lower a = map ascii_lower b)"

definition compatible_types :: "type_ref \<Rightarrow> type_ref \<Rightarrow> bool" where
  "compatible_types l r =
     (case (type_family_of l, type_family_of r) of
        (FamNative lprov lname, FamNative rprov rname) \<Rightarrow>
          lprov = rprov \<and> eq_ignore_ascii_case lname rname
      | (a, b) \<Rightarrow> a = b)"

section \<open>Reading decimals\<close>

lemma read_nat_Nil [simp]: "read_nat [] = 0"
  by (simp add: read_nat_def)

lemma read_nat_snoc [simp]: "read_nat (s @ [c]) = 10 * read_nat s + digit_val c"
  by (simp add: read_nat_def)

lemma read_nat_append: "read_nat (s @ t) = read_nat s * 10 ^ length t + read_nat t"
  by (induction t rule: rev_induct) (simp_all flip: append_assoc add: algebra_simps)

lemma read_nat_Cons: "read_nat (c # s) = digit_val c * 10 ^ length s + read_nat s"
  using read_nat_append [of "[c]" s] by (simp add: read_nat_def)

lemma digit_val_less: "is_digit c \<Longrightarrow> digit_val c < 10"
  by (simp add: is_digit_def digit_val_def) linarith

lemma digit_val_inj: "is_digit c \<Longrightarrow> is_digit d \<Longrightarrow> digit_val c = digit_val d \<Longrightarrow> c = d"
proof -
  assume "is_digit c" "is_digit d" "digit_val c = digit_val d"
  then have "(of_char c :: nat) = of_char d"
    unfolding is_digit_def digit_val_def by linarith
  then have "char_of (of_char c :: nat) = (char_of (of_char d :: nat) :: char)" by simp
  then show "c = d" by simp
qed

lemma digit_val_zero [simp]: "digit_val (CHR ''0'') = 0"
  by (simp add: digit_val_def)

lemma digit_val_pos: "is_digit c \<Longrightarrow> c \<noteq> CHR ''0'' \<Longrightarrow> 0 < digit_val c"
  using digit_val_inj [of c "CHR ''0''"] by (cases "digit_val c") (auto simp: is_digit_def)

lemma read_nat_less: "list_all is_digit s \<Longrightarrow> read_nat s < 10 ^ length s"
proof (induction s)
  case Nil
  then show ?case by simp
next
  case (Cons c s)
  then have "digit_val c \<le> 9" and "read_nat s < 10 ^ length s"
    using digit_val_less [of c] by auto
  then have "digit_val c * 10 ^ length s + read_nat s < 9 * 10 ^ length s + 10 ^ length s"
    by (intro add_le_less_mono mult_right_mono) auto
  then show ?case by (simp add: read_nat_Cons)
qed

lemma read_nat_inj_length:
  "list_all is_digit a \<Longrightarrow> list_all is_digit b \<Longrightarrow> length a = length b \<Longrightarrow>
   read_nat a = read_nat b \<Longrightarrow> a = b"
proof (induction a arbitrary: b rule: rev_induct)
  case Nil
  then show ?case by simp
next
  case (snoc x xs)
  then obtain ys y where b: "b = ys @ [y]" by (cases b rule: rev_cases) auto
  from snoc.prems b have eq: "10 * read_nat xs + digit_val x = 10 * read_nat ys + digit_val y"
    and d: "digit_val x < 10" "digit_val y < 10" by (auto simp: digit_val_less)
  from eq d have "read_nat xs = read_nat ys \<and> digit_val x = digit_val y" by presburger
  with snoc b show ?case by (auto dest: digit_val_inj)
qed

lemma read_nat_trim_start [simp]: "read_nat (trim_start_zeros s) = read_nat s"
  by (induction s) (auto simp: trim_start_zeros_def read_nat_Cons)

lemma list_all_trim:
  "list_all P s \<Longrightarrow> list_all P (trim_start_zeros s)"
  "list_all P s \<Longrightarrow> list_all P (trim_end_zeros s)"
  by (auto simp: trim_start_zeros_def trim_end_zeros_def list_all_iff dest: set_dropWhileD)

lemma trim_start_hd: "trim_start_zeros s = [] \<or> hd (trim_start_zeros s) \<noteq> CHR ''0''"
  unfolding trim_start_zeros_def using hd_dropWhile [of "\<lambda>c. c = CHR ''0''" s] by blast

lemma trim_end_last: "trim_end_zeros s = [] \<or> last (trim_end_zeros s) \<noteq> CHR ''0''"
  unfolding trim_end_zeros_def using hd_dropWhile [of "\<lambda>c. c = CHR ''0''" "rev s"]
  by (auto simp: last_rev)

lemma trim_end_zeros_snoc [simp]:
  "trim_end_zeros [] = []"
  "trim_end_zeros (s @ [c]) = (if c = CHR ''0'' then trim_end_zeros s else s @ [c])"
  by (simp_all add: trim_end_zeros_def)

lemma trim_end_zeros_split: "\<exists>n. s = trim_end_zeros s @ replicate n (CHR ''0'')"
proof (induction s rule: rev_induct)
  case Nil
  then show ?case by simp
next
  case (snoc c s)
  then obtain n where n: "s = trim_end_zeros s @ replicate n (CHR ''0'')" ..
  show ?case
  proof (cases "c = CHR ''0''")
    case True
    with n have "s @ [c] = trim_end_zeros (s @ [c]) @ replicate (Suc n) (CHR ''0'')"
      by (simp add: replicate_append_same [symmetric])
    then show ?thesis ..
  qed (auto intro: exI [of _ 0])
qed

lemma read_nat_zeros [simp]: "read_nat (replicate n (CHR ''0'')) = 0"
  by (induction n) (auto simp: read_nat_Cons)

text \<open>The number a decimal's parts denote.\<close>

definition decimal_value :: "bool \<times> string \<times> string \<Rightarrow> rat" where
  "decimal_value p =
     (case p of (negative, integer, fraction) \<Rightarrow>
        (if negative then - 1 else 1) *
          (of_nat (read_nat (integer @ fraction)) / 10 ^ length fraction))"

lemma decimal_value_trim:
  "decimal_value (n, trim_start_zeros i, trim_end_zeros f) = decimal_value (n, i, f)"
proof -
  obtain k where f: "f = trim_end_zeros f @ replicate k (CHR ''0'')"
    using trim_end_zeros_split by blast
  have "read_nat (i @ f) = read_nat (i @ trim_end_zeros f) * 10 ^ k"
    by (subst f) (simp add: read_nat_append power_add algebra_simps)
  moreover have "length f = length (trim_end_zeros f) + k"
    by (metis f length_append length_replicate)
  ultimately show ?thesis
    by (simp add: decimal_value_def read_nat_append [of "trim_start_zeros i"]
        read_nat_append [of i "trim_end_zeros f"] power_add)
qed

lemma read_nat_inj_trimmed:
  assumes "list_all is_digit a" and "list_all is_digit b"
    and "a = [] \<or> hd a \<noteq> CHR ''0''" and "b = [] \<or> hd b \<noteq> CHR ''0''"
    and "read_nat a = read_nat b"
  shows "a = b"
proof -
  have low: "10 ^ (length s - 1) \<le> read_nat s"
    if "list_all is_digit s" "s \<noteq> []" "hd s \<noteq> CHR ''0''" for s
    using that digit_val_pos [of "hd s"]
    by (cases s) (auto simp: read_nat_Cons intro: trans_le_add1)
  have "length s \<le> length t"
    if "list_all is_digit s" "list_all is_digit t" "s = [] \<or> hd s \<noteq> CHR ''0''"
      "read_nat s = read_nat t" for s t
  proof (rule ccontr)
    assume "\<not> length s \<le> length t"
    then have "s \<noteq> []" and "length t \<le> length s - 1" by auto
    then have "(10::nat) ^ length t \<le> 10 ^ (length s - 1)" by (intro power_increasing) auto
    also have "\<dots> \<le> read_nat s" using low that \<open>s \<noteq> []\<close> by blast
    finally show False using read_nat_less [OF that(2)] that(4) by simp
  qed
  then have "length a = length b" using assms by (metis order_antisym)
  then show ?thesis using assms read_nat_inj_length by blast
qed

lemma read_split_unique:
  fixes a b c d m :: nat
  assumes "a * m + b = c * m + d" and "b < m" and "d < m"
  shows "a = c \<and> b = d"
proof -
  have "(a * m + b) div m = a" "(c * m + d) div m = c" using assms(2,3) by simp_all
  with assms(1) show ?thesis by simp
qed

lemma magnitude_unique:
  assumes dig: "list_all is_digit i" "list_all is_digit f" "list_all is_digit j" "list_all is_digit g"
    and lead: "i = [] \<or> hd i \<noteq> CHR ''0''" "j = [] \<or> hd j \<noteq> CHR ''0''"
    and trail: "f = [] \<or> last f \<noteq> CHR ''0''" "g = [] \<or> last g \<noteq> CHR ''0''"
    and eq: "(of_nat (read_nat (i @ f)) :: rat) / 10 ^ length f
      = of_nat (read_nat (j @ g)) / 10 ^ length g"
  shows "i = j \<and> f = g"
proof -
  have cross: "read_nat (i @ f) * 10 ^ length g = read_nat (j @ g) * 10 ^ length f"
  proof -
    from eq have "(of_nat (read_nat (i @ f) * 10 ^ length g) :: rat)
        = of_nat (read_nat (j @ g) * 10 ^ length f)"
      by (simp add: field_simps)
    then show ?thesis by (simp only: of_nat_eq_iff)
  qed
  have no_gap: "\<not> length a < length b"
    if "b = [] \<or> last b \<noteq> CHR ''0''" "list_all is_digit b"
      "N * 10 ^ length b = read_nat (x @ b) * 10 ^ length a" for a b x :: string and N :: nat
  proof
    assume lt: "length a < length b"
    then obtain ys y where b: "b = ys @ [y]" by (cases b rule: rev_cases) auto
    from lt obtain d where "length b = length a + Suc d" by (metis less_iff_Suc_add add_Suc_right)
    with that(3) have "N * 10 ^ Suc d = read_nat (x @ b)" by (simp add: power_add)
    then have "10 * (N * 10 ^ d) = 10 * read_nat (x @ ys) + digit_val y"
      using b by (simp flip: append_assoc)
    then have "digit_val y mod 10 = 0" by presburger
    moreover have "0 < digit_val y" "digit_val y < 10"
      using that(1,2) b by (auto simp: digit_val_less intro: digit_val_pos)
    ultimately show False by simp
  qed
  have len: "length f = length g"
    using no_gap [OF trail(2) dig(4) cross] no_gap [OF trail(1) dig(2) cross [symmetric]] by simp
  with cross have "read_nat i * 10 ^ length f + read_nat f = read_nat j * 10 ^ length f + read_nat g"
    by (simp add: read_nat_append)
  moreover have "read_nat f < 10 ^ length f" "read_nat g < 10 ^ length f"
    using read_nat_less dig len by metis+
  ultimately have "read_nat i = read_nat j \<and> read_nat f = read_nat g"
    using read_split_unique by blast
  then have "read_nat i = read_nat j" and "read_nat f = read_nat g" by blast+
  then show ?thesis
    using read_nat_inj_trimmed [OF dig(1,3) lead] read_nat_inj_length [OF dig(2,4) len] by blast
qed

section \<open>The canonical decimal\<close>

definition valid_parts :: "bool \<times> string \<times> string \<Rightarrow> bool" where
  "valid_parts p = (list_all is_digit (fst (snd p)) \<and> list_all is_digit (snd (snd p)))"

definition canonical_parts :: "bool \<times> string \<times> string \<Rightarrow> bool \<times> string \<times> string" where
  "canonical_parts p =
     (case p of (n, i, f) \<Rightarrow>
        (n \<and> (trim_start_zeros i \<noteq> [] \<or> trim_end_zeros f \<noteq> []), trim_start_zeros i,
         trim_end_zeros f))"

lemma decimal_parts_valid: "decimal_parts s = Some p \<Longrightarrow> valid_parts p"
  by (auto simp: decimal_parts_def valid_parts_def Let_def split: if_splits prod.splits)

lemma trim_start_not_zero: "trim_start_zeros i \<noteq> ''0''"
  using trim_start_hd [of i] by auto

lemma render_canonical:
  "render_decimal p =
     (case canonical_parts p of (n, i, f) \<Rightarrow>
        (if n then ''-'' else []) @ (if i = [] then ''0'' else i)
          @ (if f = [] then [] else CHR ''.'' # f))"
  using trim_start_not_zero
  by (auto simp: render_decimal_def canonical_parts_def Let_def split: prod.splits)

lemma split_once_dot_digits:
  "list_all is_digit i \<Longrightarrow> split_once_dot i = None"
  "list_all is_digit i \<Longrightarrow> split_once_dot (i @ CHR ''.'' # f) = Some (i, f)"
  by (induction i) (auto simp: is_digit_def)

lemma strip_char_digits:
  "list_all is_digit i \<Longrightarrow> i \<noteq> [] \<Longrightarrow> \<not> is_digit c \<Longrightarrow> strip_char c (i @ t) = None"
  by (cases i) (auto simp: strip_char_def)

lemma sign_not_digit [simp]: "\<not> is_digit (CHR ''-'')" "\<not> is_digit (CHR ''+'')"
  by (simp_all add: is_digit_def)

lemma split_once_dot_number:
  assumes "list_all is_digit i"
  shows "(case split_once_dot (i @ (if f = [] then [] else CHR ''.'' # f)) of
            Some p \<Rightarrow> p | None \<Rightarrow> (i @ (if f = [] then [] else CHR ''.'' # f), [])) = (i, f)"
  using assms by (simp add: split_once_dot_digits)

lemma parts_of_digits:
  assumes "list_all is_digit i" and "i \<noteq> []" and "list_all is_digit f"
  shows "decimal_parts ((if n then ''-'' else []) @ i @ (if f = [] then [] else CHR ''.'' # f))
      = Some (n, i, f)"
proof -
  define t where "t = i @ (if f = [] then [] else CHR ''.'' # f)"
  have "strip_char (CHR ''-'') t = None" "strip_char (CHR ''+'') t = None"
    unfolding t_def using assms(1,2) by (simp_all add: strip_char_digits del: append.simps)
  moreover have "strip_char (CHR ''-'') (CHR ''-'' # t) = Some t" by (simp add: strip_char_def)
  ultimately have "decimal_parts ((if n then ''-'' else []) @ t) = Some (n, i, f)"
    using split_once_dot_number [OF assms(1), of f] assms
    unfolding decimal_parts_def t_def [symmetric] by (cases n) simp_all
  then show ?thesis by (simp add: t_def)
qed

lemma canonical_valid: "valid_parts p \<Longrightarrow> valid_parts (canonical_parts p)"
  by (auto simp: valid_parts_def canonical_parts_def list_all_trim split: prod.splits)

lemma parts_of_render:
  assumes "valid_parts p"
  shows "decimal_parts (render_decimal p) =
     (case canonical_parts p of (n, i, f) \<Rightarrow> Some (n, if i = [] then ''0'' else i, f))"
proof -
  obtain n i f where c: "canonical_parts p = (n, i, f)" by (metis prod_cases3)
  with canonical_valid [OF assms] have "list_all is_digit i" "list_all is_digit f"
    by (auto simp: valid_parts_def)
  then show ?thesis
    using parts_of_digits [of "if i = [] then ''0'' else i" f n]
    by (simp add: render_canonical c is_digit_def split: if_splits)
qed

lemma trim_idem [simp]:
  "trim_start_zeros (trim_start_zeros s) = trim_start_zeros s"
  "trim_end_zeros (trim_end_zeros s) = trim_end_zeros s"
  by (simp_all add: trim_start_zeros_def trim_end_zeros_def)

lemma trim_start_zero [simp]: "trim_start_zeros [] = []" "trim_start_zeros ''0'' = []"
  by (simp_all add: trim_start_zeros_def)

lemma canonical_of_shown:
  assumes "canonical_parts p = (n, i, f)"
  shows "canonical_parts (n, if i = [] then ''0'' else i, f) = (n, i, f)"
proof -
  obtain m a b where p: "p = (m, a, b)" by (metis prod_cases3)
  from assms have n: "n = (m \<and> (i \<noteq> [] \<or> f \<noteq> []))"
    and i: "trim_start_zeros i = i" and f: "trim_end_zeros f = f"
    by (auto simp: p canonical_parts_def)
  show ?thesis
    by (cases "i = []") (auto simp: canonical_parts_def i f n)
qed

lemma render_inj:
  assumes "valid_parts p" and "valid_parts q" and "render_decimal p = render_decimal q"
  shows "canonical_parts p = canonical_parts q"
  using parts_of_render [OF assms(1)] parts_of_render [OF assms(2)] assms(3)
    canonical_of_shown
  by (metis (no_types, lifting) case_prod_conv option.inject prod_cases3)

lemma decimal_value_canonical: "decimal_value (canonical_parts p) = decimal_value p"
proof -
  obtain n i f where p: "p = (n, i, f)" by (metis prod_cases3)
  show ?thesis
  proof (cases "trim_start_zeros i = [] \<and> trim_end_zeros f = []")
    case True
    then show ?thesis
      using decimal_value_trim [of n i f] by (simp add: p canonical_parts_def decimal_value_def)
  qed (use decimal_value_trim [of n i f] in \<open>auto simp: p canonical_parts_def\<close>)
qed

definition magnitude :: "string \<Rightarrow> string \<Rightarrow> rat" where
  "magnitude i f = of_nat (read_nat (i @ f)) / 10 ^ length f"

lemma decimal_value_magnitude:
  "decimal_value (n, i, f) = (if n then - magnitude i f else magnitude i f)"
  by (simp add: decimal_value_def magnitude_def)

lemma magnitude_nonneg [simp]: "0 \<le> magnitude i f"
  by (simp add: magnitude_def)

definition canonical_shape :: "bool \<times> string \<times> string \<Rightarrow> bool" where
  "canonical_shape p =
     (case p of (n, i, f) \<Rightarrow>
        valid_parts p \<and> (i = [] \<or> hd i \<noteq> CHR ''0'') \<and> (f = [] \<or> last f \<noteq> CHR ''0'')
        \<and> (n \<longrightarrow> i \<noteq> [] \<or> f \<noteq> []))"

lemma canonical_shape_canonical: "valid_parts p \<Longrightarrow> canonical_shape (canonical_parts p)"
proof -
  assume "valid_parts p"
  then have "valid_parts (canonical_parts p)" by (rule canonical_valid)
  then show ?thesis
    using trim_start_hd [of "fst (snd p)"] trim_end_last [of "snd (snd p)"]
    by (cases p) (auto simp: canonical_shape_def canonical_parts_def)
qed

lemma shape_magnitude_inj:
  assumes "canonical_shape (n, i, f)" and "canonical_shape (m, j, g)"
    and "magnitude i f = magnitude j g"
  shows "i = j \<and> f = g"
proof (rule magnitude_unique)
  show "list_all is_digit i" "list_all is_digit f" "i = [] \<or> hd i \<noteq> CHR ''0''"
    "f = [] \<or> last f \<noteq> CHR ''0''"
    using assms(1) unfolding canonical_shape_def valid_parts_def prod.case fst_conv snd_conv by blast+
  show "list_all is_digit j" "list_all is_digit g" "j = [] \<or> hd j \<noteq> CHR ''0''"
    "g = [] \<or> last g \<noteq> CHR ''0''"
    using assms(2) unfolding canonical_shape_def valid_parts_def prod.case fst_conv snd_conv by blast+
  show "(of_nat (read_nat (i @ f)) :: rat) / 10 ^ length f = of_nat (read_nat (j @ g)) / 10 ^ length g"
    using assms(3) by (simp only: magnitude_def)
qed

lemma shape_magnitude_zero:
  assumes "canonical_shape (n, i, f)" and "magnitude i f = 0"
  shows "i = [] \<and> f = [] \<and> \<not> n"
proof -
  have zero: "canonical_shape (False, [], [])"
    by (simp add: canonical_shape_def valid_parts_def)
  have "magnitude i f = magnitude [] []" using assms(2) by (simp add: magnitude_def)
  then have "i = [] \<and> f = []" using shape_magnitude_inj [OF assms(1) zero] by simp
  with assms(1) show ?thesis by (simp add: canonical_shape_def)
qed

lemma shape_value_inj:
  assumes p: "canonical_shape (n, i, f)" and q: "canonical_shape (m, j, g)"
    and eq: "decimal_value (n, i, f) = decimal_value (m, j, g)"
  shows "n = m \<and> i = j \<and> f = g"
proof (cases "n = m")
  case True
  with eq have "magnitude i f = magnitude j g" by (auto simp: decimal_value_magnitude split: if_splits)
  with p q True shape_magnitude_inj show ?thesis by blast
next
  case False
  with eq have "magnitude i f = - magnitude j g"
    by (auto simp: decimal_value_magnitude split: if_splits)
  then have "magnitude i f = 0" "magnitude j g = 0"
    using magnitude_nonneg [of i f] magnitude_nonneg [of j g] by linarith+
  then show ?thesis using shape_magnitude_zero p q by blast
qed

lemma render_eq_iff:
  assumes "valid_parts p" and "valid_parts q"
  shows "render_decimal p = render_decimal q \<longleftrightarrow> decimal_value p = decimal_value q"
proof
  assume "render_decimal p = render_decimal q"
  then show "decimal_value p = decimal_value q"
    using render_inj [OF assms] by (metis decimal_value_canonical)
next
  assume "decimal_value p = decimal_value q"
  then have "decimal_value (canonical_parts p) = decimal_value (canonical_parts q)"
    by (simp add: decimal_value_canonical)
  moreover obtain n i f where c: "canonical_parts p = (n, i, f)" by (metis prod_cases3)
  moreover obtain m j g where d: "canonical_parts q = (m, j, g)" by (metis prod_cases3)
  ultimately have "canonical_parts p = canonical_parts q"
    using shape_value_inj [of n i f m j g] canonical_shape_canonical [OF assms(1)]
      canonical_shape_canonical [OF assms(2)] by simp
  then show "render_decimal p = render_decimal q" by (simp add: render_canonical)
qed

section \<open>Integers among decimals\<close>

lemma show_nat_hd: "0 < n \<Longrightarrow> hd (show_nat n) \<noteq> CHR ''0''"
proof (induction n rule: show_nat.induct)
  case (1 n)
  show ?case
  proof (cases "n < 10")
    case True
    have "(char_of (48 + n) :: char) \<noteq> CHR ''0''"
    proof
      assume "(char_of (48 + n) :: char) = CHR ''0''"
      then have "(of_char (char_of (48 + n) :: char) :: nat) = of_char (CHR ''0'')" by simp
      with True 1(2) show False by (simp add: of_char_digit)
    qed
    with True show ?thesis by (subst show_nat.simps) simp
  next
    case False
    with 1(1) show ?thesis by (subst show_nat.simps) simp
  qed
qed

lemma trim_show_nat: "0 < n \<Longrightarrow> trim_start_zeros (show_nat n) = show_nat n"
  using show_nat_hd [of n] by (cases "show_nat n") (auto simp: trim_start_zeros_def)

lemma show_nat_0: "show_nat 0 = ''0''"
  by (subst show_nat.simps) (simp add: char_of_def bit_Suc_0_iff)

definition int_parts :: "int \<Rightarrow> bool \<times> string \<times> string" where
  "int_parts a = (a < 0, show_nat (nat \<bar>a\<bar>), [])"

lemma int_parts_valid: "valid_parts (int_parts a)"
  using show_nat_digits by (simp add: int_parts_def valid_parts_def list_all_iff)

lemma int_parts_value: "decimal_value (int_parts a) = of_int a"
  by (auto simp: int_parts_def decimal_value_def read_show_nat)

lemma render_int_parts: "render_decimal (int_parts a) = show_int a"
proof (cases "a = 0")
  case True
  then show ?thesis
    by (simp add: render_canonical canonical_parts_def int_parts_def show_int_def show_nat_0)
next
  case False
  then have "trim_start_zeros (show_nat (nat \<bar>a\<bar>)) = show_nat (nat \<bar>a\<bar>)"
    by (simp add: trim_show_nat)
  then show ?thesis
    by (simp add: render_canonical canonical_parts_def int_parts_def show_int_def)
qed

text \<open>The exact number a value stands for: integers, and decimals that parse.\<close>

definition number_parts :: "compare_env \<Rightarrow> sql_value \<Rightarrow> (bool \<times> string \<times> string) option" where
  "number_parts env v =
     (case v of
        VDecimal s \<Rightarrow> decimal_parts (ce_trim env s)
      | _ \<Rightarrow> map_option int_parts (integer_value v))"

definition exact_number :: "compare_env \<Rightarrow> sql_value \<Rightarrow> rat option" where
  "exact_number env v = map_option decimal_value (number_parts env v)"

lemma number_parts_valid: "number_parts env v = Some p \<Longrightarrow> valid_parts p"
  by (auto simp: number_parts_def integer_value_def int_parts_valid dest: decimal_parts_valid
      split: sql_value.splits)

lemma number_parts_cases:
  assumes "number_parts env v = Some p"
  obtains s where "v = VDecimal s" "normalize_decimal env s = Some (render_decimal p)"
    "integer_value v = None"
  | a where "integer_value v = Some a" "p = int_parts a" "\<And>s. v \<noteq> VDecimal s"
proof (cases "\<exists>s. v = VDecimal s")
  case True
  then obtain s where "v = VDecimal s" ..
  with assms that(1) [of s] show thesis
    by (simp add: number_parts_def integer_value_def normalize_decimal_def)
next
  case False
  then have "number_parts env v = map_option int_parts (integer_value v)"
    by (auto simp: number_parts_def split: sql_value.splits)
  with assms that(2) False show thesis by auto
qed

lemma exact_equal_parts:
  assumes "number_parts env l = Some p" and "number_parts env r = Some q"
  shows "exact_value_equal env l r \<longleftrightarrow> render_decimal p = render_decimal q"
proof (cases rule: number_parts_cases [OF assms(1)]; cases rule: number_parts_cases [OF assms(2)])
  fix a b
  assume "integer_value l = Some a" "p = int_parts a" "integer_value r = Some b" "q = int_parts b"
  then show ?thesis
    using render_eq_iff [OF int_parts_valid int_parts_valid, of a b]
    by (simp add: exact_value_equal_def int_parts_value)
qed (auto simp: exact_value_equal_def render_int_parts split: sql_value.splits)

lemma key_parts:
  assumes "number_parts env v = Some p"
  shows "canonical_key_value env v = ''number:'' @ render_decimal p"
  using assms
  by (cases v)
    (auto simp: canonical_key_value_def number_parts_def integer_value_def normalize_decimal_def
      render_int_parts)

section \<open>Properties\<close>

text \<open>
  On exact numbers (every integer, every decimal that parses) cell equality, the equality
  of the match keys and numerical equality are the same relation: \<open>1.50\<close> and \<open>+01.5\<close> match
  and compare equal, \<open>-0\<close> and \<open>0\<close> do, and no two different numbers do.
\<close>

theorem exact_numbers_agree:
  assumes "exact_number env l = Some a" and "exact_number env r = Some b"
  shows "(exact_value_equal env l r \<longleftrightarrow> a = b)
    \<and> (canonical_key_value env l = canonical_key_value env r \<longleftrightarrow> a = b)"
proof -
  obtain p where p: "number_parts env l = Some p" "a = decimal_value p"
    using assms(1) by (auto simp: exact_number_def)
  obtain q where q: "number_parts env r = Some q" "b = decimal_value q"
    using assms(2) by (auto simp: exact_number_def)
  have "render_decimal p = render_decimal q \<longleftrightarrow> a = b"
    using render_eq_iff p q number_parts_valid by blast
  then show ?thesis
    by (simp add: exact_equal_parts [OF p(1) q(1)] key_parts [OF p(1)] key_parts [OF q(1)])
qed

text \<open>Used to evaluate the definitions on concrete values.\<close>

definition demo_env :: compare_env where
  "demo_env =
     \<lparr> ce_digest = id, ce_hex = (\<lambda>d. concat (map (hex_padded 2 \<circ> unat) d)),
       ce_json_value = (\<lambda>v. Inr (value_type_category v)),
       ce_json_strings = (\<lambda>s. Inr (join_with '','' s)),
       ce_json_values = (\<lambda>v. Inr (map (of_nat \<circ> of_char) (join_with '','' (map value_type_category v)))),
       ce_trim = id, ce_to_lowercase = map ascii_lower, ce_nfc = id, ce_nfkc = id,
       ce_f64_of_f32 = ucast, ce_f64_of_int = of_int, ce_f64_parse = (\<lambda>s. None),
       ce_f64_sub = (\<lambda>x y. if x < y then y - x else x - y), ce_f64_mul = (\<lambda>x y. x),
       ce_f64_show = (\<lambda>x. show_nat (unat x)),
       ce_micros_between = (\<lambda>x y. Some (x - y)) \<rparr>"

theorem exact_numbers_agree_witness:
  "(exact_value_equal demo_env (VDecimal ''+01.50'') (VInt16 3) \<longleftrightarrow> (3 / 2 :: rat) = 3)
    \<and> (canonical_key_value demo_env (VDecimal ''+01.50'') = canonical_key_value demo_env (VInt16 3)
         \<longleftrightarrow> (3 / 2 :: rat) = 3)"
  by (rule exact_numbers_agree)
    (simp_all add: exact_number_def number_parts_def demo_env_def decimal_parts_def strip_char_def
      is_digit_def decimal_value_def read_nat_Cons digit_val_def integer_value_def int_parts_def
      read_show_nat)

lemma value_eq_sym: "value_eq v w = value_eq w v"
  by (cases v; cases w) (auto simp: value_eq_def f64_eq_sym f32_eq_sym)

definition as_decimal :: "sql_value \<Rightarrow> string option" where
  "as_decimal v = (case v of VDecimal s \<Rightarrow> Some s | _ \<Rightarrow> None)"

lemma as_decimal_Some: "as_decimal v = Some s \<longleftrightarrow> v = VDecimal s"
  by (cases v) (auto simp: as_decimal_def)

lemma exact_no_decimal:
  "as_decimal l = None \<Longrightarrow> as_decimal r = None \<Longrightarrow>
   exact_value_equal env l r =
     (case (integer_value l, integer_value r) of
        (Some a, Some b) \<Rightarrow> a = b | _ \<Rightarrow> value_eq l r)"
  by (cases l; cases r; simp add: exact_value_equal_def as_decimal_def integer_value_def)

lemma exact_one_decimal:
  "as_decimal r = None \<Longrightarrow>
   exact_value_equal env (VDecimal x) r =
     (case integer_value r of
        Some b \<Rightarrow> normalize_decimal env x = Some (show_int b) | None \<Rightarrow> value_eq (VDecimal x) r)"
  "as_decimal r = None \<Longrightarrow>
   exact_value_equal env r (VDecimal x) =
     (case integer_value r of
        Some b \<Rightarrow> normalize_decimal env x = Some (show_int b) | None \<Rightarrow> value_eq r (VDecimal x))"
  by (cases r; simp add: exact_value_equal_def as_decimal_def integer_value_def)+

lemma exact_value_equal_sym: "exact_value_equal env l r = exact_value_equal env r l"
proof (cases "as_decimal l"; cases "as_decimal r")
  assume "as_decimal l = None" "as_decimal r = None"
  then show ?thesis by (auto simp: exact_no_decimal value_eq_sym split: option.splits)
next
  fix x assume "as_decimal l = None" "as_decimal r = Some x"
  then show ?thesis
    by (simp add: as_decimal_Some exact_one_decimal value_eq_sym split: option.splits)
next
  fix x assume "as_decimal l = Some x" "as_decimal r = None"
  then show ?thesis
    by (simp add: as_decimal_Some exact_one_decimal value_eq_sym split: option.splits)
next
  fix x y assume "as_decimal l = Some x" "as_decimal r = Some y"
  then show ?thesis
    by (auto simp: as_decimal_Some exact_value_equal_def integer_value_def split: option.splits)
qed

lemma f64_abs_idem [simp]:
  "f64_abs (f64_abs x) = f64_abs x" "f64_is_nan (f64_abs x) = f64_is_nan x"
  "\<not> f64_is_neg (f64_abs x)"
  by (simp_all add: f64_abs_def f64_is_nan_def f64_is_neg_def bit_take_bit_iff)

lemma f64_max_abs_sym:
  assumes "\<not> f64_is_nan x" and "\<not> f64_is_nan y"
  shows "f64_max (f64_abs x) (f64_abs y) = f64_max (f64_abs y) (f64_abs x)"
  using assms by (auto simp: f64_max_def f64_lt_def)

text \<open>
  The verdict on a cell does not depend on which side is called left, when the
  environment's subtraction and clock difference are symmetric up to sign.
\<close>

theorem compare_value_symmetric:
  assumes "\<And>x y. f64_abs (ce_f64_sub env x y) = f64_abs (ce_f64_sub env y x)"
    and "\<And>x y. map_option abs (ce_micros_between env x y)
           = map_option abs (ce_micros_between env y x)"
  shows "compare_value env left right t = compare_value env right left t"
proof -
  have max: "f64_max (f64_abs x) (f64_abs y) = f64_max (f64_abs y) (f64_abs x)"
    if "\<not> f64_is_nan x" "\<not> f64_is_nan y" for x y
    using that f64_max_abs_sym by blast
  have num: "within_numeric env u x y = within_numeric env u y x" for u x y
  proof (cases "f64_is_nan x \<or> f64_is_nan y")
    case False
    then have "f64_max (f64_abs x) (f64_abs y) = f64_max (f64_abs y) (f64_abs x)" by (simp add: max)
    with assms(1) [of x y] show ?thesis by (simp only: within_numeric_def Let_def disj_commute)
  qed (auto simp: within_numeric_def)
  have mic: "within_micros env u x y = within_micros env u y x" for u x y
    using assms(2) [of x y]
    by (auto simp: within_micros_def split: option.splits)
  have fam: "same_value_family left right = same_value_family right left"
    by (auto simp: same_value_family_def)
  have str: "compare_structured env u left right = compare_structured env u right left" for u
    by (cases left; cases right) (auto simp: compare_structured_def mic same_value_family_def)
  show ?thesis
    using exact_value_equal_sym [of env left right] fam
    by (auto simp: compare_value_def num str split: option.splits)
qed

theorem compare_value_symmetric_witness:
  "compare_value demo_env (VText ''a'') (VInt16 3) None
     = compare_value demo_env (VInt16 3) (VText ''a'') None"
  by (rule compare_value_symmetric) (auto simp: demo_env_def dest: less_not_sym)

lemma not_equal_verdict:
  assumes "\<not> value_is_null left" and "\<not> value_is_null right"
    and "\<not> exact_value_equal env left right"
  shows "\<forall>u. compare_value env left right u \<noteq> CellEqual"
proof
  fix u
  have num: "within_numeric env w x y \<noteq> CellEqual" for w x y
    by (simp add: within_numeric_def Let_def)
  have mic: "within_micros env w x y \<noteq> CellEqual" for w x y
    by (simp add: within_micros_def split: option.splits)
  have str: "compare_structured env w left right \<noteq> CellEqual" for w
    by (cases left; cases right) (simp_all add: compare_structured_def mic)
  show "compare_value env left right u \<noteq> CellEqual"
    using assms by (auto simp: compare_value_def num str split: option.splits)
qed

lemma within_micros_tolerant: "within_micros env m x y = CellTolerantEqual \<Longrightarrow> m \<noteq> None"
  by (cases m) (simp_all add: within_micros_def)

lemma compare_structured_tolerant:
  "compare_structured env u left right = CellTolerantEqual \<Longrightarrow>
     (\<exists>x y. (left, right) = (VTimestamp x, VTimestamp y)
          \<or> (left, right) = (VTimestampTz x, VTimestampTz y)) \<and> ct_timestamp_microseconds u \<noteq> None
     \<or> (\<exists>x y. (left, right) = (VText x, VText y)
          \<and> normalize_text env u x = normalize_text env u y)
     \<or> (\<exists>x y. (left, right) = (VBlob x, VBlob y) \<and> ct_binary_digest u
          \<and> ce_digest env x = ce_digest env y)"
  by (cases left; cases right)
    (simp_all add: compare_structured_def within_micros_tolerant split: if_splits)

text \<open>
  A tolerance is opt-in. Two cells are reported tolerantly equal only when the column
  has a tolerance whose matching option is set, both cells are non-null and not exactly
  equal; and exact equality itself never depends on the tolerance.
\<close>

theorem tolerance_is_opt_in:
  assumes "compare_value env left right t = CellTolerantEqual"
  shows "\<not> value_is_null left \<and> \<not> value_is_null right \<and> \<not> exact_value_equal env left right
    \<and> (\<forall>u. compare_value env left right u \<noteq> CellEqual)
    \<and> (\<exists>u. t = Some u \<and>
         (is_numeric left \<and> is_numeric right
            \<and> (ct_numeric_absolute u \<noteq> None \<or> ct_numeric_relative u \<noteq> None)
          \<or> (\<exists>x y. (left, right) = (VTimestamp x, VTimestamp y)
                   \<or> (left, right) = (VTimestampTz x, VTimestampTz y))
              \<and> ct_timestamp_microseconds u \<noteq> None
          \<or> (\<exists>x y. (left, right) = (VText x, VText y)
                   \<and> normalize_text env u x = normalize_text env u y)
          \<or> (\<exists>x y. (left, right) = (VBlob x, VBlob y) \<and> ct_binary_digest u
                   \<and> ce_digest env x = ce_digest env y)))"
proof -
  have n: "\<not> value_is_null left" "\<not> value_is_null right" "\<not> exact_value_equal env left right"
    using assms by (auto simp: compare_value_def split: if_splits)
  have nat: "\<not> is_native left \<and> \<not> is_native right"
    using assms n by (auto simp: compare_value_def split: if_splits)
  obtain u where u: "t = Some u"
    using assms n nat by (auto simp: compare_value_def split: option.splits if_splits)
  note never = not_equal_verdict [OF n]
  show ?thesis
  proof (cases "is_numeric left \<and> is_numeric right")
    case True
    then have "ct_numeric_absolute u \<noteq> None \<or> ct_numeric_relative u \<noteq> None"
      using assms n nat u
      by (auto simp: compare_value_def within_numeric_def Let_def split: option.splits if_splits)
    with n u True never show ?thesis by blast
  next
    case False
    with assms n nat u have "compare_structured env u left right = CellTolerantEqual"
      by (simp add: compare_value_def)
    from compare_structured_tolerant [OF this] n u never show ?thesis by blast
  qed
qed

theorem tolerance_is_opt_in_witness:
  "ct_binary_digest
     \<lparr> ct_column = ''b'', ct_numeric_absolute = None, ct_numeric_relative = None,
       ct_timestamp_microseconds = None, ct_unicode_normalization = None, ct_case_fold = True,
       ct_trim_outer_whitespace = False, ct_binary_digest = True \<rparr>
   \<and> \<not> exact_value_equal demo_env (VText ''A'') (VText ''a'')"
  using tolerance_is_opt_in [of demo_env "VText ''A''" "VText ''a''"
      "Some \<lparr> ct_column = ''b'', ct_numeric_absolute = None, ct_numeric_relative = None,
       ct_timestamp_microseconds = None, ct_unicode_normalization = None, ct_case_fold = True,
       ct_trim_outer_whitespace = False, ct_binary_digest = True \<rparr>"]
  by (simp add: compare_value_def demo_env_def value_is_null_def exact_value_equal_def
      integer_value_def value_eq_def is_native_def is_numeric_def normalize_text_def ascii_lower_def
      char_of_def)

end
