(* ===== verification/Row_Comparison.thy ===== *)
theory Row_Comparison
  imports "HOL-Library.Multiset" Comparison_Values
begin

text \<open>
  The row-level half of \<^verbatim>\<open>crates/core/src/comparison.rs\<close>: \<^verbatim>\<open>compare\<close> and the stages it runs
  (row validation, column mapping, key and tolerance resolution, grouping by key, pairing by
  digest, the retained report), with the wire types of \<^verbatim>\<open>crates/protocol/src/comparison.rs\<close>.

  The counters are natural numbers: each is bounded by the number of rows in memory. The
  cancellation flag is a function of the number of times it was read, so a run may be
  canceled at any of its checks.
\<close>

section \<open>Wire types\<close>

datatype compare_column_status = Mapped | MissingLeft | MissingRight | Incompatible

record compare_column_pair =
  cp_left :: string
  cp_right :: string

record compare_column =
  cc_left :: "column_metadata option"
  cc_right :: "column_metadata option"
  cc_status :: compare_column_status

record resolved_compare_key =
  rk_columns :: "compare_column_pair list"
  rk_inferred_constraint :: "string option"
  rk_row_ordinal :: bool

datatype row_diff_kind = DiffAdded | DiffRemoved | DiffChanged | DiffIncomparable

record cell_diff =
  cd_column :: compare_column_pair
  cd_status :: cell_status
  cd_left :: "sql_value option"
  cd_right :: "sql_value option"

record row_diff =
  rd_key :: "sql_value list"
  rd_occurrence :: u32
  rd_kind :: row_diff_kind
  rd_duplicate_key :: bool
  rd_cells :: "cell_diff list"

section \<open>State\<close>

record comparison_dataset =
  cs_columns :: "column_metadata list"
  cs_rows :: "row list"
  cs_immutable_order :: bool

record comparison_input =
  ci_left :: comparison_dataset
  ci_right :: comparison_dataset
  ci_mappings :: "compare_column_pair list"
  ci_key :: resolved_compare_key
  ci_tolerances :: "column_tolerance list"
  ci_max_diff_rows :: nat
  ci_max_duplicate_group :: nat
  ci_cancel :: "(nat \<Rightarrow> bool) option"

record comparison_output =
  co_columns :: "compare_column list"
  co_rows :: "row_diff list"
  co_equal_rows :: nat
  co_changed_rows :: nat
  co_added_rows :: nat
  co_removed_rows :: nat
  co_incomparable_rows :: nat
  co_duplicate_key_groups :: nat
  co_truncated :: bool
  co_digest :: string

datatype comparison_side = SideLeft | SideRight

datatype comparison_error =
    MissingColumn comparison_side string
  | DuplicateMapping comparison_side string
  | EmptyKey
  | UnsafeOrdinalKey
  | InvalidKeyColumn string
  | InvalidToleranceColumn string
  | InvalidTolerance string
  | MalformedRow comparison_side nat nat nat
  | DuplicateGroupTooLarge nat
  | Serialization string
  | Canceled

type_synonym 'a compare_result = "(comparison_error, 'a) result"

type_synonym mapped_index = "nat \<times> nat"

record group_entry =
  ge_row :: row
  ge_key :: "sql_value list"
  ge_digest :: string

section \<open>Checks\<close>

definition check_canceled :: "comparison_input \<Rightarrow> nat \<Rightarrow> unit compare_result" where
  "check_canceled input k =
     (case ci_cancel input of
        Some cancel \<Rightarrow> (if cancel k then Inl Canceled else Inr ())
      | None \<Rightarrow> Inr ())"

fun validate_rows_from ::
  "comparison_side \<Rightarrow> nat \<Rightarrow> nat \<Rightarrow> row list \<Rightarrow> unit compare_result" where
  "validate_rows_from side expected index [] = Inr ()"
| "validate_rows_from side expected index (row # rows) =
     (if length row \<noteq> expected then Inl (MalformedRow side index (length row) expected)
      else validate_rows_from side expected (Suc index) rows)"

definition validate_rows :: "comparison_side \<Rightarrow> comparison_dataset \<Rightarrow> unit compare_result" where
  "validate_rows side ds = validate_rows_from side (length (cs_columns ds)) 0 (cs_rows ds)"

section \<open>Columns\<close>

text \<open>Collecting \<^verbatim>\<open>(name, index)\<close> into a \<^verbatim>\<open>HashMap\<close>: the last column of a name wins.\<close>

definition index_by_name :: "column_metadata list \<Rightarrow> string \<Rightarrow> nat option" where
  "index_by_name cols = map_of (rev (zip (map col_name cols) [0..<length cols]))"

text \<open>The loop over the explicit mappings; the pairs are accumulated in order.\<close>

fun map_explicit ::
  "(string \<Rightarrow> nat option) \<Rightarrow> (string \<Rightarrow> nat option) \<Rightarrow> compare_column_pair list \<Rightarrow>
   mapped_index list \<Rightarrow> mapped_index list compare_result" where
  "map_explicit lname rname [] pairs = Inr pairs"
| "map_explicit lname rname (m # ms) pairs =
     (case lname (cp_left m) of
        None \<Rightarrow> Inl (MissingColumn SideLeft (cp_left m))
      | Some li \<Rightarrow>
          (case rname (cp_right m) of
             None \<Rightarrow> Inl (MissingColumn SideRight (cp_right m))
           | Some ri \<Rightarrow>
               (if li \<in> fst ` set pairs then Inl (DuplicateMapping SideLeft (cp_left m))
                else if ri \<in> snd ` set pairs then Inl (DuplicateMapping SideRight (cp_right m))
                else map_explicit lname rname ms (pairs @ [(li, ri)]))))"

text \<open>
  The loop that maps the remaining left columns by name. The sets \<^verbatim>\<open>used_left\<close> and
  \<^verbatim>\<open>used_right\<close> hold exactly the components of the pairs pushed so far.
\<close>

fun map_implicit ::
  "(string \<Rightarrow> nat option) \<Rightarrow> nat \<Rightarrow> column_metadata list \<Rightarrow> mapped_index list \<Rightarrow>
   mapped_index list" where
  "map_implicit rname li [] pairs = pairs"
| "map_implicit rname li (c # cs) pairs =
     (if li \<in> fst ` set pairs then map_implicit rname (Suc li) cs pairs
      else case rname (col_name c) of
        None \<Rightarrow> map_implicit rname (Suc li) cs pairs
      | Some ri \<Rightarrow>
          (if ri \<in> snd ` set pairs then map_implicit rname (Suc li) cs pairs
           else map_implicit rname (Suc li) cs (pairs @ [(li, ri)])))"

definition resolve_pairs ::
  "column_metadata list \<Rightarrow> column_metadata list \<Rightarrow> compare_column_pair list \<Rightarrow>
   mapped_index list compare_result" where
  "resolve_pairs left right explicit =
     res_bind (map_explicit (index_by_name left) (index_by_name right) explicit []) (\<lambda>pairs.
       Inr (sort_key fst (map_implicit (index_by_name right) 0 left pairs)))"

definition mapped_column ::
  "column_metadata list \<Rightarrow> column_metadata list \<Rightarrow> mapped_index \<Rightarrow> compare_column" where
  "mapped_column left right p =
     \<lparr> cc_left = Some (left ! fst p), cc_right = Some (right ! snd p),
       cc_status = (if compatible_types (col_type_ref (left ! fst p)) (col_type_ref (right ! snd p))
                    then Mapped else Incompatible) \<rparr>"

definition resolve_columns ::
  "column_metadata list \<Rightarrow> column_metadata list \<Rightarrow> compare_column_pair list \<Rightarrow>
   (compare_column list \<times> mapped_index list) compare_result" where
  "resolve_columns left right explicit =
     res_bind (resolve_pairs left right explicit) (\<lambda>pairs.
       Inr (map (mapped_column left right) pairs
            @ map (\<lambda>i. \<lparr> cc_left = Some (left ! i), cc_right = None, cc_status = MissingRight \<rparr>)
                (filter (\<lambda>i. i \<notin> fst ` set pairs) [0..<length left])
            @ map (\<lambda>i. \<lparr> cc_left = None, cc_right = Some (right ! i), cc_status = MissingLeft \<rparr>)
                (filter (\<lambda>i. i \<notin> snd ` set pairs) [0..<length right]),
            pairs))"

section \<open>Keys and tolerances\<close>

definition column_named :: "string \<Rightarrow> column_metadata option \<Rightarrow> bool" where
  "column_named n c = (case c of Some m \<Rightarrow> col_name m = n | None \<Rightarrow> False)"

definition resolve_key_column ::
  "comparison_input \<Rightarrow> compare_column list \<Rightarrow> mapped_index list \<Rightarrow> compare_column_pair \<Rightarrow>
   mapped_index compare_result" where
  "resolve_key_column input columns mapped key =
     (let invalid = Inl (InvalidKeyColumn (cp_left key @ '' -> '' @ cp_right key)) in
      case find (\<lambda>p. col_name (cs_columns (ci_left input) ! fst p) = cp_left key
                   \<and> col_name (cs_columns (ci_right input) ! snd p) = cp_right key) mapped of
        None \<Rightarrow> invalid
      | Some index \<Rightarrow>
          (if list_ex (\<lambda>c. cc_status c = Mapped \<and> column_named (cp_left key) (cc_left c)
                          \<and> column_named (cp_right key) (cc_right c)) columns
           then Inr index else invalid))"

definition resolve_key ::
  "comparison_input \<Rightarrow> compare_column list \<Rightarrow> mapped_index list \<Rightarrow>
   mapped_index list compare_result" where
  "resolve_key input columns mapped =
     (if rk_row_ordinal (ci_key input) then
        (if \<not> cs_immutable_order (ci_left input) \<or> \<not> cs_immutable_order (ci_right input)
         then Inl UnsafeOrdinalKey else Inr [])
      else if rk_columns (ci_key input) = [] then Inl EmptyKey
      else res_map (resolve_key_column input columns mapped) (rk_columns (ci_key input)))"

definition bad_bound :: "f64 option \<Rightarrow> bool" where
  "bad_bound b = (case b of Some x \<Rightarrow> \<not> f64_is_finite x \<or> f64_lt x 0 | None \<Rightarrow> False)"

fun position :: "('a \<Rightarrow> bool) \<Rightarrow> 'a list \<Rightarrow> nat option" where
  "position P [] = None"
| "position P (x # xs) = (if P x then Some 0 else map_option Suc (position P xs))"

fun resolve_tolerances ::
  "column_tolerance list \<Rightarrow> compare_column list \<Rightarrow> (nat \<Rightarrow> column_tolerance option) \<Rightarrow>
   (nat \<Rightarrow> column_tolerance option) compare_result" where
  "resolve_tolerances [] mapped_columns result = Inr result"
| "resolve_tolerances (t # ts) mapped_columns result =
     (if bad_bound (ct_numeric_absolute t) \<or> bad_bound (ct_numeric_relative t)
      then Inl (InvalidTolerance (ct_column t))
      else case position (\<lambda>c. cc_status c = Mapped \<and> column_named (ct_column t) (cc_left c))
                  mapped_columns of
        None \<Rightarrow> Inl (InvalidToleranceColumn (ct_column t))
      | Some i \<Rightarrow>
          (if result i \<noteq> None then Inl (InvalidTolerance (ct_column t))
           else resolve_tolerances ts mapped_columns (result(i \<mapsto> t))))"

section \<open>Groups\<close>

definition side_index :: "bool \<Rightarrow> mapped_index \<Rightarrow> nat" where
  "side_index left p = (if left then fst p else snd p)"

definition entry_key :: "mapped_index list \<Rightarrow> bool \<Rightarrow> nat \<Rightarrow> row \<Rightarrow> sql_value list" where
  "entry_key key left ordinal row =
     (if key = [] then [VInt64 (of_nat ordinal)] else map (\<lambda>p. row ! side_index left p) key)"

definition encode_key :: "compare_env \<Rightarrow> sql_value list \<Rightarrow> string compare_result" where
  "encode_key env values =
     (case ce_json_strings env (map (canonical_key_value env) values) of
        Inl e \<Rightarrow> Inl (Serialization e) | Inr s \<Rightarrow> Inr s)"

text \<open>\<^verbatim>\<open>group_rows\<close> keeps the map as the list of its insertions: \<^verbatim>\<open>(encoded key, entry)\<close>.\<close>

fun group_rows_from ::
  "compare_env \<Rightarrow> mapped_index list \<Rightarrow> bool \<Rightarrow> nat \<Rightarrow> row list \<Rightarrow>
   (string \<times> group_entry) list compare_result" where
  "group_rows_from env key left ordinal [] = Inr []"
| "group_rows_from env key left ordinal (row # rows) =
     res_bind (encode_key env (entry_key key left ordinal row)) (\<lambda>encoded.
     res_bind (group_rows_from env key left (Suc ordinal) rows) (\<lambda>groups.
       Inr ((encoded, \<lparr> ge_row = row, ge_key = entry_key key left ordinal row,
                        ge_digest = [] \<rparr>) # groups)))"

definition group_rows ::
  "compare_env \<Rightarrow> row list \<Rightarrow> mapped_index list \<Rightarrow> bool \<Rightarrow>
   (string \<times> group_entry) list compare_result" where
  "group_rows env rows key left = group_rows_from env key left 0 rows"

definition group_of :: "string \<Rightarrow> (string \<times> group_entry) list \<Rightarrow> group_entry list" where
  "group_of k groups = map snd (filter (\<lambda>g. fst g = k) groups)"

definition entry_digest ::
  "compare_env \<Rightarrow> mapped_index list \<Rightarrow> bool \<Rightarrow> group_entry \<Rightarrow> group_entry compare_result" where
  "entry_digest env mapped left entry =
     (case ce_json_values env (map (\<lambda>p. ge_row entry ! side_index left p) mapped) of
        Inl e \<Rightarrow> Inl (Serialization e)
      | Inr bytes \<Rightarrow> Inr (entry\<lparr> ge_digest := ce_hex env (ce_digest env bytes) \<rparr>))"

definition sort_group ::
  "compare_env \<Rightarrow> mapped_index list \<Rightarrow> bool \<Rightarrow> group_entry list \<Rightarrow>
   group_entry list compare_result" where
  "sort_group env mapped left entries =
     res_bind (res_map (entry_digest env mapped left) entries)
       (\<lambda>es. Inr (sort_key ge_digest es))"

section \<open>Row differences\<close>

definition pair_names :: "comparison_input \<Rightarrow> mapped_index \<Rightarrow> compare_column_pair" where
  "pair_names input p =
     \<lparr> cp_left = col_name (cs_columns (ci_left input) ! fst p),
       cp_right = col_name (cs_columns (ci_right input) ! snd p) \<rparr>"

definition compare_row ::
  "compare_env \<Rightarrow> comparison_input \<Rightarrow> mapped_index list \<Rightarrow> (nat \<Rightarrow> column_tolerance option) \<Rightarrow>
   row \<Rightarrow> row \<Rightarrow> cell_diff list" where
  "compare_row env input mapped tolerances left right =
     map (\<lambda>(i, p).
        \<lparr> cd_column = pair_names input p,
          cd_status = compare_value env (left ! fst p) (right ! snd p) (tolerances i),
          cd_left = Some (left ! fst p), cd_right = Some (right ! snd p) \<rparr>)
       (zip [0..<length mapped] mapped)"

definition one_sided_cells ::
  "comparison_input \<Rightarrow> mapped_index list \<Rightarrow> bool \<Rightarrow> row \<Rightarrow> cell_diff list" where
  "one_sided_cells input mapped is_left row =
     map (\<lambda>p.
        \<lparr> cd_column = pair_names input p, cd_status = CellUnequal,
          cd_left = (if is_left then Some (row ! fst p) else None),
          cd_right = (if \<not> is_left then Some (row ! snd p) else None) \<rparr>) mapped"

definition retain_diff :: "nat \<Rightarrow> row_diff \<Rightarrow> comparison_output \<Rightarrow> comparison_output" where
  "retain_diff limit d out =
     (if length (co_rows out) < limit then out\<lparr> co_rows := co_rows out @ [d] \<rparr>
      else out\<lparr> co_truncated := True \<rparr>)"

text \<open>Pairing equal digests in two groups sorted by digest; what is left over on each side.\<close>

fun pair_equal ::
  "group_entry list \<Rightarrow> group_entry list \<Rightarrow> nat \<times> group_entry list \<times> group_entry list" where
  "pair_equal (l # ls) (r # rs) =
     (if ge_digest l = ge_digest r then
        (case pair_equal ls rs of (n, lr, rr) \<Rightarrow> (Suc n, lr, rr))
      else if ge_digest l < ge_digest r then
        (case pair_equal ls (r # rs) of (n, lr, rr) \<Rightarrow> (n, l # lr, rr))
      else
        (case pair_equal (l # ls) rs of (n, lr, rr) \<Rightarrow> (n, lr, r # rr)))"
| "pair_equal [] rs = (0, [], rs)"
| "pair_equal ls [] = (0, ls, [])"

definition cell_equal :: "cell_diff \<Rightarrow> bool" where
  "cell_equal c = (cd_status c = CellEqual \<or> cd_status c = CellTolerantEqual)"

definition cell_incomparable :: "cell_diff \<Rightarrow> bool" where
  "cell_incomparable c = (cd_status c = CellIncomparable \<or> cd_status c = CellConversionFailed)"

text \<open>What the loops of one group share: the input, the resolved columns, the group's key.\<close>

record group_context =
  gc_env :: compare_env
  gc_input :: comparison_input
  gc_mapped :: "mapped_index list"
  gc_tolerances :: "nat \<Rightarrow> column_tolerance option"
  gc_key :: "sql_value list"
  gc_duplicate :: bool

definition group_diff ::
  "group_context \<Rightarrow> nat \<Rightarrow> row_diff_kind \<Rightarrow> cell_diff list \<Rightarrow> comparison_output \<Rightarrow>
   comparison_output" where
  "group_diff g occurrence kind cells =
     retain_diff (ci_max_diff_rows (gc_input g))
       \<lparr> rd_key = gc_key g, rd_occurrence = of_nat occurrence, rd_kind = kind,
         rd_duplicate_key = gc_duplicate g, rd_cells = cells \<rparr>"

definition compare_pair ::
  "group_context \<Rightarrow> nat \<Rightarrow> group_entry \<Rightarrow> group_entry \<Rightarrow> comparison_output \<Rightarrow>
   comparison_output" where
  "compare_pair g occurrence left right out =
     (let cells = compare_row (gc_env g) (gc_input g) (gc_mapped g) (gc_tolerances g)
                    (ge_row left) (ge_row right)
      in if list_all cell_equal cells then out\<lparr> co_equal_rows := Suc (co_equal_rows out) \<rparr>
         else if list_ex cell_incomparable cells then
           group_diff g occurrence DiffIncomparable cells
             (out\<lparr> co_incomparable_rows := Suc (co_incomparable_rows out) \<rparr>)
         else
           group_diff g occurrence DiffChanged cells
             (out\<lparr> co_changed_rows := Suc (co_changed_rows out) \<rparr>))"

fun compare_pairs ::
  "group_context \<Rightarrow> nat \<Rightarrow> (group_entry \<times> group_entry) list \<Rightarrow> comparison_output \<Rightarrow>
   comparison_output" where
  "compare_pairs g occurrence [] out = out"
| "compare_pairs g occurrence ((l, r) # ps) out =
     compare_pairs g (Suc occurrence) ps (compare_pair g occurrence l r out)"

fun report_removed ::
  "group_context \<Rightarrow> nat \<Rightarrow> group_entry list \<Rightarrow> comparison_output \<Rightarrow> comparison_output" where
  "report_removed g occurrence [] out = out"
| "report_removed g occurrence (e # es) out =
     report_removed g (Suc occurrence) es
       (group_diff g occurrence DiffRemoved
          (one_sided_cells (gc_input g) (gc_mapped g) True (ge_row e))
          (out\<lparr> co_removed_rows := Suc (co_removed_rows out) \<rparr>))"

fun report_added ::
  "group_context \<Rightarrow> nat \<Rightarrow> group_entry list \<Rightarrow> comparison_output \<Rightarrow> comparison_output" where
  "report_added g occurrence [] out = out"
| "report_added g occurrence (e # es) out =
     report_added g (Suc occurrence) es
       (group_diff g occurrence DiffAdded
          (one_sided_cells (gc_input g) (gc_mapped g) False (ge_row e))
          (out\<lparr> co_added_rows := Suc (co_added_rows out) \<rparr>))"

text \<open>The body of the loop over the keys, after the cancellation and size checks.\<close>

definition report_group ::
  "group_context \<Rightarrow> group_entry list \<Rightarrow> group_entry list \<Rightarrow> comparison_output \<Rightarrow>
   comparison_output" where
  "report_group g left right out =
     (let (equal, left_remaining, right_remaining) = pair_equal left right;
          paired = min (length left_remaining) (length right_remaining);
          out = out\<lparr> co_equal_rows := co_equal_rows out + equal \<rparr>;
          out = compare_pairs g 0 (zip left_remaining right_remaining) out;
          out = report_removed g paired (drop paired left_remaining) out
      in report_added g paired (drop paired right_remaining) out)"

definition first_key :: "group_entry list \<Rightarrow> group_entry list \<Rightarrow> sql_value list" where
  "first_key left right =
     (case left of
        e # _ \<Rightarrow> ge_key e
      | [] \<Rightarrow> (case right of e # _ \<Rightarrow> ge_key e | [] \<Rightarrow> []))"

definition compare_group ::
  "compare_env \<Rightarrow> comparison_input \<Rightarrow> mapped_index list \<Rightarrow> (nat \<Rightarrow> column_tolerance option) \<Rightarrow>
   group_entry list \<Rightarrow> group_entry list \<Rightarrow> comparison_output \<Rightarrow> comparison_output compare_result" where
  "compare_group env input mapped tolerances left right out =
     (if ci_max_duplicate_group input < max (length left) (length right)
      then Inl (DuplicateGroupTooLarge (ci_max_duplicate_group input))
      else
        (let duplicate = (1 < length left \<or> 1 < length right);
             out = (if duplicate
                    then out\<lparr> co_duplicate_key_groups := Suc (co_duplicate_key_groups out) \<rparr>
                    else out)
         in res_bind (sort_group env mapped True left) (\<lambda>left.
            res_bind (sort_group env mapped False right) (\<lambda>right.
              Inr (report_group
                \<lparr> gc_env = env, gc_input = input, gc_mapped = mapped, gc_tolerances = tolerances,
                  gc_key = first_key left right, gc_duplicate = duplicate \<rparr> left right out)))))"

fun compare_groups ::
  "compare_env \<Rightarrow> comparison_input \<Rightarrow> mapped_index list \<Rightarrow> (nat \<Rightarrow> column_tolerance option) \<Rightarrow>
   (string \<times> group_entry) list \<Rightarrow> (string \<times> group_entry) list \<Rightarrow> nat \<Rightarrow> string list \<Rightarrow>
   comparison_output \<Rightarrow> comparison_output compare_result" where
  "compare_groups env input mapped tolerances lg rg k [] out = Inr out"
| "compare_groups env input mapped tolerances lg rg k (key # keys) out =
     res_bind (check_canceled input k) (\<lambda>_.
     res_bind (compare_group env input mapped tolerances (group_of key lg) (group_of key rg) out)
       (\<lambda>out. compare_groups env input mapped tolerances lg rg (Suc k) keys out))"

definition empty_output :: "compare_column list \<Rightarrow> comparison_output" where
  "empty_output columns =
     \<lparr> co_columns = columns, co_rows = [], co_equal_rows = 0, co_changed_rows = 0,
       co_added_rows = 0, co_removed_rows = 0, co_incomparable_rows = 0,
       co_duplicate_key_groups = 0, co_truncated = False, co_digest = [] \<rparr>"

text \<open>
  \<open>encode\<close> is \<^verbatim>\<open>serde_json::to_vec\<close> of the report with the key and the tolerances.
\<close>

definition compare ::
  "compare_env \<Rightarrow>
   (resolved_compare_key \<Rightarrow> column_tolerance list \<Rightarrow> comparison_output \<Rightarrow> (string, u8 list) result) \<Rightarrow>
   comparison_input \<Rightarrow> comparison_output compare_result" where
  "compare env encode input =
     res_bind (check_canceled input 0) (\<lambda>_.
     res_bind (validate_rows SideLeft (ci_left input)) (\<lambda>_.
     res_bind (validate_rows SideRight (ci_right input)) (\<lambda>_.
     res_bind (resolve_columns (cs_columns (ci_left input)) (cs_columns (ci_right input))
                 (ci_mappings input)) (\<lambda>(columns, mapped).
     res_bind (resolve_key input columns mapped) (\<lambda>key.
     res_bind (resolve_tolerances (ci_tolerances input) (take (length mapped) columns)
                 (\<lambda>_. None)) (\<lambda>tolerances.
     res_bind (group_rows env (cs_rows (ci_left input)) key True) (\<lambda>lg.
     res_bind (group_rows env (cs_rows (ci_right input)) key False) (\<lambda>rg.
     res_bind (compare_groups env input mapped tolerances lg rg 1
                 (btree_order (map fst lg @ map fst rg)) (empty_output columns)) (\<lambda>out.
       (case encode (ci_key input) (ci_tolerances input) out of
          Inl e \<Rightarrow> Inl (Serialization e)
        | Inr bytes \<Rightarrow>
            Inr (out\<lparr> co_digest := ''cmpfp:'' @ ce_hex env (ce_digest env bytes) \<rparr>)))))))))))"

section \<open>Accounting\<close>

definition total_diffs :: "comparison_output \<Rightarrow> nat" where
  "total_diffs out =
     co_changed_rows out + co_incomparable_rows out + co_added_rows out + co_removed_rows out"

definition accounted :: "nat \<Rightarrow> nat \<Rightarrow> nat \<Rightarrow> comparison_output \<Rightarrow> bool" where
  "accounted limit l r out =
     (co_equal_rows out + co_changed_rows out + co_incomparable_rows out + co_removed_rows out = l
    \<and> co_equal_rows out + co_changed_rows out + co_incomparable_rows out + co_added_rows out = r
    \<and> length (co_rows out) = min limit (total_diffs out)
    \<and> (co_truncated out \<longleftrightarrow> limit < total_diffs out))"

lemmas accounting = accounted_def total_diffs_def

lemma accounted_empty: "accounted limit 0 0 (empty_output columns)"
  by (simp add: accounting empty_output_def)

lemma accounted_equal:
  "accounted limit l r out \<Longrightarrow>
   accounted limit (l + n) (r + n) (out\<lparr> co_equal_rows := co_equal_rows out + n \<rparr>)"
  by (simp add: accounting)

lemma accounted_duplicate:
  "accounted limit l r (out\<lparr> co_duplicate_key_groups := n \<rparr>) = accounted limit l r out"
  by (simp add: accounting)

lemma accounted_both:
  assumes "accounted (ci_max_diff_rows (gc_input g)) l r out"
  shows "accounted (ci_max_diff_rows (gc_input g)) (Suc l) (Suc r)
           (group_diff g i k cells (out\<lparr> co_changed_rows := Suc (co_changed_rows out) \<rparr>))"
    and "accounted (ci_max_diff_rows (gc_input g)) (Suc l) (Suc r)
           (group_diff g i k cells (out\<lparr> co_incomparable_rows := Suc (co_incomparable_rows out) \<rparr>))"
  using assms by (auto simp: accounting group_diff_def retain_diff_def)

lemma accounted_one_sided:
  assumes "accounted (ci_max_diff_rows (gc_input g)) l r out"
  shows "accounted (ci_max_diff_rows (gc_input g)) (Suc l) r
           (group_diff g i k cells (out\<lparr> co_removed_rows := Suc (co_removed_rows out) \<rparr>))"
    and "accounted (ci_max_diff_rows (gc_input g)) l (Suc r)
           (group_diff g i k cells (out\<lparr> co_added_rows := Suc (co_added_rows out) \<rparr>))"
  using assms by (auto simp: accounting group_diff_def retain_diff_def)

lemma accounted_pair:
  "accounted (ci_max_diff_rows (gc_input g)) l r out \<Longrightarrow>
   accounted (ci_max_diff_rows (gc_input g)) (Suc l) (Suc r) (compare_pair g i a b out)"
  using accounted_equal [of _ l r out 1] by (simp add: compare_pair_def Let_def accounted_both)

lemma accounted_pairs:
  "accounted (ci_max_diff_rows (gc_input g)) l r out \<Longrightarrow>
   accounted (ci_max_diff_rows (gc_input g)) (l + length ps) (r + length ps)
     (compare_pairs g i ps out)"
proof (induction g i ps out arbitrary: l r rule: compare_pairs.induct)
  case (2 g i a b ps out)
  then show ?case using accounted_pair [of g l r out i a b] by fastforce
qed simp

lemma accounted_removed:
  "accounted (ci_max_diff_rows (gc_input g)) l r out \<Longrightarrow>
   accounted (ci_max_diff_rows (gc_input g)) (l + length es) r (report_removed g i es out)"
proof (induction es arbitrary: i l out)
  case (Cons e es)
  from Cons.IH [OF accounted_one_sided(1) [OF Cons.prems]] show ?case by simp
qed simp

lemma accounted_added:
  "accounted (ci_max_diff_rows (gc_input g)) l r out \<Longrightarrow>
   accounted (ci_max_diff_rows (gc_input g)) l (r + length es) (report_added g i es out)"
proof (induction es arbitrary: i r out)
  case (Cons e es)
  from Cons.IH [OF accounted_one_sided(2) [OF Cons.prems]] show ?case by simp
qed simp

lemma pair_equal_lengths:
  "pair_equal ls rs = (n, lr, rr) \<Longrightarrow> n + length lr = length ls \<and> n + length rr = length rs"
  by (induction ls rs arbitrary: n lr rr rule: pair_equal.induct)
    (fastforce split: prod.splits if_splits)+

lemma accounted_group:
  assumes "accounted (ci_max_diff_rows (gc_input g)) l r out"
  shows "accounted (ci_max_diff_rows (gc_input g)) (l + length ls) (r + length rs)
           (report_group g ls rs out)"
proof -
  obtain n lr rr where p: "pair_equal ls rs = (n, lr, rr)" by (metis prod_cases3)
  let ?m = "min (length lr) (length rr)"
  have "accounted (ci_max_diff_rows (gc_input g)) (l + n + ?m) (r + n + ?m)
      (compare_pairs g 0 (zip lr rr) (out\<lparr> co_equal_rows := co_equal_rows out + n \<rparr>))"
    using accounted_pairs [OF accounted_equal [OF assms, of n], where i = 0 and ps = "zip lr rr"] by simp
  from accounted_added [OF accounted_removed [OF this, where i = ?m and es = "drop ?m lr"],
      where i = ?m and es = "drop ?m rr"]
  have "accounted (ci_max_diff_rows (gc_input g))
      (l + n + ?m + (length lr - ?m)) (r + n + ?m + (length rr - ?m)) (report_group g ls rs out)"
    by (simp add: report_group_def p Let_def)
  moreover have "l + n + ?m + (length lr - ?m) = l + length ls"
    "r + n + ?m + (length rr - ?m) = r + length rs"
    using pair_equal_lengths [OF p] by auto
  ultimately show ?thesis by simp
qed

lemma sort_group_length: "sort_group env m side es = Inr es' \<Longrightarrow> length es' = length es"
  by (auto simp: sort_group_def res_bind_Inr_conv dest: res_map_length)

lemma compare_group_stages:
  assumes "compare_group env input mapped tol ls rs out = Inr out'"
  obtains ls' rs' g where "gc_input g = input"
    "sort_group env mapped True ls = Inr ls'" "sort_group env mapped False rs = Inr rs'"
    "out' = report_group g ls' rs'
       (if 1 < length ls \<or> 1 < length rs
        then out\<lparr> co_duplicate_key_groups := Suc (co_duplicate_key_groups out) \<rparr> else out)"
proof -
  have "\<not> ci_max_duplicate_group input < max (length ls) (length rs)"
    using assms by (rule contrapos_pn) (simp add: compare_group_def)
  with assms show thesis
    unfolding compare_group_def Let_def res_bind_Inr_conv
    by - (simp only: if_False res_bind_Inr_conv sum.inject, elim exE conjE, rule that,
        rule group_context.select_convs(2), assumption, assumption, erule sym)
qed

lemma compare_group_accounted:
  assumes "compare_group env input mapped tol ls rs out = Inr out'"
    and "accounted (ci_max_diff_rows input) l r out"
  shows "accounted (ci_max_diff_rows input) (l + length ls) (r + length rs) out'"
proof (rule compare_group_stages [OF assms(1)])
  let ?out = "if 1 < length ls \<or> 1 < length rs
              then out\<lparr> co_duplicate_key_groups := Suc (co_duplicate_key_groups out) \<rparr> else out"
  fix ls' rs' g
  assume g: "gc_input g = input" and out': "out' = report_group g ls' rs' ?out"
    and s: "sort_group env mapped True ls = Inr ls'" "sort_group env mapped False rs = Inr rs'"
  have "accounted (ci_max_diff_rows (gc_input g)) l r ?out"
    using assms(2) g by (simp add: accounted_duplicate)
  from accounted_group [OF this, of ls' rs'] show ?thesis
    using g out' sort_group_length [OF s(1)] sort_group_length [OF s(2)] by simp
qed

definition group_sizes :: "(string \<times> group_entry) list \<Rightarrow> string list \<Rightarrow> nat" where
  "group_sizes gs keys = sum_list (map (\<lambda>k. length (group_of k gs)) keys)"

lemma compare_groups_accounted:
  "compare_groups env input mapped tol lg rg k keys out = Inr out' \<Longrightarrow>
   accounted (ci_max_diff_rows input) l r out \<Longrightarrow>
   accounted (ci_max_diff_rows input) (l + group_sizes lg keys) (r + group_sizes rg keys) out'"
proof (induction keys arbitrary: k out l r)
  case (Cons key keys)
  then obtain out1 where
    "compare_group env input mapped tol (group_of key lg) (group_of key rg) out = Inr out1"
    and rest: "compare_groups env input mapped tol lg rg (Suc k) keys out1 = Inr out'"
    by (auto simp: res_bind_Inr_conv)
  from compare_group_accounted [OF this(1) Cons.prems(2)] Cons.IH [OF rest]
  show ?case by (fastforce simp: group_sizes_def add.assoc)
qed (simp add: group_sizes_def)

lemma group_sizes_all:
  assumes "distinct keys" and "fst ` set gs \<subseteq> set keys"
  shows "group_sizes gs keys = length gs"
  using assms(2)
proof (induction gs)
  case Nil
  then show ?case by (simp add: group_sizes_def group_of_def)
next
  case (Cons g gs)
  have "group_sizes (g # gs) keys
      = sum_list (map (\<lambda>k. (if fst g = k then 1 else 0) + length (group_of k gs)) keys)"
    unfolding group_sizes_def group_of_def
    by (intro arg_cong [of _ _ sum_list] map_cong) simp_all
  also have "\<dots> = sum_list (map (\<lambda>k. if fst g = k then 1 else 0) keys) + group_sizes gs keys"
    by (simp add: group_sizes_def sum_list_addf)
  also have "sum_list (map (\<lambda>k. if fst g = k then 1 else 0) keys) = (1::nat)"
    using assms(1) Cons.prems by (simp add: sum_list_distinct_conv_sum_set)
  finally show ?case using Cons by simp
qed

lemma group_rows_from_map:
  "group_rows_from env key left i rows = Inr gs \<Longrightarrow> map (ge_row \<circ> snd) gs = rows"
  by (induction rows arbitrary: i gs) (auto simp: res_bind_Inr_conv)

lemma group_rows_length: "group_rows env rows key left = Inr gs \<Longrightarrow> length gs = length rows"
  by (metis group_rows_def group_rows_from_map length_map)

text \<open>What a finished comparison went through.\<close>

lemma compare_stages:
  assumes "compare env encode input = Inr out"
  obtains columns mapped key tol lg rg out1 d where
    "validate_rows SideLeft (ci_left input) = Inr ()"
    "validate_rows SideRight (ci_right input) = Inr ()"
    "resolve_columns (cs_columns (ci_left input)) (cs_columns (ci_right input)) (ci_mappings input)
       = Inr (columns, mapped)"
    "resolve_key input columns mapped = Inr key"
    "group_rows env (cs_rows (ci_left input)) key True = Inr lg"
    "group_rows env (cs_rows (ci_right input)) key False = Inr rg"
    "compare_groups env input mapped tol lg rg 1 (btree_order (map fst lg @ map fst rg))
       (empty_output columns) = Inr out1"
    "out = out1\<lparr> co_digest := d \<rparr>"
proof -
  from assms obtain columns mapped key tol lg rg out1 where
    st: "validate_rows SideLeft (ci_left input) = Inr ()"
    "validate_rows SideRight (ci_right input) = Inr ()"
    "resolve_columns (cs_columns (ci_left input)) (cs_columns (ci_right input)) (ci_mappings input)
       = Inr (columns, mapped)"
    "resolve_key input columns mapped = Inr key"
    "group_rows env (cs_rows (ci_left input)) key True = Inr lg"
    "group_rows env (cs_rows (ci_right input)) key False = Inr rg"
    "compare_groups env input mapped tol lg rg 1 (btree_order (map fst lg @ map fst rg))
       (empty_output columns) = Inr out1"
    and fin: "(case encode (ci_key input) (ci_tolerances input) out1 of
          Inl e \<Rightarrow> Inl (Serialization e)
        | Inr bytes \<Rightarrow>
            Inr (out1\<lparr> co_digest := ''cmpfp:'' @ ce_hex env (ce_digest env bytes) \<rparr>)) = Inr out"
    unfolding compare_def res_bind_Inr_conv by (clarsimp simp: res_bind_Inr_conv)
  from fin obtain d where "out = out1\<lparr> co_digest := d \<rparr>" by (force split: sum.splits)
  from that [OF st this] show thesis .
qed


definition demo_dataset :: "row list \<Rightarrow> comparison_dataset" where
  "demo_dataset rows =
     \<lparr> cs_columns = [column_metadata_new ''k'' (PrimitiveRef PInt64)], cs_rows = rows,
       cs_immutable_order = True \<rparr>"

definition demo_input :: "row list \<Rightarrow> row list \<Rightarrow> comparison_input" where
  "demo_input left right =
     \<lparr> ci_left = demo_dataset left, ci_right = demo_dataset right, ci_mappings = [],
       ci_key = \<lparr> rk_columns = [\<lparr> cp_left = ''k'', cp_right = ''k'' \<rparr>],
                  rk_inferred_constraint = None, rk_row_ordinal = False \<rparr>,
       ci_tolerances = [], ci_max_diff_rows = 5, ci_max_duplicate_group = 5, ci_cancel = None \<rparr>"

lemmas demo_compare_defs = compare_def demo_input_def demo_dataset_def check_canceled_def
  validate_rows_def resolve_columns_def resolve_pairs_def index_by_name_def column_metadata_new_def
  mapped_column_def compatible_types_def type_family_of_def resolve_key_def resolve_key_column_def
  column_named_def group_rows_def entry_key_def side_index_def encode_key_def demo_env_def
  canonical_key_value_def value_type_category_def btree_order_def compare_group_def group_of_def
  sort_group_def entry_digest_def

lemma demo_compare:
  "\<exists>out. compare demo_env (\<lambda>_ _ _. Inr []) (demo_input [[VText ''a'']] [[VText ''b'']]) = Inr out"
  by (simp add: demo_compare_defs)

lemma demo_compare2:
  "\<exists>out. compare demo_env (\<lambda>_ _ _. Inr [])
      (demo_input [[VText ''a''], [VText ''b'']] [[VText ''b''], [VText ''a'']]) = Inr out"
  by (simp add: demo_compare_defs)


section \<open>Column mapping\<close>

lemma index_by_name_Some:
  "index_by_name cols n = Some i \<Longrightarrow> i < length cols \<and> col_name (cols ! i) = n"
  by (auto simp: index_by_name_def set_zip dest!: map_of_SomeD)

definition good_pairs :: "nat \<Rightarrow> nat \<Rightarrow> mapped_index list \<Rightarrow> bool" where
  "good_pairs m n ps =
     (distinct (map fst ps) \<and> distinct (map snd ps) \<and> (\<forall>p\<in>set ps. fst p < m \<and> snd p < n))"

lemma good_pairs_snoc:
  "good_pairs m n ps \<Longrightarrow> i \<notin> fst ` set ps \<Longrightarrow> j \<notin> snd ` set ps \<Longrightarrow> i < m \<Longrightarrow> j < n \<Longrightarrow>
   good_pairs m n (ps @ [(i, j)])"
  by (auto simp: good_pairs_def)

lemma map_explicit_good:
  "map_explicit (index_by_name left) (index_by_name right) ms ps = Inr qs \<Longrightarrow>
   good_pairs (length left) (length right) ps \<Longrightarrow>
   good_pairs (length left) (length right) qs \<and> set ps \<subseteq> set qs
   \<and> (\<forall>m\<in>set ms. \<exists>(i, j)\<in>set qs. col_name (left ! i) = cp_left m \<and> col_name (right ! j) = cp_right m)"
proof (induction ms arbitrary: ps)
  case (Cons m ms)
  then obtain i j where i: "index_by_name left (cp_left m) = Some i"
    and j: "index_by_name right (cp_right m) = Some j"
    and new: "i \<notin> fst ` set ps" "j \<notin> snd ` set ps"
    and rest: "map_explicit (index_by_name left) (index_by_name right) ms (ps @ [(i, j)]) = Inr qs"
    by (auto split: option.splits if_split_asm)
  have ij: "i < length left" "col_name (left ! i) = cp_left m"
    "j < length right" "col_name (right ! j) = cp_right m"
    using index_by_name_Some i j by blast+
  from Cons.IH [OF rest good_pairs_snoc [OF Cons.prems(2) new ij(1,3)]] ij show ?case by auto
qed simp

lemma map_implicit_good:
  "good_pairs m (length right) ps \<Longrightarrow> li + length cs \<le> m \<Longrightarrow>
   good_pairs m (length right) (map_implicit (index_by_name right) li cs ps)
   \<and> set ps \<subseteq> set (map_implicit (index_by_name right) li cs ps)"
proof (induction cs arbitrary: li ps)
  case (Cons c cs)
  show ?case
  proof (cases "li \<in> fst ` set ps \<or> index_by_name right (col_name c) = None
      \<or> the (index_by_name right (col_name c)) \<in> snd ` set ps")
    case True
    then have "map_implicit (index_by_name right) li (c # cs) ps
        = map_implicit (index_by_name right) (Suc li) cs ps"
      by (cases "index_by_name right (col_name c)") (simp_all split: if_split, blast)
    with Cons.IH [OF Cons.prems(1), of "Suc li"] Cons.prems(2) show ?thesis by simp
  next
    case False
    then obtain j where j: "index_by_name right (col_name c) = Some j" "j \<notin> snd ` set ps" by auto
    have "good_pairs m (length right) (ps @ [(li, j)])"
      using False j Cons.prems index_by_name_Some [OF j(1)] by (intro good_pairs_snoc) auto
    from Cons.IH [OF this, of "Suc li"] Cons.prems False j show ?thesis by auto
  qed
qed simp

lemma good_pairs_sort: "good_pairs m n (sort_key f ps) = good_pairs m n ps"
proof -
  have "mset (map g (sort_key f ps)) = mset (map g ps)" for g :: "mapped_index \<Rightarrow> nat" by simp
  then have "distinct (map g (sort_key f ps)) = distinct (map g ps)" for g :: "mapped_index \<Rightarrow> nat"
    by (metis mset_eq_imp_distinct_iff)
  then show ?thesis by (simp add: good_pairs_def)
qed

lemma distinct_below_length:
  assumes "distinct is" and "set is \<subseteq> {..<n}"
  shows "length is \<le> n"
  using card_mono [OF _ assms(2)] distinct_card [OF assms(1)] by simp

lemma count_unused:
  assumes "distinct is" and "set is \<subseteq> {..<n}"
  shows "length (filter (\<lambda>i. i \<notin> set is) [0..<n]) = n - length is"
proof -
  have "length (filter (\<lambda>i. i \<notin> set is) [0..<n]) = card ({..<n} - set is)"
    by (subst distinct_length_filter) (auto intro: arg_cong [of _ _ card])
  also have "\<dots> = n - length is" using assms by (simp add: card_Diff_subset distinct_card)
  finally show ?thesis .
qed

text \<open>
  The column mapping is a partial bijection. The resolved pairs are sorted by left
  column, use no column of either side twice and index into both schemas, every explicit
  mapping is among them, and the reported columns are the pairs followed by every other
  column of either side once.
\<close>

theorem mapping_is_partial_bijection:
  assumes "resolve_columns left right explicit = Inr (columns, pairs)"
  shows "sorted (map fst pairs) \<and> good_pairs (length left) (length right) pairs
    \<and> (\<forall>m\<in>set explicit. \<exists>(i, j)\<in>set pairs.
          col_name (left ! i) = cp_left m \<and> col_name (right ! j) = cp_right m)
    \<and> take (length pairs) columns = map (mapped_column left right) pairs
    \<and> length columns + length pairs = length left + length right"
proof -
  from assms obtain ps where ps: "map_explicit (index_by_name left) (index_by_name right) explicit []
        = Inr ps"
    and pairs: "pairs = sort_key fst (map_implicit (index_by_name right) 0 left ps)"
    by (auto simp: resolve_columns_def resolve_pairs_def res_bind_Inr_conv)
  have good: "good_pairs (length left) (length right) ps"
    and ex: "\<forall>m\<in>set explicit. \<exists>(i, j)\<in>set ps.
          col_name (left ! i) = cp_left m \<and> col_name (right ! j) = cp_right m"
    using map_explicit_good [OF ps] by (auto simp: good_pairs_def)
  from map_implicit_good [OF good, of 0 left]
  have gp: "good_pairs (length left) (length right) pairs" and sub: "set ps \<subseteq> set pairs"
    by (simp_all add: pairs good_pairs_sort)
  have "length pairs \<le> length left" "length pairs \<le> length right"
    using gp distinct_below_length [of "map fst pairs" "length left"]
      distinct_below_length [of "map snd pairs" "length right"] by (auto simp: good_pairs_def)
  moreover have "length (filter (\<lambda>i. i \<notin> fst ` set pairs) [0..<length left]) = length left - length pairs"
    "length (filter (\<lambda>i. i \<notin> snd ` set pairs) [0..<length right]) = length right - length pairs"
    using gp count_unused [of "map fst pairs" "length left"]
      count_unused [of "map snd pairs" "length right"] by (auto simp: good_pairs_def)
  ultimately have "length columns + length pairs = length left + length right"
    "take (length pairs) columns = map (mapped_column left right) pairs"
    using assms pairs ps by (auto simp: resolve_columns_def resolve_pairs_def)
  then show ?thesis using gp sub ex by (auto simp: pairs) blast
qed

theorem mapping_is_partial_bijection_witness:
  "sorted (map fst [(0::nat, 0::nat)])
     \<and> good_pairs (length [column_metadata_new ''k'' (PrimitiveRef PInt64)])
         (length [column_metadata_new ''k'' (PrimitiveRef PInt64)]) [(0, 0)]"
  using mapping_is_partial_bijection [of "[column_metadata_new ''k'' (PrimitiveRef PInt64)]"
      "[column_metadata_new ''k'' (PrimitiveRef PInt64)]" "[]" _ "[(0, 0)]"]
  by (simp add: resolve_columns_def resolve_pairs_def index_by_name_def column_metadata_new_def)

section \<open>Comparing a relation with itself\<close>

lemma pair_equal_same:
  "map ge_digest ls = map ge_digest rs \<Longrightarrow> pair_equal ls rs = (length ls, [], [])"
  by (induction ls rs rule: pair_equal.induct) auto

lemma report_group_same:
  "map ge_digest ls = map ge_digest rs \<Longrightarrow>
   report_group g ls rs out = out\<lparr> co_equal_rows := co_equal_rows out + length ls \<rparr>"
  by (simp add: report_group_def pair_equal_same)

definition no_diffs :: "nat \<Rightarrow> comparison_output \<Rightarrow> bool" where
  "no_diffs n out =
     (co_equal_rows out = n \<and> total_diffs out = 0 \<and> co_rows out = [] \<and> \<not> co_truncated out)"

definition entry_bytes :: "compare_env \<Rightarrow> mapped_index list \<Rightarrow> bool \<Rightarrow> row \<Rightarrow> string" where
  "entry_bytes env mapped left row =
     (case ce_json_values env (map (\<lambda>p. row ! side_index left p) mapped) of
        Inl e \<Rightarrow> [] | Inr bytes \<Rightarrow> ce_hex env (ce_digest env bytes))"

lemma sort_group_digests:
  assumes "sort_group env mapped side es = Inr es'"
  shows "map ge_digest es' = sort (map (entry_bytes env mapped side \<circ> ge_row) es)"
proof -
  from assms obtain ds where ds: "res_map (entry_digest env mapped side) es = Inr ds"
    and es': "es' = sort_key ge_digest ds"
    by (auto simp: sort_group_def res_bind_Inr_conv)
  from ds have "map ge_digest ds = map (entry_bytes env mapped side \<circ> ge_row) es"
    by (induction es arbitrary: ds)
      (auto simp: entry_digest_def entry_bytes_def split: sum.splits)
  moreover have "map ge_digest (sort_key ge_digest ds) = sort (map ge_digest ds)"
    by (rule properties_for_sort [symmetric]) simp_all
  ultimately show ?thesis using es' by simp
qed

lemma compare_group_same:
  assumes "compare_group env input mapped tol ls rs out = Inr out'"
    and "mset (map ge_row ls) = mset (map ge_row rs)"
    and "\<forall>p\<in>set mapped. fst p = snd p"
    and "no_diffs n out"
  shows "no_diffs (n + length ls) out'"
proof -
  have bytes: "entry_bytes env mapped True = entry_bytes env mapped False"
    using assms(3) by (auto simp: entry_bytes_def side_index_def cong: map_cong)
  from assms(2) have "mset (map (entry_bytes env mapped True) (map ge_row ls))
      = mset (map (entry_bytes env mapped True) (map ge_row rs))" by (simp only: mset_map)
  then have srt: "sort (map (entry_bytes env mapped True \<circ> ge_row) ls)
      = sort (map (entry_bytes env mapped False \<circ> ge_row) rs)"
    unfolding bytes [symmetric] map_map by (metis sorted_list_of_multiset_mset)
  show ?thesis
  proof (rule compare_group_stages [OF assms(1)])
    let ?out = "if 1 < length ls \<or> 1 < length rs
                then out\<lparr> co_duplicate_key_groups := Suc (co_duplicate_key_groups out) \<rparr> else out"
    fix ls' rs' g
    assume out: "out' = report_group g ls' rs' ?out"
      and s: "sort_group env mapped True ls = Inr ls'" "sort_group env mapped False rs = Inr rs'"
    from srt have "map ge_digest ls' = map ge_digest rs'"
      by (simp add: sort_group_digests [OF s(1)] sort_group_digests [OF s(2)])
    with out assms(4) sort_group_length [OF s(1)] show ?thesis
      by (simp add: report_group_same no_diffs_def total_diffs_def)
  qed
qed

lemma compare_groups_same:
  "compare_groups env input mapped tol lg rg k keys out = Inr out' \<Longrightarrow>
   (\<And>key. mset (map ge_row (group_of key lg)) = mset (map ge_row (group_of key rg))) \<Longrightarrow>
   \<forall>p\<in>set mapped. fst p = snd p \<Longrightarrow> no_diffs n out \<Longrightarrow>
   no_diffs (n + group_sizes lg keys) out'"
proof (induction keys arbitrary: k out n)
  case (Cons key keys)
  then obtain out1 where
    "compare_group env input mapped tol (group_of key lg) (group_of key rg) out = Inr out1"
    and rest: "compare_groups env input mapped tol lg rg (Suc k) keys out1 = Inr out'"
    by (auto simp: res_bind_Inr_conv)
  from compare_group_same [OF this(1) Cons.prems(2-4)] Cons.IH [OF rest Cons.prems(2,3)]
  show ?case by (fastforce simp: group_sizes_def add.assoc)
qed (simp add: group_sizes_def)

lemma identity_pairs:
  assumes "resolve_columns cols cols [] = Inr (columns, pairs)" and "distinct (map col_name cols)"
  shows "\<forall>p\<in>set pairs. fst p = snd p"
proof -
  have step: "\<forall>p\<in>set (map_implicit (index_by_name cols) li (drop li cols) ps). fst p = snd p"
    if "\<forall>p\<in>set ps. fst p = snd p" for li ps
    using that
  proof (induction "drop li cols" arbitrary: li ps)
    case (Cons c cs)
    then have c: "c = cols ! li" "li < length cols" and cs: "cs = drop (Suc li) cols"
      by (metis Cons.hyps(2) nth_via_drop, metis Cons.hyps(2) drop_all linorder_not_le list.distinct(1),
          metis Cons.hyps(2) list.sel(3) tl_drop drop_Suc)
    have same: "ri = li" if "index_by_name cols (col_name c) = Some ri" for ri
      using index_by_name_Some [OF that] c assms(2) by (auto simp: distinct_conv_nth)
    show ?case
      unfolding Cons.hyps(2) [symmetric]
    proof (cases "index_by_name cols (col_name c)")
      case None
      then show "\<forall>p\<in>set (map_implicit (index_by_name cols) li (c # cs) ps). fst p = snd p"
        using Cons.hyps(1) [OF cs Cons.prems] by (simp add: cs)
    next
      case (Some ri)
      with same Cons.prems have "\<forall>p\<in>set (ps @ [(li, ri)]). fst p = snd p" by simp
      then show "\<forall>p\<in>set (map_implicit (index_by_name cols) li (c # cs) ps). fst p = snd p"
        unfolding map_implicit.simps Some option.case cs
        using Cons.hyps(1) [OF cs Cons.prems] Cons.hyps(1) [OF cs, of "ps @ [(li, ri)]"]
        by presburger
    qed
  qed simp
  from step [of "[]" 0] assms(1) show ?thesis
    by (auto simp: resolve_columns_def resolve_pairs_def)
qed

lemma resolve_key_subset:
  assumes "resolve_key input columns mapped = Inr key" and "\<not> rk_row_ordinal (ci_key input)"
  shows "key \<noteq> [] \<and> set key \<subseteq> set mapped"
proof -
  from assms have r: "rk_columns (ci_key input) \<noteq> []"
    "res_map (resolve_key_column input columns mapped) (rk_columns (ci_key input)) = Inr key"
    by (auto simp: resolve_key_def split: if_splits)
  have "p \<in> set mapped" if "resolve_key_column input columns mapped k = Inr p" for k p
    using that by (auto simp: resolve_key_column_def Let_def find_Some_iff in_set_conv_nth
        split: option.splits if_splits)
  then show ?thesis
    using r res_map_nth [OF r(2)] res_map_length [OF r(2)] by (force simp: in_set_conv_nth)
qed

definition key_group :: "compare_env \<Rightarrow> mapped_index list \<Rightarrow> row \<Rightarrow> string" where
  "key_group env key row =
     (case encode_key env (map (\<lambda>p. row ! fst p) key) of Inl _ \<Rightarrow> [] | Inr s \<Rightarrow> s)"

lemma group_rows_from_keyed:
  "group_rows_from env key side i rows = Inr gs \<Longrightarrow> key \<noteq> [] \<Longrightarrow> \<forall>p\<in>set key. fst p = snd p \<Longrightarrow>
   map (\<lambda>g. (fst g, ge_row (snd g))) gs = map (\<lambda>r. (key_group env key r, r)) rows"
proof (induction rows arbitrary: i gs)
  case (Cons r rows)
  have "entry_key key side i r = map (\<lambda>p. r ! fst p) key"
    using Cons.prems by (auto simp: entry_key_def side_index_def)
  with Cons show ?case by (auto simp: res_bind_Inr_conv key_group_def)
qed simp

lemma group_of_rows:
  "map ge_row (group_of k gs) = map snd (filter (\<lambda>g. fst g = k) (map (\<lambda>g. (fst g, ge_row (snd g))) gs))"
  by (simp add: group_of_def filter_map comp_def)

text \<open>
  a comparison does not depend on the order a provider returns rows in. Comparing a
  relation with any reordering of itself, by key, with no explicit mapping and distinct column
  names, reports every row equal and nothing else, whatever the tolerances and duplicates.
\<close>

theorem reordered_relation_is_equal:
  assumes "compare env encode input = Inr out"
    and "cs_columns (ci_right input) = cs_columns (ci_left input)"
    and "distinct (map col_name (cs_columns (ci_left input)))"
    and "ci_mappings input = []" and "\<not> rk_row_ordinal (ci_key input)"
    and "mset (cs_rows (ci_right input)) = mset (cs_rows (ci_left input))"
  shows "co_equal_rows out = length (cs_rows (ci_left input)) \<and> total_diffs out = 0
    \<and> co_rows out = [] \<and> \<not> co_truncated out"
proof (rule compare_stages [OF assms(1)])
  fix columns mapped key tol lg rg out1 d
  assume cols: "resolve_columns (cs_columns (ci_left input)) (cs_columns (ci_right input))
      (ci_mappings input) = Inr (columns, mapped)"
    and key: "resolve_key input columns mapped = Inr key"
    and lg: "group_rows env (cs_rows (ci_left input)) key True = Inr lg"
    and rg: "group_rows env (cs_rows (ci_right input)) key False = Inr rg"
    and groups: "compare_groups env input mapped tol lg rg 1 (btree_order (map fst lg @ map fst rg))
       (empty_output columns) = Inr out1"
    and out: "out = out1\<lparr> co_digest := d \<rparr>"
  have ident: "\<forall>p\<in>set mapped. fst p = snd p"
    using identity_pairs cols assms(2-4) by simp
  with resolve_key_subset [OF key assms(5)] have k: "key \<noteq> []" "\<forall>p\<in>set key. fst p = snd p" by auto
  have "mset (map ge_row (group_of g lg)) = mset (map ge_row (group_of g rg))" for g
    unfolding group_of_rows group_rows_from_keyed [OF lg [unfolded group_rows_def] k]
      group_rows_from_keyed [OF rg [unfolded group_rows_def] k]
    unfolding mset_map mset_filter assms(6) ..
  from compare_groups_same [OF groups this ident, of 0]
  have "no_diffs (group_sizes lg (btree_order (map fst lg @ map fst rg))) out1"
    by (simp add: no_diffs_def total_diffs_def empty_output_def)
  then show ?thesis
    using group_rows_length [OF lg] out by (simp add: group_sizes_all no_diffs_def total_diffs_def)
qed

theorem reordered_relation_is_equal_witness:
  "\<exists>out. compare demo_env (\<lambda>_ _ _. Inr [])
            (demo_input [[VText ''a''], [VText ''b'']] [[VText ''b''], [VText ''a'']]) = Inr out
     \<and> co_equal_rows out = 2"
proof -
  obtain out where out:
    "compare demo_env (\<lambda>_ _ _. Inr [])
       (demo_input [[VText ''a''], [VText ''b'']] [[VText ''b''], [VText ''a'']]) = Inr out"
    using demo_compare2 by blast
  from reordered_relation_is_equal [OF out] out show ?thesis
    by (simp add: demo_input_def demo_dataset_def add_mset_commute)
qed

end
