(* ===== verification/Execution_Events.thy ===== *)
theory Execution_Events
  imports Interfaces Sift_Protocol
begin

text \<open>
  The execution event contract of \<^verbatim>\<open>crates/protocol/src/execution.rs\<close> and the normalizer of
  \<^verbatim>\<open>crates/server/src/execution_events.rs\<close> that turns the driver's page stream into it.

  The clock is a function of the number of times it was read, so the state counts the
  reads; the JSON size of a page is a parameter.
\<close>

section \<open>Events\<close>

datatype execution_phase =
    Queued | WaitingForConnection | Preparing | Executing | WaitingForFirstRow | Streaming
  | Spilling | Cancelling

datatype notice_severity = NoticeInformation | NoticeWarning | NoticeError

datatype native_progress_source = PostgresStatistics | SqlServerRequest

record native_progress =
  np_source :: native_progress_source
  np_basis_points :: "16 word"
  np_phase :: "string option"
  np_estimated_remaining_ms :: "u64 option"

record execution_progress =
  ep_phase :: execution_phase
  ep_elapsed_ms :: u64
  ep_statement_ordinal :: "u32 option"
  ep_statement_count :: "u32 option"
  ep_result_sets_seen :: u32
  ep_rows_received :: u64
  ep_bytes_received :: u64
  ep_native :: "native_progress option"

record result_set_summary =
  rs_result_set_id :: u64
  rs_statement_ordinal :: "u32 option"
  rs_row_count :: u64
  rs_duration_ms :: u64
  rs_warnings :: "driver_warning list"

record command_summary =
  cm_statement_ordinal :: "u32 option"
  cm_affected_rows :: "u64 option"
  cm_command_tag :: "string option"
  cm_duration_ms :: u64
  cm_warnings :: "driver_warning list"

record execution_summary =
  es_duration_ms :: u64
  es_result_set_count :: u32
  es_command_count :: u32
  es_rows_received :: u64
  es_affected_rows :: "u64 option"
  es_warning_count :: u32

datatype execution_event =
    ExecutionStarted u64 "u32 option"
  | StatementStarted u64 u32 "string option"
  | ResultSetStarted u64 u64 "u32 option" "column_metadata list"
  | EventRows u64 u64 "row list"
  | ResultSetCompleted u64 result_set_summary
  | CommandCompleted u64 command_summary
  | Notice u64 notice_severity string
  | Progress u64 execution_progress
  | ExecutionCompleted u64 execution_summary
  | EventError u64 "u32 option" "u64 option" driver_error

definition event_execution_id :: "execution_event \<Rightarrow> u64" where
  "event_execution_id e =
     (case e of
        ExecutionStarted i _ \<Rightarrow> i | StatementStarted i _ _ \<Rightarrow> i | ResultSetStarted i _ _ _ \<Rightarrow> i
      | EventRows i _ _ \<Rightarrow> i | ResultSetCompleted i _ \<Rightarrow> i | CommandCompleted i _ \<Rightarrow> i
      | Notice i _ _ \<Rightarrow> i | Progress i _ \<Rightarrow> i | ExecutionCompleted i _ \<Rightarrow> i
      | EventError i _ _ _ \<Rightarrow> i)"

datatype contract_error = NoticeTooLong | CommandTagTooLong | NativeProgressOutOfRange
  | NativePhaseTooLong

definition max_execution_notice_bytes :: nat where "max_execution_notice_bytes = 16 * 1024"
definition max_command_tag_bytes :: nat where "max_command_tag_bytes = 256"
definition max_native_progress_phase_bytes :: nat where "max_native_progress_phase_bytes = 256"

definition event_validate :: "execution_event \<Rightarrow> (contract_error, unit) result" where
  "event_validate e =
     (case e of
        CommandCompleted _ s \<Rightarrow>
          (case cm_command_tag s of
             Some tag \<Rightarrow>
               (if max_command_tag_bytes < length tag then Inl CommandTagTooLong else Inr ())
           | None \<Rightarrow> Inr ())
      | Notice _ _ message \<Rightarrow>
          (if max_execution_notice_bytes < length message then Inl NoticeTooLong else Inr ())
      | Progress _ p \<Rightarrow>
          (case ep_native p of
             Some n \<Rightarrow>
               (if 10000 < unat (np_basis_points n) then Inl NativeProgressOutOfRange
                else case np_phase n of
                  Some phase \<Rightarrow>
                    (if max_native_progress_phase_bytes < length phase
                     then Inl NativePhaseTooLong else Inr ())
                | None \<Rightarrow> Inr ())
           | None \<Rightarrow> Inr ())
      | _ \<Rightarrow> Inr ())"

section \<open>The protocol-v1 projection\<close>

datatype projection_error =
    MissingStart | MixedExecutionIds | RowsOutsideResultSet | ResultSetMismatch
  | MultipleTerminalEvents | MissingTerminalEvent | InvalidPayload

record legacy_projection =
  lp_pages :: "page list"
  lp_truncated_extra_results :: bool

text \<open>The local variables of the loop.\<close>

record projection_state =
  ps_pages :: "page list"
  ps_first_result :: "u64 option"
  ps_open_result :: "u64 option"
  ps_truncated :: bool
  ps_terminal :: bool
  ps_affected_rows :: "u64 option"
  ps_warnings :: "driver_warning list"

definition projection_start :: projection_state where
  "projection_start =
     \<lparr> ps_pages = [], ps_first_result = None, ps_open_result = None, ps_truncated = False,
       ps_terminal = False, ps_affected_rows = None, ps_warnings = [] \<rparr>"

definition project_event ::
  "projection_state \<Rightarrow> execution_event \<Rightarrow> (projection_error, projection_state) result" where
  "project_event p event =
     (case event of
        ExecutionStarted _ _ \<Rightarrow> Inl MultipleTerminalEvents
      | ResultSetStarted _ i _ columns \<Rightarrow>
          (if ps_open_result p \<noteq> None then Inl ResultSetMismatch
           else if ps_first_result p = None then
             Inr (p\<lparr> ps_open_result := Some i, ps_first_result := Some i,
                     ps_pages := ps_pages p @ [PageNextResult columns] \<rparr>)
           else Inr (p\<lparr> ps_open_result := Some i, ps_truncated := True \<rparr>))
      | EventRows _ i rows \<Rightarrow>
          (if ps_open_result p \<noteq> Some i then Inl RowsOutsideResultSet
           else if ps_first_result p = Some i
           then Inr (p\<lparr> ps_pages := ps_pages p @ [PageRows rows] \<rparr>)
           else Inr p)
      | ResultSetCompleted _ s \<Rightarrow>
          (if ps_open_result p \<noteq> Some (rs_result_set_id s) then Inl ResultSetMismatch
           else if ps_first_result p = Some (rs_result_set_id s)
           then Inr (p\<lparr> ps_open_result := None,
                        ps_pages := ps_pages p @ [PageDone None (rs_warnings s)] \<rparr>)
           else Inr (p\<lparr> ps_open_result := None \<rparr>))
      | CommandCompleted _ s \<Rightarrow>
          (if ps_first_result p = None
           then Inr (p\<lparr> ps_affected_rows := cm_affected_rows s,
                        ps_warnings := ps_warnings p @ cm_warnings s \<rparr>)
           else Inr p)
      | ExecutionCompleted _ _ \<Rightarrow>
          (if ps_open_result p \<noteq> None then Inl ResultSetMismatch
           else if ps_first_result p = None
           then Inr (p\<lparr> ps_pages := ps_pages p @ [PageDone (ps_affected_rows p) (ps_warnings p)],
                        ps_warnings := [], ps_terminal := True \<rparr>)
           else Inr (p\<lparr> ps_terminal := True \<rparr>))
      | EventError _ _ _ error \<Rightarrow>
          Inr (p\<lparr> ps_pages := ps_pages p @ [PageError error], ps_terminal := True \<rparr>)
      | _ \<Rightarrow> Inr p)"

definition project_step ::
  "u64 \<Rightarrow> projection_state \<Rightarrow> execution_event \<Rightarrow> (projection_error, projection_state) result" where
  "project_step execution_id p event =
     (if event_validate event \<noteq> Inr () then Inl InvalidPayload
      else if event_execution_id event \<noteq> execution_id then Inl MixedExecutionIds
      else if ps_terminal p then Inl MultipleTerminalEvents
      else project_event p event)"

definition project_legacy_first_result ::
  "execution_event list \<Rightarrow> (projection_error, legacy_projection) result" where
  "project_legacy_first_result events =
     (case events of
        ExecutionStarted execution_id _ # rest \<Rightarrow>
          res_bind (accept_run (project_step execution_id) projection_start rest) (\<lambda>p.
            if \<not> ps_terminal p then Inl MissingTerminalEvent
            else Inr \<lparr> lp_pages = ps_pages p, lp_truncated_extra_results = ps_truncated p \<rparr>)
      | _ \<Rightarrow> Inl MissingStart)"

section \<open>The normalizer\<close>

definition progress_interval :: duration where
  "progress_interval = 250 * 10 ^ 6"

record normalizer_env =
  ne_clock :: "nat \<Rightarrow> instant"          \<comment> \<open>the k-th reading of \<^verbatim>\<open>Instant::now\<close>\<close>
  ne_json_len :: "page \<Rightarrow> nat option"    \<comment> \<open>\<^verbatim>\<open>serde_json::to_vec(..).ok()\<close> and its length\<close>

record normalizer =
  en_execution_id :: u64
  en_started_at :: instant
  en_result_started_at :: "instant option"
  en_open_result :: "u64 option"
  en_next_result_ordinal :: u64
  en_result_set_count :: u32
  en_command_count :: u32
  en_rows_received :: u64
  en_bytes_received :: u64
  en_current_result_rows :: u64
  en_affected_rows :: "u64 option"
  en_warning_count :: u32
  en_started_sent :: bool
  en_terminal_sent :: bool
  en_last_progress_at :: "instant option"
  en_reads :: nat

definition normalizer_new :: "normalizer_env \<Rightarrow> u64 \<Rightarrow> normalizer" where
  "normalizer_new env execution_id =
     \<lparr> en_execution_id = execution_id, en_started_at = ne_clock env 0,
       en_result_started_at = None, en_open_result = None, en_next_result_ordinal = 0,
       en_result_set_count = 0, en_command_count = 0, en_rows_received = 0,
       en_bytes_received = 0, en_current_result_rows = 0, en_affected_rows = None,
       en_warning_count = 0, en_started_sent = False, en_terminal_sent = False,
       en_last_progress_at = None, en_reads = Suc 0 \<rparr>"

definition instant_now :: "normalizer_env \<Rightarrow> normalizer \<Rightarrow> instant \<times> normalizer" where
  "instant_now env s = (ne_clock env (en_reads s), s\<lparr> en_reads := Suc (en_reads s) \<rparr>)"

definition elapsed_ms :: "normalizer_env \<Rightarrow> instant \<Rightarrow> normalizer \<Rightarrow> u64 \<times> normalizer" where
  "elapsed_ms env started s =
     (case instant_now env s of
        (now, s) \<Rightarrow> (sat_of_nat (as_millis (duration_since now started)), s))"

definition sum_optional :: "u64 option \<Rightarrow> u64 option \<Rightarrow> u64 option" where
  "sum_optional l r =
     (if l = None \<and> r = None then None
      else Some (sat_add (case l of Some x \<Rightarrow> x | None \<Rightarrow> 0) (case r of Some x \<Rightarrow> x | None \<Rightarrow> 0)))"

definition send_started :: "normalizer \<Rightarrow> normalizer \<times> execution_event list" where
  "send_started s =
     (if en_started_sent s then (s, [])
      else (s\<lparr> en_started_sent := True \<rparr>, [ExecutionStarted (en_execution_id s) None]))"

definition progress_due :: "instant \<Rightarrow> normalizer \<Rightarrow> bool" where
  "progress_due now s =
     (case en_last_progress_at s of
        Some before \<Rightarrow> \<not> duration_since now before < progress_interval | None \<Rightarrow> True)"

definition progress_event ::
  "execution_phase \<Rightarrow> native_progress option \<Rightarrow> u64 \<Rightarrow> normalizer \<Rightarrow> execution_event" where
  "progress_event phase native elapsed s =
     Progress (en_execution_id s)
       \<lparr> ep_phase = phase, ep_elapsed_ms = elapsed, ep_statement_ordinal = None,
         ep_statement_count = None, ep_result_sets_seen = en_result_set_count s,
         ep_rows_received = en_rows_received s, ep_bytes_received = en_bytes_received s,
         ep_native = native \<rparr>"

definition push_progress ::
  "normalizer_env \<Rightarrow> execution_phase \<Rightarrow> normalizer \<Rightarrow> normalizer \<times> execution_event list" where
  "push_progress env phase s =
     (let (now, s) = instant_now env s
      in if \<not> progress_due now s then (s, [])
         else
           (let s = s\<lparr> en_last_progress_at := Some now \<rparr>;
                (elapsed, s) = elapsed_ms env (en_started_at s) s
            in (s, [progress_event phase None elapsed s])))"

definition complete_open_result ::
  "normalizer_env \<Rightarrow> driver_warning list \<Rightarrow> normalizer \<Rightarrow> normalizer \<times> execution_event list" where
  "complete_open_result env warnings s =
     (case en_open_result s of
        None \<Rightarrow> (s, [])
      | Some i \<Rightarrow>
          (let started = en_result_started_at s;
               s = s\<lparr> en_open_result := None, en_result_started_at := None \<rparr>;
               (duration, s) = (case started of None \<Rightarrow> (0, s) | Some t \<Rightarrow> elapsed_ms env t s)
           in (s, [ResultSetCompleted (en_execution_id s)
                     \<lparr> rs_result_set_id = i, rs_statement_ordinal = None,
                       rs_row_count = en_current_result_rows s, rs_duration_ms = duration,
                       rs_warnings = warnings \<rparr>])))"

definition on_next_result ::
  "normalizer_env \<Rightarrow> column_metadata list \<Rightarrow> normalizer \<Rightarrow> normalizer \<times> execution_event list" where
  "on_next_result env columns s =
     (let (s, closed) = complete_open_result env [] s;
          i = en_next_result_ordinal s;
          (now, s) = instant_now env s;
          s = s\<lparr> en_next_result_ordinal := sat_add i 1,
                 en_result_set_count := sat_add (en_result_set_count s) 1,
                 en_open_result := Some i, en_current_result_rows := 0,
                 en_result_started_at := Some now \<rparr>;
          (s', progress) = push_progress env WaitingForFirstRow s
      in (s', closed @ [ResultSetStarted (en_execution_id s) i None columns] @ progress))"

definition on_rows ::
  "normalizer_env \<Rightarrow> row list \<Rightarrow> normalizer \<Rightarrow> normalizer \<times> execution_event list" where
  "on_rows env rows s =
     (case en_open_result s of
        None \<Rightarrow> (s, [])
      | Some i \<Rightarrow>
          (let s = s\<lparr> en_rows_received := sat_add (en_rows_received s) (sat_of_nat (length rows)),
                      en_current_result_rows :=
                        sat_add (en_current_result_rows s) (sat_of_nat (length rows)) \<rparr>;
               (s', progress) = push_progress env Streaming s
           in (s', [EventRows (en_execution_id s) i rows] @ progress)))"

definition on_done ::
  "normalizer_env \<Rightarrow> u64 option \<Rightarrow> driver_warning list \<Rightarrow> normalizer \<Rightarrow>
   normalizer \<times> execution_event list" where
  "on_done env affected warnings s =
     (let s = s\<lparr> en_warning_count := sat_add (en_warning_count s) (sat_of_nat (length warnings)) \<rparr>;
          (s, closed) =
            (if en_open_result s \<noteq> None then complete_open_result env warnings s
             else
               (let s = s\<lparr> en_command_count := sat_add (en_command_count s) 1,
                           en_affected_rows := sum_optional (en_affected_rows s) affected \<rparr>;
                    (duration, s) = elapsed_ms env (en_started_at s) s
                in (s, [CommandCompleted (en_execution_id s)
                          \<lparr> cm_statement_ordinal = None, cm_affected_rows = affected,
                            cm_command_tag = None, cm_duration_ms = duration,
                            cm_warnings = warnings \<rparr>])));
          (duration, s) = elapsed_ms env (en_started_at s) s
      in (s\<lparr> en_terminal_sent := True \<rparr>,
          closed @
          [ExecutionCompleted (en_execution_id s)
             \<lparr> es_duration_ms = duration, es_result_set_count = en_result_set_count s,
               es_command_count = en_command_count s, es_rows_received = en_rows_received s,
               es_affected_rows = en_affected_rows s, es_warning_count = en_warning_count s \<rparr>]))"

definition on_error ::
  "driver_error \<Rightarrow> normalizer \<Rightarrow> normalizer \<times> execution_event list" where
  "on_error error s =
     (s\<lparr> en_terminal_sent := True \<rparr>,
      [EventError (en_execution_id s) None (en_open_result s) error])"

definition on_page ::
  "normalizer_env \<Rightarrow> page \<Rightarrow> normalizer \<Rightarrow> normalizer \<times> execution_event list" where
  "on_page env page s =
     (case page of
        PageNextResult columns \<Rightarrow> on_next_result env columns s
      | PageRows rows \<Rightarrow> on_rows env rows s
      | PageDone affected warnings \<Rightarrow> on_done env affected warnings s
      | PageError error \<Rightarrow> on_error error s)"

definition events_for_page ::
  "normalizer_env \<Rightarrow> normalizer \<Rightarrow> page \<Rightarrow> normalizer \<times> execution_event list" where
  "events_for_page env s page =
     (if en_terminal_sent s then (s, [])
      else
        (let bytes = (case ne_json_len env page of
                        Some n \<Rightarrow> if n < 2 ^ 64 then of_nat n else 0 | None \<Rightarrow> 0);
             s = s\<lparr> en_bytes_received := sat_add (en_bytes_received s) bytes \<rparr>;
             (s, started) = send_started s;
             (s, events) = on_page env page s
         in (s, started @ events)))"

definition events_for_native ::
  "normalizer_env \<Rightarrow> normalizer \<Rightarrow> native_progress \<Rightarrow> normalizer \<times> execution_event list" where
  "events_for_native env s native =
     (if en_terminal_sent s \<or> 10000 < unat (np_basis_points native)
         \<or> (case np_phase native of
              Some phase \<Rightarrow> max_native_progress_phase_bytes < length phase | None \<Rightarrow> False)
      then (s, [])
      else
        (let (now, s) = instant_now env s
         in if \<not> progress_due now s then (s, [])
            else
              (let (s, started) = send_started s;
                   s = s\<lparr> en_last_progress_at := Some now \<rparr>;
                   (elapsed, s) = elapsed_ms env (en_started_at s) s
               in (s, started @ [progress_event Executing (Some native) elapsed s]))))"

text \<open>What the server feeds the normalizer: the driver's pages and its telemetry samples.\<close>

datatype normalizer_input = InputPage page | InputNative native_progress

definition normalizer_step ::
  "normalizer_env \<Rightarrow> normalizer \<Rightarrow> normalizer_input \<Rightarrow> normalizer \<times> execution_event list" where
  "normalizer_step env s i =
     (case i of InputPage page \<Rightarrow> events_for_page env s page
              | InputNative native \<Rightarrow> events_for_native env s native)"

definition normalize ::
  "normalizer_env \<Rightarrow> u64 \<Rightarrow> normalizer_input list \<Rightarrow> execution_event list" where
  "normalize env execution_id inputs =
     snd (machine_run (normalizer_step env) (normalizer_new env execution_id) inputs)"

section \<open>What a legacy client should see\<close>

text \<open>
  The projection of a driver's page stream, stated on the pages alone: the first result set
  with its rows and the end of the batch, and whether another result set was dropped.
\<close>

datatype view_phase = ViewBefore | ViewFirst | ViewAfter | ViewEnded

record legacy_view =
  lv_pages :: "page list"
  lv_phase :: view_phase
  lv_truncated :: bool

definition view_start :: legacy_view where
  "view_start = \<lparr> lv_pages = [], lv_phase = ViewBefore, lv_truncated = False \<rparr>"

definition view_page :: "legacy_view \<Rightarrow> page \<Rightarrow> legacy_view" where
  "view_page v page =
     (let push = (\<lambda>pg ph. v\<lparr> lv_pages := lv_pages v @ [pg], lv_phase := ph \<rparr>) in
      case lv_phase v of
        ViewBefore \<Rightarrow>
          (case page of
             PageNextResult _ \<Rightarrow> push page ViewFirst
           | PageRows _ \<Rightarrow> v
           | _ \<Rightarrow> push page ViewEnded)
      | ViewFirst \<Rightarrow>
          (case page of
             PageNextResult _ \<Rightarrow> (push (PageDone None []) ViewAfter)\<lparr> lv_truncated := True \<rparr>
           | PageRows _ \<Rightarrow> push page ViewFirst
           | PageDone _ warnings \<Rightarrow> push (PageDone None warnings) ViewEnded
           | PageError _ \<Rightarrow> push page ViewEnded)
      | ViewAfter \<Rightarrow>
          (case page of
             PageError _ \<Rightarrow> push page ViewEnded
           | PageDone _ _ \<Rightarrow> v\<lparr> lv_phase := ViewEnded \<rparr>
           | _ \<Rightarrow> v)
      | ViewEnded \<Rightarrow> v)"

definition view_step :: "legacy_view \<Rightarrow> normalizer_input \<Rightarrow> legacy_view" where
  "view_step v i = (case i of InputPage page \<Rightarrow> view_page v page | InputNative _ \<Rightarrow> v)"

definition legacy_view_of :: "normalizer_input list \<Rightarrow> legacy_view" where
  "legacy_view_of inputs = foldl view_step view_start inputs"

section \<open>Shapes of the normalizer's output\<close>

lemma elapsed_ms_eq:
  "elapsed_ms env t s =
     (sat_of_nat (as_millis (duration_since (ne_clock env (en_reads s)) t)),
      s\<lparr> en_reads := Suc (en_reads s) \<rparr>)"
  by (simp add: elapsed_ms_def instant_now_def)

lemma progress_due_update [simp]:
  "progress_due t (s\<lparr> en_reads := r \<rparr>) = progress_due t s"
  by (simp add: progress_due_def)

lemma progress_event_update [simp]:
  "progress_event ph n d (s\<lparr> en_reads := r \<rparr>) = progress_event ph n d s"
  "progress_event ph n d (s\<lparr> en_last_progress_at := l \<rparr>) = progress_event ph n d s"
  by (simp_all add: progress_event_def)

lemma push_progress_eq:
  "push_progress env phase s =
     (if progress_due (ne_clock env (en_reads s)) s
      then (s\<lparr> en_reads := Suc (Suc (en_reads s)),
              en_last_progress_at := Some (ne_clock env (en_reads s)) \<rparr>,
            [progress_event phase None
               (sat_of_nat (as_millis (duration_since (ne_clock env (Suc (en_reads s)))
                  (en_started_at s)))) s])
      else (s\<lparr> en_reads := Suc (en_reads s) \<rparr>, []))"
  by (simp add: push_progress_def instant_now_def elapsed_ms_eq)

lemma push_progress_cases:
  obtains (quiet) r where "push_progress env phase s = (s\<lparr> en_reads := r \<rparr>, [])"
  | (report) r l d where "push_progress env phase s =
      (s\<lparr> en_reads := r, en_last_progress_at := l \<rparr>, [progress_event phase None d s])"
proof (cases "progress_due (ne_clock env (en_reads s)) s")
  case True
  show thesis by (rule report) (simp add: push_progress_eq True)
next
  case False
  show thesis by (rule quiet) (simp add: push_progress_eq False)
qed

lemma complete_open_result_cases:
  obtains (none) "en_open_result s = None" "complete_open_result env ws s = (s, [])"
  | (closed) i r d where "en_open_result s = Some i"
      "complete_open_result env ws s =
         (s\<lparr> en_open_result := None, en_result_started_at := None, en_reads := r \<rparr>,
          [ResultSetCompleted (en_execution_id s)
             \<lparr> rs_result_set_id = i, rs_statement_ordinal = None,
               rs_row_count = en_current_result_rows s, rs_duration_ms = d, rs_warnings = ws \<rparr>])"
proof (cases "en_open_result s")
  case None
  with none show thesis by (simp add: complete_open_result_def)
next
  case (Some i)
  show thesis
  proof (cases "en_result_started_at s")
    case None
    show thesis
      by (rule closed [OF Some, where r = "en_reads s" and d = 0])
        (simp add: complete_open_result_def Some None)
  next
    case (Some t)
    show thesis
      by (rule closed [OF \<open>en_open_result s = Some i\<close>])
        (simp add: complete_open_result_def elapsed_ms_eq Some \<open>en_open_result s = Some i\<close>)
  qed
qed

section \<open>The normalizer against the projection\<close>

text \<open>The projection as a consumer that starts before the first event.\<close>

definition project_accept ::
  "u64 \<Rightarrow> projection_state option \<Rightarrow> execution_event \<Rightarrow>
   (projection_error, projection_state option) result" where
  "project_accept execution_id p event =
     (case p of
        None \<Rightarrow>
          (case event of
             ExecutionStarted i _ \<Rightarrow>
               (if i = execution_id then Inr (Some projection_start) else Inl MissingStart)
           | _ \<Rightarrow> Inl MissingStart)
      | Some p \<Rightarrow>
          (case project_step execution_id p event of Inl e \<Rightarrow> Inl e | Inr p \<Rightarrow> Inr (Some p)))"

lemma accept_started:
  "accept_run (project_accept i) (Some p) es = Inr q \<Longrightarrow>
   \<exists>p'. q = Some p' \<and> accept_run (project_step i) p es = Inr p'"
proof (induction es arbitrary: p)
  case (Cons e es)
  then obtain p1 where "project_step i p e = Inr p1"
    by (auto simp: project_accept_def split: sum.splits)
  with Cons show ?case by (simp add: project_accept_def)
qed simp

lemma accept_projection:
  assumes "accept_run (project_accept i) None es = Inr (Some p)" and "ps_terminal p"
  shows "project_legacy_first_result es =
     Inr \<lparr> lp_pages = ps_pages p, lp_truncated_extra_results = ps_truncated p \<rparr>"
proof (cases es)
  case Nil
  with assms show ?thesis by simp
next
  case (Cons e rest)
  with assms(1) obtain n where e: "e = ExecutionStarted i n"
    and rest: "accept_run (project_accept i) (Some projection_start) rest = Inr (Some p)"
    by (cases e) (auto simp: project_accept_def split: if_splits)
  from accept_started [OF rest] assms(2) show ?thesis
    by (simp add: Cons e project_legacy_first_result_def)
qed

lemma accept_progress:
  assumes "\<not> ps_terminal p"
    and "\<And>n. native = Some n \<Longrightarrow> unat (np_basis_points n) \<le> 10000 \<and>
           (\<forall>ph. np_phase n = Some ph \<longrightarrow> length ph \<le> max_native_progress_phase_bytes)"
  shows "project_step (en_execution_id s) p (progress_event phase native d s) = Inr p"
  using assms
  by (auto simp: project_step_def progress_event_def event_validate_def event_execution_id_def
      project_event_def split: option.splits)

text \<open>The three views of the inputs so far agree.\<close>

definition view_phase_ok :: "view_phase \<Rightarrow> normalizer \<Rightarrow> projection_state \<Rightarrow> bool" where
  "view_phase_ok ph s p =
     (case ph of
        ViewBefore \<Rightarrow> ps_first_result p = None \<and> en_open_result s = None
          \<and> en_next_result_ordinal s = 0
      | ViewFirst \<Rightarrow> ps_first_result p = Some 0 \<and> en_open_result s = Some 0
          \<and> en_next_result_ordinal s \<noteq> 0
      | ViewAfter \<Rightarrow> ps_first_result p = Some 0 \<and> en_next_result_ordinal s \<noteq> 0 \<and> ps_truncated p
          \<and> (\<exists>i. i \<noteq> 0 \<and> en_open_result s = Some i)
      | ViewEnded \<Rightarrow> True)"

definition views_agree ::
  "u64 \<Rightarrow> legacy_view \<Rightarrow> normalizer \<Rightarrow> projection_state option \<Rightarrow> bool" where
  "views_agree i v s op =
     (en_execution_id s = i \<and>
      (case op of
         None \<Rightarrow> \<not> en_started_sent s \<and> \<not> en_terminal_sent s \<and> v = view_start
           \<and> en_open_result s = None \<and> en_next_result_ordinal s = 0
       | Some p \<Rightarrow> en_started_sent s \<and> ps_pages p = lv_pages v \<and> ps_truncated p = lv_truncated v
           \<and> (ps_terminal p \<longleftrightarrow> en_terminal_sent s) \<and> (lv_phase v = ViewEnded \<longleftrightarrow> en_terminal_sent s)
           \<and> (\<not> en_terminal_sent s \<longrightarrow> ps_open_result p = en_open_result s
                \<and> ps_affected_rows p = None \<and> ps_warnings p = [])
           \<and> view_phase_ok (lv_phase v) s p))"

lemma views_agree_update [simp]:
  "views_agree i v (s\<lparr> en_reads := r \<rparr>) op = views_agree i v s op"
  "views_agree i v (s\<lparr> en_last_progress_at := l \<rparr>) op = views_agree i v s op"
  "views_agree i v (s\<lparr> en_bytes_received := b \<rparr>) op = views_agree i v s op"
  "views_agree i v (s\<lparr> en_rows_received := n \<rparr>) op = views_agree i v s op"
  "views_agree i v (s\<lparr> en_current_result_rows := n \<rparr>) op = views_agree i v s op"
  by (auto simp: views_agree_def view_phase_ok_def split: option.splits view_phase.splits)

lemma accept_lift:
  "accept_run (project_step i) p es = Inr p' \<Longrightarrow>
   accept_run (project_accept i) (Some p) es = Inr (Some p')"
  by (induction es arbitrary: p) (auto simp: project_accept_def res_bind_Inr_conv)

lemma started_agrees:
  assumes "views_agree i v s op" and "\<not> en_terminal_sent s"
  obtains p where "accept_run (project_accept i) op (snd (send_started s)) = Inr (Some p)"
    "views_agree i v (fst (send_started s)) (Some p)" "\<not> en_terminal_sent (fst (send_started s))"
proof (cases op)
  case None
  with assms that [of projection_start] show thesis
    by (simp add: views_agree_def send_started_def project_accept_def view_start_def
        projection_start_def view_phase_ok_def)
next
  case (Some p)
  with assms that [of p] show thesis
    by (simp add: views_agree_def send_started_def)
qed

lemma push_agrees:
  assumes "views_agree i v s (Some p)" and "\<not> en_terminal_sent s"
  shows "accept_run (project_step i) p (snd (push_progress env ph s)) = Inr p
    \<and> views_agree i v (fst (push_progress env ph s)) (Some p)"
proof -
  have "\<not> ps_terminal p" and id: "en_execution_id s = i"
    using assms by (simp_all add: views_agree_def)
  then have "project_step i p (progress_event ph None d s) = Inr p" for d
    using accept_progress [of p None s ph d] by simp
  then show ?thesis using assms(1) by (cases rule: push_progress_cases [of env ph s]) simp_all
qed

lemmas project_simps = project_step_def event_validate_def event_execution_id_def project_event_def

lemma sat_add_one_pos: "sat_add x 1 \<noteq> (0 :: u64)"
proof
  assume "sat_add x 1 = (0 :: u64)"
  then have "unat (sat_add x 1 :: u64) = 0" by simp
  then show False by (simp add: unat_sat_add)
qed

lemma next_result_agrees:
  assumes "views_agree i v s (Some p)" and "\<not> en_terminal_sent s"
  shows "\<exists>p'. accept_run (project_step i) p (snd (on_next_result env columns s)) = Inr p'
    \<and> views_agree i (view_page v (PageNextResult columns)) (fst (on_next_result env columns s)) (Some p')"
proof -
  obtain sc closed where c: "complete_open_result env [] s = (sc, closed)" by fastforce
  define sn where "sn = sc\<lparr> en_reads := Suc (en_reads sc),
      en_next_result_ordinal := sat_add (en_next_result_ordinal sc) 1,
      en_result_set_count := sat_add (en_result_set_count sc) 1,
      en_open_result := Some (en_next_result_ordinal sc), en_current_result_rows := 0,
      en_result_started_at := Some (ne_clock env (en_reads sc)) \<rparr>"
  have ev: "snd (on_next_result env columns s) = closed
      @ ResultSetStarted (en_execution_id sn) (en_next_result_ordinal sc) None columns
        # snd (push_progress env WaitingForFirstRow sn)"
    and st: "fst (on_next_result env columns s) = fst (push_progress env WaitingForFirstRow sn)"
    by (simp_all add: on_next_result_def c instant_now_def Let_def sn_def split: prod.splits)
  obtain p' where p': "accept_run (project_step i) p (closed
      @ [ResultSetStarted (en_execution_id sn) (en_next_result_ordinal sc) None columns]) = Inr p'"
    and agree: "views_agree i (view_page v (PageNextResult columns)) sn (Some p')"
  proof (cases rule: complete_open_result_cases [of s env "[]"])
    case none
    with assms have "lv_phase v = ViewBefore"
      by (cases "lv_phase v") (auto simp: views_agree_def view_phase_ok_def)
    with none c assms show thesis
      by (intro that [of "p\<lparr> ps_open_result := Some 0, ps_first_result := Some 0,
            ps_pages := ps_pages p @ [PageNextResult columns] \<rparr>"])
        (simp_all add: views_agree_def view_phase_ok_def sn_def project_simps view_page_def
          sat_add_one_pos)
  next
    case (closed j r d)
    with assms consider "lv_phase v = ViewFirst" | "lv_phase v = ViewAfter"
      by (cases "lv_phase v") (auto simp: views_agree_def view_phase_ok_def)
    then show thesis
    proof cases
      case 1
      with closed c assms show thesis
        by (intro that [of "p\<lparr> ps_open_result := Some (en_next_result_ordinal s), ps_truncated := True,
              ps_pages := ps_pages p @ [PageDone None []] \<rparr>"])
          (auto simp: views_agree_def view_phase_ok_def sn_def project_simps view_page_def
            sat_add_one_pos)
    next
      case 2
      with closed c assms show thesis
        by (intro that [of "p\<lparr> ps_open_result := Some (en_next_result_ordinal s), ps_truncated := True \<rparr>"])
          (auto simp: views_agree_def view_phase_ok_def sn_def project_simps view_page_def
            sat_add_one_pos)
    qed
  qed
  have "\<not> en_terminal_sent sn"
    using assms(2) c by (cases rule: complete_open_result_cases [of s env "[]"]) (auto simp: sn_def)
  from push_agrees [OF agree this, of env WaitingForFirstRow] p' show ?thesis
    by (auto simp: ev st accept_run_append res_bind_Inr_conv)
qed

lemma rows_agrees:
  assumes "views_agree i v s (Some p)" and "\<not> en_terminal_sent s"
  shows "\<exists>p'. accept_run (project_step i) p (snd (on_rows env rows s)) = Inr p'
    \<and> views_agree i (view_page v (PageRows rows)) (fst (on_rows env rows s)) (Some p')"
proof (cases "en_open_result s")
  case None
  with assms have "lv_phase v = ViewBefore"
    by (cases "lv_phase v") (auto simp: views_agree_def view_phase_ok_def)
  with None assms show ?thesis by (simp add: on_rows_def view_page_def)
next
  case (Some j)
  define sn where "sn = s\<lparr> en_rows_received := sat_add (en_rows_received s) (sat_of_nat (length rows)),
      en_current_result_rows := sat_add (en_current_result_rows s) (sat_of_nat (length rows)) \<rparr>"
  have ev: "snd (on_rows env rows s) = EventRows (en_execution_id sn) j rows
        # snd (push_progress env Streaming sn)"
    and st: "fst (on_rows env rows s) = fst (push_progress env Streaming sn)"
    by (simp_all add: on_rows_def Some Let_def sn_def split: prod.splits)
  from assms Some consider "lv_phase v = ViewFirst" | "lv_phase v = ViewAfter"
    by (cases "lv_phase v") (auto simp: views_agree_def view_phase_ok_def)
  then obtain p' where p': "project_step i p (EventRows (en_execution_id sn) j rows) = Inr p'"
    and agree: "views_agree i (view_page v (PageRows rows)) sn (Some p')"
  proof cases
    case 1
    with Some assms show thesis
      by (intro that [of "p\<lparr> ps_pages := ps_pages p @ [PageRows rows] \<rparr>"])
        (auto simp: views_agree_def view_phase_ok_def sn_def project_simps view_page_def)
  next
    case 2
    with Some assms show thesis
      by (intro that [of p])
        (auto simp: views_agree_def view_phase_ok_def sn_def project_simps view_page_def)
  qed
  have "\<not> en_terminal_sent sn" using assms(2) by (simp add: sn_def)
  from push_agrees [OF agree this, of env Streaming] p' show ?thesis
    by (auto simp: ev st)
qed

lemma error_agrees:
  assumes "views_agree i v s (Some p)" and "\<not> en_terminal_sent s"
  shows "\<exists>p'. accept_run (project_step i) p (snd (on_error e s)) = Inr p'
    \<and> views_agree i (view_page v (PageError e)) (fst (on_error e s)) (Some p')"
  using assms
  by (cases "lv_phase v")
    (auto simp: views_agree_def view_phase_ok_def on_error_def project_simps view_page_def)

lemma done_agrees:
  assumes "views_agree i v s (Some p)" and "\<not> en_terminal_sent s"
  shows "\<exists>p'. accept_run (project_step i) p (snd (on_done env a ws s)) = Inr p'
    \<and> views_agree i (view_page v (PageDone a ws)) (fst (on_done env a ws s)) (Some p')"
proof (cases "en_open_result s")
  case None
  with assms have "lv_phase v = ViewBefore"
    by (cases "lv_phase v") (auto simp: views_agree_def view_phase_ok_def)
  with None assms show ?thesis
    by (auto simp: on_done_def elapsed_ms_eq views_agree_def view_phase_ok_def project_simps
        view_page_def)
next
  case (Some j)
  define sn where "sn = s\<lparr> en_warning_count := sat_add (en_warning_count s) (sat_of_nat (length ws)) \<rparr>"
  have open_sn: "en_open_result sn = Some j" by (simp add: sn_def Some)
  obtain r d where c: "complete_open_result env ws sn =
      (sn\<lparr> en_open_result := None, en_result_started_at := None, en_reads := r \<rparr>,
       [ResultSetCompleted (en_execution_id sn)
          \<lparr> rs_result_set_id = j, rs_statement_ordinal = None,
            rs_row_count = en_current_result_rows sn, rs_duration_ms = d, rs_warnings = ws \<rparr>])"
    using open_sn by (cases rule: complete_open_result_cases [of sn env ws]) auto
  from assms Some consider "lv_phase v = ViewFirst" | "lv_phase v = ViewAfter"
    by (cases "lv_phase v") (auto simp: views_agree_def view_phase_ok_def)
  then show ?thesis
    using assms Some c open_sn
    by cases
      (auto simp: on_done_def sn_def [symmetric] elapsed_ms_eq views_agree_def view_phase_ok_def
        project_simps view_page_def, auto simp: sn_def)
qed

lemma normalizer_step_agrees:
  assumes agree: "views_agree i v s op" and st: "normalizer_step env s x = (s', os)"
  shows "\<exists>op'. accept_run (project_accept i) op os = Inr op' \<and> views_agree i (view_step v x) s' op'"
proof (cases "en_terminal_sent s")
  case True
  with agree have "view_step v x = v"
    by (cases x) (auto simp: views_agree_def view_step_def view_page_def split: option.splits)
  with True agree st show ?thesis
    by (auto simp: normalizer_step_def events_for_page_def events_for_native_def
        split: normalizer_input.splits)
next
  case False
  show ?thesis
  proof (cases x)
    case (InputPage page)
    define sb where "sb = s\<lparr> en_bytes_received := sat_add (en_bytes_received s)
        (case ne_json_len env page of Some n \<Rightarrow> if n < 2 ^ 64 then of_nat n else 0 | None \<Rightarrow> 0) \<rparr>"
    have sb: "views_agree i v sb op" "\<not> en_terminal_sent sb" using agree False by (simp_all add: sb_def)
    obtain s1 started where ss: "send_started sb = (s1, started)" by fastforce
    obtain p where p: "accept_run (project_accept i) op started = Inr (Some p)"
      "views_agree i v s1 (Some p)" "\<not> en_terminal_sent s1"
      using started_agrees [OF sb] ss by auto
    define r where "r = on_page env page s1"
    have "s' = fst r" "os = started @ snd r"
      using st False ss
      by (auto simp: normalizer_step_def InputPage events_for_page_def sb_def r_def Let_def
          split: prod.splits)
    moreover have "\<exists>p'. accept_run (project_step i) p (snd r) = Inr p'
        \<and> views_agree i (view_page v page) (fst r) (Some p')"
      using next_result_agrees [OF p(2,3)] rows_agrees [OF p(2,3)] done_agrees [OF p(2,3)]
        error_agrees [OF p(2,3)] by (cases page) (simp_all add: r_def on_page_def)
    ultimately show ?thesis
      using p(1) by (auto simp: accept_run_append view_step_def InputPage dest!: accept_lift)
  next
    case (InputNative n)
    let ?ok = "unat (np_basis_points n) \<le> 10000 \<and>
        (\<forall>ph. np_phase n = Some ph \<longrightarrow> length ph \<le> max_native_progress_phase_bytes)"
    show ?thesis
    proof (cases "?ok \<and> progress_due (ne_clock env (en_reads s)) s")
      case False
      then have "os = [] \<and> (s' = s \<or> s' = s\<lparr> en_reads := Suc (en_reads s) \<rparr>)"
        using st by (auto simp: normalizer_step_def InputNative events_for_native_def instant_now_def
            split: option.splits if_splits)
      with agree show ?thesis by (auto simp: view_step_def InputNative)
    next
      case True
      define sr where "sr = s\<lparr> en_reads := Suc (en_reads s) \<rparr>"
      obtain s1 started where ss: "send_started sr = (s1, started)" by fastforce
      have sr: "views_agree i v sr op" "\<not> en_terminal_sent sr"
        using agree \<open>\<not> en_terminal_sent s\<close> by (simp_all add: sr_def)
      obtain p where p: "accept_run (project_accept i) op started = Inr (Some p)"
        "views_agree i v s1 (Some p)" "\<not> en_terminal_sent s1"
        using started_agrees [OF sr] ss by auto
      have "progress_due (ne_clock env (en_reads s)) sr" using True by (simp add: sr_def)
      then obtain r l d where "os = started @ [progress_event Executing (Some n) d s1]"
        "s' = s1\<lparr> en_last_progress_at := l, en_reads := r \<rparr>"
        using st True ss \<open>\<not> en_terminal_sent s\<close>
        by (auto simp: normalizer_step_def InputNative events_for_native_def instant_now_def
            elapsed_ms_eq sr_def [symmetric] split: option.splits if_splits)
      moreover have "project_step i p (progress_event Executing (Some n) d s1) = Inr p"
        using accept_progress [of p "Some n" s1 Executing d] True p by (simp add: views_agree_def)
      ultimately show ?thesis
        using p by (auto simp: accept_run_append project_accept_def view_step_def InputNative)
    qed
  qed
qed

interpretation normalizer_projection:
  producer_consumer "normalizer_step env" "project_accept i" view_step "views_agree i" for env i
  by unfold_locales (rule normalizer_step_agrees)

lemma view_ended_stays: "lv_phase v = ViewEnded \<Longrightarrow> foldl view_step v xs = v"
  by (induction xs) (auto simp: view_step_def view_page_def split: normalizer_input.splits)

definition terminal_input :: "normalizer_input \<Rightarrow> bool" where
  "terminal_input x =
     (case x of InputPage (PageDone _ _) \<Rightarrow> True | InputPage (PageError _) \<Rightarrow> True | _ \<Rightarrow> False)"

lemma terminal_ends: "terminal_input x \<Longrightarrow> lv_phase (view_step v x) = ViewEnded"
  by (cases "lv_phase v")
    (auto simp: terminal_input_def view_step_def view_page_def
      split: normalizer_input.splits page.splits)

lemma view_ends: "\<exists>x\<in>set xs. terminal_input x \<Longrightarrow> lv_phase (foldl view_step v xs) = ViewEnded"
proof (induction xs arbitrary: v)
  case (Cons x xs)
  then show ?case using view_ended_stays [OF terminal_ends [of x v], of xs] terminal_ends [of x v]
    by (cases "terminal_input x") auto
qed simp


definition demo_normalizer_env :: normalizer_env where
  "demo_normalizer_env = \<lparr> ne_clock = (\<lambda>k. k), ne_json_len = (\<lambda>p. Some 7) \<rparr>"


section \<open>Every event is identified and within its wire bounds\<close>

definition native_ok :: "native_progress option \<Rightarrow> bool" where
  "native_ok native =
     (case native of
        None \<Rightarrow> True
      | Some n \<Rightarrow> unat (np_basis_points n) \<le> 10000 \<and>
          (case np_phase n of
             Some ph \<Rightarrow> length ph \<le> max_native_progress_phase_bytes | None \<Rightarrow> True))"

definition event_ok :: "u64 \<Rightarrow> execution_event \<Rightarrow> bool" where
  "event_ok i e = (event_execution_id e = i \<and> event_validate e = Inr ())"

definition step_ok :: "u64 \<Rightarrow> normalizer \<times> execution_event list \<Rightarrow> bool" where
  "step_ok i r = (en_execution_id (fst r) = i \<and> list_all (event_ok i) (snd r))"

lemma progress_event_ok:
  "native_ok native \<Longrightarrow> event_ok (en_execution_id s) (progress_event ph native d s)"
  by (auto simp: event_ok_def progress_event_def event_validate_def event_execution_id_def
      native_ok_def split: option.splits)

lemma push_ok: "en_execution_id s = i \<Longrightarrow> step_ok i (push_progress env ph s)"
  by (cases rule: push_progress_cases [of env ph s])
    (auto simp: step_ok_def progress_event_ok native_ok_def)

lemma complete_ok: "en_execution_id s = i \<Longrightarrow> step_ok i (complete_open_result env ws s)"
  by (cases rule: complete_open_result_cases [of s env ws])
    (auto simp: step_ok_def event_ok_def event_execution_id_def event_validate_def)

lemma handlers_ok:
  assumes "en_execution_id s = i"
  shows "step_ok i (on_next_result env columns s)" "step_ok i (on_rows env rows s)"
    "step_ok i (on_done env a ws s)" "step_ok i (on_error e s)" "step_ok i (send_started s)"
    "step_ok i (s, [])"
proof -
  note defs = step_ok_def event_ok_def event_execution_id_def event_validate_def
  obtain sc os where c: "complete_open_result env [] s = (sc, os)" by fastforce
  from complete_ok [OF assms, of env "[]"] c have sc: "en_execution_id sc = i" "list_all (event_ok i) os"
    by (simp_all add: step_ok_def)
  show "step_ok i (on_next_result env columns s)"
  proof -
    define sn where "sn = sc\<lparr> en_reads := Suc (en_reads sc),
        en_next_result_ordinal := sat_add (en_next_result_ordinal sc) 1,
        en_result_set_count := sat_add (en_result_set_count sc) 1,
        en_open_result := Some (en_next_result_ordinal sc), en_current_result_rows := 0,
        en_result_started_at := Some (ne_clock env (en_reads sc)) \<rparr>"
    have sn_id: "en_execution_id sn = en_execution_id sc" by (simp add: sn_def)
    obtain s' progress where pr: "push_progress env WaitingForFirstRow sn = (s', progress)"
      by fastforce
    have "on_next_result env columns s =
        (s', os @ ResultSetStarted (en_execution_id sn) (en_next_result_ordinal sc) None columns
           # progress)"
      using sn_id by (simp add: on_next_result_def c instant_now_def sn_def [symmetric] pr)
    moreover have "en_execution_id sn = i" using sc by (simp add: sn_def)
    ultimately show ?thesis
      using push_ok [of sn i env WaitingForFirstRow] sc pr
      by (simp add: step_ok_def) (simp add: defs sn_def)
  qed
  show "step_ok i (on_rows env rows s)"
  proof (cases "en_open_result s")
    case None
    with assms show ?thesis by (simp add: on_rows_def step_ok_def)
  next
    case (Some j)
    define sn where "sn = s\<lparr> en_rows_received := sat_add (en_rows_received s) (sat_of_nat (length rows)),
        en_current_result_rows := sat_add (en_current_result_rows s) (sat_of_nat (length rows)) \<rparr>"
    obtain s' progress where pr: "push_progress env Streaming sn = (s', progress)" by fastforce
    have "on_rows env rows s = (s', EventRows (en_execution_id sn) j rows # progress)"
      by (simp add: on_rows_def Some sn_def [symmetric] pr)
    moreover have "en_execution_id sn = i" using assms by (simp add: sn_def)
    ultimately show ?thesis
      using push_ok [of sn i env Streaming] pr
      by (simp add: step_ok_def) (simp add: defs)
  qed
  show "step_ok i (on_error e s)" "step_ok i (send_started s)" "step_ok i (s, [])"
    using assms by (simp_all add: on_error_def send_started_def defs)
  show "step_ok i (on_done env a ws s)"
  proof (cases "en_open_result s")
    case None
    with assms show ?thesis by (simp add: on_done_def elapsed_ms_eq defs)
  next
    case (Some j)
    define sn where "sn = s\<lparr> en_warning_count := sat_add (en_warning_count s) (sat_of_nat (length ws)) \<rparr>"
    obtain s' closed where cl: "complete_open_result env ws sn = (s', closed)" by fastforce
    with complete_ok [of sn i env ws] assms have "en_execution_id s' = i" "list_all (event_ok i) closed"
      by (simp_all add: sn_def step_ok_def)
    with Some cl show ?thesis
      by (simp add: on_done_def sn_def [symmetric] elapsed_ms_eq step_ok_def)
        (simp add: defs sn_def)
  qed
qed

lemma normalizer_step_ok:
  assumes "en_execution_id s = i"
  shows "step_ok i (normalizer_step env s x)"
proof (cases x)
  case (InputPage page)
  define sb where "sb = s\<lparr> en_bytes_received := sat_add (en_bytes_received s)
      (case ne_json_len env page of Some n \<Rightarrow> if n < 2 ^ 64 then of_nat n else 0 | None \<Rightarrow> 0) \<rparr>"
  obtain s1 started where ss: "send_started sb = (s1, started)" by fastforce
  have s1: "en_execution_id s1 = i" "list_all (event_ok i) started"
    using handlers_ok(5) [of sb i] ss assms by (simp_all add: sb_def step_ok_def)
  show ?thesis
  proof (cases "en_terminal_sent s")
    case False
    have "normalizer_step env s x = (fst (on_page env page s1), started @ snd (on_page env page s1))"
      using False ss by (simp add: normalizer_step_def InputPage events_for_page_def sb_def
          split: prod.splits)
    moreover have "step_ok i (on_page env page s1)"
      using handlers_ok(1-4) [OF s1(1)] by (cases page) (simp_all add: on_page_def)
    ultimately show ?thesis using s1(2) by (simp add: step_ok_def)
  qed (use assms in \<open>simp add: normalizer_step_def InputPage events_for_page_def step_ok_def\<close>)
next
  case (InputNative n)
  define sr where "sr = s\<lparr> en_reads := Suc (en_reads s) \<rparr>"
  obtain s1 started where ss: "send_started sr = (s1, started)" by fastforce
  have s1: "en_execution_id s1 = i" "list_all (event_ok i) started"
    using handlers_ok(5) [of sr i] ss assms by (simp_all add: sr_def step_ok_def)
  show ?thesis
  proof (cases "native_ok (Some n)")
    case True
    have "event_ok i (progress_event Executing (Some n) d s1)" for d
      using progress_event_ok [OF True, of s1] s1(1) by simp
    then show ?thesis
      using assms s1 ss
      by (auto simp: normalizer_step_def InputNative events_for_native_def instant_now_def
          elapsed_ms_eq sr_def [symmetric] step_ok_def) (simp_all add: sr_def)
  next
    case False
    with assms show ?thesis
      by (auto simp: normalizer_step_def InputNative events_for_native_def native_ok_def step_ok_def
          split: option.splits)
  qed
qed

interpretation normalizer_machine:
  machine "normalizer_step env" "\<lambda>s. en_execution_id s = i" "\<lambda>_. event_ok i" for env i
proof unfold_locales
  fix s x s' os e
  assume "en_execution_id s = i" and "normalizer_step env s x = (s', os)"
  with normalizer_step_ok [of s i env x] have ok: "en_execution_id s' = i" "list_all (event_ok i) os"
    by (simp_all add: step_ok_def)
  show "en_execution_id s' = i" by (fact ok(1))
  assume "e \<in> set os"
  with ok(2) show "event_ok i e" by (simp add: list_all_iff)
qed

text \<open>
  Every event the normalizer emits carries its execution's id and is within the wire
  bounds of the contract, whatever the driver and its telemetry send.
\<close>

theorem events_identified_and_bounded:
  "list_all (\<lambda>e. event_execution_id e = i \<and> event_validate e = Inr ()) (normalize env i inputs)"
proof -
  have "en_execution_id (normalizer_new env i) = i" by (simp add: normalizer_new_def)
  from normalizer_machine.run_emits [OF this, of _ env inputs] show ?thesis
    by (auto simp: list_all_iff normalize_def event_ok_def)
qed

section \<open>Progress reports are rate limited\<close>

definition is_progress :: "execution_event \<Rightarrow> bool" where
  "is_progress e = (case e of Progress _ _ \<Rightarrow> True | _ \<Rightarrow> False)"

definition progress_count :: "execution_event list \<Rightarrow> nat" where
  "progress_count es = length (filter is_progress es)"

text \<open>After \<open>n\<close> reports the last one is at least \<open>n - 1\<close> intervals after the start.\<close>

definition paced :: "instant \<Rightarrow> instant \<Rightarrow> nat \<Rightarrow> normalizer \<Rightarrow> bool" where
  "paced start finish n s =
     (case en_last_progress_at s of
        None \<Rightarrow> n = 0 | Some t \<Rightarrow> 0 < n \<and> start + (n - 1) * progress_interval \<le> t \<and> t \<le> finish)"

definition step_paced :: "instant \<Rightarrow> instant \<Rightarrow> nat \<Rightarrow> normalizer \<times> execution_event list \<Rightarrow> bool" where
  "step_paced start finish n r = paced start finish (n + progress_count (snd r)) (fst r)"

lemma paced_due:
  assumes "paced start finish n s" and "progress_due t s" and "start \<le> t" and "t \<le> finish"
  shows "paced start finish (Suc n) (s\<lparr> en_last_progress_at := Some t \<rparr>)"
  using assms
  by (cases n)
    (auto simp: paced_def progress_due_def duration_since_def progress_interval_def
      split: option.splits)

lemma paced_update [simp]:
  "paced start finish n (s\<lparr> en_reads := r \<rparr>) = paced start finish n s"
  "paced start finish n (s\<lparr> en_bytes_received := b \<rparr>) = paced start finish n s"
  "paced start finish n (s\<lparr> en_started_sent := x \<rparr>) = paced start finish n s"
  "paced start finish n (s\<lparr> en_warning_count := w \<rparr>) = paced start finish n s"
  "paced start finish n (s\<lparr> en_terminal_sent := x \<rparr>) = paced start finish n s"
  by (simp_all add: paced_def)

lemma push_paced:
  assumes "paced start finish n s" and "\<And>k. start \<le> ne_clock env k \<and> ne_clock env k \<le> finish"
  shows "step_paced start finish n (push_progress env ph s)"
  using assms(1) assms(2) [of "en_reads s"] paced_due [OF assms(1), of "ne_clock env (en_reads s)"]
  by (auto simp: step_paced_def push_progress_eq progress_count_def is_progress_def
      progress_event_def) (simp add: paced_def)

lemma complete_paced: "paced start finish n s \<Longrightarrow> step_paced start finish n (complete_open_result env ws s)"
  by (cases rule: complete_open_result_cases [of s env ws])
    (auto simp: step_paced_def progress_count_def is_progress_def paced_def)

lemma progress_count_append [simp]:
  "progress_count [] = 0"
  "progress_count (xs @ ys) = progress_count xs + progress_count ys"
  by (simp_all add: progress_count_def)

lemma progress_count_others [simp]:
  "progress_count (ResultSetStarted a b c d # es) = progress_count es"
  "progress_count (EventRows a b rows # es) = progress_count es"
  "progress_count (CommandCompleted a cmd # es) = progress_count es"
  "progress_count (ExecutionCompleted a exs # es) = progress_count es"
  "progress_count (ExecutionStarted a f # es) = progress_count es"
  "progress_count (EventError a f g err # es) = progress_count es"
  by (simp_all add: progress_count_def is_progress_def)

lemma handlers_paced:
  assumes "paced start finish n s" and clock: "\<And>k. start \<le> ne_clock env k \<and> ne_clock env k \<le> finish"
  shows "step_paced start finish n (on_page env page s)"
proof (cases page)
  case (PageRows rows)
  show ?thesis
  proof (cases "en_open_result s")
    case None
    with assms show ?thesis by (simp add: PageRows on_page_def on_rows_def step_paced_def)
  next
    case (Some j)
    define sn where "sn = s\<lparr> en_rows_received := sat_add (en_rows_received s) (sat_of_nat (length rows)),
        en_current_result_rows := sat_add (en_current_result_rows s) (sat_of_nat (length rows)) \<rparr>"
    have "paced start finish n sn" using assms(1) by (simp add: sn_def paced_def)
    from push_paced [OF this clock, of Streaming] show ?thesis
      by (auto simp: PageRows on_page_def on_rows_def Some sn_def [symmetric] step_paced_def
          split: prod.splits)
  qed
next
  case (PageNextResult columns)
  obtain sc os where c: "complete_open_result env [] s = (sc, os)" by fastforce
  define sn where "sn = sc\<lparr> en_reads := Suc (en_reads sc),
      en_next_result_ordinal := sat_add (en_next_result_ordinal sc) 1,
      en_result_set_count := sat_add (en_result_set_count sc) 1,
      en_open_result := Some (en_next_result_ordinal sc), en_current_result_rows := 0,
      en_result_started_at := Some (ne_clock env (en_reads sc)) \<rparr>"
  have "paced start finish (n + progress_count os) sn"
    using complete_paced [OF assms(1), of env "[]"] c by (simp add: sn_def paced_def step_paced_def)
  from push_paced [OF this clock, of WaitingForFirstRow] show ?thesis
    by (auto simp: PageNextResult on_page_def on_next_result_def c instant_now_def
        sn_def [symmetric] step_paced_def add.assoc split: prod.splits)
next
  case (PageError e)
  with assms show ?thesis by (simp add: on_page_def on_error_def step_paced_def)
next
  case (PageDone a ws)
  define sn where "sn = s\<lparr> en_warning_count := sat_add (en_warning_count s) (sat_of_nat (length ws)) \<rparr>"
  have "paced start finish n sn" using assms(1) by (simp add: sn_def)
  show ?thesis
  proof (cases "en_open_result s")
    case None
    with \<open>paced start finish n sn\<close> show ?thesis
      by (simp add: PageDone on_page_def on_done_def sn_def [symmetric] elapsed_ms_eq step_paced_def)
        (simp add: paced_def sn_def)
  next
    case (Some j)
    have open_sn: "en_open_result sn = Some j" by (simp add: sn_def Some)
    obtain s' closed where cl: "complete_open_result env ws sn = (s', closed)" by fastforce
    with complete_paced [OF \<open>paced start finish n sn\<close>, of env ws] Some show ?thesis
      by (simp add: PageDone on_page_def on_done_def sn_def [symmetric] elapsed_ms_eq step_paced_def
          open_sn cl)
  qed
qed

lemma send_started_paced: "paced start finish n s \<Longrightarrow> step_paced start finish n (send_started s)"
  by (simp add: send_started_def step_paced_def)

lemma normalizer_step_paced:
  assumes "paced start finish n s" and clock: "\<And>k. start \<le> ne_clock env k \<and> ne_clock env k \<le> finish"
  shows "step_paced start finish n (normalizer_step env s x)"
proof (cases x)
  case (InputPage page)
  define sb where "sb = s\<lparr> en_bytes_received := sat_add (en_bytes_received s)
      (case ne_json_len env page of Some n \<Rightarrow> if n < 2 ^ 64 then of_nat n else 0 | None \<Rightarrow> 0) \<rparr>"
  obtain s1 started where ss: "send_started sb = (s1, started)" by fastforce
  have "paced start finish (n + progress_count started) s1"
    using send_started_paced [of start finish n sb] ss assms(1) by (simp add: sb_def step_paced_def)
  from handlers_paced [OF this clock, of page] ss assms(1) show ?thesis
    by (auto simp: normalizer_step_def InputPage events_for_page_def sb_def [symmetric]
        step_paced_def add.assoc split: prod.splits)
next
  case (InputNative nat)
  define sr where "sr = s\<lparr> en_reads := Suc (en_reads s) \<rparr>"
  obtain s1 started where ss: "send_started sr = (s1, started)" by fastforce
  show ?thesis
  proof (cases "progress_due (ne_clock env (en_reads s)) s")
    case True
    have "paced start finish (n + progress_count started) s1"
      using send_started_paced [of start finish n sr] ss assms(1) by (simp add: sr_def step_paced_def)
    moreover have "progress_due (ne_clock env (en_reads s)) s1"
      using True ss by (auto simp: send_started_def sr_def progress_due_def split: if_splits)
    ultimately have "paced start finish (Suc (n + progress_count started))
        (s1\<lparr> en_last_progress_at := Some (ne_clock env (en_reads s)) \<rparr>)"
      using paced_due clock [of "en_reads s"] by blast
    moreover have "progress_count [progress_event Executing (Some nat) d s1] = 1" for d
      by (simp add: progress_count_def is_progress_def progress_event_def)
    moreover have "progress_due (ne_clock env (en_reads s)) sr" using True by (simp add: sr_def)
    ultimately show ?thesis
      using assms(1) ss
      by (auto simp: normalizer_step_def InputNative events_for_native_def instant_now_def
          elapsed_ms_eq sr_def [symmetric] step_paced_def)
  next
    case False
    with assms show ?thesis
      by (simp add: normalizer_step_def InputNative events_for_native_def instant_now_def
          step_paced_def)
  qed
qed

lemma run_paced:
  assumes "\<And>k. start \<le> ne_clock env k \<and> ne_clock env k \<le> finish" and "paced start finish n s"
  shows "step_paced start finish n (machine_run (normalizer_step env) s inputs)"
  using assms(2)
proof (induction inputs arbitrary: n s)
  case (Cons x inputs)
  obtain s1 os where st: "normalizer_step env s x = (s1, os)" by fastforce
  from normalizer_step_paced [OF Cons.prems assms(1), of x] st
  have "paced start finish (n + progress_count os) s1" by (simp add: step_paced_def)
  from Cons.IH [OF this] st show ?case
    by (auto simp: step_paced_def add.assoc split: prod.splits)
qed (simp add: step_paced_def)

text \<open>
  Progress reports are rate limited, portable and native ones together. In a run during
  which the clock stays between its first reading and \<open>finish\<close>, the reports are at most one
  more than the number of whole 250 ms intervals that passed, however many pages and samples
  arrive.
\<close>

theorem progress_is_rate_limited:
  assumes "\<And>k. ne_clock env 0 \<le> ne_clock env k" and "\<And>k. ne_clock env k \<le> finish"
  shows "length (filter is_progress (normalize env i inputs))
    \<le> Suc ((finish - ne_clock env 0) div progress_interval)"
proof -
  let ?run = "machine_run (normalizer_step env) (normalizer_new env i) inputs"
  let ?n = "length (filter is_progress (normalize env i inputs))"
  have "paced (ne_clock env 0) finish 0 (normalizer_new env i)" by (simp add: paced_def normalizer_new_def)
  from run_paced [OF _ this] assms have p: "paced (ne_clock env 0) finish ?n (fst ?run)"
    by (simp add: step_paced_def progress_count_def normalize_def)
  show ?thesis
  proof (cases "en_last_progress_at (fst ?run)")
    case None
    with p show ?thesis by (simp add: paced_def)
  next
    case (Some t)
    with p have "0 < ?n" "ne_clock env 0 + (?n - 1) * progress_interval \<le> t" "t \<le> finish" by (simp_all add: paced_def)
    then have "(?n - 1) * progress_interval \<le> finish - ne_clock env 0" by linarith
    then have "?n - 1 \<le> (finish - ne_clock env 0) div progress_interval"
      by (simp add: less_eq_div_iff_mult_less_eq progress_interval_def)
    then show ?thesis by linarith
  qed
qed

definition short_clock :: "nat \<Rightarrow> instant" where
  "short_clock k = (if k = 0 then 5 else 6)"

theorem progress_is_rate_limited_witness:
  "length (filter is_progress
     (normalize \<lparr> ne_clock = short_clock, ne_json_len = (\<lambda>p. Some 7) \<rparr> 9
        [InputPage (PageNextResult []), InputPage (PageRows [[VNull]]), InputPage (PageRows [[VNull]]),
         InputPage (PageDone None [])])) \<le> 1"
  using progress_is_rate_limited [of "\<lparr> ne_clock = short_clock, ne_json_len = (\<lambda>p. Some 7) \<rparr>" 6 9
      "[InputPage (PageNextResult []), InputPage (PageRows [[VNull]]), InputPage (PageRows [[VNull]]),
        InputPage (PageDone None [])]"]
  by (simp add: short_clock_def progress_interval_def)

end
