(* ===== verification/Text_Replica.thy ===== *)
theory Text_Replica
  imports Sift_Prelude
begin

text \<open>
  The document model of \<^verbatim>\<open>crates/doc/src/lib.rs\<close>: a wrapper of a Loro document with one plain
  text root. Loro itself is the record \<open>loro\<close>, an argument of every definition; \<open>loro_laws\<close>
  states what the wrapper's clients rely on of it.

  Replicas are mutated through shared references in the code; here an operation returns the
  replica's next state. Positions are Unicode scalars and texts are their UTF-8 bytes.
\<close>

section \<open>Loro\<close>

record import_status =
  im_pending :: bool   \<comment> \<open>some operations wait for missing dependencies\<close>
  im_success :: bool   \<comment> \<open>some operation was new\<close>

record ('d, 'v, 'f) loro =
  lo_new :: 'd
  lo_set_peer_id :: "'d \<Rightarrow> u64 \<Rightarrow> (string, 'd) result"
  lo_peer_id :: "'d \<Rightarrow> u64"
  lo_open_text :: "'d \<Rightarrow> 'd"                     \<comment> \<open>\<^verbatim>\<open>get_text(TEXT_ROOT)\<close> materializes the root\<close>
  lo_text :: "'d \<Rightarrow> string"
  lo_insert :: "'d \<Rightarrow> nat \<Rightarrow> string \<Rightarrow> (string, 'd) result"
  lo_delete :: "'d \<Rightarrow> nat \<Rightarrow> nat \<Rightarrow> (string, 'd) result"
  lo_commit :: "'d \<Rightarrow> 'd"
  lo_export_snapshot :: "'d \<Rightarrow> (string, u8 list) result"
  lo_export_updates :: "'d \<Rightarrow> 'v \<Rightarrow> (string, u8 list) result"
  lo_oplog_vv :: "'d \<Rightarrow> 'v"
  lo_vv_default :: 'v
  lo_vv_encode :: "'v \<Rightarrow> u8 list"
  lo_vv_decode :: "u8 list \<Rightarrow> (string, 'v) result"
  lo_vv_includes :: "'v \<Rightarrow> 'v \<Rightarrow> bool"
  lo_state_frontiers :: "'d \<Rightarrow> 'f"
  lo_frontiers_encode :: "'f \<Rightarrow> u8 list"
  lo_frontiers_decode :: "u8 list \<Rightarrow> (string, 'f) result"
  lo_import :: "'d \<Rightarrow> u8 list \<Rightarrow> 'd \<times> (string, import_status) result"
  lo_fork :: "'d \<Rightarrow> 'd"
  lo_fork_at :: "'d \<Rightarrow> 'f \<Rightarrow> 'd option"
  lo_root_keys :: "'d \<Rightarrow> string list option"      \<comment> \<open>the keys of the deep value when it is a map\<close>
  lo_richtext :: "'d \<Rightarrow> string list option list option"
    \<comment> \<open>the spans of the rich text value, each with its keys when it is a map\<close>

section \<open>Errors\<close>

datatype doc_error =
    ZeroPeerId
  | ImportFailed string
  | ExportFailed string
  | DecodeFailed string string
  | UpdateTooLarge nat nat
  | TextTooLarge nat nat
  | UnexpectedContainers
  | RichTextMark
  | VersionNotFound
  | NotCharBoundary nat
  | InvalidRange nat nat
  | RangeOutOfBounds nat nat

text \<open>The messages of the errors.\<close>

definition doc_error_show :: "doc_error \<Rightarrow> string" where
  "doc_error_show e =
     (case e of
        ZeroPeerId \<Rightarrow> ''replica peer id must be non-zero''
      | ImportFailed m \<Rightarrow> ''failed to import loro bytes: '' @ m
      | ExportFailed m \<Rightarrow> ''failed to export loro bytes: '' @ m
      | DecodeFailed what detail \<Rightarrow> ''failed to decode loro '' @ what @ '': '' @ detail
      | UpdateTooLarge actual limit \<Rightarrow>
          ''update exceeds '' @ show_nat limit @ ''-byte decoded limit ('' @ show_nat actual @ '' bytes)''
      | TextTooLarge actual limit \<Rightarrow>
          ''materialized text exceeds '' @ show_nat limit @ ''-byte limit ('' @ show_nat actual
            @ '' bytes)''
      | UnexpectedContainers \<Rightarrow>
          ''replica contains a container other than the '' @ [CHR 0x27] @ ''text'' @ [CHR 0x27] @ '' text root''
      | RichTextMark \<Rightarrow> ''replica contains rich-text marks, which are not allowed''
      | VersionNotFound \<Rightarrow> ''requested version is not present in retained history''
      | NotCharBoundary offset \<Rightarrow>
          ''byte offset '' @ show_nat offset @ '' is not a utf-8 character boundary''
      | InvalidRange start end \<Rightarrow>
          ''range start '' @ show_nat start @ '' is greater than end '' @ show_nat end
      | RangeOutOfBounds end len \<Rightarrow>
          ''range end '' @ show_nat end @ '' is beyond text length '' @ show_nat len)"

datatype import_outcome = ImportApplied | ImportNoOp | ImportPending

section \<open>The replica\<close>

definition text_root :: string where "text_root = ''text''"

text \<open>The eight random bytes are a parameter.\<close>

definition random_peer_id :: "u64 \<Rightarrow> u64" where
  "random_peer_id random = (if random = 0 then 1 else random)"

definition replica_new :: "('d, 'v, 'f) loro \<Rightarrow> u64 \<Rightarrow> (doc_error, 'd) result" where
  "replica_new L peer =
     (if peer = 0 then Inl ZeroPeerId
      else res_bind (map_err ImportFailed (lo_set_peer_id L (lo_new L) peer)) (\<lambda>d.
        Inr (lo_open_text L d)))"

definition replica_import ::
  "('d, 'v, 'f) loro \<Rightarrow> 'd \<Rightarrow> u8 list \<Rightarrow> 'd \<times> (doc_error, import_outcome) result" where
  "replica_import L d bytes =
     (case lo_import L d bytes of
        (d, Inl e) \<Rightarrow> (d, Inl (ImportFailed e))
      | (d, Inr status) \<Rightarrow>
          (d, Inr (if im_pending status then ImportPending
                   else if \<not> im_success status then ImportNoOp else ImportApplied)))"

definition replica_from_snapshot ::
  "('d, 'v, 'f) loro \<Rightarrow> u64 \<Rightarrow> u8 list \<Rightarrow> (doc_error, 'd) result" where
  "replica_from_snapshot L peer snapshot =
     (if peer = 0 then Inl ZeroPeerId
      else case lo_import L (lo_new L) snapshot of
        (d, Inl e) \<Rightarrow> Inl (ImportFailed e)
      | (d, Inr _) \<Rightarrow> map_err ImportFailed (lo_set_peer_id L d peer))"

definition replica_insert ::
  "('d, 'v, 'f) loro \<Rightarrow> 'd \<Rightarrow> nat \<Rightarrow> string \<Rightarrow> (doc_error, 'd) result" where
  "replica_insert L d pos s =
     res_bind (map_err ImportFailed (lo_insert L d pos s)) (\<lambda>d. Inr (lo_commit L d))"

definition replica_delete ::
  "('d, 'v, 'f) loro \<Rightarrow> 'd \<Rightarrow> nat \<Rightarrow> nat \<Rightarrow> (doc_error, 'd) result" where
  "replica_delete L d pos len =
     res_bind (map_err ImportFailed (lo_delete L d pos len)) (\<lambda>d. Inr (lo_commit L d))"

definition replica_export_snapshot :: "('d, 'v, 'f) loro \<Rightarrow> 'd \<Rightarrow> (doc_error, u8 list) result" where
  "replica_export_snapshot L d = map_err ExportFailed (lo_export_snapshot L d)"

definition replica_version_vector :: "('d, 'v, 'f) loro \<Rightarrow> 'd \<Rightarrow> u8 list" where
  "replica_version_vector L d = lo_vv_encode L (lo_oplog_vv L d)"

definition replica_frontiers :: "('d, 'v, 'f) loro \<Rightarrow> 'd \<Rightarrow> u8 list" where
  "replica_frontiers L d = lo_frontiers_encode L (lo_state_frontiers L d)"

definition decode_version :: "('d, 'v, 'f) loro \<Rightarrow> u8 list \<Rightarrow> (doc_error, 'v) result" where
  "decode_version L since = map_err (DecodeFailed ''version vector'') (lo_vv_decode L since)"

definition export_updates_since ::
  "('d, 'v, 'f) loro \<Rightarrow> 'd \<Rightarrow> u8 list \<Rightarrow> (doc_error, u8 list) result" where
  "export_updates_since L d since =
     res_bind (decode_version L since) (\<lambda>vv. map_err ExportFailed (lo_export_updates L d vv))"

definition updates_since_if_any ::
  "('d, 'v, 'f) loro \<Rightarrow> 'd \<Rightarrow> u8 list \<Rightarrow> (doc_error, u8 list option) result" where
  "updates_since_if_any L d since =
     res_bind (decode_version L since) (\<lambda>vv.
       if lo_vv_includes L vv (lo_oplog_vv L d) then Inr None
       else res_bind (map_err ExportFailed (lo_export_updates L d vv)) (\<lambda>bytes. Inr (Some bytes)))"

definition export_all_updates :: "('d, 'v, 'f) loro \<Rightarrow> 'd \<Rightarrow> (doc_error, u8 list) result" where
  "export_all_updates L d = map_err ExportFailed (lo_export_updates L d (lo_vv_default L))"

definition replica_fork_at ::
  "('d, 'v, 'f) loro \<Rightarrow> 'd \<Rightarrow> u8 list \<Rightarrow> (doc_error, 'd) result" where
  "replica_fork_at L d frontiers =
     res_bind (map_err (DecodeFailed ''frontiers'') (lo_frontiers_decode L frontiers)) (\<lambda>f.
       ok_or VersionNotFound (lo_fork_at L d f))"

definition materialize_at ::
  "('d, 'v, 'f) loro \<Rightarrow> 'd \<Rightarrow> u8 list \<Rightarrow> (doc_error, string) result" where
  "materialize_at L d frontiers =
     res_bind (replica_fork_at L d frontiers) (\<lambda>f. Inr (lo_text L f))"

definition span_marked :: "string list option \<Rightarrow> bool" where
  "span_marked span = (case span of Some keys \<Rightarrow> ''attributes'' \<in> set keys | None \<Rightarrow> False)"

definition replica_validate ::
  "('d, 'v, 'f) loro \<Rightarrow> 'd \<Rightarrow> nat \<Rightarrow> (doc_error, unit) result" where
  "replica_validate L d max_text_bytes =
     (case lo_root_keys L d of
        None \<Rightarrow> Inl UnexpectedContainers
      | Some keys \<Rightarrow>
          (if list_ex (\<lambda>k. k \<noteq> text_root) keys then Inl UnexpectedContainers
           else if (case lo_richtext L d of Some spans \<Rightarrow> list_ex span_marked spans | None \<Rightarrow> False)
           then Inl RichTextMark
           else if max_text_bytes < length (lo_text L d)
           then Inl (TextTooLarge (length (lo_text L d)) max_text_bytes)
           else Inr ()))"

section \<open>UTF-8 ranges\<close>

text \<open>A byte that continues a multi-byte scalar: \<^verbatim>\<open>0b10xxxxxx\<close>.\<close>

definition continuation_byte :: "char \<Rightarrow> bool" where
  "continuation_byte c = (128 \<le> (of_char c :: nat) \<and> (of_char c :: nat) < 192)"

definition char_count :: "string \<Rightarrow> nat" where
  "char_count s = length (filter (\<lambda>c. \<not> continuation_byte c) s)"

definition is_char_boundary :: "string \<Rightarrow> nat \<Rightarrow> bool" where
  "is_char_boundary s i =
     (i = 0 \<or> i = length s \<or> (i < length s \<and> \<not> continuation_byte (s ! i)))"

definition slice_utf8_range :: "string \<Rightarrow> nat \<Rightarrow> nat \<Rightarrow> (doc_error, string) result" where
  "slice_utf8_range s start end =
     (if end < start then Inl (InvalidRange start end)
      else if length s < end then Inl (RangeOutOfBounds end (length s))
      else if \<not> is_char_boundary s start then Inl (NotCharBoundary start)
      else if \<not> is_char_boundary s end then Inl (NotCharBoundary end)
      else Inr (take (end - start) (drop start s)))"

section \<open>What clients rely on of Loro\<close>

text \<open>
  \<open>content\<close> is the operations a document holds. Importing acts on the content alone (\<open>imp\<close>);
  forking and changing the peer keep it; a snapshot imported into a fresh document restores it;
  an import that is complete is idempotent from then on, whatever is imported in between.
\<close>

definition covers :: "('c \<Rightarrow> u8 list \<Rightarrow> 'c \<times> (string, import_status) result) \<Rightarrow> 'c \<Rightarrow> u8 list \<Rightarrow> bool"
  where "covers imp c b = (imp c b = (c, Inr \<lparr> im_pending = False, im_success = False \<rparr>))"

definition loro_laws ::
  "('d, 'v, 'f) loro \<Rightarrow> ('d \<Rightarrow> 'c) \<Rightarrow> ('c \<Rightarrow> u8 list \<Rightarrow> 'c \<times> (string, import_status) result) \<Rightarrow> bool"
  where
  "loro_laws L content imp =
     ((\<forall>d b. imp (content d) b = (content (fst (lo_import L d b)), snd (lo_import L d b)))
    \<and> (\<forall>d. content (lo_fork L d) = content d)
    \<and> (\<forall>d p. p \<noteq> 0 \<longrightarrow> (\<exists>d'. lo_set_peer_id L d p = Inr d' \<and> content d' = content d))
    \<and> (\<forall>d b. lo_export_snapshot L d = Inr b \<longrightarrow>
         (\<exists>st. imp (content (lo_new L)) b = (content d, Inr st)))
    \<and> (\<forall>c b c' st. imp c b = (c', Inr st) \<and> \<not> im_pending st \<longrightarrow> covers imp c' b)
    \<and> (\<forall>c b b'. covers imp c b \<longrightarrow> covers imp (fst (imp c b')) b))"

lemma loro_import:
  "loro_laws L content imp \<Longrightarrow>
   imp (content d) b = (content (fst (lo_import L d b)), snd (lo_import L d b))"
  unfolding loro_laws_def by blast

lemma loro_fork: "loro_laws L content imp \<Longrightarrow> content (lo_fork L d) = content d"
  unfolding loro_laws_def by blast

lemma loro_set_peer:
  "loro_laws L content imp \<Longrightarrow> p \<noteq> 0 \<Longrightarrow>
   \<exists>d'. lo_set_peer_id L d p = Inr d' \<and> content d' = content d"
  unfolding loro_laws_def by blast

lemma loro_snapshot:
  "loro_laws L content imp \<Longrightarrow> lo_export_snapshot L d = Inr b \<Longrightarrow>
   \<exists>st. imp (content (lo_new L)) b = (content d, Inr st)"
  unfolding loro_laws_def by blast

lemma loro_complete:
  "loro_laws L content imp \<Longrightarrow> imp c b = (c', Inr st) \<Longrightarrow> \<not> im_pending st \<Longrightarrow> covers imp c' b"
  unfolding loro_laws_def by blast

lemma loro_covers_mono:
  "loro_laws L content imp \<Longrightarrow> covers imp c b \<Longrightarrow> covers imp (fst (imp c b')) b"
  unfolding loro_laws_def by blast

text \<open>Two documents of the same content import alike.\<close>

lemma import_same_content:
  assumes "loro_laws L content imp" and "content d = content e"
  shows "content (fst (replica_import L d b)) = content (fst (replica_import L e b))
    \<and> snd (replica_import L d b) = snd (replica_import L e b)"
proof -
  have "(content (fst (lo_import L d b)), snd (lo_import L d b))
      = (content (fst (lo_import L e b)), snd (lo_import L e b))"
    using loro_import [OF assms(1)] assms(2) by metis
  then show ?thesis
    by (cases "lo_import L d b"; cases "lo_import L e b")
      (auto simp: replica_import_def split: sum.splits)
qed

lemma replica_import_content:
  "loro_laws L content imp \<Longrightarrow> content (fst (replica_import L d b)) = fst (imp (content d) b)"
  by (cases "lo_import L d b") (auto simp: replica_import_def loro_import split: sum.splits)

lemma replica_import_covered:
  assumes "loro_laws L content imp"
  shows "covers imp (content d) b \<Longrightarrow> snd (replica_import L d b) = Inr ImportNoOp"
    and "snd (replica_import L d b) = Inr ImportApplied \<Longrightarrow>
         covers imp (content (fst (replica_import L d b))) b"
proof -
  obtain d' r where i: "lo_import L d b = (d', r)" by fastforce
  have imp: "imp (content d) b = (content d', r)" using loro_import [OF assms, of d b] i by simp
  show "covers imp (content d) b \<Longrightarrow> snd (replica_import L d b) = Inr ImportNoOp"
    using imp by (simp add: covers_def replica_import_def i)
  assume "snd (replica_import L d b) = Inr ImportApplied"
  then obtain st where "r = Inr st" "\<not> im_pending st"
    by (auto simp: replica_import_def i split: sum.splits if_splits)
  with loro_complete [OF assms] imp show "covers imp (content (fst (replica_import L d b))) b"
    by (simp add: replica_import_def i)
qed

section \<open>A small instance\<close>

text \<open>
  A document that is the set of bytes it imported, used to evaluate the definitions on concrete
  updates; it satisfies the laws.
\<close>

definition demo_import :: "u8 set \<Rightarrow> u8 list \<Rightarrow> u8 set \<times> (string, import_status) result" where
  "demo_import c b =
     (c \<union> set b, Inr \<lparr> im_pending = False, im_success = (\<not> set b \<subseteq> c) \<rparr>)"

definition demo_loro :: "(u8 set, u8 set, u8 set) loro" where
  "demo_loro =
     \<lparr> lo_new = {}, lo_set_peer_id = (\<lambda>d p. Inr d), lo_peer_id = (\<lambda>d. 5), lo_open_text = id,
       lo_text = (\<lambda>d. []),
       lo_insert = (\<lambda>d pos s. Inr (insert (of_nat (length s)) d)),
       lo_delete = (\<lambda>d pos len. Inr d), lo_commit = id,
       lo_export_snapshot = (\<lambda>d. Inr (sorted_list_of_set d)),
       lo_export_updates = (\<lambda>d v. Inr (sorted_list_of_set (d - v))),
       lo_oplog_vv = id, lo_vv_default = {}, lo_vv_encode = sorted_list_of_set,
       lo_vv_decode = (\<lambda>b. Inr (set b)), lo_vv_includes = (\<lambda>v w. w \<subseteq> v),
       lo_state_frontiers = id, lo_frontiers_encode = sorted_list_of_set,
       lo_frontiers_decode = (\<lambda>b. Inr (set b)), lo_import = demo_import, lo_fork = id,
       lo_fork_at = (\<lambda>d f. Some f), lo_root_keys = (\<lambda>d. Some [text_root]),
       lo_richtext = (\<lambda>d. Some []) \<rparr>"

lemma demo_loro_laws: "loro_laws demo_loro id demo_import"
  by (auto simp: loro_laws_def demo_loro_def demo_import_def covers_def)

section \<open>Ranges\<close>

text \<open>
  A range is sliced exactly when it is ordered, in bounds and starts and ends between two
  characters, and then the slice is the range: what precedes it, the slice and what follows
  it make up the text, and no character is torn apart.
\<close>

theorem slice_is_whole_characters:
  "slice_utf8_range s start end = Inr r \<longleftrightarrow>
     start \<le> end \<and> end \<le> length s \<and> is_char_boundary s start \<and> is_char_boundary s end
     \<and> s = take start s @ r @ drop end s \<and> length r = end - start"
proof
  assume "slice_utf8_range s start end = Inr r"
  then have b: "start \<le> end" "end \<le> length s" "is_char_boundary s start" "is_char_boundary s end"
    and r: "r = take (end - start) (drop start s)"
    by (auto simp: slice_utf8_range_def split: if_splits)
  have "drop start s = r @ drop end s"
    using b append_take_drop_id [of "end - start" "drop start s"] by (simp add: r)
  with b r show "start \<le> end \<and> end \<le> length s \<and> is_char_boundary s start \<and> is_char_boundary s end
     \<and> s = take start s @ r @ drop end s \<and> length r = end - start"
    by (metis append_take_drop_id diff_le_mono length_drop length_take min.absorb2)
next
  assume a: "start \<le> end \<and> end \<le> length s \<and> is_char_boundary s start \<and> is_char_boundary s end
     \<and> s = take start s @ r @ drop end s \<and> length r = end - start"
  then have "drop start s = r @ drop end s"
    by (metis append_eq_append_conv append_take_drop_id)
  with a show "slice_utf8_range s start end = Inr r"
    by (simp add: slice_utf8_range_def)
qed

end
