(* ===== verification/Document_Store.thy ===== *)
theory Document_Store
  imports Sift_Prelude
begin

text \<open>
  The durable document log of \<^verbatim>\<open>crates/metadata/src/lib.rs\<close> (documents and their update rows,
  migration \<^verbatim>\<open>V019\<close>): each method is one SQL transaction over two tables, here a function on
  the tables. A transaction may also fail inside SQLite (\<open>fault\<close>), and then changes nothing.

  The contract the document actor relies on is the locale \<open>update_log\<close>, interpreted at the
  end on these definitions.
\<close>

section \<open>The contract\<close>

locale update_log =
  fixes inv :: "'s \<Rightarrow> bool"
    and base :: "'s \<Rightarrow> 'k \<Rightarrow> 'b option"                      \<comment> \<open>the stored snapshot\<close>
    and log :: "'s \<Rightarrow> 'k \<Rightarrow> 'b list"                          \<comment> \<open>the updates after it, in order\<close>
    and head_seq :: "'s \<Rightarrow> 'k \<Rightarrow> int"
    and append :: "'s \<Rightarrow> 'k \<Rightarrow> 'u \<Rightarrow> 's \<times> ('e, int) result"
    and replace :: "'s \<Rightarrow> 'k \<Rightarrow> 'b \<Rightarrow> int \<Rightarrow> 's \<times> ('e, unit) result"
    and bytes :: "'u \<Rightarrow> 'b"
    and fresh :: "'s \<Rightarrow> 'k \<Rightarrow> 'u \<Rightarrow> bool"                  \<comment> \<open>no stored update has its identity\<close>
  assumes append_fresh:
      "inv s \<Longrightarrow> fresh s k u \<Longrightarrow> append s k u = (s', Inr n) \<Longrightarrow>
       inv s' \<and> log s' k = log s k @ [bytes u] \<and> base s' k = base s k \<and> n = head_seq s' k"
    and append_other:
      "inv s \<Longrightarrow> append s k u = (s', r) \<Longrightarrow> k' \<noteq> k \<Longrightarrow> log s' k' = log s k' \<and> base s' k' = base s k'"
    and append_fails: "append s k u = (s', Inl e) \<Longrightarrow> s' = s"
    and replace_head:
      "inv s \<Longrightarrow> replace s k b (head_seq s k) = (s', Inr ()) \<Longrightarrow>
       inv s' \<and> log s' k = [] \<and> base s' k = Some b \<and> head_seq s' k = head_seq s k"
    and replace_fails: "replace s k b n = (s', Inl e) \<Longrightarrow> s' = s"
begin

text \<open>What a reader rebuilds from the store.\<close>

definition rebuilt :: "('b \<Rightarrow> 'c) \<Rightarrow> ('c \<Rightarrow> 'b \<Rightarrow> 'c) \<Rightarrow> 's \<Rightarrow> 'k \<Rightarrow> 'c option" where
  "rebuilt load apply_one s k = map_option (\<lambda>b. foldl apply_one (load b) (log s k)) (base s k)"

lemma rebuilt_append:
  assumes "inv s" and "fresh s k u" and "append s k u = (s', Inr n)"
    and "rebuilt load apply_one s k = Some c"
  shows "inv s' \<and> rebuilt load apply_one s' k = Some (apply_one c (bytes u)) \<and> n = head_seq s' k"
  using append_fresh [OF assms(1-3)] assms(4) by (auto simp: rebuilt_def)

lemma rebuilt_replace:
  assumes "inv s" and "replace s k b (head_seq s k) = (s', Inr ())"
  shows "inv s' \<and> rebuilt load apply_one s' k = Some (load b) \<and> head_seq s' k = head_seq s k"
  using replace_head [OF assms] by (auto simp: rebuilt_def)

end

section \<open>Tables\<close>

record stored_document =
  sd_id :: i64
  sd_room_id :: i64
  sd_kind :: string
  sd_title :: string
  sd_crdt_type :: string
  sd_crdt_state :: "u8 list"
  sd_crdt_format_version :: i64
  sd_snapshot_seq :: i64
  sd_next_update_seq :: i64
  sd_snapshot_version :: "u8 list"
  sd_position :: i64
  sd_connection_profile_id :: "i64 option"
  sd_created_at :: i64
  sd_updated_at :: i64

record document_update =
  du_server_seq :: i64
  du_update_id :: string
  du_replica_id :: string
  du_submitted_by :: i64
  du_update_bytes :: "u8 list"
  du_decoded_len :: i64
  du_created_at :: i64

record new_document_update =
  nu_update_id :: string
  nu_replica_id :: string
  nu_submitted_by :: i64
  nu_update_bytes :: "u8 list"
  nu_decoded_len :: i64

text \<open>The two tables; an update row carries its \<^verbatim>\<open>document_id\<close>.\<close>

record document_store =
  ds_documents :: "stored_document list"
  ds_updates :: "(i64 \<times> document_update) list"

datatype metadata_error =
    DocumentNotFound i64
  | SqliteError string

type_synonym 'a metadata_result = "(metadata_error, 'a) result"

definition find_document :: "document_store \<Rightarrow> i64 \<Rightarrow> stored_document option" where
  "find_document st k = find (\<lambda>d. sd_id d = k) (ds_documents st)"

definition update_document ::
  "i64 \<Rightarrow> (stored_document \<Rightarrow> stored_document) \<Rightarrow> document_store \<Rightarrow> document_store" where
  "update_document k f st =
     st\<lparr> ds_documents := map (\<lambda>d. if sd_id d = k then f d else d) (ds_documents st) \<rparr>"

definition updates_of :: "document_store \<Rightarrow> i64 \<Rightarrow> document_update list" where
  "updates_of st k = map snd (filter (\<lambda>r. fst r = k) (ds_updates st))"

section \<open>Transactions\<close>

definition get_document ::
  "string option \<Rightarrow> document_store \<Rightarrow> i64 \<Rightarrow> stored_document metadata_result" where
  "get_document fault st k =
     (case fault of
        Some e \<Rightarrow> Inl (SqliteError e)
      | None \<Rightarrow> ok_or (DocumentNotFound k) (find_document st k))"

text \<open>
  \<^verbatim>\<open>append_document_update\<close>: the next sequence is read first, a stored row of the same update
  and replica ids answers the call, and \<^verbatim>\<open>UNIQUE (document_id, server_seq)\<close> guards the insert.
\<close>

definition append_document_update ::
  "string option \<Rightarrow> i64 \<Rightarrow> document_store \<Rightarrow> i64 \<Rightarrow> new_document_update \<Rightarrow>
   document_store \<times> i64 metadata_result" where
  "append_document_update fault now st k u =
     (case fault of
        Some e \<Rightarrow> (st, Inl (SqliteError e))
      | None \<Rightarrow>
          (case find_document st k of
             None \<Rightarrow> (st, Inl (DocumentNotFound k))
           | Some d \<Rightarrow>
               (case find (\<lambda>r. du_update_id r = nu_update_id u \<and> du_replica_id r = nu_replica_id u)
                       (updates_of st k) of
                  Some r \<Rightarrow> (st, Inr (du_server_seq r))
                | None \<Rightarrow>
                    (let next_seq = sd_next_update_seq d in
                     if list_ex (\<lambda>r. du_server_seq r = next_seq) (updates_of st k)
                     then (st, Inl (SqliteError ''UNIQUE constraint failed''))
                     else
                       (update_document k (\<lambda>d. d\<lparr> sd_next_update_seq := next_seq + 1,
                                                sd_updated_at := now \<rparr>)
                          (st\<lparr> ds_updates := ds_updates st @
                             [(k, \<lparr> du_server_seq = next_seq, du_update_id = nu_update_id u,
                                    du_replica_id = nu_replica_id u,
                                    du_submitted_by = nu_submitted_by u,
                                    du_update_bytes = nu_update_bytes u,
                                    du_decoded_len = nu_decoded_len u, du_created_at = now \<rparr>)] \<rparr>),
                        Inr next_seq)))))"

definition list_document_updates_since ::
  "string option \<Rightarrow> document_store \<Rightarrow> i64 \<Rightarrow> i64 \<Rightarrow> document_update list metadata_result" where
  "list_document_updates_since fault st k after_seq =
     (case fault of
        Some e \<Rightarrow> Inl (SqliteError e)
      | None \<Rightarrow> Inr (sort_key du_server_seq
                       (filter (\<lambda>r. after_seq < du_server_seq r) (updates_of st k))))"

definition replace_document_snapshot ::
  "string option \<Rightarrow> i64 \<Rightarrow> document_store \<Rightarrow> i64 \<Rightarrow> u8 list \<Rightarrow> u8 list \<Rightarrow> i64 \<Rightarrow>
   document_store \<times> unit metadata_result" where
  "replace_document_snapshot fault now st k snapshot version through_seq =
     (case fault of
        Some e \<Rightarrow> (st, Inl (SqliteError e))
      | None \<Rightarrow>
          (if find_document st k = None then (st, Inl (DocumentNotFound k))
           else
             (let st = update_document k (\<lambda>d. d\<lparr> sd_crdt_state := snapshot,
                         sd_snapshot_version := version, sd_snapshot_seq := through_seq,
                         sd_updated_at := now \<rparr>) st
              in (st\<lparr> ds_updates := filter (\<lambda>r. \<not> (fst r = k \<and> du_server_seq (snd r) \<le> through_seq))
                                     (ds_updates st) \<rparr>, Inr ()))))"

definition list_legacy_documents ::
  "string option \<Rightarrow> document_store \<Rightarrow> stored_document list metadata_result" where
  "list_legacy_documents fault st =
     (case fault of
        Some e \<Rightarrow> Inl (SqliteError e)
      | None \<Rightarrow> Inr (sort_key sd_id
                       (filter (\<lambda>d. sd_crdt_format_version d = 0) (ds_documents st))))"

definition promote :: "i64 \<Rightarrow> u8 list \<Rightarrow> u8 list \<Rightarrow> stored_document \<Rightarrow> stored_document" where
  "promote now snapshot version d =
     d\<lparr> sd_crdt_state := snapshot, sd_snapshot_version := version, sd_crdt_format_version := 1,
        sd_updated_at := now \<rparr>"

text \<open>The loop of \<^verbatim>\<open>upgrade_documents_to_loro\<close>; an early return rolls the transaction back.\<close>

fun upgrade_rows ::
  "i64 \<Rightarrow> document_store \<Rightarrow> (i64 \<times> u8 list \<times> u8 list) list \<Rightarrow> document_store metadata_result" where
  "upgrade_rows now st [] = Inr st"
| "upgrade_rows now st ((k, snapshot, version) # rest) =
     (if length (filter (\<lambda>d. sd_id d = k \<and> sd_crdt_format_version d = 0) (ds_documents st)) \<noteq> 1
      then Inl (DocumentNotFound k)
      else upgrade_rows now
        (st\<lparr> ds_documents := map (\<lambda>d. if sd_id d = k \<and> sd_crdt_format_version d = 0
                                     then promote now snapshot version d else d)
                              (ds_documents st) \<rparr>) rest)"

definition upgrade_documents_to_loro ::
  "string option \<Rightarrow> i64 \<Rightarrow> document_store \<Rightarrow> (i64 \<times> u8 list \<times> u8 list) list \<Rightarrow>
   document_store \<times> unit metadata_result" where
  "upgrade_documents_to_loro fault now st docs =
     (case fault of
        Some e \<Rightarrow> (st, Inl (SqliteError e))
      | None \<Rightarrow> (case upgrade_rows now st docs of
                   Inl e \<Rightarrow> (st, Inl e) | Inr st' \<Rightarrow> (st', Inr ())))"

definition delete_document ::
  "string option \<Rightarrow> document_store \<Rightarrow> i64 \<Rightarrow> document_store \<times> unit metadata_result" where
  "delete_document fault st k =
     (case fault of
        Some e \<Rightarrow> (st, Inl (SqliteError e))
      | None \<Rightarrow>
          (if find_document st k = None then (st, Inl (DocumentNotFound k))
           else (st\<lparr> ds_documents := filter (\<lambda>d. sd_id d \<noteq> k) (ds_documents st),
                     ds_updates := filter (\<lambda>r. fst r \<noteq> k) (ds_updates st) \<rparr>, Inr ())))"

section \<open>The sequence invariant\<close>

text \<open>
  The updates of a document are numbered consecutively from the snapshot to the next free
  number, in insertion order.
\<close>

definition sequenced :: "document_store \<Rightarrow> stored_document \<Rightarrow> bool" where
  "sequenced st d =
     (sd_snapshot_seq d < sd_next_update_seq d \<and>
      map du_server_seq (updates_of st (sd_id d)) = [sd_snapshot_seq d + 1 .. sd_next_update_seq d - 1])"

definition store_ok :: "document_store \<Rightarrow> bool" where
  "store_ok st = (distinct (map sd_id (ds_documents st)) \<and> list_all (sequenced st) (ds_documents st))"

definition store_base :: "document_store \<Rightarrow> i64 \<Rightarrow> u8 list option" where
  "store_base st k = map_option sd_crdt_state (find_document st k)"

definition store_log :: "document_store \<Rightarrow> i64 \<Rightarrow> u8 list list" where
  "store_log st k = map du_update_bytes (updates_of st k)"

definition store_head :: "document_store \<Rightarrow> i64 \<Rightarrow> i64" where
  "store_head st k = (case find_document st k of Some d \<Rightarrow> sd_next_update_seq d - 1 | None \<Rightarrow> 0)"

definition store_fresh :: "document_store \<Rightarrow> i64 \<Rightarrow> new_document_update \<Rightarrow> bool" where
  "store_fresh st k u =
     list_all (\<lambda>r. \<not> (du_update_id r = nu_update_id u \<and> du_replica_id r = nu_replica_id u))
       (updates_of st k)"

lemma find_document_Some:
  "find_document st k = Some d \<Longrightarrow> d \<in> set (ds_documents st) \<and> sd_id d = k"
  by (auto simp: find_document_def find_Some_iff)

lemma find_distinct_id:
  "distinct (map sd_id ds) \<Longrightarrow> d \<in> set ds \<Longrightarrow> find (\<lambda>x. sd_id x = sd_id d) ds = Some d"
  by (induction ds) (auto simp: rev_image_eqI)

lemma find_map_update:
  "(\<And>d. sd_id (f d) = sd_id d) \<Longrightarrow>
   find (\<lambda>d. sd_id d = k') (map (\<lambda>d. if sd_id d = k then f d else d) ds) =
     (if k' = k then map_option f (find (\<lambda>d. sd_id d = k') ds) else find (\<lambda>d. sd_id d = k') ds)"
  by (induction ds) auto

lemma find_document_update:
  "(\<And>d. sd_id (f d) = sd_id d) \<Longrightarrow>
   find_document (update_document k f st) k' =
     (if k' = k then map_option f (find_document st k') else find_document st k')"
  by (simp add: find_document_def update_document_def find_map_update)

lemma find_document_updates [simp]:
  "find_document (st\<lparr> ds_updates := us \<rparr>) k = find_document st k"
  by (simp add: find_document_def)

lemma updates_of_update [simp]: "updates_of (update_document k f st) k' = updates_of st k'"
  by (simp add: updates_of_def update_document_def)

lemma updates_of_snoc:
  "updates_of (st\<lparr> ds_updates := ds_updates st @ [(k, u)] \<rparr>) k' =
     updates_of st k' @ (if k' = k then [u] else [])"
  by (simp add: updates_of_def)

lemma sequenced_cong:
  "sd_id d = sd_id d' \<Longrightarrow> sd_snapshot_seq d = sd_snapshot_seq d' \<Longrightarrow>
   sd_next_update_seq d = sd_next_update_seq d' \<Longrightarrow>
   updates_of st (sd_id d) = updates_of st' (sd_id d) \<Longrightarrow> sequenced st d = sequenced st' d'"
  by (simp add: sequenced_def)

lemma store_ok_sequenced: "store_ok st \<Longrightarrow> find_document st k = Some d \<Longrightarrow> sequenced st d"
  by (auto simp: store_ok_def list_all_iff dest: find_document_Some)

text \<open>Changing one document's row and its updates.\<close>

lemma store_ok_change:
  assumes "store_ok st" and "\<And>d. sd_id (f d) = sd_id d"
    and "ds_documents st' = ds_documents (update_document k f st)"
    and "\<And>k'. k' \<noteq> k \<Longrightarrow> updates_of st' k' = updates_of st k'"
    and "\<And>d. find_document st k = Some d \<Longrightarrow> sequenced st' (f d)"
  shows "store_ok st'"
proof -
  have ids: "map sd_id (ds_documents st') = map sd_id (ds_documents st)"
    using assms(2,3) by (simp add: update_document_def comp_def)
  have "sequenced st' d'" if d': "d' \<in> set (ds_documents st')" for d'
  proof -
    from d' assms(3) obtain d where d: "d \<in> set (ds_documents st)"
      "d' = (if sd_id d = k then f d else d)" by (auto simp: update_document_def)
    show ?thesis
    proof (cases "sd_id d = k")
      case True
      have "find_document st k = Some d"
        using assms(1) d(1) True find_distinct_id [of "ds_documents st" d]
        by (simp add: find_document_def store_ok_def)
      with assms(5) d True show ?thesis by simp
    next
      case False
      with d assms(1) have "sequenced st d" by (simp add: store_ok_def list_all_iff)
      with False d assms(4) [of "sd_id d"] show ?thesis by (simp add: sequenced_def)
    qed
  qed
  then show ?thesis using assms(1) ids by (simp add: store_ok_def list_all_iff)
qed

lemma append_fresh_store:
  assumes "store_ok st" and "store_fresh st k u"
    and "append_document_update fault now st k u = (st', Inr n)"
  shows "store_ok st' \<and> store_log st' k = store_log st k @ [nu_update_bytes u]
    \<and> store_base st' k = store_base st k \<and> n = store_head st' k"
proof -
  have nofault: "fault = None"
    using assms(3) by (auto simp: append_document_update_def split: option.splits)
  obtain d where d: "find_document st k = Some d"
    using assms(3) nofault by (auto simp: append_document_update_def split: option.splits)
  have new: "find (\<lambda>r. du_update_id r = nu_update_id u \<and> du_replica_id r = nu_replica_id u)
      (updates_of st k) = None"
    using assms(2) by (auto simp: store_fresh_def list_all_iff find_None_iff)
  define r where "r = \<lparr> du_server_seq = sd_next_update_seq d, du_update_id = nu_update_id u,
      du_replica_id = nu_replica_id u, du_submitted_by = nu_submitted_by u,
      du_update_bytes = nu_update_bytes u, du_decoded_len = nu_decoded_len u, du_created_at = now \<rparr>"
  have r: "du_server_seq r = sd_next_update_seq d" "du_update_bytes r = nu_update_bytes u"
    by (simp_all add: r_def)
  have "\<not> list_ex (\<lambda>r. du_server_seq r = sd_next_update_seq d) (updates_of st k)"
    using assms(3) by (rule contrapos_pn) (simp add: append_document_update_def nofault d new Let_def)
  then have st': "st' = update_document k (\<lambda>d'. d'\<lparr> sd_next_update_seq := sd_next_update_seq d + 1,
        sd_updated_at := now \<rparr>) (st\<lparr> ds_updates := ds_updates st @ [(k, r)] \<rparr>)"
    and n: "n = sd_next_update_seq d"
    using assms(3) by (auto simp: append_document_update_def nofault d new r_def Let_def)
  have ups: "updates_of st' k' = updates_of st k' @ (if k' = k then [r] else [])" for k'
    by (simp add: st' updates_of_snoc)
  have found: "find_document st' k = Some (d\<lparr> sd_next_update_seq := sd_next_update_seq d + 1,
      sd_updated_at := now \<rparr>)"
    by (simp add: st' find_document_update d)
  have seq: "sequenced st d" using store_ok_sequenced assms(1) d by blast
  have "store_ok st'"
  proof (rule store_ok_change [OF assms(1)])
    show "ds_documents st' = ds_documents (update_document k (\<lambda>d'. d'\<lparr> sd_next_update_seq :=
        sd_next_update_seq d + 1, sd_updated_at := now \<rparr>) st)"
      by (simp add: st' update_document_def)
    fix d' assume "find_document st k = Some d'"
    with d seq find_document_Some [OF d] r show
      "sequenced st' (d'\<lparr> sd_next_update_seq := sd_next_update_seq d + 1, sd_updated_at := now \<rparr>)"
      by (auto simp: sequenced_def ups upto_rec2)
  qed (simp_all add: ups)
  then show ?thesis
    by (simp add: store_log_def ups r store_base_def found d store_head_def n)
qed

lemma replace_head_store:
  assumes "store_ok st"
    and "replace_document_snapshot fault now st k b version (store_head st k) = (st', Inr ())"
  shows "store_ok st' \<and> store_log st' k = [] \<and> store_base st' k = Some b
    \<and> store_head st' k = store_head st k"
proof -
  have nofault: "fault = None"
    using assms(2) by (auto simp: replace_document_snapshot_def split: option.splits)
  obtain d where d: "find_document st k = Some d"
    using assms(2) nofault by (auto simp: replace_document_snapshot_def split: if_splits)
  let ?h = "store_head st k"
  have h: "?h = sd_next_update_seq d - 1" by (simp add: store_head_def d)
  let ?f = "\<lambda>d. d\<lparr> sd_crdt_state := b, sd_snapshot_version := version, sd_snapshot_seq := ?h,
      sd_updated_at := now \<rparr>"
  have st': "st' = (update_document k ?f st)\<lparr> ds_updates :=
      filter (\<lambda>r. \<not> (fst r = k \<and> du_server_seq (snd r) \<le> ?h)) (ds_updates st) \<rparr>"
    using assms(2) nofault by (simp add: replace_document_snapshot_def d Let_def update_document_def)
  have seq: "sequenced st d" using store_ok_sequenced assms(1) d by blast
  then have below: "du_server_seq r \<le> ?h" if "r \<in> set (updates_of st k)" for r
    using that find_document_Some [OF d] unfolding sequenced_def h
    by (metis atLeastAtMost_iff imageI list.set_map set_upto)
  have gone: "updates_of st' k = []"
    using below by (auto simp: st' updates_of_def filter_empty_conv)
  have others: "updates_of st' k' = updates_of st k'" if "k' \<noteq> k" for k'
    using that by (auto simp: st' updates_of_def intro!: arg_cong [of _ _ "map snd"] filter_cong)
  have found: "find_document st' k = Some (?f d)"
    by (simp add: st' find_document_update d)
  have "store_ok st'"
  proof (rule store_ok_change [OF assms(1)])
    show "ds_documents st' = ds_documents (update_document k ?f st)" by (simp add: st')
    fix d' assume "find_document st k = Some d'"
    with d gone find_document_Some [OF d] h show "sequenced st' (?f d')"
      by (auto simp: sequenced_def)
  qed (simp_all add: others)
  then show ?thesis
    by (simp add: store_log_def gone store_base_def found store_head_def) (simp add: d)
qed

interpretation document_log:
  update_log store_ok store_base store_log store_head "append_document_update fault now"
    "\<lambda>st k b n. replace_document_snapshot fault now st k b version n" nu_update_bytes store_fresh
  for fault now version
proof (unfold_locales, goal_cases)
  case (1 s k u s' n)
  then show ?case by (rule append_fresh_store)
next
  case (2 s k u s' r k')
  then show ?case
    by (auto simp: append_document_update_def Let_def store_log_def store_base_def
        find_document_update updates_of_snoc split: option.splits if_splits)
next
  case (3 s k u s' e)
  then show ?case
    by (auto simp: append_document_update_def Let_def split: option.splits if_splits)
next
  case (4 s k b s')
  then show ?case by (rule replace_head_store)
next
  case (5 s k b n s' e)
  then show ?case
    by (auto simp: replace_document_snapshot_def Let_def split: option.splits if_splits)
qed

end
