(* ===== verification/Document_Actor.thy ===== *)
theory Document_Actor
  imports Text_Replica Document_Store
begin

text \<open>
  The document actor of \<^verbatim>\<open>crates/server/src/document_actor.rs\<close>: a committed replica in front of
  the durable log. Updates are validated on a fork, appended to the log and only then applied.

  Byte counters are natural numbers: the history limit bounds them. SHA-256 and the UTF-8
  decoder are parameters, and each database call may fail (\<open>fault\<close>).
\<close>

section \<open>State\<close>

record collaboration_limits =
  cl_max_document_text_bytes :: nat
  cl_max_document_update_bytes :: nat
  cl_max_document_history_bytes :: nat
  cl_snapshot_update_threshold :: nat
  cl_snapshot_log_bytes_threshold :: nat

definition collaboration_limits_default :: collaboration_limits where
  "collaboration_limits_default =
     \<lparr> cl_max_document_text_bytes = 8 * 1024 * 1024,
       cl_max_document_update_bytes = 1024 * 1024,
       cl_max_document_history_bytes = 256 * 1024 * 1024,
       cl_snapshot_update_threshold = 256,
       cl_snapshot_log_bytes_threshold = 4 * 1024 * 1024 \<rparr>"

datatype apply_error =
    InvalidUpdate string
  | DependenciesMissing
  | DocumentTooLarge
  | ApplyDoc doc_error
  | ApplyMetadata metadata_error

datatype apply_outcome = Applied i64 string | Idempotent

record authored_replacement =
  ar_outcome :: apply_outcome
  ar_update_bytes :: "u8 list"
  ar_server_version :: "u8 list"
  ar_replica_id :: u64

record 'd document_actor =
  da_document :: i64
  da_committed :: 'd
  da_limits :: collaboration_limits
  da_last_seq :: i64
  da_updates_since_snapshot :: nat
  da_bytes_since_snapshot :: nat
  da_base_snapshot_bytes :: nat

record actor_env =
  ae_sha256 :: "u8 list \<Rightarrow> u8 list"
  ae_from_utf8 :: "u8 list \<Rightarrow> string option"

definition fingerprint_version :: "actor_env \<Rightarrow> u8 list \<Rightarrow> string" where
  "fingerprint_version env version =
     concat (map (\<lambda>b. hex_padded 2 (unat b)) (take 8 (ae_sha256 env version)))"

section \<open>Operations\<close>

text \<open>The loop of \<^verbatim>\<open>load\<close> over the stored updates: replica, last sequence, bytes and count.\<close>

fun load_updates ::
  "('d, 'v, 'f) loro \<Rightarrow> document_update list \<Rightarrow> 'd \<times> i64 \<times> nat \<times> nat \<Rightarrow>
   (apply_error, 'd \<times> i64 \<times> nat \<times> nat) result" where
  "load_updates L [] acc = Inr acc"
| "load_updates L (u # us) (d, last_seq, bytes, updates) =
     (case replica_import L d (du_update_bytes u) of
        (d, Inl e) \<Rightarrow> Inl (ApplyDoc e)
      | (d, Inr _) \<Rightarrow>
          load_updates L us
            (d, du_server_seq u, bytes + nat (max (du_decoded_len u) 0), Suc updates))"

definition actor_load ::
  "('d, 'v, 'f) loro \<Rightarrow> string option \<Rightarrow> string option \<Rightarrow> u64 \<Rightarrow> document_store \<Rightarrow> i64 \<Rightarrow>
   collaboration_limits \<Rightarrow> (apply_error, 'd document_actor) result" where
  "actor_load L fault1 fault2 random st document limits =
     res_bind (map_err ApplyMetadata (get_document fault1 st document)) (\<lambda>row.
     res_bind (map_err ApplyDoc
                 (replica_from_snapshot L (random_peer_id random) (sd_crdt_state row))) (\<lambda>d.
     res_bind (map_err ApplyMetadata
                 (list_document_updates_since fault2 st document (sd_snapshot_seq row))) (\<lambda>us.
     res_bind (load_updates L us (d, sd_snapshot_seq row, 0, 0)) (\<lambda>(d, last_seq, bytes, updates).
       Inr \<lparr> da_document = document, da_committed = d, da_limits = limits,
             da_last_seq = last_seq, da_updates_since_snapshot = updates,
             da_bytes_since_snapshot = bytes,
             da_base_snapshot_bytes = length (sd_crdt_state row) \<rparr>))))"

definition actor_text :: "('d, 'v, 'f) loro \<Rightarrow> 'd document_actor \<Rightarrow> string" where
  "actor_text L a = lo_text L (da_committed a)"

definition actor_snapshot ::
  "('d, 'v, 'f) loro \<Rightarrow> 'd document_actor \<Rightarrow> (apply_error, u8 list) result" where
  "actor_snapshot L a = map_err ApplyDoc (replica_export_snapshot L (da_committed a))"

definition actor_updates_since ::
  "('d, 'v, 'f) loro \<Rightarrow> 'd document_actor \<Rightarrow> u8 list \<Rightarrow> (apply_error, u8 list) result" where
  "actor_updates_since L a known = map_err ApplyDoc (export_updates_since L (da_committed a) known)"

text \<open>The validation of an update on a fork, before anything is stored.\<close>

definition validate_update ::
  "('d, 'v, 'f) loro \<Rightarrow> 'd document_actor \<Rightarrow> u8 list \<Rightarrow> (apply_error, import_outcome) result" where
  "validate_update L a bytes =
     (let limits = da_limits a in
      if cl_max_document_update_bytes limits < length bytes
      then Inl (InvalidUpdate (''update is '' @ show_nat (length bytes) @ '' bytes, over the ''
                  @ show_nat (cl_max_document_update_bytes limits) @ ''-byte limit''))
      else
        (case replica_import L (lo_fork L (da_committed a)) bytes of
           (_, Inl e) \<Rightarrow> Inl (InvalidUpdate (doc_error_show e))
         | (validation, Inr ImportPending) \<Rightarrow> Inl DependenciesMissing
         | (validation, Inr ImportNoOp) \<Rightarrow> Inr ImportNoOp
         | (validation, Inr ImportApplied) \<Rightarrow>
             (case replica_validate L validation (cl_max_document_text_bytes limits) of
                Inl e \<Rightarrow> Inl (InvalidUpdate (doc_error_show e))
              | Inr _ \<Rightarrow>
                  (if cl_max_document_history_bytes limits
                        < da_base_snapshot_bytes a + da_bytes_since_snapshot a + length bytes
                   then Inl DocumentTooLarge else Inr ImportApplied))))"

definition apply_update ::
  "('d, 'v, 'f) loro \<Rightarrow> actor_env \<Rightarrow> string option \<Rightarrow> i64 \<Rightarrow> document_store \<Rightarrow> 'd document_actor \<Rightarrow>
   i64 \<Rightarrow> string \<Rightarrow> string \<Rightarrow> u8 list \<Rightarrow>
   document_store \<times> 'd document_actor \<times> (apply_error, apply_outcome) result" where
  "apply_update L env fault now st a submitted_by replica_id update_id bytes =
     (case validate_update L a bytes of
        Inl e \<Rightarrow> (st, a, Inl e)
      | Inr ImportApplied \<Rightarrow>
          (case append_document_update fault now st (da_document a)
                  \<lparr> nu_update_id = update_id, nu_replica_id = replica_id,
                    nu_submitted_by = submitted_by, nu_update_bytes = bytes,
                    nu_decoded_len = int (length bytes) \<rparr> of
             (st, Inl e) \<Rightarrow> (st, a, Inl (ApplyMetadata e))
           | (st, Inr server_seq) \<Rightarrow>
               (case replica_import L (da_committed a) bytes of
                  (d, Inl e) \<Rightarrow> (st, a\<lparr> da_committed := d \<rparr>, Inl (ApplyDoc e))
                | (d, Inr _) \<Rightarrow>
                    (st,
                     a\<lparr> da_committed := d, da_last_seq := server_seq,
                        da_updates_since_snapshot := Suc (da_updates_since_snapshot a),
                        da_bytes_since_snapshot := da_bytes_since_snapshot a + length bytes \<rparr>,
                     Inr (Applied server_seq
                            (fingerprint_version env (replica_version_vector L d))))))
      | Inr _ \<Rightarrow> (st, a, Inr Idempotent))"

definition author_replacement ::
  "('d, 'v, 'f) loro \<Rightarrow> actor_env \<Rightarrow> string option \<Rightarrow> i64 \<Rightarrow> document_store \<Rightarrow> 'd document_actor \<Rightarrow>
   i64 \<Rightarrow> string \<Rightarrow> string \<Rightarrow> string \<Rightarrow>
   document_store \<times> 'd document_actor \<times> (apply_error, authored_replacement option) result" where
  "author_replacement L env fault now st a submitted_by replica_id update_id replacement =
     (if lo_text L (da_committed a) = replacement then (st, a, Inr None)
      else
        (let since = replica_version_vector L (da_committed a);
             fork = lo_fork L (da_committed a);
             current_len = char_count (lo_text L fork);
             authored =
               res_bind (if 0 < current_len then replica_delete L fork 0 current_len else Inr fork)
                 (\<lambda>d. if replacement \<noteq> [] then replica_insert L d 0 replacement else Inr d);
             update = res_bind authored (\<lambda>d.
               res_bind (export_updates_since L d since) (\<lambda>bytes. Inr (d, bytes)))
         in case update of
              Inl e \<Rightarrow> (st, a, Inl (ApplyDoc e))
            | Inr (d, bytes) \<Rightarrow>
                (case apply_update L env fault now st a submitted_by replica_id update_id bytes of
                   (st, a, Inl e) \<Rightarrow> (st, a, Inl e)
                 | (st, a, Inr outcome) \<Rightarrow>
                     (st, a, Inr (Some \<lparr> ar_outcome = outcome, ar_update_bytes = bytes,
                        ar_server_version = replica_version_vector L (da_committed a),
                        ar_replica_id = lo_peer_id L d \<rparr>)))))"

definition should_compact :: "'d document_actor \<Rightarrow> bool" where
  "should_compact a =
     (cl_snapshot_update_threshold (da_limits a) \<le> da_updates_since_snapshot a
    \<or> cl_snapshot_log_bytes_threshold (da_limits a) \<le> da_bytes_since_snapshot a)"

text \<open>The base size is updated before the transaction, which may fail.\<close>

definition actor_compact ::
  "('d, 'v, 'f) loro \<Rightarrow> string option \<Rightarrow> i64 \<Rightarrow> document_store \<Rightarrow> 'd document_actor \<Rightarrow>
   document_store \<times> 'd document_actor \<times> (apply_error, unit) result" where
  "actor_compact L fault now st a =
     (case replica_export_snapshot L (da_committed a) of
        Inl e \<Rightarrow> (st, a, Inl (ApplyDoc e))
      | Inr snapshot \<Rightarrow>
          (let version = replica_version_vector L (da_committed a);
               a = a\<lparr> da_base_snapshot_bytes := length snapshot \<rparr>
           in case replace_document_snapshot fault now st (da_document a) snapshot version
                     (da_last_seq a) of
                (st, Inl e) \<Rightarrow> (st, a, Inl (ApplyMetadata e))
              | (st, Inr _) \<Rightarrow>
                  (st, a\<lparr> da_updates_since_snapshot := 0, da_bytes_since_snapshot := 0 \<rparr>, Inr ())))"

section \<open>The legacy upgrade\<close>

definition upgrade_document ::
  "('d, 'v, 'f) loro \<Rightarrow> actor_env \<Rightarrow> u64 \<Rightarrow> stored_document \<Rightarrow>
   (apply_error, i64 \<times> u8 list \<times> u8 list) result" where
  "upgrade_document L env random doc =
     (case ae_from_utf8 env (sd_crdt_state doc) of
        None \<Rightarrow> Inl (InvalidUpdate (''legacy document '' @ show_int (sd_id doc)
                  @ '' contains non-utf8 bytes; migration aborted''))
      | Some text \<Rightarrow>
          map_err ApplyDoc
            (res_bind (replica_new L (random_peer_id random)) (\<lambda>d.
             res_bind (if text \<noteq> [] then replica_insert L d 0 text else Inr d) (\<lambda>d.
             res_bind (replica_export_snapshot L d) (\<lambda>snapshot.
               Inr (sd_id doc, snapshot, replica_version_vector L d))))))"

definition upgrade_legacy_documents ::
  "('d, 'v, 'f) loro \<Rightarrow> actor_env \<Rightarrow> (nat \<Rightarrow> u64) \<Rightarrow> string option \<Rightarrow> string option \<Rightarrow> i64 \<Rightarrow>
   document_store \<Rightarrow> document_store \<times> (apply_error, nat) result" where
  "upgrade_legacy_documents L env random fault1 fault2 now st =
     (case list_legacy_documents fault1 st of
        Inl e \<Rightarrow> (st, Inl (ApplyMetadata e))
      | Inr legacy \<Rightarrow>
          (case res_map (\<lambda>(i, doc). upgrade_document L env (random i) doc)
                  (zip [0..<length legacy] legacy) of
             Inl e \<Rightarrow> (st, Inl e)
           | Inr built \<Rightarrow>
               (case upgrade_documents_to_loro fault2 now st built of
                  (st, Inl e) \<Rightarrow> (st, Inl (ApplyMetadata e))
                | (st, Inr _) \<Rightarrow> (st, Inr (length built)))))"

section \<open>Durability\<close>

text \<open>Replaying the store on contents; \<open>None\<close> when an import fails.\<close>

definition replay_base ::
  "('d, 'v, 'f) loro \<Rightarrow> ('d \<Rightarrow> 'c) \<Rightarrow> ('c \<Rightarrow> u8 list \<Rightarrow> 'c \<times> (string, import_status) result) \<Rightarrow>
   u8 list \<Rightarrow> 'c option" where
  "replay_base L content imp b =
     (case imp (content (lo_new L)) b of (c, Inr _) \<Rightarrow> Some c | (c, Inl _) \<Rightarrow> None)"

definition replay_update ::
  "('c \<Rightarrow> u8 list \<Rightarrow> 'c \<times> (string, import_status) result) \<Rightarrow> 'c option \<Rightarrow> u8 list \<Rightarrow> 'c option" where
  "replay_update imp oc b =
     (case oc of
        None \<Rightarrow> None
      | Some c \<Rightarrow> (case imp c b of (c', Inr _) \<Rightarrow> Some c' | (c', Inl _) \<Rightarrow> None))"

abbreviation replayed ::
  "('d, 'v, 'f) loro \<Rightarrow> ('d \<Rightarrow> 'c) \<Rightarrow> ('c \<Rightarrow> u8 list \<Rightarrow> 'c \<times> (string, import_status) result) \<Rightarrow>
   document_store \<Rightarrow> i64 \<Rightarrow> 'c option option" where
  "replayed L content imp st k \<equiv>
     document_log.rebuilt (replay_base L content imp) (replay_update imp) st k"

definition durable ::
  "('d, 'v, 'f) loro \<Rightarrow> ('d \<Rightarrow> 'c) \<Rightarrow> ('c \<Rightarrow> u8 list \<Rightarrow> 'c \<times> (string, import_status) result) \<Rightarrow>
   document_store \<Rightarrow> 'd document_actor \<Rightarrow> bool" where
  "durable L content imp st a =
     (store_ok st
    \<and> replayed L content imp st (da_document a) = Some (Some (content (da_committed a)))
    \<and> da_last_seq a = store_head st (da_document a)
    \<and> list_all (covers imp (content (da_committed a))) (store_log st (da_document a)))"

lemma replay_update_Some:
  "replay_update imp (Some c) b = (case imp c b of (c', Inr _) \<Rightarrow> Some c' | (c', Inl _) \<Rightarrow> None)"
  by (simp add: replay_update_def)

lemma foldl_replay_None [simp]: "foldl (replay_update imp) None bs = None"
  by (induction bs) (simp_all add: replay_update_def)

lemma load_updates_replay:
  assumes "loro_laws L content imp"
    and "foldl (replay_update imp) (Some (content d)) (map du_update_bytes us) = Some c"
  shows "\<exists>d' n m. load_updates L us (d, l, x, y)
      = Inr (d', if us = [] then l else du_server_seq (last us), n, m) \<and> content d' = c"
  using assms(2)
proof (induction us arbitrary: d l x y)
  case (Cons u us)
  obtain d1 r where i: "lo_import L d (du_update_bytes u) = (d1, r)" by fastforce
  have im: "imp (content d) (du_update_bytes u) = (content d1, r)"
    using loro_import [OF assms(1), of d "du_update_bytes u"] i by simp
  with Cons.prems obtain s where r: "r = Inr s"
    and rest: "foldl (replay_update imp) (Some (content d1)) (map du_update_bytes us) = Some c"
    by (cases r) (auto simp: replay_update_Some)
  from Cons.IH [OF rest, of "du_server_seq u" "x + nat (max (du_decoded_len u) 0)" "Suc y"]
  show ?case by (auto simp: replica_import_def i r)
qed simp

lemma list_updates_all:
  assumes "store_ok st" and "find_document st k = Some d"
  shows "list_document_updates_since None st k (sd_snapshot_seq d) = Inr (updates_of st k)"
proof -
  from store_ok_sequenced [OF assms] find_document_Some [OF assms(2)]
  have seqs: "map du_server_seq (updates_of st k) = [sd_snapshot_seq d + 1 .. sd_next_update_seq d - 1]"
    by (simp add: sequenced_def)
  have "\<forall>r\<in>set (updates_of st k). sd_snapshot_seq d < du_server_seq r"
  proof
    fix r assume "r \<in> set (updates_of st k)"
    then have "du_server_seq r \<in> set (map du_server_seq (updates_of st k))" by simp
    then show "sd_snapshot_seq d < du_server_seq r" unfolding seqs by simp
  qed
  then have "filter (\<lambda>r. sd_snapshot_seq d < du_server_seq r) (updates_of st k) = updates_of st k"
    by (simp add: filter_id_conv)
  moreover have "sort_key du_server_seq (updates_of st k) = updates_of st k"
    using seqs by (simp add: sort_key_id_if_sorted)
  ultimately show ?thesis by (simp add: list_document_updates_since_def)
qed

lemma last_sequence:
  assumes "store_ok st" and "find_document st k = Some d"
  shows "(if updates_of st k = [] then sd_snapshot_seq d else du_server_seq (last (updates_of st k)))
    = store_head st k"
proof -
  from store_ok_sequenced [OF assms] find_document_Some [OF assms(2)]
  have seqs: "map du_server_seq (updates_of st k) = [sd_snapshot_seq d + 1 .. sd_next_update_seq d - 1]"
    and lt: "sd_snapshot_seq d < sd_next_update_seq d"
    by (simp_all add: sequenced_def)
  show ?thesis
  proof (cases "updates_of st k = []")
    case True
    with seqs have "sd_next_update_seq d - 1 < sd_snapshot_seq d + 1"
      by (metis list.simps(8) not_less upto_Nil2 upto_Nil)
    with lt True show ?thesis by (simp add: store_head_def assms(2))
  next
    case False
    then have "sd_snapshot_seq d + 1 \<le> sd_next_update_seq d - 1"
      using seqs by (metis list.map_disc_iff not_less upto_empty)
    then have "last [sd_snapshot_seq d + 1 .. sd_next_update_seq d - 1] = sd_next_update_seq d - 1"
      by (simp add: upto_rec2)
    with False seqs show ?thesis
      by (metis (no_types, lifting) last_map option.simps(5) store_head_def assms(2))
  qed
qed

lemma load_restores:
  assumes laws: "loro_laws L content imp" and ok: "store_ok st"
    and re: "replayed L content imp st k = Some (Some c)"
  shows "\<exists>a. actor_load L None None random st k limits = Inr a \<and> content (da_committed a) = c
    \<and> da_document a = k \<and> da_limits a = limits \<and> da_last_seq a = store_head st k"
proof -
  from re obtain d where d: "find_document st k = Some d"
    by (auto simp: document_log.rebuilt_def store_base_def)
  from re d have fold: "foldl (replay_update imp) (replay_base L content imp (sd_crdt_state d))
      (store_log st k) = Some c"
    by (simp add: document_log.rebuilt_def store_base_def)
  then obtain c0 where c0: "replay_base L content imp (sd_crdt_state d) = Some c0" by (cases "replay_base L content imp (sd_crdt_state d)") auto
  obtain e r where i: "lo_import L (lo_new L) (sd_crdt_state d) = (e, r)" by fastforce
  with loro_import [OF laws, of "lo_new L" "sd_crdt_state d"] c0 obtain s where
    r: "r = Inr s" and ce: "content e = c0"
    by (cases r) (auto simp: replay_base_def)
  have peer: "random_peer_id random \<noteq> 0" by (simp add: random_peer_id_def)
  obtain e' where e': "lo_set_peer_id L e (random_peer_id random) = Inr e'" "content e' = content e"
    using loro_set_peer [OF laws peer, of e] by blast
  have "foldl (replay_update imp) (Some (content e')) (map du_update_bytes (updates_of st k)) = Some c"
    using fold c0 ce e'(2) by (simp add: store_log_def)
  from load_updates_replay [OF laws this, of "sd_snapshot_seq d" 0 0] obtain d' n m where
    "load_updates L (updates_of st k) (e', sd_snapshot_seq d, 0, 0) = Inr (d', store_head st k, n, m)"
    "content d' = c"
    using last_sequence [OF ok d] by auto
  then show ?thesis
    using list_updates_all [OF ok d]
    by (simp add: actor_load_def get_document_def d replica_from_snapshot_def peer i r e'(1)
        ok_or_def)
qed

lemma validated_import:
  assumes "loro_laws L content imp" and "validate_update L a bytes = Inr ImportApplied"
  shows "snd (replica_import L (da_committed a) bytes) = Inr ImportApplied"
proof -
  obtain v r where "replica_import L (lo_fork L (da_committed a)) bytes = (v, r)" by fastforce
  with assms(2) have "snd (replica_import L (lo_fork L (da_committed a)) bytes) = Inr ImportApplied"
    by (auto simp: validate_update_def Let_def split: if_splits sum.splits import_outcome.splits)
  with import_same_content [OF assms(1) loro_fork [OF assms(1), of "da_committed a"], of bytes]
  show ?thesis by simp
qed

lemma applied_not_covered:
  assumes "loro_laws L content imp" and "validate_update L a bytes = Inr ImportApplied"
  shows "\<not> covers imp (content (da_committed a)) bytes"
  using replica_import_covered(1) [OF assms(1)] validated_import [OF assms] by force

text \<open>How an apply ends, by what validation said.\<close>

lemma apply_update_cases:
  assumes laws: "loro_laws L content imp"
    and res: "apply_update L env fault now st a by_id replica_id update_id bytes = (st', a', r)"
  obtains (kept) "st' = st" "a' = a" "\<And>n f. r \<noteq> Inr (Applied n f)"
  | (applied) n d f where "validate_update L a bytes = Inr ImportApplied"
      "append_document_update fault now st (da_document a)
         \<lparr> nu_update_id = update_id, nu_replica_id = replica_id, nu_submitted_by = by_id,
           nu_update_bytes = bytes, nu_decoded_len = int (length bytes) \<rparr> = (st', Inr n)"
      "replica_import L (da_committed a) bytes = (d, Inr ImportApplied)"
      "a' = a\<lparr> da_committed := d, da_last_seq := n,
              da_updates_since_snapshot := Suc (da_updates_since_snapshot a),
              da_bytes_since_snapshot := da_bytes_since_snapshot a + length bytes \<rparr>"
      "r = Inr (Applied n f)"
proof (cases "validate_update L a bytes = Inr ImportApplied")
  case False
  then show thesis
    using res kept
    by (auto simp: apply_update_def split: sum.splits import_outcome.splits)
next
  case True
  let ?u = "\<lparr> nu_update_id = update_id, nu_replica_id = replica_id, nu_submitted_by = by_id,
      nu_update_bytes = bytes, nu_decoded_len = int (length bytes) \<rparr>"
  obtain st1 q where ap: "append_document_update fault now st (da_document a) ?u = (st1, q)"
    by fastforce
  obtain d where d: "replica_import L (da_committed a) bytes = (d, Inr ImportApplied)"
    using validated_import [OF laws True] by (cases "replica_import L (da_committed a) bytes") auto
  show thesis
  proof (cases q)
    case (Inl e)
    with ap have "st1 = st" using document_log.append_fails by blast
    with Inl ap True res show thesis by (intro kept) (auto simp: apply_update_def)
  next
    case (Inr n)
    with ap True d res show thesis
      by (intro applied [OF True, of n d]) (auto simp: apply_update_def)
  qed
qed

lemma apply_keeps_durable:
  assumes laws: "loro_laws L content imp" and dur: "durable L content imp st a"
    and named: "\<forall>r\<in>set (updates_of st (da_document a)). du_update_id r = update_id \<longrightarrow>
      du_replica_id r = replica_id \<longrightarrow> du_update_bytes r = bytes"
    and res: "apply_update L env fault now st a by_id replica_id update_id bytes = (st', a', r)"
  shows "durable L content imp st' a' \<and> da_document a' = da_document a"
proof (cases rule: apply_update_cases [OF laws res])
  case 1
  with dur show ?thesis by simp
next
  case applied: (2 n d f)
  let ?k = "da_document a" and ?c = "content (da_committed a)"
  let ?u = "\<lparr> nu_update_id = update_id, nu_replica_id = replica_id, nu_submitted_by = by_id,
      nu_update_bytes = bytes, nu_decoded_len = int (length bytes) \<rparr>"
  have ok: "store_ok st" and re: "replayed L content imp st ?k = Some (Some ?c)"
    and cov: "list_all (covers imp ?c) (store_log st ?k)"
    using dur by (simp_all add: durable_def)
  have fresh: "store_fresh st ?k ?u"
    using named cov applied_not_covered [OF laws applied(1)]
    by (auto simp: store_fresh_def list_all_iff store_log_def)
  from document_log.rebuilt_append [OF ok fresh applied(2) re]
  have st': "store_ok st'" "n = store_head st' ?k"
    "replayed L content imp st' ?k = Some (replay_update imp (Some ?c) bytes)" by simp_all
  have log: "store_log st' ?k = store_log st ?k @ [bytes]"
    using document_log.append_fresh [OF ok fresh applied(2)] by simp
  obtain s where i: "imp ?c bytes = (content d, Inr s)"
    using loro_import [OF laws, of "da_committed a" bytes] applied(3)
    by (cases "lo_import L (da_committed a) bytes") (auto simp: replica_import_def split: sum.splits)
  have "covers imp (content d) bytes"
    using replica_import_covered(2) [OF laws, of "da_committed a" bytes] applied(3) by simp
  moreover have "covers imp (content d) b" if "covers imp ?c b" for b
    using loro_covers_mono [OF laws that, of bytes] i by simp
  ultimately have "list_all (covers imp (content d)) (store_log st' ?k)"
    using cov log by (auto simp: list_all_iff)
  then show ?thesis
    using st' i applied(4) by (simp add: durable_def replay_update_Some)
qed

lemma compact_keeps_durable:
  assumes laws: "loro_laws L content imp" and dur: "durable L content imp st a"
    and res: "actor_compact L fault now st a = (st', a', r)"
  shows "durable L content imp st' a' \<and> da_document a' = da_document a"
proof (cases "\<exists>snap. lo_export_snapshot L (da_committed a) = Inr snap
    \<and> (\<exists>s. replace_document_snapshot fault now st (da_document a) snap
        (replica_version_vector L (da_committed a)) (da_last_seq a) = (s, Inr ()))")
  case True
  then obtain snap s where snap: "lo_export_snapshot L (da_committed a) = Inr snap"
    and s: "replace_document_snapshot fault now st (da_document a) snap
        (replica_version_vector L (da_committed a)) (da_last_seq a) = (s, Inr ())" by blast
  have "da_last_seq a = store_head st (da_document a)" and ok: "store_ok st"
    using dur by (simp_all add: durable_def)
  with s have s': "replace_document_snapshot fault now st (da_document a) snap
        (replica_version_vector L (da_committed a)) (store_head st (da_document a)) = (s, Inr ())"
    by simp
  have eq: "st' = s" "da_committed a' = da_committed a" "da_document a' = da_document a"
    "da_last_seq a' = da_last_seq a"
    using res snap s by (auto simp: actor_compact_def replica_export_snapshot_def)
  have "replay_base L content imp snap = Some (content (da_committed a))"
    using loro_snapshot [OF laws snap] by (auto simp: replay_base_def)
  with document_log.rebuilt_replace [OF ok s', of "replay_base L content imp" "replay_update imp"]
  have "replayed L content imp s (da_document a) = Some (Some (content (da_committed a)))" by simp
  with document_log.replace_head [OF ok s'] dur eq show ?thesis by (simp add: durable_def)
next
  case False
  then have "st' = st \<and> da_committed a' = da_committed a \<and> da_document a' = da_document a
      \<and> da_last_seq a' = da_last_seq a"
    using res
    by (auto simp: actor_compact_def replica_export_snapshot_def Let_def map_err_def
        replace_document_snapshot_def split: sum.splits option.splits if_splits)
  with dur show ?thesis by (simp add: durable_def)
qed

section \<open>Runs\<close>

datatype actor_op =
    ApplyOp "string option" i64 i64 string string "u8 list"  \<comment> \<open>fault, now, author, replica, update, bytes\<close>
  | CompactOp "string option" i64

definition actor_op_step ::
  "('d, 'v, 'f) loro \<Rightarrow> actor_env \<Rightarrow> document_store \<times> 'd document_actor \<Rightarrow> actor_op \<Rightarrow>
   document_store \<times> 'd document_actor" where
  "actor_op_step L env w op =
     (case w of (st, a) \<Rightarrow>
        (case op of
           ApplyOp fault now by_id replica_id update_id bytes \<Rightarrow>
             (case apply_update L env fault now st a by_id replica_id update_id bytes of
                (st, a, _) \<Rightarrow> (st, a))
         | CompactOp fault now \<Rightarrow>
             (case actor_compact L fault now st a of (st, a, _) \<Rightarrow> (st, a))))"

text \<open>\<open>payload\<close> names the bytes of an update by its replica and update id.\<close>

definition names_payload :: "(string \<Rightarrow> string \<Rightarrow> u8 list) \<Rightarrow> actor_op \<Rightarrow> bool" where
  "names_payload payload op =
     (case op of
        ApplyOp _ _ _ replica_id update_id bytes \<Rightarrow> bytes = payload replica_id update_id
      | CompactOp _ _ \<Rightarrow> True)"

definition store_named :: "(string \<Rightarrow> string \<Rightarrow> u8 list) \<Rightarrow> document_store \<Rightarrow> i64 \<Rightarrow> bool" where
  "store_named payload st k =
     list_all (\<lambda>r. du_update_bytes r = payload (du_replica_id r) (du_update_id r)) (updates_of st k)"

lemma apply_keeps_named:
  assumes "store_named payload st k" and "bytes = payload replica_id update_id"
    and "append_document_update fault now st k'
      \<lparr> nu_update_id = update_id, nu_replica_id = replica_id, nu_submitted_by = by_id,
        nu_update_bytes = bytes, nu_decoded_len = len \<rparr> = (st', q)"
  shows "store_named payload st' k"
  using assms
  by (auto simp: append_document_update_def Let_def store_named_def updates_of_snoc
      split: option.splits if_splits)

lemma replace_keeps_named:
  assumes "store_named payload st k" and "replace_document_snapshot fault now st k' b v n = (st', q)"
  shows "store_named payload st' k"
proof -
  have "set (updates_of st' k) \<subseteq> set (updates_of st k)"
    using assms(2)
    by (auto simp: replace_document_snapshot_def Let_def updates_of_def update_document_def
        split: option.splits if_splits)
  with assms(1) show ?thesis by (auto simp: store_named_def list_all_iff)
qed

lemma actor_op_step_durable:
  assumes laws: "loro_laws L content imp" and dur: "durable L content imp st a"
    and named: "store_named payload st (da_document a)" and op: "names_payload payload op"
    and step: "actor_op_step L env (st, a) op = (st', a')"
  shows "durable L content imp st' a' \<and> store_named payload st' (da_document a')
    \<and> da_document a' = da_document a"
proof (cases op)
  case (ApplyOp fault now by_id replica_id update_id bytes)
  with step obtain r where
    res: "apply_update L env fault now st a by_id replica_id update_id bytes = (st', a', r)"
    by (auto simp: actor_op_step_def split: prod.splits)
  have bytes: "bytes = payload replica_id update_id" using op ApplyOp by (simp add: names_payload_def)
  with named have "\<forall>r\<in>set (updates_of st (da_document a)). du_update_id r = update_id \<longrightarrow>
      du_replica_id r = replica_id \<longrightarrow> du_update_bytes r = bytes"
    by (auto simp: store_named_def list_all_iff)
  from apply_keeps_durable [OF laws dur this res]
  have d: "durable L content imp st' a'" "da_document a' = da_document a" by simp_all
  moreover have "store_named payload st' (da_document a)"
  proof (cases rule: apply_update_cases [OF laws res])
    case 1
    with named show ?thesis by simp
  next
    case applied: (2 n d f)
    from apply_keeps_named [OF named bytes applied(2)] show ?thesis .
  qed
  ultimately show ?thesis by simp
next
  case (CompactOp fault now)
  with step obtain r where res: "actor_compact L fault now st a = (st', a', r)"
    by (auto simp: actor_op_step_def split: prod.splits)
  have "store_named payload st' (da_document a)"
    using res named
    by (auto simp: actor_compact_def Let_def split: sum.splits prod.splits
        intro: replace_keeps_named)
  with compact_keeps_durable [OF laws dur res] show ?thesis by simp
qed

lemma actor_run_durable:
  assumes laws: "loro_laws L content imp"
  shows "durable L content imp st a \<Longrightarrow> store_named payload st (da_document a) \<Longrightarrow>
    list_all (names_payload payload) ops \<Longrightarrow>
    foldl (actor_op_step L env) (st, a) ops = (st', a') \<Longrightarrow>
    durable L content imp st' a' \<and> da_document a' = da_document a"
proof (induction ops arbitrary: st a)
  case (Cons op ops)
  obtain st1 a1 where s: "actor_op_step L env (st, a) op = (st1, a1)" by fastforce
  from Cons.prems(3) have "names_payload payload op" by simp
  from actor_op_step_durable [OF laws Cons.prems(1,2) this s]
  have d: "durable L content imp st1 a1" "store_named payload st1 (da_document a1)"
    "da_document a1 = da_document a" by auto
  from Cons.IH [OF d(1,2)] Cons.prems(3,4) s d(3) show ?case by simp
qed simp

lemma loaded_durable:
  assumes laws: "loro_laws L content imp" and ok: "store_ok st"
    and base: "store_base st k = Some b" "store_log st k = []"
    and snap: "replay_base L content imp b = Some c"
    and load: "actor_load L None None random st k limits = Inr a"
  shows "durable L content imp st a \<and> da_document a = k"
proof -
  have re: "replayed L content imp st k = Some (Some c)"
    using base snap by (simp add: document_log.rebuilt_def)
  from load_restores [OF laws ok this, of random limits] load base re ok show ?thesis
    by (auto simp: durable_def)
qed


text \<open>A store with one empty document, and the actor loaded from it.\<close>

definition demo_store :: document_store where
  "demo_store =
     \<lparr> ds_documents =
         [\<lparr> sd_id = 7, sd_room_id = 3, sd_kind = ''sql'', sd_title = ''q'', sd_crdt_type = ''loro'',
            sd_crdt_state = [], sd_crdt_format_version = 1, sd_snapshot_seq = 0,
            sd_next_update_seq = 1, sd_snapshot_version = [], sd_position = 0,
            sd_connection_profile_id = None, sd_created_at = 0, sd_updated_at = 0 \<rparr>],
       ds_updates = [] \<rparr>"

definition demo_actor :: "u8 set document_actor" where
  "demo_actor =
     \<lparr> da_document = 7, da_committed = {}, da_limits = collaboration_limits_default,
       da_last_seq = 0, da_updates_since_snapshot = 0, da_bytes_since_snapshot = 0,
       da_base_snapshot_bytes = 0 \<rparr>"

definition demo_actor_env :: actor_env where
  "demo_actor_env = \<lparr> ae_sha256 = id, ae_from_utf8 = (\<lambda>b. Some []) \<rparr>"

lemma demo_store_ok: "store_ok demo_store"
  by (simp add: store_ok_def demo_store_def sequenced_def updates_of_def)

lemma demo_loads:
  "actor_load demo_loro None None 5 demo_store 7 collaboration_limits_default = Inr demo_actor"
  by (simp add: actor_load_def get_document_def find_document_def demo_store_def
      replica_from_snapshot_def random_peer_id_def demo_loro_def demo_import_def
      list_document_updates_since_def updates_of_def demo_actor_def ok_or_def)

lemma demo_base:
  "store_base demo_store 7 = Some []" "store_log demo_store 7 = []"
  "replay_base demo_loro id demo_import [] = Some {}"
  by (simp_all add: store_base_def store_log_def updates_of_def find_document_def demo_store_def
      replay_base_def demo_loro_def demo_import_def)

definition demo_ops :: "actor_op list" where
  "demo_ops =
     [ApplyOp None 9 1 ''r'' ''u1'' [2, 3], CompactOp None 9, ApplyOp None 9 1 ''r'' ''u2'' [4]]"


lemma append_stored:
  assumes "\<not> store_fresh st k u" and "find_document st k \<noteq> None"
  shows "\<exists>n. append_document_update None now st k u = (st, Inr n)"
proof -
  have "find (\<lambda>r. du_update_id r = nu_update_id u \<and> du_replica_id r = nu_replica_id u)
      (updates_of st k) \<noteq> None"
    using assms(1) by (auto simp: store_fresh_def list_all_iff find_None_iff)
  with assms(2) show ?thesis by (auto simp: append_document_update_def)
qed

text \<open>
  C35: the condition on update ids is needed. When a replica reuses a stored update id for a
  different update that validates, the server stores nothing, yet applies and acknowledges it:
  the live replica then holds operations that no reconstruction from the store has.
\<close>

theorem reused_update_id_is_lost:
  assumes "loro_laws L content imp" and "durable L content imp st a"
    and "\<not> store_fresh st (da_document a) \<lparr> nu_update_id = update_id, nu_replica_id = replica_id,
           nu_submitted_by = by_id, nu_update_bytes = bytes, nu_decoded_len = int (length bytes) \<rparr>"
    and "validate_update L a bytes = Inr ImportApplied"
    and "content (fst (replica_import L (da_committed a) bytes)) \<noteq> content (da_committed a)"
  shows "\<exists>a' n f. apply_update L env None now st a by_id replica_id update_id bytes
        = (st, a', Inr (Applied n f))
    \<and> (\<exists>a''. actor_load L None None random st (da_document a) limits = Inr a''
          \<and> content (da_committed a'') \<noteq> content (da_committed a'))"
proof -
  let ?u = "\<lparr> nu_update_id = update_id, nu_replica_id = replica_id, nu_submitted_by = by_id,
      nu_update_bytes = bytes, nu_decoded_len = int (length bytes) \<rparr>"
  obtain d where d: "replica_import L (da_committed a) bytes = (d, Inr ImportApplied)"
    using validated_import [OF assms(1,4)] by (cases "replica_import L (da_committed a) bytes") auto
  have dur: "store_ok st" "replayed L content imp st (da_document a)
      = Some (Some (content (da_committed a)))"
    using assms(2) by (simp_all add: durable_def)
  obtain n where ap: "append_document_update None now st (da_document a) ?u = (st, Inr n)"
    using append_stored [OF assms(3)] dur(2) by (auto simp: document_log.rebuilt_def store_base_def)
  have "\<exists>a' f. apply_update L env None now st a by_id replica_id update_id bytes
      = (st, a', Inr (Applied n f)) \<and> da_committed a' = d"
    by (simp add: apply_update_def assms(4) ap d)
  moreover obtain a'' where "actor_load L None None random st (da_document a) limits = Inr a''"
    "content (da_committed a'') = content (da_committed a)"
    using load_restores [OF assms(1) dur, of random limits] by blast
  ultimately show ?thesis using assms(5) d by auto
qed

definition demo_store_used :: document_store where
  "demo_store_used =
     fst (actor_op_step demo_loro demo_actor_env (demo_store, demo_actor)
            (ApplyOp None 9 1 ''r'' ''u1'' [2]))"

definition demo_actor_used :: "u8 set document_actor" where
  "demo_actor_used =
     snd (actor_op_step demo_loro demo_actor_env (demo_store, demo_actor)
            (ApplyOp None 9 1 ''r'' ''u1'' [2]))"

lemmas demo_apply_defs = actor_op_step_def apply_update_def validate_update_def demo_actor_def
  collaboration_limits_default_def replica_import_def replica_validate_def text_root_def
  append_document_update_def demo_store_def find_document_def updates_of_def update_document_def

lemma demo_used_durable: "durable demo_loro id demo_import demo_store_used demo_actor_used"
proof -
  have d: "durable demo_loro id demo_import demo_store demo_actor \<and> da_document demo_actor = 7"
    by (rule loaded_durable [OF demo_loro_laws demo_store_ok demo_base demo_loads])
  have "durable demo_loro id demo_import demo_store_used demo_actor_used
      \<and> store_named (\<lambda>r u. [2]) demo_store_used (da_document demo_actor_used)
      \<and> da_document demo_actor_used = da_document demo_actor"
    using d by (intro actor_op_step_durable [OF demo_loro_laws, of demo_store])
      (auto simp: names_payload_def store_named_def updates_of_def demo_store_def
        demo_store_used_def demo_actor_used_def)
  then show ?thesis by simp
qed

theorem reused_update_id_is_lost_witness:
  "\<exists>a' n f. apply_update demo_loro demo_actor_env None 9 demo_store_used demo_actor_used 1 ''r'' ''u1'' [4]
        = (demo_store_used, a', Inr (Applied n f))"
  using reused_update_id_is_lost [OF demo_loro_laws demo_used_durable, of "''u1''" "''r''" 1 "[4]"]
  by (auto simp: store_fresh_def demo_store_used_def demo_actor_used_def demo_apply_defs
      demo_loro_def demo_import_def)

end
