(* ===== verification/Document_Registry.thy ===== *)
theory Document_Registry
  imports Interfaces Document_Actor
begin

text \<open>
  The registry of \<^verbatim>\<open>crates/server/src/document_registry.rs\<close>: the cache of loaded actors, the
  live-writer leases and the guards that hold them for a connection.

  A shared actor is its handle; whether somebody outside the cache holds it (a strong count
  above one) is the parameter \<open>busy\<close>. Each method is one atomic step.
\<close>

section \<open>State\<close>

definition max_cached_actors :: nat where "max_cached_actors = 64"

record cached_actor =
  ca_handle :: nat
  ca_last_used :: u64

record document_registry =
  dr_actors :: "(i64 \<times> cached_actor) list"
  dr_cache_clock :: u64
  dr_leases :: "i64 \<rightharpoonup> string set"
  dr_limits :: collaboration_limits
  dr_runtime_epoch :: string
  dr_event_seq :: u64

definition registry_new :: "collaboration_limits \<Rightarrow> string \<Rightarrow> document_registry" where
  "registry_new limits epoch =
     \<lparr> dr_actors = [], dr_cache_clock = 0, dr_leases = Map.empty, dr_limits = limits,
       dr_runtime_epoch = epoch, dr_event_seq = 0 \<rparr>"

definition next_event_seq :: "document_registry \<Rightarrow> document_registry \<times> u64" where
  "next_event_seq r = (r\<lparr> dr_event_seq := dr_event_seq r + 1 \<rparr>, dr_event_seq r + 1)"

section \<open>The actor cache\<close>

definition idle_candidates :: "(nat \<Rightarrow> bool) \<Rightarrow> document_registry \<Rightarrow> (i64 \<times> u64) list" where
  "idle_candidates busy r =
     sort_key snd (map (\<lambda>(k, c). (k, ca_last_used c))
       (filter (\<lambda>(k, c). \<not> busy (ca_handle c)) (dr_actors r)))"

definition trim_idle_cache :: "(nat \<Rightarrow> bool) \<Rightarrow> document_registry \<Rightarrow> document_registry" where
  "trim_idle_cache busy r =
     (let remove = length (dr_actors r) - (max_cached_actors - 1);
          victims = take remove (idle_candidates busy r)
      in r\<lparr> dr_actors := filter (\<lambda>(k, c). \<not> (\<not> busy (ca_handle c) \<and> (k, ca_last_used c) \<in> set victims))
                          (dr_actors r) \<rparr>)"

definition touch :: "i64 \<Rightarrow> u64 \<Rightarrow> document_registry \<Rightarrow> document_registry" where
  "touch k used r =
     r\<lparr> dr_actors := map (\<lambda>(k', c). (k', if k' = k then c\<lparr> ca_last_used := used \<rparr> else c))
                      (dr_actors r) \<rparr>"

text \<open>\<open>load\<close> is the result of \<^verbatim>\<open>DocumentActor::load\<close> behind a new handle.\<close>

definition get_or_load ::
  "(nat \<Rightarrow> bool) \<Rightarrow> (apply_error, nat) result \<Rightarrow> document_registry \<Rightarrow> i64 \<Rightarrow>
   document_registry \<times> (apply_error, nat) result" where
  "get_or_load busy load r document =
     (let used = dr_cache_clock r;
          r = r\<lparr> dr_cache_clock := used + 1 \<rparr>
      in case map_of (dr_actors r) document of
           Some cached \<Rightarrow> (touch document used r, Inr (ca_handle cached))
         | None \<Rightarrow>
             (let r = trim_idle_cache busy r in
              case load of
                Inl e \<Rightarrow> (r, Inl e)
              | Inr h \<Rightarrow>
                  (r\<lparr> dr_actors := dr_actors r @
                       [(document, \<lparr> ca_handle = h, ca_last_used = used \<rparr>)] \<rparr>, Inr h)))"

definition evict :: "document_registry \<Rightarrow> i64 \<Rightarrow> document_registry" where
  "evict r document = r\<lparr> dr_actors := filter (\<lambda>e. fst e \<noteq> document) (dr_actors r) \<rparr>"

section \<open>Leases\<close>

definition try_acquire_lease ::
  "document_registry \<Rightarrow> i64 \<times> string \<Rightarrow> document_registry \<times> bool" where
  "try_acquire_lease r p =
     (let held = (case dr_leases r (fst p) of Some s \<Rightarrow> s | None \<Rightarrow> {})
      in (r\<lparr> dr_leases := (dr_leases r)(fst p \<mapsto> insert (snd p) held) \<rparr>, snd p \<notin> held))"

definition release_lease :: "document_registry \<Rightarrow> i64 \<times> string \<Rightarrow> document_registry" where
  "release_lease r p =
     (case dr_leases r (fst p) of
        None \<Rightarrow> r
      | Some s \<Rightarrow>
          (let s = s - {snd p}
           in r\<lparr> dr_leases := (dr_leases r)(fst p := (if s = {} then None else Some s)) \<rparr>))"

text \<open>A connection's guard is the set of leases it holds; dropping it releases them all.\<close>

definition guard_ensure ::
  "document_registry \<Rightarrow> (i64 \<times> string) set \<Rightarrow> i64 \<times> string \<Rightarrow>
   document_registry \<times> (i64 \<times> string) set \<times> bool" where
  "guard_ensure r held p =
     (if p \<in> held then (r, held, True)
      else
        (case try_acquire_lease r p of
           (r, True) \<Rightarrow> (r, insert p held, True)
         | (r, False) \<Rightarrow> (r, held, False)))"

fun release_all :: "document_registry \<Rightarrow> (i64 \<times> string) list \<Rightarrow> document_registry" where
  "release_all r [] = r"
| "release_all r (p # ps) = release_all (release_lease r p) ps"

section \<open>The lease table as a ledger\<close>

definition leased :: "document_registry \<Rightarrow> i64 \<times> string \<Rightarrow> bool" where
  "leased r p = (case dr_leases r (fst p) of Some s \<Rightarrow> snd p \<in> s | None \<Rightarrow> False)"

definition lease_accounts :: "(i64 \<times> string) multiset \<Rightarrow> document_registry \<Rightarrow> bool" where
  "lease_accounts M r = (\<forall>p. count M p = (if leased r p then 1 else 0))"

definition lease_fits :: "(i64 \<times> string) multiset \<Rightarrow> bool" where
  "lease_fits M = (\<forall>p. count M p \<le> 1)"

lemma leased_acquire:
  "leased (fst (try_acquire_lease r p)) q \<longleftrightarrow> q = p \<or> leased r q"
  "snd (try_acquire_lease r p) \<longleftrightarrow> \<not> leased r p"
  by (cases p; cases q; auto simp: try_acquire_lease_def leased_def Let_def split: option.splits)+

lemma leased_release: "leased (release_lease r p) q \<longleftrightarrow> q \<noteq> p \<and> leased r q"
  by (cases p; cases q; auto simp: release_lease_def leased_def Let_def split: option.splits)

interpretation lease_ledger:
  bounded_ledger try_acquire_lease release_lease lease_accounts lease_fits
proof
  fix M r p r'
  assume a: "lease_accounts M r" and t: "try_acquire_lease r p = (r', True)"
  from t leased_acquire [of r p] have new: "\<not> leased r p" and r': "\<And>q. leased r' q \<longleftrightarrow> q = p \<or> leased r q"
    by auto
  show "lease_accounts (add_mset p M) r'" using a new r' by (auto simp: lease_accounts_def)
  show "lease_fits M \<Longrightarrow> lease_fits (add_mset p M)" using a new by (auto simp: lease_fits_def lease_accounts_def)
next
  fix M r p r'
  assume a: "lease_accounts M r" and t: "try_acquire_lease r p = (r', False)"
  from t leased_acquire [of r p] have old: "leased r p" and r': "\<And>q. leased r' q \<longleftrightarrow> q = p \<or> leased r q"
    by auto
  then have "leased r' q = leased r q" for q by auto
  with a show "lease_accounts M r'" by (simp add: lease_accounts_def)
next
  fix M r p
  assume "lease_accounts M r" and "p \<in># M"
  then show "lease_accounts (M - {#p#}) (release_lease r p)"
    by (auto simp: lease_accounts_def leased_release)
next
  fix M N :: "(i64 \<times> string) multiset"
  assume "lease_fits M" and "N \<subseteq># M"
  then show "lease_fits N" unfolding lease_fits_def by (meson le_trans mset_subset_eq_count)
qed

section \<open>Connections\<close>

datatype guard_op = Ensure nat "i64 \<times> string" | DropGuard nat "(i64 \<times> string) list"

text \<open>
  Several connections, each with its guard. A drop drains the guard's set in some order, given
  as a list; lists that are not an enumeration of the set do not occur and change nothing.
\<close>

fun guard_step ::
  "document_registry \<times> (nat \<Rightarrow> (i64 \<times> string) set) \<Rightarrow> guard_op \<Rightarrow>
   document_registry \<times> (nat \<Rightarrow> (i64 \<times> string) set)" where
  "guard_step (r, held) (Ensure g p) =
     (case guard_ensure r (held g) p of (r, h, _) \<Rightarrow> (r, held(g := h)))"
| "guard_step (r, held) (DropGuard g ps) =
     (if set ps = held g then (release_all r ps, held(g := {})) else (r, held))"

definition exclusive :: "document_registry \<times> (nat \<Rightarrow> (i64 \<times> string) set) \<Rightarrow> bool" where
  "exclusive w =
     ((\<forall>p. leased (fst w) p \<longleftrightarrow> (\<exists>g. p \<in> snd w g))
    \<and> (\<forall>g h p. p \<in> snd w g \<and> p \<in> snd w h \<longrightarrow> g = h))"

lemma leased_release_all: "leased (release_all r ps) q \<longleftrightarrow> q \<notin> set ps \<and> leased r q"
  by (induction ps arbitrary: r) (auto simp: leased_release)

lemma exclusive_leased: "exclusive (r, held) \<Longrightarrow> leased r p \<longleftrightarrow> (\<exists>g. p \<in> held g)"
  unfolding exclusive_def fst_conv snd_conv by blast

lemma exclusive_one: "exclusive (r, held) \<Longrightarrow> p \<in> held g \<Longrightarrow> p \<in> held h \<Longrightarrow> g = h"
  unfolding exclusive_def fst_conv snd_conv by blast

lemma exclusiveI:
  assumes "\<And>p. leased r p \<longleftrightarrow> (\<exists>g. p \<in> held g)" "\<And>g h p. p \<in> held g \<Longrightarrow> p \<in> held h \<Longrightarrow> g = h"
  shows "exclusive (r, held)"
  using assms unfolding exclusive_def fst_conv snd_conv by blast

lemma guard_ensure_refused:
  assumes "p \<notin> h" "leased r p"
  shows "\<exists>r'. guard_ensure r h p = (r', h, False) \<and> (\<forall>q. leased r' q = leased r q)"
proof -
  obtain r' b where t: "try_acquire_lease r p = (r', b)" by fastforce
  with leased_acquire [of r p] assms(2) have "\<not> b" "\<And>q. leased r' q = leased r q" by auto
  then show ?thesis using assms(1) t by (simp add: guard_ensure_def)
qed

lemma guard_ensure_granted:
  assumes "p \<notin> h" "\<not> leased r p"
  shows "\<exists>r'. guard_ensure r h p = (r', insert p h, True) \<and> (\<forall>q. leased r' q \<longleftrightarrow> q = p \<or> leased r q)"
proof -
  obtain r' b where t: "try_acquire_lease r p = (r', b)" by fastforce
  with leased_acquire [of r p] assms(2) have "b" "\<And>q. leased r' q \<longleftrightarrow> q = p \<or> leased r q" by auto
  then show ?thesis using assms(1) t by (simp add: guard_ensure_def)
qed

lemma guard_ensure_held: "p \<in> h \<Longrightarrow> guard_ensure r h p = (r, h, True)"
  by (simp add: guard_ensure_def)

lemma guard_ensure_iff: "snd (snd (guard_ensure r h p)) \<longleftrightarrow> p \<in> h \<or> \<not> leased r p"
proof (cases "p \<in> h")
  case False
  show ?thesis
  proof (cases "leased r p")
    case True
    obtain r' where "guard_ensure r h p = (r', h, False)" using guard_ensure_refused [OF False True] by blast
    with False True show ?thesis by simp
  next
    case free: False
    obtain r' where "guard_ensure r h p = (r', insert p h, True)"
      using guard_ensure_granted [OF False free] by blast
    with free show ?thesis by simp
  qed
qed (simp add: guard_ensure_held)

lemma ensure_exclusive:
  assumes ex: "exclusive (r, held)"
  shows "exclusive (guard_step (r, held) (Ensure g p))"
proof (cases "p \<in> held g")
  case True
  then show ?thesis using ex by (simp add: guard_ensure_held)
next
  case new: False
  show ?thesis
  proof (cases "leased r p")
    case True
    obtain r' where "guard_ensure r (held g) p = (r', held g, False)" "\<And>q. leased r' q = leased r q"
      using guard_ensure_refused [OF new True] by blast
    then have "guard_step (r, held) (Ensure g p) = (r', held)" "\<And>q. leased r' q = leased r q" by simp_all
    then show ?thesis using exclusive_leased [OF ex] exclusive_one [OF ex]
      by (metis exclusiveI)
  next
    case False
    then have "\<And>h. p \<notin> held h" using exclusive_leased [OF ex] by blast
    moreover obtain r' where "guard_ensure r (held g) p = (r', insert p (held g), True)"
      "\<And>q. leased r' q \<longleftrightarrow> q = p \<or> leased r q"
      using guard_ensure_granted [OF new False] by blast
    moreover from this have "guard_step (r, held) (Ensure g p) = (r', held(g := insert p (held g)))" by simp
    moreover have "exclusive (r', held(g := insert p (held g)))"
    proof (rule exclusiveI)
      fix q show "leased r' q \<longleftrightarrow> (\<exists>h. q \<in> (held(g := insert p (held g))) h)"
        using calculation(3) [of q] exclusive_leased [OF ex, of q] by auto
    next
      fix a b q assume "q \<in> (held(g := insert p (held g))) a" "q \<in> (held(g := insert p (held g))) b"
      then show "a = b" using calculation(1) exclusive_one [OF ex, of q a b]
        by (auto split: if_splits)
    qed
    ultimately show ?thesis by simp
  qed
qed

lemma drop_exclusive:
  assumes ex: "exclusive (r, held)"
  shows "exclusive (guard_step (r, held) (DropGuard g ps))"
proof (cases "set ps = held g")
  case True
  have "exclusive (release_all r ps, held(g := {}))"
  proof (rule exclusiveI)
    fix q
    show "leased (release_all r ps) q \<longleftrightarrow> (\<exists>h. q \<in> (held(g := {})) h)"
      using exclusive_leased [OF ex, of q] exclusive_one [OF ex, of q g] unfolding leased_release_all True
      by auto
  next
    fix a b q assume "q \<in> (held(g := {})) a" "q \<in> (held(g := {})) b"
    then show "a = b" using exclusive_one [OF ex, of q a b] by (simp split: if_splits)
  qed
  then show ?thesis using True by simp
qed (use ex in simp)

lemma guard_step_exclusive: "exclusive w \<Longrightarrow> exclusive (guard_step w op)"
  by (cases w; cases op) (simp_all only: ensure_exclusive drop_exclusive)

lemma guard_run_exclusive: "exclusive w \<Longrightarrow> exclusive (foldl guard_step w ops)"
proof (induction ops arbitrary: w)
  case (Cons op ops)
  show ?case unfolding foldl.simps by (rule Cons.IH [OF guard_step_exclusive [OF Cons.prems]])
qed simp

lemma registry_new_exclusive: "exclusive (registry_new limits epoch, \<lambda>g. {})"
  by (simp add: exclusive_def registry_new_def leased_def)

text \<open>
  C27: one live writer. However connections acquire leases and go away, no lease is held by two
  connections, the registry's table records exactly the leases some live connection holds, and
  a connection is refused a lease only while another one holds it.
\<close>

theorem one_live_writer:
  assumes "foldl guard_step (registry_new limits epoch, \<lambda>g. {}) ops = (r, held)"
  shows "(\<forall>p. leased r p \<longleftrightarrow> (\<exists>g. p \<in> held g)) \<and> (\<forall>g h p. p \<in> held g \<and> p \<in> held h \<longrightarrow> g = h)
    \<and> (\<forall>g p. \<not> snd (snd (guard_ensure r (held g) p)) \<longleftrightarrow> (\<exists>h. h \<noteq> g \<and> p \<in> held h))"
proof -
  have ex: "exclusive (r, held)" using guard_run_exclusive [OF registry_new_exclusive] assms by metis
  have "\<not> snd (snd (guard_ensure r (held g) p)) \<longleftrightarrow> (\<exists>h. h \<noteq> g \<and> p \<in> held h)" for g p
    unfolding guard_ensure_iff exclusive_leased [OF ex] using exclusive_one [OF ex, of p g] by auto
  then show ?thesis using exclusive_leased [OF ex] exclusive_one [OF ex] by blast
qed

theorem one_live_writer_witness:
  "\<not> snd (snd (guard_ensure
      (fst (foldl guard_step (registry_new collaboration_limits_default ''e'', \<lambda>g. {})
              [Ensure 3 (7, ''r''), Ensure 4 (7, ''s''), DropGuard 4 [(7, ''s'')]]))
      {} (7, ''r'')))"
proof -
  obtain r held where run: "foldl guard_step (registry_new collaboration_limits_default ''e'', \<lambda>g. {})
      [Ensure 3 (7, ''r''), Ensure 4 (7, ''s''), DropGuard 4 [(7, ''s'')]] = (r, held)" by fastforce
  then have h: "held 4 = {}" "(7, ''r'') \<in> held 3"
    by (auto simp: registry_new_def guard_ensure_def try_acquire_lease_def)
  from one_live_writer [OF run]
  have "\<not> snd (snd (guard_ensure r (held 4) (7, ''r''))) \<longleftrightarrow> (\<exists>h. h \<noteq> 4 \<and> (7, ''r'') \<in> held h)"
    by blast
  with h(2) have "\<not> snd (snd (guard_ensure r (held 4) (7, ''r'')))" by (metis numeral_eq_iff semiring_norm(88))
  then show ?thesis unfolding run fst_conv h(1) .
qed

section \<open>Live actors keep their identity\<close>

fun load_run ::
  "document_registry \<Rightarrow> ((nat \<Rightarrow> bool) \<times> (apply_error, nat) result \<times> i64) list \<Rightarrow> document_registry" where
  "load_run r [] = r"
| "load_run r ((busy, load, document) # steps) =
     load_run (fst (get_or_load busy load r document)) steps"

definition cached_handle :: "document_registry \<Rightarrow> i64 \<Rightarrow> nat option" where
  "cached_handle r document = map_option ca_handle (map_of (dr_actors r) document)"

definition busy_actors :: "(nat \<Rightarrow> bool) \<Rightarrow> document_registry \<Rightarrow> nat" where
  "busy_actors busy r = length (filter (\<lambda>(k, c). busy (ca_handle c)) (dr_actors r))"

definition trimmed :: "(nat \<Rightarrow> bool) \<Rightarrow> document_registry \<Rightarrow> i64 \<times> cached_actor \<Rightarrow> bool" where
  "trimmed busy r e \<longleftrightarrow>
     \<not> busy (ca_handle (snd e)) \<and>
     (fst e, ca_last_used (snd e)) \<in>
       set (take (length (dr_actors r) - (max_cached_actors - 1)) (idle_candidates busy r))"

lemma trim_idle_cache_eq:
  "trim_idle_cache busy r = r\<lparr> dr_actors := filter (\<lambda>e. \<not> trimmed busy r e) (dr_actors r) \<rparr>"
  by (simp add: trim_idle_cache_def trimmed_def Let_def case_prod_unfold)

lemma map_of_filter_keep:
  "map_of xs k = Some v \<Longrightarrow> P (k, v) \<Longrightarrow> distinct (map fst xs) \<Longrightarrow> map_of (filter P xs) k = Some v"
  by (induction xs) (auto split: if_splits simp: map_of_eq_None_iff)

lemma distinct_keys_filter: "distinct (map fst xs) \<Longrightarrow> distinct (map fst (filter P xs))"
  by (induction xs) auto

lemma touch_keys: "map fst (dr_actors (touch k u r)) = map fst (dr_actors r)"
  by (simp add: touch_def comp_def case_prod_unfold)

lemma touch_handle: "cached_handle (touch k u r) d = cached_handle r d"
proof -
  have "map_option ca_handle (map_of (map (\<lambda>(k', c). (k', if k' = k then c\<lparr> ca_last_used := u \<rparr> else c)) xs) d)
    = map_option ca_handle (map_of xs d)" for xs
    by (induction xs) auto
  then show ?thesis by (simp add: cached_handle_def touch_def)
qed

definition keys_ok :: "document_registry \<Rightarrow> bool" where
  "keys_ok r = distinct (map fst (dr_actors r))"

lemma trim_keys_ok: "keys_ok r \<Longrightarrow> keys_ok (trim_idle_cache busy r)"
  by (simp add: keys_ok_def trim_idle_cache_eq distinct_keys_filter)

lemma trim_absent: "map_of (dr_actors r) d = None \<Longrightarrow> map_of (dr_actors (trim_idle_cache busy r)) d = None"
  by (auto simp: trim_idle_cache_eq map_of_eq_None_iff)

lemma trim_busy:
  "keys_ok r \<Longrightarrow> cached_handle r d = Some h \<Longrightarrow> busy h \<Longrightarrow> cached_handle (trim_idle_cache busy r) d = Some h"
  by (auto simp: cached_handle_def trim_idle_cache_eq keys_ok_def trimmed_def intro!: map_of_filter_keep)

lemma get_or_load_hit:
  "cached_handle r d = Some h \<Longrightarrow> get_or_load busy load r d =
     (touch d (dr_cache_clock r) (r\<lparr> dr_cache_clock := dr_cache_clock r + 1 \<rparr>), Inr h)"
  by (auto simp: get_or_load_def cached_handle_def Let_def)

lemma get_or_load_miss:
  "cached_handle r d = None \<Longrightarrow> get_or_load busy load r d =
     (let t = trim_idle_cache busy (r\<lparr> dr_cache_clock := dr_cache_clock r + 1 \<rparr>) in
      case load of Inl e \<Rightarrow> (t, Inl e)
      | Inr h \<Rightarrow> (t\<lparr> dr_actors := dr_actors t @
                 [(d, \<lparr> ca_handle = h, ca_last_used = dr_cache_clock r \<rparr>)] \<rparr>, Inr h))"
  by (auto simp: get_or_load_def cached_handle_def Let_def split: sum.splits)

lemma clock_irrelevant:
  "cached_handle (r\<lparr> dr_cache_clock := c \<rparr>) = cached_handle r"
  "keys_ok (r\<lparr> dr_cache_clock := c \<rparr>) = keys_ok r"
  "busy_actors busy (r\<lparr> dr_cache_clock := c \<rparr>) = busy_actors busy r"
  by (simp_all add: cached_handle_def keys_ok_def busy_actors_def fun_eq_iff)

text \<open>How many entries a trim removes: the idle ones among the oldest, as many as are surplus.\<close>

lemma length_filter_image:
  assumes "distinct xs" "inj_on f (set xs)" "set ys \<subseteq> f ` set xs" "distinct ys"
  shows "length (filter (\<lambda>x. f x \<in> set ys) xs) = length ys"
proof -
  have "length (filter (\<lambda>x. f x \<in> set ys) xs) = card {x \<in> set xs. f x \<in> set ys}"
    using assms(1) by (simp add: distinct_length_filter Int_def conj_commute)
  also have "\<dots> = card (f ` {x \<in> set xs. f x \<in> set ys})"
    by (rule card_image [symmetric], rule inj_on_subset [OF assms(2)]) auto
  also have "f ` {x \<in> set xs. f x \<in> set ys} = set ys" using assms(3) by auto
  finally show ?thesis using assms(4) by (simp add: distinct_card)
qed

lemma surplus: "(a::nat) + b = l \<Longrightarrow> l - min (l - m) a \<le> max m b"
  by (cases "l - m \<le> a"; cases "m \<le> b") simp_all

lemma trim_length:
  assumes ok: "keys_ok r"
  shows "length (dr_actors (trim_idle_cache busy r)) \<le> max (max_cached_actors - 1) (busy_actors busy r)"
proof -
  let ?xs = "dr_actors r" and ?idle = "\<lambda>e :: i64 \<times> cached_actor. \<not> busy (ca_handle (snd e))"
  let ?f = "\<lambda>e :: i64 \<times> cached_actor. (fst e, ca_last_used (snd e))"
  define n where "n = length ?xs - (max_cached_actors - 1)"
  define ys where "ys = take n (idle_candidates busy r)"
  have cand: "idle_candidates busy r = sort_key snd (map ?f (filter ?idle ?xs))"
    by (simp add: idle_candidates_def case_prod_unfold)
  have keys: "distinct (map fst (filter ?idle ?xs))"
    using ok by (simp add: keys_ok_def distinct_keys_filter)
  then have d: "distinct (filter ?idle ?xs)" by (simp add: distinct_map)
  have inj: "inj_on ?f (set (filter ?idle ?xs))"
    using keys unfolding distinct_map by (auto simp: inj_on_def)
  have "distinct (idle_candidates busy r)" unfolding cand distinct_sort distinct_map using d inj by simp
  moreover have "set (idle_candidates busy r) = ?f ` set (filter ?idle ?xs)" unfolding cand by simp
  ultimately have "length (filter (\<lambda>e. ?f e \<in> set ys) (filter ?idle ?xs)) = length ys"
    using length_filter_image [OF d inj, of ys] set_take_subset [of n "idle_candidates busy r"]
    by (simp add: ys_def)
  moreover have "filter (\<lambda>e. ?f e \<in> set ys) (filter ?idle ?xs) = filter (trimmed busy r) ?xs"
    unfolding filter_filter trimmed_def [abs_def] n_def ys_def by (rule filter_cong) auto
  ultimately have gone: "length (filter (trimmed busy r) ?xs) = length ys" by simp
  have "length (filter ?idle ?xs) + busy_actors busy r = length ?xs"
    using sum_length_filter_compl [of "\<lambda>e. busy (ca_handle (snd e))" ?xs]
    by (simp add: busy_actors_def case_prod_unfold)
  moreover have "length ys = min n (length (filter ?idle ?xs))" by (simp add: ys_def cand)
  moreover have "length (filter (\<lambda>e. \<not> trimmed busy r e) ?xs) = length ?xs - length ys"
    using gone sum_length_filter_compl [of "trimmed busy r" ?xs] by linarith
  ultimately show ?thesis
    using surplus [of "length (filter ?idle ?xs)" "busy_actors busy r" "length ?xs" "max_cached_actors - 1"]
    by (simp add: trim_idle_cache_eq n_def)
qed

lemma get_or_load_keys_ok:
  assumes "keys_ok r"
  shows "keys_ok (fst (get_or_load busy load r d))"
proof (cases "cached_handle r d")
  case None
  let ?r = "r\<lparr> dr_cache_clock := dr_cache_clock r + 1 \<rparr>"
  have "map_of (dr_actors (trim_idle_cache busy ?r)) d = None"
    using None by (intro trim_absent) (simp add: cached_handle_def)
  moreover have "keys_ok (trim_idle_cache busy ?r)" using assms trim_keys_ok clock_irrelevant by blast
  ultimately show ?thesis unfolding get_or_load_miss [OF None] Let_def
    by (auto simp: keys_ok_def map_of_eq_None_iff split: sum.split)
next
  case (Some h)
  then show ?thesis using assms by (simp add: get_or_load_hit keys_ok_def touch_keys)
qed

lemma get_or_load_busy:
  assumes "keys_ok r" "cached_handle r d = Some h" "busy h"
  shows "cached_handle (fst (get_or_load busy load r d')) d = Some h"
proof (cases "cached_handle r d'")
  case None
  let ?r = "r\<lparr> dr_cache_clock := dr_cache_clock r + 1 \<rparr>"
  have "cached_handle (trim_idle_cache busy ?r) d = Some h"
    by (rule trim_busy) (use assms clock_irrelevant in simp_all)
  then show ?thesis unfolding get_or_load_miss [OF None] Let_def
    by (auto simp: cached_handle_def map_add_def split: sum.split option.splits)
next
  case (Some h)
  then show ?thesis using assms by (simp add: get_or_load_hit touch_handle clock_irrelevant)
qed

lemma load_run_ok:
  "keys_ok r \<Longrightarrow> keys_ok (load_run r steps)"
  by (induction r steps rule: load_run.induct) (simp_all add: get_or_load_keys_ok)

lemma load_run_busy:
  "keys_ok r \<Longrightarrow> cached_handle r d = Some h \<Longrightarrow> list_all (\<lambda>(busy, _, _). busy h) steps \<Longrightarrow>
   cached_handle (load_run r steps) d = Some h"
  by (induction r steps rule: load_run.induct) (simp_all add: get_or_load_keys_ok get_or_load_busy)

lemma get_or_load_cached:
  "get_or_load busy load r d = (r', Inr h) \<Longrightarrow> cached_handle r' d = Some h"
proof (cases "cached_handle r d")
  case None
  let ?r = "r\<lparr> dr_cache_clock := dr_cache_clock r + 1 \<rparr>"
  assume a: "get_or_load busy load r d = (r', Inr h)"
  have "map_of (dr_actors (trim_idle_cache busy ?r)) d = None"
    using None by (intro trim_absent) (simp add: cached_handle_def)
  with a show ?thesis unfolding get_or_load_miss [OF None] Let_def
    by (auto simp: cached_handle_def map_add_def split: sum.splits)
next
  case (Some k)
  assume "get_or_load busy load r d = (r', Inr h)"
  with Some show ?thesis by (auto simp: get_or_load_hit touch_handle clock_irrelevant)
qed

lemma get_or_load_length:
  assumes "keys_ok r" "cached_handle r d = None"
  shows "length (dr_actors (fst (get_or_load busy load r d))) \<le> max max_cached_actors (Suc (busy_actors busy r))"
proof -
  let ?r = "r\<lparr> dr_cache_clock := dr_cache_clock r + 1 \<rparr>"
  have "length (dr_actors (trim_idle_cache busy ?r)) \<le> max (max_cached_actors - 1) (busy_actors busy r)"
    using trim_length [of ?r busy] assms(1) by (simp add: clock_irrelevant)
  then have "length (dr_actors (trim_idle_cache busy ?r)) < max max_cached_actors (Suc (busy_actors busy r))"
    by (simp add: max_cached_actors_def max_def split: if_splits)
  then show ?thesis unfolding get_or_load_miss [OF assms(2)] Let_def by (auto split: sum.split)
qed

text \<open>
  A borrowed actor keeps its identity. An actor handed out for a document is the one every
  later request for that document gets, whatever other documents are loaded in between, as long
  as somebody holds it; and a load that misses leaves at most 64 actors, or one more than the
  actors in use.
\<close>

theorem borrowed_actor_is_shared:
  assumes "get_or_load busy load (load_run (registry_new limits epoch) earlier) d = (r, Inr h)"
    and "list_all (\<lambda>(busy, _, _). busy h) steps"
  shows "snd (get_or_load busy' load' (load_run r steps) d) = Inr h
    \<and> (cached_handle (load_run r steps) d' = None \<longrightarrow>
        length (dr_actors (fst (get_or_load busy' load' (load_run r steps) d')))
          \<le> max max_cached_actors (Suc (busy_actors busy' (load_run r steps))))"
proof -
  have "keys_ok (registry_new limits epoch)" by (simp add: keys_ok_def registry_new_def)
  then have ok: "keys_ok r"
    using get_or_load_keys_ok [OF load_run_ok, of _ busy load earlier d] assms(1) by (metis fst_conv)
  have "cached_handle (load_run r steps) d = Some h"
    using load_run_busy [OF ok get_or_load_cached [OF assms(1)] assms(2)] .
  then have "snd (get_or_load busy' load' (load_run r steps) d) = Inr h" by (simp add: get_or_load_hit)
  then show ?thesis using get_or_load_length [OF load_run_ok [OF ok]] by blast
qed

theorem borrowed_actor_is_shared_witness:
  "snd (get_or_load (\<lambda>_. False) (Inr 9)
     (load_run (fst (get_or_load (\<lambda>_. False) (Inr 5) (registry_new collaboration_limits_default ''e'') 7))
        [(\<lambda>h. h = 5, Inr 6, 8)]) 7) = Inr 5"
proof -
  let ?r = "get_or_load (\<lambda>_. False) (Inr 5) (load_run (registry_new collaboration_limits_default ''e'') []) 7"
  have "?r = (fst ?r, Inr 5)"
    by (simp add: get_or_load_def registry_new_def Let_def)
  from borrowed_actor_is_shared [OF this, of "[(\<lambda>h. h = 5, Inr 6, 8)]" "\<lambda>_. False" "Inr 9" 8]
  show ?thesis by simp
qed

end
