(* ===== verification/Room_Messages.thy ===== *)
theory Room_Messages
  imports Sift_Protocol
begin

text \<open>
  The room protocol of \<^verbatim>\<open>crates/protocol/src/room.rs\<close> and the byte wrappers of
  \<^verbatim>\<open>crates/protocol/src/crdt.rs\<close>: presence, shared results and the client's and server's
  messages. A UUID is its 128 bits, an instant its microseconds since the epoch.
\<close>

section \<open>Opaque bytes and identifiers\<close>

datatype document_version = DocumentVersion (document_version_bytes: "u8 list")
datatype crdt_update = CrdtUpdate (crdt_update_bytes: "u8 list")
datatype crdt_cursor = CrdtCursor (crdt_cursor_bytes: "u8 list")
datatype replica_id = ReplicaId u64

definition replica_id_show :: "replica_id \<Rightarrow> string" where
  "replica_id_show r = (case r of ReplicaId n \<Rightarrow> show_nat (unat n))"

type_synonym room_result_id = "128 word"
type_synonym utc_time = int

section \<open>Presence\<close>

record room_selection =
  rs_anchor :: crdt_cursor
  rs_head :: crdt_cursor

record room_presence =
  rp_attachment_id :: i64
  rp_principal_id :: i64
  rp_client_id :: string
  rp_active_document_id :: "i64 option"
  rp_selection :: "room_selection option"

section \<open>Shared results\<close>

datatype room_query_status = RoomRunning | RoomOk | RoomError | RoomCanceled

record room_query_result =
  rq_result_id :: room_result_id
  rq_room_id :: i64
  rq_actor_principal_id :: i64
  rq_connection_profile_id :: "i64 option"
  rq_row_count :: "i64 option"
  rq_page_count :: u64
  rq_schema_digests :: "string list"
  rq_status :: room_query_status
  rq_error_message :: "string option"
  rq_created_at :: utc_time
  rq_finished_at :: "utc_time option"

record room_result_page =
  rg_seq :: u64
  rg_page :: page

record room_result_pages =
  rgs_result_id :: room_result_id
  rgs_pages :: "room_result_page list"
  rgs_next_seq :: u64
  rgs_done :: bool

section \<open>Documents\<close>

datatype document_error_code =
    InvalidCrdtUpdate | CrdtDependenciesMissing | ReplicaInUse | DocumentVersionNotFound
  | DocumentTooLarge | RoomConnectionNotFound | RoomConnectionBroken | RoomResultNotFound
  | RoomResultExpired | DocForbidden | DocNotFound | DocInternal

datatype document_transfer_kind = TransferSnapshot | TransferUpdate

datatype repository_operation_phase = OperationStarted | OperationSucceeded | OperationFailed

datatype run_state =
    RunQueued | RunAdmitted | RunPreparing | RunRunning | RunSucceeded | RunFailed | RunCancelled
  | RunOutcomeUnknown | RunBlocked | RunRejected

datatype vcs_action =
    VcsBind | VcsUnbind | VcsStatus | VcsValidate | VcsDiff | VcsBranches | VcsHistory
  | VcsCreateBranch | VcsSwitchBranch | VcsRenameBranch | VcsDeleteBranch | VcsSetUpstream
  | VcsConflicts | VcsResolveConflict | VcsContinueOperation | VcsAbortOperation
  | VcsRepairBinding | VcsRemotes | VcsAddRemote | VcsEditRemote | VcsRemoveRemote | VcsStage
  | VcsUnstage | VcsCommit | VcsAmend | VcsUncommit | VcsDiscard | VcsRevert | VcsSetCredential
  | VcsTestCredential | VcsRemoveCredential | VcsFetch | VcsPush | VcsHostingRead
  | VcsSetHostingCredential | VcsRemoveHostingCredential | VcsCreatePullRequest

section \<open>Messages\<close>

datatype room_client_message =
    ClientReauthenticate string
  | ClientAttach string
  | ClientDetach
  | ClientPresenceHeartbeat
  | ClientPresenceUpdate "i64 option" "room_selection option"
  | ClientPresencePing
  | ClientDocumentSync string i64 replica_id document_version
    \<comment> \<open>request id, document, replica, known version\<close>
  | ClientDocumentUpdate string string i64 replica_id crdt_update
    \<comment> \<open>request id, update id, document, replica, update\<close>

record document_chunk =
  dc_request_id :: string
  dc_document_id :: i64
  dc_transfer_id :: string
  dc_index :: u32
  dc_count :: u32
  dc_payload_kind :: document_transfer_kind
  dc_payload :: crdt_update
  dc_snapshot_seq :: i64
  dc_server_version :: document_version

datatype room_server_message =
    ServerAuthenticated utc_time
  | ServerAttached i64 "room_presence list"
  | ServerPresence "room_presence list"
  | ServerWorkspaceChanged i64 u64 bool
  | ServerRepositoryChanged i64 i64 u64
  | ServerRepositoryOperation i64 i64 i64 vcs_action repository_operation_phase
  | ServerDdlSourceChanged i64 i64 u64
  | ServerRunChanged i64 i64 run_state u64
  | ServerQueryResult room_query_result
  | ServerDocumentChunk document_chunk
  | ServerDocumentSynced string i64 document_version
    \<comment> \<open>request id, document, server version\<close>
  | ServerDocumentUpdateAck string string i64 i64 string
    \<comment> \<open>request id, update id, document, server sequence, version fingerprint\<close>
  | ServerDocumentUpdateCommitted i64 replica_id i64 crdt_update document_version
    \<comment> \<open>document, replica, server sequence, update, server version\<close>
  | ServerResyncRequired string u64
  | ServerDocumentError "string option" i64 document_error_code string
  | ServerError string
  | ServerRateLimited u64

end
