(* ===== verification/Chunk_Transfer.thy ===== *)
theory Chunk_Transfer
  imports Interfaces Room_Messages Text_Replica
begin

text \<open>
  Chunked document transfers: the server's splitting
  (\<^verbatim>\<open>send_document_transfer\<close> of \<^verbatim>\<open>crates/server/src/http.rs\<close>) and the client's bounded assembly
  (\<^verbatim>\<open>crates/client-sdk/src/room_replica/transfers.rs\<close>).

  The table of incomplete transfers is an association list with distinct keys; the code's hash
  map is only looked up, summed over and counted. Byte counts are naturals: the limits keep them
  far below the machine's.
\<close>

section \<open>The sender\<close>

definition sync_chunk_bytes :: nat where "sync_chunk_bytes = 256 * 1024"

text \<open>\<^verbatim>\<open>slice::chunks\<close>.\<close>

function slice_chunks :: "nat \<Rightarrow> 'a list \<Rightarrow> 'a list list" where
  "slice_chunks n xs = (if n = 0 \<or> xs = [] then [] else take n xs # slice_chunks n (drop n xs))"
  by pat_completeness auto
termination by (relation "measure (\<lambda>(n, xs). length xs)") auto

declare slice_chunks.simps [simp del]

definition document_transfer ::
  "string \<Rightarrow> i64 \<Rightarrow> string \<Rightarrow> document_transfer_kind \<Rightarrow> u8 list \<Rightarrow> i64 \<Rightarrow> u8 list \<Rightarrow> document_chunk list"
  where
  "document_transfer request document transfer kind bytes seq version =
     (let chunks = (if bytes = [] then [[]] else slice_chunks sync_chunk_bytes bytes);
          count = of_nat (length chunks)
      in map (\<lambda>(index, chunk).
           \<lparr> dc_request_id = request, dc_document_id = document, dc_transfer_id = transfer,
             dc_index = of_nat index, dc_count = count, dc_payload_kind = kind,
             dc_payload = CrdtUpdate chunk, dc_snapshot_seq = seq,
             dc_server_version = DocumentVersion version \<rparr>) (enumerate 0 chunks))"

section \<open>The receiver\<close>

definition max_transfer_bytes :: nat where "max_transfer_bytes = 256 * 1024 * 1024"
definition max_chunk_bytes :: nat where "max_chunk_bytes = 1024 * 1024"
definition max_chunks :: nat where "max_chunks = 4096"
definition max_transfers :: nat where "max_transfers = 4"

record transfer =
  tf_request_id :: string
  tf_kind :: document_transfer_kind
  tf_version :: document_version
  tf_snapshot_seq :: i64
  tf_chunks :: "u8 list option list"
  tf_received :: nat
  tf_bytes :: nat

type_synonym transfers = "(string \<times> transfer) list"

definition transfer_invalid :: "string \<Rightarrow> doc_error" where
  "transfer_invalid detail = DecodeFailed ''document transfer'' detail"

definition transfer_new :: "document_chunk \<Rightarrow> transfer" where
  "transfer_new m =
     \<lparr> tf_request_id = dc_request_id m, tf_kind = dc_payload_kind m,
       tf_version = dc_server_version m, tf_snapshot_seq = dc_snapshot_seq m,
       tf_chunks = replicate (unat (dc_count m)) None, tf_received = 0, tf_bytes = 0 \<rparr>"

definition retained_bytes :: "transfers \<Rightarrow> nat" where
  "retained_bytes T = sum_list (map (tf_bytes \<circ> snd) T)"

definition transfer_put :: "string \<Rightarrow> transfer \<Rightarrow> transfers \<Rightarrow> transfers" where
  "transfer_put k t T = map (\<lambda>(k', t'). (k', if k' = k then t else t')) T"

definition metadata_differs :: "transfer \<Rightarrow> document_chunk \<Rightarrow> bool" where
  "metadata_differs t m \<longleftrightarrow>
     length (tf_chunks t) \<noteq> unat (dc_count m) \<or> tf_request_id t \<noteq> dc_request_id m
     \<or> tf_kind t \<noteq> dc_payload_kind m \<or> tf_version t \<noteq> dc_server_version m
     \<or> tf_snapshot_seq t \<noteq> dc_snapshot_seq m"

text \<open>The slot of the chunk is free: store the payload, and hand out a complete transfer.\<close>

definition fill_slot ::
  "transfers \<Rightarrow> transfer \<Rightarrow> document_chunk \<Rightarrow> transfers \<times> (doc_error, u8 list option) result" where
  "fill_slot T t m =
     (let payload = crdt_update_bytes (dc_payload m);
          t = t\<lparr> tf_chunks := (tf_chunks t)[unat (dc_index m) := Some payload],
                 tf_bytes := tf_bytes t + length payload,
                 tf_received := tf_received t + 1 \<rparr>
      in if tf_received t \<noteq> length (tf_chunks t) then (transfer_put (dc_transfer_id m) t T, Inr None)
         else (filter (\<lambda>e. fst e \<noteq> dc_transfer_id m) T,
               Inr (Some (concat (List.map_filter id (tf_chunks t))))))"

definition ingest_chunk ::
  "transfers \<Rightarrow> document_chunk \<Rightarrow> transfers \<times> (doc_error, u8 list option) result" where
  "ingest_chunk T m =
     (let index = unat (dc_index m); count = unat (dc_count m);
          payload = crdt_update_bytes (dc_payload m);
          retained = retained_bytes T
      in if count = 0 \<or> max_chunks < count \<or> count \<le> index
         then (T, Inl (transfer_invalid ''invalid chunk count or index''))
         else if max_chunk_bytes < length payload
         then (T, Inl (transfer_invalid ''chunk exceeds decoded size limit''))
         else if map_of T (dc_transfer_id m) = None \<and> max_transfers \<le> length T
         then (T, Inl (transfer_invalid ''too many incomplete transfers''))
         else (case (case map_of T (dc_transfer_id m) of
                       Some t \<Rightarrow> (T, t)
                     | None \<Rightarrow> (T @ [(dc_transfer_id m, transfer_new m)], transfer_new m)) of
                 (T, t) \<Rightarrow>
                   (if metadata_differs t m
                    then (T, Inl (transfer_invalid ''chunk metadata changed within a transfer''))
                    else case tf_chunks t ! index of
                      Some previous \<Rightarrow>
                        (if previous \<noteq> payload
                         then (T, Inl (transfer_invalid ''duplicate chunk has different contents''))
                         else (T, Inr None))
                    | None \<Rightarrow>
                        (if max_transfer_bytes - retained < length payload
                         then (T, Inl (transfer_invalid
                                ''incomplete transfers exceed decoded size limit''))
                         else fill_slot T t m))))"

text \<open>Any error drops every incomplete transfer.\<close>

definition transfers_ingest ::
  "transfers \<Rightarrow> document_chunk \<Rightarrow> transfers \<times> (doc_error, u8 list option) result" where
  "transfers_ingest T m =
     (case ingest_chunk T m of (T, Inl e) \<Rightarrow> ([], Inl e) | (T, Inr r) \<Rightarrow> (T, Inr r))"

definition transfers_step ::
  "transfers \<Rightarrow> document_chunk \<Rightarrow> transfers \<times> (doc_error, u8 list option) result list" where
  "transfers_step T m = (case transfers_ingest T m of (T, r) \<Rightarrow> (T, [r]))"

lemma transfers_step_eq: "transfers_ingest T m = (T', r) \<Longrightarrow> transfers_step T m = (T', [r])"
  by (simp add: transfers_step_def)

section \<open>What is retained\<close>

definition transfer_ok :: "transfer \<Rightarrow> bool" where
  "transfer_ok t \<longleftrightarrow>
     length (tf_chunks t) \<le> max_chunks
     \<and> tf_received t = length (List.map_filter id (tf_chunks t))
     \<and> tf_received t < length (tf_chunks t)
     \<and> tf_bytes t = length (concat (List.map_filter id (tf_chunks t)))"

definition transfers_ok :: "transfers \<Rightarrow> bool" where
  "transfers_ok T \<longleftrightarrow>
     distinct (map fst T) \<and> length T \<le> max_transfers \<and> retained_bytes T \<le> max_transfer_bytes
     \<and> (\<forall>e \<in> set T. transfer_ok (snd e))"

lemma map_filter_update:
  "i < length xs \<Longrightarrow> xs ! i = None \<Longrightarrow>
   length (List.map_filter id (xs[i := Some y])) = Suc (length (List.map_filter id xs))
   \<and> length (concat (List.map_filter id (xs[i := Some y]))) =
       length (concat (List.map_filter id xs)) + length y"
proof (induction xs arbitrary: i)
  case (Cons x xs)
  then show ?case by (cases i; cases x) (simp_all add: map_filter_simps)
qed simp

lemma map_filter_le: "length (List.map_filter id xs) \<le> length xs"
  by (induction xs) (auto simp: map_filter_simps split: option.splits)

lemma map_filter_none: "List.map_filter id (replicate n None) = []"
  by (induction n) (auto simp: map_filter_simps)

lemma map_of_position:
  assumes "distinct (map fst T)" "map_of T k = Some t"
  obtains xs ys where "T = xs @ (k, t) # ys" "k \<notin> fst ` set xs" "k \<notin> fst ` set ys"
proof -
  obtain xs ys where "T = xs @ (k, t) # ys" using map_of_SomeD [OF assms(2)] split_list by fastforce
  with assms(1) that show ?thesis by auto
qed

lemma transfer_put_at:
  "k \<notin> fst ` set xs \<Longrightarrow> k \<notin> fst ` set ys \<Longrightarrow>
   transfer_put k t' (xs @ (k, t) # ys) = xs @ (k, t') # ys"
proof -
  have "transfer_put k t' zs = zs" if "k \<notin> fst ` set zs" for zs
    using that by (induction zs) (auto simp: transfer_put_def)
  then show "k \<notin> fst ` set xs \<Longrightarrow> k \<notin> fst ` set ys \<Longrightarrow> ?thesis"
    by (simp add: transfer_put_def)
qed

lemma filter_absent: "k \<notin> fst ` set xs \<Longrightarrow> filter (\<lambda>e. fst e \<noteq> k) xs = xs"
  by (induction xs) auto

text \<open>A successful step, by what it does to the table.\<close>

lemma ingest_chunk_cases:
  assumes "ingest_chunk T m = (T', Inr r)" and "distinct (map fst T)"
  obtains (filled) T0 t where
      "fill_slot T0 t m = (T', Inr r)" "map_of T0 (dc_transfer_id m) = Some t" "distinct (map fst T0)"
      "\<not> metadata_differs t m" "unat (dc_index m) < unat (dc_count m)"
      "unat (dc_count m) \<le> max_chunks" "0 < unat (dc_count m)"
      "tf_chunks t ! unat (dc_index m) = None"
      "length (crdt_update_bytes (dc_payload m)) \<le> max_transfer_bytes - retained_bytes T"
      "T0 = T \<or> (T0 = T @ [(dc_transfer_id m, transfer_new m)] \<and> length T < max_transfers
                 \<and> t = transfer_new m \<and> map_of T (dc_transfer_id m) = None)"
  | (repeated) t where "map_of T (dc_transfer_id m) = Some t" "T' = T" "r = None"
proof -
  let ?k = "dc_transfer_id m"
  show thesis
  proof (cases "map_of T ?k")
    case None
    then have new: "map_of (T @ [(?k, transfer_new m)]) ?k = Some (transfer_new m)"
      by (simp add: map_add_def)
    have "tf_chunks (transfer_new m) ! unat (dc_index m) = None"
      if "unat (dc_index m) < unat (dc_count m)" using that by (simp add: transfer_new_def)
    moreover have "distinct (map fst (T @ [(?k, transfer_new m)]))"
      using assms(2) None by (simp add: map_of_eq_None_iff)
    ultimately show thesis
      using assms(1) None filled [of "T @ [(?k, transfer_new m)]" "transfer_new m"] new
      unfolding ingest_chunk_def Let_def by (simp split: if_splits option.splits)
  next
    case (Some t)
    then show thesis using assms filled [of T t] repeated [of t]
      unfolding ingest_chunk_def Let_def by (simp split: if_splits option.splits)
  qed
qed

lemma fill_slot_ok:
  assumes T: "\<And>e. e \<in> set T \<Longrightarrow> fst e \<noteq> dc_transfer_id m \<Longrightarrow> transfer_ok (snd e)" "distinct (map fst T)"
    and t: "map_of T (dc_transfer_id m) = Some t" "length (tf_chunks t) \<le> max_chunks"
      "tf_received t = length (List.map_filter id (tf_chunks t))"
      "tf_bytes t = length (concat (List.map_filter id (tf_chunks t)))"
    and slot: "unat (dc_index m) < length (tf_chunks t)" "tf_chunks t ! unat (dc_index m) = None"
    and f: "fill_slot T t m = (T', r)"
  shows "distinct (map fst T') \<and> length T' \<le> length T
    \<and> retained_bytes T' \<le> retained_bytes T + length (crdt_update_bytes (dc_payload m))
    \<and> (\<forall>e \<in> set T'. transfer_ok (snd e))
    \<and> (\<forall>b. r = Inr (Some b) \<longrightarrow> length b \<le> retained_bytes T + length (crdt_update_bytes (dc_payload m)))"
proof -
  let ?p = "crdt_update_bytes (dc_payload m)"
  define u where "u = t\<lparr> tf_chunks := (tf_chunks t)[unat (dc_index m) := Some ?p],
                tf_bytes := tf_bytes t + length ?p, tf_received := tf_received t + 1 \<rparr>"
  obtain xs ys where T_eq: "T = xs @ (dc_transfer_id m, t) # ys"
    and k: "dc_transfer_id m \<notin> fst ` set xs" "dc_transfer_id m \<notin> fst ` set ys"
    by (rule map_of_position [OF T(2) t(1)])
  have rest: "\<forall>e \<in> set xs \<union> set ys. transfer_ok (snd e)" using T(1) k T_eq by force
  have u: "length (tf_chunks u) = length (tf_chunks t)"
    "tf_received u = length (List.map_filter id (tf_chunks u))"
    "tf_bytes u = length (concat (List.map_filter id (tf_chunks u)))"
    "tf_bytes u = tf_bytes t + length ?p"
    using map_filter_update [OF slot, of ?p] t by (simp_all add: u_def)
  have f': "(T', r) = (if tf_received u \<noteq> length (tf_chunks u) then (transfer_put (dc_transfer_id m) u T, Inr None)
         else (filter (\<lambda>e. fst e \<noteq> dc_transfer_id m) T,
               Inr (Some (concat (List.map_filter id (tf_chunks u))))))"
    using f unfolding fill_slot_def Let_def u_def by simp
  show ?thesis
  proof (cases "tf_received u = length (tf_chunks u)")
    case True
    then have "T' = xs @ ys" "r = Inr (Some (concat (List.map_filter id (tf_chunks u))))"
      using f' k by (simp_all add: T_eq filter_absent)
    then show ?thesis using rest T(2) u(3,4) by (auto simp: T_eq retained_bytes_def)
  next
    case False
    have "tf_received u \<le> length (tf_chunks u)" unfolding u(2) by (rule map_filter_le)
    with False have "transfer_ok u" using u t(2) by (simp add: transfer_ok_def)
    moreover have "T' = xs @ (dc_transfer_id m, u) # ys" "r = Inr None"
      using False f' k by (simp_all add: T_eq transfer_put_at)
    ultimately show ?thesis using rest T(2) u(4) by (auto simp: T_eq retained_bytes_def)
  qed
qed

lemma ingest_chunk_ok:
  assumes ok: "transfers_ok T" and i: "ingest_chunk T m = (T', Inr r)"
  shows "transfers_ok T' \<and> (\<forall>b. r = Some b \<longrightarrow> length b \<le> max_transfer_bytes)"
proof (rule ingest_chunk_cases [OF i])
  show "distinct (map fst T)" using ok by (simp add: transfers_ok_def)
next
  fix T0 t
  assume f: "fill_slot T0 t m = (T', Inr r)" "map_of T0 (dc_transfer_id m) = Some t"
      "distinct (map fst T0)" "\<not> metadata_differs t m" "unat (dc_index m) < unat (dc_count m)"
      "unat (dc_count m) \<le> max_chunks" "0 < unat (dc_count m)" "tf_chunks t ! unat (dc_index m) = None"
      "length (crdt_update_bytes (dc_payload m)) \<le> max_transfer_bytes - retained_bytes T"
    and T0: "T0 = T \<or> (T0 = T @ [(dc_transfer_id m, transfer_new m)] \<and> length T < max_transfers
                 \<and> t = transfer_new m \<and> map_of T (dc_transfer_id m) = None)"
  from ok have T: "\<forall>e \<in> set T. transfer_ok (snd e)" "retained_bytes T \<le> max_transfer_bytes"
    "length T \<le> max_transfers" unfolding transfers_ok_def by blast+
  have n: "length (tf_chunks t) = unat (dc_count m)" using f(4) by (simp add: metadata_differs_def)
  have "retained_bytes T0 = retained_bytes T \<and> length T0 \<le> max_transfers
    \<and> (\<forall>e \<in> set T0. fst e \<noteq> dc_transfer_id m \<longrightarrow> transfer_ok (snd e))
    \<and> tf_received t = length (List.map_filter id (tf_chunks t))
    \<and> tf_bytes t = length (concat (List.map_filter id (tf_chunks t)))"
  proof (rule disjE [OF T0])
    assume e: "T0 = T"
    with f(2) have "(dc_transfer_id m, t) \<in> set T" by (simp add: map_of_SomeD)
    with T(1) have "transfer_ok t" by fastforce
    with e T show ?thesis by (auto simp add: transfer_ok_def [of t])
  next
    assume "T0 = T @ [(dc_transfer_id m, transfer_new m)] \<and> length T < max_transfers
                 \<and> t = transfer_new m \<and> map_of T (dc_transfer_id m) = None"
    then show ?thesis using T by (auto simp: retained_bytes_def transfer_new_def map_filter_none)
  qed
  then have "distinct (map fst T') \<and> length T' \<le> length T0
    \<and> retained_bytes T' \<le> retained_bytes T0 + length (crdt_update_bytes (dc_payload m))
    \<and> (\<forall>e \<in> set T'. transfer_ok (snd e))
    \<and> (\<forall>b. Inr r = (Inr (Some b) :: (doc_error, u8 list option) result) \<longrightarrow>
          length b \<le> retained_bytes T0 + length (crdt_update_bytes (dc_payload m)))" and "retained_bytes T0 = retained_bytes T"
      "length T0 \<le> max_transfers"
    using fill_slot_ok [OF _ f(3) f(2) _ _ _ _ f(8) f(1)] f(5) f(6) n by auto
  then show ?thesis using f(9) T(2) by (auto simp add: transfers_ok_def)
qed (use ok in simp)

lemma transfers_ingest_ok:
  assumes "transfers_ok T" "transfers_ingest T m = (T', r)"
  shows "transfers_ok T' \<and> (\<forall>b. r = Inr (Some b) \<longrightarrow> length b \<le> max_transfer_bytes)"
  using assms ingest_chunk_ok [OF assms(1)]
  by (cases "ingest_chunk T m"; cases "snd (ingest_chunk T m)")
    (auto simp: transfers_ingest_def transfers_ok_def retained_bytes_def)

interpretation assembly:
  machine transfers_step transfers_ok
    "\<lambda>_ r. \<forall>b. r = Inr (Some b) \<longrightarrow> length b \<le> max_transfer_bytes"
proof
  fix T m T' os
  assume ok: "transfers_ok T" and s: "transfers_step T m = (T', os)"
  then obtain r where r: "transfers_ingest T m = (T', r)" "os = [r]"
    by (auto simp: transfers_step_def split: prod.splits)
  from transfers_ingest_ok [OF ok r(1)] show "transfers_ok T'" by blast
  fix x assume "x \<in> set os"
  with transfers_ingest_ok [OF ok r(1)] r(2) show "\<forall>b. x = Inr (Some b) \<longrightarrow> length b \<le> max_transfer_bytes"
    by simp
qed

text \<open>
  C33: hostile chunks cost a bounded amount. Whatever sequence of chunks a receiver is sent,
  it keeps at most four incomplete transfers, of at most 4096 slots and 256 MiB of payload
  together, hands out no payload beyond that limit, and keeps nothing after an error.
\<close>

theorem incomplete_transfers_bounded:
  "transfers_ok (fst (machine_run transfers_step [] ms))
   \<and> (\<forall>b. Inr (Some b) \<in> set (snd (machine_run transfers_step [] ms)) \<longrightarrow> length b \<le> max_transfer_bytes)
   \<and> (\<forall>m e. snd (transfers_ingest (fst (machine_run transfers_step [] ms)) m) = Inl e \<longrightarrow>
        fst (transfers_ingest (fst (machine_run transfers_step [] ms)) m) = [])"
proof -
  have ok: "transfers_ok []" by (simp add: transfers_ok_def retained_bytes_def)
  have "length b \<le> max_transfer_bytes" if "Inr (Some b) \<in> set (snd (machine_run transfers_step [] ms))" for b
    using assembly.run_emits [OF ok that] by blast
  moreover have "fst (transfers_ingest T m) = []" if "snd (transfers_ingest T m) = Inl e" for T m e
    using that by (auto simp: transfers_ingest_def split: prod.splits sum.splits)
  ultimately show ?thesis using assembly.run_inv [OF ok] by blast
qed

definition demo_chunk :: "nat \<Rightarrow> nat \<Rightarrow> u8 list \<Rightarrow> document_chunk" where
  "demo_chunk i n payload =
     \<lparr> dc_request_id = ''r'', dc_document_id = 1, dc_transfer_id = ''t'', dc_index = of_nat i,
       dc_count = of_nat n, dc_payload_kind = TransferSnapshot, dc_payload = CrdtUpdate payload,
       dc_snapshot_seq = 0, dc_server_version = DocumentVersion [] \<rparr>"

theorem incomplete_transfers_bounded_witness:
  "fst (transfers_ingest (fst (machine_run transfers_step [] [demo_chunk 0 2 [1]])) (demo_chunk 2 2 [])) = []"
proof -
  have "snd (transfers_ingest T (demo_chunk 2 2 [])) = Inl (transfer_invalid ''invalid chunk count or index'')"
    for T by (simp add: transfers_ingest_def ingest_chunk_def demo_chunk_def max_chunks_def)
  with incomplete_transfers_bounded [of "[demo_chunk 0 2 [1]]"] show ?thesis by blast
qed

section \<open>Splitting and reassembling\<close>

lemma concat_slice_chunks: "0 < n \<Longrightarrow> concat (slice_chunks n xs) = xs"
  by (induction n xs rule: slice_chunks.induct)
    (subst slice_chunks.simps, auto)

lemma slice_chunks_bound: "c \<in> set (slice_chunks n xs) \<Longrightarrow> length c \<le> n"
  by (induction n xs rule: slice_chunks.induct)
    (subst (asm) (2) slice_chunks.simps, auto split: if_splits)

lemma length_slice_chunks: "0 < n \<Longrightarrow> length (slice_chunks n xs) * n < length xs + n"
proof (induction n xs rule: slice_chunks.induct)
  case (1 n xs)
  show ?case
  proof (cases "xs = []")
    case True
    then show ?thesis using 1 by (simp add: slice_chunks.simps)
  next
    case False
    with 1 have "length (slice_chunks n (drop n xs)) * n < length (drop n xs) + n" by simp
    moreover have "slice_chunks n (drop n xs) = []" if "length xs \<le> n"
      using that by (simp add: slice_chunks.simps)
    ultimately show ?thesis using False 1(2)
      by (subst slice_chunks.simps, cases "length xs \<le> n") (auto simp: slice_chunks.simps)
  qed
qed

text \<open>A receiver that holds the chunks \<open>D\<close> of a transfer of the pieces \<open>parts\<close>.\<close>

definition part_chunk :: "document_chunk \<Rightarrow> u8 list list \<Rightarrow> nat \<Rightarrow> document_chunk" where
  "part_chunk m parts i =
     m\<lparr> dc_index := of_nat i, dc_count := of_nat (length parts), dc_payload := CrdtUpdate (parts ! i) \<rparr>"

definition partial_transfer :: "document_chunk \<Rightarrow> u8 list list \<Rightarrow> nat set \<Rightarrow> transfer" where
  "partial_transfer m parts D =
     \<lparr> tf_request_id = dc_request_id m, tf_kind = dc_payload_kind m,
       tf_version = dc_server_version m, tf_snapshot_seq = dc_snapshot_seq m,
       tf_chunks = map (\<lambda>i. if i \<in> D then Some (parts ! i) else None) [0..<length parts],
       tf_received = card D, tf_bytes = sum (\<lambda>i. length (parts ! i)) D \<rparr>"

definition holding :: "transfers \<Rightarrow> document_chunk \<Rightarrow> u8 list list \<Rightarrow> nat set \<Rightarrow> transfers" where
  "holding T m parts D =
     (if D = {} \<or> D = {..<length parts} then T
      else T @ [(dc_transfer_id m, partial_transfer m parts D)])"

lemma partial_transfer_complete:
  "List.map_filter id (tf_chunks (partial_transfer m parts {..<length parts})) = parts"
proof -
  have "tf_chunks (partial_transfer m parts {..<length parts}) = map Some parts"
    unfolding partial_transfer_def transfer.simps by (rule nth_equalityI) simp_all
  moreover have "List.map_filter id (map Some xs) = xs" for xs :: "u8 list list"
    by (induction xs) (simp_all add: map_filter_simps)
  ultimately show ?thesis by simp
qed

lemma partial_transfer_insert:
  assumes "finite D" "i \<notin> D" "i < length parts"
  shows "partial_transfer m parts (insert i D) =
    (partial_transfer m parts D)\<lparr> tf_chunks := (tf_chunks (partial_transfer m parts D))[i := Some (parts ! i)],
       tf_bytes := tf_bytes (partial_transfer m parts D) + length (parts ! i),
       tf_received := tf_received (partial_transfer m parts D) + 1 \<rparr>"
proof -
  have "map (\<lambda>j. if j \<in> insert i D then Some (parts ! j) else None) [0..<length parts] =
    (map (\<lambda>j. if j \<in> D then Some (parts ! j) else None) [0..<length parts])[i := Some (parts ! i)]"
    by (rule nth_equalityI) (use assms(3) in \<open>simp_all add: nth_list_update\<close>)
  then show ?thesis using assms(1,2) by (simp add: partial_transfer_def)
qed

lemma sum_parts: "sum (\<lambda>i. length (parts ! i)) {..<length parts} = length (concat parts)"
  by (simp add: length_concat sum_list_sum_nth atLeast0LessThan)

lemma sum_parts_insert:
  assumes "D \<subseteq> {..<length parts}" "i \<notin> D" "i < length parts"
  shows "sum (\<lambda>i. length (parts ! i)) D + length (parts ! i) \<le> length (concat parts)"
proof -
  have "finite D" using assms(1) finite_subset by blast
  then have "sum (\<lambda>i. length (parts ! i)) D + length (parts ! i) = sum (\<lambda>i. length (parts ! i)) (insert i D)"
    using assms(2) by simp
  also have "\<dots> \<le> sum (\<lambda>i. length (parts ! i)) {..<length parts}"
    by (rule sum_mono2) (use assms in auto)
  finally show ?thesis by (simp add: sum_parts)
qed

definition admissible :: "transfers \<Rightarrow> document_chunk \<Rightarrow> u8 list list \<Rightarrow> bool" where
  "admissible T m parts \<longleftrightarrow>
     dc_transfer_id m \<notin> fst ` set T \<and> length T < max_transfers \<and> parts \<noteq> []
     \<and> length parts \<le> max_chunks \<and> list_all (\<lambda>p. length p \<le> max_chunk_bytes) parts
     \<and> retained_bytes T + length (concat parts) \<le> max_transfer_bytes"

lemma part_chunk_fields:
  assumes "i < length parts" "length parts \<le> max_chunks"
  shows "unat (dc_index (part_chunk m parts i)) = i" "unat (dc_count (part_chunk m parts i)) = length parts"
  using assms by (simp_all add: part_chunk_def max_chunks_def unat_of_nat)

lemma fill_slot_last:
  assumes "k \<notin> fst ` set T" "dc_transfer_id m = k"
    "u = t\<lparr> tf_chunks := (tf_chunks t)[unat (dc_index m) := Some (crdt_update_bytes (dc_payload m))],
           tf_bytes := tf_bytes t + length (crdt_update_bytes (dc_payload m)),
           tf_received := tf_received t + 1 \<rparr>"
  shows "fill_slot (T @ [(k, t)]) t m =
    (if tf_received u \<noteq> length (tf_chunks u) then (T @ [(k, u)], Inr None)
     else (T, Inr (Some (concat (List.map_filter id (tf_chunks u))))))"
  using assms(1) transfer_put_at [of k T "[]" u t] filter_absent [of k T]
  unfolding fill_slot_def Let_def assms(2) assms(3) [symmetric] by simp

text \<open>The table and the entry a chunk of the transfer works on.\<close>

lemma ingest_fill:
  assumes adm: "admissible T m parts" and D: "D \<subset> {..<length parts}" "i \<notin> D" "i < length parts"
  shows "ingest_chunk (holding T m parts D) (part_chunk m parts i) =
    fill_slot (T @ [(dc_transfer_id m, partial_transfer m parts D)]) (partial_transfer m parts D)
      (part_chunk m parts i)"
proof -
  let ?c = "part_chunk m parts i" and ?k = "dc_transfer_id m" and ?t = "partial_transfer m parts D"
  from adm have a: "?k \<notin> fst ` set T" "length T < max_transfers" "length parts \<le> max_chunks"
    "length (parts ! i) \<le> max_chunk_bytes" "retained_bytes T + length (concat parts) \<le> max_transfer_bytes"
    "parts \<noteq> []"
    using D(3) by (auto simp: admissible_def list_all_length)
  note f = part_chunk_fields [OF D(3) a(3), of m]
  have k: "dc_transfer_id ?c = ?k" by (simp add: part_chunk_def)
  have entry: "(case map_of (holding T m parts D) ?k of Some t \<Rightarrow> (holding T m parts D, t)
     | None \<Rightarrow> (holding T m parts D @ [(?k, transfer_new ?c)], transfer_new ?c)) =
     (T @ [(?k, ?t)], ?t)"
  proof (cases "D = {}")
    case True
    have "transfer_new ?c = ?t" unfolding transfer_new_def f(2)
      by (simp add: partial_transfer_def True part_chunk_def map_replicate_const)
    moreover have "map_of T ?k = None" using a(1) by (simp add: map_of_eq_None_iff)
    ultimately show ?thesis by (simp add: holding_def True)
  next
    case False
    have "map_of T ?k = None" using a(1) by (simp add: map_of_eq_None_iff)
    then have "map_of (T @ [(?k, ?t)]) ?k = Some ?t" by (simp add: map_add_def)
    then show ?thesis using False D(1) by (auto simp: holding_def)
  qed
  have room: "\<not> (map_of (holding T m parts D) ?k = None \<and> max_transfers \<le> length (holding T m parts D))"
    using a(2) D(1) by (auto simp: holding_def map_of_eq_None_iff)
  have "retained_bytes (holding T m parts D) \<le> retained_bytes T + sum (\<lambda>i. length (parts ! i)) D"
    by (simp add: holding_def retained_bytes_def partial_transfer_def)
  then have bytes: "\<not> max_transfer_bytes - retained_bytes (holding T m parts D) < length (parts ! i)"
    using a(5) sum_parts_insert [OF psubset_imp_subset [OF D(1)] D(2,3)] by linarith
  have "\<not> metadata_differs ?t ?c"
    unfolding metadata_differs_def f(2) by (simp add: partial_transfer_def part_chunk_def)
  moreover have "tf_chunks ?t ! i = None" using D by (simp add: partial_transfer_def)
  moreover have "crdt_update_bytes (dc_payload ?c) = parts ! i" by (simp add: part_chunk_def)
  ultimately show ?thesis
    unfolding ingest_chunk_def Let_def k f entry using room bytes a(3,4,6) D(3) by (auto simp: not_less not_le)
qed

lemma ingest_part:
  assumes adm: "admissible T m parts" and D: "D \<subset> {..<length parts}" "i \<notin> D" "i < length parts"
  shows "transfers_ingest (holding T m parts D) (part_chunk m parts i) =
    (holding T m parts (insert i D),
     Inr (if insert i D = {..<length parts} then Some (concat parts) else None))"
proof -
  have fin: "finite D" using D(1) finite_subset by blast
  have k: "dc_transfer_id m \<notin> fst ` set T" "length parts \<le> max_chunks" using adm by (auto simp: admissible_def)
  note u = partial_transfer_insert [OF fin D(2,3), of m]
  have f: "fill_slot (T @ [(dc_transfer_id m, partial_transfer m parts D)]) (partial_transfer m parts D)
      (part_chunk m parts i) =
    (let u = partial_transfer m parts (insert i D) in
     if tf_received u \<noteq> length (tf_chunks u) then (T @ [(dc_transfer_id m, u)], Inr None)
     else (T, Inr (Some (concat (List.map_filter id (tf_chunks u))))))"
    unfolding Let_def
    by (rule fill_slot_last [OF k(1)])
      (use u part_chunk_fields [OF D(3) k(2), of m] in \<open>simp_all add: part_chunk_def\<close>)
  have c: "tf_received (partial_transfer m parts (insert i D)) =
      length (tf_chunks (partial_transfer m parts (insert i D))) \<longleftrightarrow> insert i D = {..<length parts}"
    using D fin card_subset_eq [of "{..<length parts}" "insert i D"]
    by (auto simp: partial_transfer_def simp del: card_insert_disjoint)
  show ?thesis
    unfolding transfers_ingest_def ingest_fill [OF adm D] f Let_def
    using c partial_transfer_complete [of m parts] by (auto simp: holding_def)
qed

lemma ingest_parts:
  assumes adm: "admissible T m parts"
  shows "D \<subset> {..<length parts} \<Longrightarrow> distinct is \<Longrightarrow> set is = {..<length parts} - D \<Longrightarrow>
    machine_run transfers_step (holding T m parts D) (map (part_chunk m parts) is) =
      (T, replicate (length is - 1) (Inr None) @ [Inr (Some (concat parts))])"
proof (induction "is" arbitrary: D)
  case Nil
  then show ?case by auto
next
  case (Cons i "is")
  then have i: "i \<notin> D" "i < length parts" by auto
  note step = ingest_part [OF adm Cons.prems(1) i]
  show ?case
  proof (cases "is")
    case Nil
    then have "insert i D = {..<length parts}" using Cons.prems by auto
    then show ?thesis using step by (simp add: Nil transfers_step_def holding_def)
  next
    case (Cons j js)
    have "j \<in> set (i # is)" "j \<in> set is" by (simp_all add: Cons)
    with Cons.prems(2,3) have "j \<in> {..<length parts}" "j \<notin> insert i D" by auto
    then have ne: "insert i D \<noteq> {..<length parts}" by blast
    then have "insert i D \<subset> {..<length parts}" using Cons.prems(1) i by auto
    moreover have "set is = {..<length parts} - insert i D" using Cons.prems by auto
    ultimately have run: "machine_run transfers_step (holding T m parts (insert i D)) (map (part_chunk m parts) is) =
      (T, replicate (length is - 1) (Inr None) @ [Inr (Some (concat parts))])"
      using Cons.IH [of "insert i D"] Cons.prems(2) by simp
    have "replicate (length is) x = x # replicate (length is - 1) x"
      for x :: "(doc_error, u8 list option) result"
      using \<open>is = j # js\<close> by simp
    moreover have "transfers_step (holding T m parts D) (part_chunk m parts i) =
        (holding T m parts (insert i D), [Inr None])"
      using step ne by (simp add: transfers_step_def)
    ultimately show ?thesis using run by simp
  qed
qed

lemma mset_parts:
  assumes "mset ms = mset (map (part_chunk m parts) [0..<length parts])" "length parts \<le> max_chunks"
  obtains "is" where "ms = map (part_chunk m parts) is" "distinct is" "set is = {..<length parts}"
proof
  let ?idx = "\<lambda>c. unat (dc_index c)"
  have part: "\<exists>i < length parts. c = part_chunk m parts i" if "c \<in> set ms" for c
    using mset_eq_setD [OF assms(1)] that by auto
  show "ms = map (part_chunk m parts) (map ?idx ms)"
    using part part_chunk_fields(1) [OF _ assms(2), of _ m] by (force intro: map_idI [symmetric] simp: comp_def)
  have "mset (map ?idx ms) = image_mset ?idx (mset (map (part_chunk m parts) [0..<length parts]))"
    using assms(1) by simp
  also have "\<dots> = mset (map (?idx \<circ> part_chunk m parts) [0..<length parts])" by (simp add: multiset.map_comp)
  also have "map (?idx \<circ> part_chunk m parts) [0..<length parts] = [0..<length parts]"
    by (rule map_idI) (simp add: part_chunk_fields(1) [OF _ assms(2)])
  finally have m: "mset (map ?idx ms) = mset [0..<length parts]" .
  show "distinct (map ?idx ms)" using m mset_eq_imp_distinct_iff distinct_upt by blast
  show "set (map ?idx ms) = {..<length parts}" using mset_eq_setD [OF m] by (simp add: atLeast0LessThan)
qed

text \<open>The sender's messages are the pieces of its payload.\<close>

definition payload_parts :: "u8 list \<Rightarrow> u8 list list" where
  "payload_parts bytes = (if bytes = [] then [[]] else slice_chunks sync_chunk_bytes bytes)"

lemma payload_parts_ok:
  assumes "length bytes \<le> max_transfer_bytes"
  shows "concat (payload_parts bytes) = bytes" "payload_parts bytes \<noteq> []"
    "length (payload_parts bytes) \<le> max_chunks"
    "list_all (\<lambda>p. length p \<le> max_chunk_bytes) (payload_parts bytes)"
proof -
  show "concat (payload_parts bytes) = bytes"
    by (simp add: payload_parts_def concat_slice_chunks sync_chunk_bytes_def)
  show "payload_parts bytes \<noteq> []"
    using slice_chunks.simps [of sync_chunk_bytes bytes]
    by (simp add: payload_parts_def sync_chunk_bytes_def)
  have "length (slice_chunks sync_chunk_bytes bytes) * sync_chunk_bytes < length bytes + sync_chunk_bytes"
    by (rule length_slice_chunks) (simp add: sync_chunk_bytes_def)
  then show "length (payload_parts bytes) \<le> max_chunks"
    using assms by (simp add: payload_parts_def sync_chunk_bytes_def max_transfer_bytes_def max_chunks_def)
  show "list_all (\<lambda>p. length p \<le> max_chunk_bytes) (payload_parts bytes)"
    using slice_chunks_bound [of _ sync_chunk_bytes bytes]
    by (force simp: payload_parts_def list_all_iff sync_chunk_bytes_def max_chunk_bytes_def)
qed

definition transfer_header ::
  "string \<Rightarrow> i64 \<Rightarrow> string \<Rightarrow> document_transfer_kind \<Rightarrow> i64 \<Rightarrow> u8 list \<Rightarrow> document_chunk" where
  "transfer_header request document transfer kind seq version =
     \<lparr> dc_request_id = request, dc_document_id = document, dc_transfer_id = transfer,
       dc_index = 0, dc_count = 0, dc_payload_kind = kind, dc_payload = CrdtUpdate [],
       dc_snapshot_seq = seq, dc_server_version = DocumentVersion version \<rparr>"

lemma document_transfer_parts:
  "document_transfer request document transfer kind bytes seq version =
     map (part_chunk (transfer_header request document transfer kind seq version) (payload_parts bytes))
       [0..<length (payload_parts bytes)]"
  unfolding document_transfer_def Let_def payload_parts_def [symmetric]
  by (rule nth_equalityI) (simp_all add: nth_enumerate_eq part_chunk_def transfer_header_def)

lemma transfer_run:
  assumes "mset ms = mset (document_transfer request document transfer kind bytes seq version)"
    and "transfer \<notin> fst ` set T" and "length T < max_transfers"
    and "retained_bytes T + length bytes \<le> max_transfer_bytes"
  shows "machine_run transfers_step T ms = (T, replicate (length ms - 1) (Inr None) @ [Inr (Some bytes)])"
proof -
  let ?m = "transfer_header request document transfer kind seq version"
  note p = payload_parts_ok [of bytes]
  obtain "is" where ms: "ms = map (part_chunk ?m (payload_parts bytes)) is" "distinct is"
    "set is = {..<length (payload_parts bytes)}"
    by (rule mset_parts [OF assms(1) [unfolded document_transfer_parts] p(3)]) (use assms(4) in simp)
  have "admissible T ?m (payload_parts bytes)"
    using assms p by (simp add: admissible_def transfer_header_def)
  moreover have "{} \<subset> {..<length (payload_parts bytes)}" using p(2) assms(4) by (auto simp: lessThan_empty_iff)
  ultimately have "machine_run transfers_step (holding T ?m (payload_parts bytes) {}) ms =
      (T, replicate (length is - 1) (Inr None) @ [Inr (Some (concat (payload_parts bytes)))])"
    unfolding ms(1) using ms(2,3) by (intro ingest_parts) simp_all
  moreover have "length is = length ms" using ms(1) by simp
  moreover have "concat (payload_parts bytes) = bytes" using p(1) assms(4) by simp
  ultimately show ?thesis by (simp add: holding_def)
qed

lemma document_transfer_shape:
  "document_transfer request document transfer kind bytes seq version \<noteq> []"
  "c \<in> set (document_transfer request document transfer kind bytes seq version) \<Longrightarrow>
     dc_document_id c = document"
  using slice_chunks.simps [of sync_chunk_bytes bytes]
  by (auto simp: document_transfer_parts part_chunk_def transfer_header_def payload_parts_def
      sync_chunk_bytes_def)

text \<open>
  C25: a transfer survives reordering. The chunks a server sends for a payload, delivered in any
  order to a receiver with room for it, produce exactly the payload with the last of them and
  nothing before, and leave the receiver's other transfers as they were.
\<close>

theorem transfer_reassembles_in_any_order:
  assumes "mset ms = mset (document_transfer request document transfer kind bytes seq version)"
    and "transfer \<notin> fst ` set T" and "length T < max_transfers"
    and "retained_bytes T + length bytes \<le> max_transfer_bytes"
  shows "machine_run transfers_step T ms = (T, replicate (length ms - 1) (Inr None) @ [Inr (Some bytes)])"
  using assms by (rule transfer_run)

theorem transfer_reassembles_in_any_order_witness:
  "machine_run transfers_step [] (rev (document_transfer ''r'' 1 ''t'' TransferUpdate [4, 5] 0 [])) =
     ([], [Inr (Some [4, 5])])"
proof -
  have "document_transfer ''r'' 1 ''t'' TransferUpdate [4, 5] 0 [] \<noteq> []
    \<and> length (document_transfer ''r'' 1 ''t'' TransferUpdate [4, 5] 0 []) = 1"
    by (simp add: document_transfer_def slice_chunks.simps sync_chunk_bytes_def)
  then show ?thesis
    using transfer_reassembles_in_any_order
      [of "rev (document_transfer ''r'' 1 ''t'' TransferUpdate [4, 5] 0 [])" "''r''" 1 "''t''"
        TransferUpdate "[4, 5]" 0 "[]" "[]"]
    by (simp add: max_transfers_def retained_bytes_def max_transfer_bytes_def)
qed

end
