(* ===== verification/Room_Replica.thy ===== *)
theory Room_Replica
  imports Chunk_Transfer Document_Actor
begin

text \<open>
  The client's side of a room: the follow projection and the replica state machine of
  \<^verbatim>\<open>crates/client-sdk/src/room_replica.rs\<close>, over the parameter Loro of \<open>Text_Replica\<close>.

  A method that mutates the replica returns its next state also when it fails, since the
  code's early returns keep what was changed before them.
\<close>

section \<open>Following an attachment\<close>

datatype follow_event =
    FollowUnchanged
  | PresenceChanged "i64 option" "room_selection option"
  | ResultChanged room_query_result
  | TargetLeft
  | NeedsRecovery

record follow_mode =
  fm_attachment_id :: i64
  fm_principal_id :: "i64 option"
  fm_active_document_id :: "i64 option"
  fm_selection :: "room_selection option"

definition follow_new :: "i64 \<Rightarrow> follow_mode" where
  "follow_new attachment =
     \<lparr> fm_attachment_id = attachment, fm_principal_id = None, fm_active_document_id = None,
       fm_selection = None \<rparr>"

definition follow_presence :: "follow_mode \<Rightarrow> room_presence list \<Rightarrow> follow_mode \<times> follow_event" where
  "follow_presence f presence =
     (case find (\<lambda>p. rp_attachment_id p = fm_attachment_id f) presence of
        None \<Rightarrow> (f, TargetLeft)
      | Some target \<Rightarrow>
          (if fm_active_document_id f = rp_active_document_id target
              \<and> fm_selection f = rp_selection target
              \<and> fm_principal_id f = Some (rp_principal_id target)
           then (f, FollowUnchanged)
           else (f\<lparr> fm_principal_id := Some (rp_principal_id target),
                    fm_active_document_id := rp_active_document_id target,
                    fm_selection := rp_selection target \<rparr>,
                 PresenceChanged (rp_active_document_id target) (rp_selection target))))"

definition follow_ingest :: "follow_mode \<Rightarrow> room_server_message \<Rightarrow> follow_mode \<times> follow_event" where
  "follow_ingest f message =
     (case message of
        ServerAttached _ presence \<Rightarrow> follow_presence f presence
      | ServerPresence presence \<Rightarrow> follow_presence f presence
      | ServerQueryResult result \<Rightarrow>
          (if fm_principal_id f = Some (rq_actor_principal_id result)
           then (f, ResultChanged result) else (f, FollowUnchanged))
      | ServerResyncRequired _ _ \<Rightarrow> (f, NeedsRecovery)
      | _ \<Rightarrow> (f, FollowUnchanged))"

section \<open>The replica\<close>

datatype room_ingest =
    IngestProgress
  | IngestSynced "u8 list"
  | IngestAcked string
  | IngestResync
  | IngestError document_error_code string
  | IngestIgnored

record 'd room_replica =
  rr_document_id :: i64
  rr_replica_id :: u64
  rr_replica :: 'd
  rr_pending :: "string set"
  rr_transfers :: transfers
  rr_seq :: u64

definition room_replica_new ::
  "('d, 'v, 'f) loro \<Rightarrow> i64 \<Rightarrow> u64 \<Rightarrow> u8 list option \<Rightarrow> (doc_error, 'd room_replica) result" where
  "room_replica_new L document replica snapshot =
     res_bind (case snapshot of
                 Some bytes \<Rightarrow> replica_from_snapshot L replica bytes
               | None \<Rightarrow> replica_new L replica) (\<lambda>d.
       Inr \<lparr> rr_document_id = document, rr_replica_id = replica, rr_replica = d, rr_pending = {},
             rr_transfers = [], rr_seq = 0 \<rparr>)"

definition persist :: "('d, 'v, 'f) loro \<Rightarrow> 'd room_replica \<Rightarrow> (doc_error, u64 \<times> u8 list) result" where
  "persist L r =
     res_bind (replica_export_snapshot L (rr_replica r)) (\<lambda>bytes. Inr (rr_replica_id r, bytes))"

definition known_version :: "('d, 'v, 'f) loro \<Rightarrow> 'd room_replica \<Rightarrow> document_version" where
  "known_version L r = DocumentVersion (replica_version_vector L (rr_replica r))"

definition id_text :: "u64 \<Rightarrow> string \<Rightarrow> u64 \<Rightarrow> string" where
  "id_text replica tag seq =
     show_nat (unat replica) @ ''-'' @ tag @ ''-'' @ show_nat (unat seq)"

definition next_id :: "'d room_replica \<Rightarrow> string \<Rightarrow> 'd room_replica \<times> string" where
  "next_id r tag =
     (let r = r\<lparr> rr_seq := rr_seq r + 1 \<rparr> in (r, id_text (rr_replica_id r) tag (rr_seq r)))"

definition sync_message ::
  "('d, 'v, 'f) loro \<Rightarrow> 'd room_replica \<Rightarrow> 'd room_replica \<times> string \<times> room_client_message" where
  "sync_message L r =
     (case next_id (r\<lparr> rr_transfers := [] \<rparr>) ''sync'' of
        (r, request) \<Rightarrow>
          (r, request,
           ClientDocumentSync request (rr_document_id r) (ReplicaId (rr_replica_id r)) (known_version L r)))"

text \<open>The update message of \<open>update\<close>, its ids drawn and the update id pending.\<close>

definition submit ::
  "'d room_replica \<Rightarrow> string \<Rightarrow> u8 list \<Rightarrow> 'd room_replica \<times> room_client_message" where
  "submit r tag update =
     (case next_id r tag of
        (r, update_id) \<Rightarrow>
          (case next_id r ''req'' of
             (r, request) \<Rightarrow>
               (r\<lparr> rr_pending := insert update_id (rr_pending r) \<rparr>,
                ClientDocumentUpdate request update_id (rr_document_id r)
                  (ReplicaId (rr_replica_id r)) (CrdtUpdate update))))"

definition update_since ::
  "('d, 'v, 'f) loro \<Rightarrow> 'd room_replica \<Rightarrow> u8 list \<Rightarrow> string \<Rightarrow>
   'd room_replica \<times> (doc_error, room_client_message) result" where
  "update_since L r since tag =
     (case export_updates_since L (rr_replica r) since of
        Inl e \<Rightarrow> (r, Inl e)
      | Inr update \<Rightarrow> (case submit r tag update of (r, m) \<Rightarrow> (r, Inr m)))"

definition local_insert ::
  "('d, 'v, 'f) loro \<Rightarrow> 'd room_replica \<Rightarrow> nat \<Rightarrow> string \<Rightarrow>
   'd room_replica \<times> (doc_error, room_client_message) result" where
  "local_insert L r pos text =
     (let since = replica_version_vector L (rr_replica r)
      in case replica_insert L (rr_replica r) pos text of
           Inl e \<Rightarrow> (r, Inl e)
         | Inr d \<Rightarrow> update_since L (r\<lparr> rr_replica := d \<rparr>) since ''ins'')"

definition local_delete ::
  "('d, 'v, 'f) loro \<Rightarrow> 'd room_replica \<Rightarrow> nat \<Rightarrow> nat \<Rightarrow>
   'd room_replica \<times> (doc_error, room_client_message) result" where
  "local_delete L r pos len =
     (let since = replica_version_vector L (rr_replica r)
      in case replica_delete L (rr_replica r) pos len of
           Inl e \<Rightarrow> (r, Inl e)
         | Inr d \<Rightarrow> update_since L (r\<lparr> rr_replica := d \<rparr>) since ''del'')"

definition import_local_update ::
  "('d, 'v, 'f) loro \<Rightarrow> 'd room_replica \<Rightarrow> u8 list \<Rightarrow>
   'd room_replica \<times> (doc_error, room_client_message) result" where
  "import_local_update L r update =
     (let since = replica_version_vector L (rr_replica r)
      in case replica_import L (rr_replica r) update of
           (d, Inl e) \<Rightarrow> (r\<lparr> rr_replica := d \<rparr>, Inl e)
         | (d, Inr _) \<Rightarrow> update_since L (r\<lparr> rr_replica := d \<rparr>) since ''edit'')"

definition catch_up ::
  "('d, 'v, 'f) loro \<Rightarrow> 'd room_replica \<Rightarrow> u8 list \<Rightarrow>
   'd room_replica \<times> (doc_error, room_client_message option) result" where
  "catch_up L r server_version =
     (case updates_since_if_any L (rr_replica r) server_version of
        Inl e \<Rightarrow> (r, Inl e)
      | Inr None \<Rightarrow> (r\<lparr> rr_pending := {} \<rparr>, Inr None)
      | Inr (Some update) \<Rightarrow>
          (case submit (r\<lparr> rr_pending := {} \<rparr>) ''catchup'' update of (r, m) \<Rightarrow> (r, Inr (Some m))))"

text \<open>Importing what the server sent, unless it is empty.\<close>

definition import_progress ::
  "('d, 'v, 'f) loro \<Rightarrow> 'd room_replica \<Rightarrow> u8 list \<Rightarrow>
   'd room_replica \<times> (doc_error, room_ingest) result" where
  "import_progress L r bytes =
     (if bytes = [] then (r, Inr IngestProgress)
      else case replica_import L (rr_replica r) bytes of
        (d, Inl e) \<Rightarrow> (r\<lparr> rr_replica := d \<rparr>, Inl e)
      | (d, Inr _) \<Rightarrow> (r\<lparr> rr_replica := d \<rparr>, Inr IngestProgress))"

definition ingest ::
  "('d, 'v, 'f) loro \<Rightarrow> 'd room_replica \<Rightarrow> room_server_message \<Rightarrow>
   'd room_replica \<times> (doc_error, room_ingest) result" where
  "ingest L r message =
     (case message of
        ServerDocumentChunk chunk \<Rightarrow>
          (if dc_document_id chunk = rr_document_id r
           then (case transfers_ingest (rr_transfers r) chunk of
                   (T, Inl e) \<Rightarrow> (r\<lparr> rr_transfers := T \<rparr>, Inl e)
                 | (T, Inr None) \<Rightarrow> (r\<lparr> rr_transfers := T \<rparr>, Inr IngestProgress)
                 | (T, Inr (Some bytes)) \<Rightarrow> import_progress L (r\<lparr> rr_transfers := T \<rparr>) bytes)
           else (r, Inr IngestIgnored))
      | ServerDocumentSynced _ document server_version \<Rightarrow>
          (if document = rr_document_id r
           then (if rr_transfers r \<noteq> []
                 then (r\<lparr> rr_transfers := [] \<rparr>,
                       Inl (transfer_invalid ''sync completed with missing chunks''))
                 else (r, Inr (IngestSynced (document_version_bytes server_version))))
           else (r, Inr IngestIgnored))
      | ServerDocumentUpdateAck _ update_id document _ _ \<Rightarrow>
          (if document = rr_document_id r
           then (r\<lparr> rr_pending := rr_pending r - {update_id} \<rparr>, Inr (IngestAcked update_id))
           else (r, Inr IngestIgnored))
      | ServerDocumentUpdateCommitted document _ _ update _ \<Rightarrow>
          (if document = rr_document_id r
           then import_progress L r (crdt_update_bytes update)
           else (r, Inr IngestIgnored))
      | ServerResyncRequired _ _ \<Rightarrow> (r\<lparr> rr_transfers := [] \<rparr>, Inr IngestResync)
      | ServerDocumentError _ document code message \<Rightarrow>
          (if document = rr_document_id r
           then (r\<lparr> rr_transfers := [] \<rparr>, Inr (IngestError code message))
           else (r, Inr IngestIgnored))
      | _ \<Rightarrow> (r, Inr IngestIgnored))"

section \<open>Bootstrapping and catching up from the server\<close>

definition ingest_step ::
  "('d, 'v, 'f) loro \<Rightarrow> 'd room_replica \<Rightarrow> room_server_message \<Rightarrow>
   'd room_replica \<times> (doc_error, room_ingest) result list" where
  "ingest_step L r m = (case ingest L r m of (r', o') \<Rightarrow> (r', [o']))"

lemma ingest_chunk_step:
  assumes "transfers_ingest (rr_transfers r) c = (T, res)" "dc_document_id c = rr_document_id r"
  shows "ingest_step L r (ServerDocumentChunk c) =
    (case res of
       Inl e \<Rightarrow> (r\<lparr> rr_transfers := T \<rparr>, [Inl e])
     | Inr None \<Rightarrow> (r\<lparr> rr_transfers := T \<rparr>, [Inr IngestProgress])
     | Inr (Some bytes) \<Rightarrow>
         (case import_progress L (r\<lparr> rr_transfers := T \<rparr>) bytes of (r', o') \<Rightarrow> (r', [o'])))"
  using assms by (auto simp: ingest_step_def ingest_def split: sum.split option.split)

lemma ingest_chunks:
  assumes "machine_run transfers_step (rr_transfers r) cs =
      (T, replicate n (Inr None) @ [Inr (Some bytes)])"
    and "length cs = Suc n" and "list_all (\<lambda>c. dc_document_id c = rr_document_id r) cs"
    and "import_progress L (r\<lparr> rr_transfers := T \<rparr>) bytes = (r', out)"
  shows "machine_run (ingest_step L) r (map ServerDocumentChunk cs) =
      (r', replicate n (Inr IngestProgress) @ [out])"
  using assms
proof (induction cs arbitrary: r n)
  case Nil
  then show ?case by simp
next
  case (Cons c cs)
  obtain T1 res where t: "transfers_ingest (rr_transfers r) c = (T1, res)" by fastforce
  obtain T2 outs where run: "machine_run transfers_step T1 cs = (T2, outs)" by fastforce
  from Cons.prems(1) run have eq: "T2 = T" "res # outs = replicate n (Inr None) @ [Inr (Some bytes)]"
    by (simp_all add: transfers_step_eq [OF t])
  have doc: "dc_document_id c = rr_document_id r" using Cons.prems(3) by simp
  show ?case
  proof (cases n)
    case 0
    then have "cs = []" "res = Inr (Some bytes)" "T1 = T" using Cons.prems(2) eq run by auto
    then show ?thesis using ingest_chunk_step [OF t doc, of L] Cons.prems(4) 0 by simp
  next
    case (Suc k)
    then have res: "res = Inr None" and outs: "outs = replicate k (Inr None) @ [Inr (Some bytes)]"
      using eq(2) by simp_all
    have "machine_run (ingest_step L) (r\<lparr> rr_transfers := T1 \<rparr>) (map ServerDocumentChunk cs) =
      (r', replicate k (Inr IngestProgress) @ [out])"
      by (rule Cons.IH) (use run eq(1) outs Cons.prems(2-4) Suc in simp_all)
    then show ?thesis using ingest_chunk_step [OF t doc, of L] res Suc by simp
  qed
qed

lemma machine_run_snoc:
  assumes "machine_run step s is = (t, os)" "step t i = (t', os')"
  shows "machine_run step s (is @ [i]) = (t', os @ os')"
  using assms by (simp add: machine_run_append)

lemma sync_message_fields:
  assumes "sync_message L r = (r1, request, m)"
  shows "rr_transfers r1 = []" "rr_replica r1 = rr_replica r" "rr_document_id r1 = rr_document_id r"
    "rr_pending r1 = rr_pending r"
  using assms by (auto simp: sync_message_def next_id_def Let_def)

text \<open>
  synchronizing. After a replica asks to synchronize, the server's transfer of any payload
  up to 256 MiB that the document accepts, its chunks delivered in any order and followed by the
  terminal message, imports exactly that payload once, reports progress for every chunk and then
  the server's version, and changes nothing else of the replica.
\<close>

theorem sync_imports_the_transfer:
  assumes "sync_message L r = (r1, request, m)"
    and "mset cs = mset (document_transfer request (rr_document_id r) transfer kind bytes seq version)"
    and "length bytes \<le> max_transfer_bytes"
    and "import_progress L r1 bytes = (r2, Inr IngestProgress)"
  shows "machine_run (ingest_step L) r1
      (map ServerDocumentChunk cs @ [ServerDocumentSynced request (rr_document_id r) (DocumentVersion version)]) =
    (r2, replicate (length cs) (Inr IngestProgress) @ [Inr (IngestSynced version)])
    \<and> r2 = r1\<lparr> rr_replica := (if bytes = [] then rr_replica r
             else fst (replica_import L (rr_replica r) bytes)) \<rparr>"
proof -
  note f = sync_message_fields [OF assms(1)]
  have "machine_run transfers_step (rr_transfers r1) cs =
      ([], replicate (length cs - 1) (Inr None) @ [Inr (Some bytes)])"
    unfolding f(1) by (rule transfer_run [OF assms(2)]) (use assms(3) in \<open>simp_all add: max_transfers_def retained_bytes_def\<close>)
  moreover have len: "length cs = Suc (length cs - 1)"
    using assms(2) document_transfer_shape(1) by (cases cs) auto
  moreover have "list_all (\<lambda>c. dc_document_id c = rr_document_id r1) cs"
    unfolding list_all_iff f(3) using document_transfer_shape(2) mset_eq_setD [OF assms(2)] by blast
  moreover have "import_progress L (r1\<lparr> rr_transfers := [] \<rparr>) bytes = (r2, Inr IngestProgress)"
  proof -
    have "r1\<lparr> rr_transfers := [] \<rparr> = r1" using f(1) by (cases r1) simp
    with assms(4) show ?thesis by simp
  qed
  ultimately have run: "machine_run (ingest_step L) r1 (map ServerDocumentChunk cs) =
      (r2, replicate (length cs - 1) (Inr IngestProgress) @ [Inr IngestProgress])"
    by (rule ingest_chunks)
  have r2: "r2 = r1\<lparr> rr_replica := (if bytes = [] then rr_replica r
             else fst (replica_import L (rr_replica r) bytes)) \<rparr>"
    using assms(4) f(2) by (auto simp: import_progress_def split: if_splits prod.splits sum.splits)
  have "ingest_step L r2 (ServerDocumentSynced request (rr_document_id r) (DocumentVersion version)) =
      (r2, [Inr (IngestSynced version)])"
    by (simp add: ingest_step_def ingest_def r2 f)
  moreover have "replicate (length cs - 1) x @ [x] = replicate (length cs) x"
    for x :: "(doc_error, room_ingest) result"
    by (subst (2) len) (simp add: replicate_append_same)
  ultimately show ?thesis using machine_run_snoc [OF run] r2 by simp
qed

theorem sync_imports_the_transfer_witness:
  "\<exists>r1 request m r2.
     sync_message demo_loro \<lparr> rr_document_id = 7, rr_replica_id = 5, rr_replica = {1}, rr_pending = {},
       rr_transfers = [], rr_seq = 0 \<rparr> = (r1, request, m)
     \<and> machine_run (ingest_step demo_loro) r1
         (map ServerDocumentChunk (document_transfer request 7 ''t'' TransferUpdate [2, 3] 0 [])
           @ [ServerDocumentSynced request 7 (DocumentVersion [])]) = (r2, [Inr IngestProgress, Inr (IngestSynced [])])
     \<and> rr_replica r2 = {1, 2, 3}"
proof -
  let ?r = "\<lparr> rr_document_id = 7, rr_replica_id = 5, rr_replica = {1 :: u8}, rr_pending = {},
       rr_transfers = [], rr_seq = 0 \<rparr>"
  obtain r1 request m where s: "sync_message demo_loro ?r = (r1, request, m)" by (rule prod_cases3)
  let ?r2 = "r1\<lparr> rr_replica := fst (replica_import demo_loro {1} [2, 3]) \<rparr>"
  have i: "import_progress demo_loro r1 [2, 3] = (?r2, Inr IngestProgress)"
    using sync_message_fields(2) [OF s]
    by (simp add: import_progress_def replica_import_def demo_loro_def demo_import_def)
  have "length (document_transfer request 7 ''t'' TransferUpdate [2, 3] 0 []) = 1"
    by (simp add: document_transfer_def slice_chunks.simps sync_chunk_bytes_def)
  then show ?thesis
    using sync_imports_the_transfer [OF s _ _ i, of "document_transfer request 7 ''t'' TransferUpdate [2, 3] 0 []"
        "''t''" TransferUpdate 0 "[]"] s
    by (auto simp: max_transfer_bytes_def replica_import_def demo_loro_def demo_import_def)
qed

section \<open>Update ids\<close>

datatype client_op =
    OpSync
  | OpInsert nat string
  | OpDelete nat nat
  | OpImport "u8 list"
  | OpCatchUp "u8 list"
  | OpIngest room_server_message

fun message_update_ids :: "room_client_message \<Rightarrow> string list" where
  "message_update_ids (ClientDocumentUpdate _ update_id _ _ _) = [update_id]"
| "message_update_ids _ = []"

definition result_update_ids :: "(doc_error, room_client_message) result \<Rightarrow> string list" where
  "result_update_ids x = (case x of Inl _ \<Rightarrow> [] | Inr m \<Rightarrow> message_update_ids m)"

text \<open>A step of a client's session, with the update ids it sends.\<close>

definition client_step ::
  "('d, 'v, 'f) loro \<Rightarrow> 'd room_replica \<Rightarrow> client_op \<Rightarrow> 'd room_replica \<times> string list" where
  "client_step L r x =
     (case x of
        OpSync \<Rightarrow> (case sync_message L r of (r, _, m) \<Rightarrow> (r, message_update_ids m))
      | OpInsert pos text \<Rightarrow> (case local_insert L r pos text of (r, m) \<Rightarrow> (r, result_update_ids m))
      | OpDelete pos len \<Rightarrow> (case local_delete L r pos len of (r, m) \<Rightarrow> (r, result_update_ids m))
      | OpImport bytes \<Rightarrow> (case import_local_update L r bytes of (r, m) \<Rightarrow> (r, result_update_ids m))
      | OpCatchUp version \<Rightarrow>
          (case catch_up L r version of
             (r, Inr (Some m)) \<Rightarrow> (r, message_update_ids m) | (r, _) \<Rightarrow> (r, []))
      | OpIngest message \<Rightarrow> (fst (ingest L r message), []))"

text \<open>The sequence number an id ends with.\<close>

definition id_seq :: "string \<Rightarrow> nat" where
  "id_seq s = read_nat (rev (takeWhile is_digit (rev s)))"

lemma id_seq_id_text: "id_seq (id_text replica tag n) = unat n"
proof -
  have "rev (id_text replica tag n) =
      rev (show_nat (unat n)) @ CHR ''-'' # rev (show_nat (unat replica) @ ''-'' @ tag)"
    by (simp add: id_text_def)
  moreover have "\<not> is_digit (CHR ''-'')" by (simp add: is_digit_def)
  ultimately have "takeWhile is_digit (rev (id_text replica tag n)) = rev (show_nat (unat n))"
    using show_nat_digits [of "unat n"] by (simp add: takeWhile_append)
  then show ?thesis by (simp add: id_seq_def read_show_nat)
qed

text \<open>
  \<open>extends r r' ids\<close>: \<open>ids\<close> were drawn between two states, in order, from the numbers between
  theirs, and only they can have become pending.
\<close>

definition extends :: "'d room_replica \<Rightarrow> 'd room_replica \<Rightarrow> string list \<Rightarrow> bool" where
  "extends r r' ids \<longleftrightarrow>
     unat (rr_seq r) \<le> unat (rr_seq r')
     \<and> sorted_wrt (<) (map id_seq ids)
     \<and> (\<forall>x \<in> set ids. unat (rr_seq r) < id_seq x \<and> id_seq x \<le> unat (rr_seq r'))
     \<and> rr_pending r' \<subseteq> rr_pending r \<union> set ids"

lemma extends_same: "rr_seq r' = rr_seq r \<Longrightarrow> rr_pending r' \<subseteq> rr_pending r \<Longrightarrow> extends r r' []"
  by (auto simp: extends_def)

lemma extends_trans:
  assumes "extends r r' ids" "extends r' r'' ids'"
  shows "extends r r'' (ids @ ids')"
  using assms unfolding extends_def by (auto simp: sorted_wrt_append) force+

lemma seq_suc: "unat (s :: u64) + n < 2 ^ 64 \<Longrightarrow> unat (s + of_nat n) = unat s + n"
  by (simp add: unat_word_ariths unat_of_nat)

lemma submit_extends:
  assumes "unat (rr_seq r) + 2 < 2 ^ 64" "submit r tag update = (r', m)"
  shows "extends r r' (message_update_ids m) \<and> unat (rr_seq r') = unat (rr_seq r) + 2"
proof -
  have s: "unat (rr_seq r + 1) = unat (rr_seq r) + 1" "unat (rr_seq r + 1 + 1) = unat (rr_seq r) + 2"
    using assms(1) seq_suc [of "rr_seq r" 1] seq_suc [of "rr_seq r + 1" 1] by simp_all
  show ?thesis using assms(2) s
    by (auto simp: submit_def next_id_def Let_def extends_def id_seq_id_text)
qed

definition step_extends :: "'d room_replica \<Rightarrow> 'd room_replica \<times> string list \<Rightarrow> bool" where
  "step_extends r w \<longleftrightarrow> extends r (fst w) (snd w) \<and> unat (rr_seq (fst w)) \<le> unat (rr_seq r) + 2"

lemma step_extends_same:
  "rr_seq r' = rr_seq r \<Longrightarrow> rr_pending r' \<subseteq> rr_pending r \<Longrightarrow> step_extends r (r', [])"
  by (simp add: step_extends_def extends_same)

lemma extends_from:
  "rr_seq r1 = rr_seq r \<Longrightarrow> rr_pending r1 \<subseteq> rr_pending r \<Longrightarrow> extends r1 r' ids \<Longrightarrow> extends r r' ids"
  by (auto simp: extends_def)

lemma submit_step:
  assumes "unat (rr_seq r) + 2 < 2 ^ 64" "rr_seq r1 = rr_seq r" "rr_pending r1 \<subseteq> rr_pending r"
    and "submit r1 tag update = (r', m)"
  shows "step_extends r (r', message_update_ids m)"
  using submit_extends [of r1 tag update r' m] extends_from [OF assms(2,3)] assms
  by (simp add: step_extends_def)

lemma update_since_step:
  assumes "unat (rr_seq r) + 2 < 2 ^ 64" "rr_seq r1 = rr_seq r" "rr_pending r1 \<subseteq> rr_pending r"
  shows "step_extends r (case update_since L r1 since tag of (r', m) \<Rightarrow> (r', result_update_ids m))"
proof (cases "export_updates_since L (rr_replica r1) since")
  case (Inl e)
  then show ?thesis using assms by (simp add: update_since_def result_update_ids_def step_extends_same)
next
  case (Inr update)
  obtain r' m where "submit r1 tag update = (r', m)" by fastforce
  with submit_step [OF assms this] Inr show ?thesis
    by (simp add: update_since_def result_update_ids_def)
qed

lemma local_edit_step:
  assumes "unat (rr_seq r) + 2 < 2 ^ 64"
  shows "step_extends r (case local_insert L r pos text of (r', m) \<Rightarrow> (r', result_update_ids m))"
    and "step_extends r (case local_delete L r pos len of (r', m) \<Rightarrow> (r', result_update_ids m))"
    and "step_extends r (case import_local_update L r bytes of (r', m) \<Rightarrow> (r', result_update_ids m))"
proof -
  have same: "step_extends r (r\<lparr> rr_replica := d \<rparr>, [])" "step_extends r (r, [])" for d
    by (simp_all add: step_extends_same)
  have upd: "step_extends r (case update_since L (r\<lparr> rr_replica := d \<rparr>) since tag of
      (r', m) \<Rightarrow> (r', result_update_ids m))" for d since tag
    by (rule update_since_step [OF assms]) simp_all
  show "step_extends r (case local_insert L r pos text of (r', m) \<Rightarrow> (r', result_update_ids m))"
    using same(2) upd by (cases "replica_insert L (rr_replica r) pos text")
      (simp_all add: local_insert_def result_update_ids_def Let_def)
  show "step_extends r (case local_delete L r pos len of (r', m) \<Rightarrow> (r', result_update_ids m))"
    using same(2) upd by (cases "replica_delete L (rr_replica r) pos len")
      (simp_all add: local_delete_def result_update_ids_def Let_def)
  obtain d out where i: "replica_import L (rr_replica r) bytes = (d, out)" by fastforce
  show "step_extends r (case import_local_update L r bytes of (r', m) \<Rightarrow> (r', result_update_ids m))"
    using same(1) upd by (cases out)
      (simp_all add: import_local_update_def result_update_ids_def Let_def i)
qed

lemma ingest_bookkeeping:
  "rr_seq (fst (ingest L r message)) = rr_seq r \<and> rr_pending (fst (ingest L r message)) \<subseteq> rr_pending r"
  unfolding ingest_def import_progress_def
  by (cases message) (auto split: prod.split sum.split option.split)

lemma client_step_extends:
  assumes "unat (rr_seq r) + 2 < 2 ^ 64"
  shows "step_extends r (client_step L r x)"
proof (cases x)
  case OpSync
  then show ?thesis using seq_suc [of "rr_seq r" 1] assms
    by (auto simp: client_step_def sync_message_def next_id_def Let_def step_extends_def extends_def)
next
  case (OpCatchUp version)
  show ?thesis
  proof (cases "updates_since_if_any L (rr_replica r) version")
    case (Inl e)
    then show ?thesis by (simp add: OpCatchUp client_step_def catch_up_def step_extends_same)
  next
    case (Inr u)
    show ?thesis
    proof (cases u)
      case None
      then show ?thesis by (simp add: OpCatchUp Inr client_step_def catch_up_def step_extends_same)
    next
      case (Some update)
      obtain r' m where s: "submit (r\<lparr> rr_pending := {} \<rparr>) ''catchup'' update = (r', m)" by fastforce
      then have "step_extends r (r', message_update_ids m)"
        by (intro submit_step [OF assms, of "r\<lparr> rr_pending := {} \<rparr>"]) simp_all
      then show ?thesis by (simp add: OpCatchUp Inr Some client_step_def catch_up_def s)
    qed
  qed
qed (use local_edit_step [OF assms] ingest_bookkeeping [of L r] in
      \<open>simp_all add: client_step_def step_extends_same\<close>)

lemma client_run_extends:
  "unat (rr_seq r) + 2 * length xs < 2 ^ 64 \<Longrightarrow>
   extends r (fst (machine_run (client_step L) r xs)) (snd (machine_run (client_step L) r xs))"
proof (induction xs arbitrary: r)
  case Nil
  then show ?case by (simp add: extends_same)
next
  case (Cons x xs)
  obtain r1 ids where s: "client_step L r x = (r1, ids)" by fastforce
  have "step_extends r (r1, ids)" using client_step_extends [of r L x] Cons.prems s by simp
  then have e: "extends r r1 ids" "unat (rr_seq r1) \<le> unat (rr_seq r) + 2"
    by (simp_all add: step_extends_def)
  then have "extends r1 (fst (machine_run (client_step L) r1 xs)) (snd (machine_run (client_step L) r1 xs))"
    using Cons.prems by (intro Cons.IH) simp
  from extends_trans [OF e(1) this] show ?case
    by (simp add: s split: prod.split) (metis fst_conv snd_conv)
qed

text \<open>
  Update ids within a session. The update ids a replica draws from its construction on,
  through any sequence of edits, synchronizations and server messages shorter than
  \<open>2 ^ 63\<close>, are all different, and every update that awaits an acknowledgement is one of
  them.
\<close>

theorem update_ids_unique_in_session:
  assumes "room_replica_new L document replica snapshot = Inr r" and "2 * length xs < 2 ^ 64"
  shows "distinct (snd (machine_run (client_step L) r xs))
    \<and> rr_pending (fst (machine_run (client_step L) r xs)) \<subseteq> set (snd (machine_run (client_step L) r xs))"
proof -
  have r: "rr_seq r = 0" "rr_pending r = {}"
    using assms(1) by (auto simp: room_replica_new_def res_bind_def split: sum.splits)
  have e: "extends r (fst (machine_run (client_step L) r xs)) (snd (machine_run (client_step L) r xs))"
    by (rule client_run_extends) (use assms(2) r(1) in simp)
  then have "distinct (map id_seq (snd (machine_run (client_step L) r xs)))"
    unfolding extends_def using strict_sorted_iff by blast
  then show ?thesis using e r(2) by (auto simp: extends_def distinct_map)
qed

theorem update_ids_unique_in_session_witness:
  "\<exists>r. room_replica_new demo_loro 7 5 None = Inr r
     \<and> distinct (snd (machine_run (client_step demo_loro) r [OpInsert 0 ''ab'', OpInsert 0 ''abc'', OpCatchUp []]))
     \<and> length (snd (machine_run (client_step demo_loro) r [OpInsert 0 ''ab'', OpInsert 0 ''abc''])) = 2"
proof -
  have new: "room_replica_new demo_loro 7 5 None =
      Inr \<lparr> rr_document_id = 7, rr_replica_id = 5, rr_replica = {}, rr_pending = {},
            rr_transfers = [], rr_seq = 0 \<rparr>"
    by (simp add: room_replica_new_def replica_new_def demo_loro_def res_bind_def)
  have "length (snd (machine_run (client_step demo_loro)
       \<lparr> rr_document_id = 7, rr_replica_id = 5, rr_replica = {}, rr_pending = {},
         rr_transfers = [], rr_seq = 0 \<rparr> [OpInsert 0 ''ab'', OpInsert 0 ''abc''])) = 2"
    by (simp add: client_step_def local_insert_def replica_insert_def update_since_def submit_def
        next_id_def export_updates_since_def decode_version_def demo_loro_def res_bind_def Let_def
        result_update_ids_def)
  with update_ids_unique_in_session [OF new, of "[OpInsert 0 ''ab'', OpInsert 0 ''abc'', OpCatchUp []]"] new
  show ?thesis by auto
qed



section \<open>What a follower knows\<close>

text \<open>The listing of the target in a message that lists who is present.\<close>

definition target_listing :: "i64 \<Rightarrow> room_server_message \<Rightarrow> room_presence option" where
  "target_listing attachment message =
     (case message of
        ServerAttached _ presence \<Rightarrow> find (\<lambda>p. rp_attachment_id p = attachment) presence
      | ServerPresence presence \<Rightarrow> find (\<lambda>p. rp_attachment_id p = attachment) presence
      | _ \<Rightarrow> None)"

definition follow_step :: "follow_mode \<Rightarrow> room_server_message \<Rightarrow> follow_mode \<times> follow_event list" where
  "follow_step f m = (case follow_ingest f m of (f, e) \<Rightarrow> (f, [e]))"

text \<open>What a view that only hears the events shows.\<close>

fun follower_view ::
  "i64 option \<times> room_selection option \<Rightarrow> follow_event list \<Rightarrow> i64 option \<times> room_selection option" where
  "follower_view v [] = v"
| "follower_view v (PresenceChanged document selection # es) = follower_view (document, selection) es"
| "follower_view v (_ # es) = follower_view v es"

lemma follower_view_append: "follower_view v (es @ es') = follower_view (follower_view v es) es'"
  by (induction v es rule: follower_view.induct) simp_all

definition knows :: "follow_mode \<Rightarrow> room_presence option \<Rightarrow> bool" where
  "knows f l \<longleftrightarrow>
     (case l of
        None \<Rightarrow> fm_active_document_id f = None \<and> fm_selection f = None
      | Some p \<Rightarrow> fm_active_document_id f = rp_active_document_id p \<and> fm_selection f = rp_selection p)"

lemma follow_step_view:
  assumes "follow_step f m = (f', es)"
  shows "fm_attachment_id f' = fm_attachment_id f"
    and "follower_view (fm_active_document_id f, fm_selection f) es
          = (fm_active_document_id f', fm_selection f')"
    and "knows f l \<Longrightarrow>
         knows f' (case target_listing (fm_attachment_id f) m of Some p \<Rightarrow> Some p | None \<Rightarrow> l)"
  using assms
  by (cases m; auto simp: follow_step_def follow_ingest_def follow_presence_def target_listing_def
      knows_def split: option.splits if_splits)+

text \<open>
  Following: a view that hears only a follower's events shows, after any messages, the
  document and the selection the target had in the latest presence message that listed it, and
  nothing before the first.
\<close>

lemma follow_events_show_the_target:
  "follower_view (None, None) (snd (machine_run follow_step (follow_new attachment) ms)) =
     (case rev (List.map_filter (target_listing attachment) ms) of
        [] \<Rightarrow> (None, None)
      | p # _ \<Rightarrow> (rp_active_document_id p, rp_selection p))"
proof -
  have run: "follower_view (fm_active_document_id f, fm_selection f) (snd (machine_run follow_step f ms)) =
      (case rev (List.map_filter (target_listing (fm_attachment_id f)) ms) of
        [] \<Rightarrow> (fm_active_document_id f, fm_selection f)
      | p # _ \<Rightarrow> (rp_active_document_id p, rp_selection p))" for f
  proof (induction ms arbitrary: f)
    case Nil
    then show ?case by (simp add: map_filter_simps)
  next
    case (Cons m ms)
    obtain f' es where s: "follow_step f m = (f', es)" by fastforce
    note v = follow_step_view [OF s]
    have "(fm_active_document_id f', fm_selection f') =
        (case target_listing (fm_attachment_id f) m of None \<Rightarrow> (fm_active_document_id f, fm_selection f)
         | Some p \<Rightarrow> (rp_active_document_id p, rp_selection p))"
      using v(3) [of "Some \<lparr> rp_attachment_id = 0, rp_principal_id = 0, rp_client_id = [],
        rp_active_document_id = fm_active_document_id f, rp_selection = fm_selection f \<rparr>"]
      by (auto simp: knows_def split: option.splits)
    then show ?case using Cons.IH [of f'] v(1,2) s
      by (auto simp: follower_view_append map_filter_simps split: prod.splits option.splits list.splits)
  qed
  from run [of "follow_new attachment"] show ?thesis by (simp add: follow_new_def cong: list.case_cong)
qed

end
