(* ===== verification/Room_Runtime.thy ===== *)
theory Room_Runtime
  imports Room_Messages Document_Registry "HOL-Library.AList"
begin

text \<open>
  The live state of the rooms: \<^verbatim>\<open>crates/server/src/room_runtime.rs\<close>.

  A room is an \<^verbatim>\<open>Arc\<close> that the map of rooms and the subscriptions share, so rooms live in a heap,
  here a list, and the map and the subscriptions hold addresses of it. The two broadcast channels
  of a room are the messages sent so far. The calls that end in \<^verbatim>\<open>evict_if_idle\<close> work on a room
  they have taken out of the map before, so other calls run between their steps: their second step is
  a task of its own, and tasks and calls interleave freely.

  The filesystem and Git adapters are opened and returned only; they are not modelled.
\<close>

section \<open>State\<close>

record presence_entry =
  pn_presence :: room_presence
  pn_last_seen :: instant

record runtime_room =
  rm_attachments :: "(i64 \<times> presence_entry) list"
  rm_presence_events :: "room_server_message list"
  rm_doc_events :: "room_server_message list"
  rm_subscribers :: nat

datatype vcs_pending_operation = PendingStage | PendingUnstage | PendingDiscard | PendingRevert

record room_runtime =
  rn_heap :: "runtime_room list"
  rn_rooms :: "i64 \<Rightarrow> nat option"
  rn_next_attachment_id :: i64
  rn_documents :: document_registry
  rn_vcs_pending :: "i64 \<times> string \<Rightarrow> vcs_pending_operation option"
  rn_run_tokens :: "bool list"  \<comment> \<open>the cancellation tokens: whether each is cancelled\<close>
  rn_run_cancellations :: "i64 \<Rightarrow> nat option"
  rn_scheduler_started :: bool

definition presence_lease :: duration where "presence_lease = 30 * 10 ^ 9"

definition runtime_new :: "document_registry \<Rightarrow> room_runtime" where
  "runtime_new documents =
     \<lparr>rn_heap = [], rn_rooms = Map.empty, rn_next_attachment_id = 0, rn_documents = documents,
      rn_vcs_pending = Map.empty, rn_run_tokens = [], rn_run_cancellations = Map.empty,
      rn_scheduler_started = False\<rparr>"

definition room_new :: runtime_room where
  "room_new = \<lparr>rm_attachments = [], rm_presence_events = [], rm_doc_events = [], rm_subscribers = 0\<rparr>"

definition update_room :: "nat \<Rightarrow> (runtime_room \<Rightarrow> runtime_room) \<Rightarrow> room_runtime \<Rightarrow> room_runtime" where
  "update_room a f rt = rt\<lparr>rn_heap := (rn_heap rt)[a := f (rn_heap rt ! a)]\<rparr>"

section \<open>Runs, the scheduler and pending VCS operations\<close>

definition start_scheduler_once :: "room_runtime \<Rightarrow> room_runtime \<times> bool" where
  "start_scheduler_once rt = (rt\<lparr>rn_scheduler_started := True\<rparr>, \<not> rn_scheduler_started rt)"

definition set_vcs_pending ::
  "i64 \<Rightarrow> string list \<Rightarrow> vcs_pending_operation \<Rightarrow> room_runtime \<Rightarrow> room_runtime" where
  "set_vcs_pending binding paths operation rt =
     rt\<lparr>rn_vcs_pending := fold (\<lambda>path m. m((binding, path) \<mapsto> operation)) paths (rn_vcs_pending rt)\<rparr>"

definition clear_vcs_pending :: "i64 \<Rightarrow> string list \<Rightarrow> room_runtime \<Rightarrow> room_runtime" where
  "clear_vcs_pending binding paths rt =
     rt\<lparr>rn_vcs_pending := fold (\<lambda>path m. m((binding, path) := None)) paths (rn_vcs_pending rt)\<rparr>"

definition vcs_pending :: "room_runtime \<Rightarrow> i64 \<Rightarrow> string \<Rightarrow> vcs_pending_operation option" where
  "vcs_pending rt binding = (\<lambda>path. rn_vcs_pending rt (binding, path))"

definition register_run :: "i64 \<Rightarrow> room_runtime \<Rightarrow> room_runtime \<times> nat" where
  "register_run run rt =
     (rt\<lparr>rn_run_tokens := rn_run_tokens rt @ [False],
         rn_run_cancellations := (rn_run_cancellations rt)(run \<mapsto> length (rn_run_tokens rt))\<rparr>,
      length (rn_run_tokens rt))"

definition cancel_run :: "i64 \<Rightarrow> room_runtime \<Rightarrow> room_runtime \<times> bool" where
  "cancel_run run rt =
     (case rn_run_cancellations rt run of
        None \<Rightarrow> (rt, False)
      | Some token \<Rightarrow> (rt\<lparr>rn_run_tokens := (rn_run_tokens rt)[token := True]\<rparr>, True))"

definition finish_run :: "i64 \<Rightarrow> room_runtime \<Rightarrow> room_runtime" where
  "finish_run run rt = rt\<lparr>rn_run_cancellations := (rn_run_cancellations rt)(run := None)\<rparr>"

section \<open>Presence\<close>

definition presence_for :: "runtime_room \<Rightarrow> room_presence list" where
  "presence_for room = sort_key rp_attachment_id (map (pn_presence \<circ> snd) (rm_attachments room))"

definition send_presence :: "room_server_message \<Rightarrow> runtime_room \<Rightarrow> runtime_room" where
  "send_presence message room = room\<lparr>rm_presence_events := rm_presence_events room @ [message]\<rparr>"

definition announce :: "runtime_room \<Rightarrow> runtime_room" where
  "announce room = send_presence (ServerPresence (presence_for room)) room"

definition idle :: "runtime_room \<Rightarrow> bool" where
  "idle room = (rm_subscribers room = 0 \<and> rm_attachments room = [])"

definition evict_if_idle :: "i64 \<Rightarrow> nat \<Rightarrow> room_runtime \<Rightarrow> room_runtime" where
  "evict_if_idle room_id a rt =
     (if rn_rooms rt room_id = Some a \<and> idle (rn_heap rt ! a)
      then rt\<lparr>rn_rooms := (rn_rooms rt)(room_id := None)\<rparr> else rt)"

text \<open>The address \<^verbatim>\<open>with_room\<close> hands to its closure, which runs under the map's lock.\<close>

definition with_room :: "i64 \<Rightarrow> room_runtime \<Rightarrow> room_runtime \<times> nat" where
  "with_room room_id rt =
     (case rn_rooms rt room_id of
        Some a \<Rightarrow> (rt, a)
      | None \<Rightarrow>
          (rt\<lparr>rn_heap := rn_heap rt @ [room_new],
              rn_rooms := (rn_rooms rt)(room_id \<mapsto> length (rn_heap rt))\<rparr>, length (rn_heap rt)))"

definition attach ::
  "i64 \<Rightarrow> i64 \<Rightarrow> string \<Rightarrow> instant \<Rightarrow> room_runtime \<Rightarrow> room_runtime \<times> i64 \<times> room_presence list" where
  "attach room_id actor client now rt =
     (let attachment = rn_next_attachment_id rt + 1;
          entry = \<lparr>pn_presence = \<lparr>rp_attachment_id = attachment, rp_principal_id = actor,
                     rp_client_id = client, rp_active_document_id = None, rp_selection = None\<rparr>,
                   pn_last_seen = now\<rparr>
      in case with_room room_id (rt\<lparr>rn_next_attachment_id := attachment\<rparr>) of
           (rt1, a) \<Rightarrow>
             (let rt2 = update_room a (\<lambda>room. room\<lparr>rm_attachments :=
                          AList.update attachment entry (rm_attachments room)\<rparr>) rt1
              in (update_room a announce rt2, attachment, presence_for (rn_heap rt2 ! a))))"

definition subscribe :: "i64 \<Rightarrow> room_runtime \<Rightarrow> room_runtime \<times> nat" where
  "subscribe room_id rt =
     (case with_room room_id rt of
        (rt1, a) \<Rightarrow>
          (update_room a (\<lambda>room. room\<lparr>rm_subscribers := rm_subscribers room + 1\<rparr>) rt1, a))"

definition publish_presence :: "i64 \<Rightarrow> room_server_message \<Rightarrow> room_runtime \<Rightarrow> room_runtime" where
  "publish_presence room_id message rt =
     (case rn_rooms rt room_id of None \<Rightarrow> rt | Some a \<Rightarrow> update_room a (send_presence message) rt)"

definition publish_doc :: "i64 \<Rightarrow> room_server_message \<Rightarrow> room_runtime \<Rightarrow> room_runtime" where
  "publish_doc room_id message rt =
     (case rn_rooms rt room_id of
        None \<Rightarrow> rt
      | Some a \<Rightarrow>
          (update_room a (\<lambda>room. room\<lparr>rm_doc_events := rm_doc_events room @ [message]\<rparr>) rt)
            \<lparr>rn_documents := fst (next_event_seq (rn_documents rt))\<rparr>)"

definition is_active :: "room_runtime \<Rightarrow> i64 \<Rightarrow> bool" where
  "is_active rt room_id = (rn_rooms rt room_id \<noteq> None)"

definition presence :: "room_runtime \<Rightarrow> i64 \<Rightarrow> room_presence list" where
  "presence rt room_id =
     (case rn_rooms rt room_id of None \<Rightarrow> [] | Some a \<Rightarrow> presence_for (rn_heap rt ! a))"

text \<open>The two calls that rewrite an attachment's entry, if the room and the entry exist.\<close>

definition update_entry ::
  "i64 \<Rightarrow> i64 \<Rightarrow> (presence_entry \<Rightarrow> presence_entry) \<Rightarrow> (runtime_room \<Rightarrow> runtime_room)
     \<Rightarrow> room_runtime \<Rightarrow> room_runtime \<times> bool" where
  "update_entry room_id attachment f g rt =
     (case rn_rooms rt room_id of
        None \<Rightarrow> (rt, False)
      | Some a \<Rightarrow>
          (case map_of (rm_attachments (rn_heap rt ! a)) attachment of
             None \<Rightarrow> (rt, False)
           | Some entry \<Rightarrow>
               (update_room a (\<lambda>room. g (room\<lparr>rm_attachments :=
                  AList.update attachment (f entry) (rm_attachments room)\<rparr>)) rt, True)))"

definition heartbeat :: "i64 \<Rightarrow> i64 \<Rightarrow> instant \<Rightarrow> room_runtime \<Rightarrow> room_runtime \<times> bool" where
  "heartbeat room_id attachment now =
     update_entry room_id attachment (\<lambda>entry. entry\<lparr>pn_last_seen := now\<rparr>) id"

definition update_presence ::
  "i64 \<Rightarrow> i64 \<Rightarrow> i64 option \<Rightarrow> room_selection option \<Rightarrow> instant \<Rightarrow> room_runtime
     \<Rightarrow> room_runtime \<times> bool" where
  "update_presence room_id attachment document selection now =
     update_entry room_id attachment
       (\<lambda>entry. entry\<lparr>pn_presence := (pn_presence entry)\<lparr>rp_active_document_id := document,
                        rp_selection := selection\<rparr>,
                      pn_last_seen := now\<rparr>)
       announce"

section \<open>Calls that end in an eviction\<close>

text \<open>\<^verbatim>\<open>detach\<close> up to its eviction: the address to evict, if there is one, and the listing.\<close>

definition detach_start ::
  "i64 \<Rightarrow> i64 \<Rightarrow> room_runtime \<Rightarrow> room_runtime \<times> nat option \<times> room_presence list" where
  "detach_start room_id attachment rt =
     (case rn_rooms rt room_id of
        None \<Rightarrow> (rt, None, [])
      | Some a \<Rightarrow>
          (let rt1 = update_room a (\<lambda>room. room\<lparr>rm_attachments :=
                       AList.delete attachment (rm_attachments room)\<rparr>) rt
           in (update_room a announce rt1, Some a, presence_for (rn_heap rt1 ! a))))"

text \<open>\<^verbatim>\<open>expire_presence\<close> up to its eviction: the address to evict and the expired attachments.\<close>

definition lease_elapsed :: "instant \<Rightarrow> presence_entry \<Rightarrow> bool" where
  "lease_elapsed now entry = (duration_since now (pn_last_seen entry) \<ge> presence_lease)"

definition expire_start ::
  "i64 \<Rightarrow> instant \<Rightarrow> room_runtime \<Rightarrow> room_runtime \<times> nat option \<times> i64 list" where
  "expire_start room_id now rt =
     (case rn_rooms rt room_id of
        None \<Rightarrow> (rt, None, [])
      | Some a \<Rightarrow>
          (let expired = map fst (filter (\<lambda>(_, entry). lease_elapsed now entry)
                           (rm_attachments (rn_heap rt ! a)));
               rt1 = update_room a (\<lambda>room. room\<lparr>rm_attachments :=
                       filter (\<lambda>(_, entry). \<not> lease_elapsed now entry) (rm_attachments room)\<rparr>) rt
           in (if expired \<noteq> [] then update_room a announce rt1 else rt1, Some a, expired)))"

text \<open>
  What is left of such a call: an eviction, or, after the drop of the last subscription, the look
  at the room's presence that precedes it.
\<close>

datatype runtime_task = EvictIfIdle i64 nat | CheckPresence i64 nat

text \<open>\<^verbatim>\<open>Drop\<close> of a subscription up to its \<^verbatim>\<open>fetch_sub\<close>.\<close>

definition drop_start :: "i64 \<Rightarrow> nat \<Rightarrow> room_runtime \<Rightarrow> room_runtime \<times> runtime_task option" where
  "drop_start room_id a rt =
     (update_room a (\<lambda>room. room\<lparr>rm_subscribers := rm_subscribers room - 1\<rparr>) rt,
      if rm_subscribers (rn_heap rt ! a) \<noteq> 1 then None else Some (CheckPresence room_id a))"

fun run_task :: "runtime_task \<Rightarrow> room_runtime \<Rightarrow> room_runtime \<times> runtime_task option" where
  "run_task (CheckPresence room_id a) rt =
     (rt, if rm_attachments (rn_heap rt ! a) \<noteq> [] then None else Some (EvictIfIdle room_id a))"
| "run_task (EvictIfIdle room_id a) rt = (evict_if_idle room_id a rt, None)"

text \<open>The calls as they run alone: \<^verbatim>\<open>detach\<close>, \<^verbatim>\<open>expire_presence\<close> and the drop of a subscription.\<close>

definition detach :: "i64 \<Rightarrow> i64 \<Rightarrow> room_runtime \<Rightarrow> room_runtime \<times> room_presence list" where
  "detach room_id attachment rt =
     (case detach_start room_id attachment rt of
        (rt1, None, listing) \<Rightarrow> (rt1, listing)
      | (rt1, Some a, listing) \<Rightarrow> (evict_if_idle room_id a rt1, listing))"

definition expire_presence :: "i64 \<Rightarrow> instant \<Rightarrow> room_runtime \<Rightarrow> room_runtime \<times> i64 list" where
  "expire_presence room_id now rt =
     (case expire_start room_id now rt of
        (rt1, None, expired) \<Rightarrow> (rt1, expired)
      | (rt1, Some a, expired) \<Rightarrow> (evict_if_idle room_id a rt1, expired))"

definition drop_subscription :: "i64 \<Rightarrow> nat \<Rightarrow> room_runtime \<Rightarrow> room_runtime" where
  "drop_subscription room_id a rt =
     (case drop_start room_id a rt of
        (rt1, None) \<Rightarrow> rt1
      | (rt1, Some task) \<Rightarrow>
          (case run_task task rt1 of
             (rt2, None) \<Rightarrow> rt2
           | (rt2, Some task') \<Rightarrow> fst (run_task task' rt2)))"

section \<open>Interleavings\<close>

text \<open>
  The runtime, the live subscriptions as room and address, and the tasks not run yet. \<open>Other\<close> stands
  for the calls on runs, the scheduler and pending operations, which touch no room.
\<close>

record runtime_world =
  rw_runtime :: room_runtime
  rw_live :: "(i64 \<times> nat) multiset"
  rw_tasks :: "runtime_task multiset"

definition tasks_of :: "runtime_task option \<Rightarrow> runtime_task multiset" where
  "tasks_of t = (case t of None \<Rightarrow> {#} | Some task \<Rightarrow> {#task#})"

definition evict_later :: "i64 \<Rightarrow> nat option \<Rightarrow> runtime_task multiset" where
  "evict_later room_id a = tasks_of (map_option (EvictIfIdle room_id) a)"

definition take_task :: "runtime_task \<Rightarrow> runtime_world \<Rightarrow> runtime_world" where
  "take_task task w =
     (case run_task task (rw_runtime w) of
        (rt, rest) \<Rightarrow> w\<lparr>rw_runtime := rt, rw_tasks := rw_tasks w - {#task#} + tasks_of rest\<rparr>)"

inductive task_step :: "runtime_world \<Rightarrow> runtime_world \<Rightarrow> bool" where
  "task \<in># rw_tasks w \<Longrightarrow> task_step w (take_task task w)"

inductive runtime_step :: "runtime_world \<Rightarrow> runtime_world \<Rightarrow> bool" where
  Attach: "attach r p c now (rw_runtime w) = (rt, result) \<Longrightarrow>
     runtime_step w (w\<lparr>rw_runtime := rt\<rparr>)"
| Subscribe: "subscribe r (rw_runtime w) = (rt, a) \<Longrightarrow>
     runtime_step w (w\<lparr>rw_runtime := rt, rw_live := add_mset (r, a) (rw_live w)\<rparr>)"
| Publish_Presence: "runtime_step w (w\<lparr>rw_runtime := publish_presence r m (rw_runtime w)\<rparr>)"
| Publish_Doc: "runtime_step w (w\<lparr>rw_runtime := publish_doc r m (rw_runtime w)\<rparr>)"
| Heartbeat: "heartbeat r i now (rw_runtime w) = (rt, ok) \<Longrightarrow>
     runtime_step w (w\<lparr>rw_runtime := rt\<rparr>)"
| Update_Presence: "update_presence r i d sel now (rw_runtime w) = (rt, ok) \<Longrightarrow>
     runtime_step w (w\<lparr>rw_runtime := rt\<rparr>)"
| Detach: "detach_start r i (rw_runtime w) = (rt, a, listing) \<Longrightarrow>
     runtime_step w (w\<lparr>rw_runtime := rt, rw_tasks := rw_tasks w + evict_later r a\<rparr>)"
| Expire: "expire_start r now (rw_runtime w) = (rt, a, expired) \<Longrightarrow>
     runtime_step w (w\<lparr>rw_runtime := rt, rw_tasks := rw_tasks w + evict_later r a\<rparr>)"
| Drop: "(r, a) \<in># rw_live w \<Longrightarrow> drop_start r a (rw_runtime w) = (rt, rest) \<Longrightarrow>
     runtime_step w (w\<lparr>rw_runtime := rt, rw_live := rw_live w - {#(r, a)#},
                       rw_tasks := rw_tasks w + tasks_of rest\<rparr>)"
| Other: "rn_heap rt = rn_heap (rw_runtime w) \<Longrightarrow> rn_rooms rt = rn_rooms (rw_runtime w) \<Longrightarrow>
     runtime_step w (w\<lparr>rw_runtime := rt\<rparr>)"
| Task: "task_step w w' \<Longrightarrow> runtime_step w w'"

definition runtime_world_new :: "document_registry \<Rightarrow> runtime_world" where
  "runtime_world_new documents = \<lparr>rw_runtime = runtime_new documents, rw_live = {#}, rw_tasks = {#}\<rparr>"

section \<open>Every idle room has its eviction coming\<close>

definition subscriptions :: "(i64 \<times> nat) multiset \<Rightarrow> nat \<Rightarrow> nat" where
  "subscriptions live a = size (filter_mset (\<lambda>x. snd x = a) live)"

definition eviction_comes :: "runtime_task multiset \<Rightarrow> i64 \<Rightarrow> nat \<Rightarrow> bool" where
  "eviction_comes tasks r a = (EvictIfIdle r a \<in># tasks \<or> CheckPresence r a \<in># tasks)"

definition rooms_ok ::
  "runtime_room list \<Rightarrow> (i64 \<Rightarrow> nat option) \<Rightarrow> (i64 \<times> nat) multiset \<Rightarrow> runtime_task multiset \<Rightarrow> bool" where
  "rooms_ok heap rooms live tasks =
     ((\<forall>r a. rooms r = Some a \<longrightarrow> a < length heap)
      \<and> (\<forall>r r' a. rooms r = Some a \<longrightarrow> rooms r' = Some a \<longrightarrow> r = r')
      \<and> (\<forall>r a. (r, a) \<in># live \<longrightarrow> rooms r = Some a)
      \<and> (\<forall>a < length heap. rm_subscribers (heap ! a) = subscriptions live a)
      \<and> (\<forall>r a. rooms r = Some a \<longrightarrow> idle (heap ! a) \<longrightarrow> eviction_comes tasks r a))"

lemma rooms_okD:
  assumes "rooms_ok heap rooms live tasks"
  shows "\<And>r a. rooms r = Some a \<Longrightarrow> a < length heap"
    and "\<And>r r' a. rooms r = Some a \<Longrightarrow> rooms r' = Some a \<Longrightarrow> r = r'"
    and "\<And>r a. (r, a) \<in># live \<Longrightarrow> rooms r = Some a"
    and "\<And>a. a < length heap \<Longrightarrow> rm_subscribers (heap ! a) = subscriptions live a"
    and "\<And>r a. rooms r = Some a \<Longrightarrow> idle (heap ! a) \<Longrightarrow> eviction_comes tasks r a"
  using assms unfolding rooms_ok_def by blast+

lemma rooms_okI:
  assumes "\<And>r a. rooms r = Some a \<Longrightarrow> a < length heap"
    and "\<And>r r' a. rooms r = Some a \<Longrightarrow> rooms r' = Some a \<Longrightarrow> r = r'"
    and "\<And>r a. (r, a) \<in># live \<Longrightarrow> rooms r = Some a"
    and "\<And>a. a < length heap \<Longrightarrow> rm_subscribers (heap ! a) = subscriptions live a"
    and "\<And>r a. rooms r = Some a \<Longrightarrow> idle (heap ! a) \<Longrightarrow> eviction_comes tasks r a"
  shows "rooms_ok heap rooms live tasks"
  using assms unfolding rooms_ok_def by blast

text \<open>A change of a mapped room that keeps its subscribers and does not leave it idle unnoticed.\<close>

lemma rooms_ok_update:
  assumes ok: "rooms_ok heap rooms live tasks" and r: "rooms r = Some a"
    and subs: "rm_subscribers room = rm_subscribers (heap ! a)"
    and more: "tasks \<subseteq># tasks'"
    and still: "idle room \<Longrightarrow> idle (heap ! a) \<or> eviction_comes tasks' r a"
  shows "rooms_ok (heap[a := room]) rooms live tasks'"
proof (rule rooms_okI)
  note D = rooms_okD [OF ok]
  have kept: "eviction_comes tasks x y \<Longrightarrow> eviction_comes tasks' x y" for x y
    using more by (auto simp: eviction_comes_def dest: mset_subset_eqD)
  show "b < length (heap[a := room])" if "rooms x = Some b" for x b
    using D(1) [OF that] by simp
  show "x = y" if "rooms x = Some b" "rooms y = Some b" for x y b
    by (rule D(2) [OF that])
  show "rooms x = Some b" if "(x, b) \<in># live" for x b
    by (rule D(3) [OF that])
  show "rm_subscribers (heap[a := room] ! b) = subscriptions live b"
    if "b < length (heap[a := room])" for b
    using that D(4) [of b] subs by (cases "b = a") auto
  show "eviction_comes tasks' x b" if x: "rooms x = Some b" and i: "idle (heap[a := room] ! b)" for x b
  proof (cases "b = a")
    case True
    with x r have "x = r" using D(2) by blast
    with True i still D(1) [OF r] D(5) [OF r] kept show ?thesis by auto
  next
    case False
    with i have "idle (heap ! b)" by simp
    from D(5) [OF x this] show ?thesis by (rule kept)
  qed
qed

lemma rooms_ok_more_tasks:
  "rooms_ok heap rooms live tasks \<Longrightarrow> tasks \<subseteq># tasks' \<Longrightarrow> rooms_ok heap rooms live tasks'"
  unfolding rooms_ok_def eviction_comes_def by (blast dest: mset_subset_eqD)

definition world_ok :: "runtime_world \<Rightarrow> bool" where
  "world_ok w =
     rooms_ok (rn_heap (rw_runtime w)) (rn_rooms (rw_runtime w)) (rw_live w) (rw_tasks w)"

lemma update_room_simps [simp]:
  "rn_heap (update_room a f rt) = (rn_heap rt)[a := f (rn_heap rt ! a)]"
  "rn_rooms (update_room a f rt) = rn_rooms rt"
  by (simp_all add: update_room_def)

lemma announce_simps [simp]:
  "rm_subscribers (announce room) = rm_subscribers room"
  "rm_attachments (announce room) = rm_attachments room"
  "idle (announce room) = idle room"
  by (simp_all add: announce_def send_presence_def idle_def)

lemma send_presence_simps [simp]:
  "rm_subscribers (send_presence m room) = rm_subscribers room"
  "rm_attachments (send_presence m room) = rm_attachments room"
  "idle (send_presence m room) = idle room"
  by (simp_all add: send_presence_def idle_def)

lemma alist_update_nonempty: "AList.update k v xs \<noteq> []"
  by (induction xs) auto

text \<open>A room that is not idle can be put at a fresh address.\<close>

lemma rooms_ok_fresh:
  assumes ok: "rooms_ok heap rooms live tasks" and r: "rooms r = None"
    and subs: "rm_subscribers room = 0" and "\<not> idle room"
  shows "rooms_ok (heap @ [room]) (rooms(r \<mapsto> length heap)) live tasks"
proof (rule rooms_okI)
  note D = rooms_okD [OF ok]
  have fresh: "rooms x \<noteq> Some (length heap)" for x using D(1) by blast
  show "b < length (heap @ [room])" if "(rooms(r \<mapsto> length heap)) x = Some b" for x b
    using that D(1) [of x b] by (auto split: if_splits)
  show "x = y"
    if "(rooms(r \<mapsto> length heap)) x = Some b" "(rooms(r \<mapsto> length heap)) y = Some b" for x y b
    using that fresh D(2) [of x b y] by (auto split: if_splits)
  show "(rooms(r \<mapsto> length heap)) x = Some b" if "(x, b) \<in># live" for x b
    using D(3) [OF that] r by auto
  show "rm_subscribers ((heap @ [room]) ! b) = subscriptions live b" if "b < length (heap @ [room])" for b
  proof (cases "b = length heap")
    case True
    have "\<forall>x\<in>#live. snd x \<noteq> length heap" using D(3) fresh by fastforce
    then have "set_mset (filter_mset (\<lambda>x. snd x = length heap) live) = {}" by auto
    with True subs show ?thesis by (simp add: subscriptions_def)
  next
    case False
    with that D(4) [of b] show ?thesis by (simp add: nth_append)
  qed
  show "eviction_comes tasks x b"
    if "(rooms(r \<mapsto> length heap)) x = Some b" "idle ((heap @ [room]) ! b)" for x b
    using that assms(4) D(1) [of x b] D(5) [of x b] by (auto simp: nth_append split: if_splits)
qed

lemma attach_ok:
  assumes ok: "world_ok w" and at: "attach r p c now (rw_runtime w) = (rt, result)"
  shows "world_ok (w\<lparr>rw_runtime := rt\<rparr>)"
proof -
  let ?rt = "rw_runtime w"
  from ok have ok': "rooms_ok (rn_heap ?rt) (rn_rooms ?rt) (rw_live w) (rw_tasks w)"
    by (simp add: world_ok_def)
  show ?thesis
  proof (cases "rn_rooms ?rt r")
    case (Some a)
    from rooms_okD(1) [OF ok' Some] have a: "a < length (rn_heap ?rt)" .
    obtain room where heap: "rn_heap rt = (rn_heap ?rt)[a := room]" "rn_rooms rt = rn_rooms ?rt"
      and room: "rm_subscribers room = rm_subscribers (rn_heap ?rt ! a)" "\<not> idle room"
      using at Some a by (auto simp: attach_def Let_def with_room_def idle_def alist_update_nonempty)
    have "rooms_ok ((rn_heap ?rt)[a := room]) (rn_rooms ?rt) (rw_live w) (rw_tasks w)"
      by (rule rooms_ok_update [OF ok' Some]) (use room in auto)
    with heap show ?thesis by (simp add: world_ok_def)
  next
    case None
    obtain room where heap: "rn_heap rt = rn_heap ?rt @ [room]"
        "rn_rooms rt = (rn_rooms ?rt)(r \<mapsto> length (rn_heap ?rt))"
      and room: "rm_subscribers room = 0" "\<not> idle room"
      using at None
      by (auto simp: attach_def Let_def with_room_def idle_def alist_update_nonempty room_new_def)
    with rooms_ok_fresh [OF ok' None room] show ?thesis by (simp add: world_ok_def)
  qed
qed

lemma subscriptions_add [simp]:
  "subscriptions (add_mset (r, a) live) b = subscriptions live b + (if b = a then 1 else 0)"
  by (auto simp: subscriptions_def)

lemma rooms_ok_subscriber:
  assumes ok: "rooms_ok heap rooms live tasks" and r: "rooms r = Some a"
    and room: "rm_subscribers room = rm_subscribers (heap ! a) + 1"
  shows "rooms_ok (heap[a := room]) rooms (add_mset (r, a) live) tasks"
proof (rule rooms_okI)
  note D = rooms_okD [OF ok]
  show "b < length (heap[a := room])" if "rooms x = Some b" for x b
    using D(1) [OF that] by simp
  show "x = y" if "rooms x = Some b" "rooms y = Some b" for x y b
    by (rule D(2) [OF that])
  show "rooms x = Some b" if "(x, b) \<in># add_mset (r, a) live" for x b
    using that r D(3) by auto
  show "rm_subscribers (heap[a := room] ! b) = subscriptions (add_mset (r, a) live) b"
    if "b < length (heap[a := room])" for b
    using that D(4) [of b] room by (cases "b = a") auto
  show "eviction_comes tasks x b" if "rooms x = Some b" "idle (heap[a := room] ! b)" for x b
    using that D(1) [OF r] D(5) [of x b] room by (cases "b = a") (auto simp: idle_def)
qed

lemma rooms_ok_fresh_subscriber:
  assumes ok: "rooms_ok heap rooms live tasks" and r: "rooms r = None"
    and room: "rm_subscribers room = 1"
  shows "rooms_ok (heap @ [room]) (rooms(r \<mapsto> length heap)) (add_mset (r, length heap) live) tasks"
proof -
  define other where "other = room\<lparr>rm_subscribers := 0, rm_attachments := [undefined]\<rparr>"
  have "rooms_ok (heap @ [other]) (rooms(r \<mapsto> length heap)) live tasks"
    by (rule rooms_ok_fresh [OF ok r]) (simp_all add: other_def idle_def)
  from rooms_ok_subscriber [OF this, of r "length heap" room] room show ?thesis
    by (simp add: other_def)
qed

lemma subscribe_ok:
  assumes ok: "world_ok w" and sub: "subscribe r (rw_runtime w) = (rt, a)"
  shows "world_ok (w\<lparr>rw_runtime := rt, rw_live := add_mset (r, a) (rw_live w)\<rparr>)"
proof -
  let ?rt = "rw_runtime w"
  from ok have ok': "rooms_ok (rn_heap ?rt) (rn_rooms ?rt) (rw_live w) (rw_tasks w)"
    by (simp add: world_ok_def)
  show ?thesis
  proof (cases "rn_rooms ?rt r")
    case (Some b)
    with sub rooms_ok_subscriber [OF ok' Some, of
        "(rn_heap ?rt ! b)\<lparr>rm_subscribers := rm_subscribers (rn_heap ?rt ! b) + 1\<rparr>"]
    show ?thesis by (auto simp: subscribe_def with_room_def world_ok_def)
  next
    case None
    with sub rooms_ok_fresh_subscriber [OF ok' None, of "room_new\<lparr>rm_subscribers := 1\<rparr>"]
    show ?thesis by (auto simp: subscribe_def with_room_def world_ok_def room_new_def)
  qed
qed

lemma update_entry_ok:
  assumes ok: "world_ok w" and up: "update_entry r i f g (rw_runtime w) = (rt, ok')"
    and g: "\<And>room. rm_subscribers (g room) = rm_subscribers room" "\<And>room. idle (g room) = idle room"
  shows "world_ok (w\<lparr>rw_runtime := rt\<rparr>)"
proof (cases "rn_rooms (rw_runtime w) r")
  case None
  with ok up show ?thesis by (auto simp: update_entry_def world_ok_def)
next
  case (Some a)
  let ?room = "rn_heap (rw_runtime w) ! a"
  show ?thesis
  proof (cases "map_of (rm_attachments ?room) i")
    case None
    with Some ok up show ?thesis by (auto simp: update_entry_def world_ok_def)
  next
    case (Some e)
    with \<open>rn_rooms (rw_runtime w) r = Some a\<close> up
    have rt: "rt = update_room a (\<lambda>room. g (room\<lparr>rm_attachments :=
        AList.update i (f e) (rm_attachments room)\<rparr>)) (rw_runtime w)"
      by (simp add: update_entry_def)
    have "rooms_ok ((rn_heap (rw_runtime w))[a := g (?room\<lparr>rm_attachments :=
        AList.update i (f e) (rm_attachments ?room)\<rparr>)]) (rn_rooms (rw_runtime w)) (rw_live w) (rw_tasks w)"
      by (rule rooms_ok_update [OF ok [unfolded world_ok_def] \<open>rn_rooms (rw_runtime w) r = Some a\<close>])
         (simp_all add: g, simp add: idle_def alist_update_nonempty)
    then show ?thesis by (simp add: world_ok_def rt)
  qed
qed

lemma publish_ok:
  assumes ok: "world_ok w" and r: "rn_rooms (rw_runtime w) r = Some a"
    and f: "\<And>room. rm_subscribers (f room) = rm_subscribers room" "\<And>room. idle (f room) = idle room"
    and rt: "rn_heap rt = (rn_heap (rw_runtime w))[a := f (rn_heap (rw_runtime w) ! a)]"
      "rn_rooms rt = rn_rooms (rw_runtime w)"
  shows "world_ok (w\<lparr>rw_runtime := rt\<rparr>)"
  using rooms_ok_update [OF ok [unfolded world_ok_def] r, of "f (rn_heap (rw_runtime w) ! a)" "rw_tasks w"]
    f rt by (simp add: world_ok_def)

lemma evict_later_simps [simp]:
  "evict_later r None = {#}" "evict_later r (Some a) = {#EvictIfIdle r a#}"
  "tasks_of None = {#}" "tasks_of (Some t) = {#t#}"
  by (simp_all add: evict_later_def tasks_of_def)

text \<open>A change of a mapped room's attachments followed by an eviction task.\<close>

lemma leave_ok:
  assumes ok: "world_ok w" and r: "rn_rooms (rw_runtime w) r = Some a"
    and room: "rm_subscribers room = rm_subscribers (rn_heap (rw_runtime w) ! a)"
    and rt: "rn_heap rt = (rn_heap (rw_runtime w))[a := room]" "rn_rooms rt = rn_rooms (rw_runtime w)"
  shows "world_ok (w\<lparr>rw_runtime := rt, rw_tasks := rw_tasks w + {#EvictIfIdle r a#}\<rparr>)"
  using rooms_ok_update [OF ok [unfolded world_ok_def] r room, of "rw_tasks w + {#EvictIfIdle r a#}"] rt
  by (simp add: world_ok_def eviction_comes_def)

lemma detach_ok:
  assumes ok: "world_ok w" and d: "detach_start r i (rw_runtime w) = (rt, b, listing)"
  shows "world_ok (w\<lparr>rw_runtime := rt, rw_tasks := rw_tasks w + evict_later r b\<rparr>)"
proof (cases "rn_rooms (rw_runtime w) r")
  case None
  with ok d show ?thesis by (auto simp: detach_start_def world_ok_def)
next
  case (Some a)
  let ?rt = "rw_runtime w"
  obtain room where "b = Some a" "rm_subscribers room = rm_subscribers (rn_heap ?rt ! a)"
      "rn_heap rt = (rn_heap ?rt)[a := room]" "rn_rooms rt = rn_rooms ?rt"
  proof (rule that [of "announce ((rn_heap ?rt ! a)\<lparr>rm_attachments :=
        AList.delete i (rm_attachments (rn_heap ?rt ! a))\<rparr>)"])
  qed (use rooms_okD(1) [OF ok [unfolded world_ok_def] Some] Some d in
      \<open>auto simp: detach_start_def Let_def\<close>)
  with leave_ok [OF ok Some] show ?thesis by simp
qed

lemma expire_ok:
  assumes ok: "world_ok w" and d: "expire_start r now (rw_runtime w) = (rt, b, expired)"
  shows "world_ok (w\<lparr>rw_runtime := rt, rw_tasks := rw_tasks w + evict_later r b\<rparr>)"
proof (cases "rn_rooms (rw_runtime w) r")
  case None
  with ok d show ?thesis by (auto simp: expire_start_def world_ok_def)
next
  case (Some a)
  let ?rt = "rw_runtime w"
  obtain room where "b = Some a" "rm_subscribers room = rm_subscribers (rn_heap ?rt ! a)"
      "rn_heap rt = (rn_heap ?rt)[a := room]" "rn_rooms rt = rn_rooms ?rt"
  proof (rule that [of "(if expired \<noteq> [] then announce else id) ((rn_heap ?rt ! a)\<lparr>rm_attachments :=
        filter (\<lambda>(_, entry). \<not> lease_elapsed now entry) (rm_attachments (rn_heap ?rt ! a))\<rparr>)"])
  qed (use rooms_okD(1) [OF ok [unfolded world_ok_def] Some] Some d in
      \<open>auto simp: expire_start_def Let_def split: if_splits\<close>)
  with leave_ok [OF ok Some] show ?thesis by simp
qed

lemma drop_ok:
  assumes ok: "world_ok w" and live: "(r, a) \<in># rw_live w"
    and d: "drop_start r a (rw_runtime w) = (rt, rest)"
  shows "world_ok (w\<lparr>rw_runtime := rt, rw_live := rw_live w - {#(r, a)#},
                     rw_tasks := rw_tasks w + tasks_of rest\<rparr>)"
proof -
  let ?rt = "rw_runtime w"
  note D = rooms_okD [OF ok [unfolded world_ok_def]]
  obtain L where L: "rw_live w = add_mset (r, a) L" using live by (metis mset_add)
  from D(3) [OF live] have r: "rn_rooms ?rt r = Some a" .
  let ?room = "(rn_heap ?rt ! a)\<lparr>rm_subscribers := rm_subscribers (rn_heap ?rt ! a) - 1\<rparr>"
  have rt: "rn_heap rt = (rn_heap ?rt)[a := ?room]" "rn_rooms rt = rn_rooms ?rt"
    and rest: "rest = (if rm_subscribers (rn_heap ?rt ! a) \<noteq> 1 then None else Some (CheckPresence r a))"
    using d by (auto simp: drop_start_def)
  have subs: "rm_subscribers (rn_heap ?rt ! a) = subscriptions L a + 1"
    using D(4) [OF D(1) [OF r]] L by simp
  have "rooms_ok ((rn_heap ?rt)[a := ?room]) (rn_rooms ?rt) L (rw_tasks w + tasks_of rest)"
  proof (rule rooms_okI)
    show "b < length ((rn_heap ?rt)[a := ?room])" if "rn_rooms ?rt x = Some b" for x b
      using D(1) [OF that] by simp
    show "x = y" if "rn_rooms ?rt x = Some b" "rn_rooms ?rt y = Some b" for x y b
      by (rule D(2) [OF that])
    show "rn_rooms ?rt x = Some b" if "(x, b) \<in># L" for x b
      using that D(3) L by auto
    show "rm_subscribers ((rn_heap ?rt)[a := ?room] ! b) = subscriptions L b"
      if "b < length ((rn_heap ?rt)[a := ?room])" for b
      using that D(4) [of b] subs L by (cases "b = a") auto
    show "eviction_comes (rw_tasks w + tasks_of rest) x b"
      if x: "rn_rooms ?rt x = Some b" and i: "idle ((rn_heap ?rt)[a := ?room] ! b)" for x b
    proof (cases "b = a")
      case True
      with x r D(2) have "x = r" by blast
      moreover have "rm_subscribers (rn_heap ?rt ! a) = 1"
        using i True D(1) [OF r] subs by (simp add: idle_def)
      ultimately show ?thesis using True rest by (simp add: eviction_comes_def)
    next
      case False
      with i have "idle (rn_heap ?rt ! b)" by simp
      from D(5) [OF x this] show ?thesis by (auto simp: eviction_comes_def)
    qed
  qed
  with rt L show ?thesis by (simp add: world_ok_def)
qed

lemma other_task: "t \<in># tasks \<Longrightarrow> t \<noteq> u \<Longrightarrow> t \<in># tasks - {#u#}"
  by (simp add: in_diff_count)

lemma task_ok:
  assumes ok: "world_ok w" and t: "task \<in># rw_tasks w"
  shows "world_ok (take_task task w)"
proof (cases task)
  case (CheckPresence r a)
  let ?rt = "rw_runtime w" and ?tasks = "rw_tasks w - {#task#}"
  note D = rooms_okD [OF ok [unfolded world_ok_def]]
  obtain rest where rest: "run_task task ?rt = (?rt, rest)"
    and r: "rest = (if rm_attachments (rn_heap ?rt ! a) \<noteq> [] then None else Some (EvictIfIdle r a))"
    by (simp add: CheckPresence)
  have "rooms_ok (rn_heap ?rt) (rn_rooms ?rt) (rw_live w) (?tasks + tasks_of rest)"
  proof (rule rooms_okI)
    show "eviction_comes (?tasks + tasks_of rest) x b"
      if x: "rn_rooms ?rt x = Some b" and i: "idle (rn_heap ?rt ! b)" for x b
    proof (cases "CheckPresence x b = task")
      case True
      with CheckPresence i r show ?thesis by (simp add: idle_def eviction_comes_def)
    next
      case False
      with D(5) [OF x i] show ?thesis
        using CheckPresence by (auto simp: eviction_comes_def intro: other_task)
    qed
  qed (use D in blast)+
  with rest show ?thesis by (simp add: world_ok_def take_task_def)
next
  case (EvictIfIdle r a)
  let ?rt = "rw_runtime w" and ?tasks = "rw_tasks w - {#task#}"
  note D = rooms_okD [OF ok [unfolded world_ok_def]]
  have taken: "take_task task w = w\<lparr>rw_runtime := evict_if_idle r a ?rt, rw_tasks := ?tasks\<rparr>"
    by (simp add: take_task_def EvictIfIdle)
  have kept: "eviction_comes ?tasks x b"
    if "rn_rooms ?rt x = Some b" "idle (rn_heap ?rt ! b)" "(x, b) \<noteq> (r, a)" for x b
    using D(5) [OF that(1,2)] that(3) EvictIfIdle by (auto simp: eviction_comes_def intro: other_task)
  show ?thesis
  proof (cases "rn_rooms ?rt r = Some a \<and> idle (rn_heap ?rt ! a)")
    case False
    have "rooms_ok (rn_heap ?rt) (rn_rooms ?rt) (rw_live w) ?tasks"
    proof (rule rooms_okI)
      show "eviction_comes ?tasks x b"
        if "rn_rooms ?rt x = Some b" "idle (rn_heap ?rt ! b)" for x b
        using kept [OF that] that False by blast
    qed (use D in blast)+
    with False taken show ?thesis by (auto simp: world_ok_def evict_if_idle_def)
  next
    case True
    then have "subscriptions (rw_live w) a = 0"
      using D(1) [of r a] D(4) [of a] by (simp add: idle_def)
    then have gone: "(r, a) \<notin># rw_live w" by (auto simp: subscriptions_def filter_mset_eq_conv)
    have "rooms_ok (rn_heap ?rt) ((rn_rooms ?rt)(r := None)) (rw_live w) ?tasks"
    proof (rule rooms_okI)
      show "b < length (rn_heap ?rt)" if "((rn_rooms ?rt)(r := None)) x = Some b" for x b
        using that D(1) by (auto split: if_splits)
      show "x = y" if "((rn_rooms ?rt)(r := None)) x = Some b" "((rn_rooms ?rt)(r := None)) y = Some b"
        for x y b
        using that D(2) by (auto split: if_splits)
      show "((rn_rooms ?rt)(r := None)) x = Some b" if "(x, b) \<in># rw_live w" for x b
        using D(3) [OF that] that gone True by auto
      show "rm_subscribers (rn_heap ?rt ! b) = subscriptions (rw_live w) b" if "b < length (rn_heap ?rt)" for b
        by (rule D(4) [OF that])
      show "eviction_comes ?tasks x b"
        if "((rn_rooms ?rt)(r := None)) x = Some b" "idle (rn_heap ?rt ! b)" for x b
        using kept [of x b] that by (auto split: if_splits)
    qed
    with True taken show ?thesis by (simp add: world_ok_def evict_if_idle_def)
  qed
qed

lemma runtime_step_ok: "runtime_step w w' \<Longrightarrow> world_ok w \<Longrightarrow> world_ok w'"
proof (induction rule: runtime_step.induct)
  case (Attach r p c now w rt result)
  then show ?case by (blast intro: attach_ok)
next
  case (Subscribe r w rt a)
  then show ?case by (blast intro: subscribe_ok)
next
  case (Publish_Presence w r m)
  show ?case
  proof (cases "rn_rooms (rw_runtime w) r")
    case None
    with Publish_Presence show ?thesis by (simp add: publish_presence_def)
  next
    case (Some a)
    show ?thesis
      by (rule publish_ok [OF Publish_Presence Some, of "send_presence m"])
         (simp_all add: publish_presence_def Some)
  qed
next
  case (Publish_Doc w r m)
  show ?case
  proof (cases "rn_rooms (rw_runtime w) r")
    case None
    with Publish_Doc show ?thesis by (simp add: publish_doc_def)
  next
    case (Some a)
    show ?thesis
      by (rule publish_ok [OF Publish_Doc Some, of
            "\<lambda>room. room\<lparr>rm_doc_events := rm_doc_events room @ [m]\<rparr>"])
         (simp_all add: publish_doc_def Some idle_def)
  qed
next
  case (Heartbeat r i now w rt ok)
  then show ?case by (auto simp: heartbeat_def intro: update_entry_ok)
next
  case (Update_Presence r i d sel now w rt ok)
  then show ?case by (auto simp: update_presence_def intro: update_entry_ok)
next
  case (Detach r i w rt a listing)
  then show ?case by (blast intro: detach_ok)
next
  case (Expire r now w rt a expired)
  then show ?case by (blast intro: expire_ok)
next
  case (Drop r a w rt rest)
  then show ?case by (blast intro: drop_ok)
next
  case (Other rt w)
  then show ?case by (simp add: world_ok_def)
next
  case (Task w w')
  then show ?case by (auto elim!: task_step.cases intro: task_ok)
qed

interpretation rt: step_system runtime_step world_ok
  by unfold_locales (blast intro: runtime_step_ok)

lemma runtime_world_new_ok: "world_ok (runtime_world_new documents)"
  by (simp add: world_ok_def runtime_world_new_def runtime_new_def rooms_ok_def)

section \<open>Abandoned rooms go away\<close>

definition task_weight :: "runtime_task \<Rightarrow> nat" where
  "task_weight t = (case t of CheckPresence _ _ \<Rightarrow> 2 | EvictIfIdle _ _ \<Rightarrow> 1)"

definition work_left :: "runtime_world \<Rightarrow> nat" where
  "work_left w = (\<Sum>t\<in>#rw_tasks w. task_weight t)"

lemma take_task_work:
  assumes "t \<in># rw_tasks w"
  shows "work_left (take_task t w) < work_left w"
proof -
  obtain M where M: "rw_tasks w = add_mset t M" using assms by (metis mset_add)
  show ?thesis
    by (cases t) (simp_all add: work_left_def take_task_def M task_weight_def)
qed

lemma work_left_bound: "work_left w \<le> 2 * size (rw_tasks w)"
proof -
  have "(\<Sum>t\<in>#M. task_weight t) \<le> 2 * size M" for M
    by (induction M) (auto simp: task_weight_def split: runtime_task.split)
  then show ?thesis by (simp add: work_left_def)
qed

interpretation tk: draining_system task_step world_ok work_left
  by unfold_locales (auto elim!: task_step.cases intro: task_ok take_task_work)

text \<open>Tasks change no room and map no room.\<close>

lemma take_task_rooms:
  "rn_heap (rw_runtime (take_task t w)) = rn_heap (rw_runtime w)
   \<and> (rn_rooms (rw_runtime (take_task t w)) r = Some a \<longrightarrow> rn_rooms (rw_runtime w) r = Some a)"
  by (cases t) (auto simp: take_task_def evict_if_idle_def)

lemma task_steps_rooms:
  "(task_step ^^ k) w w' \<Longrightarrow> rn_heap (rw_runtime w') = rn_heap (rw_runtime w)
     \<and> (\<forall>r a. rn_rooms (rw_runtime w') r = Some a \<longrightarrow> rn_rooms (rw_runtime w) r = Some a)"
proof (induction k arbitrary: w')
  case 0
  then show ?case by simp
next
  case (Suc k)
  then obtain v t where v: "(task_step ^^ k) w v" "w' = take_task t v"
    by (auto elim!: task_step.cases)
  from Suc.IH [OF v(1)] take_task_rooms [of t v] v(2) show ?case by metis
qed

lemma expire_start_room:
  assumes "expire_start r now rt = (rt', a, expired)" and "rn_rooms rt' r = Some b"
    and "b < length (rn_heap rt)"
  shows "\<forall>(i, entry)\<in>set (rm_attachments (rn_heap rt' ! b)). \<not> lease_elapsed now entry"
proof (cases "rn_rooms rt r")
  case None
  with assms show ?thesis by (simp add: expire_start_def)
next
  case (Some c)
  with assms have "b = c" "rm_attachments (rn_heap rt' ! b) =
      filter (\<lambda>(_, entry). \<not> lease_elapsed now entry) (rm_attachments (rn_heap rt ! c))"
    by (auto simp: expire_start_def Let_def split: if_splits)
  then show ?thesis by auto
qed

text \<open>
  C12: abandoned rooms go away: start in any state the runtime can reach, let a room's attachments
  expire, and run what evictions are left in any order. At most twice as many steps as there were
  tasks are possible, each state with tasks left allows another, and when none is left no idle room
  is mapped, and the room itself is kept only for a live subscriber or for an attachment whose lease
  has not elapsed.
\<close>

theorem abandoned_rooms_go_away:
  assumes reach: "runtime_step\<^sup>*\<^sup>* (runtime_world_new documents) w"
    and expire: "expire_start r now (rw_runtime w) = (rt, a, expired)"
    and run: "(task_step ^^ k) (w\<lparr>rw_runtime := rt, rw_tasks := rw_tasks w + evict_later r a\<rparr>) w'"
  shows "k \<le> 2 * (size (rw_tasks w) + 1)
    \<and> (rw_tasks w' \<noteq> {#} \<longrightarrow> (\<exists>w''. task_step w' w''))
    \<and> (rw_tasks w' = {#} \<longrightarrow>
         (\<forall>x b. rn_rooms (rw_runtime w') x = Some b \<longrightarrow> \<not> idle (rn_heap (rw_runtime w') ! b)) \<and>
         (\<forall>b. rn_rooms (rw_runtime w') r = Some b \<longrightarrow>
            (\<exists>x. (x, b) \<in># rw_live w') \<or>
            (\<exists>(i, entry)\<in>set (rm_attachments (rn_heap (rw_runtime w') ! b)).
               \<not> lease_elapsed now entry)))"
proof (intro conjI impI allI)
  let ?w0 = "w\<lparr>rw_runtime := rt, rw_tasks := rw_tasks w + evict_later r a\<rparr>"
  have w: "world_ok w" by (rule rt.reachable_inv [OF reach runtime_world_new_ok])
  have w0: "world_ok ?w0" by (rule expire_ok [OF w expire])
  note w' = tk.steps_inv [OF run w0]
  note D = rooms_okD [OF w' [unfolded world_ok_def]]
  have "size (evict_later r a) \<le> 1" by (cases a) simp_all
  then have "2 * size (rw_tasks ?w0) \<le> 2 * (size (rw_tasks w) + 1)" by simp
  with tk.steps_bounded [OF run] work_left_bound [of ?w0]
  show "k \<le> 2 * (size (rw_tasks w) + 1)" by linarith
  show "\<exists>w''. task_step w' w''" if "rw_tasks w' \<noteq> {#}"
    using that by (metis multiset_nonemptyE task_step.intros)
  show busy: "\<not> idle (rn_heap (rw_runtime w') ! b)"
    if "rw_tasks w' = {#}" "rn_rooms (rw_runtime w') x = Some b" for x b
    using D(5) [OF that(2)] that(1) by (auto simp: eviction_comes_def)
  show "(\<exists>x. (x, b) \<in># rw_live w') \<or>
        (\<exists>(i, entry)\<in>set (rm_attachments (rn_heap (rw_runtime w') ! b)). \<not> lease_elapsed now entry)"
    if e: "rw_tasks w' = {#}" and b: "rn_rooms (rw_runtime w') r = Some b" for b
  proof (cases "rm_attachments (rn_heap (rw_runtime w') ! b) = []")
    case True
    with busy [OF e b] D(4) [OF D(1) [OF b]] have "subscriptions (rw_live w') b \<noteq> 0"
      by (simp add: idle_def)
    then obtain x where "x \<in># rw_live w'" "snd x = b"
      by (auto simp: subscriptions_def dest!: multiset_nonemptyE)
    then show ?thesis by (metis prod.collapse)
  next
    case False
    from task_steps_rooms [OF run]
    have same: "rn_heap (rw_runtime w') = rn_heap rt" and "rn_rooms rt r = Some b" using b by auto
    moreover have "length (rn_heap rt) = length (rn_heap (rw_runtime w))"
      using expire by (auto simp: expire_start_def Let_def split: option.splits if_splits)
    ultimately have "\<forall>(i, entry)\<in>set (rm_attachments (rn_heap (rw_runtime w') ! b)).
        \<not> lease_elapsed now entry"
      using expire_start_room [OF expire] D(1) [OF b] by simp
    with False show ?thesis
      by (cases "rm_attachments (rn_heap (rw_runtime w') ! b)") auto
  qed
qed

text \<open>A client attaches to room 7 and is never heard of again.\<close>

definition demo_documents :: document_registry where
  "demo_documents = registry_new collaboration_limits_default ''epoch''"

definition demo_attached :: runtime_world where
  "demo_attached = (runtime_world_new demo_documents)
     \<lparr>rw_runtime := fst (attach 7 1 ''client'' 0 (runtime_new demo_documents))\<rparr>"

definition demo_expired :: runtime_world where
  "demo_expired = demo_attached
     \<lparr>rw_runtime := fst (expire_start 7 presence_lease (rw_runtime demo_attached)),
      rw_tasks := {#} + evict_later 7 (Some 0)\<rparr>"

lemma demo_attached_reachable: "runtime_step\<^sup>*\<^sup>* (runtime_world_new demo_documents) demo_attached"
  unfolding demo_attached_def
  by (rule r_into_rtranclp,
      rule Attach [of 7 1 "''client''" 0 _ _ "snd (attach 7 1 ''client'' 0 (runtime_new demo_documents))"])
     (simp add: runtime_world_new_def)

lemma demo_expire:
  "expire_start 7 presence_lease (rw_runtime demo_attached)
   = (rw_runtime demo_expired, Some 0, [1])"
  by (simp add: demo_expired_def demo_attached_def attach_def with_room_def runtime_new_def
      expire_start_def Let_def update_room_def room_new_def announce_def send_presence_def
      lease_elapsed_def duration_since_def presence_lease_def)

lemma demo_expired_tasks:
  "rw_tasks demo_attached = {#}" "rw_tasks demo_expired = {#EvictIfIdle 7 0#}"
  "demo_expired = demo_attached\<lparr>rw_runtime := rw_runtime demo_expired,
     rw_tasks := rw_tasks demo_attached + evict_later 7 (Some 0)\<rparr>"
  by (simp_all add: demo_expired_def demo_attached_def runtime_world_new_def)

lemma demo_evicted_run:
  "(task_step ^^ 1) (demo_attached\<lparr>rw_runtime := rw_runtime demo_expired,
     rw_tasks := rw_tasks demo_attached + evict_later 7 (Some 0)\<rparr>)
   (take_task (EvictIfIdle 7 0) demo_expired)"
  unfolding demo_expired_tasks(3) [symmetric]
  by (simp add: OO_def task_step.intros demo_expired_tasks(2))

theorem abandoned_rooms_go_away_witness:
  "\<not> (\<exists>x b. rn_rooms (rw_runtime (take_task (EvictIfIdle 7 0) demo_expired)) x = Some b
     \<and> idle (rn_heap (rw_runtime (take_task (EvictIfIdle 7 0) demo_expired)) ! b))"
proof -
  have "rw_tasks (take_task (EvictIfIdle 7 0) demo_expired) = {#}"
    by (simp add: take_task_def demo_expired_tasks(2))
  with abandoned_rooms_go_away [OF demo_attached_reachable demo_expire demo_evicted_run] show ?thesis
    by blast
qed

end
