(* ===== verification/Room_Results.thy ===== *)
theory Room_Results
  imports Room_Messages Row_Comparison Tenant_Resources "HOL-Library.AList"
begin

text \<open>
  Shared query results of a room: \<^verbatim>\<open>crates/server/src/room_results.rs\<close>.

  The registry is its table of entries; publication holds a lock over the cap and the insertion,
  which are one step here. The JSON encoding of a page, the encrypted spill file with its reader,
  the digest of a header and the text of an error are parameters, as are the clocks and the
  fresh identifier of a call. \<^verbatim>\<open>ai_selected_rows\<close> is not modelled.
\<close>

section \<open>State\<close>

datatype 's stored_page = MemoryPage page | SpillPage 's

record 's room_result_entry =
  re_reference :: room_query_result
  re_pages :: "'s stored_page list"
  re_last_accessed :: instant
  re_retention_guards :: "resource_guard list"

type_synonym 's result_table = "(room_result_id \<times> 's room_result_entry) list"

record new_room_result =
  nr_room_id :: i64
  nr_actor_principal_id :: i64
  nr_connection_profile_id :: "i64 option"
  nr_pages :: "page list"
  nr_row_count :: "i64 option"
  nr_error_message :: "string option"
  nr_retention_guards :: "resource_guard list"

record 's result_env =
  rv_encode :: "page \<Rightarrow> (api_error, u8 list) result"
  rv_spill :: "u8 list \<Rightarrow> (api_error, 's) result"
  rv_read_spill :: "'s \<Rightarrow> (api_error, page) result"
  rv_schema_digest :: "column_metadata list \<Rightarrow> string"
  rv_error_text :: "api_error \<Rightarrow> string"

definition max_results_per_room :: nat where "max_results_per_room = 32"
definition result_ttl :: duration where "result_ttl = 600 * 10 ^ 9"
definition result_memory_bytes :: nat where "result_memory_bytes = 16 * 1024 * 1024"

section \<open>Expiry and the cap of a room\<close>

definition reap_expired :: "instant \<Rightarrow> 's result_table \<Rightarrow> 's result_table" where
  "reap_expired now entries =
     filter (\<lambda>(_, e). duration_since now (re_last_accessed e) < result_ttl) entries"

definition of_room :: "i64 \<Rightarrow> 's result_table \<Rightarrow> 's result_table" where
  "of_room room entries = filter (\<lambda>(_, e). rq_room_id (re_reference e) = room) entries"

text \<open>The identifiers \<^verbatim>\<open>enforce_room_cap\<close> removes, the oldest first.\<close>

definition over_cap :: "i64 \<Rightarrow> 's result_table \<Rightarrow> room_result_id list" where
  "over_cap room entries =
     (let room_entries = map (\<lambda>(k, e). (rq_created_at (re_reference e), k)) (of_room room entries)
      in if length room_entries < max_results_per_room then []
         else map snd (take (length room_entries + 1 - max_results_per_room) (sort_key fst room_entries)))"

definition enforce_room_cap :: "i64 \<Rightarrow> 's result_table \<Rightarrow> 's result_table" where
  "enforce_room_cap room entries =
     (let removed = over_cap room entries in filter (\<lambda>(k, _). k \<notin> set removed) entries)"

definition remove_room :: "i64 \<Rightarrow> 's result_table \<Rightarrow> 's result_table" where
  "remove_room room entries = filter (\<lambda>(_, e). rq_room_id (re_reference e) \<noteq> room) entries"

section \<open>Insertion\<close>

text \<open>The pages that fit the memory budget stay in memory, the others are spilled.\<close>

fun store_pages ::
  "'s result_env \<Rightarrow> nat \<Rightarrow> page list \<Rightarrow> (api_error, 's stored_page list) result" where
  "store_pages env memory [] = Inr []"
| "store_pages env memory (p # ps) =
     res_bind (rv_encode env p)
       (\<lambda>encoded.
          if memory + length encoded \<le> result_memory_bytes
          then res_bind (store_pages env (memory + length encoded) ps) (\<lambda>rest. Inr (MemoryPage p # rest))
          else res_bind (rv_spill env encoded)
                 (\<lambda>s. res_bind (store_pages env memory ps) (\<lambda>rest. Inr (SpillPage s # rest))))"

definition header_digests :: "'s result_env \<Rightarrow> page list \<Rightarrow> string list" where
  "header_digests env pages =
     List.map_filter (\<lambda>p. case p of PageNextResult cols \<Rightarrow> Some (rv_schema_digest env cols) | _ \<Rightarrow> None) pages"

definition new_entry ::
  "'s result_env \<Rightarrow> room_result_id \<Rightarrow> utc_time \<Rightarrow> instant \<Rightarrow> new_room_result \<Rightarrow> 's room_result_entry" where
  "new_entry env fresh utc now new =
     (let stored = store_pages env 0 (nr_pages new);
          pages = (case stored of Inl _ \<Rightarrow> [] | Inr pages \<Rightarrow> pages);
          message = (case stored of Inl e \<Rightarrow> Some (rv_error_text env e) | Inr _ \<Rightarrow> nr_error_message new);
          failed = (case stored of Inl _ \<Rightarrow> True | Inr _ \<Rightarrow> False)
      in \<lparr>re_reference =
            \<lparr>rq_result_id = fresh, rq_room_id = nr_room_id new,
             rq_actor_principal_id = nr_actor_principal_id new,
             rq_connection_profile_id = nr_connection_profile_id new,
             rq_row_count = (if failed then None else nr_row_count new),
             rq_page_count = of_nat (length pages),
             rq_schema_digests = header_digests env (nr_pages new),
             rq_status = (if message \<noteq> None then RoomError else RoomOk),
             rq_error_message = message,
             rq_created_at = utc, rq_finished_at = Some utc\<rparr>,
          re_pages = pages, re_last_accessed = now,
          re_retention_guards = (if failed then [] else nr_retention_guards new)\<rparr>)"

definition insert_result ::
  "'s result_env \<Rightarrow> room_result_id \<Rightarrow> utc_time \<Rightarrow> instant \<Rightarrow> new_room_result \<Rightarrow> 's result_table
     \<Rightarrow> 's result_table \<times> room_query_result" where
  "insert_result env fresh utc now new entries =
     (let entry = new_entry env fresh utc now new
      in (AList.update fresh entry (enforce_room_cap (nr_room_id new) (reap_expired now entries)),
          re_reference entry))"

section \<open>Reading\<close>

definition list_results :: "i64 \<Rightarrow> instant \<Rightarrow> 's result_table \<Rightarrow> 's result_table \<times> room_query_result list" where
  "list_results room now entries =
     (let live = reap_expired now entries
      in (live, sort_key rq_created_at (map (re_reference \<circ> snd) (of_room room live))))"

text \<open>A UUID in its hyphenated form.\<close>

definition show_uuid :: "room_result_id \<Rightarrow> string" where
  "show_uuid u =
     (let h = hex_padded 32 (unat u)
      in take 8 h @ ''-'' @ take 4 (drop 8 h) @ ''-'' @ take 4 (drop 12 h) @ ''-''
           @ take 4 (drop 16 h) @ ''-'' @ drop 20 h)"

definition result_gone :: "room_result_id \<Rightarrow> api_error" where
  "result_gone result_id =
     ApiBadRequest (''room result '' @ show_uuid result_id @ '' was not found or expired'')"

definition with_entry ::
  "i64 \<Rightarrow> room_result_id \<Rightarrow> instant \<Rightarrow> ('s room_result_entry \<Rightarrow> 'a) \<Rightarrow> 's result_table
     \<Rightarrow> 's result_table \<times> (api_error, 'a) result" where
  "with_entry room result_id now f entries =
     (case map_of entries result_id of
        None \<Rightarrow> (entries, Inl (result_gone result_id))
      | Some entry \<Rightarrow>
          (if rq_room_id (re_reference entry) \<noteq> room then (entries, Inl (result_gone result_id))
           else (AList.update result_id (entry\<lparr>re_last_accessed := now\<rparr>) entries,
                 Inr (f (entry\<lparr>re_last_accessed := now\<rparr>)))))"

definition get_result ::
  "i64 \<Rightarrow> room_result_id \<Rightarrow> instant \<Rightarrow> 's result_table \<Rightarrow> 's result_table \<times> (api_error, room_query_result) result" where
  "get_result room result_id now entries =
     with_entry room result_id now re_reference (reap_expired now entries)"

definition read_page :: "'s result_env \<Rightarrow> 's stored_page \<Rightarrow> (api_error, page) result" where
  "read_page env stored =
     (case stored of MemoryPage p \<Rightarrow> Inr p | SpillPage s \<Rightarrow> rv_read_spill env s)"

text \<open>A closure that can fail, under \<^verbatim>\<open>with_entry(..)?\<close>.\<close>

definition flatten_result :: "'t \<times> (api_error, (api_error, 'a) result) result \<Rightarrow> 't \<times> (api_error, 'a) result" where
  "flatten_result x = (fst x, res_bind (snd x) id)"

definition page_window ::
  "'s result_env \<Rightarrow> room_result_id \<Rightarrow> u64 \<Rightarrow> nat \<Rightarrow> 's room_result_entry \<Rightarrow> (api_error, room_result_pages) result" where
  "page_window env result_id from_seq limit entry =
     (let start = unat from_seq; n = length (re_pages entry)
      in if start > n
         then Inl (ApiBadRequest (''from_seq='' @ show_nat start @ '' is beyond result page count '' @ show_nat n))
         else
           (let last_page = min (start + min (max limit 1) 256) n
            in res_bind (res_map (read_page env) (take (last_page - start) (drop start (re_pages entry))))
                 (\<lambda>pages. Inr \<lparr>rgs_result_id = result_id,
                    rgs_pages = map (\<lambda>(offset, p). \<lparr>rg_seq = of_nat (start + offset), rg_page = p\<rparr>)
                                  (List.enumerate 0 pages),
                    rgs_next_seq = of_nat last_page, rgs_done = (last_page = n)\<rparr>)))"

definition result_pages ::
  "'s result_env \<Rightarrow> i64 \<Rightarrow> room_result_id \<Rightarrow> u64 \<Rightarrow> nat \<Rightarrow> instant \<Rightarrow> 's result_table
     \<Rightarrow> 's result_table \<times> (api_error, room_result_pages) result" where
  "result_pages env room result_id from_seq limit now entries =
     flatten_result (with_entry room result_id now (page_window env result_id from_seq limit)
       (reap_expired now entries))"

text \<open>The loop of \<^verbatim>\<open>comparison_dataset\<close>: the current result set, its header and its rows so far.\<close>

fun collect_result_set ::
  "'s result_env \<Rightarrow> u32 \<Rightarrow> u32 option \<Rightarrow> column_metadata list option \<Rightarrow> row list \<Rightarrow> 's stored_page list
     \<Rightarrow> (api_error, column_metadata list option \<times> row list) result" where
  "collect_result_set env wanted current columns rows [] = Inr (columns, rows)"
| "collect_result_set env wanted current columns rows (stored # pages) =
     res_bind (read_page env stored)
       (\<lambda>p. case p of
          PageNextResult next_columns \<Rightarrow>
            (let current' = (case current of None \<Rightarrow> 0 | Some n \<Rightarrow> n + 1)
             in collect_result_set env wanted (Some current')
                  (if current' = wanted then Some next_columns else columns) rows pages)
        | PageRows next_rows \<Rightarrow>
            collect_result_set env wanted current columns
              (if current = Some wanted then rows @ next_rows else rows) pages
        | PageError e \<Rightarrow> Inl (ApiDriver e)
        | PageDone _ _ \<Rightarrow> collect_result_set env wanted current columns rows pages)"

definition entry_dataset ::
  "'s result_env \<Rightarrow> room_result_id \<Rightarrow> u32 \<Rightarrow> string \<Rightarrow> 's room_result_entry
     \<Rightarrow> (api_error, comparison_dataset) result" where
  "entry_dataset env result_id result_set expected_digest entry =
     (if rq_status (re_reference entry) \<noteq> RoomOk
      then Inl (ApiBadRequest (''room result '' @ show_uuid result_id @ '' did not complete successfully''))
      else
        res_bind (collect_result_set env result_set None None [] (re_pages entry))
          (\<lambda>(columns, rows).
             res_bind (ok_or (ApiBadRequest (''room result '' @ show_uuid result_id @ '' has no result_set=''
                                @ show_nat (unat result_set))) columns)
               (\<lambda>columns.
                  if rv_schema_digest env columns \<noteq> expected_digest
                  then Inl (ApiBadRequest (''stale room-result schema digest for result '' @ show_uuid result_id))
                  else Inr \<lparr>cs_columns = columns, cs_rows = rows, cs_immutable_order = True\<rparr>)))"

definition result_dataset ::
  "'s result_env \<Rightarrow> i64 \<Rightarrow> room_result_id \<Rightarrow> u32 \<Rightarrow> string \<Rightarrow> instant \<Rightarrow> 's result_table
     \<Rightarrow> 's result_table \<times> (api_error, comparison_dataset) result" where
  "result_dataset env room result_id result_set expected_digest now entries =
     flatten_result (with_entry room result_id now (entry_dataset env result_id result_set expected_digest)
       (reap_expired now entries))"

section \<open>The cap of a room\<close>

lemma reap_expired_keys: "set (map fst (reap_expired now entries)) \<subseteq> set (map fst entries)"
  by (auto simp: reap_expired_def)

lemma distinct_filter_keys: "distinct (map fst xs) \<Longrightarrow> distinct (map fst (filter P xs))"
  by (induction xs) auto

lemma of_room_enforce:
  "of_room room (enforce_room_cap room entries)
   = filter (\<lambda>(k, _). k \<notin> set (over_cap room entries)) (of_room room entries)"
  by (simp add: of_room_def enforce_room_cap_def case_prod_unfold conj_commute)

lemma length_filter_notin:
  assumes "distinct (map fst xs)" and "set ks \<subseteq> set (map fst xs)" and "distinct ks"
  shows "length (filter (\<lambda>(k, _). k \<notin> set ks) xs) + length ks = length xs"
proof -
  have "set (map fst (filter (\<lambda>(k, _). k \<in> set ks) xs)) = set ks"
    using assms(2) by force
  moreover have "distinct (map fst (filter (\<lambda>(k, _). k \<in> set ks) xs))"
    by (rule distinct_filter_keys [OF assms(1)])
  ultimately have "length (filter (\<lambda>(k, _). k \<in> set ks) xs) = length ks"
    using assms(3) by (metis distinct_card length_map)
  with sum_length_filter_compl [of "\<lambda>(k, _). k \<in> set ks" xs] show ?thesis
    by (simp add: case_prod_unfold)
qed

lemma room_under_cap:
  assumes "distinct (map fst entries)"
  shows "length (of_room room (enforce_room_cap room entries)) < max_results_per_room"
proof -
  let ?es = "of_room room entries"
  let ?dated = "map (\<lambda>(k, e). (rq_created_at (re_reference e), k)) ?es"
  have keys: "distinct (map fst ?es)"
    unfolding of_room_def by (rule distinct_filter_keys [OF assms])
  show ?thesis
  proof (cases "length ?es < max_results_per_room")
    case True
    then show ?thesis
      unfolding of_room_enforce by (rule le_less_trans [OF length_filter_le])
  next
    case False
    let ?n = "length ?es + 1 - max_results_per_room"
    have cap: "over_cap room entries = map snd (take ?n (sort_key fst ?dated))"
      using False by (simp add: over_cap_def Let_def)
    have snds: "map snd ?dated = map fst ?es" by (simp add: case_prod_unfold comp_def)
    have mset: "mset (map snd (sort_key fst ?dated)) = mset (map fst ?es)"
      by (simp only: mset_map mset_sort flip: snds)
    then have "distinct (map snd (sort_key fst ?dated))"
      using keys by (metis mset_eq_imp_distinct_iff)
    then have d: "distinct (over_cap room entries)"
      unfolding cap take_map [symmetric] by (rule distinct_take)
    have sub: "set (over_cap room entries) \<subseteq> set (map fst ?es)"
      unfolding cap take_map [symmetric] using mset by (metis set_mset_mset set_take_subset)
    have "length (over_cap room entries) = ?n"
      using False by (simp add: cap max_results_per_room_def)
    with length_filter_notin [OF keys sub d] False show ?thesis
      unfolding of_room_enforce by (simp add: max_results_per_room_def)
  qed
qed

lemma alist_update_length: "length (AList.update k v xs) \<le> length xs + 1"
  by (induction xs) auto

lemma of_room_update_length:
  "length (of_room room (AList.update k v xs)) \<le> length (of_room room xs) + 1"
  by (induction xs) (auto simp: of_room_def)

text \<open>After every publication a room has at most 32 results.\<close>

lemma room_cap_kept:
  assumes "distinct (map fst entries)" and "insert_result env fresh utc now new entries = (entries', ref')"
  shows "length (of_room (nr_room_id new) entries') \<le> max_results_per_room"
    and "distinct (map fst entries')"
proof -
  have d: "distinct (map fst (reap_expired now entries))"
    unfolding reap_expired_def by (rule distinct_filter_keys [OF assms(1)])
  have e: "entries' = AList.update fresh (new_entry env fresh utc now new)
      (enforce_room_cap (nr_room_id new) (reap_expired now entries))"
    using assms(2) by (simp add: insert_result_def Let_def)
  show "length (of_room (nr_room_id new) entries') \<le> max_results_per_room"
    unfolding e
    using of_room_update_length room_under_cap [OF d, of "nr_room_id new"]
    by (metis Suc_eq_plus1 Suc_leI le_trans)
  show "distinct (map fst entries')"
    unfolding e by (rule distinct_update)
      (simp add: enforce_room_cap_def Let_def distinct_filter_keys [OF d])
qed

section \<open>A shared result reads back\<close>

text \<open>A reader that asks for the next pages until it is told that there are no more.\<close>

fun read_result ::
  "'s result_env \<Rightarrow> i64 \<Rightarrow> room_result_id \<Rightarrow> u64 \<Rightarrow> (nat \<times> instant) list \<Rightarrow> 's result_table
     \<Rightarrow> (api_error, room_result_page list \<times> bool) result" where
  "read_result env room result_id seq [] entries = Inr ([], False)"
| "read_result env room result_id seq ((limit, now) # requests) entries =
     (case result_pages env room result_id seq limit now entries of
        (entries', Inl e) \<Rightarrow> Inl e
      | (entries', Inr w) \<Rightarrow>
          (if rgs_done w then Inr (rgs_pages w, True)
           else res_bind (read_result env room result_id (rgs_next_seq w) requests entries')
                  (\<lambda>(pages, finished). Inr (rgs_pages w @ pages, finished))))"

text \<open>No two requests are as far apart as the lifetime of a result.\<close>

fun steady :: "instant \<Rightarrow> (nat \<times> instant) list \<Rightarrow> bool" where
  "steady before [] = True"
| "steady before ((limit, now) # requests) =
     (duration_since now before < result_ttl \<and> steady now requests)"

definition numbered :: "nat \<Rightarrow> page list \<Rightarrow> room_result_page list" where
  "numbered n pages = map (\<lambda>(i, p). \<lparr>rg_seq = of_nat i, rg_page = p\<rparr>) (List.enumerate n pages)"

lemma numbered_offset:
  "map (\<lambda>(offset, p). \<lparr>rg_seq = of_nat (start + offset), rg_page = p\<rparr>) (List.enumerate k pages)
   = numbered (start + k) pages"
proof (induction pages arbitrary: k)
  case Nil
  then show ?case by (simp add: numbered_def)
next
  case (Cons p pages)
  from Cons.IH [of "Suc k"] show ?case by (simp add: numbered_def)
qed

lemma numbered_append: "numbered n (xs @ ys) = numbered n xs @ numbered (n + length xs) ys"
  by (simp add: numbered_def enumerate_append_eq)

lemma map_of_filter_kept:
  "map_of xs k = Some v \<Longrightarrow> P (k, v) \<Longrightarrow> map_of (filter P xs) k = Some v"
  by (induction xs) (auto split: if_splits)

lemma res_map_take_drop:
  "res_map f xs = Inr ys \<Longrightarrow> res_map f (take j (drop k xs)) = Inr (take j (drop k ys))"
  by (simp add: res_map_Inr_conv flip: take_map drop_map)

lemma result_pages_window:
  assumes e: "map_of entries result_id = Some entry" and room: "rq_room_id (re_reference entry) = room"
    and live: "duration_since now (re_last_accessed entry) < result_ttl"
    and ps: "res_map (read_page env) (re_pages entry) = Inr ps"
    and k: "k \<le> length ps" and n: "length ps < 2 ^ 64"
    and j: "j = min (k + min (max limit 1) 256) (length ps)"
  shows "\<exists>entries'. result_pages env room result_id (of_nat k) limit now entries =
             (entries', Inr \<lparr>rgs_result_id = result_id, rgs_pages = numbered k (take (j - k) (drop k ps)),
                        rgs_next_seq = of_nat j, rgs_done = (j = length ps)\<rparr>)
           \<and> map_of entries' result_id = Some (entry\<lparr>re_last_accessed := now\<rparr>)"
proof -
  have reap: "map_of (reap_expired now entries) result_id = Some entry"
    unfolding reap_expired_def by (rule map_of_filter_kept [OF e]) (use live in simp)
  have len: "length (re_pages entry) = length ps" using res_map_length [OF ps] by simp
  have start: "unat (of_nat k :: u64) = k" using k n by (simp add: unat_of_nat)
  have "page_window env result_id (of_nat k) limit (entry\<lparr>re_last_accessed := now\<rparr>) =
      Inr \<lparr>rgs_result_id = result_id, rgs_pages = numbered k (take (j - k) (drop k ps)),
           rgs_next_seq = of_nat j, rgs_done = (j = length ps)\<rparr>"
    using k res_map_take_drop [OF ps, of "j - k" k] numbered_offset [of k 0 "take (j - k) (drop k ps)"]
    by (simp add: page_window_def Let_def start len j)
  with reap room show ?thesis
    by (simp add: result_pages_def with_entry_def flatten_result_def update_conv)
qed

lemma read_result_rest:
  assumes "map_of entries result_id = Some entry" and "rq_room_id (re_reference entry) = room"
    and "res_map (read_page env) (re_pages entry) = Inr ps"
    and "steady (re_last_accessed entry) requests"
    and "k \<le> length ps" and "length ps < 2 ^ 64"
    and "requests \<noteq> []" and "length ps - k \<le> length requests"
  shows "read_result env room result_id (of_nat k) requests entries = Inr (numbered k (drop k ps), True)"
  using assms
proof (induction requests arbitrary: k entries entry)
  case Nil
  then show ?case by simp
next
  case (Cons request requests)
  obtain limit now where request: "request = (limit, now)" by (cases request)
  define j where "j = min (k + min (max limit 1) 256) (length ps)"
  from result_pages_window [OF Cons.prems(1,2) _ Cons.prems(3,5,6) j_def, of now] Cons.prems(4)
  obtain entries' where w: "result_pages env room result_id (of_nat k) limit now entries =
             (entries', Inr \<lparr>rgs_result_id = result_id, rgs_pages = numbered k (take (j - k) (drop k ps)),
                        rgs_next_seq = of_nat j, rgs_done = (j = length ps)\<rparr>)"
      and e': "map_of entries' result_id = Some (entry\<lparr>re_last_accessed := now\<rparr>)"
    by (auto simp: request)
  have j: "k \<le> j" "j \<le> length ps" "j = length ps \<or> k < j"
    using Cons.prems(5) by (auto simp: j_def)
  show ?case
  proof (cases "j = length ps")
    case True
    with w j show ?thesis by (simp add: request)
  next
    case False
    with j have more: "k < j" "j < length ps" by auto
    have "read_result env room result_id (of_nat j) requests entries' = Inr (numbered j (drop j ps), True)"
    proof (rule Cons.IH [OF e'])
      show "requests \<noteq> []" "length ps - j \<le> length requests"
        using Cons.prems(8) more by auto
    qed (use Cons.prems j request in simp_all)
    moreover have "numbered k (drop k ps) = numbered k (take (j - k) (drop k ps)) @ numbered j (drop j ps)"
    proof -
      have "drop k ps = take (j - k) (drop k ps) @ drop j ps"
        using j(1) by (metis append_take_drop_id drop_drop le_add_diff_inverse2)
      moreover have "k + length (take (j - k) (drop k ps)) = j" using more by simp
      ultimately show ?thesis using numbered_append by metis
    qed
    ultimately show ?thesis using w False by (simp add: request)
  qed
qed

text \<open>What is spilled is what a later read decrypts and decodes.\<close>

definition spills_read_back :: "'s result_env \<Rightarrow> bool" where
  "spills_read_back env =
     (\<forall>p encoded s. rv_encode env p = Inr encoded \<longrightarrow> rv_spill env encoded = Inr s \<longrightarrow>
        rv_read_spill env s = Inr p)"

lemma store_pages_read:
  "spills_read_back env \<Longrightarrow> store_pages env memory pages = Inr stored \<Longrightarrow>
     res_map (read_page env) stored = Inr pages"
proof (induction pages arbitrary: memory stored)
  case Nil
  then show ?case by simp
next
  case (Cons p pages)
  from Cons.prems(2) Cons.IH [OF Cons.prems(1)] Cons.prems(1) show ?case
    by (auto simp: res_bind_Inr_conv read_page_def spills_read_back_def split: if_splits)
qed


text \<open>An environment that spills every page: its encoding exceeds the memory budget.\<close>

definition demo_result_env :: "nat result_env" where
  "demo_result_env =
     \<lparr>rv_encode = (\<lambda>p. if p = PageRows [] then Inr (replicate (Suc result_memory_bytes) 0)
                       else Inl ApiServiceDraining),
      rv_spill = (\<lambda>_. Inr 0),
      rv_read_spill = (\<lambda>_. Inr (PageRows [])),
      rv_schema_digest = (\<lambda>_. []), rv_error_text = (\<lambda>_. [])\<rparr>"

definition demo_new_result :: new_room_result where
  "demo_new_result = \<lparr>nr_room_id = 7, nr_actor_principal_id = 1, nr_connection_profile_id = None,
     nr_pages = [PageRows [], PageRows []], nr_row_count = None, nr_error_message = None,
     nr_retention_guards = []\<rparr>"


end
