(* ===== verification/Authorization.thy ===== *)
theory Authorization
  imports Sift_Protocol
begin

text \<open>
  Who may do what: the operation kinds of \<^verbatim>\<open>crates/protocol/src/capability.rs\<close>, the roles and
  connection policies of \<^verbatim>\<open>crates/protocol/src/policy.rs\<close> and the evaluator of
  \<^verbatim>\<open>crates/server/src/authorization.rs\<close>. An operation kind is its wire name; the enumeration's
  131 members are \<open>all_operations\<close>.
\<close>

section \<open>Operations, roles and policies\<close>

type_synonym operation_kind = string

definition all_operations :: "operation_kind list" where
  "all_operations =
     [''authenticate'', ''refresh_auth_session'', ''logout'', ''change_password'',
      ''manage_principal'', ''manage_github_allowlist'', ''manage_principal_key'',
      ''manage_tenant_invitation'', ''manage_connection_policy'',
      ''manage_tenant_limits'', ''manage_extension'', ''manage_instance_configuration'',
      ''backup_state'', ''inspect_metadata'', ''read_metrics'', ''restore_state'',
      ''invoke_extension'', ''approve_operation'', ''open_session'', ''list_sessions'',
      ''list_available_operations'', ''close_session'', ''open_connection'',
      ''close_connection'', ''ping_connection'', ''refresh_schema'',
      ''read_catalog_graph'', ''project_catalog_diagram'', ''create_catalog_snapshot'',
      ''list_catalog_snapshots'', ''get_catalog_snapshot'', ''delete_catalog_snapshot'',
      ''compare_catalog_schemas'', ''preview_migration'', ''apply_migration'',
      ''cancel_migration'', ''get_migration_run'', ''start_comparison'',
      ''page_comparison'', ''cancel_comparison'', ''prepare_comparison_patch'',
      ''capture_semantic_plan'', ''list_plan_captures'', ''save_benchmark_run'',
      ''list_benchmark_runs'', ''get_benchmark_run'', ''delete_benchmark_run'',
      ''save_benchmark_definition'', ''list_benchmark_definitions'',
      ''get_benchmark_definition'', ''update_benchmark_definition'',
      ''delete_benchmark_definition'', ''run_benchmark_definition'', ''get_plan_capture'',
      ''compare_plan_captures'', ''delete_plan_capture'', ''generate_ddl'',
      ''execute_query'', ''export_query'', ''complete'', ''open_semantic_document'',
      ''update_semantic_document'', ''close_semantic_document'', ''select_statement'',
      ''diagnose_sql'', ''format_sql'', ''sql_quick_fix'', ''find_sql_usages'',
      ''prepare_sql_refactor'', ''listen'', ''cancel_query'', ''preview_edits'',
      ''apply_edits'', ''search_schema'', ''search_data'', ''explain'', ''profile_query'',
      ''cancel_profile'', ''benchmark_query'', ''cancel_benchmark'',
      ''read_server_dashboard'', ''list_processes'', ''list_deadlocks'',
      ''list_postgres_settings'', ''list_postgres_objects'',
      ''read_postgres_replication'', ''read_postgres_statistics'',
      ''preview_postgres_object'', ''apply_postgres_object'', ''read_query_store'',
      ''read_agent_jobs'', ''read_sql_server_settings'', ''read_sql_server_security'',
      ''preview_sql_server_security'', ''apply_sql_server_security'', ''kill_process'',
      ''import_csv'', ''bulk_insert'', ''manage_sqlite_database'', ''begin_transaction'',
      ''list_transactions'', ''preview_transaction'', ''commit_transaction'',
      ''rollback_transaction'', ''savepoint'', ''rollback_to_savepoint'',
      ''release_savepoint'', ''metadata'', ''attach_room'', ''detach_room'',
      ''apply_document_update'', ''read_shared_result'', ''read_workspace'',
      ''manage_workspace'', ''read_workspace_history'', ''restore_workspace'',
      ''bind_workspace_projection'', ''manage_workspace_projection'', ''read_vcs'',
      ''write_vcs'', ''read_ddl_source'', ''manage_ddl_source'',
      ''read_run_configuration'', ''manage_run_configuration'', ''execute_run'',
      ''read_run'', ''manage_schedule'', ''read_schedule'', ''manage_transfer_recipe'',
      ''read_transfer_recipe'', ''execute_transfer_recipe'']"

datatype tenant_role = RoleOwner | RoleAdmin | RoleMember | RoleViewer

fun role_rank :: "tenant_role \<Rightarrow> nat" where
  "role_rank RoleViewer = 0"
| "role_rank RoleMember = 1"
| "role_rank RoleAdmin = 2"
| "role_rank RoleOwner = 3"

definition role_satisfies :: "tenant_role \<Rightarrow> tenant_role \<Rightarrow> bool" where
  "role_satisfies role minimum = (role_rank minimum \<le> role_rank role)"

record schema_selector =
  ss_catalog :: "string option"
  ss_schema :: string

record connection_policy =
  cp_minimum_tenant_role :: tenant_role
  cp_read_only :: bool
  cp_allowed_ops :: "operation_kind list option"
  cp_blocked_ops :: "operation_kind list"
  cp_allowed_schemas :: "schema_selector list option"
  cp_revision :: u64

definition connection_policy_default :: connection_policy where
  "connection_policy_default =
     \<lparr> cp_minimum_tenant_role = RoleMember, cp_read_only = False, cp_allowed_ops = None,
       cp_blocked_ops = [], cp_allowed_schemas = None, cp_revision = 0 \<rparr>"

section \<open>The evaluator\<close>

datatype room_role = RoomOwner | RoomEditor | RoomViewer

record authorization_scope =
  as_authenticated :: bool
  as_trusted_local :: bool
  as_instance_admin :: bool
  as_tenant_role :: "tenant_role option"
  as_room_role :: "room_role option"
  as_connection_policy :: "connection_policy option"

definition trusted_local_scope :: authorization_scope where
  "trusted_local_scope =
     \<lparr> as_authenticated = True, as_trusted_local = True, as_instance_admin = False,
       as_tenant_role = None, as_room_role = None, as_connection_policy = None \<rparr>"

datatype authorization_denial =
    AuthenticationRequired
  | InstanceAdminRequired
  | TenantAdminRequired
  | TenantMemberRequired
  | TenantRoleTooLow
  | RoomOwnerRequired
  | RoomEditorRequired
  | OperationNotAllowed
  | OperationBlocked

definition public_reason :: "authorization_denial \<Rightarrow> string" where
  "public_reason d =
     (case d of
        AuthenticationRequired \<Rightarrow> ''authentication required''
      | InstanceAdminRequired \<Rightarrow> ''instance administrator context required''
      | TenantAdminRequired \<Rightarrow> ''tenant administrator context required''
      | TenantMemberRequired \<Rightarrow> ''tenant membership required''
      | TenantRoleTooLow \<Rightarrow> ''tenant role cannot use this connection profile''
      | RoomOwnerRequired \<Rightarrow> ''room owner context required''
      | RoomEditorRequired \<Rightarrow> ''room editor context required''
      | OperationNotAllowed \<Rightarrow> ''operation is not allowed by connection policy''
      | OperationBlocked \<Rightarrow> ''operation is blocked by connection policy'')"

definition instance_operations :: "operation_kind list" where
  "instance_operations =
     [''manage_principal'', ''manage_github_allowlist'', ''manage_principal_key'',
      ''manage_tenant_limits'', ''manage_instance_configuration'', ''backup_state'',
      ''inspect_metadata'', ''read_metrics'', ''restore_state'']"

definition room_editor_operations :: "operation_kind list" where
  "room_editor_operations =
     [''apply_document_update'', ''manage_workspace'', ''restore_workspace'',
      ''bind_workspace_projection'', ''manage_workspace_projection'', ''write_vcs'',
      ''manage_ddl_source'', ''manage_run_configuration'', ''execute_run'',
      ''manage_schedule'', ''manage_transfer_recipe'', ''execute_transfer_recipe'']"

definition connection_operations :: "operation_kind list" where
  "connection_operations =
     [''open_connection'', ''close_connection'', ''ping_connection'', ''refresh_schema'',
      ''read_catalog_graph'', ''project_catalog_diagram'', ''create_catalog_snapshot'',
      ''compare_catalog_schemas'', ''preview_migration'', ''apply_migration'',
      ''cancel_migration'', ''get_migration_run'', ''start_comparison'',
      ''prepare_comparison_patch'', ''capture_semantic_plan'', ''generate_ddl'',
      ''execute_query'', ''export_query'', ''complete'', ''open_semantic_document'',
      ''update_semantic_document'', ''close_semantic_document'', ''select_statement'',
      ''diagnose_sql'', ''format_sql'', ''sql_quick_fix'', ''find_sql_usages'',
      ''prepare_sql_refactor'', ''listen'', ''cancel_query'', ''preview_edits'',
      ''apply_edits'', ''search_schema'', ''search_data'', ''explain'', ''profile_query'',
      ''cancel_profile'', ''benchmark_query'', ''cancel_benchmark'',
      ''read_server_dashboard'', ''list_processes'', ''list_deadlocks'',
      ''list_postgres_settings'', ''list_postgres_objects'',
      ''read_postgres_replication'', ''read_postgres_statistics'',
      ''preview_postgres_object'', ''apply_postgres_object'', ''read_query_store'',
      ''read_agent_jobs'', ''read_sql_server_settings'', ''read_sql_server_security'',
      ''preview_sql_server_security'', ''apply_sql_server_security'', ''kill_process'',
      ''import_csv'', ''bulk_insert'', ''manage_sqlite_database'', ''begin_transaction'',
      ''list_transactions'', ''preview_transaction'', ''commit_transaction'',
      ''rollback_transaction'', ''savepoint'', ''rollback_to_savepoint'',
      ''release_savepoint'', ''execute_run'']"

definition is_connection_operation :: "operation_kind \<Rightarrow> bool" where
  "is_connection_operation operation = (operation \<in> set connection_operations)"

text \<open>The policy part, for a scope that carries one.\<close>

definition authorize_policy ::
  "authorization_scope \<Rightarrow> connection_policy \<Rightarrow> operation_kind \<Rightarrow> (authorization_denial, unit) result" where
  "authorize_policy scope policy operation =
     (case (case as_tenant_role scope of
              Some role \<Rightarrow> Some role
            | None \<Rightarrow> if as_trusted_local scope then Some RoleOwner else None) of
        None \<Rightarrow> Inl TenantMemberRequired
      | Some role \<Rightarrow>
          (if \<not> role_satisfies role (cp_minimum_tenant_role policy) then Inl TenantRoleTooLow
           else if operation \<in> set (cp_blocked_ops policy) then Inl OperationBlocked
           else if (case cp_allowed_ops policy of Some allowed \<Rightarrow> operation \<notin> set allowed | None \<Rightarrow> False)
           then Inl OperationNotAllowed
           else Inr ()))"

text \<open>The part that applies to operations on a connection.\<close>

definition authorize_connection ::
  "authorization_scope \<Rightarrow> operation_kind \<Rightarrow> (authorization_denial, unit) result" where
  "authorize_connection scope operation =
     (if (case as_tenant_role scope of
            Some role \<Rightarrow> role = RoleViewer
          | None \<Rightarrow> as_connection_policy scope \<noteq> None \<and> \<not> as_trusted_local scope)
      then Inl TenantMemberRequired
      else if as_room_role scope = Some RoomViewer then Inl RoomEditorRequired
      else case as_connection_policy scope of
             Some policy \<Rightarrow> authorize_policy scope policy operation
           | None \<Rightarrow> Inr ())"

definition authorize ::
  "authorization_scope \<Rightarrow> operation_kind \<Rightarrow> (authorization_denial, unit) result" where
  "authorize scope operation =
     (if \<not> as_authenticated scope then Inl AuthenticationRequired
      else if operation \<in> set instance_operations \<and> \<not> as_instance_admin scope
      then Inl InstanceAdminRequired
      else if operation \<in> set [''manage_tenant_invitation'', ''manage_connection_policy'']
              \<and> as_tenant_role scope \<notin> {Some RoleOwner, Some RoleAdmin}
      then Inl TenantAdminRequired
      else if operation \<in> set [''bind_workspace_projection'', ''manage_schedule'']
              \<and> as_room_role scope \<noteq> Some RoomOwner \<and> \<not> as_trusted_local scope
      then Inl RoomOwnerRequired
      else if operation \<in> set room_editor_operations \<and> as_room_role scope = Some RoomViewer
      then Inl RoomEditorRequired
      else if \<not> is_connection_operation operation then Inr ()
      else authorize_connection scope operation)"

datatype operation_classification =
    ClassRead | ClassExecuteRead | ClassWrite | ClassDestructive | ClassAdministrative

definition authorize_extension ::
  "authorization_scope \<Rightarrow> operation_classification \<Rightarrow> (authorization_denial, unit) result" where
  "authorize_extension scope classification =
     (case classification of
        ClassAdministrative \<Rightarrow>
          (if \<not> as_authenticated scope then Inl AuthenticationRequired
           else if as_instance_admin scope then Inr () else Inl InstanceAdminRequired)
      | ClassRead \<Rightarrow> authorize scope ''refresh_schema''
      | ClassExecuteRead \<Rightarrow> authorize scope ''execute_query''
      | _ \<Rightarrow> authorize scope ''apply_edits'')"

section \<open>More authority allows more\<close>

text \<open>A policy is weaker when it demands no higher role, blocks no more and allows no less.\<close>

definition policy_weaker :: "connection_policy option \<Rightarrow> connection_policy option \<Rightarrow> bool" where
  "policy_weaker p q \<longleftrightarrow>
     (case (p, q) of
        (None, None) \<Rightarrow> True
      | (Some p, Some q) \<Rightarrow>
          role_rank (cp_minimum_tenant_role q) \<le> role_rank (cp_minimum_tenant_role p)
          \<and> set (cp_blocked_ops q) \<subseteq> set (cp_blocked_ops p)
          \<and> (case (cp_allowed_ops p, cp_allowed_ops q) of
               (_, None) \<Rightarrow> True
             | (Some a, Some b) \<Rightarrow> set a \<subseteq> set b
             | _ \<Rightarrow> False)
      | _ \<Rightarrow> False)"

fun room_rank :: "room_role \<Rightarrow> nat" where
  "room_rank RoomViewer = 0"
| "room_rank RoomEditor = 1"
| "room_rank RoomOwner = 2"

definition ranked :: "('r \<Rightarrow> nat) \<Rightarrow> 'r option \<Rightarrow> 'r option \<Rightarrow> bool" where
  "ranked rank x y \<longleftrightarrow>
     (case (x, y) of (None, None) \<Rightarrow> True | (Some a, Some b) \<Rightarrow> rank a \<le> rank b | _ \<Rightarrow> False)"

definition at_least :: "authorization_scope \<Rightarrow> authorization_scope \<Rightarrow> bool" where
  "at_least weak strong \<longleftrightarrow>
     (as_authenticated weak \<longrightarrow> as_authenticated strong)
     \<and> (as_trusted_local weak \<longrightarrow> as_trusted_local strong)
     \<and> (as_instance_admin weak \<longrightarrow> as_instance_admin strong)
     \<and> ranked role_rank (as_tenant_role weak) (as_tenant_role strong)
     \<and> ranked room_rank (as_room_role weak) (as_room_role strong)
     \<and> policy_weaker (as_connection_policy weak) (as_connection_policy strong)"

lemma role_rank_cases:
  "role_rank r = 0 \<longleftrightarrow> r = RoleViewer" "2 \<le> role_rank r \<longleftrightarrow> r = RoleOwner \<or> r = RoleAdmin"
  "role_rank r \<le> 3"
  by (cases r; simp)+

lemma room_rank_cases: "room_rank r = 0 \<longleftrightarrow> r = RoomViewer" "2 \<le> room_rank r \<longleftrightarrow> r = RoomOwner"
  by (cases r; simp)+

lemma ranked_none: "ranked rank x y \<Longrightarrow> x = None \<longleftrightarrow> y = None"
  by (auto simp: ranked_def split: option.splits)

lemma ranked_above: "ranked rank (Some a) y \<Longrightarrow> \<exists>b. y = Some b \<and> rank a \<le> rank b"
  by (auto simp: ranked_def split: option.splits)

lemma at_least_ranked:
  assumes "at_least w s"
  shows "ranked role_rank (as_tenant_role w) (as_tenant_role s)"
    and "ranked room_rank (as_room_role w) (as_room_role s)"
  using assms by (simp_all add: at_least_def)

lemma at_least_admin:
  assumes "at_least w s" "as_tenant_role w \<in> {Some RoleOwner, Some RoleAdmin}"
  shows "as_tenant_role s \<in> {Some RoleOwner, Some RoleAdmin}"
proof -
  from assms(2) obtain a where a: "as_tenant_role w = Some a" "2 \<le> role_rank a"
    using role_rank_cases(2) by fastforce
  obtain b where "as_tenant_role s = Some b" "role_rank a \<le> role_rank b"
    using ranked_above at_least_ranked(1) [OF assms(1)] a(1) by metis
  then show ?thesis using role_rank_cases(2) [of b] a(2) by auto
qed

lemma at_least_room_owner:
  assumes "at_least w s" "as_room_role w = Some RoomOwner"
  shows "as_room_role s = Some RoomOwner"
proof -
  obtain b where "as_room_role s = Some b" "room_rank RoomOwner \<le> room_rank b"
    using ranked_above at_least_ranked(2) [OF assms(1)] assms(2) by metis
  then show ?thesis using room_rank_cases(2) [of b] by simp
qed

lemma at_least_viewer:
  assumes "at_least w s"
  shows "as_room_role s = Some RoomViewer \<Longrightarrow> as_room_role w = Some RoomViewer"
    and "as_tenant_role s = Some RoleViewer \<Longrightarrow> as_tenant_role w = Some RoleViewer"
  using at_least_ranked [OF assms] role_rank_cases(1) room_rank_cases(1)
  by (auto simp: ranked_def split: option.splits)

lemma authorize_policy_mono:
  assumes "at_least w s" "policy_weaker (Some p) (Some q)" "authorize_policy w p operation = Inr ()"
  shows "authorize_policy s q operation = Inr ()"
proof -
  let ?role = "\<lambda>x. case as_tenant_role x of Some role \<Rightarrow> Some role
     | None \<Rightarrow> if as_trusted_local x then Some RoleOwner else None"
  from assms(3) obtain r where r: "?role w = Some r" "role_satisfies r (cp_minimum_tenant_role p)"
    "operation \<notin> set (cp_blocked_ops p)"
    "\<not> (case cp_allowed_ops p of Some allowed \<Rightarrow> operation \<notin> set allowed | None \<Rightarrow> False)"
    unfolding authorize_policy_def by (auto split: option.splits if_splits)
  obtain r' where "?role s = Some r'" "role_rank r \<le> role_rank r'"
    using at_least_ranked(1) [OF assms(1)] assms(1) r(1)
    by (auto simp: at_least_def ranked_def split: option.splits if_splits)
  moreover have "role_rank (cp_minimum_tenant_role q) \<le> role_rank (cp_minimum_tenant_role p)"
    "operation \<notin> set (cp_blocked_ops q)"
    "\<not> (case cp_allowed_ops q of Some allowed \<Rightarrow> operation \<notin> set allowed | None \<Rightarrow> False)"
    using assms(2) r by (auto simp: policy_weaker_def split: option.splits)
  ultimately show ?thesis using r(2) by (simp add: authorize_policy_def role_satisfies_def)
qed

lemma authorize_connection_mono:
  assumes "at_least w s" "authorize_connection w operation = Inr ()"
  shows "authorize_connection s operation = Inr ()"
proof -
  have pol: "policy_weaker (as_connection_policy w) (as_connection_policy s)"
    and none: "as_tenant_role w = None \<longleftrightarrow> as_tenant_role s = None"
    and local: "as_trusted_local w \<longrightarrow> as_trusted_local s"
    using assms(1) ranked_none by (auto simp: at_least_def)
  have w: "\<not> (case as_tenant_role w of Some role \<Rightarrow> role = RoleViewer
          | None \<Rightarrow> as_connection_policy w \<noteq> None \<and> \<not> as_trusted_local w)"
    "as_room_role w \<noteq> Some RoomViewer"
    "\<And>p. as_connection_policy w = Some p \<Longrightarrow> authorize_policy w p operation = Inr ()"
    using assms(2) unfolding authorize_connection_def by (auto split: if_splits option.splits)
  have "\<not> (case as_tenant_role s of Some role \<Rightarrow> role = RoleViewer
          | None \<Rightarrow> as_connection_policy s \<noteq> None \<and> \<not> as_trusted_local s)"
    using w(1) none local pol at_least_viewer(2) [OF assms(1)]
    by (auto simp: policy_weaker_def split: option.splits)
  moreover have "as_room_role s \<noteq> Some RoomViewer" using w(2) at_least_viewer(1) [OF assms(1)] by blast
  moreover have "authorize_policy s q operation = Inr ()" if q: "as_connection_policy s = Some q" for q
  proof -
    obtain p where "as_connection_policy w = Some p"
      using pol q by (auto simp: policy_weaker_def split: option.splits)
    with authorize_policy_mono [OF assms(1)] pol q w(3) show ?thesis by metis
  qed
  ultimately show ?thesis by (simp add: authorize_connection_def split: option.splits)
qed

text \<open>
  Authority is monotone. An operation that a scope may perform is also allowed to every scope
  that has at least its authentication, locality, administrator flag, tenant role and room role
  under a policy that is no stricter: no check turns more authority into a denial.
\<close>

theorem authority_is_monotone:
  assumes "authorize weak operation = Inr ()" and "at_least weak strong"
  shows "authorize strong operation = Inr ()"
proof -
  have w: "as_authenticated weak"
    "operation \<in> set instance_operations \<Longrightarrow> as_instance_admin weak"
    "operation \<in> set [''manage_tenant_invitation'', ''manage_connection_policy''] \<Longrightarrow>
       as_tenant_role weak \<in> {Some RoleOwner, Some RoleAdmin}"
    "operation \<in> set [''bind_workspace_projection'', ''manage_schedule''] \<Longrightarrow>
       as_room_role weak = Some RoomOwner \<or> as_trusted_local weak"
    "operation \<in> set room_editor_operations \<Longrightarrow> as_room_role weak \<noteq> Some RoomViewer"
    "is_connection_operation operation \<Longrightarrow> authorize_connection weak operation = Inr ()"
    using assms(1) unfolding authorize_def by (metis sum.distinct(1))+
  have s: "as_authenticated strong" "as_instance_admin weak \<Longrightarrow> as_instance_admin strong"
    "as_trusted_local weak \<Longrightarrow> as_trusted_local strong"
    using assms(2) w(1) by (auto simp: at_least_def)
  have "operation \<in> set room_editor_operations \<Longrightarrow> as_room_role strong \<noteq> Some RoomViewer"
    using w(5) at_least_viewer(1) [OF assms(2)] by blast
  then show ?thesis
    unfolding authorize_def
    using s w(2-4) at_least_admin [OF assms(2)] at_least_room_owner [OF assms(2)]
      authorize_connection_mono [OF assms(2) w(6)] by presburger
qed

theorem authority_is_monotone_witness:
  "authorize \<lparr> as_authenticated = True, as_trusted_local = False, as_instance_admin = False,
       as_tenant_role = Some RoleAdmin, as_room_role = None,
       as_connection_policy = Some connection_policy_default \<rparr> ''execute_query'' = Inr ()"
proof (rule authority_is_monotone)
  show "authorize \<lparr> as_authenticated = True, as_trusted_local = False, as_instance_admin = False,
       as_tenant_role = Some RoleMember, as_room_role = None,
       as_connection_policy = Some connection_policy_default \<rparr> ''execute_query'' = Inr ()"
    by (simp add: authorize_def instance_operations_def room_editor_operations_def
        authorize_connection_def authorize_policy_def connection_policy_default_def role_satisfies_def)
qed (simp add: at_least_def ranked_def policy_weaker_def connection_policy_default_def)

end
