(* ===== verification/Sql_Policy.thy ===== *)
theory Sql_Policy
  imports Authorization
begin

text \<open>
  The SQL and object checks of restricted connection profiles,
  \<^verbatim>\<open>crates/server/src/sql_policy.rs\<close>. The sqlparser crate is the parameter \<open>sq_parse\<close>: for each
  statement it gives the shape \<open>is_read_only\<close> inspects and the calls its traversal makes to the
  relation visitor. Unicode lower-casing and trimming are parameters too.
\<close>

section \<open>What the parser delivers\<close>

record sql_ident =
  si_value :: string
  si_quoted :: bool    \<comment> \<open>\<^verbatim>\<open>quote_style.is_some()\<close>\<close>

datatype query_shape = QueryShape "query_shape list" set_expr_shape
    \<comment> \<open>the queries of the WITH clause and the body\<close>
and set_expr_shape =
    SetSelect bool   \<comment> \<open>whether it has an INTO clause\<close>
  | SetQuery query_shape
  | SetOperation set_expr_shape set_expr_shape
  | SetValues | SetTable | SetInsert | SetUpdate

datatype statement_shape =
    StatementQuery query_shape
  | StatementExplain bool statement_shape   \<comment> \<open>ANALYZE and the explained statement\<close>
  | StatementExplainTable
  | StatementShowVariable
  | StatementOther

datatype sql_visit =
    PreVisitQuery "sql_ident list"   \<comment> \<open>the names its WITH clause binds\<close>
  | PostVisitQuery
  | VisitRelation "sql_ident list"
  | VisitFunction "sql_ident list"

record parsed_statement =
  pt_shape :: statement_shape
  pt_visits :: "sql_visit list"

record sql_env =
  sq_parse :: "engine \<Rightarrow> string \<Rightarrow> (string, parsed_statement list) result"
  sq_lower :: "string \<Rightarrow> string"
  sq_trim :: "string \<Rightarrow> string"

section \<open>Names and selectors\<close>

definition normalize_name :: "sql_env \<Rightarrow> engine \<Rightarrow> string \<Rightarrow> string" where
  "normalize_name env engine value =
     (case engine of Postgres \<Rightarrow> sq_lower env value
      | SqlServer \<Rightarrow> sq_lower env value | Sqlite \<Rightarrow> sq_lower env value)"

definition normalize_selector :: "sql_env \<Rightarrow> engine \<Rightarrow> string \<Rightarrow> string" where
  "normalize_selector env engine value =
     (case engine of Postgres \<Rightarrow> value
      | SqlServer \<Rightarrow> sq_lower env value | Sqlite \<Rightarrow> sq_lower env value)"

definition normalize_ident :: "sql_env \<Rightarrow> engine \<Rightarrow> sql_ident \<Rightarrow> string" where
  "normalize_ident env engine ident =
     (if engine = Postgres \<and> si_quoted ident then si_value ident
      else normalize_name env engine (si_value ident))"

definition selector_allows ::
  "sql_env \<Rightarrow> schema_selector list \<Rightarrow> engine \<Rightarrow> string option \<Rightarrow> string \<Rightarrow> bool" where
  "selector_allows env selectors engine catalog schema =
     list_ex (\<lambda>selector.
       normalize_selector env engine (ss_schema selector) = normalize_selector env engine schema
       \<and> (case (ss_catalog selector, catalog) of
            (None, _) \<Rightarrow> True
          | (Some expected, Some actual) \<Rightarrow>
              normalize_selector env engine expected = normalize_selector env engine actual
          | _ \<Rightarrow> False)) selectors"

section \<open>The relation visitor\<close>

text \<open>The visitor's scopes, innermost first; the code pushes to and pops from the other end.\<close>

type_synonym cte_scopes = "string set list"

definition relation_allowed ::
  "sql_env \<Rightarrow> engine \<Rightarrow> schema_selector list \<Rightarrow> cte_scopes \<Rightarrow> sql_ident list \<Rightarrow> bool" where
  "relation_allowed env engine selectors scopes relation =
     (case relation of
        [name] \<Rightarrow> list_ex (\<lambda>scope. normalize_ident env engine name \<in> scope) scopes
      | [schema, _] \<Rightarrow> selector_allows env selectors engine None (normalize_ident env engine schema)
      | [catalog, schema, _] \<Rightarrow>
          selector_allows env selectors engine (Some (normalize_ident env engine catalog))
            (normalize_ident env engine schema)
      | _ \<Rightarrow> False)"

definition function_allowed ::
  "sql_env \<Rightarrow> engine \<Rightarrow> schema_selector list \<Rightarrow> sql_ident list \<Rightarrow> bool" where
  "function_allowed env engine selectors parts =
     (case parts of
        [schema, _] \<Rightarrow> selector_allows env selectors engine None (normalize_ident env engine schema)
      | [catalog, schema, _] \<Rightarrow>
          selector_allows env selectors engine (Some (normalize_ident env engine catalog))
            (normalize_ident env engine schema)
      | _ \<Rightarrow> length parts \<le> 3)"

text \<open>One callback; \<open>None\<close> is \<^verbatim>\<open>ControlFlow::Break\<close>.\<close>

definition visit_step ::
  "sql_env \<Rightarrow> engine \<Rightarrow> schema_selector list \<Rightarrow> cte_scopes \<Rightarrow> sql_visit \<Rightarrow> cte_scopes option" where
  "visit_step env engine selectors scopes v =
     (case v of
        PreVisitQuery names \<Rightarrow> Some (normalize_ident env engine ` set names # scopes)
      | PostVisitQuery \<Rightarrow> Some (tl scopes)
      | VisitRelation relation \<Rightarrow>
          (if relation_allowed env engine selectors scopes relation then Some scopes else None)
      | VisitFunction parts \<Rightarrow>
          (if function_allowed env engine selectors parts then Some scopes else None))"

fun visit_all ::
  "sql_env \<Rightarrow> engine \<Rightarrow> schema_selector list \<Rightarrow> cte_scopes \<Rightarrow> sql_visit list \<Rightarrow> cte_scopes option" where
  "visit_all env engine selectors scopes [] = Some scopes"
| "visit_all env engine selectors scopes (v # vs) =
     (case visit_step env engine selectors scopes v of
        None \<Rightarrow> None
      | Some scopes \<Rightarrow> visit_all env engine selectors scopes vs)"

section \<open>Read-only statements\<close>

fun query_is_read_only :: "query_shape \<Rightarrow> bool"
  and set_expr_is_read_only :: "set_expr_shape \<Rightarrow> bool" where
  "query_is_read_only (QueryShape ctes body) =
     (list_all query_is_read_only ctes \<and> set_expr_is_read_only body)"
| "set_expr_is_read_only (SetSelect into) = (\<not> into)"
| "set_expr_is_read_only (SetQuery query) = query_is_read_only query"
| "set_expr_is_read_only (SetOperation left right) =
     (set_expr_is_read_only left \<and> set_expr_is_read_only right)"
| "set_expr_is_read_only SetValues = True"
| "set_expr_is_read_only SetTable = True"
| "set_expr_is_read_only SetInsert = False"
| "set_expr_is_read_only SetUpdate = False"

fun is_read_only :: "statement_shape \<Rightarrow> bool" where
  "is_read_only (StatementQuery query) = query_is_read_only query"
| "is_read_only (StatementExplain analyze statement) = (\<not> analyze \<and> is_read_only statement)"
| "is_read_only StatementExplainTable = True"
| "is_read_only StatementShowVariable = True"
| "is_read_only StatementOther = False"

section \<open>Enforcement\<close>

definition ascii_upper_char :: "char \<Rightarrow> char" where
  "ascii_upper_char c =
     (let n = of_char c :: nat in if 97 \<le> n \<and> n \<le> 122 then char_of (n - 32) else c)"

definition is_showplan :: "sql_env \<Rightarrow> operation_kind \<Rightarrow> string \<Rightarrow> bool" where
  "is_showplan env operation sql \<longleftrightarrow>
     operation = ''explain''
     \<and> map ascii_upper_char (sq_trim env sql) \<in> {''SET SHOWPLAN_XML ON'', ''SET SHOWPLAN_XML OFF''}"

definition enforce_sql ::
  "sql_env \<Rightarrow> connection_policy \<Rightarrow> engine \<Rightarrow> operation_kind \<Rightarrow> string \<Rightarrow> (api_error, unit) result" where
  "enforce_sql env policy engine operation sql =
     (if \<not> cp_read_only policy \<and> cp_allowed_schemas policy = None then Inr ()
      else case sq_parse env engine sql of
        Inl _ \<Rightarrow> Inl (ApiForbidden ''restricted connection requires classifiable SQL'')
      | Inr statements \<Rightarrow>
          (if statements = []
           then Inl (ApiForbidden ''restricted connection rejects an empty SQL request'')
           else if cp_read_only policy \<and> \<not> is_showplan env operation sql
                   \<and> list_ex (\<lambda>s. \<not> is_read_only (pt_shape s)) statements
           then Inl (ApiForbidden ''connection profile is read-only'')
           else case cp_allowed_schemas policy of
             None \<Rightarrow> Inr ()
           | Some selectors \<Rightarrow>
               (if visit_all env engine selectors [] (concat (map pt_visits statements)) = None
                then Inl (ApiForbidden ''SQL references a schema outside the connection policy'')
                else Inr ())))"

definition is_structured_write :: "operation_kind \<Rightarrow> bool" where
  "is_structured_write operation \<longleftrightarrow>
     operation \<in> set [''apply_edits'', ''apply_postgres_object'', ''kill_process'', ''import_csv'',
                      ''bulk_insert'', ''manage_sqlite_database'']"

definition enforce_object ::
  "sql_env \<Rightarrow> schema_selector list \<Rightarrow> engine \<Rightarrow> object_path \<Rightarrow> (api_error, unit) result" where
  "enforce_object env selectors engine object =
     res_bind (ok_or (ApiForbidden ''schema-restricted operations require a qualified object'')
                 (op_schema object)) (\<lambda>schema.
       if selector_allows env selectors engine (op_catalog object) schema then Inr ()
       else Inl (ApiForbidden ''object schema is outside the connection policy''))"

definition inspection_operations :: "operation_kind list" where
  "inspection_operations =
     [''read_query_store'', ''read_agent_jobs'', ''read_sql_server_settings'',
      ''read_postgres_replication'', ''read_postgres_statistics'']"

definition workbench_operations :: "operation_kind list" where
  "workbench_operations =
     [''list_postgres_objects'', ''preview_postgres_object'', ''apply_postgres_object'']"

definition enforce ::
  "sql_env \<Rightarrow> connection_policy \<Rightarrow> engine option \<Rightarrow> operation_kind \<Rightarrow> string option \<Rightarrow>
   object_path list \<Rightarrow> (api_error, unit) result" where
  "enforce env policy engine operation sql objects =
     (if operation \<in> set inspection_operations then
        (if cp_allowed_schemas policy \<noteq> None
         then Inl (ApiForbidden
           ''server-wide inspection is unavailable for schema-restricted connection profiles'')
         else Inr ())
      else if operation \<in> set workbench_operations \<and> cp_allowed_schemas policy \<noteq> None
      then Inl (ApiForbidden
        ''PostgreSQL object workbench is unavailable for schema-restricted connection profiles'')
      else if cp_read_only policy \<and> is_structured_write operation
      then Inl (ApiForbidden ''connection profile is read-only'')
      else res_bind
        (case sql of
           None \<Rightarrow> Inr ()
         | Some text \<Rightarrow>
             (if \<not> cp_read_only policy \<and> cp_allowed_schemas policy = None then Inr ()
              else res_bind (ok_or (ApiForbidden
                       ''restricted connection requires a supported semantic dialect'') engine)
                     (\<lambda>e. enforce_sql env policy e operation text)))
        (\<lambda>_. case cp_allowed_schemas policy of
               None \<Rightarrow> Inr ()
             | Some selectors \<Rightarrow>
                 res_bind (ok_or (ApiForbidden
                     ''schema-restricted operations require a supported semantic dialect'') engine)
                   (\<lambda>e. res_bind (res_map (enforce_object env selectors e) objects) (\<lambda>_. Inr ()))))"

definition enforce_ai_select ::
  "sql_env \<Rightarrow> connection_policy \<Rightarrow> engine \<Rightarrow> string \<Rightarrow> (api_error, unit) result" where
  "enforce_ai_select env policy engine sql =
     (case sq_parse env engine sql of
        Inl _ \<Rightarrow> Inl (ApiForbidden ''AI SELECT requires classifiable SQL'')
      | Inr statements \<Rightarrow>
          (case map pt_shape statements of
             [StatementQuery _] \<Rightarrow>
               enforce_sql env (policy\<lparr> cp_read_only := True \<rparr>) engine ''execute_query'' sql
           | _ \<Rightarrow> Inl (ApiForbidden ''AI SELECT requires exactly one query statement'')))"

section \<open>Statements as trees\<close>

text \<open>
  The traversal of a statement: a query visits the bodies of its common table expressions in
  order, then its own body, between its two callbacks.
\<close>

datatype sql_tree =
    TreeQuery bool "sql_cte list" "sql_tree list"   \<comment> \<open>RECURSIVE, the WITH clause, the body\<close>
  | TreeRelation "sql_ident list"
  | TreeFunction "sql_ident list"
and sql_cte = Cte (cte_name: sql_ident) "sql_tree list"

fun tree_visits :: "sql_tree \<Rightarrow> sql_visit list" and cte_visits :: "sql_cte \<Rightarrow> sql_visit list" where
  "tree_visits (TreeQuery rec ctes body) =
     PreVisitQuery (map cte_name ctes) # concat (map cte_visits ctes) @ concat (map tree_visits body)
       @ [PostVisitQuery]"
| "tree_visits (TreeRelation r) = [VisitRelation r]"
| "tree_visits (TreeFunction f) = [VisitFunction f]"
| "cte_visits (Cte n body) = concat (map tree_visits body)"

text \<open>
  The relations of a tree that are not common table expressions in scope. SQL puts the names of a
  WITH clause in scope of the query's body, of the later expressions of the clause and, when
  it is RECURSIVE, of all of them; \<open>all_recursive\<close> reads every clause as RECURSIVE.
\<close>

fun base_relations ::
  "bool \<Rightarrow> (sql_ident \<Rightarrow> string) \<Rightarrow> string set \<Rightarrow> sql_tree \<Rightarrow> sql_ident list list"
  and cte_base_relations ::
  "bool \<Rightarrow> (sql_ident \<Rightarrow> string) \<Rightarrow> bool \<Rightarrow> string set \<Rightarrow> sql_cte list \<Rightarrow> sql_ident list list" where
  "base_relations all_recursive norm scope (TreeQuery rec ctes body) =
     (let names = norm ` cte_name ` set ctes; inner = names \<union> scope
      in cte_base_relations all_recursive norm (rec \<or> all_recursive)
           (if rec \<or> all_recursive then inner else scope) ctes
         @ concat (map (base_relations all_recursive norm inner) body))"
| "base_relations all_recursive norm scope (TreeRelation r) =
     (case r of [n] \<Rightarrow> if norm n \<in> scope then [] else [r] | _ \<Rightarrow> [r])"
| "base_relations all_recursive norm scope (TreeFunction f) = []"
| "cte_base_relations all_recursive norm grown scope [] = []"
| "cte_base_relations all_recursive norm grown scope (Cte n body # ctes) =
     concat (map (base_relations all_recursive norm scope) body)
     @ cte_base_relations all_recursive norm grown (if grown then scope else insert (norm n) scope) ctes"

fun tree_functions :: "sql_tree \<Rightarrow> sql_ident list list"
  and cte_functions :: "sql_cte \<Rightarrow> sql_ident list list" where
  "tree_functions (TreeQuery rec ctes body) =
     concat (map cte_functions ctes) @ concat (map tree_functions body)"
| "tree_functions (TreeRelation r) = []"
| "tree_functions (TreeFunction f) = [f]"
| "cte_functions (Cte n body) = concat (map tree_functions body)"

lemma visit_all_append:
  "visit_all env engine selectors scopes (vs @ ws) =
     (case visit_all env engine selectors scopes vs of
        None \<Rightarrow> None | Some scopes \<Rightarrow> visit_all env engine selectors scopes ws)"
  by (induction vs arbitrary: scopes) (auto split: option.splits)

lemma visit_concat:
  "(\<And>x. x \<in> set xs \<Longrightarrow> visit_all env engine selectors scopes (f x) = (if P x then Some scopes else None)) \<Longrightarrow>
   visit_all env engine selectors scopes (concat (map f xs)) =
     (if \<forall>x\<in>set xs. P x then Some scopes else None)"
  by (induction xs) (auto simp: visit_all_append)

text \<open>A relation the policy admits on its own, without a scope that binds it.\<close>

definition relations_ok ::
  "sql_env \<Rightarrow> engine \<Rightarrow> schema_selector list \<Rightarrow> sql_ident list list \<Rightarrow> bool" where
  "relations_ok env engine selectors rs = list_all (relation_allowed env engine selectors []) rs"

definition functions_ok ::
  "sql_env \<Rightarrow> engine \<Rightarrow> schema_selector list \<Rightarrow> sql_ident list list \<Rightarrow> bool" where
  "functions_ok env engine selectors fs = list_all (function_allowed env engine selectors) fs"

lemma ok_append [simp]:
  "relations_ok env engine selectors (rs @ rs') \<longleftrightarrow>
     relations_ok env engine selectors rs \<and> relations_ok env engine selectors rs'"
  "functions_ok env engine selectors (fs @ fs') \<longleftrightarrow>
     functions_ok env engine selectors fs \<and> functions_ok env engine selectors fs'"
  "relations_ok env engine selectors [] = True" "functions_ok env engine selectors [] = True"
  by (simp_all add: relations_ok_def functions_ok_def)

lemma ok_concat:
  "relations_ok env engine selectors (concat (map f xs)) \<longleftrightarrow>
     (\<forall>x\<in>set xs. relations_ok env engine selectors (f x))"
  "functions_ok env engine selectors (concat (map f xs)) \<longleftrightarrow>
     (\<forall>x\<in>set xs. functions_ok env engine selectors (f x))"
  by (induction xs) auto

lemma relation_in_scope:
  "relation_allowed env engine selectors scopes r \<longleftrightarrow>
   relations_ok env engine selectors
     (base_relations all_recursive (normalize_ident env engine) (\<Union> (set scopes)) (TreeRelation r))"
  by (cases r rule: list.exhaust [case_product list.exhaust])
    (auto simp: relation_allowed_def relations_ok_def list_ex_iff split: list.splits)

lemma cte_base_relations_all:
  "cte_base_relations True norm True scope ctes =
     concat (map (\<lambda>c. case c of Cte n body \<Rightarrow> concat (map (base_relations True norm scope) body)) ctes)"
  by (induction ctes) (auto split: sql_cte.splits)

definition tree_ok ::
  "sql_env \<Rightarrow> engine \<Rightarrow> schema_selector list \<Rightarrow> string set \<Rightarrow> sql_tree \<Rightarrow> bool" where
  "tree_ok env engine selectors scope t \<longleftrightarrow>
     relations_ok env engine selectors (base_relations True (normalize_ident env engine) scope t)
     \<and> functions_ok env engine selectors (tree_functions t)"

definition cte_ok ::
  "sql_env \<Rightarrow> engine \<Rightarrow> schema_selector list \<Rightarrow> string set \<Rightarrow> sql_cte \<Rightarrow> bool" where
  "cte_ok env engine selectors scope c \<longleftrightarrow>
     (case c of Cte n body \<Rightarrow> \<forall>t\<in>set body. tree_ok env engine selectors scope t)"

lemma tree_ok_query:
  "tree_ok env engine selectors scope (TreeQuery rec ctes body) \<longleftrightarrow>
     (let inner = normalize_ident env engine ` cte_name ` set ctes \<union> scope
      in (\<forall>c\<in>set ctes. cte_ok env engine selectors inner c)
         \<and> (\<forall>t\<in>set body. tree_ok env engine selectors inner t))"
proof -
  have "functions_ok env engine selectors (cte_functions c) \<longleftrightarrow>
      (case c of Cte n b \<Rightarrow> \<forall>t\<in>set b. functions_ok env engine selectors (tree_functions t))" for c
    by (cases c) (simp add: ok_concat)
  moreover have "relations_ok env engine selectors
       (case c of Cte n b \<Rightarrow> concat (map (base_relations True norm inner) b)) \<longleftrightarrow>
      (case c of Cte n b \<Rightarrow> \<forall>t\<in>set b. relations_ok env engine selectors (base_relations True norm inner t))"
    for c norm inner by (cases c) (simp add: ok_concat)
  ultimately show ?thesis
    by (auto simp: tree_ok_def cte_ok_def ok_concat cte_base_relations_all Let_def split: sql_cte.splits)
qed

lemma visit_tree:
  "visit_all env engine selectors scopes (tree_visits t) =
     (if tree_ok env engine selectors (\<Union> (set scopes)) t then Some scopes else None)"
  "visit_all env engine selectors scopes (cte_visits c) =
     (if cte_ok env engine selectors (\<Union> (set scopes)) c then Some scopes else None)"
proof (induction t and c arbitrary: scopes and scopes)
  case (TreeQuery rec ctes body)
  let ?inner = "normalize_ident env engine ` cte_name ` set ctes # scopes"
  have c: "visit_all env engine selectors ?inner (concat (map cte_visits ctes)) =
      (if \<forall>c\<in>set ctes. cte_ok env engine selectors (\<Union> (set ?inner)) c then Some ?inner else None)"
    by (rule visit_concat) (rule TreeQuery.IH(1))
  have b: "visit_all env engine selectors ?inner (concat (map tree_visits body)) =
      (if \<forall>t\<in>set body. tree_ok env engine selectors (\<Union> (set ?inner)) t then Some ?inner else None)"
    by (rule visit_concat) (rule TreeQuery.IH(2))
  show ?case using c b
    by (simp add: visit_step_def visit_all_append tree_ok_query Let_def)
next
  case (TreeRelation r)
  then show ?case
    by (simp add: visit_step_def tree_ok_def relation_in_scope [of _ _ _ _ _ True])
next
  case (TreeFunction f)
  then show ?case by (simp add: visit_step_def tree_ok_def functions_ok_def)
next
  case (Cte n body)
  have "visit_all env engine selectors scopes (concat (map tree_visits body)) =
      (if \<forall>t\<in>set body. tree_ok env engine selectors (\<Union> (set scopes)) t then Some scopes else None)"
    by (rule visit_concat) (rule Cte.IH)
  then show ?case by (simp add: cte_ok_def)
qed

lemma visits_accepted:
  assumes "\<forall>s\<in>set statements. pt_visits s = concat (map tree_visits (trees s))"
  shows "visit_all env engine selectors [] (concat (map pt_visits statements)) \<noteq> None \<longleftrightarrow>
    (\<forall>s\<in>set statements. \<forall>t\<in>set (trees s). tree_ok env engine selectors {} t)"
proof -
  have "visit_all env engine selectors [] (pt_visits s) =
      (if \<forall>t\<in>set (trees s). tree_ok env engine selectors {} t then Some [] else None)"
    if "s \<in> set statements" for s
    using visit_concat [of "trees s" env engine selectors "[]" tree_visits "tree_ok env engine selectors {}"]
      visit_tree(1) [of env engine selectors "[]"] assms that by simp
  from visit_concat [of statements env engine selectors "[]" pt_visits, OF this] show ?thesis by simp
qed


definition demo_ident :: "string \<Rightarrow> sql_ident" where
  "demo_ident n = \<lparr> si_value = n, si_quoted = False \<rparr>"

definition demo_tree :: "string \<Rightarrow> sql_tree" where
  "demo_tree schema = TreeQuery False [] [TreeRelation [demo_ident schema, demo_ident ''users'']]"

definition demo_sql_env :: "sql_tree \<Rightarrow> sql_env" where
  "demo_sql_env t =
     \<lparr> sq_parse = (\<lambda>e s. Inr [\<lparr> pt_shape = StatementQuery (QueryShape [] (SetSelect False)),
                               pt_visits = tree_visits t \<rparr>]),
       sq_lower = id, sq_trim = id \<rparr>"

definition demo_policy :: connection_policy where
  "demo_policy = connection_policy_default
     \<lparr> cp_read_only := True, cp_allowed_schemas := Some [\<lparr> ss_catalog = None, ss_schema = ''public'' \<rparr>] \<rparr>"


text \<open>
  C36: a WITH clause hides what it shadows. Under any list of allowed schemas, even the empty one, a
  query whose WITH clause binds a name in terms of the unqualified relation of the same name is
  admitted as read-only SQL, although in SQL that relation is a table outside every
  clause: the clause is not RECURSIVE, so its name is not in scope of its own expression.
\<close>

theorem shadowing_cte_reaches_any_table:
  assumes "cp_allowed_schemas policy = Some selectors"
    and "sq_parse env engine sql = Inr
      [\<lparr> pt_shape = StatementQuery (QueryShape [QueryShape [] (SetSelect False)] (SetSelect False)),
         pt_visits = tree_visits (TreeQuery False [Cte n [TreeQuery False [] [TreeRelation [n]]]]
                       [TreeRelation [n]]) \<rparr>]"
  shows "enforce_sql env policy engine operation sql = Inr ()
    \<and> base_relations False (normalize_ident env engine) {}
        (TreeQuery False [Cte n [TreeQuery False [] [TreeRelation [n]]]] [TreeRelation [n]]) = [[n]]
    \<and> \<not> relation_allowed env engine selectors [] [n]"
proof -
  let ?t = "TreeQuery False [Cte n [TreeQuery False [] [TreeRelation [n]]]] [TreeRelation [n]]"
  have "tree_ok env engine selectors {} ?t"
    by (simp add: tree_ok_def relations_ok_def functions_ok_def Let_def)
  then have "visit_all env engine selectors [] (tree_visits ?t) \<noteq> None"
    using visit_tree(1) [of env engine selectors "[]" ?t] by simp
  then show ?thesis using assms by (auto simp: enforce_sql_def relation_allowed_def Let_def)
qed

theorem shadowing_cte_reaches_any_table_witness:
  "enforce_sql
     \<lparr> sq_parse = (\<lambda>e s. Inr
         [\<lparr> pt_shape = StatementQuery (QueryShape [QueryShape [] (SetSelect False)] (SetSelect False)),
            pt_visits = tree_visits
              (TreeQuery False [Cte (demo_ident ''users'') [TreeQuery False [] [TreeRelation [demo_ident ''users'']]]]
                 [TreeRelation [demo_ident ''users'']]) \<rparr>]),
       sq_lower = id, sq_trim = id \<rparr>
     (demo_policy\<lparr> cp_allowed_schemas := Some [] \<rparr>) Postgres ''execute_query''
     ''WITH users AS (SELECT * FROM users) SELECT * FROM users'' = Inr ()"
  by (rule shadowing_cte_reaches_any_table [where n = "demo_ident ''users''", THEN conjunct1]) simp_all

text \<open>
  A selector without a catalog is a wildcard: it admits a relation qualified by any catalog as long
  as the schema matches, on every engine.
\<close>

lemma bare_selector_admits_any_catalog:
  assumes "\<lparr> ss_catalog = None, ss_schema = normalize_ident env engine schema \<rparr> \<in> set selectors"
  shows "relation_allowed env engine selectors [] [catalog, schema, table]"
  using assms by (auto simp: relation_allowed_def selector_allows_def list_ex_iff intro!: bexI)

end
