(* ===== verification/Catalog_Types.thy ===== *)
theory Catalog_Types
  imports Sift_Protocol "HOL-Library.Product_Lexorder" "HOL-Library.Option_ord"
begin

text \<open>
  The catalog graph of \<^verbatim>\<open>crates/protocol/src/catalog.rs\<close> and the types of
  \<^verbatim>\<open>crates/protocol/src/schema_diff.rs\<close> over it.  Object identifiers, change identifiers and
  revisions are what they wrap.  The two enumerations the code sorts by derive \<^verbatim>\<open>Ord\<close>, which
  orders them as they are declared; a \<^verbatim>\<open>BTreeMap\<close> is the association list its iterator yields, in
  the order of its keys.
\<close>

section \<open>JSON values\<close>

datatype json =
    JNull
  | JBool bool
  | JNumber string
  | JString string
  | JArray "json list"
  | JObject "(string \<times> json) list"

text \<open>\<^verbatim>\<open>BTreeMap::insert\<close> and \<^verbatim>\<open>BTreeMap::remove\<close>.\<close>

fun btree_insert :: "'k::linorder \<Rightarrow> 'v \<Rightarrow> ('k \<times> 'v) list \<Rightarrow> ('k \<times> 'v) list" where
  "btree_insert k v [] = [(k, v)]"
| "btree_insert k v ((k', v') # m) =
     (if k < k' then (k, v) # (k', v') # m
      else if k = k' then (k, v) # m
      else (k', v') # btree_insert k v m)"

definition btree_remove :: "'k \<Rightarrow> ('k \<times> 'v) list \<Rightarrow> ('k \<times> 'v) list" where
  "btree_remove k m = filter (\<lambda>(k', _). k' \<noteq> k) m"

definition btree_of :: "('k::linorder \<times> 'v) list \<Rightarrow> ('k \<times> 'v) list" where
  "btree_of xs = foldl (\<lambda>m (k, v). btree_insert k v m) [] xs"

section \<open>Nodes and edges\<close>

datatype catalog_node_kind =
    NodeCatalog | NodeSchema | NodeTable | NodeView | NodeMaterializedView | NodeForeignTable
  | NodePartitionedTable | NodeTableValuedFunction | NodeScalarFunction | NodeProcedure
  | NodeSynonym | NodeSequence | NodeTrigger | NodeType | NodeExtension | NodeColumn | NodeIndex
  | NodeConstraint

definition node_kinds :: "catalog_node_kind list" where
  "node_kinds =
     [NodeCatalog, NodeSchema, NodeTable, NodeView, NodeMaterializedView, NodeForeignTable,
      NodePartitionedTable, NodeTableValuedFunction, NodeScalarFunction, NodeProcedure,
      NodeSynonym, NodeSequence, NodeTrigger, NodeType, NodeExtension, NodeColumn, NodeIndex,
      NodeConstraint]"

fun kind_from_object :: "object_kind \<Rightarrow> catalog_node_kind" where
  "kind_from_object KTable = NodeTable"
| "kind_from_object KView = NodeView"
| "kind_from_object KMaterializedView = NodeMaterializedView"
| "kind_from_object KForeignTable = NodeForeignTable"
| "kind_from_object KPartitionedTable = NodePartitionedTable"
| "kind_from_object KTableValuedFunction = NodeTableValuedFunction"
| "kind_from_object KScalarFunction = NodeScalarFunction"
| "kind_from_object KProcedure = NodeProcedure"
| "kind_from_object KSynonym = NodeSynonym"
| "kind_from_object KSequence = NodeSequence"
| "kind_from_object KIndex = NodeIndex"
| "kind_from_object KTrigger = NodeTrigger"
| "kind_from_object KType = NodeType"
| "kind_from_object KExtension = NodeExtension"

datatype catalog_node_details =
    DetailsNone
  | DetailsObject "string list option"
  | DetailsColumn column_metadata
  | DetailsIndex index_info
  | DetailsConstraint constraint_info
  | DetailsTrigger trigger_info
  | DetailsRoutine "string list" "type_ref option"
  | DetailsType "type_ref option"

datatype catalog_completeness = CatalogComplete | CatalogPartial

record catalog_node =
  cn_id :: string
  cn_native_id :: "string option"
  cn_kind :: catalog_node_kind
  cn_name :: string
  cn_qualified_name :: string
  cn_parent_id :: "string option"
  cn_ordinal :: "u32 option"
  cn_definition_digest :: "string option"
  cn_completeness :: catalog_completeness
  cn_details :: catalog_node_details
  cn_extra :: "(string \<times> json) list"

datatype catalog_edge_kind =
    EdgeContains | EdgeDependsOn | EdgeForeignKey | EdgeUsesType | EdgeReadsFrom | EdgeWritesTo
  | EdgeCalls | EdgeTriggerOn | EdgeOwnsSequence | EdgeIndexes | EdgeConstrains

definition edge_kinds :: "catalog_edge_kind list" where
  "edge_kinds =
     [EdgeContains, EdgeDependsOn, EdgeForeignKey, EdgeUsesType, EdgeReadsFrom, EdgeWritesTo,
      EdgeCalls, EdgeTriggerOn, EdgeOwnsSequence, EdgeIndexes, EdgeConstrains]"

datatype catalog_edge_certainty = CatalogProven | CatalogParsed | CatalogUnresolved | CatalogInaccessible

record catalog_edge =
  ce_from :: string
  ce_to :: "string option"
  ce_kind :: catalog_edge_kind
  ce_certainty :: catalog_edge_certainty
  ce_referenced_path :: "string option"
  ce_column_pairs :: "(string \<times> string) list"

datatype catalog_coverage_state = CoverageComplete | CoveragePartial | CoverageStale

record catalog_coverage_failure =
  cf_stage :: string
  cf_schema :: "string option"
  cf_code :: string

record catalog_coverage =
  cv_state :: catalog_coverage_state
  cv_requested_kinds :: "catalog_node_kind list"
  cv_covered_schemas :: "string list"
  cv_omitted_schemas :: "string list"
  cv_truncated_at_nodes :: "u32 option"
  cv_failures :: "catalog_coverage_failure list"

definition coverage_complete :: catalog_coverage where
  "coverage_complete =
     \<lparr>cv_state = CoverageComplete, cv_requested_kinds = [], cv_covered_schemas = [],
      cv_omitted_schemas = [], cv_truncated_at_nodes = None, cv_failures = []\<rparr>"

record catalog_graph_data =
  cg_coverage :: catalog_coverage
  cg_nodes :: "catalog_node list"
  cg_edges :: "catalog_edge list"

record catalog_graph =
  gr_revision :: u64
  gr_content_digest :: string
  gr_invalidation_epoch :: u64
  gr_captured_at :: string
  gr_provider :: string
  gr_database_identity :: string
  gr_data :: catalog_graph_data

record catalog_graph_options =
  go_kinds :: "catalog_node_kind list option"
  go_schemas :: "string list option"
  go_include_definitions :: bool
  go_max_nodes :: "u32 option"

section \<open>The declared orders\<close>

fun list_index :: "'a \<Rightarrow> 'a list \<Rightarrow> nat" where
  "list_index x [] = 0"
| "list_index x (y # ys) = (if x = y then 0 else Suc (list_index x ys))"

lemma list_index_inj: "x \<in> set xs \<Longrightarrow> list_index x xs = list_index y xs \<longleftrightarrow> x = y"
  by (induction xs) auto

lemma declared_kinds: "k \<in> set node_kinds" "e \<in> set edge_kinds"
  by (cases k; simp add: node_kinds_def) (cases e; simp add: edge_kinds_def)

lemmas declared_index_inj = list_index_inj [OF declared_kinds(1)] list_index_inj [OF declared_kinds(2)]

instantiation catalog_node_kind :: linorder
begin

definition less_eq_catalog_node_kind :: "catalog_node_kind \<Rightarrow> catalog_node_kind \<Rightarrow> bool" where
  "less_eq_catalog_node_kind a b \<longleftrightarrow> list_index a node_kinds \<le> list_index b node_kinds"

definition less_catalog_node_kind :: "catalog_node_kind \<Rightarrow> catalog_node_kind \<Rightarrow> bool" where
  "less_catalog_node_kind a b \<longleftrightarrow> list_index a node_kinds < list_index b node_kinds"

instance
  by standard
    (auto simp: less_eq_catalog_node_kind_def less_catalog_node_kind_def declared_index_inj [symmetric])

end

instantiation catalog_edge_kind :: linorder
begin

definition less_eq_catalog_edge_kind :: "catalog_edge_kind \<Rightarrow> catalog_edge_kind \<Rightarrow> bool" where
  "less_eq_catalog_edge_kind a b \<longleftrightarrow> list_index a edge_kinds \<le> list_index b edge_kinds"

definition less_catalog_edge_kind :: "catalog_edge_kind \<Rightarrow> catalog_edge_kind \<Rightarrow> bool" where
  "less_catalog_edge_kind a b \<longleftrightarrow> list_index a edge_kinds < list_index b edge_kinds"

instance
  by standard
    (auto simp: less_eq_catalog_edge_kind_def less_catalog_edge_kind_def declared_index_inj [symmetric])

end

section \<open>Differences\<close>

datatype catalog_source_ref =
    SourceAiProposal string string
  | SourceLive u64 catalog_graph_options
  | SourceSnapshot string
  | SourceDdl string u64

record rename_mapping =
  rnm_from :: string
  rnm_to :: string

datatype schema_change_kind =
    ChangeCreate | ChangeDrop | ChangeRename | ChangeMove | ChangeAlter | ChangeUnknown

datatype schema_change_risk =
    RiskSafe | RiskLocking | RiskDataRewrite | RiskDataLoss | RiskPrivilege | RiskUnknown

datatype schema_change_reversibility = ReversibleExact | ReversibleLossy | ReversibleUnavailable

record schema_field_change =
  fd_field :: string
  fd_before :: "json option"
  fd_after :: "json option"

record schema_change =
  sc_id :: string
  sc_kind :: schema_change_kind
  sc_object_before :: "catalog_node option"
  sc_object_after :: "catalog_node option"
  sc_field_changes :: "schema_field_change list"
  sc_prerequisites :: "string list"
  sc_dependency_group :: "string option"
  sc_risk :: schema_change_risk
  sc_reversibility :: schema_change_reversibility

record rename_suggestion =
  rsg_from :: string
  rsg_to :: string
  rsg_reason :: string

record schema_diff_coverage =
  dc_from :: catalog_coverage
  dc_to :: catalog_coverage
  dc_definitive_drops :: bool

record schema_diff =
  sd_from :: catalog_source_ref
  sd_to :: catalog_source_ref
  sd_digest :: string
  sd_coverage :: schema_diff_coverage
  sd_changes :: "schema_change list"
  sd_rename_suggestions :: "rename_suggestion list"
  sd_warnings :: "string list"
  sd_partial :: bool

end
