(* ===== verification/Catalog_Graph.thy ===== *)
theory Catalog_Graph
  imports Catalog_Types "HOL-Library.AList" "HOL-Library.While_Combinator"
begin

text \<open>
  Catalog graphs, from \<^verbatim>\<open>crates/core/src/catalog.rs\<close>: how a graph is made from schema trees
  (\<^verbatim>\<open>graph_from_trees\<close>), put in its canonical order (\<^verbatim>\<open>normalize_graph\<close>), projected on a request
  (\<^verbatim>\<open>project_graph\<close>) and validated (\<^verbatim>\<open>validate_graph\<close>).

  SHA-256 and the JSON encoder are parameters.  A \<^verbatim>\<open>HashMap\<close> from identifiers to nodes is the
  association list of its insertions.  A loop along parents is a \<open>while_option\<close>, whose value
  \<open>None\<close> would be a walk that never ends, as it would be on a graph with a containment cycle.
\<close>

section \<open>Parameters and constructors\<close>

record catalog_env =
  ca_sha256_hex :: "string \<Rightarrow> string"   \<comment> \<open>hexadecimal digest of the bytes of a string\<close>
  ca_node_json :: "catalog_node \<Rightarrow> string option"   \<comment> \<open>\<^verbatim>\<open>serde_json::to_vec(..).ok()\<close>\<close>
  ca_edge_json :: "catalog_edge \<Rightarrow> string option"
  ca_value_json :: "json \<Rightarrow> string option"
  ca_data_json :: "catalog_graph_data \<Rightarrow> string option"

definition canonical_json :: "('a \<Rightarrow> string option) \<Rightarrow> 'a \<Rightarrow> string" where
  "canonical_json encode v = (case encode v of None \<Rightarrow> [] | Some bytes \<Rightarrow> bytes)"

fun kind_debug :: "catalog_node_kind \<Rightarrow> string" where
  "kind_debug NodeCatalog = ''Catalog''"
| "kind_debug NodeSchema = ''Schema''"
| "kind_debug NodeTable = ''Table''"
| "kind_debug NodeView = ''View''"
| "kind_debug NodeMaterializedView = ''MaterializedView''"
| "kind_debug NodeForeignTable = ''ForeignTable''"
| "kind_debug NodePartitionedTable = ''PartitionedTable''"
| "kind_debug NodeTableValuedFunction = ''TableValuedFunction''"
| "kind_debug NodeScalarFunction = ''ScalarFunction''"
| "kind_debug NodeProcedure = ''Procedure''"
| "kind_debug NodeSynonym = ''Synonym''"
| "kind_debug NodeSequence = ''Sequence''"
| "kind_debug NodeTrigger = ''Trigger''"
| "kind_debug NodeType = ''Type''"
| "kind_debug NodeExtension = ''Extension''"
| "kind_debug NodeColumn = ''Column''"
| "kind_debug NodeIndex = ''Index''"
| "kind_debug NodeConstraint = ''Constraint''"

definition catalog_id :: "catalog_env \<Rightarrow> string \<Rightarrow> string" where
  "catalog_id env seed = ''cat:'' @ ca_sha256_hex env seed"

definition object_id :: "catalog_env \<Rightarrow> string \<Rightarrow> catalog_node_kind \<Rightarrow> string \<Rightarrow> string" where
  "object_id env seed kind path =
     catalog_id env (seed @ [CHR 0x00] @ kind_debug kind @ [CHR 0x00] @ path)"

definition catalog_node_new ::
  "string \<Rightarrow> catalog_node_kind \<Rightarrow> string \<Rightarrow> string \<Rightarrow> string option \<Rightarrow> catalog_node_details \<Rightarrow> catalog_node" where
  "catalog_node_new i kind name qualified_name parent details =
     \<lparr>cn_id = i, cn_native_id = None, cn_kind = kind, cn_name = name,
      cn_qualified_name = qualified_name, cn_parent_id = parent, cn_ordinal = None,
      cn_definition_digest = None, cn_completeness = CatalogComplete, cn_details = details,
      cn_extra = []\<rparr>"

definition relation :: "string \<Rightarrow> string \<Rightarrow> catalog_edge_kind \<Rightarrow> catalog_edge" where
  "relation source target kind =
     \<lparr>ce_from = source, ce_to = Some target, ce_kind = kind, ce_certainty = CatalogProven,
      ce_referenced_path = None, ce_column_pairs = []\<rparr>"

definition contain :: "string \<Rightarrow> string \<Rightarrow> catalog_edge" where
  "contain parent child = relation parent child EdgeContains"

definition is_relation_kind :: "catalog_node_kind \<Rightarrow> bool" where
  "is_relation_kind kind =
     (kind \<in> {NodeTable, NodeView, NodeMaterializedView, NodeForeignTable, NodePartitionedTable})"

section \<open>Looking nodes up\<close>

text \<open>A \<^verbatim>\<open>HashMap\<close> collected from the nodes: of two nodes with one identifier the later one stays.\<close>

definition nodes_by_id :: "catalog_node list \<Rightarrow> (string \<times> catalog_node) list" where
  "nodes_by_id nodes = foldl (\<lambda>m n. AList.update (cn_id n) n m) [] nodes"

definition node_at :: "catalog_node list \<Rightarrow> string \<Rightarrow> catalog_node option" where
  "node_at nodes = map_of (nodes_by_id nodes)"

definition parent_of :: "catalog_node list \<Rightarrow> string \<Rightarrow> string option" where
  "parent_of nodes i = Option.bind (node_at nodes i) cn_parent_id"

definition node_ids :: "catalog_node list \<Rightarrow> string set" where
  "node_ids nodes = set (map cn_id nodes)"

lemma nodes_by_id_snoc: "nodes_by_id (ns @ [n]) = AList.update (cn_id n) n (nodes_by_id ns)"
  by (simp add: nodes_by_id_def)

lemma nodes_by_id_distinct:
  "distinct (map cn_id nodes) \<Longrightarrow> nodes_by_id nodes = map (\<lambda>n. (cn_id n, n)) nodes"
proof (induction nodes rule: rev_induct)
  case (snoc n ns)
  have "AList.update k v m = m @ [(k, v)]" if "k \<notin> fst ` set m" for k v and m :: "(string \<times> catalog_node) list"
    using that by (induction m) auto
  with snoc show ?case by (simp add: nodes_by_id_snoc image_comp comp_def)
qed (simp add: nodes_by_id_def)

lemma node_at_Nil [simp]: "node_at [] = Map.empty"
  by (simp add: node_at_def nodes_by_id_def)

lemma node_at_snoc: "node_at (ns @ [n]) = (node_at ns)(cn_id n \<mapsto> n)"
  by (simp add: node_at_def nodes_by_id_snoc update_conv')

lemma node_at_Some: "node_at nodes i = Some n \<Longrightarrow> n \<in> set nodes \<and> cn_id n = i"
  by (induction nodes rule: rev_induct)
    (auto simp: node_at_snoc split: if_splits)

lemma node_at_in: "i \<in> node_ids nodes \<longleftrightarrow> (\<exists>n. node_at nodes i = Some n)"
  by (induction nodes rule: rev_induct)
    (auto simp: node_at_snoc node_ids_def)

lemma node_at_distinct:
  "distinct (map cn_id nodes) \<Longrightarrow> n \<in> set nodes \<Longrightarrow> node_at nodes (cn_id n) = Some n"
  by (simp add: node_at_def nodes_by_id_distinct map_of_eq_Some_iff comp_def)

lemma node_at_iff:
  "distinct (map cn_id nodes) \<Longrightarrow> node_at nodes i = Some n \<longleftrightarrow> n \<in> set nodes \<and> cn_id n = i"
  using node_at_Some node_at_distinct by blast

lemma parent_of_in: "parent_of nodes i = Some p \<Longrightarrow> i \<in> node_ids nodes"
  by (auto simp: parent_of_def node_at_in bind_eq_Some_conv)

lemma parent_of_node:
  "distinct (map cn_id nodes) \<Longrightarrow> n \<in> set nodes \<Longrightarrow> parent_of nodes (cn_id n) = cn_parent_id n"
  by (simp add: parent_of_def node_at_distinct)

text \<open>
  What lies above a set of identifiers; and the identifiers from which every walk along parents
  ends.
\<close>

inductive_set ancestors :: "catalog_node list \<Rightarrow> string set \<Rightarrow> string set"
  for nodes :: "catalog_node list" and start :: "string set" where
  start: "i \<in> start \<Longrightarrow> i \<in> ancestors nodes start"
| parent: "n \<in> set nodes \<Longrightarrow> cn_id n \<in> ancestors nodes start \<Longrightarrow> cn_parent_id n = Some p \<Longrightarrow>
    p \<in> ancestors nodes start"

inductive rooted :: "catalog_node list \<Rightarrow> string option \<Rightarrow> bool" for nodes :: "catalog_node list" where
  top: "rooted nodes None"
| up: "rooted nodes (parent_of nodes i) \<Longrightarrow> rooted nodes (Some i)"

inductive_simps rooted_simps [simp]: "rooted nodes None" "rooted nodes (Some i)"

section \<open>Sets that grow until a pass adds nothing\<close>

text \<open>\<^verbatim>\<open>loop { before = len; pass; if len == before { break } }\<close>.\<close>

definition grow_until_stable :: "(string set \<Rightarrow> string set) \<Rightarrow> string set \<Rightarrow> string set option" where
  "grow_until_stable pass visible =
     map_option fst
       (while_option snd (\<lambda>(v, _). (pass v, card (pass v) \<noteq> card v)) (visible, True))"

lemma grow_until_stable_ends:
  assumes mono: "\<And>v. v \<subseteq> pass v" and bound: "\<And>v. v \<subseteq> U \<Longrightarrow> pass v \<subseteq> U"
    and "finite U" "v \<subseteq> U" "P v" "\<And>v. P v \<Longrightarrow> P (pass v)"
  shows "\<exists>w. grow_until_stable pass v = Some w \<and> v \<subseteq> w \<and> w \<subseteq> U \<and> pass w = w \<and> P w"
proof -
  let ?step = "\<lambda>(v, _). (pass v, card (pass v) \<noteq> card v)"
  let ?inv = "\<lambda>(w, go). v \<subseteq> w \<and> w \<subseteq> U \<and> P w \<and> (\<not> go \<longrightarrow> pass w = w)"
  have fin: "finite w" if "w \<subseteq> U" for w using that assms(3) finite_subset by blast
  have stable: "pass (pass w) = pass w" if "w \<subseteq> U" "card (pass w) = card w" for w
  proof -
    have "pass w = w" using card_subset_eq [OF fin [OF bound [OF that(1)]] mono] that(2) by simp
    then show ?thesis by simp
  qed
  have step: "?inv (?step (w, True))" if "?inv (w, True)" for w
  proof -
    have w: "v \<subseteq> w" "w \<subseteq> U" "P w" using that by auto
    then have "v \<subseteq> pass w" "pass w \<subseteq> U" "P (pass w)" using mono [of w] bound assms(6) by auto
    then show ?thesis using stable [OF w(2)] by simp
  qed
  have "\<exists>t. while_option snd ?step (v, True) = Some t"
  proof (rule measure_while_option_Some [where P = ?inv and
        f = "\<lambda>(w, go). (if go then 1 else 0) + 2 * (card U - card w)"])
    fix s assume a: "?inv s" "snd s"
    obtain w where s: "s = (w, True)" using a(2) by (cases s) auto
    have w: "w \<subseteq> U" "pass w \<subseteq> U" using a(1) s bound by auto
    have le: "card w \<le> card (pass w)" "card (pass w) \<le> card U"
      using card_mono [OF fin [OF w(2)] mono] card_mono [OF assms(3) w(2)] by auto
    show "?inv (?step s) \<and> (case ?step s of (w, go) \<Rightarrow> (if go then 1 else 0) + 2 * (card U - card w))
        < (case s of (w, go) \<Rightarrow> (if go then 1 else 0) + 2 * (card U - card w))"
      using step [of w] a le unfolding s by auto
  qed (use assms(4,5) in auto)
  then obtain t where t: "while_option snd ?step (v, True) = Some t" by blast
  have "?inv t" by (rule while_option_rule [OF _ t, where P = ?inv]) (use step assms(4,5) in \<open>force+\<close>)
  moreover have "\<not> snd t" using while_option_stop [OF t] .
  ultimately show ?thesis using t by (cases t) (auto simp: grow_until_stable_def)
qed

section \<open>Graphs from trees\<close>

text \<open>What the loop has built: nodes, edges and the relations a foreign key can name.\<close>

record graph_builder =
  gb_nodes :: "catalog_node list"
  gb_edges :: "catalog_edge list"
  gb_object_ids :: "((string \<times> string) \<times> string) list"

definition gb_add :: "catalog_node list \<Rightarrow> catalog_edge list \<Rightarrow> graph_builder \<Rightarrow> graph_builder" where
  "gb_add nodes edges gb = gb\<lparr>gb_nodes := gb_nodes gb @ nodes, gb_edges := gb_edges gb @ edges\<rparr>"

definition column_node_id :: "catalog_env \<Rightarrow> string \<Rightarrow> string \<Rightarrow> column_metadata \<Rightarrow> string" where
  "column_node_id env seed object_path column =
     object_id env seed NodeColumn (object_path @ ''.'' @ col_name column)"

text \<open>\<^verbatim>\<open>u32::try_from(n).ok()\<close>.\<close>

definition u32_of_nat :: "nat \<Rightarrow> u32 option" where
  "u32_of_nat n = (if n < 2 ^ 32 then Some (of_nat n) else None)"

definition column_nodes ::
  "catalog_env \<Rightarrow> string \<Rightarrow> string \<Rightarrow> string \<Rightarrow> column_metadata list \<Rightarrow> catalog_node list" where
  "column_nodes env seed object_path parent columns =
     map (\<lambda>(ordinal, column).
            (catalog_node_new (column_node_id env seed object_path column) NodeColumn (col_name column)
               (object_path @ ''.'' @ col_name column) (Some parent) (DetailsColumn column))
            \<lparr>cn_ordinal := u32_of_nat (ordinal + 1)\<rparr>)
       (List.enumerate 0 columns)"

text \<open>\<^verbatim>\<open>column_ids\<close>: a later column of the same name replaces an earlier one.\<close>

definition column_ids ::
  "catalog_env \<Rightarrow> string \<Rightarrow> string \<Rightarrow> column_metadata list \<Rightarrow> string \<Rightarrow> string option" where
  "column_ids env seed object_path columns =
     map_of (rev (map (\<lambda>column. (col_name column, column_node_id env seed object_path column)) columns))"

definition depends_on :: "(string \<Rightarrow> string option) \<Rightarrow> string \<Rightarrow> string list \<Rightarrow> catalog_edge list" where
  "depends_on ids i columns =
     map (\<lambda>column. relation i column EdgeDependsOn) (List.map_filter ids columns)"

definition index_part ::
  "catalog_env \<Rightarrow> string \<Rightarrow> string \<Rightarrow> string \<Rightarrow> (string \<Rightarrow> string option) \<Rightarrow> index_info \<Rightarrow> catalog_node \<times> catalog_edge list" where
  "index_part env seed object_path parent ids index =
     (let path = object_path @ ''.index.'' @ ix_name index;
          i = object_id env seed NodeIndex path
      in (catalog_node_new i NodeIndex (ix_name index) path (Some parent) (DetailsIndex index),
          [contain parent i, relation i parent EdgeIndexes] @ depends_on ids i (ix_columns index)))"

definition constraint_part ::
  "catalog_env \<Rightarrow> string \<Rightarrow> string \<Rightarrow> string \<Rightarrow> (string \<Rightarrow> string option) \<Rightarrow> constraint_info \<Rightarrow> catalog_node \<times> catalog_edge list" where
  "constraint_part env seed object_path parent ids constraint =
     (let path = object_path @ ''.constraint.'' @ ck_name constraint;
          i = object_id env seed NodeConstraint path
      in ((catalog_node_new i NodeConstraint (ck_name constraint) path (Some parent)
             (DetailsConstraint constraint))
            \<lparr>cn_definition_digest := map_option (ca_sha256_hex env) (ck_definition constraint)\<rparr>,
          [contain parent i, relation i parent EdgeConstrains]
          @ depends_on ids i (ck_columns constraint)
          @ (case (ck_kind constraint, ck_references constraint) of
               (CkForeignKey, Some reference) \<Rightarrow>
                 [\<lparr>ce_from = i, ce_to = None, ce_kind = EdgeForeignKey,
                   ce_certainty = CatalogUnresolved, ce_referenced_path = Some reference,
                   ce_column_pairs = []\<rparr>]
             | _ \<Rightarrow> [])))"

definition trigger_part ::
  "catalog_env \<Rightarrow> string \<Rightarrow> string \<Rightarrow> string \<Rightarrow> trigger_info \<Rightarrow> catalog_node \<times> catalog_edge list" where
  "trigger_part env seed object_path parent trigger =
     (let path = object_path @ ''.trigger.'' @ tr_name trigger;
          i = object_id env seed NodeTrigger path
      in ((catalog_node_new i NodeTrigger (tr_name trigger) path (Some parent) (DetailsTrigger trigger))
            \<lparr>cn_definition_digest := map_option (ca_sha256_hex env) (tr_definition trigger)\<rparr>,
          [contain parent i, relation i parent EdgeTriggerOn]))"

definition object_extra :: "object_info \<Rightarrow> (string \<times> json) list" where
  "object_extra object = btree_of
     ((case oi_comment object of None \<Rightarrow> [] | Some c \<Rightarrow> [(''comment'', JString c)])
      @ (case oi_estimated_rows object of
           None \<Rightarrow> [] | Some n \<Rightarrow> [(''estimated_rows'', JNumber (show_nat (unat n)))])
      @ (case oi_modified_at object of None \<Rightarrow> [] | Some t \<Rightarrow> [(''modified_at'', JString t)]))"

definition object_path_of :: "string \<Rightarrow> object_info \<Rightarrow> string" where
  "object_path_of schema_path object =
     schema_path @ ''.'' @ oi_name object @
       (case oi_routine_args object of
          None \<Rightarrow> [] | Some arguments \<Rightarrow> ''('' @ join_with '','' arguments @ '')'')"

definition add_object ::
  "catalog_env \<Rightarrow> string \<Rightarrow> string \<Rightarrow> string \<Rightarrow> string \<Rightarrow> graph_builder \<Rightarrow> object_info \<Rightarrow> graph_builder" where
  "add_object env seed schema_name schema_path schema_id gb object =
     (let path = object_path_of schema_path object;
          kind = kind_from_object (oi_kind object);
          i = object_id env seed kind path;
          node = (catalog_node_new i kind (oi_name object) path (Some schema_id)
                    (DetailsObject (oi_routine_args object)))\<lparr>cn_extra := object_extra object\<rparr>;
          columns = column_nodes env seed path i (oi_columns object);
          ids = column_ids env seed path (oi_columns object);
          parts = map (index_part env seed path i ids) (oi_indexes object)
                  @ map (constraint_part env seed path i ids) (oi_constraints object)
                  @ map (trigger_part env seed path i) (oi_triggers object)
      in gb_add (node # columns @ map fst parts)
           (contain schema_id i # map (contain i \<circ> cn_id) columns @ concat (map snd parts))
           (if is_relation_kind kind
            then gb\<lparr>gb_object_ids :=
                   AList.update (map ascii_lower schema_name, map ascii_lower (oi_name object)) i
                     (gb_object_ids gb)\<rparr>
            else gb))"

definition add_schema ::
  "catalog_env \<Rightarrow> string \<Rightarrow> string \<Rightarrow> string \<Rightarrow> graph_builder \<Rightarrow> schema_tree \<Rightarrow> graph_builder" where
  "add_schema env seed catalog_name cat_id gb schema =
     (let path = catalog_name @ ''.'' @ st_name schema;
          i = object_id env seed NodeSchema path
      in foldl (add_object env seed (st_name schema) path i)
           (gb_add [catalog_node_new i NodeSchema (st_name schema) path (Some cat_id) DetailsNone]
              [contain cat_id i] gb)
           (st_objects schema))"

definition add_catalog :: "catalog_env \<Rightarrow> string \<Rightarrow> graph_builder \<Rightarrow> catalog_tree \<Rightarrow> graph_builder" where
  "add_catalog env seed gb catalog =
     (let i = object_id env seed NodeCatalog (ct_name catalog)
      in foldl (add_schema env seed (ct_name catalog) i)
           (gb_add [catalog_node_new i NodeCatalog (ct_name catalog) (ct_name catalog) None DetailsNone] [] gb)
           (ct_schemas catalog))"

text \<open>\<^verbatim>\<open>str::trim_matches\<close> of one character.\<close>

definition trim_matches :: "char \<Rightarrow> string \<Rightarrow> string" where
  "trim_matches c s = rev (dropWhile (\<lambda>x. x = c) (rev (dropWhile (\<lambda>x. x = c) s)))"

definition resolve_reference :: "((string \<times> string) \<times> string) list \<Rightarrow> string \<Rightarrow> string option" where
  "resolve_reference object_ids reference =
     (let part = map ascii_lower \<circ> trim_matches (CHR 0x22)
      in case split_on (CHR ''.'') (trim_matches (CHR 0x22) reference) of
           [] \<Rightarrow> None
         | [only] \<Rightarrow>
             (case map snd (filter (\<lambda>((_, name), _). name = part only) object_ids) of
                [target] \<Rightarrow> Some target
              | _ \<Rightarrow> None)
         | first # second # _ \<Rightarrow> map_of object_ids (part first, part second))"

definition resolve_edge :: "((string \<times> string) \<times> string) list \<Rightarrow> catalog_edge \<Rightarrow> catalog_edge" where
  "resolve_edge object_ids edge =
     (if ce_kind edge \<noteq> EdgeForeignKey \<or> ce_to edge \<noteq> None then edge
      else case ce_referenced_path edge of
             None \<Rightarrow> edge
           | Some reference \<Rightarrow>
               (case resolve_reference object_ids reference of
                  None \<Rightarrow> edge
                | Some target \<Rightarrow>
                    edge\<lparr>ce_to := Some target, ce_certainty := CatalogProven,
                         ce_referenced_path := None\<rparr>))"

section \<open>The canonical order\<close>

definition normalize_coverage :: "catalog_coverage \<Rightarrow> catalog_coverage" where
  "normalize_coverage cov =
     cov\<lparr>cv_requested_kinds := remdups_adj (sort (cv_requested_kinds cov)),
         cv_covered_schemas := remdups_adj (sort (cv_covered_schemas cov)),
         cv_omitted_schemas := remdups_adj (sort (cv_omitted_schemas cov)),
         cv_failures := remdups_adj
           (sort_key (\<lambda>f. (cf_stage f, cf_schema f, cf_code f)) (cv_failures cov))\<rparr>"

definition normalize_graph :: "catalog_env \<Rightarrow> catalog_graph_data \<Rightarrow> catalog_graph_data" where
  "normalize_graph env graph =
     \<lparr>cg_coverage = normalize_coverage (cg_coverage graph),
      cg_nodes = sort_key (\<lambda>n. (cn_qualified_name n, cn_kind n, cn_id n,
                                canonical_json (ca_node_json env) n)) (cg_nodes graph),
      cg_edges = sort_key (\<lambda>e. (ce_from e, ce_to e, ce_kind e,
                                canonical_json (ca_edge_json env) e)) (cg_edges graph)\<rparr>"

definition graph_from_trees ::
  "catalog_env \<Rightarrow> catalog_tree list \<Rightarrow> catalog_coverage \<Rightarrow> string \<Rightarrow> catalog_graph_data" where
  "graph_from_trees env trees coverage identity_seed =
     (let gb = foldl (add_catalog env identity_seed)
                 \<lparr>gb_nodes = [], gb_edges = [], gb_object_ids = []\<rparr> trees
      in normalize_graph env
           \<lparr>cg_coverage = coverage, cg_nodes = gb_nodes gb,
            cg_edges = map (resolve_edge (gb_object_ids gb)) (gb_edges gb)\<rparr>)"

end
