(* ===== verification/Catalog_Validation.thy ===== *)
theory Catalog_Validation
  imports Catalog_Graph
begin

text \<open>
  \<^verbatim>\<open>validate_graph\<close> of \<^verbatim>\<open>crates/core/src/catalog.rs\<close>, which untrusted graphs pass before they are
  cached or answered: its bounds on every string, its loop over the nodes, the walk along each
  node's parents and the rules for edges, with the error of every rejection.  The theorem says
  exactly which graphs it accepts.
\<close>

section \<open>Bounds\<close>

datatype graph_validation_error =
    GraphLimitExceeded | DuplicateObjectId | DanglingReference | InvalidString | InvalidStructure
  | ContainmentCycle

definition max_detail_items :: nat where "max_detail_items = 4096"
definition max_detail_string :: nat where "max_detail_string = 4096"
definition max_definition_bytes :: nat where "max_definition_bytes = 1024 * 1024"
definition max_total_definition_bytes :: nat where "max_total_definition_bytes = 16 * 1024 * 1024"

definition text_within :: "nat \<Rightarrow> string \<Rightarrow> bool" where
  "text_within bound s \<longleftrightarrow> s \<noteq> [] \<and> length s \<le> bound"

definition opt_all :: "('a \<Rightarrow> bool) \<Rightarrow> 'a option \<Rightarrow> bool" where
  "opt_all P x = (case x of None \<Rightarrow> True | Some y \<Rightarrow> P y)"

lemma opt_all_simps [simp]: "opt_all P None" "opt_all P (Some x) = P x"
  by (simp_all add: opt_all_def)

definition coverage_within :: "nat \<Rightarrow> catalog_coverage \<Rightarrow> bool" where
  "coverage_within max_nodes cov \<longleftrightarrow>
     length (cv_requested_kinds cov) \<le> 32
     \<and> length (cv_covered_schemas cov) \<le> max_nodes
     \<and> length (cv_omitted_schemas cov) \<le> max_nodes
     \<and> length (cv_failures cov) \<le> max_detail_items
     \<and> list_all (text_within max_detail_string) (cv_covered_schemas cov @ cv_omitted_schemas cov)
     \<and> list_all (\<lambda>f. text_within 128 (cf_stage f) \<and> text_within 128 (cf_code f)
          \<and> opt_all (text_within max_detail_string) (cf_schema f)) (cv_failures cov)"

definition is_ascii_hexdigit :: "char \<Rightarrow> bool" where
  "is_ascii_hexdigit c =
     (let n = (of_char c :: nat)
      in (48 \<le> n \<and> n \<le> 57) \<or> (65 \<le> n \<and> n \<le> 70) \<or> (97 \<le> n \<and> n \<le> 102))"

definition node_strings_ok :: "catalog_env \<Rightarrow> catalog_node \<Rightarrow> bool" where
  "node_strings_ok env node \<longleftrightarrow>
     text_within 128 (cn_id node)
     \<and> text_within 1024 (cn_name node)
     \<and> text_within 4096 (cn_qualified_name node)
     \<and> opt_all (\<lambda>i. length i \<le> 256) (cn_native_id node)
     \<and> opt_all (\<lambda>d. length d = 64 \<and> list_all is_ascii_hexdigit d) (cn_definition_digest node)
     \<and> length (cn_extra node) \<le> 64
     \<and> list_all (\<lambda>(key, value). text_within 128 key
          \<and> (case ca_value_json env value of None \<Rightarrow> False | Some e \<Rightarrow> length e \<le> 16384)) (cn_extra node)"

section \<open>Details\<close>

definition strings_valid :: "string list \<Rightarrow> bool" where
  "strings_valid xs \<longleftrightarrow> length xs \<le> max_detail_items \<and> list_all (text_within max_detail_string) xs"

definition type_valid :: "type_ref \<Rightarrow> bool" where
  "type_valid t = (case t of PrimitiveRef _ \<Rightarrow> True | NativeRef _ name _ \<Rightarrow> text_within max_detail_string name)"

text \<open>The closure \<^verbatim>\<open>definition\<close>: whether a definition fits, and the bytes counted with it.\<close>

definition add_definition :: "nat \<Rightarrow> string option \<Rightarrow> nat option" where
  "add_definition used value =
     (case value of
        None \<Rightarrow> Some used
      | Some v \<Rightarrow>
          (if length v > max_definition_bytes then None
           else if used + length v > max_total_definition_bytes then None
           else Some (used + length v)))"

definition guard :: "bool \<Rightarrow> 'a option \<Rightarrow> 'a option" where
  "guard b x = (if b then x else None)"

definition validate_node_details :: "nat \<Rightarrow> catalog_node_details \<Rightarrow> nat option" where
  "validate_node_details used details =
     (case details of
        DetailsNone \<Rightarrow> Some used
      | DetailsObject args \<Rightarrow> guard (opt_all strings_valid args) (Some used)
      | DetailsColumn column \<Rightarrow>
          guard (text_within max_detail_string (col_name column) \<and> type_valid (col_type_ref column))
            (case (fc_postgres (col_facets column), fc_sql_server (col_facets column)) of
               (None, None) \<Rightarrow> Some used
             | (Some pg, None) \<Rightarrow>
                 guard (opt_all strings_valid (pg_enum_values pg)) (add_definition used (pg_default_expr pg))
             | (None, Some ms) \<Rightarrow>
                 guard (opt_all (\<lambda>v. length v \<le> max_detail_string) (ms_tds_type ms)
                        \<and> opt_all (\<lambda>v. length v \<le> max_detail_string) (ms_collation ms))
                   (add_definition used (ms_default_expr ms))
             | (Some _, Some _) \<Rightarrow> None)
      | DetailsIndex index \<Rightarrow>
          guard (text_within max_detail_string (ix_name index) \<and> strings_valid (ix_columns index))
            (add_definition used (ix_partial_predicate index))
      | DetailsConstraint constraint \<Rightarrow>
          guard (text_within max_detail_string (ck_name constraint) \<and> strings_valid (ck_columns constraint)
                 \<and> opt_all (text_within max_detail_string) (ck_references constraint))
            (add_definition used (ck_definition constraint))
      | DetailsTrigger trigger \<Rightarrow>
          guard (text_within max_detail_string (tr_name trigger) \<and> length (tr_events trigger) \<le> 4
                 \<and> strings_valid (tr_columns trigger))
            (add_definition used (tr_definition trigger))
      | DetailsRoutine arguments return_type \<Rightarrow>
          guard (strings_valid arguments \<and> opt_all type_valid return_type) (Some used)
      | DetailsType base_type \<Rightarrow> guard (opt_all type_valid base_type) (Some used))"

definition details_match :: "catalog_node_kind \<Rightarrow> catalog_node_details \<Rightarrow> bool" where
  "details_match kind details =
     (case details of
        DetailsColumn _ \<Rightarrow> kind = NodeColumn
      | DetailsIndex _ \<Rightarrow> kind = NodeIndex
      | DetailsConstraint _ \<Rightarrow> kind = NodeConstraint
      | DetailsTrigger _ \<Rightarrow> kind = NodeTrigger
      | DetailsObject _ \<Rightarrow> kind \<notin> {NodeColumn, NodeIndex, NodeConstraint}
      | _ \<Rightarrow> kind \<notin> {NodeColumn, NodeIndex, NodeConstraint, NodeTrigger})"

section \<open>Nodes\<close>

text \<open>What the loop over the nodes carries.\<close>

record node_validation =
  nv_ids :: "string set"
  nv_ordinals :: "(string option \<times> u32) set"
  nv_definition_bytes :: nat

definition ordinal_ok :: "catalog_node \<Rightarrow> (string option \<times> u32) set \<Rightarrow> bool" where
  "ordinal_ok node ordinals =
     (case (cn_kind node, cn_ordinal node) of
        (NodeColumn, Some ordinal) \<Rightarrow> 0 < ordinal \<and> (cn_parent_id node, ordinal) \<notin> ordinals
      | (NodeColumn, None) \<Rightarrow> False
      | (_, ordinal) \<Rightarrow> ordinal = None)"

definition column_ordinal :: "catalog_node \<Rightarrow> (string option \<times> u32) set" where
  "column_ordinal node =
     (case (cn_kind node, cn_ordinal node) of
        (NodeColumn, Some ordinal) \<Rightarrow> {(cn_parent_id node, ordinal)} | _ \<Rightarrow> {})"

definition validate_node ::
  "catalog_env \<Rightarrow> node_validation \<Rightarrow> catalog_node \<Rightarrow> (graph_validation_error, node_validation) result" where
  "validate_node env v node =
     (if \<not> node_strings_ok env node then Inl InvalidString
      else case validate_node_details (nv_definition_bytes v) (cn_details node) of
        None \<Rightarrow> Inl GraphLimitExceeded
      | Some bytes \<Rightarrow>
          (if cn_id node \<in> nv_ids v then Inl DuplicateObjectId
           else if cn_kind node = NodeCatalog \<and> (cn_parent_id node \<noteq> None \<or> cn_ordinal node \<noteq> None)
           then Inl InvalidStructure
           else if cn_kind node \<noteq> NodeCatalog \<and> cn_parent_id node = None then Inl InvalidStructure
           else if \<not> details_match (cn_kind node) (cn_details node) then Inl InvalidStructure
           else if \<not> ordinal_ok node (nv_ordinals v) then Inl InvalidStructure
           else Inr \<lparr>nv_ids = insert (cn_id node) (nv_ids v),
                     nv_ordinals = column_ordinal node \<union> nv_ordinals v,
                     nv_definition_bytes = bytes\<rparr>))"

text \<open>
  The walk along parents, which remembers what it has visited. It ends because every round but the
  last marks one more node of the graph.
\<close>

function climb_ends :: "catalog_node list \<Rightarrow> string set \<Rightarrow> string option \<Rightarrow> bool" where
  "climb_ends nodes visited None = True"
| "climb_ends nodes visited (Some p) =
     (if p \<in> visited then False else climb_ends nodes (insert p visited) (parent_of nodes p))"
  by pat_completeness auto

termination
proof (relation "measure (\<lambda>(nodes, visited, current).
    case current of None \<Rightarrow> 0 | Some p \<Rightarrow> Suc (card (node_ids nodes - visited)))")
  fix nodes visited and p :: string
  assume new: "p \<notin> visited"
  have "(case parent_of nodes p of None \<Rightarrow> 0 | Some q \<Rightarrow> Suc (card (node_ids nodes - insert p visited)))
      < Suc (card (node_ids nodes - visited))"
  proof (cases "p \<in> node_ids nodes")
    case True
    with new have "card (node_ids nodes - insert p visited) < card (node_ids nodes - visited)"
      by (intro psubset_card_mono) (auto simp: node_ids_def)
    then show ?thesis by (simp split: option.split)
  next
    case False
    then have "parent_of nodes p = None" using parent_of_in by (cases "parent_of nodes p") auto
    then show ?thesis by simp
  qed
  then show "((nodes, insert p visited, parent_of nodes p), nodes, visited, Some p)
      \<in> measure (\<lambda>(nodes, visited, current).
          case current of None \<Rightarrow> 0 | Some p \<Rightarrow> Suc (card (node_ids nodes - visited)))"
    by simp
qed simp

definition validate_parent ::
  "catalog_node list \<Rightarrow> catalog_node \<Rightarrow> (graph_validation_error, unit) result" where
  "validate_parent nodes node =
     (if \<not> opt_all (\<lambda>p. p \<in> node_ids nodes) (cn_parent_id node) then Inl DanglingReference
      else if \<not> climb_ends nodes {} (cn_parent_id node) then Inl ContainmentCycle
      else Inr ())"

section \<open>Edges\<close>

definition certainty_ok :: "catalog_edge \<Rightarrow> bool" where
  "certainty_ok edge =
     (case ce_certainty edge of
        CatalogProven \<Rightarrow> ce_to edge \<noteq> None \<and> ce_referenced_path edge = None
      | CatalogParsed \<Rightarrow> ce_to edge \<noteq> None \<and> ce_referenced_path edge = None
      | CatalogUnresolved \<Rightarrow> ce_to edge = None \<and> ce_referenced_path edge \<noteq> None \<and> ce_column_pairs edge = []
      | CatalogInaccessible \<Rightarrow> ce_to edge = None \<and> ce_referenced_path edge = None \<and> ce_column_pairs edge = [])"

definition kind_at :: "catalog_node list \<Rightarrow> string \<Rightarrow> catalog_node_kind option" where
  "kind_at nodes i = map_option cn_kind (node_at nodes i)"

definition contains_ok :: "catalog_node list \<Rightarrow> catalog_edge \<Rightarrow> bool" where
  "contains_ok nodes edge \<longleftrightarrow>
     ce_kind edge \<noteq> EdgeContains
     \<or> ce_certainty edge = CatalogInaccessible
     \<or> ce_certainty edge = CatalogProven
        \<and> opt_all (\<lambda>t. parent_of nodes t = Some (ce_from edge)) (ce_to edge)"

definition pairs_ok :: "catalog_node list \<Rightarrow> catalog_edge \<Rightarrow> bool" where
  "pairs_ok nodes edge \<longleftrightarrow>
     ce_column_pairs edge = []
     \<or> length (ce_column_pairs edge) \<le> max_detail_items
        \<and> ce_kind edge = EdgeForeignKey
        \<and> list_all (\<lambda>(a, b). kind_at nodes a = Some NodeColumn \<and> kind_at nodes b = Some NodeColumn)
             (ce_column_pairs edge)"

text \<open>The relation a foreign-key edge starts from: the parent of its constraint.\<close>

definition source_relation :: "catalog_node list \<Rightarrow> catalog_edge \<Rightarrow> string option" where
  "source_relation nodes edge =
     (case node_at nodes (ce_from edge) of
        None \<Rightarrow> None
      | Some node \<Rightarrow>
          (case cn_details node of
             DetailsConstraint constraint \<Rightarrow>
               (if ck_kind constraint = CkForeignKey then cn_parent_id node else None)
           | _ \<Rightarrow> None))"

definition foreign_key_ok :: "catalog_node list \<Rightarrow> catalog_edge \<Rightarrow> bool" where
  "foreign_key_ok nodes edge =
     (if ce_kind edge = EdgeForeignKey \<and> ce_certainty edge \<noteq> CatalogInaccessible
      then (case source_relation nodes edge of
              None \<Rightarrow> False
            | Some source \<Rightarrow>
                opt_all (\<lambda>target.
                  (case kind_at nodes target of None \<Rightarrow> False | Some kind \<Rightarrow> is_relation_kind kind)
                  \<and> list_all (\<lambda>(a, b). parent_of nodes a = Some source \<and> parent_of nodes b = Some target)
                       (ce_column_pairs edge)) (ce_to edge))
      else True)"

definition edge_ends_known :: "catalog_node list \<Rightarrow> catalog_edge \<Rightarrow> bool" where
  "edge_ends_known nodes edge \<longleftrightarrow>
     ce_from edge \<in> node_ids nodes
     \<and> opt_all (\<lambda>t. t \<in> node_ids nodes) (ce_to edge)
     \<and> list_all (\<lambda>(a, b). a \<in> node_ids nodes \<and> b \<in> node_ids nodes) (ce_column_pairs edge)"

definition validate_edge ::
  "catalog_node list \<Rightarrow> catalog_edge \<Rightarrow> (graph_validation_error, unit) result" where
  "validate_edge nodes edge =
     (if \<not> edge_ends_known nodes edge then Inl DanglingReference
      else if \<not> certainty_ok edge then Inl InvalidStructure
      else if \<not> contains_ok nodes edge then Inl InvalidStructure
      else if \<not> pairs_ok nodes edge then Inl InvalidStructure
      else if \<not> foreign_key_ok nodes edge then Inl InvalidStructure
      else if \<not> opt_all (text_within 4096) (ce_referenced_path edge) then Inl InvalidString
      else Inr ())"

definition containment :: "catalog_edge list \<Rightarrow> (string \<times> string) set" where
  "containment edges = set (List.map_filter (\<lambda>e.
     if ce_kind e = EdgeContains then map_option (Pair (ce_from e)) (ce_to e) else None) edges)"

definition validate_containment ::
  "catalog_edge list \<Rightarrow> catalog_node \<Rightarrow> (graph_validation_error, unit) result" where
  "validate_containment edges node =
     (if opt_all (\<lambda>p. (p, cn_id node) \<in> containment edges) (cn_parent_id node)
      then Inr () else Inl InvalidStructure)"

definition validate_graph ::
  "catalog_env \<Rightarrow> catalog_graph_data \<Rightarrow> nat \<Rightarrow> nat \<Rightarrow> (graph_validation_error, unit) result" where
  "validate_graph env graph max_nodes max_edges =
     (let nodes = cg_nodes graph; edges = cg_edges graph
      in if length nodes > max_nodes \<or> length edges > max_edges then Inl GraphLimitExceeded
         else if \<not> coverage_within max_nodes (cg_coverage graph) then Inl GraphLimitExceeded
         else res_bind (res_fold (validate_node env)
                         \<lparr>nv_ids = {}, nv_ordinals = {}, nv_definition_bytes = 0\<rparr> nodes)
           (\<lambda>_. res_bind (res_map (validate_parent nodes) nodes)
             (\<lambda>_. res_bind (res_map (validate_edge nodes) edges)
               (\<lambda>_. res_bind (res_map (validate_containment edges) nodes) (\<lambda>_. Inr ())))))"

section \<open>The walk finds exactly the cycles\<close>

definition parent_steps :: "catalog_node list \<Rightarrow> (string \<times> string) set" where
  "parent_steps nodes = {(i, p). parent_of nodes i = Some p}"

lemma rooted_acyclic: "rooted nodes current \<Longrightarrow> current = Some i \<Longrightarrow> (i, i) \<notin> (parent_steps nodes)\<^sup>+"
proof (induction arbitrary: i rule: rooted.induct)
  case (up j)
  show ?case
  proof
    assume "(i, i) \<in> (parent_steps nodes)\<^sup>+"
    then obtain p where p: "(i, p) \<in> parent_steps nodes" "(p, i) \<in> (parent_steps nodes)\<^sup>*"
      by (meson tranclD)
    then have "(p, p) \<in> (parent_steps nodes)\<^sup>+" by (meson rtrancl_into_trancl1)
    moreover from p(1) up.prems have "parent_of nodes j = Some p" by (simp add: parent_steps_def)
    ultimately show False using up.IH by blast
  qed
qed simp

lemma climb_ends_rooted: "climb_ends nodes visited current \<Longrightarrow> rooted nodes current"
  by (induction nodes visited current rule: climb_ends.induct) (auto split: if_splits)

lemma rooted_climb_ends:
  "rooted nodes current \<Longrightarrow>
   (\<And>i q. current = Some i \<Longrightarrow> q \<in> visited \<Longrightarrow> (i, q) \<notin> (parent_steps nodes)\<^sup>*) \<Longrightarrow>
   climb_ends nodes visited current"
proof (induction arbitrary: visited rule: rooted.induct)
  case (up i)
  have "climb_ends nodes (insert i visited) (parent_of nodes i)"
  proof (rule up.IH)
    fix p q assume p: "parent_of nodes i = Some p" and q: "q \<in> insert i visited"
    then have step: "(i, p) \<in> parent_steps nodes" by (simp add: parent_steps_def)
    show "(p, q) \<notin> (parent_steps nodes)\<^sup>*"
    proof
      assume pq: "(p, q) \<in> (parent_steps nodes)\<^sup>*"
      with step have "(i, q) \<in> (parent_steps nodes)\<^sup>*" "(i, q) \<in> (parent_steps nodes)\<^sup>+"
        by (meson converse_rtrancl_into_rtrancl rtrancl_into_trancl2)+
      with q up.prems up.hyps rooted_acyclic [of nodes "Some i"] show False by auto
    qed
  qed
  with up.prems show ?case by auto
qed simp

lemma climb_ends_iff: "climb_ends nodes {} current \<longleftrightarrow> rooted nodes current"
  using climb_ends_rooted rooted_climb_ends by blast

section \<open>The graphs it accepts\<close>

text \<open>The definitions a node carries, which count against the two bounds, and its other bounds.\<close>

definition definitions_of :: "catalog_node_details \<Rightarrow> string list" where
  "definitions_of details =
     (case details of
        DetailsColumn column \<Rightarrow>
          List.map_filter id
            [Option.bind (fc_postgres (col_facets column)) pg_default_expr,
             Option.bind (fc_sql_server (col_facets column)) ms_default_expr]
      | DetailsIndex index \<Rightarrow> List.map_filter id [ix_partial_predicate index]
      | DetailsConstraint constraint \<Rightarrow> List.map_filter id [ck_definition constraint]
      | DetailsTrigger trigger \<Rightarrow> List.map_filter id [tr_definition trigger]
      | _ \<Rightarrow> [])"

definition details_within :: "catalog_node_details \<Rightarrow> bool" where
  "details_within details \<longleftrightarrow>
     list_all (\<lambda>d. length d \<le> max_definition_bytes) (definitions_of details) \<and>
     (case details of
        DetailsNone \<Rightarrow> True
      | DetailsObject args \<Rightarrow> opt_all strings_valid args
      | DetailsColumn column \<Rightarrow>
          text_within max_detail_string (col_name column) \<and> type_valid (col_type_ref column)
          \<and> (fc_postgres (col_facets column) = None \<or> fc_sql_server (col_facets column) = None)
          \<and> opt_all (\<lambda>pg. opt_all strings_valid (pg_enum_values pg)) (fc_postgres (col_facets column))
          \<and> opt_all (\<lambda>ms. opt_all (\<lambda>v. length v \<le> max_detail_string) (ms_tds_type ms)
                 \<and> opt_all (\<lambda>v. length v \<le> max_detail_string) (ms_collation ms))
               (fc_sql_server (col_facets column))
      | DetailsIndex index \<Rightarrow>
          text_within max_detail_string (ix_name index) \<and> strings_valid (ix_columns index)
      | DetailsConstraint constraint \<Rightarrow>
          text_within max_detail_string (ck_name constraint) \<and> strings_valid (ck_columns constraint)
          \<and> opt_all (text_within max_detail_string) (ck_references constraint)
      | DetailsTrigger trigger \<Rightarrow>
          text_within max_detail_string (tr_name trigger) \<and> length (tr_events trigger) \<le> 4
          \<and> strings_valid (tr_columns trigger)
      | DetailsRoutine arguments return_type \<Rightarrow>
          strings_valid arguments \<and> opt_all type_valid return_type
      | DetailsType base_type \<Rightarrow> opt_all type_valid base_type)"

definition definition_bytes :: "catalog_node list \<Rightarrow> nat" where
  "definition_bytes nodes =
     sum_list (map length (concat (map (definitions_of \<circ> cn_details) nodes)))"

definition columns_of :: "catalog_node list \<Rightarrow> catalog_node list" where
  "columns_of nodes = filter (\<lambda>n. cn_kind n = NodeColumn) nodes"

definition node_sound :: "catalog_env \<Rightarrow> catalog_node \<Rightarrow> bool" where
  "node_sound env n \<longleftrightarrow>
     node_strings_ok env n \<and> details_within (cn_details n) \<and> details_match (cn_kind n) (cn_details n)
     \<and> (cn_kind n = NodeCatalog \<longleftrightarrow> cn_parent_id n = None)
     \<and> (cn_kind n = NodeColumn \<longleftrightarrow> cn_ordinal n \<noteq> None) \<and> cn_ordinal n \<noteq> Some 0"

lemma add_definition_Some:
  "used \<le> max_total_definition_bytes \<Longrightarrow>
   add_definition used value = Some b \<longleftrightarrow>
     list_all (\<lambda>d. length d \<le> max_definition_bytes) (List.map_filter id [value])
     \<and> b = used + sum_list (map length (List.map_filter id [value])) \<and> b \<le> max_total_definition_bytes"
  by (auto simp: add_definition_def map_filter_simps split: option.splits)

lemma guard_Some: "guard c x = Some y \<longleftrightarrow> c \<and> x = Some y"
  by (simp add: guard_def)

lemma validate_node_details_Some:
  assumes "used \<le> max_total_definition_bytes"
  shows "validate_node_details used d = Some b \<longleftrightarrow>
    details_within d \<and> b = used + sum_list (map length (definitions_of d))
    \<and> b \<le> max_total_definition_bytes"
proof (cases d)
  case (DetailsColumn column)
  then show ?thesis using assms
    by (auto simp: validate_node_details_def details_within_def definitions_of_def guard_Some
      add_definition_Some map_filter_simps split: option.splits)
qed (use assms in \<open>auto simp: validate_node_details_def details_within_def definitions_of_def
  guard_Some add_definition_Some map_filter_simps\<close>)

definition column_key :: "catalog_node \<Rightarrow> string option \<times> u32" where
  "column_key n = (cn_parent_id n, the (cn_ordinal n))"

lemma definition_bytes_simps [simp]:
  "definition_bytes [] = 0"
  "definition_bytes (n # ns) = sum_list (map length (definitions_of (cn_details n))) + definition_bytes ns"
  by (simp_all add: definition_bytes_def)

lemma columns_of_simps [simp]:
  "columns_of [] = []"
  "columns_of (n # ns) = (if cn_kind n = NodeColumn then n # columns_of ns else columns_of ns)"
  by (simp_all add: columns_of_def)

lemma ordinal_ok_iff:
  "ordinal_ok n ordinals \<longleftrightarrow>
     (cn_kind n = NodeColumn \<longleftrightarrow> cn_ordinal n \<noteq> None) \<and> cn_ordinal n \<noteq> Some 0
     \<and> column_ordinal n \<inter> ordinals = {}"
  by (cases "cn_kind n"; cases "cn_ordinal n") (auto simp: ordinal_ok_def column_ordinal_def word_neq_0_conv)

lemma column_ordinal_key:
  "node_sound env n \<Longrightarrow> column_ordinal n = (if cn_kind n = NodeColumn then {column_key n} else {})"
  by (cases "cn_kind n"; cases "cn_ordinal n")
    (auto simp: column_ordinal_def column_key_def node_sound_def)

lemma validate_node_Inr:
  assumes "nv_definition_bytes v \<le> max_total_definition_bytes"
  shows "validate_node env v n = Inr v' \<longleftrightarrow>
    node_sound env n \<and> cn_id n \<notin> nv_ids v \<and> column_ordinal n \<inter> nv_ordinals v = {}
    \<and> nv_definition_bytes v + definition_bytes [n] \<le> max_total_definition_bytes
    \<and> v' = \<lparr>nv_ids = insert (cn_id n) (nv_ids v), nv_ordinals = column_ordinal n \<union> nv_ordinals v,
           nv_definition_bytes = nv_definition_bytes v + definition_bytes [n]\<rparr>"
proof (cases "validate_node_details (nv_definition_bytes v) (cn_details n)")
  case None
  then have "\<not> (details_within (cn_details n)
      \<and> nv_definition_bytes v + definition_bytes [n] \<le> max_total_definition_bytes)"
    using validate_node_details_Some [OF assms, of "cn_details n"] by auto
  with None show ?thesis by (auto simp: validate_node_def node_sound_def)
next
  case (Some b)
  then have "details_within (cn_details n)" "b = nv_definition_bytes v + definition_bytes [n]"
      "b \<le> max_total_definition_bytes"
    by (simp_all add: validate_node_details_Some [OF assms])
  with Some show ?thesis by (auto simp: validate_node_def node_sound_def ordinal_ok_iff)
qed

definition fresh_nodes :: "node_validation \<Rightarrow> catalog_node list \<Rightarrow> bool" where
  "fresh_nodes v nodes \<longleftrightarrow>
     distinct (map cn_id nodes) \<and> node_ids nodes \<inter> nv_ids v = {}
     \<and> distinct (map column_key (columns_of nodes))
     \<and> column_key ` set (columns_of nodes) \<inter> nv_ordinals v = {}
     \<and> nv_definition_bytes v + definition_bytes nodes \<le> max_total_definition_bytes"

lemma validate_nodes_Inr:
  "nv_definition_bytes v \<le> max_total_definition_bytes \<Longrightarrow>
   (\<exists>v'. res_fold (validate_node env) v nodes = Inr v') \<longleftrightarrow>
     list_all (node_sound env) nodes \<and> fresh_nodes v nodes"
proof (induction nodes arbitrary: v)
  case (Cons n ns)
  let ?v = "\<lparr>nv_ids = insert (cn_id n) (nv_ids v), nv_ordinals = column_ordinal n \<union> nv_ordinals v,
    nv_definition_bytes = nv_definition_bytes v + definition_bytes [n]\<rparr>"
  let ?first = "node_sound env n \<and> cn_id n \<notin> nv_ids v \<and> column_ordinal n \<inter> nv_ordinals v = {}
    \<and> nv_definition_bytes v + definition_bytes [n] \<le> max_total_definition_bytes"
  have "(\<exists>v'. res_fold (validate_node env) v (n # ns) = Inr v') \<longleftrightarrow>
      ?first \<and> (\<exists>v'. res_fold (validate_node env) ?v ns = Inr v')"
    by (auto simp: res_bind_Inr_conv validate_node_Inr [OF Cons.prems])
  also have "\<dots> \<longleftrightarrow> ?first \<and> list_all (node_sound env) ns \<and> fresh_nodes ?v ns"
    using Cons.IH [of ?v] by auto
  also have "\<dots> \<longleftrightarrow> list_all (node_sound env) (n # ns) \<and> fresh_nodes v (n # ns)"
    using column_ordinal_key [of env n]
    by (auto simp: fresh_nodes_def node_ids_def image_iff)
  finally show ?case .
qed (simp add: fresh_nodes_def node_ids_def)

text \<open>
  A sound graph: within its bounds; identifiers and the ordinals of a relation's columns are
  distinct; catalogs and only they have no parent, every other node has one in the graph, hangs
  below a catalog and is the target of a containment edge from its parent; edges name nodes of
  the graph and follow the rules of their kind.
\<close>

definition sound_graph :: "catalog_env \<Rightarrow> catalog_graph_data \<Rightarrow> bool" where
  "sound_graph env graph \<longleftrightarrow>
     list_all (node_sound env) (cg_nodes graph)
     \<and> definition_bytes (cg_nodes graph) \<le> max_total_definition_bytes
     \<and> distinct (map cn_id (cg_nodes graph))
     \<and> distinct (map column_key (columns_of (cg_nodes graph)))
     \<and> (\<forall>n\<in>set (cg_nodes graph). \<forall>p. cn_parent_id n = Some p \<longrightarrow>
          p \<in> node_ids (cg_nodes graph) \<and> rooted (cg_nodes graph) (Some p)
          \<and> (\<exists>e\<in>set (cg_edges graph). ce_kind e = EdgeContains \<and> ce_from e = p \<and> ce_to e = Some (cn_id n)))
     \<and> (\<forall>e\<in>set (cg_edges graph). edge_ends_known (cg_nodes graph) e \<and> certainty_ok e
          \<and> contains_ok (cg_nodes graph) e \<and> pairs_ok (cg_nodes graph) e
          \<and> foreign_key_ok (cg_nodes graph) e \<and> opt_all (text_within 4096) (ce_referenced_path e))"

lemma res_map_all: "(\<exists>ys. res_map f xs = Inr ys) \<longleftrightarrow> (\<forall>x\<in>set xs. \<exists>y. f x = Inr y)"
  by (induction xs) (auto split: sum.splits)

lemma containment_edge:
  "(p, i) \<in> containment edges \<longleftrightarrow>
   (\<exists>e\<in>set edges. ce_kind e = EdgeContains \<and> ce_from e = p \<and> ce_to e = Some i)"
  by (force simp: containment_def map_filter_def)

lemma validate_graph_Inr:
  "validate_graph env graph max_nodes max_edges = Inr () \<longleftrightarrow>
     length (cg_nodes graph) \<le> max_nodes \<and> length (cg_edges graph) \<le> max_edges
     \<and> coverage_within max_nodes (cg_coverage graph) \<and> sound_graph env graph"
proof -
  let ?ns = "cg_nodes graph" and ?es = "cg_edges graph"
  let ?v = "\<lparr>nv_ids = {}, nv_ordinals = {}, nv_definition_bytes = 0\<rparr>"
  have nodes: "(\<exists>v'. res_fold (validate_node env) ?v ?ns = Inr v') \<longleftrightarrow>
      list_all (node_sound env) ?ns \<and> fresh_nodes ?v ?ns"
    by (rule validate_nodes_Inr) simp
  have parents: "(\<exists>u. res_map (validate_parent ?ns) ?ns = Inr u) \<longleftrightarrow>
      (\<forall>n\<in>set ?ns. opt_all (\<lambda>p. p \<in> node_ids ?ns \<and> rooted ?ns (Some p)) (cn_parent_id n))"
    unfolding res_map_all
    by (intro ball_cong refl) (auto simp: validate_parent_def opt_all_def climb_ends_iff split: option.splits)
  have edges: "(\<exists>u. res_map (validate_edge ?ns) ?es = Inr u) \<longleftrightarrow>
      (\<forall>e\<in>set ?es. edge_ends_known ?ns e \<and> certainty_ok e \<and> contains_ok ?ns e \<and> pairs_ok ?ns e
         \<and> foreign_key_ok ?ns e \<and> opt_all (text_within 4096) (ce_referenced_path e))"
    unfolding res_map_all by (intro ball_cong refl) (auto simp: validate_edge_def)
  have contained: "(\<exists>u. res_map (validate_containment ?es) ?ns = Inr u) \<longleftrightarrow>
      (\<forall>n\<in>set ?ns. opt_all (\<lambda>p. \<exists>e\<in>set ?es. ce_kind e = EdgeContains \<and> ce_from e = p
         \<and> ce_to e = Some (cn_id n)) (cn_parent_id n))"
    unfolding res_map_all
    by (intro ball_cong refl) (auto simp: validate_containment_def containment_edge opt_all_def split: option.splits)
  have "validate_graph env graph max_nodes max_edges = Inr () \<longleftrightarrow>
      length ?ns \<le> max_nodes \<and> length ?es \<le> max_edges \<and> coverage_within max_nodes (cg_coverage graph)
      \<and> (\<exists>v'. res_fold (validate_node env) ?v ?ns = Inr v')
      \<and> (\<exists>u. res_map (validate_parent ?ns) ?ns = Inr u)
      \<and> (\<exists>u. res_map (validate_edge ?ns) ?es = Inr u)
      \<and> (\<exists>u. res_map (validate_containment ?es) ?ns = Inr u)"
    by (auto simp: validate_graph_def Let_def res_bind_Inr_conv)
  also have "\<dots> \<longleftrightarrow> length ?ns \<le> max_nodes \<and> length ?es \<le> max_edges
      \<and> coverage_within max_nodes (cg_coverage graph) \<and> sound_graph env graph"
    unfolding nodes parents edges contained sound_graph_def fresh_nodes_def opt_all_def
    by (fastforce split: option.splits)
  finally show ?thesis .
qed

text \<open>
  C21: validation accepts exactly the sound graphs within the limits. In particular its walk along
  the parents of each node, which ends on every input, finds exactly the containment cycles, and
  the counters its loop carries are exactly the distinctness of identifiers and column ordinals
  and the bound on the definitions of the whole graph.
\<close>

theorem validation_accepts_sound_graphs:
  "validate_graph env graph max_nodes max_edges = Inr () \<longleftrightarrow>
     length (cg_nodes graph) \<le> max_nodes \<and> length (cg_edges graph) \<le> max_edges
     \<and> coverage_within max_nodes (cg_coverage graph) \<and> sound_graph env graph"
  by (rule validate_graph_Inr)

section \<open>An example\<close>

text \<open>A schema with two overloads of one routine.\<close>

definition example_env :: catalog_env where
  "example_env =
     \<lparr>ca_sha256_hex = id, ca_node_json = (\<lambda>_. None), ca_edge_json = (\<lambda>_. None),
      ca_value_json = (\<lambda>_. Some []), ca_data_json = (\<lambda>_. Some [])\<rparr>"

definition example_routine :: "string \<Rightarrow> string \<Rightarrow> catalog_node" where
  "example_routine i argument =
     catalog_node_new i NodeScalarFunction ''f'' (''db.s.f('' @ argument @ '')'') (Some ''s'')
       (DetailsObject (Some [argument]))"

definition example_graph :: catalog_graph_data where
  "example_graph =
     \<lparr>cg_coverage = coverage_complete,
      cg_nodes = [catalog_node_new ''c'' NodeCatalog ''db'' ''db'' None DetailsNone,
                  catalog_node_new ''s'' NodeSchema ''s'' ''db.s'' (Some ''c'') DetailsNone,
                  example_routine ''f1'' ''int'', example_routine ''f2'' ''text''],
      cg_edges = [contain ''c'' ''s'', contain ''s'' ''f1'', contain ''s'' ''f2'']\<rparr>"

definition example_catalog :: catalog_graph where
  "example_catalog =
     \<lparr>gr_revision = 1, gr_content_digest = ''d'', gr_invalidation_epoch = 0, gr_captured_at = ''t'',
      gr_provider = ''p'', gr_database_identity = ''i'', gr_data = example_graph\<rparr>"

lemma example_valid: "validate_graph example_env example_graph 100000 500000 = Inr ()"
  by (simp add: validate_graph_Inr sound_graph_def example_graph_def example_routine_def
    catalog_node_new_def contain_def relation_def node_sound_def node_strings_ok_def text_within_def
    details_within_def definitions_of_def details_match_def strings_valid_def column_key_def
    max_detail_items_def max_detail_string_def max_definition_bytes_def max_total_definition_bytes_def
    node_ids_def parent_of_def node_at_def nodes_by_id_def edge_ends_known_def certainty_ok_def
    contains_ok_def pairs_ok_def foreign_key_ok_def coverage_within_def coverage_complete_def)

end
