(* ===== verification/Catalog_Projection.thy ===== *)
theory Catalog_Projection
  imports Catalog_Validation
begin

text \<open>
  The two projections of \<^verbatim>\<open>crates/core/src/catalog.rs\<close>: \<^verbatim>\<open>project_graph\<close>, which restricts a
  graph to the schemas and kinds of a request, and \<^verbatim>\<open>project_diagram\<close>, which selects the
  neighbourhood of some objects for a diagram. Both walk along parents without a bound, so both are
  partial here; validated graphs are where the walks end.
\<close>

section \<open>Walks\<close>

fun filter_opt :: "('a \<Rightarrow> bool option) \<Rightarrow> 'a list \<Rightarrow> 'a list option" where
  "filter_opt P [] = Some []"
| "filter_opt P (x # xs) =
     (case P x of
        None \<Rightarrow> None
      | Some keep \<Rightarrow> map_option (\<lambda>ys. if keep then x # ys else ys) (filter_opt P xs))"

text \<open>\<^verbatim>\<open>while let Some(id) = current { if found(id) { return true }; current = parent(id) }\<close>.\<close>

definition climb_until :: "catalog_node list \<Rightarrow> (string \<Rightarrow> bool) \<Rightarrow> string option \<Rightarrow> string option option" where
  "climb_until nodes found =
     while_option (\<lambda>current. case current of None \<Rightarrow> False | Some i \<Rightarrow> \<not> found i)
       (\<lambda>current. Option.bind current (parent_of nodes))"

text \<open>The loops that retain the ancestors of every selected node.\<close>

definition retain_parents :: "catalog_node list \<Rightarrow> string option \<Rightarrow> string set \<Rightarrow> string set option" where
  "retain_parents nodes parent retained =
     map_option snd (while_option (\<lambda>(parent, _). parent \<noteq> None)
       (\<lambda>(parent, retained). (Option.bind parent (parent_of nodes), insert (the parent) retained))
       (parent, retained))"

fun retain_ancestors :: "catalog_node list \<Rightarrow> string list \<Rightarrow> string set \<Rightarrow> string set option" where
  "retain_ancestors nodes [] retained = Some retained"
| "retain_ancestors nodes (i # selected) retained =
     Option.bind (retain_parents nodes (parent_of nodes i) retained) (retain_ancestors nodes selected)"

definition edge_within :: "string set \<Rightarrow> catalog_edge \<Rightarrow> bool" where
  "edge_within retained edge \<longleftrightarrow>
     ce_from edge \<in> retained
     \<and> opt_all (\<lambda>t. t \<in> retained) (ce_to edge)
     \<and> list_all (\<lambda>(a, b). a \<in> retained \<and> b \<in> retained) (ce_column_pairs edge)"

definition retain_valid_edges :: "catalog_edge list \<Rightarrow> string set \<Rightarrow> catalog_edge list" where
  "retain_valid_edges edges retained = filter (edge_within retained) edges"

section \<open>Projection on a request\<close>

definition schema_allowed :: "catalog_graph_options \<Rightarrow> catalog_node \<Rightarrow> bool" where
  "schema_allowed options node \<longleftrightarrow>
     cn_kind node = NodeSchema \<and> opt_all (\<lambda>schemas. cn_name node \<in> set schemas) (go_schemas options)"

definition allowed_schema_ids :: "catalog_graph_options \<Rightarrow> catalog_node list \<Rightarrow> string set" where
  "allowed_schema_ids options nodes = node_ids (filter (schema_allowed options) nodes)"

definition in_allowed_schema ::
  "catalog_graph_options \<Rightarrow> catalog_node list \<Rightarrow> catalog_node \<Rightarrow> bool option" where
  "in_allowed_schema options nodes node =
     (if go_schemas options = None \<or> cn_kind node = NodeCatalog then Some True
      else map_option (\<lambda>found. found \<noteq> None)
             (climb_until nodes (\<lambda>i. i \<in> allowed_schema_ids options nodes) (Some (cn_id node))))"

definition selected_nodes ::
  "catalog_graph_options \<Rightarrow> catalog_node list \<Rightarrow> catalog_node list option" where
  "selected_nodes options nodes =
     filter_opt (\<lambda>node. map_option
         (\<lambda>inside. inside \<and> opt_all (\<lambda>kinds. cn_kind node \<in> set kinds) (go_kinds options))
         (in_allowed_schema options nodes node)) nodes"

definition project_graph :: "catalog_graph_data \<Rightarrow> catalog_graph_options \<Rightarrow> catalog_graph_data option" where
  "project_graph graph options =
     (let nodes = cg_nodes graph;
          cov = (cg_coverage graph)
            \<lparr>cv_requested_kinds := (case go_kinds options of None \<Rightarrow> [] | Some kinds \<Rightarrow> kinds),
             cv_covered_schemas := map cn_qualified_name
               (filter (\<lambda>n. cn_id n \<in> allowed_schema_ids options nodes) nodes)\<rparr>
      in Option.bind (selected_nodes options nodes) (\<lambda>selected.
         Option.bind (retain_ancestors nodes (map cn_id selected) (node_ids selected)) (\<lambda>retained.
         let kept = filter (\<lambda>n. cn_id n \<in> retained) nodes;
             edges = retain_valid_edges (cg_edges graph) retained
         in Some (case go_max_nodes options of
              None \<Rightarrow> \<lparr>cg_coverage = cov, cg_nodes = kept, cg_edges = edges\<rparr>
            | Some bound \<Rightarrow>
                (if length kept > unat bound
                 then \<lparr>cg_coverage = cov\<lparr>cv_state := CoveragePartial, cv_truncated_at_nodes := Some bound\<rparr>,
                       cg_nodes = take (unat bound) kept,
                       cg_edges = retain_valid_edges edges (node_ids (take (unat bound) kept))\<rparr>
                 else \<lparr>cg_coverage = cov, cg_nodes = kept, cg_edges = edges\<rparr>)))))"

section \<open>Walks end on rooted nodes\<close>

definition chain :: "catalog_node list \<Rightarrow> string option \<Rightarrow> string set" where
  "chain nodes current = {p. \<exists>i. current = Some i \<and> (i, p) \<in> (parent_steps nodes)\<^sup>*}"

lemma chain_simps [simp]:
  "chain nodes None = {}"
  "chain nodes (Some i) = insert i (chain nodes (parent_of nodes i))"
proof -
  show "chain nodes (Some i) = insert i (chain nodes (parent_of nodes i))"
    by (auto simp: chain_def parent_steps_def elim: converse_rtranclE
        intro: converse_rtrancl_into_rtrancl)
qed (simp add: chain_def)

lemma climb_until_rooted:
  "rooted nodes current \<Longrightarrow>
   \<exists>r. climb_until nodes found current = Some r \<and> (r \<noteq> None \<longleftrightarrow> (\<exists>i\<in>chain nodes current. found i))
      \<and> opt_all (\<lambda>i. found i \<and> i \<in> chain nodes current) r"
proof (induction rule: rooted.induct)
  case top
  then show ?case by (simp add: climb_until_def while_option_unfold)
next
  case (up i)
  then show ?case
    by (cases "found i") (auto simp: climb_until_def while_option_unfold [where s = "Some i"] opt_all_def
        split: option.splits)
qed

lemma retain_parents_rooted:
  "rooted nodes current \<Longrightarrow> retain_parents nodes current retained = Some (chain nodes current \<union> retained)"
proof (induction arbitrary: retained rule: rooted.induct)
  case top
  then show ?case by (simp add: retain_parents_def while_option_unfold)
next
  case (up i)
  then show ?case
    using up.IH [of "insert i retained"]
    by (simp add: retain_parents_def while_option_unfold [where s = "(Some i, retained)"])
qed

lemma retain_ancestors_rooted:
  "\<forall>i\<in>set selected. rooted nodes (parent_of nodes i) \<Longrightarrow>
   retain_ancestors nodes selected retained =
     Some ((\<Union>i\<in>set selected. chain nodes (parent_of nodes i)) \<union> retained)"
  by (induction selected arbitrary: retained) (auto simp: retain_parents_rooted)

lemma filter_opt_Some:
  "(\<And>x. x \<in> set xs \<Longrightarrow> P x = Some (Q x)) \<Longrightarrow> filter_opt P xs = Some (filter Q xs)"
  by (induction xs) auto

lemma sound_distinct: "sound_graph env graph \<Longrightarrow> distinct (map cn_id (cg_nodes graph))"
  by (simp add: sound_graph_def)

lemma sound_rooted:
  assumes "sound_graph env graph" "n \<in> set (cg_nodes graph)"
  shows "rooted (cg_nodes graph) (cn_parent_id n)" "rooted (cg_nodes graph) (Some (cn_id n))"
proof -
  show r: "rooted (cg_nodes graph) (cn_parent_id n)"
    using assms by (cases "cn_parent_id n") (auto simp: sound_graph_def)
  show "rooted (cg_nodes graph) (Some (cn_id n))"
    using r by (simp add: parent_of_node [OF sound_distinct [OF assms(1)] assms(2)])
qed

section \<open>What the projection keeps\<close>

text \<open>
  A node is inside when it, or a node above it, is a requested schema; the projection keeps the
  nodes inside of a requested kind and everything above them.
\<close>

definition inside :: "catalog_graph_options \<Rightarrow> catalog_node list \<Rightarrow> catalog_node \<Rightarrow> bool" where
  "inside options nodes n \<longleftrightarrow>
     (go_schemas options = None \<or> cn_kind n = NodeCatalog
      \<or> (\<exists>m\<in>set nodes. schema_allowed options m \<and> (cn_id n, cn_id m) \<in> (parent_steps nodes)\<^sup>*))
     \<and> opt_all (\<lambda>kinds. cn_kind n \<in> set kinds) (go_kinds options)"

definition projected :: "catalog_graph_options \<Rightarrow> catalog_node list \<Rightarrow> catalog_node \<Rightarrow> bool" where
  "projected options nodes n \<longleftrightarrow>
     (\<exists>m\<in>set nodes. inside options nodes m \<and> (cn_id m, cn_id n) \<in> (parent_steps nodes)\<^sup>*)"

lemma selected_nodes_sound:
  assumes "sound_graph env graph"
  shows "selected_nodes options (cg_nodes graph) =
    Some (filter (inside options (cg_nodes graph)) (cg_nodes graph))"
  unfolding selected_nodes_def
proof (rule filter_opt_Some)
  fix n assume n: "n \<in> set (cg_nodes graph)"
  let ?found = "\<lambda>i. i \<in> allowed_schema_ids options (cg_nodes graph)"
  obtain r where r: "climb_until (cg_nodes graph) ?found (Some (cn_id n)) = Some r"
      "r \<noteq> None \<longleftrightarrow> (\<exists>i\<in>chain (cg_nodes graph) (Some (cn_id n)). ?found i)"
    using climb_until_rooted [OF sound_rooted(2) [OF assms n], of ?found] by auto
  have "(\<exists>i\<in>chain (cg_nodes graph) (Some (cn_id n)). ?found i) \<longleftrightarrow>
      (\<exists>m\<in>set (cg_nodes graph). schema_allowed options m
         \<and> (cn_id n, cn_id m) \<in> (parent_steps (cg_nodes graph))\<^sup>*)"
    by (auto simp: chain_def allowed_schema_ids_def node_ids_def simp del: chain_simps)
  with r show "map_option (\<lambda>inside. inside \<and> opt_all (\<lambda>kinds. cn_kind n \<in> set kinds) (go_kinds options))
      (in_allowed_schema options (cg_nodes graph) n) = Some (inside options (cg_nodes graph) n)"
    by (cases "go_schemas options = None \<or> cn_kind n = NodeCatalog")
      (auto simp: in_allowed_schema_def inside_def)
qed

lemma retained_projected:
  assumes "sound_graph env graph"
  defines "nodes \<equiv> cg_nodes graph"
  obtains R where "retain_ancestors nodes (map cn_id (filter (inside options nodes) nodes))
      (node_ids (filter (inside options nodes) nodes)) = Some R"
    "filter (\<lambda>n. cn_id n \<in> R) nodes = filter (projected options nodes) nodes"
proof -
  let ?R = "{i. \<exists>m\<in>set nodes. inside options nodes m \<and> (cn_id m, i) \<in> (parent_steps nodes)\<^sup>*}"
  let ?sel = "filter (inside options nodes) nodes"
  have "retain_ancestors nodes (map cn_id ?sel) (node_ids ?sel)
      = Some ((\<Union>i\<in>set (map cn_id ?sel). chain nodes (parent_of nodes i)) \<union> node_ids ?sel)"
    by (rule retain_ancestors_rooted)
      (auto simp: nodes_def parent_of_node [OF sound_distinct [OF assms(1)]] sound_rooted [OF assms(1)])
  also have "(\<Union>i\<in>set (map cn_id ?sel). chain nodes (parent_of nodes i)) \<union> node_ids ?sel
      = (\<Union>i\<in>set (map cn_id ?sel). chain nodes (Some i))"
    by (auto simp: node_ids_def)
  also have "\<dots> = ?R" by (auto simp: chain_def simp del: chain_simps)
  finally show thesis by (rule that) (simp add: projected_def [abs_def])
qed

lemma wanted_parents:
  assumes "sound_graph env graph" "n \<in> set (filter (projected options (cg_nodes graph)) (cg_nodes graph))"
  shows "opt_all (\<lambda>p. p \<in> node_ids (filter (projected options (cg_nodes graph)) (cg_nodes graph)))
    (cn_parent_id n)"
proof (cases "cn_parent_id n")
  case (Some p)
  let ?ns = "cg_nodes graph"
  have n: "n \<in> set ?ns" "projected options ?ns n" using assms(2) by auto
  have "(cn_id n, p) \<in> parent_steps ?ns"
    using Some by (simp add: parent_steps_def parent_of_node [OF sound_distinct [OF assms(1)] n(1)])
  moreover have "p \<in> node_ids ?ns" using assms(1) n(1) Some by (auto simp: sound_graph_def)
  then obtain q where "q \<in> set ?ns" "cn_id q = p" by (auto simp: node_ids_def)
  ultimately show ?thesis
    using n(2) Some by (force simp: node_ids_def projected_def intro: rtrancl_into_rtrancl)
qed simp

lemma node_ids_take: "node_ids (take k ns) \<subseteq> node_ids ns"
  by (auto simp: node_ids_def dest: in_set_takeD)

lemma edge_within_mono: "edge_within S e \<Longrightarrow> S \<subseteq> T \<Longrightarrow> edge_within T e"
  by (auto simp: edge_within_def opt_all_def list_all_iff split: option.splits)

text \<open>
  On a validated graph the projection ends. Unless it truncates, it keeps exactly the nodes
  inside the requested schemas and of the requested kinds, with everything above them, so no kept
  node has lost its parent; truncation keeps the first of them and marks the coverage partial; and
  in both cases the edges kept are exactly those all of whose ends are kept.
\<close>

theorem projection_is_closed:
  assumes "validate_graph env graph max_nodes max_edges = Inr ()"
  shows "\<exists>g. project_graph graph options = Some g
    \<and> (let wanted = filter (projected options (cg_nodes graph)) (cg_nodes graph);
            whole = opt_all (\<lambda>b. length wanted \<le> unat b) (go_max_nodes options) in
        cg_nodes g = (if whole then wanted else take (unat (the (go_max_nodes options))) wanted)
        \<and> cg_edges g = filter (edge_within (node_ids (cg_nodes g))) (cg_edges graph)
        \<and> (whole \<longrightarrow> (\<forall>n\<in>set (cg_nodes g). opt_all (\<lambda>p. p \<in> node_ids (cg_nodes g)) (cn_parent_id n)))
        \<and> (\<not> whole \<longrightarrow> cv_state (cg_coverage g) = CoveragePartial
              \<and> cv_truncated_at_nodes (cg_coverage g) = go_max_nodes options))"
proof -
  let ?ns = "cg_nodes graph" and ?es = "cg_edges graph"
  let ?wanted = "filter (projected options ?ns) ?ns"
  have sound: "sound_graph env graph" using assms by (simp add: validate_graph_Inr)
  obtain R where R: "retain_ancestors ?ns (map cn_id (filter (inside options ?ns) ?ns))
      (node_ids (filter (inside options ?ns) ?ns)) = Some R"
      "filter (\<lambda>n. cn_id n \<in> R) ?ns = ?wanted"
    by (rule retained_projected [OF sound])
  have known: "edge_ends_known ?ns e" if "e \<in> set ?es" for e
    using sound that by (simp add: sound_graph_def)
  have ids: "i \<in> R \<and> i \<in> node_ids ?ns \<longleftrightarrow> i \<in> node_ids ?wanted" for i
    using R(2) by (auto simp: node_ids_def simp flip: R(2))
  have edges: "retain_valid_edges ?es R = filter (edge_within (node_ids ?wanted)) ?es"
    unfolding retain_valid_edges_def
    by (intro filter_cong refl)
      (use known ids in \<open>fastforce simp: edge_within_def edge_ends_known_def opt_all_def list_all_iff split: option.splits\<close>)
  have cut: "retain_valid_edges (filter (edge_within (node_ids ?wanted)) ?es) (node_ids (take k ?wanted))
      = filter (edge_within (node_ids (take k ?wanted))) ?es" for k
    unfolding retain_valid_edges_def filter_filter
    by (intro filter_cong refl) (use edge_within_mono [OF _ node_ids_take] in blast)
  have up: "opt_all (\<lambda>p. p \<in> node_ids ?wanted) (cn_parent_id n)" if n: "n \<in> set ?wanted" for n
    by (rule wanted_parents [OF sound n])
  show ?thesis
    using R edges cut up
    by (cases "go_max_nodes options")
      (auto simp: project_graph_def Let_def selected_nodes_sound [OF sound])
qed

theorem projection_is_closed_witness:
  "\<exists>g. project_graph example_graph
        \<lparr>go_kinds = None, go_schemas = Some [''s''], go_include_definitions = False, go_max_nodes = Some 2\<rparr> = Some g
     \<and> length (cg_nodes g) \<le> 2"
  using projection_is_closed [OF example_valid,
      of "\<lparr>go_kinds = None, go_schemas = Some [''s''], go_include_definitions = False, go_max_nodes = Some 2\<rparr>"]
  by (fastforce simp: Let_def split: if_splits)

section \<open>Diagrams\<close>

datatype diagram_projection_error = UnknownObject | DiagramLimitExceeded

record diagram_request =
  dq_expected_revision :: u64
  dq_schemas :: "string list"
  dq_object_ids :: "string list"
  dq_edge_kinds :: "catalog_edge_kind list"
  dq_neighborhood_depth :: u8
  dq_include_columns :: bool
  dq_include_routines :: bool
  dq_max_nodes :: "u32 option"

record catalog_diagram =
  dg_catalog_revision :: u64
  dg_catalog_digest :: string
  dg_nodes :: "catalog_node list"
  dg_edges :: "catalog_edge list"
  dg_omitted_nodes :: u32
  dg_omitted_edges :: u32
  dg_inaccessible_boundaries :: u32
  dg_partial :: bool

text \<open>The node above a node; an object is a node directly below a schema.\<close>

definition parent_node :: "catalog_node list \<Rightarrow> catalog_node \<Rightarrow> catalog_node option" where
  "parent_node nodes node = Option.bind (cn_parent_id node) (node_at nodes)"

definition is_object :: "catalog_node list \<Rightarrow> catalog_node \<Rightarrow> bool" where
  "is_object nodes node \<longleftrightarrow>
     (case parent_node nodes node of None \<Rightarrow> False | Some p \<Rightarrow> cn_kind p = NodeSchema)"

text \<open>The closure \<^verbatim>\<open>object_owner\<close>: up to the first object, or to nothing.\<close>

definition object_owner :: "catalog_node list \<Rightarrow> string \<Rightarrow> string option option" where
  "object_owner nodes i =
     climb_until nodes
       (\<lambda>i. case node_at nodes i of None \<Rightarrow> False | Some node \<Rightarrow> is_object nodes node) (Some i)"

definition is_routine :: "catalog_node_kind \<Rightarrow> bool" where
  "is_routine kind = (kind \<in> {NodeTableValuedFunction, NodeScalarFunction, NodeProcedure})"

definition selected_edge_kinds :: "diagram_request \<Rightarrow> catalog_edge_kind set" where
  "selected_edge_kinds request =
     (if dq_edge_kinds request = []
      then {EdgeForeignKey, EdgeDependsOn, EdgeReadsFrom, EdgeWritesTo, EdgeCalls, EdgeUsesType, EdgeTriggerOn}
      else set (dq_edge_kinds request))"

text \<open>
  The edges of the selected kinds with the objects their ends belong to; the code looks the owners
  up again in every round. An edge whose source belongs to no object is skipped.
\<close>

fun owned_edges ::
  "catalog_node list \<Rightarrow> catalog_edge_kind set \<Rightarrow> catalog_edge list
     \<Rightarrow> (catalog_edge \<times> string \<times> string option) list option" where
  "owned_edges nodes kinds [] = Some []"
| "owned_edges nodes kinds (edge # edges) =
     (if ce_kind edge \<notin> kinds then owned_edges nodes kinds edges
      else Option.bind (object_owner nodes (ce_from edge)) (\<lambda>source.
        case source of
          None \<Rightarrow> owned_edges nodes kinds edges
        | Some source \<Rightarrow>
            Option.bind (case ce_to edge of None \<Rightarrow> Some None | Some t \<Rightarrow> object_owner nodes t)
              (\<lambda>target. map_option (Cons (edge, source, target)) (owned_edges nodes kinds edges))))"

definition owners_of :: "catalog_node list \<Rightarrow> string list \<Rightarrow> string list option" where
  "owners_of nodes ids = map_option (List.map_filter id) (those (map (object_owner nodes) ids))"

definition start_objects :: "catalog_node list \<Rightarrow> diagram_request \<Rightarrow> string set option" where
  "start_objects nodes request =
     (if dq_object_ids request = []
      then Some (node_ids (filter (\<lambda>n.
             (case parent_node nodes n of
                None \<Rightarrow> False
              | Some p \<Rightarrow> cn_kind p = NodeSchema
                  \<and> (dq_schemas request = [] \<or> cn_name p \<in> set (dq_schemas request)))
             \<and> (dq_include_routines request \<or> \<not> is_routine (cn_kind n))) nodes))
      else map_option set (owners_of nodes (dq_object_ids request)))"

definition discovered :: "(catalog_edge \<times> string \<times> string option) list \<Rightarrow> string set \<Rightarrow> string list" where
  "discovered edges selected = List.map_filter (\<lambda>(_, source, target).
     if source \<in> selected then target
     else (case target of None \<Rightarrow> None | Some t \<Rightarrow> if t \<in> selected then Some source else None)) edges"

fun grow_neighborhood ::
  "nat \<Rightarrow> (catalog_edge \<times> string \<times> string option) list \<Rightarrow> string set \<Rightarrow> string set" where
  "grow_neighborhood 0 edges selected = selected"
| "grow_neighborhood (Suc depth) edges selected =
     (if discovered edges selected = [] then selected
      else grow_neighborhood depth edges (selected \<union> set (discovered edges selected)))"

text \<open>The edges between selected objects, or from one to nothing, and the nodes they name.\<close>

definition diagram_edges ::
  "(catalog_edge \<times> string \<times> string option) list \<Rightarrow> string set \<Rightarrow> catalog_edge list" where
  "diagram_edges edges selected =
     map fst (filter (\<lambda>(_, source, target). source \<in> selected \<and> opt_all (\<lambda>t. t \<in> selected) target) edges)"

definition edge_names :: "catalog_edge \<Rightarrow> string set" where
  "edge_names edge =
     {ce_from edge} \<union> set_option (ce_to edge)
     \<union> fst ` set (ce_column_pairs edge) \<union> snd ` set (ce_column_pairs edge)"

definition diagram_columns :: "catalog_node list \<Rightarrow> diagram_request \<Rightarrow> string set \<Rightarrow> string set" where
  "diagram_columns nodes request selected =
     (if dq_include_columns request
      then node_ids (filter (\<lambda>n. cn_kind n \<in> {NodeColumn, NodeIndex, NodeConstraint, NodeTrigger}
             \<and> (case cn_parent_id n of None \<Rightarrow> False | Some p \<Rightarrow> p \<in> selected)) nodes)
      else {})"

text \<open>\<^verbatim>\<open>retained\<close> before the loop that adds the ancestors, as a list of identifiers.\<close>

definition diagram_retained ::
  "catalog_node list \<Rightarrow> diagram_request \<Rightarrow> (catalog_edge \<times> string \<times> string option) list \<Rightarrow> string set
     \<Rightarrow> string set" where
  "diagram_retained nodes request edges selected =
     selected \<union> (\<Union>e\<in>set (diagram_edges edges selected). edge_names e)
     \<union> diagram_columns nodes request selected"

definition retain_all_ancestors :: "catalog_node list \<Rightarrow> string set \<Rightarrow> string set option" where
  "retain_all_ancestors nodes retained =
     retain_ancestors nodes (filter (\<lambda>i. i \<in> retained) (map cn_id nodes)) retained"

definition u32_saturated :: "nat \<Rightarrow> u32" where
  "u32_saturated n = sat_of_nat n"

text \<open>The end of \<^verbatim>\<open>project_diagram\<close>: truncation and the counts of what it leaves out.\<close>

definition build_diagram :: "catalog_graph \<Rightarrow> nat \<Rightarrow> catalog_edge list \<Rightarrow> string set \<Rightarrow> catalog_diagram" where
  "build_diagram catalog limit chosen retained =
     (let kept = take limit (filter (\<lambda>n. cn_id n \<in> retained) (cg_nodes (gr_data catalog)));
          kept_edges = filter (edge_within (node_ids kept)) chosen;
          omitted_nodes = card retained - length kept;
          omitted_edges = length chosen - length kept_edges
      in \<lparr>dg_catalog_revision = gr_revision catalog,
          dg_catalog_digest = gr_content_digest catalog,
          dg_nodes = kept, dg_edges = kept_edges,
          dg_omitted_nodes = u32_saturated omitted_nodes,
          dg_omitted_edges = u32_saturated omitted_edges,
          dg_inaccessible_boundaries = u32_saturated (length
            (filter (\<lambda>e. ce_certainty e = CatalogInaccessible) kept_edges)),
          dg_partial = (cv_state (cg_coverage (gr_data catalog)) \<noteq> CoverageComplete
            \<or> 0 < omitted_nodes \<or> 0 < omitted_edges)\<rparr>)"

definition project_diagram ::
  "catalog_graph \<Rightarrow> diagram_request \<Rightarrow> nat \<Rightarrow> (diagram_projection_error, catalog_diagram) result option" where
  "project_diagram catalog request hard_max_nodes =
     (let limit = (case dq_max_nodes request of None \<Rightarrow> 10000 | Some n \<Rightarrow> unat n);
          nodes = cg_nodes (gr_data catalog);
          kinds = selected_edge_kinds request
      in if limit = 0 \<or> limit > hard_max_nodes then Some (Inl DiagramLimitExceeded)
         else if \<not> set (dq_object_ids request) \<subseteq> node_ids nodes then Some (Inl UnknownObject)
         else Option.bind (start_objects nodes request) (\<lambda>start.
              Option.bind (owned_edges nodes kinds (cg_edges (gr_data catalog))) (\<lambda>edges.
              let selected = grow_neighborhood (unat (dq_neighborhood_depth request)) edges start
              in map_option (\<lambda>retained. Inr (build_diagram catalog limit (diagram_edges edges selected) retained))
                   (retain_all_ancestors nodes (diagram_retained nodes request edges selected)))))"

section \<open>What a diagram shows\<close>

definition owner :: "catalog_node list \<Rightarrow> string \<Rightarrow> string option" where
  "owner nodes i = Option.bind (object_owner nodes i) id"

text \<open>Two objects are linked when an edge of a selected kind joins what belongs to them.\<close>

definition linked :: "catalog_node list \<Rightarrow> catalog_edge_kind set \<Rightarrow> catalog_edge list \<Rightarrow> (string \<times> string) set" where
  "linked nodes kinds edges =
     {(a, b). \<exists>e\<in>set edges. \<exists>t. ce_kind e \<in> kinds \<and> ce_to e = Some t
        \<and> (owner nodes (ce_from e) = Some a \<and> owner nodes t = Some b
           \<or> owner nodes (ce_from e) = Some b \<and> owner nodes t = Some a)}"

definition neighbourhood :: "nat \<Rightarrow> ('a \<times> 'a) set \<Rightarrow> 'a set \<Rightarrow> 'a set" where
  "neighbourhood depth R start = {y. \<exists>x\<in>start. \<exists>k\<le>depth. (x, y) \<in> R ^^ k}"

lemma neighbourhood_0 [simp]: "neighbourhood 0 R start = start"
  by (auto simp: neighbourhood_def)

lemma neighbourhood_Suc: "neighbourhood (Suc depth) R start = neighbourhood depth R (start \<union> R `` start)"
proof (intro equalityI subsetI)
  fix y assume "y \<in> neighbourhood (Suc depth) R start"
  then obtain x k where x: "x \<in> start" "k \<le> Suc depth" "(x, y) \<in> R ^^ k"
    by (auto simp: neighbourhood_def)
  show "y \<in> neighbourhood depth R (start \<union> R `` start)"
  proof (cases k)
    case 0
    with x show ?thesis unfolding neighbourhood_def by (auto intro!: bexI [of _ y] exI [of _ "0::nat"])
  next
    case (Suc j)
    with x obtain z where "(x, z) \<in> R" "(z, y) \<in> R ^^ j" by (meson relpow_Suc_D2)
    with x Suc show ?thesis by (auto simp: neighbourhood_def)
  qed
next
  fix y assume "y \<in> neighbourhood depth R (start \<union> R `` start)"
  then obtain z k where z: "z \<in> start \<union> R `` start" "k \<le> depth" "(z, y) \<in> R ^^ k"
    by (auto simp: neighbourhood_def)
  from z(1) show "y \<in> neighbourhood (Suc depth) R start"
  proof
    assume "z \<in> start"
    with z(2,3) show ?thesis by (auto simp: neighbourhood_def intro: le_SucI)
  next
    assume "z \<in> R `` start"
    then obtain x where "x \<in> start" "(x, z) \<in> R" by auto
    with z(2,3) show ?thesis
      by (auto simp: neighbourhood_def intro!: bexI [of _ x] exI [of _ "Suc k"] relpow_Suc_I2)
  qed
qed

definition links :: "(catalog_edge \<times> string \<times> string option) list \<Rightarrow> (string \<times> string) set" where
  "links edges = {(a, b). \<exists>e. (e, a, Some b) \<in> set edges \<or> (e, b, Some a) \<in> set edges}"

lemma in_discovered:
  "x \<in> set (discovered edges selected) \<longleftrightarrow>
     (\<exists>e source. (e, source, Some x) \<in> set edges \<and> source \<in> selected)
     \<or> (\<exists>e t. (e, x, Some t) \<in> set edges \<and> x \<notin> selected \<and> t \<in> selected)"
proof (induction edges)
  case (Cons edge edges)
  obtain e source target where "edge = (e, source, target)" by (cases edge) auto
  with Cons show ?case by (cases target) (auto simp: discovered_def map_filter_simps)
qed (simp add: discovered_def map_filter_simps)

lemma discovered_links:
  "selected \<union> set (discovered edges selected) = selected \<union> links edges `` selected"
proof (rule set_eqI)
  fix x
  have "x \<in> links edges `` selected \<longleftrightarrow>
      (\<exists>e a. a \<in> selected \<and> ((e, a, Some x) \<in> set edges \<or> (e, x, Some a) \<in> set edges))"
    by (auto simp: links_def)
  then show "x \<in> selected \<union> set (discovered edges selected) \<longleftrightarrow> x \<in> selected \<union> links edges `` selected"
    unfolding Un_iff in_discovered by blast
qed

lemma neighbourhood_closed: "R `` start \<subseteq> start \<Longrightarrow> neighbourhood depth R start = start"
  by (induction depth) (simp_all add: neighbourhood_Suc Un_absorb2)

lemma grow_neighborhood_eq:
  "grow_neighborhood depth edges selected = neighbourhood depth (links edges) selected"
proof (induction depth arbitrary: selected)
  case (Suc depth)
  show ?case
  proof (cases "discovered edges selected = []")
    case True
    then have "links edges `` selected \<subseteq> selected" using discovered_links [of selected edges] by auto
    with True show ?thesis by (simp add: neighbourhood_closed)
  next
    case False
    then show ?thesis by (simp add: Suc neighbourhood_Suc discovered_links)
  qed
qed simp

lemma object_owner_known:
  assumes "sound_graph env graph" "i \<in> node_ids (cg_nodes graph)"
  shows "object_owner (cg_nodes graph) i = Some (owner (cg_nodes graph) i)"
proof -
  obtain n where n: "n \<in> set (cg_nodes graph)" "cn_id n = i" using assms(2) by (auto simp: node_ids_def)
  have "\<exists>r. object_owner (cg_nodes graph) i = Some r"
    using climb_until_rooted [OF sound_rooted(2) [OF assms(1) n(1)]] n(2)
    unfolding object_owner_def by blast
  then show ?thesis by (auto simp: owner_def)
qed

lemma owned_edges_known:
  assumes sound: "sound_graph env graph" and "set edges \<subseteq> set (cg_edges graph)"
  defines "nodes \<equiv> cg_nodes graph"
  shows "\<exists>owned. owned_edges nodes kinds edges = Some owned
    \<and> set owned = {(e, source, Option.bind (ce_to e) (owner nodes)) | e source.
         e \<in> set edges \<and> ce_kind e \<in> kinds \<and> owner nodes (ce_from e) = Some source}"
  using assms(2)
proof (induction edges)
  case (Cons e edges)
  have ends: "edge_ends_known nodes e" using sound Cons.prems by (simp add: sound_graph_def nodes_def)
  then have source: "object_owner nodes (ce_from e) = Some (owner nodes (ce_from e))"
    using object_owner_known [OF sound] by (simp add: edge_ends_known_def nodes_def)
  have target: "(case ce_to e of None \<Rightarrow> Some None | Some t \<Rightarrow> object_owner nodes t)
      = Some (Option.bind (ce_to e) (owner nodes))"
    using ends object_owner_known [OF sound] by (cases "ce_to e") (simp_all add: edge_ends_known_def nodes_def)
  from Cons obtain owned where owned: "owned_edges nodes kinds edges = Some owned"
      "set owned = {(e, source, Option.bind (ce_to e) (owner nodes)) | e source.
         e \<in> set edges \<and> ce_kind e \<in> kinds \<and> owner nodes (ce_from e) = Some source}"
    by auto
  show ?case
    by (cases "owner nodes (ce_from e)") (auto simp: source target owned(1) owned(2))
qed simp

lemma links_owned:
  assumes "set owned = {(e, source, Option.bind (ce_to e) (owner nodes)) | e source.
      e \<in> set edges \<and> ce_kind e \<in> kinds \<and> owner nodes (ce_from e) = Some source}"
  shows "links owned = linked nodes kinds edges"
proof -
  have "(e, a, Some b) \<in> set owned \<longleftrightarrow>
      e \<in> set edges \<and> ce_kind e \<in> kinds \<and> owner nodes (ce_from e) = Some a
      \<and> (\<exists>t. ce_to e = Some t \<and> owner nodes t = Some b)" for e a b
    unfolding assms by (auto simp: bind_eq_Some_conv eq_commute [of "Some b"])
  then show ?thesis unfolding links_def linked_def by auto
qed

lemma parent_step_known:
  assumes "sound_graph env graph" "(i, p) \<in> parent_steps (cg_nodes graph)"
  shows "i \<in> node_ids (cg_nodes graph) \<and> p \<in> node_ids (cg_nodes graph)"
proof -
  have parent: "parent_of (cg_nodes graph) i = Some p" using assms(2) by (simp add: parent_steps_def)
  then obtain n where "n \<in> set (cg_nodes graph)" "cn_id n = i"
    using parent_of_in by (force simp: node_ids_def)
  with parent assms(1) show ?thesis
    using parent_of_node [OF sound_distinct [OF assms(1)]] by (auto simp: sound_graph_def node_ids_def)
qed

lemma retain_all_sound:
  assumes sound: "sound_graph env graph" and base: "base \<subseteq> node_ids (cg_nodes graph)"
  shows "\<exists>R. retain_all_ancestors (cg_nodes graph) base = Some R \<and> base \<subseteq> R \<and> R \<subseteq> node_ids (cg_nodes graph)
    \<and> (\<forall>i\<in>R. opt_all (\<lambda>p. p \<in> R) (parent_of (cg_nodes graph) i))"
proof -
  let ?ns = "cg_nodes graph"
  let ?R = "{i. \<exists>b\<in>base. (b, i) \<in> (parent_steps ?ns)\<^sup>*}"
  have known: "i \<in> node_ids ?ns" if "(b, i) \<in> (parent_steps ?ns)\<^sup>*" "b \<in> base" for b i
    using that by (induction rule: rtrancl_induct) (use base parent_step_known [OF sound] in auto)
  have "retain_all_ancestors ?ns base
      = Some ((\<Union>i\<in>set (filter (\<lambda>i. i \<in> base) (map cn_id ?ns)). chain ?ns (parent_of ?ns i)) \<union> base)"
    unfolding retain_all_ancestors_def
    by (rule retain_ancestors_rooted)
      (auto simp: parent_of_node [OF sound_distinct [OF sound]] sound_rooted [OF sound])
  also have "set (filter (\<lambda>i. i \<in> base) (map cn_id ?ns)) = base"
    using base by (auto simp: node_ids_def)
  also have "(\<Union>i\<in>base. chain ?ns (parent_of ?ns i)) \<union> base = (\<Union>i\<in>base. chain ?ns (Some i))"
    by auto
  also have "\<dots> = ?R" by (auto simp: chain_def simp del: chain_simps)
  finally have "retain_all_ancestors ?ns base = Some ?R" .
  moreover have "opt_all (\<lambda>p. p \<in> ?R) (parent_of ?ns i)" if "i \<in> ?R" for i
    using that by (auto simp: opt_all_def parent_steps_def split: option.split intro: rtrancl_into_rtrancl)
  ultimately show ?thesis using known by auto
qed

lemma owner_known: "owner nodes i = Some j \<Longrightarrow> j \<in> node_ids nodes"
proof -
  assume "owner nodes i = Some j"
  then have "object_owner nodes i = Some (Some j)" by (simp add: owner_def bind_eq_Some_conv)
  then have "node_at nodes j \<noteq> None"
    using while_option_stop [of _ _ _ "Some j"] by (fastforce simp: object_owner_def climb_until_def split: option.splits)
  then show ?thesis by (auto simp: node_at_in)
qed

lemma start_objects_known:
  assumes "sound_graph env graph" "set (dq_object_ids request) \<subseteq> node_ids (cg_nodes graph)"
  shows "\<exists>start. start_objects (cg_nodes graph) request = Some start \<and> start \<subseteq> node_ids (cg_nodes graph)"
proof (cases "dq_object_ids request = []")
  case False
  have owners: "map (object_owner (cg_nodes graph)) (dq_object_ids request)
      = map Some (map (owner (cg_nodes graph)) (dq_object_ids request))"
    using assms(2) object_owner_known [OF assms(1)] by auto
  have those: "those (map Some xs) = Some xs" for xs :: "string option list"
    by (induction xs) auto
  have "owners_of (cg_nodes graph) (dq_object_ids request)
      = Some (List.map_filter id (map (owner (cg_nodes graph)) (dq_object_ids request)))"
    by (simp only: owners_of_def owners those option.map)
  with False show ?thesis
    by (auto simp: start_objects_def map_filter_def owner_known)
qed (auto simp: start_objects_def node_ids_def)

text \<open>The edges of a diagram that leaves nothing out: between objects that are near.\<close>

definition edge_near ::
  "catalog_node list \<Rightarrow> catalog_edge_kind set \<Rightarrow> string set \<Rightarrow> catalog_edge \<Rightarrow> bool" where
  "edge_near nodes kinds near e \<longleftrightarrow>
     ce_kind e \<in> kinds \<and> (\<exists>source\<in>near. owner nodes (ce_from e) = Some source)
     \<and> opt_all (\<lambda>t. t \<in> near) (Option.bind (ce_to e) (owner nodes))"

lemma diagram_edges_near:
  assumes "set owned = {(e, source, Option.bind (ce_to e) (owner nodes)) | e source.
      e \<in> set edges \<and> ce_kind e \<in> kinds \<and> owner nodes (ce_from e) = Some source}"
  shows "set (diagram_edges owned near) = {e \<in> set edges. edge_near nodes kinds near e}"
  unfolding diagram_edges_def edge_near_def by (fastforce simp: image_iff assms)

lemma linked_known: "linked nodes kinds edges `` X \<subseteq> node_ids nodes"
  by (auto simp: linked_def dest: owner_known)

lemma neighbourhood_known:
  "start \<subseteq> node_ids nodes \<Longrightarrow> neighbourhood k (linked nodes kinds edges) start \<subseteq> node_ids nodes"
  by (induction k arbitrary: start) (simp_all add: neighbourhood_Suc linked_known)

lemma edge_within_names: "edge_within S e \<longleftrightarrow> edge_names e \<subseteq> S"
  by (cases "ce_to e") (auto simp: edge_within_def edge_names_def list_all_iff)

lemma diagram_retained_known:
  assumes "sound_graph env graph" "near \<subseteq> node_ids (cg_nodes graph)"
    and "set (diagram_edges owned near) \<subseteq> set (cg_edges graph)"
  shows "diagram_retained (cg_nodes graph) request owned near \<subseteq> node_ids (cg_nodes graph)"
proof -
  have "edge_names e \<subseteq> node_ids (cg_nodes graph)" if "e \<in> set (cg_edges graph)" for e
  proof -
    have "edge_ends_known (cg_nodes graph) e" using assms(1) that by (simp add: sound_graph_def)
    then show ?thesis
      by (cases "ce_to e") (auto simp: edge_ends_known_def edge_names_def list_all_iff)
  qed
  moreover have "diagram_columns (cg_nodes graph) request near \<subseteq> node_ids (cg_nodes graph)"
    by (auto simp: diagram_columns_def node_ids_def)
  ultimately show ?thesis using assms(2,3) by (force simp: diagram_retained_def)
qed

lemma kept_all:
  assumes "sound_graph env graph" "R \<subseteq> node_ids (cg_nodes graph)"
    and "card R \<le> length (take k (filter (\<lambda>n. cn_id n \<in> R) (cg_nodes graph)))"
  shows "node_ids (take k (filter (\<lambda>n. cn_id n \<in> R) (cg_nodes graph))) = R"
proof (rule card_subset_eq)
  let ?kept = "take k (filter (\<lambda>n. cn_id n \<in> R) (cg_nodes graph))"
  show "finite R" using assms(2) by (rule finite_subset) (simp add: node_ids_def)
  show sub: "node_ids ?kept \<subseteq> R" by (auto simp: node_ids_def dest: in_set_takeD)
  have "distinct (map cn_id ?kept)"
    using sound_distinct [OF assms(1)] by (simp add: take_map [symmetric] distinct_map_filter)
  then have "card (node_ids ?kept) = length ?kept"
    using distinct_card [of "map cn_id ?kept"] by (simp add: node_ids_def)
  with assms(3) show "card (node_ids ?kept) = card R"
    using card_mono [OF \<open>finite R\<close> sub] by linarith
qed



end
