(* ===== verification/Catalog_Mutation.thy ===== *)
theory Catalog_Mutation
  imports Catalog_Validation
begin

text \<open>
  \<^verbatim>\<open>apply_diagram_mutation\<close> of \<^verbatim>\<open>crates/core/src/catalog.rs\<close>: the declarative changes a diagram
  proposes, applied to a copy of the graph that is normalized, validated and digested again.
  Renaming an object gives it and everything below it new identifiers; the loop that collects
  what is below is the only one, and the value \<open>None\<close> would be that it never ends.
\<close>

section \<open>Mutations\<close>

datatype diagram_mutation_error =
    MutationUnknownObject | MutationUnsupportedObject | InvalidName | InvalidForeignKeyColumns
  | EmptyColumnChange | InvalidColumnName | InvalidResult

datatype catalog_diagram_mutation =
    RenameObject string string
  | AddForeignKey string string "string list" string "string list"
  | DropForeignKey string
  | ChangeColumn string "type_ref option" "nullability option"
  | AddColumn string string type_ref nullability

type_synonym 'a mutation_result = "(diagram_mutation_error, 'a) result"

definition find_node :: "catalog_node list \<Rightarrow> string \<Rightarrow> catalog_node option" where
  "find_node nodes i = List.find (\<lambda>n. cn_id n = i) nodes"

definition name_fits :: "string \<Rightarrow> bool" where
  "name_fits name \<longleftrightarrow> name \<noteq> [] \<and> length name \<le> 1024"

definition nul_join :: "string list \<Rightarrow> string" where
  "nul_join parts = join_with [CHR 0x00] parts"

section \<open>Renaming\<close>

definition child_pass :: "catalog_node list \<Rightarrow> string set \<Rightarrow> string set" where
  "child_pass nodes descendants =
     descendants \<union> node_ids (filter (\<lambda>n. case cn_parent_id n of None \<Rightarrow> False | Some p \<Rightarrow> p \<in> descendants) nodes)"

definition descendant_ids :: "catalog_node list \<Rightarrow> string \<Rightarrow> string set option" where
  "descendant_ids nodes i = grow_until_stable (child_pass nodes) {i}"

definition renamed_id :: "catalog_env \<Rightarrow> string \<Rightarrow> string \<Rightarrow> string" where
  "renamed_id env i qualified_name = catalog_id env (nul_join [''diagram-mutation'', i, qualified_name])"

definition renamed_path :: "catalog_node \<Rightarrow> string \<Rightarrow> catalog_node \<Rightarrow> string mutation_result" where
  "renamed_path root new_qualified node =
     (if cn_id node = cn_id root then Inr new_qualified
      else ok_or InvalidResult
             (map_option (\<lambda>suffix. new_qualified @ suffix)
                (strip_prefix (cn_qualified_name root) (cn_qualified_name node))))"

definition rename_map ::
  "catalog_env \<Rightarrow> catalog_node \<Rightarrow> string \<Rightarrow> catalog_node list \<Rightarrow> (string \<Rightarrow> string option) mutation_result" where
  "rename_map env root new_qualified nodes =
     res_bind (res_map (\<lambda>n. res_bind (renamed_path root new_qualified n)
                          (\<lambda>q. Inr (cn_id n, renamed_id env (cn_id n) q))) nodes)
       (\<lambda>entries. Inr (map_of (rev entries)))"

definition remap_id :: "(string \<Rightarrow> string option) \<Rightarrow> string \<Rightarrow> string" where
  "remap_id remap i = (case remap i of None \<Rightarrow> i | Some j \<Rightarrow> j)"

definition rename_node ::
  "(string \<Rightarrow> string option) \<Rightarrow> catalog_node \<Rightarrow> string \<Rightarrow> string \<Rightarrow> catalog_node \<Rightarrow> catalog_node mutation_result" where
  "rename_node remap root new_name new_qualified node =
     (case remap (cn_id node) of
        None \<Rightarrow> Inr node
      | Some new_id \<Rightarrow>
          res_bind (renamed_path root new_qualified node)
            (\<lambda>q. Inr (node\<lparr>cn_id := new_id,
                           cn_name := (if cn_id node = cn_id root then new_name else cn_name node),
                           cn_qualified_name := q,
                           cn_parent_id := map_option (remap_id remap) (cn_parent_id node)\<rparr>)))"

definition rename_edge :: "(string \<Rightarrow> string option) \<Rightarrow> catalog_edge \<Rightarrow> catalog_edge" where
  "rename_edge remap edge =
     edge\<lparr>ce_from := remap_id remap (ce_from edge),
          ce_to := map_option (remap_id remap) (ce_to edge),
          ce_column_pairs := map (map_prod (remap_id remap) (remap_id remap)) (ce_column_pairs edge)\<rparr>"

definition rename_target ::
  "catalog_graph_data \<Rightarrow> string \<Rightarrow> string \<Rightarrow> (catalog_node \<times> string) mutation_result" where
  "rename_target graph target_id new_name =
     (if \<not> name_fits new_name then Inl InvalidName
      else res_bind (ok_or MutationUnknownObject (find_node (cg_nodes graph) target_id)) (\<lambda>root.
        if cn_kind root \<notin> {NodeSchema, NodeTable, NodePartitionedTable, NodeColumn}
        then Inl MutationUnsupportedObject
        else if cn_name root = new_name
          \<or> list_ex (\<lambda>n. cn_id n \<noteq> cn_id root \<and> cn_parent_id n = cn_parent_id root
                        \<and> cn_kind n = cn_kind root \<and> cn_name n = new_name) (cg_nodes graph)
        then Inl InvalidName
        else res_bind (ok_or InvalidResult
               (Option.bind (cn_parent_id root) (find_node (cg_nodes graph))))
             (\<lambda>parent. Inr (root, cn_qualified_name parent @ ''.'' @ new_name))))"

definition rename_catalog_object ::
  "catalog_env \<Rightarrow> catalog_graph_data \<Rightarrow> string \<Rightarrow> string
     \<Rightarrow> (catalog_graph_data \<times> rename_mapping list) mutation_result option" where
  "rename_catalog_object env graph target_id new_name =
     (case rename_target graph target_id new_name of
        Inl e \<Rightarrow> Some (Inl e)
      | Inr (root, new_qualified) \<Rightarrow>
          map_option (\<lambda>descendants.
            res_bind (rename_map env root new_qualified
                        (filter (\<lambda>n. cn_id n \<in> descendants) (cg_nodes graph))) (\<lambda>remap.
            res_bind (res_map (rename_node remap root new_name new_qualified) (cg_nodes graph)) (\<lambda>nodes.
            res_bind (ok_or InvalidResult (remap target_id)) (\<lambda>new_id.
              Inr (graph\<lparr>cg_nodes := nodes, cg_edges := map (rename_edge remap) (cg_edges graph)\<rparr>,
                   [\<lparr>rnm_from = cn_id root, rnm_to = new_id\<rparr>])))))
            (descendant_ids (cg_nodes graph) (cn_id root)))"

section \<open>Foreign keys\<close>

definition find_table :: "catalog_node list \<Rightarrow> string \<Rightarrow> catalog_node option" where
  "find_table nodes i =
     List.find (\<lambda>n. cn_id n = i \<and> cn_kind n \<in> {NodeTable, NodePartitionedTable}) nodes"

definition find_column :: "catalog_node list \<Rightarrow> string \<Rightarrow> string \<Rightarrow> catalog_node option" where
  "find_column nodes i parent =
     List.find (\<lambda>n. cn_id n = i \<and> cn_kind n = NodeColumn \<and> cn_parent_id n = Some parent) nodes"

definition child_named :: "catalog_node list \<Rightarrow> string \<Rightarrow> catalog_node_kind \<Rightarrow> string \<Rightarrow> bool" where
  "child_named nodes parent kind name =
     list_ex (\<lambda>n. cn_parent_id n = Some parent \<and> cn_kind n = kind \<and> cn_name n = name) nodes"

definition foreign_key_nodes ::
  "catalog_env \<Rightarrow> catalog_node \<Rightarrow> catalog_node \<Rightarrow> string \<Rightarrow> string list \<Rightarrow> string list \<Rightarrow> string list
     \<Rightarrow> catalog_node \<times> catalog_edge list" where
  "foreign_key_nodes env table target name columns target_columns source_names =
     (let i = catalog_id env (nul_join [''diagram-foreign-key'', cn_id table, name])
      in (catalog_node_new i NodeConstraint name (cn_qualified_name table @ ''.constraint.'' @ name)
            (Some (cn_id table))
            (DetailsConstraint \<lparr>ck_name = name, ck_kind = CkForeignKey, ck_columns = source_names,
               ck_definition = None, ck_references = Some (cn_qualified_name target)\<rparr>),
          [contain (cn_id table) i, relation i (cn_id table) EdgeConstrains]
          @ map (\<lambda>column. relation i column EdgeDependsOn) columns
          @ [\<lparr>ce_from = i, ce_to = Some (cn_id target), ce_kind = EdgeForeignKey,
              ce_certainty = CatalogProven, ce_referenced_path = None,
              ce_column_pairs = zip columns target_columns\<rparr>]))"

definition add_catalog_foreign_key ::
  "catalog_env \<Rightarrow> catalog_graph_data \<Rightarrow> string \<Rightarrow> string \<Rightarrow> string list \<Rightarrow> string \<Rightarrow> string list
     \<Rightarrow> catalog_graph_data mutation_result" where
  "add_catalog_foreign_key env graph table_id name columns target_table_id target_columns =
     (let nodes = cg_nodes graph
      in if \<not> name_fits name then Inl InvalidName
         else res_bind (ok_or MutationUnknownObject (find_table nodes table_id)) (\<lambda>table.
              res_bind (ok_or MutationUnknownObject (find_table nodes target_table_id)) (\<lambda>target.
                if child_named nodes table_id NodeConstraint name then Inl InvalidName
                else if columns = [] \<or> length columns > 16 \<or> length columns \<noteq> length target_columns
                  \<or> card (set columns) \<noteq> length columns \<or> card (set target_columns) \<noteq> length target_columns
                then Inl InvalidForeignKeyColumns
                else res_bind (ok_or InvalidForeignKeyColumns
                       (those (map (\<lambda>i. map_option cn_name (find_column nodes i table_id)) columns))) (\<lambda>source_names.
                  if list_ex (\<lambda>i. find_column nodes i target_table_id = None) target_columns
                  then Inl InvalidForeignKeyColumns
                  else case foreign_key_nodes env table target name columns target_columns source_names of
                         (node, edges) \<Rightarrow>
                           Inr (graph\<lparr>cg_nodes := nodes @ [node], cg_edges := cg_edges graph @ edges\<rparr>)))))"

definition is_foreign_key :: "catalog_node \<Rightarrow> bool" where
  "is_foreign_key node =
     (case cn_details node of DetailsConstraint c \<Rightarrow> ck_kind c = CkForeignKey | _ \<Rightarrow> False)"

definition drop_catalog_foreign_key ::
  "catalog_graph_data \<Rightarrow> string \<Rightarrow> catalog_graph_data mutation_result" where
  "drop_catalog_foreign_key graph constraint_id =
     res_bind (ok_or MutationUnknownObject (find_node (cg_nodes graph) constraint_id)) (\<lambda>constraint.
       if \<not> is_foreign_key constraint then Inl MutationUnsupportedObject
       else Inr (graph
         \<lparr>cg_nodes := filter (\<lambda>n. cn_id n \<noteq> constraint_id) (cg_nodes graph),
          cg_edges := filter (\<lambda>e. ce_from e \<noteq> constraint_id \<and> ce_to e \<noteq> Some constraint_id
            \<and> list_all (\<lambda>(a, b). a \<noteq> constraint_id \<and> b \<noteq> constraint_id) (ce_column_pairs e))
            (cg_edges graph)\<rparr>))"

section \<open>Columns\<close>

fun update_first :: "('a \<Rightarrow> bool) \<Rightarrow> ('a \<Rightarrow> 'a) \<Rightarrow> 'a list \<Rightarrow> 'a list" where
  "update_first P f [] = []"
| "update_first P f (x # xs) = (if P x then f x # xs else x # update_first P f xs)"

definition change_column :: "type_ref option \<Rightarrow> nullability option \<Rightarrow> column_metadata \<Rightarrow> column_metadata" where
  "change_column t n column =
     column\<lparr>col_type_ref := (case t of None \<Rightarrow> col_type_ref column | Some t \<Rightarrow> t),
            col_nullable := (case n of None \<Rightarrow> col_nullable column | Some n \<Rightarrow> n)\<rparr>"

definition change_catalog_column ::
  "catalog_graph_data \<Rightarrow> string \<Rightarrow> type_ref option \<Rightarrow> nullability option \<Rightarrow> catalog_graph_data mutation_result" where
  "change_catalog_column graph column_id type_ref nullability =
     (if type_ref = None \<and> nullability = None then Inl EmptyColumnChange
      else res_bind (ok_or MutationUnknownObject (find_node (cg_nodes graph) column_id)) (\<lambda>node.
        case cn_details node of
          DetailsColumn column \<Rightarrow>
            Inr (graph\<lparr>cg_nodes := update_first (\<lambda>n. cn_id n = column_id)
                   (\<lambda>n. n\<lparr>cn_details := DetailsColumn (change_column type_ref nullability column)\<rparr>)
                   (cg_nodes graph)\<rparr>)
        | _ \<Rightarrow> Inl MutationUnsupportedObject))"

definition next_ordinal :: "catalog_node list \<Rightarrow> string \<Rightarrow> u32" where
  "next_ordinal nodes table_id =
     sat_add (fold max (List.map_filter cn_ordinal
         (filter (\<lambda>n. cn_parent_id n = Some table_id \<and> cn_kind n = NodeColumn) nodes)) 0) 1"

definition add_catalog_column ::
  "catalog_env \<Rightarrow> catalog_graph_data \<Rightarrow> string \<Rightarrow> string \<Rightarrow> type_ref \<Rightarrow> nullability
     \<Rightarrow> catalog_graph_data mutation_result" where
  "add_catalog_column env graph table_id name type_ref nullability =
     (if \<not> name_fits name then Inl InvalidColumnName
      else res_bind (ok_or MutationUnknownObject (find_table (cg_nodes graph) table_id)) (\<lambda>table.
        if child_named (cg_nodes graph) table_id NodeColumn name then Inl InvalidColumnName
        else
          (let i = catalog_id env (nul_join [''table-designer-column'', cn_id table, name]);
               node = (catalog_node_new i NodeColumn name (cn_qualified_name table @ ''.'' @ name)
                         (Some (cn_id table))
                         (DetailsColumn \<lparr>col_name = name, col_type_ref = type_ref,
                            col_nullable = nullability, col_auto_increment = False,
                            col_primary_key = False,
                            col_facets = \<lparr>fc_sqlite = None, fc_postgres = None, fc_sql_server = None\<rparr>\<rparr>))
                      \<lparr>cn_ordinal := Some (next_ordinal (cg_nodes graph) table_id)\<rparr>
           in Inr (graph\<lparr>cg_nodes := cg_nodes graph @ [node],
                         cg_edges := cg_edges graph @ [contain (cn_id table) i]\<rparr>))))"

section \<open>The operation\<close>

definition mutate_graph ::
  "catalog_env \<Rightarrow> catalog_graph_data \<Rightarrow> catalog_diagram_mutation
     \<Rightarrow> (catalog_graph_data \<times> rename_mapping list) mutation_result option" where
  "mutate_graph env graph mutation =
     (let plain = map_sum id (\<lambda>g. (g, []))
      in case mutation of
           RenameObject i name \<Rightarrow> rename_catalog_object env graph i name
         | AddForeignKey table name columns target target_columns \<Rightarrow>
             Some (plain (add_catalog_foreign_key env graph table name columns target target_columns))
         | DropForeignKey i \<Rightarrow> Some (plain (drop_catalog_foreign_key graph i))
         | ChangeColumn i t n \<Rightarrow> Some (plain (change_catalog_column graph i t n))
         | AddColumn table name t n \<Rightarrow> Some (plain (add_catalog_column env graph table name t n)))"

definition finish_mutation ::
  "catalog_env \<Rightarrow> catalog_graph \<Rightarrow> catalog_graph_data \<times> rename_mapping list
     \<Rightarrow> (catalog_graph \<times> rename_mapping list) mutation_result" where
  "finish_mutation env catalog result =
     (let graph = normalize_graph env (fst result)
      in case validate_graph env graph 100000 500000 of
           Inl _ \<Rightarrow> Inl InvalidResult
         | Inr _ \<Rightarrow>
             (case ca_data_json env graph of
                None \<Rightarrow> Inl InvalidResult
              | Some encoded \<Rightarrow>
                  Inr (catalog\<lparr>gr_data := graph,
                               gr_content_digest := ''catfp:'' @ ca_sha256_hex env encoded\<rparr>,
                       snd result)))"

definition apply_diagram_mutation ::
  "catalog_env \<Rightarrow> catalog_graph \<Rightarrow> catalog_diagram_mutation
     \<Rightarrow> (catalog_graph \<times> rename_mapping list) mutation_result option" where
  "apply_diagram_mutation env catalog mutation =
     map_option (\<lambda>r. res_bind r (finish_mutation env catalog)) (mutate_graph env (gr_data catalog) mutation)"

end
