(* ===== verification/Schema_Diff.thy ===== *)
theory Schema_Diff
  imports Catalog_Mutation
begin

text \<open>
  The catalog comparison of \<^verbatim>\<open>crates/core/src/schema_diff.rs\<close>: nodes of two graphs are matched by
  identifier, then by kind and path, then by the renames the caller accepted and what those carry
  along; what is left becomes creations and drops, and the changes are ordered by their
  dependencies.

  SHA-256 and the JSON encoder are parameters. The iteration order of the two \<^verbatim>\<open>HashMap\<close>s of nodes
  is a parameter as well, a function on their values: the standard library promises only that it
  lists each of them once, and a new map may list them differently.
\<close>

section \<open>Parameters\<close>

record diff_env =
  df_sha256_hex :: "string \<Rightarrow> string"
  df_details_json :: "catalog_node_details \<Rightarrow> json option"   \<comment> \<open>\<^verbatim>\<open>serde_json::to_value(..).ok()\<close>\<close>
  df_facets_json :: "engine_column_facets \<Rightarrow> json option"
  df_diff_json :: "schema_change list \<times> rename_suggestion list \<times> bool \<Rightarrow> string option"
  df_from_order :: "catalog_node list \<Rightarrow> catalog_node list"
  df_to_order :: "catalog_node list \<Rightarrow> catalog_node list"

datatype diff_error = InvalidLimit | InvalidRenameMapping | DiffLimitExceeded | InvalidCatalogNode

text \<open>\<^verbatim>\<open>serde_json::to_value\<close> of the simple fields.\<close>

definition json_ordinal :: "u32 option \<Rightarrow> json" where
  "json_ordinal x = (case x of None \<Rightarrow> JNull | Some n \<Rightarrow> JNumber (show_nat (unat n)))"

definition json_text :: "string option \<Rightarrow> json" where
  "json_text x = (case x of None \<Rightarrow> JNull | Some s \<Rightarrow> JString s)"

definition json_completeness :: "catalog_completeness \<Rightarrow> json" where
  "json_completeness c =
     JString (case c of CatalogComplete \<Rightarrow> ''complete'' | CatalogPartial \<Rightarrow> ''partial'')"

section \<open>Matching\<close>

record matching =
  mt_from :: "string set"
  mt_to :: "string set"
  mt_pairs :: "(catalog_node \<times> catalog_node \<times> bool) list"

definition match_pair :: "catalog_node \<Rightarrow> catalog_node \<Rightarrow> bool \<Rightarrow> matching \<Rightarrow> matching" where
  "match_pair before after renamed m =
     (if cn_id before \<in> mt_from m then m
      else if cn_id after \<in> mt_to m then m\<lparr>mt_from := insert (cn_id before) (mt_from m)\<rparr>
      else \<lparr>mt_from = insert (cn_id before) (mt_from m), mt_to = insert (cn_id after) (mt_to m),
            mt_pairs = mt_pairs m @ [(before, after, renamed)]\<rparr>)"

definition graph_nodes :: "catalog_graph \<Rightarrow> catalog_node list" where
  "graph_nodes graph = cg_nodes (gr_data graph)"

definition from_values :: "diff_env \<Rightarrow> catalog_graph \<Rightarrow> catalog_node list" where
  "from_values env graph = df_from_order env (map snd (nodes_by_id (graph_nodes graph)))"

definition to_values :: "diff_env \<Rightarrow> catalog_graph \<Rightarrow> catalog_node list" where
  "to_values env graph = df_to_order env (map snd (nodes_by_id (graph_nodes graph)))"

definition match_id :: "catalog_node list \<Rightarrow> matching \<Rightarrow> catalog_node \<Rightarrow> matching" where
  "match_id to_nodes m before =
     (case node_at to_nodes (cn_id before) of
        None \<Rightarrow> m
      | Some after \<Rightarrow> if cn_kind before = cn_kind after then match_pair before after False m else m)"

definition path_key :: "catalog_node \<Rightarrow> catalog_node_kind \<times> string" where
  "path_key n = (cn_kind n, cn_qualified_name n)"

definition name_key :: "catalog_node \<Rightarrow> catalog_node_kind \<times> string" where
  "name_key n = (cn_kind n, cn_name n)"

text \<open>A \<^verbatim>\<open>HashMap\<close> collected from pairs: the last value of a key stays.\<close>

definition collect_by :: "(catalog_node \<Rightarrow> 'k) \<Rightarrow> catalog_node list \<Rightarrow> 'k \<Rightarrow> catalog_node option" where
  "collect_by key nodes = map_of (rev (map (\<lambda>n. (key n, n)) nodes))"

definition match_path ::
  "(catalog_node_kind \<times> string \<Rightarrow> catalog_node option) \<Rightarrow> matching \<Rightarrow> catalog_node \<Rightarrow> matching" where
  "match_path to_paths m before =
     (if cn_id before \<in> mt_from m then m
      else case to_paths (path_key before) of
             None \<Rightarrow> m
           | Some after \<Rightarrow> match_pair before after False m)"

definition match_nodes :: "diff_env \<Rightarrow> catalog_graph \<Rightarrow> catalog_graph \<Rightarrow> matching" where
  "match_nodes env source target =
     (let m = foldl (match_id (graph_nodes target)) \<lparr>mt_from = {}, mt_to = {}, mt_pairs = []\<rparr>
                (from_values env source);
          to_paths = collect_by path_key (filter (\<lambda>n. cn_id n \<notin> mt_to m) (graph_nodes target))
      in foldl (match_path to_paths) m (graph_nodes source))"

section \<open>Renames\<close>

definition rename_value :: "diff_env \<Rightarrow> catalog_node \<Rightarrow> (diff_error, json) result" where
  "rename_value env n =
     ok_or InvalidCatalogNode (map_option (\<lambda>details.
       JArray [json_ordinal (cn_ordinal n), json_text (cn_definition_digest n),
               json_completeness (cn_completeness n), details, JObject (cn_extra n)])
       (df_details_json env (cn_details n)))"

definition rename_compatible :: "diff_env \<Rightarrow> catalog_node \<Rightarrow> catalog_node \<Rightarrow> (diff_error, bool) result" where
  "rename_compatible env before after =
     res_bind (rename_value env before) (\<lambda>b. res_bind (rename_value env after) (\<lambda>a. Inr (b = a)))"

record rename_state =
  rs_matching :: matching
  rs_from :: "string set"
  rs_to :: "string set"

definition accept_rename ::
  "diff_env \<Rightarrow> catalog_node list \<Rightarrow> catalog_node list \<Rightarrow> rename_state \<Rightarrow> rename_mapping
     \<Rightarrow> (diff_error, rename_state) result" where
  "accept_rename env from_nodes to_nodes s mapping =
     (case (node_at from_nodes (rnm_from mapping), node_at to_nodes (rnm_to mapping)) of
        (Some before, Some after) \<Rightarrow>
          (if cn_kind before \<noteq> cn_kind after then Inl InvalidRenameMapping
           else res_bind (rename_compatible env before after) (\<lambda>compatible.
             if \<not> compatible
               \<or> rnm_from mapping \<in> mt_from (rs_matching s)
               \<or> rnm_to mapping \<in> mt_to (rs_matching s)
               \<or> rnm_from mapping \<in> rs_from s
               \<or> rnm_to mapping \<in> rs_to s
             then Inl InvalidRenameMapping
             else Inr \<lparr>rs_matching = match_pair before after True (rs_matching s),
                       rs_from = insert (rnm_from mapping) (rs_from s),
                       rs_to = insert (rnm_to mapping) (rs_to s)\<rparr>))
      | _ \<Rightarrow> Inl InvalidRenameMapping)"

text \<open>What an accepted rename carries along: the loop over the containers.\<close>

definition carry_child ::
  "diff_env \<Rightarrow> (catalog_node_kind \<times> string \<Rightarrow> catalog_node option)
     \<Rightarrow> string set \<times> string set \<times> (string \<times> string) list \<Rightarrow> catalog_node
     \<Rightarrow> (diff_error, string set \<times> string set \<times> (string \<times> string) list) result" where
  "carry_child env to_children s before =
     (case s of (mf, mt, pushed) \<Rightarrow>
        (case to_children (name_key before) of
           None \<Rightarrow> Inr s
         | Some after \<Rightarrow>
             (if cn_id after \<in> mt then Inr s
              else res_bind (rename_compatible env before after) (\<lambda>compatible.
                if \<not> compatible then Inr s
                else Inr (insert (cn_id before) mf, insert (cn_id after) mt,
                          pushed @ [(cn_id before, cn_id after)])))))"

definition carry_children ::
  "diff_env \<Rightarrow> catalog_node list \<Rightarrow> catalog_node list \<Rightarrow> string \<times> string \<Rightarrow> string set \<Rightarrow> string set
     \<Rightarrow> (diff_error, string set \<times> string set \<times> (string \<times> string) list) result" where
  "carry_children env from_nodes to_nodes container mf mt =
     res_fold (carry_child env (collect_by name_key
         (filter (\<lambda>n. cn_parent_id n = Some (snd container)) to_nodes)))
       (mf, mt, [])
       (filter (\<lambda>n. cn_parent_id n = Some (fst container) \<and> cn_id n \<notin> mf) from_nodes)"

lemma carry_child_grows:
  "carry_child env children (mf, mt, pushed) n = Inr (mf', mt', pushed') \<Longrightarrow>
   mf \<subseteq> mf' \<and> mt \<subseteq> mt' \<and> (mf' = mf \<and> pushed' = pushed \<or> mf' = insert (cn_id n) mf)"
  by (auto simp: carry_child_def res_bind_Inr_conv split: option.splits if_splits)

lemma carry_list_grows:
  "res_fold (carry_child env children) (mf, mt, pushed) ns = Inr (mf', mt', pushed') \<Longrightarrow>
   mf \<subseteq> mf' \<and> (pushed' = pushed \<or> (\<exists>n\<in>set ns. cn_id n \<in> mf'))"
proof (induction ns arbitrary: mf mt pushed)
  case (Cons n ns)
  then obtain mf1 mt1 pushed1 where first: "carry_child env children (mf, mt, pushed) n = Inr (mf1, mt1, pushed1)"
    and rest: "res_fold (carry_child env children) (mf1, mt1, pushed1) ns = Inr (mf', mt', pushed')"
    by (auto simp: res_bind_Inr_conv)
  show ?case using Cons.IH [OF rest] carry_child_grows [OF first] by auto
qed simp

lemma carry_children_grows:
  assumes "carry_children env from_nodes to_nodes container mf mt = Inr (mf', mt', pushed)"
  shows "mf \<subseteq> mf' \<and> (pushed = [] \<or> (\<exists>i\<in>node_ids from_nodes. i \<in> mf' \<and> i \<notin> mf))"
  using carry_list_grows [OF assms [unfolded carry_children_def]] by (fastforce simp: node_ids_def)

function correlate ::
  "diff_env \<Rightarrow> catalog_node list \<Rightarrow> catalog_node list \<Rightarrow> (string \<times> string) list \<Rightarrow> string set \<Rightarrow> string set
     \<Rightarrow> (diff_error, string set \<times> string set) result" where
  "correlate env from_nodes to_nodes [] mf mt = Inr (mf, mt)"
| "correlate env from_nodes to_nodes (container # containers) mf mt =
     (case carry_children env from_nodes to_nodes container mf mt of
        Inl e \<Rightarrow> Inl e
      | Inr (mf', mt', pushed) \<Rightarrow> correlate env from_nodes to_nodes (containers @ pushed) mf' mt')"
  by pat_completeness auto

termination
proof (relation "measures [\<lambda>(_, from_nodes, _, _, mf, _). card (node_ids from_nodes - mf),
                           \<lambda>(_, _, _, containers, _, _). length containers]")
  fix env from_nodes to_nodes container containers mf mt r s mf' mt' pushed
  assume "carry_children env from_nodes to_nodes container mf mt = Inr r" "(mf', s) = r" "(mt', pushed) = s"
  then have "carry_children env from_nodes to_nodes container mf mt = Inr (mf', mt', pushed)" by simp
  from carry_children_grows [OF this]
  have grows: "mf \<subseteq> mf'" "pushed = [] \<or> (\<exists>i\<in>node_ids from_nodes. i \<in> mf' \<and> i \<notin> mf)"
    by auto
  have fin: "finite (node_ids from_nodes - mf)" by (simp add: node_ids_def)
  have "node_ids from_nodes - mf' \<subseteq> node_ids from_nodes - mf" using grows(1) by auto
  then have "card (node_ids from_nodes - mf') \<le> card (node_ids from_nodes - mf)" by (rule card_mono [OF fin])
  moreover have "card (node_ids from_nodes - mf') < card (node_ids from_nodes - mf)" if "pushed \<noteq> []"
    by (rule psubset_card_mono [OF fin]) (use that grows in auto)
  ultimately show "((env, from_nodes, to_nodes, containers @ pushed, mf', mt'),
      env, from_nodes, to_nodes, container # containers, mf, mt)
      \<in> measures [\<lambda>(_, from_nodes, _, _, mf, _). card (node_ids from_nodes - mf),
                   \<lambda>(_, _, _, containers, _, _). length containers]"
    by (cases "pushed = []") auto
qed simp

section \<open>Suggestions and field changes\<close>

definition suggest ::
  "catalog_graph \<Rightarrow> catalog_graph \<Rightarrow> string set \<Rightarrow> catalog_node \<Rightarrow> rename_suggestion option" where
  "suggest source target mt before =
     (case filter (\<lambda>after. cn_id after \<notin> mt \<and> cn_kind before = cn_kind after
             \<and> cn_native_id before \<noteq> None \<and> cn_native_id before = cn_native_id after
             \<and> gr_database_identity source = gr_database_identity target) (graph_nodes target) of
        [after] \<Rightarrow> Some \<lparr>rsg_from = cn_id before, rsg_to = cn_id after,
                         rsg_reason = ''same native identity in the same database''\<rparr>
      | _ \<Rightarrow> None)"

definition rename_suggestions ::
  "catalog_graph \<Rightarrow> catalog_graph \<Rightarrow> string set \<Rightarrow> string set \<Rightarrow> rename_suggestion list" where
  "rename_suggestions source target mf mt =
     List.map_filter (suggest source target mt) (filter (\<lambda>n. cn_id n \<notin> mf) (graph_nodes source))"

definition push_field :: "string \<Rightarrow> json \<Rightarrow> json \<Rightarrow> schema_field_change list" where
  "push_field field before after =
     (if before = after then []
      else [\<lparr>fd_field = field, fd_before = Some before, fd_after = Some after\<rparr>])"

definition diff_extra :: "catalog_node \<Rightarrow> (string \<times> json) list" where
  "diff_extra node =
     (if cn_kind node \<noteq> NodeTable then cn_extra node
      else let extra = btree_remove ''modified_at'' (btree_remove ''estimated_rows'' (cn_extra node));
               keys = map fst extra;
               index_only_fence = (''native_index_set_shape'' \<in> set keys
                 \<and> set keys \<subseteq> {''native_index_set_shape'', ''migration_unsupported'', ''comment''});
               extra = btree_remove ''native_index_set_shape'' extra
           in if index_only_fence then btree_remove ''migration_unsupported'' extra else extra)"

definition field_changes ::
  "diff_env \<Rightarrow> bool \<Rightarrow> catalog_node \<Rightarrow> catalog_node \<Rightarrow> (diff_error, schema_field_change list) result" where
  "field_changes env index_nodes_complete before after =
     res_bind (ok_or InvalidCatalogNode (df_details_json env (cn_details before))) (\<lambda>b.
     res_bind (ok_or InvalidCatalogNode (df_details_json env (cn_details after))) (\<lambda>a. Inr (
       push_field ''name'' (JString (cn_name before)) (JString (cn_name after))
       @ push_field ''qualified_name'' (JString (cn_qualified_name before)) (JString (cn_qualified_name after))
       @ push_field ''ordinal'' (json_ordinal (cn_ordinal before)) (json_ordinal (cn_ordinal after))
       @ push_field ''definition_digest'' (json_text (cn_definition_digest before))
           (json_text (cn_definition_digest after))
       @ push_field ''completeness'' (json_completeness (cn_completeness before))
           (json_completeness (cn_completeness after))
       @ push_field ''details'' b a
       @ (if index_nodes_complete
          then push_field ''extra'' (JObject (diff_extra before)) (JObject (diff_extra after))
          else push_field ''extra'' (JObject (cn_extra before)) (JObject (cn_extra after))))))"

section \<open>Changes\<close>

fun change_debug :: "schema_change_kind \<Rightarrow> string" where
  "change_debug ChangeCreate = ''Create''"
| "change_debug ChangeDrop = ''Drop''"
| "change_debug ChangeRename = ''Rename''"
| "change_debug ChangeMove = ''Move''"
| "change_debug ChangeAlter = ''Alter''"
| "change_debug ChangeUnknown = ''Unknown''"

definition is_widening_type_change :: "type_ref \<Rightarrow> type_ref \<Rightarrow> bool" where
  "is_widening_type_change before after =
     ((before, after) \<in> {(PrimitiveRef PInt16, PrimitiveRef PInt32), (PrimitiveRef PInt16, PrimitiveRef PInt64),
                          (PrimitiveRef PInt32, PrimitiveRef PInt64), (PrimitiveRef PFloat32, PrimitiveRef PFloat64)})"

definition column_alter_risk :: "diff_env \<Rightarrow> catalog_node \<Rightarrow> catalog_node \<Rightarrow> schema_change_risk" where
  "column_alter_risk env before after =
     (case (cn_details before, cn_details after) of
        (DetailsColumn b, DetailsColumn a) \<Rightarrow>
          (if col_type_ref b \<noteq> col_type_ref a
           then (if is_widening_type_change (col_type_ref b) (col_type_ref a)
                 then RiskDataRewrite else RiskDataLoss)
           else if col_nullable b = Nullable \<and> col_nullable a = NotNullable then RiskDataRewrite
           else
             (let facets_changed =
                (case (df_facets_json env (col_facets b), df_facets_json env (col_facets a)) of
                   (Some x, Some y) \<Rightarrow> x \<noteq> y | _ \<Rightarrow> True)
              in if facets_changed \<or> col_auto_increment b \<noteq> col_auto_increment a
                   \<or> col_primary_key b \<noteq> col_primary_key a
                 then RiskDataRewrite else RiskLocking))
      | _ \<Rightarrow> RiskUnknown)"

definition default_expr :: "column_metadata \<Rightarrow> string option" where
  "default_expr column =
     (case Option.bind (fc_postgres (col_facets column)) pg_default_expr of
        Some e \<Rightarrow> Some e
      | None \<Rightarrow> Option.bind (fc_sql_server (col_facets column)) ms_default_expr)"

definition create_risk :: "catalog_node \<Rightarrow> schema_change_risk" where
  "create_risk node =
     (case (cn_kind node, cn_details node) of
        (NodeColumn, DetailsColumn column) \<Rightarrow>
          (if col_nullable column = NotNullable \<and> default_expr column = None
           then RiskDataRewrite else RiskSafe)
      | (NodeIndex, _) \<Rightarrow> RiskLocking
      | (NodeConstraint, _) \<Rightarrow> RiskLocking
      | _ \<Rightarrow> RiskSafe)"

definition risk ::
  "diff_env \<Rightarrow> schema_change_kind \<Rightarrow> catalog_node option \<Rightarrow> catalog_node option \<Rightarrow> catalog_node
     \<Rightarrow> schema_change_risk" where
  "risk env kind before after node =
     (case kind of
        ChangeUnknown \<Rightarrow> RiskUnknown
      | ChangeDrop \<Rightarrow> RiskDataLoss
      | ChangeRename \<Rightarrow> RiskLocking
      | ChangeMove \<Rightarrow> RiskLocking
      | ChangeCreate \<Rightarrow> create_risk node
      | ChangeAlter \<Rightarrow>
          (case (before, after) of
             (Some b, Some a) \<Rightarrow> if cn_kind node = NodeColumn then column_alter_risk env b a else RiskLocking
           | _ \<Rightarrow> RiskLocking))"

definition reversibility :: "schema_change_kind \<Rightarrow> schema_change_reversibility" where
  "reversibility kind =
     (case kind of
        ChangeCreate \<Rightarrow> ReversibleExact
      | ChangeRename \<Rightarrow> ReversibleExact
      | ChangeMove \<Rightarrow> ReversibleExact
      | ChangeDrop \<Rightarrow> ReversibleLossy
      | _ \<Rightarrow> ReversibleUnavailable)"

definition change_seed :: "schema_change_kind \<Rightarrow> catalog_node option \<Rightarrow> catalog_node option \<Rightarrow> string" where
  "change_seed kind before after =
     change_debug kind @ '':'' @ (case before of None \<Rightarrow> [] | Some n \<Rightarrow> cn_id n)
       @ '':'' @ (case after of None \<Rightarrow> [] | Some n \<Rightarrow> cn_id n)"

definition change_id ::
  "diff_env \<Rightarrow> schema_change_kind \<Rightarrow> catalog_node option \<Rightarrow> catalog_node option \<Rightarrow> string" where
  "change_id env kind before after = ''chg:'' @ df_sha256_hex env (change_seed kind before after)"

text \<open>Every caller passes at least one of the two nodes, as \<^verbatim>\<open>expect\<close> demands.\<close>

definition change ::
  "diff_env \<Rightarrow> schema_change_kind \<Rightarrow> catalog_node option \<Rightarrow> catalog_node option
     \<Rightarrow> schema_field_change list \<Rightarrow> schema_change" where
  "change env kind before after changed =
     (let node = (case after of Some n \<Rightarrow> n | None \<Rightarrow> the before)
      in \<lparr>sc_id = change_id env kind before after, sc_kind = kind, sc_object_before = before,
          sc_object_after = after, sc_field_changes = changed, sc_prerequisites = [],
          sc_dependency_group = None, sc_risk = risk env kind before after node,
          sc_reversibility = reversibility kind\<rparr>)"

definition parent_path :: "catalog_node list \<Rightarrow> catalog_node \<Rightarrow> string option" where
  "parent_path nodes n = map_option cn_qualified_name (Option.bind (cn_parent_id n) (node_at nodes))"

definition pair_change ::
  "diff_env \<Rightarrow> catalog_graph \<Rightarrow> catalog_graph \<Rightarrow> bool \<Rightarrow> catalog_node \<times> catalog_node \<times> bool
     \<Rightarrow> (diff_error, schema_change list) result" where
  "pair_change env source target index_nodes_complete pair =
     (case pair of (before, after, renamed) \<Rightarrow>
        res_bind (field_changes env index_nodes_complete before after) (\<lambda>changed. Inr (
          if \<not> renamed \<and> changed = [] then []
          else
            (let kind =
               (if \<not> renamed then ChangeAlter
                else if parent_path (graph_nodes source) before = parent_path (graph_nodes target) after
                then ChangeRename else ChangeMove)
             in [change env kind (Some before) (Some after) changed]))))"

definition drop_change :: "diff_env \<Rightarrow> bool \<Rightarrow> catalog_node \<Rightarrow> schema_change" where
  "drop_change env definitive before =
     change env (if definitive then ChangeDrop else ChangeUnknown) (Some before) None []"

definition create_change :: "diff_env \<Rightarrow> catalog_node \<Rightarrow> schema_change" where
  "create_change env after = change env ChangeCreate None (Some after) []"

section \<open>Dependencies\<close>

text \<open>The two \<^verbatim>\<open>HashMap\<close>s from nodes to the changes that create or drop them.\<close>

definition creates_of :: "schema_change list \<Rightarrow> string \<Rightarrow> string option" where
  "creates_of changes = map_of (rev (List.map_filter (\<lambda>c.
     case sc_object_after c of
       Some n \<Rightarrow> if sc_kind c = ChangeCreate then Some (cn_id n, sc_id c) else None
     | None \<Rightarrow> None) changes))"

definition drops_of :: "schema_change list \<Rightarrow> string \<Rightarrow> string option" where
  "drops_of changes = map_of (rev (List.map_filter (\<lambda>c.
     case sc_object_before c of
       Some n \<Rightarrow> if sc_kind c = ChangeDrop then Some (cn_id n, sc_id c) else None
     | None \<Rightarrow> None) changes))"

definition both :: "'a option \<Rightarrow> 'b option \<Rightarrow> ('a \<times> 'b) list" where
  "both x y = (case (x, y) of (Some a, Some b) \<Rightarrow> [(a, b)] | _ \<Rightarrow> [])"

text \<open>The insertions into \<^verbatim>\<open>prerequisites\<close>: a change and one that has to come before it.\<close>

definition create_requirements ::
  "catalog_graph \<Rightarrow> (string \<Rightarrow> string option) \<Rightarrow> (string \<times> string) list" where
  "create_requirements target creates =
     concat (map (\<lambda>n. both (creates (cn_id n)) (Option.bind (cn_parent_id n) creates)) (graph_nodes target))
     @ concat (map (\<lambda>e. if ce_kind e = EdgeContains then []
                        else both (creates (ce_from e)) (Option.bind (ce_to e) creates))
                 (cg_edges (gr_data target)))"

definition drop_requirements ::
  "catalog_graph \<Rightarrow> (string \<Rightarrow> string option) \<Rightarrow> (string \<times> string) list" where
  "drop_requirements source drops =
     concat (map (\<lambda>n. both (Option.bind (cn_parent_id n) drops) (drops (cn_id n))) (graph_nodes source))
     @ concat (map (\<lambda>e. if ce_kind e = EdgeContains then []
                        else both (Option.bind (ce_to e) drops) (drops (ce_from e)))
                 (cg_edges (gr_data source)))"

definition move_requirements ::
  "schema_change list \<Rightarrow> (string \<Rightarrow> string option) \<Rightarrow> (string \<Rightarrow> string option) \<Rightarrow> (string \<times> string) list" where
  "move_requirements changes creates drops =
     concat (map (\<lambda>c. if sc_kind c \<notin> {ChangeRename, ChangeMove} then []
       else both (Some (sc_id c))
              (Option.bind (Option.bind (sc_object_after c) cn_parent_id) creates)
            @ both (Option.bind (Option.bind (sc_object_before c) cn_parent_id) drops)
              (Some (sc_id c))) changes)"

definition requirements ::
  "schema_change list \<Rightarrow> catalog_graph \<Rightarrow> catalog_graph \<Rightarrow> (string \<times> string) list" where
  "requirements changes source target =
     (let creates = creates_of changes; drops = drops_of changes
      in create_requirements target creates @ drop_requirements source drops
         @ move_requirements changes creates drops)"

text \<open>\<^verbatim>\<open>prerequisites.remove(&change.id)\<close>: a second change with the identifier finds nothing.\<close>

fun assign_prerequisites :: "(string \<times> string) list \<Rightarrow> schema_change list \<Rightarrow> schema_change list" where
  "assign_prerequisites required [] = []"
| "assign_prerequisites required (c # cs) =
     c\<lparr>sc_prerequisites := btree_order (map snd (filter (\<lambda>(i, _). i = sc_id c) required))\<rparr>
       # assign_prerequisites (filter (\<lambda>(i, _). i \<noteq> sc_id c) required) cs"

definition attach_dependencies ::
  "catalog_graph \<Rightarrow> catalog_graph \<Rightarrow> schema_change list \<Rightarrow> schema_change list" where
  "attach_dependencies source target changes =
     assign_prerequisites (requirements changes source target) changes"

section \<open>The order of the changes\<close>

definition change_ready :: "string set \<Rightarrow> string set \<Rightarrow> schema_change \<Rightarrow> bool" where
  "change_ready all_ids emitted c \<longleftrightarrow> list_all (\<lambda>i. i \<in> all_ids \<longrightarrow> i \<in> emitted) (sc_prerequisites c)"

function emit_ready ::
  "string set \<Rightarrow> (string \<times> schema_change) list \<Rightarrow> string set \<Rightarrow> schema_change list
     \<Rightarrow> schema_change list \<times> (string \<times> schema_change) list" where
  "emit_ready all_ids pending emitted ordered =
     (let ready = filter (\<lambda>(_, c). change_ready all_ids emitted c) pending
      in if ready = [] then (ordered, pending)
         else emit_ready all_ids (filter (\<lambda>(_, c). \<not> change_ready all_ids emitted c) pending)
                (emitted \<union> fst ` set ready) (ordered @ map snd ready))"
  by pat_completeness auto

termination
proof (relation "measure (\<lambda>(_, pending, _). length pending)")
  fix all_ids emitted ordered and pending ready :: "(string \<times> schema_change) list"
  assume "ready = filter (\<lambda>(_, c). change_ready all_ids emitted c) pending" "ready \<noteq> []"
  then obtain x where "x \<in> set pending" "change_ready all_ids emitted (snd x)"
    by (cases ready) (force simp: filter_empty_conv dest!: arg_cong [where f = set])+
  then have "length (filter (\<lambda>(_, c). \<not> change_ready all_ids emitted c) pending) < length pending"
    by (intro length_filter_less) auto
  then show "((all_ids, filter (\<lambda>(_, c). \<not> change_ready all_ids emitted c) pending,
      emitted \<union> fst ` set ready, ordered @ map snd ready), all_ids, pending, emitted, ordered)
      \<in> measure (\<lambda>(_, pending, _). length pending)"
    by simp
qed simp

declare emit_ready.simps [simp del]

definition cycle_group :: "diff_env \<Rightarrow> (string \<times> schema_change) list \<Rightarrow> string" where
  "cycle_group env pending = ''cycle:'' @ df_sha256_hex env (join_with '':'' (map fst pending))"

definition cycle_warning :: "string \<Rightarrow> string" where
  "cycle_warning label =
     ''dependency cycle `'' @ label @ ''` requires an engine-specific migration strategy''"

definition stable_dependency_order ::
  "diff_env \<Rightarrow> schema_change list \<Rightarrow> schema_change list \<times> string list" where
  "stable_dependency_order env changes =
     (let pending = btree_of (map (\<lambda>c. (sc_id c, c)) changes)
      in case emit_ready (fst ` set pending) pending {} [] of
           (ordered, pending) \<Rightarrow>
             (if pending = [] then (ordered, [])
              else let grp = cycle_group env pending
                   in (ordered @ map (\<lambda>(_, c). c\<lparr>sc_dependency_group := Some grp\<rparr>) pending,
                       [cycle_warning grp])))"

section \<open>The comparison\<close>

definition coverage_is_complete :: "catalog_graph \<Rightarrow> bool" where
  "coverage_is_complete graph \<longleftrightarrow> cv_state (cg_coverage (gr_data graph)) = CoverageComplete"

definition index_nodes_complete :: "catalog_graph \<Rightarrow> bool" where
  "index_nodes_complete graph \<longleftrightarrow>
     coverage_is_complete graph
     \<and> cv_requested_kinds (cg_coverage (gr_data graph)) = []
     \<and> cv_omitted_schemas (cg_coverage (gr_data graph)) = []
     \<and> cv_truncated_at_nodes (cg_coverage (gr_data graph)) = None"

definition partial_warning :: string where
  "partial_warning =
     ''catalog coverage is partial; missing target objects are reported as unknown, not definitive drops''"

text \<open>All the matching: the matched pairs, and the matched identifiers with what renames carry.\<close>

definition match_catalogs ::
  "diff_env \<Rightarrow> catalog_graph \<Rightarrow> catalog_graph \<Rightarrow> rename_mapping list
     \<Rightarrow> (diff_error, (catalog_node \<times> catalog_node \<times> bool) list \<times> string set \<times> string set) result" where
  "match_catalogs env source target renames =
     res_bind (res_fold (accept_rename env (graph_nodes source) (graph_nodes target))
         \<lparr>rs_matching = match_nodes env source target, rs_from = {}, rs_to = {}\<rparr> renames) (\<lambda>s.
     res_bind (correlate env (from_values env source) (to_values env target)
         (map (\<lambda>r. (rnm_from r, rnm_to r)) renames)
         (mt_from (rs_matching s)) (mt_to (rs_matching s))) (\<lambda>(mf, mt).
       Inr (mt_pairs (rs_matching s), mf, mt)))"

definition all_changes ::
  "diff_env \<Rightarrow> catalog_graph \<Rightarrow> catalog_graph
     \<Rightarrow> (catalog_node \<times> catalog_node \<times> bool) list \<times> string set \<times> string set
     \<Rightarrow> (diff_error, schema_change list) result" where
  "all_changes env source target matched =
     (case matched of (pairs, mf, mt) \<Rightarrow>
        res_bind (res_map (pair_change env source target
            (index_nodes_complete source \<and> index_nodes_complete target)) pairs) (\<lambda>altered. Inr (
          concat altered
          @ map (drop_change env (coverage_is_complete source \<and> coverage_is_complete target))
              (filter (\<lambda>n. cn_id n \<notin> mf) (graph_nodes source))
          @ map (create_change env) (filter (\<lambda>n. cn_id n \<notin> mt) (graph_nodes target)))))"

definition diff_catalogs ::
  "diff_env \<Rightarrow> catalog_source_ref \<Rightarrow> catalog_graph \<Rightarrow> catalog_source_ref \<Rightarrow> catalog_graph
     \<Rightarrow> rename_mapping list \<Rightarrow> u32 option \<Rightarrow> (diff_error, schema_diff) result" where
  "diff_catalogs env from_ref source to_ref target accepted_renames max_changes =
     (let bound = (case max_changes of None \<Rightarrow> 10000 | Some n \<Rightarrow> unat n);
          definitive = (coverage_is_complete source \<and> coverage_is_complete target)
      in if bound = 0 \<or> bound > 100000 then Inl InvalidLimit
         else res_bind (match_catalogs env source target accepted_renames) (\<lambda>matched.
              res_bind (all_changes env source target matched) (\<lambda>changes.
                if length changes > bound then Inl DiffLimitExceeded
                else
                  (let suggestions = sort_key (\<lambda>s. (rsg_from s, rsg_to s))
                         (rename_suggestions source target (fst (snd matched)) (snd (snd matched)));
                       ordered = stable_dependency_order env (attach_dependencies source target changes);
                       is_partial = (\<not> definitive \<or> list_ex (\<lambda>c. sc_kind c = ChangeUnknown) (fst ordered))
                   in case df_diff_json env (fst ordered, suggestions, is_partial) of
                        None \<Rightarrow> Inl InvalidCatalogNode
                      | Some bytes \<Rightarrow> Inr
                          \<lparr>sd_from = from_ref, sd_to = to_ref,
                           sd_digest = ''difffp:'' @ df_sha256_hex env bytes,
                           sd_coverage = \<lparr>dc_from = cg_coverage (gr_data source),
                             dc_to = cg_coverage (gr_data target), dc_definitive_drops = definitive\<rparr>,
                           sd_changes = fst ordered, sd_rename_suggestions = suggestions,
                           sd_warnings = (if definitive then [] else [partial_warning]) @ snd ordered,
                           sd_partial = is_partial\<rparr>))))"

end
