(* ===== verification/Change_Order.thy ===== *)
theory Change_Order
  imports Schema_Diff
begin

text \<open>
  The order \<^verbatim>\<open>stable_dependency_order\<close> gives the changes of a difference: every change comes after
  what it requires, except for those in the group it reports as a dependency cycle, and that group
  is exactly the changes that depend on a cycle.
\<close>

section \<open>Maps ordered by their keys\<close>

lemma btree_insert_keys: "fst ` set (btree_insert k v m) = insert k (fst ` set m)"
proof (induction m)
  case (Cons x m)
  then show ?case by (cases x) (auto simp: insert_commute)
qed simp

lemma btree_insert_sorted: "sorted (map fst m) \<Longrightarrow> distinct (map fst m) \<Longrightarrow>
   sorted (map fst (btree_insert k v m)) \<and> distinct (map fst (btree_insert k v m))"
proof (induction m)
  case (Cons x m)
  obtain k' v' where x: "x = (k', v')" by (cases x)
  have "fst ` set (btree_insert k v m) = insert k (fst ` set m)" by (rule btree_insert_keys)
  with Cons show ?case by (fastforce simp: x)
qed simp

lemma btree_insert_fresh: "k \<notin> fst ` set m \<Longrightarrow> mset (btree_insert k v m) = add_mset (k, v) (mset m)"
  by (induction m) auto

lemma btree_insert_entry: "x \<in> set (btree_insert k v m) \<Longrightarrow> x = (k, v) \<or> x \<in> set m"
  by (induction m) (auto split: if_splits)

lemma btree_of_snoc: "btree_of (xs @ [(k, v)]) = btree_insert k v (btree_of xs)"
  by (simp add: btree_of_def)

lemma btree_of_entries: "set (btree_of xs) \<subseteq> set xs"
proof (induction xs rule: rev_induct)
  case (snoc x xs)
  then show ?case by (cases x) (auto simp: btree_of_snoc dest: btree_insert_entry)
qed (simp add: btree_of_def)

lemma btree_of_keys: "fst ` set (btree_of xs) = fst ` set xs"
proof (induction xs rule: rev_induct)
  case (snoc x xs)
  then show ?case by (cases x) (simp add: btree_of_snoc btree_insert_keys)
qed (simp add: btree_of_def)

lemma btree_of_sorted: "sorted (map fst (btree_of xs)) \<and> distinct (map fst (btree_of xs))"
proof (induction xs rule: rev_induct)
  case (snoc x xs)
  then show ?case by (cases x) (simp add: btree_of_snoc btree_insert_sorted)
qed (simp add: btree_of_def)

lemma btree_of_mset: "distinct (map fst xs) \<Longrightarrow> mset (btree_of xs) = mset xs"
proof (induction xs rule: rev_induct)
  case (snoc x xs)
  then show ?case by (cases x) (simp add: btree_of_snoc btree_insert_fresh btree_of_keys)
qed (simp add: btree_of_def)

section \<open>The emission loop\<close>

text \<open>Every change of the list comes after those of its requirements that are among the changes.\<close>

definition well_ordered :: "string set \<Rightarrow> schema_change list \<Rightarrow> bool" where
  "well_ordered all_ids cs \<longleftrightarrow>
     (\<forall>i<length cs. \<forall>p\<in>set (sc_prerequisites (cs ! i)) \<inter> all_ids. p \<in> sc_id ` set (take i cs))"

lemma well_ordered_Nil [simp]: "well_ordered all_ids []"
  by (simp add: well_ordered_def)

lemma well_ordered_append:
  assumes "well_ordered all_ids cs" "\<forall>c\<in>set ds. change_ready all_ids (sc_id ` set cs) c"
  shows "well_ordered all_ids (cs @ ds)"
  unfolding well_ordered_def
proof (intro allI impI ballI)
  fix i p assume i: "i < length (cs @ ds)" and p: "p \<in> set (sc_prerequisites ((cs @ ds) ! i)) \<inter> all_ids"
  show "p \<in> sc_id ` set (take i (cs @ ds))"
  proof (cases "i < length cs")
    case True
    with assms(1) p show ?thesis by (simp add: well_ordered_def nth_append)
  next
    case False
    with i have "ds ! (i - length cs) \<in> set ds" by simp
    with assms(2) p False have "p \<in> sc_id ` set cs"
      by (auto simp: change_ready_def list_all_iff nth_append)
    with False show ?thesis by (simp add: image_Un)
  qed
qed

lemma emit_ready_correct:
  assumes "emit_ready all_ids pending emitted ordered = (result, rest)"
    and "emitted = sc_id ` set ordered" "well_ordered all_ids ordered"
    and "\<forall>x\<in>set pending. fst x = sc_id (snd x)"
  shows "well_ordered all_ids result
    \<and> mset result + mset (map snd rest) = mset ordered + mset (map snd pending)
    \<and> set rest \<subseteq> set pending
    \<and> (\<forall>x\<in>set rest. \<not> change_ready all_ids (sc_id ` set result) (snd x))"
  using assms
proof (induction all_ids pending emitted ordered rule: emit_ready.induct)
  case (1 all_ids pending emitted ordered)
  let ?ready = "\<lambda>(_, c). change_ready all_ids emitted c"
  let ?out = "filter ?ready pending" and ?rest = "filter (\<lambda>(_, c). \<not> change_ready all_ids emitted c) pending"
  show ?case
  proof (cases "?out = []")
    case True
    with 1 show ?thesis by (subst (asm) emit_ready.simps) (auto simp: filter_empty_conv)
  next
    case False
    have step: "emit_ready all_ids ?rest (emitted \<union> fst ` set ?out) (ordered @ map snd ?out) = (result, rest)"
      using "1.prems"(1) False by (subst (asm) emit_ready.simps) (simp add: Let_def)
    have "fst ` set ?out = sc_id ` snd ` set ?out" using "1.prems"(4) by (force simp: image_image)
    then have ids: "emitted \<union> fst ` set ?out = sc_id ` set (ordered @ map snd ?out)"
      using "1.prems"(2) by (simp add: image_Un)
    have "well_ordered all_ids (ordered @ map snd ?out)"
      using "1.prems"(2,3) by (intro well_ordered_append) auto
    from "1.IH" [OF refl False step ids this] "1.prems"(4)
    have "well_ordered all_ids result
        \<and> mset result + mset (map snd rest) = mset (ordered @ map snd ?out) + mset (map snd ?rest)
        \<and> set rest \<subseteq> set ?rest
        \<and> (\<forall>x\<in>set rest. \<not> change_ready all_ids (sc_id ` set result) (snd x))" by simp
    moreover have "mset (map snd ?out) + mset (map snd ?rest) = mset (map snd pending)"
      by (induction pending) auto
    ultimately show ?thesis by auto
  qed
qed

section \<open>Cycles\<close>

text \<open>Of finitely many elements that all have a successor among them, each reaches a cycle.\<close>

lemma reaches_cycle:
  assumes "finite X" "\<forall>x\<in>X. \<exists>y\<in>X. (x, y) \<in> R" "x \<in> X"
  shows "\<exists>q. (x, q) \<in> R\<^sup>* \<and> (q, q) \<in> R\<^sup>+"
proof (rule ccontr)
  assume none: "\<not> ?thesis"
  let ?S = "{y \<in> X. (x, y) \<in> R\<^sup>*}"
  let ?r = "R \<inter> ?S \<times> ?S"
  have "acyclic ?r"
  proof (rule acyclicI, rule allI, rule notI)
    fix q assume q: "(q, q) \<in> ?r\<^sup>+"
    then have "q \<in> ?S" by (auto elim: tranclE)
    moreover have "(q, q) \<in> R\<^sup>+" using q trancl_mono [of _ ?r R] by auto
    ultimately show False using none by auto
  qed
  moreover have "finite ?r" using assms(1) by (intro finite_Int disjI2 finite_cartesian_product) auto
  ultimately have "wf (?r\<inverse>)" by (rule finite_acyclic_wf_converse [rotated])
  moreover have "x \<in> ?S" using assms(3) by simp
  ultimately show False
  proof (rule wfE_min)
    fix m assume m: "m \<in> ?S" "\<And>y. (y, m) \<in> ?r\<inverse> \<Longrightarrow> y \<notin> ?S"
    then obtain y where y: "y \<in> X" "(m, y) \<in> R" using assms(2) by auto
    with m(1) have "y \<in> ?S" by (auto intro: rtrancl_into_rtrancl)
    with m y show False by auto
  qed
qed

definition depends :: "schema_change list \<Rightarrow> (string \<times> string) set" where
  "depends cs = {(sc_id c, p) | c p. c \<in> set cs \<and> p \<in> set (sc_prerequisites c) \<and> p \<in> sc_id ` set cs}"

definition on_cycle :: "schema_change list \<Rightarrow> schema_change \<Rightarrow> bool" where
  "on_cycle cs c \<longleftrightarrow> (\<exists>q. (sc_id c, q) \<in> (depends cs)\<^sup>* \<and> (q, q) \<in> (depends cs)\<^sup>+)"

lemma list_index_nth: "distinct xs \<Longrightarrow> i < length xs \<Longrightarrow> list_index (xs ! i) xs = i"
proof (induction xs arbitrary: i)
  case (Cons x xs)
  then show ?case by (cases i) auto
qed simp

lemma well_ordered_no_cycle:
  assumes ordered: "well_ordered all_ids os" and distinct: "distinct (map sc_id (os @ ds))"
    and all: "all_ids = sc_id ` set (os @ ds)" and c: "c \<in> set os"
  shows "\<not> on_cycle (os @ ds) c"
proof -
  let ?R = "depends (os @ ds)"
  define pos where "pos x = list_index x (map sc_id os)" for x
  have at: "pos (sc_id (os ! i)) = i" if "i < length os" for i
    using list_index_nth [of "map sc_id os" i] distinct that by (simp add: pos_def)
  have down: "y \<in> sc_id ` set os \<and> pos y < pos x" if x: "x \<in> sc_id ` set os" and xy: "(x, y) \<in> ?R" for x y
  proof -
    obtain i where i: "i < length os" "x = sc_id (os ! i)" using x by (auto simp: in_set_conv_nth)
    obtain e where e: "e \<in> set (os @ ds)" "sc_id e = x" "y \<in> set (sc_prerequisites e)" "y \<in> all_ids"
      using xy all by (auto simp: depends_def)
    have inj: "inj_on sc_id (set (os @ ds))" using distinct by (simp only: distinct_map)
    have "os ! i \<in> set (os @ ds)" using i(1) by simp
    from inj_onD [OF inj _ e(1) this] e(2) i(2) have "e = os ! i" by simp
    with ordered e i have "y \<in> sc_id ` set (take i os)" by (auto simp: well_ordered_def)
    then obtain j where "j < i" "y = sc_id (os ! j)" using i by (auto simp: in_set_conv_nth)
    with i at show ?thesis by auto
  qed
  have star: "q \<in> sc_id ` set os" if "(x, q) \<in> ?R\<^sup>*" "x \<in> sc_id ` set os" for x q
    using that by (induction rule: rtrancl_induct) (use down in blast)+
  have plus: "q \<in> sc_id ` set os \<and> pos q < pos x" if "(x, q) \<in> ?R\<^sup>+" "x \<in> sc_id ` set os" for x q
    using that
  proof (induction rule: trancl_induct)
    case (base y)
    then show ?case using down by blast
  next
    case (step y z)
    then show ?case using down [of y z] by simp
  qed
  show ?thesis
  proof
    assume "on_cycle (os @ ds) c"
    then obtain q where q: "(sc_id c, q) \<in> ?R\<^sup>*" "(q, q) \<in> ?R\<^sup>+" by (auto simp: on_cycle_def)
    have "q \<in> sc_id ` set os" using star [OF q(1)] c by simp
    with plus [OF q(2)] show False by simp
  qed
qed

lemma stuck_on_cycle:
  assumes stuck: "\<forall>d\<in>set ds. \<not> change_ready (sc_id ` set (os @ ds)) (sc_id ` set os) d"
    and d: "d \<in> set ds"
  shows "on_cycle (os @ ds) d"
proof -
  have "\<exists>q. (sc_id d, q) \<in> (depends (os @ ds))\<^sup>* \<and> (q, q) \<in> (depends (os @ ds))\<^sup>+"
  proof (rule reaches_cycle)
    show "\<forall>x\<in>sc_id ` set ds. \<exists>y\<in>sc_id ` set ds. (x, y) \<in> depends (os @ ds)"
    proof
      fix x assume "x \<in> sc_id ` set ds"
      then obtain e where e: "e \<in> set ds" "x = sc_id e" by auto
      with stuck obtain p where "p \<in> set (sc_prerequisites e)" "p \<in> sc_id ` set (os @ ds)" "p \<notin> sc_id ` set os"
        by (auto simp: change_ready_def list_all_iff)
      with e show "\<exists>y\<in>sc_id ` set ds. (x, y) \<in> depends (os @ ds)" by (force simp: depends_def)
    qed
  qed (use d in auto)
  then show ?thesis by (simp add: on_cycle_def)
qed

section \<open>The whole order\<close>

text \<open>The dependencies, and so the cycles, are those of the identifiers and requirements.\<close>

lemma depends_image:
  "depends cs = (let S = (\<lambda>c. (sc_id c, sc_prerequisites c)) ` set cs
     in {(i, p). \<exists>ps. (i, ps) \<in> S \<and> p \<in> set ps \<and> p \<in> fst ` S})"
  by (auto simp: depends_def Let_def image_image)

lemma grouped_depends:
  "depends (os @ map (\<lambda>c. c\<lparr>sc_dependency_group := g\<rparr>) ds) = depends (os @ ds)"
  unfolding depends_image by (simp add: image_Un image_image)

definition ungrouped :: "schema_change \<Rightarrow> schema_change" where
  "ungrouped c = c\<lparr>sc_dependency_group := None\<rparr>"

lemma stable_dependency_order_correct:
  assumes "stable_dependency_order env changes = (cs, warnings)"
    and none: "\<forall>c\<in>set changes. sc_dependency_group c = None"
  shows "(\<forall>i<length cs. sc_dependency_group (cs ! i) = None \<longrightarrow>
            set (sc_prerequisites (cs ! i)) \<inter> sc_id ` set cs \<subseteq> sc_id ` set (take i cs))
    \<and> (\<forall>c\<in>set cs. sc_dependency_group c \<noteq> None \<longleftrightarrow> on_cycle cs c)
    \<and> set (map ungrouped cs) \<subseteq> set changes
    \<and> (distinct (map sc_id changes) \<longrightarrow> mset (map ungrouped cs) = mset changes)
    \<and> (warnings = [] \<longleftrightarrow> (\<forall>c\<in>set cs. sc_dependency_group c = None))"
proof -
  let ?pending = "btree_of (map (\<lambda>c. (sc_id c, c)) changes)"
  let ?all = "fst ` set ?pending"
  obtain os rest where emit: "emit_ready ?all ?pending {} [] = (os, rest)" by fastforce
  let ?ds = "map snd rest" and ?g = "Some (cycle_group env rest)"
  let ?grouped = "map (\<lambda>c. c\<lparr>sc_dependency_group := ?g\<rparr>) ?ds"
  have entries: "\<forall>x\<in>set ?pending. fst x = sc_id (snd x) \<and> snd x \<in> set changes"
    using btree_of_entries [of "map (\<lambda>c. (sc_id c, c)) changes"] by auto
  have correct: "well_ordered ?all os" "mset os + mset ?ds = mset (map snd ?pending)"
      "set rest \<subseteq> set ?pending" "\<forall>x\<in>set rest. \<not> change_ready ?all (sc_id ` set os) (snd x)"
    using emit_ready_correct [OF emit] entries by auto
  have perm: "mset (os @ ?ds) = mset (map snd ?pending)" using correct(2) by simp
  have keys: "map sc_id (map snd ?pending) = map fst ?pending" using entries by auto
  have "sc_id ` set (os @ ?ds) = set (map sc_id (map snd ?pending))"
    using mset_eq_setD [OF perm] by (simp add: image_Un image_image)
  then have all: "?all = sc_id ` set (os @ ?ds)" unfolding keys by simp
  have "mset (map sc_id (os @ ?ds)) = mset (map sc_id (map snd ?pending))"
    by (simp only: mset_map perm)
  then have same: "mset (map sc_id (os @ ?ds)) = mset (map fst ?pending)" unfolding keys .
  then have distinct: "distinct (map sc_id (os @ ?ds))"
    using btree_of_sorted mset_eq_imp_distinct_iff [OF same] by blast
  have cs: "cs = os @ ?grouped" "warnings = (if rest = [] then [] else [cycle_warning (the ?g)])"
    using assms(1) by (auto simp: stable_dependency_order_def Let_def emit case_prod_beta' split: if_splits)
  have "set (os @ ?ds) \<subseteq> set changes"
    unfolding mset_eq_setD [OF perm] using entries by auto
  then have members: "set os \<subseteq> set changes" "set ?ds \<subseteq> set changes" by simp_all
  have ids: "sc_id ` set cs = ?all" unfolding cs all by (simp add: image_Un image_image)
  have order: "set (sc_prerequisites (cs ! i)) \<inter> sc_id ` set cs \<subseteq> sc_id ` set (take i cs)"
    if "i < length cs" "sc_dependency_group (cs ! i) = None" for i
  proof -
    have i: "i < length os" using that by (auto simp: cs nth_append split: if_splits)
    with correct(1) show ?thesis unfolding ids by (auto simp: well_ordered_def cs nth_append)
  qed
  have cycle: "on_cycle cs c \<longleftrightarrow> on_cycle (os @ ?ds) c" for c
    unfolding on_cycle_def cs grouped_depends ..
  have free: "\<not> on_cycle cs c \<and> sc_dependency_group c = None" if "c \<in> set os" for c
    using well_ordered_no_cycle [OF correct(1) distinct all that] members(1) none that
    by (auto simp: cycle)
  have stuck: "on_cycle cs (c\<lparr>sc_dependency_group := ?g\<rparr>)" if "c \<in> set ?ds" for c
  proof -
    have "on_cycle (os @ ?ds) c" by (rule stuck_on_cycle [OF _ that]) (use correct(4) all in auto)
    then show ?thesis unfolding cycle by (simp add: on_cycle_def)
  qed
  have groups: "\<forall>c\<in>set cs. sc_dependency_group c \<noteq> None \<longleftrightarrow> on_cycle cs c"
    using free stuck unfolding cs(1) by auto
  have same_changes: "map ungrouped cs = os @ ?ds"
    using members none by (auto simp: cs(1) ungrouped_def intro!: map_idI)
  have "mset (os @ ?ds) = mset changes" if "distinct (map sc_id changes)"
  proof -
    have "mset ?pending = mset (map (\<lambda>c. (sc_id c, c)) changes)"
      by (rule btree_of_mset) (use that in \<open>simp add: comp_def\<close>)
    then have "image_mset snd (mset ?pending) = image_mset snd (mset (map (\<lambda>c. (sc_id c, c)) changes))"
      by (rule arg_cong)
    then show ?thesis unfolding perm by (simp add: comp_def flip: mset_map)
  qed
  moreover have "warnings = [] \<longleftrightarrow> (\<forall>c\<in>set cs. sc_dependency_group c = None)"
    unfolding cs using free by (cases rest) auto
  ultimately show ?thesis
    using order groups \<open>set (os @ ?ds) \<subseteq> set changes\<close> unfolding same_changes by blast
qed

lemma order_warnings:
  "snd (stable_dependency_order env changes) = []
   \<or> (\<exists>l. snd (stable_dependency_order env changes) = [cycle_warning l] \<and> cycle_warning l \<noteq> partial_warning)"
  by (auto simp: stable_dependency_order_def Let_def cycle_warning_def partial_warning_def split: prod.splits)

lemma diff_catalogs_stages:
  assumes "diff_catalogs env from_ref source to_ref target renames max_changes = Inr d"
  obtains matched changes where "match_catalogs env source target renames = Inr matched"
    "all_changes env source target matched = Inr changes"
    "sd_changes d = fst (stable_dependency_order env (attach_dependencies source target changes))"
    "sd_warnings d = (if coverage_is_complete source \<and> coverage_is_complete target then [] else [partial_warning])
       @ snd (stable_dependency_order env (attach_dependencies source target changes))"
  using assms
  by (auto simp: diff_catalogs_def Let_def res_bind_Inr_conv split: if_splits option.splits)

lemma assign_prerequisites_groups:
  "\<forall>c\<in>set cs. sc_dependency_group c = None \<Longrightarrow>
   \<forall>c\<in>set (assign_prerequisites required cs). sc_dependency_group c = None"
  by (induction cs arbitrary: required) auto

lemma change_group [simp]: "sc_dependency_group (change env kind before after changed) = None"
  by (simp add: change_def Let_def)

lemma res_map_member: "res_map f xs = Inr ys \<Longrightarrow> y \<in> set ys \<Longrightarrow> \<exists>x\<in>set xs. f x = Inr y"
  by (induction xs arbitrary: ys) (auto split: sum.splits)

lemma pair_change_cases:
  assumes "pair_change env source target complete (before, after, renamed) = Inr cs" "c \<in> set cs"
  shows "\<exists>kind changed. c = change env kind (Some before) (Some after) changed
    \<and> kind \<in> {ChangeAlter, ChangeRename, ChangeMove}"
  using assms by (auto simp: pair_change_def res_bind_Inr_conv Let_def split: if_splits) blast+

text \<open>Where a change comes from.\<close>

lemma all_changes_cases:
  assumes "all_changes env source target (pairs, mf, mt) = Inr changes" "c \<in> set changes"
  obtains (pair) before after renamed kind changed
    where "(before, after, renamed) \<in> set pairs" "c = change env kind (Some before) (Some after) changed"
      "kind \<in> {ChangeAlter, ChangeRename, ChangeMove}"
  | (drop) n where "n \<in> set (graph_nodes source)" "cn_id n \<notin> mf"
      "c = drop_change env (coverage_is_complete source \<and> coverage_is_complete target) n"
  | (create) n where "n \<in> set (graph_nodes target)" "cn_id n \<notin> mt" "c = create_change env n"
proof -
  let ?f = "pair_change env source target (index_nodes_complete source \<and> index_nodes_complete target)"
  obtain altered where altered: "res_map ?f pairs = Inr altered"
    and changes: "changes = concat altered
      @ map (drop_change env (coverage_is_complete source \<and> coverage_is_complete target))
          (filter (\<lambda>n. cn_id n \<notin> mf) (graph_nodes source))
      @ map (create_change env) (filter (\<lambda>n. cn_id n \<notin> mt) (graph_nodes target))"
    using assms(1) by (auto simp: all_changes_def res_bind_Inr_conv)
  show thesis
  proof (cases "c \<in> set (concat altered)")
    case True
    then obtain cs where cs: "cs \<in> set altered" "c \<in> set cs" by auto
    then obtain p where p: "p \<in> set pairs" "?f p = Inr cs"
      using res_map_member [OF altered] by blast
    obtain before after renamed where "p = (before, after, renamed)" by (cases p) auto
    with p cs(2) pair_change_cases [of env source target] show thesis by (metis pair)
  next
    case False
    with assms(2) drop create show thesis unfolding changes by auto
  qed
qed

lemma all_changes_groups:
  assumes "all_changes env source target matched = Inr changes"
  shows "\<forall>c\<in>set changes. sc_dependency_group c = None"
proof
  fix c assume "c \<in> set changes"
  moreover obtain pairs mf mt where "matched = (pairs, mf, mt)" by (cases matched) auto
  ultimately show "sc_dependency_group c = None"
    using assms by (auto elim!: all_changes_cases simp: drop_change_def create_change_def)
qed

text \<open>
  C11: in a difference, a change outside the reported cycle comes after every one of its
  requirements that is a change of the difference; the changes that are marked with a cycle are
  exactly those whose requirements lead into a cycle; and there is a warning exactly when there
  are such changes.
\<close>

theorem changes_follow_their_dependencies:
  assumes "diff_catalogs env from_ref source to_ref target renames max_changes = Inr d"
  shows "(let cs = sd_changes d in
      (\<forall>i<length cs. sc_dependency_group (cs ! i) = None \<longrightarrow>
         set (sc_prerequisites (cs ! i)) \<inter> sc_id ` set cs \<subseteq> sc_id ` set (take i cs))
      \<and> (\<forall>c\<in>set cs. sc_dependency_group c \<noteq> None \<longleftrightarrow> on_cycle cs c)
      \<and> (set (sd_warnings d) \<subseteq> {partial_warning} \<longleftrightarrow> (\<forall>c\<in>set cs. \<not> on_cycle cs c)))"
proof -
  obtain matched changes where changes: "all_changes env source target matched = Inr changes"
    and d: "sd_changes d = fst (stable_dependency_order env (attach_dependencies source target changes))"
      "sd_warnings d = (if coverage_is_complete source \<and> coverage_is_complete target then [] else [partial_warning])
         @ snd (stable_dependency_order env (attach_dependencies source target changes))"
    by (rule diff_catalogs_stages [OF assms])
  have none: "\<forall>c\<in>set (attach_dependencies source target changes). sc_dependency_group c = None"
    unfolding attach_dependencies_def
    by (rule assign_prerequisites_groups) (rule all_changes_groups [OF changes])
  note correct = stable_dependency_order_correct [OF prod.collapse [symmetric] none, of env, folded d(1)]
  have "set (sd_warnings d) \<subseteq> {partial_warning}
      \<longleftrightarrow> snd (stable_dependency_order env (attach_dependencies source target changes)) = []"
    using order_warnings [of env "attach_dependencies source target changes"] unfolding d(2) by auto
  then show ?thesis using correct by (auto simp: Let_def)
qed

section \<open>An example\<close>

text \<open>A schema and its two routines are dropped: the routines have to go first.\<close>

definition example_details_json :: "catalog_node_details \<Rightarrow> json option" where
  "example_details_json details =
     Some (case details of DetailsObject (Some arguments) \<Rightarrow> JArray (map JString arguments) | _ \<Rightarrow> JNull)"

definition example_diff_env :: diff_env where
  "example_diff_env =
     \<lparr>df_sha256_hex = id, df_details_json = example_details_json, df_facets_json = (\<lambda>_. None),
      df_diff_json = (\<lambda>_. Some []), df_from_order = id, df_to_order = id\<rparr>"

definition example_ref :: catalog_source_ref where
  "example_ref = SourceSnapshot ''before''"

definition example_root :: catalog_node where
  "example_root = catalog_node_new ''c'' NodeCatalog ''db'' ''db'' None DetailsNone"

definition emptied_catalog :: catalog_graph where
  "emptied_catalog = example_catalog\<lparr>gr_data := example_graph\<lparr>cg_nodes := [example_root], cg_edges := []\<rparr>\<rparr>"

definition example_drops :: "schema_change list" where
  "example_drops = map (drop_change example_diff_env True) (tl (cg_nodes example_graph))"

definition ordered_drops :: "schema_change list" where
  "ordered_drops =
     (case example_drops of
        [s, f, g] \<Rightarrow> [f, g, s\<lparr>sc_prerequisites := [''chg:Drop:f1:'', ''chg:Drop:f2:'']\<rparr>])"

lemmas example_defs = example_catalog_def example_graph_def emptied_catalog_def example_root_def
  catalog_node_new_def example_routine_def contain_def relation_def coverage_complete_def
  example_diff_env_def example_details_json_def graph_nodes_def
lemmas example_change_defs = example_drops_def example_defs drop_change_def change_def change_id_def
  change_seed_def

lemma example_matching:
  "match_catalogs example_diff_env example_catalog emptied_catalog []
   = Inr ([(example_root, example_root, False)], {''c''}, {''c''})"
  by (simp add: match_catalogs_def match_nodes_def example_defs from_values_def to_values_def match_id_def
    node_at_def nodes_by_id_def match_pair_def collect_by_def match_path_def path_key_def)

lemma example_changes:
  "all_changes example_diff_env example_catalog emptied_catalog
     ([(example_root, example_root, False)], {''c''}, {''c''}) = Inr example_drops"
  by (simp add: all_changes_def example_drops_def example_defs coverage_is_complete_def pair_change_def
    field_changes_def push_field_def res_bind_def ok_or_def)

lemma example_attached:
  "attach_dependencies example_catalog emptied_catalog example_drops =
     (case example_drops of
        [s, f, g] \<Rightarrow> [s\<lparr>sc_prerequisites := [''chg:Drop:f1:'', ''chg:Drop:f2:'']\<rparr>, f, g])"
  by (simp add: attach_dependencies_def requirements_def create_requirements_def drop_requirements_def
    move_requirements_def example_change_defs creates_of_def drops_of_def both_def btree_order_def
    map_filter_simps)

lemma example_ordered:
  "stable_dependency_order example_diff_env
     (case example_drops of
        [s, f, g] \<Rightarrow> [s\<lparr>sc_prerequisites := [''chg:Drop:f1:'', ''chg:Drop:f2:'']\<rparr>, f, g])
   = (ordered_drops, [])"
  by (simp add: stable_dependency_order_def ordered_drops_def example_change_defs btree_of_def
    emit_ready.simps change_ready_def)

lemma example_diff:
  "\<exists>d. diff_catalogs example_diff_env example_ref example_catalog example_ref emptied_catalog [] None = Inr d
     \<and> sd_changes d = ordered_drops \<and> sd_warnings d = []"
proof -
  have "coverage_is_complete example_catalog" "coverage_is_complete emptied_catalog"
    by (simp_all add: coverage_is_complete_def example_defs)
  then show ?thesis
    by (simp add: diff_catalogs_def example_matching example_changes example_attached example_ordered Let_def)
      (simp add: example_change_defs)
qed

theorem changes_follow_their_dependencies_witness:
  "\<exists>d. diff_catalogs example_diff_env example_ref example_catalog example_ref emptied_catalog [] None = Inr d
     \<and> sd_changes d = ordered_drops
     \<and> map sc_id ordered_drops = [''chg:Drop:f1:'', ''chg:Drop:f2:'', ''chg:Drop:s:'']
     \<and> \<not> (\<exists>c\<in>set (sd_changes d). on_cycle (sd_changes d) c)"
proof -
  obtain d where d: "diff_catalogs example_diff_env example_ref example_catalog example_ref emptied_catalog [] None = Inr d"
      "sd_changes d = ordered_drops" "sd_warnings d = []"
    using example_diff by auto
  have "map sc_id ordered_drops = [''chg:Drop:f1:'', ''chg:Drop:f2:'', ''chg:Drop:s:'']"
    by (simp add: ordered_drops_def example_change_defs)
  with changes_follow_their_dependencies [OF d(1)] d show ?thesis by (auto simp: Let_def)
qed

end
