(* ===== verification/Diff_Matching.thy ===== *)
theory Diff_Matching
  imports Change_Order
begin

text \<open>
  How \<^verbatim>\<open>diff_catalogs\<close> pairs the nodes of two catalogs and what it makes of the rest. On catalogs
  whose identifiers and paths are unique nothing is lost: every node has an equal counterpart, is
  carried along by an accepted rename, or is named by a change. Where paths or local names are
  not unique, objects are lost or dropped.
\<close>

section \<open>Pairs\<close>

text \<open>The promise of \<^verbatim>\<open>HashMap::values\<close>: every value once.\<close>

definition hash_orders :: "diff_env \<Rightarrow> bool" where
  "hash_orders env \<longleftrightarrow>
     (\<forall>xs. mset (df_from_order env xs) = mset xs) \<and> (\<forall>xs. mset (df_to_order env xs) = mset xs)"

definition unique_paths :: "catalog_graph \<Rightarrow> bool" where
  "unique_paths graph \<longleftrightarrow>
     distinct (map cn_id (graph_nodes graph)) \<and> distinct (map path_key (graph_nodes graph))"

type_synonym pairs = "(catalog_node \<times> catalog_node \<times> bool) list"

definition froms :: "pairs \<Rightarrow> string set" where
  "froms ps = (\<lambda>p. cn_id (fst p)) ` set ps"

definition tos :: "pairs \<Rightarrow> string set" where
  "tos ps = (\<lambda>p. cn_id (fst (snd p))) ` set ps"

definition of_pairs :: "pairs \<Rightarrow> matching" where
  "of_pairs ps = \<lparr>mt_from = froms ps, mt_to = tos ps, mt_pairs = ps\<rparr>"

lemma of_pairs_simps [simp]:
  "mt_from (of_pairs ps) = froms ps" "mt_to (of_pairs ps) = tos ps" "mt_pairs (of_pairs ps) = ps"
  by (simp_all add: of_pairs_def)

lemma froms_simps [simp]: "froms [] = {}" "froms (ps @ qs) = froms ps \<union> froms qs"
  "froms ((b, a, r) # ps) = insert (cn_id b) (froms ps)"
  by (auto simp: froms_def)

lemma tos_simps [simp]: "tos [] = {}" "tos (ps @ qs) = tos ps \<union> tos qs"
  "tos ((b, a, r) # ps) = insert (cn_id a) (tos ps)"
  by (auto simp: tos_def)

lemma in_froms: "i \<in> froms ps \<longleftrightarrow> (\<exists>b a r. (b, a, r) \<in> set ps \<and> cn_id b = i)"
  by (force simp: froms_def)

lemma in_tos: "i \<in> tos ps \<longleftrightarrow> (\<exists>b a r. (b, a, r) \<in> set ps \<and> cn_id a = i)"
  by (force simp: tos_def)

lemma match_pair_new:
  "cn_id b \<notin> froms ps \<Longrightarrow> cn_id a \<notin> tos ps \<Longrightarrow> match_pair b a r (of_pairs ps) = of_pairs (ps @ [(b, a, r)])"
  by (simp add: match_pair_def of_pairs_def)

lemma from_values_perm:
  assumes "hash_orders env" "unique_paths source"
  shows "mset (from_values env source) = mset (graph_nodes source)"
  using assms by (simp add: from_values_def hash_orders_def unique_paths_def nodes_by_id_distinct comp_def)

lemma to_values_perm:
  assumes "hash_orders env" "unique_paths target"
  shows "mset (to_values env target) = mset (graph_nodes target)"
  using assms by (simp add: to_values_def hash_orders_def unique_paths_def nodes_by_id_distinct comp_def)

lemma distinct_ids: "distinct (map cn_id ns) \<Longrightarrow> a \<in> set ns \<Longrightarrow> b \<in> set ns \<Longrightarrow> cn_id a = cn_id b \<Longrightarrow> a = b"
  by (auto simp: distinct_map dest: inj_onD)

section \<open>The first two passes\<close>

definition id_pair :: "catalog_node list \<Rightarrow> catalog_node \<Rightarrow> (catalog_node \<times> catalog_node \<times> bool) option" where
  "id_pair ts b =
     (case node_at ts (cn_id b) of
        None \<Rightarrow> None
      | Some a \<Rightarrow> if cn_kind b = cn_kind a then Some (b, a, False) else None)"

definition path_pair ::
  "(catalog_node_kind \<times> string \<Rightarrow> catalog_node option) \<Rightarrow> string set \<Rightarrow> catalog_node
     \<Rightarrow> (catalog_node \<times> catalog_node \<times> bool) option" where
  "path_pair to_paths taken b =
     (if cn_id b \<in> taken then None else map_option (\<lambda>a. (b, a, False)) (to_paths (path_key b)))"

lemma id_pair_Some:
  "id_pair ts b = Some (x, a, r) \<Longrightarrow> x = b \<and> \<not> r \<and> a \<in> set ts \<and> cn_id a = cn_id b \<and> cn_kind a = cn_kind b"
  using node_at_Some by (auto simp: id_pair_def split: option.splits if_splits)

lemma map_filter_snoc: "List.map_filter f (xs @ [x]) = List.map_filter f xs @ (case f x of None \<Rightarrow> [] | Some y \<Rightarrow> [y])"
  by (simp add: List.map_filter_def split: option.splits)

lemma in_map_filter: "y \<in> set (List.map_filter f xs) \<longleftrightarrow> (\<exists>x\<in>set xs. f x = Some y)"
  by (force simp: List.map_filter_def)

lemma froms_map_filter:
  assumes "\<And>b p. f b = Some p \<Longrightarrow> fst p = b"
  shows "froms (List.map_filter f bs) \<subseteq> cn_id ` set bs"
  using assms by (fastforce simp: froms_def in_map_filter)

lemma id_pair_ids:
  "froms (List.map_filter (id_pair ts) bs) \<subseteq> cn_id ` set bs"
  "tos (List.map_filter (id_pair ts) bs) \<subseteq> cn_id ` set bs"
proof -
  show "froms (List.map_filter (id_pair ts) bs) \<subseteq> cn_id ` set bs"
    by (rule froms_map_filter) (auto dest: id_pair_Some)
  show "tos (List.map_filter (id_pair ts) bs) \<subseteq> cn_id ` set bs"
    by (auto simp: in_tos in_map_filter dest!: id_pair_Some)
qed

lemma match_ids:
  "distinct (map cn_id bs) \<Longrightarrow>
   foldl (match_id ts) (of_pairs []) bs = of_pairs (List.map_filter (id_pair ts) bs)"
proof (induction bs rule: rev_induct)
  case Nil
  show ?case by (simp add: map_filter_simps)
next
  case (snoc b bs)
  let ?ps = "List.map_filter (id_pair ts) bs"
  have new: "cn_id b \<notin> froms ?ps" "cn_id b \<notin> tos ?ps"
    using snoc.prems id_pair_ids [of ts bs] by auto
  have "match_id ts (of_pairs ?ps) b = of_pairs (?ps @ (case id_pair ts b of None \<Rightarrow> [] | Some y \<Rightarrow> [y]))"
  proof (cases "node_at ts (cn_id b)")
    case (Some a)
    with new node_at_Some [OF Some] show ?thesis
      by (auto simp: match_id_def id_pair_def match_pair_new)
  qed (simp add: match_id_def id_pair_def)
  with snoc show ?case by (simp add: map_filter_snoc)
qed

lemma collect_by_Some: "collect_by key ns k = Some n \<Longrightarrow> n \<in> set ns \<and> key n = k"
  by (auto simp: collect_by_def dest: map_of_SomeD)

lemma collect_by_None: "collect_by key ns k = None \<longleftrightarrow> k \<notin> key ` set ns"
  by (auto simp: collect_by_def map_of_eq_None_iff image_iff)

lemma path_pair_Some:
  "path_pair (collect_by path_key ns) taken b = Some (x, a, r) \<Longrightarrow>
   x = b \<and> \<not> r \<and> a \<in> set ns \<and> path_key a = path_key b \<and> cn_id b \<notin> taken"
  using collect_by_Some by (fastforce simp: path_pair_def split: if_splits)

lemma path_pair_ids:
  "froms (List.map_filter (path_pair (collect_by path_key ns) taken) bs) \<subseteq> cn_id ` set bs"
  by (rule froms_map_filter) (auto dest: path_pair_Some)

lemma match_paths:
  assumes "distinct (map cn_id bs)" "distinct (map path_key bs)" and ts: "distinct (map cn_id ts)"
    and free: "\<And>a. a \<in> set ns \<Longrightarrow> a \<in> set ts \<and> cn_id a \<notin> tos ps"
  shows "foldl (match_path (collect_by path_key ns)) (of_pairs ps) bs
    = of_pairs (ps @ List.map_filter (path_pair (collect_by path_key ns) (froms ps)) bs)"
  using assms(1,2)
proof (induction bs rule: rev_induct)
  case Nil
  show ?case by (simp add: map_filter_simps)
next
  case (snoc b bs)
  let ?f = "path_pair (collect_by path_key ns) (froms ps)"
  let ?qs = "List.map_filter ?f bs"
  have new: "cn_id b \<notin> froms ?qs"
    using snoc.prems(1) path_pair_ids [of ns "froms ps" bs] by auto
  have other: "cn_id a \<notin> tos ?qs" if a: "a \<in> set ns" "path_key a = path_key b" for a
  proof
    assume "cn_id a \<in> tos ?qs"
    then obtain b' a' r where b': "b' \<in> set bs" "?f b' = Some (b', a', r)" "cn_id a' = cn_id a"
      by (auto simp: in_tos in_map_filter dest: path_pair_Some)
    note a' = path_pair_Some [OF b'(2)]
    have "a' = a" using distinct_ids [OF ts] free a(1) a' b'(3) by blast
    then have "path_key b = path_key b'" using a' a(2) by simp
    then have "path_key b \<in> path_key ` set bs" using b'(1) by (rule image_eqI)
    with snoc.prems(2) show False by simp
  qed
  have "match_path (collect_by path_key ns) (of_pairs (ps @ ?qs)) b
      = of_pairs ((ps @ ?qs) @ (case ?f b of None \<Rightarrow> [] | Some y \<Rightarrow> [y]))"
  proof (cases "cn_id b \<in> froms ps")
    case True
    then show ?thesis by (simp add: match_path_def path_pair_def)
  next
    case unmatched: False
    show ?thesis
    proof (cases "collect_by path_key ns (path_key b)")
      case (Some a)
      with collect_by_Some [OF Some] free other new unmatched show ?thesis
        by (simp add: match_path_def path_pair_def match_pair_new)
    qed (use unmatched new in \<open>simp add: match_path_def path_pair_def\<close>)
  qed
  with snoc show ?case by (simp add: map_filter_snoc)
qed

text \<open>What the first two passes pair: equal kinds, and equal identifiers or equal paths.\<close>

definition same_object :: "catalog_node \<Rightarrow> catalog_node \<Rightarrow> bool" where
  "same_object b a \<longleftrightarrow> cn_kind b = cn_kind a
     \<and> (cn_id b = cn_id a \<or> cn_qualified_name b = cn_qualified_name a)"

text \<open>
  No node of \<open>others\<close> is the same object: one with its path has a node of its own identifier and
  kind on this side.
\<close>

definition no_counterpart :: "catalog_node list \<Rightarrow> catalog_node list \<Rightarrow> catalog_node \<Rightarrow> bool" where
  "no_counterpart others own n \<longleftrightarrow>
     list_all (\<lambda>m. same_object m n \<longrightarrow>
       cn_id m \<noteq> cn_id n \<and> list_ex (\<lambda>k. cn_id k = cn_id m \<and> cn_kind k = cn_kind m) own) others"

lemma no_counterpartI:
  assumes "\<And>m. m \<in> set others \<Longrightarrow> cn_kind m = cn_kind n \<Longrightarrow> cn_id m \<noteq> cn_id n"
    and "\<And>m. m \<in> set others \<Longrightarrow> path_key m = path_key n \<Longrightarrow>
      \<exists>k\<in>set own. cn_id k = cn_id m \<and> cn_kind k = cn_kind m"
  shows "no_counterpart others own n"
  using assms by (auto simp: no_counterpart_def same_object_def path_key_def list_all_iff list_ex_iff)

lemma distinct_pairs:
  fixes f :: "catalog_node \<Rightarrow> (catalog_node \<times> catalog_node \<times> bool) option"
  assumes "\<And>b p. f b = Some p \<Longrightarrow> fst p = b" "distinct (map cn_id bs)"
  shows "distinct (map (\<lambda>p. cn_id (fst p)) (List.map_filter f bs))"
  using assms(2)
proof (induction bs)
  case (Cons b bs)
  then show ?case
    using froms_map_filter [of f bs, OF assms(1)] assms(1) [of b]
    by (auto simp: map_filter_simps froms_def image_image split: option.splits)
qed (simp add: map_filter_simps)

lemma match_nodes_pairs:
  fixes source target :: catalog_graph
  defines "S \<equiv> graph_nodes source" and "T \<equiv> graph_nodes target"
  assumes hash: "hash_orders env" and unique: "unique_paths source" "unique_paths target"
  obtains ps where "match_nodes env source target = of_pairs ps"
    "\<And>b a r. (b, a, r) \<in> set ps \<Longrightarrow> \<not> r \<and> b \<in> set S \<and> a \<in> set T \<and> same_object b a"
    "distinct (map (\<lambda>p. cn_id (fst p)) ps)"
    "\<And>b. b \<in> set S \<Longrightarrow> cn_id b \<notin> froms ps \<Longrightarrow> no_counterpart T S b"
    "\<And>a. a \<in> set T \<Longrightarrow> cn_id a \<notin> tos ps \<Longrightarrow> no_counterpart S T a"
proof -
  let ?vs = "from_values env source"
  have S: "distinct (map cn_id S)" "distinct (map path_key S)"
    and T: "distinct (map cn_id T)" "distinct (map path_key T)"
    using unique by (simp_all add: S_def T_def unique_paths_def)
  have perm: "mset ?vs = mset S" using from_values_perm [OF hash unique(1)] by (simp add: S_def)
  have vs: "set ?vs = set S" using perm by (rule mset_eq_setD)
  have "mset (map cn_id ?vs) = mset (map cn_id S)" using perm by simp
  then have distinct_vs: "distinct (map cn_id ?vs)" using S(1) mset_eq_imp_distinct_iff by blast
  define ps where "ps = List.map_filter (id_pair T) ?vs"
  define ns where "ns = filter (\<lambda>n. cn_id n \<notin> tos ps) T"
  define f where "f = path_pair (collect_by path_key ns) (froms ps)"
  define qs where "qs = List.map_filter f S"
  have first: "b \<in> set S \<and> a \<in> set T \<and> \<not> r \<and> cn_id a = cn_id b \<and> cn_kind a = cn_kind b"
    if "(b, a, r) \<in> set ps" for b a r
    using that by (auto simp: ps_def in_map_filter vs dest!: id_pair_Some)
  have second: "b \<in> set S \<and> a \<in> set T \<and> \<not> r \<and> path_key a = path_key b \<and> cn_id b \<notin> froms ps"
    if "(b, a, r) \<in> set qs" for b a r
    using that by (auto simp: qs_def f_def ns_def in_map_filter dest!: path_pair_Some)
  have by_id: "(b, a, False) \<in> set ps"
    if "b \<in> set S" "a \<in> set T" "cn_id a = cn_id b" "cn_kind a = cn_kind b" for b a
  proof -
    have "id_pair T b = Some (b, a, False)"
      using that node_at_distinct [OF T(1) that(2)] by (simp add: id_pair_def)
    then show ?thesis unfolding ps_def in_map_filter using vs that(1) by blast
  qed
  have by_path: "\<exists>a'\<in>set T. path_key a' = path_key a \<and> (b, a', False) \<in> set qs"
    if b: "b \<in> set S" "cn_id b \<notin> froms ps" and a: "a \<in> set T" "cn_id a \<notin> tos ps" "path_key b = path_key a" for b a
  proof -
    have "path_key b \<in> path_key ` set ns" using a by (auto simp: ns_def)
    then obtain a' where a': "collect_by path_key ns (path_key b) = Some a'"
      using collect_by_None [of path_key ns "path_key b"] by auto
    then have "f b = Some (b, a', False)" using b by (simp add: f_def path_pair_def)
    then have "(b, a', False) \<in> set qs" unfolding qs_def in_map_filter using b(1) by blast
    with collect_by_Some [OF a'] a(3) show ?thesis by (auto simp: ns_def)
  qed
  show thesis
  proof (rule that [of "ps @ qs"])
    have "foldl (match_id T) (of_pairs []) ?vs = of_pairs ps"
      unfolding ps_def by (rule match_ids [OF distinct_vs])
    moreover have "foldl (match_path (collect_by path_key ns)) (of_pairs ps) S = of_pairs (ps @ qs)"
      unfolding qs_def f_def by (rule match_paths [OF S T(1)]) (simp add: ns_def)
    ultimately show "match_nodes env source target = of_pairs (ps @ qs)"
      by (simp add: match_nodes_def Let_def ns_def S_def T_def of_pairs_def)
    show "\<not> r \<and> b \<in> set S \<and> a \<in> set T \<and> same_object b a" if "(b, a, r) \<in> set (ps @ qs)" for b a r
      using that first second by (force simp: same_object_def path_key_def)
    have "distinct (map (\<lambda>p. cn_id (fst p)) ps)" "distinct (map (\<lambda>p. cn_id (fst p)) qs)"
      unfolding ps_def qs_def f_def
      by (auto intro!: distinct_pairs distinct_vs S(1) dest!: id_pair_Some path_pair_Some)
    moreover have "i \<notin> froms ps" if "i \<in> froms qs" for i
      using that second by (auto simp: in_froms [of i qs])
    then have "froms ps \<inter> froms qs = {}" by auto
    ultimately show "distinct (map (\<lambda>p. cn_id (fst p)) (ps @ qs))"
      by (simp add: froms_def)
    show "no_counterpart T S b" if b: "b \<in> set S" "cn_id b \<notin> froms (ps @ qs)" for b
    proof (rule no_counterpartI)
      show "cn_id a \<noteq> cn_id b" if "a \<in> set T" "cn_kind a = cn_kind b" for a
        using by_id [OF b(1) that(1) _ that(2)] b(2) by (auto simp: in_froms)
      show "\<exists>k\<in>set S. cn_id k = cn_id a \<and> cn_kind k = cn_kind a" if a: "a \<in> set T" "path_key a = path_key b" for a
      proof -
        have free: "cn_id b \<notin> froms ps" "cn_id b \<notin> froms qs" using b(2) by simp_all
        have "cn_id a \<in> tos ps"
        proof (rule ccontr)
          assume "cn_id a \<notin> tos ps"
          then obtain a' where "(b, a', False) \<in> set qs"
            using by_path [OF b(1) free(1) a(1) _ a(2) [symmetric]] by blast
          with free(2) show False by (auto simp: in_froms)
        qed
        then show ?thesis using first distinct_ids [OF T(1) _ a(1)] by (fastforce simp: in_tos)
      qed
    qed
    show "no_counterpart S T a" if a: "a \<in> set T" "cn_id a \<notin> tos (ps @ qs)" for a
    proof (rule no_counterpartI)
      show "cn_id b \<noteq> cn_id a" if "b \<in> set S" "cn_kind b = cn_kind a" for b
      proof
        assume "cn_id b = cn_id a"
        with that a(1) have "(b, a, False) \<in> set ps" by (intro by_id) auto
        then have "cn_id a \<in> tos ps" unfolding in_tos by blast
        with a(2) show False by simp
      qed
      show "\<exists>k\<in>set T. cn_id k = cn_id b \<and> cn_kind k = cn_kind b" if b: "b \<in> set S" "path_key b = path_key a" for b
      proof -
        have "cn_id b \<in> froms ps"
        proof (rule ccontr)
          assume "cn_id b \<notin> froms ps"
          then obtain a' where "a' \<in> set T" "path_key a' = path_key a" "(b, a', False) \<in> set qs"
            using by_path [OF b(1) _ a(1) _ b(2)] a(2) by auto
          moreover have "a' = a" using T(2) a(1) calculation(1,2) by (auto simp: distinct_map dest: inj_onD)
          ultimately have "cn_id a \<in> tos qs" unfolding in_tos by blast
          with a(2) show False by simp
        qed
        then show ?thesis using first distinct_ids [OF S(1) _ b(1)] by (fastforce simp: in_froms)
      qed
    qed
  qed
qed

section \<open>Accepted renames\<close>

definition renamed_pair ::
  "diff_env \<Rightarrow> catalog_node list \<Rightarrow> catalog_node list \<Rightarrow> rename_mapping
     \<Rightarrow> catalog_node \<times> catalog_node \<times> bool \<Rightarrow> bool" where
  "renamed_pair env fs ts mapping p =
     (case p of (b, a, r) \<Rightarrow> r \<and> node_at fs (rnm_from mapping) = Some b \<and> node_at ts (rnm_to mapping) = Some a
        \<and> cn_kind b = cn_kind a \<and> rename_compatible env b a = Inr True)"

lemma accept_rename_pair:
  assumes "accept_rename env fs ts s mapping = Inr s'" "rs_matching s = of_pairs ps"
  obtains p where "renamed_pair env fs ts mapping p" "rs_matching s' = of_pairs (ps @ [p])"
    "cn_id (fst p) \<notin> froms ps"
proof -
  obtain b a where ba: "node_at fs (rnm_from mapping) = Some b" "node_at ts (rnm_to mapping) = Some a"
      "cn_kind b = cn_kind a" "rename_compatible env b a = Inr True"
      "rnm_from mapping \<notin> froms ps" "rnm_to mapping \<notin> tos ps"
      "rs_matching s' = match_pair b a True (of_pairs ps)"
    using assms by (auto simp: accept_rename_def res_bind_Inr_conv split: option.splits if_splits)
  with node_at_Some [OF ba(1)] node_at_Some [OF ba(2)] that [of "(b, a, True)"] show thesis
    by (simp add: renamed_pair_def match_pair_new)
qed

lemma accepted_pairs:
  assumes "res_fold (accept_rename env fs ts) s renames = Inr s'" "rs_matching s = of_pairs ps"
    and "distinct (map (\<lambda>p. cn_id (fst p)) ps)"
  shows "\<exists>rs. rs_matching s' = of_pairs (ps @ rs) \<and> list_all2 (renamed_pair env fs ts) renames rs
    \<and> distinct (map (\<lambda>p. cn_id (fst p)) (ps @ rs))"
  using assms
proof (induction renames arbitrary: s ps)
  case (Cons mapping renames)
  then obtain s1 where s1: "accept_rename env fs ts s mapping = Inr s1"
    and rest: "res_fold (accept_rename env fs ts) s1 renames = Inr s'"
    by (auto simp: res_bind_Inr_conv)
  obtain p where p: "renamed_pair env fs ts mapping p" "rs_matching s1 = of_pairs (ps @ [p])"
    "cn_id (fst p) \<notin> froms ps"
    using accept_rename_pair [OF s1 Cons.prems(2)] .
  have "distinct (map (\<lambda>p. cn_id (fst p)) (ps @ [p]))"
    using Cons.prems(3) p(3) by (auto simp: froms_def)
  then obtain rs where "rs_matching s' = of_pairs ((ps @ [p]) @ rs)"
      "list_all2 (renamed_pair env fs ts) renames rs" "distinct (map (\<lambda>p. cn_id (fst p)) ((ps @ [p]) @ rs))"
    using Cons.IH [OF rest p(2)] by blast
  with p(1) show ?case by (intro exI [of _ "p # rs"]) simp
qed simp

text \<open>
  The identifiers a rename relates: its own, and those of unchanged children of one local name
  below related ones.
\<close>

inductive carries ::
  "diff_env \<Rightarrow> catalog_node set \<Rightarrow> catalog_node set \<Rightarrow> rename_mapping list \<Rightarrow> string \<Rightarrow> string \<Rightarrow> bool"
  for env :: diff_env and fs ts :: "catalog_node set" and renames :: "rename_mapping list" where
  accepted: "r \<in> set renames \<Longrightarrow> carries env fs ts renames (rnm_from r) (rnm_to r)"
| child: "carries env fs ts renames p q \<Longrightarrow> b \<in> fs \<Longrightarrow> a \<in> ts \<Longrightarrow>
    cn_parent_id b = Some p \<Longrightarrow> cn_parent_id a = Some q \<Longrightarrow> name_key b = name_key a \<Longrightarrow>
    rename_compatible env b a = Inr True \<Longrightarrow> carries env fs ts renames (cn_id b) (cn_id a)"

definition moves_along ::
  "diff_env \<Rightarrow> catalog_node set \<Rightarrow> catalog_node set \<Rightarrow> rename_mapping list
     \<Rightarrow> catalog_node \<Rightarrow> catalog_node \<Rightarrow> bool" where
  "moves_along env fs ts renames b a \<longleftrightarrow>
     (\<exists>p q. carries env fs ts renames p q \<and> cn_parent_id b = Some p \<and> cn_parent_id a = Some q)
     \<and> name_key b = name_key a \<and> rename_compatible env b a = Inr True"

text \<open>What the walk over the containers may add to the matched identifiers.\<close>

definition carried_only ::
  "diff_env \<Rightarrow> catalog_node set \<Rightarrow> catalog_node set \<Rightarrow> rename_mapping list
     \<Rightarrow> string set \<Rightarrow> string set \<Rightarrow> string set \<Rightarrow> string set \<Rightarrow> bool" where
  "carried_only env fs ts renames mf mt mf' mt' \<longleftrightarrow>
     mf \<subseteq> mf' \<and> mt \<subseteq> mt'
     \<and> (\<forall>i\<in>mf' - mf. \<exists>b\<in>fs. cn_id b = i \<and> (\<exists>a\<in>ts. moves_along env fs ts renames b a))
     \<and> (\<forall>i\<in>mt' - mt. \<exists>a\<in>ts. cn_id a = i \<and> (\<exists>b\<in>fs. moves_along env fs ts renames b a))"

lemma carried_only_trans:
  "carried_only env fs ts renames mf mt mf1 mt1 \<Longrightarrow> carried_only env fs ts renames mf1 mt1 mf2 mt2 \<Longrightarrow>
   carried_only env fs ts renames mf mt mf2 mt2"
  unfolding carried_only_def by blast

lemma carry_children_carried:
  assumes "carry_children env fs ts container mf mt = Inr (mf', mt', pushed)"
    and container: "carries env (set fs) (set ts) renames (fst container) (snd container)"
  shows "carried_only env (set fs) (set ts) renames mf mt mf' mt' \<and> (\<forall>(p, q)\<in>set pushed. carries env (set fs) (set ts) renames p q)"
proof -
  let ?ok = "\<lambda>(mf', mt', pushed).
    carried_only env (set fs) (set ts) renames mf mt mf' mt' \<and> (\<forall>(p, q)\<in>set pushed. carries env (set fs) (set ts) renames p q)"
  have "?ok (mf', mt', pushed)"
  proof (rule res_fold_invariant [OF assms(1) [unfolded carry_children_def], where P = ?ok])
    show "?ok (mf, mt, [])" by (simp add: carried_only_def)
    fix s b s'
    assume b: "b \<in> set (filter (\<lambda>n. cn_parent_id n = Some (fst container) \<and> cn_id n \<notin> mf) fs)"
      and ok: "?ok s"
      and s': "carry_child env (collect_by name_key
        (filter (\<lambda>n. cn_parent_id n = Some (snd container)) ts)) s b = Inr s'"
    obtain mf1 mt1 pushed1 where s: "s = (mf1, mt1, pushed1)" by (cases s)
    show "?ok s'"
    proof (cases "s' = s")
      case False
      then obtain a where a: "collect_by name_key (filter (\<lambda>n. cn_parent_id n = Some (snd container)) ts)
            (name_key b) = Some a" "rename_compatible env b a = Inr True"
        and eq: "s' = (insert (cn_id b) mf1, insert (cn_id a) mt1, pushed1 @ [(cn_id b, cn_id a)])"
        using s' by (auto simp: s carry_child_def res_bind_Inr_conv split: option.splits if_splits)
      have along: "moves_along env (set fs) (set ts) renames b a" "a \<in> set ts" "b \<in> set fs"
        using collect_by_Some [OF a(1)] a(2) b container by (auto simp: moves_along_def)
      then have "carries env (set fs) (set ts) renames (cn_id b) (cn_id a)"
        by (auto simp: moves_along_def intro: carries.child)
      with ok along show ?thesis unfolding s eq carried_only_def by auto
    qed (use ok in simp)
  qed
  then show ?thesis by simp
qed

lemma correlate_carried:
  "correlate env fs ts containers mf mt = Inr (mf', mt') \<Longrightarrow>
   \<forall>(p, q)\<in>set containers. carries env (set fs) (set ts) renames p q \<Longrightarrow> carried_only env (set fs) (set ts) renames mf mt mf' mt'"
proof (induction env fs ts containers mf mt rule: correlate.induct)
  case (1 env fs ts mf mt)
  then show ?case by (simp add: carried_only_def)
next
  case (2 env fs ts container containers mf mt)
  then obtain mf1 mt1 pushed where stage: "carry_children env fs ts container mf mt = Inr (mf1, mt1, pushed)"
    and rest: "correlate env fs ts (containers @ pushed) mf1 mt1 = Inr (mf', mt')"
    by (auto split: sum.splits)
  have carried: "carried_only env (set fs) (set ts) renames mf mt mf1 mt1" "\<forall>(p, q)\<in>set pushed. carries env (set fs) (set ts) renames p q"
    using carry_children_carried [OF stage, of renames] "2.prems"(2) by auto
  have "carried_only env (set fs) (set ts) renames mf1 mt1 mf' mt'"
    by (rule "2.IH" [OF stage _ _ rest]) (use carried(2) "2.prems"(2) in auto)
  with carried(1) show ?case by (rule carried_only_trans)
qed

section \<open>What becomes of every node\<close>

text \<open>No two changes between two catalogs share an identifier: SHA-256 has no collision there.\<close>

definition change_ids_unique :: "diff_env \<Rightarrow> catalog_graph \<Rightarrow> catalog_graph \<Rightarrow> bool" where
  "change_ids_unique env source target \<longleftrightarrow>
     inj_on (\<lambda>(k, b, a). change_id env k b a)
       (UNIV \<times> (insert None (Some ` set (graph_nodes source)) \<times> insert None (Some ` set (graph_nodes target))))"

definition reported ::
  "schema_change list \<Rightarrow> schema_change_kind set \<Rightarrow> catalog_node option \<Rightarrow> catalog_node option \<Rightarrow> bool" where
  "reported cs kinds b a \<longleftrightarrow>
     list_ex (\<lambda>c. sc_kind c \<in> kinds \<and> sc_object_before c = b \<and> sc_object_after c = a) cs"

definition unchanged :: "diff_env \<Rightarrow> catalog_graph \<Rightarrow> catalog_graph \<Rightarrow> catalog_node \<Rightarrow> catalog_node \<Rightarrow> bool" where
  "unchanged env source target b a \<longleftrightarrow>
     field_changes env (index_nodes_complete source \<and> index_nodes_complete target) b a = Inr []"

lemma match_catalogs_stages:
  fixes source target :: catalog_graph
  defines "S \<equiv> graph_nodes source" and "T \<equiv> graph_nodes target"
  assumes matched: "match_catalogs env source target renames = Inr (pairs, mf, mt)"
    and ps: "match_nodes env source target = of_pairs ps" "distinct (map (\<lambda>p. cn_id (fst p)) ps)"
  obtains rs where "pairs = ps @ rs" "list_all2 (renamed_pair env S T) renames rs"
    "distinct (map (\<lambda>p. cn_id (fst p)) pairs)"
    "correlate env (from_values env source) (to_values env target)
       (map (\<lambda>r. (rnm_from r, rnm_to r)) renames) (froms pairs) (tos pairs) = Inr (mf, mt)"
proof -
  obtain s where s: "res_fold (accept_rename env S T)
        \<lparr>rs_matching = match_nodes env source target, rs_from = {}, rs_to = {}\<rparr> renames = Inr s"
    and walk: "correlate env (from_values env source) (to_values env target)
        (map (\<lambda>r. (rnm_from r, rnm_to r)) renames) (mt_from (rs_matching s)) (mt_to (rs_matching s)) = Inr (mf, mt)"
    and pairs: "pairs = mt_pairs (rs_matching s)"
    using matched by (auto simp: match_catalogs_def res_bind_Inr_conv S_def T_def)
  obtain rs where rs: "rs_matching s = of_pairs (ps @ rs)" "list_all2 (renamed_pair env S T) renames rs"
    "distinct (map (\<lambda>p. cn_id (fst p)) (ps @ rs))"
    using accepted_pairs [OF s _ ps(2)] ps(1) by auto
  show thesis by (rule that [of rs]) (use rs walk in \<open>simp_all add: pairs\<close>)
qed

lemma match_catalogs_pairs:
  fixes source target :: catalog_graph
  defines "S \<equiv> graph_nodes source" and "T \<equiv> graph_nodes target"
  assumes matched: "match_catalogs env source target renames = Inr (pairs, mf, mt)"
    and hash: "hash_orders env" and unique: "unique_paths source" "unique_paths target"
  shows "\<forall>(b, a, r)\<in>set pairs. b \<in> set S \<and> a \<in> set T
      \<and> (if r then (\<exists>x\<in>set renames. rnm_from x = cn_id b \<and> rnm_to x = cn_id a) else same_object b a)"
    "distinct (map (\<lambda>p. cn_id (fst p)) pairs)"
    "carried_only env (set S) (set T) renames (froms pairs) (tos pairs) mf mt"
    "\<forall>b\<in>set S. cn_id b \<notin> mf \<longrightarrow> no_counterpart T S b"
    "\<forall>a\<in>set T. cn_id a \<notin> mt \<longrightarrow> no_counterpart S T a"
proof -
  obtain ps where ps: "match_nodes env source target = of_pairs ps"
    "\<And>b a r. (b, a, r) \<in> set ps \<Longrightarrow> \<not> r \<and> b \<in> set S \<and> a \<in> set T \<and> same_object b a"
    "distinct (map (\<lambda>p. cn_id (fst p)) ps)"
    "\<And>b. b \<in> set S \<Longrightarrow> cn_id b \<notin> froms ps \<Longrightarrow> no_counterpart T S b"
    "\<And>a. a \<in> set T \<Longrightarrow> cn_id a \<notin> tos ps \<Longrightarrow> no_counterpart S T a"
    using match_nodes_pairs [OF hash unique] unfolding S_def T_def by metis
  obtain rs where all: "pairs = ps @ rs" and rs: "list_all2 (renamed_pair env S T) renames rs"
    "distinct (map (\<lambda>p. cn_id (fst p)) pairs)"
    and walk: "correlate env (from_values env source) (to_values env target)
       (map (\<lambda>r. (rnm_from r, rnm_to r)) renames) (froms pairs) (tos pairs) = Inr (mf, mt)"
    using match_catalogs_stages [OF matched ps(1,3)] unfolding S_def T_def by blast
  have renamed: "b \<in> set S \<and> a \<in> set T \<and> r \<and> (\<exists>x\<in>set renames. rnm_from x = cn_id b \<and> rnm_to x = cn_id a)"
    if "(b, a, r) \<in> set rs" for b a r
  proof -
    have "\<exists>x\<in>set renames. renamed_pair env S T x (b, a, r)"
      using rs(1) that by (induction rule: list_all2_induct) auto
    then show ?thesis by (auto simp: renamed_pair_def dest!: node_at_Some)
  qed
  have "b \<in> set S \<and> a \<in> set T
      \<and> (if r then (\<exists>x\<in>set renames. rnm_from x = cn_id b \<and> rnm_to x = cn_id a) else same_object b a)"
    if "(b, a, r) \<in> set pairs" for b a r
  proof -
    from that consider "(b, a, r) \<in> set ps" | "(b, a, r) \<in> set rs" unfolding all by auto
    then show ?thesis by cases (use ps(2) [of b a r] renamed [of b a r] in auto)
  qed
  then show "\<forall>(b, a, r)\<in>set pairs. b \<in> set S \<and> a \<in> set T
      \<and> (if r then (\<exists>x\<in>set renames. rnm_from x = cn_id b \<and> rnm_to x = cn_id a) else same_object b a)"
    by blast
  show "distinct (map (\<lambda>p. cn_id (fst p)) pairs)" by (rule rs(2))
  have "carried_only env (set (from_values env source)) (set (to_values env target)) renames
      (froms pairs) (tos pairs) mf mt"
    by (rule correlate_carried [OF walk])
      (auto intro: carries.accepted)
  moreover have "set (from_values env source) = set S" "set (to_values env target) = set T"
    using from_values_perm [OF hash unique(1)] to_values_perm [OF hash unique(2)]
    by (auto simp: S_def T_def dest: mset_eq_setD)
  ultimately show carried: "carried_only env (set S) (set T) renames (froms pairs) (tos pairs) mf mt"
    by simp
  then have "froms ps \<subseteq> mf" "tos ps \<subseteq> mt" by (auto simp: carried_only_def all)
  then show "\<forall>b\<in>set S. cn_id b \<notin> mf \<longrightarrow> no_counterpart T S b" "\<forall>a\<in>set T. cn_id a \<notin> mt \<longrightarrow> no_counterpart S T a"
    using ps(4,5) by blast+
qed

type_synonym subject = "schema_change_kind \<times> catalog_node option \<times> catalog_node option"

definition subject :: "schema_change \<Rightarrow> subject" where
  "subject c = (sc_kind c, sc_object_before c, sc_object_after c)"

lemma reported_subject: "reported cs kinds b a \<longleftrightarrow> (\<exists>k\<in>kinds. (k, b, a) \<in> subject ` set cs)"
  by (force simp: reported_def list_ex_iff subject_def)

lemma subject_change [simp]: "subject (change env kind b a changed) = (kind, b, a)"
  by (simp add: subject_def change_def Let_def)

lemma change_has_id: "sc_id (change env kind b a changed) = change_id env kind b a"
  by (simp add: change_def Let_def)

lemma pair_changes:
  assumes "res_map (pair_change env source target (index_nodes_complete source \<and> index_nodes_complete target)) pairs
    = Inr altered" "(b, a, r) \<in> set pairs"
  shows "\<not> r \<and> unchanged env source target b a
    \<or> (\<exists>k\<in>if r then {ChangeRename, ChangeMove} else {ChangeAlter}. (k, Some b, Some a) \<in> subject ` set (concat altered))"
proof -
  let ?f = "pair_change env source target (index_nodes_complete source \<and> index_nodes_complete target)"
  have "?f (b, a, r) \<in> set (map ?f pairs)" using assms(2) by simp
  then obtain cs where cs: "cs \<in> set altered" "?f (b, a, r) = Inr cs"
    using assms(1) unfolding res_map_Inr_conv by auto
  obtain changed where changed: "field_changes env (index_nodes_complete source \<and> index_nodes_complete target) b a = Inr changed"
    using cs(2) by (auto simp: pair_change_def res_bind_Inr_conv)
  show ?thesis
  proof (cases "\<not> r \<and> changed = []")
    case False
    then obtain k where k: "k \<in> (if r then {ChangeRename, ChangeMove} else {ChangeAlter})"
        "cs = [change env k (Some b) (Some a) changed]"
      using cs(2) changed by (auto simp: pair_change_def Let_def split: if_splits)
    then have "(k, Some b, Some a) \<in> subject ` set cs" by simp
    with k(1) cs(1) show ?thesis by (auto simp: image_iff) blast+
  qed (use changed in \<open>simp add: unchanged_def\<close>)
qed

lemma altered_objects:
  assumes "res_map (pair_change env source target complete) pairs = Inr altered"
    "distinct (map (\<lambda>p. cn_id (fst p)) pairs)"
  shows "distinct (map sc_object_before (concat altered))
    \<and> (\<forall>c\<in>set (concat altered). sc_object_before c \<in> Some ` fst ` set pairs \<and> sc_object_after c \<noteq> None)"
  using assms
proof (induction pairs arbitrary: altered)
  case (Cons p pairs)
  obtain cs rest where altered: "altered = cs # rest" "pair_change env source target complete p = Inr cs"
      "res_map (pair_change env source target complete) pairs = Inr rest"
    using Cons.prems(1) by (auto split: sum.splits)
  have tail: "distinct (map sc_object_before (concat rest))"
    "\<forall>c\<in>set (concat rest). sc_object_before c \<in> Some ` fst ` set pairs \<and> sc_object_after c \<noteq> None"
    using Cons.IH [OF altered(3)] Cons.prems(2) by auto
  obtain b a r where p: "p = (b, a, r)" by (cases p)
  have "b \<notin> fst ` set pairs" using Cons.prems(2) by (auto simp: p)
  then have "Some b \<notin> Some ` fst ` set pairs" by auto
  with tail(2) have "Some b \<notin> sc_object_before ` set (concat rest)" by (metis imageE)
  moreover have "cs = [] \<or> (\<exists>c. cs = [c] \<and> sc_object_before c = Some b \<and> sc_object_after c \<noteq> None)"
    using altered(2) by (auto simp: p pair_change_def res_bind_Inr_conv Let_def change_def split: if_splits)
  ultimately show ?case using tail unfolding altered(1) p by auto
qed simp

lemma all_changes_subjects:
  assumes changes: "all_changes env source target (pairs, mf, mt) = Inr changes"
    and ids: "distinct (map (\<lambda>p. cn_id (fst p)) pairs)"
    and inside: "\<forall>(b, a, r)\<in>set pairs. b \<in> set (graph_nodes source) \<and> a \<in> set (graph_nodes target)"
    and unique: "unique_paths source" "unique_paths target" "change_ids_unique env source target"
  shows "distinct (map sc_id changes)"
proof -
  let ?S = "graph_nodes source" and ?T = "graph_nodes target"
  let ?gone = "if coverage_is_complete source \<and> coverage_is_complete target then ChangeDrop else ChangeUnknown"
  obtain altered where altered: "res_map (pair_change env source target
        (index_nodes_complete source \<and> index_nodes_complete target)) pairs = Inr altered"
    and eq: "changes = concat altered
      @ map (drop_change env (coverage_is_complete source \<and> coverage_is_complete target))
          (filter (\<lambda>n. cn_id n \<notin> mf) ?S)
      @ map (create_change env) (filter (\<lambda>n. cn_id n \<notin> mt) ?T)"
    using changes by (auto simp: all_changes_def res_bind_Inr_conv)
  note pairs = altered_objects [OF altered ids]
  define as where "as = map subject (concat altered)"
  have "map (\<lambda>(k, b, a). b) as = map sc_object_before (concat altered)" by (simp add: as_def subject_def)
  then have "distinct (map (\<lambda>(k, b, a). b) as)" using conjunct1 [OF pairs] by (simp only:)
  then have as: "distinct as" by (simp add: distinct_map)
  have both_sides: "\<exists>k b a. s = (k, Some b, Some a)" if "s \<in> set as" for s
  proof -
    have "s \<in> subject ` set (concat altered)" using that by (simp only: as_def set_map)
    then obtain c where "c \<in> set (concat altered)" "s = subject c" by (rule imageE)
    then show ?thesis using conjunct2 [OF pairs] by (auto simp: subject_def)
  qed
  have drops: "map subject (map (drop_change env (coverage_is_complete source \<and> coverage_is_complete target)) ns)
      = map (\<lambda>n. (?gone, Some n, None)) ns" for ns
    by (simp add: drop_change_def)
  have creates: "map subject (map (create_change env) ns) = map (\<lambda>n. (ChangeCreate, None, Some n)) ns" for ns
    by (simp add: create_change_def)
  have nodes: "distinct ?S" "distinct ?T" using unique by (simp_all add: unique_paths_def distinct_map)
  have "distinct (map subject changes)"
    unfolding eq map_append drops creates as_def [symmetric]
    using as nodes by (auto simp: distinct_map inj_on_def dest!: both_sides)
  moreover have each: "subject c \<in> UNIV \<times> insert None (Some ` set ?S) \<times> insert None (Some ` set ?T)
      \<and> sc_id c = (\<lambda>(k, b, a). change_id env k b a) (subject c)" if "c \<in> set changes" for c
    using changes that
    by (cases rule: all_changes_cases)
      (use inside in \<open>auto simp: drop_change_def create_change_def change_has_id\<close>)
  moreover have "inj_on (\<lambda>(k, b, a). change_id env k b a) (subject ` set changes)"
    by (rule inj_on_subset [OF unique(3) [unfolded change_ids_unique_def]]) (use each in blast)
  ultimately have "distinct (map (\<lambda>(k, b, a). change_id env k b a) (map subject changes))"
    unfolding distinct_map [of _ "map subject changes"] set_map by blast
  moreover have "map sc_id changes = map (\<lambda>(k, b, a). change_id env k b a) (map subject changes)"
    using each by simp
  ultimately show ?thesis by (simp only:)
qed

lemma assign_prerequisites_subject: "map subject (assign_prerequisites required cs) = map subject cs"
  "map sc_id (assign_prerequisites required cs) = map sc_id cs"
  by (induction cs arbitrary: required) (auto simp: subject_def)

lemma ungrouped_subject: "map subject (map ungrouped cs) = map subject cs"
  by (simp add: subject_def ungrouped_def)

lemma diff_subjects:
  assumes diff: "sd_changes d = fst (stable_dependency_order env (attach_dependencies source target changes))"
    and groups: "\<forall>c\<in>set changes. sc_dependency_group c = None" and distinct: "distinct (map sc_id changes)"
  shows "subject ` set (sd_changes d) = subject ` set changes"
proof -
  let ?attached = "attach_dependencies source target changes"
  have none: "\<forall>c\<in>set ?attached. sc_dependency_group c = None"
    unfolding attach_dependencies_def by (rule assign_prerequisites_groups [OF groups])
  have "distinct (map sc_id ?attached)"
    using distinct by (simp add: attach_dependencies_def assign_prerequisites_subject)
  then have "mset (map ungrouped (sd_changes d)) = mset ?attached"
    using stable_dependency_order_correct [OF prod.collapse [symmetric] none, of env, folded diff] by blast
  then have "subject ` set (map ungrouped (sd_changes d)) = subject ` set ?attached"
    using mset_eq_setD by metis
  also have "\<dots> = set (map subject ?attached)" by simp
  also have "\<dots> = set (map subject changes)"
    by (simp only: attach_dependencies_def assign_prerequisites_subject)
  finally have "subject ` set (map ungrouped (sd_changes d)) = subject ` set changes" by simp
  moreover have "subject ` set (map ungrouped (sd_changes d)) = set (map subject (map ungrouped (sd_changes d)))"
    by (simp add: image_image)
  ultimately show ?thesis unfolding ungrouped_subject by simp
qed

lemma all_changes_report:
  assumes changes: "all_changes env source target (pairs, mf, mt) = Inr changes"
    and gone: "gone = (if coverage_is_complete source \<and> coverage_is_complete target then ChangeDrop else ChangeUnknown)"
  shows "(b, a, r) \<in> set pairs \<Longrightarrow> \<not> r \<and> unchanged env source target b a
      \<or> (\<exists>k\<in>if r then {ChangeRename, ChangeMove} else {ChangeAlter}. (k, Some b, Some a) \<in> subject ` set changes)"
    "n \<in> set (graph_nodes source) \<Longrightarrow> cn_id n \<notin> mf \<Longrightarrow> (gone, Some n, None) \<in> subject ` set changes"
    "n \<in> set (graph_nodes target) \<Longrightarrow> cn_id n \<notin> mt \<Longrightarrow> (ChangeCreate, None, Some n) \<in> subject ` set changes"
proof -
  obtain altered where altered: "res_map (pair_change env source target
        (index_nodes_complete source \<and> index_nodes_complete target)) pairs = Inr altered"
    and eq: "changes = concat altered
      @ map (drop_change env (coverage_is_complete source \<and> coverage_is_complete target))
          (filter (\<lambda>n. cn_id n \<notin> mf) (graph_nodes source))
      @ map (create_change env) (filter (\<lambda>n. cn_id n \<notin> mt) (graph_nodes target))"
    using changes by (auto simp: all_changes_def res_bind_Inr_conv)
  have "subject ` set (concat altered) \<subseteq> subject ` set changes" unfolding eq by auto
  then show "(b, a, r) \<in> set pairs \<Longrightarrow> \<not> r \<and> unchanged env source target b a
      \<or> (\<exists>k\<in>if r then {ChangeRename, ChangeMove} else {ChangeAlter}. (k, Some b, Some a) \<in> subject ` set changes)"
    using pair_changes [OF altered, of b a r] by blast
  have "(gone, Some n, None) = subject (drop_change env (coverage_is_complete source \<and> coverage_is_complete target) n)"
    "(ChangeCreate, None, Some n) = subject (create_change env n)" for n
    by (simp_all add: drop_change_def create_change_def gone)
  then show "n \<in> set (graph_nodes source) \<Longrightarrow> cn_id n \<notin> mf \<Longrightarrow> (gone, Some n, None) \<in> subject ` set changes"
    "n \<in> set (graph_nodes target) \<Longrightarrow> cn_id n \<notin> mt \<Longrightarrow> (ChangeCreate, None, Some n) \<in> subject ` set changes"
    unfolding eq by (auto intro!: image_eqI)
qed

text \<open>What an object of the first catalog is in the second, if it is not gone.\<close>

definition kept ::
  "diff_env \<Rightarrow> catalog_graph \<Rightarrow> catalog_graph \<Rightarrow> rename_mapping list \<Rightarrow> schema_change list
     \<Rightarrow> catalog_node \<Rightarrow> catalog_node \<Rightarrow> bool" where
  "kept env source target renames cs b a \<longleftrightarrow>
     same_object b a \<and> (unchanged env source target b a \<or> reported cs {ChangeAlter} (Some b) (Some a))
     \<or> (\<exists>x\<in>set renames. rnm_from x = cn_id b \<and> rnm_to x = cn_id a
          \<and> reported cs {ChangeRename, ChangeMove} (Some b) (Some a))
     \<or> moves_along env (set (graph_nodes source)) (set (graph_nodes target)) renames b a"

text \<open>The stages of a difference, with what the matching and the changes have to do with each other.\<close>

lemma diff_stages:
  fixes source target :: catalog_graph
  defines "S \<equiv> graph_nodes source" and "T \<equiv> graph_nodes target"
    and "gone \<equiv> if coverage_is_complete source \<and> coverage_is_complete target then ChangeDrop else ChangeUnknown"
  assumes diff: "diff_catalogs env from_ref source to_ref target renames max_changes = Inr d"
    and unique: "unique_paths source" "unique_paths target" and hash: "hash_orders env"
    and ids: "change_ids_unique env source target"
  obtains pairs mf mt where "match_catalogs env source target renames = Inr (pairs, mf, mt)"
    "\<forall>(b, a, r)\<in>set pairs. b \<in> set S \<and> a \<in> set T \<and> kept env source target renames (sd_changes d) b a"
    "carried_only env (set S) (set T) renames (froms pairs) (tos pairs) mf mt"
    "\<And>b. b \<in> set S \<Longrightarrow> cn_id b \<notin> mf \<Longrightarrow> no_counterpart T S b \<and> reported (sd_changes d) {gone} (Some b) None"
    "\<And>a. a \<in> set T \<Longrightarrow> cn_id a \<notin> mt \<Longrightarrow> no_counterpart S T a \<and> reported (sd_changes d) {ChangeCreate} None (Some a)"
    "\<And>c. c \<in> set (sd_changes d) \<Longrightarrow> sc_kind c \<in> {ChangeAlter, ChangeRename, ChangeMove}
       \<or> (\<exists>b\<in>set S. cn_id b \<notin> mf \<and> subject c = (gone, Some b, None))
       \<or> (\<exists>a\<in>set T. cn_id a \<notin> mt \<and> subject c = (ChangeCreate, None, Some a))"
proof -
  let ?cs = "sd_changes d"
  obtain pairs mf mt changes where matched: "match_catalogs env source target renames = Inr (pairs, mf, mt)"
    and changes: "all_changes env source target (pairs, mf, mt) = Inr changes"
    and d: "?cs = fst (stable_dependency_order env (attach_dependencies source target changes))"
    using diff_catalogs_stages [OF diff] by (metis prod_cases3)
  note m = match_catalogs_pairs [OF matched hash unique, folded S_def T_def]
  have "distinct (map sc_id changes)"
    by (rule all_changes_subjects [OF changes m(2) _ unique ids]) (use m(1) in \<open>auto simp: S_def T_def\<close>)
  then have same: "subject ` set ?cs = subject ` set changes"
    by (rule diff_subjects [OF d all_changes_groups [OF changes]])
  note report = all_changes_report [OF changes gone_def [THEN meta_eq_to_obj_eq], folded same S_def T_def]
  show thesis
  proof (rule that [of pairs mf mt])
    have "b \<in> set S \<and> a \<in> set T \<and> kept env source target renames ?cs b a" if "(b, a, r) \<in> set pairs" for b a r
      using m(1) that report(1) [OF that] by (auto simp: kept_def reported_subject split: if_splits)
    then show "\<forall>(b, a, r)\<in>set pairs. b \<in> set S \<and> a \<in> set T \<and> kept env source target renames ?cs b a"
      by blast
    show "sc_kind c \<in> {ChangeAlter, ChangeRename, ChangeMove}
        \<or> (\<exists>b\<in>set S. cn_id b \<notin> mf \<and> subject c = (gone, Some b, None))
        \<or> (\<exists>a\<in>set T. cn_id a \<notin> mt \<and> subject c = (ChangeCreate, None, Some a))" if c: "c \<in> set ?cs" for c
    proof -
      obtain c' where c': "c' \<in> set changes" "subject c = subject c'" using c same by (metis imageE imageI)
      from changes c'(1) show ?thesis
        by (cases rule: all_changes_cases)
          (use c'(2) in \<open>auto simp: drop_change_def create_change_def gone_def subject_def change_def Let_def S_def T_def\<close>)
    qed
  qed (use matched m report in \<open>auto simp: reported_subject\<close>)
qed

lemma matched_kept:
  assumes pairs: "\<forall>(b, a, r)\<in>set pairs. b \<in> set (graph_nodes source)
       \<and> a \<in> set (graph_nodes target) \<and> kept env source target renames cs b a"
    and carried: "carried_only env (set (graph_nodes source)) (set (graph_nodes target)) renames
      (froms pairs) (tos pairs) mf mt"
    and unique: "unique_paths source" "unique_paths target"
  shows "b \<in> set (graph_nodes source) \<Longrightarrow> cn_id b \<in> mf \<Longrightarrow>
      \<exists>a\<in>set (graph_nodes target). kept env source target renames cs b a"
    "a \<in> set (graph_nodes target) \<Longrightarrow> cn_id a \<in> mt \<Longrightarrow>
      \<exists>b\<in>set (graph_nodes source). kept env source target renames cs b a"
proof -
  note same = distinct_ids [OF conjunct1 [OF unique(1) [unfolded unique_paths_def]]]
    distinct_ids [OF conjunct1 [OF unique(2) [unfolded unique_paths_def]]]
  have along: "kept env source target renames cs b a"
    if "moves_along env (set (graph_nodes source)) (set (graph_nodes target)) renames b a" for b a
    using that by (simp add: kept_def)
  show "\<exists>a\<in>set (graph_nodes target). kept env source target renames cs b a"
    if b: "b \<in> set (graph_nodes source)" "cn_id b \<in> mf"
  proof (cases "cn_id b \<in> froms pairs")
    case True
    then obtain b' a r where "(b', a, r) \<in> set pairs" "cn_id b' = cn_id b" by (auto simp: in_froms)
    moreover from this(1) pairs have "b' \<in> set (graph_nodes source) \<and> a \<in> set (graph_nodes target)
        \<and> kept env source target renames cs b' a" by blast
    ultimately show ?thesis using same(1) [OF _ b(1), of b'] by blast
  next
    case False
    with carried b(2) obtain b' a where "b' \<in> set (graph_nodes source)" "cn_id b' = cn_id b"
        "a \<in> set (graph_nodes target)"
        "moves_along env (set (graph_nodes source)) (set (graph_nodes target)) renames b' a"
      unfolding carried_only_def by blast
    with same(1) [OF _ b(1), of b'] along show ?thesis by blast
  qed
  show "\<exists>b\<in>set (graph_nodes source). kept env source target renames cs b a"
    if a: "a \<in> set (graph_nodes target)" "cn_id a \<in> mt"
  proof (cases "cn_id a \<in> tos pairs")
    case True
    then obtain b a' r where "(b, a', r) \<in> set pairs" "cn_id a' = cn_id a" by (auto simp: in_tos)
    moreover from this(1) pairs have "b \<in> set (graph_nodes source) \<and> a' \<in> set (graph_nodes target)
        \<and> kept env source target renames cs b a'" by blast
    ultimately show ?thesis using same(2) [OF _ a(1), of a'] by blast
  next
    case False
    with carried a(2) obtain b a' where "a' \<in> set (graph_nodes target)" "cn_id a' = cn_id a"
        "b \<in> set (graph_nodes source)"
        "moves_along env (set (graph_nodes source)) (set (graph_nodes target)) renames b a'"
      unfolding carried_only_def by blast
    with same(2) [OF _ a(1), of a'] along show ?thesis by blast
  qed
qed

text \<open>
  C2: between two catalogs with unique identifiers and paths nothing is lost. Every object of the
  first is there unchanged in the second, or altered, accepted as renamed, carried along by an
  accepted rename, or reported as gone; every object of the second has such an origin or is
  reported as created. A drop is claimed only when both catalogs are complete, and what is
  reported as gone or created has no counterpart of its kind by identifier or, except for one that
  another object claims by its identifier, by path.
\<close>

theorem diff_accounts_for_every_object:
  assumes "diff_catalogs env from_ref source to_ref target renames max_changes = Inr d"
    and "unique_paths source" "unique_paths target" "hash_orders env" "change_ids_unique env source target"
  shows "let S = graph_nodes source; T = graph_nodes target; cs = sd_changes d;
      gone = (if coverage_is_complete source \<and> coverage_is_complete target then ChangeDrop else ChangeUnknown)
    in (\<forall>b\<in>set S. (\<exists>a\<in>set T. kept env source target renames cs b a) \<or> reported cs {gone} (Some b) None)
     \<and> (\<forall>a\<in>set T. (\<exists>b\<in>set S. kept env source target renames cs b a) \<or> reported cs {ChangeCreate} None (Some a))
     \<and> (\<forall>c\<in>set cs. sc_kind c \<in> {ChangeDrop, ChangeUnknown} \<longrightarrow>
          (\<exists>b\<in>set S. subject c = (gone, Some b, None) \<and> no_counterpart T S b))
     \<and> (\<forall>c\<in>set cs. sc_kind c = ChangeCreate \<longrightarrow>
          (\<exists>a\<in>set T. subject c = (ChangeCreate, None, Some a) \<and> no_counterpart S T a))"
proof -
  define gone where "gone = (if coverage_is_complete source \<and> coverage_is_complete target then ChangeDrop else ChangeUnknown)"
  let ?S = "graph_nodes source" and ?T = "graph_nodes target" and ?cs = "sd_changes d"
  obtain pairs mf mt where pairs: "\<forall>(b, a, r)\<in>set pairs.
       b \<in> set ?S \<and> a \<in> set ?T \<and> kept env source target renames ?cs b a"
    and carried: "carried_only env (set ?S) (set ?T) renames (froms pairs) (tos pairs) mf mt"
    and rest: "\<And>b. b \<in> set ?S \<Longrightarrow> cn_id b \<notin> mf \<Longrightarrow> no_counterpart ?T ?S b \<and> reported ?cs {gone} (Some b) None"
      "\<And>a. a \<in> set ?T \<Longrightarrow> cn_id a \<notin> mt \<Longrightarrow> no_counterpart ?S ?T a \<and> reported ?cs {ChangeCreate} None (Some a)"
    and origin: "\<And>c. c \<in> set ?cs \<Longrightarrow> sc_kind c \<in> {ChangeAlter, ChangeRename, ChangeMove}
       \<or> (\<exists>b\<in>set ?S. cn_id b \<notin> mf \<and> subject c = (gone, Some b, None))
       \<or> (\<exists>a\<in>set ?T. cn_id a \<notin> mt \<and> subject c = (ChangeCreate, None, Some a))"
  proof (rule diff_stages [OF assms, folded gone_def], goal_cases)
    case (1 pairs mf mt)
    from 1(3-) show ?case by (rule 1(1))
  qed
  note matched = matched_kept [OF pairs carried assms(2,3)]
  have "(\<exists>a\<in>set ?T. kept env source target renames ?cs b a) \<or> reported ?cs {gone} (Some b) None"
    if b: "b \<in> set ?S" for b
    using matched(1) [OF b] rest(1) [OF b] by blast
  moreover have "(\<exists>b\<in>set ?S. kept env source target renames ?cs b a) \<or> reported ?cs {ChangeCreate} None (Some a)"
    if a: "a \<in> set ?T" for a
    using matched(2) [OF a] rest(2) [OF a] by blast
  moreover have "\<exists>b\<in>set ?S. subject c = (gone, Some b, None) \<and> no_counterpart ?T ?S b"
    if "c \<in> set ?cs" "sc_kind c \<in> {ChangeDrop, ChangeUnknown}" for c
    using origin [OF that(1)] that(2) rest(1) by (auto simp: subject_def)
  moreover have "\<exists>a\<in>set ?T. subject c = (ChangeCreate, None, Some a) \<and> no_counterpart ?S ?T a"
    if "c \<in> set ?cs" "sc_kind c = ChangeCreate" for c
    using origin [OF that(1)] that(2) rest(2) by (auto simp: subject_def gone_def split: if_splits)
  ultimately show ?thesis unfolding Let_def gone_def [symmetric] by blast
qed

lemma first_separator: "xs @ x # ys = xs' @ x # ys' \<Longrightarrow> x \<notin> set xs \<Longrightarrow> x \<notin> set xs' \<Longrightarrow> xs = xs' \<and> ys = ys'"
  by (auto simp: append_eq_append_conv2 Cons_eq_append_conv append_eq_Cons_conv)

lemma change_ids_uniqueI:
  assumes "inj (df_sha256_hex env)" "unique_paths source" "unique_paths target"
    and source: "\<forall>n\<in>set (graph_nodes source). cn_id n \<noteq> [] \<and> CHR '':'' \<notin> set (cn_id n)"
    and target: "\<forall>n\<in>set (graph_nodes target). cn_id n \<noteq> []"
  shows "change_ids_unique env source target"
  unfolding change_ids_unique_def
proof (rule inj_onI)
  let ?id = "\<lambda>n. case n of None \<Rightarrow> [] | Some n \<Rightarrow> cn_id n"
  fix s s' :: subject
  obtain k b a k' b' a' where s: "s = (k, b, a)" "s' = (k', b', a')" by (cases s, cases s')
  assume "s \<in> UNIV \<times> (insert None (Some ` set (graph_nodes source)) \<times> insert None (Some ` set (graph_nodes target)))"
    "s' \<in> UNIV \<times> (insert None (Some ` set (graph_nodes source)) \<times> insert None (Some ` set (graph_nodes target)))"
    and same: "(\<lambda>(k, b, a). change_id env k b a) s = (\<lambda>(k, b, a). change_id env k b a) s'"
  then have b: "b \<in> insert None (Some ` set (graph_nodes source))" "b' \<in> insert None (Some ` set (graph_nodes source))"
    and a: "a \<in> insert None (Some ` set (graph_nodes target))" "a' \<in> insert None (Some ` set (graph_nodes target))"
    by (auto simp: s)
  from same have seed: "change_debug k @ CHR '':'' # (?id b @ CHR '':'' # ?id a)
      = change_debug k' @ CHR '':'' # (?id b' @ CHR '':'' # ?id a')"
    using assms(1) by (auto simp: s change_id_def change_seed_def inj_def)
  have kinds: "CHR '':'' \<notin> set (change_debug k)" "CHR '':'' \<notin> set (change_debug k')"
    by (cases k, simp_all, cases k', simp_all)
  have ids: "CHR '':'' \<notin> set (?id b)" "CHR '':'' \<notin> set (?id b')" using b source by auto
  have "change_debug k = change_debug k'" "?id b = ?id b'" "?id a = ?id a'"
    using first_separator [OF seed kinds] first_separator [OF _ ids] by blast+
  moreover from this have "k = k'" by (cases k; cases k'; simp)
  moreover have "b = b'" if "?id b = ?id b'"
    using that b source distinct_ids [of "graph_nodes source"] assms(2)
    by (auto simp: unique_paths_def split: option.splits)
  moreover have "a = a'" if "?id a = ?id a'"
    using that a target distinct_ids [of "graph_nodes target"] assms(3)
    by (auto simp: unique_paths_def split: option.splits)
  ultimately show "s = s'" by (simp add: s)
qed

section \<open>The example\<close>

lemma example_unique: "unique_paths example_catalog" "unique_paths emptied_catalog"
  by (simp_all add: unique_paths_def path_key_def example_defs)

lemma example_orders: "hash_orders example_diff_env"
  by (simp add: hash_orders_def example_diff_env_def)

lemma example_injective: "inj (df_sha256_hex example_diff_env)"
  by (simp add: example_diff_env_def)

lemma example_ids: "change_ids_unique example_diff_env example_catalog emptied_catalog"
  by (rule change_ids_uniqueI [OF example_injective example_unique]) (simp_all add: example_defs)

theorem diff_accounts_for_every_object_witness:
  "\<exists>d. diff_catalogs example_diff_env example_ref example_catalog example_ref emptied_catalog [] None = Inr d
     \<and> length (sd_changes d) = 3 \<and> \<not> (\<exists>c\<in>set (sd_changes d). sc_kind c = ChangeCreate)
     \<and> ((\<exists>a\<in>set (graph_nodes emptied_catalog). kept example_diff_env example_catalog emptied_catalog [] (sd_changes d)
            (example_routine ''f1'' ''int'') a)
        \<or> reported (sd_changes d) {ChangeDrop} (Some (example_routine ''f1'' ''int'')) None)"
proof -
  obtain d where d: "diff_catalogs example_diff_env example_ref example_catalog example_ref emptied_catalog [] None = Inr d"
      "sd_changes d = ordered_drops"
    using example_diff by auto
  have complete: "coverage_is_complete example_catalog" "coverage_is_complete emptied_catalog"
    by (simp_all add: coverage_is_complete_def example_defs)
  have nodes: "example_routine ''f1'' ''int'' \<in> set (graph_nodes example_catalog)"
    "graph_nodes emptied_catalog = [example_root]"
    by (simp_all add: example_defs)
  have root: "\<not> no_counterpart (graph_nodes example_catalog) (graph_nodes emptied_catalog) example_root"
    by (simp add: no_counterpart_def same_object_def example_defs)
  have "length (sd_changes d) = 3" by (simp add: d(2) ordered_drops_def example_change_defs)
  with d(1) nodes root diff_accounts_for_every_object [OF d(1) example_unique example_orders example_ids]
  show ?thesis by (auto simp: Let_def complete)
qed

end
