(* ===== verification/Diff_Overloads.thy ===== *)
theory Diff_Overloads
  imports Diff_Matching
begin

text \<open>
  What \<^verbatim>\<open>correlate_renamed_descendants\<close> does to siblings of one kind and name: its map of children is
  keyed by kind and local name, so of several overloads of a routine below a renamed container at
  most one is carried along, and the others are reported as dropped. And two objects of one path
  are paired with one object, of which one is forgotten.
\<close>

section \<open>Overloads below a renamed container\<close>

lemma carry_list_once:
  assumes "res_fold (carry_child env children) (mf, mt, pushed) ns = Inr (mf', mt', pushed')"
    and "distinct (map cn_id ns)" "\<forall>n\<in>set ns. cn_id n \<notin> mf"
  shows "(\<exists>added. pushed' = pushed @ added \<and> mf' = mf \<union> fst ` set added \<and> distinct (map fst added)
      \<and> fst ` set added \<subseteq> cn_id ` set ns)
    \<and> (\<forall>b\<in>set ns. cn_id b \<in> mf' \<longrightarrow> (\<exists>a. children (name_key b) = Some a \<and> cn_id a \<notin> mt))
    \<and> (\<forall>b\<in>set ns. \<forall>c\<in>set ns. name_key b = name_key c \<longrightarrow> cn_id b \<in> mf' \<longrightarrow> cn_id c \<in> mf' \<longrightarrow> b = c)"
  using assms
proof (induction ns arbitrary: mf mt pushed)
  case Nil
  then show ?case by (auto intro: exI [of _ "[]"])
next
  case (Cons n ns)
  obtain mf1 mt1 pushed1 where first: "carry_child env children (mf, mt, pushed) n = Inr (mf1, mt1, pushed1)"
    and rest: "res_fold (carry_child env children) (mf1, mt1, pushed1) ns = Inr (mf', mt', pushed')"
    using Cons.prems(1) by (auto simp: res_bind_Inr_conv)
  consider (kept) "mf1 = mf" "mt1 = mt" "pushed1 = pushed"
    | (carried) a where "children (name_key n) = Some a" "cn_id a \<notin> mt" "mf1 = insert (cn_id n) mf"
        "mt1 = insert (cn_id a) mt" "pushed1 = pushed @ [(cn_id n, cn_id a)]"
    using first by (auto simp: carry_child_def res_bind_Inr_conv split: option.splits if_splits)
  then show ?case
  proof cases
    case kept
    obtain added where added: "pushed' = pushed @ added" "mf' = mf \<union> fst ` set added" "distinct (map fst added)"
        "fst ` set added \<subseteq> cn_id ` set ns"
      and others: "\<forall>b\<in>set ns. cn_id b \<in> mf' \<longrightarrow> (\<exists>a. children (name_key b) = Some a \<and> cn_id a \<notin> mt)"
        "\<forall>b\<in>set ns. \<forall>c\<in>set ns. name_key b = name_key c \<longrightarrow> cn_id b \<in> mf' \<longrightarrow> cn_id c \<in> mf' \<longrightarrow> b = c"
      using Cons.IH [OF rest [unfolded kept]] Cons.prems(2,3) by auto
    have "cn_id n \<notin> mf'" using added(2,4) Cons.prems(2,3) by auto
    with added others show ?thesis by auto
  next
    case carried
    have "distinct (map cn_id ns)" "\<forall>m\<in>set ns. cn_id m \<notin> mf1" using Cons.prems(2,3) carried(3)
      by (auto simp: image_iff)
    from Cons.IH [OF rest this] obtain added where added: "pushed' = pushed1 @ added"
        "mf' = mf1 \<union> fst ` set added" "distinct (map fst added)" "fst ` set added \<subseteq> cn_id ` set ns"
      and others: "\<forall>b\<in>set ns. cn_id b \<in> mf' \<longrightarrow> (\<exists>a. children (name_key b) = Some a \<and> cn_id a \<notin> mt1)"
        "\<forall>b\<in>set ns. \<forall>c\<in>set ns. name_key b = name_key c \<longrightarrow> cn_id b \<in> mf' \<longrightarrow> cn_id c \<in> mf' \<longrightarrow> b = c"
      by auto
    have "\<exists>added. pushed' = pushed @ added \<and> mf' = mf \<union> fst ` set added \<and> distinct (map fst added)
      \<and> fst ` set added \<subseteq> cn_id ` set (n # ns)"
      by (rule exI [of _ "(cn_id n, cn_id a) # added"]) (use added carried Cons.prems(2) in auto)
    moreover have "name_key b \<noteq> name_key n" if "b \<in> set ns" "cn_id b \<in> mf'" for b
      using others(1) that carried(1,4) by fastforce
    ultimately show ?thesis using others carried by auto
  qed
qed

text \<open>One container: new identifiers are pushed once each, and at most one per kind and name.\<close>

lemma carry_children_once:
  assumes stage: "carry_children env fs ts container mf mt = Inr (mf', mt', pushed)"
    and fs: "distinct (map cn_id fs)"
  shows "mf' = mf \<union> fst ` set pushed" "distinct (map fst pushed)" "fst ` set pushed \<inter> mf = {}"
    and "b \<in> set fs \<Longrightarrow> cn_id b \<in> mf' \<Longrightarrow> cn_id b \<notin> mf \<Longrightarrow> cn_parent_id b = Some (fst container)"
    and "b \<in> set fs \<Longrightarrow> c \<in> set fs \<Longrightarrow> b \<noteq> c \<Longrightarrow> name_key b = name_key c \<Longrightarrow>
      cn_id b \<notin> mf \<Longrightarrow> cn_id c \<notin> mf \<Longrightarrow> cn_id b \<notin> mf' \<or> cn_id c \<notin> mf'"
proof -
  let ?ns = "filter (\<lambda>n. cn_parent_id n = Some (fst container) \<and> cn_id n \<notin> mf) fs"
  have "distinct (map cn_id ?ns)" "\<forall>n\<in>set ?ns. cn_id n \<notin> mf" using fs by (auto simp: distinct_map_filter)
  from carry_list_once [OF stage [unfolded carry_children_def] this]
  have added: "mf' = mf \<union> fst ` set pushed \<and> distinct (map fst pushed) \<and> fst ` set pushed \<subseteq> cn_id ` set ?ns"
    and once: "\<forall>b\<in>set ?ns. \<forall>c\<in>set ?ns. name_key b = name_key c \<longrightarrow> cn_id b \<in> mf' \<longrightarrow> cn_id c \<in> mf' \<longrightarrow> b = c"
    by auto
  show "mf' = mf \<union> fst ` set pushed" "distinct (map fst pushed)" "fst ` set pushed \<inter> mf = {}"
    using added by auto
  show child: "cn_parent_id b = Some (fst container)" if "b \<in> set fs" "cn_id b \<in> mf'" "cn_id b \<notin> mf" for b
  proof -
    have "cn_id b \<in> cn_id ` set ?ns" using added that(2,3) by blast
    then obtain n where "n \<in> set ?ns" "cn_id b = cn_id n" by (rule imageE)
    with distinct_ids [OF fs _ that(1)] show ?thesis by auto
  qed
  show "cn_id b \<notin> mf' \<or> cn_id c \<notin> mf'"
    if "b \<in> set fs" "c \<in> set fs" "b \<noteq> c" "name_key b = name_key c" "cn_id b \<notin> mf" "cn_id c \<notin> mf" for b c
    using once child that by fastforce
qed

lemma correlate_untouched:
  "correlate env fs ts containers mf mt = Inr (mf', mt') \<Longrightarrow> distinct (map cn_id fs) \<Longrightarrow>
   p \<in> mf \<Longrightarrow> p \<notin> fst ` set containers \<Longrightarrow> b \<in> set fs \<Longrightarrow> cn_parent_id b = Some p \<Longrightarrow> cn_id b \<notin> mf \<Longrightarrow>
   cn_id b \<notin> mf'"
proof (induction env fs ts containers mf mt rule: correlate.induct)
  case (2 env fs ts container containers mf mt)
  then obtain mf1 mt1 pushed where stage: "carry_children env fs ts container mf mt = Inr (mf1, mt1, pushed)"
    and rest: "correlate env fs ts (containers @ pushed) mf1 mt1 = Inr (mf', mt')"
    by (auto split: sum.splits)
  note once = carry_children_once [OF stage "2.prems"(2)]
  have "cn_id b \<notin> mf1" using once(4) [OF "2.prems"(5)] "2.prems"(4,6,7) by auto
  moreover have "p \<in> mf1" "p \<notin> fst ` set (containers @ pushed)"
    using once(1,3) "2.prems"(3,4) by auto
  ultimately show ?case using "2.IH" [OF stage _ _ rest "2.prems"(2) _ _ "2.prems"(5,6)] by simp
qed simp

lemma correlate_once:
  "correlate env fs ts containers mf mt = Inr (mf', mt') \<Longrightarrow> distinct (map cn_id fs) \<Longrightarrow>
   distinct (map fst containers) \<Longrightarrow> fst ` set containers \<subseteq> mf \<Longrightarrow>
   b \<in> set fs \<Longrightarrow> c \<in> set fs \<Longrightarrow> b \<noteq> c \<Longrightarrow> name_key b = name_key c \<Longrightarrow>
   cn_parent_id b = Some p \<Longrightarrow> cn_parent_id c = Some p \<Longrightarrow> cn_id b \<notin> mf \<Longrightarrow> cn_id c \<notin> mf \<Longrightarrow>
   cn_id b \<notin> mf' \<or> cn_id c \<notin> mf'"
proof (induction env fs ts containers mf mt rule: correlate.induct)
  case (2 env fs ts container containers mf mt)
  then obtain mf1 mt1 pushed where stage: "carry_children env fs ts container mf mt = Inr (mf1, mt1, pushed)"
    and rest: "correlate env fs ts (containers @ pushed) mf1 mt1 = Inr (mf', mt')"
    by (auto split: sum.splits)
  note once = carry_children_once [OF stage "2.prems"(2)]
  have next_containers: "distinct (map fst (containers @ pushed))" "fst ` set (containers @ pushed) \<subseteq> mf1"
    using once(1-3) "2.prems"(3,4) by auto
  show ?case
  proof (cases "fst container = p")
    case True
    then have "p \<in> mf1" "p \<notin> fst ` set (containers @ pushed)" using once(1,3) "2.prems"(3,4) by auto
    then have "cn_id x \<notin> mf'" if "x \<in> set fs" "cn_parent_id x = Some p" "cn_id x \<notin> mf1" for x
      using correlate_untouched [OF rest "2.prems"(2) _ _ that(1,2,3)] by blast
    with once(5) [of b c] "2.prems"(5-12) show ?thesis by blast
  next
    case False
    then have "cn_id b \<notin> mf1" "cn_id c \<notin> mf1"
      using once(4) [OF "2.prems"(5)] once(4) [OF "2.prems"(6)] "2.prems"(9-12) by auto
    then show ?thesis using "2.IH" [OF stage _ _ rest "2.prems"(2) next_containers "2.prems"(5-10)] by simp
  qed
qed simp

lemma renamed_froms:
  "list_all2 (renamed_pair env fs ts) renames rs \<Longrightarrow> map (\<lambda>p. cn_id (fst p)) rs = map rnm_from renames"
  by (induction rule: list_all2_induct) (auto simp: renamed_pair_def dest!: node_at_Some)

lemma match_catalogs_once:
  assumes matched: "match_catalogs env source target renames = Inr (pairs, mf, mt)"
    and hash: "hash_orders env" and unique: "unique_paths source" "unique_paths target"
    and nodes: "b \<in> set (graph_nodes source)" "c \<in> set (graph_nodes source)" "b \<noteq> c"
    and siblings: "name_key b = name_key c" "cn_parent_id b = Some p" "cn_parent_id c = Some p"
    and free: "cn_id b \<notin> froms pairs" "cn_id c \<notin> froms pairs"
  shows "cn_id b \<notin> mf \<or> cn_id c \<notin> mf"
proof -
  obtain ps where ps: "match_nodes env source target = of_pairs ps" "distinct (map (\<lambda>p. cn_id (fst p)) ps)"
    using match_nodes_pairs [OF hash unique] by metis
  obtain rs where rs: "pairs = ps @ rs" "list_all2 (renamed_pair env (graph_nodes source) (graph_nodes target)) renames rs"
      "distinct (map (\<lambda>p. cn_id (fst p)) pairs)"
    and walk: "correlate env (from_values env source) (to_values env target)
       (map (\<lambda>r. (rnm_from r, rnm_to r)) renames) (froms pairs) (tos pairs) = Inr (mf, mt)"
    using match_catalogs_stages [OF matched ps] by metis
  have perm: "mset (from_values env source) = mset (graph_nodes source)" by (rule from_values_perm [OF hash unique(1)])
  then have "mset (map cn_id (from_values env source)) = mset (map cn_id (graph_nodes source))" by simp
  then have ids: "distinct (map cn_id (from_values env source))"
    using unique(1) mset_eq_imp_distinct_iff unfolding unique_paths_def by blast
  have containers: "map fst (map (\<lambda>r. (rnm_from r, rnm_to r)) renames) = map (\<lambda>p. cn_id (fst p)) rs"
    using renamed_froms [OF rs(2)] by (simp add: comp_def)
  show ?thesis
  proof (rule correlate_once [OF walk ids, of b c p])
    show "distinct (map fst (map (\<lambda>r. (rnm_from r, rnm_to r)) renames))"
      using rs(3) unfolding containers rs(1) by simp
    show "fst ` set (map (\<lambda>r. (rnm_from r, rnm_to r)) renames) \<subseteq> froms pairs"
      unfolding set_map [symmetric] containers rs(1) by (auto simp: froms_def)
  qed (use nodes siblings free mset_eq_setD [OF perm] in simp_all)
qed

text \<open>
  C37: of two objects of one kind and local name below one container, such as overloads of a routine,
  that have no counterpart and are not renamed themselves, a difference with accepted renames
  always reports one as gone, as data loss when both catalogs are complete: even when the container
  was renamed and took both along unchanged.
\<close>

theorem renamed_container_drops_overloads:
  assumes "diff_catalogs env from_ref source to_ref target renames max_changes = Inr d"
    and "unique_paths source" "unique_paths target" "hash_orders env" "change_ids_unique env source target"
    and "b \<in> set (graph_nodes source)" "c \<in> set (graph_nodes source)" "b \<noteq> c"
    and "name_key b = name_key c" "cn_parent_id b = Some p" "cn_parent_id c = Some p"
    and "list_all (\<lambda>a. \<not> same_object b a \<and> \<not> same_object c a) (graph_nodes target)"
    and "list_all (\<lambda>x. rnm_from x \<notin> {cn_id b, cn_id c}) renames"
  shows "let gone = (if coverage_is_complete source \<and> coverage_is_complete target then ChangeDrop else ChangeUnknown)
    in reported (sd_changes d) {gone} (Some b) None \<or> reported (sd_changes d) {gone} (Some c) None"
proof (rule diff_stages [OF assms(1-5)], goal_cases)
  case (1 pairs mf mt)
  note m = match_catalogs_pairs [OF 1(1) assms(4,2,3)]
  have ids: "distinct (map cn_id (graph_nodes source))" using assms(2) by (simp add: unique_paths_def)
  have free: "cn_id n \<notin> froms pairs" if n: "n \<in> {b, c}" for n
  proof
    assume "cn_id n \<in> froms pairs"
    then obtain n' a r where p: "(n', a, r) \<in> set pairs" "cn_id n' = cn_id n" by (auto simp: in_froms)
    with m(1) n assms(6,7) distinct_ids [OF ids, of n' n] have "n' = n" by blast
    with m(1) p(1) n assms(12,13) show False by (fastforce simp: list_all_iff split: if_splits)
  qed
  have "cn_id b \<notin> mf \<or> cn_id c \<notin> mf"
    by (rule match_catalogs_once [OF 1(1) assms(4,2,3,6-11)]) (use free in simp_all)
  with 1(4) assms(6,7) show ?case unfolding Let_def by blast
qed

section \<open>An example\<close>

text \<open>The schema of the two overloads is renamed, as a diagram does it.\<close>

definition renamed_routine :: "string \<Rightarrow> string \<Rightarrow> catalog_node" where
  "renamed_routine i argument =
     catalog_node_new (renamed_id example_env i (''db.t.f('' @ argument @ '')'')) NodeScalarFunction ''f''
       (''db.t.f('' @ argument @ '')'') (Some (renamed_id example_env ''s'' ''db.t''))
       (DetailsObject (Some [argument]))"

definition renamed_catalog :: catalog_graph where
  "renamed_catalog = example_catalog
     \<lparr>gr_content_digest := ''catfp:'',
      gr_data := example_graph
        \<lparr>cg_nodes := [example_root,
           catalog_node_new (renamed_id example_env ''s'' ''db.t'') NodeSchema ''t'' ''db.t'' (Some ''c'') DetailsNone,
           renamed_routine ''f1'' ''int'', renamed_routine ''f2'' ''text''],
         cg_edges := [contain ''c'' (renamed_id example_env ''s'' ''db.t''),
           contain (renamed_id example_env ''s'' ''db.t'') (renamed_id example_env ''f1'' ''db.t.f(int)''),
           contain (renamed_id example_env ''s'' ''db.t'') (renamed_id example_env ''f2'' ''db.t.f(text)'')]\<rparr>\<rparr>"

definition schema_rename :: "rename_mapping list" where
  "schema_rename = [\<lparr>rnm_from = ''s'', rnm_to = renamed_id example_env ''s'' ''db.t''\<rparr>]"

lemma renamed_id_simps:
  "renamed_id example_env i q = ''cat:diagram-mutation'' @ [CHR 0x00] @ i @ [CHR 0x00] @ q"
  by (simp add: renamed_id_def nul_join_def catalog_id_def example_env_def)

lemmas renamed_defs = example_defs renamed_catalog_def renamed_routine_def schema_rename_def renamed_id_simps

lemma example_descendants: "descendant_ids (cg_nodes example_graph) ''s'' = Some {''s'', ''f1'', ''f2''}"
  by (simp add: descendant_ids_def grow_until_stable_def while_option_unfold child_pass_def renamed_defs node_ids_def insert_commute)

lemma example_rename_target: "rename_target example_graph ''s'' ''t'' = Inr (cg_nodes example_graph ! 1, ''db.t'')"
  by (simp add: rename_target_def name_fits_def find_node_def renamed_defs ok_or_def res_bind_def)
lemma example_mutated: "mutate_graph example_env example_graph (RenameObject ''s'' ''t'') = Some (Inr (gr_data renamed_catalog, schema_rename))"
  apply (simp add: mutate_graph_def rename_catalog_object_def example_rename_target
      example_descendants)
  apply (simp add: renamed_defs rename_map_def renamed_path_def strip_prefix_def res_bind_def ok_or_def rename_node_def remap_id_def rename_edge_def example_descendants [unfolded example_defs, simplified])
  done
lemma renamed_normal: "normalize_graph example_env (gr_data renamed_catalog) = gr_data renamed_catalog"
proof -
  have "canonical_json (ca_node_json example_env) = (\<lambda>_. [])" "canonical_json (ca_edge_json example_env) = (\<lambda>_. [])"
    by (simp_all add: canonical_json_def example_env_def fun_eq_iff)
  then show ?thesis
    by (simp add: normalize_graph_def normalize_coverage_def renamed_defs less_eq_catalog_edge_kind_def)
qed
lemma renamed_valid: "validate_graph example_env (gr_data renamed_catalog) 100000 500000 = Inr ()"
  by (simp add: validate_graph_Inr sound_graph_def renamed_defs
    node_sound_def node_strings_ok_def text_within_def
    details_within_def definitions_of_def details_match_def strings_valid_def column_key_def
    max_detail_items_def max_detail_string_def max_definition_bytes_def max_total_definition_bytes_def
    node_ids_def parent_of_def node_at_def nodes_by_id_def edge_ends_known_def certainty_ok_def
    contains_ok_def pairs_ok_def foreign_key_ok_def coverage_within_def)
lemma example_rename: "apply_diagram_mutation example_env example_catalog (RenameObject ''s'' ''t'')
  = Some (Inr (renamed_catalog, schema_rename))"
proof -
  have "gr_data example_catalog = example_graph" by (simp add: example_catalog_def)
  then show ?thesis
    by (simp add: apply_diagram_mutation_def example_mutated finish_mutation_def
      renamed_normal renamed_valid)
     (simp add: example_env_def renamed_catalog_def example_catalog_def)
qed

lemma renamed_matching: "match_catalogs example_diff_env example_catalog renamed_catalog schema_rename
 = Inr ([(example_root, example_root, False), (cg_nodes example_graph ! 1, graph_nodes renamed_catalog ! 1, True)],
   {''c'', ''s'', ''f2''}, {''c'', renamed_id example_env ''s'' ''db.t'', renamed_id example_env ''f2'' ''db.t.f(text)''})"
  by (simp add: match_catalogs_def match_nodes_def renamed_defs from_values_def to_values_def match_id_def
    node_at_def nodes_by_id_def match_pair_def collect_by_def match_path_def path_key_def accept_rename_def rename_compatible_def rename_value_def res_bind_def ok_or_def carry_children_def carry_child_def name_key_def insert_commute
    json_ordinal_def json_text_def json_completeness_def)

lemma renamed_diff_made:
  "\<exists>d. diff_catalogs example_diff_env example_ref example_catalog example_ref renamed_catalog schema_rename None = Inr d"
proof -
  obtain changes where "all_changes example_diff_env example_catalog renamed_catalog
      ([(example_root, example_root, False), (cg_nodes example_graph ! 1, graph_nodes renamed_catalog ! 1, True)],
       {''c'', ''s'', ''f2''},
       {''c'', renamed_id example_env ''s'' ''db.t'', renamed_id example_env ''f2'' ''db.t.f(text)''}) = Inr changes"
    "length changes \<le> 10000"
    by (simp add: all_changes_def pair_change_def field_changes_def push_field_def renamed_defs res_bind_def ok_or_def
      json_ordinal_def json_text_def json_completeness_def)
  then show ?thesis
    by (simp add: diff_catalogs_def renamed_matching Let_def) (simp add: example_diff_env_def)
qed

lemma renamed_unique: "unique_paths renamed_catalog"
  by (simp add: unique_paths_def path_key_def renamed_defs)

lemma renamed_ids: "change_ids_unique example_diff_env example_catalog renamed_catalog"
  by (rule change_ids_uniqueI [OF example_injective example_unique(1) renamed_unique])
    (simp_all add: renamed_defs)

theorem renamed_container_drops_overloads_witness:
  "\<exists>target renames d. apply_diagram_mutation example_env example_catalog (RenameObject ''s'' ''t'')
      = Some (Inr (target, renames))
    \<and> diff_catalogs example_diff_env example_ref example_catalog example_ref target renames None = Inr d
    \<and> (reported (sd_changes d) {ChangeDrop} (Some (example_routine ''f1'' ''int'')) None
       \<or> reported (sd_changes d) {ChangeDrop} (Some (example_routine ''f2'' ''text'')) None)"
proof -
  obtain d where d: "diff_catalogs example_diff_env example_ref example_catalog example_ref renamed_catalog
      schema_rename None = Inr d" using renamed_diff_made by blast
  have complete: "coverage_is_complete example_catalog" "coverage_is_complete renamed_catalog"
    by (simp_all add: coverage_is_complete_def renamed_defs)
  have "reported (sd_changes d) {ChangeDrop} (Some (example_routine ''f1'' ''int'')) None
      \<or> reported (sd_changes d) {ChangeDrop} (Some (example_routine ''f2'' ''text'')) None"
    using renamed_container_drops_overloads [OF d example_unique(1) renamed_unique example_orders renamed_ids,
      of "example_routine ''f1'' ''int''" "example_routine ''f2'' ''text''" "''s''"]
    by (simp add: complete) (simp add: renamed_defs name_key_def same_object_def)
  with d example_rename show ?thesis by blast
qed

section \<open>Objects with one path\<close>

text \<open>
  Validation rejects equal identifiers, not equal paths. Of two tables with one path, both gone and
  replaced by a third with that path, one is paired with the third and the other is marked as
  matched without a pair, so the difference is empty.
\<close>

definition path_twins :: "string list \<Rightarrow> catalog_graph" where
  "path_twins ids = example_catalog\<lparr>gr_data := example_graph
     \<lparr>cg_nodes := [example_root, catalog_node_new ''s'' NodeSchema ''s'' ''db.s'' (Some ''c'') DetailsNone]
        @ map (\<lambda>i. catalog_node_new i NodeTable ''t'' ''db.s.t'' (Some ''s'') DetailsNone) ids,
      cg_edges := contain ''c'' ''s'' # map (contain ''s'') ids\<rparr>\<rparr>"

lemma path_twin_is_lost:
  "validate_graph example_env (gr_data (path_twins [''t1'', ''t2''])) 100000 500000 = Inr ()"
  "\<exists>d. diff_catalogs example_diff_env example_ref (path_twins [''t1'', ''t2'']) example_ref (path_twins [''t3'']) [] None
      = Inr d \<and> sd_changes d = []"
proof -
  show "validate_graph example_env (gr_data (path_twins [''t1'', ''t2''])) 100000 500000 = Inr ()"
    by (simp add: validate_graph_Inr sound_graph_def path_twins_def example_defs
      node_sound_def node_strings_ok_def text_within_def details_within_def definitions_of_def
      details_match_def column_key_def max_total_definition_bytes_def node_ids_def parent_of_def
      node_at_def nodes_by_id_def edge_ends_known_def certainty_ok_def contains_ok_def pairs_ok_def
      foreign_key_ok_def coverage_within_def max_detail_items_def)
  let ?source = "path_twins [''t1'', ''t2'']" and ?target = "path_twins [''t3'']"
  obtain pairs where matched: "match_catalogs example_diff_env ?source ?target []
      = Inr (pairs, {''c'', ''s'', ''t1'', ''t2''}, {''c'', ''s'', ''t3''})"
    and changes: "all_changes example_diff_env ?source ?target
        (pairs, {''c'', ''s'', ''t1'', ''t2''}, {''c'', ''s'', ''t3''}) = Inr []"
    by (rule that [of "zip (cg_nodes (gr_data ?source)) (map (\<lambda>n. (n, False)) (cg_nodes (gr_data ?target)))"])
      (simp_all add: path_twins_def match_catalogs_def match_nodes_def example_defs from_values_def to_values_def
        match_id_def node_at_def nodes_by_id_def match_pair_def collect_by_def match_path_def path_key_def
        insert_commute all_changes_def pair_change_def field_changes_def push_field_def res_bind_def ok_or_def
        diff_extra_def btree_remove_def)
  show "\<exists>d. diff_catalogs example_diff_env example_ref ?source example_ref ?target [] None = Inr d
      \<and> sd_changes d = []"
    by (simp add: diff_catalogs_def matched changes Let_def attach_dependencies_def
      stable_dependency_order_def btree_of_def emit_ready.simps)
      (simp add: example_diff_env_def)
qed

end
