(* ===== verification/Snapshot_Filter.thy ===== *)
theory Snapshot_Filter
  imports Authorization Catalog_Graph
begin

text \<open>
  What a schema-restricted profile sees of a catalog: \<^verbatim>\<open>filter_snapshot\<close> of
  \<^verbatim>\<open>crates/server/src/sql_policy.rs\<close>, on the schema trees and the catalog graph.
  The two loops of the latter run until a pass adds nothing; they are \<open>while_option\<close> loops here,
  whose value \<open>None\<close> would be a loop that never ends.
\<close>

section \<open>The filter\<close>

text \<open>The part of a snapshot the filter looks at.\<close>

record schema_snapshot =
  sn_trees :: "catalog_tree list"
  sn_graph :: "catalog_graph_data option"

definition schema_selected :: "schema_selector list \<Rightarrow> string \<Rightarrow> string \<Rightarrow> bool" where
  "schema_selected selectors catalog schema =
     list_ex (\<lambda>selector. ss_schema selector = schema
       \<and> (case ss_catalog selector of None \<Rightarrow> True | Some expected \<Rightarrow> expected = catalog)) selectors"

definition allowed_schema_names :: "schema_selector list \<Rightarrow> catalog_tree list \<Rightarrow> string set" where
  "allowed_schema_names selectors trees =
     set (concat (map (\<lambda>catalog.
       map (\<lambda>schema. ct_name catalog @ ''.'' @ st_name schema)
         (filter (\<lambda>schema. schema_selected selectors (ct_name catalog) (st_name schema))
            (ct_schemas catalog))) trees))"

definition retain_trees :: "schema_selector list \<Rightarrow> catalog_tree list \<Rightarrow> catalog_tree list" where
  "retain_trees selectors trees =
     filter (\<lambda>catalog. ct_schemas catalog \<noteq> [])
       (map (\<lambda>catalog. catalog\<lparr> ct_schemas :=
          filter (\<lambda>schema. schema_selected selectors (ct_name catalog) (st_name schema))
            (ct_schemas catalog) \<rparr>) trees)"

text \<open>One pass of the first loop, which adds parents, and of the second, which adds children.\<close>

fun ancestor_pass :: "catalog_node list \<Rightarrow> string set \<Rightarrow> string set" where
  "ancestor_pass [] visible = visible"
| "ancestor_pass (node # nodes) visible =
     ancestor_pass nodes
       (if cn_id node \<in> visible
        then (case cn_parent_id node of Some parent \<Rightarrow> insert parent visible | None \<Rightarrow> visible)
        else visible)"

fun descendant_pass :: "catalog_node list \<Rightarrow> string set \<Rightarrow> string set" where
  "descendant_pass [] visible = visible"
| "descendant_pass (node # nodes) visible =
     descendant_pass nodes
       (if cn_kind node \<noteq> NodeSchema
           \<and> (case cn_parent_id node of Some parent \<Rightarrow> parent \<in> visible | None \<Rightarrow> False)
        then insert (cn_id node) visible else visible)"

definition visible_nodes :: "string set \<Rightarrow> catalog_node list \<Rightarrow> string set option" where
  "visible_nodes allowed nodes =
     (let start = set (map cn_id (filter (\<lambda>n. cn_kind n = NodeSchema \<and> cn_qualified_name n \<in> allowed) nodes))
      in case grow_until_stable (ancestor_pass nodes) start of
           None \<Rightarrow> None
         | Some v \<Rightarrow> grow_until_stable (descendant_pass nodes) v)"

definition retain_edge :: "string set \<Rightarrow> catalog_edge \<Rightarrow> catalog_edge option" where
  "retain_edge visible edge =
     (if ce_from edge \<notin> visible then None
      else if (case ce_to edge of Some to \<Rightarrow> to \<notin> visible | None \<Rightarrow> False)
      then Some (edge\<lparr> ce_to := None, ce_certainty := CatalogInaccessible,
                       ce_referenced_path := None, ce_column_pairs := [] \<rparr>)
      else Some edge)"

definition filter_graph :: "string set \<Rightarrow> catalog_graph_data \<Rightarrow> catalog_graph_data option" where
  "filter_graph allowed graph =
     map_option (\<lambda>visible. graph
       \<lparr> cg_nodes := filter (\<lambda>n. cn_id n \<in> visible) (cg_nodes graph),
         cg_edges := List.map_filter (retain_edge visible) (cg_edges graph),
         cg_coverage := (cg_coverage graph)
           \<lparr> cv_state := CoveragePartial,
             cv_failures := cv_failures (cg_coverage graph) @
               [\<lparr> cf_stage = ''authorization'', cf_schema = None, cf_code = ''policy_filtered'' \<rparr>] \<rparr> \<rparr>)
       (visible_nodes allowed (cg_nodes graph))"

definition filter_snapshot :: "connection_policy \<Rightarrow> schema_snapshot \<Rightarrow> schema_snapshot option" where
  "filter_snapshot policy snapshot =
     (case cp_allowed_schemas policy of
        None \<Rightarrow> Some snapshot
      | Some selectors \<Rightarrow>
          (let allowed = allowed_schema_names selectors (sn_trees snapshot);
               s = snapshot\<lparr> sn_trees := retain_trees selectors (sn_trees snapshot) \<rparr>
           in case sn_graph s of
                None \<Rightarrow> Some s
              | Some graph \<Rightarrow>
                  map_option (\<lambda>g. s\<lparr> sn_graph := Some g \<rparr>) (filter_graph allowed graph)))"

section \<open>What the loops compute\<close>

text \<open>The nodes above the selected schemas, and from those the nodes below that are no schemas.\<close>

inductive_set descendants :: "catalog_node list \<Rightarrow> string set \<Rightarrow> string set"
  for nodes :: "catalog_node list" and roots :: "string set" where
  root: "i \<in> roots \<Longrightarrow> i \<in> descendants nodes roots"
| child: "n \<in> set nodes \<Longrightarrow> cn_kind n \<noteq> NodeSchema \<Longrightarrow> cn_parent_id n = Some p \<Longrightarrow>
    p \<in> descendants nodes roots \<Longrightarrow> cn_id n \<in> descendants nodes roots"

lemma pass_mono: "v \<subseteq> ancestor_pass nodes v" "v \<subseteq> descendant_pass nodes v"
proof -
  show "v \<subseteq> ancestor_pass nodes v"
  proof (induction nodes arbitrary: v)
    case (Cons n nodes)
    show ?case using Cons.IH [of v] Cons.IH [of "insert (the (cn_parent_id n)) v"]
      by (auto split: option.split)
  qed simp
  show "v \<subseteq> descendant_pass nodes v"
  proof (induction nodes arbitrary: v)
    case (Cons n nodes)
    show ?case using Cons.IH [of v] Cons.IH [of "insert (cn_id n) v"] by auto
  qed simp
qed

lemma ancestor_pass_within:
  "v \<subseteq> A \<Longrightarrow> (\<And>n p. n \<in> set nodes \<Longrightarrow> cn_id n \<in> A \<Longrightarrow> cn_parent_id n = Some p \<Longrightarrow> p \<in> A) \<Longrightarrow>
   ancestor_pass nodes v \<subseteq> A"
proof (induction nodes arbitrary: v)
  case (Cons n nodes)
  have "(if cn_id n \<in> v then (case cn_parent_id n of Some p \<Rightarrow> insert p v | None \<Rightarrow> v) else v) \<subseteq> A"
    using Cons.prems by (auto split: option.split)
  then have "ancestor_pass nodes (if cn_id n \<in> v
      then (case cn_parent_id n of Some p \<Rightarrow> insert p v | None \<Rightarrow> v) else v) \<subseteq> A"
    by (rule Cons.IH) (rule Cons.prems(2), simp_all)
  then show ?case by simp
qed simp

lemma descendant_pass_within:
  "v \<subseteq> A \<Longrightarrow> (\<And>n p. n \<in> set nodes \<Longrightarrow> cn_kind n \<noteq> NodeSchema \<Longrightarrow> cn_parent_id n = Some p \<Longrightarrow> p \<in> A \<Longrightarrow>
     cn_id n \<in> A) \<Longrightarrow> descendant_pass nodes v \<subseteq> A"
proof (induction nodes arbitrary: v)
  case (Cons n nodes)
  have "(if cn_kind n \<noteq> NodeSchema \<and> (case cn_parent_id n of Some p \<Rightarrow> p \<in> v | None \<Rightarrow> False)
     then insert (cn_id n) v else v) \<subseteq> A"
    using Cons.prems by (auto split: option.splits)
  then have "descendant_pass nodes (if cn_kind n \<noteq> NodeSchema
      \<and> (case cn_parent_id n of Some p \<Rightarrow> p \<in> v | None \<Rightarrow> False)
     then insert (cn_id n) v else v) \<subseteq> A"
    by (rule Cons.IH) (rule Cons.prems(2), simp_all)
  then show ?case by simp
qed simp

lemma ancestor_pass_stable:
  "ancestor_pass nodes v = v \<Longrightarrow> n \<in> set nodes \<Longrightarrow> cn_id n \<in> v \<Longrightarrow> cn_parent_id n = Some p \<Longrightarrow> p \<in> v"
proof (induction nodes arbitrary: v)
  case (Cons m nodes)
  let ?v = "if cn_id m \<in> v then (case cn_parent_id m of Some p \<Rightarrow> insert p v | None \<Rightarrow> v) else v"
  have "?v \<subseteq> v" using pass_mono(1) [of ?v nodes] Cons.prems(1) by simp
  then have "?v = v" by (auto split: option.splits)
  then show ?case using Cons by (auto split: if_splits)
qed simp

lemma descendant_pass_stable:
  "descendant_pass nodes v = v \<Longrightarrow> n \<in> set nodes \<Longrightarrow> cn_kind n \<noteq> NodeSchema \<Longrightarrow>
   cn_parent_id n = Some p \<Longrightarrow> p \<in> v \<Longrightarrow> cn_id n \<in> v"
proof (induction nodes arbitrary: v)
  case (Cons m nodes)
  let ?v = "if cn_kind m \<noteq> NodeSchema \<and> (case cn_parent_id m of Some p \<Rightarrow> p \<in> v | None \<Rightarrow> False)
     then insert (cn_id m) v else v"
  have "?v \<subseteq> v" using pass_mono(2) [of ?v nodes] Cons.prems(1) by simp
  then have "?v = v" by auto
  then show ?case using Cons by (auto split: if_splits)
qed simp

definition node_universe :: "catalog_node list \<Rightarrow> string set" where
  "node_universe nodes = set (map cn_id nodes) \<union> set (List.map_filter cn_parent_id nodes)"

lemma universe_closed:
  "finite (node_universe nodes)" "n \<in> set nodes \<Longrightarrow> cn_id n \<in> node_universe nodes"
  "n \<in> set nodes \<Longrightarrow> cn_parent_id n = Some p \<Longrightarrow> p \<in> node_universe nodes"
  by (force simp: node_universe_def map_filter_def)+

lemma ancestors_computed:
  assumes "start \<subseteq> node_universe nodes"
  shows "grow_until_stable (ancestor_pass nodes) start = Some (ancestors nodes start)
    \<and> ancestors nodes start \<subseteq> node_universe nodes"
proof -
  have "\<exists>w. grow_until_stable (ancestor_pass nodes) start = Some w \<and> start \<subseteq> w
      \<and> w \<subseteq> node_universe nodes \<and> ancestor_pass nodes w = w \<and> w \<subseteq> ancestors nodes start"
  proof (rule grow_until_stable_ends)
    show "v \<subseteq> node_universe nodes \<Longrightarrow> ancestor_pass nodes v \<subseteq> node_universe nodes" for v
      by (rule ancestor_pass_within) (use universe_closed in auto)
    show "v \<subseteq> ancestors nodes start \<Longrightarrow> ancestor_pass nodes v \<subseteq> ancestors nodes start" for v
      by (rule ancestor_pass_within) (auto intro: ancestors.parent)
  qed (use assms universe_closed pass_mono in \<open>auto intro: ancestors.start\<close>)
  then obtain w where w: "grow_until_stable (ancestor_pass nodes) start = Some w" "start \<subseteq> w"
    "w \<subseteq> node_universe nodes" "ancestor_pass nodes w = w" "w \<subseteq> ancestors nodes start" by blast
  have "i \<in> w" if "i \<in> ancestors nodes start" for i
    using that by induction (use w(2) ancestor_pass_stable [OF w(4)] in auto)
  with w show ?thesis by auto
qed

lemma descendants_computed:
  assumes "roots \<subseteq> node_universe nodes"
  shows "grow_until_stable (descendant_pass nodes) roots = Some (descendants nodes roots)"
proof -
  have "\<exists>w. grow_until_stable (descendant_pass nodes) roots = Some w \<and> roots \<subseteq> w
      \<and> w \<subseteq> node_universe nodes \<and> descendant_pass nodes w = w \<and> w \<subseteq> descendants nodes roots"
  proof (rule grow_until_stable_ends)
    show "v \<subseteq> node_universe nodes \<Longrightarrow> descendant_pass nodes v \<subseteq> node_universe nodes" for v
      by (rule descendant_pass_within) (use universe_closed in auto)
    show "v \<subseteq> descendants nodes roots \<Longrightarrow> descendant_pass nodes v \<subseteq> descendants nodes roots" for v
      by (rule descendant_pass_within) (auto intro: descendants.child)
  qed (use assms universe_closed pass_mono in \<open>auto intro: descendants.root\<close>)
  then obtain w where w: "grow_until_stable (descendant_pass nodes) roots = Some w" "roots \<subseteq> w"
    "descendant_pass nodes w = w" "w \<subseteq> descendants nodes roots" by blast
  have "i \<in> w" if "i \<in> descendants nodes roots" for i
    using that by induction (use w(2) descendant_pass_stable [OF w(3)] in auto)
  with w show ?thesis by auto
qed

definition selected_schema_ids :: "string set \<Rightarrow> catalog_node list \<Rightarrow> string set" where
  "selected_schema_ids allowed nodes =
     cn_id ` {n \<in> set nodes. cn_kind n = NodeSchema \<and> cn_qualified_name n \<in> allowed}"

definition reachable_nodes :: "string set \<Rightarrow> catalog_node list \<Rightarrow> string set" where
  "reachable_nodes allowed nodes =
     descendants nodes (ancestors nodes (selected_schema_ids allowed nodes))"

lemma visible_nodes_computed: "visible_nodes allowed nodes = Some (reachable_nodes allowed nodes)"
proof -
  have "set (map cn_id (filter (\<lambda>n. cn_kind n = NodeSchema \<and> cn_qualified_name n \<in> allowed) nodes))
      = selected_schema_ids allowed nodes"
    by (auto simp: selected_schema_ids_def)
  moreover have "selected_schema_ids allowed nodes \<subseteq> node_universe nodes"
    using universe_closed(2) by (auto simp: selected_schema_ids_def)
  ultimately show ?thesis
    using ancestors_computed [of "selected_schema_ids allowed nodes" nodes]
      descendants_computed [of "ancestors nodes (selected_schema_ids allowed nodes)" nodes]
    by (simp add: visible_nodes_def reachable_nodes_def)
qed

lemma retain_edge_visible:
  "retain_edge visible e = Some e' \<Longrightarrow>
   ce_from e' \<in> visible \<and> (\<forall>t. ce_to e' = Some t \<longrightarrow> t \<in> visible)
   \<and> (e' = e \<or> ce_to e' = None \<and> ce_referenced_path e' = None \<and> ce_column_pairs e' = [])"
  by (auto simp: retain_edge_def split: if_splits option.splits)

text \<open>
  C26: filtering ends and hides. For every restricted profile and every graph, cyclic ones included,
  both loops of the filter end; the graph keeps exactly the nodes reachable from the selected
  schemas - their ancestors, and from those everything below except other schemas - and no edge
  that names another node; and every schema left in the trees is a selected one.
\<close>

theorem filter_ends_and_hides:
  assumes "cp_allowed_schemas policy = Some selectors" and "sn_graph snapshot = Some graph"
  shows "\<exists>s g. filter_snapshot policy snapshot = Some s \<and> sn_graph s = Some g
    \<and> (let visible = reachable_nodes (allowed_schema_names selectors (sn_trees snapshot)) (cg_nodes graph) in
        set (cg_nodes g) = {n \<in> set (cg_nodes graph). cn_id n \<in> visible}
        \<and> (\<forall>e \<in> set (cg_edges g). ce_from e \<in> visible
             \<and> (case ce_to e of Some t \<Rightarrow> t \<in> visible | None \<Rightarrow> True)))
    \<and> (\<forall>c \<in> set (sn_trees s). ct_schemas c \<noteq> []
         \<and> (\<forall>x \<in> set (ct_schemas c). schema_selected selectors (ct_name c) (st_name x)))"
proof -
  have trees: "ct_schemas c \<noteq> [] \<and> (\<forall>x \<in> set (ct_schemas c). schema_selected selectors (ct_name c) (st_name x))"
    if "c \<in> set (retain_trees selectors (sn_trees snapshot))" for c
    using that by (auto simp: retain_trees_def)
  have edges: "ce_from e \<in> v \<and> (case ce_to e of Some t \<Rightarrow> t \<in> v | None \<Rightarrow> True)"
    if "e \<in> set (List.map_filter (retain_edge v) es)" for e v es
    using that retain_edge_visible [of v] by (fastforce simp: map_filter_def split: option.splits)
  show ?thesis
    using assms trees edges
    by (auto simp: filter_snapshot_def filter_graph_def visible_nodes_computed Let_def)
qed

definition demo_node :: "string \<Rightarrow> catalog_node_kind \<Rightarrow> string option \<Rightarrow> catalog_node" where
  "demo_node i kind parent =
     \<lparr> cn_id = i, cn_native_id = None, cn_kind = kind, cn_name = i, cn_qualified_name = i,
       cn_parent_id = parent, cn_ordinal = None, cn_definition_digest = None,
       cn_completeness = CatalogComplete, cn_details = DetailsNone, cn_extra = [] \<rparr>"

definition demo_snapshot :: schema_snapshot where
  "demo_snapshot =
     \<lparr> sn_trees = [\<lparr> ct_name = ''app'', ct_schemas = [\<lparr> st_name = ''public'', st_objects = [] \<rparr>,
                                             \<lparr> st_name = ''secret'', st_objects = [] \<rparr>] \<rparr>],
       sn_graph = Some \<lparr> cg_coverage = \<lparr> cv_state = CoverageComplete, cv_requested_kinds = [],
           cv_covered_schemas = [], cv_omitted_schemas = [], cv_truncated_at_nodes = None, cv_failures = [] \<rparr>,
         cg_nodes = [demo_node ''app'' NodeCatalog None, demo_node ''app.public'' NodeSchema (Some ''app''),
           demo_node ''app.secret'' NodeSchema (Some ''app''),
           demo_node ''t'' NodeTable (Some ''app.secret'')],
         cg_edges = [] \<rparr> \<rparr>"

theorem filter_ends_and_hides_witness:
  "\<exists>s. filter_snapshot (connection_policy_default
       \<lparr> cp_allowed_schemas := Some [\<lparr> ss_catalog = None, ss_schema = ''public'' \<rparr>] \<rparr>) demo_snapshot = Some s
     \<and> (\<forall>c \<in> set (sn_trees s). ct_schemas c \<noteq> [])"
proof -
  obtain g where g: "sn_graph demo_snapshot = Some g" by (simp add: demo_snapshot_def)
  show ?thesis
    using filter_ends_and_hides [of "connection_policy_default
       \<lparr> cp_allowed_schemas := Some [\<lparr> ss_catalog = None, ss_schema = ''public'' \<rparr>] \<rparr>", OF _ g] by auto
qed

end
