(* ===== verification/Quoting.thy ===== *)
theory Quoting
  imports Sift_Protocol
begin

text \<open>
  The delimited identifiers of the three engines, read back. Both
  \<^verbatim>\<open>crates/server/src/ddl.rs\<close> and \<^verbatim>\<open>crates/sql-variables/src/lib.rs\<close> write them by doubling the
  closing delimiter; here is the reader an engine applies to such a name, stopping at the first
  delimiter that is not doubled, and the lemma that it undoes the doubling. The characters of a
  UTF-8 text, which both files iterate over, are here too.
\<close>

section \<open>Characters of a text\<close>

text \<open>The length of the UTF-8 character a byte leads.\<close>

definition char_bytes :: "char \<Rightarrow> nat" where
  "char_bytes c =
     (let n = of_char c :: nat in if n < 128 then 1 else if n < 224 then 2 else if n < 240 then 3 else 4)"

lemma char_bytes_pos [simp]: "0 < char_bytes c"
  by (simp add: char_bytes_def Let_def)

function utf8_chars :: "string \<Rightarrow> string list" where
  "utf8_chars [] = []"
| "utf8_chars (c # s) = take (char_bytes c) (c # s) # utf8_chars (drop (char_bytes c) (c # s))"
  by pat_completeness auto
termination by (relation "measure length") auto

definition starts_with :: "string \<Rightarrow> string \<Rightarrow> bool" where
  "starts_with p s = (take (length p) s = p)"

lemma starts_with_length: "starts_with p s \<Longrightarrow> length p \<le> length s"
  by (metis starts_with_def length_take min.cobounded1)

lemma starts_with_append [simp]: "starts_with p (p @ s)"
  by (simp add: starts_with_def)

section \<open>Delimited identifiers\<close>

definition open_quote :: "engine \<Rightarrow> char" where
  "open_quote engine = (case engine of SqlServer \<Rightarrow> CHR ''['' | _ \<Rightarrow> CHR 0x22)"

definition close_quote :: "engine \<Rightarrow> char" where
  "close_quote engine = (case engine of SqlServer \<Rightarrow> CHR 0x5D | _ \<Rightarrow> CHR 0x22)"

text \<open>The name after an opening delimiter, and what follows the closing one.\<close>

fun read_quoted :: "char \<Rightarrow> string \<Rightarrow> (string \<times> string) option" where
  "read_quoted q [] = None"
| "read_quoted q [c] = (if c = q then Some ([], []) else None)"
| "read_quoted q (c # d # s) =
     (if c = q then
        (if d = q then map_option (apfst (Cons q)) (read_quoted q s) else Some ([], d # s))
      else map_option (apfst (Cons c)) (read_quoted q (d # s)))"

lemma read_quoted_shorter:
  "read_quoted q s = Some (p, rest) \<Longrightarrow> length rest < length s"
  by (induction q s arbitrary: p rule: read_quoted.induct) (auto split: if_splits)

lemma read_quoted_Cons:
  "c \<noteq> q \<Longrightarrow> s \<noteq> [] \<Longrightarrow> read_quoted q (c # s) = map_option (apfst (Cons c)) (read_quoted q s)"
  by (cases s) auto

lemma read_quoted_replace:
  assumes "\<And>s. rest \<noteq> q # s"
  shows "read_quoted q (replace_char q [q, q] p @ q # rest) = Some (p, rest)"
proof (induction p)
  case Nil
  show ?case using assms by (cases rest) auto
next
  case (Cons c p)
  then show ?case
    by (cases "c = q") (simp_all add: read_quoted_Cons)
qed

text \<open>A qualified name: delimited parts separated by dots.\<close>

function read_qualified :: "engine \<Rightarrow> string \<Rightarrow> (string list \<times> string) option" where
  "read_qualified engine s =
     (if s \<noteq> [] \<and> hd s = open_quote engine
      then (case read_quoted (close_quote engine) (tl s) of
              None \<Rightarrow> None
            | Some (p, rest) \<Rightarrow>
                (if rest \<noteq> [] \<and> hd rest = CHR ''.''
                 then map_option (apfst (Cons p)) (read_qualified engine (tl rest))
                 else Some ([p], rest)))
      else None)"
  by pat_completeness auto
termination
  by (relation "measure (\<lambda>(engine, s). length s)")
     (auto dest!: sym [of "Some _"] read_quoted_shorter)

declare read_qualified.simps [simp del]

definition ends_name :: "engine \<Rightarrow> string \<Rightarrow> bool" where
  "ends_name engine rest = (rest = [] \<or> hd rest \<notin> {close_quote engine, CHR ''.''})"

definition delimited :: "engine \<Rightarrow> string \<Rightarrow> string" where
  "delimited engine part =
     open_quote engine #
       replace_char (close_quote engine) [close_quote engine, close_quote engine] part
       @ [close_quote engine]"

lemma close_quote_not_dot [simp]:
  "close_quote engine \<noteq> CHR ''.''" "CHR ''.'' \<noteq> close_quote engine"
  by (cases engine; simp add: close_quote_def)+

lemma read_delimited:
  assumes "\<And>s. rest \<noteq> close_quote engine # s"
  shows "read_quoted (close_quote engine) (tl (delimited engine part @ rest)) = Some (part, rest)"
  using read_quoted_replace [of rest "close_quote engine" part, OF assms]
  by (simp add: delimited_def)

text \<open>
  What a writer of delimited names promises: the text starts with the opening delimiter, and the
  reader gets the name back from it when no closing delimiter follows.
\<close>

locale identifier_quoting =
  fixes quote :: "engine \<Rightarrow> string \<Rightarrow> string"
  assumes opens: "quote engine part @ rest \<noteq> [] \<and> hd (quote engine part @ rest) = open_quote engine"
    and reads: "(\<And>s. rest \<noteq> close_quote engine # s) \<Longrightarrow>
      read_quoted (close_quote engine) (tl (quote engine part @ rest)) = Some (part, rest)"
begin

lemma read_last:
  assumes "ends_name engine rest"
  shows "read_qualified engine (quote engine part @ rest) = Some ([part], rest)"
proof -
  have "read_quoted (close_quote engine) (tl (quote engine part @ rest)) = Some (part, rest)"
    by (rule reads) (use assms in \<open>auto simp: ends_name_def\<close>)
  with assms opens show ?thesis
    by (subst read_qualified.simps) (auto simp: ends_name_def simp del: append_is_Nil_conv)
qed

lemma read_more:
  "read_qualified engine (quote engine part @ CHR ''.'' # s) =
     map_option (apfst (Cons part)) (read_qualified engine s)"
proof -
  have "read_quoted (close_quote engine) (tl (quote engine part @ CHR ''.'' # s))
        = Some (part, CHR ''.'' # s)"
    by (rule reads) (auto dest: sym)
  with opens show ?thesis
    by (subst read_qualified.simps) (simp del: append_is_Nil_conv)
qed

lemma read_joined:
  assumes "ends_name engine rest" and "parts \<noteq> []"
  shows "read_qualified engine (join_with ''.'' (map (quote engine) parts) @ rest) = Some (parts, rest)"
  using assms(2)
proof (induction parts rule: induct_list012)
  case 1
  then show ?case by simp
next
  case (2 x)
  then show ?case using assms(1) by (simp add: read_last)
next
  case (3 x y ys)
  then show ?case by (simp add: read_more)
qed

end

lemma delimited_quoting: "identifier_quoting delimited"
proof unfold_locales
  show "delimited engine part @ rest \<noteq> [] \<and> hd (delimited engine part @ rest) = open_quote engine"
    for engine part rest
    by (simp add: delimited_def)
qed (rule read_delimited)

end
