(* ===== verification/Sql_Variables.thy ===== *)
theory Sql_Variables
  imports Quoting
begin

text \<open>
  The template compiler of \<^verbatim>\<open>crates/sql-variables/src/lib.rs\<close> over the types of
  \<^verbatim>\<open>crates/protocol/src/sql_variable.rs\<close>: it finds \<open>{{name}}\<close> references outside literals,
  quoted identifiers and comments and replaces them by bind parameters or quoted identifiers.

  Texts are UTF-8 bytes. The scanner works on what is left of the text and the index where that
  starts. Which non-ASCII characters are letters is a parameter (\<open>unicode_env\<close>).
\<close>

section \<open>Types\<close>

datatype variable_kind = KindValue | KindIdentifier | KindList

datatype variable_scope =
    ScopeTenantDefault | ScopeConnectionProfile | ScopeWorkspace | ScopeQueryTab
  | ScopeRunConfiguration | ScopeRunPrompt

fun scope_rank :: "variable_scope \<Rightarrow> nat" where
  "scope_rank ScopeTenantDefault = 0"
| "scope_rank ScopeConnectionProfile = 1"
| "scope_rank ScopeWorkspace = 2"
| "scope_rank ScopeQueryTab = 3"
| "scope_rank ScopeRunConfiguration = 4"
| "scope_rank ScopeRunPrompt = 5"

datatype variable_value =
    ValueScalar sql_value
  | ValueIdentifier string
  | ValueList "sql_value list"
  | ValueSecretHandle string

record variable_binding =
  vb_name :: string
  vb_value :: variable_value
  vb_scope :: variable_scope

record variable_reference =
  vr_name :: string
  vr_kind :: variable_kind
  vr_template_start :: u32
  vr_template_end :: u32

record source_map_entry =
  sm_name :: string
  sm_template_start :: u32
  sm_template_end :: u32
  sm_compiled_start :: u32
  sm_compiled_end :: u32

record variable_descriptor =
  vd_name :: string
  vd_kind :: variable_kind
  vd_scope :: variable_scope
  vd_secret :: bool
  vd_bind_count :: u32

record compiled_variables =
  cv_sql :: string
  cv_params :: "sql_value list"
  cv_source_map :: "source_map_entry list"
  cv_descriptors :: "variable_descriptor list"

datatype compile_error =
    TooManyReferences
  | MissingVariable string
  | WrongKind string string
  | InvalidIdentifier string
  | EmptyList string
  | ListTooLarge string
  | TooManyBinds nat
  | UnresolvedSecret string
  | ConflictingKinds string

definition max_variable_references :: nat where "max_variable_references = 100"
definition max_list_values :: nat where "max_list_values = 1000"

section \<open>Scopes\<close>

text \<open>The ordered map is a list kept sorted by name.\<close>

fun scope_insert :: "variable_binding \<Rightarrow> variable_binding list \<Rightarrow> variable_binding list" where
  "scope_insert b [] = [b]"
| "scope_insert b (c # cs) =
     (if vb_name b < vb_name c then b # c # cs
      else if vb_name b = vb_name c
      then (if scope_rank (vb_scope b) \<le> scope_rank (vb_scope c) then c # cs else b # cs)
      else c # scope_insert b cs)"

definition resolve_scopes :: "variable_binding list \<Rightarrow> variable_binding list" where
  "resolve_scopes bindings = foldl (\<lambda>resolved b. scope_insert b resolved) [] bindings"

section \<open>Text\<close>

text \<open>\<^verbatim>\<open>str::find\<close> of a string.\<close>

fun find_text :: "string \<Rightarrow> string \<Rightarrow> nat option" where
  "find_text p [] = (if p = [] then Some 0 else None)"
| "find_text p (c # s) =
     (if starts_with p (c # s) then Some 0 else map_option Suc (find_text p s))"

definition ascii_letter :: "char \<Rightarrow> bool" where
  "ascii_letter c =
     (let n = of_char c :: nat in (65 \<le> n \<and> n \<le> 90) \<or> (97 \<le> n \<and> n \<le> 122))"

record unicode_env =
  ue_alphabetic :: "string \<Rightarrow> bool"
  ue_alphanumeric :: "string \<Rightarrow> bool"

definition name_start :: "unicode_env \<Rightarrow> string \<Rightarrow> bool" where
  "name_start env ch =
     (case ch of [c] \<Rightarrow> c = CHR ''_'' \<or> ascii_letter c | _ \<Rightarrow> ue_alphabetic env ch)"

definition name_rest :: "unicode_env \<Rightarrow> string \<Rightarrow> bool" where
  "name_rest env ch =
     (case ch of [c] \<Rightarrow> c = CHR ''_'' \<or> ascii_letter c \<or> is_digit c | _ \<Rightarrow> ue_alphanumeric env ch)"

definition valid_name :: "unicode_env \<Rightarrow> string \<Rightarrow> bool" where
  "valid_name env name =
     (case utf8_chars name of
        [] \<Rightarrow> False
      | ch # chs \<Rightarrow> name_start env ch \<and> list_all (name_rest env) chs)"

section \<open>The scanner\<close>

datatype scan_state =
    ScanSql | ScanSingleQuote | ScanDoubleQuote | ScanBracketIdentifier | ScanLineComment
  | ScanBlockComment

text \<open>The length of the dollar-quote delimiter the text starts with.\<close>

definition dollar_quote_delimiter :: "string \<Rightarrow> nat option" where
  "dollar_quote_delimiter s =
     (case drop 1 s of
        [] \<Rightarrow> None
      | first # tail \<Rightarrow>
          (if first = CHR ''$'' then Some 2
           else if \<not> (ascii_letter first \<or> first = CHR ''_'') then None
           else
             (let word = takeWhile (\<lambda>c. ascii_letter c \<or> is_digit c \<or> c = CHR ''_'') tail
              in if starts_with ''$'' (drop (length word) tail) then Some (length word + 3)
                 else None)))"

text \<open>
  One round of the loop: the next state, how many bytes are consumed, and the reference found,
  as its length and body.
\<close>

definition closing_quote :: "scan_state \<Rightarrow> char \<Rightarrow> string \<Rightarrow> scan_state \<times> nat" where
  "closing_quote st q s =
     (if starts_with [q] s
      then (if starts_with [q, q] s then (st, 2) else (ScanSql, 1))
      else (st, char_bytes (hd s)))"

definition scan_round :: "scan_state \<Rightarrow> string \<Rightarrow> scan_state \<times> nat \<times> (nat \<times> string) option" where
  "scan_round st s =
     (let skip = (\<lambda>st n. (st, n, None :: (nat \<times> string) option)); step = char_bytes (hd s)
      in case st of
           ScanSql \<Rightarrow>
             (if starts_with ''--'' s then skip ScanLineComment 2
              else if starts_with ''/*'' s then skip ScanBlockComment 2
              else if starts_with [CHR 0x27] s then skip ScanSingleQuote 1
              else if starts_with [CHR 0x22] s then skip ScanDoubleQuote 1
              else if starts_with ''['' s then skip ScanBracketIdentifier 1
              else if starts_with ''$'' s then
                (case dollar_quote_delimiter s of
                   None \<Rightarrow> skip ScanSql 1
                 | Some d \<Rightarrow>
                     (case find_text (take d s) (drop d s) of
                        None \<Rightarrow> skip ScanSql (length s)
                      | Some offset \<Rightarrow> skip ScanSql (d + offset + d)))
              else if starts_with ''{{'' s then
                (case find_text ''}}'' (drop 2 s) of
                   None \<Rightarrow> skip ScanSql 1
                 | Some close \<Rightarrow> (ScanSql, close + 4, Some (close + 4, take close (drop 2 s))))
              else skip ScanSql step)
         | ScanSingleQuote \<Rightarrow> (case closing_quote st (CHR 0x27) s of (st, n) \<Rightarrow> skip st n)
         | ScanDoubleQuote \<Rightarrow> (case closing_quote st (CHR 0x22) s of (st, n) \<Rightarrow> skip st n)
         | ScanBracketIdentifier \<Rightarrow> (case closing_quote st (CHR 0x5D) s of (st, n) \<Rightarrow> skip st n)
         | ScanLineComment \<Rightarrow>
             (if starts_with [CHR 0x0A] s then skip ScanSql 1 else skip ScanLineComment step)
         | ScanBlockComment \<Rightarrow>
             (if starts_with ''*/'' s then skip ScanSql 2 else skip ScanBlockComment step))"

lemma dollar_quote_pos: "dollar_quote_delimiter s = Some d \<Longrightarrow> 2 \<le> d"
  by (auto simp: dollar_quote_delimiter_def Let_def split: list.splits if_splits)

lemma scan_round_progress: "s \<noteq> [] \<Longrightarrow> 0 < fst (snd (scan_round st s))"
  using dollar_quote_pos [of s]
  by (auto simp: scan_round_def Let_def closing_quote_def split: scan_state.split option.split)

text \<open>The references from \<open>s\<close> on, which starts at \<open>index\<close>: start, end and body.\<close>

function scan_template :: "scan_state \<Rightarrow> nat \<Rightarrow> string \<Rightarrow> (nat \<times> nat \<times> string) list" where
  "scan_template st index s =
     (if s = [] then []
      else case scan_round st s of
        (st', n, None) \<Rightarrow> scan_template st' (index + n) (drop n s)
      | (st', n, Some (len, body)) \<Rightarrow>
          (index, index + len, body) # scan_template st' (index + n) (drop n s))"
  by pat_completeness auto
termination
proof (relation "measure (\<lambda>(st, index, s). length s)", goal_cases)
  case (2 st index s)
  then show ?case using scan_round_progress [of s st] by (cases "scan_round st s") auto
next
  case (3 st index s)
  then show ?case using scan_round_progress [of s st] by (cases "scan_round st s") auto
qed simp

declare scan_template.simps [simp del]

section \<open>References\<close>

definition found_reference ::
  "unicode_env \<Rightarrow> nat \<times> nat \<times> string \<Rightarrow> variable_reference option" where
  "found_reference env f =
     (case f of (start, end', body) \<Rightarrow>
        (case (case strip_prefix ''ident:'' body of
                 Some name \<Rightarrow> (KindIdentifier, name)
               | None \<Rightarrow>
                   (case strip_prefix ''list:'' body of
                      Some name \<Rightarrow> (KindList, name)
                    | None \<Rightarrow> (KindValue, body))) of
           (kind, name) \<Rightarrow>
             (if valid_name env name
              then Some \<lparr>vr_name = name, vr_kind = kind,
                         vr_template_start = of_nat start, vr_template_end = of_nat end'\<rparr>
              else None)))"

fun check_kinds ::
  "(string \<times> variable_kind) list \<Rightarrow> variable_reference list \<Rightarrow> (compile_error, unit) result" where
  "check_kinds kinds [] = Inr ()"
| "check_kinds kinds (r # rs) =
     (case map_of kinds (vr_name r) of
        None \<Rightarrow> check_kinds ((vr_name r, vr_kind r) # kinds) rs
      | Some kind \<Rightarrow>
          (if kind \<noteq> vr_kind r then Inl (ConflictingKinds (vr_name r))
           else check_kinds ((vr_name r, vr_kind r) # kinds) rs))"

definition found_references :: "unicode_env \<Rightarrow> string \<Rightarrow> variable_reference list" where
  "found_references env template =
     List.map_filter (found_reference env) (scan_template ScanSql 0 template)"

definition references ::
  "unicode_env \<Rightarrow> string \<Rightarrow> (compile_error, variable_reference list) result" where
  "references env template =
     (let found = found_references env template
      in if length found > max_variable_references then Inl TooManyReferences
         else res_bind (check_kinds [] found) (\<lambda>_. Inr found))"

section \<open>Placeholders and identifiers\<close>

definition placeholder :: "engine \<Rightarrow> usize \<Rightarrow> string" where
  "placeholder engine number =
     (case engine of
        Postgres \<Rightarrow> ''$'' @ show_nat (unat number)
      | SqlServer \<Rightarrow> ''@P'' @ show_nat (unat number)
      | Sqlite \<Rightarrow> ''?'' @ show_nat (unat number))"

text \<open>\<^verbatim>\<open>char::is_control\<close>: the C0 and C1 ranges and DEL.\<close>

definition is_control :: "string \<Rightarrow> bool" where
  "is_control ch =
     (case map of_char ch :: nat list of
        [n] \<Rightarrow> n < 32 \<or> n = 127
      | [lead, n] \<Rightarrow> lead = 194 \<and> 128 \<le> n \<and> n < 160
      | _ \<Rightarrow> False)"

definition quote_part :: "engine \<Rightarrow> string \<Rightarrow> string" where
  "quote_part engine part =
     (case engine of
        SqlServer \<Rightarrow> ''['' @ replace_char (CHR 0x5D) '']]'' part @ '']''
      | _ \<Rightarrow> [CHR 0x22] @ replace_char (CHR 0x22) [CHR 0x22, CHR 0x22] part @ [CHR 0x22])"

definition quote_qualified_identifier :: "engine \<Rightarrow> string \<Rightarrow> string option" where
  "quote_qualified_identifier engine identifier =
     (if identifier = [] \<or> list_ex is_control (utf8_chars identifier) then None
      else
        (let parts = split_on (CHR ''.'') identifier
         in if list_ex (\<lambda>part. part = []) parts then None
            else Some (join_with ''.'' (map (quote_part engine) parts))))"

section \<open>The parameters the template already has\<close>

definition native_prefix :: "engine \<Rightarrow> string \<Rightarrow> nat option" where
  "native_prefix engine s =
     (case (engine, s) of
        (Postgres, c # _) \<Rightarrow> if c = CHR ''$'' then Some 1 else None
      | (Sqlite, c # _) \<Rightarrow> if c = CHR ''?'' then Some 1 else None
      | (SqlServer, c # d # _) \<Rightarrow>
          if c = CHR ''@'' \<and> (d = CHR ''p'' \<or> d = CHR ''P'') then Some 2 else None
      | _ \<Rightarrow> None)"

text \<open>\<^verbatim>\<open>parse::<usize>().unwrap_or(0)\<close> of a run of digits.\<close>

definition parse_usize_or_zero :: "string \<Rightarrow> usize" where
  "parse_usize_or_zero digits =
     (if read_nat digits < 2 ^ 64 then of_nat (read_nat digits) else 0)"

fun native_offset_from :: "engine \<Rightarrow> usize \<Rightarrow> string \<Rightarrow> usize" where
  "native_offset_from engine offset [] = offset"
| "native_offset_from engine offset (c # s) =
     (case native_prefix engine (c # s) of
        None \<Rightarrow> native_offset_from engine offset s
      | Some prefix \<Rightarrow>
          (let digits = takeWhile is_digit (drop prefix (c # s))
           in native_offset_from engine
                (if digits \<noteq> [] then max offset (parse_usize_or_zero digits) else offset) s))"

definition native_parameter_offset :: "engine \<Rightarrow> string \<Rightarrow> usize" where
  "native_parameter_offset engine sql = native_offset_from engine 0 sql"

section \<open>Compilation\<close>

definition bind_limit :: "engine \<Rightarrow> usize" where
  "bind_limit engine = (case engine of Postgres \<Rightarrow> 65535 | SqlServer \<Rightarrow> 2100 | Sqlite \<Rightarrow> 32766)"

text \<open>The locals of the loop; \<open>cs_described\<close> is a set kept as a list.\<close>

record compile_state =
  cs_sql :: string
  cs_params :: "sql_value list"
  cs_source_map :: "source_map_entry list"
  cs_descriptors :: "variable_descriptor list"
  cs_described :: "string list"
  cs_cursor :: nat

definition binding_named :: "variable_binding list \<Rightarrow> string \<Rightarrow> variable_binding option" where
  "binding_named bindings name = map_of (rev (map (\<lambda>b. (vb_name b, b)) bindings)) name"

text \<open>
  The placeholders of the next \<open>k\<close> parameters after \<open>n\<close> of them. The sum
  \<^verbatim>\<open>native_offset + params.len()\<close> wraps, as in a release build.
\<close>

definition next_placeholders :: "engine \<Rightarrow> usize \<Rightarrow> nat \<Rightarrow> nat \<Rightarrow> string list" where
  "next_placeholders engine offset n k =
     map (\<lambda>i. placeholder engine (offset + of_nat i)) [Suc n..<Suc n + k]"

text \<open>The text a reference becomes, the parameters it adds and the number of its binds.\<close>

definition expand_reference ::
  "engine \<Rightarrow> usize \<Rightarrow> nat \<Rightarrow> variable_reference \<Rightarrow> variable_value
     \<Rightarrow> (compile_error, string \<times> sql_value list \<times> nat) result" where
  "expand_reference engine offset n r value =
     (case (vr_kind r, value) of
        (KindValue, ValueScalar v) \<Rightarrow>
          Inr (concat (next_placeholders engine offset n 1), [v], 1)
      | (KindIdentifier, ValueIdentifier identifier) \<Rightarrow>
          (case quote_qualified_identifier engine identifier of
             None \<Rightarrow> Inl (InvalidIdentifier (vr_name r))
           | Some quoted \<Rightarrow> Inr (quoted, [], 0))
      | (KindList, ValueList values) \<Rightarrow>
          (if values = [] then Inl (EmptyList (vr_name r))
           else if length values > max_list_values then Inl (ListTooLarge (vr_name r))
           else Inr (join_with '', '' (next_placeholders engine offset n (length values)),
                     values, length values))
      | (_, ValueSecretHandle _) \<Rightarrow> Inl (UnresolvedSecret (vr_name r))
      | (KindValue, _) \<Rightarrow> Inl (WrongKind (vr_name r) ''a scalar value'')
      | (KindIdentifier, _) \<Rightarrow> Inl (WrongKind (vr_name r) ''an identifier'')
      | (KindList, _) \<Rightarrow> Inl (WrongKind (vr_name r) ''a JSON array''))"

definition text_between :: "nat \<Rightarrow> nat \<Rightarrow> string \<Rightarrow> string" where
  "text_between a b s = take (b - a) (drop a s)"

definition is_secret :: "variable_value \<Rightarrow> bool" where
  "is_secret value = (case value of ValueSecretHandle _ \<Rightarrow> True | _ \<Rightarrow> False)"

definition describe ::
  "variable_reference \<Rightarrow> variable_binding \<Rightarrow> nat \<Rightarrow> variable_descriptor" where
  "describe r b binds =
     \<lparr>vd_name = vr_name r, vd_kind = vr_kind r, vd_scope = vb_scope b,
      vd_secret = is_secret (vb_value b), vd_bind_count = of_nat binds\<rparr>"

text \<open>One round of the loop over the references.\<close>

definition compile_reference ::
  "engine \<Rightarrow> usize \<Rightarrow> string \<Rightarrow> variable_binding list \<Rightarrow> variable_reference \<Rightarrow> compile_state
     \<Rightarrow> (compile_error, compile_state) result" where
  "compile_reference engine offset template bindings r st =
     (let start = unat (vr_template_start r);
          sql = cs_sql st @ text_between (cs_cursor st) start template
      in res_bind (ok_or (MissingVariable (vr_name r)) (binding_named bindings (vr_name r)))
           (\<lambda>b. res_bind (expand_reference engine offset (length (cs_params st)) r (vb_value b))
             (\<lambda>(out, added, binds).
               if offset + of_nat (length (cs_params st @ added)) > bind_limit engine
               then Inl (TooManyBinds (unat (bind_limit engine)))
               else Inr \<lparr>cs_sql = sql @ out,
                         cs_params = cs_params st @ added,
                         cs_source_map = cs_source_map st @
                           [\<lparr>sm_name = vr_name r,
                             sm_template_start = vr_template_start r,
                             sm_template_end = vr_template_end r,
                             sm_compiled_start = of_nat (length sql),
                             sm_compiled_end = of_nat (length (sql @ out))\<rparr>],
                         cs_descriptors =
                           (if vr_name r \<in> set (cs_described st) then cs_descriptors st
                            else cs_descriptors st @ [describe r b binds]),
                         cs_described =
                           (if vr_name r \<in> set (cs_described st) then cs_described st
                            else vr_name r # cs_described st),
                         cs_cursor = unat (vr_template_end r)\<rparr>)))"

fun compile_references ::
  "engine \<Rightarrow> usize \<Rightarrow> string \<Rightarrow> variable_binding list \<Rightarrow> variable_reference list \<Rightarrow> compile_state
     \<Rightarrow> (compile_error, compile_state) result" where
  "compile_references engine offset template bindings [] st = Inr st"
| "compile_references engine offset template bindings (r # rs) st =
     res_bind (compile_reference engine offset template bindings r st)
       (\<lambda>st'. compile_references engine offset template bindings rs st')"

definition compile_start :: compile_state where
  "compile_start =
     \<lparr>cs_sql = [], cs_params = [], cs_source_map = [], cs_descriptors = [], cs_described = [],
      cs_cursor = 0\<rparr>"

definition compile ::
  "unicode_env \<Rightarrow> engine \<Rightarrow> string \<Rightarrow> variable_binding list
     \<Rightarrow> (compile_error, compiled_variables) result" where
  "compile env engine template bindings =
     res_bind (references env template)
       (\<lambda>refs. res_bind
          (compile_references engine (native_parameter_offset engine template) template bindings
             refs compile_start)
          (\<lambda>st. Inr \<lparr>cv_sql = cs_sql st @ drop (cs_cursor st) template,
                      cv_params = cs_params st,
                      cv_source_map = cs_source_map st,
                      cv_descriptors = cs_descriptors st\<rparr>))"

section \<open>Values never reach the text\<close>

text \<open>A binding whose scalar and list values are replaced, element by element.\<close>

definition map_value :: "(sql_value \<Rightarrow> sql_value) \<Rightarrow> variable_value \<Rightarrow> variable_value" where
  "map_value f value =
     (case value of
        ValueScalar v \<Rightarrow> ValueScalar (f v)
      | ValueList vs \<Rightarrow> ValueList (map f vs)
      | ValueIdentifier i \<Rightarrow> ValueIdentifier i
      | ValueSecretHandle h \<Rightarrow> ValueSecretHandle h)"

definition map_binding :: "(sql_value \<Rightarrow> sql_value) \<Rightarrow> variable_binding \<Rightarrow> variable_binding" where
  "map_binding f b = b\<lparr>vb_value := map_value f (vb_value b)\<rparr>"

lemma binding_named_map:
  "binding_named (map (map_binding f) bs) name = map_option (map_binding f) (binding_named bs name)"
proof -
  have "map (\<lambda>b. (vb_name b, b)) (map (map_binding f) bs)
        = map (\<lambda>(k, b). (k, map_binding f b)) (map (\<lambda>b. (vb_name b, b)) bs)"
    by (simp add: map_binding_def)
  then show ?thesis
    by (simp only: binding_named_def rev_map map_of_map o_apply)
qed

lemma is_secret_map [simp]: "is_secret (map_value f v) = is_secret v"
  by (cases v) (simp_all add: is_secret_def map_value_def)

lemma describe_map [simp]: "describe r (map_binding f b) n = describe r b n"
  by (simp add: describe_def map_binding_def)

lemma expand_reference_map:
  "expand_reference engine offset n r (map_value f v) =
     res_bind (expand_reference engine offset n r v) (\<lambda>(out, added, k). Inr (out, map f added, k))"
  by (cases "vr_kind r"; cases v)
     (simp_all add: expand_reference_def map_value_def split: option.split)

lemma compile_reference_map:
  "compile_reference engine offset template (map (map_binding f) bs) r
       (st\<lparr>cs_params := map f (cs_params st)\<rparr>) =
     res_bind (compile_reference engine offset template bs r st)
       (\<lambda>st'. Inr (st'\<lparr>cs_params := map f (cs_params st')\<rparr>))"
proof (cases "binding_named bs (vr_name r)")
  case None
  then show ?thesis
    by (simp add: compile_reference_def Let_def binding_named_map ok_or_def)
next
  case (Some b)
  have v: "vb_value (map_binding f b) = map_value f (vb_value b)"
    by (simp add: map_binding_def)
  show ?thesis
  proof (cases "expand_reference engine offset (length (cs_params st)) r (vb_value b)")
    case (Inl e)
    with Some show ?thesis
      by (simp add: compile_reference_def Let_def binding_named_map ok_or_def v
          expand_reference_map)
  next
    case (Inr x)
    then obtain out added k
      where "expand_reference engine offset (length (cs_params st)) r (vb_value b)
             = Inr (out, added, k)"
      by (cases x) auto
    with Some show ?thesis
      by (simp add: compile_reference_def Let_def binding_named_map ok_or_def v
          expand_reference_map)
  qed
qed

lemma compile_references_map:
  "compile_references engine offset template (map (map_binding f) bs) rs
       (st\<lparr>cs_params := map f (cs_params st)\<rparr>) =
     res_bind (compile_references engine offset template bs rs st)
       (\<lambda>st'. Inr (st'\<lparr>cs_params := map f (cs_params st')\<rparr>))"
proof (induction rs arbitrary: st)
  case Nil
  then show ?case by simp
next
  case (Cons r rs)
  show ?case
    by (cases "compile_reference engine offset template bs r st")
       (simp_all add: compile_reference_map Cons.IH)
qed

text \<open>
  C32: the compiled text, the source map and the descriptors do not depend on the values bound:
  replacing every scalar and every list element by any other value changes the parameters in
  exactly that way and nothing else, errors included.
\<close>

theorem values_are_parametric:
  "compile env engine template (map (map_binding f) bindings) =
     res_bind (compile env engine template bindings)
       (\<lambda>c. Inr (c\<lparr>cv_params := map f (cv_params c)\<rparr>))"
proof (cases "references env template")
  case (Inl e)
  then show ?thesis by (simp add: compile_def)
next
  case (Inr refs)
  have "compile_start = compile_start\<lparr>cs_params := map f (cs_params compile_start)\<rparr>"
    by (simp add: compile_start_def)
  then have "compile_references engine (native_parameter_offset engine template) template
               (map (map_binding f) bindings) refs compile_start =
             res_bind (compile_references engine (native_parameter_offset engine template) template
               bindings refs compile_start) (\<lambda>st'. Inr (st'\<lparr>cs_params := map f (cs_params st')\<rparr>))"
    by (metis compile_references_map)
  with Inr show ?thesis
    by (cases "compile_references engine (native_parameter_offset engine template) template
               bindings refs compile_start")
       (simp_all add: compile_def)
qed

section \<open>Quoted identifiers are read back\<close>

lemma split_on_nonempty [simp]: "split_on d s \<noteq> []"
  by (induction s) (auto split: list.split)

lemma join_split_on: "join_with [d] (split_on d s) = s"
proof (induction s)
  case Nil
  then show ?case by simp
next
  case (Cons c s)
  show ?case
  proof (cases "split_on d s")
    case Nil
    then show ?thesis by simp
  next
    case (Cons p ps)
    with Cons.IH show ?thesis by (cases ps) auto
  qed
qed

lemma quote_part_delimited: "quote_part = delimited"
proof (intro ext)
  show "quote_part engine part = delimited engine part" for engine part
    by (cases engine) (simp_all add: quote_part_def delimited_def open_quote_def close_quote_def)
qed

interpretation vq: identifier_quoting quote_part
  unfolding quote_part_delimited by (rule delimited_quoting)

lemma split_on_parts: "\<forall>p\<in>set (split_on d s). d \<notin> set p"
proof (induction s)
  case Nil
  then show ?case by simp
next
  case (Cons c s)
  then show ?case by (auto split: list.splits)
qed

lemma quote_qualified_Some:
  assumes "quote_qualified_identifier engine identifier = Some quoted"
  shows "quoted = join_with ''.'' (map (quote_part engine) (split_on (CHR ''.'') identifier))"
    and "[] \<notin> set (split_on (CHR ''.'') identifier)"
  using assms
  by (auto simp: quote_qualified_identifier_def Let_def list_ex_iff split: if_splits)

text \<open>
  The text an identifier variable becomes is read by the engine as exactly one qualified name
  with the identifier's dot-separated parts, none of them empty, whatever quotes the parts
  contain, and the text that follows is left untouched.
\<close>

theorem identifier_reads_back:
  assumes "quote_qualified_identifier engine identifier = Some quoted"
    and "ends_name engine rest"
  shows "\<exists>parts. read_qualified engine (quoted @ rest) = Some (parts, rest) \<and>
           join_with ''.'' parts = identifier \<and> [] \<notin> set parts \<and>
           (\<forall>p\<in>set parts. CHR ''.'' \<notin> set p)"
proof (intro exI conjI)
  show "read_qualified engine (quoted @ rest) = Some (split_on (CHR ''.'') identifier, rest)"
    unfolding quote_qualified_Some(1) [OF assms(1)]
    by (rule vq.read_joined [OF assms(2)]) simp
  show "join_with ''.'' (split_on (CHR ''.'') identifier) = identifier"
    by (rule join_split_on)
qed (use quote_qualified_Some(2) [OF assms(1)] split_on_parts in auto)

theorem identifier_reads_back_witness:
  "\<exists>parts. read_qualified SqlServer (''[dbo].[weird]]name]'' @ '' where'') = Some (parts, '' where'') \<and>
     join_with ''.'' parts = ''dbo.weird]name'' \<and> [] \<notin> set parts \<and>
     (\<forall>p\<in>set parts. CHR ''.'' \<notin> set p)"
proof (rule identifier_reads_back)
  show "quote_qualified_identifier SqlServer ''dbo.weird]name'' = Some ''[dbo].[weird]]name]''"
    by code_simp
  show "ends_name SqlServer '' where''"
    by code_simp
qed

section \<open>The source map\<close>

lemma find_text_bound: "find_text p s = Some k \<Longrightarrow> k + length p \<le> length s"
proof (induction s arbitrary: k)
  case Nil
  then show ?case by (simp split: if_splits)
next
  case (Cons c s)
  show ?case
  proof (cases "starts_with p (c # s)")
    case True
    with Cons.prems starts_with_length [OF True] show ?thesis by simp
  next
    case False
    with Cons.prems obtain j where "find_text p s = Some j" "k = Suc j" by auto
    with Cons.IH show ?thesis by auto
  qed
qed

text \<open>References in order: each starts at or after the end of the one before it.\<close>

fun spans_from :: "nat \<Rightarrow> nat \<Rightarrow> (nat \<times> nat) list \<Rightarrow> bool" where
  "spans_from cursor bound [] = True"
| "spans_from cursor bound ((a, b) # spans) =
     (cursor \<le> a \<and> a < b \<and> b \<le> bound \<and> spans_from b bound spans)"

lemma spans_from_mono: "spans_from c n spans \<Longrightarrow> c' \<le> c \<Longrightarrow> spans_from c' n spans"
  by (cases spans) auto

lemma scan_round_other:
  assumes "st \<noteq> ScanSql"
  shows "snd (snd (scan_round st s)) = None"
  using assms by (cases st) (simp_all add: scan_round_def Let_def split: prod.split)

lemma scan_round_sql_found:
  assumes "snd (snd (scan_round ScanSql s)) = Some (len, body)"
  shows "\<exists>close. find_text ''}}'' (drop 2 s) = Some close \<and> len = close + 4
           \<and> fst (snd (scan_round ScanSql s)) = len"
  using assms unfolding scan_round_def Let_def scan_state.case
  by (simp split: if_splits option.splits)

lemma scan_round_found:
  assumes "scan_round st s = (st', n, Some (len, body))"
  shows "n = len" and "0 < len" and "len \<le> length s"
proof -
  have "st = ScanSql" using assms scan_round_other [of st s] by auto
  with assms obtain close
    where c: "find_text ''}}'' (drop 2 s) = Some close" "len = close + 4" "n = len"
    using scan_round_sql_found [of s len body] by auto
  from find_text_bound [OF c(1)] have "close + 2 \<le> length s - 2" by simp
  with c show "n = len" "0 < len" "len \<le> length s" by auto
qed

lemma scan_template_spans:
  "index + length s \<le> n \<Longrightarrow>
     spans_from index n (map (\<lambda>(a, b, body). (a, b)) (scan_template st index s))"
proof (induction st index s rule: scan_template.induct)
  case (1 st index s)
  show ?case
  proof (cases "s = []")
    case True
    then show ?thesis by (simp add: scan_template.simps)
  next
    case False
    obtain st' k x where r: "scan_round st s = (st', k, x)" by (cases "scan_round st s")
    have k: "drop k s = [] \<or> index + k + length (drop k s) \<le> n" 
      using "1.prems" by auto
    have e: "scan_template st' i [] = []" for i by (simp add: scan_template.simps)
    show ?thesis
    proof (cases x)
      case None
      have "spans_from (index + k) n
              (map (\<lambda>(a, b, body). (a, b)) (scan_template st' (index + k) (drop k s)))"
        using k "1.IH"(1) [OF False r [symmetric]] None e by auto
      with r None False show ?thesis
        by (subst scan_template.simps) (auto intro: spans_from_mono)
    next
      case (Some y)
      obtain len body where y: "y = (len, body)" by (cases y)
      from scan_round_found [OF r [unfolded Some y]]
      have len: "k = len" "0 < len" "len \<le> length s" .
      have "spans_from (index + k) n
              (map (\<lambda>(a, b, body). (a, b)) (scan_template st' (index + k) (drop k s)))"
        using "1.IH"(2) [OF False r [symmetric] refl Some y [symmetric]] y len "1.prems" by simp
      with r Some y False len "1.prems" show ?thesis
        by (subst scan_template.simps) auto
    qed
  qed
qed

text \<open>The span of a reference, as it is stored in 32 bits.\<close>

definition reference_span :: "variable_reference \<Rightarrow> nat \<times> nat" where
  "reference_span r = (unat (vr_template_start r), unat (vr_template_end r))"

lemma unat_of_nat_u32: "n < 2 ^ 32 \<Longrightarrow> unat (of_nat n :: u32) = n"
  by (simp add: unat_of_nat)

lemma spans_from_filter:
  "spans_from c n (map (\<lambda>(a, b, body). (a, b)) xs) \<Longrightarrow> n < 2 ^ 32 \<Longrightarrow>
     spans_from c n (map reference_span (List.map_filter (found_reference env) xs))"
proof (induction xs arbitrary: c)
  case Nil
  then show ?case by (simp add: map_filter_def)
next
  case (Cons x xs)
  obtain a b body where x: "x = (a, b, body)" by (cases x)
  with Cons.prems have ab: "c \<le> a" "a < b" "b \<le> n"
    and rest: "spans_from b n (map reference_span (List.map_filter (found_reference env) xs))"
    using Cons.IH [of b] by auto
  show ?case
  proof (cases "found_reference env x")
    case None
    have "spans_from c n (map reference_span (List.map_filter (found_reference env) xs))"
      by (rule spans_from_mono [OF rest]) (use ab in simp)
    with None show ?thesis by (simp add: map_filter_simps)
  next
    case (Some r)
    have "reference_span r = (a, b)"
      using Some ab Cons.prems(2)
      by (auto simp: found_reference_def x reference_span_def unat_of_nat_u32
          split: prod.splits if_splits)
    with Some ab rest show ?thesis by (simp add: map_filter_simps)
  qed
qed

lemma references_spans:
  assumes "references env template = Inr refs" and "length template < 2 ^ 32"
  shows "spans_from 0 (length template) (map reference_span refs)"
proof -
  have "refs = found_references env template"
    using assms(1)
    by (auto simp: references_def Let_def res_bind_Inr_conv split: if_splits)
  moreover have "spans_from 0 (length template)
      (map (\<lambda>(a, b, body). (a, b)) (scan_template ScanSql 0 template))"
    by (rule scan_template_spans) simp
  ultimately show ?thesis
    using spans_from_filter assms(2) by (simp add: found_references_def)
qed

text \<open>
  The reading of a source map: outside the compiled spans the compiled text is kept, each compiled
  span is replaced by the template span it came from.
\<close>

fun read_source_map :: "string \<Rightarrow> string \<Rightarrow> nat \<Rightarrow> source_map_entry list \<Rightarrow> string" where
  "read_source_map template compiled cursor [] = drop cursor compiled"
| "read_source_map template compiled cursor (e # es) =
     text_between cursor (unat (sm_compiled_start e)) compiled
     @ text_between (unat (sm_template_start e)) (unat (sm_template_end e)) template
     @ read_source_map template compiled (unat (sm_compiled_end e)) es"

lemma text_between_split:
  assumes "a \<le> b" and "b \<le> c"
  shows "text_between a b s @ text_between b c s @ drop c s = drop a s"
proof -
  have "drop a s = take (b - a) (drop a s) @ drop b s"
    using assms(1) by (metis add.commute append_take_drop_id drop_drop le_add_diff_inverse2)
  moreover have "drop b s = take (c - b) (drop b s) @ drop c s"
    using assms(2) by (metis add.commute append_take_drop_id drop_drop le_add_diff_inverse2)
  ultimately show ?thesis by (simp add: text_between_def)
qed

lemma text_between_skip: "text_between (length xs) (length xs + length ys) (xs @ ys @ zs) = ys"
  by (simp add: text_between_def)

lemma compile_reference_step:
  assumes "compile_reference engine offset template bs r st = Inr st'"
  shows "\<exists>out. cs_sql st' =
             cs_sql st @ text_between (cs_cursor st) (unat (vr_template_start r)) template @ out
           \<and> cs_cursor st' = unat (vr_template_end r)
           \<and> cs_source_map st' = cs_source_map st @
               [\<lparr>sm_name = vr_name r, sm_template_start = vr_template_start r,
                 sm_template_end = vr_template_end r,
                 sm_compiled_start = of_nat (length (cs_sql st @
                   text_between (cs_cursor st) (unat (vr_template_start r)) template)),
                 sm_compiled_end = of_nat (length (cs_sql st'))\<rparr>]"
  using assms
  by (auto simp: compile_reference_def Let_def res_bind_Inr_conv split: if_splits)

lemma compile_references_source_map:
  assumes "compile_references engine offset template bs rs st = Inr st'"
    and "spans_from (cs_cursor st) (length template) (map reference_span rs)"
    and "length (cs_sql st') < 2 ^ 32"
  shows "\<exists>added entries. cs_sql st' = cs_sql st @ added
           \<and> cs_source_map st' = cs_source_map st @ entries
           \<and> cs_cursor st \<le> cs_cursor st'
           \<and> read_source_map template (cs_sql st' @ drop (cs_cursor st') template)
                 (length (cs_sql st)) entries = drop (cs_cursor st) template"
  using assms
proof (induction rs arbitrary: st)
  case Nil
  then show ?case by simp
next
  case (Cons r rs)
  let ?start = "unat (vr_template_start r)" and ?stop = "unat (vr_template_end r)"
  from Cons.prems(1) obtain s1
    where s1: "compile_reference engine offset template bs r st = Inr s1"
      and rest: "compile_references engine offset template bs rs s1 = Inr st'"
    by (auto simp: res_bind_Inr_conv)
  from Cons.prems(2)
  have spans: "cs_cursor st \<le> ?start" "?start < ?stop" "?stop \<le> length template"
      "spans_from ?stop (length template) (map reference_span rs)"
    using reference_span_def [of r] by simp_all
  let ?copied = "text_between (cs_cursor st) ?start template"
  let ?entry = "\<lparr>sm_name = vr_name r, sm_template_start = vr_template_start r,
                 sm_template_end = vr_template_end r,
                 sm_compiled_start = of_nat (length (cs_sql st @ ?copied)),
                 sm_compiled_end = of_nat (length (cs_sql s1))\<rparr>"
  from compile_reference_step [OF s1] obtain out
    where out: "cs_sql s1 = cs_sql st @ ?copied @ out" "cs_cursor s1 = ?stop"
      "cs_source_map s1 = cs_source_map st @ [?entry]"
    by auto
  from Cons.IH [OF rest] spans(4) Cons.prems(3) out(2) obtain added entries
    where ih: "cs_sql st' = cs_sql s1 @ added" "cs_source_map st' = cs_source_map s1 @ entries"
      "?stop \<le> cs_cursor st'"
      "read_source_map template (cs_sql st' @ drop (cs_cursor st') template)
         (length (cs_sql s1)) entries = drop ?stop template"
    by auto
  have small: "length (cs_sql s1) < 2 ^ 32" using ih(1) Cons.prems(3) by simp
  have ends: "unat (sm_compiled_start ?entry) = length (cs_sql st @ ?copied)"
      "unat (sm_compiled_end ?entry) = length (cs_sql s1)"
    using small out(1) unat_of_nat_u32 [of "length (cs_sql st @ ?copied)"]
      unat_of_nat_u32 [of "length (cs_sql s1)"]
    by (simp_all del: of_nat_add)
  let ?full = "cs_sql st' @ drop (cs_cursor st') template"
  have "text_between (length (cs_sql st)) (length (cs_sql st @ ?copied)) ?full = ?copied"
    using ih(1) out(1) by (simp add: text_between_skip)
  then have "read_source_map template ?full (length (cs_sql st)) (?entry # entries)
             = ?copied @ text_between ?start ?stop template @ drop ?stop template"
    using ih(4) ends by simp
  also have "\<dots> = drop (cs_cursor st) template"
    using spans by (simp add: text_between_split)
  finally show ?case
    using ih out spans by auto
qed

text \<open>
  the source map is exact: reading the compiled text back through it, each compiled span
  replaced by the template span it names, gives the template, so that every byte of the compiled
  text outside a mapped span is a byte of the template, in order, and error positions are mapped
  to the right place. The texts are shorter than 4 GiB, the range of the map's 32-bit offsets.
\<close>

theorem source_map_inverts_compile:
  assumes "compile env engine template bindings = Inr c"
    and "length template < 2 ^ 32" and "length (cv_sql c) < 2 ^ 32"
  shows "read_source_map template (cv_sql c) 0 (cv_source_map c) = template"
proof -
  from assms(1) obtain refs st
    where refs: "references env template = Inr refs"
      and st: "compile_references engine (native_parameter_offset engine template) template
                 bindings refs compile_start = Inr st"
      and c: "cv_sql c = cs_sql st @ drop (cs_cursor st) template"
        "cv_source_map c = cs_source_map st"
    by (auto simp: compile_def res_bind_Inr_conv)
  from references_spans [OF refs assms(2)]
  have "spans_from (cs_cursor compile_start) (length template) (map reference_span refs)"
    by (simp add: compile_start_def)
  from compile_references_source_map [OF st this] assms(3) c show ?thesis
    by (auto simp: compile_start_def)
qed

definition demo_unicode :: unicode_env where
  "demo_unicode = \<lparr>ue_alphabetic = (\<lambda>_. False), ue_alphanumeric = (\<lambda>_. False)\<rparr>"

lemmas scan_eval =
  scan_template.simps scan_round_def closing_quote_def starts_with_def char_bytes_def
  dollar_quote_delimiter_def ascii_letter_def is_digit_def

lemmas reference_eval =
  references_def found_references_def found_reference_def strip_prefix_def map_filter_simps
  valid_name_def name_start_def name_rest_def max_variable_references_def

lemmas offset_eval =
  native_parameter_offset_def native_prefix_def parse_usize_or_zero_def read_nat_def digit_val_def

lemma demo_digits: "char_of (51 :: nat) = CHR ''3''" "char_of (54 :: nat) = CHR ''6''"
  by code_simp+

lemmas step_eval =
  compile_reference_def Let_def compile_start_def binding_named_def ok_or_def
  expand_reference_def next_placeholders_def placeholder_def show_nat.simps demo_digits describe_def
  is_secret_def bind_limit_def text_between_def

definition demo_bindings :: "variable_binding list" where
  "demo_bindings =
     [\<lparr>vb_name = ''x'', vb_value = ValueScalar (VBool True), vb_scope = ScopeRunPrompt\<rparr>]"

definition demo_compiled :: "string \<Rightarrow> u32 \<Rightarrow> compiled_variables" where
  "demo_compiled sql at = \<lparr>cv_sql = sql, cv_params = [VBool True],
     cv_source_map = [\<lparr>sm_name = ''x'', sm_template_start = at, sm_template_end = at + 5,
       sm_compiled_start = at, sm_compiled_end = at + 2\<rparr>],
     cv_descriptors = [\<lparr>vd_name = ''x'', vd_kind = KindValue, vd_scope = ScopeRunPrompt,
       vd_secret = False, vd_bind_count = 1\<rparr>]\<rparr>"

lemma demo_compile:
  "compile demo_unicode Postgres ''a={{x}} $2'' demo_bindings = Inr (demo_compiled ''a=$3 $2'' 2)"
proof -
  have "scan_template ScanSql 0 ''a={{x}} $2'' = [(2, 7, ''x'')]"
    by (simp add: scan_eval)
  then have refs: "references demo_unicode ''a={{x}} $2'' =
      Inr [\<lparr>vr_name = ''x'', vr_kind = KindValue, vr_template_start = 2, vr_template_end = 7\<rparr>]"
    by (simp add: reference_eval scan_eval)
  have "native_parameter_offset Postgres ''a={{x}} $2'' = 2"
    by (simp add: offset_eval is_digit_def)
  with refs show ?thesis
    by (simp add: compile_def demo_bindings_def demo_compiled_def step_eval)
qed

theorem source_map_inverts_compile_witness:
  "read_source_map ''a={{x}} $2'' (cv_sql (demo_compiled ''a=$3 $2'' 2)) 0
     (cv_source_map (demo_compiled ''a=$3 $2'' 2)) = ''a={{x}} $2''"
  by (rule source_map_inverts_compile [OF demo_compile]) (simp_all add: demo_compiled_def)

text \<open>
  The scanner skips literals but \<^verbatim>\<open>native_parameter_offset\<close> does not: a dollar and a digit inside
  a literal shift the placeholders away from the only parameter that is passed.
\<close>

lemma literal_dollar_shifts_placeholders:
  "compile demo_unicode Postgres ([CHR 0x27] @ ''$5'' @ [CHR 0x27] @ ''={{x}}'') demo_bindings
   = Inr (demo_compiled ([CHR 0x27] @ ''$5'' @ [CHR 0x27] @ ''=$6'') 5)"
proof -
  have "scan_template ScanSql 0 ([CHR 0x27] @ ''$5'' @ [CHR 0x27] @ ''={{x}}'') = [(5, 10, ''x'')]"
    by (simp add: scan_eval)
  then have refs: "references demo_unicode ([CHR 0x27] @ ''$5'' @ [CHR 0x27] @ ''={{x}}'') =
      Inr [\<lparr>vr_name = ''x'', vr_kind = KindValue, vr_template_start = 5, vr_template_end = 10\<rparr>]"
    by (simp add: reference_eval scan_eval)
  have "native_parameter_offset Postgres ([CHR 0x27] @ ''$5'' @ [CHR 0x27] @ ''={{x}}'') = 5"
    by (simp add: offset_eval is_digit_def)
  with refs show ?thesis
    by (simp add: compile_def demo_bindings_def demo_compiled_def step_eval)
qed

end
