(* ===== verification/Edit_Plan.thy ===== *)
theory Edit_Plan
  imports Quoting
begin

text \<open>
  The statements generated for edits of a result grid: \<^verbatim>\<open>crates/server/src/edit.rs\<close> over the types
  of \<^verbatim>\<open>crates/protocol/src/edit.rs\<close>, with the quoting of \<^verbatim>\<open>crates/server/src/ddl.rs\<close>, and their
  transactional application, \<^verbatim>\<open>apply_edits_guarded\<close> of \<^verbatim>\<open>crates/server/src/session.rs\<close>.

  Which non-ASCII characters \<^verbatim>\<open>{:?}\<close> prints as they are, the transaction calls of the session
  store and the dispatch guard are parameters.
\<close>

section \<open>Types\<close>

record cell_edit =
  ced_column :: string
  ced_value :: sql_value

record row_key =
  rwk_columns :: "cell_edit list"

datatype row_edit =
    RowInsert "cell_edit list"
  | RowUpdate row_key "cell_edit list" "cell_edit list"  \<comment> \<open>key, changes, expected\<close>
  | RowDelete row_key "cell_edit list"                   \<comment> \<open>key, expected\<close>

record edit_set =
  eds_table :: object_path
  eds_edits :: "row_edit list"

datatype identity_source =
    PrimaryKeyIdentity "string list"
  | UniqueIndexIdentity string "string list"

datatype edit_statement_kind = EditInsert | EditUpdate | EditDelete

record edit_statement =
  stm_edit_index :: nat
  stm_kind :: edit_statement_kind
  stm_sql :: string
  stm_params :: "sql_value list"

record edit_plan =
  epl_table :: object_path
  epl_identity :: identity_source
  epl_statements :: "edit_statement list"

section \<open>Text\<close>

definition quote_ident :: "string \<Rightarrow> engine \<Rightarrow> string" where
  "quote_ident name engine =
     (case engine of
        SqlServer \<Rightarrow> ''['' @ replace_char (CHR 0x5D) '']]'' name @ '']''
      | _ \<Rightarrow> [CHR 0x22] @ replace_char (CHR 0x22) [CHR 0x22, CHR 0x22] name @ [CHR 0x22])"

definition qualified_name :: "object_path \<Rightarrow> engine \<Rightarrow> string" where
  "qualified_name path engine =
     (case op_schema path of
        Some s \<Rightarrow> quote_ident s engine @ ''.'' @ quote_ident (op_name path) engine
      | None \<Rightarrow> quote_ident (op_name path) engine)"

text \<open>\<^verbatim>\<open>{:?}\<close> of a string; \<open>printed ch\<close> is what becomes of a character that is not ASCII.\<close>

definition debug_char :: "(string \<Rightarrow> string) \<Rightarrow> string \<Rightarrow> string" where
  "debug_char printed ch =
     (case map of_char ch :: nat list of
        [n] \<Rightarrow>
          (if n = 0 then [CHR 0x5C, CHR ''0'']
           else if n = 9 then [CHR 0x5C, CHR ''t'']
           else if n = 10 then [CHR 0x5C, CHR ''n'']
           else if n = 13 then [CHR 0x5C, CHR ''r'']
           else if n = 34 \<or> n = 92 then CHR 0x5C # ch
           else if n < 32 \<or> n = 127
           then CHR 0x5C # ''u{'' @ (if n < 16 then hex_padded 1 n else hex_padded 2 n) @ ''}''
           else ch)
      | _ \<Rightarrow> printed ch)"

definition debug_str :: "(string \<Rightarrow> string) \<Rightarrow> string \<Rightarrow> string" where
  "debug_str printed s =
     CHR 0x22 # concat (map (debug_char printed) (utf8_chars s)) @ [CHR 0x22]"

section \<open>The row identity of a table\<close>

definition find_object :: "catalog_tree list \<Rightarrow> object_path \<Rightarrow> object_info option" where
  "find_object trees path =
     find (\<lambda>o'. oi_name o' = op_name path)
       (concat (map st_objects
          (filter (\<lambda>s. case op_schema path of None \<Rightarrow> True | Some want \<Rightarrow> st_name s = want)
             (concat (map ct_schemas trees)))))"

definition resolve_identity ::
  "(string \<Rightarrow> string) \<Rightarrow> object_info \<Rightarrow> engine \<Rightarrow> (driver_error, identity_source) result" where
  "resolve_identity printed info engine =
     (let pk_columns = filter col_primary_key (oi_columns info);
          pk = map col_name pk_columns;
          nullable = set (map col_name
            (filter (\<lambda>c. col_nullable c \<noteq> NotNullable) (oi_columns info)))
      in if pk \<noteq> [] \<and>
            (engine \<noteq> Sqlite \<or> list_all (\<lambda>c. col_nullable c = NotNullable) pk_columns)
         then Inr (PrimaryKeyIdentity pk)
         else
           (case find (\<lambda>i. ix_unique i \<and> ix_partial_predicate i = None \<and> ix_columns i \<noteq> []
                 \<and> list_all (\<lambda>name. list_ex (\<lambda>c. col_name c = name) (oi_columns info)) (ix_columns i)
                 \<and> list_all (\<lambda>c. c \<notin> nullable) (ix_columns i)) (oi_indexes info) of
              Some idx \<Rightarrow> Inr (UniqueIndexIdentity (ix_name idx) (ix_columns idx))
            | None \<Rightarrow> Inl (with_engine (driver_error_new EditNoRowIdentity
                (''table '' @ debug_str printed (oi_name info) @
                 '' has no primary key or non-nullable unique index; inline edits need a stable row identity''))
                engine)))"

definition identity_columns :: "identity_source \<Rightarrow> string list" where
  "identity_columns identity =
     (case identity of PrimaryKeyIdentity columns \<Rightarrow> columns | UniqueIndexIdentity _ columns \<Rightarrow> columns)"

definition ensure_column ::
  "(string \<Rightarrow> string) \<Rightarrow> string list \<Rightarrow> string \<Rightarrow> engine \<Rightarrow> (driver_error, unit) result" where
  "ensure_column printed columns name engine =
     (if name \<in> set columns then Inr ()
      else Inl (with_engine (driver_error_new InvalidParameterValue
             (''column '' @ debug_str printed name @ '' does not exist on the target table'')) engine))"

definition is_db_assigned :: "object_info \<Rightarrow> string \<Rightarrow> bool" where
  "is_db_assigned info name =
     list_ex (\<lambda>c. col_name c = name \<and>
       (col_auto_increment c \<or>
        (case fc_postgres (col_facets c) of None \<Rightarrow> False | Some p \<Rightarrow> pg_is_identity p)))
       (oi_columns info)"

section \<open>Clauses\<close>

text \<open>\<^verbatim>\<open>Binder::bind\<close>: the binder's state is the list of its parameters.\<close>

definition bind_placeholder :: "engine \<Rightarrow> nat \<Rightarrow> string" where
  "bind_placeholder engine n =
     (case engine of
        Postgres \<Rightarrow> ''$'' @ show_nat n
      | SqlServer \<Rightarrow> ''@P'' @ show_nat n
      | Sqlite \<Rightarrow> ''?'' @ show_nat n)"

definition bind_value :: "engine \<Rightarrow> sql_value list \<Rightarrow> sql_value \<Rightarrow> string \<times> sql_value list" where
  "bind_value engine params v = (bind_placeholder engine (Suc (length params)), params @ [v])"

definition comparison ::
  "engine \<Rightarrow> sql_value list \<Rightarrow> string \<Rightarrow> sql_value \<Rightarrow> string \<times> sql_value list" where
  "comparison engine params column v =
     (if value_is_null v then (quote_ident column engine @ '' IS NULL'', params)
      else (case bind_value engine params v of
              (placeholder, params') \<Rightarrow> (quote_ident column engine @ '' = '' @ placeholder, params')))"

fun identity_predicates ::
  "(string \<Rightarrow> string) \<Rightarrow> engine \<Rightarrow> row_key \<Rightarrow> string list \<Rightarrow> sql_value list
     \<Rightarrow> (driver_error, string list \<times> sql_value list) result" where
  "identity_predicates printed engine key [] params = Inr ([], params)"
| "identity_predicates printed engine key (id_col # id_cols) params =
     (case find (\<lambda>c. ced_column c = id_col) (rwk_columns key) of
        None \<Rightarrow> Inl (with_engine (driver_error_new InvalidParameterValue
                  (''row key is missing identity column '' @ debug_str printed id_col)) engine)
      | Some cell \<Rightarrow>
          (case comparison engine params id_col (ced_value cell) of
             (pred', params') \<Rightarrow>
               res_bind (identity_predicates printed engine key id_cols params')
                 (\<lambda>(preds, params''). Inr (pred' # preds, params''))))"

fun expected_predicates ::
  "(string \<Rightarrow> string) \<Rightarrow> engine \<Rightarrow> string list \<Rightarrow> cell_edit list \<Rightarrow> sql_value list
     \<Rightarrow> (driver_error, string list \<times> sql_value list) result" where
  "expected_predicates printed engine columns [] params = Inr ([], params)"
| "expected_predicates printed engine columns (cell # cells) params =
     res_bind (ensure_column printed columns (ced_column cell) engine)
       (\<lambda>_. case comparison engine params (ced_column cell) (ced_value cell) of
          (pred', params') \<Rightarrow>
            res_bind (expected_predicates printed engine columns cells params')
              (\<lambda>(preds, params''). Inr (pred' # preds, params'')))"

definition where_clause ::
  "(string \<Rightarrow> string) \<Rightarrow> engine \<Rightarrow> string list \<Rightarrow> string list \<Rightarrow> row_key \<Rightarrow> cell_edit list
     \<Rightarrow> sql_value list \<Rightarrow> (driver_error, string \<times> sql_value list) result" where
  "where_clause printed engine columns id_columns key expected params =
     res_bind (identity_predicates printed engine key id_columns params)
       (\<lambda>(preds, params1).
          res_bind (expected_predicates printed engine columns expected params1)
            (\<lambda>(more_preds, params2). Inr (join_with '' AND '' (preds @ more_preds), params2)))"

datatype returning_pos = ReturningTrailing | ReturningOutput

definition returning_clause :: "engine \<Rightarrow> string list \<Rightarrow> returning_pos \<Rightarrow> string" where
  "returning_clause engine id_columns position =
     (let cols = map (\<lambda>c. quote_ident c engine) id_columns
      in case position of
           ReturningTrailing \<Rightarrow>
             (if engine = SqlServer then '''' else '' RETURNING '' @ join_with '', '' cols)
         | ReturningOutput \<Rightarrow>
             (if engine = SqlServer
              then '' OUTPUT '' @ join_with '', ''
                     (map (\<lambda>c. ''inserted.'' @ quote_ident c engine) id_columns)
              else ''''))"

section \<open>Statements\<close>

definition raw_statement ::
  "edit_statement_kind \<Rightarrow> string \<Rightarrow> sql_value list \<Rightarrow> edit_statement" where
  "raw_statement kind sql params =
     \<lparr>stm_edit_index = 0, stm_kind = kind, stm_sql = sql, stm_params = params\<rparr>"

fun insert_columns ::
  "(string \<Rightarrow> string) \<Rightarrow> engine \<Rightarrow> object_info \<Rightarrow> string list \<Rightarrow> cell_edit list \<Rightarrow> sql_value list
     \<Rightarrow> (driver_error, (string \<times> string) list \<times> sql_value list) result" where
  "insert_columns printed engine info columns [] params = Inr ([], params)"
| "insert_columns printed engine info columns (cell # cells) params =
     res_bind (ensure_column printed columns (ced_column cell) engine)
       (\<lambda>_. if is_db_assigned info (ced_column cell)
            then insert_columns printed engine info columns cells params
            else (case bind_value engine params (ced_value cell) of
              (placeholder, params') \<Rightarrow>
                res_bind (insert_columns printed engine info columns cells params')
                  (\<lambda>(rest, params'').
                     Inr ((quote_ident (ced_column cell) engine, placeholder) # rest, params''))))"

definition gen_insert ::
  "(string \<Rightarrow> string) \<Rightarrow> engine \<Rightarrow> object_path \<Rightarrow> object_info \<Rightarrow> string list \<Rightarrow> cell_edit list
     \<Rightarrow> string list \<Rightarrow> (driver_error, edit_statement) result" where
  "gen_insert printed engine table info columns values id_columns =
     res_bind (insert_columns printed engine info columns values [])
       (\<lambda>(cells, params).
          let table_sql = qualified_name table engine;
              cols = join_with '', '' (map fst cells);
              vals = join_with '', '' (map snd cells);
              sql =
                (if cells = [] then
                   (if engine = SqlServer
                    then ''INSERT INTO '' @ table_sql
                           @ returning_clause engine id_columns ReturningOutput @ '' DEFAULT VALUES''
                    else ''INSERT INTO '' @ table_sql @ '' DEFAULT VALUES''
                           @ returning_clause engine id_columns ReturningTrailing)
                 else
                   (if engine = SqlServer
                    then ''INSERT INTO '' @ table_sql @ '' ('' @ cols @ '')''
                           @ returning_clause engine id_columns ReturningOutput
                           @ '' VALUES ('' @ vals @ '')''
                    else ''INSERT INTO '' @ table_sql @ '' ('' @ cols @ '') VALUES ('' @ vals @ '')''
                           @ returning_clause engine id_columns ReturningTrailing))
          in Inr (raw_statement EditInsert sql params))"

fun set_clauses ::
  "(string \<Rightarrow> string) \<Rightarrow> engine \<Rightarrow> string list \<Rightarrow> cell_edit list \<Rightarrow> sql_value list
     \<Rightarrow> (driver_error, string list \<times> sql_value list) result" where
  "set_clauses printed engine columns [] params = Inr ([], params)"
| "set_clauses printed engine columns (cell # cells) params =
     res_bind (ensure_column printed columns (ced_column cell) engine)
       (\<lambda>_. case bind_value engine params (ced_value cell) of
          (placeholder, params') \<Rightarrow>
            res_bind (set_clauses printed engine columns cells params')
              (\<lambda>(rest, params'').
                 Inr ((quote_ident (ced_column cell) engine @ '' = '' @ placeholder) # rest, params'')))"

definition gen_update ::
  "(string \<Rightarrow> string) \<Rightarrow> engine \<Rightarrow> object_path \<Rightarrow> string list \<Rightarrow> string list \<Rightarrow> row_key
     \<Rightarrow> cell_edit list \<Rightarrow> cell_edit list \<Rightarrow> (driver_error, edit_statement) result" where
  "gen_update printed engine table columns id_columns key changes expected =
     (if changes = [] then
        Inl (with_engine (driver_error_new InvalidParameterValue
               ''update edit has no changed columns'') engine)
      else
        res_bind (set_clauses printed engine columns changes [])
          (\<lambda>(sets, params).
             res_bind (where_clause printed engine columns id_columns key expected params)
               (\<lambda>(where_sql, params').
                  Inr (raw_statement EditUpdate
                    (''UPDATE '' @ qualified_name table engine @ '' SET '' @ join_with '', '' sets
                       @ '' WHERE '' @ where_sql) params'))))"

definition gen_delete ::
  "(string \<Rightarrow> string) \<Rightarrow> engine \<Rightarrow> object_path \<Rightarrow> string list \<Rightarrow> string list \<Rightarrow> row_key
     \<Rightarrow> cell_edit list \<Rightarrow> (driver_error, edit_statement) result" where
  "gen_delete printed engine table columns id_columns key expected =
     res_bind (where_clause printed engine columns id_columns key expected [])
       (\<lambda>(where_sql, params).
          Inr (raw_statement EditDelete
            (''DELETE FROM '' @ qualified_name table engine @ '' WHERE '' @ where_sql) params))"

section \<open>The plan\<close>

definition edit_rank :: "row_edit \<Rightarrow> nat" where
  "edit_rank e = (case e of RowDelete _ _ \<Rightarrow> 0 | RowUpdate _ _ _ \<Rightarrow> 1 | RowInsert _ \<Rightarrow> 2)"

definition ordered_edits :: "row_edit list \<Rightarrow> (nat \<times> row_edit) list" where
  "ordered_edits edits = sort_key (\<lambda>(_, e). edit_rank e) (List.enumerate 0 edits)"

definition writes_hidden_column :: "object_info \<Rightarrow> row_edit \<Rightarrow> bool" where
  "writes_hidden_column info e =
     (let changes = (case e of
           RowInsert values \<Rightarrow> values
         | RowUpdate _ changes _ \<Rightarrow> changes
         | RowDelete _ _ \<Rightarrow> [])
      in list_ex (\<lambda>cell. list_ex (\<lambda>column. col_name column = ced_column cell \<and>
            (case fc_sqlite (col_facets column) of None \<Rightarrow> False | Some f \<Rightarrow> sl_hidden f \<noteq> 0))
            (oi_columns info)) changes)"

definition gen_edit ::
  "(string \<Rightarrow> string) \<Rightarrow> engine \<Rightarrow> object_path \<Rightarrow> object_info \<Rightarrow> string list \<Rightarrow> row_edit
     \<Rightarrow> (driver_error, edit_statement) result" where
  "gen_edit printed engine table info id_columns e =
     (let column_names = map col_name (oi_columns info)
      in if engine = Sqlite \<and> writes_hidden_column info e
         then Inl (driver_error_new InvalidParameterValue
                ''SQLite generated/hidden columns cannot be written'')
         else (case e of
             RowInsert values \<Rightarrow> gen_insert printed engine table info column_names values id_columns
           | RowUpdate key changes expected \<Rightarrow>
               gen_update printed engine table column_names id_columns key changes expected
           | RowDelete key expected \<Rightarrow>
               gen_delete printed engine table column_names id_columns key expected))"

definition gen_indexed ::
  "(string \<Rightarrow> string) \<Rightarrow> engine \<Rightarrow> object_path \<Rightarrow> object_info \<Rightarrow> string list \<Rightarrow> nat \<times> row_edit
     \<Rightarrow> (driver_error, edit_statement) result" where
  "gen_indexed printed engine table info id_columns ie =
     res_bind (gen_edit printed engine table info id_columns (snd ie))
       (\<lambda>stmt. Inr (stmt\<lparr>stm_edit_index := fst ie\<rparr>))"

definition plan_from_object ::
  "(string \<Rightarrow> string) \<Rightarrow> engine \<Rightarrow> object_info \<Rightarrow> edit_set \<Rightarrow> (driver_error, edit_plan) result" where
  "plan_from_object printed engine info edit_set =
     (if engine = Sqlite \<and>
         (oi_kind info \<noteq> KTable \<or>
          list_ex (\<lambda>c. case fc_sqlite (col_facets c) of None \<Rightarrow> False | Some f \<Rightarrow> sl_virtual_table f)
            (oi_columns info))
      then Inl (driver_error_new UnsupportedForEngine
             ''SQLite views and virtual tables cannot be edited'')
      else
        res_bind (resolve_identity printed info engine)
          (\<lambda>identity.
             res_bind
               (res_map (gen_indexed printed engine (eds_table edit_set) info (identity_columns identity))
                  (ordered_edits (eds_edits edit_set)))
               (\<lambda>statements.
                  Inr \<lparr>epl_table = eds_table edit_set, epl_identity = identity,
                       epl_statements = statements\<rparr>)))"

text \<open>\<open>build_plan\<close> over the trees the driver's deep schema call returned.\<close>

definition build_plan ::
  "(string \<Rightarrow> string) \<Rightarrow> engine \<Rightarrow> (driver_error, catalog_tree list) result \<Rightarrow> edit_set
     \<Rightarrow> (driver_error, edit_plan) result" where
  "build_plan printed engine schema edit_set =
     res_bind schema
       (\<lambda>trees.
          res_bind (ok_or (with_engine (driver_error_new UndefinedObject
                      (''table '' @ debug_str printed (op_name (eds_table edit_set))
                        @ '' not found in schema'')) engine)
                     (find_object trees (eds_table edit_set)))
            (\<lambda>info. plan_from_object printed engine info edit_set))"

section \<open>Applying a plan\<close>

datatype isolation_level = ReadUncommitted | ReadCommitted | RepeatableRead | Snapshot | Serializable

text \<open>What the loop reads of an execute response.\<close>

record execute_response =
  xr_rows :: "row list"
  xr_affected_rows :: "u64 option"

record edit_outcome =
  eo_edit_index :: nat
  eo_kind :: edit_statement_kind
  eo_affected_rows :: u64
  eo_returned :: "row list"

record apply_result =
  apr_applied :: "edit_outcome list"
  apr_committed :: bool

text \<open>
  The calls of the session store, on a state of the whole system: the authorization of the
  operation, the bounded schema call of the driver, the dispatch guard if there is one, and the
  transaction. A refused call still returns the state.
\<close>

type_synonym ('w, 'a) call = "'w \<Rightarrow> (api_error, 'a) result \<times> 'w"

record ('w, 'tx) session_calls =
  sc_engine :: engine
  sc_authorize :: "object_path \<Rightarrow> ('w, unit) call"
  sc_schema :: "object_path \<Rightarrow> ('w, (driver_error, catalog_tree list) result) call"
  sc_plan_json :: "edit_plan \<Rightarrow> string option"
  sc_guard :: "('w, unit) call option"
  sc_begin :: "isolation_level \<Rightarrow> ('w, 'tx) call"
  sc_execute :: "'tx \<Rightarrow> string \<Rightarrow> sql_value list \<Rightarrow> ('w, execute_response) call"
  sc_rollback :: "'tx \<Rightarrow> 'w \<Rightarrow> 'w"
  sc_commit :: "'tx \<Rightarrow> ('w, unit) call"

definition call_bind :: "('w, 'a) call \<Rightarrow> ('a \<Rightarrow> ('w, 'b) call) \<Rightarrow> ('w, 'b) call" where
  "call_bind m f w = (case m w of (Inl e, w') \<Rightarrow> (Inl e, w') | (Inr x, w') \<Rightarrow> f x w')"

definition call_pure :: "(api_error, 'a) result \<Rightarrow> ('w, 'a) call" where
  "call_pure r w = (r, w)"

definition call_guard :: "('w, 'tx) session_calls \<Rightarrow> ('w, unit) call" where
  "call_guard calls = (case sc_guard calls of None \<Rightarrow> call_pure (Inr ()) | Some g \<Rightarrow> g)"

definition fail_edits ::
  "('w, 'tx) session_calls \<Rightarrow> 'tx \<Rightarrow> bool \<Rightarrow> api_error \<Rightarrow> ('w, 'a) call" where
  "fail_edits calls tx owned e w = (Inl e, if owned then sc_rollback calls tx w else w)"

definition apply_statement ::
  "('w, 'tx) session_calls \<Rightarrow> 'tx \<Rightarrow> bool \<Rightarrow> edit_statement \<Rightarrow> ('w, edit_outcome) call" where
  "apply_statement calls tx owned stmt w =
     (let is_write = stm_kind stmt \<in> {EditUpdate, EditDelete}
      in case call_bind (call_guard calls)
                (\<lambda>_. sc_execute calls tx (stm_sql stmt) (stm_params stmt)) w of
           (Inl e, w') \<Rightarrow> fail_edits calls tx owned e w'
         | (Inr resp, w') \<Rightarrow>
             (let affected = (case xr_affected_rows resp of None \<Rightarrow> 0 | Some n \<Rightarrow> n)
              in if is_write \<and> affected \<noteq> 1
                 then fail_edits calls tx owned
                        (ApiEditConflict (of_nat (stm_edit_index stmt)) affected 1) w'
                 else (Inr \<lparr>eo_edit_index = stm_edit_index stmt, eo_kind = stm_kind stmt,
                            eo_affected_rows =
                              (if \<not> is_write \<and> affected = 0 then of_nat (length (xr_rows resp))
                               else affected),
                            eo_returned = xr_rows resp\<rparr>, w')))"

fun apply_statements ::
  "('w, 'tx) session_calls \<Rightarrow> 'tx \<Rightarrow> bool \<Rightarrow> edit_statement list \<Rightarrow> edit_outcome list
     \<Rightarrow> ('w, edit_outcome list) call" where
  "apply_statements calls tx owned [] applied w = (Inr applied, w)"
| "apply_statements calls tx owned (stmt # stmts) applied w =
     (case apply_statement calls tx owned stmt w of
        (Inl e, w') \<Rightarrow> (Inl e, w')
      | (Inr outcome, w') \<Rightarrow> apply_statements calls tx owned stmts (applied @ [outcome]) w')"

definition reviewed_plan ::
  "('w, 'tx) session_calls \<Rightarrow> edit_plan option \<Rightarrow> edit_plan \<Rightarrow> (api_error, unit) result" where
  "reviewed_plan calls expected_plan plan =
     (case expected_plan of
        None \<Rightarrow> Inr ()
      | Some expected \<Rightarrow>
          (case (sc_plan_json calls plan, sc_plan_json calls expected) of
             (Some actual, Some wanted) \<Rightarrow>
               (if actual \<noteq> wanted
                then Inl (ApiBadRequest ''Row preview changed; stage and review a fresh proposal'')
                else Inr ())
           | _ \<Rightarrow> Inl (ApiInternal ''Cannot verify reviewed row statements'')))"

definition open_transaction ::
  "('w, 'tx) session_calls \<Rightarrow> 'tx option \<Rightarrow> ('w, 'tx \<times> bool) call" where
  "open_transaction calls given =
     (case given of
        Some tx \<Rightarrow> call_pure (Inr (tx, False))
      | None \<Rightarrow>
          call_bind
            (sc_begin calls (if sc_engine calls = Sqlite then Serializable else ReadCommitted))
            (\<lambda>tx. call_pure (Inr (tx, True))))"

text \<open>The three parts of \<^verbatim>\<open>apply_edits_guarded\<close>: up to the first guard, the transaction, the commit.\<close>

definition prepare_edits ::
  "(string \<Rightarrow> string) \<Rightarrow> ('w, 'tx) session_calls \<Rightarrow> edit_set \<Rightarrow> edit_plan option
     \<Rightarrow> ('w, edit_plan) call" where
  "prepare_edits printed calls edit_set expected_plan =
     call_bind (sc_authorize calls (eds_table edit_set)) (\<lambda>_.
     call_bind (sc_schema calls (eds_table edit_set)) (\<lambda>schema.
     call_bind (call_pure (map_err ApiDriver
                  (build_plan printed (sc_engine calls) schema edit_set))) (\<lambda>plan.
     call_bind (call_pure (reviewed_plan calls expected_plan plan)) (\<lambda>_.
     call_bind (call_guard calls) (\<lambda>_. call_pure (Inr plan))))))"

definition finish_edits ::
  "('w, 'tx) session_calls \<Rightarrow> 'tx \<Rightarrow> bool \<Rightarrow> edit_outcome list \<Rightarrow> ('w, apply_result) call" where
  "finish_edits calls tx owned applied =
     (if owned
      then call_bind (sc_commit calls tx)
             (\<lambda>_. call_pure (Inr \<lparr>apr_applied = applied, apr_committed = True\<rparr>))
      else call_pure (Inr \<lparr>apr_applied = applied, apr_committed = False\<rparr>))"

definition run_plan ::
  "('w, 'tx) session_calls \<Rightarrow> 'tx option \<Rightarrow> edit_plan \<Rightarrow> ('w, apply_result) call" where
  "run_plan calls given plan =
     call_bind (open_transaction calls given) (\<lambda>(tx, owned).
       call_bind (apply_statements calls tx owned (epl_statements plan) [])
         (finish_edits calls tx owned))"

definition apply_edits_guarded ::
  "(string \<Rightarrow> string) \<Rightarrow> ('w, 'tx) session_calls \<Rightarrow> edit_set \<Rightarrow> 'tx option \<Rightarrow> edit_plan option
     \<Rightarrow> ('w, apply_result) call" where
  "apply_edits_guarded printed calls edit_set given expected_plan =
     call_bind (prepare_edits printed calls edit_set expected_plan) (run_plan calls given)"

section \<open>The generated text read back\<close>

text \<open>
  A predicate or an assignment is a column with the number of its parameter, or with none for
  \<^verbatim>\<open>IS NULL\<close>. \<open>read_statement\<close> is a reader of updates and deletes.
\<close>

type_synonym sql_item = "string \<times> nat option"

definition placeholder_mark :: "engine \<Rightarrow> string" where
  "placeholder_mark engine =
     (case engine of Postgres \<Rightarrow> ''$'' | SqlServer \<Rightarrow> ''@P'' | Sqlite \<Rightarrow> ''?'')"

definition item_text :: "engine \<Rightarrow> sql_item \<Rightarrow> string" where
  "item_text engine item =
     quote_ident (fst item) engine @
       (case snd item of None \<Rightarrow> '' IS NULL'' | Some n \<Rightarrow> '' = '' @ bind_placeholder engine n)"

definition strip_text :: "string \<Rightarrow> string \<Rightarrow> string option" where
  "strip_text p s = (if starts_with p s then Some (drop (length p) s) else None)"

definition read_item :: "engine \<Rightarrow> string \<Rightarrow> (sql_item \<times> string) option" where
  "read_item engine s =
     (if s \<noteq> [] \<and> hd s = open_quote engine
      then (case read_quoted (close_quote engine) (tl s) of
              None \<Rightarrow> None
            | Some (column, rest) \<Rightarrow>
                (case strip_text '' IS NULL'' rest of
                   Some rest' \<Rightarrow> Some ((column, None), rest')
                 | None \<Rightarrow>
                     (case strip_text ('' = '' @ placeholder_mark engine) rest of
                        None \<Rightarrow> None
                      | Some rest' \<Rightarrow>
                          Some ((column, Some (read_nat (takeWhile is_digit rest'))),
                                dropWhile is_digit rest'))))
      else None)"

lemma strip_text_shorter: "strip_text p s = Some r \<Longrightarrow> length r \<le> length s"
  by (auto simp: strip_text_def split: if_splits)

lemma dropWhile_shorter: "length xs \<le> n \<Longrightarrow> length (dropWhile P xs) \<le> n"
  by (rule order_trans [OF length_dropWhile_le])

lemma read_item_shorter: "read_item engine s = Some (item, rest) \<Longrightarrow> length rest < length s"
proof -
  assume a: "read_item engine s = Some (item, rest)"
  then obtain column r where r: "read_quoted (close_quote engine) (tl s) = Some (column, r)"
    and rest: "length rest \<le> length r"
    by (auto simp: read_item_def split: if_splits option.splits
        dest!: strip_text_shorter simp: dropWhile_shorter)
  from read_quoted_shorter [OF r] rest show ?thesis by simp
qed

function read_items :: "engine \<Rightarrow> string \<Rightarrow> string \<Rightarrow> (sql_item list \<times> string) option" where
  "read_items engine sep s =
     (case read_item engine s of
        None \<Rightarrow> None
      | Some (item, rest) \<Rightarrow>
          (case strip_text sep rest of
             None \<Rightarrow> Some ([item], rest)
           | Some rest' \<Rightarrow> map_option (apfst (Cons item)) (read_items engine sep rest')))"
  by pat_completeness auto
termination
  by (relation "measure (\<lambda>(engine, sep, s). length s)")
     (auto dest!: read_item_shorter strip_text_shorter)

declare read_items.simps [simp del]

text \<open>The kind, the table's name parts, the assignments and the predicates.\<close>

definition read_where :: "engine \<Rightarrow> string \<Rightarrow> sql_item list option" where
  "read_where engine s =
     (case Option.bind (strip_text '' WHERE '' s) (read_items engine '' AND '') of
        Some (items, []) \<Rightarrow> Some items
      | _ \<Rightarrow> None)"

definition read_statement ::
  "engine \<Rightarrow> string \<Rightarrow> (edit_statement_kind \<times> string list \<times> sql_item list \<times> sql_item list) option" where
  "read_statement engine s =
     (case strip_text ''DELETE FROM '' s of
        Some rest \<Rightarrow>
          Option.bind (read_qualified engine rest)
            (\<lambda>(parts, rest1).
               map_option (\<lambda>preds. (EditDelete, parts, [], preds)) (read_where engine rest1))
      | None \<Rightarrow>
          Option.bind (strip_text ''UPDATE '' s)
            (\<lambda>rest. Option.bind (read_qualified engine rest)
               (\<lambda>(parts, rest1). Option.bind (strip_text '' SET '' rest1)
                  (\<lambda>rest2. Option.bind (read_items engine '', '' rest2)
                     (\<lambda>(sets, rest3).
                        map_option (\<lambda>preds. (EditUpdate, parts, sets, preds))
                          (read_where engine rest3))))))"

subsection \<open>Reading what was written\<close>

lemma quote_ident_delimited: "(\<lambda>engine name. quote_ident name engine) = delimited"
proof (intro ext)
  show "quote_ident name engine = delimited engine name" for engine name
    by (cases engine) (simp_all add: quote_ident_def delimited_def open_quote_def close_quote_def)
qed

interpretation eq: identifier_quoting "\<lambda>engine name. quote_ident name engine"
  unfolding quote_ident_delimited by (rule delimited_quoting)

lemma strip_text_append [simp]: "strip_text p (p @ s) = Some s"
  by (simp add: strip_text_def)

lemma strip_text_other: "s \<noteq> [] \<Longrightarrow> p \<noteq> [] \<Longrightarrow> hd s \<noteq> hd p \<Longrightarrow> strip_text p s = None"
  by (cases p; cases s) (auto simp: strip_text_def starts_with_def)

definition ends_item :: "string \<Rightarrow> bool" where
  "ends_item rest = (rest = [] \<or> \<not> is_digit (hd rest))"

lemma bind_placeholder_mark: "bind_placeholder engine n = placeholder_mark engine @ show_nat n"
  by (cases engine) (simp_all add: bind_placeholder_def placeholder_mark_def)

lemma digits_split:
  assumes "ends_item rest"
  shows "takeWhile is_digit (show_nat n @ rest) = show_nat n"
    and "dropWhile is_digit (show_nat n @ rest) = rest"
proof -
  have *: "takeWhile is_digit rest = []" "dropWhile is_digit rest = rest"
    using assms by (cases rest; simp add: ends_item_def)+
  show "takeWhile is_digit (show_nat n @ rest) = show_nat n"
    using show_nat_digits [of n] * by (simp add: takeWhile_append2)
  show "dropWhile is_digit (show_nat n @ rest) = rest"
    using show_nat_digits [of n] * by (simp add: dropWhile_append2)
qed

lemma close_quote_not_space [simp]:
  "close_quote engine \<noteq> CHR '' ''" "CHR '' '' \<noteq> close_quote engine"
  by (cases engine; simp add: close_quote_def)+

lemma read_item_text:
  assumes "ends_item rest"
  shows "read_item engine (item_text engine item @ rest) = Some (item, rest)"
proof (cases item)
  case (Pair column number)
  define tail where
    "tail = (case number of None \<Rightarrow> '' IS NULL'' | Some n \<Rightarrow> '' = '' @ bind_placeholder engine n) @ rest"
  have t: "item_text engine item @ rest = quote_ident column engine @ tail"
    by (simp add: item_text_def Pair tail_def)
  have q: "read_quoted (close_quote engine) (tl (quote_ident column engine @ tail)) = Some (column, tail)"
    by (rule eq.reads)
       (auto simp: tail_def split: option.splits)
  show ?thesis
  proof (cases number)
    case None
    then have "tail = '' IS NULL'' @ rest" by (simp add: tail_def)
    then have "strip_text '' IS NULL'' tail = Some rest" by (simp only: strip_text_append)
    with t q None Pair show ?thesis
      by (simp only: read_item_def eq.opens simp_thms if_True option.case prod.case)
  next
    case (Some n)
    then have tail: "tail = ('' = '' @ placeholder_mark engine) @ show_nat n @ rest"
      by (simp add: tail_def bind_placeholder_mark)
    have "strip_text '' IS NULL'' tail = None"
      by (simp add: tail strip_text_def starts_with_def)
    moreover have "strip_text ('' = '' @ placeholder_mark engine) tail = Some (show_nat n @ rest)"
      unfolding tail by (rule strip_text_append)
    ultimately show ?thesis
      using t q Some Pair
      by (simp only: read_item_def eq.opens simp_thms if_True option.case prod.case
          digits_split [OF assms] read_show_nat)
  qed
qed

lemma read_items_text:
  assumes rest: "ends_item rest" "strip_text sep rest = None"
    and sep: "sep \<noteq> []" "\<not> is_digit (hd sep)" and "items \<noteq> []"
  shows "read_items engine sep (join_with sep (map (item_text engine) items) @ rest)
         = Some (items, rest)"
  using \<open>items \<noteq> []\<close>
proof (induction items rule: induct_list012)
  case 1
  then show ?case by simp
next
  case (2 x)
  show ?case
    by (subst read_items.simps) (simp add: read_item_text [OF rest(1)] rest(2))
next
  case (3 x y ys)
  let ?tail = "join_with sep (map (item_text engine) (y # ys)) @ rest"
  have "ends_item (sep @ ?tail)" using sep by (simp add: ends_item_def)
  from read_item_text [OF this, of engine x] 3 show ?case
    by (subst read_items.simps) simp
qed

section \<open>What a statement means\<close>

text \<open>
  Pairs of a column and a value become items numbered from \<open>n\<close>; those whose value satisfies
  \<open>unbound\<close> (the nulls of a comparison) take no parameter.
\<close>

fun number_items ::
  "(sql_value \<Rightarrow> bool) \<Rightarrow> nat \<Rightarrow> (string \<times> sql_value) list \<Rightarrow> sql_item list" where
  "number_items unbound n [] = []"
| "number_items unbound n ((c, v) # pairs) =
     (if unbound v then (c, None) # number_items unbound n pairs
      else (c, Some (Suc n)) # number_items unbound (Suc n) pairs)"

definition bound_values ::
  "(sql_value \<Rightarrow> bool) \<Rightarrow> (string \<times> sql_value) list \<Rightarrow> sql_value list" where
  "bound_values unbound pairs = filter (\<lambda>v. \<not> unbound v) (map snd pairs)"

definition pair_meaning ::
  "(sql_value \<Rightarrow> bool) \<Rightarrow> (string \<times> sql_value) list \<Rightarrow> (string \<times> sql_value option) list" where
  "pair_meaning unbound pairs = map (\<lambda>(c, v). (c, if unbound v then None else Some v)) pairs"

definition item_value :: "sql_value list \<Rightarrow> sql_item \<Rightarrow> string \<times> sql_value option" where
  "item_value params item = (fst item, map_option (\<lambda>n. params ! (n - 1)) (snd item))"

lemma bound_values_simps [simp]:
  "bound_values p [] = []"
  "bound_values p ((c, v) # pairs) = (if p v then bound_values p pairs else v # bound_values p pairs)"
  "bound_values p (xs @ ys) = bound_values p xs @ bound_values p ys"
  by (simp_all add: bound_values_def)

lemma pair_meaning_simps [simp]:
  "pair_meaning p [] = []"
  "pair_meaning p ((c, v) # pairs) = (c, if p v then None else Some v) # pair_meaning p pairs"
  by (simp_all add: pair_meaning_def)

lemma number_items_append:
  "number_items p n (xs @ ys) = number_items p n xs @ number_items p (n + length (bound_values p xs)) ys"
  by (induction p n xs rule: number_items.induct) auto

lemma number_items_Nil [simp]: "number_items p n pairs = [] \<longleftrightarrow> pairs = []"
  by (cases pairs) (auto split: if_splits)

lemma item_value_number:
  "map (item_value (pre @ bound_values p pairs @ post)) (number_items p (length pre) pairs)
     = pair_meaning p pairs"
proof (induction pairs arbitrary: pre)
  case Nil
  then show ?case by simp
next
  case (Cons cv pairs)
  obtain c v where cv: "cv = (c, v)" by (cases cv)
  show ?case
  proof (cases "p v")
    case True
    with Cons.IH [of pre] show ?thesis by (simp add: cv item_value_def)
  next
    case False
    with Cons.IH [of "pre @ [v]"] show ?thesis by (simp add: cv item_value_def nth_append)
  qed
qed

definition key_pairs :: "row_key \<Rightarrow> string list \<Rightarrow> (string \<times> sql_value) list" where
  "key_pairs key id_columns =
     map (\<lambda>c. (c, case find (\<lambda>cell. ced_column cell = c) (rwk_columns key) of
                    Some cell \<Rightarrow> ced_value cell | None \<Rightarrow> VNull)) id_columns"

definition cell_pairs :: "cell_edit list \<Rightarrow> (string \<times> sql_value) list" where
  "cell_pairs cells = map (\<lambda>cell. (ced_column cell, ced_value cell)) cells"

definition key_covers :: "row_key \<Rightarrow> string list \<Rightarrow> bool" where
  "key_covers key id_columns =
     list_all (\<lambda>c. find (\<lambda>cell. ced_column cell = c) (rwk_columns key) \<noteq> None) id_columns"

lemma comparison_text:
  "comparison engine params c v =
     (item_text engine (hd (number_items value_is_null (length params) [(c, v)])),
      params @ bound_values value_is_null [(c, v)])"
  by (simp add: comparison_def item_text_def bind_value_def)

lemma identity_predicates_text:
  "identity_predicates printed engine key ids params = Inr (preds, params') \<Longrightarrow>
     key_covers key ids
     \<and> preds = map (item_text engine) (number_items value_is_null (length params) (key_pairs key ids))
     \<and> params' = params @ bound_values value_is_null (key_pairs key ids)"
proof (induction ids arbitrary: params preds params')
  case Nil
  then show ?case by (simp add: key_covers_def key_pairs_def)
next
  case (Cons c ids)
  from Cons.prems show ?case
    by (auto simp: key_covers_def key_pairs_def comparison_text res_bind_Inr_conv
        split: option.splits dest!: Cons.IH)
qed

lemma expected_predicates_text:
  "expected_predicates printed engine columns cells params = Inr (preds, params') \<Longrightarrow>
     preds = map (item_text engine) (number_items value_is_null (length params) (cell_pairs cells))
     \<and> params' = params @ bound_values value_is_null (cell_pairs cells)"
proof (induction cells arbitrary: params preds params')
  case Nil
  then show ?case by (simp add: cell_pairs_def)
next
  case (Cons cell cells)
  from Cons.prems show ?case
    by (auto simp: cell_pairs_def comparison_text res_bind_Inr_conv dest!: Cons.IH)
qed

lemma set_clauses_text:
  "set_clauses printed engine columns cells params = Inr (sets, params') \<Longrightarrow>
     sets = map (item_text engine) (number_items (\<lambda>_. False) (length params) (cell_pairs cells))
     \<and> params' = params @ bound_values (\<lambda>_. False) (cell_pairs cells)"
proof (induction cells arbitrary: params sets params')
  case Nil
  then show ?case by (simp add: cell_pairs_def)
next
  case (Cons cell cells)
  from Cons.prems show ?case
    by (auto simp: cell_pairs_def bind_value_def item_text_def res_bind_Inr_conv dest!: Cons.IH)
qed

lemma where_clause_text:
  assumes "where_clause printed engine columns ids key expected params = Inr (sql, params')"
  shows "key_covers key ids"
    and "sql = join_with '' AND '' (map (item_text engine)
           (number_items value_is_null (length params) (key_pairs key ids @ cell_pairs expected)))"
    and "params' = params @ bound_values value_is_null (key_pairs key ids @ cell_pairs expected)"
  using assms
  by (auto simp: where_clause_def res_bind_Inr_conv number_items_append
      dest!: identity_predicates_text expected_predicates_text)

lemma insert_columns_params:
  "insert_columns printed engine info columns cells params = Inr (out, params') \<Longrightarrow>
     params' = params @ map ced_value (filter (\<lambda>c. \<not> is_db_assigned info (ced_column c)) cells)"
proof (induction cells arbitrary: params out params')
  case Nil
  then show ?case by simp
next
  case (Cons cell cells)
  from Cons.prems show ?case
    by (auto simp: bind_value_def res_bind_Inr_conv split: if_splits dest!: Cons.IH)
qed

definition table_parts :: "object_path \<Rightarrow> string list" where
  "table_parts path = (case op_schema path of Some s \<Rightarrow> [s, op_name path] | None \<Rightarrow> [op_name path])"

lemma qualified_name_parts:
  "qualified_name path engine =
     join_with ''.'' (map (\<lambda>name. quote_ident name engine) (table_parts path))"
  by (simp add: qualified_name_def table_parts_def split: option.split)

lemma read_qualified_name:
  "ends_name engine rest \<Longrightarrow>
     read_qualified engine (qualified_name path engine @ rest) = Some (table_parts path, rest)"
  unfolding qualified_name_parts
  by (rule eq.read_joined) (simp_all add: table_parts_def split: option.split)

lemma read_where_text:
  assumes "items \<noteq> []"
  shows "read_where engine ('' WHERE '' @ join_with '' AND '' (map (item_text engine) items)) = Some items"
proof -
  have "read_items engine '' AND '' (join_with '' AND '' (map (item_text engine) items) @ []) = Some (items, [])"
    by (rule read_items_text)
       (use assms in \<open>simp_all add: ends_item_def strip_text_def starts_with_def is_digit_def\<close>)
  then show ?thesis
    by (simp only: read_where_def strip_text_append Option.bind.bind_lunit append_Nil2
        option.case prod.case list.case)
qed

text \<open>A statement as the reader sees it, with its parameters in place.\<close>

definition statement_means ::
  "engine \<Rightarrow> edit_statement
     \<Rightarrow> (edit_statement_kind \<times> string list \<times> (string \<times> sql_value option) list
          \<times> (string \<times> sql_value option) list) option" where
  "statement_means engine s =
     map_option
       (\<lambda>(kind, parts, sets, preds).
          (kind, parts, map (item_value (stm_params s)) sets, map (item_value (stm_params s)) preds))
       (read_statement engine (stm_sql s))"

lemma ends_name_space: "s \<noteq> [] \<Longrightarrow> hd s = CHR '' '' \<Longrightarrow> ends_name engine s"
  by (cases engine) (simp_all add: ends_name_def close_quote_def)

lemma gen_delete_means:
  assumes "gen_delete printed engine table columns ids key expected = Inr s" and "ids \<noteq> []"
  shows "key_covers key ids"
    and "stm_kind s = EditDelete"
    and "statement_means engine s =
           Some (EditDelete, table_parts table, [],
             pair_meaning value_is_null (key_pairs key ids @ cell_pairs expected))"
proof -
  let ?pairs = "key_pairs key ids @ cell_pairs expected"
  from assms(1) obtain w params
    where w: "where_clause printed engine columns ids key expected [] = Inr (w, params)"
      and s: "s = raw_statement EditDelete
                (''DELETE FROM '' @ qualified_name table engine @ '' WHERE '' @ w) params"
    by (auto simp: gen_delete_def res_bind_Inr_conv)
  note wtext = where_clause_text [OF w]
  show "key_covers key ids" by (rule wtext(1))
  show "stm_kind s = EditDelete" by (simp add: s raw_statement_def)
  have "?pairs \<noteq> []" using assms(2) by (simp add: key_pairs_def)
  then have "read_where engine ('' WHERE '' @ w) = Some (number_items value_is_null 0 ?pairs)"
    unfolding wtext(2) by (simp add: read_where_text del: append_Cons)
  moreover have "read_qualified engine (qualified_name table engine @ '' WHERE '' @ w)
      = Some (table_parts table, '' WHERE '' @ w)"
    by (rule read_qualified_name) (rule ends_name_space; simp)
  ultimately have "read_statement engine (stm_sql s) =
      Some (EditDelete, table_parts table, [], number_items value_is_null 0 ?pairs)"
    by (simp add: s raw_statement_def read_statement_def del: append_Cons append_Nil)
  then show "statement_means engine s =
           Some (EditDelete, table_parts table, [], pair_meaning value_is_null ?pairs)"
    using item_value_number [of "[]" value_is_null ?pairs "[]"] wtext(3)
    by (simp add: statement_means_def s raw_statement_def)
qed

lemma gen_update_means:
  assumes "gen_update printed engine table columns ids key changes expected = Inr s" and "ids \<noteq> []"
  shows "key_covers key ids"
    and "stm_kind s = EditUpdate"
    and "statement_means engine s =
           Some (EditUpdate, table_parts table,
             pair_meaning (\<lambda>_. False) (cell_pairs changes),
             pair_meaning value_is_null (key_pairs key ids @ cell_pairs expected))"
proof -
  let ?pairs = "key_pairs key ids @ cell_pairs expected"
  let ?sets = "number_items (\<lambda>_. False) 0 (cell_pairs changes)"
  from assms(1) obtain sets params w params'
    where sets: "set_clauses printed engine columns changes [] = Inr (sets, params)"
      and w: "where_clause printed engine columns ids key expected params = Inr (w, params')"
      and "changes \<noteq> []"
      and s: "s = raw_statement EditUpdate
                (''UPDATE '' @ qualified_name table engine @ '' SET '' @ join_with '', '' sets
                   @ '' WHERE '' @ w) params'"
    by (auto simp: gen_update_def res_bind_Inr_conv split: if_splits)
  note wtext = where_clause_text [OF w]
  from set_clauses_text [OF sets]
  have st: "sets = map (item_text engine) ?sets" "params = bound_values (\<lambda>_. False) (cell_pairs changes)"
    by simp_all
  show "key_covers key ids" by (rule wtext(1))
  show "stm_kind s = EditUpdate" by (simp add: s raw_statement_def)
  have "?pairs \<noteq> []" using assms(2) by (simp add: key_pairs_def)
  then have rw: "read_where engine ('' WHERE '' @ w)
      = Some (number_items value_is_null (length params) ?pairs)"
    unfolding wtext(2) by (simp add: read_where_text del: append_Cons)
  have "?sets \<noteq> []" using \<open>changes \<noteq> []\<close> by (simp add: cell_pairs_def)
  then have rs: "read_items engine '', '' (join_with '', '' sets @ '' WHERE '' @ w)
      = Some (?sets, '' WHERE '' @ w)"
    unfolding st(1)
    by (intro read_items_text)
       (simp_all add: ends_item_def strip_text_def starts_with_def is_digit_def)
  have rq: "read_qualified engine
        (qualified_name table engine @ '' SET '' @ join_with '', '' sets @ '' WHERE '' @ w)
      = Some (table_parts table, '' SET '' @ join_with '', '' sets @ '' WHERE '' @ w)"
    by (rule read_qualified_name) (rule ends_name_space; simp)
  have "strip_text ''DELETE FROM '' (stm_sql s) = None"
    by (rule strip_text_other) (simp_all add: s raw_statement_def)
  moreover have "strip_text ''UPDATE '' (stm_sql s) =
      Some (qualified_name table engine @ '' SET '' @ join_with '', '' sets @ '' WHERE '' @ w)"
    by (simp add: s raw_statement_def del: append_Cons append_Nil)
  ultimately have "read_statement engine (stm_sql s) =
      Some (EditUpdate, table_parts table, ?sets, number_items value_is_null (length params) ?pairs)"
    using rq rs rw
    by (simp add: read_statement_def del: append_Cons append_Nil)
  then show "statement_means engine s =
           Some (EditUpdate, table_parts table,
             pair_meaning (\<lambda>_. False) (cell_pairs changes), pair_meaning value_is_null ?pairs)"
    using item_value_number [of params value_is_null ?pairs "[]"]
      item_value_number [of "[]" "\<lambda>_. False" "cell_pairs changes" "bound_values value_is_null ?pairs"]
      wtext(3) st(2)
    by (simp add: statement_means_def s raw_statement_def)
qed

lemma gen_insert_means:
  assumes "gen_insert printed engine table info columns values ids = Inr s"
  shows "stm_kind s = EditInsert"
    and "stm_params s = map ced_value (filter (\<lambda>c. \<not> is_db_assigned info (ced_column c)) values)"
  using assms
  by (auto simp: gen_insert_def raw_statement_def Let_def res_bind_Inr_conv
      dest!: insert_columns_params)

section \<open>The plan implements the edits\<close>

definition implements_edit ::
  "engine \<Rightarrow> object_path \<Rightarrow> object_info \<Rightarrow> string list \<Rightarrow> row_edit \<Rightarrow> edit_statement \<Rightarrow> bool" where
  "implements_edit engine table info ids e s =
     (case e of
        RowInsert values \<Rightarrow>
          stm_kind s = EditInsert \<and>
          stm_params s = map ced_value (filter (\<lambda>c. \<not> is_db_assigned info (ced_column c)) values)
      | RowUpdate key changes expected \<Rightarrow>
          stm_kind s = EditUpdate \<and> key_covers key ids \<and>
          statement_means engine s = Some (EditUpdate, table_parts table,
            pair_meaning (\<lambda>_. False) (cell_pairs changes),
            pair_meaning value_is_null (key_pairs key ids @ cell_pairs expected))
      | RowDelete key expected \<Rightarrow>
          stm_kind s = EditDelete \<and> key_covers key ids \<and>
          statement_means engine s = Some (EditDelete, table_parts table, [],
            pair_meaning value_is_null (key_pairs key ids @ cell_pairs expected)))"

definition kind_of_edit :: "row_edit \<Rightarrow> edit_statement_kind" where
  "kind_of_edit e =
     (case e of RowDelete _ _ \<Rightarrow> EditDelete | RowUpdate _ _ _ \<Rightarrow> EditUpdate | RowInsert _ \<Rightarrow> EditInsert)"

definition kind_rank :: "edit_statement_kind \<Rightarrow> nat" where
  "kind_rank k = (case k of EditDelete \<Rightarrow> 0 | EditUpdate \<Rightarrow> 1 | EditInsert \<Rightarrow> 2)"

lemma kind_rank_edit: "edit_rank e = kind_rank (kind_of_edit e)"
  by (cases e) (simp_all add: edit_rank_def kind_rank_def kind_of_edit_def)

lemma kind_rank_inj: "kind_rank k = kind_rank k' \<longleftrightarrow> k = k'"
  by (cases k; cases k') (simp_all add: kind_rank_def)

lemma implements_kind: "implements_edit engine table info ids e s \<Longrightarrow> stm_kind s = kind_of_edit e"
  by (cases e) (simp_all add: implements_edit_def kind_of_edit_def)

lemma gen_indexed_implements:
  assumes "gen_indexed printed engine table info ids ie = Inr s" and "ids \<noteq> []"
  shows "stm_edit_index s = fst ie \<and> implements_edit engine table info ids (snd ie) s"
proof -
  from assms(1) obtain s0
    where s0: "gen_edit printed engine table info ids (snd ie) = Inr s0"
      and s: "s = s0\<lparr>stm_edit_index := fst ie\<rparr>"
    by (auto simp: gen_indexed_def res_bind_Inr_conv)
  have m: "statement_means engine s = statement_means engine s0" "stm_kind s = stm_kind s0"
      "stm_params s = stm_params s0" "stm_edit_index s = fst ie"
    by (simp_all add: s statement_means_def)
  show ?thesis
  proof (cases "snd ie")
    case (RowInsert cells)
    with s0 have "gen_insert printed engine table info (map col_name (oi_columns info)) cells ids = Inr s0"
      by (simp add: gen_edit_def Let_def split: if_splits)
    from gen_insert_means [OF this] m RowInsert show ?thesis
      by (simp add: implements_edit_def)
  next
    case (RowUpdate key changes expected)
    with s0 have "gen_update printed engine table (map col_name (oi_columns info)) ids key changes
        expected = Inr s0"
      by (simp add: gen_edit_def Let_def split: if_splits)
    from gen_update_means [OF this assms(2)] m RowUpdate show ?thesis
      by (simp add: implements_edit_def)
  next
    case (RowDelete key expected)
    with s0 have "gen_delete printed engine table (map col_name (oi_columns info)) ids key
        expected = Inr s0"
      by (simp add: gen_edit_def Let_def split: if_splits)
    from gen_delete_means [OF this assms(2)] m RowDelete show ?thesis
      by (simp add: implements_edit_def)
  qed
qed

lemma resolve_identity_columns:
  "resolve_identity printed info engine = Inr identity \<Longrightarrow> identity_columns identity \<noteq> []"
  by (auto simp: resolve_identity_def Let_def identity_columns_def find_Some_iff
      split: if_splits option.splits)

lemma filter_list_all2:
  assumes "list_all2 R xs ys" and "\<And>x y. R x y \<Longrightarrow> f x = g y \<and> (P x \<longleftrightarrow> Q y)"
  shows "map f (filter P xs) = map g (filter Q ys)"
  using assms(1) by (induction rule: list_all2_induct) (auto dest: assms(2))

lemma list_all2_member: "list_all2 R xs ys \<Longrightarrow> y \<in> set ys \<Longrightarrow> \<exists>x\<in>set xs. R x y"
  by (induction rule: list_all2_induct) auto

lemma plan_from_object_plan:
  assumes "plan_from_object printed engine info edits = Inr plan"
  shows "identity_columns (epl_identity plan) \<noteq> []"
    and "list_all2 (\<lambda>ie s. stm_edit_index s = fst ie \<and>
           implements_edit engine (eds_table edits) info (identity_columns (epl_identity plan)) (snd ie) s)
           (ordered_edits (eds_edits edits)) (epl_statements plan)"
proof -
  from assms obtain identity statements
    where id: "resolve_identity printed info engine = Inr identity"
      and st: "res_map (gen_indexed printed engine (eds_table edits) info (identity_columns identity))
                 (ordered_edits (eds_edits edits)) = Inr statements"
      and plan: "epl_identity plan = identity" "epl_statements plan = statements"
    by (auto simp: plan_from_object_def res_bind_Inr_conv split: if_splits)
  from resolve_identity_columns [OF id] plan
  show ids: "identity_columns (epl_identity plan) \<noteq> []" by simp
  show "list_all2 (\<lambda>ie s. stm_edit_index s = fst ie \<and>
           implements_edit engine (eds_table edits) info (identity_columns (epl_identity plan)) (snd ie) s)
           (ordered_edits (eds_edits edits)) (epl_statements plan)"
    unfolding list_all2_conv_all_nth
    using res_map_length [OF st] res_map_nth [OF st] ids plan gen_indexed_implements by metis
qed

text \<open>
  C23: a plan is well formed: the table has a row identity, the deletes come first, then the
  updates, then the inserts; the statements of a kind are those of the edits of that kind, each
  once and in the order given; and every update and delete, read back as SQL text with its
  parameters in place, is on the table of the edit set, assigns exactly the changed values and is
  conditioned on every identity column having the value of the row's key and every expected value.
\<close>

theorem plan_implements_edits:
  assumes "plan_from_object printed engine info edits = Inr plan"
  shows "identity_columns (epl_identity plan) \<noteq> []
    \<and> sorted (map (kind_rank \<circ> stm_kind) (epl_statements plan))
    \<and> (\<forall>k. map stm_edit_index (filter (\<lambda>s. stm_kind s = k) (epl_statements plan))
           = map fst (filter (\<lambda>(_, e). kind_of_edit e = k) (List.enumerate 0 (eds_edits edits))))
    \<and> (\<forall>s\<in>set (epl_statements plan).
         stm_edit_index s < length (eds_edits edits) \<and>
         implements_edit engine (eds_table edits) info (identity_columns (epl_identity plan))
           (eds_edits edits ! stm_edit_index s) s)"
proof -
  let ?ids = "identity_columns (epl_identity plan)" and ?es = "eds_edits edits"
  let ?R = "\<lambda>ie s. stm_edit_index s = fst ie \<and>
              implements_edit engine (eds_table edits) info ?ids (snd ie) s"
  note all = plan_from_object_plan(2) [OF assms]
  have "map (\<lambda>(_, e). edit_rank e) (filter (\<lambda>_. True) (ordered_edits ?es))
        = map (kind_rank \<circ> stm_kind) (filter (\<lambda>_. True) (epl_statements plan))"
    by (rule filter_list_all2 [OF all]) (auto simp: kind_rank_edit dest!: implements_kind)
  then have "map (kind_rank \<circ> stm_kind) (epl_statements plan)
        = map (\<lambda>(_, e). edit_rank e) (ordered_edits ?es)"
    by simp
  then have sorted: "sorted (map (kind_rank \<circ> stm_kind) (epl_statements plan))"
    by (simp add: ordered_edits_def)
  have "map stm_edit_index (filter (\<lambda>s. stm_kind s = k) (epl_statements plan))
        = map fst (filter (\<lambda>(_, e). kind_of_edit e = k) (List.enumerate 0 ?es))" for k
  proof -
    have "map fst (filter (\<lambda>(_, e). kind_of_edit e = k) (ordered_edits ?es))
          = map stm_edit_index (filter (\<lambda>s. stm_kind s = k) (epl_statements plan))"
      by (rule filter_list_all2 [OF all]) (auto dest!: implements_kind)
    moreover have "filter (\<lambda>(_, e). kind_of_edit e = k) (ordered_edits ?es)
          = filter (\<lambda>(_, e). kind_of_edit e = k) (List.enumerate 0 ?es)"
      using sort_key_stable [of "\<lambda>(_, e). edit_rank e" "kind_rank k" "List.enumerate 0 ?es"]
      by (simp add: ordered_edits_def kind_rank_edit kind_rank_inj case_prod_unfold)
    ultimately show ?thesis by simp
  qed
  moreover have "stm_edit_index s < length ?es \<and>
      implements_edit engine (eds_table edits) info ?ids (?es ! stm_edit_index s) s"
    if "s \<in> set (epl_statements plan)" for s
  proof -
    from list_all2_member [OF all that] obtain ie
      where "ie \<in> set (ordered_edits ?es)" and r: "?R ie s" by blast
    then have "ie \<in> set (List.enumerate 0 ?es)" by (simp add: ordered_edits_def)
    then have "fst ie < length ?es" "snd ie = ?es ! fst ie"
      by (auto simp: in_set_enumerate_eq)
    with r show ?thesis by simp
  qed
  ultimately show ?thesis
    using plan_from_object_plan(1) [OF assms] sorted by blast
qed

definition demo_column :: "string \<Rightarrow> bool \<Rightarrow> column_metadata" where
  "demo_column name key =
     (column_metadata_new name (PrimitiveRef PInt32))\<lparr>col_primary_key := key\<rparr>"

definition demo_users :: object_info where
  "demo_users = \<lparr>oi_name = ''users'', oi_kind = KTable, oi_estimated_rows = None,
     oi_modified_at = None, oi_comment = None, oi_routine_args = None,
     oi_columns = [demo_column ''id'' True, demo_column ''n'' False],
     oi_indexes = [], oi_constraints = [], oi_triggers = []\<rparr>"

definition demo_edits :: edit_set where
  "demo_edits = \<lparr>eds_table = \<lparr>op_catalog = None, op_schema = None, op_name = ''users'',
       op_kind = None, op_routine_args = None\<rparr>,
     eds_edits =
       [RowInsert [\<lparr>ced_column = ''n'', ced_value = VBool True\<rparr>],
        RowDelete \<lparr>rwk_columns = [\<lparr>ced_column = ''id'', ced_value = VBool False\<rparr>]\<rparr> []]\<rparr>"

definition demo_plan :: edit_plan where
  "demo_plan = \<lparr>epl_table = eds_table demo_edits, epl_identity = PrimaryKeyIdentity [''id''],
     epl_statements =
       [\<lparr>stm_edit_index = 1, stm_kind = EditDelete,
         stm_sql = ''DELETE FROM [users] WHERE [id] = @P1'', stm_params = [VBool False]\<rparr>,
        \<lparr>stm_edit_index = 0, stm_kind = EditInsert,
         stm_sql = ''INSERT INTO [users] ([n]) OUTPUT inserted.[id] VALUES (@P1)'',
         stm_params = [VBool True]\<rparr>]\<rparr>"

lemma demo_digit_one: "char_of (49 :: nat) = CHR ''1''"
  by code_simp

lemma demo_plan_made: "plan_from_object id SqlServer demo_users demo_edits = Inr demo_plan"
  by (simp add: plan_from_object_def resolve_identity_def demo_users_def demo_edits_def demo_plan_def
      demo_column_def column_metadata_new_def Let_def identity_columns_def ordered_edits_def edit_rank_def
      gen_indexed_def gen_edit_def gen_insert_def gen_delete_def ensure_column_def is_db_assigned_def
      bind_value_def bind_placeholder_def show_nat.simps demo_digit_one comparison_def
      value_is_null_def where_clause_def raw_statement_def returning_clause_def qualified_name_def
      quote_ident_def enumerate_simps)

theorem plan_implements_edits_witness:
  "identity_columns (epl_identity demo_plan) \<noteq> [] \<and>
   list_all (\<lambda>s. stm_edit_index s < length (eds_edits demo_edits) \<and>
      implements_edit SqlServer (eds_table demo_edits) demo_users [''id'']
        (eds_edits demo_edits ! stm_edit_index s) s) (epl_statements demo_plan)"
  using plan_implements_edits [OF demo_plan_made]
  by (simp add: demo_plan_def identity_columns_def)

section \<open>Data changes only with every edit\<close>

text \<open>
  Isolation, as the databases document it: with \<open>committed\<close> the data other transactions see, only
  a successful commit changes it.
\<close>

definition keeps :: "('w \<Rightarrow> 'd) \<Rightarrow> ('w, 'a) call \<Rightarrow> bool" where
  "keeps committed m = (\<forall>w. committed (snd (m w)) = committed w)"

definition isolated_calls :: "('w \<Rightarrow> 'd) \<Rightarrow> ('w, 'tx) session_calls \<Rightarrow> bool" where
  "isolated_calls committed calls =
     ((\<forall>t. keeps committed (sc_authorize calls t)) \<and> (\<forall>t. keeps committed (sc_schema calls t))
      \<and> (\<forall>g. sc_guard calls = Some g \<longrightarrow> keeps committed g)
      \<and> (\<forall>l. keeps committed (sc_begin calls l))
      \<and> (\<forall>tx sql ps. keeps committed (sc_execute calls tx sql ps))
      \<and> (\<forall>tx w. committed (sc_rollback calls tx w) = committed w)
      \<and> (\<forall>tx w e. fst (sc_commit calls tx w) = Inl e \<longrightarrow> committed (snd (sc_commit calls tx w)) = committed w))"

lemma call_bind_keeps:
  assumes "keeps committed m" and "call_bind m f w = (r, w')" and "committed w' \<noteq> committed w"
  shows "\<exists>x w1. m w = (Inr x, w1) \<and> f x w1 = (r, w') \<and> committed w1 = committed w"
proof (cases "m w")
  case (Pair r1 w1)
  with assms(1) have "committed w1 = committed w" by (metis keeps_def snd_conv)
  with Pair assms(2,3) show ?thesis
    by (cases r1) (auto simp: call_bind_def)
qed

lemma call_bind_Inr:
  assumes "call_bind m f w = (Inr y, w')"
  shows "\<exists>x w1. m w = (Inr x, w1) \<and> f x w1 = (Inr y, w')"
  using assms by (cases "m w"; cases "fst (m w)") (auto simp: call_bind_def)

lemma keeps_pure [simp]: "keeps committed (call_pure r)"
  by (simp add: keeps_def call_pure_def)

lemma keeps_bind:
  "keeps committed m \<Longrightarrow> (\<And>x. keeps committed (f x)) \<Longrightarrow> keeps committed (call_bind m f)"
  using call_bind_keeps [of committed m f] unfolding keeps_def by (metis prod.collapse snd_conv)

lemma keeps_guard: "isolated_calls committed calls \<Longrightarrow> keeps committed (call_guard calls)"
  by (auto simp: isolated_calls_def call_guard_def split: option.split)

lemma keeps_statement:
  assumes "isolated_calls committed calls"
  shows "keeps committed (apply_statement calls tx owned stmt)"
  unfolding keeps_def
proof
  fix w
  let ?run = "call_bind (call_guard calls) (\<lambda>_. sc_execute calls tx (stm_sql stmt) (stm_params stmt))"
  obtain r w1 where run: "?run w = (r, w1)" by (cases "?run w")
  have "keeps committed ?run"
    using assms by (intro keeps_bind keeps_guard) (auto simp: isolated_calls_def)
  with run have w1: "committed w1 = committed w" by (metis keeps_def snd_conv)
  have fail: "committed (snd (fail_edits calls tx owned e w1 :: (_, edit_outcome) result \<times> _))
      = committed w" for e
    using assms w1 by (simp add: fail_edits_def isolated_calls_def)
  show "committed (snd (apply_statement calls tx owned stmt w)) = committed w"
    using run w1 fail by (cases r) (simp_all add: apply_statement_def Let_def)
qed

text \<open>An outcome reports its statement, and of a write exactly one row.\<close>

definition reports :: "edit_statement \<Rightarrow> edit_outcome \<Rightarrow> bool" where
  "reports s out =
     (eo_edit_index out = stm_edit_index s \<and> eo_kind out = stm_kind s \<and>
      (stm_kind s = EditInsert \<or> eo_affected_rows out = 1))"

lemma apply_statement_reports:
  assumes "apply_statement calls tx owned stmt w = (Inr out, w')"
  shows "reports stmt out"
proof -
  obtain r w1 where run: "call_bind (call_guard calls)
      (\<lambda>_. sc_execute calls tx (stm_sql stmt) (stm_params stmt)) w = (r, w1)"
    by (metis surj_pair)
  show ?thesis
  proof (cases r)
    case (Inl e)
    with run assms show ?thesis by (simp add: apply_statement_def fail_edits_def)
  next
    case (Inr resp)
    with run assms show ?thesis
      by (cases "stm_kind stmt")
         (auto simp: apply_statement_def fail_edits_def Let_def reports_def split: if_splits)
  qed
qed

lemma keeps_statements:
  assumes "isolated_calls committed calls"
  shows "keeps committed (apply_statements calls tx owned stmts applied)"
proof (induction stmts arbitrary: applied)
  case Nil
  then show ?case by (simp add: keeps_def)
next
  case (Cons stmt stmts)
  show ?case
    unfolding keeps_def
  proof
    fix w
    obtain r w1 where run: "apply_statement calls tx owned stmt w = (r, w1)" by (metis surj_pair)
    with keeps_statement [OF assms] have "committed w1 = committed w"
      by (metis keeps_def snd_conv)
    with run Cons.IH show "committed (snd (apply_statements calls tx owned (stmt # stmts) applied w))
        = committed w"
      by (cases r) (simp_all add: keeps_def)
  qed
qed

lemma apply_statements_reports:
  "apply_statements calls tx owned stmts applied w = (Inr outs, w') \<Longrightarrow>
     \<exists>added. outs = applied @ added \<and> list_all2 reports stmts added"
proof (induction stmts arbitrary: applied w)
  case Nil
  then show ?case by simp
next
  case (Cons stmt stmts)
  obtain r w1 where run: "apply_statement calls tx owned stmt w = (r, w1)" by (metis surj_pair)
  with Cons.prems obtain out where r: "r = Inr out"
    and rest: "apply_statements calls tx owned stmts (applied @ [out]) w1 = (Inr outs, w')"
    by (cases r) auto
  from Cons.IH [OF rest] obtain added
    where "outs = (applied @ [out]) @ added" "list_all2 reports stmts added" by blast
  with apply_statement_reports [OF run [unfolded r]] show ?case by auto
qed

lemma keeps_prepare:
  assumes "isolated_calls committed calls"
  shows "keeps committed (prepare_edits printed calls edits expected)"
  unfolding prepare_edits_def
  by (intro keeps_bind keeps_pure keeps_guard [OF assms])
     (use assms in \<open>simp_all add: isolated_calls_def\<close>)

lemma prepare_edits_plan:
  assumes "prepare_edits printed calls edits expected w = (Inr plan, w')"
  shows "\<exists>schema. build_plan printed (sc_engine calls) schema edits = Inr plan"
  using assms
  by (auto simp: prepare_edits_def call_pure_def dest!: call_bind_Inr)

lemma finish_edits_commits:
  assumes iso: "isolated_calls committed calls"
    and run: "finish_edits calls tx owned applied w = (r, w')"
    and changed: "committed w' \<noteq> committed w"
  shows "owned \<and> r = Inr \<lparr>apr_applied = applied, apr_committed = True\<rparr>"
proof -
  have owned: owned using run changed by (auto simp: finish_edits_def call_pure_def split: if_splits)
  have "fst (sc_commit calls tx w) = Inr ()"
  proof (cases "sc_commit calls tx w")
    case (Pair rc w1)
    show ?thesis
    proof (cases rc)
      case (Inl e)
      with Pair run owned have "w' = w1" by (simp add: finish_edits_def call_bind_def)
      with Inl Pair iso changed show ?thesis
        by (simp add: isolated_calls_def) (metis fst_conv snd_conv)
    qed (simp add: Pair)
  qed
  with run owned show ?thesis
    by (cases "sc_commit calls tx w") (simp add: finish_edits_def call_bind_def call_pure_def)
qed

lemma run_plan_commits:
  assumes iso: "isolated_calls committed calls"
    and run: "run_plan calls given plan w = (r, w')"
    and changed: "committed w' \<noteq> committed w"
  shows "\<exists>res. r = Inr res \<and> given = None \<and> apr_committed res
           \<and> list_all2 reports (epl_statements plan) (apr_applied res)"
proof -
  have "keeps committed (open_transaction calls given)"
    using iso by (auto simp: open_transaction_def isolated_calls_def intro!: keeps_bind split: option.split)
  from call_bind_keeps [OF this run [unfolded run_plan_def] changed] obtain tx owned w1
    where tx: "open_transaction calls given w = (Inr (tx, owned), w1)"
      and w1: "committed w1 = committed w"
      and run1: "call_bind (apply_statements calls tx owned (epl_statements plan) [])
          (finish_edits calls tx owned) w1 = (r, w')"
    by (auto split: prod.splits)
  from call_bind_keeps [OF keeps_statements [OF iso] run1] w1 changed obtain applied w2
    where st: "apply_statements calls tx owned (epl_statements plan) [] w1 = (Inr applied, w2)"
      and fin: "finish_edits calls tx owned applied w2 = (r, w')" "committed w2 = committed w"
    by auto
  from finish_edits_commits [OF iso fin(1)] fin(2) changed
  have r: "owned" "r = Inr \<lparr>apr_applied = applied, apr_committed = True\<rparr>" by auto
  then have "given = None"
    using tx by (auto simp: open_transaction_def call_pure_def call_bind_def split: option.splits)
  with r apply_statements_reports [OF st] show ?thesis by auto
qed


text \<open>A database of one bit: the first component is committed, the second the transaction's.\<close>

definition demo_calls :: "(bool \<times> bool, unit) session_calls" where
  "demo_calls = \<lparr>sc_engine = SqlServer,
     sc_authorize = (\<lambda>_. call_pure (Inr ())),
     sc_schema = (\<lambda>_. call_pure (Inr (Inr
       [\<lparr>ct_name = ''db'', ct_schemas = [\<lparr>st_name = ''dbo'', st_objects = [demo_users]\<rparr>]\<rparr>]))),
     sc_plan_json = (\<lambda>_. None), sc_guard = None,
     sc_begin = (\<lambda>_ w. (Inr (), (fst w, fst w))),
     sc_execute = (\<lambda>_ _ _ w. (Inr \<lparr>xr_rows = [], xr_affected_rows = Some 1\<rparr>, (fst w, True))),
     sc_rollback = (\<lambda>_ w. (fst w, fst w)),
     sc_commit = (\<lambda>_ w. (Inr (), (snd w, snd w)))\<rparr>"

lemma demo_calls_isolated: "isolated_calls fst demo_calls"
  by (simp add: isolated_calls_def demo_calls_def keeps_def call_pure_def)

lemma demo_apply:
  "apply_edits_guarded id demo_calls demo_edits None None (False, False)
   = (Inr \<lparr>apr_applied =
        [\<lparr>eo_edit_index = 1, eo_kind = EditDelete, eo_affected_rows = 1, eo_returned = []\<rparr>,
         \<lparr>eo_edit_index = 0, eo_kind = EditInsert, eo_affected_rows = 1, eo_returned = []\<rparr>],
        apr_committed = True\<rparr>, (True, True))"
proof -
  have "build_plan id SqlServer (Inr
       [\<lparr>ct_name = ''db'', ct_schemas = [\<lparr>st_name = ''dbo'', st_objects = [demo_users]\<rparr>]\<rparr>]) demo_edits
      = Inr demo_plan"
    using demo_plan_made
    by (simp add: build_plan_def find_object_def ok_or_def demo_edits_def demo_users_def)
  then show ?thesis
    by (simp add: apply_edits_guarded_def prepare_edits_def run_plan_def finish_edits_def call_bind_def
        call_pure_def call_guard_def reviewed_plan_def open_transaction_def demo_calls_def
        apply_statement_def demo_plan_def)
qed


end
