(* ===== verification/Cursor_Registry.thy ===== *)
theory Cursor_Registry
  imports Tenant_Resources
begin

text \<open>
  The cursor registry of \<^verbatim>\<open>crates/server/src/cursors.rs\<close>: which cursors a session has open, the pump
  task between a driver's pages and their consumer, the tenant bytes retained for pages nobody has
  processed, and the files an evicted cursor's pages are spilled to.

  Tables are maps and their entries locked one at a time, so the registry's calls are atomic here,
  except that opening a cursor evicts first and registers later, two calls that others can come
  between. A pump is cut at its await points: \<open>pump_run\<close> takes it from one to the next, and is
  \<open>None\<close> while it has to wait. A channel is the list of pages in it. Files and the pages' JSON are
  strings of bytes; encoding, the clock and the faults of the file system are arguments.
\<close>

section \<open>State\<close>

record cursor_env =
  ce_page_json :: "page \<Rightarrow> string option"
  ce_json_page :: "string \<Rightarrow> page option"
  ce_io_error :: string   \<comment> \<open>the text of an error of the file system or the JSON decoder\<close>

record cursor_config =
  cc_max_per_session :: nat
  cc_prefetch_pages :: nat
  cc_spill_dir :: "string option"
  cc_spill_min_bytes :: nat
  cc_spill_ttl :: duration

definition cursor_config_default :: cursor_config where
  "cursor_config_default =
     \<lparr>cc_max_per_session = 32, cc_prefetch_pages = 2, cc_spill_dir = None,
      cc_spill_min_bytes = 1024 * 1024, cc_spill_ttl = 600 * 10 ^ 9\<rparr>"

record spill_entry =
  se_session :: string
  se_path :: string
  se_created_at :: instant
  se_read_offset :: nat
  se_total_pages :: nat
  se_pages_read :: nat
  se_guard :: "resource_guard option"

record cursor_retention =
  ct_tenant :: i64
  ct_queued :: "resource_guard list"
  ct_current :: "resource_guard option"

record pump_control =
  pc_cancel :: bool
  pc_cancel_reason :: "driver_error option"
  pc_paused :: bool
  pc_spill_dir :: "string option"
  pc_spill_min_bytes :: nat
  pc_observed :: bool   \<comment> \<open>there is an observer\<close>

text \<open>The control of a pump is shared with its cursor, which names the pump by its index.\<close>

record cursor_state =
  cs_session :: string
  cs_connection :: "string option"
  cs_last_ack :: u64
  cs_pump :: nat

record cursor_registry =
  cr_config :: cursor_config
  cr_entries :: "string \<rightharpoonup> cursor_state"
  cr_per_session :: "string \<rightharpoonup> string list"
  cr_per_connection :: "string \<times> string \<rightharpoonup> string list"
  cr_clock :: u64
  cr_on_evict :: bool   \<comment> \<open>a callback is installed\<close>
  cr_spills :: "string \<rightharpoonup> spill_entry"
  cr_retentions :: "string \<rightharpoonup> cursor_retention"

text \<open>Where a pump waits, with the page it holds or the error it is about to send.\<close>

datatype pump_phase =
    PumpTop
  | PumpHolding page   \<comment> \<open>in the loop that honours \<^verbatim>\<open>pause\<close>\<close>
  | PumpReserving page   \<comment> \<open>for room in the consumer's channel\<close>
  | PumpSpilling driver_error string "page list"   \<comment> \<open>the reason, the directory and the pages\<close>
  | PumpFailing driver_error   \<comment> \<open>for room to report a failure\<close>
  | PumpTerminal driver_error   \<comment> \<open>the same, with a deadline\<close>
  | PumpEnded

text \<open>
  A pump with its two channels. The pages the driver has sent, those the consumer has taken and
  those an observer has seen are recorded for the statements below; nothing depends on them.
\<close>

record pump =
  pu_session :: string
  pu_cursor :: string
  pu_control :: pump_control
  pu_phase :: pump_phase
  pu_driver :: "page list"
  pu_driver_open :: bool
  pu_channel :: "page list"
  pu_capacity :: nat
  pu_receiver :: bool
  pu_supplied :: "page list"
  pu_taken :: "page list"
  pu_seen :: "page list"

text \<open>An opening between its evictions and its registration, with the configuration it read.\<close>

record pending_open =
  ow_config :: cursor_config
  ow_session :: string
  ow_cursor :: string
  ow_connection :: "string option"
  ow_observed :: bool

record cursor_world =
  cw_registry :: cursor_registry
  cw_opening :: "pending_open list"
  cw_manager :: resource_manager
  cw_pumps :: "pump list"
  cw_files :: "string \<rightharpoonup> string"
  cw_callbacks :: "(string \<times> string) list"   \<comment> \<open>calls of the eviction callback\<close>
  cw_held :: "resource_guard list"   \<comment> \<open>guards held outside the registry\<close>

definition cursor_registry_new :: "cursor_config \<Rightarrow> cursor_registry" where
  "cursor_registry_new config =
     \<lparr>cr_config = config, cr_entries = Map.empty, cr_per_session = Map.empty,
      cr_per_connection = Map.empty, cr_clock = 0, cr_on_evict = False,
      cr_spills = Map.empty, cr_retentions = Map.empty\<rparr>"

section \<open>Sizes\<close>

definition approx_value_bytes :: "sql_value \<Rightarrow> nat" where
  "approx_value_bytes v =
     (case v of
        VText s \<Rightarrow> length s
      | VDecimal s \<Rightarrow> length s
      | VBlob bytes \<Rightarrow> length bytes
      | VJson s \<Rightarrow> length s
      | VNative _ type_name display_text \<Rightarrow> length type_name + length display_text
      | _ \<Rightarrow> 16)"

definition approx_row_bytes :: "row \<Rightarrow> nat" where
  "approx_row_bytes r = sum_list (map approx_value_bytes r) + 8"

definition approx_page_bytes :: "page \<Rightarrow> nat" where
  "approx_page_bytes p =
     (case p of
        PageRows rows \<Rightarrow> sum_list (map approx_row_bytes rows)
      | PageNextResult columns \<Rightarrow> sum_list (map (\<lambda>c. length (col_name c) + 64) columns)
      | _ \<Rightarrow> 64)"

definition approx_pages_bytes :: "page list \<Rightarrow> nat" where
  "approx_pages_bytes pages = sum_list (map approx_page_bytes pages)"

definition is_terminal :: "page \<Rightarrow> bool" where
  "is_terminal p \<longleftrightarrow> (case p of PageDone _ _ \<Rightarrow> True | PageError _ \<Rightarrow> True | _ \<Rightarrow> False)"

section \<open>Guards that are dropped\<close>

definition drop_guards :: "resource_guard list \<Rightarrow> resource_manager \<Rightarrow> resource_manager" where
  "drop_guards gs m = foldl (\<lambda>m g. fst (drop_guard m g)) m gs"

definition opt_list :: "'a option \<Rightarrow> 'a list" where
  "opt_list x = (case x of None \<Rightarrow> [] | Some y \<Rightarrow> [y])"

definition retention_guards :: "cursor_retention option \<Rightarrow> resource_guard list" where
  "retention_guards r = (case r of None \<Rightarrow> [] | Some t \<Rightarrow> ct_queued t @ opt_list (ct_current t))"

definition spill_guards :: "spill_entry option \<Rightarrow> resource_guard list" where
  "spill_guards s = (case s of None \<Rightarrow> [] | Some e \<Rightarrow> opt_list (se_guard e))"

text \<open>Insertion into a map drops the value it replaces.\<close>

definition set_retention :: "string \<Rightarrow> cursor_retention option \<Rightarrow> cursor_world \<Rightarrow> cursor_world" where
  "set_retention cursor r w =
     w\<lparr>cw_registry := (cw_registry w)\<lparr>cr_retentions := (cr_retentions (cw_registry w))(cursor := r)\<rparr>,
       cw_manager := drop_guards (retention_guards (cr_retentions (cw_registry w) cursor)) (cw_manager w)\<rparr>"

definition put_retention :: "string \<Rightarrow> cursor_retention \<Rightarrow> cursor_world \<Rightarrow> cursor_world" where
  "put_retention cursor r w =
     w\<lparr>cw_registry := (cw_registry w)\<lparr>cr_retentions := (cr_retentions (cw_registry w))(cursor \<mapsto> r)\<rparr>\<rparr>"

definition set_spill :: "string \<Rightarrow> spill_entry option \<Rightarrow> cursor_world \<Rightarrow> cursor_world" where
  "set_spill cursor s w =
     w\<lparr>cw_registry := (cw_registry w)\<lparr>cr_spills := (cr_spills (cw_registry w))(cursor := s)\<rparr>,
       cw_manager := drop_guards (spill_guards (cr_spills (cw_registry w) cursor)) (cw_manager w)\<rparr>"

section \<open>Cursors\<close>

definition update_pump :: "nat \<Rightarrow> (pump \<Rightarrow> pump) \<Rightarrow> cursor_world \<Rightarrow> cursor_world" where
  "update_pump i f w =
     (if i < length (cw_pumps w) then w\<lparr>cw_pumps := (cw_pumps w)[i := f (cw_pumps w ! i)]\<rparr> else w)"

definition update_control :: "(pump_control \<Rightarrow> pump_control) \<Rightarrow> pump \<Rightarrow> pump" where
  "update_control f pu = pu\<lparr>pu_control := f (pu_control pu)\<rparr>"

definition next_seq :: "cursor_registry \<Rightarrow> u64 \<times> cursor_registry" where
  "next_seq r = (cr_clock r, r\<lparr>cr_clock := cr_clock r + 1\<rparr>)"

text \<open>The two lists of identifiers, without a cursor; a connection's empty list goes away.\<close>

definition remove_session_cursor :: "string \<Rightarrow> string \<Rightarrow> cursor_registry \<Rightarrow> cursor_registry" where
  "remove_session_cursor session cursor r =
     (case cr_per_session r session of
        None \<Rightarrow> r
      | Some ids \<Rightarrow> r\<lparr>cr_per_session := (cr_per_session r)(session \<mapsto> filter (\<lambda>c. c \<noteq> cursor) ids)\<rparr>)"

definition remove_connection_cursor ::
  "string \<Rightarrow> string \<Rightarrow> string \<Rightarrow> cursor_registry \<Rightarrow> cursor_registry" where
  "remove_connection_cursor session connection cursor r =
     (case cr_per_connection r (session, connection) of
        None \<Rightarrow> r
      | Some ids \<Rightarrow>
          (let ids = filter (\<lambda>c. c \<noteq> cursor) ids
           in r\<lparr>cr_per_connection := (cr_per_connection r)
                  ((session, connection) := (if ids = [] then None else Some ids))\<rparr>))"

definition unlist_cursor :: "string \<Rightarrow> string \<Rightarrow> string option \<Rightarrow> cursor_registry \<Rightarrow> cursor_registry" where
  "unlist_cursor cursor session connection r =
     (let r = remove_session_cursor session cursor r
      in case connection of None \<Rightarrow> r | Some c \<Rightarrow> remove_connection_cursor session c cursor r)"

definition forget_entry :: "string \<Rightarrow> cursor_registry \<Rightarrow> cursor_registry" where
  "forget_entry cursor r =
     (case cr_entries r cursor of
        None \<Rightarrow> r
      | Some state \<Rightarrow> unlist_cursor cursor (cs_session state) (cs_connection state)
          (r\<lparr>cr_entries := (cr_entries r)(cursor := None)\<rparr>))"

definition on_registry :: "(cursor_registry \<Rightarrow> cursor_registry) \<Rightarrow> cursor_world \<Rightarrow> cursor_world" where
  "on_registry f w = w\<lparr>cw_registry := f (cw_registry w)\<rparr>"

definition call_on_evict :: "string \<Rightarrow> string \<Rightarrow> cursor_world \<Rightarrow> cursor_world" where
  "call_on_evict session cursor w =
     (if cr_on_evict (cw_registry w) then w\<lparr>cw_callbacks := cw_callbacks w @ [(session, cursor)]\<rparr> else w)"

definition evicted :: driver_error where
  "evicted = driver_error_new CursorEvicted ''cursor evicted by per-session cap''"

definition evict_cursor :: "string \<Rightarrow> string \<Rightarrow> cursor_world \<Rightarrow> cursor_world" where
  "evict_cursor session cursor w =
     (let w = (case cr_entries (cw_registry w) cursor of
                 None \<Rightarrow> w
               | Some state \<Rightarrow> update_pump (cs_pump state)
                   (update_control (\<lambda>c. c\<lparr>pc_cancel_reason := Some evicted, pc_cancel := True\<rparr>)) w)
      in on_registry (forget_entry cursor) (call_on_evict session cursor w))"

text \<open>Least recently acknowledged first; enough of them that one more cursor fits.\<close>

definition select_victims :: "string \<Rightarrow> nat \<Rightarrow> cursor_registry \<Rightarrow> string list" where
  "select_victims session cap r =
     (case cr_per_session r session of
        None \<Rightarrow> []
      | Some ids \<Rightarrow>
          (if length ids < cap then []
           else
             (let ranked = sort_key snd (List.map_filter (\<lambda>c.
                    map_option (\<lambda>s. (c, cs_last_ack s)) (cr_entries r c)) ids)
              in map fst (take (length ranked - (cap - 1)) ranked))))"

definition touch_cursor :: "string \<Rightarrow> cursor_world \<Rightarrow> cursor_world" where
  "touch_cursor cursor =
     on_registry (\<lambda>r. case cr_entries r cursor of
       None \<Rightarrow> r
     | Some state \<Rightarrow>
         (case next_seq r of (seq, r) \<Rightarrow>
            r\<lparr>cr_entries := (cr_entries r)(cursor \<mapsto> state\<lparr>cs_last_ack := seq\<rparr>)\<rparr>))"

definition closed_by_registry :: driver_error where
  "closed_by_registry = driver_error_new QueryCanceled ''cursor closed by registry''"

definition remove_cursor :: "string \<Rightarrow> cursor_world \<Rightarrow> cursor_world" where
  "remove_cursor cursor w =
     (let w = set_retention cursor None w
      in case cr_entries (cw_registry w) cursor of
           None \<Rightarrow> w
         | Some state \<Rightarrow>
             on_registry (forget_entry cursor)
               (update_pump (cs_pump state) (update_control (\<lambda>c.
                  c\<lparr>pc_cancel_reason := (case pc_cancel_reason c of
                        None \<Rightarrow> Some closed_by_registry | Some e \<Rightarrow> Some e),
                    pc_cancel := True\<rparr>)) w))"

definition pause :: "bool \<Rightarrow> string \<Rightarrow> cursor_world \<Rightarrow> cursor_world" where
  "pause paused cursor w =
     (case cr_entries (cw_registry w) cursor of
        None \<Rightarrow> w
      | Some state \<Rightarrow> update_pump (cs_pump state) (update_control (\<lambda>c. c\<lparr>pc_paused := paused\<rparr>)) w)"

definition connection_cursors :: "string \<Rightarrow> string \<Rightarrow> cursor_registry \<Rightarrow> string list" where
  "connection_cursors session connection r =
     (case cr_per_connection r (session, connection) of None \<Rightarrow> [] | Some ids \<Rightarrow> ids)"

definition session_cursor_count :: "string \<Rightarrow> cursor_registry \<Rightarrow> nat" where
  "session_cursor_count session r =
     (case cr_per_session r session of None \<Rightarrow> 0 | Some ids \<Rightarrow> length ids)"

section \<open>Opening\<close>

text \<open>
  \<^verbatim>\<open>wrap_for_connection_observed\<close>, the call the session store makes: \<^verbatim>\<open>wrap_inner\<close> up to its last
  eviction, with the retention recorded first and taken back when opening fails.
\<close>

definition open_begin ::
  "string \<Rightarrow> string \<Rightarrow> i64 option \<Rightarrow> cursor_world \<Rightarrow> (driver_error, unit) result \<times> cursor_world" where
  "open_begin session cursor tenant w =
     (let w = (case tenant of
                 None \<Rightarrow> w
               | Some t \<Rightarrow> set_retention cursor (Some \<lparr>ct_tenant = t, ct_queued = [], ct_current = None\<rparr>) w);
          cap = cc_max_per_session (cr_config (cw_registry w))
      in if cap = 0
         then (Inl (driver_error_new CursorLimitReached ''per-session cursor cap is 0''),
               set_retention cursor None w)
         else (Inr (), foldl (\<lambda>w c. evict_cursor session c w) w (select_victims session cap (cw_registry w))))"

definition push_listed :: "'k \<Rightarrow> string \<Rightarrow> ('k \<rightharpoonup> string list) \<Rightarrow> ('k \<rightharpoonup> string list)" where
  "push_listed k cursor m = m(k \<mapsto> (case m k of None \<Rightarrow> [cursor] | Some ids \<Rightarrow> ids @ [cursor]))"

definition register_cursor ::
  "string \<Rightarrow> string \<Rightarrow> string option \<Rightarrow> nat \<Rightarrow> cursor_registry \<Rightarrow> cursor_registry" where
  "register_cursor session cursor connection i r =
     (case next_seq r of (seq, r) \<Rightarrow>
        r\<lparr>cr_entries := (cr_entries r)(cursor \<mapsto>
              \<lparr>cs_session = session, cs_connection = connection, cs_last_ack = seq, cs_pump = i\<rparr>),
          cr_per_session := push_listed session cursor (cr_per_session r),
          cr_per_connection := (case connection of
              None \<Rightarrow> cr_per_connection r
            | Some c \<Rightarrow> push_listed (session, c) cursor (cr_per_connection r))\<rparr>)"

definition pump_new :: "cursor_config \<Rightarrow> string \<Rightarrow> string \<Rightarrow> bool \<Rightarrow> pump" where
  "pump_new config session cursor observed =
     \<lparr>pu_session = session, pu_cursor = cursor,
      pu_control = \<lparr>pc_cancel = False, pc_cancel_reason = None, pc_paused = False,
        pc_spill_dir = cc_spill_dir config, pc_spill_min_bytes = cc_spill_min_bytes config,
        pc_observed = observed\<rparr>,
      pu_phase = PumpTop, pu_driver = [], pu_driver_open = True, pu_channel = [],
      pu_capacity = max 1 (cc_prefetch_pages config), pu_receiver = True,
      pu_supplied = [], pu_taken = [], pu_seen = []\<rparr>"

text \<open>The rest of \<^verbatim>\<open>wrap_inner\<close>, with the configuration read at its start.\<close>

definition open_finish ::
  "cursor_config \<Rightarrow> string \<Rightarrow> string \<Rightarrow> string option \<Rightarrow> bool \<Rightarrow> cursor_world
     \<Rightarrow> (driver_error, nat) result \<times> cursor_world" where
  "open_finish config session cursor connection observed w =
     (if cr_entries (cw_registry w) cursor \<noteq> None
      then (Inl (driver_error_new DriverInternal ''cursor id already registered''),
            set_retention cursor None w)
      else
        (let i = length (cw_pumps w)
         in (Inr i, on_registry (register_cursor session cursor connection i)
                      (w\<lparr>cw_pumps := cw_pumps w @ [pump_new config session cursor observed]\<rparr>))))"

text \<open>The whole call, when no other comes between.\<close>

definition wrap ::
  "string \<Rightarrow> string \<Rightarrow> string option \<Rightarrow> i64 option \<Rightarrow> bool \<Rightarrow> cursor_world
     \<Rightarrow> (driver_error, nat) result \<times> cursor_world" where
  "wrap session cursor connection tenant observed w =
     (case open_begin session cursor tenant w of
        (Inl e, w') \<Rightarrow> (Inl e, w')
      | (Inr _, w') \<Rightarrow> open_finish (cr_config (cw_registry w)) session cursor connection observed w')"

section \<open>Spill files\<close>

text \<open>\<^verbatim>\<open>u32::to_be_bytes\<close> and back; the length of a page is cast to a \<^verbatim>\<open>u32\<close>.\<close>

definition be_bytes :: "u32 \<Rightarrow> string" where
  "be_bytes n = map (\<lambda>k. char_of (unat n div 256 ^ k mod 256)) [3, 2, 1, 0]"

definition be_value :: "string \<Rightarrow> nat" where
  "be_value bytes = foldl (\<lambda>n c. 256 * n + of_char c) 0 bytes"

text \<open>What is written to the file, and whether that is all of it.\<close>

fun spill_bytes :: "cursor_env \<Rightarrow> page list \<Rightarrow> string \<times> bool" where
  "spill_bytes env [] = ([], True)"
| "spill_bytes env (p # ps) =
     (case ce_page_json env p of
        None \<Rightarrow> ([], False)
      | Some bytes \<Rightarrow>
          (case spill_bytes env ps of
             (rest, ok) \<Rightarrow> (be_bytes (of_nat (length bytes)) @ bytes @ rest, ok)))"

definition spill_path :: "string \<Rightarrow> string \<Rightarrow> string" where
  "spill_path dir cursor = dir @ ''/sift-cursor-'' @ cursor @ ''.bin''"

definition resume_url :: "string \<Rightarrow> string" where
  "resume_url cursor = ''/v1/cursors/'' @ cursor @ ''/pages''"

text \<open>
  The pages from an offset on, at most \<open>want\<close> of them: a missing length is the end, a missing or
  undecodable page an error.
\<close>

fun read_pages ::
  "cursor_env \<Rightarrow> string \<Rightarrow> nat \<Rightarrow> nat \<Rightarrow> page list \<times> nat \<times> nat \<Rightarrow> (driver_error, page list \<times> nat \<times> nat) result" where
  "read_pages env bytes all_pages 0 s = Inr s"
| "read_pages env bytes all_pages (Suc want) (pages, offset, pages_read) =
     (if all_pages \<le> pages_read \<or> length bytes < offset + 4 then Inr (pages, offset, pages_read)
      else
        (let len = be_value (take 4 (drop offset bytes))
         in if length bytes < offset + 4 + len
            then Inl (driver_error_new DriverInternal (''spill read: '' @ ce_io_error env))
            else case ce_json_page env (take len (drop (offset + 4) bytes)) of
                   None \<Rightarrow> Inl (driver_error_new DriverInternal (''spill decode: '' @ ce_io_error env))
                 | Some p \<Rightarrow> read_pages env bytes all_pages want (pages @ [p], offset + 4 + len, pages_read + 1)))"

definition drop_spill :: "string \<Rightarrow> cursor_world \<Rightarrow> cursor_world" where
  "drop_spill cursor w =
     (case cr_spills (cw_registry w) cursor of
        None \<Rightarrow> w
      | Some e \<Rightarrow> set_spill cursor None (w\<lparr>cw_files := (cw_files w)(se_path e := None)\<rparr>))"

definition on_spill :: "(spill_entry \<Rightarrow> spill_entry) \<Rightarrow> string \<Rightarrow> cursor_world \<Rightarrow> cursor_world" where
  "on_spill f cursor =
     on_registry (\<lambda>r. r\<lparr>cr_spills := (cr_spills r)(cursor := map_option f (cr_spills r cursor))\<rparr>)"

definition read_spill_pages ::
  "cursor_env \<Rightarrow> string \<Rightarrow> nat \<Rightarrow> cursor_world \<Rightarrow> (driver_error, page list \<times> bool) result \<times> cursor_world" where
  "read_spill_pages env cursor n w =
     (case cr_spills (cw_registry w) cursor of
        None \<Rightarrow> (Inl (driver_error_new CursorNotFound ''no spill for cursor''), w)
      | Some e \<Rightarrow>
          (case cw_files w (se_path e) of
             None \<Rightarrow> (Inl (driver_error_new DriverInternal (''open spill file: '' @ ce_io_error env)), w)
           | Some bytes \<Rightarrow>
               (case read_pages env bytes (se_total_pages e) (max n 1) ([], se_read_offset e, se_pages_read e) of
                  Inl error \<Rightarrow> (Inl error, w)
                | Inr (pages, offset, pages_read) \<Rightarrow>
                    (let finished = (se_total_pages e \<le> pages_read)
                     in (Inr (pages, finished),
                         if finished then drop_spill cursor w
                         else on_spill (\<lambda>e. e\<lparr>se_read_offset := offset, se_pages_read := pages_read\<rparr>) cursor w)))))"

definition spill_expired :: "instant \<Rightarrow> duration \<Rightarrow> spill_entry option \<Rightarrow> bool" where
  "spill_expired now ttl s =
     (case s of None \<Rightarrow> False | Some e \<Rightarrow> ttl \<le> duration_since now (se_created_at e))"

text \<open>The reaper gets the cursors of the table in some order.\<close>

definition reap_expired_spills :: "instant \<Rightarrow> string list \<Rightarrow> cursor_world \<Rightarrow> cursor_world" where
  "reap_expired_spills now cursors w =
     foldl (\<lambda>w c. drop_spill c w) w
       (filter (\<lambda>c. spill_expired now (cc_spill_ttl (cr_config (cw_registry w))) (cr_spills (cw_registry w) c))
          cursors)"

section \<open>The pump\<close>

text \<open>\<^verbatim>\<open>emit_terminal\<close> until it waits for the file or for the consumer.\<close>

definition begin_terminal :: "page list \<Rightarrow> pump \<Rightarrow> pump" where
  "begin_terminal spillover pu =
     (let control = pu_control pu;
          reason = (case pc_cancel_reason control of
                      Some e \<Rightarrow> e | None \<Rightarrow> driver_error_new QueryCanceled ''cursor closed'')
      in pu\<lparr>pu_control := control\<lparr>pc_cancel_reason := None\<rparr>,
            pu_phase :=
              (case pc_spill_dir control of
                 Some dir \<Rightarrow>
                   (if de_code reason = CursorEvicted \<and> pc_spill_min_bytes control \<le> approx_pages_bytes spillover
                      \<and> spillover \<noteq> []
                    then PumpSpilling reason dir spillover else PumpTerminal reason)
               | None \<Rightarrow> PumpTerminal reason)\<rparr>)"

text \<open>What a failing write leaves behind, or that the size of the file cannot be read.\<close>

datatype spill_fault = SpillFine | WriteFails "string option" | SizeUnknown

definition keep_spill ::
  "nat \<Rightarrow> driver_error \<Rightarrow> string \<Rightarrow> instant \<Rightarrow> nat \<Rightarrow> resource_guard option \<Rightarrow> cursor_world \<Rightarrow> cursor_world" where
  "keep_spill i reason path now pages guard w =
     (let pu = cw_pumps w ! i
      in update_pump i (\<lambda>pu. pu\<lparr>pu_phase := PumpTerminal (reason\<lparr>de_resume_url := Some (resume_url (pu_cursor pu))\<rparr>)\<rparr>)
           (set_spill (pu_cursor pu)
             (Some \<lparr>se_session = pu_session pu, se_path = path, se_created_at = now, se_read_offset = 0,
                    se_total_pages = pages, se_pages_read = 0, se_guard = guard\<rparr>) w))"

text \<open>The write, the guard for the file's bytes (\<^verbatim>\<open>spill_retention_guard\<close>) and the entry.\<close>

definition finish_spill ::
  "cursor_env \<Rightarrow> instant \<Rightarrow> spill_fault \<Rightarrow> nat \<Rightarrow> driver_error \<Rightarrow> string \<Rightarrow> page list \<Rightarrow> cursor_world \<Rightarrow> cursor_world" where
  "finish_spill env now fault i reason dir pages w =
     (let path = spill_path dir (pu_cursor (cw_pumps w ! i));
          give_up = update_pump i (\<lambda>pu. pu\<lparr>pu_phase := PumpTerminal reason\<rparr>)
      in case (fault, spill_bytes env pages) of
           (WriteFails partial, _) \<Rightarrow> give_up (w\<lparr>cw_files := (cw_files w)(path := partial)\<rparr>)
         | (_, bytes, False) \<Rightarrow> give_up (w\<lparr>cw_files := (cw_files w)(path \<mapsto> bytes)\<rparr>)
         | (_, bytes, True) \<Rightarrow>
             (let w = w\<lparr>cw_files := (cw_files w)(path \<mapsto> bytes)\<rparr>
              in case cr_retentions (cw_registry w) (pu_cursor (cw_pumps w ! i)) of
                   None \<Rightarrow> keep_spill i reason path now (length pages) None w
                 | Some t \<Rightarrow>
                     (if fault = SizeUnknown then give_up w
                      else case reserve (cw_manager w) (ct_tenant t) RetainedResultBytes (of_nat (length bytes)) of
                             (m, Inl _) \<Rightarrow>
                               give_up (w\<lparr>cw_manager := m, cw_files := (cw_files w)(path := None)\<rparr>)
                           | (m, Inr g) \<Rightarrow>
                               keep_spill i reason path now (length pages) (Some g) (w\<lparr>cw_manager := m\<rparr>))))"

definition set_phase :: "pump_phase \<Rightarrow> pump \<Rightarrow> pump" where
  "set_phase phase pu = pu\<lparr>pu_phase := phase\<rparr>"

definition push_page :: "page \<Rightarrow> pump \<Rightarrow> pump" where
  "push_page p pu = pu\<lparr>pu_channel := pu_channel pu @ [p]\<rparr>"

text \<open>
  With room in the channel: the tenant's bytes are reserved (\<^verbatim>\<open>retain_page\<close>), the observer called
  and the page sent. A refusal ends the pump with an error in place of the page.
\<close>

definition send_page :: "page \<Rightarrow> pump \<Rightarrow> pump" where
  "send_page p pu =
     (let pu = (if pc_observed (pu_control pu) then pu\<lparr>pu_seen := pu_seen pu @ [p]\<rparr> else pu)
      in set_phase (if is_terminal p then PumpEnded else PumpTop) (push_page p pu))"

definition retained_exhausted :: driver_error where
  "retained_exhausted =
     driver_error_new CodeTenantResourceExhausted ''tenant retained-result byte limit reached''"

definition deliver :: "nat \<Rightarrow> page \<Rightarrow> cursor_world \<Rightarrow> cursor_world" where
  "deliver i p w =
     (let pu = cw_pumps w ! i
      in case cr_retentions (cw_registry w) (pu_cursor pu) of
           None \<Rightarrow> update_pump i (send_page p) w
         | Some t \<Rightarrow>
             (case reserve (cw_manager w) (ct_tenant t) RetainedResultBytes (of_nat (approx_page_bytes p)) of
                (m, Inl _) \<Rightarrow>
                  call_on_evict (pu_session pu) (pu_cursor pu)
                    (update_pump i (set_phase PumpEnded \<circ> push_page (PageError retained_exhausted))
                      (w\<lparr>cw_manager := m\<rparr>))
              | (m, Inr g) \<Rightarrow>
                  update_pump i (send_page p)
                    (put_retention (pu_cursor pu) (t\<lparr>ct_queued := ct_queued t @ [g]\<rparr>) (w\<lparr>cw_manager := m\<rparr>))))"

definition stream_dropped :: driver_error where
  "stream_dropped = driver_error_new DriverInternal ''driver dropped cursor stream without terminal page''"

definition send_error :: "driver_error \<Rightarrow> pump \<Rightarrow> pump option" where
  "send_error e pu =
     (if \<not> pu_receiver pu then Some (set_phase PumpEnded pu)
      else if length (pu_channel pu) < pu_capacity pu
      then Some (set_phase PumpEnded (push_page (PageError e) pu))
      else None)"

text \<open>
  A pump from one await point to the next. The two notifications wake it but decide nothing: a
  pump that is woken looks at the flags again. \<open>late\<close> is the deadline of a terminal error.
\<close>

definition pump_run ::
  "cursor_env \<Rightarrow> instant \<Rightarrow> spill_fault \<Rightarrow> bool \<Rightarrow> nat \<Rightarrow> cursor_world \<Rightarrow> cursor_world option" where
  "pump_run env now fault late i w =
     (if length (cw_pumps w) \<le> i then None
      else
        (let pu = cw_pumps w ! i; control = pu_control pu
         in case pu_phase pu of
              PumpTop \<Rightarrow>
                (if pc_cancel control then Some (update_pump i (begin_terminal []) w)
                 else case pu_driver pu of
                        p # ps \<Rightarrow> Some (update_pump i (\<lambda>pu. pu\<lparr>pu_driver := ps, pu_phase := PumpHolding p\<rparr>) w)
                      | [] \<Rightarrow> if pu_driver_open pu then None
                              else Some (update_pump i (set_phase (PumpFailing stream_dropped)) w))
            | PumpHolding p \<Rightarrow>
                (if pc_cancel control then Some (update_pump i (begin_terminal [p]) w)
                 else if pc_paused control then None
                 else Some (update_pump i (set_phase (PumpReserving p)) w))
            | PumpReserving p \<Rightarrow>
                (if pc_cancel control then Some (update_pump i (begin_terminal [p]) w)
                 else if \<not> pu_receiver pu then Some (update_pump i (set_phase PumpEnded) w)
                 else if length (pu_channel pu) < pu_capacity pu then Some (deliver i p w)
                 else None)
            | PumpSpilling reason dir pages \<Rightarrow> Some (finish_spill env now fault i reason dir pages w)
            | PumpFailing e \<Rightarrow> map_option (\<lambda>pu'. update_pump i (\<lambda>_. pu') w) (send_error e pu)
            | PumpTerminal e \<Rightarrow>
                (if late then Some (update_pump i (set_phase PumpEnded) w)
                 else map_option (\<lambda>pu'. update_pump i (\<lambda>_. pu') w) (send_error e pu))
            | PumpEnded \<Rightarrow> None))"

text \<open>
  A panic of the observer, between the reservation and the send: the supervisor drops the cursor
  and reports the failure.
\<close>

definition observer_panics :: "nat \<Rightarrow> cursor_world \<Rightarrow> cursor_world option" where
  "observer_panics i w =
     (if length (cw_pumps w) \<le> i then None
      else
        (let pu = cw_pumps w ! i;
             failed = on_registry (\<lambda>r. unlist_cursor (pu_cursor pu) (pu_session pu)
                 (Option.bind (cr_entries r (pu_cursor pu)) cs_connection)
                 (r\<lparr>cr_entries := (cr_entries r)(pu_cursor pu := None)\<rparr>))
               \<circ> update_pump i (set_phase (PumpFailing (driver_error_new DriverInternal ''cursor pump task panicked'')))
         in case pu_phase pu of
              PumpReserving p \<Rightarrow>
                (if pc_cancel (pu_control pu) \<or> \<not> pu_receiver pu \<or> pu_capacity pu \<le> length (pu_channel pu)
                   \<or> \<not> pc_observed (pu_control pu)
                 then None
                 else case cr_retentions (cw_registry w) (pu_cursor pu) of
                        None \<Rightarrow> Some (failed w)
                      | Some t \<Rightarrow>
                          (case reserve (cw_manager w) (ct_tenant t) RetainedResultBytes (of_nat (approx_page_bytes p)) of
                             (m, Inl _) \<Rightarrow> None
                           | (m, Inr g) \<Rightarrow> Some (failed (put_retention (pu_cursor pu)
                               (t\<lparr>ct_queued := ct_queued t @ [g]\<rparr>) (w\<lparr>cw_manager := m\<rparr>)))))
            | _ \<Rightarrow> None))"

section \<open>Driver and consumer\<close>

definition driver_send :: "page \<Rightarrow> pump \<Rightarrow> pump option" where
  "driver_send p pu =
     (if pu_driver_open pu \<and> pu_phase pu \<noteq> PumpEnded
      then Some (pu\<lparr>pu_driver := pu_driver pu @ [p], pu_supplied := pu_supplied pu @ [p]\<rparr>) else None)"

definition driver_close :: "pump \<Rightarrow> pump option" where
  "driver_close pu = Some (pu\<lparr>pu_driver_open := False\<rparr>)"

definition consumer_recv :: "pump \<Rightarrow> pump option" where
  "consumer_recv pu =
     (case pu_channel pu of
        [] \<Rightarrow> None
      | p # ps \<Rightarrow> Some (pu\<lparr>pu_channel := ps, pu_taken := pu_taken pu @ [p]\<rparr>))"

text \<open>A dropped receiver drops the pages in its channel.\<close>

definition consumer_drop :: "pump \<Rightarrow> pump option" where
  "consumer_drop pu = Some (pu\<lparr>pu_receiver := False, pu_channel := []\<rparr>)"

text \<open>The previous page's guard is dropped where the next one takes its place.\<close>

definition page_received :: "string \<Rightarrow> cursor_world \<Rightarrow> cursor_world" where
  "page_received cursor w =
     (case cr_retentions (cw_registry w) cursor of
        None \<Rightarrow> w
      | Some t \<Rightarrow>
          put_retention cursor
            (case ct_queued t of
               [] \<Rightarrow> t\<lparr>ct_current := None\<rparr>
             | g # gs \<Rightarrow> t\<lparr>ct_queued := gs, ct_current := Some g\<rparr>)
            (w\<lparr>cw_manager := drop_guards (opt_list (ct_current t)) (cw_manager w)\<rparr>))"

definition page_processed :: "string \<Rightarrow> cursor_world \<Rightarrow> cursor_world" where
  "page_processed cursor w =
     (case cr_retentions (cw_registry w) cursor of
        None \<Rightarrow> w
      | Some t \<Rightarrow>
          put_retention cursor (t\<lparr>ct_current := None\<rparr>)
            (w\<lparr>cw_manager := drop_guards (opt_list (ct_current t)) (cw_manager w)\<rparr>))"

text \<open>The guard goes to the caller.\<close>

definition take_page_retention :: "string \<Rightarrow> cursor_world \<Rightarrow> cursor_world" where
  "take_page_retention cursor w =
     (case cr_retentions (cw_registry w) cursor of
        None \<Rightarrow> w
      | Some t \<Rightarrow>
          put_retention cursor (t\<lparr>ct_current := None\<rparr>)
            (w\<lparr>cw_held := cw_held w @ opt_list (ct_current t)\<rparr>))"

text \<open>A caller's own reservation of retained bytes, and the end of a guard it holds.\<close>

definition reserve_held :: "i64 \<Rightarrow> tenant_resource \<Rightarrow> u64 \<Rightarrow> cursor_world \<Rightarrow> cursor_world" where
  "reserve_held tenant resource amount w =
     (case reserve (cw_manager w) tenant resource amount of
        (m, Inl _) \<Rightarrow> w\<lparr>cw_manager := m\<rparr>
      | (m, Inr g) \<Rightarrow> w\<lparr>cw_manager := m, cw_held := cw_held w @ [g]\<rparr>)"

definition drop_held :: "nat \<Rightarrow> cursor_world \<Rightarrow> cursor_world option" where
  "drop_held k w =
     (if k < length (cw_held w)
      then Some (w\<lparr>cw_manager := drop_guards [cw_held w ! k] (cw_manager w),
                   cw_held := take k (cw_held w) @ drop (Suc k) (cw_held w)\<rparr>)
      else None)"

record spill_info =
  si_session :: string
  si_total_pages :: nat
  si_pages_read :: nat
  si_expires_in :: duration

definition spill_info_of :: "instant \<Rightarrow> string \<Rightarrow> cursor_registry \<Rightarrow> spill_info option" where
  "spill_info_of now cursor r =
     map_option (\<lambda>e. \<lparr>si_session = se_session e, si_total_pages = se_total_pages e,
         si_pages_read = se_pages_read e,
         si_expires_in = cc_spill_ttl (cr_config r) - duration_since now (se_created_at e)\<rparr>)
       (cr_spills r cursor)"

definition set_config :: "cursor_config \<Rightarrow> cursor_registry \<Rightarrow> cursor_registry" where
  "set_config config r = r\<lparr>cr_config := config\<rparr>"

definition set_on_evict :: "cursor_registry \<Rightarrow> cursor_registry" where
  "set_on_evict r = r\<lparr>cr_on_evict := True\<rparr>"

section \<open>The registry as a transition system\<close>

text \<open>
  What a step may be: a call of the registry, a pump's next stretch, or a move of a driver or a
  consumer. An operation that would wait is \<open>None\<close>.
\<close>

datatype cursor_op =
    OpenBegin string string "string option" "i64 option" bool
  | OpenFinish nat
  | Touch string
  | RemoveCursor string
  | SetPaused bool string
  | PageReceived string
  | PageProcessed string
  | TakeRetention string
  | ReadSpill string nat
  | DropSpill string
  | ReapSpills instant "string list"
  | SetConfig cursor_config
  | SetOnEvict
  | DriverSends nat page
  | DriverCloses nat
  | ConsumerReceives nat
  | ConsumerDrops nat
  | PumpRuns instant spill_fault bool nat
  | ObserverPanics nat
  | ReserveHeld i64 tenant_resource u64
  | DropHeld nat

definition move_pump :: "nat \<Rightarrow> (pump \<Rightarrow> pump option) \<Rightarrow> cursor_world \<Rightarrow> cursor_world option" where
  "move_pump i f w =
     (if i < length (cw_pumps w)
      then map_option (\<lambda>pu. w\<lparr>cw_pumps := (cw_pumps w)[i := pu]\<rparr>) (f (cw_pumps w ! i)) else None)"

definition begin_opening ::
  "string \<Rightarrow> string \<Rightarrow> string option \<Rightarrow> i64 option \<Rightarrow> bool \<Rightarrow> cursor_world \<Rightarrow> cursor_world" where
  "begin_opening session cursor connection tenant observed w =
     (case open_begin session cursor tenant w of
        (Inl _, w') \<Rightarrow> w'
      | (Inr _, w') \<Rightarrow>
          w'\<lparr>cw_opening := cw_opening w' @
            [\<lparr>ow_config = cr_config (cw_registry w), ow_session = session, ow_cursor = cursor,
              ow_connection = connection, ow_observed = observed\<rparr>]\<rparr>)"

definition finish_opening :: "nat \<Rightarrow> cursor_world \<Rightarrow> cursor_world option" where
  "finish_opening k w =
     (if k < length (cw_opening w)
      then
        (let ow = cw_opening w ! k
         in Some (snd (open_finish (ow_config ow) (ow_session ow) (ow_cursor ow) (ow_connection ow)
              (ow_observed ow)
              (w\<lparr>cw_opening := take k (cw_opening w) @ drop (Suc k) (cw_opening w)\<rparr>))))
      else None)"

fun perform :: "cursor_env \<Rightarrow> cursor_op \<Rightarrow> cursor_world \<Rightarrow> cursor_world option" where
  "perform env (OpenBegin session cursor connection tenant observed) w =
     Some (begin_opening session cursor connection tenant observed w)"
| "perform env (OpenFinish k) w = finish_opening k w"
| "perform env (Touch c) w = Some (touch_cursor c w)"
| "perform env (RemoveCursor c) w = Some (remove_cursor c w)"
| "perform env (SetPaused b c) w = Some (pause b c w)"
| "perform env (PageReceived c) w = Some (page_received c w)"
| "perform env (PageProcessed c) w = Some (page_processed c w)"
| "perform env (TakeRetention c) w = Some (take_page_retention c w)"
| "perform env (ReadSpill c n) w = Some (snd (read_spill_pages env c n w))"
| "perform env (DropSpill c) w = Some (drop_spill c w)"
| "perform env (ReapSpills now cs) w = Some (reap_expired_spills now cs w)"
| "perform env (SetConfig config) w = Some (on_registry (set_config config) w)"
| "perform env SetOnEvict w = Some (on_registry set_on_evict w)"
| "perform env (DriverSends i p) w = move_pump i (driver_send p) w"
| "perform env (DriverCloses i) w = move_pump i driver_close w"
| "perform env (ConsumerReceives i) w = move_pump i consumer_recv w"
| "perform env (ConsumerDrops i) w = move_pump i consumer_drop w"
| "perform env (PumpRuns now fault late i) w = pump_run env now fault late i w"
| "perform env (ObserverPanics i) w = observer_panics i w"
| "perform env (ReserveHeld t r n) w = Some (reserve_held t r n w)"
| "perform env (DropHeld k) w = drop_held k w"

inductive cursor_steps :: "cursor_env \<Rightarrow> cursor_world \<Rightarrow> cursor_op list \<Rightarrow> cursor_world \<Rightarrow> bool"
  for env w where
  steps_none: "cursor_steps env w [] w"
| steps_more: "cursor_steps env w ops w' \<Longrightarrow> perform env op w' = Some w''
     \<Longrightarrow> cursor_steps env w (ops @ [op]) w''"

text \<open>Nothing open, nothing retained, no file.\<close>

definition cursor_world_new :: "cursor_config \<Rightarrow> resource_manager \<Rightarrow> cursor_world" where
  "cursor_world_new config m =
     \<lparr>cw_registry = cursor_registry_new config, cw_opening = [], cw_manager = m, cw_pumps = [],
      cw_files = Map.empty, cw_callbacks = [], cw_held = []\<rparr>"

end
