(* ===== verification/Cursor_Delivery.thy ===== *)
theory Cursor_Delivery
  imports Cursor_Registry "HOL-Library.Sublist"
begin

text \<open>
  What a consumer gets from its cursor, whatever the registry, the driver, other pumps and other
  consumers do in between.
\<close>

section \<open>The pumps of a world\<close>

lemma pumps_frame [simp]:
  "cw_pumps (set_retention c r w) = cw_pumps w"
  "cw_pumps (put_retention c t w) = cw_pumps w"
  "cw_pumps (set_spill c s w) = cw_pumps w"
  "cw_pumps (on_registry g w) = cw_pumps w"
  "cw_pumps (call_on_evict x y w) = cw_pumps w"
  by (simp_all add: set_retention_def put_retention_def set_spill_def on_registry_def call_on_evict_def)

lemma pumps_frame_spill [simp]:
  "cw_pumps (drop_spill c w) = cw_pumps w"
  "cw_pumps (on_spill f c w) = cw_pumps w"
  by (simp_all add: drop_spill_def on_spill_def split: option.splits)

lemma pumps_reap [simp]: "cw_pumps (reap_expired_spills now cs w) = cw_pumps w"
proof -
  have "cw_pumps (foldl (\<lambda>w c. drop_spill c w) w cs) = cw_pumps w" for cs w
    by (induction cs arbitrary: w) simp_all
  then show ?thesis by (simp add: reap_expired_spills_def)
qed

lemma pumps_frame_calls [simp]:
  "cw_pumps (touch_cursor c w) = cw_pumps w"
  "cw_pumps (page_received c w) = cw_pumps w"
  "cw_pumps (page_processed c w) = cw_pumps w"
  "cw_pumps (take_page_retention c w) = cw_pumps w"
  "cw_pumps (reserve_held t r n w) = cw_pumps w"
  "cw_pumps (snd (read_spill_pages env c k w)) = cw_pumps w"
  by (simp_all add: touch_cursor_def page_received_def page_processed_def take_page_retention_def
      reserve_held_def read_spill_pages_def Let_def split: option.splits prod.splits sum.splits)

lemma pumps_drop_held: "drop_held k w = Some w' \<Longrightarrow> cw_pumps w' = cw_pumps w"
  by (auto simp: drop_held_def split: if_splits)


section \<open>One pump\<close>

text \<open>
  A pump alone, with the registry, the memory and the files left out: what can happen to it in one
  step of the world. \<open>late\<close> allows the deadline of a terminal error to pass.
\<close>

definition room :: "pump \<Rightarrow> bool" where
  "room pu \<longleftrightarrow> pu_receiver pu \<and> length (pu_channel pu) < pu_capacity pu"

definition cancelled :: "pump \<Rightarrow> bool" where
  "cancelled pu \<longleftrightarrow> pc_cancel (pu_control pu)"

inductive pump_move :: "bool \<Rightarrow> pump \<Rightarrow> pump \<Rightarrow> bool" for late where
  pm_control: "pc_observed (f (pu_control pu)) = pc_observed (pu_control pu)
     \<Longrightarrow> pc_cancel (pu_control pu) \<longrightarrow> pc_cancel (f (pu_control pu))
     \<Longrightarrow> pump_move late pu (update_control f pu)"
| pm_driver: "driver_send p pu = Some pu' \<Longrightarrow> pump_move late pu pu'"
| pm_close: "driver_close pu = Some pu' \<Longrightarrow> pump_move late pu pu'"
| pm_recv: "consumer_recv pu = Some pu' \<Longrightarrow> pump_move late pu pu'"
| pm_drop: "consumer_drop pu = Some pu' \<Longrightarrow> pump_move late pu pu'"
| pm_next: "pu_phase pu = PumpTop \<Longrightarrow> \<not> cancelled pu \<Longrightarrow> pu_driver pu = p # ps
     \<Longrightarrow> pump_move late pu (pu\<lparr>pu_driver := ps, pu_phase := PumpHolding p\<rparr>)"
| pm_dry: "pu_phase pu = PumpTop \<Longrightarrow> \<not> cancelled pu \<Longrightarrow> pu_driver pu = []
     \<Longrightarrow> pump_move late pu (set_phase (PumpFailing e) pu)"
| pm_stop: "pu_phase pu = PumpTop \<Longrightarrow> cancelled pu \<Longrightarrow> pump_move late pu (begin_terminal [] pu)"
| pm_stop_held: "pu_phase pu \<in> {PumpHolding p, PumpReserving p} \<Longrightarrow> cancelled pu
     \<Longrightarrow> pump_move late pu (begin_terminal [p] pu)"
| pm_ready: "pu_phase pu = PumpHolding p \<Longrightarrow> \<not> cancelled pu
     \<Longrightarrow> pump_move late pu (set_phase (PumpReserving p) pu)"
| pm_gone: "pu_phase pu = PumpReserving p \<Longrightarrow> \<not> pu_receiver pu
     \<Longrightarrow> pump_move late pu (set_phase PumpEnded pu)"
| pm_send: "pu_phase pu = PumpReserving p \<Longrightarrow> \<not> cancelled pu \<Longrightarrow> room pu
     \<Longrightarrow> pump_move late pu (send_page p pu)"
| pm_refuse: "pu_phase pu = PumpReserving p \<Longrightarrow> \<not> cancelled pu \<Longrightarrow> room pu
     \<Longrightarrow> pump_move late pu (set_phase PumpEnded (push_page (PageError e) pu))"
| pm_panic: "pu_phase pu = PumpReserving p \<Longrightarrow> \<not> cancelled pu
     \<Longrightarrow> pump_move late pu (set_phase (PumpFailing e) pu)"
| pm_spilled: "pu_phase pu = PumpSpilling reason dir pages
     \<Longrightarrow> pump_move late pu (set_phase (PumpTerminal e) pu)"
| pm_report: "pu_phase pu \<in> {PumpFailing e, PumpTerminal e} \<Longrightarrow> send_error e pu = Some pu'
     \<Longrightarrow> pump_move late pu pu'"
| pm_late: "late \<Longrightarrow> pu_phase pu = PumpTerminal e \<Longrightarrow> pump_move late pu (set_phase PumpEnded pu)"

abbreviation pump_moves :: "bool \<Rightarrow> pump \<Rightarrow> pump \<Rightarrow> bool" where
  "pump_moves late \<equiv> (pump_move late)\<^sup>*\<^sup>*"

definition pumps_follow :: "bool \<Rightarrow> pump list \<Rightarrow> pump list \<Rightarrow> bool" where
  "pumps_follow late ps qs \<longleftrightarrow>
     length ps \<le> length qs
     \<and> (\<forall>i < length ps. pump_moves late (ps ! i) (qs ! i))
     \<and> (\<forall>i \<in> {length ps ..< length qs}. \<exists>config session cursor observed.
          qs ! i = pump_new config session cursor observed)"

lemma follow_refl [simp]: "pumps_follow late ps ps"
  by (simp add: pumps_follow_def)

lemma follow_update:
  assumes "i < length ps \<Longrightarrow> pump_moves late (ps ! i) q"
  shows "pumps_follow late ps (ps[i := q])"
  using assms by (cases "i < length ps") (auto simp: pumps_follow_def nth_list_update)

lemma follow_trans_same:
  assumes "pumps_follow late ps qs" and "pumps_follow late qs rs" and "length qs = length ps"
  shows "pumps_follow late ps rs"
  using assms unfolding pumps_follow_def by (auto intro: rtranclp_trans)

lemma length_update_pump [simp]: "length (cw_pumps (update_pump i f w)) = length (cw_pumps w)"
  by (simp add: update_pump_def)

lemma follow_update_pump:
  assumes "i < length (cw_pumps w) \<Longrightarrow> pump_moves late (cw_pumps w ! i) (f (cw_pumps w ! i))"
  shows "pumps_follow late (cw_pumps w) (cw_pumps (update_pump i f w))"
  using assms by (auto simp: update_pump_def intro: follow_update)

lemma follow_control:
  assumes "\<And>c. pc_observed (f c) = pc_observed c" and "\<And>c. pc_cancel c \<Longrightarrow> pc_cancel (f c)"
  shows "pumps_follow late (cw_pumps w) (cw_pumps (update_pump i (update_control f) w))"
  using assms by (blast intro: follow_update_pump pm_control r_into_rtranclp)

lemma follow_evict: "pumps_follow late (cw_pumps w) (cw_pumps (evict_cursor s c w))"
  by (auto simp: evict_cursor_def Let_def intro: follow_control split: option.splits)

lemma length_evict: "length (cw_pumps (evict_cursor s c w)) = length (cw_pumps w)"
  by (simp add: evict_cursor_def Let_def split: option.splits)

lemma follow_evicts:
  "pumps_follow late (cw_pumps w) (cw_pumps (foldl (\<lambda>w c. evict_cursor s c w) w cs))"
proof (induction cs arbitrary: w)
  case (Cons c cs)
  from follow_trans_same [OF follow_evict Cons.IH length_evict] show ?case by simp
qed simp

lemma follow_remove: "pumps_follow late (cw_pumps w) (cw_pumps (remove_cursor c w))"
proof -
  have "pumps_follow late (cw_pumps v) (cw_pumps (update_pump i (update_control (\<lambda>c.
      c\<lparr>pc_cancel_reason := g c, pc_cancel := True\<rparr>)) v))" for v i g
    by (rule follow_control) simp_all
  from this [of "set_retention c None w"] show ?thesis
    by (simp add: remove_cursor_def Let_def split: option.splits)
qed

lemma follow_pause: "pumps_follow late (cw_pumps w) (cw_pumps (pause b c w))"
  by (auto simp: pause_def intro: follow_control split: option.splits)

lemma follow_begin: "pumps_follow late (cw_pumps w) (cw_pumps (begin_opening s c k t b w))"
  using follow_evicts [of late "set_retention c t w" for t] follow_evicts [of late w]
  by (auto simp: begin_opening_def open_begin_def Let_def split: option.splits)

lemma follow_append:
  "pumps_follow late ps (ps @ [pump_new config session cursor observed])"
  by (auto simp: pumps_follow_def nth_append)

lemma follow_finish:
  "finish_opening k w = Some w' \<Longrightarrow> pumps_follow late (cw_pumps w) (cw_pumps w')"
  by (auto simp: finish_opening_def open_finish_def Let_def intro: follow_append split: if_splits)

lemma follow_move:
  assumes "move_pump i f w = Some w'" and "\<And>pu pu'. f pu = Some pu' \<Longrightarrow> pump_move late pu pu'"
  shows "pumps_follow late (cw_pumps w) (cw_pumps w')"
  using assms by (auto simp: move_pump_def intro!: follow_update r_into_rtranclp split: if_splits)

lemma follow_set:
  assumes "i < length (cw_pumps w)" and "pump_move late (cw_pumps w ! i) (f (cw_pumps w ! i))"
    and "cw_pumps v = cw_pumps w"
  shows "pumps_follow late (cw_pumps w) (cw_pumps (update_pump i f v))"
proof -
  have "pump_moves late (cw_pumps v ! i) (f (cw_pumps v ! i))" using assms by auto
  then have "pumps_follow late (cw_pumps v) (cw_pumps (update_pump i f v))"
    by (rule follow_update_pump)
  with assms(3) show ?thesis by simp
qed

lemma follow_deliver:
  assumes "i < length (cw_pumps w)" and "pu_phase (cw_pumps w ! i) = PumpReserving p"
    and "\<not> cancelled (cw_pumps w ! i)" and "room (cw_pumps w ! i)"
  shows "pumps_follow late (cw_pumps w) (cw_pumps (deliver i p w))"
  using assms pm_send [OF assms(2,3,4), of late] pm_refuse [OF assms(2,3,4), of late retained_exhausted]
  by (auto simp: deliver_def Let_def intro!: follow_set split: option.splits prod.splits sum.splits)

lemma follow_keep:
  assumes "i < length (cw_pumps w)" and "pu_phase (cw_pumps w ! i) = PumpSpilling reason dir pages"
    and "cw_pumps v = cw_pumps w"
  shows "pumps_follow late (cw_pumps w) (cw_pumps (keep_spill i r path now n g v))"
  using assms pm_spilled [OF assms(2), of late]
  by (auto simp: keep_spill_def Let_def set_phase_def intro!: follow_set)

lemma follow_give_up:
  assumes "i < length (cw_pumps w)" and "pu_phase (cw_pumps w ! i) = PumpSpilling reason dir pages"
    and "cw_pumps v = cw_pumps w"
  shows "pumps_follow late (cw_pumps w) (cw_pumps (update_pump i (\<lambda>pu. pu\<lparr>pu_phase := PumpTerminal e\<rparr>) v))"
  using assms pm_spilled [OF assms(2), of late e]
  by (auto simp: set_phase_def intro!: follow_set)

lemma follow_spill:
  assumes "i < length (cw_pumps w)" and "pu_phase (cw_pumps w ! i) = PumpSpilling reason dir pages"
  shows "pumps_follow late (cw_pumps w) (cw_pumps (finish_spill env now fault i reason dir pages w))"
  using follow_keep [OF assms] follow_give_up [OF assms]
  by (auto simp: finish_spill_def Let_def split: spill_fault.splits prod.splits bool.splits option.splits sum.splits)

lemma follow_report:
  assumes "i < length (cw_pumps w)" and "pu_phase (cw_pumps w ! i) \<in> {PumpFailing e, PumpTerminal e}"
    and "map_option (\<lambda>pu'. update_pump i (\<lambda>_. pu') w) (send_error e (cw_pumps w ! i)) = Some w'"
  shows "pumps_follow late (cw_pumps w) (cw_pumps w')"
  using assms pm_report [OF assms(2), of _ late] by (auto intro!: follow_set)

lemma follow_run:
  assumes "pump_run env now fault d i w = Some w'" and "d \<longrightarrow> late"
  shows "pumps_follow late (cw_pumps w) (cw_pumps w')"
proof -
  let ?pu = "cw_pumps w ! i"
  from assms have i: "i < length (cw_pumps w)" by (auto simp: pump_run_def split: if_splits)
  show ?thesis
  proof (cases "pu_phase ?pu")
    case PumpTop
    with assms i pm_next [OF PumpTop, of _ _ late] pm_dry [OF PumpTop, of late] pm_stop [OF PumpTop, of late]
    show ?thesis
      by (auto simp: pump_run_def Let_def cancelled_def intro!: follow_set split: if_splits list.splits)
  next
    case (PumpHolding p)
    with assms i pm_stop_held [of ?pu p late] pm_ready [OF PumpHolding, of late] show ?thesis
      by (auto simp: pump_run_def Let_def cancelled_def intro!: follow_set split: if_splits)
  next
    case (PumpReserving p)
    with assms i pm_stop_held [of ?pu p late] pm_gone [OF PumpReserving, of late]
      follow_deliver [OF i PumpReserving, of late] show ?thesis
      by (auto simp: pump_run_def Let_def cancelled_def room_def intro!: follow_set split: if_splits)
  next
    case (PumpSpilling reason dir pages)
    with assms i follow_spill [OF i PumpSpilling] show ?thesis
      by (auto simp: pump_run_def)
  next
    case (PumpFailing e)
    with assms i follow_report [OF i, of e w'] show ?thesis by (simp add: pump_run_def)
  next
    case (PumpTerminal e)
    show ?thesis
    proof (cases d)
      case True
      with assms i PumpTerminal pm_late [OF _ PumpTerminal, of late] show ?thesis
        by (auto simp: pump_run_def intro!: follow_set)
    next
      case False
      with assms i PumpTerminal follow_report [OF i, of e w'] show ?thesis by (simp add: pump_run_def)
    qed
  next
    case PumpEnded
    with assms i show ?thesis by (simp add: pump_run_def)
  qed
qed

lemma follow_panic:
  assumes "observer_panics i w = Some w'"
  shows "pumps_follow late (cw_pumps w) (cw_pumps w')"
proof -
  from assms have i: "i < length (cw_pumps w)" by (auto simp: observer_panics_def split: if_splits)
  from assms i obtain p where p: "pu_phase (cw_pumps w ! i) = PumpReserving p" "\<not> cancelled (cw_pumps w ! i)"
    by (auto simp: observer_panics_def Let_def cancelled_def split: pump_phase.splits if_splits)
  with assms i pm_panic [OF p, of late] show ?thesis
    by (auto simp: observer_panics_def Let_def intro!: follow_set
        split: if_splits option.splits prod.splits sum.splits)
qed

text \<open>Every step of the world is, for each pump there was, a sequence of its own moves.\<close>

fun deadline_passes :: "cursor_op \<Rightarrow> bool" where
  "deadline_passes (PumpRuns now fault late i) = late"
| "deadline_passes _ = False"

lemma perform_follows:
  assumes "perform env op w = Some w'" and "deadline_passes op \<longrightarrow> late"
  shows "pumps_follow late (cw_pumps w) (cw_pumps w')"
  using assms
  by (cases op)
    (auto intro: follow_begin follow_finish follow_remove follow_pause pumps_drop_held follow_run
        follow_panic follow_move pm_driver pm_close pm_recv pm_drop dest!: pumps_drop_held)

section \<open>What was relayed\<close>

definition held_pages :: "pump_phase \<Rightarrow> page list" where
  "held_pages phase = (case phase of PumpHolding p \<Rightarrow> [p] | PumpReserving p \<Rightarrow> [p] | _ \<Rightarrow> [])"

definition relaying :: "pump_phase \<Rightarrow> bool" where
  "relaying phase \<longleftrightarrow>
     (case phase of PumpTop \<Rightarrow> True | PumpHolding _ \<Rightarrow> True | PumpReserving _ \<Rightarrow> True | _ \<Rightarrow> False)"

text \<open>
  The driver's pages are those relayed, then those not yet; the consumer has and gets the relayed
  ones, and at most one error after them.
\<close>

definition delivery :: "pump \<Rightarrow> page list \<Rightarrow> page list \<Rightarrow> driver_error list \<Rightarrow> bool" where
  "delivery pu relayed rest errors \<longleftrightarrow>
     pu_supplied pu = relayed @ rest
     \<and> (relaying (pu_phase pu) \<longrightarrow> rest = held_pages (pu_phase pu) @ pu_driver pu)
     \<and> (pu_receiver pu \<longrightarrow> pu_taken pu @ pu_channel pu = relayed @ map PageError errors)
     \<and> (\<not> pu_receiver pu \<longrightarrow> pu_channel pu = [] \<and> prefix (pu_taken pu) (relayed @ map PageError errors))
     \<and> pu_seen pu = (if pc_observed (pu_control pu) then relayed else [])
     \<and> list_all (\<lambda>p. \<not> is_terminal p) (butlast relayed)
     \<and> (relayed \<noteq> [] \<and> is_terminal (last relayed) \<longrightarrow> pu_phase pu = PumpEnded \<and> errors = [])
     \<and> (errors \<noteq> [] \<longrightarrow> pu_phase pu = PumpEnded) \<and> length errors \<le> 1
     \<and> length (pu_channel pu) \<le> pu_capacity pu"

lemma delivery_new: "delivery (pump_new config session cursor observed) [] [] []"
  by (simp add: delivery_def pump_new_def held_pages_def)

lemmas delivery_simps = delivery_def relaying_def held_pages_def set_phase_def push_page_def

lemma no_terminal_relayed:
  "delivery pu relayed rest errors \<Longrightarrow> pu_phase pu \<noteq> PumpEnded \<Longrightarrow>
   errors = [] \<and> list_all (\<lambda>p. \<not> is_terminal p) relayed \<and> (relayed = [] \<or> \<not> is_terminal (last relayed))"
  by (cases relayed rule: rev_cases) (auto simp: delivery_def)

lemma relayed_quiet:
  assumes "delivery pu relayed rest errors"
  shows "list_all (\<lambda>p. \<not> is_terminal p) (butlast (relayed @ map PageError errors))"
proof (cases errors)
  case (Cons e es)
  with assms have "errors = [e]" and "relayed = [] \<or> \<not> is_terminal (last relayed)"
    and "list_all (\<lambda>p. \<not> is_terminal p) (butlast relayed)" by (auto simp: delivery_def)
  then show ?thesis by (cases relayed rule: rev_cases) (auto simp: butlast_append)
next
  case Nil
  moreover from assms have "list_all (\<lambda>p. \<not> is_terminal p) (butlast relayed)"
    unfolding delivery_def by blast
  ultimately show ?thesis by simp
qed

lemma delivery_dropped: "delivery pu relayed rest errors \<Longrightarrow> prefix (pu_taken pu) (relayed @ map PageError errors)"
  by (cases "pu_receiver pu") (auto simp: delivery_def intro: prefixI [OF sym])

text \<open>Most moves change neither channel: only where the pump is, or what it waits with.\<close>

lemma delivery_shift:
  assumes "delivery pu relayed rest errors" and "pu_phase pu \<noteq> PumpEnded"
    and "pu_supplied pu' = pu_supplied pu" and "pu_taken pu' = pu_taken pu"
    and "pu_channel pu' = pu_channel pu" and "pu_receiver pu' = pu_receiver pu"
    and "pu_seen pu' = pu_seen pu" and "pu_capacity pu' = pu_capacity pu"
    and "pc_observed (pu_control pu') = pc_observed (pu_control pu)"
    and "relaying (pu_phase pu') \<Longrightarrow> relaying (pu_phase pu)
      \<and> held_pages (pu_phase pu') @ pu_driver pu' = held_pages (pu_phase pu) @ pu_driver pu"
  shows "delivery pu' relayed rest errors"
proof -
  from no_terminal_relayed [OF assms(1,2)] assms(1)
  have "errors = []" "relayed = [] \<or> \<not> is_terminal (last relayed)" by simp_all
  moreover from assms(1,10) have "relaying (pu_phase pu') \<Longrightarrow> rest = held_pages (pu_phase pu') @ pu_driver pu'"
    by (simp add: delivery_def)
  ultimately show ?thesis using assms unfolding delivery_def by (elim disjE) simp_all
qed

lemma delivery_rest:
  "delivery pu relayed rest errors \<Longrightarrow> relaying (pu_phase pu) \<Longrightarrow> rest = held_pages (pu_phase pu) @ pu_driver pu"
  by (simp add: delivery_def)

lemma phase_simps [simp]:
  "pu_phase (set_phase ph pu) = ph" "pu_driver (set_phase ph pu) = pu_driver pu"
  "pu_supplied (set_phase ph pu) = pu_supplied pu" "pu_taken (set_phase ph pu) = pu_taken pu"
  "pu_channel (set_phase ph pu) = pu_channel pu" "pu_receiver (set_phase ph pu) = pu_receiver pu"
  "pu_seen (set_phase ph pu) = pu_seen pu" "pu_capacity (set_phase ph pu) = pu_capacity pu"
  "pu_control (set_phase ph pu) = pu_control pu"
  by (simp_all add: set_phase_def)

lemma begin_terminal_simps [simp]:
  "pu_driver (begin_terminal ps pu) = pu_driver pu"
  "pu_supplied (begin_terminal ps pu) = pu_supplied pu" "pu_taken (begin_terminal ps pu) = pu_taken pu"
  "pu_channel (begin_terminal ps pu) = pu_channel pu" "pu_receiver (begin_terminal ps pu) = pu_receiver pu"
  "pu_seen (begin_terminal ps pu) = pu_seen pu" "pu_capacity (begin_terminal ps pu) = pu_capacity pu"
  "pc_observed (pu_control (begin_terminal ps pu)) = pc_observed (pu_control pu)"
  "pc_cancel (pu_control (begin_terminal ps pu)) = pc_cancel (pu_control pu)"
  by (simp_all add: begin_terminal_def Let_def)

lemma begin_terminal_phase:
  "pu_phase (begin_terminal ps pu) \<in> {PumpTerminal reason | reason. True}
     \<union> {PumpSpilling reason dir ps | reason dir. ps \<noteq> []}"
  by (auto simp: begin_terminal_def Let_def split: option.splits)

lemma begin_terminal_not_relaying [simp]:
  "\<not> relaying (pu_phase (begin_terminal ps pu))"
  using begin_terminal_phase [of ps pu] by (auto simp: relaying_def)

lemma relaying_simps [simp]:
  "relaying PumpTop" "relaying (PumpHolding p)" "relaying (PumpReserving p)"
  "\<not> relaying (PumpSpilling e dir ps)" "\<not> relaying (PumpFailing e)" "\<not> relaying (PumpTerminal e)"
  "\<not> relaying PumpEnded" "held_pages PumpTop = []" "held_pages (PumpHolding p) = [p]"
  "held_pages (PumpReserving p) = [p]"
  by (simp_all add: relaying_def held_pages_def)

lemma delivery_send:
  assumes "delivery pu relayed rest errors" and "pu_phase pu = PumpReserving p" and "room pu"
  shows "delivery (send_page p pu) (relayed @ [p]) (pu_driver pu) errors"
proof -
  from no_terminal_relayed [OF assms(1)] assms(2) have "errors = []" "list_all (\<lambda>p. \<not> is_terminal p) relayed"
    by simp_all
  with assms delivery_rest [OF assms(1)] show ?thesis
    by (simp add: delivery_def room_def send_page_def push_page_def Let_def)
qed

lemma delivery_error:
  assumes "delivery pu relayed rest errors" and "pu_phase pu \<noteq> PumpEnded" and "room pu"
  shows "delivery (set_phase PumpEnded (push_page (PageError e) pu)) relayed rest [e]"
proof -
  from no_terminal_relayed [OF assms(1,2)] have "errors = []" "relayed = [] \<or> \<not> is_terminal (last relayed)"
    by simp_all
  with assms show ?thesis by (auto simp: delivery_def room_def push_page_def)
qed

lemma delivery_move:
  assumes "pump_move late pu pu'" and "delivery pu relayed rest errors"
  shows "\<exists>relayed rest errors. delivery pu' relayed rest errors"
  using assms(1)
proof cases
  case (pm_control f)
  with assms(2) have "delivery pu' relayed rest errors" by (simp add: delivery_def update_control_def)
  then show ?thesis by blast
next
  case (pm_driver p)
  then have "pu' = pu\<lparr>pu_driver := pu_driver pu @ [p], pu_supplied := pu_supplied pu @ [p]\<rparr>"
    by (simp add: driver_send_def split: if_splits)
  with assms(2) have "delivery pu' relayed (rest @ [p]) errors" by (simp add: delivery_def)
  then show ?thesis by blast
next
  case pm_close
  then have "pu' = pu\<lparr>pu_driver_open := False\<rparr>" by (simp add: driver_close_def)
  with assms(2) have "delivery pu' relayed rest errors" by (simp add: delivery_def)
  then show ?thesis by blast
next
  case pm_recv
  then obtain p ps where "pu_channel pu = p # ps" "pu' = pu\<lparr>pu_channel := ps, pu_taken := pu_taken pu @ [p]\<rparr>"
    by (auto simp: consumer_recv_def split: list.splits)
  with assms(2) have "delivery pu' relayed rest errors" by (auto simp: delivery_def)
  then show ?thesis by blast
next
  case pm_drop
  then have "pu' = pu\<lparr>pu_receiver := False, pu_channel := []\<rparr>" by (simp add: consumer_drop_def)
  with assms(2) delivery_dropped [OF assms(2)] have "delivery pu' relayed rest errors"
    by (simp add: delivery_def)
  then show ?thesis by blast
next
  case (pm_send p)
  with delivery_send [OF assms(2)] show ?thesis by blast
next
  case (pm_refuse p e)
  then have "delivery pu' relayed rest [e]" by (auto intro: delivery_error [OF assms(2)])
  then show ?thesis by blast
next
  case (pm_report e)
  then consider "pu' = set_phase PumpEnded pu"
    | "room pu" "pu' = set_phase PumpEnded (push_page (PageError e) pu)"
    by (auto simp: send_error_def room_def split: if_splits)
  then show ?thesis
  proof cases
    case 1
    with pm_report have "delivery pu' relayed rest errors" by (intro delivery_shift [OF assms(2)]) auto
    then show ?thesis by blast
  next
    case 2
    with pm_report have "delivery pu' relayed rest [e]" by (auto intro: delivery_error [OF assms(2)])
    then show ?thesis by blast
  qed
qed (intro exI, rule delivery_shift [OF assms(2)]; force)+

lemma delivery_moves:
  assumes "pump_moves late pu pu'" and "\<exists>relayed rest errors. delivery pu relayed rest errors"
  shows "\<exists>relayed rest errors. delivery pu' relayed rest errors"
  using assms by (induction rule: rtranclp_induct) (auto dest: delivery_move)

text \<open>A property every new pump has and every move keeps holds of every pump of every run.\<close>

lemma steps_pumps:
  assumes "cursor_steps env w ops w'" and "cw_pumps w = []"
    and "list_all (\<lambda>op. deadline_passes op \<longrightarrow> late) ops"
    and new: "\<And>config session cursor observed. P (pump_new config session cursor observed)"
    and move: "\<And>pu pu'. pump_moves late pu pu' \<Longrightarrow> P pu \<Longrightarrow> P pu'"
  shows "\<forall>i < length (cw_pumps w'). P (cw_pumps w' ! i)"
  using assms(1,3)
proof (induction rule: cursor_steps.induct)
  case steps_none
  with assms(2) show ?case by simp
next
  case (steps_more ops w' op w'')
  have "pumps_follow late (cw_pumps w') (cw_pumps w'')"
    using steps_more by (intro perform_follows) auto
  moreover have "\<forall>i < length (cw_pumps w'). P (cw_pumps w' ! i)"
    using steps_more by simp
  ultimately show ?case
    unfolding pumps_follow_def using new move by (metis atLeastLessThan_iff not_le)
qed

definition ended_properly :: "pump \<Rightarrow> bool" where
  "ended_properly pu \<longleftrightarrow>
     (pu_phase pu = PumpEnded \<and> pu_receiver pu \<longrightarrow>
        pu_taken pu @ pu_channel pu \<noteq> [] \<and> is_terminal (last (pu_taken pu @ pu_channel pu)))"

lemma ended_new: "ended_properly (pump_new config session cursor observed)"
  by (simp add: ended_properly_def pump_new_def)

lemma ended_move: "pump_move False pu pu' \<Longrightarrow> ended_properly pu \<Longrightarrow> ended_properly pu'"
  by (erule pump_move.cases)
    (auto simp: ended_properly_def update_control_def driver_send_def driver_close_def consumer_recv_def
      consumer_drop_def set_phase_def push_page_def begin_terminal_def send_page_def send_error_def
      is_terminal_def room_def Let_def split: if_splits list.splits option.splits)

lemma ended_moves: "pump_moves False pu pu' \<Longrightarrow> ended_properly pu \<Longrightarrow> ended_properly pu'"
  by (induction rule: rtranclp_induct) (auto dest: ended_move)

text \<open>The pages a pump spills are the one it held.\<close>

definition spills_one :: "pump \<Rightarrow> bool" where
  "spills_one pu \<longleftrightarrow>
     (case pu_phase pu of PumpSpilling reason dir pages \<Rightarrow> length pages = 1 | _ \<Rightarrow> True)"

lemma spills_one_new: "spills_one (pump_new config session cursor observed)"
  by (simp add: spills_one_def pump_new_def)

lemma spills_one_move: "pump_move late pu pu' \<Longrightarrow> spills_one pu \<Longrightarrow> spills_one pu'"
  by (erule pump_move.cases)
    (auto simp: spills_one_def update_control_def driver_send_def driver_close_def consumer_recv_def
      consumer_drop_def set_phase_def push_page_def begin_terminal_def send_page_def send_error_def
      Let_def split: if_splits list.splits option.splits pump_phase.splits)

lemma spills_one_moves: "pump_moves late pu pu' \<Longrightarrow> spills_one pu \<Longrightarrow> spills_one pu'"
  by (induction rule: rtranclp_induct) (auto dest: spills_one_move)

section \<open>A cancelled pump\<close>

definition stop_rank :: "pump_phase \<Rightarrow> nat" where
  "stop_rank phase =
     (case phase of PumpSpilling _ _ _ \<Rightarrow> 2 | PumpFailing _ \<Rightarrow> 1 | PumpTerminal _ \<Rightarrow> 1 | PumpEnded \<Rightarrow> 0 | _ \<Rightarrow> 3)"

lemma begin_terminal_rank: "stop_rank (pu_phase (begin_terminal ps pu)) \<le> 2"
  using begin_terminal_phase [of ps pu] by (auto simp: stop_rank_def)

lemma rank_move:
  assumes "pump_move late pu pu'" and "cancelled pu"
  shows "cancelled pu' \<and> stop_rank (pu_phase pu') \<le> stop_rank (pu_phase pu)"
  using assms(1)
proof cases
  case pm_stop
  with assms(2) begin_terminal_rank [of "[]" pu] show ?thesis by (simp add: cancelled_def stop_rank_def)
next
  case (pm_stop_held p)
  with assms(2) begin_terminal_rank [of "[p]" pu] show ?thesis by (auto simp: cancelled_def stop_rank_def)
qed (use assms(2) in \<open>auto simp: cancelled_def stop_rank_def update_control_def driver_send_def driver_close_def
    consumer_recv_def consumer_drop_def send_error_def push_page_def split: if_splits list.splits\<close>)

lemma rank_moves:
  assumes "pump_moves late pu pu'" and "cancelled pu"
  shows "cancelled pu' \<and> stop_rank (pu_phase pu') \<le> stop_rank (pu_phase pu)"
  using assms(1)
proof (induction rule: rtranclp_induct)
  case (step pu' pu'')
  with rank_move [OF step.hyps(2)] show ?case by auto
qed (use assms(2) in simp)

lemma run_rank:
  assumes "pump_run env now fault late i w = Some w'" and "cancelled (cw_pumps w ! i)"
  shows "stop_rank (pu_phase (cw_pumps w' ! i)) < stop_rank (pu_phase (cw_pumps w ! i))"
proof -
  from assms(1) have i: "i < length (cw_pumps w)" by (auto simp: pump_run_def split: if_splits)
  have at: "cw_pumps (update_pump i f v) ! i = f (cw_pumps v ! i)" if "cw_pumps v = cw_pumps w" for f v
    using i that by (simp add: update_pump_def)
  have "stop_rank (pu_phase (cw_pumps (finish_spill env now fault i r dir ps w) ! i)) = 1" for r dir ps
    using i
    by (auto simp: finish_spill_def keep_spill_def Let_def at stop_rank_def
        split: spill_fault.splits prod.splits bool.splits option.splits sum.splits)
  with assms i begin_terminal_rank show ?thesis
    by (auto simp: pump_run_def Let_def cancelled_def at send_error_def stop_rank_def [of PumpTop]
        stop_rank_def [of "PumpHolding p" for p] stop_rank_def [of "PumpReserving p" for p]
        stop_rank_def [of "PumpSpilling r d p" for r d p] stop_rank_def [of "PumpFailing e" for e]
        stop_rank_def [of "PumpTerminal e" for e] stop_rank_def [of PumpEnded]
        less_Suc_eq_le numeral_3_eq_3 numeral_2_eq_2
        split: pump_phase.splits if_splits)
qed

fun runs_pump :: "nat \<Rightarrow> cursor_op \<Rightarrow> bool" where
  "runs_pump i (PumpRuns now fault late j) = (j = i)"
| "runs_pump i _ = False"

lemma perform_rank:
  assumes "perform env op w = Some w'" and "i < length (cw_pumps w)" and "cancelled (cw_pumps w ! i)"
  shows "i < length (cw_pumps w') \<and> cancelled (cw_pumps w' ! i)
    \<and> stop_rank (pu_phase (cw_pumps w' ! i)) + (if runs_pump i op then 1 else 0)
        \<le> stop_rank (pu_phase (cw_pumps w ! i))"
proof -
  have "pumps_follow True (cw_pumps w) (cw_pumps w')"
    using assms(1) by (rule perform_follows) simp
  with assms(2) have m: "i < length (cw_pumps w')" "pump_moves True (cw_pumps w ! i) (cw_pumps w' ! i)"
    by (auto simp: pumps_follow_def)
  have "stop_rank (pu_phase (cw_pumps w' ! i)) < stop_rank (pu_phase (cw_pumps w ! i))" if "runs_pump i op"
    using that assms run_rank by (cases op) auto
  with rank_moves [OF m(2) assms(3)] m(1) show ?thesis by auto
qed

lemma steps_rank:
  assumes "cursor_steps env w ops w'" and "i < length (cw_pumps w)" and "cancelled (cw_pumps w ! i)"
  shows "i < length (cw_pumps w') \<and> cancelled (cw_pumps w' ! i)
    \<and> stop_rank (pu_phase (cw_pumps w' ! i)) + length (filter (runs_pump i) ops)
        \<le> stop_rank (pu_phase (cw_pumps w ! i))"
  using assms
proof (induction rule: cursor_steps.induct)
  case (steps_more ops w' op w'')
  with perform_rank [of env op w' w'' i] show ?case by auto
qed simp

lemma late_run:
  assumes "i < length (cw_pumps w)" and "cancelled (cw_pumps w ! i)"
    and "pu_phase (cw_pumps w ! i) \<noteq> PumpEnded" and "\<nexists>e. pu_phase (cw_pumps w ! i) = PumpFailing e"
  shows "pump_run env now fault True i w \<noteq> None"
  using assms by (cases "pu_phase (cw_pumps w ! i)") (auto simp: pump_run_def cancelled_def)

section \<open>Properties\<close>

lemma deliveries:
  assumes "cursor_steps env w ops w'" and "cw_pumps w = []" and "i < length (cw_pumps w')"
  obtains relayed rest errors where "delivery (cw_pumps w' ! i) relayed rest errors"
proof -
  have "\<forall>i < length (cw_pumps w'). \<exists>relayed rest errors. delivery (cw_pumps w' ! i) relayed rest errors"
    using assms(1,2)
  proof (rule steps_pumps [where late = True])
    show "\<exists>relayed rest errors. delivery pu' relayed rest errors"
      if "pump_moves True pu pu'" "\<exists>relayed rest errors. delivery pu relayed rest errors" for pu pu'
      using that by (rule delivery_moves)
  qed (auto simp: list_all_iff intro: delivery_new)
  with assms(3) that show ?thesis by blast
qed

lemma new_world_pumps [simp]: "cw_pumps (cursor_world_new config m) = []"
  by (simp add: cursor_world_new_def)


text \<open>A run, step by step.\<close>

fun perform_all :: "cursor_env \<Rightarrow> cursor_op list \<Rightarrow> cursor_world \<Rightarrow> cursor_world option" where
  "perform_all env [] w = Some w"
| "perform_all env (op # ops) w = Option.bind (perform env op w) (perform_all env ops)"

lemma perform_all_steps:
  assumes "perform_all env ops w = Some w'"
  shows "cursor_steps env w ops w'"
proof -
  have "cursor_steps env w (before @ ops) w'"
    if "perform_all env ops v = Some w'" "cursor_steps env w before v" for before v
    using that
  proof (induction ops arbitrary: v before)
    case (Cons op ops)
    then obtain v' where "perform env op v = Some v'" "perform_all env ops v' = Some w'"
      by (auto simp: bind_eq_Some_conv)
    with Cons.IH [of v' "before @ [op]"] Cons.prems(2) show ?case by (simp add: steps_more)
  qed simp
  from this [OF assms steps_none] show ?thesis by simp
qed

definition spill_env :: cursor_env where
  "spill_env =
     \<lparr>ce_page_json = (\<lambda>p. if p = PageRows [[VText ''two'']] then Some ''[two]'' else None),
      ce_json_page = (\<lambda>s. if s = ''[two]'' then Some (PageRows [[VText ''two'']]) else None),
      ce_io_error = ''io''\<rparr>"

definition demo_config :: cursor_config where
  "demo_config = cursor_config_default\<lparr>cc_max_per_session := 1, cc_spill_dir := Some ''d'', cc_spill_min_bytes := 0\<rparr>"

definition run0 :: cursor_op where
  "run0 = PumpRuns 0 SpillFine False 0"

text \<open>
  Three pages, of which the consumer takes the first before another cursor of its session evicts
  the cursor: the page the pump holds is spilled, the third is lost.
\<close>

definition spill_ops :: "cursor_op list" where
  "spill_ops =
     [OpenBegin ''s'' ''a'' (Some ''k'') None True, OpenFinish 0,
      DriverSends 0 (PageRows [[VText ''one'']]), DriverSends 0 (PageRows [[VText ''two'']]),
      DriverSends 0 (PageRows [[VText ''three'']]), run0, run0, run0, ConsumerReceives 0, run0,
      OpenBegin ''s'' ''b'' None None False, OpenFinish 0, run0, run0, run0, ConsumerReceives 0]"

lemmas cursor_eval =
  spill_env_def demo_config_def run0_def cursor_config_default_def cursor_world_new_def cursor_registry_new_def
  begin_opening_def open_begin_def finish_opening_def open_finish_def register_cursor_def next_seq_def
  push_listed_def pump_new_def select_victims_def evict_cursor_def evicted_def update_pump_def update_control_def
  call_on_evict_def forget_entry_def unlist_cursor_def remove_session_cursor_def
  remove_connection_cursor_def on_registry_def move_pump_def driver_send_def driver_close_def
  consumer_recv_def consumer_drop_def pump_run_def deliver_def send_page_def push_page_def set_phase_def
  send_error_def begin_terminal_def finish_spill_def keep_spill_def set_spill_def set_retention_def
  retention_guards_def spill_guards_def drop_guards_def spill_path_def resume_url_def is_terminal_def
  driver_error_new_def approx_pages_bytes_def approx_page_bytes_def Let_def

lemma spill_run:
  "\<exists>w. perform_all spill_env spill_ops (cursor_world_new demo_config demo_manager) = Some w
     \<and> length (cw_pumps w) = 2 \<and> pu_phase (cw_pumps w ! 0) = PumpEnded \<and> pu_receiver (cw_pumps w ! 0)
     \<and> map is_terminal (pu_taken (cw_pumps w ! 0)) = [False, True]
     \<and> length (pu_supplied (cw_pumps w ! 0)) = 3
     \<and> map_option se_total_pages (cr_spills (cw_registry w) ''a'') = Some 1
     \<and> map_option (\<lambda>e. cw_files w (se_path e)) (cr_spills (cw_registry w) ''a'')
         = Some (Some (be_bytes 5 @ ''[two]''))"
  unfolding spill_ops_def by (simp add: cursor_eval map_filter_simps)

text \<open>The same, before the other cursor is opened.\<close>

lemma demo_prefix:
  "\<exists>w. perform_all spill_env (take 10 spill_ops) (cursor_world_new demo_config demo_manager) = Some w
     \<and> length (cw_pumps w) = 1 \<and> pu_phase (cw_pumps w ! 0) = PumpHolding (PageRows [[VText ''two'']])
     \<and> pu_receiver (cw_pumps w ! 0)"
  unfolding spill_ops_def by (simp add: cursor_eval map_filter_simps)

lemma demo_steps:
  obtains w where "cursor_steps spill_env (cursor_world_new demo_config demo_manager) spill_ops w"
    "length (cw_pumps w) = 2" "pu_phase (cw_pumps w ! 0) = PumpEnded" "pu_receiver (cw_pumps w ! 0)"
    "map is_terminal (pu_taken (cw_pumps w ! 0)) = [False, True]" "length (pu_supplied (cw_pumps w ! 0)) = 3"
    "map_option se_total_pages (cr_spills (cw_registry w) ''a'') = Some 1"
proof -
  from spill_run obtain w where w: "perform_all spill_env spill_ops (cursor_world_new demo_config demo_manager) = Some w"
    "length (cw_pumps w) = 2" "pu_phase (cw_pumps w ! 0) = PumpEnded" "pu_receiver (cw_pumps w ! 0)"
    "map is_terminal (pu_taken (cw_pumps w ! 0)) = [False, True]" "length (pu_supplied (cw_pumps w ! 0)) = 3"
    "map_option se_total_pages (cr_spills (cw_registry w) ''a'') = Some 1"
    by (elim exE conjE)
  from that [OF perform_all_steps [OF w(1)] w(2-)] show thesis .
qed






end
