(* ===== verification/Cursor_Spills.thy ===== *)
theory Cursor_Spills
  imports Cursor_Delivery
begin

text \<open>
  The files evicted cursors leave behind: what is in them, and what reading them back in chunks
  gives.
\<close>

section \<open>What a spill holds\<close>

abbreviation spills :: "cursor_world \<Rightarrow> string \<Rightarrow> spill_entry option" where
  "spills w \<equiv> cr_spills (cw_registry w)"

text \<open>No entry but those there were, up to how far they are read.\<close>

definition no_new_spills :: "cursor_world \<Rightarrow> cursor_world \<Rightarrow> bool" where
  "no_new_spills w w' \<longleftrightarrow>
     (\<forall>c e. spills w' c = Some e \<longrightarrow> (\<exists>e0. spills w c = Some e0 \<and> se_total_pages e0 = se_total_pages e))"

lemma no_new_same: "spills w' = spills w \<Longrightarrow> no_new_spills w w'"
  by (simp add: no_new_spills_def)

lemma no_new_trans: "no_new_spills w w' \<Longrightarrow> no_new_spills w' w'' \<Longrightarrow> no_new_spills w w''"
  unfolding no_new_spills_def by metis

lemma unlist_spills [simp]: "cr_spills (unlist_cursor c s k r) = cr_spills r"
  by (simp add: unlist_cursor_def remove_session_cursor_def remove_connection_cursor_def Let_def
      split: option.splits)

lemma forget_spills [simp]: "cr_spills (forget_entry c r) = cr_spills r"
  by (simp add: forget_entry_def split: option.splits)

lemma spills_frame [simp]:
  "spills (set_retention c r w) = spills w"
  "spills (put_retention c t w) = spills w"
  "spills (update_pump i f w) = spills w"
  "spills (call_on_evict x y w) = spills w"
  by (simp_all add: set_retention_def put_retention_def update_pump_def call_on_evict_def)

lemma on_registry_spills [simp]: "cw_registry (on_registry g w) = g (cw_registry w)"
  by (simp add: on_registry_def)

lemma spills_calls [simp]:
  "spills (evict_cursor s c w) = spills w"
  "spills (touch_cursor c w) = spills w"
  "spills (remove_cursor c w) = spills w"
  "spills (pause b c w) = spills w"
  "spills (page_received c w) = spills w"
  "spills (page_processed c w) = spills w"
  "spills (take_page_retention c w) = spills w"
  "spills (reserve_held t r n w) = spills w"
  "spills (deliver i p w) = spills w"
  by (simp_all add: evict_cursor_def touch_cursor_def remove_cursor_def pause_def page_received_def page_processed_def
      take_page_retention_def reserve_held_def deliver_def next_seq_def Let_def
      split: option.splits prod.splits sum.splits)

lemma evicts_spills [simp]: "spills (foldl (\<lambda>w c. evict_cursor s c w) w cs) = spills w"
  by (induction cs arbitrary: w) simp_all

lemma begin_spills [simp]: "spills (begin_opening s c k t b w) = spills w"
  by (simp add: begin_opening_def open_begin_def Let_def split: option.splits)

lemma finish_spills: "finish_opening k w = Some w' \<Longrightarrow> spills w' = spills w"
  by (auto simp: finish_opening_def open_finish_def register_cursor_def next_seq_def Let_def split: if_splits)

lemma drop_spill_no_new: "no_new_spills w (drop_spill c w)"
  by (auto simp: no_new_spills_def drop_spill_def set_spill_def split: option.splits if_splits)

lemma reap_no_new: "no_new_spills w (reap_expired_spills now cs w)"
proof -
  have "no_new_spills w (foldl (\<lambda>w c. drop_spill c w) w cs)" for cs
  proof (induction cs arbitrary: w)
    case (Cons c cs)
    from no_new_trans [OF drop_spill_no_new Cons] show ?case by simp
  qed (simp add: no_new_same)
  then show ?thesis by (simp add: reap_expired_spills_def)
qed

lemma read_no_new: "no_new_spills w (snd (read_spill_pages env c n w))"
proof -
  have "no_new_spills w (on_spill (\<lambda>e. e\<lparr>se_read_offset := a, se_pages_read := b\<rparr>) c w)" for a b
    by (auto simp: no_new_spills_def on_spill_def split: if_splits)
  with drop_spill_no_new [of w c] show ?thesis
    by (auto simp: read_spill_pages_def Let_def no_new_same split: option.splits sum.splits prod.splits)
qed

lemma move_pump_spills: "move_pump i f w = Some w' \<Longrightarrow> spills w' = spills w"
  by (auto simp: move_pump_def split: if_splits)

lemma panic_spills: "observer_panics i w = Some w' \<Longrightarrow> spills w' = spills w"
  by (auto simp: observer_panics_def Let_def split: if_splits pump_phase.splits option.splits prod.splits sum.splits)

lemma keep_spills:
  "spills (keep_spill i r path now n g w) =
     (spills w)(pu_cursor (cw_pumps w ! i) \<mapsto>
        \<lparr>se_session = pu_session (cw_pumps w ! i), se_path = path, se_created_at = now, se_read_offset = 0,
         se_total_pages = n, se_pages_read = 0, se_guard = g\<rparr>)"
  by (simp add: keep_spill_def Let_def set_spill_def)

definition spill_totals :: "nat \<Rightarrow> cursor_world \<Rightarrow> bool" where
  "spill_totals n w \<longleftrightarrow> (\<forall>c e. spills w c = Some e \<longrightarrow> se_total_pages e = n)"

lemma no_new_totals: "no_new_spills w w' \<Longrightarrow> spill_totals n w \<Longrightarrow> spill_totals n w'"
  unfolding no_new_spills_def spill_totals_def by metis

lemma finish_spill_totals:
  "spill_totals n w \<Longrightarrow> length pages = n \<Longrightarrow> spill_totals n (finish_spill env now fault i r dir pages w)"
  by (auto simp: finish_spill_def Let_def spill_totals_def keep_spills
      split: spill_fault.splits prod.splits bool.splits option.splits sum.splits if_splits)

lemma run_totals:
  assumes "pump_run env now fault late i w = Some w'" and "spill_totals 1 w"
    and "\<forall>i < length (cw_pumps w). spills_one (cw_pumps w ! i)"
  shows "spill_totals 1 w'"
proof (cases "\<exists>r dir ps. pu_phase (cw_pumps w ! i) = PumpSpilling r dir ps")
  case True
  then obtain r dir ps where p: "pu_phase (cw_pumps w ! i) = PumpSpilling r dir ps" by blast
  from assms(1) have "i < length (cw_pumps w)" by (auto simp: pump_run_def split: if_splits)
  with assms(3) have "spills_one (cw_pumps w ! i)" by blast
  with p have "length ps = 1" by (simp add: spills_one_def)
  with assms p finish_spill_totals [OF assms(2)] show ?thesis by (auto simp: pump_run_def split: if_splits)
next
  case False
  with assms(1) have "spills w' = spills w"
    by (auto simp: pump_run_def Let_def split: if_splits pump_phase.splits list.splits)
  with assms(2) show ?thesis by (simp add: spill_totals_def)
qed

lemma perform_totals:
  assumes "perform env op w = Some w'" and "spill_totals 1 w"
    and "\<forall>i < length (cw_pumps w). spills_one (cw_pumps w ! i)"
  shows "spill_totals 1 w'"
proof (cases "\<exists>now fault late i. op = PumpRuns now fault late i")
  case True
  with assms run_totals show ?thesis by auto
next
  case False
  with assms(1) have "no_new_spills w w'"
    by (cases op)
      (auto intro: no_new_same drop_spill_no_new reap_no_new read_no_new finish_spills move_pump_spills
          panic_spills simp: drop_held_def set_config_def set_on_evict_def split: if_splits)
  with assms(2) show ?thesis by (rule no_new_totals [rotated])
qed

lemma steps_spills_one:
  "cursor_steps env w ops w' \<Longrightarrow> cw_pumps w = [] \<Longrightarrow> \<forall>i < length (cw_pumps w'). spills_one (cw_pumps w' ! i)"
  by (rule steps_pumps [where late = True]) (auto simp: list_all_iff intro: spills_one_moves spills_one_new)

lemma steps_totals:
  assumes "cursor_steps env w ops w'" and "cw_pumps w = []" and "spill_totals 1 w"
  shows "spill_totals 1 w'"
  using assms(1)
proof (induction rule: cursor_steps.induct)
  case (steps_more ops w' op w'')
  with perform_totals steps_spills_one [OF _ assms(2)] show ?case by blast
qed (use assms(3) in simp)

section \<open>Reading back\<close>

lemma be_round_trip: "be_value (be_bytes n) = unat n"
proof -
  let ?k = "unat n"
  have k: "?k < 2 ^ 32" using unsigned_less [of n] by simp
  have "?k div 256 ^ 3 mod 256 = ?k div 256 ^ 3" using k by (simp add: less_mult_imp_div_less)
  moreover have "?k div 256 ^ 2 = 256 * (?k div 256 ^ 3) + ?k div 256 ^ 2 mod 256"
    using mult_div_mod_eq [of 256 "?k div 256 ^ 2"] by (simp add: div_mult2_eq [symmetric])
  moreover have "?k div 256 = 256 * (?k div 256 ^ 2) + ?k div 256 mod 256"
    using mult_div_mod_eq [of 256 "?k div 256"] by (simp add: div_mult2_eq [symmetric])
  moreover have "?k = 256 * (?k div 256) + ?k mod 256" by simp
  ultimately show ?thesis by (simp add: be_bytes_def be_value_def)
qed

definition spillable :: "cursor_env \<Rightarrow> page list \<Rightarrow> bool" where
  "spillable env pages \<longleftrightarrow>
     list_all (\<lambda>p. case ce_page_json env p of
         None \<Rightarrow> False | Some b \<Rightarrow> ce_json_page env b = Some p \<and> length b < 2 ^ 32) pages"

abbreviation spilled :: "cursor_env \<Rightarrow> page list \<Rightarrow> string" where
  "spilled env pages \<equiv> fst (spill_bytes env pages)"

lemma spillable_Cons:
  "spillable env (p # ps) \<longleftrightarrow>
     (\<exists>b. ce_page_json env p = Some b \<and> ce_json_page env b = Some p \<and> length b < 2 ^ 32) \<and> spillable env ps"
  by (auto simp: spillable_def split: option.splits)

lemma spillable_append [simp]: "spillable env (ps @ qs) \<longleftrightarrow> spillable env ps \<and> spillable env qs"
  by (simp add: spillable_def)

lemma spill_bytes_ok: "spillable env ps \<Longrightarrow> spill_bytes env ps = (spilled env ps, True)"
  by (induction ps) (auto simp: spillable_Cons split: prod.splits)

lemma spilled_append:
  "spillable env ps \<Longrightarrow> spilled env (ps @ qs) = spilled env ps @ spilled env qs"
  by (induction ps) (auto simp: spillable_Cons split: prod.splits)

lemma length_be_bytes [simp]: "length (be_bytes n) = 4"
  by (simp add: be_bytes_def)

lemma read_pages_spilled:
  assumes "spillable env (before @ pages)"
  shows "read_pages env (spilled env (before @ pages)) (length (before @ pages)) want
           (out, length (spilled env before), length before)
       = Inr (out @ take want pages, length (spilled env (before @ take want pages)),
              length before + min want (length pages))"
  using assms
proof (induction want arbitrary: before pages out)
  case 0
  then show ?case by simp
next
  case (Suc want)
  show ?case
  proof (cases pages)
    case Nil
    then show ?thesis by simp
  next
    case (Cons p ps)
    with Suc.prems obtain b where b: "ce_page_json env p = Some b" "ce_json_page env b = Some p"
      "length b < 2 ^ 32" by (auto simp: spillable_Cons)
    have one: "spilled env (p # qs) = be_bytes (of_nat (length b)) @ b @ spilled env qs" for qs
      using b by (simp split: prod.splits)
    have len: "be_value (be_bytes (of_nat (length b))) = length b"
      using b(3) by (simp add: be_round_trip unat_of_nat)
    have bytes: "spilled env (before @ p # ps)
        = spilled env before @ be_bytes (of_nat (length b)) @ b @ spilled env ps"
      using Suc.prems Cons b(1) by (simp add: spilled_append split: prod.splits)
    have "length (spilled env (before @ [p])) = length (spilled env before) + 4 + length b"
      using Suc.prems Cons b(1) by (simp add: spilled_append)
    with Suc.IH [of "before @ [p]" ps "out @ [p]"] Suc.prems Cons b(2) len show ?thesis
      by (simp add: bytes)
  qed
qed

text \<open>A cursor's spill after its first pages have been read.\<close>

definition spill_at :: "cursor_env \<Rightarrow> string \<Rightarrow> page list \<Rightarrow> page list \<Rightarrow> cursor_world \<Rightarrow> bool" where
  "spill_at env cursor before pages w \<longleftrightarrow>
     (\<exists>e. spills w cursor = Some e \<and> cw_files w (se_path e) = Some (spilled env (before @ pages))
        \<and> se_total_pages e = length (before @ pages) \<and> se_pages_read e = length before
        \<and> se_read_offset e = length (spilled env before))"

lemma read_spill_at:
  assumes "spill_at env cursor before pages w" and "spillable env (before @ pages)"
    and "k = max n 1"
  shows "fst (read_spill_pages env cursor n w) = Inr (take k pages, length pages \<le> k)"
    and "k < length pages \<Longrightarrow> spill_at env cursor (before @ take k pages) (drop k pages)
           (snd (read_spill_pages env cursor n w))"
    and "length pages \<le> k \<Longrightarrow> spills (snd (read_spill_pages env cursor n w)) cursor = None"
proof -
  from assms(1) obtain e where e: "spills w cursor = Some e" "cw_files w (se_path e) = Some (spilled env (before @ pages))"
    "se_total_pages e = length (before @ pages)" "se_pages_read e = length before"
    "se_read_offset e = length (spilled env before)" by (auto simp: spill_at_def)
  have read: "read_spill_pages env cursor n w =
      (Inr (take k pages, length pages \<le> k),
       if length pages \<le> k then drop_spill cursor w
       else on_spill (\<lambda>e. e\<lparr>se_read_offset := length (spilled env (before @ take k pages)),
              se_pages_read := length before + k\<rparr>) cursor w)"
    using e read_pages_spilled [OF assms(2), of k "[]"]
    by (simp add: read_spill_pages_def assms(3) [symmetric] Let_def min_def del: One_nat_def)
  show "fst (read_spill_pages env cursor n w) = Inr (take k pages, length pages \<le> k)"
    by (simp add: read)
  show "spill_at env cursor (before @ take k pages) (drop k pages) (snd (read_spill_pages env cursor n w))"
    if "k < length pages"
    using that e unfolding read spill_at_def by (simp add: on_spill_def on_registry_def)
  show "spills (snd (read_spill_pages env cursor n w)) cursor = None" if "length pages \<le> k"
    using that e by (simp add: read drop_spill_def set_spill_def)
qed

text \<open>Requests one after the other, with the pages they return.\<close>

fun read_chunks :: "cursor_env \<Rightarrow> string \<Rightarrow> nat list \<Rightarrow> cursor_world \<Rightarrow> page list \<times> cursor_world" where
  "read_chunks env cursor [] w = ([], w)"
| "read_chunks env cursor (n # ns) w =
     (case read_spill_pages env cursor n w of
        (Inl _, w) \<Rightarrow> ([], w)
      | (Inr (pages, _), w) \<Rightarrow>
          (case read_chunks env cursor ns w of (rest, w) \<Rightarrow> (pages @ rest, w)))"

lemma read_chunks_none:
  "spills w cursor = None \<Longrightarrow> read_chunks env cursor ns w = ([], w)"
  by (cases ns) (simp_all add: read_spill_pages_def)

lemma read_chunks_spilled:
  assumes "spill_at env cursor before pages w" and "spillable env (before @ pages)" and "pages \<noteq> []"
  shows "fst (read_chunks env cursor ns w) = take (sum_list (map (max 1) ns)) pages
     \<and> (length pages \<le> sum_list (map (max 1) ns) \<longrightarrow> spills (snd (read_chunks env cursor ns w)) cursor = None)"
  using assms
proof (induction ns arbitrary: before pages w)
  case Nil
  then show ?case by simp
next
  case (Cons n ns)
  let ?k = "max n 1" and ?w = "snd (read_spill_pages env cursor n w)"
  note r = read_spill_at [OF Cons.prems(1,2) refl, of n]
  have first: "read_chunks env cursor (n # ns) w =
      (take ?k pages @ fst (read_chunks env cursor ns ?w), snd (read_chunks env cursor ns ?w))"
    using r(1) by (cases "read_spill_pages env cursor n w") (simp split: prod.splits)
  show ?case
  proof (cases "length pages \<le> ?k")
    case True
    with r(3) first show ?thesis by (simp add: read_chunks_none max.commute)
  next
    case False
    then have k: "?k < length pages" by (rule not_le_imp_less)
    have dropped: "spillable env ((before @ take ?k pages) @ drop ?k pages)" "drop ?k pages \<noteq> []"
      using Cons.prems(2) False by (simp_all del: spillable_append)
    from Cons.IH [OF r(2) [OF k] dropped]
    have rest: "fst (read_chunks env cursor ns ?w) = take (sum_list (map (max 1) ns)) (drop ?k pages)"
      "length pages - ?k \<le> sum_list (map (max 1) ns) \<longrightarrow> spills (snd (read_chunks env cursor ns ?w)) cursor = None"
      by simp_all
    have "sum_list (map (max 1) (n # ns)) = ?k + sum_list (map (max 1) ns)" by (simp add: max.commute)
    with rest k show ?thesis unfolding first fst_conv snd_conv by (simp add: take_add del: One_nat_def)
  qed
qed

section \<open>Properties\<close>

lemma url_not_plain: "e\<lparr>de_resume_url := Some u\<rparr> = e' \<Longrightarrow> de_resume_url e' = Some u"
  by auto

text \<open>A spill with a link to resume from has every page in its file.\<close>

lemma finish_spill_at:
  assumes "i < length (cw_pumps w)" and "spillable env pages" and "de_resume_url reason = None"
    and "pu_phase (cw_pumps (finish_spill env now fault i reason dir pages w) ! i) = PumpTerminal e"
    and "de_resume_url e = Some url"
  shows "spill_at env (pu_cursor (cw_pumps w ! i)) [] pages (finish_spill env now fault i reason dir pages w)
     \<and> url = resume_url (pu_cursor (cw_pumps w ! i))"
proof -
  have at: "cw_pumps (update_pump i f v) ! i = f (cw_pumps v ! i)" if "cw_pumps v = cw_pumps w" for f v
    using assms(1) that by (simp add: update_pump_def)
  have files: "cw_files (update_pump i f v) = cw_files v" "cw_files (set_spill c s v) = cw_files v" for f v c s
    by (simp_all add: update_pump_def set_spill_def)
  show ?thesis
    using assms(3-5) spill_bytes_ok [OF assms(2)]
    by (auto simp: finish_spill_def keep_spill_def spill_at_def set_spill_def Let_def at files
        split: spill_fault.splits prod.splits bool.splits option.splits sum.splits if_splits)
qed

text \<open>
  C18: Spill round trip. When an evicted cursor's terminal error carries a link to resume from, then
  however the client splits its requests, the pages it reads are the spilled ones, in order and each
  once, and when it has asked for as many as there are the spill is gone. The page encoding is a
  parameter; each spilled page must decode to itself and be shorter than the 4 GiB its 32-bit
  length field holds.
\<close>

theorem spill_round_trip:
  assumes "i < length (cw_pumps w)" and "spillable env pages" and "pages \<noteq> []"
    and "de_resume_url reason = None"
    and "w' = finish_spill env now fault i reason dir pages w"
    and "pu_phase (cw_pumps w' ! i) = PumpTerminal e" and "de_resume_url e = Some url"
  shows "url = resume_url (pu_cursor (cw_pumps w ! i))
     \<and> fst (read_chunks env (pu_cursor (cw_pumps w ! i)) ns w') = take (sum_list (map (max 1) ns)) pages
     \<and> (length pages \<le> sum_list (map (max 1) ns) \<longrightarrow>
          cr_spills (cw_registry (snd (read_chunks env (pu_cursor (cw_pumps w ! i)) ns w')))
            (pu_cursor (cw_pumps w ! i)) = None)"
proof -
  from finish_spill_at [OF assms(1,2,4) assms(6) [unfolded assms(5)] assms(7)]
  have "spill_at env (pu_cursor (cw_pumps w ! i)) [] pages w'"
    and url: "url = resume_url (pu_cursor (cw_pumps w ! i))" by (simp_all add: assms(5))
  from read_chunks_spilled [OF this(1), of ns] assms(2,3) url show ?thesis by simp
qed

text \<open>Two pages, read one at a time.\<close>

definition two_page_env :: cursor_env where
  "two_page_env =
     \<lparr>ce_page_json = (\<lambda>p. case p of PageRows rows \<Rightarrow> Some (if rows = [] then ''[]'' else ''[r]'') | _ \<Rightarrow> None),
      ce_json_page = (\<lambda>s. if s = ''[]'' then Some (PageRows []) else if s = ''[r]'' then Some (PageRows [[]]) else None),
      ce_io_error = ''io''\<rparr>"

definition evicted_world :: cursor_world where
  "evicted_world = (cursor_world_new demo_config demo_manager)
     \<lparr>cw_pumps := [set_phase (PumpSpilling evicted ''d'' [PageRows [[]], PageRows []])
        (pump_new demo_config ''s'' ''a'' False)]\<rparr>"

lemma spill_round_trip_witness:
  "fst (read_chunks two_page_env ''a'' [1, 1]
      (finish_spill two_page_env 0 SpillFine 0 evicted ''d'' [PageRows [[]], PageRows []] evicted_world))
     = [PageRows [[]], PageRows []]"
proof -
  let ?w = "finish_spill two_page_env 0 SpillFine 0 evicted ''d'' [PageRows [[]], PageRows []] evicted_world"
  have i: "0 < length (cw_pumps evicted_world)" and c: "pu_cursor (cw_pumps evicted_world ! 0) = ''a''"
    by (simp_all add: evicted_world_def set_phase_def pump_new_def)
  have ok: "spillable two_page_env [PageRows [[]], PageRows []]"
    by (simp add: spillable_def two_page_env_def)
  have none: "de_resume_url evicted = None" by (simp add: evicted_def driver_error_new_def)
  have "\<exists>e url. pu_phase (cw_pumps ?w ! 0) = PumpTerminal e \<and> de_resume_url e = Some url"
    by (simp add: evicted_world_def two_page_env_def cursor_eval)
  then obtain e url where "pu_phase (cw_pumps ?w ! 0) = PumpTerminal e" "de_resume_url e = Some url" by blast
  from spill_round_trip [OF i ok _ none refl this, of "[1, 1]"] c show ?thesis by simp
qed



end
