(* ===== verification/Cursor_Bookkeeping.thy ===== *)
theory Cursor_Bookkeeping
  imports Cursor_Delivery
begin

text \<open>
  The tables of open cursors: the lists per session and per connection against the entries, and
  the cap on a session's cursors.
\<close>

section \<open>Entries and lists\<close>

definition session_ids :: "string \<Rightarrow> cursor_registry \<Rightarrow> string list" where
  "session_ids session r = (case cr_per_session r session of None \<Rightarrow> [] | Some ids \<Rightarrow> ids)"

definition owned_by :: "string \<Rightarrow> cursor_registry \<Rightarrow> string set" where
  "owned_by session r = {c. \<exists>st. cr_entries r c = Some st \<and> cs_session st = session}"

definition opened_on :: "string \<Rightarrow> string \<Rightarrow> cursor_registry \<Rightarrow> string set" where
  "opened_on session connection r =
     {c. \<exists>st. cr_entries r c = Some st \<and> cs_session st = session \<and> cs_connection st = Some connection}"

text \<open>The lists name each open cursor once and no other, and no connection has an empty list.\<close>

definition listed :: "cursor_registry \<Rightarrow> bool" where
  "listed r \<longleftrightarrow>
     (\<forall>s. distinct (session_ids s r) \<and> set (session_ids s r) = owned_by s r)
     \<and> (\<forall>s k. distinct (connection_cursors s k r) \<and> set (connection_cursors s k r) = opened_on s k r)
     \<and> (\<forall>s k. cr_per_connection r (s, k) \<noteq> Some [])"

lemma session_ids_remove [simp]:
  "session_ids s (remove_session_cursor s' c r) =
     (if s = s' then filter (\<lambda>d. d \<noteq> c) (session_ids s r) else session_ids s r)"
  "session_ids s (remove_connection_cursor s' k c r) = session_ids s r"
  by (simp_all add: session_ids_def remove_session_cursor_def remove_connection_cursor_def Let_def
      split: option.splits)

lemma connection_cursors_remove [simp]:
  "connection_cursors s k (remove_session_cursor s' c r) = connection_cursors s k r"
  "connection_cursors s k (remove_connection_cursor s' k' c r) =
     (if s = s' \<and> k = k' then filter (\<lambda>d. d \<noteq> c) (connection_cursors s k r) else connection_cursors s k r)"
  by (auto simp: connection_cursors_def remove_session_cursor_def remove_connection_cursor_def Let_def
      split: option.splits)

lemma remove_entries [simp]:
  "cr_entries (remove_session_cursor s c r) = cr_entries r"
  "cr_entries (remove_connection_cursor s k c r) = cr_entries r"
  "cr_per_connection (remove_session_cursor s c r) = cr_per_connection r"
  by (simp_all add: remove_session_cursor_def remove_connection_cursor_def Let_def split: option.splits)

lemma remove_connection_nonempty:
  "\<forall>s k. cr_per_connection r (s, k) \<noteq> Some [] \<Longrightarrow>
   cr_per_connection (remove_connection_cursor s k c r) (s', k') \<noteq> Some []"
  by (auto simp: remove_connection_cursor_def Let_def split: option.splits)

lemma unlist_simps [simp]:
  "session_ids s (unlist_cursor c s' k r) =
     (if s = s' then filter (\<lambda>d. d \<noteq> c) (session_ids s r) else session_ids s r)"
  "connection_cursors s x (unlist_cursor c s' k r) =
     (if s = s' \<and> k = Some x then filter (\<lambda>d. d \<noteq> c) (connection_cursors s x r) else connection_cursors s x r)"
  "cr_entries (unlist_cursor c s' k r) = cr_entries r"
  by (auto simp: unlist_cursor_def Let_def split: option.splits)

lemma unlist_nonempty:
  "\<forall>s k. cr_per_connection r (s, k) \<noteq> Some [] \<Longrightarrow> cr_per_connection (unlist_cursor c s k r) (s', k') \<noteq> Some []"
  by (auto simp: unlist_cursor_def Let_def remove_connection_nonempty split: option.splits)

lemma ids_entries [simp]:
  "session_ids s (r\<lparr>cr_entries := m\<rparr>) = session_ids s r"
  "connection_cursors s k (r\<lparr>cr_entries := m\<rparr>) = connection_cursors s k r"
  by (simp_all add: session_ids_def connection_cursors_def)

lemma listed_forget: "listed r \<Longrightarrow> listed (forget_entry c r)"
  unfolding forget_entry_def
  by (auto simp: listed_def owned_by_def opened_on_def unlist_nonempty split: option.splits)

lemma listed_cong:
  assumes "listed r" and "cr_per_session r' = cr_per_session r" and "cr_per_connection r' = cr_per_connection r"
    and "\<And>c. map_option (\<lambda>st. (cs_session st, cs_connection st)) (cr_entries r' c)
           = map_option (\<lambda>st. (cs_session st, cs_connection st)) (cr_entries r c)"
  shows "listed r'"
proof -
  have "(\<exists>st. cr_entries r' c = Some st \<and> cs_session st = s \<and> P (cs_connection st))
      = (\<exists>st. cr_entries r c = Some st \<and> cs_session st = s \<and> P (cs_connection st))" for c s P
    using assms(4) [of c] by (cases "cr_entries r' c"; cases "cr_entries r c") auto
  from this [of _ _ "\<lambda>k. True"] this [of _ _ "\<lambda>k. k = Some x" for x]
  have "owned_by s r' = owned_by s r" "opened_on s k r' = opened_on s k r" for s k
    by (simp_all add: owned_by_def opened_on_def)
  with assms(1-3) show ?thesis by (simp add: listed_def session_ids_def connection_cursors_def)
qed

lemma listed_register:
  assumes "listed r" and "cr_entries r c = None"
  shows "listed (register_cursor s c k i r)"
proof -
  have ids: "session_ids s' (register_cursor s c k i r) = session_ids s' r @ (if s' = s then [c] else [])" for s'
    by (auto simp: register_cursor_def next_seq_def session_ids_def push_listed_def split: option.splits)
  have con: "connection_cursors s' k' (register_cursor s c k i r) =
      connection_cursors s' k' r @ (if s' = s \<and> k = Some k' then [c] else [])" for s' k'
    by (auto simp: register_cursor_def next_seq_def connection_cursors_def push_listed_def split: option.splits)
  have ent: "cr_entries (register_cursor s c k i r) =
      (cr_entries r)(c \<mapsto> \<lparr>cs_session = s, cs_connection = k, cs_last_ack = cr_clock r, cs_pump = i\<rparr>)"
    by (simp add: register_cursor_def next_seq_def)
  have "cr_per_connection (register_cursor s c k i r) (s', k') \<noteq> Some []" for s' k'
    using assms(1)
    by (auto simp: listed_def register_cursor_def next_seq_def push_listed_def split: option.splits if_splits)
  with assms show ?thesis
    by (auto simp: listed_def ids con ent owned_by_def opened_on_def)
qed

section \<open>Eviction\<close>

lemma registry_frame [simp]:
  "cw_registry (update_pump i f w) = cw_registry w"
  "cw_registry (call_on_evict x y w) = cw_registry w"
  "cw_registry (on_registry g w) = g (cw_registry w)"
  by (simp_all add: update_pump_def call_on_evict_def on_registry_def)

lemma evict_registry [simp]: "cw_registry (evict_cursor s c w) = forget_entry c (cw_registry w)"
  by (simp add: evict_cursor_def Let_def split: option.splits)

lemma forget_entries [simp]: "cr_entries (forget_entry c r) = (cr_entries r)(c := None)"
  by (auto simp: forget_entry_def split: option.splits)

lemma owned_elem: "listed r \<Longrightarrow> c \<in> set (session_ids s r) \<longleftrightarrow> (\<exists>st. cr_entries r c = Some st \<and> cs_session st = s)"
  by (simp add: listed_def owned_by_def)

lemma forget_ids:
  assumes "listed r"
  shows "session_ids s (forget_entry c r) = filter (\<lambda>d. d \<noteq> c) (session_ids s r)"
proof (cases "c \<in> set (session_ids s r)")
  case True
  with assms obtain st where "cr_entries r c = Some st" "cs_session st = s"
    by (auto simp: owned_elem)
  then show ?thesis by (simp add: forget_entry_def)
next
  case False
  then have "filter (\<lambda>d. d \<noteq> c) (session_ids s r) = session_ids s r"
    by (intro filter_True) auto
  with False assms show ?thesis
    by (auto simp: owned_elem forget_entry_def split: option.splits)
qed

lemma evicts_registry:
  assumes "listed (cw_registry w)"
  shows "listed (cw_registry (foldl (\<lambda>w c. evict_cursor s c w) w vs))
    \<and> cr_entries (cw_registry (foldl (\<lambda>w c. evict_cursor s c w) w vs))
        = (\<lambda>d. if d \<in> set vs then None else cr_entries (cw_registry w) d)
    \<and> session_ids s' (cw_registry (foldl (\<lambda>w c. evict_cursor s c w) w vs))
        = filter (\<lambda>d. d \<notin> set vs) (session_ids s' (cw_registry w))"
  using assms
proof (induction vs arbitrary: w)
  case (Cons v vs)
  from Cons.IH [of "evict_cursor s v w"] listed_forget [OF Cons.prems] show ?case
    by (auto simp: forget_ids [OF Cons.prems] fun_eq_iff intro: filter_cong)
qed simp

definition evicted_pump :: "pump \<Rightarrow> bool" where
  "evicted_pump pu \<longleftrightarrow> pc_cancel (pu_control pu) \<and> pc_cancel_reason (pu_control pu) = Some evicted"

lemma evict_keeps_evicted:
  "evicted_pump (cw_pumps w ! i) \<Longrightarrow> evicted_pump (cw_pumps (evict_cursor s c w) ! i)"
  by (cases "i < length (cw_pumps w)")
    (auto simp: evict_cursor_def Let_def update_pump_def update_control_def evicted_pump_def nth_list_update
      split: option.splits)

lemma evicts_keep_evicted:
  "evicted_pump (cw_pumps w ! i) \<Longrightarrow> evicted_pump (cw_pumps (foldl (\<lambda>w c. evict_cursor s c w) w vs) ! i)"
  by (induction vs arbitrary: w) (auto intro: evict_keeps_evicted)

lemma evicts_evict:
  assumes "v \<in> set vs" and "cr_entries (cw_registry w) v = Some st" and "cs_pump st < length (cw_pumps w)"
  shows "evicted_pump (cw_pumps (foldl (\<lambda>w c. evict_cursor s c w) w vs) ! cs_pump st)"
  using assms
proof (induction vs arbitrary: w)
  case (Cons u vs)
  show ?case
  proof (cases "u = v")
    case True
    with Cons.prems have "evicted_pump (cw_pumps (evict_cursor s u w) ! cs_pump st)"
      by (simp add: evict_cursor_def Let_def update_pump_def update_control_def evicted_pump_def)
    then show ?thesis by (simp add: evicts_keep_evicted)
  next
    case False
    with Cons.IH [of "evict_cursor s u w"] Cons.prems show ?thesis by (simp add: length_evict)
  qed
qed simp

lemma length_evicts: "length (cw_pumps (foldl (\<lambda>w c. evict_cursor s c w) w vs)) = length (cw_pumps w)"
  by (induction vs arbitrary: w) (simp_all add: length_evict)

section \<open>The choice of victims\<close>

definition ack_of :: "cursor_registry \<Rightarrow> string \<Rightarrow> u64" where
  "ack_of r c = (case cr_entries r c of None \<Rightarrow> 0 | Some st \<Rightarrow> cs_last_ack st)"

lemma ranked_ids:
  assumes "listed r"
  shows "List.map_filter (\<lambda>c. map_option (\<lambda>s. (c, cs_last_ack s)) (cr_entries r c)) (session_ids s r)
       = map (\<lambda>c. (c, ack_of r c)) (session_ids s r)"
proof -
  have "List.map_filter (\<lambda>c. map_option (\<lambda>s. (c, cs_last_ack s)) (cr_entries r c)) ids
      = map (\<lambda>c. (c, ack_of r c)) ids" if "\<forall>c \<in> set ids. cr_entries r c \<noteq> None" for ids
    using that by (induction ids) (auto simp: map_filter_simps ack_of_def)
  moreover have "\<forall>c \<in> set (session_ids s r). cr_entries r c \<noteq> None" using assms by (auto simp: owned_elem)
  ultimately show ?thesis by blast
qed

text \<open>The victims leave room for one more, and were acknowledged no later than who stays.\<close>

lemma victims_spec:
  assumes "listed r" and "0 < cap" and "vs = select_victims s cap r"
  shows "distinct vs \<and> set vs \<subseteq> set (session_ids s r)
    \<and> length vs = length (session_ids s r) - (cap - 1)
    \<and> (\<forall>v u. v \<in> set vs \<and> u \<in> set (session_ids s r) - set vs \<longrightarrow> ack_of r v \<le> ack_of r u)"
proof (cases "length (session_ids s r) < cap")
  case True
  with assms(2,3) have "vs = []" by (auto simp: select_victims_def session_ids_def split: option.splits)
  with True assms(2) show ?thesis by auto
next
  case False
  let ?ids = "session_ids s r" and ?f = "\<lambda>c. (c, ack_of r c)"
  let ?ranked = "sort_key snd (map ?f ?ids)"
  let ?n = "length ?ids - (cap - 1)"
  have vs: "vs = map fst (take ?n ?ranked)"
    using False assms ranked_ids [OF assms(1), of s]
    by (auto simp: select_victims_def session_ids_def Let_def split: option.splits)
  have m: "mset (map fst ?ranked) = mset ?ids" by (simp add: multiset.map_comp comp_def)
  have d: "distinct (map fst ?ranked)"
    using assms(1) mset_eq_imp_distinct_iff [OF m] by (simp add: listed_def)
  have pairs: "\<And>x. x \<in> set ?ranked \<Longrightarrow> x = ?f (fst x)" by auto
  have split: "map fst ?ranked = vs @ map fst (drop ?n ?ranked)"
    by (simp add: vs flip: map_append)
  have set_ids: "set ?ids = set (map fst ?ranked)" using mset_eq_setD [OF m] by simp
  have le: "ack_of r v \<le> ack_of r u" if v: "v \<in> set vs" and u: "u \<in> set ?ids - set vs" for v u
  proof -
    from v vs obtain x where x: "x \<in> set (take ?n ?ranked)" "fst x = v" by auto
    from u set_ids split have "u \<in> set (map fst (drop ?n ?ranked))" by auto
    then obtain y where y: "y \<in> set (drop ?n ?ranked)" "fst y = u" by auto
    have "sorted (map snd (take ?n ?ranked @ drop ?n ?ranked))" by simp
    with x(1) y(1) have "snd x \<le> snd y" unfolding map_append sorted_append by auto
    with pairs [OF in_set_takeD [OF x(1)]] pairs [OF in_set_dropD [OF y(1)]] x(2) y(2) show ?thesis
      by (metis snd_conv)
  qed
  from d split have "distinct vs" by simp
  moreover from set_ids split have "set vs \<subseteq> set ?ids" by auto
  moreover from vs have "length vs = ?n" by simp
  ultimately show ?thesis using le by blast
qed

lemma listed_retention [simp]: "listed (r\<lparr>cr_retentions := m\<rparr>) = listed r"
  by (simp add: listed_def session_ids_def connection_cursors_def owned_by_def opened_on_def)

lemma ids_retention [simp]: "session_ids s (r\<lparr>cr_retentions := m\<rparr>) = session_ids s r"
  by (simp add: session_ids_def)

lemma victims_retention [simp]: "select_victims s cap (r\<lparr>cr_retentions := m\<rparr>) = select_victims s cap r"
  by (simp add: select_victims_def split: option.split)

lemma ids_register:
  "session_ids s' (register_cursor s c k i r) = session_ids s' r @ (if s' = s then [c] else [])"
  by (auto simp: register_cursor_def next_seq_def session_ids_def push_listed_def split: option.splits)

lemma entries_register:
  "cr_entries (register_cursor s c k i r) =
     (cr_entries r)(c \<mapsto> \<lparr>cs_session = s, cs_connection = k, cs_last_ack = cr_clock r, cs_pump = i\<rparr>)"
  by (simp add: register_cursor_def next_seq_def)

lemma session_cursor_count_ids: "session_cursor_count s r = length (session_ids s r)"
  by (simp add: session_cursor_count_def session_ids_def split: option.splits)

section \<open>All steps\<close>

text \<open>What the two kinds of lists are about.\<close>

definition tables ::
  "cursor_registry \<Rightarrow> (string \<rightharpoonup> cursor_state) \<times> (string \<rightharpoonup> string list) \<times> (string \<times> string \<rightharpoonup> string list)" where
  "tables r = (cr_entries r, cr_per_session r, cr_per_connection r)"

lemma tables_eqD:
  "tables r' = tables r \<Longrightarrow> listed r' = listed r \<and> cr_entries r' = cr_entries r"
  by (simp add: tables_def listed_def session_ids_def connection_cursors_def owned_by_def opened_on_def)

lemma tables_frame [simp]:
  "tables (cw_registry (set_retention c r w)) = tables (cw_registry w)"
  "tables (cw_registry (put_retention c t w)) = tables (cw_registry w)"
  "tables (cw_registry (set_spill c s w)) = tables (cw_registry w)"
  "tables (cw_registry (on_spill f c w)) = tables (cw_registry w)"
  "tables (set_config config r0) = tables r0"
  "tables (set_on_evict r0) = tables r0"
  by (simp_all add: tables_def set_retention_def put_retention_def set_spill_def on_spill_def
      set_config_def set_on_evict_def)

lemma tables_drop_spill [simp]: "tables (cw_registry (drop_spill c w)) = tables (cw_registry w)"
  by (simp add: drop_spill_def split: option.splits)

lemma tables_reap [simp]: "tables (cw_registry (reap_expired_spills now cs w)) = tables (cw_registry w)"
proof -
  have "tables (cw_registry (foldl (\<lambda>w c. drop_spill c w) w cs)) = tables (cw_registry w)" for cs
    by (induction cs arbitrary: w) simp_all
  then show ?thesis by (simp add: reap_expired_spills_def)
qed

lemma tables_calls [simp]:
  "tables (cw_registry (pause b c w)) = tables (cw_registry w)"
  "tables (cw_registry (page_received c w)) = tables (cw_registry w)"
  "tables (cw_registry (page_processed c w)) = tables (cw_registry w)"
  "tables (cw_registry (take_page_retention c w)) = tables (cw_registry w)"
  "tables (cw_registry (reserve_held t r n w)) = tables (cw_registry w)"
  "tables (cw_registry (deliver i p w)) = tables (cw_registry w)"
  "tables (cw_registry (snd (read_spill_pages env c k w))) = tables (cw_registry w)"
  "tables (cw_registry (finish_spill env now fault i reason dir pages w)) = tables (cw_registry w)"
  by (simp_all add: pause_def page_received_def page_processed_def take_page_retention_def reserve_held_def
      deliver_def read_spill_pages_def finish_spill_def keep_spill_def Let_def
      split: option.splits prod.splits sum.splits spill_fault.splits bool.splits)

lemma tables_run:
  "pump_run env now fault late i w = Some w' \<Longrightarrow> tables (cw_registry w') = tables (cw_registry w)"
  by (auto simp: pump_run_def Let_def split: if_splits pump_phase.splits list.splits)

lemma tables_move: "move_pump i f w = Some w' \<Longrightarrow> tables (cw_registry w') = tables (cw_registry w)"
  by (auto simp: move_pump_def split: if_splits)

text \<open>A pump keeps its session and its cursor.\<close>

lemma move_names: "pump_move late pu pu' \<Longrightarrow> pu_session pu' = pu_session pu \<and> pu_cursor pu' = pu_cursor pu"
  by (erule pump_move.cases)
    (auto simp: update_control_def driver_send_def driver_close_def consumer_recv_def consumer_drop_def
      set_phase_def push_page_def begin_terminal_def send_page_def send_error_def Let_def
      split: if_splits list.splits)

lemma moves_names: "pump_moves late pu pu' \<Longrightarrow> pu_session pu' = pu_session pu \<and> pu_cursor pu' = pu_cursor pu"
  by (induction rule: rtranclp_induct) (auto dest: move_names)

lemma follow_names:
  assumes "pumps_follow late ps qs"
  shows "take (length ps) (map pu_cursor qs) = map pu_cursor ps"
    and "i < length ps \<Longrightarrow> pu_session (qs ! i) = pu_session (ps ! i) \<and> pu_cursor (qs ! i) = pu_cursor (ps ! i)"
proof -
  have len: "length ps \<le> length qs"
    and names: "i < length ps \<Longrightarrow> pu_session (qs ! i) = pu_session (ps ! i) \<and> pu_cursor (qs ! i) = pu_cursor (ps ! i)" for i
    using assms by (auto simp: pumps_follow_def dest: moves_names)
  then show "take (length ps) (map pu_cursor qs) = map pu_cursor ps"
    by (intro nth_equalityI) auto
  show "i < length ps \<Longrightarrow> pu_session (qs ! i) = pu_session (ps ! i) \<and> pu_cursor (qs ! i) = pu_cursor (ps ! i)"
    by (rule names)
qed

text \<open>The lists are right, and each entry names the pump of its cursor and session.\<close>

definition pumps_linked :: "cursor_registry \<Rightarrow> pump list \<Rightarrow> bool" where
  "pumps_linked r ps \<longleftrightarrow>
     (\<forall>c st. cr_entries r c = Some st \<longrightarrow>
        cs_pump st < length ps \<and> pu_cursor (ps ! cs_pump st) = c \<and> pu_session (ps ! cs_pump st) = cs_session st)"

lemma linked_follow:
  assumes "pumps_linked r ps" and "pumps_follow late ps qs" and "cr_entries r' \<subseteq>\<^sub>m cr_entries r"
  shows "pumps_linked r' qs"
  unfolding pumps_linked_def
proof (intro allI impI)
  fix c st
  assume "cr_entries r' c = Some st"
  with assms(3) have "cr_entries r c = Some st" by (metis domI map_le_def)
  with assms(1) have "cs_pump st < length ps" "pu_cursor (ps ! cs_pump st) = c"
    "pu_session (ps ! cs_pump st) = cs_session st" by (auto simp: pumps_linked_def)
  with follow_names(2) [OF assms(2)] assms(2)
  show "cs_pump st < length qs \<and> pu_cursor (qs ! cs_pump st) = c \<and> pu_session (qs ! cs_pump st) = cs_session st"
    by (auto simp: pumps_follow_def)
qed

lemma begin_tables:
  assumes "listed (cw_registry w)"
  shows "listed (cw_registry (begin_opening s c k t b w))
    \<and> cr_entries (cw_registry (begin_opening s c k t b w)) \<subseteq>\<^sub>m cr_entries (cw_registry w)"
proof -
  have r: "listed (cw_registry (set_retention c r v)) = listed (cw_registry v)
      \<and> cr_entries (cw_registry (set_retention c r v)) = cr_entries (cw_registry v)" for r v
    by (rule tables_eqD) simp
  from r evicts_registry [of w] evicts_registry [of "set_retention c r w" for r] assms show ?thesis
    by (auto simp: begin_opening_def open_begin_def Let_def map_le_def split: option.splits)
qed

lemma remove_tables:
  assumes "listed (cw_registry w)"
  shows "listed (cw_registry (remove_cursor c w))
    \<and> cr_entries (cw_registry (remove_cursor c w)) \<subseteq>\<^sub>m cr_entries (cw_registry w)"
proof -
  have r: "listed (cw_registry (set_retention c None w)) = listed (cw_registry w)
      \<and> cr_entries (cw_registry (set_retention c None w)) = cr_entries (cw_registry w)"
    by (rule tables_eqD) simp
  with assms show ?thesis
    by (auto simp: remove_cursor_def Let_def map_le_def listed_forget split: option.splits)
qed

lemma touch_tables:
  assumes "listed (cw_registry w)" and "pumps_linked (cw_registry w) ps"
  shows "listed (cw_registry (touch_cursor c w)) \<and> pumps_linked (cw_registry (touch_cursor c w)) ps"
proof
  show "listed (cw_registry (touch_cursor c w))"
    by (rule listed_cong [OF assms(1)]) (auto simp: touch_cursor_def next_seq_def split: option.splits)
  show "pumps_linked (cw_registry (touch_cursor c w)) ps"
    using assms(2) by (auto simp: pumps_linked_def touch_cursor_def next_seq_def split: option.splits if_splits)
qed

text \<open>The supervisor takes the session from the pump, and the entry's is the same.\<close>

lemma panic_tables:
  assumes "observer_panics i w = Some w'" and "listed (cw_registry w)" and "pumps_linked (cw_registry w) (cw_pumps w)"
    and "distinct (map pu_cursor (cw_pumps w))"
  shows "listed (cw_registry w') \<and> cr_entries (cw_registry w') \<subseteq>\<^sub>m cr_entries (cw_registry w)"
proof -
  let ?c = "pu_cursor (cw_pumps w ! i)" and ?s = "pu_session (cw_pumps w ! i)"
  have i: "i < length (cw_pumps w)" using assms(1) by (auto simp: observer_panics_def split: if_splits)
  have forget: "unlist_cursor ?c ?s (Option.bind (cr_entries r ?c) cs_connection) (r\<lparr>cr_entries := (cr_entries r)(?c := None)\<rparr>)
      = (if cr_entries r ?c = None then unlist_cursor ?c ?s None r else forget_entry ?c r)"
    if "cr_entries r = cr_entries (cw_registry w)" for r
  proof (cases "cr_entries r ?c")
    case None
    then have "r\<lparr>cr_entries := (cr_entries r)(?c := None)\<rparr> = r" by (simp add: fun_upd_idem)
    with None show ?thesis by simp
  next
    case (Some st)
    with assms(3) that have st: "cs_pump st < length (cw_pumps w)" "pu_cursor (cw_pumps w ! cs_pump st) = ?c"
      "pu_session (cw_pumps w ! cs_pump st) = cs_session st" by (auto simp: pumps_linked_def)
    with assms(4) i have "cs_pump st = i" by (simp add: distinct_conv_nth) (metis nth_map)
    with Some st show ?thesis by (simp add: forget_entry_def)
  qed
  have unlisted: "listed (unlist_cursor ?c ?s None r)" if "listed r" "cr_entries r ?c = None" for r
  proof -
    have "?c \<notin> set (session_ids ?s r)" using that by (auto simp: listed_def owned_by_def)
    with that show ?thesis
      by (auto simp: listed_def owned_by_def opened_on_def unlist_nonempty)
  qed
  have "\<exists>v. tables (cw_registry v) = tables (cw_registry w)
      \<and> w' = on_registry (\<lambda>r. unlist_cursor ?c ?s (Option.bind (cr_entries r ?c) cs_connection)
             (r\<lparr>cr_entries := (cr_entries r)(?c := None)\<rparr>))
           (update_pump i (set_phase (PumpFailing (driver_error_new DriverInternal ''cursor pump task panicked''))) v)"
    using assms(1)
    by (auto simp: observer_panics_def Let_def split: if_splits pump_phase.splits option.splits prod.splits sum.splits)
      (rule exI, rule conjI [OF _ refl], simp)
  then obtain v where v: "tables (cw_registry v) = tables (cw_registry w)"
    and w': "w' = on_registry (\<lambda>r. unlist_cursor ?c ?s (Option.bind (cr_entries r ?c) cs_connection)
             (r\<lparr>cr_entries := (cr_entries r)(?c := None)\<rparr>))
           (update_pump i (set_phase (PumpFailing (driver_error_new DriverInternal ''cursor pump task panicked''))) v)"
    by blast
  from tables_eqD [OF v] assms(2) have r: "listed (cw_registry v)" "cr_entries (cw_registry v) = cr_entries (cw_registry w)"
    by simp_all
  have "cw_registry w' = (if cr_entries (cw_registry v) ?c = None then unlist_cursor ?c ?s None (cw_registry v)
      else forget_entry ?c (cw_registry v))"
    unfolding w' registry_frame by (rule forget [OF r(2)])
  with r unlisted [OF r(1)] listed_forget [OF r(1), of ?c] show ?thesis
    by (auto simp: map_le_def)
qed

text \<open>The tables and the pumps of a world.\<close>

definition tables_ok :: "cursor_world \<Rightarrow> bool" where
  "tables_ok w \<longleftrightarrow> listed (cw_registry w) \<and> pumps_linked (cw_registry w) (cw_pumps w)"

lemma tables_ok_same:
  assumes "tables_ok w" and "pumps_follow late (cw_pumps w) (cw_pumps w')"
    and "tables (cw_registry w') = tables (cw_registry w)"
  shows "tables_ok w'"
proof -
  from tables_eqD [OF assms(3)]
  have "listed (cw_registry w') = listed (cw_registry w)" "cr_entries (cw_registry w') = cr_entries (cw_registry w)"
    by auto
  with linked_follow [OF _ assms(2), of "cw_registry w" "cw_registry w'"] assms(1) show ?thesis
    by (simp add: tables_ok_def)
qed

lemma finish_tables:
  assumes "finish_opening k w = Some w'" and "tables_ok w"
  shows "tables_ok w'"
proof -
  let ?ow = "cw_opening w ! k" and ?r = "cw_registry w"
  from assms(1) consider "w' = set_retention (ow_cursor ?ow) None
        (w\<lparr>cw_opening := take k (cw_opening w) @ drop (Suc k) (cw_opening w)\<rparr>)"
    | "cr_entries ?r (ow_cursor ?ow) = None"
      "cw_registry w' = register_cursor (ow_session ?ow) (ow_cursor ?ow) (ow_connection ?ow) (length (cw_pumps w)) ?r"
      "cw_pumps w' = cw_pumps w @ [pump_new (ow_config ?ow) (ow_session ?ow) (ow_cursor ?ow) (ow_observed ?ow)]"
    by (auto simp: finish_opening_def open_finish_def Let_def split: if_splits)
  then show ?thesis
  proof cases
    case 1
    then show ?thesis by (intro tables_ok_same [OF assms(2), of False]) simp_all
  next
    case 2
    from assms(2) have "listed ?r" "pumps_linked ?r (cw_pumps w)" by (simp_all add: tables_ok_def)
    have "listed (cw_registry w')" using \<open>listed ?r\<close> 2(1) unfolding 2(2) by (rule listed_register)
    moreover have "pumps_linked (cw_registry w') (cw_pumps w')"
      using \<open>pumps_linked ?r (cw_pumps w)\<close> unfolding pumps_linked_def 2(2,3) entries_register
      by (auto simp: nth_append pump_new_def less_Suc_eq)
    ultimately show ?thesis by (simp add: tables_ok_def)
  qed
qed

lemma perform_tables:
  assumes "perform env op w = Some w'" and "tables_ok w" and "distinct (map pu_cursor (cw_pumps w))"
  shows "tables_ok w'"
proof -
  have follow: "pumps_follow True (cw_pumps w) (cw_pumps w')" using assms(1) by (rule perform_follows) simp
  from assms(2) have ok: "listed (cw_registry w)" "pumps_linked (cw_registry w) (cw_pumps w)"
    by (simp_all add: tables_ok_def)
  have shrink: "tables_ok w'" if "listed (cw_registry w') \<and> cr_entries (cw_registry w') \<subseteq>\<^sub>m cr_entries (cw_registry w)"
    using that linked_follow [OF ok(2) follow] by (simp add: tables_ok_def)
  have same: "tables_ok w'" if "tables (cw_registry w') = tables (cw_registry w)"
    using tables_ok_same [OF assms(2) follow that] .
  show ?thesis
  proof (cases op)
    case (OpenBegin s c k t b)
    with assms(1) have "w' = begin_opening s c k t b w" by simp
    with begin_tables [OF ok(1)] show ?thesis by (intro shrink) simp
  next
    case (OpenFinish k)
    with assms finish_tables show ?thesis by simp
  next
    case (Touch c)
    with assms(1) touch_tables [OF ok] show ?thesis by (auto simp: tables_ok_def)
  next
    case (RemoveCursor c)
    with assms(1) have "w' = remove_cursor c w" by simp
    with remove_tables [OF ok(1)] show ?thesis by (intro shrink) simp
  next
    case (ObserverPanics i)
    with assms(1) panic_tables [OF _ ok assms(3)] show ?thesis by (intro shrink) simp
  qed (rule same, insert assms(1), force simp: tables_run tables_move drop_held_def split: if_splits)+
qed

text \<open>Cursors of a run are never renamed, so they are distinct all along when they are at its end.\<close>

lemma perform_distinct:
  assumes "perform env op w = Some w'" and "distinct (map pu_cursor (cw_pumps w'))"
  shows "distinct (map pu_cursor (cw_pumps w))"
proof -
  have "pumps_follow True (cw_pumps w) (cw_pumps w')" using assms(1) by (rule perform_follows) simp
  from follow_names(1) [OF this] assms(2) show ?thesis by (metis distinct_take)
qed

lemma steps_tables:
  assumes "cursor_steps env w ops w'" and "tables_ok w" and "distinct (map pu_cursor (cw_pumps w'))"
  shows "tables_ok w'"
  using assms(1,3)
proof (induction rule: cursor_steps.induct)
  case (steps_more ops w' op w'')
  with perform_distinct [OF steps_more.hyps(2)] perform_tables [OF steps_more.hyps(2)] show ?case by blast
qed (use assms(2) in simp)

lemma tables_ok_new: "tables_ok (cursor_world_new config m)"
  by (simp add: tables_ok_def cursor_world_new_def cursor_registry_new_def listed_def pumps_linked_def session_ids_def
      connection_cursors_def owned_by_def opened_on_def)

section \<open>Properties\<close>

text \<open>
  C14: Eviction by the cap. Opening a cursor, when no other call comes between, keeps the session
  within its cap and evicts nobody while there is room: it evicts just enough of the session's cursors
  for one more to fit, those acknowledged least recently, cancels their pumps with the eviction error,
  and leaves every other session's cursors and all other entries as they are.
\<close>

theorem opening_evicts_least_recent:
  assumes "listed (cw_registry w)" and "cr_entries (cw_registry w) c = None"
    and "cap = cc_max_per_session (cr_config (cw_registry w))" and "0 < cap"
    and "r = cw_registry w" and "wrap s c k t b w = (res, w')"
  shows "\<exists>victims. res = Inr (length (cw_pumps w)) \<and> set victims \<subseteq> owned_by s r
     \<and> session_cursor_count s (cw_registry w') = min (session_cursor_count s r + 1) cap
     \<and> (\<forall>s'. session_ids s' (cw_registry w') =
          filter (\<lambda>d. d \<notin> set victims) (session_ids s' r) @ (if s' = s then [c] else []))
     \<and> (\<forall>v u. v \<in> set victims \<and> u \<in> owned_by s r - set victims \<longrightarrow> ack_of r v \<le> ack_of r u)
     \<and> (\<forall>d. d \<noteq> c \<longrightarrow> cr_entries (cw_registry w') d = (if d \<in> set victims then None else cr_entries r d))
     \<and> (\<forall>v st. v \<in> set victims \<and> cr_entries r v = Some st \<and> cs_pump st < length (cw_pumps w)
          \<longrightarrow> evicted_pump (cw_pumps w' ! cs_pump st))"
proof -
  define w0 where "w0 = (case t of None \<Rightarrow> w
      | Some t \<Rightarrow> set_retention c (Some \<lparr>ct_tenant = t, ct_queued = [], ct_current = None\<rparr>) w)"
  define vs where "vs = select_victims s cap r"
  define w1 where "w1 = foldl (\<lambda>w c. evict_cursor s c w) w0 vs"
  have w0: "listed (cw_registry w0)" "\<And>s. session_ids s (cw_registry w0) = session_ids s r"
    "cr_entries (cw_registry w0) = cr_entries r" "cr_config (cw_registry w0) = cr_config r"
    "select_victims s cap (cw_registry w0) = vs" "cw_pumps w0 = cw_pumps w"
    using assms(1,5) by (auto simp: w0_def set_retention_def vs_def split: option.splits)
  note w1 = evicts_registry [OF w0(1), where vs = vs and s = s, folded w1_def]
  have p1: "length (cw_pumps w1) = length (cw_pumps w)" by (simp add: w1_def length_evicts w0)
  from assms(1,4,5) have V: "set vs \<subseteq> set (session_ids s r)" "distinct vs"
      "length vs = length (session_ids s r) - (cap - 1)"
      "\<And>v u. v \<in> set vs \<and> u \<in> set (session_ids s r) - set vs \<longrightarrow> ack_of r v \<le> ack_of r u"
    using victims_spec [of r cap vs s, OF _ _ vs_def] by simp_all
  have open1: "open_begin s c t w = (Inr (), w1)"
    using assms(3,4) w0(4,5) by (simp add: open_begin_def w0_def [symmetric] Let_def w1_def assms(5))
  have "cr_entries (cw_registry w1) c = None" using w1 w0(3) assms(2,5) by simp
  with assms(6) have res: "res = Inr (length (cw_pumps w))"
    and w': "cw_registry w' = register_cursor s c k (length (cw_pumps w)) (cw_registry w1)"
      "cw_pumps w' = cw_pumps w1 @ [pump_new (cr_config r) s c b]"
    by (auto simp: wrap_def open1 open_finish_def Let_def p1 assms(5))
  have ids: "session_ids s' (cw_registry w') = filter (\<lambda>d. d \<notin> set vs) (session_ids s' r) @ (if s' = s then [c] else [])" for s'
    using w1 by (simp add: w' ids_register w0)
  have dist: "distinct (session_ids s r)" and owned: "set (session_ids s r) = owned_by s r"
    using assms(1,5) by (simp_all add: listed_def)
  have "length (filter (\<lambda>d. d \<notin> set vs) (session_ids s r)) = length (session_ids s r) - length vs"
  proof -
    have "set (filter (\<lambda>d. d \<notin> set vs) (session_ids s r)) = set (session_ids s r) - set vs" by auto
    then show ?thesis
      using dist V(1,2) by (metis card_Diff_subset distinct_card distinct_filter List.finite_set)
  qed
  then have "session_cursor_count s (cw_registry w') = min (session_cursor_count s r + 1) cap"
    using V(3) assms(4) by (simp add: session_cursor_count_ids ids min_def)
  moreover have "evicted_pump (cw_pumps w' ! cs_pump st)"
    if "v \<in> set vs" "cr_entries r v = Some st" "cs_pump st < length (cw_pumps w)" for v st
    using that evicts_evict [of v vs w0 st s] p1 by (simp add: w' w0 w1_def nth_append)
  moreover have "cr_entries (cw_registry w') d = (if d \<in> set vs then None else cr_entries r d)" if "d \<noteq> c" for d
    using w1 that by (simp add: w' entries_register w0)
  ultimately show ?thesis using res ids V owned by blast
qed

text \<open>The world in which a second cursor of a session capped at one is opened.\<close>

definition one_open :: cursor_world where
  "one_open = snd (wrap ''s'' ''a'' (Some ''k'') None False (cursor_world_new demo_config demo_manager))"

lemma opening_evicts_least_recent_witness:
  "\<exists>w'. wrap ''s'' ''b'' None None False one_open = (Inr 1, w')
     \<and> session_cursor_count ''s'' (cw_registry w') = 1
     \<and> cr_entries (cw_registry w') ''a'' = None \<and> evicted_pump (cw_pumps w' ! 0)"
proof -
  have w: "cw_registry one_open = \<lparr>cr_config = demo_config,
       cr_entries = [''a'' \<mapsto> \<lparr>cs_session = ''s'', cs_connection = Some ''k'', cs_last_ack = 0, cs_pump = 0\<rparr>],
       cr_per_session = [''s'' \<mapsto> [''a'']], cr_per_connection = [(''s'', ''k'') \<mapsto> [''a'']], cr_clock = 1,
       cr_on_evict = False, cr_spills = Map.empty, cr_retentions = Map.empty\<rparr>"
    "length (cw_pumps one_open) = 1"
    by (simp_all add: one_open_def wrap_def cursor_eval)
  have ok: "listed (cw_registry one_open)"
    by (auto simp: w listed_def session_ids_def owned_by_def connection_cursors_def opened_on_def)
  obtain res w' where wr: "wrap ''s'' ''b'' None None False one_open = (res, w')" by (cases "wrap ''s'' ''b'' None None False one_open")
  have "cr_entries (cw_registry one_open) ''b'' = None" "cc_max_per_session (cr_config (cw_registry one_open)) = 1"
    "session_ids ''s'' (cw_registry one_open) = [''a'']"
    by (simp_all add: w demo_config_def session_ids_def)
  with opening_evicts_least_recent [OF ok _ _ _ refl wr, of 1] obtain victims where v:
    "res = Inr (length (cw_pumps one_open))" "session_cursor_count ''s'' (cw_registry w') = 1"
    "\<forall>s'. session_ids s' (cw_registry w') = filter (\<lambda>d. d \<notin> set victims)
        (session_ids s' (cw_registry one_open)) @ (if s' = ''s'' then [''b''] else [])"
    "\<forall>d. d \<noteq> ''b'' \<longrightarrow> cr_entries (cw_registry w') d =
        (if d \<in> set victims then None else cr_entries (cw_registry one_open) d)"
    "\<forall>v st. v \<in> set victims \<and> cr_entries (cw_registry one_open) v = Some st
        \<and> cs_pump st < length (cw_pumps one_open) \<longrightarrow> evicted_pump (cw_pumps w' ! cs_pump st)"
    by (auto simp: session_cursor_count_ids)
  from v(2) spec [OF v(3), of "''s''"] have "''a'' \<in> set victims"
    by (simp add: session_cursor_count_ids w session_ids_def split: if_splits)
  with v(1,2) spec [OF v(4), of "''a''"] spec [OF v(5), of "''a''"] w show ?thesis by (simp add: wr)
qed

text \<open>
  Bookkeeping. At every point of every interleaving, in which no cursor identifier is used twice,
  the lists of cursors per session and per connection name exactly the open cursors of that session or
  connection, each once, and no closed connection keeps an empty list; each open cursor's entry names
  the pump that was started for it. This survives eviction, close, concurrent opening and a panicking
  observer.
\<close>

theorem cursors_are_listed:
  assumes "cursor_steps env (cursor_world_new config m) ops w" and "distinct (map pu_cursor (cw_pumps w))"
  shows "listed (cw_registry w) \<and> pumps_linked (cw_registry w) (cw_pumps w)"
  using steps_tables [OF assms(1) tables_ok_new assms(2)] by (simp add: tables_ok_def)

lemma cursors_are_listed_witness:
  "\<exists>w. cursor_steps spill_env (cursor_world_new demo_config demo_manager) spill_ops w
     \<and> listed (cw_registry w) \<and> pumps_linked (cw_registry w) (cw_pumps w)"
proof -
  have "\<exists>w. perform_all spill_env spill_ops (cursor_world_new demo_config demo_manager) = Some w
      \<and> map pu_cursor (cw_pumps w) = [''a'', ''b'']"
    unfolding spill_ops_def by (simp add: cursor_eval map_filter_simps)
  then obtain w where w: "perform_all spill_env spill_ops (cursor_world_new demo_config demo_manager) = Some w"
    "map pu_cursor (cw_pumps w) = [''a'', ''b'']" by (elim exE conjE)
  from perform_all_steps [OF w(1)] have s: "cursor_steps spill_env (cursor_world_new demo_config demo_manager) spill_ops w" .
  have "distinct (map pu_cursor (cw_pumps w))" unfolding w(2) by simp
  from cursors_are_listed [OF s this] have "listed (cw_registry w)" "pumps_linked (cw_registry w) (cw_pumps w)"
    by (rule conjunct1, rule conjunct2)
  with s show ?thesis by (intro exI conjI)
qed

text \<open>
  The cap can be exceeded. Choosing and evicting the victims is one step, registering the new
  cursor another: two openings of one session that overlap both find room, and the session ends with
  two open cursors under a cap of one, though the configuration promises the cap as a maximum of
  simultaneously open cursors.
\<close>

theorem overlapping_opens_exceed_cap:
  "\<exists>w. cursor_steps spill_env (cursor_world_new demo_config demo_manager)
        [OpenBegin ''s'' ''a'' None None False, OpenBegin ''s'' ''b'' None None False,
         OpenFinish 0, OpenFinish 0] w
     \<and> cc_max_per_session (cr_config (cw_registry w)) = 1
     \<and> session_cursor_count ''s'' (cw_registry w) = 2"
proof -
  have "\<exists>w. perform_all spill_env
        [OpenBegin ''s'' ''a'' None None False, OpenBegin ''s'' ''b'' None None False,
         OpenFinish 0, OpenFinish 0] (cursor_world_new demo_config demo_manager) = Some w
     \<and> cc_max_per_session (cr_config (cw_registry w)) = 1
     \<and> session_cursor_count ''s'' (cw_registry w) = 2"
    by (simp add: cursor_eval map_filter_simps session_cursor_count_def)
  then obtain w where w: "perform_all spill_env
        [OpenBegin ''s'' ''a'' None None False, OpenBegin ''s'' ''b'' None None False,
         OpenFinish 0, OpenFinish 0] (cursor_world_new demo_config demo_manager) = Some w"
    "cc_max_per_session (cr_config (cw_registry w)) = 1"
    "session_cursor_count ''s'' (cw_registry w) = 2"
    by (elim exE conjE)
  from perform_all_steps [OF w(1)] w(2,3) show ?thesis by (intro exI conjI)
qed

end
