(* ===== verification/Cursor_Memory.thy ===== *)
theory Cursor_Memory
  imports Cursor_Delivery
begin

text \<open>
  The tenant memory of results: the manager's usage against the guards of pages that wait or are
  being processed, of spill files, and of callers.
\<close>

section \<open>The manager under a ceiling\<close>

text \<open>
  With an operator ceiling below the largest \<^verbatim>\<open>u64\<close> no admitted sum saturates, so usage of the
  retained bytes is exact whatever else is reserved.
\<close>

definition retained_accounts :: "u64 \<Rightarrow> permit multiset \<Rightarrow> resource_manager \<Rightarrow> bool" where
  "retained_accounts l M m \<longleftrightarrow>
     limit_for (rm_ceilings m) RetainedResultBytes = Some l \<and> l < - 1
     \<and> (\<forall>t. unat (usage_of m t RetainedResultBytes) = outstanding M t RetainedResultBytes)"

lemma unsaturated: "sat_add a b \<le> l \<Longrightarrow> l < - 1 \<Longrightarrow> unat (sat_add a b) = unat a + unat (b :: u64)"
  by (simp add: word_le_nat_alt word_less_nat_alt sat_unat)

interpretation retained: permit_ledger take_permit give_permit "retained_accounts l" "\<lambda>_. True" for l
proof
  fix M m p m'
  assume a: "retained_accounts l M m" and t: "take_permit m p = (m', True)"
  obtain t r n where p: "p = (t, r, n)" by (cases p)
  from t p obtain g where g: "snd (reserve m t r n) = Inr g" and m': "m' = fst (reserve m t r n)"
    by (auto simp: take_permit_cases split: sum.splits)
  have "unat (sat_add (usage_of m t r) n) = unat (usage_of m t r) + unat n" if "r = RetainedResultBytes"
    using reserve_within_limit [OF g, of l] a that by (intro unsaturated [of _ _ l]) (auto simp: retained_accounts_def)
  with a p g m' show "retained_accounts l (add_mset p M) m'"
    by (auto simp: retained_accounts_def reserve_usage_of)
next
  fix M m p m'
  assume "retained_accounts l M m" and "take_permit m p = (m', False)"
  then show "retained_accounts l M m'"
    by (cases p) (auto simp: retained_accounts_def take_permit_cases reserve_usage_of split: sum.splits)
next
  fix M m p
  assume "retained_accounts l M m" and "p \<in># M"
  then show "retained_accounts l (M - {#p#}) (give_permit m p)"
    by (cases p) (auto simp: retained_accounts_def release_usage_of outstanding_remove sat_unat)
qed

section \<open>Guards\<close>

definition permit_of :: "resource_guard \<Rightarrow> permit" where
  "permit_of g = (rg_tenant g, rg_resource g, rg_amount g)"

text \<open>The guards in the values of a finite map.\<close>

definition guards_in :: "('a option \<Rightarrow> resource_guard list) \<Rightarrow> ('k \<rightharpoonup> 'a) \<Rightarrow> resource_guard multiset" where
  "guards_in f m = (\<Sum>k \<in> dom m. mset (f (m k)))"

lemma guards_in_upd:
  assumes "finite (dom m)" and "f None = []"
  shows "guards_in f (m(k := x)) + mset (f (m k)) = guards_in f m + mset (f x)"
proof -
  have split: "guards_in f n = mset (f (n k)) + (\<Sum>j \<in> dom n - {k}. mset (f (n j)))" if "finite (dom n)" for n
    using that assms(2) by (cases "k \<in> dom n") (auto simp: guards_in_def sum.remove dom_def)
  have "(\<Sum>j \<in> dom (m(k := x)) - {k}. mset (f ((m(k := x)) j))) = (\<Sum>j \<in> dom m - {k}. mset (f (m j)))"
    by (rule sum.cong) auto
  with split [of m] split [of "m(k := x)"] assms(1) show ?thesis by (simp add: ac_simps)
qed

definition all_guards :: "cursor_world \<Rightarrow> resource_guard multiset" where
  "all_guards w = guards_in retention_guards (cr_retentions (cw_registry w))
     + guards_in spill_guards (cr_spills (cw_registry w)) + mset (cw_held w)"

text \<open>The manager accounts for every guard of the world and those in \<open>G\<close>, which a step has in hand.\<close>

definition balanced :: "u64 \<Rightarrow> cursor_world \<Rightarrow> resource_guard multiset \<Rightarrow> bool" where
  "balanced l w G \<longleftrightarrow>
     finite (dom (cr_retentions (cw_registry w))) \<and> finite (dom (cr_spills (cw_registry w)))
     \<and> (\<forall>g \<in># all_guards w + G. \<not> rg_released g)
     \<and> retained_accounts l (image_mset permit_of (all_guards w + G)) (cw_manager w)"

lemma balanced_cong:
  assumes "cr_retentions (cw_registry w') = cr_retentions (cw_registry w)"
    and "cr_spills (cw_registry w') = cr_spills (cw_registry w)"
    and "cw_held w' = cw_held w" and "cw_manager w' = cw_manager w"
  shows "balanced l w' G = balanced l w G"
  using assms by (simp add: balanced_def all_guards_def)

lemma balanced_reserve:
  assumes "balanced l w G" and "reserve (cw_manager w) t r n = (m, res)"
  shows "case res of Inl e \<Rightarrow> balanced l (w\<lparr>cw_manager := m\<rparr>) G | Inr g \<Rightarrow> balanced l (w\<lparr>cw_manager := m\<rparr>) (add_mset g G)"
proof (cases res)
  case (Inl e)
  with assms have "take_permit (cw_manager w) (t, r, n) = (m, False)" by (simp add: take_permit_cases)
  with retained.refused assms(1) Inl show ?thesis by (auto simp: balanced_def all_guards_def)
next
  case (Inr g)
  with assms have "take_permit (cw_manager w) (t, r, n) = (m, True)" by (simp add: take_permit_cases)
  moreover have "g = \<lparr>rg_tenant = t, rg_resource = r, rg_amount = n, rg_released = False\<rparr>"
    using assms(2) Inr by (intro reserve_guard [of "cw_manager w"]) simp
  ultimately show ?thesis
    using assms(1) Inr retained.taken [of l "image_mset permit_of (all_guards w + G)" "cw_manager w" "(t, r, n)" m]
    by (auto simp: balanced_def all_guards_def permit_of_def)
qed

lemma balanced_drop_one:
  assumes "balanced l w (add_mset g G)"
  shows "balanced l (w\<lparr>cw_manager := fst (drop_guard (cw_manager w) g)\<rparr>) G"
proof -
  let ?M = "image_mset permit_of (all_guards w + add_mset g G)"
  have "fst (drop_guard (cw_manager w) g) = give_permit (cw_manager w) (permit_of g)"
    using assms by (simp add: balanced_def drop_guard_def permit_of_def)
  moreover have "?M - {#permit_of g#} = image_mset permit_of (all_guards w + G)" by simp
  ultimately show ?thesis
    using assms retained.released [of l ?M "cw_manager w" "permit_of g"]
    by (auto simp: balanced_def all_guards_def)
qed

lemma balanced_drop:
  "balanced l w (mset gs + G) \<Longrightarrow> balanced l (w\<lparr>cw_manager := drop_guards gs (cw_manager w)\<rparr>) G"
proof (induction gs arbitrary: w)
  case Nil
  then show ?case by (simp add: drop_guards_def)
next
  case (Cons g gs)
  then have "balanced l w (add_mset g (mset gs + G))" by simp
  from Cons.IH [OF balanced_drop_one [OF this]] show ?case by (simp add: drop_guards_def)
qed

lemma exchange_sum:
  assumes "a' + g' = a + (g :: 'a multiset)"
  shows "a' + s + h + g' = a + s + h + g" and "s + a' + h + g' = s + a + h + g"
proof -
  have "a' + s + h + g' = (a' + g') + s + h" by (simp add: ac_simps)
  also have "\<dots> = a + s + h + g" unfolding assms by (simp add: ac_simps)
  finally show "a' + s + h + g' = a + s + h + g" .
  then show "s + a' + h + g' = s + a + h + g" by (simp add: ac_simps)
qed

lemma guards_in_exchange:
  assumes "finite (dom m)" and "f None = []" and "mset (f x) + G' = mset (f (m k)) + G"
  shows "guards_in f (m(k := x)) + G' = guards_in f m + G"
proof -
  have "guards_in f (m(k := x)) + G' + mset (f (m k)) = guards_in f m + mset (f x) + G'"
    using guards_in_upd [of m f k x, OF assms(1,2)] by (simp add: ac_simps)
  also have "\<dots> = guards_in f m + G + mset (f (m k))" using assms(3) by (simp add: ac_simps)
  finally show ?thesis by simp
qed

lemma balanced_put:
  assumes "balanced l w G"
    and "mset (retention_guards (Some t)) + G' = mset (retention_guards (cr_retentions (cw_registry w) c)) + G"
  shows "balanced l (put_retention c t w) G'"
proof -
  let ?m = "cr_retentions (cw_registry w)"
  have fin: "finite (dom ?m)" using assms(1) by (simp add: balanced_def)
  have "guards_in retention_guards (?m(c \<mapsto> t)) + G' = guards_in retention_guards ?m + G"
    by (rule guards_in_exchange [OF fin _ assms(2)]) (simp add: retention_guards_def)
  from exchange_sum(1) [OF this] have "all_guards (put_retention c t w) + G' = all_guards w + G"
    by (simp add: all_guards_def put_retention_def)
  with assms(1) show ?thesis by (simp add: balanced_def put_retention_def)
qed

lemma balanced_swap:
  assumes "balanced l w G" and "all_guards v + G' = all_guards w + G" and "cw_manager v = cw_manager w"
    and "finite (dom (cr_retentions (cw_registry v)))" and "finite (dom (cr_spills (cw_registry v)))"
  shows "balanced l v G'"
  using assms(1,4,5) unfolding balanced_def assms(2,3) by blast

lemma balanced_set_retention:
  assumes "balanced l w (mset (retention_guards r) + G)"
  shows "balanced l (set_retention c r w) G"
proof -
  let ?m = "cr_retentions (cw_registry w)"
  let ?v = "w\<lparr>cw_registry := (cw_registry w)\<lparr>cr_retentions := ?m(c := r)\<rparr>\<rparr>"
  have fin: "finite (dom ?m)" using assms by (simp add: balanced_def)
  have "guards_in retention_guards (?m(c := r)) + (mset (retention_guards (?m c)) + G)
      = guards_in retention_guards ?m + (mset (retention_guards r) + G)"
    by (rule guards_in_exchange [OF fin]) (simp_all add: retention_guards_def ac_simps)
  from exchange_sum(1) [OF this]
  have "all_guards ?v + (mset (retention_guards (?m c)) + G) = all_guards w + (mset (retention_guards r) + G)"
    by (simp add: all_guards_def)
  then have "balanced l ?v (mset (retention_guards (?m c)) + G)"
    by (rule balanced_swap [OF assms]) (use assms fin in \<open>simp_all add: balanced_def\<close>)
  from balanced_drop [OF this] show ?thesis by (simp add: set_retention_def)
qed

lemma balanced_set_spill:
  assumes "balanced l w (mset (spill_guards e) + G)"
  shows "balanced l (set_spill c e w) G"
proof -
  let ?m = "cr_spills (cw_registry w)"
  let ?v = "w\<lparr>cw_registry := (cw_registry w)\<lparr>cr_spills := ?m(c := e)\<rparr>\<rparr>"
  have fin: "finite (dom ?m)" using assms by (simp add: balanced_def)
  have "guards_in spill_guards (?m(c := e)) + (mset (spill_guards (?m c)) + G)
      = guards_in spill_guards ?m + (mset (spill_guards e) + G)"
    by (rule guards_in_exchange [OF fin]) (simp_all add: spill_guards_def ac_simps)
  from exchange_sum(2) [OF this]
  have "all_guards ?v + (mset (spill_guards (?m c)) + G) = all_guards w + (mset (spill_guards e) + G)"
    by (simp add: all_guards_def)
  then have "balanced l ?v (mset (spill_guards (?m c)) + G)"
    by (rule balanced_swap [OF assms]) (use assms fin in \<open>simp_all add: balanced_def\<close>)
  from balanced_drop [OF this] show ?thesis by (simp add: set_spill_def)
qed

lemma balanced_hold:
  "balanced l w (mset gs + G) \<Longrightarrow> balanced l (w\<lparr>cw_held := cw_held w @ gs\<rparr>) G"
  by (auto simp: balanced_def all_guards_def ac_simps)

section \<open>Each step\<close>

lemma balanced_frame [simp]:
  "balanced l (update_pump i f w) G = balanced l w G"
  "balanced l (call_on_evict x y w) G = balanced l w G"
  "balanced l (w\<lparr>cw_files := fs\<rparr>) G = balanced l w G"
  "balanced l (w\<lparr>cw_pumps := ps\<rparr>) G = balanced l w G"
  "balanced l (w\<lparr>cw_opening := os\<rparr>) G = balanced l w G"
  by (rule balanced_cong; simp add: update_pump_def call_on_evict_def)+

lemma balanced_on_registry:
  assumes "\<And>r. cr_retentions (f r) = cr_retentions r" and "\<And>r. cr_spills (f r) = cr_spills r"
  shows "balanced l (on_registry f w) G = balanced l w G"
  using assms by (intro balanced_cong) (simp_all add: on_registry_def)

lemma unlist_memory [simp]:
  "cr_retentions (unlist_cursor c s k r) = cr_retentions r"
  "cr_spills (unlist_cursor c s k r) = cr_spills r"
  by (simp_all add: unlist_cursor_def remove_session_cursor_def remove_connection_cursor_def Let_def
      split: option.splits)

lemma forget_memory [simp]:
  "cr_retentions (forget_entry c r) = cr_retentions r"
  "cr_spills (forget_entry c r) = cr_spills r"
  by (simp_all add: forget_entry_def split: option.splits)

lemma balanced_forget [simp]: "balanced l (on_registry (forget_entry c) w) G = balanced l w G"
  by (rule balanced_on_registry) simp_all

lemma balanced_evict [simp]: "balanced l (evict_cursor s c w) G = balanced l w G"
  by (simp add: evict_cursor_def Let_def split: option.splits)

lemma balanced_evicts [simp]: "balanced l (foldl (\<lambda>w c. evict_cursor s c w) w cs) G = balanced l w G"
  by (induction cs arbitrary: w) simp_all

lemma balanced_close: "balanced l w G \<Longrightarrow> balanced l (set_retention c None w) G"
  by (rule balanced_set_retention) (simp add: retention_guards_def)

lemma balanced_begin:
  assumes "balanced l w G"
  shows "balanced l (begin_opening s c k t b w) G"
proof -
  have "balanced l (set_retention c (Some \<lparr>ct_tenant = x, ct_queued = [], ct_current = None\<rparr>) w) G" for x
    using assms by (intro balanced_set_retention) (simp add: retention_guards_def opt_list_def)
  with assms show ?thesis
    by (auto simp: begin_opening_def open_begin_def Let_def intro: balanced_close split: option.splits)
qed

lemma balanced_finish: "finish_opening k w = Some w' \<Longrightarrow> balanced l w G \<Longrightarrow> balanced l w' G"
proof -
  have "balanced l (on_registry (register_cursor s c x i) v) G = balanced l v G" for s c x i v
    by (rule balanced_on_registry) (simp_all add: register_cursor_def next_seq_def)
  then show "finish_opening k w = Some w' \<Longrightarrow> balanced l w G \<Longrightarrow> balanced l w' G"
    by (auto simp: finish_opening_def open_finish_def Let_def intro!: balanced_close split: if_splits)
qed

lemma balanced_remove: "balanced l w G \<Longrightarrow> balanced l (remove_cursor c w) G"
  by (auto simp: remove_cursor_def Let_def intro: balanced_close split: option.splits)

lemma balanced_registry_calls [simp]:
  "balanced l (touch_cursor c w) G = balanced l w G"
  "balanced l (pause b c w) G = balanced l w G"
  "balanced l (on_registry (set_config config) w) G = balanced l w G"
  "balanced l (on_registry set_on_evict w) G = balanced l w G"
  by (auto simp: touch_cursor_def pause_def set_config_def set_on_evict_def next_seq_def
      intro!: balanced_on_registry split: option.splits)

lemma put_manager:
  "put_retention c t (w\<lparr>cw_manager := m\<rparr>) = (put_retention c t w)\<lparr>cw_manager := m\<rparr>"
  "put_retention c t (w\<lparr>cw_held := h\<rparr>) = (put_retention c t w)\<lparr>cw_held := h\<rparr>"
  "cw_manager (put_retention c t w) = cw_manager w" "cw_held (put_retention c t w) = cw_held w"
  by (simp_all add: put_retention_def)

text \<open>What goes out of a retention is dropped, or given to the caller.\<close>

lemma balanced_put_drop:
  assumes "balanced l w G" and "cr_retentions (cw_registry w) c = Some t"
    and "mset (retention_guards (Some t)) = mset (retention_guards (Some t')) + mset gs"
  shows "balanced l (put_retention c t' (w\<lparr>cw_manager := drop_guards gs (cw_manager w)\<rparr>)) G"
    and "balanced l (put_retention c t' (w\<lparr>cw_held := cw_held w @ gs\<rparr>)) G"
proof -
  have "balanced l (put_retention c t' w) (mset gs + G)"
    using assms by (intro balanced_put [OF assms(1)]) (simp add: ac_simps)
  from balanced_drop [OF this] balanced_hold [OF this]
  show "balanced l (put_retention c t' (w\<lparr>cw_manager := drop_guards gs (cw_manager w)\<rparr>)) G"
    and "balanced l (put_retention c t' (w\<lparr>cw_held := cw_held w @ gs\<rparr>)) G"
    by (simp_all add: put_manager)
qed

lemma balanced_page_calls:
  assumes "balanced l w G"
  shows "balanced l (page_received c w) G" and "balanced l (page_processed c w) G"
    and "balanced l (take_page_retention c w) G"
proof -
  have keep: "balanced l (put_retention c t' (w\<lparr>cw_manager := drop_guards (opt_list (ct_current t)) (cw_manager w)\<rparr>)) G"
      "balanced l (put_retention c t' (w\<lparr>cw_held := cw_held w @ opt_list (ct_current t)\<rparr>)) G"
    if "cr_retentions (cw_registry w) c = Some t"
      "mset (retention_guards (Some t)) = mset (retention_guards (Some t')) + mset (opt_list (ct_current t))" for t t'
    using balanced_put_drop [OF assms that] by simp_all
  show "balanced l (page_received c w) G" and "balanced l (page_processed c w) G"
    and "balanced l (take_page_retention c w) G"
    unfolding page_received_def page_processed_def take_page_retention_def
    using assms
    by (auto intro!: keep simp: retention_guards_def opt_list_def [of None] opt_list_def [of "Some x" for x]
        split: option.splits list.splits)
qed

lemma balanced_hold_reserved:
  assumes "balanced l w G"
  shows "balanced l (reserve_held t r n w) G"
proof -
  obtain m res where r: "reserve (cw_manager w) t r n = (m, res)" by fastforce
  from balanced_reserve [OF assms r] balanced_hold [of l "w\<lparr>cw_manager := m\<rparr>" "[g]" G for g] r
  show ?thesis by (auto simp: reserve_held_def split: sum.splits)
qed

lemma balanced_drop_held:
  assumes "drop_held k w = Some w'" and "balanced l w G"
  shows "balanced l w' G"
proof -
  from assms(1) have k: "k < length (cw_held w)" by (auto simp: drop_held_def split: if_splits)
  let ?v = "w\<lparr>cw_held := take k (cw_held w) @ drop (Suc k) (cw_held w)\<rparr>"
  have "mset (cw_held w) = mset (take k (cw_held w) @ cw_held w ! k # drop (Suc k) (cw_held w))"
    using id_take_nth_drop [OF k] by simp
  with assms(2) have "balanced l ?v (mset [cw_held w ! k] + G)" by (auto simp: balanced_def all_guards_def)
  from balanced_drop [OF this] assms(1) k show ?thesis by (auto simp: drop_held_def balanced_def all_guards_def)
qed

lemma balanced_retain:
  assumes "balanced l w G" and "cr_retentions (cw_registry w) c = Some t"
    and "reserve (cw_manager w) x r n = (m, Inr g)"
  shows "balanced l (put_retention c (t\<lparr>ct_queued := ct_queued t @ [g]\<rparr>) (w\<lparr>cw_manager := m\<rparr>)) G"
  using balanced_reserve [OF assms(1,3)] assms(2)
  by (auto intro!: balanced_put [where G = "add_mset g G"] simp: retention_guards_def)

lemma balanced_refused:
  assumes "balanced l w G" and "reserve (cw_manager w) x r n = (m, Inl e)"
  shows "balanced l (w\<lparr>cw_manager := m\<rparr>) G"
  using balanced_reserve [OF assms] by simp

lemma balanced_deliver: "balanced l w G \<Longrightarrow> balanced l (deliver i p w) G"
  by (auto simp: deliver_def Let_def intro: balanced_retain balanced_refused
      split: option.splits prod.splits sum.splits)

lemma balanced_panic: "observer_panics i w = Some w' \<Longrightarrow> balanced l w G \<Longrightarrow> balanced l w' G"
  by (auto simp: observer_panics_def Let_def balanced_on_registry intro!: balanced_retain
      split: if_splits pump_phase.splits option.splits prod.splits sum.splits)

lemma balanced_keep_spill:
  assumes "balanced l w (mset (opt_list g) + G)"
  shows "balanced l (keep_spill i r path now n g w) G"
  using assms by (auto simp: keep_spill_def Let_def spill_guards_def intro!: balanced_set_spill)

lemma balanced_finish_spill:
  assumes "balanced l w G"
  shows "balanced l (finish_spill env now fault i r dir pages w) G"
proof -
  have plain: "balanced l (keep_spill i r path now n None (w\<lparr>cw_files := fs\<rparr>)) G" for path n fs
    using assms by (intro balanced_keep_spill) (simp add: opt_list_def)
  have charged: "balanced l (keep_spill i r path now n (Some g) (w\<lparr>cw_files := fs, cw_manager := m\<rparr>)) G"
    if "reserve (cw_manager w) x RetainedResultBytes k = (m, Inr g)" for path n fs x k m g
  proof -
    from balanced_reserve [OF assms that] have "balanced l (w\<lparr>cw_manager := m\<rparr>) (add_mset g G)" by simp
    then have "balanced l (w\<lparr>cw_files := fs, cw_manager := m\<rparr>) (mset (opt_list (Some g)) + G)"
      by (simp add: opt_list_def balanced_def all_guards_def)
    then show ?thesis by (rule balanced_keep_spill)
  qed
  have refused: "balanced l (w\<lparr>cw_manager := m, cw_files := fs\<rparr>) G"
    if "reserve (cw_manager w) x RetainedResultBytes k = (m, Inl e)" for fs x k m e
    using balanced_refused [OF assms that] by (simp add: balanced_def all_guards_def)
  show ?thesis
    using assms plain charged refused
    by (auto simp: finish_spill_def Let_def
        split: spill_fault.splits prod.splits bool.splits option.splits sum.splits)
qed

lemma balanced_run: "pump_run env now fault late i w = Some w' \<Longrightarrow> balanced l w G \<Longrightarrow> balanced l w' G"
  by (auto simp: pump_run_def Let_def intro: balanced_deliver balanced_finish_spill
      split: if_splits pump_phase.splits list.splits)

lemma balanced_drop_spill: "balanced l w G \<Longrightarrow> balanced l (drop_spill c w) G"
  by (auto simp: drop_spill_def spill_guards_def intro!: balanced_set_spill split: option.splits)

lemma balanced_reap: "balanced l w G \<Longrightarrow> balanced l (reap_expired_spills now cs w) G"
proof -
  have "balanced l w G \<Longrightarrow> balanced l (foldl (\<lambda>w c. drop_spill c w) w cs) G" for cs
    by (induction cs arbitrary: w) (auto intro: balanced_drop_spill)
  then show "balanced l w G \<Longrightarrow> balanced l (reap_expired_spills now cs w) G"
    by (simp add: reap_expired_spills_def)
qed

lemma balanced_on_spill:
  assumes "balanced l w G" and "\<And>e. se_guard (f e) = se_guard e"
  shows "balanced l (on_spill f c w) G"
proof -
  let ?m = "cr_spills (cw_registry w)"
  have "spill_guards (map_option f x) = spill_guards x" for x
    using assms(2) by (cases x) (simp_all add: spill_guards_def)
  then have "guards_in spill_guards (?m(c := map_option f (?m c))) + {#} = guards_in spill_guards ?m + {#}"
    using assms(1) by (intro guards_in_exchange) (simp_all add: balanced_def spill_guards_def)
  from exchange_sum(2) [OF this] have "all_guards (on_spill f c w) + G = all_guards w + G"
    by (simp add: all_guards_def on_spill_def on_registry_def)
  then show ?thesis
    by (rule balanced_swap [OF assms(1)])
      (use assms(1) in \<open>simp_all add: balanced_def on_spill_def on_registry_def\<close>)
qed

lemma balanced_read: "balanced l w G \<Longrightarrow> balanced l (snd (read_spill_pages env c n w)) G"
  by (auto simp: read_spill_pages_def Let_def intro!: balanced_drop_spill balanced_on_spill
      split: option.splits sum.splits prod.splits)

lemma balanced_move: "move_pump i f w = Some w' \<Longrightarrow> balanced l w G \<Longrightarrow> balanced l w' G"
  by (auto simp: move_pump_def split: if_splits)

lemma balanced_perform: "perform env op w = Some w' \<Longrightarrow> balanced l w G \<Longrightarrow> balanced l w' G"
  by (cases op)
    (auto intro: balanced_begin balanced_finish balanced_remove balanced_page_calls balanced_read
      balanced_drop_spill balanced_reap balanced_move balanced_run balanced_panic balanced_hold_reserved
      balanced_drop_held)

lemma balanced_steps: "cursor_steps env w ops w' \<Longrightarrow> balanced l w {#} \<Longrightarrow> balanced l w' {#}"
  by (induction rule: cursor_steps.induct) (auto intro: balanced_perform)

lemma balanced_new:
  assumes "rm_usage m = Map.empty" and "limit_for (rm_ceilings m) RetainedResultBytes = Some l" and "l < - 1"
  shows "balanced l (cursor_world_new config m) {#}"
  using assms
  by (simp add: balanced_def cursor_world_new_def cursor_registry_new_def all_guards_def guards_in_def
      retained_accounts_def usage_of_def)

section \<open>Properties\<close>

text \<open>
  C6: Result memory is charged exactly. Under an operator ceiling below the largest \<^verbatim>\<open>u64\<close>, at every
  point of every interleaving each tenant's usage of retained result bytes is the sum of what is alive:
  the pages queued for or processed by a consumer, the spill files, and the guards callers hold. A page
  is released when the next is received, when it is processed, or when its cursor is removed, whether or
  not its pump was evicted or panicked in between; nothing is released twice and nothing leaks.
\<close>

theorem retained_bytes_exact:
  assumes "cursor_steps env (cursor_world_new config m) ops w" and "rm_usage m = Map.empty"
    and "limit_for (rm_ceilings m) RetainedResultBytes = Some l" and "l < - 1"
  shows "unat (usage_of (cw_manager w) t RetainedResultBytes)
       = outstanding (image_mset permit_of (all_guards w)) t RetainedResultBytes
     \<and> (\<forall>g \<in># all_guards w. \<not> rg_released g)"
  using balanced_steps [OF assms(1) balanced_new [OF assms(2-4)]]
  by (simp add: balanced_def retained_accounts_def)

definition capped_manager :: resource_manager where
  "capped_manager = demo_manager
     \<lparr>rm_ceilings := demo_limits\<lparr>tl_retained_result_bytes := Some 1000\<rparr>\<rparr>"

text \<open>A page of eleven bytes is queued for the consumer.\<close>

definition page_ops :: "cursor_op list" where
  "page_ops = [OpenBegin ''s'' ''a'' None (Some 7) False, OpenFinish 0,
     DriverSends 0 (PageRows [[VText ''one'']]), run0, run0, run0]"

lemma retained_bytes_exact_witness:
  "\<exists>w. cursor_steps spill_env (cursor_world_new demo_config capped_manager) page_ops w
     \<and> usage_of (cw_manager w) 7 RetainedResultBytes = 11
     \<and> outstanding (image_mset permit_of (all_guards w)) 7 RetainedResultBytes = 11"
proof -
  have "\<exists>w. perform_all spill_env page_ops (cursor_world_new demo_config capped_manager) = Some w
      \<and> usage_of (cw_manager w) 7 RetainedResultBytes = 11"
    unfolding page_ops_def
    by (simp add: cursor_eval demo_eval capped_manager_def put_retention_def approx_row_bytes_def approx_value_bytes_def map_filter_simps)
  then obtain w where w: "perform_all spill_env page_ops (cursor_world_new demo_config capped_manager) = Some w"
    "usage_of (cw_manager w) 7 RetainedResultBytes = 11" by (elim exE conjE)
  have m: "rm_usage capped_manager = Map.empty"
    "limit_for (rm_ceilings capped_manager) RetainedResultBytes = Some 1000"
    by (simp_all add: capped_manager_def demo_manager_def demo_limits_def limit_for_def)
  have "(1000 :: u64) < - 1" by simp
  from retained_bytes_exact [OF perform_all_steps [OF w(1)] m this, of 7] w(2)
  have "outstanding (image_mset permit_of (all_guards w)) 7 RetainedResultBytes = 11" by simp
  with perform_all_steps [OF w(1)] w(2) show ?thesis by (intro exI conjI)
qed

end
