(* ===== verification/Keyed_Locks.thy ===== *)
theory Keyed_Locks
  imports Sift_Prelude "HOL-Library.AList"
begin

text \<open>
  Mutexes named by keys (\<^verbatim>\<open>crates/server/src/keyed_lock.rs\<close>). The table's entry for a key exists
  while somebody owns a gate for it. A mutex is an address, since two gates share one exactly when
  they hold the same allocation; its reference count is the number of live gates and of entries
  that point to it. A guard cannot outlive its gate: it borrows it or is dropped before it.
\<close>

section \<open>State and operations\<close>

record 'k keyed_gate =
  kg_key :: 'k
  kg_gate :: nat   \<comment> \<open>the address of the mutex\<close>

record 'k keyed_locks =
  kl_entries :: "'k \<rightharpoonup> nat"
  kl_gates :: "(nat \<times> 'k keyed_gate) list"   \<comment> \<open>the live gates, by the caller that owns one\<close>
  kl_holder :: "nat \<rightharpoonup> nat"   \<comment> \<open>the caller that has locked a mutex\<close>
  kl_next :: nat   \<comment> \<open>an address not used yet\<close>

definition keyed_locks_default :: "'k keyed_locks" where
  "keyed_locks_default = \<lparr>kl_entries = Map.empty, kl_gates = [], kl_holder = Map.empty, kl_next = 0\<rparr>"

abbreviation gate_of :: "'k keyed_locks \<Rightarrow> nat \<rightharpoonup> 'k keyed_gate" where
  "gate_of s \<equiv> map_of (kl_gates s)"

definition open_gate :: "nat \<Rightarrow> 'k \<Rightarrow> 'k keyed_locks \<Rightarrow> 'k keyed_locks" where
  "open_gate caller k s =
     (case kl_entries s k of
        Some a \<Rightarrow> s\<lparr>kl_gates := (caller, \<lparr>kg_key = k, kg_gate = a\<rparr>) # kl_gates s\<rparr>
      | None \<Rightarrow>
          s\<lparr>kl_entries := (kl_entries s)(k \<mapsto> kl_next s),
            kl_gates := (caller, \<lparr>kg_key = k, kg_gate = kl_next s\<rparr>) # kl_gates s,
            kl_next := kl_next s + 1\<rparr>)"

text \<open>Locking waits, and \<^verbatim>\<open>try_lock\<close> fails, while the mutex is held.\<close>

definition try_lock :: "nat \<Rightarrow> 'k keyed_locks \<Rightarrow> 'k keyed_locks option" where
  "try_lock caller s =
     (case gate_of s caller of
        None \<Rightarrow> None
      | Some g \<Rightarrow>
          (if kl_holder s (kg_gate g) = None then Some (s\<lparr>kl_holder := (kl_holder s)(kg_gate g \<mapsto> caller)\<rparr>)
           else None))"

definition unlock :: "nat \<Rightarrow> 'k keyed_locks \<Rightarrow> 'k keyed_locks option" where
  "unlock caller s =
     (case gate_of s caller of
        None \<Rightarrow> None
      | Some g \<Rightarrow>
          (if kl_holder s (kg_gate g) = Some caller then Some (s\<lparr>kl_holder := (kl_holder s)(kg_gate g := None)\<rparr>)
           else None))"

definition other_owners :: "nat \<Rightarrow> nat \<Rightarrow> 'k keyed_locks \<Rightarrow> bool" where
  "other_owners caller a s \<longleftrightarrow> list_ex (\<lambda>(c, g). c \<noteq> caller \<and> kg_gate g = a) (kl_gates s)"

text \<open>
  The gate's drop handler: under the lock of the entry the caller's reference goes first, and the
  entry with it when it is the same mutex and the entry has the last reference.
\<close>

definition drop_gate :: "nat \<Rightarrow> 'k keyed_locks \<Rightarrow> 'k keyed_locks option" where
  "drop_gate caller s =
     (case gate_of s caller of
        None \<Rightarrow> None
      | Some g \<Rightarrow>
          (if kl_holder s (kg_gate g) = Some caller then None
           else
             Some (s\<lparr>kl_gates := AList.delete caller (kl_gates s),
                     kl_entries :=
                       (if kl_entries s (kg_key g) = Some (kg_gate g) \<and> \<not> other_owners caller (kg_gate g) s
                        then (kl_entries s)(kg_key g := None) else kl_entries s)\<rparr>)))"

datatype 'k lock_op = OpenGate nat 'k | TryLock nat | Unlock nat | DropGate nat

text \<open>A caller has one gate at a time.\<close>

fun lock_step :: "'k lock_op \<Rightarrow> 'k keyed_locks \<Rightarrow> 'k keyed_locks option" where
  "lock_step (OpenGate c k) s = (if gate_of s c = None then Some (open_gate c k s) else None)"
| "lock_step (TryLock c) s = try_lock c s"
| "lock_step (Unlock c) s = unlock c s"
| "lock_step (DropGate c) s = drop_gate c s"

section \<open>One lock per key\<close>

text \<open>What the table promises: a lock for each key, which knows nothing of entries and addresses.\<close>

record 'k key_lock_spec =
  kp_gates :: "nat \<rightharpoonup> 'k"
  kp_holder :: "'k \<rightharpoonup> nat"

fun spec_step :: "'k lock_op \<Rightarrow> 'k key_lock_spec \<Rightarrow> 'k key_lock_spec option" where
  "spec_step (OpenGate c k) a = (if kp_gates a c = None then Some (a\<lparr>kp_gates := (kp_gates a)(c \<mapsto> k)\<rparr>) else None)"
| "spec_step (TryLock c) a =
     (case kp_gates a c of
        None \<Rightarrow> None
      | Some k \<Rightarrow> if kp_holder a k = None then Some (a\<lparr>kp_holder := (kp_holder a)(k \<mapsto> c)\<rparr>) else None)"
| "spec_step (Unlock c) a =
     (case kp_gates a c of
        None \<Rightarrow> None
      | Some k \<Rightarrow> if kp_holder a k = Some c then Some (a\<lparr>kp_holder := (kp_holder a)(k := None)\<rparr>) else None)"
| "spec_step (DropGate c) a =
     (case kp_gates a c of
        None \<Rightarrow> None
      | Some k \<Rightarrow> if kp_holder a k = Some c then None else Some (a\<lparr>kp_gates := (kp_gates a)(c := None)\<rparr>))"

definition abs_locks :: "'k keyed_locks \<Rightarrow> 'k key_lock_spec" where
  "abs_locks s =
     \<lparr>kp_gates = map_option kg_key \<circ> gate_of s,
      kp_holder = (\<lambda>k. Option.bind (kl_entries s k) (kl_holder s))\<rparr>"

text \<open>Entries and live gates agree, no address serves two keys, and only gate owners hold locks.\<close>

definition locks_ok :: "'k keyed_locks \<Rightarrow> bool" where
  "locks_ok s \<longleftrightarrow>
     distinct (map fst (kl_gates s))
     \<and> (\<forall>c g. gate_of s c = Some g \<longrightarrow> kl_entries s (kg_key g) = Some (kg_gate g))
     \<and> (\<forall>k a. kl_entries s k = Some a \<longrightarrow> a < kl_next s \<and> (\<exists>c g. gate_of s c = Some g \<and> kg_key g = k))
     \<and> (\<forall>k k' a. kl_entries s k = Some a \<and> kl_entries s k' = Some a \<longrightarrow> k = k')
     \<and> (\<forall>a c. kl_holder s a = Some c \<longrightarrow> (\<exists>g. gate_of s c = Some g \<and> kg_gate g = a))"

lemma locks_okD:
  assumes "locks_ok s"
  shows "distinct (map fst (kl_gates s))"
    and "gate_of s c = Some g \<Longrightarrow> kl_entries s (kg_key g) = Some (kg_gate g)"
    and "kl_entries s k = Some a \<Longrightarrow> a < kl_next s \<and> (\<exists>c g. gate_of s c = Some g \<and> kg_key g = k)"
    and "kl_entries s k = Some a \<Longrightarrow> kl_entries s k' = Some a \<Longrightarrow> k = k'"
    and "kl_holder s a = Some c \<Longrightarrow> \<exists>g. gate_of s c = Some g \<and> kg_gate g = a"
  using assms unfolding locks_ok_def by blast+

lemma locks_ok_default: "locks_ok keyed_locks_default"
  by (simp add: locks_ok_def keyed_locks_default_def)

lemma other_owners_iff:
  assumes "distinct (map fst (kl_gates s))"
  shows "other_owners caller a s \<longleftrightarrow> (\<exists>c g. c \<noteq> caller \<and> gate_of s c = Some g \<and> kg_gate g = a)"
  using assms by (auto simp: other_owners_def list_ex_iff)

lemma free_address: "locks_ok s \<Longrightarrow> kl_holder s (kl_next s) = None"
proof (rule ccontr)
  assume ok: "locks_ok s" and "kl_holder s (kl_next s) \<noteq> None"
  then obtain c g where "gate_of s c = Some g" "kg_gate g = kl_next s" using locks_okD(5) by blast
  with locks_okD(2,3) [OF ok] show False by fastforce
qed

lemma gate_of_simps [simp]:
  "gate_of (open_gate c k s) = (gate_of s)(c \<mapsto> \<lparr>kg_key = k,
     kg_gate = (case kl_entries s k of Some a \<Rightarrow> a | None \<Rightarrow> kl_next s)\<rparr>)"
  "kl_entries (open_gate c k s) = (kl_entries s)(k \<mapsto> (case kl_entries s k of Some a \<Rightarrow> a | None \<Rightarrow> kl_next s))"
  "kl_holder (open_gate c k s) = kl_holder s"
  "kl_next s \<le> kl_next (open_gate c k s)"
  "kl_entries s k = None \<Longrightarrow> kl_next s < kl_next (open_gate c k s)"
  "map fst (kl_gates (open_gate c k s)) = c # map fst (kl_gates s)"
  by (auto simp: open_gate_def split: option.splits)

lemma open_gate_ok:
  assumes ok: "locks_ok s" and c: "gate_of s c = None"
  shows "locks_ok (open_gate c k s)"
  unfolding locks_ok_def
proof (intro conjI allI impI)
  show "distinct (map fst (kl_gates (open_gate c k s)))"
    using locks_okD(1) [OF ok] c by (simp add: map_of_eq_None_iff)
next
  fix c' g
  assume "gate_of (open_gate c k s) c' = Some g"
  then show "kl_entries (open_gate c k s) (kg_key g) = Some (kg_gate g)"
    using locks_okD(2) [OF ok, of c' g] by (auto split: if_splits option.splits)
next
  fix k' a
  assume "kl_entries (open_gate c k s) k' = Some a"
  then consider "k' = k" | "k' \<noteq> k" "kl_entries s k' = Some a" by (auto split: if_splits)
  then show "\<exists>c' g. gate_of (open_gate c k s) c' = Some g \<and> kg_key g = k'"
  proof cases
    case 1
    then show ?thesis by auto
  next
    case 2
    then obtain c' g where "gate_of s c' = Some g" "kg_key g = k'" using locks_okD(3) [OF ok] by blast
    with c show ?thesis by (intro exI [of _ c'] exI [of _ g]) auto
  qed
next
  fix k' a
  assume a: "kl_entries (open_gate c k s) k' = Some a"
  show "a < kl_next (open_gate c k s)"
  proof (cases "k' = k \<and> kl_entries s k = None")
    case True
    with a show ?thesis using gate_of_simps(5) [of s k c] by simp
  next
    case False
    with a have "kl_entries s k' = Some a" by (auto split: if_splits)
    then have "a < kl_next s" using locks_okD(3) [OF ok] by blast
    then show ?thesis by (rule less_le_trans) (rule gate_of_simps(4))
  qed
next
  fix k' k'' a
  assume "kl_entries (open_gate c k s) k' = Some a \<and> kl_entries (open_gate c k s) k'' = Some a"
  then show "k' = k''"
    using locks_okD(3,4) [OF ok] by (fastforce split: if_splits option.splits)
next
  fix a c'
  assume "kl_holder (open_gate c k s) a = Some c'"
  then obtain g where "gate_of s c' = Some g" "kg_gate g = a" using locks_okD(5) [OF ok] by auto
  with c show "\<exists>g. gate_of (open_gate c k s) c' = Some g \<and> kg_gate g = a" by (intro exI [of _ g]) auto
qed

lemma drop_gate_ok:
  assumes ok: "locks_ok s" and g: "gate_of s c = Some g" and d: "drop_gate c s = Some s'"
  shows "locks_ok s'"
proof -
  from g d have free: "kl_holder s (kg_gate g) \<noteq> Some c"
    and gates: "gate_of s' = (gate_of s)(c := None)" "kl_gates s' = AList.delete c (kl_gates s)"
    and fields: "kl_holder s' = kl_holder s" "kl_next s' = kl_next s"
    and ent: "kl_entries s' = (if other_owners c (kg_gate g) s then kl_entries s else (kl_entries s)(kg_key g := None))"
    using locks_okD(2) [OF ok g] by (auto simp: drop_gate_def delete_conv' split: if_splits)
  have others: "other_owners c (kg_gate g) s \<longleftrightarrow> (\<exists>c' h. c' \<noteq> c \<and> gate_of s c' = Some h \<and> kg_key h = kg_key g)"
  proof -
    have "kg_gate h = kg_gate g \<longleftrightarrow> kg_key h = kg_key g" if "gate_of s c' = Some h" for c' h
      using locks_okD(2) [OF ok that] locks_okD(2) [OF ok g] locks_okD(4) [OF ok] by auto
    then show ?thesis unfolding other_owners_iff [OF locks_okD(1) [OF ok]] by blast
  qed
  show ?thesis
    unfolding locks_ok_def
  proof (intro conjI allI impI)
    show "distinct (map fst (kl_gates s'))"
      using locks_okD(1) [OF ok] by (simp add: gates(2) distinct_delete)
  next
    fix c' h
    assume "gate_of s' c' = Some h"
    with gates(1) have "c' \<noteq> c" "gate_of s c' = Some h" by (auto split: if_splits)
    with locks_okD(2) [OF ok] others show "kl_entries s' (kg_key h) = Some (kg_gate h)"
      unfolding ent by auto
  next
    fix k a
    assume "kl_entries s' k = Some a"
    then have k: "kl_entries s k = Some a" "kg_key g = k \<Longrightarrow> other_owners c (kg_gate g) s"
      unfolding ent by (auto split: if_splits)
    with locks_okD(3) [OF ok] show "a < kl_next s'" by (simp add: fields)
    from k(1) obtain c' h where "gate_of s c' = Some h" "kg_key h = k" using locks_okD(3) [OF ok] by blast
    with k(2) others g have "\<exists>c' h. c' \<noteq> c \<and> gate_of s c' = Some h \<and> kg_key h = k" by (cases "c' = c") auto
    then show "\<exists>c' h. gate_of s' c' = Some h \<and> kg_key h = k" unfolding gates(1) by auto
  next
    fix k k' a
    assume "kl_entries s' k = Some a \<and> kl_entries s' k' = Some a"
    then show "k = k'" using locks_okD(4) [OF ok, of k a k'] unfolding ent by (auto split: if_splits)
  next
    fix a c'
    assume h: "kl_holder s' a = Some c'"
    then obtain h where h: "gate_of s c' = Some h" "kg_gate h = a" "kl_holder s a = Some c'"
      using locks_okD(5) [OF ok] by (auto simp: fields)
    with free g have "c' \<noteq> c" by auto
    with h show "\<exists>h. gate_of s' c' = Some h \<and> kg_gate h = a" unfolding gates(1) by auto
  qed
qed

lemma lock_step_ok:
  assumes "locks_ok s" and "lock_step op s = Some s'"
  shows "locks_ok s'"
proof (cases op)
  case (OpenGate c k)
  with assms show ?thesis by (auto intro: open_gate_ok split: if_splits)
next
  case (TryLock c)
  with assms show ?thesis
    by (auto simp: try_lock_def locks_ok_def split: option.splits if_splits)
next
  case (Unlock c)
  with assms show ?thesis
    by (auto simp: unlock_def locks_ok_def split: option.splits if_splits)
next
  case (DropGate c)
  with assms obtain g where "gate_of s c = Some g" by (auto simp: drop_gate_def split: option.splits)
  with drop_gate_ok assms DropGate show ?thesis by simp
qed

text \<open>The holder of a key is the holder of its entry's mutex.\<close>

lemma gate_holder:
  "locks_ok s \<Longrightarrow> gate_of s c = Some g \<Longrightarrow> kp_holder (abs_locks s) (kg_key g) = kl_holder s (kg_gate g)"
  using locks_okD(2) [of s c g] by (simp add: abs_locks_def)

lemma bind_upd:
  assumes "\<And>k'. e k' = Some a \<Longrightarrow> k' = k" and "e k = Some a"
  shows "(\<lambda>k'. Option.bind (e k') (h(a := x))) = (\<lambda>k'. Option.bind (e k') h)(k := x)"
proof
  fix k'
  show "Option.bind (e k') (h(a := x)) = ((\<lambda>k'. Option.bind (e k') h)(k := x)) k'"
  proof (cases "k' = k")
    case True
    then show ?thesis by (simp add: assms(2))
  next
    case False
    with assms(1) [of k'] have "e k' \<noteq> Some a" by blast
    with False show ?thesis by (cases "e k'") simp_all
  qed
qed

lemma abs_update_holder:
  assumes "locks_ok s" and "gate_of s c = Some g"
  shows "abs_locks (s\<lparr>kl_holder := (kl_holder s)(kg_gate g := x)\<rparr>)
       = (abs_locks s)\<lparr>kp_holder := (kp_holder (abs_locks s))(kg_key g := x)\<rparr>"
proof -
  have "(\<lambda>k. Option.bind (kl_entries s k) ((kl_holder s)(kg_gate g := x)))
      = (\<lambda>k. Option.bind (kl_entries s k) (kl_holder s))(kg_key g := x)"
    by (rule bind_upd) (use locks_okD(2) [OF assms] locks_okD(4) [OF assms(1)] in blast)+
  then show ?thesis by (intro key_lock_spec.equality) (simp_all only: abs_locks_def, simp_all)
qed

lemma abs_open_gate:
  assumes "locks_ok s"
  shows "abs_locks (open_gate c k s) = (abs_locks s)\<lparr>kp_gates := (kp_gates (abs_locks s))(c \<mapsto> k)\<rparr>"
  using free_address [OF assms]
  by (auto simp: abs_locks_def fun_eq_iff split: option.splits)

lemma abs_drop_gate:
  assumes ok: "locks_ok s" and g: "gate_of s c = Some g" and d: "drop_gate c s = Some s'"
  shows "abs_locks s' = (abs_locks s)\<lparr>kp_gates := (kp_gates (abs_locks s))(c := None)\<rparr>"
proof -
  have "kl_holder s (kg_gate g) = None" if "\<not> other_owners c (kg_gate g) s"
  proof (rule ccontr)
    assume "kl_holder s (kg_gate g) \<noteq> None"
    then obtain c' where c': "kl_holder s (kg_gate g) = Some c'" by auto
    with g d have "c' \<noteq> c" by (auto simp: drop_gate_def split: if_splits)
    with that locks_okD(5) [OF ok c'] other_owners_iff [OF locks_okD(1) [OF ok]] show False by blast
  qed
  with g d locks_okD(2) [OF ok g] show ?thesis
    by (auto simp: drop_gate_def abs_locks_def fun_eq_iff delete_conv' split: if_splits)
qed

lemma lock_step_abs:
  assumes "locks_ok s"
  shows "map_option abs_locks (lock_step op s) = spec_step op (abs_locks s)"
proof (cases op)
  case (OpenGate c k)
  with abs_open_gate [OF assms, of c k] show ?thesis by (simp add: abs_locks_def)
next
  case (TryLock c)
  then show ?thesis
    using gate_holder [OF assms, of c] abs_update_holder [OF assms, of c]
    by (cases "gate_of s c") (auto simp: try_lock_def abs_locks_def [of s])
next
  case (Unlock c)
  then show ?thesis
    using gate_holder [OF assms, of c] abs_update_holder [OF assms, of c]
    by (cases "gate_of s c") (auto simp: unlock_def abs_locks_def [of s])
next
  case (DropGate c)
  show ?thesis
  proof (cases "gate_of s c")
    case None
    with DropGate show ?thesis by (simp add: drop_gate_def abs_locks_def)
  next
    case (Some g)
    with DropGate gate_holder [OF assms Some] abs_drop_gate [OF assms Some] show ?thesis
      by (cases "drop_gate c s") (auto simp: drop_gate_def abs_locks_def [of s] split: if_splits)
  qed
qed

section \<open>Runs\<close>

fun lock_run :: "'k lock_op list \<Rightarrow> 'k keyed_locks \<Rightarrow> 'k keyed_locks option" where
  "lock_run [] s = Some s"
| "lock_run (op # ops) s = Option.bind (lock_step op s) (lock_run ops)"

fun spec_lock_run :: "'k lock_op list \<Rightarrow> 'k key_lock_spec \<Rightarrow> 'k key_lock_spec option" where
  "spec_lock_run [] a = Some a"
| "spec_lock_run (op # ops) a = Option.bind (spec_step op a) (spec_lock_run ops)"

lemma lock_run_refines:
  "locks_ok s \<Longrightarrow> map_option abs_locks (lock_run ops s) = spec_lock_run ops (abs_locks s)"
proof (induction ops arbitrary: s)
  case (Cons op ops)
  have "spec_step op (abs_locks s) = map_option abs_locks (lock_step op s)"
    using lock_step_abs [OF Cons.prems] by simp
  then show ?case
    using Cons.IH lock_step_ok [OF Cons.prems, of op] by (cases "lock_step op s") simp_all
qed simp

lemma lock_run_ok: "locks_ok s \<Longrightarrow> lock_run ops s = Some s' \<Longrightarrow> locks_ok s'"
  by (induction ops arbitrary: s) (auto simp: bind_eq_Some_conv dest: lock_step_ok)

lemma entries_owned: "locks_ok s \<Longrightarrow> dom (kl_entries s) = ran (kp_gates (abs_locks s))"
  using locks_okD(2,3) [of s] by (fastforce simp: abs_locks_def ran_def dom_def)

text \<open>
  C17: The table behaves as a table of one lock for each key, which gates open, take and leave, for any
  sequence of calls of any number of gates, and a call cannot proceed (a mutex held, a gate not open)
  in the one exactly when it cannot in the other; and it has an entry for a key exactly while some
  gate for it is alive.
\<close>

theorem keyed_locks_refine:
  "map_option abs_locks (lock_run ops keyed_locks_default)
     = spec_lock_run ops \<lparr>kp_gates = Map.empty, kp_holder = Map.empty\<rparr>
   \<and> (case lock_run ops keyed_locks_default of
        None \<Rightarrow> True
      | Some s \<Rightarrow> dom (kl_entries s) = ran (kp_gates (abs_locks s)))"
proof -
  have "abs_locks keyed_locks_default = (\<lparr>kp_gates = Map.empty, kp_holder = Map.empty\<rparr> :: 'a key_lock_spec)"
    by (simp add: abs_locks_def keyed_locks_default_def fun_eq_iff)
  with lock_run_refines [OF locks_ok_default, of ops] entries_owned [OF lock_run_ok [OF locks_ok_default]]
  show ?thesis by (cases "lock_run ops (keyed_locks_default :: 'a keyed_locks)") simp_all
qed

end
