(* ===== verification/Schema_Cache.thy ===== *)
theory Schema_Cache
  imports Sift_Protocol Keyed_Locks
begin

text \<open>
  The cache of catalogs read from databases (\<^verbatim>\<open>crates/server/src/schema_cache.rs\<close>): fresh entries with a
  time to live, displaced ones kept as a stale fallback, an index by connection and an epoch for each
  connection. A hash map is the list of its entries in the order it iterates them; an insertion may
  rearrange them, by an order that is an argument. What is cached is a parameter.
\<close>

section \<open>Keys\<close>

datatype ssl_mode = SslDisable | SslPrefer | SslRequire | SslVerifyCa | SslVerifyFull

record 'x connection_spec =
  csp_host :: string
  csp_port :: "16 word option"
  csp_database :: "string option"
  csp_user :: string
  csp_password :: "string option"
  csp_ssl_mode :: "ssl_mode option"
  csp_engine_specific :: "'x option"

record 'x cache_identity =
  cid_host :: string
  cid_port :: "16 word option"
  cid_database :: "string option"
  cid_user :: string
  cid_ssl_mode :: "ssl_mode option"
  cid_engine_specific :: "'x option"

definition identity_of :: "'x connection_spec \<Rightarrow> 'x cache_identity" where
  "identity_of spec =
     \<lparr>cid_host = csp_host spec, cid_port = csp_port spec, cid_database = csp_database spec,
      cid_user = csp_user spec, cid_ssl_mode = csp_ssl_mode spec,
      cid_engine_specific = csp_engine_specific spec\<rparr>"

record ('x, 'scope) key_env =
  kv_identity_json :: "'x cache_identity \<Rightarrow> string option"   \<comment> \<open>\<^verbatim>\<open>serde_json::to_string(..).ok()\<close>\<close>
  kv_scope_json :: "'scope \<Rightarrow> string option"
  kv_sha256 :: "string \<Rightarrow> u8 list"

record cache_key =
  key_spec :: string
  key_scope :: string

definition spec_hash :: "('x, 'scope) key_env \<Rightarrow> 'x connection_spec \<Rightarrow> string option" where
  "spec_hash env spec =
     map_option (\<lambda>json. concat (map (\<lambda>b. hex_padded 2 (unat b)) (kv_sha256 env json)))
       (kv_identity_json env (identity_of spec))"

definition key_for_with_hash ::
  "('x, 'scope) key_env \<Rightarrow> 'x connection_spec \<Rightarrow> 'scope \<Rightarrow> (cache_key \<times> string) option" where
  "key_for_with_hash env spec scope =
     (case spec_hash env spec of
        None \<Rightarrow> None
      | Some h \<Rightarrow>
          (case kv_scope_json env scope of
             None \<Rightarrow> None
           | Some json \<Rightarrow> Some (\<lparr>key_spec = h, key_scope = json\<rparr>, h)))"

definition key_for :: "('x, 'scope) key_env \<Rightarrow> 'x connection_spec \<Rightarrow> 'scope \<Rightarrow> cache_key option" where
  "key_for env spec scope = map_option fst (key_for_with_hash env spec scope)"

section \<open>State\<close>

record cache_config =
  cac_ttl :: duration
  cac_mssql_poll_interval :: duration
  cac_max_entries :: nat
  cac_max_invalidators :: nat

definition cache_config_default :: cache_config where
  "cache_config_default =
     \<lparr>cac_ttl = 60 * 10 ^ 9, cac_mssql_poll_interval = 30 * 10 ^ 9, cac_max_entries = 1024,
      cac_max_invalidators = 64\<rparr>"

record 'c cached_entry =
  cen_schema :: 'c
  cen_inserted_at :: instant

record 'c schema_cache =
  sch_config :: cache_config
  sch_entries :: "(cache_key \<times> 'c cached_entry) list"
  sch_stale :: "(cache_key \<times> 'c) list"
  sch_by_spec :: "string \<rightharpoonup> cache_key list"
  sch_in_flight :: "cache_key keyed_locks"
  sch_epochs :: "string \<rightharpoonup> u64"
  sch_hits :: u64
  sch_misses :: u64
  sch_invalidations :: u64

definition schema_cache_new :: "cache_config \<Rightarrow> 'c schema_cache" where
  "schema_cache_new config =
     \<lparr>sch_config = config, sch_entries = [], sch_stale = [], sch_by_spec = Map.empty,
      sch_in_flight = keyed_locks_default, sch_epochs = Map.empty, sch_hits = 0, sch_misses = 0,
      sch_invalidations = 0\<rparr>"

definition set_cache_config :: "cache_config \<Rightarrow> 'c schema_cache \<Rightarrow> 'c schema_cache" where
  "set_cache_config config s = s\<lparr>sch_config := config\<rparr>"

abbreviation max_entries :: "'c schema_cache \<Rightarrow> nat" where
  "max_entries s \<equiv> cac_max_entries (sch_config s)"

section \<open>Operations\<close>

type_synonym hash_order = "cache_key \<Rightarrow> nat"

definition put_entry :: "hash_order \<Rightarrow> cache_key \<Rightarrow> 'v \<Rightarrow> (cache_key \<times> 'v) list \<Rightarrow> (cache_key \<times> 'v) list" where
  "put_entry ord k v es = sort_key (\<lambda>(k, _). ord k) (AList.update k v es)"

definition bump_epoch :: "string \<Rightarrow> 'c schema_cache \<Rightarrow> 'c schema_cache" where
  "bump_epoch h s =
     (let epoch = (case sch_epochs s h of None \<Rightarrow> 0 | Some e \<Rightarrow> e)
      in s\<lparr>sch_epochs := (sch_epochs s)(h \<mapsto> (if epoch = - 1 then 1 else epoch + 1))\<rparr>)"

definition epoch_of :: "string \<Rightarrow> 'c schema_cache \<Rightarrow> u64" where
  "epoch_of h s = (case sch_epochs s h of None \<Rightarrow> 0 | Some e \<Rightarrow> e)"

definition invalidation_epoch :: "('x, 'scope) key_env \<Rightarrow> 'x connection_spec \<Rightarrow> 'c schema_cache \<Rightarrow> u64" where
  "invalidation_epoch env spec s = (case spec_hash env spec of None \<Rightarrow> 0 | Some h \<Rightarrow> epoch_of h s)"

text \<open>The loops over the stale entries take the first one the map iterates.\<close>

fun trim_stale :: "nat \<Rightarrow> 'a list \<Rightarrow> 'a list" where
  "trim_stale m [] = []"
| "trim_stale m (x # xs) = (if m < length (x # xs) then trim_stale m xs else x # xs)"

fun trim_total :: "nat \<Rightarrow> nat \<Rightarrow> 'a list \<Rightarrow> 'a list" where
  "trim_total m n [] = []"
| "trim_total m n (x # xs) = (if m < n + length (x # xs) then trim_total m n xs else x # xs)"

definition stash_stale :: "hash_order \<Rightarrow> cache_key \<Rightarrow> 'c \<Rightarrow> 'c schema_cache \<Rightarrow> 'c schema_cache" where
  "stash_stale ord k schema s =
     s\<lparr>sch_stale := trim_stale (max_entries s) (put_entry ord k schema (sch_stale s))\<rparr>"

definition index_entry :: "string \<Rightarrow> cache_key \<Rightarrow> 'c schema_cache \<Rightarrow> 'c schema_cache" where
  "index_entry h k s =
     (let ks = (case sch_by_spec s h of None \<Rightarrow> [] | Some ks \<Rightarrow> ks)
      in s\<lparr>sch_by_spec := (sch_by_spec s)(h \<mapsto> (if k \<in> set ks then ks else ks @ [k]))\<rparr>)"

definition remove_entry :: "cache_key \<Rightarrow> 'c schema_cache \<Rightarrow> 'c schema_cache" where
  "remove_entry k s =
     s\<lparr>sch_entries := AList.delete k (sch_entries s),
       sch_by_spec :=
         (case sch_by_spec s (key_spec k) of
            None \<Rightarrow> sch_by_spec s
          | Some ks \<Rightarrow>
              (let rest = filter (\<lambda>candidate. candidate \<noteq> k) ks
               in (sch_by_spec s)(key_spec k := (if rest = [] then None else Some rest))))\<rparr>"

text \<open>\<^verbatim>\<open>min_by_key\<close> takes the first of several entries inserted at once.\<close>

definition oldest_key :: "(cache_key \<times> 'c cached_entry) list \<Rightarrow> cache_key option" where
  "oldest_key es =
     (if es = [] then None else Some (fst (arg_min_list (\<lambda>(_, e). cen_inserted_at e) es)))"

definition map_keys :: "('a \<times> 'b) list \<Rightarrow> 'a set" where
  "map_keys es = fst ` set es"

lemma oldest_key_in: "oldest_key es = Some k \<Longrightarrow> k \<in> map_keys es"
  using arg_min_list_in [of es] by (auto simp: oldest_key_def map_keys_def split: if_splits)

lemma delete_shrinks: "k \<in> map_keys es \<Longrightarrow> length (AList.delete k es) < length es"
  unfolding map_keys_def AList.delete_eq by (elim imageE) (rule length_filter_less, auto)

function evict_entries :: "nat \<Rightarrow> 'c schema_cache \<Rightarrow> 'c schema_cache" where
  "evict_entries m s =
     (if m < length (sch_entries s) then
        (case oldest_key (sch_entries s) of
           None \<Rightarrow> s
         | Some k \<Rightarrow> evict_entries m (remove_entry k s))
      else s)"
  by pat_completeness auto

termination evict_entries
  by (relation "measure (\<lambda>(m, s). length (sch_entries s))")
    (auto simp: remove_entry_def dest!: oldest_key_in [THEN delete_shrinks])

declare evict_entries.simps [simp del]

definition enforce_entry_bound :: "'c schema_cache \<Rightarrow> 'c schema_cache" where
  "enforce_entry_bound s =
     (if max_entries s = 0
      then (fold remove_entry (map fst (sch_entries s)) s)\<lparr>sch_stale := []\<rparr>
      else evict_entries (max_entries s)
             (s\<lparr>sch_stale := trim_total (max_entries s) (length (sch_entries s)) (sch_stale s)\<rparr>))"

text \<open>Atomic counters wrap.\<close>

definition note_hit :: "'c schema_cache \<Rightarrow> 'c schema_cache" where
  "note_hit s = s\<lparr>sch_hits := sch_hits s + 1\<rparr>"

definition note_miss :: "'c schema_cache \<Rightarrow> 'c schema_cache" where
  "note_miss s = s\<lparr>sch_misses := sch_misses s + 1\<rparr>"

text \<open>A key that does not serialize is a miss.\<close>

definition get_cached :: "hash_order \<Rightarrow> instant \<Rightarrow> cache_key option \<Rightarrow> 'c schema_cache \<Rightarrow> 'c option \<times> 'c schema_cache" where
  "get_cached ord now key s =
     (case key of
        None \<Rightarrow> (None, note_miss s)
      | Some k \<Rightarrow>
          (case map_of (sch_entries s) k of
             None \<Rightarrow> (None, note_miss s)
           | Some e \<Rightarrow>
               (if duration_since now (cen_inserted_at e) < cac_ttl (sch_config s)
                then (Some (cen_schema e), note_hit s)
                else (None, note_miss (bump_epoch (key_spec k)
                       (remove_entry k (stash_stale ord k (cen_schema e) s)))))))"

definition get_stale_cached :: "cache_key option \<Rightarrow> 'c schema_cache \<Rightarrow> 'c option" where
  "get_stale_cached key s = Option.bind key (map_of (sch_stale s))"

text \<open>
  An insertion, without the invalidator task it makes sure of. A key that does not serialize is not
  cached and nothing is returned.
\<close>

definition store_entry ::
  "hash_order \<Rightarrow> instant \<Rightarrow> cache_key \<Rightarrow> string \<Rightarrow> 'c \<Rightarrow> 'c schema_cache \<Rightarrow> 'c schema_cache" where
  "store_entry ord now k h schema s =
     index_entry h k
       (s\<lparr>sch_epochs :=
            (case sch_epochs s h of None \<Rightarrow> (sch_epochs s)(h \<mapsto> 1) | Some _ \<Rightarrow> sch_epochs s),
          sch_entries := put_entry ord k \<lparr>cen_schema = schema, cen_inserted_at = now\<rparr> (sch_entries s),
          sch_stale := AList.delete k (sch_stale s)\<rparr>)"

definition insert_schema ::
  "hash_order \<Rightarrow> instant \<Rightarrow> (cache_key \<times> string) option \<Rightarrow> 'c \<Rightarrow> 'c schema_cache \<Rightarrow> 'c option \<times> 'c schema_cache" where
  "insert_schema ord now key schema s =
     (case key of
        None \<Rightarrow> (None, s)
      | Some (k, h) \<Rightarrow> (Some schema, enforce_entry_bound (store_entry ord now k h schema s)))"

definition displace_entry :: "hash_order \<Rightarrow> cache_key \<Rightarrow> 'c schema_cache \<Rightarrow> 'c schema_cache" where
  "displace_entry ord k s =
     (case map_of (sch_entries s) k of
        None \<Rightarrow> s
      | Some e \<Rightarrow> stash_stale ord k (cen_schema e) (s\<lparr>sch_entries := AList.delete k (sch_entries s)\<rparr>))"

definition invalidation_victims :: "string \<Rightarrow> 'c schema_cache \<Rightarrow> cache_key list" where
  "invalidation_victims h s =
     (case sch_by_spec s h of
        Some victims \<Rightarrow> victims
      | None \<Rightarrow> map fst (filter (\<lambda>(k, _). key_spec k = h) (sch_entries s)))"

definition invalidate_by_hash :: "hash_order \<Rightarrow> string \<Rightarrow> 'c schema_cache \<Rightarrow> 'c schema_cache" where
  "invalidate_by_hash ord h s =
     (let s1 = fold (displace_entry ord) (invalidation_victims h s) s
      in bump_epoch h
           (s1\<lparr>sch_by_spec := (sch_by_spec s1)(h := None),
              sch_invalidations := sch_invalidations s1 + 1\<rparr>))"

definition invalidate_spec ::
  "('x, 'scope) key_env \<Rightarrow> hash_order \<Rightarrow> 'x connection_spec \<Rightarrow> 'c schema_cache \<Rightarrow> 'c schema_cache" where
  "invalidate_spec env ord spec s =
     (case spec_hash env spec of None \<Rightarrow> s | Some h \<Rightarrow> invalidate_by_hash ord h s)"

section \<open>The invariant\<close>

text \<open>
  Each map has a key once, a key is fresh or stale but not both, the index of a connection lists
  exactly its fresh keys and exists only when there are some, and both maps together keep within
  the configured number.
\<close>

definition index_exact :: "'c schema_cache \<Rightarrow> bool" where
  "index_exact s \<longleftrightarrow>
     (\<forall>h. case sch_by_spec s h of
        None \<Rightarrow> (\<forall>k\<in>map_keys (sch_entries s). key_spec k \<noteq> h)
      | Some ks \<Rightarrow> ks \<noteq> [] \<and> distinct ks \<and> set ks = {k \<in> map_keys (sch_entries s). key_spec k = h})"

abbreviation fresh_keys :: "'c schema_cache \<Rightarrow> cache_key set" where
  "fresh_keys s \<equiv> map_keys (sch_entries s)"

abbreviation stale_keys :: "'c schema_cache \<Rightarrow> cache_key set" where
  "stale_keys s \<equiv> map_keys (sch_stale s)"

definition maps_ok :: "'c schema_cache \<Rightarrow> bool" where
  "maps_ok s \<longleftrightarrow>
     distinct (map fst (sch_entries s)) \<and> distinct (map fst (sch_stale s))
     \<and> fresh_keys s \<inter> stale_keys s = {}"

definition within_bound :: "'c schema_cache \<Rightarrow> bool" where
  "within_bound s \<longleftrightarrow> length (sch_entries s) + length (sch_stale s) \<le> max_entries s"

definition cache_ok :: "'c schema_cache \<Rightarrow> bool" where
  "cache_ok s \<longleftrightarrow> maps_ok s \<and> index_exact s \<and> within_bound s"

text \<open>Association lists as the operations change them.\<close>

lemma finite_keys [simp]: "finite (map_keys es)"
  by (simp add: map_keys_def)

lemma put_entry_keys [simp]: "map_keys (put_entry ord k v es) = insert k (map_keys es)"
  by (simp add: map_keys_def put_entry_def dom_update)

lemma put_entry_distinct:
  assumes "distinct (map fst es)"
  shows "distinct (map fst (put_entry ord k v es))"
proof -
  have "mset (map fst (put_entry ord k v es)) = mset (map fst (AList.update k v es))"
    unfolding put_entry_def mset_map by simp
  then show ?thesis using distinct_update [OF assms, of k v] mset_eq_imp_distinct_iff by blast
qed

lemma put_entry_map_of:
  assumes "distinct (map fst es)"
  shows "map_of (put_entry ord k v es) = (map_of es)(k \<mapsto> v)"
proof -
  have "map_of (put_entry ord k v es) = map_of (AList.update k v es)"
    using put_entry_distinct [OF assms, of ord k v] distinct_update [OF assms, of k v]
    by (subst map_of_inject_set) (simp_all add: put_entry_def)
  then show ?thesis by (simp add: update_conv')
qed

lemma key_count: "distinct (map fst es) \<Longrightarrow> length es = card (map_keys es)"
  using distinct_card [of "map fst es"] by (simp add: map_keys_def)

lemma put_entry_length:
  assumes "distinct (map fst es)"
  shows "length (put_entry ord k v es) = (if k \<in> map_keys es then length es else Suc (length es))"
  using key_count [OF put_entry_distinct [OF assms, of ord k v]] key_count [OF assms]
  by (simp add: card_insert_if)

lemma map_keys_delete [simp]: "map_keys (AList.delete k es) = map_keys es - {k}"
  using delete_keys [of k es] unfolding map_keys_def set_map [symmetric] by (metis set_removeAll)

lemma map_keys_Nil [simp]: "map_keys [] = {}" "map_keys es = {} \<longleftrightarrow> es = []"
  by (simp_all add: map_keys_def)

lemma map_of_keys: "map_of es k = None \<longleftrightarrow> k \<notin> map_keys es"
  by (simp add: map_keys_def map_of_eq_None_iff)

lemma delete_length:
  assumes "distinct (map fst es)"
  shows "length (AList.delete k es) = (if k \<in> map_keys es then length es - 1 else length es)"
  using key_count [OF distinct_delete [OF assms, of k]] key_count [OF assms]
  by (simp add: map_keys_delete)

lemma trim_stale_drop: "trim_stale m xs = drop (length xs - m) xs"
  by (induction xs) (auto simp: Suc_diff_le)

lemma trim_total_drop: "trim_total m n xs = drop (n + length xs - m) xs"
  by (induction xs) (auto simp: Suc_diff_le)

lemma fst_drop_subset: "map_keys (drop n es) \<subseteq> map_keys es"
  unfolding map_keys_def using set_drop_subset by fast

lemma distinct_fst_drop: "distinct (map fst es) \<Longrightarrow> distinct (map fst (drop n es))"
  by (simp add: drop_map [symmetric] distinct_drop)

text \<open>Removing one entry.\<close>

lemma remove_entry_fields [simp]:
  "sch_entries (remove_entry k s) = AList.delete k (sch_entries s)"
  "sch_stale (remove_entry k s) = sch_stale s"
  "sch_config (remove_entry k s) = sch_config s"
  "sch_epochs (remove_entry k s) = sch_epochs s"
  "sch_in_flight (remove_entry k s) = sch_in_flight s"
  by (simp_all add: remove_entry_def)

lemma remove_entry_maps: "maps_ok s \<Longrightarrow> maps_ok (remove_entry k s)"
  by (auto simp: maps_ok_def distinct_delete map_keys_delete)

lemma index_exactD:
  assumes "index_exact s"
  shows "sch_by_spec s h = None \<Longrightarrow> k \<in> fresh_keys s \<Longrightarrow> key_spec k \<noteq> h"
    and "sch_by_spec s h = Some ks \<Longrightarrow> ks \<noteq> [] \<and> distinct ks \<and> set ks = {k \<in> fresh_keys s. key_spec k = h}"
  using assms unfolding index_exact_def by (auto dest!: spec [of _ h])

lemma remove_entry_index:
  assumes "index_exact s"
  shows "index_exact (remove_entry k s)"
  unfolding index_exact_def
proof (intro allI)
  fix h
  show "case sch_by_spec (remove_entry k s) h of
      None \<Rightarrow> \<forall>k\<in>fresh_keys (remove_entry k s). key_spec k \<noteq> h
    | Some ks \<Rightarrow> ks \<noteq> [] \<and> distinct ks \<and> set ks = {k' \<in> fresh_keys (remove_entry k s). key_spec k' = h}"
  proof (cases "sch_by_spec s h")
    case None
    then have "sch_by_spec (remove_entry k s) h = None"
      by (auto simp: remove_entry_def Let_def split: option.splits)
    with index_exactD(1) [OF assms None] show ?thesis by (auto simp: map_keys_delete)
  next
    case (Some ks)
    have "sch_by_spec (remove_entry k s) h =
        (if h = key_spec k then
           (if filter (\<lambda>c. c \<noteq> k) ks = [] then None else Some (filter (\<lambda>c. c \<noteq> k) ks))
         else Some ks)"
      using Some by (auto simp: remove_entry_def Let_def split: option.splits)
    moreover have "filter (\<lambda>c. c \<noteq> k) ks = [] \<longleftrightarrow> {k' \<in> fresh_keys s - {k}. key_spec k' = h} = {}"
      using index_exactD(2) [OF assms Some] by (auto simp: filter_empty_conv)
    ultimately show ?thesis using index_exactD(2) [OF assms Some] by (auto simp: map_keys_delete)
  qed
qed

text \<open>Keeping the bound.\<close>

lemma fold_remove_entry:
  "maps_ok s \<Longrightarrow> index_exact s \<Longrightarrow>
     maps_ok (fold remove_entry ks s) \<and> index_exact (fold remove_entry ks s)
     \<and> fresh_keys (fold remove_entry ks s) = fresh_keys s - set ks
     \<and> sch_config (fold remove_entry ks s) = sch_config s
     \<and> sch_epochs (fold remove_entry ks s) = sch_epochs s
     \<and> sch_in_flight (fold remove_entry ks s) = sch_in_flight s"
proof (induction ks arbitrary: s)
  case (Cons k ks)
  then show ?case
    using Cons.IH [of "remove_entry k s"] remove_entry_maps [of s k] remove_entry_index [of s k] by auto
qed simp

lemma evict_entries_ok:
  "maps_ok s \<Longrightarrow> index_exact s \<Longrightarrow>
     maps_ok (evict_entries m s) \<and> index_exact (evict_entries m s)
     \<and> length (sch_entries (evict_entries m s)) = min m (length (sch_entries s))
     \<and> fresh_keys (evict_entries m s) \<subseteq> fresh_keys s
     \<and> sch_stale (evict_entries m s) = sch_stale s
     \<and> sch_config (evict_entries m s) = sch_config s
     \<and> sch_epochs (evict_entries m s) = sch_epochs s
     \<and> sch_in_flight (evict_entries m s) = sch_in_flight s"
proof (induction m s rule: evict_entries.induct)
  case (1 m s)
  show ?case
  proof (cases "m < length (sch_entries s)")
    case False
    then show ?thesis using 1(2,3) by (subst (1 2 3 4 5 6 7 8) evict_entries.simps) simp
  next
    case True
    then obtain k where k: "oldest_key (sch_entries s) = Some k"
      using oldest_key_def by (metis length_greater_0_conv less_nat_zero_code neq0_conv)
    have step: "evict_entries m s = evict_entries m (remove_entry k s)"
      using True k by (subst evict_entries.simps) simp
    have "length (AList.delete k (sch_entries s)) = length (sch_entries s) - 1"
      using 1(2) oldest_key_in [OF k] by (simp add: maps_ok_def delete_length)
    with 1(1) [OF True k remove_entry_maps [OF 1(2)] remove_entry_index [OF 1(3)]] True
    show ?thesis unfolding step by (auto simp: map_keys_delete)
  qed
qed

lemma index_exact_cong:
  "sch_by_spec t = sch_by_spec s \<Longrightarrow> fresh_keys t = fresh_keys s \<Longrightarrow> index_exact t \<longleftrightarrow> index_exact s"
  unfolding index_exact_def by (simp only:)

lemma enforce_entry_bound_ok:
  assumes m: "maps_ok s" and i: "index_exact s"
  shows "cache_ok (enforce_entry_bound s)"
    and "fresh_keys (enforce_entry_bound s) \<subseteq> fresh_keys s"
    and "stale_keys (enforce_entry_bound s) \<subseteq> stale_keys s"
    and "sch_config (enforce_entry_bound s) = sch_config s"
    and "sch_epochs (enforce_entry_bound s) = sch_epochs s"
    and "sch_in_flight (enforce_entry_bound s) = sch_in_flight s"
proof -
  let ?t = "s\<lparr>sch_stale := trim_total (max_entries s) (length (sch_entries s)) (sch_stale s)\<rparr>"
  have t: "maps_ok ?t" "index_exact ?t"
    using m i index_exact_cong [of ?t s] fst_drop_subset [of _ "sch_stale s"]
    by (auto simp: maps_ok_def trim_total_drop distinct_fst_drop)
  note ev = evict_entries_ok [OF t, of "max_entries s"]
  note fo = fold_remove_entry [OF m i, of "map fst (sch_entries s)"]
  let ?f = "fold remove_entry (map fst (sch_entries s)) s"
  have none: "fresh_keys s - set (map fst (sch_entries s)) = {}" by (simp add: map_keys_def)
  have f: "maps_ok (?f\<lparr>sch_stale := []\<rparr>)" "index_exact (?f\<lparr>sch_stale := []\<rparr>)" "sch_entries ?f = []"
    using fo index_exact_cong [of "?f\<lparr>sch_stale := []\<rparr>" ?f] unfolding none by (simp_all add: maps_ok_def)
  show "cache_ok (enforce_entry_bound s)"
    using f ev fo by (auto simp: cache_ok_def within_bound_def enforce_entry_bound_def trim_total_drop)
  show "fresh_keys (enforce_entry_bound s) \<subseteq> fresh_keys s"
    "stale_keys (enforce_entry_bound s) \<subseteq> stale_keys s"
    "sch_config (enforce_entry_bound s) = sch_config s"
    "sch_epochs (enforce_entry_bound s) = sch_epochs s"
    "sch_in_flight (enforce_entry_bound s) = sch_in_flight s"
    using f ev fo fst_drop_subset [of _ "sch_stale s"]
    by (auto simp: enforce_entry_bound_def trim_total_drop)
qed

text \<open>Displacing entries, the part invalidation and expiry share.\<close>

lemma stash_stale_fields [simp]:
  "sch_entries (stash_stale ord k c s) = sch_entries s"
  "sch_config (stash_stale ord k c s) = sch_config s"
  "sch_by_spec (stash_stale ord k c s) = sch_by_spec s"
  "sch_epochs (stash_stale ord k c s) = sch_epochs s"
  "sch_in_flight (stash_stale ord k c s) = sch_in_flight s"
  by (simp_all add: stash_stale_def)

lemma displace_entry_fields [simp]:
  "sch_entries (displace_entry ord k s) = AList.delete k (sch_entries s)"
  "sch_config (displace_entry ord k s) = sch_config s"
  "sch_by_spec (displace_entry ord k s) = sch_by_spec s"
  "sch_epochs (displace_entry ord k s) = sch_epochs s"
  "sch_in_flight (displace_entry ord k s) = sch_in_flight s"
  by (auto simp: displace_entry_def delete_id map_of_keys map_keys_def split: option.splits)

lemma displace_entry_ok:
  assumes m: "maps_ok s" and b: "within_bound s"
  shows "maps_ok (displace_entry ord k s)" and "within_bound (displace_entry ord k s)"
proof -
  have "maps_ok (displace_entry ord k s) \<and> within_bound (displace_entry ord k s)"
  proof (cases "map_of (sch_entries s) k")
    case None
    with m b show ?thesis by (simp add: displace_entry_def)
  next
    case (Some e)
    then have k: "k \<in> fresh_keys s" using map_of_keys [of "sch_entries s" k] by auto
    let ?st = "put_entry ord k (cen_schema e) (sch_stale s)"
    have st: "distinct (map fst ?st)" "map_keys ?st = insert k (stale_keys s)"
      "length ?st = Suc (length (sch_stale s))"
      using m k by (auto simp: maps_ok_def put_entry_distinct put_entry_length)
    have len: "length (AList.delete k (sch_entries s)) = length (sch_entries s) - 1"
      "0 < length (sch_entries s)"
      using m k by (auto simp: maps_ok_def delete_length)
    show ?thesis
      using Some m b k st len fst_drop_subset [of _ ?st]
      by (auto simp: displace_entry_def stash_stale_def maps_ok_def within_bound_def trim_stale_drop
          distinct_fst_drop distinct_delete)
  qed
  then show "maps_ok (displace_entry ord k s)" "within_bound (displace_entry ord k s)" by auto
qed

lemma fold_displace:
  "maps_ok s \<Longrightarrow> within_bound s \<Longrightarrow>
     maps_ok (fold (displace_entry ord) ks s) \<and> within_bound (fold (displace_entry ord) ks s)
     \<and> sch_entries (fold (displace_entry ord) ks s) = filter (\<lambda>e. fst e \<notin> set ks) (sch_entries s)
     \<and> sch_config (fold (displace_entry ord) ks s) = sch_config s
     \<and> sch_by_spec (fold (displace_entry ord) ks s) = sch_by_spec s
     \<and> sch_epochs (fold (displace_entry ord) ks s) = sch_epochs s
     \<and> sch_in_flight (fold (displace_entry ord) ks s) = sch_in_flight s"
proof (induction ks arbitrary: s)
  case (Cons k ks)
  have "filter (\<lambda>e. fst e \<notin> set ks) (AList.delete k (sch_entries s)) =
      filter (\<lambda>e. fst e \<notin> set (k # ks)) (sch_entries s)"
    by (auto simp: AList.delete_eq intro!: filter_cong)
  with Cons.IH [of "displace_entry ord k s"] displace_entry_ok [OF Cons.prems, of ord k]
  show ?case by simp
qed simp

lemma bump_epoch_fields [simp]:
  "sch_entries (bump_epoch h s) = sch_entries s" "sch_stale (bump_epoch h s) = sch_stale s"
  "sch_config (bump_epoch h s) = sch_config s" "sch_by_spec (bump_epoch h s) = sch_by_spec s"
  "sch_in_flight (bump_epoch h s) = sch_in_flight s"
  by (simp_all add: bump_epoch_def Let_def)

lemma note_fields [simp]:
  "sch_entries (note_hit s) = sch_entries s" "sch_stale (note_hit s) = sch_stale s"
  "sch_config (note_hit s) = sch_config s" "sch_by_spec (note_hit s) = sch_by_spec s"
  "sch_in_flight (note_hit s) = sch_in_flight s" "sch_epochs (note_hit s) = sch_epochs s"
  "sch_entries (note_miss s) = sch_entries s" "sch_stale (note_miss s) = sch_stale s"
  "sch_config (note_miss s) = sch_config s" "sch_by_spec (note_miss s) = sch_by_spec s"
  "sch_in_flight (note_miss s) = sch_in_flight s" "sch_epochs (note_miss s) = sch_epochs s"
  by (simp_all add: note_hit_def note_miss_def)

lemma cache_ok_cong:
  "sch_entries t = sch_entries s \<Longrightarrow> sch_stale t = sch_stale s \<Longrightarrow> sch_config t = sch_config s \<Longrightarrow>
   sch_by_spec t = sch_by_spec s \<Longrightarrow> cache_ok t = cache_ok s"
  by (simp only: cache_ok_def maps_ok_def within_bound_def index_exact_def)

lemma cache_ok_notes [simp]:
  "cache_ok (bump_epoch h s) = cache_ok s" "cache_ok (note_hit s) = cache_ok s"
  "cache_ok (note_miss s) = cache_ok s"
  by (rule cache_ok_cong; simp)+

lemma invalidation_victims_exact:
  assumes "index_exact s"
  shows "set (invalidation_victims h s) = {k \<in> fresh_keys s. key_spec k = h}"
  using index_exactD [OF assms, of h]
  by (auto simp: invalidation_victims_def map_keys_def split: option.splits)

lemma invalidate_by_hash_entries:
  assumes "cache_ok s"
  shows "sch_entries (invalidate_by_hash ord h s) = filter (\<lambda>e. key_spec (fst e) \<noteq> h) (sch_entries s)"
proof -
  have "sch_entries (invalidate_by_hash ord h s)
      = filter (\<lambda>e. fst e \<notin> set (invalidation_victims h s)) (sch_entries s)"
    using fold_displace [of s] assms by (simp add: invalidate_by_hash_def Let_def cache_ok_def)
  also have "\<dots> = filter (\<lambda>e. key_spec (fst e) \<noteq> h) (sch_entries s)"
    using assms by (intro filter_cong) (auto simp: invalidation_victims_exact cache_ok_def map_keys_def)
  finally show ?thesis .
qed

lemma invalidate_by_hash_ok:
  assumes ok: "cache_ok s"
  shows "cache_ok (invalidate_by_hash ord h s)"
proof -
  let ?s1 = "fold (displace_entry ord) (invalidation_victims h s) s"
  let ?t = "?s1\<lparr>sch_by_spec := (sch_by_spec ?s1)(h := None), sch_invalidations := sch_invalidations ?s1 + 1\<rparr>"
  have f: "maps_ok ?s1" "within_bound ?s1" "sch_by_spec ?s1 = sch_by_spec s"
    using fold_displace [of s ord "invalidation_victims h s"] ok by (simp_all add: cache_ok_def)
  have keys: "fresh_keys ?t = {k \<in> fresh_keys s. key_spec k \<noteq> h}"
    using invalidate_by_hash_entries [OF ok, of ord h]
    by (auto simp: invalidate_by_hash_def Let_def map_keys_def)
  have "index_exact ?t"
    unfolding index_exact_def keys
    using index_exactD [of s] ok f(3) by (auto simp: cache_ok_def split: option.splits)
  with f have "cache_ok ?t" by (simp add: cache_ok_def maps_ok_def within_bound_def)
  then show ?thesis by (simp add: invalidate_by_hash_def Let_def)
qed

text \<open>Looking up and inserting.\<close>

lemma expired_entry_ok:
  assumes ok: "cache_ok s" and e: "map_of (sch_entries s) k = Some e"
  shows "cache_ok (remove_entry k (stash_stale ord k (cen_schema e) s))"
proof -
  let ?t = "remove_entry k (stash_stale ord k (cen_schema e) s)"
  have d: "displace_entry ord k s = ?t\<lparr>sch_by_spec := sch_by_spec s\<rparr>"
    using e by (simp add: displace_entry_def stash_stale_def remove_entry_def)
  have "maps_ok (displace_entry ord k s)" "within_bound (displace_entry ord k s)"
    using displace_entry_ok ok by (auto simp: cache_ok_def)
  then have "maps_ok ?t" "within_bound ?t" unfolding d by (simp_all add: maps_ok_def within_bound_def)
  moreover have "index_exact ?t"
    using ok index_exact_cong [of "stash_stale ord k (cen_schema e) s" s]
    by (intro remove_entry_index) (simp add: cache_ok_def)
  ultimately show ?thesis by (simp add: cache_ok_def)
qed

lemma get_cached_ok: "cache_ok s \<Longrightarrow> cache_ok (snd (get_cached ord now key s))"
  using expired_entry_ok by (auto simp: get_cached_def split: option.splits)

lemma store_entry_fields [simp]:
  "sch_entries (store_entry ord now k h c s)
     = put_entry ord k \<lparr>cen_schema = c, cen_inserted_at = now\<rparr> (sch_entries s)"
  "sch_stale (store_entry ord now k h c s) = AList.delete k (sch_stale s)"
  "sch_config (store_entry ord now k h c s) = sch_config s"
  "sch_in_flight (store_entry ord now k h c s) = sch_in_flight s"
  "sch_epochs (store_entry ord now k h c s)
     = (case sch_epochs s h of None \<Rightarrow> (sch_epochs s)(h \<mapsto> 1) | Some _ \<Rightarrow> sch_epochs s)"
  "sch_by_spec (store_entry ord now k h c s) = (sch_by_spec s)(h \<mapsto>
     (case sch_by_spec s h of None \<Rightarrow> [k] | Some ks \<Rightarrow> if k \<in> set ks then ks else ks @ [k]))"
  by (simp_all add: store_entry_def index_entry_def Let_def split: option.split)

lemma store_entry_ok:
  assumes ok: "cache_ok s" and h: "key_spec k = h"
  shows "maps_ok (store_entry ord now k h c s)" and "index_exact (store_entry ord now k h c s)"
proof -
  show "maps_ok (store_entry ord now k h c s)"
    using ok by (auto simp: cache_ok_def maps_ok_def put_entry_distinct distinct_delete)
  show "index_exact (store_entry ord now k h c s)"
    unfolding index_exact_def
  proof (intro allI)
    fix h'
    show "case sch_by_spec (store_entry ord now k h c s) h' of
        None \<Rightarrow> \<forall>k'\<in>fresh_keys (store_entry ord now k h c s). key_spec k' \<noteq> h'
      | Some ks \<Rightarrow> ks \<noteq> [] \<and> distinct ks \<and> set ks = {k' \<in> fresh_keys (store_entry ord now k h c s). key_spec k' = h'}"
      using index_exactD [of s h'] ok h unfolding cache_ok_def
      by (auto split: option.splits)
  qed
qed

lemma insert_schema_ok:
  assumes ok: "cache_ok s" and key: "\<And>k h. key = Some (k, h) \<Longrightarrow> key_spec k = h"
  shows "cache_ok (snd (insert_schema ord now key c s))"
    and "sch_in_flight (snd (insert_schema ord now key c s)) = sch_in_flight s"
    and "fresh_keys (snd (insert_schema ord now key c s)) \<subseteq> fresh_keys s \<union> fst ` set_option key"
    and "sch_config (snd (insert_schema ord now key c s)) = sch_config s"
    and "epoch_of h' (snd (insert_schema ord now key c s)) =
      (if h' \<in> snd ` set_option key \<and> sch_epochs s h' = None then 1 else epoch_of h' s)"
proof -
  have "cache_ok (snd (insert_schema ord now key c s))
      \<and> sch_in_flight (snd (insert_schema ord now key c s)) = sch_in_flight s
      \<and> fresh_keys (snd (insert_schema ord now key c s)) \<subseteq> fresh_keys s \<union> fst ` set_option key
      \<and> sch_config (snd (insert_schema ord now key c s)) = sch_config s
      \<and> epoch_of h' (snd (insert_schema ord now key c s)) =
          (if h' \<in> snd ` set_option key \<and> sch_epochs s h' = None then 1 else epoch_of h' s)"
  proof (cases key)
    case None
    with ok show ?thesis by (simp add: insert_schema_def)
  next
    case (Some p)
    obtain k h where p: "p = (k, h)" by force
    note st = store_entry_ok [OF ok key [OF Some [unfolded p]], of ord now c]
    show ?thesis
      using enforce_entry_bound_ok [OF st] key [OF Some [unfolded p]]
      by (auto simp: insert_schema_def Some p epoch_of_def split: option.splits)
  qed
  then show "cache_ok (snd (insert_schema ord now key c s))"
    "sch_in_flight (snd (insert_schema ord now key c s)) = sch_in_flight s"
    "fresh_keys (snd (insert_schema ord now key c s)) \<subseteq> fresh_keys s \<union> fst ` set_option key"
    "sch_config (snd (insert_schema ord now key c s)) = sch_config s"
    "epoch_of h' (snd (insert_schema ord now key c s)) =
      (if h' \<in> snd ` set_option key \<and> sch_epochs s h' = None then 1 else epoch_of h' s)"
    by (simp_all only:)
qed

text \<open>An operation leaves an epoch or moves it on by one, and an invalidation always does the latter.\<close>

definition next_epoch :: "u64 \<Rightarrow> u64" where
  "next_epoch e = (if e = - 1 then 1 else e + 1)"

definition epoch_moves :: "u64 \<Rightarrow> u64 \<Rightarrow> bool" where
  "epoch_moves e e' \<longleftrightarrow> e' = e \<or> e' = next_epoch e"

lemma epoch_of_bump: "epoch_of h' (bump_epoch h s) = (if h' = h then next_epoch (epoch_of h s) else epoch_of h' s)"
  by (auto simp: bump_epoch_def epoch_of_def Let_def next_epoch_def split: option.split)

lemma epoch_of_cong: "sch_epochs t = sch_epochs s \<Longrightarrow> epoch_of h t = epoch_of h s"
  by (simp add: epoch_of_def)

lemma unat_next_epoch: "unat e < 2 ^ 64 - 1 \<Longrightarrow> unat (next_epoch e) = Suc (unat e)"
proof -
  assume e: "unat e < 2 ^ 64 - 1"
  then have "e \<noteq> - 1" by (auto simp: unat_max_word)
  moreover have "unat (e + 1) = Suc (unat e)" using e by (simp add: unat_word_ariths)
  ultimately show ?thesis by (simp add: next_epoch_def)
qed

lemma get_cached_facts:
  "sch_config (snd (get_cached ord now key s)) = sch_config s"
  "fresh_keys (snd (get_cached ord now key s)) \<subseteq> fresh_keys s"
  "epoch_moves (epoch_of h s) (epoch_of h (snd (get_cached ord now key s)))"
proof -
  show "sch_config (snd (get_cached ord now key s)) = sch_config s"
    by (simp add: get_cached_def split: option.split)
  show "fresh_keys (snd (get_cached ord now key s)) \<subseteq> fresh_keys s"
    by (auto simp: get_cached_def split: option.split)
  have n: "epoch_of h (note_hit t) = epoch_of h t" "epoch_of h (note_miss t) = epoch_of h t"
    for t :: "'a schema_cache"
    by (rule epoch_of_cong, simp)+
  have "epoch_of h (remove_entry k (stash_stale ord k c s)) = epoch_of h s" for h k c
    by (rule epoch_of_cong) simp
  with n show "epoch_moves (epoch_of h s) (epoch_of h (snd (get_cached ord now key s)))"
    by (auto simp: get_cached_def epoch_of_bump epoch_moves_def split: option.split)
qed

lemma insert_schema_epoch:
  assumes "cache_ok s" and "\<And>k h. key = Some (k, h) \<Longrightarrow> key_spec k = h"
  shows "epoch_moves (epoch_of h s) (epoch_of h (snd (insert_schema ord now key c s)))"
  using insert_schema_ok(5) [OF assms] by (auto simp: epoch_moves_def next_epoch_def epoch_of_def)

lemma invalidate_by_hash_facts:
  assumes "cache_ok s"
  shows "sch_in_flight (invalidate_by_hash ord h s) = sch_in_flight s"
    and "sch_config (invalidate_by_hash ord h s) = sch_config s"
    and "epoch_of h' (invalidate_by_hash ord h s) = (if h' = h then next_epoch (epoch_of h s) else epoch_of h' s)"
  using fold_displace [of s ord "invalidation_victims h s"] assms
  by (simp_all add: invalidate_by_hash_def Let_def cache_ok_def epoch_of_bump, simp add: epoch_of_def)

end
