(* ===== verification/Schema_Invalidators.thy ===== *)
theory Schema_Invalidators
  imports Schema_Cache
begin

text \<open>
  Who invalidates the cached catalogs: \<^verbatim>\<open>ensure_invalidator\<close> and the tasks of PostgreSQL and SQL
  Server (\<^verbatim>\<open>crates/server/src/schema_cache.rs\<close>). Making sure of a task is cut between starting it and
  registering it, as the task runs on another thread.
\<close>

section \<open>The register of tasks\<close>

datatype task_state = TaskRunning | TaskEnded | TaskAborted

record invalidator_task =
  ivt_spec :: string
  ivt_state :: task_state

record invalidator_world =
  ivw_config :: cache_config
  ivw_registered :: "(string \<times> nat) list"   \<comment> \<open>the handles, by connection\<close>
  ivw_tasks :: "nat \<rightharpoonup> invalidator_task"
  ivw_next :: nat
  ivw_starting :: "nat \<rightharpoonup> nat"   \<comment> \<open>the task a caller has started and not registered\<close>

definition invalidator_world_new :: "cache_config \<Rightarrow> invalidator_world" where
  "invalidator_world_new config =
     \<lparr>ivw_config = config, ivw_registered = [], ivw_tasks = Map.empty, ivw_next = 0, ivw_starting = Map.empty\<rparr>"

text \<open>SQLite has no task.\<close>

definition ensure_begin :: "nat \<Rightarrow> string \<Rightarrow> engine \<Rightarrow> invalidator_world \<Rightarrow> invalidator_world" where
  "ensure_begin caller h engine w =
     (if map_of (ivw_registered w) h \<noteq> None then w
      else if cac_max_invalidators (ivw_config w) \<le> length (ivw_registered w) then w
      else if engine = Sqlite then w
      else w\<lparr>ivw_tasks := (ivw_tasks w)(ivw_next w \<mapsto> \<lparr>ivt_spec = h, ivt_state = TaskRunning\<rparr>),
             ivw_next := ivw_next w + 1,
             ivw_starting := (ivw_starting w)(caller \<mapsto> ivw_next w)\<rparr>)"

text \<open>Aborting has no effect on a task that has ended.\<close>

definition abort_task :: "nat \<Rightarrow> invalidator_world \<Rightarrow> invalidator_world" where
  "abort_task t w =
     w\<lparr>ivw_tasks := (ivw_tasks w)(t := map_option
          (\<lambda>k. if ivt_state k = TaskRunning then k\<lparr>ivt_state := TaskAborted\<rparr> else k) (ivw_tasks w t))\<rparr>"

definition ensure_finish :: "nat \<Rightarrow> invalidator_world \<Rightarrow> invalidator_world" where
  "ensure_finish caller w =
     (case ivw_starting w caller of
        None \<Rightarrow> w
      | Some t \<Rightarrow>
          (case ivw_tasks w t of
             None \<Rightarrow> w
           | Some k \<Rightarrow>
               (let w1 = w\<lparr>ivw_starting := (ivw_starting w)(caller := None)\<rparr>
                in if map_of (ivw_registered w) (ivt_spec k) \<noteq> None then abort_task t w1
                   else w1\<lparr>ivw_registered := (ivt_spec k, t) # ivw_registered w\<rparr>)))"

text \<open>A task that returns removes the handle registered for its connection, whose drop aborts its task.\<close>

definition task_ends :: "nat \<Rightarrow> invalidator_world \<Rightarrow> invalidator_world" where
  "task_ends t w =
     (case ivw_tasks w t of
        None \<Rightarrow> w
      | Some k \<Rightarrow>
          (if ivt_state k = TaskRunning then
             (let w1 = w\<lparr>ivw_tasks := (ivw_tasks w)(t \<mapsto> k\<lparr>ivt_state := TaskEnded\<rparr>)\<rparr>
              in case map_of (ivw_registered w) (ivt_spec k) of
                   None \<Rightarrow> w1
                 | Some other \<Rightarrow>
                     abort_task other (w1\<lparr>ivw_registered := AList.delete (ivt_spec k) (ivw_registered w)\<rparr>))
           else w))"

datatype invalidator_op = EnsureBegin nat string engine | EnsureFinish nat | TaskEnds nat

fun invalidator_step :: "invalidator_op \<Rightarrow> invalidator_world \<Rightarrow> invalidator_world" where
  "invalidator_step (EnsureBegin caller h engine) = ensure_begin caller h engine"
| "invalidator_step (EnsureFinish caller) = ensure_finish caller"
| "invalidator_step (TaskEnds t) = task_ends t"

definition running_for :: "string \<Rightarrow> invalidator_world \<Rightarrow> bool" where
  "running_for h w \<longleftrightarrow> (\<exists>t k. ivw_tasks w t = Some k \<and> ivt_spec k = h \<and> ivt_state k = TaskRunning)"

section \<open>Registered tasks\<close>

text \<open>Handles name started tasks of their connection, one for each, and tasks being registered exist.\<close>

definition task_spec :: "invalidator_world \<Rightarrow> nat \<Rightarrow> string option" where
  "task_spec w t = map_option ivt_spec (ivw_tasks w t)"

definition invalidators_ok :: "invalidator_world \<Rightarrow> bool" where
  "invalidators_ok w \<longleftrightarrow>
     distinct (map fst (ivw_registered w))
     \<and> (\<forall>h t. map_of (ivw_registered w) h = Some t \<longrightarrow> task_spec w t = Some h)
     \<and> (\<forall>t. task_spec w t \<noteq> None \<longrightarrow> t < ivw_next w)
     \<and> (\<forall>c t. ivw_starting w c = Some t \<longrightarrow> task_spec w t \<noteq> None)"

lemma invalidators_ok_new: "invalidators_ok (invalidator_world_new config)"
  by (simp add: invalidators_ok_def invalidator_world_new_def task_spec_def)

lemma invalidators_ok_cong:
  "ivw_registered w' = ivw_registered w \<Longrightarrow> task_spec w' = task_spec w \<Longrightarrow> ivw_next w' = ivw_next w \<Longrightarrow>
   ivw_starting w' = ivw_starting w \<Longrightarrow> invalidators_ok w' = invalidators_ok w"
  by (simp only: invalidators_ok_def)

lemma abort_task_ok: "invalidators_ok (abort_task t w) = invalidators_ok w"
  by (rule invalidators_ok_cong) (auto simp: abort_task_def task_spec_def fun_eq_iff map_option_case split: option.split)

lemma invalidator_step_ok:
  assumes ok: "invalidators_ok w"
  shows "invalidators_ok (invalidator_step op w)"
proof (cases op)
  case (EnsureBegin c h e)
  let ?t = "ivw_next w"
  let ?w1 = "w\<lparr>ivw_tasks := (ivw_tasks w)(?t \<mapsto> \<lparr>ivt_spec = h, ivt_state = TaskRunning\<rparr>), ivw_next := ?t + 1,
      ivw_starting := (ivw_starting w)(c \<mapsto> ?t)\<rparr>"
  have new: "task_spec w ?t = None" using ok unfolding invalidators_ok_def by (metis less_irrefl)
  then have reg: "map_of (ivw_registered w) h' \<noteq> Some ?t" for h'
    using ok unfolding invalidators_ok_def by (metis option.distinct(1))
  have spec: "task_spec ?w1 = (task_spec w)(?t \<mapsto> h)" by (simp add: task_spec_def fun_eq_iff)
  have "invalidators_ok ?w1"
    using ok reg unfolding invalidators_ok_def spec by (auto simp: less_SucI split: if_splits)
  with ok EnsureBegin show ?thesis by (simp add: ensure_begin_def)
next
  case (EnsureFinish c)
  show ?thesis
  proof (cases "Option.bind (ivw_starting w c) (ivw_tasks w)")
    case None
    with EnsureFinish ok show ?thesis by (auto simp: ensure_finish_def split: option.splits)
  next
    case (Some k)
    then obtain t where t: "ivw_starting w c = Some t" "ivw_tasks w t = Some k" by (auto simp: bind_eq_Some_conv)
    let ?w1 = "w\<lparr>ivw_starting := (ivw_starting w)(c := None)\<rparr>"
    have w1: "invalidators_ok ?w1" using ok by (auto simp: invalidators_ok_def task_spec_def)
    show ?thesis
    proof (cases "map_of (ivw_registered w) (ivt_spec k)")
      case None
      with w1 t EnsureFinish show ?thesis
        by (auto simp: ensure_finish_def invalidators_ok_def task_spec_def map_of_eq_None_iff split: if_splits)
    next
      case (Some t')
      with abort_task_ok w1 t EnsureFinish show ?thesis by (simp add: ensure_finish_def Let_def)
    qed
  qed
next
  case (TaskEnds t)
  show ?thesis
  proof (cases "ivw_tasks w t")
    case None
    with ok TaskEnds show ?thesis by (simp add: task_ends_def)
  next
    case (Some k)
    let ?w1 = "w\<lparr>ivw_tasks := (ivw_tasks w)(t \<mapsto> k\<lparr>ivt_state := TaskEnded\<rparr>)\<rparr>"
    have w1: "invalidators_ok ?w1 = invalidators_ok w"
      using Some by (intro invalidators_ok_cong) (simp_all add: task_spec_def fun_eq_iff)
    with ok have "invalidators_ok (?w1\<lparr>ivw_registered := AList.delete (ivt_spec k) (ivw_registered w)\<rparr>)"
      by (auto simp: invalidators_ok_def task_spec_def distinct_delete delete_conv' split: if_splits)
    with w1 ok Some TaskEnds show ?thesis
      by (simp add: task_ends_def Let_def abort_task_ok split: option.split)
  qed
qed

text \<open>
  A task that ends before its handle is registered leaves a handle that nothing removes: no other task
  of its connection can be registered any more, and one is started only by a caller that found
  nothing registered before.
\<close>

definition dead_handle :: "string \<Rightarrow> invalidator_world \<Rightarrow> bool" where
  "dead_handle h w \<longleftrightarrow>
     map_of (ivw_registered w) h \<noteq> None \<and> \<not> running_for h w"

lemma dead_handle_step:
  assumes ok: "invalidators_ok w" and dead: "dead_handle h w"
  shows "dead_handle h (invalidator_step op w)"
proof -
  obtain t where t: "map_of (ivw_registered w) h = Some t" using dead by (auto simp: dead_handle_def)
  have idle: "ivt_state k \<noteq> TaskRunning" if "ivw_tasks w t' = Some k" "ivt_spec k = h" for t' k
    using dead that by (auto simp: dead_handle_def running_for_def)
  show ?thesis
  proof (cases op)
    case (EnsureBegin c h' e)
    then show ?thesis using dead t by (auto simp: dead_handle_def running_for_def ensure_begin_def split: if_splits)
  next
    case (EnsureFinish c)
    then show ?thesis
      using t idle unfolding dead_handle_def running_for_def
      by (simp add: ensure_finish_def abort_task_def Let_def split: option.split)
  next
    case (TaskEnds t')
    then show ?thesis
      using t idle unfolding dead_handle_def running_for_def
      by (auto simp: task_ends_def abort_task_def Let_def delete_conv' split: option.splits if_splits)
  qed
qed

theorem early_end_blocks_invalidator:
  assumes "0 < cac_max_invalidators config" and "engine \<noteq> Sqlite"
  shows "\<not> running_for h (fold invalidator_step
      ([EnsureBegin caller h engine, TaskEnds 0, EnsureFinish caller] @ ops) (invalidator_world_new config))"
proof -
  let ?w = "fold invalidator_step [EnsureBegin caller h engine, TaskEnds 0, EnsureFinish caller]
      (invalidator_world_new config)"
  have w: "?w = \<lparr>ivw_config = config, ivw_registered = [(h, 0)],
      ivw_tasks = [0 \<mapsto> \<lparr>ivt_spec = h, ivt_state = TaskEnded\<rparr>], ivw_next = 1, ivw_starting = Map.empty\<rparr>"
    using assms by (simp add: invalidator_world_new_def ensure_begin_def task_ends_def ensure_finish_def)
  have ok: "invalidators_ok ?w" unfolding w by (auto simp: invalidators_ok_def task_spec_def split: if_splits)
  have dead: "dead_handle h ?w" unfolding w by (auto simp: dead_handle_def running_for_def split: if_splits)
  have "invalidators_ok (fold invalidator_step ops ?w) \<and> dead_handle h (fold invalidator_step ops ?w)"
    by (rule fold_invariant [where Q = "\<lambda>_. True"])
      (simp_all add: ok dead invalidator_step_ok dead_handle_step del: fold.simps)
  then show ?thesis unfolding dead_handle_def by (simp only: fold_append comp_def simp_thms)
qed

section \<open>The tasks\<close>

text \<open>
  PostgreSQL: each notification of the channel invalidates the connection, until the stream is closed;
  a task that cannot open a connection or listen invalidates nothing.
\<close>

definition pg_listen_task ::
  "bool \<Rightarrow> bool \<Rightarrow> bool \<Rightarrow> hash_order list \<Rightarrow> string \<Rightarrow> 'c schema_cache \<Rightarrow> 'c schema_cache" where
  "pg_listen_task opened has_ext listens notifications h cache =
     (if opened \<and> has_ext \<and> listens then fold (\<lambda>ord. invalidate_by_hash ord h) notifications cache
      else cache)"

text \<open>SQL Server: the first cell a query returns, and the polls of a task that could open its connection.
  Debug output is an argument.\<close>

fun value_to_string :: "(sql_value \<Rightarrow> string) \<Rightarrow> sql_value \<Rightarrow> string" where
  "value_to_string debug (VText s) = s"
| "value_to_string debug VNull = ''''"
| "value_to_string debug (VTypedNull t) = ''''"
| "value_to_string debug v = debug v"

fun read_scalar ::
  "(sql_value \<Rightarrow> string) \<Rightarrow> page list \<Rightarrow> string option \<Rightarrow> (driver_error, string option) result" where
  "read_scalar debug [] out = Inr out"
| "read_scalar debug (PageRows rows # pages) out =
     read_scalar debug pages
       (case out of
          Some v \<Rightarrow> Some v
        | None \<Rightarrow> (case rows of (v # _) # _ \<Rightarrow> Some (value_to_string debug v) | _ \<Rightarrow> None))"
| "read_scalar debug (PageDone _ _ # pages) out = Inr out"
| "read_scalar debug (PageError e # pages) out = Inl e"
| "read_scalar debug (PageNextResult _ # pages) out = read_scalar debug pages out"

definition read_first_scalar ::
  "(sql_value \<Rightarrow> string) \<Rightarrow> (driver_error, page list) result \<Rightarrow> (driver_error, string option) result" where
  "read_first_scalar debug executed = res_bind executed (\<lambda>pages. read_scalar debug pages None)"

record poll_state =
  pls_last :: "string option"
  pls_errors :: u8
  pls_invalidations :: nat

definition poll_state_new :: poll_state where
  "poll_state_new = \<lparr>pls_last = None, pls_errors = 0, pls_invalidations = 0\<rparr>"

text \<open>One round of the loop; the third error in a row ends the task.\<close>

definition poll_once :: "(driver_error, string option) result \<Rightarrow> poll_state \<Rightarrow> poll_state option" where
  "poll_once r s =
     (case r of
        Inl e \<Rightarrow>
          (let n = sat_add (pls_errors s) 1 in if 3 \<le> n then None else Some (s\<lparr>pls_errors := n\<rparr>))
      | Inr v \<Rightarrow>
          (let s1 = s\<lparr>pls_errors := 0\<rparr>
           in Some (if pls_last s \<noteq> None \<and> v \<noteq> None \<and> pls_last s = v then s1
                    else s1\<lparr>pls_invalidations :=
                              pls_invalidations s + (if pls_last s \<noteq> None then 1 else 0),
                            pls_last := v\<rparr>)))"

fun mssql_poll_task :: "(driver_error, string option) result list \<Rightarrow> poll_state \<Rightarrow> poll_state option" where
  "mssql_poll_task [] s = Some s"
| "mssql_poll_task (r # rs) s = Option.bind (poll_once r s) (mssql_poll_task rs)"

text \<open>How often a sequence of values changes, a missing one not counting as a start.\<close>

fun changes :: "string option list \<Rightarrow> nat" where
  "changes (a # b # vs) = (if a \<noteq> None \<and> a \<noteq> b then 1 else 0) + changes (b # vs)"
| "changes _ = 0"

definition successes :: "('e, 'a) result list \<Rightarrow> 'a list" where
  "successes rs = List.map_filter (\<lambda>r. case r of Inl _ \<Rightarrow> None | Inr v \<Rightarrow> Some v) rs"

lemma successes_simps [simp]:
  "successes [] = []" "successes (Inl e # rs) = successes rs" "successes (Inr v # rs) = v # successes rs"
  by (simp_all add: successes_def List.map_filter_simps)

lemma changes_None [simp]: "changes (None # vs) = changes vs"
  by (cases vs) simp_all

lemma poll_invalidates_changes:
  "mssql_poll_task rs s = Some s' \<Longrightarrow>
     pls_invalidations s' = pls_invalidations s + changes (pls_last s # successes rs)"
proof (induction rs arbitrary: s)
  case (Cons r rs)
  then obtain s1 where s1: "poll_once r s = Some s1" "mssql_poll_task rs s1 = Some s'"
    by (auto simp: bind_eq_Some_conv)
  note IH = Cons.IH [OF s1(2)]
  show ?case
  proof (cases r)
    case (Inl e)
    then have "pls_last s1 = pls_last s" "pls_invalidations s1 = pls_invalidations s"
      using s1(1) by (auto simp: poll_once_def Let_def split: if_splits)
    with IH Inl show ?thesis by simp
  next
    case (Inr v)
    then have "pls_last s1 = v"
      "pls_invalidations s1 = pls_invalidations s + (if pls_last s \<noteq> None \<and> pls_last s \<noteq> v then 1 else 0)"
      using s1(1) by (auto simp: poll_once_def Let_def split: if_splits)
    with IH Inr show ?thesis by simp
  qed
qed simp

text \<open>The task goes on exactly while no three polls in a row have failed.\<close>

fun no_three_errors :: "nat \<Rightarrow> ('e, 'a) result list \<Rightarrow> bool" where
  "no_three_errors n [] = True"
| "no_three_errors n (Inl e # rs) = (n < 2 \<and> no_three_errors (Suc n) rs)"
| "no_three_errors n (Inr v # rs) = no_three_errors 0 rs"

lemma poll_task_goes_on:
  "unat (pls_errors s) < 3 \<Longrightarrow>
     mssql_poll_task rs s \<noteq> None \<longleftrightarrow> no_three_errors (unat (pls_errors s)) rs"
proof (induction rs arbitrary: s)
  case (Cons r rs)
  show ?case
  proof (cases r)
    case (Inl e)
    have n: "unat (sat_add (pls_errors s) 1) = Suc (unat (pls_errors s))"
      using Cons.prems by (simp add: unat_sat_add)
    then have "3 \<le> sat_add (pls_errors s) 1 \<longleftrightarrow> \<not> unat (pls_errors s) < 2"
      by (simp add: word_le_nat_alt not_less)
    with n Inl Cons.IH [of "s\<lparr>pls_errors := sat_add (pls_errors s) 1\<rparr>"] show ?thesis
      by (simp add: poll_once_def Let_def)
  next
    case (Inr v)
    then obtain s1 where s1: "poll_once r s = Some s1" "pls_errors s1 = 0"
      by (simp add: poll_once_def Let_def)
    then show ?thesis using Inr Cons.IH [of s1] by simp
  qed
qed simp

lemma mssql_poll_invalidates:
  "no_three_errors 0 rs \<Longrightarrow>
     \<exists>s. mssql_poll_task rs poll_state_new = Some s \<and> pls_invalidations s = changes (successes rs)"
  using poll_task_goes_on [of poll_state_new rs] poll_invalidates_changes [of rs poll_state_new]
  by (auto simp: poll_state_new_def)

end
