(* ===== verification/Schema_Fetch.thy ===== *)
theory Schema_Fetch
  imports Schema_Cache Snapshot_Filter
begin

text \<open>
  Reading a catalog through the cache: \<^verbatim>\<open>schema_cached\<close>, \<^verbatim>\<open>schema_cached_unfiltered\<close> and
  \<^verbatim>\<open>stale_schema\<close> of \<^verbatim>\<open>crates/server/src/session.rs\<close>. A call is cut where it waits or where other
  threads may run between its accesses to the cache: before its lock, during the provider's work,
  before the check of the epoch, and between this check and the insertion. A world has any number
  of calls.
\<close>

section \<open>Data\<close>

record 'scope snapshot_data =
  sdt_catalog :: schema_snapshot
  sdt_fetched_at :: i64
  sdt_scope :: 'scope
  sdt_incomplete :: bool

record ('scope, 'd) cached_schema =
  csc_snapshot :: "'scope snapshot_data"
  csc_dictionary :: 'd

record ('x, 'scope, 'd) fetch_env =
  fev_keys :: "('x, 'scope) key_env"
  fev_catalog :: catalog_env
  fev_dictionary :: "'scope snapshot_data \<Rightarrow> 'd"   \<comment> \<open>\<^verbatim>\<open>Dictionary::from_snapshot\<close>\<close>

definition new_uncached :: "('x, 'scope, 'd) fetch_env \<Rightarrow> 'scope snapshot_data \<Rightarrow> ('scope, 'd) cached_schema" where
  "new_uncached env snapshot = \<lparr>csc_snapshot = snapshot, csc_dictionary = fev_dictionary env snapshot\<rparr>"

definition stale_graph :: "catalog_env \<Rightarrow> catalog_graph_data \<Rightarrow> catalog_graph_data" where
  "stale_graph env graph =
     normalize_graph env (graph\<lparr>cg_coverage := (cg_coverage graph)
       \<lparr>cv_state := CoverageStale,
        cv_failures := cv_failures (cg_coverage graph) @
          [\<lparr>cf_stage = ''refresh'', cf_schema = None,
            cf_code = ''provider_unavailable_using_stale_catalog''\<rparr>]\<rparr>\<rparr>)"

definition stale_schema :: "('x, 'scope, 'd) fetch_env \<Rightarrow> 'scope snapshot_data \<Rightarrow> ('scope, 'd) cached_schema" where
  "stale_schema env snapshot =
     new_uncached env (snapshot\<lparr>sdt_incomplete := True,
       sdt_catalog := (sdt_catalog snapshot)
         \<lparr>sn_graph := map_option (stale_graph (fev_catalog env)) (sn_graph (sdt_catalog snapshot))\<rparr>\<rparr>)"

text \<open>What a restricted connection gets of it; without a restriction the cached value is shared.\<close>

definition filtered_schema ::
  "('x, 'scope, 'd) fetch_env \<Rightarrow> connection_policy option \<Rightarrow> ('scope, 'd) cached_schema
     \<Rightarrow> ('scope, 'd) cached_schema option" where
  "filtered_schema env policy cached =
     (case policy of
        None \<Rightarrow> Some cached
      | Some p \<Rightarrow>
          (if cp_allowed_schemas p = None then Some cached
           else map_option (\<lambda>c. new_uncached env ((csc_snapshot cached)\<lparr>sdt_catalog := c\<rparr>))
                  (filter_snapshot p (sdt_catalog (csc_snapshot cached)))))"

section \<open>Calls\<close>

text \<open>The stale value and the epoch are those the call has read when it began the provider's work.\<close>

datatype ('scope, 'd) fetch_stage =
    AtGate
  | Building "('scope, 'd) cached_schema option" "u64 option"
  | Built "('scope, 'd) cached_schema option" "u64 option" "(api_error, 'scope snapshot_data) result"
  | EpochChecked "('scope, 'd) cached_schema option" "(api_error, 'scope snapshot_data) result"
  | Finished "(api_error, ('scope, 'd) cached_schema) result"

text \<open>
  A call for a connection whose catalogs are cached has a \<^verbatim>\<open>cache_spec\<close>; that of SQLite and of a
  provider without the legacy driver has none.
\<close>

record ('x, 'scope, 'd) fetch =
  fet_spec :: "'x connection_spec option"
  fet_scope :: 'scope
  fet_stage :: "('scope, 'd) fetch_stage"

record ('x, 'scope, 'd) fetch_world =
  fwo_cache :: "('scope, 'd) cached_schema schema_cache"
  fwo_now :: instant
  fwo_fetches :: "nat \<rightharpoonup> ('x, 'scope, 'd) fetch"

definition fetch_world_new :: "cache_config \<Rightarrow> ('x, 'scope, 'd) fetch_world" where
  "fetch_world_new config = \<lparr>fwo_cache = schema_cache_new config, fwo_now = 0, fwo_fetches = Map.empty\<rparr>"

definition fetch_key :: "('x, 'scope, 'd) fetch_env \<Rightarrow> ('x, 'scope, 'd) fetch \<Rightarrow> cache_key option" where
  "fetch_key env f = Option.bind (fet_spec f) (\<lambda>spec. key_for (fev_keys env) spec (fet_scope f))"

definition fetch_hash :: "('x, 'scope, 'd) fetch_env \<Rightarrow> ('x, 'scope, 'd) fetch \<Rightarrow> string option" where
  "fetch_hash env f = Option.bind (fet_spec f) (spec_hash (fev_keys env))"

definition fetch_epoch ::
  "('x, 'scope, 'd) fetch_env \<Rightarrow> ('x, 'scope, 'd) fetch \<Rightarrow> 'c schema_cache \<Rightarrow> u64 option" where
  "fetch_epoch env f cache = map_option (\<lambda>spec. invalidation_epoch (fev_keys env) spec cache) (fet_spec f)"

definition put_fetch ::
  "nat \<Rightarrow> ('x, 'scope, 'd) fetch \<Rightarrow> ('x, 'scope, 'd) fetch_world \<Rightarrow> ('x, 'scope, 'd) fetch_world" where
  "put_fetch c f w = w\<lparr>fwo_fetches := (fwo_fetches w)(c \<mapsto> f)\<rparr>"

definition on_cache ::
  "('scope, 'd) cached_schema schema_cache \<Rightarrow> ('x, 'scope, 'd) fetch_world \<Rightarrow> ('x, 'scope, 'd) fetch_world" where
  "on_cache cache w = w\<lparr>fwo_cache := cache\<rparr>"

text \<open>The cache lookup is made only with a \<^verbatim>\<open>cache_spec\<close>.\<close>

definition lookup_fresh ::
  "('x, 'scope, 'd) fetch_env \<Rightarrow> hash_order \<Rightarrow> ('x, 'scope, 'd) fetch \<Rightarrow> instant
     \<Rightarrow> ('scope, 'd) cached_schema schema_cache
     \<Rightarrow> ('scope, 'd) cached_schema option \<times> ('scope, 'd) cached_schema schema_cache" where
  "lookup_fresh env ord f now cache =
     (case fet_spec f of None \<Rightarrow> (None, cache) | Some _ \<Rightarrow> get_cached ord now (fetch_key env f) cache)"

text \<open>A gate is opened, locked and left only when the key serializes.\<close>

definition on_locks ::
  "cache_key lock_op option \<Rightarrow> ('c schema_cache) \<Rightarrow> ('c schema_cache) option" where
  "on_locks op cache =
     (case op of
        None \<Rightarrow> Some cache
      | Some lop \<Rightarrow>
          map_option (\<lambda>locks. cache\<lparr>sch_in_flight := locks\<rparr>) (lock_step lop (sch_in_flight cache)))"

definition with_key ::
  "('x, 'scope, 'd) fetch_env \<Rightarrow> ('x, 'scope, 'd) fetch \<Rightarrow> (cache_key \<Rightarrow> cache_key lock_op)
     \<Rightarrow> cache_key lock_op option" where
  "with_key env f op = map_option op (fetch_key env f)"

text \<open>At its end a call drops its guard, if it has one, and then its gate.\<close>

definition unlock_gate ::
  "('x, 'scope, 'd) fetch_env \<Rightarrow> nat \<Rightarrow> ('x, 'scope, 'd) fetch
     \<Rightarrow> ('scope, 'd) cached_schema schema_cache \<Rightarrow> ('scope, 'd) cached_schema schema_cache option" where
  "unlock_gate env c f cache =
     Option.bind (on_locks (with_key env f (\<lambda>_. Unlock c)) cache)
       (on_locks (with_key env f (\<lambda>_. DropGate c)))"

definition finish_fetch ::
  "('x, 'scope, 'd) fetch_env \<Rightarrow> nat \<Rightarrow> ('x, 'scope, 'd) fetch
     \<Rightarrow> (api_error, ('scope, 'd) cached_schema) result
     \<Rightarrow> ('scope, 'd) cached_schema schema_cache \<Rightarrow> ('x, 'scope, 'd) fetch_world
     \<Rightarrow> ('x, 'scope, 'd) fetch_world option" where
  "finish_fetch env c f r cache w =
     map_option (\<lambda>cache'. put_fetch c (f\<lparr>fet_stage := Finished r\<rparr>) (on_cache cache' w))
       (unlock_gate env c f cache)"

definition fetch_start ::
  "('x, 'scope, 'd) fetch_env \<Rightarrow> hash_order \<Rightarrow> nat \<Rightarrow> 'x connection_spec option \<Rightarrow> 'scope
     \<Rightarrow> ('x, 'scope, 'd) fetch_world \<Rightarrow> ('x, 'scope, 'd) fetch_world option" where
  "fetch_start env ord c spec scope w =
     (let f = \<lparr>fet_spec = spec, fet_scope = scope, fet_stage = AtGate\<rparr>
      in case lookup_fresh env ord f (fwo_now w) (fwo_cache w) of
           (Some hit, cache) \<Rightarrow> Some (put_fetch c (f\<lparr>fet_stage := Finished (Inr hit)\<rparr>) (on_cache cache w))
         | (None, cache) \<Rightarrow>
             map_option (\<lambda>cache'. put_fetch c f (on_cache cache' w))
               (on_locks (with_key env f (OpenGate c)) cache))"

text \<open>With the lock the call looks again, and then reads what it falls back to and the epoch.\<close>

definition fetch_lock ::
  "('x, 'scope, 'd) fetch_env \<Rightarrow> hash_order \<Rightarrow> nat \<Rightarrow> ('x, 'scope, 'd) fetch
     \<Rightarrow> ('x, 'scope, 'd) fetch_world \<Rightarrow> ('x, 'scope, 'd) fetch_world option" where
  "fetch_lock env ord c f w =
     (case on_locks (with_key env f (\<lambda>_. TryLock c)) (fwo_cache w) of
        None \<Rightarrow> None
      | Some locked \<Rightarrow>
          (case lookup_fresh env ord f (fwo_now w) locked of
             (Some hit, cache) \<Rightarrow> finish_fetch env c f (Inr hit) cache w
           | (None, cache) \<Rightarrow>
               Some (put_fetch c
                 (f\<lparr>fet_stage := Building (get_stale_cached (fetch_key env f) cache) (fetch_epoch env f cache)\<rparr>)
                 (on_cache cache w))))"

text \<open>
  The provider's answers: a lost connection is opened again and the provider asked once more, and a
  connection that cannot be opened ends the call.
\<close>

definition is_reconnectable :: "driver_error \<Rightarrow> bool" where
  "is_reconnectable e \<longleftrightarrow> de_code e = ConnectionFailed"

record 'scope provider_answers =
  pa_first :: "(api_error, 'scope snapshot_data) result"
  pa_reconnect :: "(api_error, unit) result"
  pa_second :: "(api_error, 'scope snapshot_data) result"

definition provider_result ::
  "'scope provider_answers \<Rightarrow> (api_error, (api_error, 'scope snapshot_data) result) result" where
  "provider_result a =
     (case pa_first a of
        Inl (ApiDriver e) \<Rightarrow>
          (if is_reconnectable e then
             (case pa_reconnect a of Inl failed \<Rightarrow> Inl failed | Inr _ \<Rightarrow> Inr (pa_second a))
           else Inr (Inl (ApiDriver e)))
      | other \<Rightarrow> Inr other)"

definition fetch_answer ::
  "('x, 'scope, 'd) fetch_env \<Rightarrow> nat \<Rightarrow> ('x, 'scope, 'd) fetch \<Rightarrow> ('scope, 'd) cached_schema option
     \<Rightarrow> u64 option \<Rightarrow> 'scope provider_answers
     \<Rightarrow> ('x, 'scope, 'd) fetch_world \<Rightarrow> ('x, 'scope, 'd) fetch_world option" where
  "fetch_answer env c f stale epoch a w =
     (case provider_result a of
        Inl e \<Rightarrow> finish_fetch env c f (Inl e) (fwo_cache w) w
      | Inr r \<Rightarrow> Some (put_fetch c (f\<lparr>fet_stage := Built stale epoch r\<rparr>) w))"

definition invalidated_error :: api_error where
  "invalidated_error = ApiBadRequest ''schema invalidated while provider build was in flight; retry''"

definition fetch_check ::
  "('x, 'scope, 'd) fetch_env \<Rightarrow> nat \<Rightarrow> ('x, 'scope, 'd) fetch \<Rightarrow> ('scope, 'd) cached_schema option
     \<Rightarrow> u64 option \<Rightarrow> (api_error, 'scope snapshot_data) result
     \<Rightarrow> ('x, 'scope, 'd) fetch_world \<Rightarrow> ('x, 'scope, 'd) fetch_world" where
  "fetch_check env c f stale epoch r w =
     put_fetch c
       (f\<lparr>fet_stage := EpochChecked stale
            (if fetch_epoch env f (fwo_cache w) \<noteq> epoch then Inl invalidated_error else r)\<rparr>) w"

definition fetch_store ::
  "('x, 'scope, 'd) fetch_env \<Rightarrow> hash_order \<Rightarrow> nat \<Rightarrow> ('x, 'scope, 'd) fetch
     \<Rightarrow> ('scope, 'd) cached_schema option \<Rightarrow> (api_error, 'scope snapshot_data) result
     \<Rightarrow> ('x, 'scope, 'd) fetch_world \<Rightarrow> ('x, 'scope, 'd) fetch_world option" where
  "fetch_store env ord c f stale r w =
     (case r of
        Inr snapshot \<Rightarrow>
          (case fet_spec f of
             None \<Rightarrow> finish_fetch env c f (Inr (new_uncached env snapshot)) (fwo_cache w) w
           | Some spec \<Rightarrow>
               (case insert_schema ord (fwo_now w) (key_for_with_hash (fev_keys env) spec (fet_scope f))
                       (new_uncached env snapshot) (fwo_cache w) of
                  (Some cached, cache) \<Rightarrow> finish_fetch env c f (Inr cached) cache w
                | (None, cache) \<Rightarrow> finish_fetch env c f (Inr (new_uncached env snapshot)) cache w))
      | Inl e \<Rightarrow>
          (case stale of
             Some s \<Rightarrow> finish_fetch env c f (Inr (stale_schema env (csc_snapshot s))) (fwo_cache w) w
           | None \<Rightarrow> finish_fetch env c f (Inl e) (fwo_cache w) w))"

text \<open>A caller that goes away drops what its call holds at a point where it waits.\<close>

definition fetch_cancel ::
  "('x, 'scope, 'd) fetch_env \<Rightarrow> nat \<Rightarrow> ('x, 'scope, 'd) fetch
     \<Rightarrow> ('x, 'scope, 'd) fetch_world \<Rightarrow> ('x, 'scope, 'd) fetch_world option" where
  "fetch_cancel env c f w =
     map_option (\<lambda>cache. w\<lparr>fwo_cache := cache, fwo_fetches := (fwo_fetches w)(c := None)\<rparr>)
       (case fet_stage f of
          AtGate \<Rightarrow> on_locks (with_key env f (\<lambda>_. DropGate c)) (fwo_cache w)
        | Building _ _ \<Rightarrow> unlock_gate env c f (fwo_cache w)
        | _ \<Rightarrow> None)"

section \<open>Worlds\<close>

datatype ('x, 'scope) fetch_op =
    FetchStart nat "'x connection_spec option" 'scope
  | FetchLock nat
  | FetchAnswer nat "'scope provider_answers"
  | FetchCheck nat
  | FetchStore nat
  | FetchCancel nat
  | Invalidate string
  | Pass duration

text \<open>
  One step, of a call or of the world: an invalidation comes from an invalidator's task or an
  operator, time passes. A step that cannot be taken is none.
\<close>

fun fetch_step ::
  "('x, 'scope, 'd) fetch_env \<Rightarrow> hash_order \<Rightarrow> ('x, 'scope) fetch_op
     \<Rightarrow> ('x, 'scope, 'd) fetch_world \<Rightarrow> ('x, 'scope, 'd) fetch_world option" where
  "fetch_step env ord (FetchStart c spec scope) w =
     (if fwo_fetches w c = None then fetch_start env ord c spec scope w else None)"
| "fetch_step env ord (FetchLock c) w =
     (case fwo_fetches w c of
        None \<Rightarrow> None
      | Some f \<Rightarrow> (case fet_stage f of AtGate \<Rightarrow> fetch_lock env ord c f w | _ \<Rightarrow> None))"
| "fetch_step env ord (FetchAnswer c a) w =
     (case fwo_fetches w c of
        None \<Rightarrow> None
      | Some f \<Rightarrow> (case fet_stage f of Building stale epoch \<Rightarrow> fetch_answer env c f stale epoch a w | _ \<Rightarrow> None))"
| "fetch_step env ord (FetchCheck c) w =
     (case fwo_fetches w c of
        None \<Rightarrow> None
      | Some f \<Rightarrow> (case fet_stage f of Built stale epoch r \<Rightarrow> Some (fetch_check env c f stale epoch r w) | _ \<Rightarrow> None))"
| "fetch_step env ord (FetchStore c) w =
     (case fwo_fetches w c of
        None \<Rightarrow> None
      | Some f \<Rightarrow> (case fet_stage f of EpochChecked stale r \<Rightarrow> fetch_store env ord c f stale r w | _ \<Rightarrow> None))"
| "fetch_step env ord (FetchCancel c) w =
     (case fwo_fetches w c of None \<Rightarrow> None | Some f \<Rightarrow> fetch_cancel env c f w)"
| "fetch_step env ord (Invalidate h) w = Some (on_cache (invalidate_by_hash ord h (fwo_cache w)) w)"
| "fetch_step env ord (Pass d) w = Some (w\<lparr>fwo_now := fwo_now w + d\<rparr>)"

text \<open>Each step has its own order of the hash maps.\<close>

fun fetch_run ::
  "('x, 'scope, 'd) fetch_env \<Rightarrow> (hash_order \<times> ('x, 'scope) fetch_op) list
     \<Rightarrow> ('x, 'scope, 'd) fetch_world \<Rightarrow> ('x, 'scope, 'd) fetch_world option" where
  "fetch_run env [] w = Some w"
| "fetch_run env ((ord, op) # ops) w = Option.bind (fetch_step env ord op w) (fetch_run env ops)"

end
