(* ===== verification/Fetch_Safety.thy ===== *)
theory Fetch_Safety
  imports Schema_Fetch
begin

text \<open>
  What the cache and its calls keep: the tables stay consistent, one call at a time works on a key,
  and every fresh entry was read after the last invalidation of its connection, unless one fell
  between a call's check and its insertion.
\<close>

section \<open>The invariant of a world\<close>

fun gate_key :: "('x, 'scope, 'd) fetch_env \<Rightarrow> ('x, 'scope, 'd) fetch \<Rightarrow> cache_key option" where
  "gate_key env f = (case fet_stage f of Finished _ \<Rightarrow> None | _ \<Rightarrow> fetch_key env f)"

fun at_work :: "('scope, 'd) fetch_stage \<Rightarrow> bool" where
  "at_work AtGate = False"
| "at_work (Building _ _) = True"
| "at_work (Built _ _ _) = True"
| "at_work (EpochChecked _ _) = True"
| "at_work (Finished _) = False"

definition lock_key :: "('x, 'scope, 'd) fetch_env \<Rightarrow> ('x, 'scope, 'd) fetch \<Rightarrow> cache_key option" where
  "lock_key env f = (if at_work (fet_stage f) then fetch_key env f else None)"

abbreviation lock_view :: "'c schema_cache \<Rightarrow> cache_key key_lock_spec" where
  "lock_view cache \<equiv> abs_locks (sch_in_flight cache)"

definition calls_hold ::
  "('x, 'scope, 'd) fetch_env \<Rightarrow> (nat \<rightharpoonup> ('x, 'scope, 'd) fetch) \<Rightarrow> cache_key key_lock_spec \<Rightarrow> bool" where
  "calls_hold env F a \<longleftrightarrow>
     (\<forall>c. kp_gates a c = Option.bind (F c) (gate_key env))
     \<and> (\<forall>k c. kp_holder a k = Some c \<longleftrightarrow> Option.bind (F c) (lock_key env) = Some k)"

definition fetches_ok :: "('x, 'scope, 'd) fetch_env \<Rightarrow> ('x, 'scope, 'd) fetch_world \<Rightarrow> bool" where
  "fetches_ok env w \<longleftrightarrow>
     cache_ok (fwo_cache w) \<and> locks_ok (sch_in_flight (fwo_cache w))
     \<and> calls_hold env (fwo_fetches w) (lock_view (fwo_cache w))"

lemma fetches_ok_new: "fetches_ok env (fetch_world_new config)"
proof -
  have "abs_locks keyed_locks_default = (\<lparr>kp_gates = Map.empty, kp_holder = Map.empty\<rparr> :: cache_key key_lock_spec)"
    by (simp add: abs_locks_def keyed_locks_default_def fun_eq_iff)
  then show ?thesis
    by (simp add: fetches_ok_def fetch_world_new_def schema_cache_new_def cache_ok_def maps_ok_def
        index_exact_def within_bound_def locks_ok_default calls_hold_def)
qed

lemma fetch_fields [simp]:
  "fwo_cache (put_fetch c f w) = fwo_cache w" "fwo_now (put_fetch c f w) = fwo_now w"
  "fwo_fetches (put_fetch c f w) = (fwo_fetches w)(c \<mapsto> f)"
  "fwo_cache (on_cache cache w) = cache" "fwo_now (on_cache cache w) = fwo_now w"
  "fwo_fetches (on_cache cache w) = fwo_fetches w"
  by (simp_all add: put_fetch_def on_cache_def)

lemma fetch_key_stage [simp]:
  "fetch_key env (f\<lparr>fet_stage := st\<rparr>) = fetch_key env f"
  "fetch_hash env (f\<lparr>fet_stage := st\<rparr>) = fetch_hash env f"
  "fetch_epoch env (f\<lparr>fet_stage := st\<rparr>) = fetch_epoch env f"
  by (simp_all add: fetch_key_def fetch_hash_def fetch_epoch_def fun_eq_iff)

section \<open>Locks\<close>

lemma on_locks_ok:
  assumes "locks_ok (sch_in_flight cache)" and "on_locks (Some lop) cache = Some cache'"
  shows "locks_ok (sch_in_flight cache')" and "spec_step lop (lock_view cache) = Some (lock_view cache')"
    and "cache' = cache\<lparr>sch_in_flight := sch_in_flight cache'\<rparr>"
  using assms lock_step_abs [OF assms(1), of lop, symmetric] lock_step_ok [OF assms(1), of lop]
  by (auto simp: on_locks_def)

lemma on_locks_progress:
  assumes "locks_ok (sch_in_flight cache)" and "spec_step lop (lock_view cache) = Some a"
  obtains cache' where "on_locks (Some lop) cache = Some cache'"
proof -
  have "map_option abs_locks (lock_step lop (sch_in_flight cache)) = Some a"
    using lock_step_abs [OF assms(1), of lop] assms(2) by simp
  then show ?thesis using that by (auto simp: on_locks_def)
qed

lemma unlock_gate_ok:
  assumes ok: "locks_ok (sch_in_flight cache)"
    and gate: "kp_gates (lock_view cache) c = fetch_key env f"
    and held: "\<And>k. fetch_key env f = Some k \<Longrightarrow> kp_holder (lock_view cache) k = Some c"
  obtains cache' where "unlock_gate env c f cache = Some cache'" and "locks_ok (sch_in_flight cache')"
    and "cache' = cache\<lparr>sch_in_flight := sch_in_flight cache'\<rparr>"
    and "kp_gates (lock_view cache') = (kp_gates (lock_view cache))(c := None)"
    and "kp_holder (lock_view cache') =
      (case fetch_key env f of None \<Rightarrow> kp_holder (lock_view cache)
       | Some k \<Rightarrow> (kp_holder (lock_view cache))(k := None))"
proof (cases "fetch_key env f")
  case None
  then have "unlock_gate env c f cache = Some cache"
    by (simp add: unlock_gate_def with_key_def on_locks_def)
  with None ok gate show ?thesis by (intro that [of cache]) (auto simp: fun_upd_idem)
next
  case (Some k)
  let ?u = "(lock_view cache)\<lparr>kp_holder := (kp_holder (lock_view cache))(k := None)\<rparr>"
  have u: "spec_step (Unlock c) (lock_view cache) = Some ?u" using gate held Some by simp
  from on_locks_progress [OF ok u] obtain c1 where c1: "on_locks (Some (Unlock c)) cache = Some c1" by blast
  note l1 = on_locks_ok [OF ok c1]
  have v1: "lock_view c1 = ?u" using l1(2) u by simp
  have d: "spec_step (DropGate c) (lock_view c1) = Some (?u\<lparr>kp_gates := (kp_gates (lock_view cache))(c := None)\<rparr>)"
    unfolding v1 using gate Some by simp
  from on_locks_progress [OF l1(1) d] obtain c2 where c2: "on_locks (Some (DropGate c)) c1 = Some c2" by blast
  note l2 = on_locks_ok [OF l1(1) c2]
  have "unlock_gate env c f cache = Some c2" using c1 c2 Some by (simp add: unlock_gate_def with_key_def)
  moreover have "c2 = cache\<lparr>sch_in_flight := sch_in_flight c2\<rparr>" using l1(3) l2(3) by (metis schema_cache.surjective schema_cache.update_convs(5))
  moreover have "lock_view c2 = ?u\<lparr>kp_gates := (kp_gates (lock_view cache))(c := None)\<rparr>" using l2(2) d by simp
  ultimately show ?thesis using l2(1) Some by (intro that [of c2]) simp_all
qed

section \<open>Steps keep it\<close>

lemma get_cached_in_flight [simp]: "sch_in_flight (snd (get_cached ord now key s)) = sch_in_flight s"
  by (simp add: get_cached_def split: option.split)

lemma lookup_fresh_fields [simp]:
  "sch_in_flight (snd (lookup_fresh env ord f now cache)) = sch_in_flight cache"
  "cache_ok cache \<Longrightarrow> cache_ok (snd (lookup_fresh env ord f now cache))"
  by (auto simp: lookup_fresh_def get_cached_ok split: option.split)

lemma cache_ok_in_flight [simp]: "cache_ok (s\<lparr>sch_in_flight := locks\<rparr>) = cache_ok s"
  by (rule cache_ok_cong) simp_all

lemma key_hash: "key_for_with_hash kenv spec scope = Some (k, h) \<Longrightarrow> key_spec k = h"
  by (auto simp: key_for_with_hash_def split: option.splits)

lemma calls_hold_stage:
  assumes "calls_hold env F a" and "F c = Some f"
    and "gate_key env f' = gate_key env f" and "lock_key env f' = lock_key env f"
  shows "calls_hold env (F(c \<mapsto> f')) a"
  using assms by (auto simp: calls_hold_def split: if_splits)

lemma calls_hold_open:
  assumes "calls_hold env F a" and "F c = None" and "gate_key env f = Some k" and "lock_key env f = None"
  shows "calls_hold env (F(c \<mapsto> f)) (a\<lparr>kp_gates := (kp_gates a)(c \<mapsto> k)\<rparr>)"
  using assms by (auto simp: calls_hold_def)

lemma calls_hold_lock:
  assumes hold: "calls_hold env F a" and F: "F c = Some f" "lock_key env f = None" and free: "kp_holder a k = None"
    and f': "gate_key env f' = gate_key env f" "lock_key env f' = Some k"
  shows "calls_hold env (F(c \<mapsto> f')) (a\<lparr>kp_holder := (kp_holder a)(k \<mapsto> c)\<rparr>)"
proof -
  have "Option.bind (F c') (lock_key env) \<noteq> Some k" for c'
    using hold free by (metis calls_hold_def option.distinct(1))
  with hold F f' show ?thesis by (auto simp: calls_hold_def)
qed

lemma calls_hold_free:
  assumes hold: "calls_hold env (F(c \<mapsto> f)) a" and f: "lock_key env f = Some k"
    and f': "gate_key env f' = None" "lock_key env f' = None"
  shows "calls_hold env (F(c \<mapsto> f')) (a\<lparr>kp_gates := (kp_gates a)(c := None), kp_holder := (kp_holder a)(k := None)\<rparr>)"
proof -
  have "kp_holder a k = Some c" using hold f by (simp add: calls_hold_def)
  then have other: "Option.bind (F c') (lock_key env) \<noteq> Some k" if "c' \<noteq> c" for c'
    using hold that by (metis calls_hold_def fun_upd_other option.inject)
  have g: "kp_gates a c' = Option.bind (F c') (gate_key env)" if "c' \<noteq> c" for c'
    using hold that by (simp add: calls_hold_def)
  have h: "kp_holder a k' = Some c' \<longleftrightarrow> Option.bind ((F(c \<mapsto> f)) c') (lock_key env) = Some k'" for c' k'
    using hold by (simp add: calls_hold_def)
  show ?thesis
    unfolding calls_hold_def using other g h f f' by auto
qed

lemma finish_fetch_ok:
  assumes cache: "cache_ok cache" and locks: "locks_ok (sch_in_flight cache)"
    and hold: "calls_hold env ((fwo_fetches w)(c \<mapsto> f)) (lock_view cache)" and work: "at_work (fet_stage f)"
  obtains w' where "finish_fetch env c f r cache w = Some w'" and "fetches_ok env w'"
    and "fwo_fetches w' = (fwo_fetches w)(c \<mapsto> f\<lparr>fet_stage := Finished r\<rparr>)"
    and "fwo_now w' = fwo_now w"
    and "fwo_cache w' = cache\<lparr>sch_in_flight := sch_in_flight (fwo_cache w')\<rparr>"
proof -
  have gk: "gate_key env f = fetch_key env f" "lock_key env f = fetch_key env f"
    using work by (cases "fet_stage f"; simp add: lock_key_def)+
  have gate: "kp_gates (lock_view cache) c = fetch_key env f"
    using hold gk(1) by (simp add: calls_hold_def)
  have held: "kp_holder (lock_view cache) k = Some c" if "fetch_key env f = Some k" for k
    using hold gk(2) that by (simp add: calls_hold_def)
  obtain cache' where u: "unlock_gate env c f cache = Some cache'" "locks_ok (sch_in_flight cache')"
    "cache' = cache\<lparr>sch_in_flight := sch_in_flight cache'\<rparr>"
    "kp_gates (lock_view cache') = (kp_gates (lock_view cache))(c := None)"
    "kp_holder (lock_view cache') = (case fetch_key env f of None \<Rightarrow> kp_holder (lock_view cache)
       | Some k \<Rightarrow> (kp_holder (lock_view cache))(k := None))"
    using unlock_gate_ok [OF locks gate held] by blast
  have "calls_hold env ((fwo_fetches w)(c \<mapsto> f\<lparr>fet_stage := Finished r\<rparr>)) (lock_view cache')"
  proof (cases "fetch_key env f")
    case None
    then have "lock_view cache' = lock_view cache"
      using u(4,5) gate by (intro key_lock_spec.equality) (simp_all add: fun_upd_idem)
    with calls_hold_stage [OF hold, of c f "f\<lparr>fet_stage := Finished r\<rparr>"] None gk show ?thesis
      by (simp add: lock_key_def)
  next
    case (Some k)
    then have v: "lock_view cache' = (lock_view cache)
        \<lparr>kp_gates := (kp_gates (lock_view cache))(c := None), kp_holder := (kp_holder (lock_view cache))(k := None)\<rparr>"
      using u(4,5) by (intro key_lock_spec.equality) simp_all
    show ?thesis
      unfolding v by (rule calls_hold_free [OF hold]) (use work in \<open>simp_all add: lock_key_def Some\<close>)
  qed
  moreover have "cache_ok cache'" using cache u(3) by (metis cache_ok_in_flight)
  ultimately show ?thesis
    using u(1,2,3) by (intro that [of "put_fetch c (f\<lparr>fet_stage := Finished r\<rparr>) (on_cache cache' w)"])
      (simp_all add: finish_fetch_def fetches_ok_def)
qed

text \<open>What a step does to the cache: the bound stays, epochs move, and only insertions add keys.\<close>

definition cache_moves :: "cache_key set \<Rightarrow> 'c schema_cache \<Rightarrow> 'c schema_cache \<Rightarrow> bool" where
  "cache_moves added s t \<longleftrightarrow>
     sch_config t = sch_config s \<and> fresh_keys t \<subseteq> fresh_keys s \<union> added
     \<and> (\<forall>h. epoch_moves (epoch_of h s) (epoch_of h t))"

lemma cache_moves_refl [simp]: "cache_moves A s s"
  by (simp add: cache_moves_def epoch_moves_def)

lemma cache_moves_locks [simp]:
  "cache_moves A s (t\<lparr>sch_in_flight := l\<rparr>) = cache_moves A s t"
  "cache_moves A (s\<lparr>sch_in_flight := l\<rparr>) t = cache_moves A s t"
  by (simp_all add: cache_moves_def epoch_of_def)

lemma lookup_fresh_moves [simp]: "cache_moves A s (snd (lookup_fresh env ord f now s))"
proof (cases "fet_spec f")
  case None
  then show ?thesis by (simp add: lookup_fresh_def)
next
  case (Some spec)
  then show ?thesis
    using get_cached_facts [where ord = ord and now = now and key = "fetch_key env f" and s = s] by (simp add: lookup_fresh_def cache_moves_def le_supI1)
qed

lemma on_locks_key:
  assumes "locks_ok (sch_in_flight cache)" and "on_locks (with_key env f (\<lambda>_. lop)) cache = Some cache'"
  shows "locks_ok (sch_in_flight cache')" and "cache' = cache\<lparr>sch_in_flight := sch_in_flight cache'\<rparr>"
    and "fetch_key env f = None \<Longrightarrow> cache' = cache"
    and "fetch_key env f = Some k \<Longrightarrow> spec_step lop (lock_view cache) = Some (lock_view cache')"
proof -
  have none: "cache' = cache" if "fetch_key env f = None"
    using assms(2) that by (simp add: with_key_def on_locks_def)
  have some: "on_locks (Some lop) cache = Some cache'" if "fetch_key env f = Some k" for k
    using assms(2) that by (simp add: with_key_def)
  note facts = on_locks_ok [OF assms(1) some]
  show "locks_ok (sch_in_flight cache')" using none facts(1) assms(1) by (cases "fetch_key env f") auto
  show "cache' = cache\<lparr>sch_in_flight := sch_in_flight cache'\<rparr>"
    using facts(3) by (cases "fetch_key env f") (simp_all only: none, simp)
  show "fetch_key env f = None \<Longrightarrow> cache' = cache" by (rule none)
  show "fetch_key env f = Some k \<Longrightarrow> spec_step lop (lock_view cache) = Some (lock_view cache')" by (rule facts(2))
qed

lemma start_ok:
  assumes ok: "fetches_ok env w" and new: "fwo_fetches w c = None"
    and s: "fetch_start env ord c spec scope w = Some w'"
  shows "fetches_ok env w' \<and> cache_moves {} (fwo_cache w) (fwo_cache w')"
proof -
  let ?f = "\<lparr>fet_spec = spec, fet_scope = scope, fet_stage = AtGate\<rparr> :: ('a, 'b, 'c) fetch"
  obtain hit cache where lf: "lookup_fresh env ord ?f (fwo_now w) (fwo_cache w) = (hit, cache)" by force
  have cache: "cache_ok cache" "sch_in_flight cache = sch_in_flight (fwo_cache w)"
    "cache_moves {} (fwo_cache w) cache"
    using lookup_fresh_fields [where f = ?f and cache = "fwo_cache w" and env = env and ord = ord and now = "fwo_now w"] ok lf
      lookup_fresh_moves [where A = "{}" and s = "fwo_cache w" and f = ?f and env = env and ord = ord and now = "fwo_now w"] by (auto simp: fetches_ok_def)
  have locks: "locks_ok (sch_in_flight cache)" and hold: "calls_hold env (fwo_fetches w) (lock_view cache)"
    using ok cache(2) by (simp_all add: fetches_ok_def)
  show ?thesis
  proof (cases hit)
    case (Some x)
    have "calls_hold env ((fwo_fetches w)(c \<mapsto> ?f\<lparr>fet_stage := Finished (Inr x)\<rparr>)) (lock_view cache)"
      using hold new by (auto simp: calls_hold_def lock_key_def)
    moreover have "w' = put_fetch c (?f\<lparr>fet_stage := Finished (Inr x)\<rparr>) (on_cache cache w)"
      using s unfolding fetch_start_def Let_def lf Some by simp
    ultimately show ?thesis using cache locks by (simp add: fetches_ok_def)
  next
    case None
    have "map_option (\<lambda>cache'. put_fetch c ?f (on_cache cache' w))
        (on_locks (with_key env ?f (OpenGate c)) cache) = Some w'"
      using s unfolding fetch_start_def Let_def lf None by (simp only: prod.case option.case)
    from this [unfolded map_option_eq_Some] obtain cache'
      where l: "on_locks (with_key env ?f (OpenGate c)) cache = Some cache'"
        and w': "put_fetch c ?f (on_cache cache' w) = w'" by (elim exE conjE)
    have "locks_ok (sch_in_flight cache') \<and> cache' = cache\<lparr>sch_in_flight := sch_in_flight cache'\<rparr>
        \<and> calls_hold env ((fwo_fetches w)(c \<mapsto> ?f)) (lock_view cache')"
    proof (cases "fetch_key env ?f")
      case no_key: None
      then have "cache' = cache" using l by (simp add: with_key_def on_locks_def)
      with locks hold new no_key show ?thesis by (auto simp: calls_hold_def lock_key_def)
    next
      case (Some k)
      then have l': "on_locks (Some (OpenGate c k)) cache = Some cache'" using l by (simp add: with_key_def)
      note lo = on_locks_ok [OF locks l']
      have "kp_gates (lock_view cache) c = None" using hold new by (simp add: calls_hold_def)
      with lo(2) have "lock_view cache' = (lock_view cache)\<lparr>kp_gates := (kp_gates (lock_view cache))(c \<mapsto> k)\<rparr>"
        by simp
      with calls_hold_open [OF hold new, of ?f k] Some
      have "calls_hold env ((fwo_fetches w)(c \<mapsto> ?f)) (lock_view cache')" by (simp add: lock_key_def)
      with lo(1,3) show ?thesis by (intro conjI)
    qed
    then have locks': "locks_ok (sch_in_flight cache')" and eq: "cache' = cache\<lparr>sch_in_flight := sch_in_flight cache'\<rparr>"
      and hold': "calls_hold env ((fwo_fetches w)(c \<mapsto> ?f)) (lock_view cache')" by blast+
    have "cache_ok cache'" "cache_moves {} (fwo_cache w) cache'"
      by (subst eq, simp add: cache)+
    with locks' hold' show ?thesis unfolding w' [symmetric] by (simp add: fetches_ok_def)
  qed
qed

text \<open>A call that has locked its gate holds the key, whatever it finds then.\<close>

lemma locked_holds:
  assumes ok: "fetches_ok env w" and f: "fwo_fetches w c = Some f" "fet_stage f = AtGate"
    and l: "on_locks (with_key env f (\<lambda>_. TryLock c)) (fwo_cache w) = Some locked"
    and st: "at_work st"
  shows "calls_hold env ((fwo_fetches w)(c \<mapsto> f\<lparr>fet_stage := st\<rparr>)) (lock_view locked)"
proof -
  have gk: "gate_key env f = fetch_key env f" "lock_key env f = None"
    "gate_key env (f\<lparr>fet_stage := st\<rparr>) = fetch_key env f" "lock_key env (f\<lparr>fet_stage := st\<rparr>) = fetch_key env f"
    using f(2) st by (simp_all add: lock_key_def, cases st) simp_all
  have locks: "locks_ok (sch_in_flight (fwo_cache w))"
    and hold: "calls_hold env (fwo_fetches w) (lock_view (fwo_cache w))" using ok by (simp_all add: fetches_ok_def)
  show ?thesis
  proof (cases "fetch_key env f")
    case None
    with hold f gk on_locks_key(3) [OF locks l] show ?thesis by (auto simp: calls_hold_def)
  next
    case (Some k)
    have "kp_gates (lock_view (fwo_cache w)) c = Some k" using hold f gk Some by (simp add: calls_hold_def)
    with on_locks_key(4) [OF locks l Some]
    have free: "kp_holder (lock_view (fwo_cache w)) k = None"
      and v: "lock_view locked = (lock_view (fwo_cache w))
        \<lparr>kp_holder := (kp_holder (lock_view (fwo_cache w)))(k \<mapsto> c)\<rparr>" by (simp_all split: if_splits)
    show ?thesis
      unfolding v by (rule calls_hold_lock [OF hold f(1) gk(2) free]) (simp_all only: gk Some)
  qed
qed

lemma cache_moves_locks_eq:
  "t' = t\<lparr>sch_in_flight := sch_in_flight t'\<rparr> \<Longrightarrow> cache_moves A s t' = cache_moves A s t"
  "t' = t\<lparr>sch_in_flight := sch_in_flight t'\<rparr> \<Longrightarrow> cache_ok t' = cache_ok t"
  by (metis cache_moves_locks(1)) (metis cache_ok_in_flight)

lemma lock_fetch_ok:
  assumes ok: "fetches_ok env w" and f: "fwo_fetches w c = Some f" "fet_stage f = AtGate"
    and s: "fetch_lock env ord c f w = Some w'"
  shows "fetches_ok env w' \<and> cache_moves {} (fwo_cache w) (fwo_cache w')"
proof -
  from s obtain locked where l: "on_locks (with_key env f (\<lambda>_. TryLock c)) (fwo_cache w) = Some locked"
    unfolding fetch_lock_def by (cases "on_locks (with_key env f (\<lambda>_. TryLock c)) (fwo_cache w)") simp_all
  have w: "cache_ok (fwo_cache w)" "locks_ok (sch_in_flight (fwo_cache w))" using ok by (simp_all add: fetches_ok_def)
  note lk = on_locks_key(1,2) [OF w(2) l]
  obtain hit cache where lf: "lookup_fresh env ord f (fwo_now w) locked = (hit, cache)" by force
  have locked: "cache_ok locked" "cache_moves {} (fwo_cache w) locked"
    using cache_moves_locks_eq [OF lk(2)] w(1) by simp_all
  have cache: "cache_ok cache" "sch_in_flight cache = sch_in_flight locked" "cache_moves {} locked cache"
    using lookup_fresh_fields [where f = f and cache = locked and env = env and ord = ord and now = "fwo_now w"] locked lf
      lookup_fresh_moves [where A = "{}" and s = locked and f = f and env = env and ord = ord and now = "fwo_now w"]
    by simp_all
  have moves: "cache_moves {} (fwo_cache w) cache"
    using cache(3) by (subst (asm) lk(2)) simp
  have hold: "calls_hold env ((fwo_fetches w)(c \<mapsto> f\<lparr>fet_stage := st\<rparr>)) (lock_view cache)" if "at_work st" for st
    using locked_holds [OF ok f l that] cache(2) by simp
  show ?thesis
  proof (cases hit)
    case None
    then have "w' = put_fetch c (f\<lparr>fet_stage := Building (get_stale_cached (fetch_key env f) cache)
        (fetch_epoch env f cache)\<rparr>) (on_cache cache w)"
      using s unfolding fetch_lock_def l option.case lf by simp
    with hold [of "Building (get_stale_cached (fetch_key env f) cache) (fetch_epoch env f cache)"]
      cache(1,2) lk(1) moves show ?thesis by (simp add: fetches_ok_def)
  next
    case (Some x)
    then have fin: "finish_fetch env c (f\<lparr>fet_stage := Building None None\<rparr>) (Inr x) cache w = Some w'"
      using s unfolding fetch_lock_def l option.case lf by (simp add: finish_fetch_def unlock_gate_def with_key_def)
    obtain w1 where "finish_fetch env c (f\<lparr>fet_stage := Building None None\<rparr>) (Inr x) cache w = Some w1"
      "fetches_ok env w1" "fwo_cache w1 = cache\<lparr>sch_in_flight := sch_in_flight (fwo_cache w1)\<rparr>"
      using finish_fetch_ok [OF cache(1), of env w c "f\<lparr>fet_stage := Building None None\<rparr>" "Inr x"]
        hold [of "Building None None"] cache(2) lk(1) by auto
    with fin cache_moves_locks_eq(1) moves show ?thesis by auto
  qed
qed

text \<open>A call at work that ends.\<close>

lemma work_ends_ok:
  assumes ok: "fetches_ok env w" and f: "fwo_fetches w c = Some f" "at_work (fet_stage f)"
    and cache: "cache_ok cache" "sch_in_flight cache = sch_in_flight (fwo_cache w)"
    and moves: "cache_moves A (fwo_cache w) cache"
  obtains w' where "finish_fetch env c f r cache w = Some w'" and "fetches_ok env w'"
    and "cache_moves A (fwo_cache w) (fwo_cache w')"
    and "fwo_fetches w' = (fwo_fetches w)(c \<mapsto> f\<lparr>fet_stage := Finished r\<rparr>)"
proof -
  have hold: "calls_hold env ((fwo_fetches w)(c \<mapsto> f)) (lock_view cache)"
    using ok f(1) cache(2) by (simp add: fetches_ok_def fun_upd_idem)
  have "locks_ok (sch_in_flight cache)" using ok cache(2) by (simp add: fetches_ok_def)
  from finish_fetch_ok [OF cache(1) this hold f(2)] obtain w'
    where "finish_fetch env c f r cache w = Some w'" "fetches_ok env w'"
      "fwo_fetches w' = (fwo_fetches w)(c \<mapsto> f\<lparr>fet_stage := Finished r\<rparr>)"
      "fwo_cache w' = cache\<lparr>sch_in_flight := sch_in_flight (fwo_cache w')\<rparr>" by metis
  with that moves cache_moves_locks_eq(1) show ?thesis by metis
qed

lemma stage_moves_ok:
  assumes ok: "fetches_ok env w" and f: "fwo_fetches w c = Some f" "at_work (fet_stage f)" "at_work st"
  shows "fetches_ok env (put_fetch c (f\<lparr>fet_stage := st\<rparr>) w)"
proof -
  have "gate_key env (f\<lparr>fet_stage := st\<rparr>) = gate_key env f" "lock_key env (f\<lparr>fet_stage := st\<rparr>) = lock_key env f"
    using f(2,3) by (cases "fet_stage f"; cases st; simp add: lock_key_def)+
  with calls_hold_stage [where F = "fwo_fetches w" and c = c and f = f and f' = "f\<lparr>fet_stage := st\<rparr>"] ok f(1)
  show ?thesis by (simp add: fetches_ok_def)
qed

text \<open>The keys a step may add: those of an insertion.\<close>

fun stored_keys ::
  "('x, 'scope, 'd) fetch_env \<Rightarrow> ('x, 'scope) fetch_op \<Rightarrow> ('x, 'scope, 'd) fetch_world \<Rightarrow> cache_key set" where
  "stored_keys env (FetchStore c) w =
     {k. \<exists>f stale snapshot. fwo_fetches w c = Some f \<and> fet_stage f = EpochChecked stale (Inr snapshot)
        \<and> fetch_key env f = Some k}"
| "stored_keys env _ w = {}"

lemma answer_ok:
  assumes ok: "fetches_ok env w" and f: "fwo_fetches w c = Some f" "fet_stage f = Building stale epoch"
    and s: "fetch_answer env c f stale epoch a w = Some w'"
  shows "fetches_ok env w' \<and> cache_moves {} (fwo_cache w) (fwo_cache w')"
proof (cases "provider_result a")
  case (Inl e)
  have w: "at_work (fet_stage f)" "cache_ok (fwo_cache w)" using f ok by (simp_all add: fetches_ok_def)
  obtain w1 where "finish_fetch env c f (Inl e) (fwo_cache w) w = Some w1" "fetches_ok env w1"
    "cache_moves {} (fwo_cache w) (fwo_cache w1)"
    using work_ends_ok [OF ok f(1) w refl cache_moves_refl] by metis
  with s Inl show ?thesis by (simp add: fetch_answer_def)
next
  case (Inr r)
  with s stage_moves_ok [OF ok f(1), of "Built stale epoch r"] f(2) show ?thesis
    by (auto simp: fetch_answer_def)
qed

lemma fetch_key_hash:
  assumes "fet_spec f = Some spec"
  shows "fetch_key env f = map_option fst (key_for_with_hash (fev_keys env) spec (fet_scope f))"
  using assms by (simp add: fetch_key_def key_for_def)

lemma fetch_store_ok:
  assumes ok: "fetches_ok env w" and f: "fwo_fetches w c = Some f" "fet_stage f = EpochChecked stale r"
    and s: "fetch_store env ord c f stale r w = Some w'"
  shows "fetches_ok env w' \<and> cache_moves (stored_keys env (FetchStore c) w) (fwo_cache w) (fwo_cache w')"
proof -
  let ?A = "stored_keys env (FetchStore c) w"
  have w: "at_work (fet_stage f)" "cache_ok (fwo_cache w)" using f ok by (simp_all add: fetches_ok_def)
  have ends: "fetches_ok env w' \<and> cache_moves ?A (fwo_cache w) (fwo_cache w')"
    if "cache_ok cache" "sch_in_flight cache = sch_in_flight (fwo_cache w)" "cache_moves ?A (fwo_cache w) cache"
      "finish_fetch env c f res cache w = Some w'" for cache res
    using work_ends_ok [OF ok f(1) w(1) that(1,2,3), of res] that(4) by (metis option.inject)
  show ?thesis
  proof (cases r)
    case (Inl e)
    with s ends [OF w(2) refl cache_moves_refl] show ?thesis
      by (auto simp: fetch_store_def split: option.splits)
  next
    case (Inr snapshot)
    show ?thesis
    proof (cases "fet_spec f")
      case None
      with s Inr ends [OF w(2) refl cache_moves_refl] show ?thesis by (simp add: fetch_store_def)
    next
      case (Some spec)
      let ?key = "key_for_with_hash (fev_keys env) spec (fet_scope f)"
      obtain cached cache where ins: "insert_schema ord (fwo_now w) ?key (new_uncached env snapshot) (fwo_cache w) = (cached, cache)"
        by force
      have kh: "\<And>k h. ?key = Some (k, h) \<Longrightarrow> key_spec k = h" by (rule key_hash)
      note facts = insert_schema_ok(1-4) [OF w(2), where key = ?key, OF kh, where ord = ord and now = "fwo_now w"
          and c = "new_uncached env snapshot", unfolded ins snd_conv]
        insert_schema_epoch [OF w(2), where key = ?key, OF kh, where ord = ord and now = "fwo_now w"
          and c = "new_uncached env snapshot", unfolded ins snd_conv]
      have "fst ` set_option ?key \<subseteq> ?A"
        using f Inr by (auto simp: fetch_key_hash [OF Some])
      then have "cache_ok cache" "sch_in_flight cache = sch_in_flight (fwo_cache w)" "cache_moves ?A (fwo_cache w) cache"
        using facts unfolding cache_moves_def by blast+
      from ends [OF this] s Inr Some ins show ?thesis
        by (auto simp: fetch_store_def split: option.splits)
    qed
  qed
qed

lemma cancel_ok:
  assumes ok: "fetches_ok env w" and f: "fwo_fetches w c = Some f" and s: "fetch_cancel env c f w = Some w'"
  shows "fetches_ok env w' \<and> cache_moves {} (fwo_cache w) (fwo_cache w')"
proof (cases "fet_stage f")
  case AtGate
  with s obtain cache where l: "on_locks (with_key env f (\<lambda>_. DropGate c)) (fwo_cache w) = Some cache"
    and w': "w' = w\<lparr>fwo_cache := cache, fwo_fetches := (fwo_fetches w)(c := None)\<rparr>"
    by (auto simp: fetch_cancel_def)
  have w: "cache_ok (fwo_cache w)" "locks_ok (sch_in_flight (fwo_cache w))"
    "calls_hold env (fwo_fetches w) (lock_view (fwo_cache w))" using ok by (simp_all add: fetches_ok_def)
  note lk = on_locks_key [OF w(2) l]
  have g: "gate_key env f = fetch_key env f" "lock_key env f = None" using AtGate by (simp_all add: lock_key_def)
  have "calls_hold env ((fwo_fetches w)(c := None)) (lock_view cache)"
  proof (cases "fetch_key env f")
    case None
    with lk(3) w(3) f g show ?thesis by (auto simp: calls_hold_def)
  next
    case (Some k)
    have "kp_gates (lock_view (fwo_cache w)) c = Some k" using w(3) f g Some by (simp add: calls_hold_def)
    with lk(4) [OF Some] have v: "lock_view cache = (lock_view (fwo_cache w))
        \<lparr>kp_gates := (kp_gates (lock_view (fwo_cache w)))(c := None)\<rparr>" by (simp split: if_splits)
    show ?thesis using w(3) f g(2) unfolding v by (auto simp: calls_hold_def)
  qed
  with lk(1) cache_moves_locks_eq [OF lk(2)] w(1) show ?thesis unfolding w' by (simp add: fetches_ok_def)
next
  case (Building stale epoch)
  have w: "at_work (fet_stage f)" "cache_ok (fwo_cache w)" using Building ok by (simp_all add: fetches_ok_def)
  obtain w1 where w1: "finish_fetch env c f (Inl ApiUnauthorized) (fwo_cache w) w = Some w1" "fetches_ok env w1"
    "cache_moves {} (fwo_cache w) (fwo_cache w1)"
    "fwo_fetches w1 = (fwo_fetches w)(c \<mapsto> f\<lparr>fet_stage := Finished (Inl ApiUnauthorized)\<rparr>)"
    using work_ends_ok [OF ok f w refl cache_moves_refl] by metis
  then obtain cache where u: "unlock_gate env c f (fwo_cache w) = Some cache" "fwo_cache w1 = cache"
    by (auto simp: finish_fetch_def)
  then have w': "w' = w\<lparr>fwo_cache := fwo_cache w1, fwo_fetches := (fwo_fetches w)(c := None)\<rparr>"
    using s Building by (simp add: fetch_cancel_def)
  have "calls_hold env ((fwo_fetches w)(c := None)) (lock_view (fwo_cache w1))"
    using w1(2) unfolding fetches_ok_def w1(4) calls_hold_def by (simp add: lock_key_def split: if_splits)
  with w1(2,3) show ?thesis unfolding w' by (simp add: fetches_ok_def)
qed (use s in \<open>simp_all add: fetch_cancel_def\<close>)

lemma fetch_step_ok:
  assumes ok: "fetches_ok env w" and s: "fetch_step env ord op w = Some w'"
  shows "fetches_ok env w'" and "cache_moves (stored_keys env op w) (fwo_cache w) (fwo_cache w')"
proof -
  have "fetches_ok env w' \<and> cache_moves (stored_keys env op w) (fwo_cache w) (fwo_cache w')"
  proof (cases op)
    case (FetchStart c spec scope)
    with s start_ok [OF ok] show ?thesis by (auto split: if_splits)
  next
    case (FetchLock c)
    with s lock_fetch_ok [OF ok] show ?thesis by (auto split: option.splits fetch_stage.splits)
  next
    case (FetchAnswer c a)
    with s answer_ok [OF ok] show ?thesis by (auto split: option.splits fetch_stage.splits)
  next
    case (FetchCheck c)
    with s obtain f stale epoch r where f: "fwo_fetches w c = Some f" "fet_stage f = Built stale epoch r"
      and w': "w' = fetch_check env c f stale epoch r w" by (auto split: option.splits fetch_stage.splits)
    with stage_moves_ok [OF ok f(1)] FetchCheck show ?thesis by (simp add: fetch_check_def)
  next
    case (FetchStore c)
    with s obtain f stale r where "fwo_fetches w c = Some f" "fet_stage f = EpochChecked stale r"
      "fetch_store env ord c f stale r w = Some w'" by (auto split: option.splits fetch_stage.splits)
    with fetch_store_ok [OF ok] FetchStore show ?thesis by blast
  next
    case (FetchCancel c)
    with s cancel_ok [OF ok] show ?thesis by (auto split: option.splits)
  next
    case (Invalidate h)
    have c: "cache_ok (fwo_cache w)" using ok by (simp add: fetches_ok_def)
    have w': "w' = on_cache (invalidate_by_hash ord h (fwo_cache w)) w" using s Invalidate by simp
    have "fresh_keys (invalidate_by_hash ord h (fwo_cache w)) \<subseteq> fresh_keys (fwo_cache w)"
      by (auto simp: invalidate_by_hash_entries [OF c] map_keys_def)
    then show ?thesis
      using ok invalidate_by_hash_facts [OF c, where ord = ord and h = h] invalidate_by_hash_ok [OF c, where ord = ord and h = h] unfolding w'
      by (auto simp: fetches_ok_def cache_moves_def epoch_moves_def)
  next
    case (Pass d)
    with s ok show ?thesis by (auto simp: fetches_ok_def)
  qed
  then show "fetches_ok env w'" "cache_moves (stored_keys env op w) (fwo_cache w) (fwo_cache w')" by simp_all
qed

lemma fetch_run_append:
  "fetch_run env (xs @ ys) w = Option.bind (fetch_run env xs w) (fetch_run env ys)"
proof (induction xs arbitrary: w)
  case (Cons x xs)
  then show ?case by (cases x; cases "fetch_step env (fst x) (snd x) w") simp_all
qed simp

lemma run_ok:
  "fetches_ok env w \<Longrightarrow> fetch_run env ops w = Some w' \<Longrightarrow>
     fetches_ok env w' \<and> sch_config (fwo_cache w') = sch_config (fwo_cache w)"
proof (induction ops arbitrary: w)
  case (Cons x ops)
  obtain ord op where x: "x = (ord, op)" by force
  from Cons.prems(2) obtain w1 where w1: "fetch_step env ord op w = Some w1" "fetch_run env ops w1 = Some w'"
    by (auto simp: x bind_eq_Some_conv)
  with Cons.IH [OF fetch_step_ok(1) [OF Cons.prems(1) w1(1)]] fetch_step_ok(2) [OF Cons.prems(1) w1(1)]
  show ?case by (simp add: cache_moves_def)
qed simp

end
