(* ===== verification/Fetch_Freshness.thy ===== *)
theory Fetch_Freshness
  imports Fetch_Safety
begin

text \<open>
  The properties of reading through the cache: consistency, one call at a time for each key, freshness
  after an invalidation, the race that breaks it, reads that fail without need, and the stale copy.
\<close>

section \<open>Runs evaluated\<close>

lemma evict_entries_within: "length (sch_entries s) \<le> m \<Longrightarrow> evict_entries m s = s"
  by (subst evict_entries.simps) simp

lemmas fetch_eval =
  fetch_start_def fetch_lock_def fetch_answer_def fetch_check_def fetch_store_def finish_fetch_def
  unlock_gate_def lookup_fresh_def on_locks_def with_key_def fetch_key_def key_for_def fetch_epoch_def
  invalidation_epoch_def epoch_of_def provider_result_def put_fetch_def on_cache_def
  open_gate_def try_lock_def unlock_def drop_gate_def other_owners_def keyed_locks_default_def
  get_cached_def get_stale_cached_def insert_schema_def enforce_entry_bound_def evict_entries_within
  store_entry_def index_entry_def put_entry_def note_hit_def note_miss_def bump_epoch_def
  invalidate_by_hash_def invalidation_victims_def displace_entry_def stash_stale_def duration_since_def
  fetch_world_new_def schema_cache_new_def

lemma key_for_with_hash_spec: "key_for_with_hash kenv spec scope = Some (k, h) \<Longrightarrow> spec_hash kenv spec = Some h"
  by (auto simp: key_for_with_hash_def split: option.splits)

definition first_answer :: "'scope snapshot_data \<Rightarrow> 'scope provider_answers" where
  "first_answer snapshot = \<lparr>pa_first = Inr snapshot, pa_reconnect = Inr (), pa_second = Inr snapshot\<rparr>"

text \<open>Concrete calls: a host whose hash is its name, and two catalogs.\<close>

definition demo_fetch_env :: "(unit, string, unit) fetch_env" where
  "demo_fetch_env =
     \<lparr>fev_keys = \<lparr>kv_identity_json = (\<lambda>i. Some (cid_host i)), kv_scope_json = Some,
                  kv_sha256 = map (\<lambda>c. of_nat (of_char c))\<rparr>,
      fev_catalog = \<lparr>ca_sha256_hex = id, ca_node_json = (\<lambda>_. None), ca_edge_json = (\<lambda>_. None),
                     ca_value_json = (\<lambda>_. None), ca_data_json = (\<lambda>_. None)\<rparr>,
      fev_dictionary = (\<lambda>_. ())\<rparr>"

definition demo_db :: "unit connection_spec" where
  "demo_db =
     \<lparr>csp_host = ''db'', csp_port = None, csp_database = None, csp_user = ''u'', csp_password = None,
      csp_ssl_mode = None, csp_engine_specific = None\<rparr>"

definition demo_hash :: string where
  "demo_hash = (case spec_hash (fev_keys demo_fetch_env) demo_db of None \<Rightarrow> '''' | Some h \<Rightarrow> h)"

definition demo_key :: "string \<Rightarrow> cache_key" where
  "demo_key scope = \<lparr>key_spec = demo_hash, key_scope = scope\<rparr>"

definition demo_read :: "i64 \<Rightarrow> string snapshot_data" where
  "demo_read at =
     \<lparr>sdt_catalog = \<lparr>sn_trees = [], sn_graph = None\<rparr>, sdt_fetched_at = at, sdt_scope = ''all'',
      sdt_incomplete = False\<rparr>"

lemma demo_key_for:
  "key_for_with_hash (fev_keys demo_fetch_env) demo_db scope = Some (demo_key scope, demo_hash)"
  "spec_hash (fev_keys demo_fetch_env) demo_db = Some demo_hash"
  by (simp_all add: key_for_with_hash_def demo_key_def demo_hash_def spec_hash_def demo_fetch_env_def)

definition demo_call :: "nat \<Rightarrow> i64 \<Rightarrow> (hash_order \<times> (unit, string) fetch_op) list" where
  "demo_call c at = map (Pair (\<lambda>_. 0))
     [FetchStart c (Some demo_db) ''all'', FetchLock c, FetchAnswer c (first_answer (demo_read at)),
      FetchCheck c, FetchStore c]"

lemmas demo_fetch_eval = demo_key_for demo_call_def cache_config_default_def fetch_eval first_answer_def

lemma demo_first_call:
  "\<exists>w. fetch_run demo_fetch_env (demo_call 0 1) (fetch_world_new cache_config_default) = Some w
     \<and> sch_entries (fwo_cache w) \<noteq> []"
  by (simp add: demo_fetch_eval)

lemma demo_waiting:
  "\<exists>w. fetch_run demo_fetch_env (map (Pair (\<lambda>_. 0))
       [FetchStart 0 (Some demo_db) ''all'', FetchLock 0, FetchStart 1 (Some demo_db) ''all''])
       (fetch_world_new cache_config_default) = Some w
     \<and> (\<exists>f. fwo_fetches w 1 = Some f \<and> fet_stage f = AtGate)"
  by (simp add: demo_fetch_eval)

section \<open>One call at a time\<close>

definition works_on :: "('x, 'scope, 'd) fetch_env \<Rightarrow> ('x, 'scope, 'd) fetch_world \<Rightarrow> nat \<Rightarrow> cache_key \<Rightarrow> bool" where
  "works_on env w c k \<longleftrightarrow> Option.bind (fwo_fetches w c) (lock_key env) = Some k"

lemma works_on_iff:
  "works_on env w c k \<longleftrightarrow> (\<exists>f. fwo_fetches w c = Some f \<and> at_work (fet_stage f) \<and> fetch_key env f = Some k)"
  by (auto simp: works_on_def lock_key_def bind_eq_Some_conv)

lemma waiting_progress:
  assumes ok: "fetches_ok env w" and f: "fwo_fetches w c = Some f" "fet_stage f = AtGate"
  shows "fetch_step env ord (FetchLock c) w = None \<longleftrightarrow>
    (\<exists>k c' f'. fetch_key env f = Some k \<and> fwo_fetches w c' = Some f' \<and> at_work (fet_stage f')
       \<and> fetch_key env f' = Some k)"
proof -
  have w: "cache_ok (fwo_cache w)" "locks_ok (sch_in_flight (fwo_cache w))"
    "calls_hold env (fwo_fetches w) (lock_view (fwo_cache w))" using ok by (simp_all add: fetches_ok_def)
  let ?attempt = "on_locks (with_key env f (\<lambda>_. TryLock c)) (fwo_cache w)"
  have held: "kp_holder (lock_view (fwo_cache w)) k = None \<longleftrightarrow>
      \<not> (\<exists>c' f'. fwo_fetches w c' = Some f' \<and> at_work (fet_stage f') \<and> fetch_key env f' = Some k)" for k
  proof -
    have "kp_holder (lock_view (fwo_cache w)) k = None \<longleftrightarrow> (\<forall>c'. kp_holder (lock_view (fwo_cache w)) k \<noteq> Some c')"
      by auto
    also have "\<dots> \<longleftrightarrow> (\<forall>c'. Option.bind (fwo_fetches w c') (lock_key env) \<noteq> Some k)"
      using w(3) by (simp add: calls_hold_def)
    finally show ?thesis by (auto simp: lock_key_def bind_eq_Some_conv)
  qed
  have "?attempt = None \<longleftrightarrow> (\<exists>k. fetch_key env f = Some k \<and> kp_holder (lock_view (fwo_cache w)) k \<noteq> None)"
  proof (cases "fetch_key env f")
    case None
    then show ?thesis by (simp add: with_key_def on_locks_def)
  next
    case (Some k)
    have "kp_gates (lock_view (fwo_cache w)) c = Some k" using w(3) f Some by (simp add: calls_hold_def)
    then have "map_option abs_locks (lock_step (TryLock c) (sch_in_flight (fwo_cache w))) = None \<longleftrightarrow>
        kp_holder (lock_view (fwo_cache w)) k \<noteq> None"
      unfolding lock_step_abs [OF w(2)] by simp
    with Some show ?thesis by (simp add: with_key_def on_locks_def)
  qed
  moreover have "fetch_step env ord (FetchLock c) w = None \<longleftrightarrow> ?attempt = None"
  proof (cases ?attempt)
    case None
    then show ?thesis using f by (simp add: fetch_lock_def)
  next
    case (Some locked)
    note lk = on_locks_key(1,2) [OF w(2) Some]
    have "cache_ok locked" using cache_moves_locks_eq(2) [OF lk(2)] w(1) by simp
    then have c: "cache_ok (snd (lookup_fresh env ord f (fwo_now w) locked))"
      and l: "locks_ok (sch_in_flight (snd (lookup_fresh env ord f (fwo_now w) locked)))"
      using lk(1) by simp_all
    have h: "calls_hold env ((fwo_fetches w)(c \<mapsto> f\<lparr>fet_stage := Building None None\<rparr>))
        (lock_view (snd (lookup_fresh env ord f (fwo_now w) locked)))"
      using locked_holds [OF ok f Some, of "Building None None"] by simp
    have "finish_fetch env c f r (snd (lookup_fresh env ord f (fwo_now w) locked)) w \<noteq> None" for r
      using finish_fetch_ok [OF c l h, of r]
      by (auto simp: finish_fetch_def unlock_gate_def with_key_def)
    then show ?thesis
      using f Some by (auto simp: fetch_lock_def split: prod.split option.split)
  qed
  ultimately show ?thesis by (simp only: held) blast
qed

lemma working_progress:
  assumes ok: "fetches_ok env w" and f: "fwo_fetches w c = Some f"
  shows "fet_stage f = Building stale epoch \<Longrightarrow> fetch_step env ord (FetchAnswer c a) w \<noteq> None"
    and "fet_stage f = Built stale epoch r \<Longrightarrow> fetch_step env ord (FetchCheck c) w \<noteq> None"
    and "fet_stage f = EpochChecked stale r \<Longrightarrow> fetch_step env ord (FetchStore c) w \<noteq> None"
proof -
  have c: "cache_ok (fwo_cache w)" using ok by (simp add: fetches_ok_def)
  have fin: "finish_fetch env c f res cache w \<noteq> None"
    if "at_work (fet_stage f)" "cache_ok cache" "sch_in_flight cache = sch_in_flight (fwo_cache w)" for res cache
    using finish_fetch_ok [of cache env w c f res] ok f that by (auto simp: fetches_ok_def fun_upd_idem)
  show "fet_stage f = Building stale epoch \<Longrightarrow> fetch_step env ord (FetchAnswer c a) w \<noteq> None"
    using f fin [OF _ c refl] by (auto simp: fetch_answer_def split: sum.split)
  show "fet_stage f = Built stale epoch r \<Longrightarrow> fetch_step env ord (FetchCheck c) w \<noteq> None"
    using f by simp
  have ins: "finish_fetch env c f res (snd (insert_schema ord now (key_for_with_hash kenv spec scope) x (fwo_cache w))) w \<noteq> None"
    if "at_work (fet_stage f)" for res now kenv spec scope x
    by (rule fin [OF that]) (rule insert_schema_ok(1,2) [OF c], rule key_hash, assumption)+
  show "fetch_step env ord (FetchStore c) w \<noteq> None" if st: "fet_stage f = EpochChecked stale r"
  proof -
    have work: "at_work (fet_stage f)" using st by simp
    have "fetch_store env ord c f stale r w \<noteq> None"
    proof (cases r)
      case (Inl e)
      with fin [OF work c refl] show ?thesis by (cases stale) (simp_all add: fetch_store_def)
    next
      case (Inr snapshot)
      show ?thesis
      proof (cases "fet_spec f")
        case None
        with Inr fin [OF work c refl] show ?thesis by (simp add: fetch_store_def)
      next
        case (Some spec)
        obtain cached cache where i: "insert_schema ord (fwo_now w) (key_for_with_hash (fev_keys env) spec (fet_scope f))
            (new_uncached env snapshot) (fwo_cache w) = (cached, cache)" by force
        have "finish_fetch env c f res cache w \<noteq> None" for res
          using ins [OF work] i by (metis snd_conv)
        with Inr Some i show ?thesis by (cases cached) (simp_all add: fetch_store_def)
      qed
    qed
    then show ?thesis using f st by simp
  qed
qed



text \<open>
  C16: At most one call works on a key at a time; a call waiting at its gate is held up exactly when
  another one works on its key; and a call that has the lock is never held up, whatever the provider
  answers.
\<close>

theorem single_flight:
  assumes "fetch_run env ops (fetch_world_new config) = Some w"
  shows "(\<forall>k c c'. works_on env w c k \<longrightarrow> works_on env w c' k \<longrightarrow> c = c')
    \<and> (\<forall>c f. fwo_fetches w c = Some f \<longrightarrow>
         (case fet_stage f of
            AtGate \<Rightarrow> fetch_step env ord (FetchLock c) w = None \<longleftrightarrow>
              (\<exists>k c'. fetch_key env f = Some k \<and> works_on env w c' k)
          | Building _ _ \<Rightarrow> \<forall>a. fetch_step env ord (FetchAnswer c a) w \<noteq> None
          | Built _ _ _ \<Rightarrow> fetch_step env ord (FetchCheck c) w \<noteq> None
          | EpochChecked _ _ \<Rightarrow> fetch_step env ord (FetchStore c) w \<noteq> None
          | Finished _ \<Rightarrow> True))"
proof (intro conjI allI impI)
  have ok: "fetches_ok env w" using run_ok [OF fetches_ok_new assms(1)] by simp
  fix k c c'
  assume "works_on env w c k" "works_on env w c' k"
  then have "kp_holder (lock_view (fwo_cache w)) k = Some c" "kp_holder (lock_view (fwo_cache w)) k = Some c'"
    using ok by (simp_all add: fetches_ok_def calls_hold_def works_on_def)
  then show "c = c'" by simp
next
  have ok: "fetches_ok env w" using run_ok [OF fetches_ok_new assms(1)] by simp
  fix c f
  assume f: "fwo_fetches w c = Some f"
  show "case fet_stage f of
       AtGate \<Rightarrow> fetch_step env ord (FetchLock c) w = None \<longleftrightarrow>
         (\<exists>k c'. fetch_key env f = Some k \<and> works_on env w c' k)
     | Building _ _ \<Rightarrow> \<forall>a. fetch_step env ord (FetchAnswer c a) w \<noteq> None
     | Built _ _ _ \<Rightarrow> fetch_step env ord (FetchCheck c) w \<noteq> None
     | EpochChecked _ _ \<Rightarrow> fetch_step env ord (FetchStore c) w \<noteq> None
     | Finished _ \<Rightarrow> True"
  proof (cases "fet_stage f")
    case AtGate
    from waiting_progress [OF ok f this] show ?thesis
      unfolding AtGate fetch_stage.case works_on_iff by blast
  qed (use working_progress [OF ok f] in \<open>simp_all del: fetch_step.simps\<close>)
qed

lemma single_flight_witness:
  "\<exists>w f. fwo_fetches w 1 = Some f \<and> fet_stage f = AtGate
     \<and> (fetch_step demo_fetch_env (\<lambda>_. 0) (FetchLock 1) w = None)
       = (\<exists>k c'. fetch_key demo_fetch_env f = Some k \<and> works_on demo_fetch_env w c' k)"
proof -
  obtain w f where w: "fetch_run demo_fetch_env (map (Pair (\<lambda>_. 0))
       [FetchStart 0 (Some demo_db) ''all'', FetchLock 0, FetchStart 1 (Some demo_db) ''all''])
       (fetch_world_new cache_config_default) = Some w" "fwo_fetches w 1 = Some f" "fet_stage f = AtGate"
    using demo_waiting by (elim exE conjE)
  from single_flight [OF w(1), THEN conjunct2, rule_format, OF w(2), of "\<lambda>_. 0"] w
  show ?thesis by (intro exI conjI) (simp_all only: fetch_stage.case)
qed

section \<open>Freshness\<close>

text \<open>The epoch a call at work has read is at most the present one.\<close>

definition epochs_read :: "('x, 'scope, 'd) fetch_env \<Rightarrow> ('x, 'scope, 'd) fetch_world \<Rightarrow> bool" where
  "epochs_read env w \<longleftrightarrow>
     (\<forall>c f h. fwo_fetches w c = Some f \<longrightarrow> fetch_hash env f = Some h \<longrightarrow>
        (case fet_stage f of
           Building _ epoch \<Rightarrow> \<exists>e. epoch = Some e \<and> e \<le> epoch_of h (fwo_cache w)
         | Built _ epoch _ \<Rightarrow> \<exists>e. epoch = Some e \<and> e \<le> epoch_of h (fwo_cache w)
         | _ \<Rightarrow> True))"

text \<open>
  After an invalidation a key is not fresh, and every call that works on it has read an older epoch,
  which stays older as long as the epochs do not wrap.
\<close>

definition awaits_new :: "('x, 'scope, 'd) fetch_env \<Rightarrow> cache_key \<Rightarrow> ('x, 'scope, 'd) fetch_world \<Rightarrow> bool" where
  "awaits_new env k w \<longleftrightarrow>
     k \<notin> fresh_keys (fwo_cache w)
     \<and> (\<forall>c f. fwo_fetches w c = Some f \<longrightarrow> fetch_key env f = Some k \<longrightarrow>
          (case fet_stage f of
             Building _ epoch \<Rightarrow> \<exists>e. epoch = Some e \<and> e < epoch_of (key_spec k) (fwo_cache w)
           | Built _ epoch _ \<Rightarrow> \<exists>e. epoch = Some e \<and> e < epoch_of (key_spec k) (fwo_cache w)
           | EpochChecked _ r \<Rightarrow> \<exists>e. r = Inl e
           | _ \<Rightarrow> True))"

lemma fetch_hash_of_key:
  assumes "fetch_key env f = Some k"
  shows "fetch_hash env f = Some (key_spec k)"
proof -
  obtain spec where "fet_spec f = Some spec" "key_for (fev_keys env) spec (fet_scope f) = Some k"
    using assms by (cases "fet_spec f") (simp_all add: fetch_key_def)
  then show ?thesis
    by (auto simp: key_for_def key_for_with_hash_def fetch_hash_def split: option.splits)
qed

lemma fetch_epoch_hash: "fetch_hash env f = Some h \<Longrightarrow> fetch_epoch env f cache = Some (epoch_of h cache)"
  by (cases "fet_spec f") (auto simp: fetch_hash_def fetch_epoch_def invalidation_epoch_def)

text \<open>What a step does to the calls.\<close>

lemma finish_fetch_calls:
  "finish_fetch env c f r cache w = Some w' \<Longrightarrow> fwo_fetches w' = (fwo_fetches w)(c \<mapsto> f\<lparr>fet_stage := Finished r\<rparr>)"
  by (auto simp: finish_fetch_def)

lemma calls_after:
  assumes "fetch_step env ord op w = Some w'" and "fwo_fetches w' c = Some f'" and "fwo_fetches w c \<noteq> Some f'"
  obtains (quiet) "fet_stage f' = AtGate \<or> (\<exists>r. fet_stage f' = Finished r)"
  | (locks) stale epoch where "fet_stage f' = Building stale epoch" and "op = FetchLock c"
  | (answered) f stale epoch r where "fwo_fetches w c = Some f" and "fet_stage f = Building stale epoch"
      and "f' = f\<lparr>fet_stage := Built stale epoch r\<rparr>"
  | (checked) f stale epoch r where "fwo_fetches w c = Some f" and "fet_stage f = Built stale epoch r"
      and "f' = f\<lparr>fet_stage := EpochChecked stale
        (if fetch_epoch env f (fwo_cache w) \<noteq> epoch then Inl invalidated_error else r)\<rparr>"
proof (cases op)
  case (FetchStart c' spec scope)
  with assms quiet show ?thesis
    by (auto simp: fetch_start_def Let_def split: if_splits option.splits prod.splits)
next
  case (FetchLock c')
  with assms quiet locks show ?thesis
    by (auto simp: fetch_lock_def dest!: finish_fetch_calls split: if_splits option.splits prod.splits fetch_stage.splits)
next
  case (FetchAnswer c' a)
  with assms quiet answered show ?thesis
    by (auto simp: fetch_answer_def dest!: finish_fetch_calls split: if_splits option.splits sum.splits fetch_stage.splits)
next
  case (FetchCheck c')
  with assms checked show ?thesis
    by (auto simp: fetch_check_def split: if_splits option.splits fetch_stage.splits)
next
  case (FetchStore c')
  with assms quiet show ?thesis
    by (auto simp: fetch_store_def dest!: finish_fetch_calls split: if_splits option.splits sum.splits prod.splits fetch_stage.splits)
next
  case (FetchCancel c')
  with assms show ?thesis by (auto simp: fetch_cancel_def split: if_splits option.splits)
qed (use assms in auto)

lemma epoch_grows:
  assumes "epoch_moves e e'" and "unat e < 2 ^ 64 - 1"
  shows "e \<le> e'" and "unat e' \<le> Suc (unat e)"
  using assms unat_next_epoch [OF assms(2)] by (auto simp: epoch_moves_def word_le_nat_alt)

lemma locks_reads_epoch:
  assumes "fetch_step env ord (FetchLock c) w = Some w'" and "fwo_fetches w' c = Some f'"
    and "fet_stage f' = Building stale epoch"
  obtains f where "fwo_fetches w c = Some f" and "fetch_key env f' = fetch_key env f"
    and "fetch_hash env f' = fetch_hash env f" and "epoch = fetch_epoch env f (fwo_cache w')"
proof -
  from assms(1) obtain f where f: "fwo_fetches w c = Some f" "fetch_lock env ord c f w = Some w'"
    by (auto split: option.splits fetch_stage.splits)
  show ?thesis
    by (rule that [OF f(1)]; use f(2) assms(2,3) in
      \<open>auto simp: fetch_lock_def dest!: finish_fetch_calls split: option.splits prod.splits\<close>)
qed

lemma epoch_up:
  assumes "fetches_ok env w" and "fetch_step env ord op w = Some w'"
    and "unat (epoch_of h (fwo_cache w)) < 2 ^ 64 - 1"
  shows "epoch_of h (fwo_cache w) \<le> epoch_of h (fwo_cache w')"
    and "unat (epoch_of h (fwo_cache w')) \<le> Suc (unat (epoch_of h (fwo_cache w)))"
  using epoch_grows [OF _ assms(3)] fetch_step_ok(2) [OF assms(1,2)] by (simp_all add: cache_moves_def)

lemma epochs_read_step:
  assumes ok: "fetches_ok env w" and read: "epochs_read env w"
    and bound: "\<And>h. unat (epoch_of h (fwo_cache w)) < 2 ^ 64 - 1"
    and s: "fetch_step env ord op w = Some w'"
  shows "epochs_read env w'"
  unfolding epochs_read_def
proof (intro allI impI)
  fix c f' h
  assume f': "fwo_fetches w' c = Some f'" "fetch_hash env f' = Some h"
  note up = epoch_up(1) [OF ok s bound, of h]
  have old: "case fet_stage f of
      Building _ epoch \<Rightarrow> \<exists>e. epoch = Some e \<and> e \<le> epoch_of h (fwo_cache w)
    | Built _ epoch _ \<Rightarrow> \<exists>e. epoch = Some e \<and> e \<le> epoch_of h (fwo_cache w)
    | _ \<Rightarrow> True" if "fwo_fetches w c = Some f" "fetch_hash env f = Some h" for f
    using read that unfolding epochs_read_def by blast
  show "case fet_stage f' of
      Building _ epoch \<Rightarrow> \<exists>e. epoch = Some e \<and> e \<le> epoch_of h (fwo_cache w')
    | Built _ epoch _ \<Rightarrow> \<exists>e. epoch = Some e \<and> e \<le> epoch_of h (fwo_cache w')
    | _ \<Rightarrow> True"
  proof (cases "fwo_fetches w c = Some f'")
    case True
    from old [OF this f'(2)] up show ?thesis by (auto split: fetch_stage.splits intro: order_trans)
  next
    case False
    from s f'(1) False show ?thesis
    proof (cases rule: calls_after)
      case (locks stale epoch)
      obtain f where "fetch_hash env f = Some h" "epoch = fetch_epoch env f (fwo_cache w')"
        using locks_reads_epoch [OF s [unfolded locks(2)] f'(1) locks(1)] f'(2) by metis
      then show ?thesis using fetch_epoch_hash [where env = env and f = f and h = h and cache = "fwo_cache w'"] locks(1) by simp
    next
      case (answered f stale epoch r)
      with old [OF answered(1)] f'(2) up show ?thesis by (auto intro: order_trans)
    qed auto
  qed
qed

lemma awaits_new_step:
  assumes ok: "fetches_ok env w" and await: "awaits_new env k w"
    and bound: "unat (epoch_of (key_spec k) (fwo_cache w)) < 2 ^ 64 - 1"
    and s: "fetch_step env ord op w = Some w'"
    and other: "\<And>c f. op = FetchLock c \<Longrightarrow> fwo_fetches w c = Some f \<Longrightarrow> fetch_key env f \<noteq> Some k"
  shows "awaits_new env k w'"
  unfolding awaits_new_def
proof (intro conjI allI impI)
  note moves = fetch_step_ok(2) [OF ok s]
  note up = epoch_up(1) [OF ok s bound]
  have "k \<notin> stored_keys env op w"
    using await unfolding awaits_new_def by (cases op) fastforce+
  with await moves show "k \<notin> fresh_keys (fwo_cache w')" unfolding awaits_new_def cache_moves_def by blast
  fix c f'
  assume f': "fwo_fetches w' c = Some f'" "fetch_key env f' = Some k"
  have old: "case fet_stage f of
      Building _ epoch \<Rightarrow> \<exists>e. epoch = Some e \<and> e < epoch_of (key_spec k) (fwo_cache w)
    | Built _ epoch _ \<Rightarrow> \<exists>e. epoch = Some e \<and> e < epoch_of (key_spec k) (fwo_cache w)
    | EpochChecked _ r \<Rightarrow> \<exists>e. r = Inl e
    | _ \<Rightarrow> True" if "fwo_fetches w c = Some f" "fetch_key env f = Some k" for f
    using await that unfolding awaits_new_def by blast
  show "case fet_stage f' of
      Building _ epoch \<Rightarrow> \<exists>e. epoch = Some e \<and> e < epoch_of (key_spec k) (fwo_cache w')
    | Built _ epoch _ \<Rightarrow> \<exists>e. epoch = Some e \<and> e < epoch_of (key_spec k) (fwo_cache w')
    | EpochChecked _ r \<Rightarrow> \<exists>e. r = Inl e
    | _ \<Rightarrow> True"
  proof (cases "fwo_fetches w c = Some f'")
    case True
    from old [OF this f'(2)] up show ?thesis by (auto split: fetch_stage.splits intro: less_le_trans)
  next
    case False
    from s f'(1) False show ?thesis
    proof (cases rule: calls_after)
      case (locks stale epoch)
      from locks_reads_epoch [OF s [unfolded locks(2)] f'(1) locks(1)] f'(2) other [OF locks(2)]
      show ?thesis by metis
    next
      case (answered f stale epoch r)
      with old [OF answered(1)] f'(2) up show ?thesis by (auto intro: less_le_trans)
    next
      case (checked f stale epoch r)
      have "fetch_key env f = Some k" using f'(2) checked(3) by simp
      with old [OF checked(1)] checked(2) fetch_epoch_hash [OF fetch_hash_of_key [OF this], of "fwo_cache w"]
      show ?thesis unfolding checked(3) by auto
    qed auto
  qed
qed

text \<open>In a run the epochs count at most its steps.\<close>

lemma run_epochs:
  "fetches_ok env w \<Longrightarrow> epochs_read env w \<Longrightarrow> (\<And>h. unat (epoch_of h (fwo_cache w)) \<le> n) \<Longrightarrow>
   n + length ops < 2 ^ 64 \<Longrightarrow> fetch_run env ops w = Some w' \<Longrightarrow>
     epochs_read env w' \<and> (\<forall>h. unat (epoch_of h (fwo_cache w')) \<le> n + length ops)"
proof (induction ops arbitrary: w n)
  case (Cons x ops)
  obtain ord op where x: "x = (ord, op)" by force
  from Cons.prems(5) obtain w1 where w1: "fetch_step env ord op w = Some w1" "fetch_run env ops w1 = Some w'"
    by (auto simp: x bind_eq_Some_conv)
  have b: "unat (epoch_of h (fwo_cache w)) < 2 ^ 64 - 1" for h
    using Cons.prems(3) [of h] Cons.prems(4) by simp
  have "unat (epoch_of h (fwo_cache w1)) \<le> Suc n" for h
    using epoch_up(2) [OF Cons.prems(1) w1(1) b, of h] Cons.prems(3) [of h] by linarith
  from Cons.IH [OF fetch_step_ok(1) [OF Cons.prems(1) w1(1)] epochs_read_step [OF Cons.prems(1,2) b w1(1)] this _ w1(2)]
    Cons.prems(4) show ?case by simp
qed simp

lemma awaits_new_run:
  "fetches_ok env w \<Longrightarrow> awaits_new env k w \<Longrightarrow> unat (epoch_of (key_spec k) (fwo_cache w)) \<le> n \<Longrightarrow>
   n + length ops < 2 ^ 64 \<Longrightarrow> fetch_run env ops w = Some w' \<Longrightarrow>
   awaits_new env k w' \<or>
     (\<exists>before ord c after w1 f. ops = before @ (ord, FetchLock c) # after \<and> fetch_run env before w = Some w1
        \<and> fwo_fetches w1 c = Some f \<and> fetch_key env f = Some k)"
proof (induction ops arbitrary: w n)
  case (Cons x ops)
  obtain ord op where x: "x = (ord, op)" by force
  from Cons.prems(5) obtain w1 where w1: "fetch_step env ord op w = Some w1" "fetch_run env ops w1 = Some w'"
    by (auto simp: x bind_eq_Some_conv)
  have b: "unat (epoch_of (key_spec k) (fwo_cache w)) < 2 ^ 64 - 1"
    using Cons.prems(3,4) by simp
  show ?case
  proof (cases "\<exists>c f. op = FetchLock c \<and> fwo_fetches w c = Some f \<and> fetch_key env f = Some k")
    case True
    then show ?thesis by (intro disjI2) (use x in \<open>force intro: exI [of _ "[]"]\<close>)
  next
    case False
    then have await: "awaits_new env k w1" using awaits_new_step [OF Cons.prems(1,2) b w1(1)] by blast
    have "unat (epoch_of (key_spec k) (fwo_cache w1)) \<le> Suc n"
      using epoch_up(2) [OF Cons.prems(1) w1(1) b] Cons.prems(3) by linarith
    from Cons.IH [OF fetch_step_ok(1) [OF Cons.prems(1) w1(1)] await this _ w1(2)] Cons.prems(4)
    consider "awaits_new env k w'" | before ord' c after w2 f where
      "ops = before @ (ord', FetchLock c) # after" "fetch_run env before w1 = Some w2"
      "fwo_fetches w2 c = Some f" "fetch_key env f = Some k" by auto
    then show ?thesis
    proof cases
      case 1
      then show ?thesis by blast
    next
      case 2
      have "x # ops = (x # before) @ (ord', FetchLock c) # after" "fetch_run env (x # before) w = Some w2"
        using 2 x w1(1) by simp_all
      with 2(3,4) show ?thesis by blast
    qed
  qed
qed simp

lemma invalidation_awaits:
  assumes w: "fetches_ok env w" "epochs_read env w" "unat (epoch_of (key_spec k) (fwo_cache w)) < 2 ^ 64 - 1"
    and settled: "\<forall>c f. fwo_fetches w c = Some f \<and> fetch_key env f = Some k \<longrightarrow>
      (case fet_stage f of EpochChecked _ (Inr _) \<Rightarrow> False | _ \<Rightarrow> True)"
  shows "awaits_new env k (on_cache (invalidate_by_hash ord (key_spec k) (fwo_cache w)) w)"
    and "unat (epoch_of (key_spec k) (invalidate_by_hash ord (key_spec k) (fwo_cache w)))
      = Suc (unat (epoch_of (key_spec k) (fwo_cache w)))"
proof -
  let ?w0 = "on_cache (invalidate_by_hash ord (key_spec k) (fwo_cache w)) w"
  have c: "cache_ok (fwo_cache w)" using w(1) by (simp add: fetches_ok_def)
  show e: "unat (epoch_of (key_spec k) (invalidate_by_hash ord (key_spec k) (fwo_cache w)))
      = Suc (unat (epoch_of (key_spec k) (fwo_cache w)))"
    using invalidate_by_hash_facts(3) [OF c, of "key_spec k" ord "key_spec k"] unat_next_epoch [OF w(3)] by simp
  then have up: "epoch_of (key_spec k) (fwo_cache w) < epoch_of (key_spec k) (fwo_cache ?w0)"
    by (simp add: word_less_nat_alt)
  have "k \<notin> fresh_keys (fwo_cache ?w0)"
    by (auto simp: invalidate_by_hash_entries [OF c] map_keys_def)
  moreover have "case fet_stage f of
       Building _ epoch \<Rightarrow> \<exists>e. epoch = Some e \<and> e < epoch_of (key_spec k) (fwo_cache ?w0)
     | Built _ epoch _ \<Rightarrow> \<exists>e. epoch = Some e \<and> e < epoch_of (key_spec k) (fwo_cache ?w0)
     | EpochChecked _ r \<Rightarrow> \<exists>e. r = Inl e
     | _ \<Rightarrow> True" if f: "fwo_fetches w d = Some f" "fetch_key env f = Some k" for d f
  proof -
    have "case fet_stage f of EpochChecked _ (Inr _) \<Rightarrow> False | _ \<Rightarrow> True" using settled f by blast
    moreover have "case fet_stage f of
         Building _ epoch \<Rightarrow> \<exists>e. epoch = Some e \<and> e \<le> epoch_of (key_spec k) (fwo_cache w)
       | Built _ epoch _ \<Rightarrow> \<exists>e. epoch = Some e \<and> e \<le> epoch_of (key_spec k) (fwo_cache w)
       | _ \<Rightarrow> True" using w(2) f(1) fetch_hash_of_key [OF f(2)] unfolding epochs_read_def by blast
    ultimately show ?thesis using up by (auto split: fetch_stage.splits sum.splits intro: le_less_trans)
  qed
  ultimately show "awaits_new env k ?w0" by (simp add: awaits_new_def)
qed


lemma demo_invalidated:
  "\<exists>w w'. fetch_run demo_fetch_env (demo_call 0 1) (fetch_world_new cache_config_default) = Some w
     \<and> fwo_fetches w 0 \<noteq> None \<and> (\<forall>f. fwo_fetches w 0 = Some f \<longrightarrow> (\<exists>r. fet_stage f = Finished r))
     \<and> (\<forall>c. 0 < c \<longrightarrow> fwo_fetches w c = None)
     \<and> fetch_run demo_fetch_env ((\<lambda>_. 0, Invalidate (key_spec (demo_key ''all''))) # demo_call 1 2) w = Some w'
     \<and> demo_key ''all'' \<in> map_keys (sch_entries (fwo_cache w'))"
  by (simp add: demo_fetch_eval demo_key_def [of "''all''"] map_keys_def Let_def)


section \<open>Races and failures\<close>

definition overtaken_run :: "'x connection_spec \<Rightarrow> 'scope \<Rightarrow> string \<Rightarrow> 'scope snapshot_data \<Rightarrow> ('x, 'scope) fetch_op list" where
  "overtaken_run spec scope h old =
     [FetchStart 0 (Some spec) scope, FetchLock 0, FetchAnswer 0 (first_answer old), FetchCheck 0,
      Invalidate h, FetchStore 0, FetchStart 1 (Some spec) scope]"

text \<open>
  C39: An invalidation that falls between a call's check of the epoch and its insertion is lost: the
  catalog read before it is inserted as fresh, and the next call is given it.
\<close>

theorem overtaken_invalidation_is_lost:
  assumes key: "key_for_with_hash (fev_keys env) spec scope = Some (k, h)"
    and config: "0 < cac_ttl config" "0 < cac_max_entries config"
  shows "\<exists>w f. fetch_run env (map (Pair ord) (overtaken_run spec scope h old)) (fetch_world_new config) = Some w
    \<and> fwo_fetches w 1 = Some f \<and> fet_stage f = Finished (Inr (new_uncached env old))"
  using key key_for_with_hash_spec [OF key] config
  by (simp add: overtaken_run_def fetch_eval first_answer_def)

lemma overtaken_invalidation_is_lost_witness:
  "\<exists>w f. fetch_run demo_fetch_env
      (map (Pair (\<lambda>_. 0)) (overtaken_run demo_db ''all'' demo_hash (demo_read 1)))
      (fetch_world_new cache_config_default) = Some w
    \<and> fwo_fetches w 1 = Some f \<and> fet_stage f = Finished (Inr (new_uncached demo_fetch_env (demo_read 1)))"
  by (rule overtaken_invalidation_is_lost [OF demo_key_for(1)]) (simp_all add: cache_config_default_def)

definition first_reads :: "'x connection_spec \<Rightarrow> 'scope \<Rightarrow> 'scope \<Rightarrow> 'scope snapshot_data \<Rightarrow> 'scope snapshot_data
    \<Rightarrow> ('x, 'scope) fetch_op list" where
  "first_reads spec scope1 scope2 a b =
     [FetchStart 0 (Some spec) scope1, FetchLock 0, FetchStart 1 (Some spec) scope2, FetchLock 1,
      FetchAnswer 0 (first_answer a), FetchAnswer 1 (first_answer b), FetchCheck 0, FetchStore 0,
      FetchCheck 1, FetchStore 1]"

text \<open>
  Of two overlapping first reads of different parts of a connection's catalog the slower one fails
  as invalidated although nothing was invalidated and the provider answered both: the first insertion
  moves the connection's epoch from 0 to 1.
\<close>

theorem overlapping_first_reads_collide:
  assumes "key_for_with_hash (fev_keys env) spec scope1 = Some (k1, h)"
    and "key_for_with_hash (fev_keys env) spec scope2 = Some (k2, h)" and "k1 \<noteq> k2"
  shows "\<exists>w f g. fetch_run env (map (Pair ord) (first_reads spec scope1 scope2 a b)) (fetch_world_new config) = Some w
    \<and> fwo_fetches w 0 = Some f \<and> fet_stage f = Finished (Inr (new_uncached env a))
    \<and> fwo_fetches w 1 = Some g \<and> fet_stage g = Finished (Inl invalidated_error)"
  using assms key_for_with_hash_spec [OF assms(1)]
  by (simp add: first_reads_def fetch_eval first_answer_def)

lemma overlapping_first_reads_collide_witness:
  "\<exists>w f g. fetch_run demo_fetch_env
      (map (Pair (\<lambda>_. 0)) (first_reads demo_db ''all'' ''some'' (demo_read 1) (demo_read 2)))
      (fetch_world_new cache_config_default) = Some w
    \<and> fwo_fetches w 0 = Some f \<and> fet_stage f = Finished (Inr (new_uncached demo_fetch_env (demo_read 1)))
    \<and> fwo_fetches w 1 = Some g \<and> fet_stage g = Finished (Inl invalidated_error)"
  by (rule overlapping_first_reads_collide [OF demo_key_for(1) demo_key_for(1)]) (simp add: demo_key_def)

lemma lost_connection_ends:
  assumes ok: "fetches_ok env w" and f: "fwo_fetches w c = Some f" "fet_stage f = Building stale epoch"
    and a: "provider_result a = Inl failed"
  shows "\<exists>w'. fetch_step env ord (FetchAnswer c a) w = Some w'
    \<and> fwo_fetches w' c = Some (f\<lparr>fet_stage := Finished (Inl failed)\<rparr>)"
proof -
  have c: "cache_ok (fwo_cache w)" using ok by (simp add: fetches_ok_def)
  have work: "at_work (fet_stage f)" using f(2) by simp
  obtain w' where "finish_fetch env c f (Inl failed) (fwo_cache w) w = Some w'"
    "fwo_fetches w' = (fwo_fetches w)(c \<mapsto> f\<lparr>fet_stage := Finished (Inl failed)\<rparr>)"
    using work_ends_ok [OF ok f(1) work c refl cache_moves_refl] by metis
  with f a show ?thesis by (simp add: fetch_answer_def)
qed

lemma stale_copy_returned:
  assumes ok: "fetches_ok env w" and f: "fwo_fetches w c = Some f" "fet_stage f = EpochChecked (Some old) (Inl e)"
  shows "\<exists>w'. fetch_step env ord (FetchStore c) w = Some w'
    \<and> fwo_fetches w' c = Some (f\<lparr>fet_stage := Finished (Inr (stale_schema env (csc_snapshot old)))\<rparr>)"
proof -
  have c: "cache_ok (fwo_cache w)" using ok by (simp add: fetches_ok_def)
  have work: "at_work (fet_stage f)" using f(2) by simp
  obtain w' where "finish_fetch env c f (Inr (stale_schema env (csc_snapshot old))) (fwo_cache w) w = Some w'"
    "fwo_fetches w' = (fwo_fetches w)(c \<mapsto> f\<lparr>fet_stage := Finished (Inr (stale_schema env (csc_snapshot old)))\<rparr>)"
    using work_ends_ok [OF ok f(1) work c refl cache_moves_refl] by metis
  with f show ?thesis by (simp add: fetch_store_def)
qed

lemma failed_build_falls_back:
  assumes ok: "fetches_ok env w" and f: "fwo_fetches w c = Some f" "fet_stage f = Building (Some old) epoch"
    and a: "provider_result a = Inr (Inl e)"
  shows "\<exists>w'. fetch_run env (map (Pair ord) [FetchAnswer c a, FetchCheck c, FetchStore c]) w = Some w'
    \<and> fwo_fetches w' c = Some (f\<lparr>fet_stage := Finished (Inr (stale_schema env (csc_snapshot old)))\<rparr>)"
proof -
  let ?w1 = "put_fetch c (f\<lparr>fet_stage := Built (Some old) epoch (Inl e)\<rparr>) w"
  have s1: "fetch_step env ord (FetchAnswer c a) w = Some ?w1" using f a by (simp add: fetch_answer_def)
  define err where "err = (if fetch_epoch env f (fwo_cache w) \<noteq> epoch then invalidated_error else e)"
  let ?w2 = "put_fetch c (f\<lparr>fet_stage := EpochChecked (Some old) (Inl err)\<rparr>) ?w1"
  have s2: "fetch_step env ord (FetchCheck c) ?w1 = Some ?w2" by (simp add: fetch_check_def err_def)
  have "fetches_ok env ?w2" using fetch_step_ok(1) [OF fetch_step_ok(1) [OF ok s1] s2] .
  from stale_copy_returned [OF this, of c "f\<lparr>fet_stage := EpochChecked (Some old) (Inl err)\<rparr>" old err ord] s1 s2
  show ?thesis by (auto simp del: fetch_step.simps)
qed

text \<open>
  C40: A call that has a stale copy returns it, marked, when the provider fails, unless the connection
  was lost and cannot be opened again: then the call fails with that error.
\<close>

theorem outage_ignores_stale_copy:
  assumes "fetch_run env ops (fetch_world_new config) = Some w"
    and "fwo_fetches w c = Some f" and "fet_stage f = Building (Some old) epoch"
  shows "(case provider_result a of
      Inl failed \<Rightarrow>
        \<exists>w'. fetch_step env ord (FetchAnswer c a) w = Some w'
          \<and> fwo_fetches w' c = Some (f\<lparr>fet_stage := Finished (Inl failed)\<rparr>)
    | Inr (Inl _) \<Rightarrow>
        \<exists>w'. fetch_run env (map (Pair ord) [FetchAnswer c a, FetchCheck c, FetchStore c]) w = Some w'
          \<and> fwo_fetches w' c = Some (f\<lparr>fet_stage := Finished (Inr (stale_schema env (csc_snapshot old)))\<rparr>)
    | Inr (Inr _) \<Rightarrow> True)
    \<and> (provider_result a = Inl failed \<longleftrightarrow>
        (\<exists>e. pa_first a = Inl (ApiDriver e) \<and> is_reconnectable e \<and> pa_reconnect a = Inl failed))"
proof
  have ok: "fetches_ok env w" using run_ok [OF fetches_ok_new assms(1)] by simp
  show "case provider_result a of
      Inl failed \<Rightarrow>
        \<exists>w'. fetch_step env ord (FetchAnswer c a) w = Some w'
          \<and> fwo_fetches w' c = Some (f\<lparr>fet_stage := Finished (Inl failed)\<rparr>)
    | Inr (Inl _) \<Rightarrow>
        \<exists>w'. fetch_run env (map (Pair ord) [FetchAnswer c a, FetchCheck c, FetchStore c]) w = Some w'
          \<and> fwo_fetches w' c = Some (f\<lparr>fet_stage := Finished (Inr (stale_schema env (csc_snapshot old)))\<rparr>)
    | Inr (Inr _) \<Rightarrow> True"
    using lost_connection_ends [OF ok assms(2,3), of a _ ord] failed_build_falls_back [OF ok assms(2,3), of a _ ord]
    by (simp del: fetch_step.simps fetch_run.simps list.map split: sum.split)
  show "provider_result a = Inl failed \<longleftrightarrow>
      (\<exists>e. pa_first a = Inl (ApiDriver e) \<and> is_reconnectable e \<and> pa_reconnect a = Inl failed)"
    by (auto simp: provider_result_def split: sum.split api_error.split)
qed

lemma demo_with_stale:
  "\<exists>w f epoch. fetch_run demo_fetch_env (demo_call 0 1 @ map (Pair (\<lambda>_. 0))
       [Invalidate demo_hash, FetchStart 1 (Some demo_db) ''all'', FetchLock 1])
       (fetch_world_new cache_config_default) = Some w
     \<and> fwo_fetches w 1 = Some f
     \<and> fet_stage f = Building (Some (new_uncached demo_fetch_env (demo_read 1))) epoch"
  by (simp add: demo_fetch_eval displace_entry_def stash_stale_def)

definition demo_outage :: "err_code \<Rightarrow> string provider_answers" where
  "demo_outage code =
     \<lparr>pa_first = Inl (ApiDriver (driver_error_new code ''down'')), pa_reconnect = Inl ApiServiceDraining,
      pa_second = Inl ApiServiceDraining\<rparr>"

lemma outage_ignores_stale_copy_witness:
  "\<exists>w f w'. fwo_fetches w 1 = Some f
     \<and> fet_stage f \<in> range (Building (Some (new_uncached demo_fetch_env (demo_read 1))))
     \<and> fetch_step demo_fetch_env (\<lambda>_. 0) (FetchAnswer 1 (demo_outage ConnectionFailed)) w = Some w'
     \<and> fwo_fetches w' 1 = Some (f\<lparr>fet_stage := Finished (Inl ApiServiceDraining)\<rparr>)"
proof -
  obtain w f epoch where w: "fetch_run demo_fetch_env (demo_call 0 1 @ map (Pair (\<lambda>_. 0))
       [Invalidate demo_hash, FetchStart 1 (Some demo_db) ''all'', FetchLock 1])
       (fetch_world_new cache_config_default) = Some w" "fwo_fetches w 1 = Some f"
    "fet_stage f = Building (Some (new_uncached demo_fetch_env (demo_read 1))) epoch"
    using demo_with_stale by (elim exE conjE)
  have a: "provider_result (demo_outage ConnectionFailed) = Inl ApiServiceDraining"
    by (simp add: provider_result_def demo_outage_def driver_error_new_def is_reconnectable_def)
  from outage_ignores_stale_copy [OF w, where a = "demo_outage ConnectionFailed" and ord = "\<lambda>_. 0", THEN conjunct1, unfolded a sum.case]
  obtain w' where "fetch_step demo_fetch_env (\<lambda>_. 0) (FetchAnswer 1 (demo_outage ConnectionFailed)) w = Some w'"
    "fwo_fetches w' 1 = Some (f\<lparr>fet_stage := Finished (Inl ApiServiceDraining)\<rparr>)" by (elim exE conjE)
  with w(2) show ?thesis using w(3) by (intro exI [of _ w] exI [of _ f] exI [of _ w']) (simp del: fetch_step.simps)
qed

end
