(* ===== verification/Completion_Types.thy ===== *)
theory Completion_Types
  imports Sift_Protocol
begin

text \<open>
  The types of completion: what \<^verbatim>\<open>crates/protocol/src/completion.rs\<close> puts on the wire, the analysis
  of the text before the cursor that \<^verbatim>\<open>crates/semantic/src/lib.rs\<close> hands to the ranker, and the words
  of \<^verbatim>\<open>crates/completion/src/keywords.rs\<close>.
\<close>

section \<open>Requests, responses and contexts\<close>

record completion_request =
  cr_sql :: string
  cr_cursor :: u32
  cr_limit :: "u32 option"

record byte_range =
  br_start :: u32
  br_end :: u32

datatype completion_kind =
    CKeyword | CFunction | CSchema | CTable | CView | CMaterializedView | CColumn | CAlias
  | CProcedure | CType | CSnippet

record completion_candidate =
  ca_label :: string
  ca_insert :: string
  ca_kind :: completion_kind
  ca_detail :: "string option"
  ca_qualified_name :: "string option"
  ca_score :: int

datatype completion_context =
    AtStatement
  | ExpectingTable
  | ExpectingColumn "string option"
  | ExpectingObjectInSchema string
  | UnknownContext

record completion_response =
  rs_candidates :: "completion_candidate list"
  rs_replaced_range :: byte_range
  rs_context :: completion_context

section \<open>The analysis of the text before the cursor\<close>

record completion_relation =
  rel_name :: string
  rel_target :: "string option"
  rel_is_alias :: bool
  rel_columns :: "string list"

record completion_analysis =
  an_context :: completion_context
  an_cursor :: nat
  an_prefix_start :: nat
  an_replacement_end :: nat
  an_identifier_quote :: "char option"
  an_prefix :: string
  an_prefix_lower :: string
  an_relations :: "completion_relation list"
  an_join_slot :: bool
  an_join_max_hops :: nat

section \<open>Words\<close>

definition statement_leads :: "string list" where
  "statement_leads =
     [''SELECT'', ''INSERT'', ''UPDATE'', ''DELETE'', ''WITH'', ''CREATE'', ''ALTER'',
      ''DROP'', ''TRUNCATE'', ''EXPLAIN'', ''BEGIN'', ''COMMIT'', ''ROLLBACK'',
      ''SAVEPOINT'']"

definition common_keywords :: "string list" where
  "common_keywords =
     [''AS'', ''AND'', ''OR'', ''NOT'', ''NULL'', ''IS'', ''IN'', ''LIKE'', ''BETWEEN'',
      ''EXISTS'', ''CASE'', ''WHEN'', ''THEN'', ''ELSE'', ''END'', ''GROUP'', ''BY'',
      ''HAVING'', ''ORDER'', ''ASC'', ''DESC'', ''LIMIT'', ''OFFSET'', ''UNION'',
      ''INTERSECT'', ''EXCEPT'', ''ALL'', ''DISTINCT'', ''FROM'', ''WHERE'', ''JOIN'',
      ''INNER'', ''LEFT'', ''RIGHT'', ''FULL'', ''OUTER'', ''CROSS'', ''ON'', ''USING'',
      ''INTO'', ''VALUES'', ''SET'', ''RETURNING'']"

definition pg_keywords :: "string list" where
  "pg_keywords =
     [''LATERAL'', ''WINDOW'', ''OVER'', ''PARTITION'', ''FETCH'', ''FIRST'', ''ROWS'',
      ''ONLY'', ''MATERIALIZED'', ''RECURSIVE'', ''TEMP'', ''TEMPORARY'', ''UNLOGGED'',
      ''CONFLICT'', ''DO'', ''NOTHING'', ''EXCLUDED'']"

definition mssql_keywords :: "string list" where
  "mssql_keywords =
     [''TOP'', ''OUTPUT'', ''MERGE'', ''PIVOT'', ''UNPIVOT'', ''APPLY'', ''OUTER'',
      ''GO'', ''IDENTITY'', ''NVARCHAR'', ''NOLOCK'', ''READPAST'', ''WITH'',
      ''TABLESAMPLE'']"

definition pg_functions :: "string list" where
  "pg_functions =
     [''count'', ''sum'', ''avg'', ''min'', ''max'', ''coalesce'', ''nullif'',
      ''greatest'', ''least'', ''now'', ''current_timestamp'', ''current_date'',
      ''current_time'', ''current_user'', ''session_user'', ''extract'', ''date_trunc'',
      ''date_part'', ''to_char'', ''to_date'', ''to_timestamp'', ''length'',
      ''char_length'', ''upper'', ''lower'', ''trim'', ''ltrim'', ''rtrim'', ''concat'',
      ''concat_ws'', ''substring'', ''position'', ''replace'', ''split_part'',
      ''regexp_match'', ''regexp_replace'', ''regexp_split_to_array'',
      ''regexp_split_to_table'', ''array_agg'', ''string_agg'', ''json_agg'',
      ''jsonb_agg'', ''jsonb_build_object'', ''jsonb_path_query'', ''row_number'',
      ''rank'', ''dense_rank'', ''lag'', ''lead'', ''first_value'', ''last_value'',
      ''generate_series'', ''unnest'', ''array_length'', ''cardinality'']"

definition mssql_functions :: "string list" where
  "mssql_functions =
     [''COUNT'', ''SUM'', ''AVG'', ''MIN'', ''MAX'', ''ISNULL'', ''COALESCE'', ''NULLIF'',
      ''IIF'', ''CHOOSE'', ''GETDATE'', ''SYSDATETIME'', ''SYSUTCDATETIME'',
      ''CURRENT_TIMESTAMP'', ''DATEADD'', ''DATEDIFF'', ''DATEPART'', ''DATENAME'',
      ''YEAR'', ''MONTH'', ''DAY'', ''FORMAT'', ''CONVERT'', ''CAST'', ''TRY_CAST'',
      ''TRY_CONVERT'', ''LEN'', ''DATALENGTH'', ''UPPER'', ''LOWER'', ''LTRIM'',
      ''RTRIM'', ''TRIM'', ''CONCAT'', ''CONCAT_WS'', ''SUBSTRING'', ''CHARINDEX'',
      ''REPLACE'', ''STUFF'', ''STRING_AGG'', ''STRING_SPLIT'', ''ROW_NUMBER'', ''RANK'',
      ''DENSE_RANK'', ''NTILE'', ''LAG'', ''LEAD'', ''FIRST_VALUE'', ''LAST_VALUE'',
      ''OBJECT_ID'', ''OBJECT_NAME'', ''OBJECT_DEFINITION'', ''SCOPE_IDENTITY'',
      ''NEWID'', ''HASHBYTES'']"

definition sqlite_keywords :: "string list" where
  "sqlite_keywords =
     [''PRAGMA'', ''REPLACE'', ''RETURNING'', ''STRICT'', ''WITHOUT ROWID'',
      ''EXPLAIN QUERY PLAN'']"

definition sqlite_functions :: "string list" where
  "sqlite_functions =
     [''ABS'', ''CHANGES'', ''COALESCE'', ''COUNT'', ''DATE'', ''DATETIME'',
      ''GROUP_CONCAT'', ''HEX'', ''IFNULL'', ''IIF'', ''JULIANDAY'', ''JSON_EXTRACT'',
      ''LENGTH'', ''LOWER'', ''MAX'', ''MIN'', ''PRINTF'', ''ROUND'', ''SQLITE_VERSION'',
      ''STRFTIME'', ''SUBSTR'', ''SUM'', ''TOTAL'', ''TYPEOF'', ''UPPER'']"

definition keyword_groups_for :: "engine \<Rightarrow> string list list" where
  "keyword_groups_for engine =
     [statement_leads, common_keywords,
      case engine of Postgres \<Rightarrow> pg_keywords | SqlServer \<Rightarrow> mssql_keywords | Sqlite \<Rightarrow> sqlite_keywords]"

definition functions_for :: "engine \<Rightarrow> string list" where
  "functions_for engine =
     (case engine of Postgres \<Rightarrow> pg_functions | SqlServer \<Rightarrow> mssql_functions | Sqlite \<Rightarrow> sqlite_functions)"

end
