(* ===== verification/Completion_Dictionary.thy ===== *)
theory Completion_Dictionary
  imports Quoting "HOL-Library.Product_Lexorder"
begin

text \<open>
  The index completion looks names up in: \<^verbatim>\<open>crates/completion/src/dictionary.rs\<close>. An index by name is
  a map to positions in the list of objects; the sorted indexes are lists of positions, which the
  lookups by prefix cut with a binary search.
\<close>

section \<open>Text\<close>

definition lower_ascii :: "string \<Rightarrow> string" where
  "lower_ascii s = map ascii_lower s"

text \<open>\<^verbatim>\<open>str::eq_ignore_ascii_case\<close>.\<close>

definition eq_ignore_case :: "string \<Rightarrow> string \<Rightarrow> bool" where
  "eq_ignore_case a b = (lower_ascii a = lower_ascii b)"

text \<open>\<^verbatim>\<open>str::contains\<close>.\<close>

fun contains_text :: "string \<Rightarrow> string \<Rightarrow> bool" where
  "contains_text needle [] = (needle = [])"
| "contains_text needle (c # s) \<longleftrightarrow> starts_with needle (c # s) \<or> contains_text needle s"

text \<open>
  \<^verbatim>\<open>slice::partition_point\<close> is a binary search for the first position where the test fails.
\<close>

function bisect :: "(nat \<Rightarrow> bool) \<Rightarrow> nat \<Rightarrow> nat \<Rightarrow> nat" where
  "bisect p lo hi =
     (if lo < hi
      then (let mid = (lo + hi) div 2 in if p mid then bisect p (Suc mid) hi else bisect p lo mid)
      else lo)"
  by pat_completeness auto
termination by (relation "measure (\<lambda>(p, lo, hi). hi - lo)") auto

declare bisect.simps [simp del]

definition partition_point :: "('a \<Rightarrow> bool) \<Rightarrow> 'a list \<Rightarrow> nat" where
  "partition_point p xs = bisect (\<lambda>i. p (xs ! i)) 0 (length xs)"

text \<open>It finds it in a list whose elements that pass the test come first.\<close>

lemma bisect_finds:
  assumes "lo \<le> k" and "k \<le> hi" and "\<And>i. i < hi \<Longrightarrow> p i \<longleftrightarrow> i < k"
  shows "bisect p lo hi = k"
  using assms
proof (induction p lo hi rule: bisect.induct)
  case (1 p lo hi)
  show ?case
  proof (cases "lo < hi")
    case False
    with 1(3,4) show ?thesis by (simp add: bisect.simps)
  next
    case True
    define mid where "mid = (lo + hi) div 2"
    from True have mid: "lo \<le> mid" "mid < hi" by (auto simp: mid_def)
    have split: "bisect p lo hi = (if p mid then bisect p (Suc mid) hi else bisect p lo mid)"
      using True by (subst bisect.simps) (simp add: mid_def Let_def)
    show ?thesis
    proof (cases "p mid")
      case True
      with 1(5) mid have "Suc mid \<le> k" by (simp add: Suc_le_eq)
      from 1(1) [OF \<open>lo < hi\<close> mid_def True this 1(4,5)] split True show ?thesis by simp
    next
      case False
      with 1(5) mid have "k \<le> mid" by (simp add: not_less)
      have "p i \<longleftrightarrow> i < k" if "i < mid" for i using 1(5) [of i] that mid by simp
      from 1(2) [OF \<open>lo < hi\<close> mid_def False 1(3) \<open>k \<le> mid\<close> this] split False show ?thesis by simp
    qed
  qed
qed

lemma partition_point_splits:
  assumes "\<And>x. x \<in> set xs \<Longrightarrow> p x" and "\<And>y. y \<in> set ys \<Longrightarrow> \<not> p y"
  shows "partition_point p (xs @ ys) = length xs"
  unfolding partition_point_def
  by (rule bisect_finds) (use assms in \<open>auto simp: nth_append\<close>)

section \<open>Entries\<close>

record column_entry =
  cle_name :: string
  cle_name_lower :: string
  cle_type_display :: string
  cle_type_ref :: type_ref
  cle_nullable :: nullability
  cle_ordinal :: nat
  cle_not_null :: bool
  cle_primary_key :: bool

record object_entry =
  obe_catalog :: "string option"
  obe_schema :: "string option"
  obe_name :: string
  obe_name_lower :: string
  obe_kind :: object_kind
  obe_routine_args :: "string list option"
  obe_comment :: "string option"
  obe_columns :: "column_entry list"

record dictionary =
  dic_schemas :: "string list"
  dic_objects :: "object_entry list"
  dic_by_qualified :: "string \<times> string \<rightharpoonup> nat list"
  dic_by_catalog_qualified :: "string \<times> string \<times> string \<rightharpoonup> nat"
  dic_by_name :: "string \<rightharpoonup> nat list"
  dic_table_sources :: "nat list"
  dic_routines :: "nat list"
  dic_columns :: "(nat \<times> nat) list"

text \<open>The debug name of a primitive type, in lower case.\<close>

fun primitive_display :: "primitive_type \<Rightarrow> string" where
  "primitive_display PInt16 = ''int16''"
| "primitive_display PInt32 = ''int32''"
| "primitive_display PInt64 = ''int64''"
| "primitive_display PFloat32 = ''float32''"
| "primitive_display PFloat64 = ''float64''"
| "primitive_display PDecimal = ''decimal''"
| "primitive_display PBool = ''bool''"
| "primitive_display PText = ''text''"
| "primitive_display PBlob = ''blob''"
| "primitive_display PDate = ''date''"
| "primitive_display PTime = ''time''"
| "primitive_display PTimestamp = ''timestamp''"
| "primitive_display PTimestampTz = ''timestamptz''"
| "primitive_display PInterval = ''interval''"
| "primitive_display PUuid = ''uuid''"
| "primitive_display PJson = ''json''"
| "primitive_display PJsonb = ''jsonb''"

fun type_display :: "type_ref \<Rightarrow> string" where
  "type_display (NativeRef _ name _) = name"
| "type_display (PrimitiveRef p) = primitive_display p"

definition column_entry_of :: "nat \<Rightarrow> column_metadata \<Rightarrow> column_entry" where
  "column_entry_of ordinal c =
     \<lparr>cle_name = col_name c, cle_name_lower = lower_ascii (col_name c),
      cle_type_display = type_display (col_type_ref c), cle_type_ref = col_type_ref c,
      cle_nullable = col_nullable c, cle_ordinal = ordinal,
      cle_not_null = (col_nullable c = NotNullable), cle_primary_key = col_primary_key c\<rparr>"

definition object_entry_of :: "object_info \<Rightarrow> string option \<Rightarrow> string option \<Rightarrow> object_entry" where
  "object_entry_of obj catalog schema =
     \<lparr>obe_catalog = catalog, obe_schema = schema, obe_name = oi_name obj,
      obe_name_lower = lower_ascii (oi_name obj), obe_kind = oi_kind obj,
      obe_routine_args = oi_routine_args obj, obe_comment = oi_comment obj,
      obe_columns = map (\<lambda>(i, c). column_entry_of i c) (enumerate 0 (oi_columns obj))\<rparr>"

section \<open>Indexes\<close>

definition push_index :: "'k \<Rightarrow> nat \<Rightarrow> ('k \<rightharpoonup> nat list) \<Rightarrow> ('k \<rightharpoonup> nat list)" where
  "push_index k i m = m(k \<mapsto> (case m k of None \<Rightarrow> [] | Some is \<Rightarrow> is) @ [i])"

definition build_name_index :: "object_entry list \<Rightarrow> string \<rightharpoonup> nat list" where
  "build_name_index objects =
     fold (\<lambda>(i, obj). push_index (lower_ascii (obe_name obj)) i) (enumerate 0 objects) Map.empty"

definition build_qualified_index :: "object_entry list \<Rightarrow> string \<times> string \<rightharpoonup> nat list" where
  "build_qualified_index objects =
     fold (\<lambda>(i, obj) m. case obe_schema obj of
             None \<Rightarrow> m
           | Some s \<Rightarrow> push_index (lower_ascii s, lower_ascii (obe_name obj)) i m)
       (enumerate 0 objects) Map.empty"

definition build_catalog_qualified_index :: "object_entry list \<Rightarrow> string \<times> string \<times> string \<rightharpoonup> nat" where
  "build_catalog_qualified_index objects =
     fold (\<lambda>(i, obj) m. case (obe_catalog obj, obe_schema obj) of
             (Some c, Some s) \<Rightarrow> m((lower_ascii c, lower_ascii s, lower_ascii (obe_name obj)) \<mapsto> i)
           | _ \<Rightarrow> m)
       (enumerate 0 objects) Map.empty"

definition build_filtered_name_index :: "object_entry list \<Rightarrow> (object_kind \<Rightarrow> bool) \<Rightarrow> nat list" where
  "build_filtered_name_index objects include =
     sort_key (\<lambda>i. (obe_name_lower (objects ! i), obe_name (objects ! i)))
       (filter (\<lambda>i. include (obe_kind (objects ! i))) [0..<length objects])"

definition column_at :: "object_entry list \<Rightarrow> nat \<times> nat \<Rightarrow> column_entry" where
  "column_at objects p = obe_columns (objects ! fst p) ! snd p"

definition build_sorted_column_index :: "object_entry list \<Rightarrow> (nat \<times> nat) list" where
  "build_sorted_column_index objects =
     sort_key (\<lambda>p. (cle_name_lower (column_at objects p), cle_name (column_at objects p)))
       (concat (map (\<lambda>i. map (Pair i) [0..<length (obe_columns (objects ! i))]) [0..<length objects]))"

definition is_table_source :: "object_kind \<Rightarrow> bool" where
  "is_table_source k \<longleftrightarrow>
     k \<in> {KTable, KView, KMaterializedView, KPartitionedTable, KForeignTable, KTableValuedFunction}"

definition is_callable :: "object_kind \<Rightarrow> bool" where
  "is_callable k \<longleftrightarrow> k \<in> {KProcedure, KScalarFunction, KTableValuedFunction}"

text \<open>A schema's name is listed once, whatever its case.\<close>

fun schema_names :: "string list \<Rightarrow> string set \<Rightarrow> string list" where
  "schema_names [] seen = []"
| "schema_names (s # ss) seen =
     (if lower_ascii s \<in> seen then schema_names ss seen
      else s # schema_names ss (insert (lower_ascii s) seen))"

definition tree_objects :: "catalog_tree list \<Rightarrow> object_entry list" where
  "tree_objects trees =
     concat (map (\<lambda>catalog. concat (map (\<lambda>schema.
       map (\<lambda>obj. object_entry_of obj (Some (ct_name catalog)) (Some (st_name schema))) (st_objects schema))
       (ct_schemas catalog))) trees)"

definition dictionary_of :: "catalog_tree list \<Rightarrow> dictionary" where
  "dictionary_of trees =
     (let objects = tree_objects trees
      in \<lparr>dic_schemas = schema_names (concat (map (\<lambda>catalog. map st_name (ct_schemas catalog)) trees)) {},
          dic_objects = objects,
          dic_by_qualified = build_qualified_index objects,
          dic_by_catalog_qualified = build_catalog_qualified_index objects,
          dic_by_name = build_name_index objects,
          dic_table_sources = build_filtered_name_index objects is_table_source,
          dic_routines = build_filtered_name_index objects is_callable,
          dic_columns = build_sorted_column_index objects\<rparr>)"

section \<open>Lookups\<close>

definition sole_object :: "dictionary \<Rightarrow> nat list option \<Rightarrow> object_entry option" where
  "sole_object dict found =
     (case found of Some [i] \<Rightarrow> Some (dic_objects dict ! i) | _ \<Rightarrow> None)"

definition resolve_by_name :: "dictionary \<Rightarrow> string \<Rightarrow> object_entry option" where
  "resolve_by_name dict name = sole_object dict (dic_by_name dict (lower_ascii name))"

definition resolve_qualified :: "dictionary \<Rightarrow> string \<Rightarrow> string \<Rightarrow> object_entry option" where
  "resolve_qualified dict schema name =
     sole_object dict (dic_by_qualified dict (lower_ascii schema, lower_ascii name))"

definition resolve_name_reference :: "dictionary \<Rightarrow> string \<Rightarrow> object_entry option" where
  "resolve_name_reference dict reference =
     (case split_on CHR ''.'' reference of
        [name] \<Rightarrow> resolve_by_name dict name
      | [schema, name] \<Rightarrow> resolve_qualified dict schema name
      | [catalog, schema, name] \<Rightarrow>
          map_option (\<lambda>i. dic_objects dict ! i)
            (dic_by_catalog_qualified dict (lower_ascii catalog, lower_ascii schema, lower_ascii name))
      | _ \<Rightarrow> None)"

definition resolve_object_path :: "dictionary \<Rightarrow> string \<Rightarrow> object_path option" where
  "resolve_object_path dict name =
     map_option (\<lambda>obj. \<lparr>op_catalog = obe_catalog obj, op_schema = obe_schema obj, op_name = obe_name obj,
         op_kind = Some (obe_kind obj), op_routine_args = obe_routine_args obj\<rparr>)
       (resolve_name_reference dict name)"

section \<open>What the indexes hold\<close>

text \<open>The positions of the objects with a property, as an index with entries only where there are some.\<close>

definition positions :: "('a \<Rightarrow> bool) \<Rightarrow> 'a list \<Rightarrow> nat list" where
  "positions p xs = filter (\<lambda>i. p (xs ! i)) [0..<length xs]"

definition some_list :: "'a list \<Rightarrow> 'a list option" where
  "some_list xs = (if xs = [] then None else Some xs)"

lemma positions_snoc: "positions p (xs @ [x]) = positions p xs @ (if p x then [length xs] else [])"
  by (auto simp: positions_def nth_append intro!: filter_cong)

lemma enumerate_snoc: "enumerate 0 (xs @ [x]) = enumerate 0 xs @ [(length xs, x)]"
  by (simp add: enumerate_append_eq)

lemma build_name_index_positions:
  "build_name_index objects key = some_list (positions (\<lambda>obj. lower_ascii (obe_name obj) = key) objects)"
proof (induction objects rule: rev_induct)
  case Nil
  show ?case by (simp add: build_name_index_def some_list_def positions_def)
next
  case (snoc x xs)
  then show ?case
    unfolding build_name_index_def enumerate_snoc
    by (auto simp: push_index_def positions_snoc some_list_def split: option.splits if_splits)
qed

lemma build_qualified_index_positions:
  "build_qualified_index objects (s, n)
     = some_list (positions (\<lambda>obj. map_option lower_ascii (obe_schema obj) = Some s \<and> lower_ascii (obe_name obj) = n) objects)"
proof (induction objects rule: rev_induct)
  case Nil
  show ?case by (simp add: build_qualified_index_def some_list_def positions_def)
next
  case (snoc x xs)
  then show ?case
    unfolding build_qualified_index_def enumerate_snoc
    by (auto simp: push_index_def positions_snoc some_list_def split: option.splits if_splits)
qed


text \<open>The objects whose lower-case catalog, schema and name are given.\<close>

definition at_location :: "string \<Rightarrow> string \<Rightarrow> string \<Rightarrow> object_entry \<Rightarrow> bool" where
  "at_location c s n obj \<longleftrightarrow>
     map_option lower_ascii (obe_catalog obj) = Some c \<and> map_option lower_ascii (obe_schema obj) = Some s
       \<and> lower_ascii (obe_name obj) = n"

definition last_option :: "'a list \<Rightarrow> 'a option" where
  "last_option xs = (if xs = [] then None else Some (last xs))"

lemma build_catalog_qualified_index_positions:
  "build_catalog_qualified_index objects (c, s, n)
     = last_option (positions (at_location c s n) objects)"
proof (induction objects rule: rev_induct)
  case Nil
  show ?case by (simp add: build_catalog_qualified_index_def positions_def last_option_def)
next
  case (snoc x xs)
  have "build_catalog_qualified_index (xs @ [x])
          = (case (obe_catalog x, obe_schema x) of
               (Some c, Some s) \<Rightarrow> (build_catalog_qualified_index xs)
                 ((lower_ascii c, lower_ascii s, lower_ascii (obe_name x)) \<mapsto> length xs)
             | _ \<Rightarrow> build_catalog_qualified_index xs)"
    by (simp only: build_catalog_qualified_index_def enumerate_snoc fold_append fold_simps o_apply prod.case)
  then have "build_catalog_qualified_index (xs @ [x]) (c, s, n)
          = (if at_location c s n x then Some (length xs) else build_catalog_qualified_index xs (c, s, n))"
    by (cases "obe_catalog x"; cases "obe_schema x")
       (auto simp: at_location_def)
  then show ?case by (simp add: snoc positions_snoc last_option_def)
qed

lemma positions_upto: "is = positions p xs \<Longrightarrow> i \<in> set is \<Longrightarrow> i < length xs \<and> p (xs ! i)"
  by (simp add: positions_def)

text \<open>An index at a position alone in its list is a position of the only object with the property.\<close>

lemma positions_sole:
  assumes "i < length xs" and "p (xs ! i)" and "\<And>j. j < length xs \<Longrightarrow> p (xs ! j) \<Longrightarrow> j = i"
  shows "positions p xs = [i]"
proof -
  have "filter (\<lambda>j. p (xs ! j)) [0..<length xs] = filter (\<lambda>j. j = i) [0..<length xs]"
    by (intro filter_cong refl) (metis assms atLeastLessThan_iff set_upt)
  moreover have "filter (\<lambda>j. j = i) [0..<n] = (if i < n then [i] else [])" for n
    by (induction n) auto
  ultimately show ?thesis using assms(1) by (simp add: positions_def)
qed

section \<open>The part of a sorted index with a prefix\<close>

lemma starts_with_Cons [simp]:
  "starts_with (c # p) s \<longleftrightarrow> (\<exists>t. s = c # t \<and> starts_with p t)"
  by (cases s) (auto simp: starts_with_def)

lemma starts_with_Nil [simp]: "starts_with [] s"
  by (simp add: starts_with_def)

lemma prefix_not_less: "starts_with p s \<Longrightarrow> \<not> s < (p :: string)"
  by (induction p arbitrary: s) auto

text \<open>The texts that start with \<open>p\<close> are an interval that starts at \<open>p\<close>.\<close>

lemma prefix_interval: "\<not> s < p \<Longrightarrow> s \<le> t \<Longrightarrow> starts_with p t \<Longrightarrow> starts_with p (s :: string)"
proof (induction p arbitrary: s t)
  case (Cons c p)
  then show ?case by (cases s) auto
qed simp

lemma sorted_prefix_split:
  assumes "sorted (map f xs)"
  obtains before inside after where "xs = before @ inside @ after"
    and "\<And>x. x \<in> set before \<Longrightarrow> f x < p" and "\<And>x. x \<in> set (inside @ after) \<Longrightarrow> \<not> f x < p"
    and "\<And>x. x \<in> set inside \<Longrightarrow> starts_with p (f x)" and "\<And>x. x \<in> set after \<Longrightarrow> \<not> starts_with p (f x)"
proof
  define rest where "rest = dropWhile (\<lambda>x. f x < p) xs"
  define inside where "inside = takeWhile (\<lambda>x. starts_with p (f x)) rest"
  define after where "after = dropWhile (\<lambda>x. starts_with p (f x)) rest"
  show "xs = takeWhile (\<lambda>x. f x < p) xs @ inside @ after"
    by (simp add: inside_def after_def rest_def)
  show "f x < p" if "x \<in> set (takeWhile (\<lambda>x. f x < p) xs)" for x
    using set_takeWhileD [OF that] by simp
  show "starts_with p (f x)" if "x \<in> set inside" for x
    using that by (auto simp: inside_def dest: set_takeWhileD)
  have sorted_rest: "sorted (map f rest)"
    using assms unfolding rest_def by (metis dropWhile_eq_drop drop_map sorted_wrt_drop)
  have above: "\<not> f x < p" if "x \<in> set rest" for x
  proof (cases rest)
    case (Cons y ys)
    then have "\<not> f y < p" unfolding rest_def using hd_dropWhile [of "\<lambda>x. f x < p" xs] by (metis list.distinct(1) list.sel(1))
    with that Cons sorted_rest show ?thesis by auto
  qed (use that in simp)
  then show "\<not> f x < p" if "x \<in> set (inside @ after)" for x
    using that by (simp add: inside_def after_def)
  show "\<not> starts_with p (f x)" if "x \<in> set after" for x
  proof (cases after)
    case (Cons y ys)
    then have "\<not> starts_with p (f y)"
      unfolding after_def using hd_dropWhile [of "\<lambda>x. starts_with p (f x)" rest] by (metis list.distinct(1) list.sel(1))
    moreover have "y \<in> set rest" using Cons set_dropWhileD [of y] unfolding after_def by (metis list.set_intros(1))
    moreover have "f y \<le> f x"
      using sorted_rest that Cons takeWhile_dropWhile_id [of "\<lambda>x. starts_with p (f x)" rest]
      unfolding after_def by (metis (no_types, lifting) dropWhile_eq_drop drop_map list.simps(9) order_refl set_ConsD sorted_simps(2) sorted_wrt_drop image_eqI list.set_map)
    ultimately show ?thesis using prefix_interval above by blast
  qed (use that in simp)
qed

text \<open>Two binary searches, or one and a walk, cut out the entries with the prefix.\<close>

lemma sorted_prefix_slice:
  fixes f :: "'a \<Rightarrow> string" and p :: string
  assumes "sorted (map f xs)"
  defines "rest \<equiv> drop (partition_point (\<lambda>x. f x < p) xs) xs"
  shows "take (partition_point (\<lambda>x. starts_with p (f x)) rest) rest = filter (\<lambda>x. starts_with p (f x)) xs"
    and "takeWhile (\<lambda>x. starts_with p (f x)) rest = filter (\<lambda>x. starts_with p (f x)) xs"
proof -
  obtain before inside after where xs: "xs = before @ inside @ after"
    and before: "\<And>x. x \<in> set before \<Longrightarrow> f x < p" and above: "\<And>x. x \<in> set (inside @ after) \<Longrightarrow> \<not> f x < p"
    and inside: "\<And>x. x \<in> set inside \<Longrightarrow> starts_with p (f x)"
    and after: "\<And>x. x \<in> set after \<Longrightarrow> \<not> starts_with p (f x)"
    using sorted_prefix_split [OF assms(1)] by metis
  have "partition_point (\<lambda>x. f x < p) (before @ (inside @ after)) = length before"
    by (rule partition_point_splits) (use before above in blast)+
  then have rest: "rest = inside @ after"
    by (simp add: rest_def xs)
  have kept: "filter (\<lambda>x. starts_with p (f x)) xs = inside"
    using before prefix_not_less inside after by (auto simp: xs filter_empty_conv filter_id_conv)
  show "take (partition_point (\<lambda>x. starts_with p (f x)) rest) rest = filter (\<lambda>x. starts_with p (f x)) xs"
  proof -
    have "partition_point (\<lambda>x. starts_with p (f x)) (inside @ after) = length inside"
      by (rule partition_point_splits) (use inside after in blast)+
    then show ?thesis by (simp add: kept rest)
  qed
  show "takeWhile (\<lambda>x. starts_with p (f x)) rest = filter (\<lambda>x. starts_with p (f x)) xs"
    using inside after by (cases after) (auto simp: kept rest takeWhile_append takeWhile_eq_all_conv)
qed

end
