(* ===== verification/Completion_Rank.thy ===== *)
theory Completion_Rank
  imports Completion_Dictionary Completion_Types
begin

text \<open>
  The candidates of a completion and their order: \<^verbatim>\<open>crates/completion/src/rank.rs\<close>. What a
  \<^verbatim>\<open>push_\<close> function appends to the candidates is its value here. The last two sections show that the
  binary searches over the sorted indexes deliver exactly the entries with the prefix, and that the
  ranking keeps the best of the candidates that were produced.
\<close>

section \<open>Matching\<close>

definition starts_with_ignore_case :: "string \<Rightarrow> string \<Rightarrow> bool" where
  "starts_with_ignore_case s prefix \<longleftrightarrow>
     length prefix \<le> length s \<and> eq_ignore_case (take (length prefix) s) prefix"

definition contains_ignore_case :: "string \<Rightarrow> string \<Rightarrow> bool" where
  "contains_ignore_case s needle \<longleftrightarrow> needle \<noteq> [] \<and> contains_text (lower_ascii needle) (lower_ascii s)"

definition score_match :: "string \<Rightarrow> string \<Rightarrow> int option" where
  "score_match s prefix =
     (if prefix = [] then Some 500
      else if starts_with prefix s then Some 1000
      else if starts_with_ignore_case s prefix then Some 800
      else if contains_ignore_case s prefix then Some 300
      else None)"

definition score_match_with_lower :: "string \<Rightarrow> string \<Rightarrow> string \<Rightarrow> int option" where
  "score_match_with_lower s lower prefix =
     (if prefix = [] then Some 500
      else if starts_with prefix s then Some 1000
      else if starts_with prefix lower then Some 800
      else if contains_text prefix lower then Some 300
      else None)"

section \<open>Identifiers\<close>

definition is_simple_char :: "char \<Rightarrow> bool" where
  "is_simple_char c \<longleftrightarrow> (CHR ''a'' \<le> c \<and> c \<le> CHR ''z'') \<or> is_digit c \<or> c = CHR ''_''"

definition simple_ident :: "string \<Rightarrow> bool" where
  "simple_ident name \<longleftrightarrow> name \<noteq> [] \<and> list_all is_simple_char name \<and> \<not> is_digit (hd name)"

definition quote_ident_if_needed :: "string \<Rightarrow> engine \<Rightarrow> string" where
  "quote_ident_if_needed name engine =
     (if simple_ident name then name
      else (case engine of
              SqlServer \<Rightarrow> ''['' @ replace_char (CHR 0x5D) '']]'' name @ '']''
            | _ \<Rightarrow> [CHR 0x22] @ replace_char (CHR 0x22) [CHR 0x22, CHR 0x22] name @ [CHR 0x22]))"

section \<open>Objects\<close>

definition optional_identifier_eq :: "string option \<Rightarrow> string option \<Rightarrow> bool" where
  "optional_identifier_eq a b =
     (case (a, b) of (Some x, Some y) \<Rightarrow> eq_ignore_case x y | (None, None) \<Rightarrow> True | _ \<Rightarrow> False)"

definition same_object_location :: "object_entry \<Rightarrow> object_entry \<Rightarrow> bool" where
  "same_object_location a b \<longleftrightarrow>
     optional_identifier_eq (obe_catalog a) (obe_catalog b)
       \<and> optional_identifier_eq (obe_schema a) (obe_schema b)"

definition in_schema :: "string \<Rightarrow> object_entry \<Rightarrow> bool" where
  "in_schema schema obj =
     (case obe_schema obj of None \<Rightarrow> False | Some other \<Rightarrow> eq_ignore_case other schema)"

text \<open>Whether an object of the same name is in a schema of this name elsewhere.\<close>

definition same_schema_elsewhere :: "dictionary \<Rightarrow> object_entry \<Rightarrow> string \<Rightarrow> nat list \<Rightarrow> bool" where
  "same_schema_elsewhere dict obj schema found =
     list_ex (\<lambda>other. \<not> same_object_location other obj \<and> in_schema schema other)
       (map (\<lambda>i. dic_objects dict ! i) found)"

definition object_insert :: "object_entry \<Rightarrow> dictionary \<Rightarrow> engine \<Rightarrow> bool \<Rightarrow> string" where
  "object_insert obj dict engine qualifier_already_typed =
     (let name = quote_ident_if_needed (obe_name obj) engine
      in if qualifier_already_typed then name
         else (case obe_schema obj of
             None \<Rightarrow> name
           | Some schema_name \<Rightarrow>
               let schema = quote_ident_if_needed schema_name engine;
                   short = schema @ ''.'' @ name
               in (case dic_by_name dict (obe_name_lower obj) of
                     None \<Rightarrow> short
                   | Some found \<Rightarrow>
                       if same_schema_elsewhere dict obj schema_name found
                       then (case obe_catalog obj of
                               Some catalog \<Rightarrow> quote_ident_if_needed catalog engine @ ''.'' @ short
                             | None \<Rightarrow> short)
                       else short)))"

definition object_location :: "object_entry \<Rightarrow> dictionary \<Rightarrow> string option" where
  "object_location obj dict =
     (case obe_schema obj of
        None \<Rightarrow> None
      | Some schema \<Rightarrow>
          if same_schema_elsewhere dict obj schema
               (case dic_by_name dict (obe_name_lower obj) of None \<Rightarrow> [] | Some found \<Rightarrow> found)
          then (case obe_catalog obj of
                  Some catalog \<Rightarrow> Some (catalog @ ''.'' @ schema)
                | None \<Rightarrow> Some schema)
          else Some schema)"

definition entry_qualified_name :: "object_entry \<Rightarrow> string option" where
  "entry_qualified_name obj =
     (case (obe_catalog obj, obe_schema obj) of
        (Some catalog, Some schema) \<Rightarrow> Some (catalog @ ''.'' @ schema @ ''.'' @ obe_name obj)
      | (None, Some schema) \<Rightarrow> Some (schema @ ''.'' @ obe_name obj)
      | _ \<Rightarrow> None)"

fun candidate_kind :: "object_kind \<Rightarrow> completion_kind" where
  "candidate_kind KView = CView"
| "candidate_kind KMaterializedView = CMaterializedView"
| "candidate_kind KProcedure = CProcedure"
| "candidate_kind KScalarFunction = CFunction"
| "candidate_kind KTableValuedFunction = CFunction"
| "candidate_kind KType = CType"
| "candidate_kind _ = CTable"

fun kind_bonus :: "completion_kind \<Rightarrow> int" where
  "kind_bonus CTable = 5"
| "kind_bonus CView = 3"
| "kind_bonus CMaterializedView = 2"
| "kind_bonus _ = 0"

text \<open>The two separators between the parts of a detail are UTF-8 characters.\<close>

definition middle_dot :: string where
  "middle_dot = [CHR '' '', CHR 0xC2, CHR 0xB7, CHR '' '']"

definition long_dash :: string where
  "long_dash = [CHR '' '', CHR 0xE2, CHR 0x80, CHR 0x94, CHR '' '']"

definition object_detail :: "object_entry \<Rightarrow> dictionary \<Rightarrow> string option" where
  "object_detail obj dict =
     (case obe_routine_args obj of
        Some arguments \<Rightarrow>
          Some (''('' @ join_with '', '' arguments @ '')'' @ middle_dot
            @ (case object_location obj dict of None \<Rightarrow> ''routine'' | Some location \<Rightarrow> location))
      | None \<Rightarrow>
          (case (object_location obj dict, obe_comment obj) of
             (Some location, Some text) \<Rightarrow> Some (location @ long_dash @ text)
           | (Some location, None) \<Rightarrow> Some location
           | (None, Some text) \<Rightarrow> Some text
           | (None, None) \<Rightarrow> None))"

definition object_candidate ::
    "object_entry \<Rightarrow> dictionary \<Rightarrow> string \<Rightarrow> engine \<Rightarrow> int \<Rightarrow> bool \<Rightarrow> completion_candidate option" where
  "object_candidate obj dict prefix engine bonus qualifier_already_typed =
     map_option (\<lambda>match_score.
         \<lparr>ca_label = obe_name obj,
          ca_insert = object_insert obj dict engine qualifier_already_typed,
          ca_kind = candidate_kind (obe_kind obj),
          ca_detail = object_detail obj dict,
          ca_qualified_name = map_option (\<lambda>qualified.
             case obe_routine_args obj of
               None \<Rightarrow> qualified
             | Some arguments \<Rightarrow> qualified @ ''('' @ join_with '','' arguments @ '')'') (entry_qualified_name obj),
          ca_score = match_score + bonus + kind_bonus (candidate_kind (obe_kind obj))\<rparr>)
       (score_match_with_lower (obe_name obj) (obe_name_lower obj) prefix)"

text \<open>A sorted index is cut with two binary searches.\<close>

definition indexed_object_candidates :: "dictionary \<Rightarrow> nat list \<Rightarrow> string \<Rightarrow> object_entry list" where
  "indexed_object_candidates dict index prefix =
     map (\<lambda>i. dic_objects dict ! i)
       (if prefix = [] then index
        else (let start = partition_point (\<lambda>i. obe_name_lower (dic_objects dict ! i) < prefix) index;
                  rest = drop start index
              in take (partition_point (\<lambda>i. starts_with prefix (obe_name_lower (dic_objects dict ! i))) rest) rest))"

definition table_view_candidates :: "dictionary \<Rightarrow> string \<Rightarrow> object_entry list" where
  "table_view_candidates dict prefix = indexed_object_candidates dict (dic_table_sources dict) prefix"

section \<open>Producers\<close>

definition matched :: "('a \<Rightarrow> int option) \<Rightarrow> ('a \<Rightarrow> int \<Rightarrow> completion_candidate) \<Rightarrow> 'a list \<Rightarrow> completion_candidate list" where
  "matched score cand xs = List.map_filter (\<lambda>x. map_option (cand x) (score x)) xs"

definition word_candidate :: "completion_kind \<Rightarrow> string \<Rightarrow> string option \<Rightarrow> string \<Rightarrow> int \<Rightarrow> completion_candidate" where
  "word_candidate kind ins detail label score =
     \<lparr>ca_label = label, ca_insert = ins, ca_kind = kind, ca_detail = detail,
      ca_qualified_name = None, ca_score = score\<rparr>"

definition push_keywords :: "engine \<Rightarrow> string \<Rightarrow> int \<Rightarrow> completion_candidate list" where
  "push_keywords engine prefix bonus =
     concat (map (matched (\<lambda>kw. score_match kw prefix)
         (\<lambda>kw match_score. word_candidate CKeyword kw None kw (match_score + bonus)))
       (keyword_groups_for engine))"

definition push_functions :: "engine \<Rightarrow> string \<Rightarrow> int \<Rightarrow> completion_candidate list" where
  "push_functions engine prefix bonus =
     matched (\<lambda>f. score_match f prefix)
       (\<lambda>f match_score. word_candidate CFunction (f @ ''('') (Some ''built-in'') f (match_score + bonus))
       (functions_for engine)"

definition push_schemas :: "dictionary \<Rightarrow> string \<Rightarrow> int \<Rightarrow> completion_candidate list" where
  "push_schemas dict prefix bonus =
     matched (\<lambda>s. score_match s prefix)
       (\<lambda>s match_score. word_candidate CSchema s None s (match_score + bonus)) (dic_schemas dict)"

definition push_tables_and_views :: "dictionary \<Rightarrow> string \<Rightarrow> engine \<Rightarrow> int \<Rightarrow> nat \<Rightarrow> completion_candidate list" where
  "push_tables_and_views dict prefix engine bonus budget =
     List.map_filter (\<lambda>obj. object_candidate obj dict prefix engine bonus False)
       (take budget (table_view_candidates dict prefix))"

definition push_routines :: "dictionary \<Rightarrow> string \<Rightarrow> engine \<Rightarrow> int \<Rightarrow> nat \<Rightarrow> completion_candidate list" where
  "push_routines dict prefix engine bonus budget =
     List.map_filter (\<lambda>obj. object_candidate obj dict prefix engine bonus False)
       (take budget (indexed_object_candidates dict (dic_routines dict) prefix))"

definition column_candidate :: "column_entry \<Rightarrow> object_entry \<Rightarrow> int \<Rightarrow> completion_candidate" where
  "column_candidate c owner score =
     \<lparr>ca_label = cle_name c, ca_insert = cle_name c, ca_kind = CColumn,
      ca_detail = Some (if cle_not_null c then cle_type_display c @ '' NOT NULL'' else cle_type_display c),
      ca_qualified_name = entry_qualified_name owner, ca_score = score\<rparr>"

definition push_columns :: "object_entry \<Rightarrow> string \<Rightarrow> int \<Rightarrow> completion_candidate list" where
  "push_columns obj prefix bonus =
     matched (\<lambda>c. score_match_with_lower (cle_name c) (cle_name_lower c) prefix)
       (\<lambda>c match_score. column_candidate c obj (match_score + bonus)) (obe_columns obj)"

text \<open>The column index is cut with a binary search and a walk.\<close>

definition indexed_columns :: "dictionary \<Rightarrow> string \<Rightarrow> (nat \<times> nat) list" where
  "indexed_columns dict prefix =
     (let start = (if prefix = [] then 0
                   else partition_point (\<lambda>p. cle_name_lower (column_at (dic_objects dict) p) < prefix) (dic_columns dict))
      in takeWhile (\<lambda>p. prefix = [] \<or> starts_with prefix (cle_name_lower (column_at (dic_objects dict) p)))
           (drop start (dic_columns dict)))"

definition push_all_columns :: "dictionary \<Rightarrow> string \<Rightarrow> int \<Rightarrow> nat \<Rightarrow> completion_candidate list" where
  "push_all_columns dict prefix bonus budget =
     matched (\<lambda>p. let c = column_at (dic_objects dict) p
                   in score_match_with_lower (cle_name c) (cle_name_lower c) prefix)
       (\<lambda>p match_score.
          column_candidate (column_at (dic_objects dict) p) (dic_objects dict ! fst p) (match_score + bonus))
       (take budget (indexed_columns dict prefix))"

definition push_local_columns :: "string list \<Rightarrow> string \<Rightarrow> int \<Rightarrow> completion_candidate list" where
  "push_local_columns columns prefix bonus =
     matched (\<lambda>c. score_match c prefix)
       (\<lambda>c match_score. word_candidate CColumn c (Some ''document-local column'') c (match_score + bonus)) columns"

definition push_local_relations :: "completion_analysis \<Rightarrow> string \<Rightarrow> int \<Rightarrow> completion_candidate list" where
  "push_local_relations ctx prefix bonus =
     matched (\<lambda>r. score_match (rel_name r) prefix)
       (\<lambda>r match_score. word_candidate CTable (rel_name r) (Some ''document-local relation'') (rel_name r)
          (match_score + bonus))
       (filter (\<lambda>r. \<not> rel_is_alias r \<and> rel_target r = None) (an_relations ctx))"

text \<open>
  The columns of the relations in scope: what is appended, the objects to append the columns of, and
  whether a relation had columns of its own.
\<close>

definition relation_step ::
    "dictionary \<Rightarrow> string \<Rightarrow> int \<Rightarrow> completion_relation
       \<Rightarrow> completion_candidate list \<times> object_entry list \<times> bool \<Rightarrow> completion_candidate list \<times> object_entry list \<times> bool" where
  "relation_step dict prefix bonus r acc =
     (case acc of (out, resolved, found) \<Rightarrow>
        if rel_columns r \<noteq> [] then (out @ push_local_columns (rel_columns r) prefix (bonus + 5), resolved, True)
        else (case resolve_name_reference dict (case rel_target r of None \<Rightarrow> rel_name r | Some t \<Rightarrow> t) of
                None \<Rightarrow> acc
              | Some obj \<Rightarrow>
                  if list_ex (\<lambda>c. obe_catalog c = obe_catalog obj \<and> obe_schema c = obe_schema obj
                                \<and> eq_ignore_case (obe_name c) (obe_name obj)) resolved
                  then acc else (out, resolved @ [obj], found)))"

definition push_relation_columns ::
    "completion_analysis \<Rightarrow> dictionary \<Rightarrow> string \<Rightarrow> int \<Rightarrow> completion_candidate list \<times> bool" where
  "push_relation_columns ctx dict prefix bonus =
     (case fold (relation_step dict prefix bonus) (filter (\<lambda>r. \<not> rel_is_alias r) (an_relations ctx)) ([], [], False) of
        (out, resolved, found) \<Rightarrow>
          (out @ concat (map (\<lambda>obj. push_columns obj prefix bonus) resolved), found \<or> resolved \<noteq> []))"

definition context_kind_priority :: "completion_context \<Rightarrow> completion_kind \<Rightarrow> nat" where
  "context_kind_priority context kind =
     (case context of
        AtStatement \<Rightarrow>
          (case kind of CKeyword \<Rightarrow> 0 | CSnippet \<Rightarrow> 1 | CFunction \<Rightarrow> 2 | CProcedure \<Rightarrow> 2 | _ \<Rightarrow> 3)
      | ExpectingTable \<Rightarrow>
          (case kind of
             CSchema \<Rightarrow> 0 | CTable \<Rightarrow> 1 | CView \<Rightarrow> 1 | CMaterializedView \<Rightarrow> 1 | CAlias \<Rightarrow> 1
           | CFunction \<Rightarrow> 2 | CSnippet \<Rightarrow> 3 | CKeyword \<Rightarrow> 4 | _ \<Rightarrow> 5)
      | ExpectingColumn _ \<Rightarrow>
          (case kind of CColumn \<Rightarrow> 0 | CAlias \<Rightarrow> 0 | CFunction \<Rightarrow> 1 | CKeyword \<Rightarrow> 2 | _ \<Rightarrow> 3)
      | ExpectingObjectInSchema _ \<Rightarrow>
          (case kind of CTable \<Rightarrow> 0 | CView \<Rightarrow> 0 | CMaterializedView \<Rightarrow> 0 | CFunction \<Rightarrow> 1 | _ \<Rightarrow> 2)
      | UnknownContext \<Rightarrow> 0)"

section \<open>Ranking\<close>

definition candidate_budget :: "nat \<Rightarrow> nat" where
  "candidate_budget limit = min 1600 (max 64 (min (2 ^ 64 - 1) (limit * 8)))"

text \<open>The candidates of a slot, before they are ordered.\<close>

definition qualified_columns ::
    "completion_analysis \<Rightarrow> dictionary \<Rightarrow> engine \<Rightarrow> nat \<Rightarrow> string \<Rightarrow> completion_candidate list" where
  "qualified_columns ctx dict engine budget q =
     (let prefix = an_prefix_lower ctx;
          relation = find (\<lambda>r. eq_ignore_case (rel_name r) q) (an_relations ctx);
          target = (case Option.bind relation rel_target of None \<Rightarrow> q | Some t \<Rightarrow> t);
          from_catalog = (case resolve_name_reference dict target of
              Some obj \<Rightarrow> push_columns obj prefix 80
            | None \<Rightarrow> push_all_columns dict prefix 20 budget @ push_functions engine prefix 10)
      in (case relation of
            Some r \<Rightarrow> if rel_columns r \<noteq> [] then push_local_columns (rel_columns r) prefix 85 else from_catalog
          | None \<Rightarrow> from_catalog))"

definition in_named_scope :: "string \<Rightarrow> object_entry \<Rightarrow> bool" where
  "in_named_scope schema obj \<longleftrightarrow>
     is_table_source (obe_kind obj)
       \<and> (in_schema schema obj
          \<or> (case obe_catalog obj of None \<Rightarrow> False | Some catalog \<Rightarrow> eq_ignore_case catalog schema))"

definition generated :: "completion_analysis \<Rightarrow> dictionary \<Rightarrow> engine \<Rightarrow> nat \<Rightarrow> completion_candidate list" where
  "generated ctx dict engine limit =
     (let prefix = an_prefix_lower ctx; budget = candidate_budget limit
      in (case an_context ctx of
            AtStatement \<Rightarrow>
              push_keywords engine prefix 40
                @ push_tables_and_views dict prefix engine 10 budget
                @ push_routines dict prefix engine 10 budget
          | ExpectingTable \<Rightarrow>
              push_tables_and_views dict prefix engine 60 budget
                @ push_local_relations ctx prefix 70
                @ push_schemas dict prefix 30
                @ push_keywords engine prefix 5
          | ExpectingColumn (Some q) \<Rightarrow> qualified_columns ctx dict engine budget q
          | ExpectingColumn None \<Rightarrow>
              (let (columns, found) = push_relation_columns ctx dict prefix 70
               in columns @ (if found then [] else push_all_columns dict prefix 20 budget)
                    @ push_functions engine prefix 30 @ push_keywords engine prefix 5)
          | ExpectingObjectInSchema schema \<Rightarrow>
              List.map_filter (\<lambda>obj. object_candidate obj dict prefix engine 80 True)
                (filter (in_named_scope schema) (dic_objects dict))
          | UnknownContext \<Rightarrow>
              push_keywords engine prefix 20
                @ push_tables_and_views dict prefix engine 20 budget
                @ push_routines dict prefix engine 20 budget
                @ push_all_columns dict prefix 20 budget))"

text \<open>\<^verbatim>\<open>str::strip_suffix\<close>.\<close>

definition strip_suffix :: "string \<Rightarrow> string \<Rightarrow> string option" where
  "strip_suffix p s =
     (if length p \<le> length s \<and> drop (length s - length p) s = p then Some (take (length s - length p) s) else None)"

text \<open>Inside an identifier the user opened with a delimiter.\<close>

definition requote :: "char \<Rightarrow> engine \<Rightarrow> completion_candidate \<Rightarrow> completion_candidate" where
  "requote opens engine cand =
     (let closing = (if opens = CHR ''['' then CHR 0x5D else opens);
          quoted = [opens] @ replace_char closing [closing, closing] (ca_label cand) @ [closing]
      in cand\<lparr>ca_insert :=
           (if ca_kind cand \<in> {CTable, CView, CMaterializedView}
            then (case strip_suffix (quote_ident_if_needed (ca_label cand) engine) (ca_insert cand) of
                    None \<Rightarrow> quoted
                  | Some qualifier \<Rightarrow> qualifier @ quoted)
            else quoted)\<rparr>)"

definition in_quotes :: "char option \<Rightarrow> engine \<Rightarrow> completion_candidate list \<Rightarrow> completion_candidate list" where
  "in_quotes q engine out =
     (case q of
        None \<Rightarrow> out
      | Some opens \<Rightarrow>
          map (requote opens engine)
            (filter (\<lambda>c. ca_kind c \<notin> {CKeyword, CFunction, CSnippet}) out))"

definition rank_key :: "completion_context \<Rightarrow> completion_candidate \<Rightarrow> nat \<times> int \<times> string" where
  "rank_key context c = (context_kind_priority context (ca_kind c), - ca_score c, ca_label c)"

definition same_candidate :: "completion_candidate \<Rightarrow> completion_candidate \<Rightarrow> bool" where
  "same_candidate a b \<longleftrightarrow>
     ca_kind a = ca_kind b \<and> ca_insert a = ca_insert b \<and> ca_qualified_name a = ca_qualified_name b"

text \<open>\<^verbatim>\<open>Vec::dedup_by\<close> drops an element that is the same as the last one kept.\<close>

fun dedup_by :: "('a \<Rightarrow> 'a \<Rightarrow> bool) \<Rightarrow> 'a list \<Rightarrow> 'a list" where
  "dedup_by same (x # y # ys) =
     (if same y x then dedup_by same (x # ys) else x # dedup_by same (y # ys))"
| "dedup_by same xs = xs"

definition ranked_candidates :: "completion_analysis \<Rightarrow> dictionary \<Rightarrow> engine \<Rightarrow> nat \<Rightarrow> completion_candidate list" where
  "ranked_candidates ctx dict engine limit =
     take limit
       (dedup_by same_candidate
         (sort_key (rank_key (an_context ctx))
           (in_quotes (an_identifier_quote ctx) engine (generated ctx dict engine limit))))"

section \<open>The indexes against the whole catalog\<close>

lemma map_insort_key: "map f (insort_key (\<lambda>x. g (f x)) x xs) = insort_key g (f x) (map f xs)"
  by (induction xs) auto

lemma map_sort_key: "map f (sort_key (\<lambda>x. g (f x)) xs) = sort_key g (map f xs)"
  by (induction xs) (simp_all add: map_insort_key)

lemma map_nth_filter: "map (nth xs) (filter (\<lambda>i. P (xs ! i)) [0..<length xs]) = filter P xs"
proof -
  have "filter P (map (nth xs) [0..<length xs]) = map (nth xs) (filter (\<lambda>i. P (xs ! i)) [0..<length xs])"
    by (simp add: filter_map o_def)
  then show ?thesis by (simp add: map_nth)
qed

lemma sorted_map_pair_fst:
  fixes f :: "'a \<Rightarrow> 'b::linorder" and g :: "'a \<Rightarrow> 'c::linorder"
  shows "sorted (map (\<lambda>x. (f x, g x)) xs) \<Longrightarrow> sorted (map f xs)"
  by (induction xs) (auto simp: less_eq_prod_def dest: less_imp_le)

lemma sorted_by_name:
  "sorted (map (\<lambda>x. f x) (sort_key (\<lambda>x. (f x :: string, g x :: string)) xs))"
  by (rule sorted_map_pair_fst [where g = g]) simp

text \<open>A filtered index names its objects in the order of their names.\<close>

lemma filtered_name_index_objects:
  "map (nth objects) (build_filtered_name_index objects incl)
     = sort_key (\<lambda>obj. (obe_name_lower obj, obe_name obj)) (filter (\<lambda>obj. incl (obe_kind obj)) objects)"
  unfolding build_filtered_name_index_def
  by (simp add: map_sort_key [of "nth objects" "\<lambda>obj. (obe_name_lower obj, obe_name obj)"]
      map_nth_filter [of objects "\<lambda>obj. incl (obe_kind obj)"])

lemma column_index_columns:
  "map (column_at objects) (build_sorted_column_index objects)
     = sort_key (\<lambda>c. (cle_name_lower c, cle_name c)) (concat (map obe_columns objects))"
proof -
  have "map (column_at objects) (map (Pair i) [0..<length (obe_columns (objects ! i))])
        = map (nth (obe_columns (objects ! i))) [0..<length (obe_columns (objects ! i))]" for i
    by (simp add: column_at_def)
  then have "map (column_at objects) (concat (map (\<lambda>i. map (Pair i) [0..<length (obe_columns (objects ! i))]) [0..<length objects]))
        = concat (map (\<lambda>i. obe_columns (objects ! i)) [0..<length objects])"
    by (simp only: map_concat map_map comp_def map_nth)
  also have "map (\<lambda>i. obe_columns (objects ! i)) [0..<length objects] = map obe_columns objects"
    using arg_cong [OF map_nth [of objects], of "map obe_columns"] by (simp only: map_map comp_def)
  finally show ?thesis
    unfolding build_sorted_column_index_def
    by (simp add: map_sort_key [of "column_at objects" "\<lambda>c. (cle_name_lower c, cle_name c)"])
qed

lemma indexed_object_candidates_filter:
  assumes "index = build_filtered_name_index (dic_objects dict) incl"
  shows "indexed_object_candidates dict index prefix
       = filter (\<lambda>obj. starts_with prefix (obe_name_lower obj)) (map (nth (dic_objects dict)) index)"
proof (cases "prefix = []")
  case False
  have "sorted (map (\<lambda>i. obe_name_lower (dic_objects dict ! i)) index)"
    unfolding assms build_filtered_name_index_def by (rule sorted_by_name)
  from sorted_prefix_slice(1) [OF this, of prefix] False show ?thesis
    by (simp add: indexed_object_candidates_def Let_def filter_map o_def)
qed (simp add: indexed_object_candidates_def)

lemma indexed_columns_filter:
  assumes "dic_columns dict = build_sorted_column_index (dic_objects dict)"
  shows "indexed_columns dict prefix
       = filter (\<lambda>p. starts_with prefix (cle_name_lower (column_at (dic_objects dict) p))) (dic_columns dict)"
proof (cases "prefix = []")
  case False
  have "sorted (map (\<lambda>p. cle_name_lower (column_at (dic_objects dict) p)) (dic_columns dict))"
    unfolding assms build_sorted_column_index_def by (rule sorted_by_name)
  from sorted_prefix_slice(2) [OF this, of prefix] False show ?thesis
    by (simp add: indexed_columns_def Let_def)
next
  case True
  have "takeWhile (\<lambda>p. True) xs = xs" for xs :: "(nat \<times> nat) list" by (induction xs) auto
  with True show ?thesis by (simp add: indexed_columns_def)
qed

text \<open>
  C31: the binary searches over the sorted indexes lose nothing and add nothing: the table sources, the
  callable objects and the columns that are offered for a prefix are exactly those of the catalog
  whose lower-case name starts with it, in the order of their names. In particular an entry that
  only contains the text elsewhere in its name is never among them.
\<close>

theorem prefix_lookup_is_a_filter:
  "table_view_candidates (dictionary_of trees) prefix
     = filter (\<lambda>obj. starts_with prefix (obe_name_lower obj))
         (sort_key (\<lambda>obj. (obe_name_lower obj, obe_name obj))
           (filter (\<lambda>obj. is_table_source (obe_kind obj)) (tree_objects trees))) \<and>
   indexed_object_candidates (dictionary_of trees) (dic_routines (dictionary_of trees)) prefix
     = filter (\<lambda>obj. starts_with prefix (obe_name_lower obj))
         (sort_key (\<lambda>obj. (obe_name_lower obj, obe_name obj))
           (filter (\<lambda>obj. is_callable (obe_kind obj)) (tree_objects trees))) \<and>
   map (column_at (tree_objects trees)) (indexed_columns (dictionary_of trees) prefix)
     = filter (\<lambda>c. starts_with prefix (cle_name_lower c))
         (sort_key (\<lambda>c. (cle_name_lower c, cle_name c)) (concat (map obe_columns (tree_objects trees))))"
proof -
  let ?d = "dictionary_of trees"
  have parts: "dic_objects ?d = tree_objects trees"
    "dic_table_sources ?d = build_filtered_name_index (tree_objects trees) is_table_source"
    "dic_routines ?d = build_filtered_name_index (tree_objects trees) is_callable"
    "dic_columns ?d = build_sorted_column_index (tree_objects trees)"
    by (simp_all add: dictionary_of_def Let_def)
  have lookup: "indexed_object_candidates ?d (build_filtered_name_index (tree_objects trees) incl) prefix
      = filter (\<lambda>obj. starts_with prefix (obe_name_lower obj))
          (sort_key (\<lambda>obj. (obe_name_lower obj, obe_name obj)) (filter (\<lambda>obj. incl (obe_kind obj)) (tree_objects trees)))"
    for incl
    using indexed_object_candidates_filter [of _ ?d incl prefix]
    by (simp add: parts filtered_name_index_objects)
  have "map (column_at (tree_objects trees)) (indexed_columns ?d prefix)
      = filter (\<lambda>c. starts_with prefix (cle_name_lower c))
          (map (column_at (tree_objects trees)) (build_sorted_column_index (tree_objects trees)))"
    using indexed_columns_filter [of ?d prefix] by (simp add: parts filter_map o_def)
  with lookup show ?thesis
    by (simp add: table_view_candidates_def parts column_index_columns)
qed

section \<open>The order and the cut\<close>

lemma same_candidate_trans: "same_candidate a b \<Longrightarrow> same_candidate b c \<Longrightarrow> same_candidate a c"
  by (simp add: same_candidate_def)

lemma dedup_by_subset: "set (dedup_by same xs) \<subseteq> set xs"
  by (induction same xs rule: dedup_by.induct) auto

lemma dedup_by_hd: "hd (dedup_by same (x # xs)) = x" "dedup_by same (x # xs) \<noteq> []"
  by (induction same "x # xs" arbitrary: x xs rule: dedup_by.induct) auto

lemma dedup_by_sorted: "sorted (map f xs) \<Longrightarrow> sorted (map f (dedup_by same xs))"
proof (induction same xs rule: dedup_by.induct)
  case (1 same x y ys)
  then show ?case using dedup_by_subset [of same "y # ys"] by fastforce
qed simp_all

lemma dedup_by_adjacent: "successively (\<lambda>x y. \<not> same y x) (dedup_by same xs)"
proof (induction same xs rule: dedup_by.induct)
  case (1 same x y ys)
  then show ?case using dedup_by_hd [of same y ys] by (auto simp: successively_Cons)
qed simp_all

text \<open>
  Only neighbours are compared: two functions of one name that are both in the table and in the routine
  index, in two schemas, sort alternately and stay twice.
\<close>

lemma alternating_duplicates_stay:
  assumes "rank_key context a = rank_key context b" and "\<not> same_candidate a b"
  shows "dedup_by same_candidate (sort_key (rank_key context) [a, b, a, b]) = [a, b, a, b]"
  using assms by (auto simp: same_candidate_def)

text \<open>What is dropped is the same as something kept that ranks no lower.\<close>

lemma dedup_by_represents:
  fixes f :: "completion_candidate \<Rightarrow> 'k::linorder"
  shows "sorted (map f xs) \<Longrightarrow> c \<in> set xs \<Longrightarrow>
    \<exists>d\<in>set (dedup_by same_candidate xs). same_candidate c d \<and> f d \<le> f c"
proof (induction same_candidate xs arbitrary: c rule: dedup_by.induct)
  case (1 x y ys)
  show ?case
  proof (cases "same_candidate y x")
    case True
    from 1(3) have sorted: "sorted (map f (x # ys))" and le: "f x \<le> f y" by auto
    show ?thesis
    proof (cases "c = y")
      case True
      from 1(1) [OF \<open>same_candidate y x\<close> sorted, of x] obtain d
        where "d \<in> set (dedup_by same_candidate (x # ys))" "same_candidate x d" "f d \<le> f x" by auto
      with \<open>same_candidate y x\<close> le True show ?thesis
        using same_candidate_trans order_trans by fastforce
    next
      case False
      with 1(1) [OF \<open>same_candidate y x\<close> sorted, of c] 1(4) \<open>same_candidate y x\<close> show ?thesis by auto
    qed
  next
    case False
    with 1(2) [OF False, of c] 1(3,4) show ?thesis by (auto simp: same_candidate_def)
  qed
qed (auto simp: same_candidate_def)

lemma sorted_take_le:
  "sorted (map f xs) \<Longrightarrow> d \<in> set (drop n xs) \<Longrightarrow> e \<in> set (take n xs) \<Longrightarrow> f e \<le> f d"
  using sorted_append [of "map f (take n xs)" "map f (drop n xs)"]
  by (simp flip: map_append)

lemma take_keeps_the_best:
  assumes "sorted (map f xs)" and "d \<in> set xs"
  shows "d \<in> set (take n xs) \<or> (length (take n xs) = n \<and> (\<forall>e\<in>set (take n xs). f e \<le> f d))"
proof (cases "d \<in> set (take n xs)")
  case False
  with assms(2) have "d \<in> set (drop n xs)"
    by (metis Un_iff append_take_drop_id set_append)
  moreover from this have "n \<le> length xs" by (metis drop_all empty_iff list.set(1) nat_le_linear)
  ultimately show ?thesis using sorted_take_le [OF assms(1)] by auto
qed simp

definition offered :: "completion_analysis \<Rightarrow> dictionary \<Rightarrow> engine \<Rightarrow> nat \<Rightarrow> completion_candidate list" where
  "offered ctx dict engine limit =
     in_quotes (an_identifier_quote ctx) engine (generated ctx dict engine limit)"

lemma ranked_candidates_eq:
  "ranked_candidates ctx dict engine limit
     = take limit (dedup_by same_candidate (sort_key (rank_key (an_context ctx)) (offered ctx dict engine limit)))"
  by (simp add: ranked_candidates_def offered_def)

lemma ranked_candidates_subset: "set (ranked_candidates ctx dict engine limit) \<subseteq> set (offered ctx dict engine limit)"
  unfolding ranked_candidates_eq
  using set_take_subset dedup_by_subset set_sort by (metis (no_types, lifting) order_trans)

text \<open>
  C29: the response holds at most \<open>limit\<close> of the candidates that were produced, in the order of the
  slot's category, the score and the label, no two neighbours alike; and a candidate that was produced
  is left out only if one like it is kept, or the response is full of candidates that rank no lower.
\<close>

theorem ranking_keeps_the_best:
  "length (ranked_candidates ctx dict engine limit) \<le> limit \<and>
   set (ranked_candidates ctx dict engine limit) \<subseteq> set (offered ctx dict engine limit) \<and>
   sorted (map (rank_key (an_context ctx)) (ranked_candidates ctx dict engine limit)) \<and>
   successively (\<lambda>a b. \<not> same_candidate b a) (ranked_candidates ctx dict engine limit) \<and>
   (\<forall>c\<in>set (offered ctx dict engine limit).
      (\<exists>d\<in>set (ranked_candidates ctx dict engine limit). same_candidate c d) \<or>
      (length (ranked_candidates ctx dict engine limit) = limit \<and>
       (\<forall>d\<in>set (ranked_candidates ctx dict engine limit). rank_key (an_context ctx) d \<le> rank_key (an_context ctx) c)))"
proof (intro conjI ballI)
  let ?key = "rank_key (an_context ctx)"
  let ?sorted = "sort_key ?key (offered ctx dict engine limit)"
  show "length (ranked_candidates ctx dict engine limit) \<le> limit" by (simp add: ranked_candidates_eq)
  show "set (ranked_candidates ctx dict engine limit) \<subseteq> set (offered ctx dict engine limit)" by (rule ranked_candidates_subset)
  have sorted: "sorted (map ?key (dedup_by same_candidate ?sorted))"
    by (rule dedup_by_sorted) simp
  then show "sorted (map ?key (ranked_candidates ctx dict engine limit))"
    unfolding ranked_candidates_eq by (simp add: sorted_wrt_take flip: take_map)
  show "successively (\<lambda>a b. \<not> same_candidate b a) (ranked_candidates ctx dict engine limit)"
    unfolding ranked_candidates_eq
    using dedup_by_adjacent [of same_candidate ?sorted]
    by (metis append_take_drop_id successively_append_iff)
  fix c assume "c \<in> set (offered ctx dict engine limit)"
  then obtain d where d: "d \<in> set (dedup_by same_candidate ?sorted)" "same_candidate c d" "?key d \<le> ?key c"
    using dedup_by_represents [of ?key ?sorted c] by auto
  from take_keeps_the_best [OF sorted d(1), of limit] d(2,3)
  show "(\<exists>d\<in>set (ranked_candidates ctx dict engine limit). same_candidate c d) \<or>
      (length (ranked_candidates ctx dict engine limit) = limit \<and>
       (\<forall>d\<in>set (ranked_candidates ctx dict engine limit). ?key d \<le> ?key c))"
    unfolding ranked_candidates_eq by (meson order_trans)
qed

text \<open>A slot after \<open>public.\<close>, and a catalog of two tables in that schema.\<close>

definition demo_slot :: "completion_context \<Rightarrow> string \<Rightarrow> completion_analysis" where
  "demo_slot context prefix =
     \<lparr>an_context = context, an_cursor = 20, an_prefix_start = 20, an_replacement_end = 20,
      an_identifier_quote = None, an_prefix = prefix, an_prefix_lower = prefix, an_relations = [],
      an_join_slot = False, an_join_max_hops = 0\<rparr>"

definition demo_object :: "object_kind \<Rightarrow> string \<Rightarrow> object_info" where
  "demo_object kind name =
     \<lparr>oi_name = name, oi_kind = kind, oi_estimated_rows = None, oi_modified_at = None, oi_comment = None,
      oi_routine_args = None, oi_columns = [], oi_indexes = [], oi_constraints = [], oi_triggers = []\<rparr>"

definition demo_trees :: "catalog_tree list" where
  "demo_trees =
     [\<lparr>ct_name = ''db'', ct_schemas =
        [\<lparr>st_name = ''public'', st_objects = [demo_object KTable ''users'', demo_object KView ''user roles'']\<rparr>]\<rparr>]"

lemma demo_offered:
  "map ca_insert (offered (demo_slot (ExpectingObjectInSchema ''public'') ''us'') (dictionary_of demo_trees) Postgres 1)
     = [''users'', [CHR 0x22] @ ''user roles'' @ [CHR 0x22]]"
  by (simp add: offered_def generated_def in_quotes_def demo_slot_def dictionary_of_def tree_objects_def
      demo_trees_def demo_object_def object_entry_of_def in_named_scope_def is_table_source_def in_schema_def
      eq_ignore_case_def lower_ascii_def ascii_lower_def object_candidate_def score_match_with_lower_def
      starts_with_def object_insert_def quote_ident_if_needed_def simple_ident_def is_simple_char_def
      is_digit_def List.map_filter_simps less_eq_char_def Let_def)

theorem ranking_keeps_the_best_witness:
  "length (ranked_candidates (demo_slot (ExpectingObjectInSchema ''public'') ''us'') (dictionary_of demo_trees) Postgres 1) \<le> 1 \<and>
   (let slot = demo_slot (ExpectingObjectInSchema ''public'') ''us'';
        c = last (offered slot (dictionary_of demo_trees) Postgres 1);
        rs = ranked_candidates slot (dictionary_of demo_trees) Postgres 1
    in ca_insert c = [CHR 0x22] @ ''user roles'' @ [CHR 0x22] \<and>
       ((\<exists>d\<in>set rs. same_candidate c d) \<or> length rs = 1))"
proof -
  let ?slot = "demo_slot (ExpectingObjectInSchema ''public'') ''us''"
  let ?offered = "offered ?slot (dictionary_of demo_trees) Postgres 1"
  note best = ranking_keeps_the_best [of ?slot "dictionary_of demo_trees" Postgres 1]
  have "?offered \<noteq> []" using demo_offered by force
  then have "last ?offered \<in> set ?offered" by simp
  with best have "(\<exists>d\<in>set (ranked_candidates ?slot (dictionary_of demo_trees) Postgres 1). same_candidate (last ?offered) d)
      \<or> length (ranked_candidates ?slot (dictionary_of demo_trees) Postgres 1) = 1"
    by blast
  moreover have "ca_insert (last ?offered) = [CHR 0x22] @ ''user roles'' @ [CHR 0x22]"
    using arg_cong [OF demo_offered, of last] \<open>?offered \<noteq> []\<close> by (simp add: last_map)
  ultimately show ?thesis using best by (simp add: Let_def)
qed

end
