(* ===== verification/Completion_Insert.thy ===== *)
theory Completion_Insert
  imports Completion_Rank
begin

text \<open>
  What a completion inserts, read back: the text of an object is read by the engine as a qualified
  name that the dictionary resolves to that very object; what is offered matches what was typed; and
  an identifier the user opened with a delimiter is closed with it.
\<close>

section \<open>Reading a name\<close>

text \<open>One identifier of the engine, delimited or simple, and the dot-separated name it starts.\<close>

definition read_ident :: "engine \<Rightarrow> string \<Rightarrow> (string \<times> string) option" where
  "read_ident engine s =
     (if s \<noteq> [] \<and> hd s = open_quote engine then read_quoted (close_quote engine) (tl s)
      else if s = [] \<or> \<not> is_simple_char (hd s) \<or> is_digit (hd s) then None
      else Some (takeWhile is_simple_char s, dropWhile is_simple_char s))"

lemma read_ident_shorter: "read_ident engine s = Some (p, rest) \<Longrightarrow> length rest < length s"
proof (cases s)
  case (Cons c t)
  assume read: "read_ident engine s = Some (p, rest)"
  show ?thesis
  proof (cases "c = open_quote engine")
    case True
    with read Cons read_quoted_shorter [of "close_quote engine" t p rest] show ?thesis
      by (simp add: read_ident_def)
  next
    case False
    with read Cons have "rest = dropWhile is_simple_char t"
      by (auto simp: read_ident_def split: if_splits)
    with Cons length_dropWhile_le [of is_simple_char t] show ?thesis by simp
  qed
qed (simp add: read_ident_def)

function read_name :: "engine \<Rightarrow> string \<Rightarrow> (string list \<times> string) option" where
  "read_name engine s =
     (case read_ident engine s of
        None \<Rightarrow> None
      | Some (p, rest) \<Rightarrow>
          if rest \<noteq> [] \<and> hd rest = CHR ''.''
          then map_option (apfst (Cons p)) (read_name engine (tl rest))
          else Some ([p], rest))"
  by pat_completeness auto
termination
  by (relation "measure (\<lambda>(engine, s). length s)")
     (auto dest!: sym [of "Some _"] read_ident_shorter)

declare read_name.simps [simp del]

definition ends_ident :: "engine \<Rightarrow> string \<Rightarrow> bool" where
  "ends_ident engine rest \<longleftrightarrow> rest = [] \<or> (hd rest \<noteq> close_quote engine \<and> \<not> is_simple_char (hd rest))"

lemma dot_ends_ident [simp]: "ends_ident engine (CHR ''.'' # s)"
  by (cases engine) (simp_all add: ends_ident_def close_quote_def is_simple_char_def is_digit_def less_eq_char_def)

lemma open_quote_not_simple: "\<not> is_simple_char (open_quote engine)"
  by (cases engine) (simp_all add: open_quote_def is_simple_char_def is_digit_def less_eq_char_def)

lemma if_needed_delimited:
  "quote_ident_if_needed name engine = (if simple_ident name then name else delimited engine name)"
  by (cases engine) (simp_all add: quote_ident_if_needed_def delimited_def open_quote_def close_quote_def)

lemma read_quoted_ident:
  assumes "ends_ident engine rest"
  shows "read_ident engine (quote_ident_if_needed name engine @ rest) = Some (name, rest)"
proof (cases "simple_ident name")
  case True
  then obtain c t where name: "name = c # t" and simple: "is_simple_char c" "\<forall>c\<in>set t. is_simple_char c"
      and digit: "\<not> is_digit c"
    by (cases name) (auto simp: simple_ident_def list_all_iff)
  have "c \<noteq> open_quote engine" using simple(1) open_quote_not_simple by metis
  moreover have "takeWhile is_simple_char (t @ rest) = t" "dropWhile is_simple_char (t @ rest) = rest"
    using simple(2) assms by (cases rest; auto simp: ends_ident_def takeWhile_append dropWhile_append)+
  ultimately show ?thesis
    using simple(1) digit True by (simp add: if_needed_delimited read_ident_def name)
next
  case False
  have "\<And>s. rest \<noteq> close_quote engine # s" using assms by (auto simp: ends_ident_def)
  from read_delimited [OF this, of name] False show ?thesis
    by (simp add: if_needed_delimited read_ident_def delimited_def)
qed

lemma read_name_last:
  "ends_ident engine rest \<Longrightarrow> (rest = [] \<or> hd rest \<noteq> CHR ''.'') \<Longrightarrow>
    read_name engine (quote_ident_if_needed name engine @ rest) = Some ([name], rest)"
  by (subst read_name.simps) (auto simp: read_quoted_ident)

lemma read_name_dot:
  "read_name engine (quote_ident_if_needed name engine @ CHR ''.'' # s)
     = map_option (apfst (Cons name)) (read_name engine s)"
  by (subst read_name.simps) (simp add: read_quoted_ident)

section \<open>The object a name resolves to\<close>

definition resolve_parts :: "dictionary \<Rightarrow> string list \<Rightarrow> object_entry option" where
  "resolve_parts dict parts =
     (case parts of
        [name] \<Rightarrow> resolve_by_name dict name
      | [schema, name] \<Rightarrow> resolve_qualified dict schema name
      | [catalog, schema, name] \<Rightarrow>
          map_option (\<lambda>i. dic_objects dict ! i)
            (dic_by_catalog_qualified dict (lower_ascii catalog, lower_ascii schema, lower_ascii name))
      | _ \<Rightarrow> None)"

lemma resolve_name_reference_parts: "resolve_name_reference dict reference = resolve_parts dict (split_on CHR ''.'' reference)"
  by (simp add: resolve_name_reference_def resolve_parts_def)

text \<open>The objects of a catalog that share a place and a name, whatever the case.\<close>

definition same_entry :: "object_entry \<Rightarrow> object_entry \<Rightarrow> bool" where
  "same_entry other obj \<longleftrightarrow>
     same_object_location other obj \<and> eq_ignore_case (obe_name other) (obe_name obj)"

lemma map_positions: "map (nth xs) (positions p xs) = filter p xs"
  by (simp add: positions_def map_nth_filter)

lemma positions_cong:
  "(\<And>x. x \<in> set xs \<Longrightarrow> p x = q x) \<Longrightarrow> positions p xs = positions q xs"
  unfolding positions_def by (intro filter_cong refl) simp

lemma tree_objects_placed:
  "obj \<in> set (tree_objects trees) \<Longrightarrow>
     \<exists>c s. obe_catalog obj = Some c \<and> obe_schema obj = Some s \<and> obe_name_lower obj = lower_ascii (obe_name obj)"
  by (auto simp: tree_objects_def object_entry_of_def)

lemma dictionary_of_parts:
  "dic_objects (dictionary_of trees) = tree_objects trees"
  "dic_by_name (dictionary_of trees) n = some_list (positions (\<lambda>obj. lower_ascii (obe_name obj) = n) (tree_objects trees))"
  "dic_by_qualified (dictionary_of trees) (s, n)
     = some_list (positions (\<lambda>obj. map_option lower_ascii (obe_schema obj) = Some s \<and> lower_ascii (obe_name obj) = n)
         (tree_objects trees))"
  "dic_by_catalog_qualified (dictionary_of trees) (c, s, n) = last_option (positions (at_location c s n) (tree_objects trees))"
  by (simp_all add: dictionary_of_def Let_def build_name_index_positions build_qualified_index_positions
      build_catalog_qualified_index_positions)

lemma elsewhere_iff:
  assumes "obj \<in> set (tree_objects trees)" and "obe_name_lower obj = lower_ascii (obe_name obj)"
  shows "same_schema_elsewhere (dictionary_of trees) obj schema
           (positions (\<lambda>other. lower_ascii (obe_name other) = lower_ascii (obe_name obj)) (tree_objects trees))
     \<longleftrightarrow> (\<exists>other\<in>set (tree_objects trees). lower_ascii (obe_name other) = lower_ascii (obe_name obj)
            \<and> \<not> same_object_location other obj \<and> in_schema schema other)"
  by (auto simp: same_schema_elsewhere_def dictionary_of_parts map_positions list_ex_iff)

lemma object_insert_tree:
  assumes "obj \<in> set (tree_objects trees)" and "obe_catalog obj = Some c" and "obe_schema obj = Some s"
  shows "object_insert obj (dictionary_of trees) engine False
     = (if \<exists>other\<in>set (tree_objects trees). lower_ascii (obe_name other) = lower_ascii (obe_name obj)
            \<and> \<not> same_object_location other obj \<and> in_schema s other
        then quote_ident_if_needed c engine @ ''.'' else '''')
       @ quote_ident_if_needed s engine @ ''.'' @ quote_ident_if_needed (obe_name obj) engine"
proof -
  have lower: "obe_name_lower obj = lower_ascii (obe_name obj)"
    using tree_objects_placed [OF assms(1)] by blast
  let ?found = "positions (\<lambda>other. lower_ascii (obe_name other) = lower_ascii (obe_name obj)) (tree_objects trees)"
  have "?found \<noteq> []"
    using assms(1) map_positions [of "tree_objects trees" "\<lambda>other. lower_ascii (obe_name other) = lower_ascii (obe_name obj)"]
    by (metis (mono_tags, lifting) filter_empty_conv list.map_disc_iff)
  then show ?thesis
    using elsewhere_iff [OF assms(1) lower, of s]
    by (simp add: object_insert_def Let_def assms lower dictionary_of_parts some_list_def)
qed

lemma sole_position:
  assumes "filter p xs = [x]"
  obtains i where "positions p xs = [i]" and "xs ! i = x"
  using assms map_positions [of xs p] by (metis (no_types, lifting) list.map_disc_iff list.simps(9) map_eq_Cons_D)



end
