(* ===== verification/Completion_Relevance.thy ===== *)
theory Completion_Relevance
  imports Completion_Insert
begin

text \<open>
  What a completion offers for a catalog's dictionary matches what was typed: every producer of
  \<^verbatim>\<open>crates/completion/src/rank.rs\<close> keeps only labels that hold the typed text, whatever their case,
  and an identifier the user opened with a delimiter is closed with it.
\<close>

section \<open>Text in text\<close>

lemma starts_with_iff: "starts_with p s \<longleftrightarrow> (\<exists>b. s = p @ b)"
  by (metis append_take_drop_id starts_with_append starts_with_def)

lemma contains_text_iff: "contains_text p s \<longleftrightarrow> (\<exists>a b. s = a @ p @ b)"
proof (induction s)
  case (Cons c s)
  have "(\<exists>a b. c # s = a @ p @ b) \<longleftrightarrow> (\<exists>b. c # s = p @ b) \<or> (\<exists>a b. s = a @ p @ b)"
    by (metis append_Cons append_Nil append_eq_Cons_conv)
  with Cons show ?case by (simp add: starts_with_iff)
qed simp

lemma starts_with_contains: "starts_with p s \<Longrightarrow> contains_text p s"
  by (metis append_Nil contains_text_iff starts_with_iff)

lemma ascii_lower_idem [simp]: "ascii_lower (ascii_lower c) = ascii_lower c"
  by (simp add: ascii_lower_def Let_def of_char_of)

lemma lower_ascii_append: "lower_ascii (a @ b) = lower_ascii a @ lower_ascii b"
  by (simp add: lower_ascii_def)

lemma lower_ascii_idem [simp]: "lower_ascii (lower_ascii s) = lower_ascii s"
  by (simp add: lower_ascii_def)

definition holds_text :: "string \<Rightarrow> string \<Rightarrow> bool" where
  "holds_text prefix s = contains_text (lower_ascii prefix) (lower_ascii s)"

lemma holds_text_part: "s = a @ prefix @ b \<Longrightarrow> holds_text prefix s"
  by (auto simp: holds_text_def contains_text_iff lower_ascii_append)

lemma holds_text_lower:
  assumes "lower_ascii s = a @ prefix @ b"
  shows "holds_text prefix s"
  using holds_text_part [OF assms] by (simp add: holds_text_def)

lemma score_match_holds: "score_match s prefix = Some n \<Longrightarrow> holds_text prefix s"
proof -
  assume "score_match s prefix = Some n"
  then consider "prefix = []" | "starts_with prefix s" | "starts_with_ignore_case s prefix"
    | "contains_ignore_case s prefix"
    by (auto simp: score_match_def split: if_splits)
  then show ?thesis
  proof cases
    case 1
    then show ?thesis using holds_text_part [of s "[]" prefix s] by simp
  next
    case 2
    then show ?thesis using holds_text_part [of s "[]"] by (auto simp: starts_with_iff)
  next
    case 3
    then have "lower_ascii (take (length prefix) s) = lower_ascii prefix"
      by (simp add: starts_with_ignore_case_def eq_ignore_case_def)
    then have "lower_ascii s = [] @ lower_ascii prefix @ lower_ascii (drop (length prefix) s)"
      by (metis append_Nil append_take_drop_id lower_ascii_append)
    then show ?thesis unfolding holds_text_def contains_text_iff by blast
  next
    case 4
    then show ?thesis by (simp add: contains_ignore_case_def holds_text_def)
  qed
qed

lemma score_match_with_lower_holds:
  assumes "score_match_with_lower s (lower_ascii s) prefix = Some n"
  shows "holds_text prefix s"
proof -
  from assms consider "prefix = []" | "starts_with prefix s" | "contains_text prefix (lower_ascii s)"
    by (auto simp: score_match_with_lower_def split: if_splits dest: starts_with_contains)
  then show ?thesis
  proof cases
    case 1
    then show ?thesis using holds_text_part [of s "[]" prefix s] by simp
  next
    case 2
    then show ?thesis using holds_text_part [of s "[]"] by (auto simp: starts_with_iff)
  next
    case 3
    then show ?thesis using holds_text_lower by (auto simp: contains_text_iff)
  qed
qed

section \<open>The producers\<close>

abbreviation all_hold :: "string \<Rightarrow> completion_candidate list \<Rightarrow> bool" where
  "all_hold prefix \<equiv> list_all (\<lambda>c. holds_text prefix (ca_label c))"

lemma list_all_map_filter: "(\<And>x y. x \<in> set xs \<Longrightarrow> f x = Some y \<Longrightarrow> P y) \<Longrightarrow> list_all P (List.map_filter f xs)"
  by (induction xs) (auto simp: List.map_filter_simps split: option.splits)

lemma list_all_matched:
  "(\<And>x n. x \<in> set xs \<Longrightarrow> score x = Some n \<Longrightarrow> P (cand x n)) \<Longrightarrow> list_all P (matched score cand xs)"
  unfolding matched_def by (rule list_all_map_filter) auto

lemma words_hold:
  "all_hold prefix (push_keywords engine prefix bonus)"
  "all_hold prefix (push_functions engine prefix bonus)"
  "all_hold prefix (push_schemas dict prefix bonus)"
  "all_hold prefix (push_local_columns columns prefix bonus)"
  "all_hold prefix (push_local_relations ctx prefix bonus)"
proof -
  have "all_hold prefix (concat (map (matched (\<lambda>kw. score_match kw prefix)
         (\<lambda>kw match_score. word_candidate CKeyword kw None kw (match_score + bonus))) groups))" for groups
    by (induction groups) (auto intro!: list_all_matched simp: word_candidate_def score_match_holds)
  then show "all_hold prefix (push_keywords engine prefix bonus)" by (simp only: push_keywords_def)
qed (auto intro!: list_all_matched simp: push_functions_def push_schemas_def push_local_columns_def
    push_local_relations_def word_candidate_def score_match_holds)

text \<open>The lower-case names of a dictionary are those of its entries.\<close>

definition lowered :: "object_entry \<Rightarrow> bool" where
  "lowered obj \<longleftrightarrow> obe_name_lower obj = lower_ascii (obe_name obj)
     \<and> (\<forall>c\<in>set (obe_columns obj). cle_name_lower c = lower_ascii (cle_name c))"

lemma tree_objects_lowered: "obj \<in> set (tree_objects trees) \<Longrightarrow> lowered obj"
  by (auto simp: tree_objects_def object_entry_of_def lowered_def column_entry_of_def)

lemma objects_hold:
  assumes "\<And>obj. obj \<in> set objs \<Longrightarrow> lowered obj"
  shows "all_hold prefix (List.map_filter (\<lambda>obj. object_candidate obj dict prefix engine bonus typed) objs)"
  by (rule list_all_map_filter)
     (use assms in \<open>auto simp: object_candidate_def lowered_def score_match_with_lower_holds\<close>)

lemma columns_hold: "lowered obj \<Longrightarrow> all_hold prefix (push_columns obj prefix bonus)"
  unfolding push_columns_def
  by (rule list_all_matched) (auto simp: column_candidate_def lowered_def score_match_with_lower_holds)

lemma indexed_objects_of_tree:
  "set (indexed_object_candidates (dictionary_of trees) (build_filtered_name_index (tree_objects trees) incl) prefix)
     \<subseteq> set (tree_objects trees)"
  using indexed_object_candidates_filter [of _ "dictionary_of trees" incl prefix]
  by (auto simp: dictionary_of_parts filtered_name_index_objects)

lemma indexed_columns_of_tree:
  assumes "p \<in> set (indexed_columns (dictionary_of trees) prefix)"
  shows "fst p < length (tree_objects trees)"
    and "column_at (tree_objects trees) p \<in> set (obe_columns (tree_objects trees ! fst p))"
proof -
  have columns: "dic_columns (dictionary_of trees) = build_sorted_column_index (tree_objects trees)"
    by (simp add: dictionary_of_def Let_def)
  have "p \<in> set (build_sorted_column_index (tree_objects trees))"
    using assms indexed_columns_filter [of "dictionary_of trees" prefix]
    by (simp add: columns dictionary_of_parts)
  then show "fst p < length (tree_objects trees)"
    and "column_at (tree_objects trees) p \<in> set (obe_columns (tree_objects trees ! fst p))"
    by (auto simp: build_sorted_column_index_def column_at_def)
qed

lemma all_columns_hold: "all_hold prefix (push_all_columns (dictionary_of trees) prefix bonus budget)"
  unfolding push_all_columns_def
proof (rule list_all_matched)
  fix p n
  assume p: "p \<in> set (take budget (indexed_columns (dictionary_of trees) prefix))"
    and score: "(let c = column_at (dic_objects (dictionary_of trees)) p
       in score_match_with_lower (cle_name c) (cle_name_lower c) prefix) = Some n"
  note col = indexed_columns_of_tree [OF in_set_takeD [OF p]]
  from tree_objects_lowered [OF nth_mem [OF col(1)]] col(2)
  have "cle_name_lower (column_at (tree_objects trees) p) = lower_ascii (cle_name (column_at (tree_objects trees) p))"
    by (simp add: lowered_def)
  with score show "holds_text prefix (ca_label (column_candidate (column_at (dic_objects (dictionary_of trees)) p)
      (dic_objects (dictionary_of trees) ! fst p) (n + bonus)))"
    by (simp add: Let_def dictionary_of_parts column_candidate_def score_match_with_lower_holds)
qed

lemma sole_object_in:
  assumes "sole_object dict (some_list (positions p (dic_objects dict))) = Some obj"
  shows "obj \<in> set (dic_objects dict)"
  using assms positions_upto [OF refl, of _ p "dic_objects dict"]
  by (auto simp: sole_object_def some_list_def split: if_splits list.splits)

lemma resolve_name_reference_in:
  assumes "resolve_name_reference (dictionary_of trees) reference = Some obj"
  shows "obj \<in> set (tree_objects trees)"
proof -
  let ?d = "dictionary_of trees"
  have one: "resolve_by_name ?d name = Some obj \<Longrightarrow> ?thesis" for name
    using sole_object_in [of ?d] by (simp add: resolve_by_name_def dictionary_of_parts)
  have two: "resolve_qualified ?d schema name = Some obj \<Longrightarrow> ?thesis" for schema name
    using sole_object_in [of ?d] by (simp add: resolve_qualified_def dictionary_of_parts)
  have three: "last_option (positions q (tree_objects trees)) = Some i \<Longrightarrow> tree_objects trees ! i = obj \<Longrightarrow> ?thesis" for q i
    using positions_upto [OF refl, of i q "tree_objects trees"]
    by (auto simp: last_option_def split: if_splits)
  show ?thesis
    using assms one two three
    by (auto simp: resolve_name_reference_def dictionary_of_parts split: list.splits)
qed

lemma relation_columns_hold: "all_hold prefix (fst (push_relation_columns ctx (dictionary_of trees) prefix bonus))"
proof -
  have inv: "case fold (relation_step (dictionary_of trees) prefix bonus) rs (out, resolved, found) of
        (out', resolved', _) \<Rightarrow> all_hold prefix out' \<and> set resolved' \<subseteq> set (tree_objects trees)"
    if "all_hold prefix out" and "set resolved \<subseteq> set (tree_objects trees)" for rs out resolved found
    using that
  proof (induction rs arbitrary: out resolved found)
    case (Cons r rs)
    obtain out' resolved' found' where now:
      "relation_step (dictionary_of trees) prefix bonus r (out, resolved, found) = (out', resolved', found')"
      by (metis prod_cases3)
    with Cons.prems words_hold(4) resolve_name_reference_in
    have "all_hold prefix out'" and "set resolved' \<subseteq> set (tree_objects trees)"
      by (auto simp: relation_step_def split: if_splits option.splits)
    with Cons.IH now show ?case by simp
  qed simp
  have "all_hold prefix (concat (map (\<lambda>obj. push_columns obj prefix bonus) resolved))"
    if "set resolved \<subseteq> set (tree_objects trees)" for resolved
    using that by (induction resolved) (auto simp: columns_hold tree_objects_lowered)
  with inv [of "[]" "[]" "filter (\<lambda>r. \<not> rel_is_alias r) (an_relations ctx)" False] show ?thesis
    by (simp add: push_relation_columns_def split: prod.splits)
qed

lemma qualified_columns_hold:
  "all_hold (an_prefix_lower ctx) (qualified_columns ctx (dictionary_of trees) engine budget q)"
  using words_hold all_columns_hold columns_hold [OF tree_objects_lowered [OF resolve_name_reference_in]]
  by (auto simp: qualified_columns_def Let_def split: option.splits)

lemma generated_hold: "all_hold (an_prefix_lower ctx) (generated ctx (dictionary_of trees) engine limit)"
proof -
  let ?d = "dictionary_of trees" and ?prefix = "an_prefix_lower ctx"
  have index: "dic_table_sources ?d = build_filtered_name_index (tree_objects trees) is_table_source"
    "dic_routines ?d = build_filtered_name_index (tree_objects trees) is_callable"
    by (simp_all add: dictionary_of_def Let_def)
  have tables: "all_hold ?prefix (push_tables_and_views ?d ?prefix engine bonus budget)" for bonus budget
    unfolding push_tables_and_views_def table_view_candidates_def index
    by (rule objects_hold) (rule tree_objects_lowered [OF subsetD [OF indexed_objects_of_tree in_set_takeD]])
  have routines: "all_hold ?prefix (push_routines ?d ?prefix engine bonus budget)" for bonus budget
    unfolding push_routines_def index
    by (rule objects_hold) (rule tree_objects_lowered [OF subsetD [OF indexed_objects_of_tree in_set_takeD]])
  have scope: "all_hold ?prefix (List.map_filter (\<lambda>obj. object_candidate obj ?d ?prefix engine 80 True)
      (filter (in_named_scope schema) (dic_objects ?d)))" for schema
    by (rule objects_hold) (auto simp: dictionary_of_parts tree_objects_lowered)
  show ?thesis
  proof (cases "an_context ctx")
    case (ExpectingColumn q)
    then show ?thesis
      using words_hold all_columns_hold qualified_columns_hold relation_columns_hold [of ?prefix ctx trees 70]
      by (cases q) (auto simp: generated_def Let_def split: prod.splits)
  qed (use tables routines scope words_hold all_columns_hold in \<open>simp_all add: generated_def Let_def\<close>)
qed

section \<open>The response\<close>

text \<open>What the insert of a candidate is inside an identifier opened with a delimiter.\<close>

definition closes :: "char \<Rightarrow> completion_candidate \<Rightarrow> bool" where
  "closes opens c =
     (let closing = (if opens = CHR ''['' then CHR 0x5D else opens)
      in \<exists>qualifier. ca_insert c = qualifier @ [opens] @ replace_char closing [closing, closing] (ca_label c) @ [closing])"

lemma requote_closes: "closes opens (requote opens engine c)" "ca_label (requote opens engine c) = ca_label c"
  "ca_kind (requote opens engine c) = ca_kind c"
proof -
  show "closes opens (requote opens engine c)"
    by (cases "strip_suffix (quote_ident_if_needed (ca_label c) engine) (ca_insert c)")
       (auto simp: closes_def requote_def Let_def)
qed (simp_all add: requote_def Let_def)

lemma offered_hold: "all_hold (an_prefix_lower ctx) (offered ctx (dictionary_of trees) engine limit)"
  using generated_hold [of ctx trees engine limit]
  by (auto simp: offered_def in_quotes_def list_all_iff requote_closes split: option.splits)

text \<open>
  Every candidate of a response holds the typed text in its label, whatever the case; and inside
  an identifier the user opened with a delimiter no keyword or function is offered, and the insert
  ends with the label between that delimiter and the one that closes it, doubled within.
\<close>

theorem responses_match_what_is_typed:
  "list_all (\<lambda>c. contains_text (lower_ascii (an_prefix_lower ctx)) (lower_ascii (ca_label c)))
     (ranked_candidates ctx (dictionary_of trees) engine limit) \<and>
   (case an_identifier_quote ctx of
      None \<Rightarrow> True
    | Some opens \<Rightarrow>
        list_all (\<lambda>c. ca_kind c \<notin> {CKeyword, CFunction, CSnippet} \<and> closes opens c)
          (ranked_candidates ctx (dictionary_of trees) engine limit))"
proof
  show "list_all (\<lambda>c. contains_text (lower_ascii (an_prefix_lower ctx)) (lower_ascii (ca_label c)))
     (ranked_candidates ctx (dictionary_of trees) engine limit)"
    using offered_hold [of ctx trees engine limit] ranked_candidates_subset [of ctx "dictionary_of trees" engine limit]
    by (auto simp: list_all_iff holds_text_def)
  show "case an_identifier_quote ctx of
      None \<Rightarrow> True
    | Some opens \<Rightarrow>
        list_all (\<lambda>c. ca_kind c \<notin> {CKeyword, CFunction, CSnippet} \<and> closes opens c)
          (ranked_candidates ctx (dictionary_of trees) engine limit)"
  proof (cases "an_identifier_quote ctx")
    case (Some opens)
    then have "ca_kind c \<notin> {CKeyword, CFunction, CSnippet} \<and> closes opens c"
      if "c \<in> set (offered ctx (dictionary_of trees) engine limit)" for c
      using that by (auto simp: offered_def in_quotes_def requote_closes)
    with Some ranked_candidates_subset [of ctx "dictionary_of trees" engine limit] show ?thesis
      by (auto simp: list_all_iff)
  qed simp
qed

end
