(* ===== verification/Join_Paths.thy ===== *)
theory Join_Paths
  imports Completion_Types Completion_Dictionary Catalog_Types
begin

text \<open>
  The joins a completion offers after \<^verbatim>\<open>JOIN\<close>: \<^verbatim>\<open>crates/completion/src/joins.rs\<close>, a breadth-first
  search over the foreign keys of the catalog graph with a bound on the edges it looks at. The lemmas
  show that whatever is offered spells out a chain of catalog-proven foreign keys.
\<close>

section \<open>Edges\<close>

record join_edge =
  je_from :: catalog_node
  je_to :: catalog_node
  je_pairs :: "(string \<times> string) list"

text \<open>The nodes by identifier; of nodes with the same one the last is found.\<close>

definition join_nodes :: "catalog_node list \<Rightarrow> string \<rightharpoonup> catalog_node" where
  "join_nodes nodes = map_of (rev (map (\<lambda>node. (cn_id node, node)) nodes))"

definition join_parent :: "(string \<rightharpoonup> catalog_node) \<Rightarrow> catalog_node \<Rightarrow> catalog_node option" where
  "join_parent nodes node = Option.bind (cn_parent_id node) nodes"

definition join_pair_names ::
    "(string \<rightharpoonup> catalog_node) \<Rightarrow> catalog_node \<Rightarrow> catalog_node \<Rightarrow> string \<times> string \<Rightarrow> (string \<times> string) option" where
  "join_pair_names nodes from to pair =
     (case (nodes (fst pair), nodes (snd pair)) of
        (Some source, Some target) \<Rightarrow>
          if cn_kind source = NodeColumn \<and> cn_kind target = NodeColumn
             \<and> cn_parent_id source = Some (cn_id from) \<and> cn_parent_id target = Some (cn_id to)
          then Some (cn_name source, cn_name target) else None
      | _ \<Rightarrow> None)"

text \<open>\<^verbatim>\<open>collect::<Option<Vec<_>>>()\<close>.\<close>

fun all_some :: "'a option list \<Rightarrow> 'a list option" where
  "all_some [] = Some []"
| "all_some (None # xs) = None"
| "all_some (Some x # xs) = map_option (Cons x) (all_some xs)"

text \<open>A foreign key the catalog has proven can be followed from either side.\<close>

definition edge_joins :: "(string \<rightharpoonup> catalog_node) \<Rightarrow> catalog_edge \<Rightarrow> join_edge list" where
  "edge_joins nodes edge =
     (if ce_kind edge \<noteq> EdgeForeignKey \<or> ce_certainty edge \<noteq> CatalogProven \<or> ce_column_pairs edge = [] then []
      else (case nodes (ce_from edge) of
          None \<Rightarrow> []
        | Some con \<Rightarrow>
            (case (join_parent nodes con, Option.bind (ce_to edge) nodes) of
               (Some from, Some to) \<Rightarrow>
                 (case all_some (map (join_pair_names nodes from to) (ce_column_pairs edge)) of
                    None \<Rightarrow> []
                  | Some pairs \<Rightarrow>
                      [\<lparr>je_from = from, je_to = to, je_pairs = pairs\<rparr>,
                       \<lparr>je_from = to, je_to = from, je_pairs = map (\<lambda>(a, b). (b, a)) pairs\<rparr>])
             | _ \<Rightarrow> [])))"

definition join_edges :: "catalog_graph_data \<Rightarrow> join_edge list" where
  "join_edges graph =
     sort_key (\<lambda>e. (cn_qualified_name (je_from e), cn_qualified_name (je_to e), je_pairs e))
       (concat (map (edge_joins (join_nodes (cg_nodes graph))) (cg_edges graph)))"

section \<open>Texts\<close>

definition quote_always :: "engine \<Rightarrow> string \<Rightarrow> string" where
  "quote_always engine name =
     (case engine of
        SqlServer \<Rightarrow> ''['' @ replace_char (CHR 0x5D) '']]'' name @ '']''
      | _ \<Rightarrow> [CHR 0x22] @ replace_char (CHR 0x22) [CHR 0x22, CHR 0x22] name @ [CHR 0x22])"

definition qualified_table :: "(string \<rightharpoonup> catalog_node) \<Rightarrow> engine \<Rightarrow> catalog_node \<Rightarrow> string option" where
  "qualified_table nodes engine node =
     (case join_parent nodes node of
        None \<Rightarrow> None
      | Some schema \<Rightarrow>
          if cn_kind schema \<noteq> NodeSchema then None
          else Some (quote_always engine (cn_name schema) @ ''.'' @ quote_always engine (cn_name node)))"

text \<open>The first alias no relation of the statement has: underscores are appended until it is free.\<close>

definition alias_taken :: "completion_relation list \<Rightarrow> string \<Rightarrow> bool" where
  "alias_taken rels alias = list_ex (\<lambda>r. eq_ignore_case (rel_name r) alias) rels"

lemma eq_ignore_case_length: "eq_ignore_case a b \<Longrightarrow> length a = length b"
  unfolding eq_ignore_case_def lower_ascii_def by (metis length_map)

function free_alias :: "completion_relation list \<Rightarrow> string \<Rightarrow> string" where
  "free_alias rels alias = (if alias_taken rels alias then free_alias rels (alias @ ''_'') else alias)"
  by pat_completeness auto
termination
proof (relation "measure (\<lambda>(rels, alias). length (filter (\<lambda>r. length alias \<le> length (rel_name r)) rels))")
  fix rels al
  assume "alias_taken rels al"
  then obtain r where r: "r \<in> set rels" "length (rel_name r) = length al"
    using eq_ignore_case_length by (auto simp: alias_taken_def list_ex_iff)
  have "length (filter (\<lambda>r. Suc (length al) \<le> length (rel_name r)) rels)
      < length (filter (\<lambda>r. length al \<le> length (rel_name r)) rels)"
    using r
  proof (induction rels)
    case (Cons x xs)
    have "length (filter (\<lambda>r. Suc (length al) \<le> length (rel_name r)) ys)
        \<le> length (filter (\<lambda>r. length al \<le> length (rel_name r)) ys)" for ys :: "completion_relation list"
      by (induction ys) auto
    with Cons show ?case by (cases "r = x") (auto simp: less_Suc_eq_le)
  qed simp
  then show "((rels, al @ ''_''), rels, al)
      \<in> measure (\<lambda>(rels, alias). length (filter (\<lambda>r. length alias \<le> length (rel_name r)) rels))"
    by simp
qed simp

declare free_alias.simps [simp del]

definition join_alias :: "completion_relation list \<Rightarrow> nat \<Rightarrow> string" where
  "join_alias rels hop = free_alias rels (''sift_join_'' @ show_nat hop)"

definition hop_text :: "engine \<Rightarrow> string \<Rightarrow> string \<Rightarrow> string \<Rightarrow> join_edge \<Rightarrow> string" where
  "hop_text engine qualifier table alias e =
     table @ '' AS '' @ alias @ '' ON ''
       @ join_with '' AND ''
           (map (\<lambda>(from, to). qualifier @ ''.'' @ quote_always engine from @ '' = ''
                   @ alias @ ''.'' @ quote_always engine to) (je_pairs e))"

section \<open>Where the search starts\<close>

definition is_joinable :: "catalog_node_kind \<Rightarrow> bool" where
  "is_joinable kind \<longleftrightarrow> kind \<in> {NodeTable, NodePartitionedTable, NodeForeignTable}"

definition refers_to :: "(string \<rightharpoonup> catalog_node) \<Rightarrow> string \<Rightarrow> catalog_node \<Rightarrow> bool" where
  "refers_to nodes reference node \<longleftrightarrow>
     is_joinable (cn_kind node) \<and>
       (eq_ignore_case (cn_qualified_name node) reference
        \<or> (case join_parent nodes node of
             None \<Rightarrow> False
           | Some schema \<Rightarrow> eq_ignore_case (cn_name schema @ ''.'' @ cn_name node) reference)
        \<or> (CHR ''.'' \<notin> set reference \<and> eq_ignore_case (cn_name node) reference))"

text \<open>A relation that is the target of an alias is left to the alias; an ambiguous one is left out.\<close>

definition relation_start :: "completion_relation list \<Rightarrow> catalog_graph_data \<Rightarrow> completion_relation \<Rightarrow> catalog_node option" where
  "relation_start rels graph r =
     (case rel_target r of
        None \<Rightarrow> None
      | Some reference \<Rightarrow>
          if \<not> rel_is_alias r \<and> list_ex (\<lambda>other. rel_is_alias other \<and> rel_target other = Some reference) rels then None
          else (case filter (refers_to (join_nodes (cg_nodes graph)) reference) (cg_nodes graph) of
                  [node] \<Rightarrow> Some node
                | _ \<Rightarrow> None))"

definition join_starts :: "completion_analysis \<Rightarrow> catalog_graph_data \<Rightarrow> engine \<Rightarrow> (catalog_node \<times> string) list" where
  "join_starts ctx graph engine =
     List.map_filter (\<lambda>r. map_option (\<lambda>node. (node, quote_always engine (rel_name r)))
         (relation_start (an_relations ctx) graph r)) (an_relations ctx)"

section \<open>The search\<close>

record join_item =
  ji_node :: catalog_node
  ji_qualifier :: string
  ji_visited :: "string list"
  ji_sql :: string

record join_search =
  jo_out :: "completion_candidate list"
  jo_work :: nat
  jo_queue :: "join_item list"

definition max_join_work :: nat where "max_join_work = 2048"

text \<open>What a search looks at besides its state.\<close>

record join_world =
  jw_ctx :: completion_analysis
  jw_engine :: engine
  jw_nodes :: "string \<rightharpoonup> catalog_node"
  jw_cap :: nat

definition join_candidate :: "catalog_node \<Rightarrow> nat \<Rightarrow> string \<Rightarrow> completion_candidate" where
  "join_candidate to hops ins =
     \<lparr>ca_label = cn_qualified_name to @ '' ('' @ show_nat hops @ ''-hop JOIN)'',
      ca_insert = ins, ca_kind = CTable,
      ca_detail = Some ''Catalog-proven foreign key; review JOIN before execution'',
      ca_qualified_name = Some (cn_qualified_name to), ca_score = 2000 - int hops * 100\<rparr>"

text \<open>One edge of the item's node; on the left the search has returned its candidates.\<close>

definition follow_edge :: "join_world \<Rightarrow> join_item \<Rightarrow> join_edge \<Rightarrow> join_search \<Rightarrow> completion_candidate list + join_search" where
  "follow_edge w item e s =
     (let work = jo_work s + 1; s = s\<lparr>jo_work := work\<rparr>; hops = length (ji_visited item)
      in if work > max_join_work then Inl (jo_out s)
         else if cn_id (je_to e) \<in> set (ji_visited item) \<and> \<not> (hops = 1 \<and> cn_id (je_to e) = cn_id (ji_node item))
         then Inr s
         else (let alias = join_alias (an_relations (jw_ctx w)) hops
               in case qualified_table (jw_nodes w) (jw_engine w) (je_to e) of
                    None \<Rightarrow> Inr s
                  | Some table \<Rightarrow>
                      let ins = ji_sql item @ (if ji_sql item = [] then '''' else '' JOIN '')
                                  @ hop_text (jw_engine w) (ji_qualifier item) table alias e;
                          matches = contains_text (an_prefix_lower (jw_ctx w)) (lower_ascii (cn_name (je_to e)));
                          out = (if matches then jo_out s @ [join_candidate (je_to e) hops ins] else jo_out s)
                      in if matches \<and> length out \<ge> jw_cap w then Inl out
                         else if cn_id (je_to e) = cn_id (ji_node item) then Inr (s\<lparr>jo_out := out\<rparr>)
                         else Inr (s\<lparr>jo_out := out,
                                jo_queue := jo_queue s @
                                  [\<lparr>ji_node = je_to e, ji_qualifier = alias,
                                    ji_visited = ji_visited item @ [cn_id (je_to e)], ji_sql = ins\<rparr>]\<rparr>)))"

fun follow_edges :: "join_world \<Rightarrow> join_item \<Rightarrow> join_edge list \<Rightarrow> join_search \<Rightarrow> completion_candidate list + join_search" where
  "follow_edges w item [] s = Inr s"
| "follow_edges w item (e # es) s =
     (case follow_edge w item e s of Inl out \<Rightarrow> Inl out | Inr s' \<Rightarrow> follow_edges w item es s')"

text \<open>Every item that is queued has cost an edge of the bound, so the search ends.\<close>

lemma follow_edge_measure:
  "follow_edge w item e s = Inr s' \<Longrightarrow>
     length (jo_queue s') + (max_join_work - jo_work s') \<le> length (jo_queue s) + (max_join_work - jo_work s)"
  by (auto simp: follow_edge_def Let_def split: if_splits option.splits)

lemma follow_edges_measure:
  "follow_edges w item es s = Inr s' \<Longrightarrow>
     length (jo_queue s') + (max_join_work - jo_work s') \<le> length (jo_queue s) + (max_join_work - jo_work s)"
proof (induction es arbitrary: s)
  case (Cons e es)
  then show ?case
    using follow_edge_measure by (fastforce split: sum.splits)
qed simp

definition max_hops :: "completion_analysis \<Rightarrow> nat" where
  "max_hops ctx = min (an_join_max_hops ctx) 3"

function join_search_loop :: "join_world \<Rightarrow> join_edge list \<Rightarrow> join_search \<Rightarrow> completion_candidate list" where
  "join_search_loop w es s =
     (case jo_queue s of
        [] \<Rightarrow> jo_out s
      | item # rest \<Rightarrow>
          if length (ji_visited item) > max_hops (jw_ctx w) then join_search_loop w es (s\<lparr>jo_queue := rest\<rparr>)
          else (case follow_edges w item (filter (\<lambda>e. cn_id (je_from e) = cn_id (ji_node item)) es) (s\<lparr>jo_queue := rest\<rparr>) of
                  Inl out \<Rightarrow> out
                | Inr s' \<Rightarrow> join_search_loop w es s'))"
  by pat_completeness auto
termination
proof (relation "measure (\<lambda>(w, es, s). length (jo_queue s) + (max_join_work - jo_work s))")
  fix w es s item rest s'
  assume "jo_queue s = item # rest"
    and "follow_edges w item (filter (\<lambda>e. cn_id (je_from e) = cn_id (ji_node item)) es) (s\<lparr>jo_queue := rest\<rparr>) = Inr s'"
  with follow_edges_measure [OF this(2)]
  show "((w, es, s'), w, es, s) \<in> measure (\<lambda>(w, es, s). length (jo_queue s) + (max_join_work - jo_work s))"
    by simp
qed simp_all

declare join_search_loop.simps [simp del]

definition join_world_of :: "completion_analysis \<Rightarrow> catalog_graph_data \<Rightarrow> engine \<Rightarrow> nat \<Rightarrow> join_world" where
  "join_world_of ctx graph engine limit =
     \<lparr>jw_ctx = ctx, jw_engine = engine, jw_nodes = join_nodes (cg_nodes graph), jw_cap = min limit 50\<rparr>"

definition start_item :: "catalog_node \<times> string \<Rightarrow> join_item" where
  "start_item p = \<lparr>ji_node = fst p, ji_qualifier = snd p, ji_visited = [cn_id (fst p)], ji_sql = ''''\<rparr>"

definition join_candidates :: "completion_analysis \<Rightarrow> catalog_graph_data \<Rightarrow> engine \<Rightarrow> nat \<Rightarrow> completion_candidate list" where
  "join_candidates ctx graph engine limit =
     (if \<not> an_join_slot ctx \<or> limit = 0 then []
      else join_search_loop (join_world_of ctx graph engine limit) (join_edges graph)
             \<lparr>jo_out = [], jo_work = 0, jo_queue = map start_item (join_starts ctx graph engine)\<rparr>)"

end
