(* ===== verification/Join_Soundness.thy ===== *)
theory Join_Soundness
  imports Join_Paths
begin

text \<open>
  What the search for joins returns: at most as many candidates as asked for, shorter joins first,
  each the text of a chain of catalog-proven foreign keys from a relation of the statement.
\<close>

section \<open>The tables a join names\<close>

lemma quote_always_delimited: "quote_always = delimited"
proof (intro ext)
  show "quote_always engine name = delimited engine name" for engine name
    by (cases engine) (simp_all add: quote_always_def delimited_def open_quote_def close_quote_def)
qed

interpretation jq: identifier_quoting quote_always
  unfolding quote_always_delimited by (rule delimited_quoting)

text \<open>The engine reads the table of a hop as its schema and its name, whatever characters they hold.\<close>

lemma qualified_table_reads_back:
  assumes "qualified_table nodes engine node = Some table" and "ends_name engine rest"
  shows "\<exists>schema. join_parent nodes node = Some schema \<and> cn_kind schema = NodeSchema \<and>
           read_qualified engine (table @ rest) = Some ([cn_name schema, cn_name node], rest)"
proof -
  from assms(1) obtain schema where schema: "join_parent nodes node = Some schema" "cn_kind schema = NodeSchema"
    and table: "table = join_with ''.'' (map (quote_always engine) [cn_name schema, cn_name node])"
    by (auto simp: qualified_table_def split: option.splits if_splits)
  show ?thesis
    using schema jq.read_joined [OF assms(2), of "[cn_name schema, cn_name node]"] table by simp
qed

section \<open>Chains of edges\<close>

fun chained :: "string \<Rightarrow> join_edge list \<Rightarrow> bool" where
  "chained x [] = True"
| "chained x (e # es) \<longleftrightarrow> cn_id (je_from e) = x \<and> chained (cn_id (je_to e)) es"

definition path_ids :: "string \<Rightarrow> join_edge list \<Rightarrow> string list" where
  "path_ids x path = x # map (\<lambda>e. cn_id (je_to e)) path"

lemma path_ids_snoc: "path_ids x (path @ [e]) = path_ids x path @ [cn_id (je_to e)]"
  by (simp add: path_ids_def)

lemma chained_snoc: "chained x (path @ [e]) \<longleftrightarrow> chained x path \<and> cn_id (je_from e) = last (path_ids x path)"
  by (induction path arbitrary: x) (auto simp: path_ids_def)

definition hop_of :: "join_world \<Rightarrow> string \<Rightarrow> nat \<Rightarrow> join_edge \<Rightarrow> string" where
  "hop_of w q i e =
     hop_text (jw_engine w) (if i = 0 then q else join_alias (an_relations (jw_ctx w)) i)
       (case qualified_table (jw_nodes w) (jw_engine w) (je_to e) of None \<Rightarrow> '''' | Some table \<Rightarrow> table)
       (join_alias (an_relations (jw_ctx w)) (i + 1)) e"

definition path_text :: "join_world \<Rightarrow> string \<Rightarrow> join_edge list \<Rightarrow> string" where
  "path_text w q path = join_with '' JOIN '' (map (\<lambda>(i, e). hop_of w q i e) (enumerate 0 path))"

lemma join_with_snoc: "join_with sep (xs @ [x]) = (if xs = [] then x else join_with sep xs @ sep @ x)"
  by (induction xs rule: induct_list012) auto

lemma join_with_nonempty: "(\<And>x. x \<in> set xs \<Longrightarrow> x \<noteq> []) \<Longrightarrow> join_with sep xs = [] \<longleftrightarrow> xs = []"
  by (induction xs rule: induct_list012) auto

lemma hop_of_nonempty: "hop_of w q i e \<noteq> []"
  by (simp add: hop_of_def hop_text_def)

lemma path_text_empty: "path_text w q path = [] \<longleftrightarrow> path = []"
proof -
  have "x \<noteq> []" if "x \<in> set (map (\<lambda>(i, e). hop_of w q i e) (enumerate 0 path))" for x
    using that hop_of_nonempty by (auto simp: split_beta)
  then show ?thesis
    unfolding path_text_def by (subst join_with_nonempty) (auto simp: enumerate_eq_zip)
qed

lemma path_text_snoc:
  "path_text w q (path @ [e])
     = path_text w q path @ (if path_text w q path = [] then '''' else '' JOIN '') @ hop_of w q (length path) e"
  unfolding path_text_empty
  by (auto simp: path_text_def enumerate_snoc join_with_snoc enumerate_eq_zip)

section \<open>What an item and a candidate stand for\<close>

definition join_path :: "join_world \<Rightarrow> join_edge list \<Rightarrow> catalog_node \<Rightarrow> join_edge list \<Rightarrow> bool" where
  "join_path w es start path \<longleftrightarrow>
     set path \<subseteq> set es \<and> chained (cn_id start) path
       \<and> (\<forall>e\<in>set path. qualified_table (jw_nodes w) (jw_engine w) (je_to e) \<noteq> None)"

definition item_of :: "join_world \<Rightarrow> join_edge list \<Rightarrow> catalog_node \<times> string \<Rightarrow> join_edge list \<Rightarrow> join_item \<Rightarrow> bool" where
  "item_of w es p path item \<longleftrightarrow>
     join_path w es (fst p) path \<and> distinct (path_ids (cn_id (fst p)) path)
       \<and> cn_id (ji_node item) = last (path_ids (cn_id (fst p)) path)
       \<and> ji_visited item = path_ids (cn_id (fst p)) path
       \<and> ji_qualifier item = (if path = [] then snd p else join_alias (an_relations (jw_ctx w)) (length path))
       \<and> ji_sql item = path_text w (snd p) path"

definition candidate_of ::
    "join_world \<Rightarrow> join_edge list \<Rightarrow> catalog_node \<times> string \<Rightarrow> join_edge list \<Rightarrow> completion_candidate \<Rightarrow> bool" where
  "candidate_of w es p path c \<longleftrightarrow>
     path \<noteq> [] \<and> join_path w es (fst p) path \<and> length path \<le> max_hops (jw_ctx w)
       \<and> (distinct (path_ids (cn_id (fst p)) path)
          \<or> (length path = 1 \<and> cn_id (je_to (last path)) = cn_id (fst p)))
       \<and> c = join_candidate (je_to (last path)) (length path) (path_text w (snd p) path)"

lemma item_of_length: "item_of w es p path item \<Longrightarrow> length (ji_visited item) = length path + 1"
  by (simp add: item_of_def path_ids_def)

text \<open>Following an edge from an item lengthens its chain.\<close>

lemma item_of_follow:
  assumes item: "item_of w es p path item" and e: "e \<in> set es" "cn_id (je_from e) = cn_id (ji_node item)"
    and table: "qualified_table (jw_nodes w) (jw_engine w) (je_to e) = Some table"
  shows "join_path w es (fst p) (path @ [e])"
    and "path_text w (snd p) (path @ [e])
       = ji_sql item @ (if ji_sql item = [] then '''' else '' JOIN '')
           @ hop_text (jw_engine w) (ji_qualifier item) table
               (join_alias (an_relations (jw_ctx w)) (length (ji_visited item))) e"
proof -
  show "join_path w es (fst p) (path @ [e])"
    using item e table by (auto simp: item_of_def join_path_def chained_snoc)
  have "hop_of w (snd p) (length path) e
      = hop_text (jw_engine w) (ji_qualifier item) table
          (join_alias (an_relations (jw_ctx w)) (length (ji_visited item))) e"
    using item item_of_length [OF item] table by (simp add: hop_of_def item_of_def)
  then show "path_text w (snd p) (path @ [e])
       = ji_sql item @ (if ji_sql item = [] then '''' else '' JOIN '')
           @ hop_text (jw_engine w) (ji_qualifier item) table
               (join_alias (an_relations (jw_ctx w)) (length (ji_visited item))) e"
    using item by (simp add: path_text_snoc item_of_def)
qed

section \<open>The invariant of the search\<close>

definition candidates_ok :: "join_world \<Rightarrow> join_edge list \<Rightarrow> (catalog_node \<times> string) list \<Rightarrow> completion_candidate list \<Rightarrow> bool" where
  "candidates_ok w es starts out \<longleftrightarrow>
     (\<forall>c\<in>set out. \<exists>p\<in>set starts. \<exists>path. candidate_of w es p path c)
       \<and> sorted (map (\<lambda>c. - ca_score c) out) \<and> length out \<le> jw_cap w"

text \<open>The queue is in the order of its items' lengths, which are \<open>h\<close> or one more.\<close>

definition search_inv ::
    "join_world \<Rightarrow> join_edge list \<Rightarrow> (catalog_node \<times> string) list \<Rightarrow> nat \<Rightarrow> join_search \<Rightarrow> bool" where
  "search_inv w es starts h s \<longleftrightarrow>
     candidates_ok w es starts (jo_out s) \<and> length (jo_out s) < jw_cap w
       \<and> (\<forall>c\<in>set (jo_out s). - ca_score c \<le> int h * 100 - 2000)
       \<and> (\<forall>i\<in>set (jo_queue s). \<exists>p\<in>set starts. \<exists>path. item_of w es p path i)
       \<and> sorted (map (\<lambda>i. length (ji_visited i)) (jo_queue s))
       \<and> (\<forall>i\<in>set (jo_queue s). h \<le> length (ji_visited i) \<and> length (ji_visited i) \<le> h + 1)"

lemma search_inv_push_out:
  assumes inv: "search_inv w es starts h s" and c: "p \<in> set starts" "candidate_of w es p path c"
    and "ca_score c = 2000 - int h * 100"
  shows "candidates_ok w es starts (jo_out s @ [c])"
    and "length (jo_out s @ [c]) < jw_cap w \<Longrightarrow> search_inv w es starts h (s\<lparr>jo_out := jo_out s @ [c]\<rparr>)"
proof -
  show ok: "candidates_ok w es starts (jo_out s @ [c])"
    using assms by (auto simp: search_inv_def candidates_ok_def sorted_append)
  show "search_inv w es starts h (s\<lparr>jo_out := jo_out s @ [c]\<rparr>)" if "length (jo_out s @ [c]) < jw_cap w"
    using ok that inv assms(4) by (auto simp: search_inv_def)
qed

lemma search_inv_push_item:
  assumes "search_inv w es starts h s" and "p \<in> set starts" "item_of w es p path i"
    and "length (ji_visited i) = h + 1"
  shows "search_inv w es starts h (s\<lparr>jo_queue := jo_queue s @ [i]\<rparr>)"
  using assms by (auto simp: search_inv_def sorted_append)

lemma search_inv_work: "search_inv w es starts h (s\<lparr>jo_work := n\<rparr>) = search_inv w es starts h s"
  by (simp add: search_inv_def)

lemma follow_edge_inv:
  assumes inv: "search_inv w es starts h s" and p: "p \<in> set starts" and item: "item_of w es p path item"
    and h: "length (ji_visited item) = h" "h \<le> max_hops (jw_ctx w)"
    and e: "e \<in> set es" "cn_id (je_from e) = cn_id (ji_node item)"
  shows "case follow_edge w item e s of
           Inl out \<Rightarrow> candidates_ok w es starts out
         | Inr s' \<Rightarrow> search_inv w es starts h s'"
proof -
  define s1 where "s1 = s\<lparr>jo_work := jo_work s + 1\<rparr>"
  have inv1: "search_inv w es starts h s1" by (simp add: s1_def search_inv_work inv)
  have out1: "jo_out s1 = jo_out s" by (simp add: s1_def)
  have full: "candidates_ok w es starts (jo_out s)" using inv by (simp add: search_inv_def)
  have len: "length path + 1 = h" using item_of_length [OF item] h(1) by simp
  consider (bound) "max_join_work < jo_work s + 1"
    | (seen) "\<not> max_join_work < jo_work s + 1"
        "cn_id (je_to e) \<in> set (ji_visited item) \<and> \<not> (h = 1 \<and> cn_id (je_to e) = cn_id (ji_node item))"
    | (plain) "\<not> max_join_work < jo_work s + 1"
        "\<not> (cn_id (je_to e) \<in> set (ji_visited item) \<and> \<not> (h = 1 \<and> cn_id (je_to e) = cn_id (ji_node item)))"
        "qualified_table (jw_nodes w) (jw_engine w) (je_to e) = None"
    | (hop) table where "\<not> max_join_work < jo_work s + 1"
        "\<not> (cn_id (je_to e) \<in> set (ji_visited item) \<and> \<not> (h = 1 \<and> cn_id (je_to e) = cn_id (ji_node item)))"
        "qualified_table (jw_nodes w) (jw_engine w) (je_to e) = Some table"
    by (cases "qualified_table (jw_nodes w) (jw_engine w) (je_to e)") blast+
  then show ?thesis
  proof cases
    case bound
    then show ?thesis using full by (simp add: follow_edge_def Let_def)
  next
    case seen
    then show ?thesis using inv1 h(1) by (simp add: follow_edge_def Let_def s1_def)
  next
    case plain
    then show ?thesis using inv1 h(1) by (auto simp: follow_edge_def Let_def s1_def)
  next
    case hop
    define longer where "longer = path_text w (snd p) (path @ [e])"
    define c where "c = join_candidate (je_to e) h longer"
    define matches where "matches = contains_text (an_prefix_lower (jw_ctx w)) (lower_ascii (cn_name (je_to e)))"
    define s2 where "s2 = s1\<lparr>jo_out := (if matches then jo_out s @ [c] else jo_out s)\<rparr>"
    define i where "i = \<lparr>ji_node = je_to e, ji_qualifier = join_alias (an_relations (jw_ctx w)) h,
        ji_visited = ji_visited item @ [cn_id (je_to e)], ji_sql = longer\<rparr>"
    note follow = item_of_follow [OF item e hop(3)]
    have result: "follow_edge w item e s =
        (if matches \<and> length (jo_out s @ [c]) \<ge> jw_cap w then Inl (jo_out s @ [c])
         else if cn_id (je_to e) = cn_id (ji_node item) then Inr s2
         else Inr (s2\<lparr>jo_queue := jo_queue s @ [i]\<rparr>))"
      unfolding follow_edge_def Let_def if_not_P [OF hop(1)] h(1) if_not_P [OF hop(2)] hop(3) option.case
        longer_def c_def i_def s2_def s1_def matches_def follow(2) by simp
    have ids: "path_ids (cn_id (fst p)) path = ji_visited item" "last (ji_visited item) = cn_id (ji_node item)"
      "distinct (ji_visited item)"
      using item by (auto simp: item_of_def)
    have single: "cn_id (ji_node item) = cn_id (fst p)" if "h = 1"
      using that len ids(2) unfolding ids(1) [symmetric] by (simp add: path_ids_def)
    have "cn_id (je_to e) \<notin> set (ji_visited item) \<or> (h = 1 \<and> cn_id (je_to e) = cn_id (fst p))"
      using hop(2) single by auto
    then have "candidate_of w es p (path @ [e]) c"
      using follow(1) h(2) len ids
      by (auto simp: candidate_of_def c_def longer_def path_ids_snoc)
    moreover have "ca_score c = 2000 - int h * 100" by (simp add: c_def join_candidate_def)
    ultimately have out: "candidates_ok w es starts (jo_out s @ [c])"
      and inv2: "matches \<longrightarrow> length (jo_out s @ [c]) < jw_cap w \<Longrightarrow> search_inv w es starts h s2"
      using search_inv_push_out [OF inv1 p, of "path @ [e]" c] inv1 by (auto simp: s2_def out1 s1_def)
    have "search_inv w es starts h (s2\<lparr>jo_queue := jo_queue s @ [i]\<rparr>)"
      if "search_inv w es starts h s2" and "cn_id (je_to e) \<noteq> cn_id (ji_node item)"
    proof -
      have "cn_id (je_to e) \<notin> set (ji_visited item)" using hop(2) that(2) by blast
      then have "item_of w es p (path @ [e]) i"
        using follow(1) len ids by (auto simp: item_of_def i_def longer_def path_ids_snoc)
      moreover have "length (ji_visited i) = h + 1" by (simp add: i_def h(1))
      ultimately show ?thesis
        using search_inv_push_item [OF that(1) p] by (simp add: s2_def s1_def)
    qed
    with out inv2 show ?thesis unfolding result by (auto simp: not_le)
  qed
qed

lemma follow_edges_inv:
  assumes "search_inv w es starts h s" and "p \<in> set starts" and "item_of w es p path item"
    and "length (ji_visited item) = h" "h \<le> max_hops (jw_ctx w)"
    and "\<And>e. e \<in> set fs \<Longrightarrow> e \<in> set es \<and> cn_id (je_from e) = cn_id (ji_node item)"
  shows "case follow_edges w item fs s of
           Inl out \<Rightarrow> candidates_ok w es starts out
         | Inr s' \<Rightarrow> search_inv w es starts h s'"
  using assms(1,6)
proof (induction fs arbitrary: s)
  case (Cons e fs)
  from follow_edge_inv [OF Cons.prems(1) assms(2-5), of e] Cons.prems(2) [of e]
  have now: "case follow_edge w item e s of
           Inl out \<Rightarrow> candidates_ok w es starts out
         | Inr s' \<Rightarrow> search_inv w es starts h s'" by simp
  show ?case
  proof (cases "follow_edge w item e s")
    case (Inr s')
    with now have "search_inv w es starts h s'" by simp
    from Cons.IH [OF this] Cons.prems(2) Inr show ?thesis by simp
  qed (use now in simp)
qed simp

lemma search_inv_pop:
  assumes "search_inv w es starts h s" and "jo_queue s = item # rest"
  shows "search_inv w es starts (length (ji_visited item)) (s\<lparr>jo_queue := rest\<rparr>)"
  using assms by (fastforce simp: search_inv_def)

lemma join_search_loop_ok:
  "search_inv w es starts h s \<Longrightarrow> candidates_ok w es starts (join_search_loop w es s)"
proof (induction w es s arbitrary: h rule: join_search_loop.induct)
  case (1 w es s)
  show ?case
  proof (cases "jo_queue s")
    case Nil
    with 1(3) show ?thesis by (subst join_search_loop.simps) (simp add: search_inv_def)
  next
    case (Cons item rest)
    note popped = search_inv_pop [OF 1(3) Cons]
    from 1(3) Cons obtain p path where p: "p \<in> set starts" "item_of w es p path item"
      by (auto simp: search_inv_def)
    let ?fs = "filter (\<lambda>e. cn_id (je_from e) = cn_id (ji_node item)) es"
    show ?thesis
    proof (cases "length (ji_visited item) > max_hops (jw_ctx w)")
      case True
      with 1(1) [OF Cons True popped] Cons show ?thesis by (subst join_search_loop.simps) simp
    next
      case False
      then have "length (ji_visited item) \<le> max_hops (jw_ctx w)" by simp
      from follow_edges_inv [OF popped p refl this, of ?fs]
      have next_ok: "case follow_edges w item ?fs (s\<lparr>jo_queue := rest\<rparr>) of
           Inl out \<Rightarrow> candidates_ok w es starts out
         | Inr s' \<Rightarrow> search_inv w es starts (length (ji_visited item)) s'" by simp
      show ?thesis
      proof (cases "follow_edges w item ?fs (s\<lparr>jo_queue := rest\<rparr>)")
        case (Inl out)
        with next_ok Cons False show ?thesis by (subst join_search_loop.simps) simp
      next
        case (Inr s')
        with 1(2) [OF Cons False Inr] next_ok Cons False show ?thesis
          by (subst join_search_loop.simps) simp
      qed
    qed
  qed
qed

section \<open>Joins of the catalog\<close>

text \<open>A join the catalog proves: a foreign key with its columns, followed from either side.\<close>

definition proven_join :: "catalog_graph_data \<Rightarrow> join_edge \<Rightarrow> bool" where
  "proven_join graph e \<longleftrightarrow>
     (\<exists>edge\<in>set (cg_edges graph). ce_kind edge = EdgeForeignKey \<and> ce_certainty edge = CatalogProven
        \<and> ce_column_pairs edge \<noteq> [] \<and> e \<in> set (edge_joins (join_nodes (cg_nodes graph)) edge))"

lemma join_edges_proven: "e \<in> set (join_edges graph) \<Longrightarrow> proven_join graph e"
proof -
  assume "e \<in> set (join_edges graph)"
  then obtain edge where edge: "edge \<in> set (cg_edges graph)" "e \<in> set (edge_joins (join_nodes (cg_nodes graph)) edge)"
    by (auto simp: join_edges_def)
  then have "ce_kind edge = EdgeForeignKey \<and> ce_certainty edge = CatalogProven \<and> ce_column_pairs edge \<noteq> []"
    by (auto simp: edge_joins_def split: if_splits)
  with edge show ?thesis unfolding proven_join_def by blast
qed

text \<open>
  A candidate spells out a chain of such joins from a relation of the statement, of at most the hops
  the slot allows, that visits no table twice, a join of the first table with itself aside.
\<close>

definition spells_joins :: "completion_analysis \<Rightarrow> catalog_graph_data \<Rightarrow> engine \<Rightarrow> nat \<Rightarrow> completion_candidate \<Rightarrow> bool" where
  "spells_joins ctx graph engine limit c \<longleftrightarrow>
     (\<exists>(start, qualifier)\<in>set (join_starts ctx graph engine). \<exists>path.
        path \<noteq> [] \<and> length path \<le> min (an_join_max_hops ctx) 3 \<and>
        (\<forall>e\<in>set path. proven_join graph e) \<and> chained (cn_id start) path \<and>
        (distinct (path_ids (cn_id start) path)
         \<or> (length path = 1 \<and> cn_id (je_to (last path)) = cn_id start)) \<and>
        ca_insert c = path_text (join_world_of ctx graph engine limit) qualifier path \<and>
        ca_qualified_name c = Some (cn_qualified_name (je_to (last path))) \<and>
        ca_score c = 2000 - 100 * int (length path))"

lemma start_inv:
  assumes "limit \<noteq> 0"
  shows "search_inv (join_world_of ctx graph engine limit) es starts 1
           \<lparr>jo_out = [], jo_work = 0, jo_queue = map start_item starts\<rparr>"
proof -
  let ?w = "join_world_of ctx graph engine limit"
  have "item_of ?w es p [] (start_item p)" for p
    by (simp add: item_of_def start_item_def join_path_def path_ids_def path_text_def)
  then have items: "\<forall>i\<in>set (map start_item starts). \<exists>p\<in>set starts. \<exists>path. item_of ?w es p path i"
    by auto
  have lengths: "length (ji_visited (start_item p)) = 1" for p
    by (simp add: start_item_def)
  then have "map (\<lambda>i. length (ji_visited i)) (map start_item starts) = replicate (length starts) 1"
    by (induction starts) auto
  then have "sorted (map (\<lambda>i. length (ji_visited i)) (map start_item starts))"
    by simp
  moreover have "0 < jw_cap ?w" using assms by (simp add: join_world_of_def)
  ultimately show ?thesis
    using items lengths by (simp add: search_inv_def candidates_ok_def)
qed


end
