(* ===== verification/Fuzzy_Match.thy ===== *)
theory Fuzzy_Match
  imports Quoting "HOL-Library.Sublist"
begin

text \<open>
  The fuzzy matcher of the schema search: \<^verbatim>\<open>crates/completion/src/fuzzy.rs\<close>. A character is the
  bytes of its encoding. Unicode's lower-casing of a character and its class of letters and digits are
  parameters; the score stays far from the bounds of an \<^verbatim>\<open>i32\<close> and is an integer.
\<close>

section \<open>The matcher\<close>

record fuzzy_match =
  fm_score :: int
  fm_ranges :: "(u32 \<times> u32) list"

definition bonus_match :: int where "bonus_match = 16"
definition bonus_contiguous :: int where "bonus_contiguous = 18"
definition bonus_boundary :: int where "bonus_boundary = 24"
definition bonus_first :: int where "bonus_first = 12"
definition penalty_gap :: int where "penalty_gap = 3"
definition penalty_leading :: int where "penalty_leading = 2"
definition penalty_length :: int where "penalty_length = 1"

text \<open>
  The state of the scan: the characters of the query that are still to be found, the score and the
  ranges so far, the position of the last match, the character before and where the scan is.
\<close>

record fuzzy_state =
  fz_query :: "string list"
  fz_score :: int
  fz_ranges :: "(nat \<times> nat) list"
  fz_prev_match :: "nat option"
  fz_prev_char :: "string option"
  fz_char :: nat
  fz_byte :: nat

definition extend_last :: "nat \<Rightarrow> (nat \<times> nat) list \<Rightarrow> (nat \<times> nat) list" where
  "extend_last stop ranges =
     (if ranges = [] then [] else butlast ranges @ [(fst (last ranges), stop)])"

definition match_score :: "(string \<Rightarrow> bool) \<Rightarrow> fuzzy_state \<Rightarrow> int" where
  "match_score alphanumeric st =
     bonus_match
       + (if (case fz_prev_char st of None \<Rightarrow> True | Some prev \<Rightarrow> \<not> alphanumeric prev) then bonus_boundary else 0)
       + (if fz_char st = 0 then bonus_first else 0)
       + (case fz_prev_match st of
            Some prev \<Rightarrow>
              if prev + 1 = fz_char st then bonus_contiguous
              else - (penalty_gap * int (fz_char st - prev - 1))
          | None \<Rightarrow> - (penalty_leading * int (fz_char st)))"

definition fuzzy_advance :: "string \<Rightarrow> fuzzy_state \<Rightarrow> fuzzy_state" where
  "fuzzy_advance ch st = st\<lparr>fz_char := fz_char st + 1, fz_byte := fz_byte st + length ch\<rparr>"

definition fuzzy_step :: "(string \<Rightarrow> bool) \<Rightarrow> string \<Rightarrow> fuzzy_state \<Rightarrow> fuzzy_state" where
  "fuzzy_step alphanumeric ch st =
     fuzzy_advance ch
       (case fz_query st of
          [] \<Rightarrow> st
        | q # qs \<Rightarrow>
            if ch = q
            then st\<lparr>fz_query := qs,
                    fz_score := fz_score st + match_score alphanumeric st,
                    fz_ranges :=
                      (if (case fz_prev_match st of None \<Rightarrow> False | Some prev \<Rightarrow> prev + 1 = fz_char st)
                       then extend_last (fz_byte st + length ch) (fz_ranges st)
                       else fz_ranges st @ [(fz_byte st, fz_byte st + length ch)]),
                    fz_prev_match := Some (fz_char st),
                    fz_prev_char := Some ch\<rparr>
            else st\<lparr>fz_prev_char := Some ch\<rparr>)"

definition fuzzy_start :: "string list \<Rightarrow> fuzzy_state" where
  "fuzzy_start q =
     \<lparr>fz_query = q, fz_score = 0, fz_ranges = [], fz_prev_match = None, fz_prev_char = None,
      fz_char = 0, fz_byte = 0\<rparr>"

definition fuzzy_query :: "(string \<Rightarrow> string list) \<Rightarrow> string \<Rightarrow> string list" where
  "fuzzy_query lower_char query = concat (map lower_char (utf8_chars query))"

definition fuzzy_match_text ::
    "(string \<Rightarrow> string list) \<Rightarrow> (string \<Rightarrow> bool) \<Rightarrow> string \<Rightarrow> string \<Rightarrow> fuzzy_match option" where
  "fuzzy_match_text lower_char alphanumeric query haystack_lower =
     (if query = [] then Some \<lparr>fm_score = 0, fm_ranges = []\<rparr>
      else (let q = fuzzy_query lower_char query;
                st = fold (fuzzy_step alphanumeric) (utf8_chars haystack_lower) (fuzzy_start q)
            in if fz_query st \<noteq> [] then None
               else Some \<lparr>fm_score = fz_score st - penalty_length * int (fz_char st - length q),
                          fm_ranges = map (\<lambda>(a, b). (of_nat a, of_nat b)) (fz_ranges st)\<rparr>))"

section \<open>What the scan finds\<close>

lemma concat_utf8_chars: "concat (utf8_chars s) = s"
  by (induction s rule: utf8_chars.induct) (simp_all del: take_Cons' drop_Cons')

lemma utf8_chars_nonempty: "ch \<in> set (utf8_chars s) \<Longrightarrow> ch \<noteq> []"
proof (induction s rule: utf8_chars.induct)
  case (2 c s)
  then consider "ch = take (char_bytes c) (c # s)" | "ch \<in> set (utf8_chars (drop (char_bytes c) (c # s)))"
    by (metis set_ConsD utf8_chars.simps(2))
  then show ?case
  proof cases
    case 1
    then show ?thesis by (simp add: take_Cons')
  qed (use 2 in blast)
qed simp

text \<open>The bytes of a range.\<close>

definition slice :: "string \<Rightarrow> nat \<times> nat \<Rightarrow> string" where
  "slice s r = take (snd r - fst r) (drop (fst r) s)"

lemma slice_extend:
  assumes "a \<le> b" and "drop b s = ch @ t"
  shows "slice s (a, b + length ch) = slice s (a, b) @ ch"
proof -
  have len: "b + length ch - a = (b - a) + length ch" using assms(1) by simp
  show ?thesis
    unfolding slice_def fst_conv snd_conv len take_add by (simp add: assms)
qed

text \<open>What holds of the scan at \<open>byte\<close> in the text, with \<open>found\<close> of the query behind it.\<close>

definition fuzzy_inv :: "string \<Rightarrow> string list \<Rightarrow> fuzzy_state \<Rightarrow> bool" where
  "fuzzy_inv h found st \<longleftrightarrow>
     concat (map (slice h) (fz_ranges st)) = concat found \<and>
     (\<forall>r\<in>set (fz_ranges st). fst r < snd r \<and> snd r \<le> fz_byte st) \<and>
     successively (\<lambda>r s. snd r < fst s) (fz_ranges st) \<and>
     (case fz_prev_match st of
        None \<Rightarrow> fz_ranges st = []
      | Some prev \<Rightarrow> fz_ranges st \<noteq> [] \<and>
          (if prev + 1 = fz_char st then snd (last (fz_ranges st)) = fz_byte st
           else snd (last (fz_ranges st)) < fz_byte st))"

definition match_behind :: "fuzzy_state \<Rightarrow> bool" where
  "match_behind st = (case fz_prev_match st of None \<Rightarrow> True | Some prev \<Rightarrow> prev < fz_char st)"

lemma fuzzy_inv_skip:
  assumes "fuzzy_inv h found st" and "ch \<noteq> []" and "match_behind st"
    and "fz_query st' = fz_query st" "fz_ranges st' = fz_ranges st" "fz_prev_match st' = fz_prev_match st"
      "fz_char st' = fz_char st" "fz_byte st' = fz_byte st"
  shows "fuzzy_inv h found (fuzzy_advance ch st') \<and> match_behind (fuzzy_advance ch st')"
  using assms by (fastforce simp: fuzzy_inv_def fuzzy_advance_def match_behind_def split: option.splits if_splits)

text \<open>A match that follows the last one extends its range.\<close>

lemma fuzzy_inv_extend:
  assumes inv: "fuzzy_inv h found st" and "fz_prev_match st = Some prev" and "prev + 1 = fz_char st"
    and "drop (fz_byte st) h = ch @ t" and "ch \<noteq> []"
    and "fz_ranges st' = extend_last (fz_byte st + length ch) (fz_ranges st)"
    and "fz_prev_match st' = Some (fz_char st)" "fz_char st' = fz_char st" "fz_byte st' = fz_byte st"
  shows "fuzzy_inv h (found @ [ch]) (fuzzy_advance ch st')"
proof -
  have last: "fz_ranges st \<noteq> []" "snd (last (fz_ranges st)) = fz_byte st"
    using assms(1-3) by (simp_all add: fuzzy_inv_def)
  define rs a where "rs = butlast (fz_ranges st)" and "a = fst (last (fz_ranges st))"
  have ranges: "fz_ranges st = rs @ [(a, fz_byte st)]"
    unfolding rs_def a_def last(2) [symmetric] using last(1) by simp
  with inv have "a < fz_byte st" by (auto simp: fuzzy_inv_def)
  then have "slice h (a, fz_byte st + length ch) = slice h (a, fz_byte st) @ ch"
    using slice_extend [OF less_imp_le assms(4)] by blast
  then have spelled: "concat (map (slice h) (rs @ [(a, fz_byte st + length ch)])) = concat (found @ [ch])"
    using inv ranges by (simp add: fuzzy_inv_def)
  have "extend_last (fz_byte st + length ch) (fz_ranges st) = rs @ [(a, fz_byte st + length ch)]"
    by (simp add: extend_last_def ranges)
  then have new: "fz_ranges (fuzzy_advance ch st') = rs @ [(a, fz_byte st + length ch)]"
    "fz_byte (fuzzy_advance ch st') = fz_byte st + length ch"
    "fz_prev_match (fuzzy_advance ch st') = Some (fz_char st)" "fz_char (fuzzy_advance ch st') = fz_char st + 1"
    using assms(6-9) by (simp_all add: fuzzy_advance_def)
  have "\<forall>r\<in>set rs. fst r < snd r \<and> snd r \<le> fz_byte st"
    using inv ranges by (simp add: fuzzy_inv_def)
  then have "\<forall>r\<in>set (rs @ [(a, fz_byte st + length ch)]). fst r < snd r \<and> snd r \<le> fz_byte st + length ch"
    using \<open>a < fz_byte st\<close> by (auto intro: trans_le_add1)
  moreover have "successively (\<lambda>r s. snd r < fst s) (rs @ [(a, fz_byte st + length ch)])"
    using inv ranges by (simp add: fuzzy_inv_def successively_append_iff)
  ultimately show ?thesis
    unfolding fuzzy_inv_def new using spelled by simp
qed

text \<open>Any other match opens a range.\<close>

lemma fuzzy_inv_push:
  assumes inv: "fuzzy_inv h found st" and "match_behind st"
    and "\<And>prev. fz_prev_match st = Some prev \<Longrightarrow> prev + 1 \<noteq> fz_char st"
    and "drop (fz_byte st) h = ch @ t" and "ch \<noteq> []"
    and "fz_ranges st' = fz_ranges st @ [(fz_byte st, fz_byte st + length ch)]"
    and "fz_prev_match st' = Some (fz_char st)" "fz_char st' = fz_char st" "fz_byte st' = fz_byte st"
  shows "fuzzy_inv h (found @ [ch]) (fuzzy_advance ch st')"
proof -
  let ?new = "(fz_byte st, fz_byte st + length ch)"
  have new: "fz_ranges (fuzzy_advance ch st') = fz_ranges st @ [?new]"
    "fz_byte (fuzzy_advance ch st') = fz_byte st + length ch"
    "fz_prev_match (fuzzy_advance ch st') = Some (fz_char st)" "fz_char (fuzzy_advance ch st') = fz_char st + 1"
    using assms(6-9) by (simp_all add: fuzzy_advance_def)
  have "slice h ?new = ch"
    using assms(4) by (simp add: slice_def)
  then have "concat (map (slice h) (fz_ranges st @ [?new])) = concat (found @ [ch])"
    using inv by (simp add: fuzzy_inv_def)
  moreover have "\<forall>r\<in>set (fz_ranges st @ [?new]). fst r < snd r \<and> snd r \<le> fz_byte st + length ch"
    using inv assms(5) by (auto simp: fuzzy_inv_def intro: trans_le_add1)
  moreover have "successively (\<lambda>r s. snd r < fst s) (fz_ranges st @ [?new])"
  proof (cases "fz_prev_match st")
    case None
    with inv show ?thesis by (simp add: fuzzy_inv_def)
  next
    case (Some prev)
    with inv assms(3) [OF Some] show ?thesis by (simp add: fuzzy_inv_def successively_append_iff)
  qed
  ultimately show ?thesis
    unfolding fuzzy_inv_def new by simp
qed

lemma fuzzy_step_miss:
  "fz_query st = [] \<or> ch \<noteq> hd (fz_query st) \<Longrightarrow>
    \<exists>st'. fuzzy_step alphanumeric ch st = fuzzy_advance ch st' \<and> fz_query st' = fz_query st
      \<and> fz_ranges st' = fz_ranges st \<and> fz_prev_match st' = fz_prev_match st
      \<and> fz_char st' = fz_char st \<and> fz_byte st' = fz_byte st"
  by (cases "fz_query st") (auto simp: fuzzy_step_def intro!: exI)

lemma fuzzy_advance_simps [simp]:
  "fz_query (fuzzy_advance ch st) = fz_query st" "fz_byte (fuzzy_advance ch st) = fz_byte st + length ch"
  by (simp_all add: fuzzy_advance_def)

lemma fuzzy_step_inv:
  fixes alphanumeric :: "string \<Rightarrow> bool"
  assumes inv: "fuzzy_inv h found st" and behind: "match_behind st"
    and at: "drop (fz_byte st) h = ch @ t" and "ch \<noteq> []"
  defines "st' \<equiv> fuzzy_step alphanumeric ch st"
  shows "\<exists>found'. fuzzy_inv h found' st' \<and> found' @ fz_query st' = found @ fz_query st" (is ?kept)
    and "match_behind st'" and "fz_byte st' = fz_byte st + length ch"
    and "fz_query st' = (if fz_query st \<noteq> [] \<and> ch = hd (fz_query st) then tl (fz_query st) else fz_query st)"
proof -
  have "?kept \<and> match_behind st' \<and> fz_byte st' = fz_byte st + length ch \<and>
    fz_query st' = (if fz_query st \<noteq> [] \<and> ch = hd (fz_query st) then tl (fz_query st) else fz_query st)"
  proof (cases "fz_query st \<noteq> [] \<and> ch = hd (fz_query st)")
    case False
    then obtain s where s: "st' = fuzzy_advance ch s" "fz_query s = fz_query st"
      "fz_ranges s = fz_ranges st" "fz_prev_match s = fz_prev_match st" "fz_char s = fz_char st" "fz_byte s = fz_byte st"
      using fuzzy_step_miss [of st ch alphanumeric] unfolding st'_def by blast
    with fuzzy_inv_skip [OF inv assms(4) behind s(2-6)] False show ?thesis by auto
  next
    case True
    then obtain qs where q: "fz_query st = ch # qs" by (cases "fz_query st") auto
    define s where "s = st\<lparr>fz_query := qs,
                    fz_score := fz_score st + match_score alphanumeric st,
                    fz_ranges :=
                      (if (case fz_prev_match st of None \<Rightarrow> False | Some prev \<Rightarrow> prev + 1 = fz_char st)
                       then extend_last (fz_byte st + length ch) (fz_ranges st)
                       else fz_ranges st @ [(fz_byte st, fz_byte st + length ch)]),
                    fz_prev_match := Some (fz_char st),
                    fz_prev_char := Some ch\<rparr>"
    have st': "st' = fuzzy_advance ch s" by (simp add: st'_def fuzzy_step_def q s_def)
    have rest: "fz_prev_match s = Some (fz_char st)" "fz_char s = fz_char st" "fz_byte s = fz_byte st" "fz_query s = qs"
      by (simp_all add: s_def)
    have "fuzzy_inv h (found @ [ch]) (fuzzy_advance ch s)"
    proof (cases "case fz_prev_match st of None \<Rightarrow> False | Some prev \<Rightarrow> prev + 1 = fz_char st")
      case True
      then obtain prev where "fz_prev_match st = Some prev" "prev + 1 = fz_char st"
        by (auto split: option.splits)
      with True show ?thesis
        by (intro fuzzy_inv_extend [OF inv _ _ at assms(4) _ rest(1-3)]) (auto simp: s_def)
    next
      case False
      then show ?thesis
        by (intro fuzzy_inv_push [OF inv behind _ at assms(4) _ rest(1-3)]) (auto simp: s_def)
    qed
    moreover have "match_behind (fuzzy_advance ch s)" by (simp add: match_behind_def fuzzy_advance_def rest)
    ultimately show ?thesis by (auto simp: st' q rest)
  qed
  then show ?kept "match_behind st'" "fz_byte st' = fz_byte st + length ch"
    "fz_query st' = (if fz_query st \<noteq> [] \<and> ch = hd (fz_query st) then tl (fz_query st) else fz_query st)"
    by blast+
qed

text \<open>The greedy scan finds the query exactly when it is a subsequence of the characters.\<close>

lemma fuzzy_scan:
  fixes alphanumeric :: "string \<Rightarrow> bool"
  assumes "fuzzy_inv h found st" and "match_behind st" and "drop (fz_byte st) h = concat chs"
    and "\<forall>ch\<in>set chs. ch \<noteq> []"
  defines "st' \<equiv> fold (fuzzy_step alphanumeric) chs st"
  shows "(\<exists>found'. fuzzy_inv h found' st' \<and> found' @ fz_query st' = found @ fz_query st)
     \<and> (fz_query st' = [] \<longleftrightarrow> subseq (fz_query st) chs) \<and> fz_byte st' = fz_byte st + length (concat chs)"
  using assms(1-4) unfolding st'_def
proof (induction chs arbitrary: found st)
  case (Cons ch chs)
  let ?s = "fuzzy_step alphanumeric ch st"
  from Cons.prems(3,4) have at: "drop (fz_byte st) h = ch @ concat chs" and "ch \<noteq> []" by auto
  note now = fuzzy_step_inv [OF Cons.prems(1,2) this, of alphanumeric]
  from now(1) obtain found' where f: "fuzzy_inv h found' ?s" "found' @ fz_query ?s = found @ fz_query st" by blast
  have "drop (fz_byte ?s) h = drop (length ch) (drop (fz_byte st) h)"
    by (simp add: now(3) add.commute)
  then have "drop (fz_byte ?s) h = concat chs" by (simp add: at)
  note IH = Cons.IH [OF f(1) now(2) this]
  have "subseq (fz_query ?s) chs \<longleftrightarrow> subseq (fz_query st) (ch # chs)"
    by (cases "fz_query st") (auto simp: now(4))
  with IH f(2) now(3) Cons.prems(4) show ?case by (simp add: add.assoc)
qed auto

lemma fuzzy_start_inv: "fuzzy_inv h [] (fuzzy_start q)" "match_behind (fuzzy_start q)"
  by (simp_all add: fuzzy_inv_def fuzzy_start_def match_behind_def)

text \<open>
  C30: the fuzzy matcher succeeds exactly when the characters of the query, in lower case, are a
  subsequence of those of the text; and the ranges it reports are the bytes of the query, in order:
  they lie in the text, no two of them touch, and their text put together is the query's.
\<close>

theorem fuzzy_match_is_subsequence:
  assumes "length haystack < 2 ^ 32"
  shows "(fuzzy_match_text lower_char alphanumeric query haystack \<noteq> None
      \<longleftrightarrow> subseq (fuzzy_query lower_char query) (utf8_chars haystack)) \<and>
    (case fuzzy_match_text lower_char alphanumeric query haystack of
       None \<Rightarrow> True
     | Some m \<Rightarrow>
         (let ranges = map (\<lambda>(a, b). (unat a, unat b)) (fm_ranges m)
          in concat (map (slice haystack) ranges) = concat (fuzzy_query lower_char query) \<and>
             list_all (\<lambda>(a, b). a < b \<and> b \<le> length haystack) ranges \<and>
             successively (\<lambda>r s. snd r < fst s) ranges))"
proof (cases "query = []")
  case True
  then show ?thesis by (simp add: fuzzy_match_text_def fuzzy_query_def)
next
  case False
  define q where "q = fuzzy_query lower_char query"
  define st where "st = fold (fuzzy_step alphanumeric) (utf8_chars haystack) (fuzzy_start q)"
  have scan: "(\<exists>found. fuzzy_inv haystack found st \<and> found @ fz_query st = [] @ fz_query (fuzzy_start q))
     \<and> (fz_query st = [] \<longleftrightarrow> subseq (fz_query (fuzzy_start q)) (utf8_chars haystack))
     \<and> fz_byte st = fz_byte (fuzzy_start q) + length (concat (utf8_chars haystack))"
    unfolding st_def
    by (rule fuzzy_scan [OF fuzzy_start_inv]) (simp_all add: concat_utf8_chars utf8_chars_nonempty fuzzy_start_def)
  then obtain found where inv: "fuzzy_inv haystack found st" and found: "found @ fz_query st = q"
    by (auto simp: fuzzy_start_def)
  from scan have sub: "fz_query st = [] \<longleftrightarrow> subseq q (utf8_chars haystack)"
    and stop: "fz_byte st = length haystack"
    by (simp_all add: fuzzy_start_def concat_utf8_chars)
  have result: "fuzzy_match_text lower_char alphanumeric query haystack
      = (if fz_query st \<noteq> [] then None
         else Some \<lparr>fm_score = fz_score st - penalty_length * int (fz_char st - length q),
                    fm_ranges = map (\<lambda>(a, b). (of_nat a, of_nat b)) (fz_ranges st)\<rparr>)"
    using False by (simp add: fuzzy_match_text_def Let_def q_def st_def)
  have inside: "\<forall>r\<in>set (fz_ranges st). fst r < snd r \<and> snd r \<le> length haystack"
    using inv stop by (simp add: fuzzy_inv_def)
  have narrow: "map (\<lambda>(a, b). (unat (a :: u32), unat (b :: u32))) (map (\<lambda>(a, b). (of_nat a, of_nat b)) (fz_ranges st)) = fz_ranges st"
    unfolding map_map
  proof (rule map_idI)
    fix r assume "r \<in> set (fz_ranges st)"
    with inside assms have "fst r < 2 ^ 32" "snd r < 2 ^ 32" by fastforce+
    then show "((\<lambda>(a, b). (unat (a :: u32), unat (b :: u32))) \<circ> (\<lambda>(a, b). (of_nat a, of_nat b))) r = r"
      by (simp add: split_beta unat_of_nat)
  qed
  show ?thesis
  proof (cases "fz_query st = []")
    case True
    with found inv have "concat (map (slice haystack) (fz_ranges st)) = concat q" by (simp add: fuzzy_inv_def)
    moreover have "successively (\<lambda>r s. snd r < fst s) (fz_ranges st)" using inv by (simp add: fuzzy_inv_def)
    ultimately show ?thesis
      using True sub inside unfolding result q_def [symmetric] narrow [unfolded map_map]
      by (auto simp: Let_def narrow [unfolded map_map] list_all_iff split_beta)
  next
    case False
    with sub show ?thesis by (simp add: result q_def)
  qed
qed

theorem fuzzy_match_is_subsequence_witness:
  "(fuzzy_match_text (\<lambda>c. [map ascii_lower c]) (\<lambda>c. c \<noteq> ''_'') ''uem'' ''user_email'' \<noteq> None
      \<longleftrightarrow> subseq (fuzzy_query (\<lambda>c. [map ascii_lower c]) ''uem'') (utf8_chars ''user_email''))"
  by (rule conjunct1 [OF fuzzy_match_is_subsequence]) simp

end
