(* ===== verification/Completion_Service.thy ===== *)
theory Completion_Service
  imports Completion_Relevance Join_Soundness
begin

text \<open>
  The entry points of completion: \<^verbatim>\<open>crates/completion/src/lib.rs\<close>, and what
  \<^verbatim>\<open>crates/server/src/autocomplete.rs\<close> makes of them, which reads the columns of the relations in
  scope from deeper catalogs and puts the joins first. The analysis of the text and what the schema
  cache returns are arguments; a catalog here is its trees.
\<close>

section \<open>Entry points\<close>

definition upper_ascii :: "string \<Rightarrow> string" where
  "upper_ascii s =
     map (\<lambda>c. let n = (of_char c :: nat) in if 97 \<le> n \<and> n \<le> 122 then char_of (n - 32) else c) s"

definition is_ascii_alphabetic :: "char \<Rightarrow> bool" where
  "is_ascii_alphabetic c =
     (let n = (of_char c :: nat) in (65 \<le> n \<and> n \<le> 90) \<or> (97 \<le> n \<and> n \<le> 122))"

definition keyword_preview :: "string \<Rightarrow> completion_candidate list" where
  "keyword_preview typed =
     (let prefix = upper_ascii typed
      in if length prefix < 2 \<or> \<not> list_all is_ascii_alphabetic prefix then []
         else map (\<lambda>kw. word_candidate CKeyword kw None kw 0)
                (filter (\<lambda>kw. starts_with prefix kw \<and> kw \<notin> {''EXPLAIN'', ''LIMIT'', ''RETURNING''})
                  (statement_leads @ common_keywords)))"

definition at_char_boundary :: "string \<Rightarrow> nat \<Rightarrow> bool" where
  "at_char_boundary s i \<longleftrightarrow>
     i = 0 \<or> i = length s \<or> (i < length s \<and> \<not> (128 \<le> (of_char (s ! i) :: nat) \<and> (of_char (s ! i) :: nat) < 192))"

fun floor_char_boundary :: "string \<Rightarrow> nat \<Rightarrow> nat" where
  "floor_char_boundary s 0 = 0"
| "floor_char_boundary s (Suc i) = (if at_char_boundary s (Suc i) then Suc i else floor_char_boundary s i)"

text \<open>The analysis of a text up to a position is the semantic document's.\<close>

type_synonym analyser = "string \<Rightarrow> nat \<Rightarrow> engine \<Rightarrow> completion_analysis"

definition detect_context :: "analyser \<Rightarrow> string \<Rightarrow> nat \<Rightarrow> engine \<Rightarrow> completion_analysis" where
  "detect_context analyse sql cursor engine =
     analyse sql (floor_char_boundary sql (min cursor (length sql))) engine"

text \<open>\<^verbatim>\<open>u32::try_from(..).unwrap_or(u32::MAX)\<close>.\<close>

definition clamp_u32 :: "nat \<Rightarrow> u32" where
  "clamp_u32 n = (if n < 2 ^ 32 then of_nat n else - 1)"

definition response_limit :: "u32 option \<Rightarrow> nat" where
  "response_limit limit = (case limit of None \<Rightarrow> 50 | Some n \<Rightarrow> min (unat n) 200)"

definition complete_with_analysis ::
    "u32 option \<Rightarrow> completion_analysis \<Rightarrow> dictionary \<Rightarrow> engine \<Rightarrow> completion_response" where
  "complete_with_analysis limit ctx dict engine =
     \<lparr>rs_candidates = ranked_candidates ctx dict engine (response_limit limit),
      rs_replaced_range =
        \<lparr>br_start = clamp_u32 (an_prefix_start ctx), br_end = clamp_u32 (an_replacement_end ctx)\<rparr>,
      rs_context = an_context ctx\<rparr>"

definition complete_with_context ::
    "completion_request \<Rightarrow> completion_analysis \<Rightarrow> dictionary \<Rightarrow> engine \<Rightarrow> completion_response" where
  "complete_with_context req ctx dict engine = complete_with_analysis (cr_limit req) ctx dict engine"

definition complete_with_dictionary ::
    "analyser \<Rightarrow> completion_request \<Rightarrow> dictionary \<Rightarrow> engine \<Rightarrow> completion_response" where
  "complete_with_dictionary analyse req dict engine =
     (let cursor = min (unat (cr_cursor req)) (length (cr_sql req));
          ctx = detect_context analyse (cr_sql req) cursor engine
      in complete_with_context req ctx dict engine)"

definition complete_request ::
    "analyser \<Rightarrow> completion_request \<Rightarrow> catalog_tree list \<Rightarrow> engine \<Rightarrow> completion_response" where
  "complete_request analyse req trees engine = complete_with_dictionary analyse req (dictionary_of trees) engine"

section \<open>Deeper catalogs\<close>

definition object_key :: "string option \<Rightarrow> string option \<Rightarrow> string \<Rightarrow> string option \<times> string option \<times> string" where
  "object_key catalog schema name =
     (map_option lower_ascii catalog, map_option lower_ascii schema, lower_ascii name)"

text \<open>The objects of the deep catalog by key; of two with one key the later is kept.\<close>

definition deep_objects :: "catalog_tree list \<Rightarrow> string option \<times> string option \<times> string \<rightharpoonup> object_info" where
  "deep_objects deep =
     map_of (rev (concat (map (\<lambda>catalog. concat (map (\<lambda>schema.
       map (\<lambda>obj. (object_key (Some (ct_name catalog)) (Some (st_name schema)) (oi_name obj), obj)) (st_objects schema))
       (ct_schemas catalog))) deep)))"

definition deepen :: "object_info \<Rightarrow> object_info \<Rightarrow> object_info" where
  "deepen d obj =
     obj\<lparr>oi_columns := oi_columns d, oi_indexes := oi_indexes d, oi_constraints := oi_constraints d,
         oi_triggers := oi_triggers d, oi_routine_args := oi_routine_args d\<rparr>"

definition merge_object ::
    "(string option \<times> string option \<times> string \<rightharpoonup> object_info) \<Rightarrow> string \<Rightarrow> string \<Rightarrow> object_info \<Rightarrow> object_info" where
  "merge_object found catalog schema obj =
     (case found (object_key (Some catalog) (Some schema) (oi_name obj)) of None \<Rightarrow> obj | Some d \<Rightarrow> deepen d obj)"

definition merge_deep_into_shallow :: "catalog_tree list \<Rightarrow> catalog_tree list \<Rightarrow> catalog_tree list" where
  "merge_deep_into_shallow shallow deep =
     map (\<lambda>tree. tree\<lparr>ct_schemas := map (\<lambda>schema.
         schema\<lparr>st_objects := map (merge_object (deep_objects deep) (ct_name tree) (st_name schema)) (st_objects schema)\<rparr>)
       (ct_schemas tree)\<rparr>) shallow"

definition deep_references :: "completion_analysis \<Rightarrow> string list" where
  "deep_references ctx =
     (case an_context ctx of
        ExpectingColumn (Some q) \<Rightarrow>
          [case Option.bind (find (\<lambda>r. eq_ignore_case (rel_name r) q) (an_relations ctx)) rel_target of
             None \<Rightarrow> q | Some t \<Rightarrow> t]
      | ExpectingColumn None \<Rightarrow>
          take 8 (map (\<lambda>r. case rel_target r of None \<Rightarrow> rel_name r | Some t \<Rightarrow> t)
            (filter (\<lambda>r. \<not> rel_is_alias r) (an_relations ctx)))
      | _ \<Rightarrow> [])"

text \<open>One reference: the merged catalog, whether one was read, and the references already seen.\<close>

definition hydrate ::
    "dictionary \<Rightarrow> (object_path \<Rightarrow> catalog_tree list option) \<Rightarrow> string
       \<Rightarrow> catalog_tree list \<times> bool \<times> string set \<Rightarrow> catalog_tree list \<times> bool \<times> string set" where
  "hydrate dict read_deep reference acc =
     (case acc of (merged, hydrated, seen) \<Rightarrow>
        if lower_ascii reference \<in> seen then acc
        else (let seen = insert (lower_ascii reference) seen
              in case Option.bind (resolve_object_path dict reference) read_deep of
                   None \<Rightarrow> (merged, hydrated, seen)
                 | Some deep \<Rightarrow> (merge_deep_into_shallow merged deep, True, seen)))"

definition generate_from_analysis ::
    "engine \<Rightarrow> u32 option \<Rightarrow> completion_analysis \<Rightarrow> catalog_tree list
       \<Rightarrow> (object_path \<Rightarrow> catalog_tree list option) \<Rightarrow> completion_response" where
  "generate_from_analysis engine limit ctx shallow read_deep =
     (case fold (hydrate (dictionary_of shallow) read_deep) (deep_references ctx) (shallow, False, {}) of
        (merged, hydrated, _) \<Rightarrow>
          if hydrated then complete_with_analysis limit ctx (dictionary_of merged) engine
          else complete_with_analysis limit ctx (dictionary_of shallow) engine)"

text \<open>The graph is there when it was fetched in time.\<close>

definition generate_from_semantic ::
    "engine \<Rightarrow> u32 option \<Rightarrow> completion_analysis \<Rightarrow> api_error + catalog_tree list
       \<Rightarrow> (object_path \<Rightarrow> catalog_tree list option) \<Rightarrow> catalog_graph_data option
       \<Rightarrow> api_error + completion_response" where
  "generate_from_semantic engine limit ctx shallow read_deep graph =
     res_bind shallow (\<lambda>trees.
       let response = generate_from_analysis engine limit ctx trees read_deep
       in Inr (case (an_join_slot ctx, graph) of
            (True, Some g) \<Rightarrow>
              (let cap = response_limit limit
               in response\<lparr>rs_candidates := take cap (join_candidates ctx g engine cap @ rs_candidates response)\<rparr>)
          | _ \<Rightarrow> response))"

section \<open>What the responses hold\<close>

lemma floor_char_boundary_found:
  "at_char_boundary s (floor_char_boundary s i)" "floor_char_boundary s i \<le> i"
  "floor_char_boundary s i < j \<Longrightarrow> j \<le> i \<Longrightarrow> \<not> at_char_boundary s j"
  by (induction s i rule: floor_char_boundary.induct)
     (auto simp: at_char_boundary_def le_Suc_eq split: if_splits)

lemma response_limit_bound: "response_limit limit \<le> 200"
  by (simp add: response_limit_def split: option.splits)

lemma responses_are_bounded: "length (rs_candidates (complete_with_analysis limit ctx dict engine)) \<le> 200"
proof -
  have "length (ranked_candidates ctx dict engine (response_limit limit)) \<le> response_limit limit" by (simp add: ranked_candidates_def)
  with response_limit_bound [of limit] show ?thesis by (simp add: complete_with_analysis_def)
qed

lemma generated_responses_are_bounded:
  assumes "generate_from_semantic engine limit ctx shallow read_deep graph = Inr response"
  shows "length (rs_candidates response) \<le> 200"
proof -
  have base: "length (rs_candidates (generate_from_analysis engine limit ctx trees read_deep)) \<le> 200" for trees
    using responses_are_bounded by (simp add: generate_from_analysis_def split: prod.splits)
  from assms response_limit_bound [of limit] show ?thesis
    by (auto simp: generate_from_semantic_def res_bind_Inr_conv Let_def base split: bool.splits option.splits)
qed

text \<open>
  Merging deep catalogs leaves the places, names, kinds and comments of all objects alone, so a name
  resolves to the same place before and after.
\<close>

definition place :: "object_entry \<Rightarrow> string option \<times> string option \<times> string \<times> object_kind \<times> string option" where
  "place e = (obe_catalog e, obe_schema e, obe_name e, obe_kind e, obe_comment e)"

lemma place_of_entry:
  "place (object_entry_of obj c s) = (c, s, oi_name obj, oi_kind obj, oi_comment obj)"
  by (simp add: place_def object_entry_of_def)

lemma merge_object_place: "place (object_entry_of (merge_object found c s obj) c' s') = place (object_entry_of obj c' s')"
  by (simp add: place_of_entry merge_object_def deepen_def split: option.splits)

lemma merge_keeps_places:
  "map place (tree_objects (merge_deep_into_shallow shallow deep)) = map place (tree_objects shallow)"
  by (induction shallow)
     (simp_all add: tree_objects_def merge_deep_into_shallow_def map_concat comp_def merge_object_place)

lemma merge_keeps_schemas:
  "dic_schemas (dictionary_of (merge_deep_into_shallow shallow deep)) = dic_schemas (dictionary_of shallow)"
  by (simp add: dictionary_of_def Let_def merge_deep_into_shallow_def comp_def)

lemma hydrate_keeps_places:
  "map place (tree_objects (fst (fold (hydrate dict read_deep) rs acc))) = map place (tree_objects (fst acc))"
proof (induction rs arbitrary: acc)
  case (Cons r rs)
  have "map place (tree_objects (fst (hydrate dict read_deep r acc))) = map place (tree_objects (fst acc))"
    by (auto simp: hydrate_def Let_def merge_keeps_places split: prod.splits option.splits)
  with Cons show ?case by simp
qed simp

text \<open>An object whose key the deep catalog does not have is not touched.\<close>

lemma merge_leaves_others:
  "deep_objects deep (object_key (Some c) (Some s) (oi_name obj)) = None \<Longrightarrow>
     merge_object (deep_objects deep) c s obj = obj"
  by (simp add: merge_object_def)

end
