(* ===== verification/Spec2Isabelle.thy ===== *)
theory Spec2Isabelle
  imports Sift_Prelude Sift_Protocol Interfaces Tenant_Resources Generation_Limiter
    Generation_Coordinator Comparison_Values Row_Comparison Execution_Events Text_Replica
    Document_Store Document_Actor Document_Registry Room_Messages Chunk_Transfer Room_Replica
    Room_Runtime Room_Results Authorization Sql_Policy Catalog_Types Catalog_Graph Catalog_Validation
    Catalog_Projection Catalog_Mutation Schema_Diff Change_Order Diff_Matching Diff_Overloads
    Snapshot_Filter Quoting Sql_Variables Edit_Plan
    Cursor_Registry Cursor_Delivery Cursor_Spills Cursor_Bookkeeping Cursor_Memory
    Keyed_Locks Schema_Cache Schema_Invalidators Schema_Fetch Fetch_Safety Fetch_Freshness
    Completion_Types Completion_Dictionary Completion_Rank Completion_Insert Completion_Relevance
    Join_Paths Join_Soundness Fuzzy_Match Completion_Service
begin

text \<open>
  Verification of the core of sift, a collaborative SQL workbench. The Rust crates under
  \<^verbatim>\<open>src/crates\<close> form a server that runs queries and hosts shared rooms, a client library, and
  desktop front ends; this development models the parts of the server and of the client
  library that carry state and decide things.

  \<^bold>\<open>Parts and theories.\<close>

  \<^item> \<open>Sift_Prelude\<close>: machine integers with saturation, results, text and time. \<open>Sift_Protocol\<close>:
    the wire types of \<^verbatim>\<open>crates/protocol\<close> that more than one part uses (engines, values, columns,
    pages, schema objects, errors). \<open>Interfaces\<close>: the locales several parts share.
  \<^item> \<open>Tenant_Resources\<close>: the resource manager of \<^verbatim>\<open>server/src/resources.rs\<close>. \<open>tenant_manager\<close>
    holds its mutex-protected tables; \<open>reserve\<close> and \<open>drop_guard\<close> are the two ends of a guard.
  \<^item> \<open>Generation_Limiter\<close>, \<open>Generation_Coordinator\<close>: restart budget, process admission and
    generation switching of extensions, \<^verbatim>\<open>plugin-host/src/lifecycle.rs\<close>. The coordinator's
    asynchronous methods are split at their await points; the inductive relation of
    \<open>Generation_Coordinator\<close> interleaves the pieces of any number of callers.
  \<^item> \<open>Comparison_Values\<close>, \<open>Row_Comparison\<close>: the result comparison of
    \<^verbatim>\<open>core/src/comparison.rs\<close>, cells first, then columns, keys, groups and the whole
    \<open>compare\<close>.
  \<^item> \<open>Execution_Events\<close>: the event contract of \<^verbatim>\<open>protocol/src/execution.rs\<close> with its legacy
    projection, and the normalizer of \<^verbatim>\<open>server/src/execution_events.rs\<close> that produces it.
  \<^item> \<open>Text_Replica\<close> (\<^verbatim>\<open>doc/src/lib.rs\<close>), \<open>Document_Store\<close> (the document tables of
    \<^verbatim>\<open>metadata/src/lib.rs\<close>), \<open>Document_Actor\<close> and \<open>Document_Registry\<close>
    (\<^verbatim>\<open>server/src/document_actor.rs\<close>, \<^verbatim>\<open>server/src/document_registry.rs\<close>): a shared document on
    the server, from the replicated text through its durable log to the cache of live
    documents and the leases of their writers.
  \<^item> \<open>Room_Messages\<close> (\<^verbatim>\<open>protocol/src/room.rs\<close>), \<open>Chunk_Transfer\<close>
    (\<^verbatim>\<open>send_document_transfer\<close> of \<^verbatim>\<open>server/src/http.rs\<close> and
    \<^verbatim>\<open>client-sdk/src/room_replica/transfers.rs\<close>) and \<open>Room_Replica\<close>
    (\<^verbatim>\<open>client-sdk/src/room_replica.rs\<close>): the same document on a client.
  \<^item> \<open>Room_Runtime\<close> (\<^verbatim>\<open>server/src/room_runtime.rs\<close>): who is in a room. Rooms live in a heap,
    since the map of rooms and the subscriptions share them; the calls that end in an eviction are
    split before it, and \<open>runtime_step\<close> interleaves them. \<open>Room_Results\<close>
    (\<^verbatim>\<open>server/src/room_results.rs\<close>): the query results shared in a room.
  \<^item> \<open>Authorization\<close> (\<^verbatim>\<open>server/src/authorization.rs\<close>, the roles and policies of
    \<^verbatim>\<open>protocol/src/policy.rs\<close>), \<open>Sql_Policy\<close> and \<open>Snapshot_Filter\<close>
    (\<^verbatim>\<open>server/src/sql_policy.rs\<close>): which operations, which statements and which part of a catalog a
    caller may use. An operation is its wire name.
  \<^item> \<open>Sql_Variables\<close> (\<^verbatim>\<open>sql-variables/src/lib.rs\<close>): the compiler of SQL templates;
    \<open>scan_template\<close> is its scanner, \<open>compile_reference\<close> one round of its loop. \<open>Edit_Plan\<close>
    (\<^verbatim>\<open>server/src/edit.rs\<close>, \<^verbatim>\<open>apply_edits_guarded\<close> of \<^verbatim>\<open>server/src/session.rs\<close>): the
    statements for edits of a result grid and their transaction. Both write delimited
    identifiers, whose reader is in \<open>Quoting\<close>.
  \<^item> \<open>Catalog_Types\<close> (\<^verbatim>\<open>protocol/src/catalog.rs\<close>, \<^verbatim>\<open>protocol/src/schema_diff.rs\<close>),
    \<open>Catalog_Graph\<close>, \<open>Catalog_Validation\<close>, \<open>Catalog_Projection\<close>, \<open>Catalog_Mutation\<close>
    (\<^verbatim>\<open>core/src/catalog.rs\<close>): the graph of a database's objects, its canonical order, what a
    provider's graph must satisfy (\<open>validate_graph\<close>), the part a request or a diagram shows
    (\<open>project_graph\<close>, \<open>project_diagram\<close>) and the changes a diagram proposes
    (\<open>apply_diagram_mutation\<close>). \<open>Schema_Diff\<close> (\<^verbatim>\<open>core/src/schema_diff.rs\<close>) compares two graphs;
    \<open>Change_Order\<close>, \<open>Diff_Matching\<close> and \<open>Diff_Overloads\<close> hold its theorems.
  \<^item> \<open>Cursor_Registry\<close> (\<^verbatim>\<open>server/src/cursors.rs\<close>): open cursors and the pumps between drivers and
    consumers. \<open>perform\<close> is one step of anything in a \<open>cursor_world\<close>, \<open>cursor_steps\<close> a run. A pump is
    cut at its await points (\<open>pump_run\<close>), opening a cursor between its evictions and its registration
    (\<open>open_begin\<close>, \<open>open_finish\<close>). \<open>Cursor_Delivery\<close> projects the world onto one pump (\<open>pump_move\<close>)
    and shows what its consumer gets, \<open>Cursor_Spills\<close> what eviction writes to disk and resuming reads,
    \<open>Cursor_Bookkeeping\<close> the tables and the cap, \<open>Cursor_Memory\<close> the tenant's memory.
  \<^item> \<open>Keyed_Locks\<close> (\<^verbatim>\<open>server/src/keyed_lock.rs\<close>): mutexes by key, whose table \<open>abs_locks\<close> reads as one lock
    per key. \<open>Schema_Cache\<close> and \<open>Schema_Invalidators\<close> (\<^verbatim>\<open>server/src/schema_cache.rs\<close>): catalogs read
    from databases, kept fresh for a while and stale after that, and the tasks that invalidate them.
    \<open>Schema_Fetch\<close> (\<^verbatim>\<open>schema_cached\<close> of \<^verbatim>\<open>server/src/session.rs\<close>): the calls that read through the
    cache, cut at their waits and between the check of the epoch and the insertion; \<open>fetch_step\<close> is one
    step of a call, of an invalidation or of time, \<open>fetch_run\<close> a run. \<open>Fetch_Safety\<close> holds their
    invariant, \<open>Fetch_Freshness\<close> their properties.
  \<^item> \<open>Completion_Types\<close> (\<^verbatim>\<open>protocol/src/completion.rs\<close>, \<^verbatim>\<open>completion/src/keywords.rs\<close> and the records
    completion gets from \<^verbatim>\<open>semantic/src/lib.rs\<close>), \<open>Completion_Dictionary\<close>
    (\<^verbatim>\<open>completion/src/dictionary.rs\<close>): a catalog's names and the indexes over them.
    \<open>Completion_Rank\<close> (\<^verbatim>\<open>completion/src/rank.rs\<close>): \<open>generated\<close> is what the slot's producers append,
    \<open>ranked_candidates\<close> what is returned of it. \<open>Completion_Insert\<close> reads inserted names back,
    \<open>Completion_Relevance\<close> relates candidates to what was typed. \<open>Join_Paths\<close>
    (\<^verbatim>\<open>completion/src/joins.rs\<close>) is the search for joins, \<open>follow_edge\<close> one round of its inner loop,
    and \<open>Join_Soundness\<close> its theorems. \<open>Fuzzy_Match\<close> (\<^verbatim>\<open>completion/src/fuzzy.rs\<close>) searches schemas.
    \<open>Completion_Service\<close> (\<^verbatim>\<open>completion/src/lib.rs\<close>, \<^verbatim>\<open>server/src/autocomplete.rs\<close>) puts them together.

  A client's edit leaves \<open>local_insert\<close> as an update message, is admitted by \<open>guard_ensure\<close>,
  stored and applied by \<open>apply_update\<close>, and comes back to every other client through \<open>ingest\<close>;
  a client that starts or falls behind is sent \<open>document_transfer\<close> of what
  \<open>actor_snapshot\<close> or \<open>actor_updates_since\<close> return. A request for SQL passes \<open>authorize\<close>, then
  \<open>enforce\<close>; a shared result is read page by page through \<open>result_pages\<close>, or compared with another
  through \<open>result_dataset\<close>, whose value is what \<open>Row_Comparison\<close> takes. A catalog is made by
  \<open>graph_from_trees\<close>, normalized, validated, filtered for its reader by \<open>filter_graph\<close> and projected;
  a diagram's change is applied to a copy, whose difference to the original is what
  \<open>diff_catalogs\<close> reports. A completion reads its catalogs through \<open>fetch_step\<close>'s calls; a graph among
  them is what \<open>join_candidates\<close> searches.

  \<^bold>\<open>What the lemmas show.\<close>

  \<^item> Ledgers (\<open>Interfaces.bounded_ledger\<close>): resource guards, extension permits and writer leases
    are conserved under any interleaving of acquisition and drop, stay within their caps, and
    leave nothing behind.
  \<^item> State machines: a drained extension generation is quiet before its successor is
    promoted, activation's failure paths are described exactly, and every event the
    normalizer emits is identified, bounded and paced.
  \<^item> Functional correctness: the comparison conserves rows, pairs columns by a partial
    bijection, agrees with exact arithmetic on numbers and does not depend on row order; a
    restart is granted exactly when the window allows it.
  \<^item> Refinements: the normalizer's event stream projects to the first result's pages
    (\<open>producer_consumer\<close>), and the live document actor is at all times what a reload from its
    log would rebuild (\<open>Document_Store.update_log\<close>).
  \<^item> Access: more authority never loses an operation, a schema-restricted profile admits exactly
    the statements whose relations are bound or selected, and the loops of the catalog filter end
    with exactly the reachable nodes.
  \<^item> Catalogs: validation accepts exactly the sound graphs, on which every walk along parents ends;
    projections are closed under ancestors and diagrams show exactly a neighbourhood. A
    difference loses no object, orders its changes by their dependencies and marks exactly the
    cycles.
  \<^item> Generated SQL: the text a template compiles to does not depend on the values bound, a quoted
    identifier is read back (\<open>Quoting.identifier_quoting\<close>, interpreted on every writer), the source
    map is exact, and every update and delete of an edit plan means what the edit says.
  \<^item> Transactions: committed data changes only when every statement of a plan ran on one row.
  \<^item> Liveness: the evictions left over by concurrent calls end (\<open>Interfaces.draining_system\<close>), and
    then no idle room is left.
  \<^item> Round trips and bounds: chunked transfers reassemble in any order and cost a bounded
    amount when hostile; a shared result reads back page by page.
  \<^item> Cursors: whatever is interleaved, a consumer gets its driver's pages in order and then at most one
    error, retained memory is exactly what is alive (\<open>Interfaces.permit_ledger\<close> once more), and
    cancelled pumps stop.
  \<^item> Cached catalogs: the table of locks refines one lock per key, so a catalog is read by one call at a
    time; the cache keeps its index and its bound; and what is fresh was asked for after the last
    invalidation, unless that fell between a call's check and its insertion.
  \<^item> Completion: the binary searches agree with filtering the whole catalog, the ranking keeps the best of
    what was produced, an inserted name is read back (\<open>Quoting.identifier_quoting\<close> for the joins' tables)
    and resolves to its object, offered joins are chains of proven foreign keys, and the fuzzy matcher
    decides subsequences.
  \<^item> Error theorems state what happens when an update id is reused, that a restored client
    reuses them, that a WITH clause can hide a table from the schema check, that renaming a
    container drops overloads, that overlapping openings exceed the cap of cursors, that a spill
    holds one page, that an invalidation can be overtaken by an insertion, that first reads of one
    connection make each other fail, that a lost connection hides the stale copy, and that a task which
    ends early blocks its successors.

  \<^bold>\<open>Parameters.\<close> Code outside the repository is an argument: the Loro document library (the
  record \<open>loro\<close>, with \<open>loro_laws\<close> as the hypotheses and \<open>demo_loro\<close> as the instance that
  satisfies them), the sqlparser crate (\<open>sql_env\<close>: the shape of each statement and the calls its
  traversal makes), hashing, JSON, encryption and Unicode functions (\<open>compare_env\<close>, \<open>actor_env\<close>,
  \<open>unicode_env\<close>, \<open>result_env\<close>, \<open>catalog_env\<close>, \<open>diff_env\<close>, whose orders are those in which a hash map
  lists its values, \<open>cursor_env\<close>, \<open>key_env\<close> and \<open>fetch_env\<close>; the order of the cache's maps is an argument
  of each step), the session store's calls of an edit (\<open>session_calls\<close>, with
  \<open>isolated_calls\<close> as the transaction isolation databases document), the analysis of the text before a
  completion and the catalogs read for it, the lower case and the class of a Unicode character in the
  fuzzy matcher, clocks and random numbers. A
  database call that may fail takes the fault as an argument. Locks are modelled by atomic steps.

  \<^bold>\<open>Bounds.\<close> No definition uses fuel: every loop is structural or terminates by a measure, but the
  loops of the catalog filter, of projections and of renaming, which follow parents until nothing
  is left: they are \<open>while_option\<close>, with proofs that the filter and the projections end, the
  latter on validated graphs. The search for joins ends because each queued item costs one of the edges
  the code allows it to look at.
  Counters that the code saturates or wraps are words; sizes the code bounds far below the
  machine's word (transfer bytes, log lengths, history estimates) are naturals. Signed
  identifiers are integers.

  \<^bold>\<open>Not modelled.\<close> The SQL drivers and the rest of the metadata store, HTTP and session
  plumbing, file-system and process orchestration, the user interfaces, the semantic analysis
  over the SQL parser, wire encodings, cursors of text documents, the row selection for the
  assistant in \<^verbatim>\<open>room_results.rs\<close>, and the adapters a room runtime only hands out.
\<close>

end
